(* ===== verification/GB_Prelude.thy ===== *)
theory GB_Prelude
  imports Complex_Main "HOL-Library.AList" "HOL-Library.Log_Nat"
begin

text \<open>
  Shared vocabulary of the development: the untyped Python values that reach the
  validators, Python strings, dictionaries in insertion order, the number formats the
  code relies on (arbitrary precision integers, IEEE doubles, the 28-digit default
  context of \<^verbatim>\<open>decimal\<close>), the state-and-exception monad in which the stateful classes
  are modelled, and the weakest-precondition rules that carry their proofs.
\<close>

named_theorems wp_rules \<open>weakest precondition equations of the Python monad\<close>
named_theorems wp_intros \<open>weakest precondition rules applied backwards, one statement at a time\<close>
named_theorems dict_rules \<open>lookup, keys and sums of updated dictionaries\<close>

section \<open>Untyped Python values\<close>

text \<open>
  A finite Python float is the rational it denotes, so comparisons between integers and
  floats are exact, as they are in Python.
\<close>

datatype pyfloat = FFin rat | FPosInf | FNegInf | FNan

datatype pyval =
    PyNone
  | PyBool bool
  | PyInt int
  | PyFloat pyfloat
  | PyStr string
  | PyList "pyval list"
  | PyTuple "pyval list"
  | PyDict "(pyval \<times> pyval) list"
  | PyOther

text \<open>An argument checked by \<^verbatim>\<open>isinstance\<close>: \<^verbatim>\<open>None\<close>, an object of the class, or anything else.\<close>

datatype 'a instance_arg = ArgNone | ArgObject 'a | ArgOther

subsection \<open>Equality\<close>

text \<open>
  Python's \<^verbatim>\<open>==\<close>: booleans, integers and floats compare as numbers, dictionaries regardless of
  order. Other objects compare unequal; an element that is not equal to itself, NaN, is
  compared by value although containers look at identity first.
\<close>

fun py_number :: "pyval \<Rightarrow> pyfloat option" where
  "py_number (PyBool b) = Some (FFin (if b then 1 else 0))"
| "py_number (PyInt i) = Some (FFin (of_int i))"
| "py_number (PyFloat f) = Some f"
| "py_number _ = None"

definition py_number_eq :: "pyval \<Rightarrow> pyval \<Rightarrow> bool" where
  "py_number_eq u v \<longleftrightarrow> py_number u \<noteq> None \<and> py_number u = py_number v \<and> py_number u \<noteq> Some FNan"

function (sequential) py_eq :: "pyval \<Rightarrow> pyval \<Rightarrow> bool"
and py_eq_list :: "pyval list \<Rightarrow> pyval list \<Rightarrow> bool"
and py_eq_items :: "(pyval \<times> pyval) list \<Rightarrow> (pyval \<times> pyval) list \<Rightarrow> bool"
and py_eq_get :: "pyval \<Rightarrow> pyval \<Rightarrow> (pyval \<times> pyval) list \<Rightarrow> bool" where
  "py_eq u v =
     (case u of
        PyNone \<Rightarrow> v = PyNone
      | PyStr s \<Rightarrow> v = PyStr s
      | PyList xs \<Rightarrow> (case v of PyList ys \<Rightarrow> py_eq_list xs ys | _ \<Rightarrow> False)
      | PyTuple xs \<Rightarrow> (case v of PyTuple ys \<Rightarrow> py_eq_list xs ys | _ \<Rightarrow> False)
      | PyDict xs \<Rightarrow> (case v of PyDict ys \<Rightarrow> length xs = length ys \<and> py_eq_items xs ys | _ \<Rightarrow> False)
      | _ \<Rightarrow> py_number_eq u v)"
| "py_eq_list [] ys = (ys = [])"
| "py_eq_list (x # xs) ys = (case ys of [] \<Rightarrow> False | y # ys' \<Rightarrow> py_eq x y \<and> py_eq_list xs ys')"
| "py_eq_items [] ys = True"
| "py_eq_items ((k, v) # xs) ys = (py_eq_get k v ys \<and> py_eq_items xs ys)"
| "py_eq_get k v [] = False"
| "py_eq_get k v ((k', v') # ys) = (if py_eq k k' then py_eq v v' else py_eq_get k v ys)"

  by pat_completeness auto

termination
  by (relation "measure (\<lambda>x. case x of
      Inl (Inl (u, v)) \<Rightarrow> size u + size v
    | Inl (Inr (xs, ys)) \<Rightarrow> size_list size xs + size_list size ys
    | Inr (Inl (xs, ys)) \<Rightarrow> size_list (size_prod size size) xs + size_list (size_prod size size) ys
    | Inr (Inr (k, v, ys)) \<Rightarrow> size k + size v + size_list (size_prod size size) ys)") simp_all

declare py_eq.simps [simp del]

text \<open>Values that are false in a condition.\<close>

fun py_falsy :: "pyval \<Rightarrow> bool" where
  "py_falsy PyNone = True"
| "py_falsy (PyBool b) = (\<not> b)"
| "py_falsy (PyInt i) = (i = 0)"
| "py_falsy (PyFloat f) = (f = FFin 0)"
| "py_falsy (PyStr s) = (s = [])"
| "py_falsy (PyList xs) = (xs = [])"
| "py_falsy (PyTuple xs) = (xs = [])"
| "py_falsy (PyDict xs) = (xs = [])"
| "py_falsy PyOther = False"

section \<open>Strings\<close>

text \<open>
  A string is a list of code points below 256. White space is what \<^verbatim>\<open>str.strip\<close> removes
  in that range.
\<close>

definition code_point :: "char \<Rightarrow> nat" where
  "code_point c = of_char c"

definition py_space :: "char \<Rightarrow> bool" where
  "py_space c \<longleftrightarrow>
     (let n = code_point c in
      (9 \<le> n \<and> n \<le> 13) \<or> (28 \<le> n \<and> n \<le> 32) \<or> n = 133 \<or> n = 160)"

definition py_strip :: "string \<Rightarrow> string" where
  "py_strip s = rev (dropWhile py_space (rev (dropWhile py_space s)))"

definition has_control :: "string \<Rightarrow> bool" where
  "has_control s \<longleftrightarrow> (\<exists>c\<in>set s. code_point c < 32 \<or> code_point c = 127)"

definition has_surrogate :: "string \<Rightarrow> bool" where
  "has_surrogate s \<longleftrightarrow> (\<exists>c\<in>set s. 55296 \<le> code_point c \<and> code_point c \<le> 57343)"

lemma has_surrogate_False [simp]: "has_surrogate s = False"
proof -
  have "\<not> 55296 \<le> code_point c" for c
  proof -
    have "code_point c < 256"
      by (simp add: code_point_def)
    then show ?thesis by linarith
  qed
  then show ?thesis
    by (simp add: has_surrogate_def)
qed


lemma strip_id: "s \<noteq> [] \<Longrightarrow> \<not> py_space (hd s) \<Longrightarrow> \<not> py_space (last s) \<Longrightarrow> py_strip s = s"
  by (simp add: py_strip_def dropWhile_eq_self_iff [THEN iffD2] hd_rev)

lemma strip_hd: "py_strip s = s \<Longrightarrow> s \<noteq> [] \<Longrightarrow> \<not> py_space (hd s)"
proof (cases s)
  case (Cons c cs)
  assume strip: "py_strip s = s"
  have "length (py_strip s) \<le> length (dropWhile py_space s)"
    by (simp add: py_strip_def) (metis length_dropWhile_le length_rev)
  moreover have "length (dropWhile py_space s) \<le> length cs" if "py_space c"
    using that Cons by (simp add: length_dropWhile_le)
  ultimately show ?thesis using strip Cons by auto
qed simp

lemma letter_not_space: "33 \<le> code_point c \<Longrightarrow> code_point c < 127 \<Longrightarrow> \<not> py_space c"
  by (simp add: py_space_def Let_def)

lemma code_point_Char [simp]: "code_point (Char b0 b1 b2 b3 b4 b5 b6 b7) = of_char (Char b0 b1 b2 b3 b4 b5 b6 b7)"
  by (simp add: code_point_def)

subsection \<open>Decimal numerals in identifiers\<close>

text \<open>
  The format \<^verbatim>\<open>{n:06d}\<close> of record identifiers, and the parser \<^verbatim>\<open>int(suffix)\<close> guarded by
  \<^verbatim>\<open>suffix.isascii() and suffix.isdecimal()\<close>.
\<close>

fun nat_digits :: "nat \<Rightarrow> string" where
  "nat_digits n =
     (if n < 10 then [char_of (48 + n)] else nat_digits (n div 10) @ [char_of (48 + n mod 10)])"

declare nat_digits.simps [simp del]

definition fmt_06d :: "int \<Rightarrow> string" where
  "fmt_06d i =
     (let d = nat_digits (nat \<bar>i\<bar>) in
      if i < 0 then CHR ''-'' # replicate (5 - length d) CHR ''0'' @ d
      else replicate (6 - length d) CHR ''0'' @ d)"

definition is_digit :: "char \<Rightarrow> bool" where
  "is_digit c \<longleftrightarrow> 48 \<le> code_point c \<and> code_point c \<le> 57"

definition is_ascii_decimal :: "string \<Rightarrow> bool" where
  "is_ascii_decimal s \<longleftrightarrow> s \<noteq> [] \<and> list_all is_digit s"

definition int_of_decimal :: "string \<Rightarrow> int" where
  "int_of_decimal s = foldl (\<lambda>acc c. 10 * acc + (int (code_point c) - 48)) 0 s"

definition starts_with :: "string \<Rightarrow> string \<Rightarrow> bool" where
  "starts_with s p \<longleftrightarrow> take (length p) s = p"

definition remove_prefix :: "string \<Rightarrow> string \<Rightarrow> string" where
  "remove_prefix s p = (if starts_with s p then drop (length p) s else s)"

definition numeric_suffix :: "string \<Rightarrow> string \<Rightarrow> int option" where
  "numeric_suffix s p =
     (let suffix = remove_prefix s p in
      if starts_with s p \<and> is_ascii_decimal suffix then Some (int_of_decimal suffix) else None)"

lemma starts_with_append [simp]: "starts_with (p @ t) p"
  by (simp add: starts_with_def)

lemma remove_prefix_append [simp]: "remove_prefix (p @ t) p = t"
  by (simp add: remove_prefix_def)

lemma code_point_char_of [simp]: "n < 256 \<Longrightarrow> code_point (char_of n) = n"
  by (simp add: code_point_def)

lemma digit_not_space: "is_digit c \<Longrightarrow> \<not> py_space c"
  by (auto simp: is_digit_def py_space_def Let_def)

lemma is_digit_char_of [simp]: "(n::nat) < 10 \<Longrightarrow> is_digit (char_of (48 + n))"
  by (simp add: is_digit_def)

lemma int_of_decimal_append [simp]:
  "int_of_decimal (s @ [c]) = 10 * int_of_decimal s + (int (code_point c) - 48)"
  by (simp add: int_of_decimal_def)

lemma int_of_decimal_nat_digits [simp]: "int_of_decimal (nat_digits n) = int n"
proof (induction n rule: nat_digits.induct)
  case (1 n)
  show ?case
  proof (cases "n < 10")
    case True
    then show ?thesis by (simp add: nat_digits.simps [of n] int_of_decimal_def)
  next
    case False
    with 1 show ?thesis by (simp add: nat_digits.simps [of n] zdiv_int zmod_int)
  qed
qed

lemma nat_digits_decimal: "is_ascii_decimal (nat_digits n)"
proof (induction n rule: nat_digits.induct)
  case (1 n)
  then show ?case
    by (cases "n < 10") (auto simp: nat_digits.simps [of n] is_ascii_decimal_def)
qed

lemma int_of_decimal_zeros [simp]:
  "int_of_decimal (replicate k CHR ''0'' @ s) = int_of_decimal s"
  by (induction k) (simp_all add: int_of_decimal_def code_point_def)

lemma int_of_decimal_fmt_06d [simp]: "0 \<le> i \<Longrightarrow> int_of_decimal (fmt_06d i) = i"
  by (simp add: fmt_06d_def Let_def)

lemma fmt_06d_decimal: "0 \<le> i \<Longrightarrow> is_ascii_decimal (fmt_06d i)"
  using nat_digits_decimal [of "nat i"]
  by (auto simp: fmt_06d_def Let_def is_ascii_decimal_def list_all_iff is_digit_def code_point_def)

lemma fmt_06d_inject: "0 \<le> i \<Longrightarrow> 0 \<le> j \<Longrightarrow> fmt_06d i = fmt_06d j \<longleftrightarrow> i = j"
  by (metis int_of_decimal_fmt_06d)

lemma numeric_suffix_fmt_06d [simp]: "0 \<le> i \<Longrightarrow> numeric_suffix (p @ fmt_06d i) p = Some i"
  by (simp add: numeric_suffix_def Let_def fmt_06d_decimal)

text \<open>Evaluation of one-digit identifiers.\<close>

lemma fmt_06d_digit:
  "fmt_06d 1 = ''000001''" "fmt_06d 2 = ''000002''" "fmt_06d 3 = ''000003''" "fmt_06d 4 = ''000004''"
  by code_simp+

section \<open>Dictionaries in insertion order\<close>

text \<open>
  A Python dictionary is an association list with distinct keys. \<^const>\<open>AList.update\<close>
  keeps the position of an existing key and appends a new one, \<^const>\<open>AList.delete\<close> is
  \<^verbatim>\<open>pop\<close>, \<^const>\<open>map_of\<close> is \<^verbatim>\<open>get\<close>.
\<close>

type_synonym ('k, 'v) dict = "('k \<times> 'v) list"

abbreviation dict_set :: "'k \<Rightarrow> 'v \<Rightarrow> ('k, 'v) dict \<Rightarrow> ('k, 'v) dict" where
  "dict_set \<equiv> AList.update"

abbreviation dict_pop :: "'k \<Rightarrow> ('k, 'v) dict \<Rightarrow> ('k, 'v) dict" where
  "dict_pop \<equiv> AList.delete"

definition dict_ok :: "('k, 'v) dict \<Rightarrow> bool" where
  "dict_ok d \<longleftrightarrow> distinct (map fst d)"

definition dict_values :: "('k, 'v) dict \<Rightarrow> 'v list" where
  "dict_values d = map snd d"

definition dict_sum :: "('v \<Rightarrow> 'a::comm_monoid_add) \<Rightarrow> ('k, 'v) dict \<Rightarrow> 'a" where
  "dict_sum f d = (\<Sum>(k, v)\<leftarrow>d. f v)"

lemma dict_ok_Nil [simp]: "dict_ok []"
  by (simp add: dict_ok_def)

lemma dict_ok_set [simp]: "dict_ok d \<Longrightarrow> dict_ok (dict_set k v d)"
  by (simp add: dict_ok_def distinct_update)

lemma dict_ok_pop [simp]: "dict_ok d \<Longrightarrow> dict_ok (dict_pop k d)"
  by (simp add: dict_ok_def distinct_delete)

lemma dict_ok_filter [simp]: "dict_ok d \<Longrightarrow> dict_ok (filter P d)"
  by (simp add: dict_ok_def distinct_map_filter)

lemma get_set [simp, dict_rules]:
  "map_of (dict_set k v d) j = (if j = k then Some v else map_of d j)"
  by (simp add: update_conv')

lemma get_pop [simp, dict_rules]:
  "map_of (dict_pop k d) j = (if j = k then None else map_of d j)"
  by (simp add: delete_conv')

lemma dict_set_new: "map_of d k = None \<Longrightarrow> dict_set k v d = d @ [(k, v)]"
  by (induction d) (auto split: if_splits)

lemma dict_pop_set_new: "map_of d k = None \<Longrightarrow> dict_pop k (dict_set k v d) = d"
  by (simp add: dict_set_new AList.delete_eq map_of_eq_None_iff filter_id_conv) force

lemma dict_set_subset: "set (dict_set k v d) \<subseteq> insert (k, v) (set d)"
  by (induction d) auto

lemma dict_pop_subset: "set (dict_pop k d) \<subseteq> set d"
  by (simp add: AList.delete_eq)

lemma dict_mem_iff: "dict_ok d \<Longrightarrow> (k, v) \<in> set d \<longleftrightarrow> map_of d k = Some v"
  by (simp add: dict_ok_def)

lemma dict_values_mem: "dict_ok d \<Longrightarrow> v \<in> set (dict_values d) \<longleftrightarrow> (\<exists>k. map_of d k = Some v)"
  by (force simp: dict_values_def dict_mem_iff [symmetric])

lemma get_filter_values:
  "dict_ok d \<Longrightarrow> map_of (filter (\<lambda>(k, v). P v) d) j =
     (case map_of d j of None \<Rightarrow> None | Some v \<Rightarrow> if P v then Some v else None)"
  by (induction d) (auto simp: dict_ok_def map_of_eq_None_iff split: option.splits)

lemma dict_sum_Nil [simp]: "dict_sum f [] = 0"
  by (simp add: dict_sum_def)

lemma dict_sum_Cons [simp]: "dict_sum f (p # d) = f (snd p) + dict_sum f d"
  by (simp add: dict_sum_def split: prod.splits)

lemma dict_sum_set_new [dict_rules]:
  "map_of d k = None \<Longrightarrow> dict_sum f (dict_set k v d) = dict_sum f d + f v"
  by (induction d) (auto simp: ac_simps split: if_splits)

lemma dict_sum_set_old [dict_rules]:
  fixes f :: "'v \<Rightarrow> 'a::ab_group_add"
  shows "map_of d k = Some w \<Longrightarrow> dict_sum f (dict_set k v d) = dict_sum f d - f w + f v"
  by (induction d) (auto simp: algebra_simps split: if_splits)

lemma dict_pop_fresh: "k \<notin> fst ` set d \<Longrightarrow> dict_pop k d = d"
  by (induction d) auto

lemma dict_sum_pop [dict_rules]:
  fixes f :: "'v \<Rightarrow> 'a::ab_group_add"
  shows "dict_ok d \<Longrightarrow> map_of d k = Some w \<Longrightarrow> dict_sum f (dict_pop k d) = dict_sum f d - f w"
proof (induction d)
  case (Cons p d)
  then show ?case
    by (cases "fst p = k") (auto simp: dict_ok_def dict_pop_fresh algebra_simps)
qed simp

lemma dict_sum_cong:
  "(\<And>k v. (k, v) \<in> set d \<Longrightarrow> f v = g v) \<Longrightarrow> dict_sum f d = dict_sum g d"
  by (induction d) force+

lemma dict_sum_mono:
  fixes f g :: "'v \<Rightarrow> 'a::ordered_comm_monoid_add"
  shows "(\<And>k v. (k, v) \<in> set d \<Longrightarrow> f v \<le> g v) \<Longrightarrow> dict_sum f d \<le> dict_sum g d"
  by (induction d) (force intro!: add_mono)+

lemma dict_sum_nonneg:
  fixes f :: "'v \<Rightarrow> 'a::ordered_comm_monoid_add"
  shows "(\<And>k v. (k, v) \<in> set d \<Longrightarrow> 0 \<le> f v) \<Longrightarrow> 0 \<le> dict_sum f d"
  by (induction d) force+

lemma dict_sum_filter_le:
  fixes f :: "'v \<Rightarrow> int"
  shows "(\<And>k v. (k, v) \<in> set d \<Longrightarrow> 0 \<le> f v) \<Longrightarrow> dict_sum f (filter P d) \<le> dict_sum f d"
proof (induction d)
  case (Cons p d)
  have "0 \<le> f (snd p)" by (rule Cons.prems [of "fst p"]) simp
  moreover have "dict_sum f (filter P d) \<le> dict_sum f d"
    by (rule Cons.IH) (meson Cons.prems list.set_intros(2))
  ultimately show ?case by simp
qed simp


lemma dict_set_same: "map_of d k = Some v \<Longrightarrow> dict_set k v d = d"
  by (induction d) auto

lemma dict_set_twice: "dict_set k v (dict_set k w d) = dict_set k v d"
  by (induction d) auto

text \<open>The same change at every listed key that is present.\<close>

definition map_held :: "'k list \<Rightarrow> ('v \<Rightarrow> 'v) \<Rightarrow> ('k, 'v) dict \<Rightarrow> ('k, 'v) dict" where
  "map_held ks f d = fold (\<lambda>k d. case map_of d k of None \<Rightarrow> d | Some v \<Rightarrow> dict_set k (f v) d) ks d"

lemma map_held_Nil [simp]: "map_held [] f d = d"
  by (simp add: map_held_def)

lemma map_held_Cons: "map_of d k = Some v \<Longrightarrow> map_held (k # ks) f d = map_held ks f (dict_set k (f v) d)"
  by (simp add: map_held_def)

lemma get_map_held [simp, dict_rules]:
  "distinct ks \<Longrightarrow> map_of (map_held ks f d) j = (if j \<in> set ks then map_option f (map_of d j) else map_of d j)"
proof (induction ks arbitrary: d)
  case (Cons k ks)
  then show ?case
    by (cases "map_of d k") (auto simp: map_held_def split: if_splits)
qed simp

lemma dict_ok_map_held [simp]: "dict_ok d \<Longrightarrow> dict_ok (map_held ks f d)"
  by (induction ks arbitrary: d) (auto simp: map_held_def split: option.splits)

lemma map_held_id [simp]: "map_held ks (\<lambda>x. x) d = d"
  by (induction ks) (auto simp: map_held_def dict_set_same split: option.splits)

lemma dom_map_held [simp]: "dom (map_of (map_held ks f d)) = dom (map_of d)"
  by (induction ks arbitrary: d) (auto simp: map_held_def dom_def split: option.splits)


section \<open>Rounded arithmetic\<close>

text \<open>
  Python's \<^verbatim>\<open>decimal\<close> context and IEEE doubles both round a result to a number of
  significant digits, half to even. \<^verbatim>\<open>sig_exp\<close> is the exponent of the leading digit.
\<close>

definition round_half_even :: "rat \<Rightarrow> int" where
  "round_half_even x =
     (let f = \<lfloor>x\<rfloor>; d = x - of_int f in
      if d < 1 / 2 then f else if d > 1 / 2 then f + 1 else if even f then f else f + 1)"

definition round_unit :: "nat \<Rightarrow> int \<Rightarrow> rat \<Rightarrow> rat" where
  "round_unit b s x = of_int (round_half_even (x / of_nat b powi s)) * of_nat b powi s"

definition sig_exp :: "nat \<Rightarrow> rat \<Rightarrow> int" where
  "sig_exp b x =
     (case quotient_of \<bar>x\<bar> of (p, q) \<Rightarrow>
        let e = int (floorlog b (nat p)) - int (floorlog b (nat q)) in
        if of_nat b powi e \<le> \<bar>x\<bar> then e else e - 1)"

definition round_sig :: "nat \<Rightarrow> nat \<Rightarrow> rat \<Rightarrow> rat" where
  "round_sig b p x = (if x = 0 then 0 else round_unit b (sig_exp b x - int p + 1) x)"

text \<open>The default \<^verbatim>\<open>decimal\<close> context: 28 significant digits, \<^verbatim>\<open>ROUND_HALF_EVEN\<close>.\<close>

definition dec_fix :: "rat \<Rightarrow> rat" where
  "dec_fix = round_sig 10 28"

definition dec_add :: "rat \<Rightarrow> rat \<Rightarrow> rat" where
  "dec_add x y = dec_fix (x + y)"

definition dec_sub :: "rat \<Rightarrow> rat \<Rightarrow> rat" where
  "dec_sub x y = dec_fix (x - y)"

text \<open>
  Rounding to a double: 53 significant bits, a smallest unit of \<open>2\<^sup>-\<^sup>1\<^sup>0\<^sup>7\<^sup>4\<close> and infinity
  beyond the largest finite value.
\<close>

definition f64_round :: "rat \<Rightarrow> pyfloat" where
  "f64_round x =
     (if x = 0 then FFin 0
      else let r = round_unit 2 (max (sig_exp 2 x - 52) (-1074)) x in
        if 2 ^ 1024 \<le> r then FPosInf else if r \<le> - (2 ^ 1024) then FNegInf else FFin r)"

lemma round_half_even_of_int [simp]: "round_half_even (of_int n) = n"
  by (simp add: round_half_even_def)

lemma round_half_even_Ints: "x \<in> \<int> \<Longrightarrow> of_int (round_half_even x) = x"
  by (auto elim: Ints_cases)

lemma round_half_even_near: "\<bar>of_int (round_half_even x) - x\<bar> \<le> 1 / 2"
  using of_int_floor_le [of x] floor_correct [of x]
  by (auto simp: round_half_even_def Let_def abs_le_iff)

lemma round_unit_exact:
  assumes "0 < b" and "x / of_nat b powi s \<in> \<int>"
  shows "round_unit b s x = x"
  using assms by (simp add: round_unit_def round_half_even_Ints)

lemma sig_exp_le:
  assumes b: "1 < b" and x: "x \<noteq> 0"
  shows "of_nat b powi sig_exp b x \<le> \<bar>x\<bar>"
proof -
  obtain p q where pq: "quotient_of \<bar>x\<bar> = (p, q)" by force
  have q: "0 < q" and xpq: "\<bar>x\<bar> = of_int p / of_int q"
    using quotient_of_denom_pos [OF pq] quotient_of_div [OF pq] by auto
  have p: "0 < p" using x xpq q by (metis of_int_0_less_iff zero_less_abs_iff zero_less_divide_iff not_less_iff_gr_or_eq)
  let ?a = "floorlog b (nat p)" and ?c = "floorlog b (nat q)"
  have lo: "b ^ (?a - 1) \<le> nat p" and a: "0 < ?a"
    using floorlog_bounds [of "nat p" b] p b by (auto simp: zero_less_iff_neq_zero floorlog_eq_zero_iff)
  have hi: "nat q < b ^ ?c" using floorlog_bounds [of "nat q" b] q b by auto
  have "(of_nat b :: rat) powi (int ?a - int ?c - 1) = of_nat (b ^ (?a - 1)) / of_nat (b ^ ?c)"
  proof -
    have e: "int ?a - int ?c - 1 = int (?a - 1) - int ?c" using a by simp
    show ?thesis unfolding e using b by (subst power_int_diff) simp_all
  qed
  also have "\<dots> \<le> of_nat (nat p) / of_nat (nat q)"
    by (rule frac_le) (use lo hi q in \<open>auto simp del: of_nat_power\<close>)
  also have "\<dots> = \<bar>x\<bar>" using p q xpq by simp
  finally show ?thesis by (simp add: sig_exp_def pq Let_def)
qed

lemma round_sig_exact:
  assumes b: "1 < b" and n: "\<bar>n\<bar> < int b ^ p" and x: "x = of_int n * of_nat b powi e"
  shows "round_sig b p x = x"
proof (cases "x = 0")
  case False
  let ?E = "sig_exp b x" and ?s = "sig_exp b x - int p + 1"
  have b0: "(0::rat) < of_nat b" using b by simp
  have "(of_nat b :: rat) powi ?E \<le> \<bar>of_int n\<bar> * of_nat b powi e"
    using sig_exp_le [OF b False] b0 x by (simp add: abs_mult)
  also have "\<dots> < of_nat b ^ p * of_nat b powi e"
  proof (rule mult_strict_right_mono)
    have "(of_int \<bar>n\<bar> :: rat) < of_int (int b ^ p)" using n by (simp only: of_int_less_iff)
    then show "\<bar>of_int n\<bar> < (of_nat b ^ p :: rat)" by simp
  qed (use b0 in simp)
  also have "\<dots> = of_nat b powi (int p + e)" using b0 by (simp add: power_int_add)
  finally have less: "(of_nat b :: rat) powi ?E < of_nat b powi (int p + e)" .
  have "?E < int p + e"
  proof (rule ccontr)
    assume "\<not> ?E < int p + e"
    then have "(of_nat b :: rat) powi (int p + e) \<le> of_nat b powi ?E"
      using b by (intro power_int_increasing) auto
    with less show False by simp
  qed
  then have k: "e - ?s = int (nat (e - ?s))" by simp
  have "x / of_nat b powi ?s = of_int n * of_nat b powi (e - ?s)"
    unfolding x using b0 by (subst power_int_diff) (simp_all add: field_simps)
  also have "\<dots> = of_int (n * int b ^ nat (e - ?s))"
    by (subst k) (simp only: power_int_of_nat of_int_mult of_int_power of_int_of_nat_eq)
  finally have "x / of_nat b powi ?s \<in> \<int>" by simp
  then show ?thesis using False b by (simp add: round_sig_def round_unit_exact)
qed (simp add: round_sig_def)


text \<open>
  A decimal is exact in the context when it is a multiple of \<open>10\<^sup>-\<^sup>q\<close> with a coefficient of
  at most 28 digits.
\<close>

definition dec_grid :: "nat \<Rightarrow> rat \<Rightarrow> bool" where
  "dec_grid q x \<longleftrightarrow> x * 10 ^ q \<in> \<int>"

definition dec_exact :: "nat \<Rightarrow> rat \<Rightarrow> bool" where
  "dec_exact q x \<longleftrightarrow> dec_grid q x \<and> \<bar>x * 10 ^ q\<bar> < 10 ^ 28"

lemma dec_fix_exact: "dec_exact q x \<Longrightarrow> dec_fix x = x"
proof -
  assume x: "dec_exact q x"
  then obtain n where n: "x * 10 ^ q = of_int n"
    by (auto simp: dec_exact_def dec_grid_def elim: Ints_cases)
  have "\<bar>of_int n :: rat\<bar> < of_int (10 ^ 28)" using x n by (simp add: dec_exact_def)
  then have "\<bar>n\<bar> < int 10 ^ 28" by (simp only: of_int_abs [symmetric] of_int_less_iff) simp
  moreover have "x = of_int n * of_nat 10 powi (- int q)"
    using n by (simp add: power_int_minus field_simps)
  ultimately show ?thesis unfolding dec_fix_def by (rule round_sig_exact [rotated]) simp
qed

lemma dec_grid_add: "dec_grid q x \<Longrightarrow> dec_grid q y \<Longrightarrow> dec_grid q (x + y)"
  by (simp add: dec_grid_def distrib_right)

lemma dec_grid_diff: "dec_grid q x \<Longrightarrow> dec_grid q y \<Longrightarrow> dec_grid q (x - y)"
  by (simp add: dec_grid_def left_diff_distrib)

lemma dec_grid_0 [simp]: "dec_grid q 0"
  by (simp add: dec_grid_def)

lemma dec_exact_0 [simp]: "dec_exact q 0"
  by (simp add: dec_exact_def)

lemma dec_fix_0 [simp]: "dec_fix 0 = 0"
  by (simp add: dec_fix_def round_sig_def)

lemma dec_fix_Ints: "x \<in> \<int> \<Longrightarrow> \<bar>x\<bar> < 10 ^ 28 \<Longrightarrow> dec_fix x = x"
  by (rule dec_fix_exact [of 0]) (simp add: dec_exact_def dec_grid_def)

lemma dec_fix_numeral [simp]: "(numeral k :: rat) < 10 ^ 28 \<Longrightarrow> dec_fix (numeral k) = numeral k"
  by (rule dec_fix_Ints) simp_all

lemma dec_fix_1 [simp]: "dec_fix 1 = 1"
  by (rule dec_fix_Ints) simp_all

lemma sig_exp_less:
  assumes b: "1 < b"
  shows "\<bar>x\<bar> < of_nat b powi (sig_exp b x + 1)"
proof -
  obtain p q where pq: "quotient_of \<bar>x\<bar> = (p, q)" by force
  have q: "0 < q" and xpq: "\<bar>x\<bar> = of_int p / of_int q"
    using quotient_of_denom_pos [OF pq] quotient_of_div [OF pq] by auto
  have p: "0 \<le> p" using xpq q
    by (metis abs_ge_zero divide_neg_pos linorder_not_le of_int_0_less_iff of_int_less_0_iff)
  let ?a = "floorlog b (nat p)" and ?c = "floorlog b (nat q)" and ?e = "int (floorlog b (nat p)) - int (floorlog b (nat q))"
  have hi: "nat p < b ^ ?a" using floorlog_bounds [of "nat p" b] p b by (cases "p = 0") (auto simp: floorlog_def)
  have lo: "b ^ (?c - 1) \<le> nat q" and c: "0 < ?c"
    using floorlog_bounds [of "nat q" b] q b by (auto simp: zero_less_iff_neq_zero floorlog_eq_zero_iff)
  have "\<bar>x\<bar> = of_nat (nat p) / of_nat (nat q)" using p q xpq by simp
  also have "\<dots> < of_nat (b ^ ?a) / of_nat (b ^ (?c - 1))"
    by (rule frac_less) (use lo hi b q p in \<open>auto simp del: of_nat_power\<close>)
  also have "\<dots> = (of_nat b :: rat) powi (?e + 1)"
  proof -
    have e: "?e + 1 = int ?a - int (?c - 1)" using c by simp
    show ?thesis unfolding e using b by (subst power_int_diff) simp_all
  qed
  finally have less: "\<bar>x\<bar> < of_nat b powi (?e + 1)" .
  then show ?thesis by (simp add: sig_exp_def pq Let_def not_le)
qed

lemma sig_exp_eq:
  assumes "1 < b" "x \<noteq> 0" "of_nat b powi e \<le> \<bar>x\<bar>" "\<bar>x\<bar> < of_nat b powi (e + 1)"
  shows "sig_exp b x = e"
proof -
  have b: "1 < (of_nat b :: rat)" using assms(1) by simp
  have "of_nat b powi sig_exp b x < (of_nat b :: rat) powi (e + 1)" "of_nat b powi e < (of_nat b :: rat) powi (sig_exp b x + 1)"
    using sig_exp_le [OF assms(1,2)] sig_exp_less [OF assms(1), of x] assms(3,4) by linarith+
  then show ?thesis using power_int_strict_increasing [OF _ b] power_int_increasing [OF _ order.strict_implies_order [OF b]]
    by (metis b linorder_not_le order_less_le zless_add1_eq power_int_increasing)
qed

lemma round_half_even_mono: "of_int m \<le> x \<Longrightarrow> m \<le> round_half_even x" "x \<le> of_int m \<Longrightarrow> round_half_even x \<le> m"
proof -
  have f: "of_int m \<le> x \<longleftrightarrow> m \<le> \<lfloor>x\<rfloor>" by (simp add: le_floor_iff)
  show "of_int m \<le> x \<Longrightarrow> m \<le> round_half_even x" unfolding f round_half_even_def Let_def by auto
  assume x: "x \<le> of_int m"
  show "round_half_even x \<le> m"
  proof (cases "x = of_int m")
    case False
    then have "\<lfloor>x\<rfloor> < m" using x by (simp add: floor_less_iff)
    then show ?thesis by (auto simp: round_half_even_def Let_def)
  qed simp
qed

lemma dec_fix_nonneg: "0 \<le> x \<Longrightarrow> 0 \<le> dec_fix x"
  using round_half_even_mono(1) [of 0]
  by (auto simp: dec_fix_def round_sig_def round_unit_def intro!: mult_nonneg_nonneg)

text \<open>The leading digit survives rounding.\<close>

lemma dec_fix_pos:
  assumes "0 < x"
  shows "0 < dec_fix x"
proof -
  let ?s = "sig_exp 10 x - 28 + 1"
  have "(10::rat) powi sig_exp 10 x \<le> x" using sig_exp_le [of 10 x] assms by simp
  moreover have "(10::rat) powi ?s \<le> 10 powi sig_exp 10 x" by (rule power_int_increasing) auto
  ultimately have "1 \<le> x / 10 powi ?s" by (simp add: field_simps)
  then have "1 \<le> round_half_even (x / 10 powi ?s)" using round_half_even_mono(1) [of 1] by simp
  then show ?thesis using assms by (simp add: dec_fix_def round_sig_def round_unit_def)
qed

lemma dec_fix_idem [simp]: "dec_fix (dec_fix x) = dec_fix x"
proof (cases "x = 0")
  case False
  let ?s = "sig_exp 10 x - 28 + 1" and ?n = "round_half_even (x / 10 powi (sig_exp 10 x - 28 + 1))"
  have e: "sig_exp 10 x + 1 = 28 + ?s" by simp
  have "(10::rat) powi (sig_exp 10 x + 1) = 10 ^ 28 * 10 powi ?s" unfolding e by (subst power_int_add) simp_all
  then have "\<bar>x\<bar> < 10 ^ 28 * 10 powi ?s" using sig_exp_less [of 10 x] by (simp only: of_nat_numeral)
  then have "\<bar>x\<bar> / 10 powi ?s < 10 ^ 28" by (simp only: divide_less_eq) simp
  then have "\<bar>x / 10 powi ?s\<bar> \<le> 10 ^ 28" by (simp add: abs_divide)
  then have "x / 10 powi ?s \<le> of_int (10 ^ 28)" "of_int (- (10 ^ 28)) \<le> x / 10 powi ?s"
    unfolding abs_le_iff by simp_all
  then have n: "\<bar>?n\<bar> \<le> 10 ^ 28" by (auto simp only: abs_le_iff minus_le_iff dest!: round_half_even_mono)
  have x: "dec_fix x = of_int ?n * of_nat 10 powi ?s"
    using False by (simp add: dec_fix_def round_sig_def round_unit_def)
  show ?thesis
  proof (cases "\<bar>?n\<bar> < 10 ^ 28")
    case True
    then show ?thesis unfolding dec_fix_def by (intro round_sig_exact [OF _ _ x [unfolded dec_fix_def]]) auto
  next
    case f: False
    have x': "dec_fix x = of_int (sgn ?n) * of_nat 10 powi (28 + ?s)"
    proof -
      have "?n = sgn ?n * 10 ^ 28" using f n by (metis antisym not_less mult.commute mult_sgn_abs)
      then have "(of_int ?n :: rat) = of_int (sgn ?n * 10 ^ 28)" by (rule arg_cong)
      then have "of_int ?n = of_int (sgn ?n) * (10::rat) ^ 28" by (simp only: of_int_mult of_int_power of_int_numeral)
      moreover have "(of_nat 10 :: rat) powi (28 + ?s) = 10 ^ 28 * of_nat 10 powi ?s" by (subst power_int_add) simp_all
      ultimately show ?thesis unfolding x by (simp only: mult.assoc)
    qed
    show ?thesis unfolding dec_fix_def
      by (intro round_sig_exact [OF _ _ x' [unfolded dec_fix_def]]) (auto simp: sgn_if)
  qed
qed simp

section \<open>State and exceptions\<close>

text \<open>
  A method of a mutable object is a function from the object's state to a result and the
  state it leaves. An exception keeps the mutations made before it, as in Python.
\<close>

type_synonym ('s, 'e, 'a) py = "'s \<Rightarrow> ('e + 'a) \<times> 's"

definition return_py :: "'a \<Rightarrow> ('s, 'e, 'a) py" where
  "return_py a s = (Inr a, s)"

definition raise_py :: "'e \<Rightarrow> ('s, 'e, 'a) py" where
  "raise_py e s = (Inl e, s)"

definition bind_py :: "('s, 'e, 'a) py \<Rightarrow> ('a \<Rightarrow> ('s, 'e, 'b) py) \<Rightarrow> ('s, 'e, 'b) py" where
  "bind_py m f s = (case m s of (Inl e, s') \<Rightarrow> (Inl e, s') | (Inr a, s') \<Rightarrow> f a s')"

definition lift_py :: "'e + 'a \<Rightarrow> ('s, 'e, 'a) py" where
  "lift_py r s = (r, s)"

definition gets_py :: "('s \<Rightarrow> 'a) \<Rightarrow> ('s, 'e, 'a) py" where
  "gets_py f s = (Inr (f s), s)"

definition modify_py :: "('s \<Rightarrow> 's) \<Rightarrow> ('s, 'e, unit) py" where
  "modify_py f s = (Inr (), f s)"

definition raise_if :: "bool \<Rightarrow> 'e \<Rightarrow> ('s, 'e, unit) py" where
  "raise_if b e s = (if b then Inl e else Inr (), s)"

primrec for_py :: "'x list \<Rightarrow> ('x \<Rightarrow> ('s, 'e, unit) py) \<Rightarrow> ('s, 'e, unit) py" where
  "for_py [] f = return_py ()"
| "for_py (x # xs) f = bind_py (f x) (\<lambda>_. for_py xs f)"

text \<open>A loop that carries a local variable.\<close>

primrec for_acc :: "'x list \<Rightarrow> 'b \<Rightarrow> ('x \<Rightarrow> 'b \<Rightarrow> ('s, 'e, 'b) py) \<Rightarrow> ('s, 'e, 'b) py" where
  "for_acc [] b f = return_py b"
| "for_acc (x # xs) b f = bind_py (f x b) (\<lambda>b'. for_acc xs b' f)"

text \<open>Pure validators return a sum; they are chained by \<open>bind_sum\<close>.\<close>

definition bind_sum :: "'e + 'a \<Rightarrow> ('a \<Rightarrow> 'e + 'b) \<Rightarrow> 'e + 'b" where
  "bind_sum m f = (case m of Inl e \<Rightarrow> Inl e | Inr a \<Rightarrow> f a)"

primrec map_sum_list :: "('x \<Rightarrow> 'e + 'y) \<Rightarrow> 'x list \<Rightarrow> 'e + 'y list" where
  "map_sum_list f [] = Inr []"
| "map_sum_list f (x # xs) = bind_sum (f x) (\<lambda>y. bind_sum (map_sum_list f xs) (\<lambda>ys. Inr (y # ys)))"

lemma bind_sum_simps [simp]: "bind_sum (Inl e) f = Inl e" "bind_sum (Inr a) f = f a"
  by (simp_all add: bind_sum_def)

lemma bind_sum_cong: "m = m' \<Longrightarrow> (\<And>a. m' = Inr a \<Longrightarrow> f a = g a) \<Longrightarrow> bind_sum m f = bind_sum m' g"
  by (cases m') simp_all

lemma bind_sum_Inr_iff: "bind_sum m f = Inr b \<longleftrightarrow> (\<exists>a. m = Inr a \<and> f a = Inr b)"
  by (cases m) auto

lemma bind_sum_Inl_iff: "bind_sum m f = Inl e \<longleftrightarrow> m = Inl e \<or> (\<exists>a. m = Inr a \<and> f a = Inl e)"
  by (cases m) auto

definition wp :: "('s, 'e, 'a) py \<Rightarrow> ('a \<Rightarrow> 's \<Rightarrow> bool) \<Rightarrow> ('e \<Rightarrow> 's \<Rightarrow> bool) \<Rightarrow> 's \<Rightarrow> bool" where
  "wp m Q E s = (case m s of (Inl e, s') \<Rightarrow> E e s' | (Inr a, s') \<Rightarrow> Q a s')"

lemma wp_return [wp_rules]: "wp (return_py a) Q E s = Q a s"
  by (simp add: wp_def return_py_def)

lemma wp_raise [wp_rules]: "wp (raise_py e) Q E s = E e s"
  by (simp add: wp_def raise_py_def)

lemma wp_bind [wp_rules]: "wp (bind_py m f) Q E s = wp m (\<lambda>a. wp (f a) Q E) E s"
  by (simp add: wp_def bind_py_def split: prod.splits sum.splits)

lemma wp_lift [wp_rules]: "wp (lift_py r) Q E s = (case r of Inl e \<Rightarrow> E e s | Inr a \<Rightarrow> Q a s)"
  by (simp add: wp_def lift_py_def split: sum.splits)

lemma wp_gets [wp_rules]: "wp (gets_py f) Q E s = Q (f s) s"
  by (simp add: wp_def gets_py_def)

lemma wp_modify [wp_rules]: "wp (modify_py f) Q E s = Q () (f s)"
  by (simp add: wp_def modify_py_def)

lemma wp_raise_if [wp_rules]: "wp (raise_if b e) Q E s = (if b then E e s else Q () s)"
  by (simp add: wp_def raise_if_def)

lemma wp_if [wp_rules]: "wp (if b then m else n) Q E s = (if b then wp m Q E s else wp n Q E s)"
  by simp

lemma wp_mono:
  "wp m Q E s \<Longrightarrow> (\<And>a t. Q a t \<Longrightarrow> Q' a t) \<Longrightarrow> (\<And>e t. E e t \<Longrightarrow> E' e t) \<Longrightarrow> wp m Q' E' s"
  by (auto simp: wp_def split: prod.splits sum.splits)

lemma wp_bindI:
  "wp m R E s \<Longrightarrow> (\<And>a t. R a t \<Longrightarrow> wp (f a) Q E t) \<Longrightarrow> wp (bind_py m f) Q E s"
  unfolding wp_bind by (erule wp_mono)

lemma wp_bind_lift [wp_intros]:
  "(\<And>e. r = Inl e \<Longrightarrow> E e s) \<Longrightarrow> (\<And>a. r = Inr a \<Longrightarrow> wp (f a) Q E s) \<Longrightarrow> wp (bind_py (lift_py r) f) Q E s"
  by (cases r) (simp_all add: wp_rules)

lemma wp_bind_raise_if [wp_intros]:
  "(b \<Longrightarrow> E e s) \<Longrightarrow> (\<not> b \<Longrightarrow> wp (f ()) Q E s) \<Longrightarrow> wp (bind_py (raise_if b e) f) Q E s"
  by (simp add: wp_rules)

lemma wp_bind_gets [wp_intros]: "wp (f (g s)) Q E s \<Longrightarrow> wp (bind_py (gets_py g) f) Q E s"
  by (simp add: wp_rules)

lemma wp_bind_modify [wp_intros]: "wp (f ()) Q E (g s) \<Longrightarrow> wp (bind_py (modify_py g) f) Q E s"
  by (simp add: wp_rules)

lemma wp_returnI [wp_intros]: "Q a s \<Longrightarrow> wp (return_py a) Q E s"
  by (simp add: wp_rules)

lemma wp_raiseI [wp_intros]: "E e s \<Longrightarrow> wp (raise_py e) Q E s"
  by (simp add: wp_rules)

lemma wp_liftI [wp_intros]:
  "(\<And>e. r = Inl e \<Longrightarrow> E e s) \<Longrightarrow> (\<And>a. r = Inr a \<Longrightarrow> Q a s) \<Longrightarrow> wp (lift_py r) Q E s"
  by (cases r) (simp_all add: wp_rules)

lemma wp_raise_ifI [wp_intros]: "(b \<Longrightarrow> E e s) \<Longrightarrow> (\<not> b \<Longrightarrow> Q () s) \<Longrightarrow> wp (raise_if b e) Q E s"
  by (simp add: wp_rules)

lemma wp_ifI [wp_intros]:
  "(b \<Longrightarrow> wp m Q E s) \<Longrightarrow> (\<not> b \<Longrightarrow> wp n Q E s) \<Longrightarrow> wp (if b then m else n) Q E s"
  by simp

lemma wp_case_option [wp_intros]:
  "(x = None \<Longrightarrow> wp m Q E s) \<Longrightarrow> (\<And>v. x = Some v \<Longrightarrow> wp (f v) Q E s) \<Longrightarrow>
   wp (case x of None \<Rightarrow> m | Some v \<Rightarrow> f v) Q E s"
  by (cases x) simp_all

lemma wp_case_prod [wp_intros]: "(\<And>a b. x = (a, b) \<Longrightarrow> wp (f a b) Q E s) \<Longrightarrow> wp (case x of (a, b) \<Rightarrow> f a b) Q E s"
  by (cases x) simp

lemma wp_conj:
  "wp m Q E s \<Longrightarrow> wp m Q' E' s \<Longrightarrow> wp m (\<lambda>a t. Q a t \<and> Q' a t) (\<lambda>e t. E e t \<and> E' e t) s"
  by (auto simp: wp_def split: prod.splits sum.splits)

lemma wp_for:
  assumes "\<And>x t. x \<in> set xs \<Longrightarrow> I t \<Longrightarrow> wp (f x) (\<lambda>_. I) E t"
    and "I s"
  shows "wp (for_py xs f) (\<lambda>_. I) E s"
  using assms
proof (induction xs arbitrary: s)
  case (Cons x xs)
  have "wp (f x) (\<lambda>_. I) E s" using Cons.prems by simp
  then show ?case
    unfolding for_py.simps wp_bind
  proof (rule wp_mono)
    fix t assume "I t"
    then show "wp (for_py xs f) (\<lambda>_. I) E t"
      using Cons.IH Cons.prems(1) by simp
  qed
qed (simp add: wp_return)

lemma wp_for_acc:
  assumes step: "\<And>x ys c t. I (x # ys) c t \<Longrightarrow> wp (f x c) (I ys) E t" and "I xs b s"
  shows "wp (for_acc xs b f) (I []) E s"
  using assms(2)
proof (induction xs arbitrary: b s)
  case (Cons x xs)
  show ?case unfolding for_acc.simps by (rule wp_bindI [OF step [OF Cons.prems]]) (rule Cons.IH)
qed (simp add: wp_return)

lemma wp_result: "wp m Q E s \<Longrightarrow> m s = (Inr a, t) \<Longrightarrow> Q a t"
  by (simp add: wp_def)

lemma wp_error: "wp m Q E s \<Longrightarrow> m s = (Inl e, t) \<Longrightarrow> E e t"
  by (simp add: wp_def)

lemma wp_state: "wp m (\<lambda>_. I) (\<lambda>_. I) s \<Longrightarrow> I (snd (m s))"
  by (auto simp: wp_def split: prod.splits sum.splits)

lemma wpI: "(\<And>a t. m s = (Inr a, t) \<Longrightarrow> Q a t) \<Longrightarrow> (\<And>e t. m s = (Inl e, t) \<Longrightarrow> E e t) \<Longrightarrow> wp m Q E s"
  by (auto simp: wp_def split: prod.splits sum.splits)

lemmas py_monad_defs =
  return_py_def raise_py_def bind_py_def lift_py_def gets_py_def modify_py_def raise_if_def

text \<open>
  Evaluation of a method on a concrete state: a statement runs when the state before it
  is known, and the continuation is not looked at until then.
\<close>

definition run_next :: "('e + 'a) \<times> 's \<Rightarrow> ('a \<Rightarrow> ('s, 'e, 'b) py) \<Rightarrow> ('e + 'b) \<times> 's" where
  "run_next r f = (case r of (Inl e, s) \<Rightarrow> (Inl e, s) | (Inr a, s) \<Rightarrow> f a s)"

lemma bind_run:
  "bind_py m f s = run_next (m s) f" "run_next (Inr a, t) f = f a t" "run_next (Inl e, t) f = (Inl e, t)"
  by (simp_all add: bind_py_def run_next_def)

lemma bind_run_cong: "r = r' \<Longrightarrow> run_next r f = run_next r' f"
  by simp

lemmas for_acc_run = for_acc.simps [THEN fun_cong]

lemmas py_run = bind_run for_acc_run return_py_def raise_py_def lift_py_def gets_py_def modify_py_def raise_if_def

lemma dict_count:
  "dict_ok d \<Longrightarrow> card {k. \<exists>v. map_of d k = Some v \<and> P v} = length (filter P (dict_values d))"
proof (induction d)
  case (Cons x d)
  obtain k v where x: "x = (k, v)" by force
  have d: "dict_ok d" "map_of d k = None" using Cons.prems by (auto simp: x dict_ok_def map_of_eq_None_iff)
  have "{j. \<exists>w. map_of (x # d) j = Some w \<and> P w} =
      (if P v then insert k else id) {j. \<exists>w. map_of d j = Some w \<and> P w}"
    using d(2) by (auto simp: x)
  moreover have "finite {j. \<exists>w. map_of d j = Some w \<and> P w}"
    by (rule finite_subset [OF _ finite_dom_map_of [of d]]) auto
  ultimately show ?case using Cons.IH [OF d(1)] d(2) by (simp add: x dict_values_def)
qed (simp add: dict_values_def)

section \<open>Objects as machines\<close>

text \<open>
  The contract of a mutable object: calls of its methods, each of which keeps an
  invariant whether it returns or raises. Every invariant of a reachable state follows
  once, here.
\<close>

locale py_machine =
  fixes init :: "'s \<Rightarrow> bool"
    and call :: "'op \<Rightarrow> 's \<Rightarrow> 's"
    and inv :: "'s \<Rightarrow> bool"
  assumes inv_init: "init s \<Longrightarrow> inv s"
    and inv_call: "inv s \<Longrightarrow> inv (call c s)"
begin

lemma inv_calls: "inv s \<Longrightarrow> inv (fold call cs s)"
  by (induction cs arbitrary: s) (simp_all add: inv_call)

lemma inv_reachable: "init s \<Longrightarrow> inv (fold call cs s)"
  by (rule inv_calls) (rule inv_init)

end

text \<open>
  Fencing: tokens live in the object are below its counter, and the counter never goes
  back, so a token issued later is greater than every token seen before.
\<close>

locale fenced_machine = py_machine +
  fixes counter :: "'a \<Rightarrow> int"
    and live :: "'a \<Rightarrow> int set"
  assumes live_below: "inv s \<Longrightarrow> n \<in> live s \<Longrightarrow> n < counter s"
    and counter_mono: "inv s \<Longrightarrow> counter s \<le> counter (call c s)"
    and live_fresh: "inv s \<Longrightarrow> n \<in> live (call c s) \<Longrightarrow> n \<in> live s \<or> counter s \<le> n"
begin

lemma counter_mono_calls: "inv s \<Longrightarrow> counter s \<le> counter (fold call cs s)"
proof (induction cs arbitrary: s)
  case (Cons c cs)
  have "counter s \<le> counter (call c s)" by (rule counter_mono) (rule Cons.prems)
  also have "\<dots> \<le> counter (fold call cs (call c s))"
    by (rule Cons.IH) (rule inv_call, rule Cons.prems)
  finally show ?case by simp
qed simp

lemma live_calls:
  "inv s \<Longrightarrow> n \<in> live (fold call cs s) \<Longrightarrow> n \<in> live s \<or> counter s \<le> n"
proof (induction cs arbitrary: s)
  case (Cons c cs)
  have t: "inv (call c s)" using Cons.prems(1) by (rule inv_call)
  have "n \<in> live (call c s) \<or> counter (call c s) \<le> n"
    using Cons.IH [OF t] Cons.prems(2) by simp
  then show ?case
    using live_fresh [OF Cons.prems(1)] counter_mono [OF Cons.prems(1), of c] by force
qed simp

lemma later_token_greater:
  assumes "inv s" and "old \<in> live s" and "new \<in> live (fold call cs s)" and "new \<notin> live s"
  shows "old < new"
  using live_below [OF assms(1,2)] live_calls [OF assms(1,3)] assms(4) by simp

lemma retired_token_never_returns:
  assumes "inv s" and "n < counter s" and "n \<notin> live s"
  shows "n \<notin> live (fold call cs s)"
  using live_calls [OF assms(1)] assms(2,3) by force

end

text \<open>
  Histories: an entry of the object stays under its key, and only changes along a preorder.
\<close>

locale tracked_machine = py_machine +
  fixes entry :: "'a \<Rightarrow> 'k \<Rightarrow> 'v option"
    and history :: "'v \<Rightarrow> 'v \<Rightarrow> bool"
  assumes history_refl: "history v v"
    and history_trans: "history u v \<Longrightarrow> history v w \<Longrightarrow> history u w"
    and history_call: "inv s \<Longrightarrow> entry s k = Some v \<Longrightarrow> \<exists>w. entry (call c s) k = Some w \<and> history v w"
begin

lemma history_calls: "inv s \<Longrightarrow> entry s k = Some v \<Longrightarrow> \<exists>w. entry (fold call cs s) k = Some w \<and> history v w"
proof (induction cs arbitrary: s v)
  case (Cons c cs)
  obtain u where u: "entry (call c s) k = Some u" "history v u" using history_call [OF Cons.prems] by blast
  obtain w where "entry (fold call cs (call c s)) k = Some w" "history u w"
    using Cons.IH [OF inv_call [OF Cons.prems(1)] u(1)] by blast
  then show ?case using history_trans u(2) by auto
qed (simp add: history_refl)

end

end
