(* ===== verification/Clocks.thy ===== *)
theory Clocks
  imports GB_Prelude
begin

text \<open>
  The authority wall clock of \<^verbatim>\<open>clocks.py\<close>: persistent epoch milliseconds guarded against
  skew by the process-monotonic clock. The two callables are external; what they return
  when the clock is read is the argument \<open>reading\<close> of the operation. Float arithmetic is
  rounded to doubles exactly as the source evaluates it.
\<close>

datatype clock_error =
  ClockValueError | ClockSkewError | ClockOverflowError | ClockAssertionError

text \<open>A reading: what \<^verbatim>\<open>wall_milliseconds()\<close> and \<^verbatim>\<open>monotonic_seconds()\<close> return.\<close>

type_synonym clock_reading = "pyval \<times> pyval"

record authority_clock =
  max_skew_milliseconds :: int
  last_wall_milliseconds :: "int option"
  last_monotonic_seconds :: "rat option"

section \<open>Double arithmetic used by the clock\<close>

fun f64_add :: "pyfloat \<Rightarrow> pyfloat \<Rightarrow> pyfloat" where
  "f64_add (FFin x) (FFin y) = f64_round (x + y)"
| "f64_add FNan _ = FNan"
| "f64_add _ FNan = FNan"
| "f64_add FPosInf FNegInf = FNan"
| "f64_add FNegInf FPosInf = FNan"
| "f64_add FPosInf _ = FPosInf"
| "f64_add FNegInf _ = FNegInf"
| "f64_add _ FPosInf = FPosInf"
| "f64_add _ FNegInf = FNegInf"

fun f64_neg :: "pyfloat \<Rightarrow> pyfloat" where
  "f64_neg (FFin x) = FFin (- x)"
| "f64_neg FPosInf = FNegInf"
| "f64_neg FNegInf = FPosInf"
| "f64_neg FNan = FNan"

definition float_of_int :: "int \<Rightarrow> clock_error + pyfloat" where
  "float_of_int i =
     (case f64_round (of_int i) of FFin x \<Rightarrow> Inr (FFin x) | _ \<Rightarrow> Inl ClockOverflowError)"

text \<open>\<^verbatim>\<open>abs(x) > n\<close> for a double and an integer: exact, false for NaN.\<close>

fun f64_abs_greater :: "pyfloat \<Rightarrow> int \<Rightarrow> bool" where
  "f64_abs_greater (FFin x) n = (of_int n < \<bar>x\<bar>)"
| "f64_abs_greater FNan n = False"
| "f64_abs_greater _ n = True"

section \<open>Operations\<close>

fun finite_non_negative_seconds :: "pyval \<Rightarrow> clock_error + rat" where
  "finite_non_negative_seconds (PyInt i) =
     (case float_of_int i of
        Inl _ \<Rightarrow> Inl ClockValueError
      | Inr (FFin x) \<Rightarrow> if x < 0 then Inl ClockValueError else Inr x
      | Inr _ \<Rightarrow> Inl ClockValueError)"
| "finite_non_negative_seconds (PyFloat (FFin x)) = (if x < 0 then Inl ClockValueError else Inr x)"
| "finite_non_negative_seconds _ = Inl ClockValueError"

fun authority_milliseconds :: "pyval \<Rightarrow> clock_error + int" where
  "authority_milliseconds (PyInt i) = (if i < 0 then Inl ClockValueError else Inr i)"
| "authority_milliseconds _ = Inl ClockValueError"

definition mk_authority_clock :: "pyval \<Rightarrow> clock_error + authority_clock" where
  "mk_authority_clock max_skew =
     (case max_skew of
        PyInt n \<Rightarrow> if n < 0 then Inl ClockValueError
          else Inr \<lparr>max_skew_milliseconds = n, last_wall_milliseconds = None,
                    last_monotonic_seconds = None\<rparr>
      | _ \<Rightarrow> Inl ClockValueError)"

text \<open>
  A difference of two finite non-negative doubles is finite, so the branch of a
  non-finite \<open>elapsed\<close> is never taken; the source would reject it as skew.
\<close>

definition now_milliseconds :: "clock_reading \<Rightarrow> (authority_clock, clock_error, int) py" where
  "now_milliseconds reading =
     bind_py (lift_py (authority_milliseconds (fst reading))) (\<lambda>wall.
     bind_py (lift_py (finite_non_negative_seconds (snd reading))) (\<lambda>observed.
     bind_py (gets_py (\<lambda>c. c)) (\<lambda>c.
       case last_wall_milliseconds c of
         None \<Rightarrow>
           bind_py (modify_py (\<lambda>c. c\<lparr>last_wall_milliseconds := Some wall,
                                      last_monotonic_seconds := Some observed\<rparr>))
             (\<lambda>_. return_py wall)
       | Some lw \<Rightarrow>
           (case last_monotonic_seconds c of
              None \<Rightarrow> raise_py ClockAssertionError
            | Some lm \<Rightarrow>
                (case f64_round (observed - lm) of
                   FFin elapsed \<Rightarrow>
                     if elapsed < 0 then raise_py ClockSkewError
                     else bind_py (lift_py (float_of_int lw)) (\<lambda>flw.
                          let expected_wall = f64_add flw (f64_round (elapsed * 1000)) in
                          bind_py (lift_py (float_of_int wall)) (\<lambda>fw.
                          let skew = f64_add fw (f64_neg expected_wall) in
                          if f64_abs_greater skew (max_skew_milliseconds c)
                          then raise_py ClockSkewError
                          else let effective = max wall lw in
                            bind_py (modify_py (\<lambda>c. c\<lparr>last_wall_milliseconds := Some effective,
                                                       last_monotonic_seconds := Some observed\<rparr>))
                              (\<lambda>_. return_py effective)))
                 | _ \<Rightarrow> raise_py ClockSkewError)))))"

text \<open>The times a caller sees over a sequence of readings, failed readings left out.\<close>

fun authority_times :: "clock_reading list \<Rightarrow> authority_clock \<Rightarrow> int list" where
  "authority_times [] c = []"
| "authority_times (r # rs) c =
     (case now_milliseconds r c of
        (Inl _, c') \<Rightarrow> authority_times rs c'
      | (Inr t, c') \<Rightarrow> t # authority_times rs c')"

section \<open>Facts about readings\<close>

lemma f64_round_exact:
  assumes "\<bar>n\<bar> < 2 ^ 53"
  shows "f64_round (of_int n) = FFin (of_int n)"
proof (cases "n = 0")
  case False
  let ?x = "of_int n :: rat" and ?s = "max (sig_exp 2 (of_int n) - 52) (-1074)"
  have le: "(2::rat) powi sig_exp 2 ?x \<le> \<bar>?x\<bar>"
    using sig_exp_le [of 2 ?x] False by simp
  have "\<bar>?x\<bar> < 2 powi 53"
  proof -
    have "(of_int \<bar>n\<bar> :: rat) < of_int (2 ^ 53)" using assms by (simp only: of_int_less_iff)
    then show ?thesis by simp
  qed
  with le have less: "(2::rat) powi sig_exp 2 ?x < 2 powi 53" by simp
  have "sig_exp 2 ?x < 53"
  proof (rule ccontr)
    assume "\<not> sig_exp 2 ?x < 53"
    then have "(2::rat) powi 53 \<le> 2 powi sig_exp 2 ?x" by (intro power_int_increasing) auto
    with less show False by simp
  qed
  then have "0 \<le> - ?s" by simp
  then obtain k where "- ?s = int k" by (rule nonneg_int_cases)
  then have s: "?s = - int k" by linarith
  have "?x / of_nat 2 powi ?s = of_int (n * 2 ^ k)"
    unfolding s by (simp add: power_int_minus field_simps)
  then have "round_unit 2 ?s ?x = ?x" by (intro round_unit_exact) simp_all
  moreover have "\<bar>?x\<bar> < 2 ^ 1024"
  proof -
    have "\<bar>?x\<bar> < 2 ^ 53" using \<open>\<bar>?x\<bar> < 2 powi 53\<close> by simp
    also have "\<dots> \<le> 2 ^ 1024" by (rule power_increasing) auto
    finally show ?thesis .
  qed
  ultimately show ?thesis using False by (simp add: f64_round_def abs_less_iff Let_def)
qed (simp add: f64_round_def)

lemma float_of_int_exact: "\<bar>n\<bar> < 2 ^ 53 \<Longrightarrow> float_of_int n = Inr (FFin (of_int n))"
  by (simp add: float_of_int_def f64_round_exact)

lemma now_milliseconds_result:
  assumes "now_milliseconds r c = (Inr t, c')"
  shows "last_wall_milliseconds c' = Some t"
    and "max_skew_milliseconds c' = max_skew_milliseconds c"
    and "\<And>lw. last_wall_milliseconds c = Some lw \<Longrightarrow> lw \<le> t"
    and "\<exists>w. fst r = PyInt w \<and> 0 \<le> w \<and> w \<le> t"
  using assms
  by (auto simp: now_milliseconds_def py_monad_defs Let_def
      split: sum.splits option.splits pyfloat.splits if_splits
      elim!: authority_milliseconds.elims)

lemma now_milliseconds_error: "now_milliseconds r c = (Inl e, c') \<Longrightarrow> c' = c"
  by (auto simp: now_milliseconds_def py_monad_defs Let_def
      split: sum.splits option.splits pyfloat.splits if_splits)

lemma authority_times_sorted_above:
  "sorted (authority_times rs c) \<and>
   (\<forall>lw. last_wall_milliseconds c = Some lw \<longrightarrow> (\<forall>t\<in>set (authority_times rs c). lw \<le> t))"
proof (induction rs arbitrary: c)
  case (Cons r rs)
  obtain res c' where res: "now_milliseconds r c = (res, c')" by force
  show ?case
  proof (cases res)
    case (Inl e)
    with res have "c' = c" by (auto dest: now_milliseconds_error)
    with Inl res Cons [of c] show ?thesis by simp
  next
    case (Inr t)
    have c': "last_wall_milliseconds c' = Some t"
      using res Inr now_milliseconds_result(1) by simp
    have lw: "lw \<le> t" if "last_wall_milliseconds c = Some lw" for lw
      using res Inr that now_milliseconds_result(3) by simp
    from Cons [of c'] c' have "sorted (authority_times rs c')" "\<forall>u\<in>set (authority_times rs c'). t \<le> u"
      by auto
    with Inr res lw show ?thesis by (auto intro: order_trans)
  qed
qed simp

section \<open>Properties\<close>

text \<open>
  C37: the authority clock never moves backwards. Over any sequence of readings of the
  wall and monotonic clocks, valid or not, the times handed out are non-decreasing.
\<close>

theorem authority_clock_monotone: "sorted (authority_times readings c)"
  using authority_times_sorted_above by blast

text \<open>
  The skew policy. For monotonic readings in whole seconds below \<open>2\<^sup>4\<^sup>0\<close> and wall
  readings below \<open>2\<^sup>4\<^sup>5\<close> milliseconds, where double arithmetic is exact, a later reading is accepted exactly when the wall clock is within
  the configured skew of the time elapsed on the monotonic clock; the accepted time is
  never before the previous one, and a rejected reading leaves the clock as it was.
\<close>

theorem authority_clock_skew_policy:
  assumes "last_wall_milliseconds c = Some lw" and "last_monotonic_seconds c = Some (of_int lm)"
    and "0 \<le> lw" "lw < 2 ^ 45" and "0 \<le> lm" "lm \<le> m" "m < 2 ^ 40" and "0 \<le> wall" "wall < 2 ^ 45"
  shows "now_milliseconds (PyInt wall, PyInt m) c =
    (if \<bar>wall - (lw + 1000 * (m - lm))\<bar> \<le> max_skew_milliseconds c
     then (Inr (max wall lw),
           c\<lparr>last_wall_milliseconds := Some (max wall lw), last_monotonic_seconds := Some (of_int m)\<rparr>)
     else (Inl ClockSkewError, c))"
proof -
  let ?exp = "lw + 1000 * (m - lm)"
  have fm: "float_of_int m = Inr (FFin (of_int m))"
    and flw: "float_of_int lw = Inr (FFin (of_int lw))"
    and fwall: "float_of_int wall = Inr (FFin (of_int wall))"
    using assms by (auto intro!: float_of_int_exact)
  have e1: "f64_round (of_int m - of_int lm) = FFin (of_int (m - lm))"
    using f64_round_exact [of "m - lm"] assms by simp
  have e2: "f64_round (of_int (m - lm) * 1000) = FFin (of_int (1000 * (m - lm)))"
    using f64_round_exact [of "1000 * (m - lm)"] assms by (simp add: mult.commute)
  have e3: "f64_round (of_int lw + of_int (1000 * (m - lm))) = FFin (of_int ?exp)"
    using f64_round_exact [of ?exp] assms by simp
  have e4: "f64_round (of_int wall - of_int ?exp) = FFin (of_int (wall - ?exp))"
  proof -
    have "of_int wall - of_int ?exp = (of_int (wall - ?exp) :: rat)" by simp
    moreover have "\<bar>wall - ?exp\<bar> < 2 ^ 53" using assms by simp
    ultimately show ?thesis using f64_round_exact [of "wall - ?exp"] by (simp only:)
  qed
  have g: "f64_abs_greater (FFin (of_int (wall - ?exp))) n \<longleftrightarrow> n < \<bar>wall - ?exp\<bar>" for n
    by (simp only: f64_abs_greater.simps of_int_abs [symmetric] of_int_less_iff)
  show ?thesis
    using assms
    by (simp add: now_milliseconds_def py_monad_defs fm flw fwall e1 e2 e3 e4 g Let_def not_less
        del: of_int_diff of_int_add of_int_mult f64_abs_greater.simps right_diff_distrib_numeral)
qed

theorem authority_clock_skew_policy_witness:
  "now_milliseconds (PyInt 12000, PyInt 7)
     \<lparr>max_skew_milliseconds = 500, last_wall_milliseconds = Some 10000, last_monotonic_seconds = Some 5\<rparr>
   = (Inr 12000, \<lparr>max_skew_milliseconds = 500, last_wall_milliseconds = Some 12000,
                  last_monotonic_seconds = Some 7\<rparr>)"
  using authority_clock_skew_policy
    [of "\<lparr>max_skew_milliseconds = 500, last_wall_milliseconds = Some 10000, last_monotonic_seconds = Some 5\<rparr>"
      10000 5 7 12000]
  by simp

end
