(* ===== verification/Leases.thy ===== *)
theory Leases
  imports Clocks
begin

text \<open>
  The in-memory lease pool of \<^verbatim>\<open>leases.py\<close>: bounded capacities per resource, leases with
  expiry and fencing tokens, restoration from active records. Arguments reach the
  methods as untyped values and go through the validators of the source. A lease time is
  the rational an integer or finite float denotes. Mappings are finite trees here, so the
  check for cyclic attribute containers has no counterpart.
\<close>

datatype lease_error =
    InvalidLeaseRequestError
  | LeaseUnavailableError
  | UnknownLeaseError
  | StaleFencingTokenError
  | LeaseClockError clock_error

abbreviation MAX_U64 :: int where
  "MAX_U64 \<equiv> 18446744073709551615"

abbreviation MIN_JSON_INTEGER :: int where
  "MIN_JSON_INTEGER \<equiv> - 9223372036854775808"

abbreviation MAX_LEASE_JSON_DEPTH :: nat where
  "MAX_LEASE_JSON_DEPTH \<equiv> 64"

section \<open>Validators\<close>

fun validate_non_empty_string :: "pyval \<Rightarrow> lease_error + string" where
  "validate_non_empty_string (PyStr s) =
     (if py_strip s = [] then Inl InvalidLeaseRequestError
      else if s \<noteq> py_strip s then Inl InvalidLeaseRequestError
      else if has_surrogate s then Inl InvalidLeaseRequestError
      else Inr s)"
| "validate_non_empty_string _ = Inl InvalidLeaseRequestError"

fun validate_positive_integer :: "pyval \<Rightarrow> lease_error + int" where
  "validate_positive_integer (PyInt i) =
     (if i \<le> 0 then Inl InvalidLeaseRequestError
      else if MAX_U64 < i then Inl InvalidLeaseRequestError
      else Inr i)"
| "validate_positive_integer _ = Inl InvalidLeaseRequestError"

fun validate_non_negative_integer :: "pyval \<Rightarrow> lease_error + int" where
  "validate_non_negative_integer (PyInt i) =
     (if i < 0 then Inl InvalidLeaseRequestError
      else if MAX_U64 < i then Inl InvalidLeaseRequestError
      else Inr i)"
| "validate_non_negative_integer _ = Inl InvalidLeaseRequestError"

fun validate_time :: "pyval \<Rightarrow> lease_error + rat" where
  "validate_time (PyInt i) = (if i < 0 then Inl InvalidLeaseRequestError else Inr (of_int i))"
| "validate_time (PyFloat (FFin x)) = (if x < 0 then Inl InvalidLeaseRequestError else Inr x)"
| "validate_time _ = Inl InvalidLeaseRequestError"

fun validate_optional_time :: "pyval \<Rightarrow> lease_error + rat option" where
  "validate_optional_time PyNone = Inr None"
| "validate_optional_time v = bind_sum (validate_time v) (\<lambda>t. Inr (Some t))"

section \<open>Attributes\<close>

text \<open>
  \<^verbatim>\<open>_freeze_attributes\<close> and \<^verbatim>\<open>_freeze_attribute_value\<close>: a JSON-compatible mapping is
  copied, lists become tuples. \<open>seen\<close> holds the keys already copied.
\<close>

fun attribute_key :: "pyval \<Rightarrow> string set \<Rightarrow> lease_error + string" where
  "attribute_key (PyStr k) seen =
     (if py_strip k = [] then Inl InvalidLeaseRequestError
      else if k \<noteq> py_strip k then Inl InvalidLeaseRequestError
      else if has_surrogate k then Inl InvalidLeaseRequestError
      else if k \<in> seen then Inl InvalidLeaseRequestError
      else Inr k)"
| "attribute_key _ seen = Inl InvalidLeaseRequestError"

fun freeze_attribute_value :: "nat \<Rightarrow> pyval \<Rightarrow> lease_error + pyval"
and freeze_attribute_items :: "nat \<Rightarrow> string set \<Rightarrow> (pyval \<times> pyval) list \<Rightarrow> lease_error + (pyval \<times> pyval) list"
and freeze_attribute_list :: "nat \<Rightarrow> pyval list \<Rightarrow> lease_error + pyval list" where
  "freeze_attribute_value depth v =
     (if MAX_LEASE_JSON_DEPTH < depth then Inl InvalidLeaseRequestError
      else case v of
        PyNone \<Rightarrow> Inr v
      | PyBool b \<Rightarrow> Inr v
      | PyStr s \<Rightarrow> if has_surrogate s then Inl InvalidLeaseRequestError else Inr v
      | PyInt i \<Rightarrow> if i < MIN_JSON_INTEGER \<or> MAX_U64 < i then Inl InvalidLeaseRequestError else Inr v
      | PyFloat f \<Rightarrow> (case f of FFin x \<Rightarrow> Inr v | _ \<Rightarrow> Inl InvalidLeaseRequestError)
      | PyDict items \<Rightarrow>
          bind_sum (freeze_attribute_items depth {} items) (\<lambda>items'. Inr (PyDict items'))
      | PyList xs \<Rightarrow> bind_sum (freeze_attribute_list (Suc depth) xs) (\<lambda>ys. Inr (PyTuple ys))
      | PyTuple xs \<Rightarrow> bind_sum (freeze_attribute_list (Suc depth) xs) (\<lambda>ys. Inr (PyTuple ys))
      | PyOther \<Rightarrow> Inl InvalidLeaseRequestError)"
| "freeze_attribute_items depth seen [] = Inr []"
| "freeze_attribute_items depth seen ((k, v) # rest) =
     bind_sum (attribute_key k seen) (\<lambda>key.
     bind_sum (freeze_attribute_value (Suc depth) v) (\<lambda>v'.
     bind_sum (freeze_attribute_items depth (insert key seen) rest) (\<lambda>rest'.
     Inr ((PyStr key, v') # rest'))))"
| "freeze_attribute_list depth [] = Inr []"
| "freeze_attribute_list depth (x # xs) =
     bind_sum (freeze_attribute_value depth x) (\<lambda>y.
     bind_sum (freeze_attribute_list depth xs) (\<lambda>ys. Inr (y # ys)))"

definition freeze_attributes :: "nat \<Rightarrow> pyval \<Rightarrow> lease_error + pyval" where
  "freeze_attributes depth v =
     (if MAX_LEASE_JSON_DEPTH < depth then Inl InvalidLeaseRequestError
      else case v of
        PyDict items \<Rightarrow>
          bind_sum (freeze_attribute_items depth {} items) (\<lambda>items'. Inr (PyDict items'))
      | _ \<Rightarrow> Inl InvalidLeaseRequestError)"


declare freeze_attribute_value.simps [simp del]

section \<open>Records\<close>

record active_lease =
  resource :: string
  lease_owner :: string
  units :: int
  fencing_token :: int
  attributes :: pyval
  acquired_at :: rat
  expires_at :: "rat option"

definition mk_active_lease ::
  "pyval \<Rightarrow> pyval \<Rightarrow> pyval \<Rightarrow> pyval \<Rightarrow> pyval \<Rightarrow> pyval \<Rightarrow> pyval \<Rightarrow> lease_error + active_lease" where
  "mk_active_lease res ow un tok attrs acq ex =
     bind_sum (validate_non_empty_string res) (\<lambda>res'.
     bind_sum (validate_non_empty_string ow) (\<lambda>ow'.
     bind_sum (validate_positive_integer un) (\<lambda>un'.
     bind_sum (validate_non_negative_integer tok) (\<lambda>tok'.
     bind_sum (freeze_attributes 0 attrs) (\<lambda>attrs'.
     bind_sum (validate_time acq) (\<lambda>acq'.
     bind_sum (validate_optional_time ex) (\<lambda>ex'.
     if (case ex' of None \<Rightarrow> False | Some e \<Rightarrow> e \<le> acq') then Inl InvalidLeaseRequestError
     else Inr \<lparr>resource = res', lease_owner = ow', units = un', fencing_token = tok',
               attributes = attrs', acquired_at = acq', expires_at = ex'\<rparr>)))))))"

text \<open>The handle a caller keeps; its pool is the state of the machine below.\<close>

record lease =
  handle_lease_id :: string
  handle_resource :: string
  handle_owner :: string
  handle_units :: int
  handle_fencing_token :: int

definition mk_lease :: "pyval \<Rightarrow> pyval \<Rightarrow> pyval \<Rightarrow> pyval \<Rightarrow> pyval \<Rightarrow> lease_error + lease" where
  "mk_lease lid res ow un tok =
     bind_sum (validate_non_empty_string lid) (\<lambda>lid'.
     bind_sum (validate_non_empty_string res) (\<lambda>res'.
     bind_sum (validate_non_empty_string ow) (\<lambda>ow'.
     bind_sum (validate_positive_integer un) (\<lambda>un'.
     bind_sum (validate_non_negative_integer tok) (\<lambda>tok'.
     Inr \<lparr>handle_lease_id = lid', handle_resource = res', handle_owner = ow',
          handle_units = un', handle_fencing_token = tok'\<rparr>)))))"

record lease_pool =
  capacities :: "(string, int) dict"
  active :: "(string, active_lease) dict"
  next_id :: int
  next_fencing_token :: int
  pool_clock :: "authority_clock option"

section \<open>Restoring a pool\<close>

text \<open>\<^verbatim>\<open>InMemoryLeasePool.__post_init__\<close>, loop by loop.\<close>

fun restore_capacities :: "(string, int) dict \<Rightarrow> (pyval \<times> pyval) list \<Rightarrow> lease_error + (string, int) dict" where
  "restore_capacities caps [] = Inr caps"
| "restore_capacities caps ((r, c) # rest) =
     bind_sum (validate_non_empty_string r) (\<lambda>r'.
     if map_of caps r' \<noteq> None then Inl InvalidLeaseRequestError
     else bind_sum (validate_positive_integer c) (\<lambda>c'. restore_capacities (dict_set r' c' caps) rest))"

fun restore_active_ids ::
  "(string, active_lease) dict \<Rightarrow> (pyval \<times> active_lease) list \<Rightarrow> lease_error + (string, active_lease) dict" where
  "restore_active_ids acc [] = Inr acc"
| "restore_active_ids acc ((i, al) # rest) =
     bind_sum (validate_non_empty_string i) (\<lambda>i'.
     if map_of acc i' \<noteq> None then Inl InvalidLeaseRequestError
     else restore_active_ids (dict_set i' al acc) rest)"

text \<open>The running totals of the restoration loop.\<close>

record restore_totals =
  max_restored_id :: int
  max_restored_fencing_token :: int
  restored_units :: "(string, int) dict"
  restored_fencing_tokens :: "int set"

definition restore_step ::
  "(string, int) dict \<Rightarrow> string \<Rightarrow> active_lease \<Rightarrow> restore_totals \<Rightarrow> lease_error + restore_totals" where
  "restore_step caps lid al t =
     (case map_of caps (resource al) of
        None \<Rightarrow> Inl InvalidLeaseRequestError
      | Some cap \<Rightarrow>
          let used = (case map_of (restored_units t) (resource al) of None \<Rightarrow> 0 | Some u \<Rightarrow> u) + units al in
          if cap < used then Inl InvalidLeaseRequestError
          else if fencing_token al \<le> 0 then Inl InvalidLeaseRequestError
          else if fencing_token al \<in> restored_fencing_tokens t then Inl InvalidLeaseRequestError
          else
            bind_sum
              (case numeric_suffix lid ''lease-'' of
                 None \<Rightarrow> Inr (max_restored_id t)
               | Some n \<Rightarrow> if MAX_U64 < n then Inl InvalidLeaseRequestError
                           else Inr (max (max_restored_id t) n))
              (\<lambda>mid. Inr \<lparr>max_restored_id = mid,
                 max_restored_fencing_token = max (max_restored_fencing_token t) (fencing_token al),
                 restored_units = dict_set (resource al) used (restored_units t),
                 restored_fencing_tokens = insert (fencing_token al) (restored_fencing_tokens t)\<rparr>))"

fun restore_loop ::
  "(string, int) dict \<Rightarrow> (string, active_lease) dict \<Rightarrow> restore_totals \<Rightarrow> lease_error + restore_totals" where
  "restore_loop caps [] t = Inr t"
| "restore_loop caps ((lid, al) # rest) t = bind_sum (restore_step caps lid al t) (restore_loop caps rest)"

definition mk_lease_pool ::
  "(pyval \<times> pyval) list \<Rightarrow> (pyval \<times> active_lease) list \<Rightarrow> pyval \<Rightarrow> pyval \<Rightarrow> authority_clock option
     \<Rightarrow> lease_error + lease_pool" where
  "mk_lease_pool caps acts nid ntok clock =
     bind_sum (restore_capacities [] caps) (\<lambda>caps'.
     bind_sum (restore_active_ids [] acts) (\<lambda>acts'.
     bind_sum (restore_loop caps' acts'
        \<lparr>max_restored_id = 0, max_restored_fencing_token = 0, restored_units = [],
         restored_fencing_tokens = {}\<rparr>) (\<lambda>t.
     bind_sum (validate_positive_integer nid) (\<lambda>nid'.
     bind_sum (validate_positive_integer ntok) (\<lambda>ntok'.
     Inr \<lparr>capacities = caps', active = acts',
          next_id = max nid' (min (max_restored_id t + 1) MAX_U64),
          next_fencing_token = max ntok' (min (max_restored_fencing_token t + 1) MAX_U64),
          pool_clock = clock\<rparr>)))))"

section \<open>Operations\<close>

definition used_units :: "string \<Rightarrow> (string, active_lease) dict \<Rightarrow> int" where
  "used_units r acts = (\<Sum>al\<leftarrow>filter (\<lambda>al. resource al = r) (dict_values acts). units al)"

definition lease_id_of :: "int \<Rightarrow> string" where
  "lease_id_of n = ''lease-'' @ fmt_06d n"

text \<open>\<^verbatim>\<open>_capacity\<close>; the validated resource name is returned with its capacity.\<close>

definition capacity_of :: "pyval \<Rightarrow> (lease_pool, lease_error, string \<times> int) py" where
  "capacity_of r =
     bind_py (lift_py (validate_non_empty_string r)) (\<lambda>r'.
     bind_py (gets_py capacities) (\<lambda>caps.
     case map_of caps r' of None \<Rightarrow> raise_py LeaseUnavailableError | Some c \<Rightarrow> return_py (r', c)))"

text \<open>Reading the configured clock updates the clock inside the pool.\<close>

definition read_pool_clock :: "clock_reading \<Rightarrow> authority_clock \<Rightarrow> (lease_pool, lease_error, int) py" where
  "read_pool_clock rd clk p =
     (case now_milliseconds rd clk of
        (Inl e, clk') \<Rightarrow> (Inl (LeaseClockError e), p\<lparr>pool_clock := Some clk'\<rparr>)
      | (Inr t, clk') \<Rightarrow> (Inr t, p\<lparr>pool_clock := Some clk'\<rparr>))"

definition resolve_authority_time :: "clock_reading \<Rightarrow> pyval \<Rightarrow> (lease_pool, lease_error, rat) py" where
  "resolve_authority_time rd v =
     (if v \<noteq> PyNone then lift_py (validate_time v)
      else bind_py (gets_py pool_clock) (\<lambda>clk.
        case clk of
          None \<Rightarrow> return_py 0
        | Some c \<Rightarrow> bind_py (read_pool_clock rd c) (\<lambda>ms. lift_py (validate_time (PyInt ms)))))"

definition lease_expired :: "rat \<Rightarrow> active_lease \<Rightarrow> bool" where
  "lease_expired now al = (case expires_at al of None \<Rightarrow> False | Some e \<Rightarrow> e \<le> now)"

definition reap_expired :: "clock_reading \<Rightarrow> pyval \<Rightarrow> (lease_pool, lease_error, nat) py" where
  "reap_expired rd v =
     bind_py (resolve_authority_time rd v) (\<lambda>now.
     bind_py (gets_py (\<lambda>p. map fst (filter (\<lambda>(i, al). lease_expired now al) (active p)))) (\<lambda>expired_ids.
     bind_py (modify_py (\<lambda>p. p\<lparr>active := fold dict_pop expired_ids (active p)\<rparr>)) (\<lambda>_.
     return_py (length expired_ids))))"

definition available :: "clock_reading \<Rightarrow> pyval \<Rightarrow> pyval \<Rightarrow> (lease_pool, lease_error, int) py" where
  "available rd r now =
     bind_py (capacity_of r) (\<lambda>(r', capacity).
     bind_py (gets_py pool_clock) (\<lambda>clk.
     bind_py (if now \<noteq> PyNone \<or> clk \<noteq> None then reap_expired rd now else return_py 0) (\<lambda>_.
     bind_py (gets_py active) (\<lambda>acts.
     return_py (capacity - used_units r' acts)))))"

function free_lease_number :: "(string, active_lease) dict \<Rightarrow> int \<Rightarrow> int" where
  "free_lease_number acts n =
     (if n < MAX_U64 \<and> map_of acts (lease_id_of n) \<noteq> None then free_lease_number acts (n + 1) else n)"
  by pat_completeness auto
termination
  by (relation "measure (\<lambda>(acts, n). nat (MAX_U64 - n))") auto

declare free_lease_number.simps [simp del]

function allocate_loop :: "(string, active_lease) dict \<Rightarrow> int \<Rightarrow> lease_error + int" where
  "allocate_loop acts n =
     (if map_of acts (lease_id_of n) \<noteq> None then
        if MAX_U64 \<le> n then Inl InvalidLeaseRequestError else allocate_loop acts (n + 1)
      else Inr n)"
  by pat_completeness auto
termination
  by (relation "measure (\<lambda>(acts, n). nat (MAX_U64 - n))") auto

declare allocate_loop.simps [simp del]

definition allocate_lease_id :: "(lease_pool, lease_error, string) py" where
  "allocate_lease_id =
     bind_py (gets_py (\<lambda>p. allocate_loop (active p) (next_id p))) (\<lambda>r.
     bind_py (lift_py r) (\<lambda>n.
     bind_py (raise_if (MAX_U64 \<le> n) InvalidLeaseRequestError) (\<lambda>_.
     bind_py (modify_py (\<lambda>p. p\<lparr>next_id := n + 1\<rparr>)) (\<lambda>_.
     return_py (lease_id_of n)))))"

definition max_active_token :: "(string, active_lease) dict \<Rightarrow> int" where
  "max_active_token acts = Max (set (map fencing_token (dict_values acts)))"

definition fencing_candidate :: "lease_pool \<Rightarrow> int" where
  "fencing_candidate p =
     (if active p \<noteq> [] then max (next_fencing_token p) (max_active_token (active p) + 1)
      else next_fencing_token p)"

definition allocate_fencing_token :: "(lease_pool, lease_error, int) py" where
  "allocate_fencing_token =
     bind_py (gets_py fencing_candidate) (\<lambda>tok.
     bind_py (raise_if (MAX_U64 \<le> tok) InvalidLeaseRequestError) (\<lambda>_.
     bind_py (modify_py (\<lambda>p. p\<lparr>next_fencing_token := tok + 1\<rparr>)) (\<lambda>_.
     return_py tok)))"


text \<open>A resolved time goes back into a method as a Python number.\<close>

abbreviation py_time :: "rat \<Rightarrow> pyval" where
  "py_time t \<equiv> PyFloat (FFin t)"

abbreviation py_opt_time :: "rat option \<Rightarrow> pyval" where
  "py_opt_time t \<equiv> (case t of None \<Rightarrow> PyNone | Some x \<Rightarrow> py_time x)"

text \<open>The part of \<^verbatim>\<open>acquire\<close> after the expired leases are reaped.\<close>

definition grant_lease ::
  "int \<Rightarrow> string \<Rightarrow> string \<Rightarrow> int \<Rightarrow> pyval \<Rightarrow> rat option \<Rightarrow> rat \<Rightarrow> (lease_pool, lease_error, lease) py" where
  "grant_lease capacity res ow un attrs ex acq =
     bind_py (gets_py (\<lambda>p. capacity - used_units res (active p))) (\<lambda>avail.
     bind_py (raise_if (avail < un) LeaseUnavailableError) (\<lambda>_.
     bind_py (gets_py (\<lambda>p. free_lease_number (active p) (next_id p))) (\<lambda>lease_number.
     bind_py (raise_if (MAX_U64 \<le> lease_number) InvalidLeaseRequestError) (\<lambda>_.
     bind_py (gets_py (\<lambda>p. active p \<noteq> [] \<and> MAX_U64 \<le> max_active_token (active p))) (\<lambda>spent.
     bind_py (raise_if spent InvalidLeaseRequestError) (\<lambda>_.
     bind_py (gets_py fencing_candidate) (\<lambda>candidate.
     bind_py (raise_if (MAX_U64 \<le> candidate) InvalidLeaseRequestError) (\<lambda>_.
     bind_py allocate_lease_id (\<lambda>lid.
     bind_py allocate_fencing_token (\<lambda>tok.
     bind_py (lift_py (mk_active_lease (PyStr res) (PyStr ow) (PyInt un) (PyInt tok) attrs
                         (py_time acq) (py_opt_time ex))) (\<lambda>al.
     bind_py (modify_py (\<lambda>p. p\<lparr>active := dict_set lid al (active p)\<rparr>)) (\<lambda>_.
     lift_py (mk_lease (PyStr lid) (PyStr res) (PyStr ow) (PyInt un) (PyInt tok))))))))))))))"

definition acquire ::
  "clock_reading \<Rightarrow> pyval \<Rightarrow> pyval \<Rightarrow> pyval \<Rightarrow> pyval \<Rightarrow> pyval \<Rightarrow> pyval \<Rightarrow> (lease_pool, lease_error, lease) py" where
  "acquire rd res ow un attrs ex acq =
     bind_py (capacity_of res) (\<lambda>(res', capacity).
     bind_py (lift_py (validate_non_empty_string ow)) (\<lambda>ow'.
     bind_py (lift_py (case un of PyInt u \<Rightarrow> if u \<le> 0 then Inl InvalidLeaseRequestError else Inr u
                       | _ \<Rightarrow> Inl InvalidLeaseRequestError)) (\<lambda>un'.
     bind_py (resolve_authority_time rd acq) (\<lambda>acq'.
     bind_py (lift_py (validate_optional_time ex)) (\<lambda>ex'.
     bind_py (raise_if (case ex' of None \<Rightarrow> False | Some e \<Rightarrow> e \<le> acq') InvalidLeaseRequestError) (\<lambda>_.
     bind_py (lift_py (freeze_attributes 0 (if attrs = PyNone then PyDict [] else attrs))) (\<lambda>attrs'.
     bind_py (reap_expired rd (py_time acq')) (\<lambda>_.
     grant_lease capacity res' ow' un' attrs' ex' acq'))))))))"

definition active_lease_of :: "pyval \<Rightarrow> (lease_pool, lease_error, string \<times> active_lease) py" where
  "active_lease_of lid =
     bind_py (lift_py (validate_non_empty_string lid)) (\<lambda>lid'.
     bind_py (gets_py active) (\<lambda>acts.
     case map_of acts lid' of None \<Rightarrow> raise_py UnknownLeaseError | Some al \<Rightarrow> return_py (lid', al)))"

definition renew :: "clock_reading \<Rightarrow> pyval \<Rightarrow> pyval \<Rightarrow> pyval \<Rightarrow> pyval \<Rightarrow> (lease_pool, lease_error, int) py" where
  "renew rd lid tok ex ren =
     bind_py (resolve_authority_time rd ren) (\<lambda>ren'.
     bind_py (lift_py (validate_time ex)) (\<lambda>ex'.
     bind_py (lift_py (validate_non_negative_integer tok)) (\<lambda>tok'.
     bind_py (raise_if (ex' \<le> ren') InvalidLeaseRequestError) (\<lambda>_.
     bind_py (reap_expired rd (py_time ren')) (\<lambda>_.
     bind_py (active_lease_of lid) (\<lambda>(lid', al).
     bind_py (raise_if (ren' < acquired_at al) InvalidLeaseRequestError) (\<lambda>_.
     bind_py (raise_if (fencing_token al \<noteq> tok') StaleFencingTokenError) (\<lambda>_.
     bind_py (raise_if (case expires_at al of None \<Rightarrow> True | Some e \<Rightarrow> ex' \<le> e) InvalidLeaseRequestError) (\<lambda>_.
     bind_py allocate_fencing_token (\<lambda>renewed.
     bind_py (lift_py (mk_active_lease (PyStr (resource al)) (PyStr (lease_owner al)) (PyInt (units al))
                         (PyInt renewed) (attributes al) (py_time (acquired_at al)) (py_time ex'))) (\<lambda>al'.
     bind_py (modify_py (\<lambda>p. p\<lparr>active := dict_set lid' al' (active p)\<rparr>)) (\<lambda>_.
     return_py renewed))))))))))))"

definition validate_fencing_token :: "pyval \<Rightarrow> pyval \<Rightarrow> (lease_pool, lease_error, unit) py" where
  "validate_fencing_token lid tok =
     bind_py (lift_py (validate_non_empty_string lid)) (\<lambda>_.
     bind_py (lift_py (validate_non_negative_integer tok)) (\<lambda>tok'.
     bind_py (active_lease_of lid) (\<lambda>(_, al).
     raise_if (fencing_token al \<noteq> tok') StaleFencingTokenError)))"

definition lease_attributes :: "pyval \<Rightarrow> (lease_pool, lease_error, pyval) py" where
  "lease_attributes lid = bind_py (active_lease_of lid) (\<lambda>(_, al). return_py (attributes al))"

definition lease_expires_at :: "pyval \<Rightarrow> (lease_pool, lease_error, rat option) py" where
  "lease_expires_at lid = bind_py (active_lease_of lid) (\<lambda>(_, al). return_py (expires_at al))"

definition release :: "pyval \<Rightarrow> pyval \<Rightarrow> (lease_pool, lease_error, bool) py" where
  "release lid tok =
     bind_py (lift_py (validate_non_empty_string lid)) (\<lambda>lid'.
     bind_py (gets_py active) (\<lambda>acts.
     case map_of acts lid' of
       None \<Rightarrow> return_py False
     | Some al \<Rightarrow>
         if tok = PyNone then raise_py InvalidLeaseRequestError
         else bind_py (lift_py (validate_non_negative_integer tok)) (\<lambda>tok'.
              bind_py (raise_if (fencing_token al \<noteq> tok') StaleFencingTokenError) (\<lambda>_.
              bind_py (modify_py (\<lambda>p. p\<lparr>active := dict_pop lid' (active p)\<rparr>)) (\<lambda>_.
              return_py True)))))"

definition release_all :: "pyval \<Rightarrow> (lease_pool, lease_error, unit) py" where
  "release_all ow =
     bind_py (lift_py (validate_non_empty_string ow)) (\<lambda>ow'.
     bind_py (gets_py active) (\<lambda>items.
     for_py items (\<lambda>(lid, al).
       if lease_owner al = ow' then modify_py (\<lambda>p. p\<lparr>active := dict_pop lid (active p)\<rparr>)
       else return_py ())))"

text \<open>The methods of the handle; \<^verbatim>\<open>renew\<close> stores the new token in it.\<close>

definition lease_renew :: "clock_reading \<Rightarrow> lease \<Rightarrow> pyval \<Rightarrow> pyval \<Rightarrow> (lease_pool, lease_error, lease) py" where
  "lease_renew rd h ex ren =
     bind_py (renew rd (PyStr (handle_lease_id h)) (PyInt (handle_fencing_token h)) ex ren) (\<lambda>tok.
     return_py (h\<lparr>handle_fencing_token := tok\<rparr>))"

definition lease_release :: "lease \<Rightarrow> (lease_pool, lease_error, bool) py" where
  "lease_release h = release (PyStr (handle_lease_id h)) (PyInt (handle_fencing_token h))"

text \<open>A call of a public method, whatever its arguments.\<close>

datatype lease_call =
    Available clock_reading pyval pyval
  | Acquire clock_reading pyval pyval pyval pyval pyval pyval
  | Renew clock_reading pyval pyval pyval pyval
  | ValidateFencingToken pyval pyval
  | ReapExpired clock_reading pyval
  | Release pyval pyval
  | ReleaseAll pyval

fun lease_exec :: "lease_call \<Rightarrow> lease_pool \<Rightarrow> lease_pool" where
  "lease_exec (Available rd r now) p = snd (available rd r now p)"
| "lease_exec (Acquire rd r ow un attrs ex acq) p = snd (acquire rd r ow un attrs ex acq p)"
| "lease_exec (Renew rd lid tok ex ren) p = snd (renew rd lid tok ex ren p)"
| "lease_exec (ValidateFencingToken lid tok) p = snd (validate_fencing_token lid tok p)"
| "lease_exec (ReapExpired rd now) p = snd (reap_expired rd now p)"
| "lease_exec (Release lid tok) p = snd (release lid tok p)"
| "lease_exec (ReleaseAll ow) p = snd (release_all ow p)"

section \<open>Invariant\<close>

text \<open>An active record as its constructor leaves it: constructing it again changes nothing.\<close>

definition active_lease_valid :: "active_lease \<Rightarrow> bool" where
  "active_lease_valid al \<longleftrightarrow>
     mk_active_lease (PyStr (resource al)) (PyStr (lease_owner al)) (PyInt (units al))
       (PyInt (fencing_token al)) (attributes al) (py_time (acquired_at al))
       (py_opt_time (expires_at al)) = Inr al"

definition lease_ok :: "(string, int) dict \<Rightarrow> active_lease \<Rightarrow> bool" where
  "lease_ok caps al \<longleftrightarrow>
     map_of caps (resource al) \<noteq> None \<and> active_lease_valid al \<and> 0 < fencing_token al"

definition tokens :: "(string, active_lease) dict \<Rightarrow> int list" where
  "tokens acts = map fencing_token (dict_values acts)"

definition lease_inv :: "lease_pool \<Rightarrow> bool" where
  "lease_inv p \<longleftrightarrow>
     dict_ok (capacities p) \<and> dict_ok (active p) \<and>
     (\<forall>al\<in>set (dict_values (active p)). lease_ok (capacities p) al) \<and>
     (\<forall>r c. map_of (capacities p) r = Some c \<longrightarrow> used_units r (active p) \<le> c) \<and>
     distinct (tokens (active p)) \<and>
     (\<forall>n\<in>set (tokens (active p)). n < next_fencing_token p \<or> MAX_U64 \<le> next_fencing_token p) \<and>
     0 < next_id p \<and> 0 < next_fencing_token p"


section \<open>Helper lemmas\<close>

lemma lease_invD:
  assumes "lease_inv p"
  shows "dict_ok (capacities p)" and "dict_ok (active p)"
    and "\<And>al. al \<in> set (dict_values (active p)) \<Longrightarrow> lease_ok (capacities p) al"
    and "\<And>r c. map_of (capacities p) r = Some c \<Longrightarrow> used_units r (active p) \<le> c"
    and "distinct (tokens (active p))"
    and "\<And>n. n \<in> set (tokens (active p)) \<Longrightarrow> n < next_fencing_token p \<or> MAX_U64 \<le> next_fencing_token p"
    and "0 < next_id p" and "0 < next_fencing_token p"
  using assms unfolding lease_inv_def by blast+

definition units_on :: "string \<Rightarrow> active_lease \<Rightarrow> int" where
  "units_on r al = (if resource al = r then units al else 0)"

lemma used_units_sum: "used_units r acts = dict_sum (units_on r) acts"
  by (induction acts) (auto simp: used_units_def dict_values_def units_on_def)

lemma fold_dict_pop: "fold dict_pop ks d = filter (\<lambda>(k, v). k \<notin> set ks) d"
proof (induction ks arbitrary: d)
  case (Cons k ks)
  then show ?case by (auto simp: AList.delete_eq intro!: filter_cong)
qed simp

lemma pop_filtered:
  assumes "dict_ok d"
  shows "fold dict_pop (map fst (filter P d)) d = filter (\<lambda>x. \<not> P x) d"
  unfolding fold_dict_pop
proof (rule filter_cong [OF refl])
  fix x assume x: "x \<in> set d"
  show "(case x of (k, v) \<Rightarrow> k \<notin> set (map fst (filter P d))) = (\<not> P x)"
  proof (cases x)
    case (Pair k v)
    have "P (k, v)" if "(k, w) \<in> set d" "P (k, w)" for w
      using that x Pair assms by (metis dict_mem_iff option.inject)
    then show ?thesis using x Pair by force
  qed
qed

lemma tokens_mem: "dict_ok acts \<Longrightarrow> n \<in> set (tokens acts) \<longleftrightarrow> (\<exists>i al. map_of acts i = Some al \<and> fencing_token al = n)"
  unfolding tokens_def by (simp add: image_iff) (metis dict_values_mem)

lemma max_active_token_ge: "n \<in> set (tokens acts) \<Longrightarrow> n \<le> max_active_token acts"
  by (simp add: tokens_def max_active_token_def)

lemma tokens_filter_subset: "set (tokens (filter P acts)) \<subseteq> set (tokens acts)"
  by (auto simp: tokens_def dict_values_def)

lemma distinct_tokens_filter: "distinct (tokens acts) \<Longrightarrow> distinct (tokens (filter P acts))"
  by (induction acts) (auto simp: tokens_def dict_values_def)

lemma allocate_loop_fresh:
  "allocate_loop acts n = Inr m \<Longrightarrow> n \<le> m \<and> map_of acts (lease_id_of m) = None"
proof (induction acts n rule: allocate_loop.induct)
  case (1 acts n)
  from "1.prems" show ?case
    unfolding allocate_loop.simps [of acts n] using "1.IH" by (fastforce split: if_splits)
qed

lemma lease_inv_clock [simp]: "lease_inv (p\<lparr>pool_clock := c\<rparr>) = lease_inv p"
  by (simp add: lease_inv_def)

lemma dict_values_mem_filter: "set (dict_values (filter P d)) \<subseteq> set (dict_values d)"
  by (auto simp: dict_values_def)

subsection \<open>Frozen attributes\<close>

lemma freeze_value_cases:
  assumes "freeze_attribute_value d v = Inr w"
  shows "d \<le> MAX_LEASE_JSON_DEPTH"
    and "(w = v \<and> (\<forall>items. v \<noteq> PyDict items) \<and> (\<forall>xs. v \<noteq> PyList xs) \<and> (\<forall>xs. v \<noteq> PyTuple xs)) \<or>
      (\<exists>items items'. v = PyDict items \<and> w = PyDict items' \<and> freeze_attribute_items d {} items = Inr items') \<or>
      (\<exists>xs ys. (v = PyList xs \<or> v = PyTuple xs) \<and> w = PyTuple ys \<and> freeze_attribute_list (Suc d) xs = Inr ys)"
  using assms
  by (auto simp: freeze_attribute_value.simps [of d v] bind_sum_Inr_iff
      split: if_splits pyval.splits pyfloat.splits)

lemma freeze_idempotent:
  "freeze_attribute_value d v = Inr w \<Longrightarrow> freeze_attribute_value d w = Inr w"
  "freeze_attribute_items d seen items = Inr items' \<Longrightarrow> freeze_attribute_items d seen items' = Inr items'"
  "freeze_attribute_list d xs = Inr ys \<Longrightarrow> freeze_attribute_list d ys = Inr ys"
proof (induction d v and d seen items and d xs arbitrary: w and items' and ys
    rule: freeze_attribute_value_freeze_attribute_items_freeze_attribute_list.induct)
  case (1 d v)
  note d = freeze_value_cases(1) [OF "1.prems"]
  from freeze_value_cases(2) [OF "1.prems"] consider "w = v"
    | items items' where "v = PyDict items" "w = PyDict items'" "freeze_attribute_items d {} items = Inr items'"
    | xs ys where "v = PyList xs \<or> v = PyTuple xs" "w = PyTuple ys" "freeze_attribute_list (Suc d) xs = Inr ys"
    by blast
  then show ?case
  proof cases
    case 1
    with "1.prems" show ?thesis by simp
  next
    case 2
    then have "freeze_attribute_items d {} items' = Inr items'"
      using "1.IH"(3) d by simp
    with 2 d show ?thesis by (simp add: freeze_attribute_value.simps [of d "PyDict items'"])
  next
    case 3
    then have "freeze_attribute_list (Suc d) ys = Inr ys"
      using "1.IH"(1) [of xs] "1.IH"(2) [of xs] d by auto
    with 3 d show ?thesis by (simp add: freeze_attribute_value.simps [of d "PyTuple ys"])
  qed
next
  case (3 d seen k v rest)
  then show ?case by (auto simp: bind_sum_Inr_iff elim!: attribute_key.elims split: if_splits)
qed (auto simp: bind_sum_Inr_iff)

lemma freeze_attributes_idempotent:
  "freeze_attributes d v = Inr w \<Longrightarrow> freeze_attributes d w = Inr w"
  by (auto simp: freeze_attributes_def bind_sum_Inr_iff freeze_idempotent(2) split: if_splits pyval.splits)

subsection \<open>Constructed records\<close>

lemma validate_string_inner: "validate_non_empty_string v = Inr s \<Longrightarrow> validate_non_empty_string (PyStr s) = Inr s"
  by (induction v rule: validate_non_empty_string.induct) (auto split: if_splits)

lemma validate_string_same: "validate_non_empty_string (PyStr s) = Inr t \<Longrightarrow> t = s"
  by (auto split: if_splits)

lemma validate_time_nonneg: "validate_time v = Inr t \<Longrightarrow> 0 \<le> t"
  by (induction v rule: validate_time.induct) (auto split: if_splits)

lemma validate_time_py_time [simp]: "0 \<le> t \<Longrightarrow> validate_time (py_time t) = Inr t"
  by simp

lemma mk_active_lease_result:
  assumes "mk_active_lease (PyStr r) (PyStr ow) (PyInt u) (PyInt n) attrs acq ex = Inr al"
  shows "resource al = r" and "units al = u" and "fencing_token al = n" and "0 < u" and "0 \<le> n" and "n \<le> MAX_U64"
    and "lease_owner al = ow"
  using assms by (auto simp: mk_active_lease_def bind_sum_Inr_iff split: if_splits)


lemma mk_active_lease_ok:
  assumes "validate_non_empty_string (PyStr r) = Inr r" and "validate_non_empty_string (PyStr ow) = Inr ow"
    and "0 < u" "u \<le> MAX_U64" and "0 \<le> n" "n \<le> MAX_U64" and "freeze_attributes 0 a = Inr a" and "0 \<le> t"
    and "case e of None \<Rightarrow> True | Some x \<Rightarrow> t < x"
  shows "mk_active_lease (PyStr r) (PyStr ow) (PyInt u) (PyInt n) a (py_time t) (py_opt_time e) =
    Inr \<lparr>resource = r, lease_owner = ow, units = u, fencing_token = n, attributes = a,
         acquired_at = t, expires_at = e\<rparr>"
  using assms by (cases e) (auto simp: mk_active_lease_def)

lemma mk_active_lease_valid:
  assumes "mk_active_lease r ow u n a t e = Inr al"
  shows "active_lease_valid al"
proof -
  obtain r' ow' u' n' a' t' e' where
    args: "validate_non_empty_string r = Inr r'" "validate_non_empty_string ow = Inr ow'"
      "validate_positive_integer u = Inr u'" "validate_non_negative_integer n = Inr n'"
      "freeze_attributes 0 a = Inr a'" "validate_time t = Inr t'" "validate_optional_time e = Inr e'"
    and later: "\<not> (case e' of None \<Rightarrow> False | Some x \<Rightarrow> x \<le> t')"
    and al: "al = \<lparr>resource = r', lease_owner = ow', units = u', fencing_token = n',
               attributes = a', acquired_at = t', expires_at = e'\<rparr>"
    using assms by (auto simp: mk_active_lease_def bind_sum_Inr_iff simp del: not_None_eq split: if_splits)
  have u': "0 < u'" "u' \<le> MAX_U64"
    using args(3) by (auto elim!: validate_positive_integer.elims split: if_splits)
  have n': "0 \<le> n'" "n' \<le> MAX_U64"
    using args(4) by (auto elim!: validate_non_negative_integer.elims split: if_splits)
  show ?thesis
    unfolding active_lease_valid_def al
    using mk_active_lease_ok [OF validate_string_inner [OF args(1)] validate_string_inner [OF args(2)] u' n'
        freeze_attributes_idempotent [OF args(5)] validate_time_nonneg [OF args(6)], of e'] later
    by (auto simp: not_le split: option.splits)
qed

lemma lease_okD:
  assumes "lease_ok caps al"
  shows "map_of caps (resource al) \<noteq> None" and "active_lease_valid al" and "0 < fencing_token al"
    and "0 < units al" and "fencing_token al \<le> MAX_U64"
  using assms mk_active_lease_result(4,6) unfolding lease_ok_def active_lease_valid_def by blast+

text \<open>Dropping leases keeps the invariant.\<close>

lemma lease_inv_filter:
  assumes "lease_inv p"
  shows "lease_inv (p\<lparr>active := filter P (active p)\<rparr>)"
proof -
  have le: "used_units r (filter P (active p)) \<le> used_units r (active p)" for r
    unfolding used_units_sum
  proof (rule dict_sum_filter_le)
    fix k v assume "(k, v) \<in> set (active p)"
    then have "v \<in> set (dict_values (active p))" by (force simp: dict_values_def)
    then show "0 \<le> units_on r v"
      using lease_okD(4) [OF lease_invD(3) [OF assms]] by (auto simp: units_on_def less_imp_le)
  qed
  have "used_units r (filter P (active p)) \<le> c" if "map_of (capacities p) r = Some c" for r c
    using le [of r] lease_invD(4) [OF assms that] by simp
  moreover have "al \<in> set (dict_values (active p))" if "al \<in> set (dict_values (filter P (active p)))" for al
    by (rule subsetD [OF dict_values_mem_filter that])
  moreover have "n \<in> set (tokens (active p))" if "n \<in> set (tokens (filter P (active p)))" for n
    by (rule subsetD [OF tokens_filter_subset that])
  moreover note lease_invD [OF assms]
  ultimately show ?thesis
    unfolding lease_inv_def
    by (auto intro: distinct_tokens_filter)
qed

lemma lease_inv_pop: "lease_inv p \<Longrightarrow> lease_inv (p\<lparr>active := dict_pop i (active p)\<rparr>)"
  unfolding AList.delete_eq by (rule lease_inv_filter)

text \<open>Storing a lease under a fresh token keeps the invariant when its units fit.\<close>

lemma tokens_set_subset:
  "dict_ok acts \<Longrightarrow> n \<in> set (tokens (dict_set i al acts)) \<Longrightarrow> n = fencing_token al \<or> n \<in> set (tokens acts)"
  by (auto simp: tokens_mem split: if_splits)

lemma distinct_tokens_set:
  "dict_ok acts \<Longrightarrow> distinct (tokens acts) \<Longrightarrow> fencing_token al \<notin> set (tokens acts) \<Longrightarrow>
   distinct (tokens (dict_set i al acts))"
proof (induction acts)
  case (Cons q acts)
  obtain k v where q: "q = (k, v)" by force
  have IH: "k \<noteq> i \<Longrightarrow> distinct (tokens (dict_set i al acts))"
    using Cons by (simp add: tokens_def dict_values_def dict_ok_def)
  have "fencing_token v \<notin> set (tokens (dict_set i al acts))"
  proof
    assume "fencing_token v \<in> set (tokens (dict_set i al acts))"
    then have "fencing_token v = fencing_token al \<or> fencing_token v \<in> set (tokens acts)"
      using Cons.prems(1) by (intro tokens_set_subset) (simp_all add: dict_ok_def)
    then show False using Cons.prems q by (auto simp: tokens_def dict_values_def)
  qed
  then show ?case using Cons.prems q IH by (auto simp: tokens_def dict_values_def)
qed (simp add: tokens_def dict_values_def)

lemma lease_inv_store:
  assumes inv: "lease_inv p" and ok: "lease_ok (capacities p) al"
    and fresh: "\<And>n. n \<in> set (tokens (active p)) \<Longrightarrow> n < fencing_token al"
    and tok: "next_fencing_token p \<le> fencing_token al"
    and fit: "\<And>c. map_of (capacities p) (resource al) = Some c \<Longrightarrow>
        used_units (resource al) (dict_set i al (active p)) \<le> c"
    and other: "\<And>r. r \<noteq> resource al \<Longrightarrow> used_units r (dict_set i al (active p)) \<le> used_units r (active p)"
    and nid: "0 < n"
  shows "lease_inv (p\<lparr>active := dict_set i al (active p), next_id := n,
           next_fencing_token := fencing_token al + 1\<rparr>)"
proof -
  have d: "dict_ok (active p)" using inv by (simp add: lease_inv_def)
  have vals: "v = al \<or> v \<in> set (dict_values (active p))"
    if "v \<in> set (dict_values (dict_set i al (active p)))" for v
    using that d by (auto simp: dict_values_mem split: if_splits)
  have "used_units r (dict_set i al (active p)) \<le> c" if "map_of (capacities p) r = Some c" for r c
    using that fit other [of r] lease_invD(4) [OF inv that] by (cases "r = resource al") auto
  moreover have "distinct (tokens (dict_set i al (active p)))"
    using lease_invD(5) [OF inv] fresh d by (intro distinct_tokens_set) auto
  moreover have "m < fencing_token al + 1" if "m \<in> set (tokens (dict_set i al (active p)))" for m
    using tokens_set_subset [OF d that] fresh by force
  moreover have "lease_ok (capacities p) v" if "v \<in> set (dict_values (dict_set i al (active p)))" for v
    using vals [OF that] ok lease_invD(3) [OF inv] by blast
  moreover have "0 < fencing_token al" using ok by (simp add: lease_ok_def)
  ultimately show ?thesis
    unfolding lease_inv_def using nid d lease_invD(1) [OF inv] by auto
qed


section \<open>What the operations do\<close>

text \<open>Pools that differ only in what the clock has seen.\<close>

definition same_but_clock :: "lease_pool \<Rightarrow> lease_pool \<Rightarrow> bool" where
  "same_but_clock p p' \<longleftrightarrow> (\<exists>c. p' = p\<lparr>pool_clock := c\<rparr>)"

lemma same_but_clock_refl [simp]: "same_but_clock p p"
  unfolding same_but_clock_def by (rule exI [of _ "pool_clock p"]) simp

lemma same_but_clock_upd [simp]: "same_but_clock p (p\<lparr>pool_clock := c\<rparr>)"
  unfolding same_but_clock_def by blast

lemma same_but_clock_inv: "same_but_clock p p' \<Longrightarrow> lease_inv p' = lease_inv p"
  by (auto simp: same_but_clock_def)

lemma same_but_clock_fields:
  "same_but_clock p p' \<Longrightarrow> capacities p' = capacities p \<and> active p' = active p \<and>
     next_id p' = next_id p \<and> next_fencing_token p' = next_fencing_token p"
  by (auto simp: same_but_clock_def)

lemma resolve_authority_time_wp:
  "wp (resolve_authority_time rd v)
     (\<lambda>t p'. 0 \<le> t \<and> same_but_clock p p' \<and> (v \<noteq> PyNone \<longrightarrow> p' = p \<and> validate_time v = Inr t))
     (\<lambda>_ p'. same_but_clock p p') p"
  by (auto simp: resolve_authority_time_def read_pool_clock_def wp_def py_monad_defs
      split: sum.splits option.splits prod.splits if_splits dest: validate_time_nonneg)

lemma resolve_py_time [simp]: "0 \<le> t \<Longrightarrow> resolve_authority_time rd (py_time t) p = (Inr t, p)"
  by (simp add: resolve_authority_time_def lift_py_def)

definition reaped :: "rat \<Rightarrow> lease_pool \<Rightarrow> lease_pool" where
  "reaped now p = p\<lparr>active := filter (\<lambda>(i, al). \<not> lease_expired now al) (active p)\<rparr>"

lemma reap_expired_at:
  assumes "0 \<le> t" and "dict_ok (active p)"
  shows "reap_expired rd (py_time t) p =
    (Inr (length (filter (\<lambda>(i, al). lease_expired t al) (active p))), reaped t p)"
  using assms pop_filtered [of "active p" "\<lambda>(i, al). lease_expired t al"]
  by (simp add: reap_expired_def py_monad_defs reaped_def case_prod_unfold)

lemma wp_reap_expired_at:
  "0 \<le> t \<Longrightarrow> dict_ok (active p) \<Longrightarrow>
   wp (reap_expired rd (py_time t)) Q E p =
     Q (length (filter (\<lambda>(i, al). lease_expired t al) (active p))) (reaped t p)"
  by (simp add: wp_def reap_expired_at)

lemma lease_inv_reaped [simp]: "lease_inv p \<Longrightarrow> lease_inv (reaped t p)"
  unfolding reaped_def by (rule lease_inv_filter)

lemma reaped_fields [simp]:
  "capacities (reaped t p) = capacities p" "next_id (reaped t p) = next_id p"
  "next_fencing_token (reaped t p) = next_fencing_token p" "pool_clock (reaped t p) = pool_clock p"
  by (simp_all add: reaped_def)

lemma get_reaped:
  "dict_ok (active p) \<Longrightarrow> map_of (active (reaped t p)) i =
     (case map_of (active p) i of None \<Rightarrow> None | Some al \<Rightarrow> if lease_expired t al then None else Some al)"
  by (simp add: reaped_def get_filter_values split: option.splits)

lemma reap_expired_wp:
  assumes "lease_inv p"
  shows "wp (reap_expired rd v) (\<lambda>_ p'. lease_inv p') (\<lambda>_ p'. lease_inv p') p"
proof -
  have "wp (resolve_authority_time rd v)
     (\<lambda>t p'. 0 \<le> t \<and> same_but_clock p p') (\<lambda>_ p'. same_but_clock p p') p"
    by (rule wp_mono [OF resolve_authority_time_wp]) auto
  then have "wp (resolve_authority_time rd v) (\<lambda>_. lease_inv) (\<lambda>_. lease_inv) p"
    by (rule wp_mono) (use assms same_but_clock_inv in blast)+
  then show ?thesis
    unfolding reap_expired_def
  proof (rule wp_bindI)
    fix t :: rat and p' assume inv: "lease_inv p'"
    show "wp (bind_py (gets_py (\<lambda>p. map fst (filter (\<lambda>(i, al). lease_expired t al) (active p))))
        (\<lambda>expired_ids. bind_py (modify_py (\<lambda>p. p\<lparr>active := fold dict_pop expired_ids (active p)\<rparr>))
           (\<lambda>_. return_py (length expired_ids)))) (\<lambda>_. lease_inv) (\<lambda>_. lease_inv) p'"
      using lease_inv_filter [OF inv] pop_filtered [OF lease_invD(2) [OF inv]] by (simp add: wp_rules)
  qed
qed

lemma candidate_bounds:
  assumes "lease_inv p"
  shows "next_fencing_token p \<le> fencing_candidate p" and "0 < fencing_candidate p"
    and "n \<in> set (tokens (active p)) \<Longrightarrow> n < fencing_candidate p"
  using lease_invD(8) [OF assms(1)] max_active_token_ge [of n "active p"]
  by (auto simp: fencing_candidate_def tokens_def dict_values_def)

lemma candidate_next_id [simp]: "fencing_candidate (p\<lparr>next_id := n\<rparr>) = fencing_candidate p"
  by (simp add: fencing_candidate_def)

lemma lease_inv_next_id: "lease_inv p \<Longrightarrow> 0 < n \<Longrightarrow> lease_inv (p\<lparr>next_id := n\<rparr>)"
  by (simp add: lease_inv_def)

lemma lease_inv_candidate:
  assumes "lease_inv p"
  shows "lease_inv (p\<lparr>next_fencing_token := fencing_candidate p + 1\<rparr>)"
  using assms candidate_bounds [OF assms] by (fastforce simp: lease_inv_def)

lemma wp_allocate_fencing_token [wp_rules]:
  "wp allocate_fencing_token Q E p =
     (if MAX_U64 \<le> fencing_candidate p then E InvalidLeaseRequestError p
      else Q (fencing_candidate p) (p\<lparr>next_fencing_token := fencing_candidate p + 1\<rparr>))"
  by (simp add: allocate_fencing_token_def wp_rules)

lemma wp_allocate_lease_id [wp_rules]:
  "wp allocate_lease_id Q E p =
     (case allocate_loop (active p) (next_id p) of
        Inl e \<Rightarrow> E e p
      | Inr n \<Rightarrow> if MAX_U64 \<le> n then E InvalidLeaseRequestError p
                 else Q (lease_id_of n) (p\<lparr>next_id := n + 1\<rparr>))"
  by (simp add: allocate_lease_id_def wp_rules split: sum.splits)

lemma wp_bind_allocate_lease_id [wp_intros]:
  "(\<And>e. E e p) \<Longrightarrow>
   (\<And>n. allocate_loop (active p) (next_id p) = Inr n \<Longrightarrow> n < MAX_U64 \<Longrightarrow>
      wp (f (lease_id_of n)) Q E (p\<lparr>next_id := n + 1\<rparr>)) \<Longrightarrow>
   wp (bind_py allocate_lease_id f) Q E p"
  by (simp add: wp_rules split: sum.splits)

lemma wp_bind_allocate_fencing_token [wp_intros]:
  "E InvalidLeaseRequestError p \<Longrightarrow>
   (fencing_candidate p < MAX_U64 \<Longrightarrow>
      wp (f (fencing_candidate p)) Q E (p\<lparr>next_fencing_token := fencing_candidate p + 1\<rparr>)) \<Longrightarrow>
   wp (bind_py allocate_fencing_token f) Q E p"
  by (simp add: wp_rules)

lemma used_units_set_other:
  "dict_ok acts \<Longrightarrow> map_of acts i = None \<Longrightarrow> r \<noteq> resource al \<Longrightarrow>
   used_units r (dict_set i al acts) = used_units r acts"
  by (simp add: used_units_sum dict_sum_set_new units_on_def)

lemma used_units_set_new:
  "dict_ok acts \<Longrightarrow> map_of acts i = None \<Longrightarrow>
   used_units (resource al) (dict_set i al acts) = used_units (resource al) acts + units al"
  by (simp add: used_units_sum dict_sum_set_new units_on_def)

lemma wp_capacity_of [wp_rules]:
  "wp (capacity_of r) Q E p =
     (case validate_non_empty_string r of Inl e \<Rightarrow> E e p
      | Inr r' \<Rightarrow> (case map_of (capacities p) r' of None \<Rightarrow> E LeaseUnavailableError p
                   | Some c \<Rightarrow> Q (r', c) p))"
  by (simp add: capacity_of_def wp_rules split: sum.splits option.splits)

lemma grant_lease_inv:
  assumes inv: "lease_inv p" and cap: "map_of (capacities p) res = Some capacity"
  shows "wp (grant_lease capacity res ow un attrs ex acq) (\<lambda>_. lease_inv) (\<lambda>_. lease_inv) p"
proof -
  let ?tok = "fencing_candidate p"
  have nid: "0 < n + 1" if "allocate_loop (active p) (next_id p) = Inr n" for n
    using allocate_loop_fresh [OF that] lease_invD(7) [OF inv] by simp
  have spent: "lease_inv (p\<lparr>next_id := n + 1, next_fencing_token := ?tok + 1\<rparr>)"
    if "allocate_loop (active p) (next_id p) = Inr n" for n
    using lease_inv_candidate [OF lease_inv_next_id [OF inv nid [OF that]]] by simp
  have store: "lease_inv (p\<lparr>next_id := n + 1, next_fencing_token := ?tok + 1,
        active := dict_set (lease_id_of n) al (active p)\<rparr>)"
    if n: "allocate_loop (active p) (next_id p) = Inr n"
      and al: "mk_active_lease (PyStr res) (PyStr ow) (PyInt un) (PyInt ?tok) attrs
                 (py_time acq) (py_opt_time ex) = Inr al"
      and fit: "un \<le> capacity - used_units res (active p)" for n al
  proof -
    note al' = mk_active_lease_result [OF al]
    have fresh: "map_of (active p) (lease_id_of n) = None" using allocate_loop_fresh [OF n] by simp
    have d: "dict_ok (active p)" by (rule lease_invD(2) [OF inv])
    have "lease_inv (p\<lparr>active := dict_set (lease_id_of n) al (active p), next_id := n + 1,
           next_fencing_token := fencing_token al + 1\<rparr>)"
    proof (rule lease_inv_store [OF inv _ _ _ _ _ nid [OF n]])
      show "lease_ok (capacities p) al"
        using al' cap candidate_bounds(2) [OF inv] mk_active_lease_valid [OF al] by (simp add: lease_ok_def)
      show "used_units (resource al) (dict_set (lease_id_of n) al (active p)) \<le> c"
        if "map_of (capacities p) (resource al) = Some c" for c
        using that used_units_set_new [OF d fresh, of al] fit cap al' by simp
    qed (use al' candidate_bounds [OF inv] used_units_set_other [OF d fresh] in auto)
    moreover have "p\<lparr>active := dict_set (lease_id_of n) al (active p), next_id := n + 1,
           next_fencing_token := ?tok + 1\<rparr> = p\<lparr>next_id := n + 1, next_fencing_token := ?tok + 1,
        active := dict_set (lease_id_of n) al (active p)\<rparr>" by simp
    ultimately show ?thesis using al'(3) by simp
  qed
  show ?thesis
    unfolding grant_lease_def
    by (intro wp_intros) (auto simp: inv spent intro: store lease_inv_next_id [OF inv nid])
qed

lemma wp_bind_capacity_of [wp_intros]:
  "(\<And>e. E e p) \<Longrightarrow> (\<And>r' c. map_of (capacities p) r' = Some c \<Longrightarrow> validate_non_empty_string r = Inr r' \<Longrightarrow> wp (f (r', c)) Q E p) \<Longrightarrow>
   wp (bind_py (capacity_of r) f) Q E p"
  by (simp add: wp_rules split: sum.splits option.splits)

lemma wp_bind_resolve [wp_intros]:
  "(\<And>e p'. same_but_clock p p' \<Longrightarrow> E e p') \<Longrightarrow>
   (\<And>t p'. 0 \<le> t \<Longrightarrow> same_but_clock p p' \<Longrightarrow> wp (f t) Q E p') \<Longrightarrow>
   wp (bind_py (resolve_authority_time rd v) f) Q E p"
  by (rule wp_bindI) (rule wp_mono [OF resolve_authority_time_wp], auto)

lemma wp_bind_resolve_at:
  "validate_time v = Inr t \<Longrightarrow> wp (f t) Q E p \<Longrightarrow> wp (bind_py (resolve_authority_time rd v) f) Q E p"
  by (cases "v = PyNone") (simp_all add: resolve_authority_time_def wp_rules)

lemma wp_bind_reap_at [wp_intros]:
  "0 \<le> t \<Longrightarrow> dict_ok (active p) \<Longrightarrow> (\<And>n. wp (f n) Q E (reaped t p)) \<Longrightarrow>
   wp (bind_py (reap_expired rd (py_time t)) f) Q E p"
  by (simp add: wp_bind wp_reap_expired_at)

lemma wp_bind_active_lease_of [wp_intros]:
  "(\<And>e. E e p) \<Longrightarrow>
   (\<And>i al. validate_non_empty_string lid = Inr i \<Longrightarrow> map_of (active p) i = Some al \<Longrightarrow> wp (f (i, al)) Q E p) \<Longrightarrow>
   wp (bind_py (active_lease_of lid) f) Q E p"
  by (auto simp: active_lease_of_def wp_rules split: sum.splits option.splits)

lemma acquire_inv:
  assumes inv: "lease_inv p"
  shows "wp (acquire rd res ow un attrs ex acq) (\<lambda>_. lease_inv) (\<lambda>_. lease_inv) p"
  unfolding acquire_def
proof (intro wp_intros)
  fix p' assume p': "same_but_clock p p'"
  show "lease_inv p'" using p' inv same_but_clock_inv by blast
  then show "dict_ok (active p')" by (rule lease_invD)
qed (use inv in \<open>auto dest: same_but_clock_inv same_but_clock_fields intro!: grant_lease_inv\<close>)

lemma renew_store_inv:
  assumes inv: "lease_inv p" and old: "map_of (active p) i = Some al"
    and new: "mk_active_lease (PyStr (resource al)) (PyStr (lease_owner al)) (PyInt (units al))
       (PyInt (fencing_candidate p)) attrs acq ex = Inr al'"
  shows "lease_inv (p\<lparr>active := dict_set i al' (active p), next_fencing_token := fencing_candidate p + 1\<rparr>)"
proof -
  note al' = mk_active_lease_result [OF new]
  have d: "dict_ok (active p)" by (rule lease_invD(2) [OF inv])
  have "al \<in> set (dict_values (active p))" using old d by (auto simp: dict_values_mem)
  then have ok: "lease_ok (capacities p) al" by (rule lease_invD(3) [OF inv])
  have used: "used_units r (dict_set i al' (active p)) = used_units r (active p)" for r
    using old al' by (simp add: used_units_sum dict_sum_set_old units_on_def)
  have "lease_inv (p\<lparr>active := dict_set i al' (active p), next_id := next_id p,
           next_fencing_token := fencing_token al' + 1\<rparr>)"
    by (rule lease_inv_store [OF inv])
      (use al' ok used candidate_bounds [OF inv] lease_invD(4,7) [OF inv] mk_active_lease_valid [OF new]
       in \<open>auto simp: lease_ok_def\<close>)
  then show ?thesis using al'(3) by simp
qed

lemma renew_inv:
  assumes inv: "lease_inv p"
  shows "wp (renew rd lid tok ex ren) (\<lambda>_. lease_inv) (\<lambda>_. lease_inv) p"
proof -
  have inv': "lease_inv p'" if "same_but_clock p p'" for p'
    using that inv same_but_clock_inv by blast
  have upd: "q\<lparr>next_fencing_token := c, active := a\<rparr> = q\<lparr>active := a, next_fencing_token := c\<rparr>"
    for q :: lease_pool and c a by simp
  show ?thesis
    unfolding renew_def
    by (intro wp_intros)
      (auto simp: upd intro: inv' lease_invD(2) [OF inv'] lease_inv_reaped [OF inv']
        lease_inv_candidate [OF lease_inv_reaped [OF inv']] renew_store_inv [OF lease_inv_reaped [OF inv']])
qed

lemma release_inv:
  assumes "lease_inv p"
  shows "wp (release lid tok) (\<lambda>_. lease_inv) (\<lambda>_. lease_inv) p"
  unfolding release_def by (intro wp_intros) (auto intro: assms lease_inv_pop)

lemma release_all_inv:
  assumes "lease_inv p"
  shows "wp (release_all ow) (\<lambda>_. lease_inv) (\<lambda>_. lease_inv) p"
  unfolding release_all_def
  by (intro wp_intros wp_for) (auto simp: wp_rules assms lease_inv_pop split: prod.splits)

lemma available_keeps:
  assumes "I p" and reap: "wp (reap_expired rd now) (\<lambda>_. I) (\<lambda>_. I) p"
  shows "wp (available rd r now) (\<lambda>_. I) (\<lambda>_. I) p"
proof -
  have "wp (bind_py (if b then reap_expired rd now else return_py 0) f) (\<lambda>_. I) (\<lambda>_. I) p"
    if "\<And>n q. I q \<Longrightarrow> wp (f n) (\<lambda>_. I) (\<lambda>_. I) q"
    for b and f :: "nat \<Rightarrow> (lease_pool, lease_error, int) py"
    by (rule wp_bindI [OF _ that]) (use assms in \<open>simp_all add: wp_rules\<close>)
  then show ?thesis
    unfolding available_def by (intro wp_bind_capacity_of wp_case_prod wp_bind_gets) (auto simp: wp_rules assms)
qed

lemma available_inv:
  assumes "lease_inv p"
  shows "wp (available rd r now) (\<lambda>_. lease_inv) (\<lambda>_. lease_inv) p"
  by (intro available_keeps assms reap_expired_wp)

lemma validate_fencing_token_state: "snd (validate_fencing_token lid tok p) = p"
  by (rule wp_state [where I = "\<lambda>q. q = p"])
    (auto simp: validate_fencing_token_def intro!: wp_intros)

lemma lease_exec_inv: "lease_inv p \<Longrightarrow> lease_inv (lease_exec c p)"
  by (cases c)
    (auto simp: validate_fencing_token_state
      intro!: wp_state [where I = lease_inv] acquire_inv renew_inv release_inv release_all_inv
        available_inv reap_expired_wp)


section \<open>Restored pools\<close>

definition restored_pool :: "lease_pool \<Rightarrow> bool" where
  "restored_pool p \<longleftrightarrow>
     (\<exists>caps acts nid ntok clk. mk_lease_pool caps acts nid ntok clk = Inr p \<and>
        (\<forall>(i, al)\<in>set acts. active_lease_valid al))"

lemma restore_capacities_ok: "restore_capacities caps xs = Inr caps' \<Longrightarrow> dict_ok caps \<Longrightarrow> dict_ok caps'"
  by (induction caps xs rule: restore_capacities.induct) (auto simp: bind_sum_Inr_iff split: if_splits)

lemma restore_capacities_pos:
  "restore_capacities caps xs = Inr caps' \<Longrightarrow> (\<And>r c. map_of caps r = Some c \<Longrightarrow> 0 < c) \<Longrightarrow>
   map_of caps' r = Some c \<Longrightarrow> 0 < c"
proof (induction caps xs rule: restore_capacities.induct)
  case (2 caps r0 c0 rest)
  then obtain r' c' where c': "validate_positive_integer c0 = Inr c'"
    "restore_capacities (dict_set r' c' caps) rest = Inr caps'" and r': "validate_non_empty_string r0 = Inr r'"
    "map_of caps r' = None"
    by (auto simp: bind_sum_Inr_iff split: if_splits)
  have "0 < c'" using c'(1) by (auto elim!: validate_positive_integer.elims split: if_splits)
  then have "\<And>r c. map_of (dict_set r' c' caps) r = Some c \<Longrightarrow> 0 < c"
    using 2(3) by (auto split: if_splits)
  with 2(1) [OF _ c'(2)] 2(4) r'(2) show ?case by simp
qed auto

lemma restore_active_ids_ok:
  "restore_active_ids acc xs = Inr acts \<Longrightarrow> dict_ok acc \<Longrightarrow>
   dict_ok acts \<and> set (dict_values acts) \<subseteq> set (dict_values acc) \<union> snd ` set xs"
proof (induction acc xs rule: restore_active_ids.induct)
  case (2 acc i al rest)
  then obtain i' where i': "map_of acc i' = None" "restore_active_ids (dict_set i' al acc) rest = Inr acts"
    by (auto simp: bind_sum_Inr_iff split: if_splits)
  have "set (dict_values (dict_set i' al acc)) \<subseteq> insert al (set (dict_values acc))"
    using 2(3) by (auto simp: dict_values_mem split: if_splits)
  then show ?case using 2(1) [of i'] 2(2,3) i' by (auto simp: bind_sum_Inr_iff)
qed simp

definition total_units :: "restore_totals \<Rightarrow> string \<Rightarrow> int" where
  "total_units t r = (case map_of (restored_units t) r of None \<Rightarrow> 0 | Some u \<Rightarrow> u)"

lemma restore_step_ok:
  assumes "restore_step caps lid al t = Inr t'"
  shows "map_of caps (resource al) \<noteq> None" and "0 < fencing_token al"
    and "fencing_token al \<notin> restored_fencing_tokens t"
    and "restored_fencing_tokens t' = insert (fencing_token al) (restored_fencing_tokens t)"
    and "max_restored_fencing_token t' = max (max_restored_fencing_token t) (fencing_token al)"
    and "total_units t' r = total_units t r + units_on r al"
    and "map_of caps r = Some c \<Longrightarrow> total_units t r \<le> c \<Longrightarrow> total_units t' r \<le> c"
  using assms
  by (auto simp: restore_step_def Let_def bind_sum_Inr_iff total_units_def units_on_def
      split: option.splits if_splits)

lemma restore_loop_ok:
  assumes "restore_loop caps acts t = Inr t'"
  shows "(\<forall>al\<in>set (dict_values acts). map_of caps (resource al) \<noteq> None \<and> 0 < fencing_token al \<and>
            fencing_token al \<le> max_restored_fencing_token t' \<and> fencing_token al \<notin> restored_fencing_tokens t) \<and>
         distinct (tokens acts) \<and> max_restored_fencing_token t \<le> max_restored_fencing_token t' \<and>
         (\<forall>r. total_units t' r = total_units t r + used_units r acts) \<and>
         (\<forall>r c. map_of caps r = Some c \<longrightarrow> total_units t r \<le> c \<longrightarrow> total_units t' r \<le> c)"
  using assms
proof (induction caps acts t rule: restore_loop.induct)
  case (1 caps t)
  then show ?case by (simp add: dict_values_def tokens_def used_units_sum)
next
  case (2 caps lid al rest t)
  then obtain u where u: "restore_step caps lid al t = Inr u" and rest: "restore_loop caps rest u = Inr t'"
    by (auto simp: bind_sum_Inr_iff)
  note step = restore_step_ok [OF u]
  note IH = 2(1) [OF rest]
  show ?case
    using IH step(1-5) step(6) step(7)
    by (auto simp: dict_values_def tokens_def used_units_sum)
qed

lemma mk_lease_pool_inv:
  assumes pool: "mk_lease_pool caps acts nid ntok clk = Inr p"
    and valid: "\<forall>(i, al)\<in>set acts. active_lease_valid al"
  shows "lease_inv p"
proof -
  define t0 where "t0 = \<lparr>max_restored_id = 0, max_restored_fencing_token = 0, restored_units = [],
    restored_fencing_tokens = {}\<rparr>"
  from pool obtain caps' acts' t nid' ntok' where
    caps': "restore_capacities [] caps = Inr caps'" and acts': "restore_active_ids [] acts = Inr acts'"
    and t: "restore_loop caps' acts' t0 = Inr t" and nid': "validate_positive_integer nid = Inr nid'"
    and ntok': "validate_positive_integer ntok = Inr ntok'"
    and p: "p = \<lparr>capacities = caps', active = acts',
          next_id = max nid' (min (max_restored_id t + 1) MAX_U64),
          next_fencing_token = max ntok' (min (max_restored_fencing_token t + 1) MAX_U64),
          pool_clock = clk\<rparr>"
    by (auto simp: mk_lease_pool_def bind_sum_Inr_iff t0_def)
  have pos: "0 < nid'" "0 < ntok'"
    using nid' ntok' by (auto elim!: validate_positive_integer.elims split: if_splits)
  have d: "dict_ok caps'" "dict_ok acts'"
    using restore_capacities_ok [OF caps'] restore_active_ids_ok [OF acts'] by auto
  have v: "active_lease_valid al" if "al \<in> set (dict_values acts')" for al
  proof -
    have "al \<in> snd ` set acts" using that restore_active_ids_ok [OF acts'] by (auto simp: dict_values_def)
    then show ?thesis using valid by force
  qed
  note loop = restore_loop_ok [OF t]
  have zero: "total_units t0 r = 0" for r by (simp add: total_units_def t0_def)
  have bound: "used_units r acts' \<le> c" if "map_of caps' r = Some c" for r c
  proof -
    have "0 < c" by (rule restore_capacities_pos [OF caps' _ that]) simp
    with loop zero that show ?thesis by fastforce
  qed
  show ?thesis
    unfolding lease_inv_def p
    using d loop bound v pos by (auto simp: lease_ok_def tokens_def less_max_iff_disj le_max_iff_disj)
qed


section \<open>The pool as a fenced machine\<close>

text \<open>
  The counter of the contract is the next fencing token. A pool restored with the token
  \<open>2\<^sup>6\<^sup>4 - 1\<close> has no token left to issue, and its counter stands above that token.
\<close>

definition fence_counter :: "lease_pool \<Rightarrow> int" where
  "fence_counter p = (if MAX_U64 \<le> next_fencing_token p then MAX_U64 + 1 else next_fencing_token p)"

definition live_tokens :: "lease_pool \<Rightarrow> int set" where
  "live_tokens p = set (tokens (active p))"

text \<open>What one call may do to the tokens of a pool; its capacities are fixed.\<close>

definition token_step :: "lease_pool \<Rightarrow> lease_pool \<Rightarrow> bool" where
  "token_step p q \<longleftrightarrow> capacities q = capacities p \<and> next_fencing_token p \<le> next_fencing_token q \<and>
     (\<forall>n\<in>live_tokens q. n \<in> live_tokens p \<or> fence_counter p \<le> n)"

lemma token_step_refl [simp]: "token_step p p"
  by (simp add: token_step_def)

lemma token_step_clock [simp]: "token_step p (q\<lparr>pool_clock := c\<rparr>) = token_step p q"
  by (simp add: token_step_def live_tokens_def)

lemma token_step_same: "same_but_clock p q \<Longrightarrow> token_step p q"
  by (auto simp: same_but_clock_def)

lemma token_step_filter: "token_step p q \<Longrightarrow> token_step p (q\<lparr>active := filter P (active q)\<rparr>)"
  using tokens_filter_subset [of P "active q"] by (auto simp: token_step_def live_tokens_def)

lemma token_step_pop: "token_step p q \<Longrightarrow> token_step p (q\<lparr>active := dict_pop i (active q)\<rparr>)"
  unfolding AList.delete_eq by (rule token_step_filter)

lemma token_step_reaped: "token_step p q \<Longrightarrow> token_step p (reaped t q)"
  unfolding reaped_def by (rule token_step_filter)

lemma token_step_next_id [simp]: "token_step p (q\<lparr>next_id := n\<rparr>) = token_step p q"
  by (simp add: token_step_def live_tokens_def)

lemma token_step_spent:
  assumes "lease_inv q" and "token_step p q"
  shows "token_step p (q\<lparr>next_fencing_token := fencing_candidate q + 1\<rparr>)"
  using assms candidate_bounds(1) [OF assms(1)] by (auto simp: token_step_def live_tokens_def)

lemma token_step_store:
  assumes q: "lease_inv q" "token_step p q" and c: "fencing_candidate q < MAX_U64"
    and al: "fencing_token al = fencing_candidate q"
  shows "token_step p (q\<lparr>next_fencing_token := fencing_candidate q + 1, active := dict_set i al (active q)\<rparr>)"
proof -
  have cand: "next_fencing_token q \<le> fencing_candidate q" by (rule candidate_bounds [OF q(1)])
  then have "fence_counter p \<le> fencing_candidate q"
    using q(2) c by (auto simp: token_step_def fence_counter_def)
  then show ?thesis
    using q(2) cand al tokens_set_subset [OF lease_invD(2) [OF q(1)], of _ i al]
    by (fastforce simp: token_step_def live_tokens_def)
qed

lemma grant_lease_tokens:
  assumes "lease_inv q" and "token_step p q"
  shows "wp (grant_lease capacity res ow un attrs ex acq) (\<lambda>_. token_step p) (\<lambda>_. token_step p) q"
proof -
  have inv: "lease_inv (q\<lparr>next_id := n + 1\<rparr>)" if "allocate_loop (active q) (next_id q) = Inr n" for n
    using allocate_loop_fresh [OF that] lease_invD(7) [OF assms(1)]
    by (intro lease_inv_next_id [OF assms(1)]) simp
  have spent: "token_step p (q\<lparr>next_id := n + 1, next_fencing_token := fencing_candidate q + 1\<rparr>)"
    if "allocate_loop (active q) (next_id q) = Inr n" for n
    using token_step_spent [OF inv [OF that], of p] assms(2) by simp
  have store: "token_step p (q\<lparr>next_id := n + 1, next_fencing_token := fencing_candidate q + 1,
        active := dict_set i al (active q)\<rparr>)"
    if "allocate_loop (active q) (next_id q) = Inr n" "fencing_candidate q < MAX_U64"
      "mk_active_lease (PyStr res) (PyStr ow) (PyInt un) (PyInt (fencing_candidate q)) attrs
         (py_time acq) (py_opt_time ex) = Inr al" for n i al
    using token_step_store [OF inv [OF that(1)], of p al i] assms(2) that(2)
      mk_active_lease_result(3) [OF that(3)] by simp
  show ?thesis
    unfolding grant_lease_def by (intro wp_intros) (auto simp: assms spent intro: store)
qed

lemma reap_expired_tokens:
  assumes "lease_inv p"
  shows "wp (reap_expired rd v) (\<lambda>_. token_step p) (\<lambda>_. token_step p) p"
  unfolding reap_expired_def
proof (intro wp_intros)
  fix t p' assume "same_but_clock p p'"
  then show "token_step p (p'\<lparr>active := fold dict_pop
      (map fst (filter (\<lambda>(i, al). lease_expired t al) (active p'))) (active p')\<rparr>)"
    unfolding fold_dict_pop by (intro token_step_filter token_step_same)
qed (simp add: token_step_same)

lemma lease_exec_tokens: "lease_inv p \<Longrightarrow> token_step p (lease_exec c p)"
proof -
  assume inv: "lease_inv p"
  have inv': "lease_inv p'" if "same_but_clock p p'" for p'
    using that inv same_but_clock_inv by blast
  have "wp (acquire rd res ow un attrs ex acq) (\<lambda>_. token_step p) (\<lambda>_. token_step p) p"
    for rd res ow un attrs ex acq
    unfolding acquire_def
    by (intro wp_intros) (auto intro: token_step_same inv' lease_invD(2) [OF inv']
        grant_lease_tokens lease_inv_reaped token_step_reaped)
  moreover have "wp (renew rd lid tok ex ren) (\<lambda>_. token_step p) (\<lambda>_. token_step p) p"
    for rd lid tok ex ren
    unfolding renew_def
    by (intro wp_intros) (auto intro: token_step_same inv' lease_invD(2) [OF inv']
        lease_inv_reaped token_step_reaped token_step_spent token_step_store mk_active_lease_result(3))
  moreover have "wp (release lid tok) (\<lambda>_. token_step p) (\<lambda>_. token_step p) p" for lid tok
    unfolding release_def by (intro wp_intros) (auto intro: token_step_pop)
  moreover have "wp (release_all ow) (\<lambda>_. token_step p) (\<lambda>_. token_step p) p" for ow
    unfolding release_all_def
    by (intro wp_intros wp_for) (auto simp: wp_rules token_step_pop split: prod.splits)
  moreover have "wp (available rd r now) (\<lambda>_. token_step p) (\<lambda>_. token_step p) p" for rd r now
    by (intro available_keeps token_step_refl reap_expired_tokens inv)
  ultimately show ?thesis
    using reap_expired_tokens [OF inv]
    by (cases c) (auto simp: validate_fencing_token_state intro!: wp_state [where I = "token_step p"])
qed

interpretation pool: py_machine restored_pool lease_exec lease_inv
  by unfold_locales (auto simp: restored_pool_def mk_lease_pool_inv lease_exec_inv)

interpretation pool_fence: fenced_machine restored_pool lease_exec lease_inv fence_counter live_tokens
proof unfold_locales
  fix s n assume "lease_inv s" and "n \<in> live_tokens s"
  then show "n < fence_counter s"
    using lease_invD(6) [of s n] lease_okD(5) [OF lease_invD(3) [of s]]
    by (fastforce simp: live_tokens_def fence_counter_def tokens_def)
next
  fix s c assume "lease_inv s"
  then show "fence_counter s \<le> fence_counter (lease_exec c s)"
    using lease_exec_tokens [of s c] by (auto simp: token_step_def fence_counter_def)
next
  fix s n c assume "lease_inv s" and "n \<in> live_tokens (lease_exec c s)"
  then show "n \<in> live_tokens s \<or> fence_counter s \<le> n"
    using lease_exec_tokens [of s c] by (auto simp: token_step_def)
qed


section \<open>Granting a lease\<close>

lemma allocate_loop_free:
  "free_lease_number acts n < MAX_U64 \<Longrightarrow> allocate_loop acts n = Inr (free_lease_number acts n)"
proof (induction acts n rule: free_lease_number.induct)
  case (1 acts n)
  show ?case
  proof (cases "n < MAX_U64 \<and> map_of acts (lease_id_of n) \<noteq> None")
    case True
    with "1.prems" have "free_lease_number acts (n + 1) < MAX_U64"
      by (simp add: free_lease_number.simps [of acts n])
    with "1.IH" True show ?thesis
      by (simp add: free_lease_number.simps [of acts n] allocate_loop.simps [of acts n])
  next
    case False
    with "1.prems" show ?thesis
      by (auto simp: free_lease_number.simps [of acts n] allocate_loop.simps [of acts n])
  qed
qed

lemma lease_id_valid: "0 \<le> n \<Longrightarrow> validate_non_empty_string (PyStr (lease_id_of n)) = Inr (lease_id_of n)"
proof -
  assume "0 \<le> n"
  then have "is_ascii_decimal (fmt_06d n)" by (rule fmt_06d_decimal)
  then have "fmt_06d n \<noteq> []" and "is_digit (last (fmt_06d n))"
    by (auto simp: is_ascii_decimal_def list_all_iff)
  then have "py_strip (lease_id_of n) = lease_id_of n"
    by (intro strip_id) (simp_all add: lease_id_of_def digit_not_space letter_not_space)
  then show ?thesis by (simp add: lease_id_of_def)
qed


text \<open>The pool and the handle a granted request leaves.\<close>

definition granted_lease :: "lease_pool \<Rightarrow> string \<Rightarrow> string \<Rightarrow> int \<Rightarrow> pyval \<Rightarrow> rat option \<Rightarrow> rat \<Rightarrow> active_lease" where
  "granted_lease q r ow u a e t =
     \<lparr>resource = r, lease_owner = ow, units = u, fencing_token = fencing_candidate q, attributes = a,
      acquired_at = t, expires_at = e\<rparr>"

definition granted_number :: "lease_pool \<Rightarrow> int" where
  "granted_number q = free_lease_number (active q) (next_id q)"

lemma grant_lease_ok:
  assumes inv: "lease_inv q" and n: "granted_number q < MAX_U64" and c: "fencing_candidate q < MAX_U64"
    and fit: "u \<le> capacity - used_units r (active q)"
    and args: "validate_non_empty_string (PyStr r) = Inr r" "validate_non_empty_string (PyStr ow) = Inr ow"
      "0 < u" "u \<le> MAX_U64" "freeze_attributes 0 a = Inr a" "0 \<le> t" "case e of None \<Rightarrow> True | Some x \<Rightarrow> t < x"
  shows "grant_lease capacity r ow u a e t q =
    (Inr \<lparr>handle_lease_id = lease_id_of (granted_number q), handle_resource = r, handle_owner = ow,
          handle_units = u, handle_fencing_token = fencing_candidate q\<rparr>,
     q\<lparr>active := dict_set (lease_id_of (granted_number q)) (granted_lease q r ow u a e t) (active q),
        next_id := granted_number q + 1, next_fencing_token := fencing_candidate q + 1\<rparr>)"
proof -
  let ?n = "granted_number q" and ?c = "fencing_candidate q"
  have alloc: "allocate_loop (active q) (next_id q) = Inr ?n"
    using allocate_loop_free n by (simp add: granted_number_def)
  have n0: "0 \<le> ?n" using allocate_loop_fresh [OF alloc] lease_invD(7) [OF inv] by simp
  have c0: "0 < ?c" by (rule candidate_bounds(2) [OF inv])
  have mx: "\<not> (active q \<noteq> [] \<and> MAX_U64 \<le> max_active_token (active q))"
    using c by (auto simp: fencing_candidate_def)
  have al: "mk_active_lease (PyStr r) (PyStr ow) (PyInt u) (PyInt ?c) a (py_time t) (py_opt_time e) =
      Inr (granted_lease q r ow u a e t)"
    unfolding granted_lease_def by (rule mk_active_lease_ok) (use args c c0 in auto)
  have h: "mk_lease (PyStr (lease_id_of ?n)) (PyStr r) (PyStr ow) (PyInt u) (PyInt ?c) =
      Inr \<lparr>handle_lease_id = lease_id_of ?n, handle_resource = r, handle_owner = ow,
          handle_units = u, handle_fencing_token = ?c\<rparr>"
    using args(1-4) lease_id_valid [OF n0] c c0
    by (simp add: mk_lease_def del: validate_non_empty_string.simps)
  show ?thesis
    using fit n c alloc mx
    by (simp add: grant_lease_def allocate_lease_id_def allocate_fencing_token_def py_monad_defs al h
        granted_number_def [symmetric] del: de_Morgan_conj)
qed

lemma acquire_at:
  assumes d: "dict_ok (active p)"
    and args: "validate_non_empty_string res = Inr r" "map_of (capacities p) r = Some capacity"
      "validate_non_empty_string ow = Inr ow'" "0 < u" "validate_time acq = Inr t"
      "validate_optional_time ex = Inr e" "case e of None \<Rightarrow> True | Some x \<Rightarrow> t < x"
      "freeze_attributes 0 (if attrs = PyNone then PyDict [] else attrs) = Inr a"
  shows "acquire rd res ow (PyInt u) attrs ex acq p = grant_lease capacity r ow' u a e t (reaped t p)"
proof -
  have acq: "acq \<noteq> PyNone" and t: "0 \<le> t"
    using args(5) validate_time_nonneg by auto
  show ?thesis
    using args acq reap_expired_at [OF t d]
    by (cases e)
      (simp_all add: acquire_def capacity_of_def resolve_authority_time_def py_monad_defs)
qed


lemma capacities_exec: "lease_inv p \<Longrightarrow> capacities (lease_exec c p) = capacities p"
  using lease_exec_tokens [of p c] by (simp add: token_step_def)

lemma capacities_calls: "lease_inv p \<Longrightarrow> capacities (fold lease_exec cs p) = capacities p"
  by (induction cs arbitrary: p) (simp_all add: capacities_exec lease_exec_inv)

section \<open>What a successful call leaves\<close>

lemma renew_result:
  assumes inv: "lease_inv p" and renewed: "renew rd (PyStr i) (PyInt n) ex ren p = (Inr m, q)"
  shows "\<exists>al e. 0 \<le> n \<and> n \<le> MAX_U64 \<and> validate_non_empty_string (PyStr i) = Inr i \<and>
    map_of (active p) i = Some al \<and> fencing_token al = n \<and> validate_time ex = Inr e \<and> n < m \<and> m \<le> MAX_U64 \<and>
    map_of (active q) i = Some (al\<lparr>fencing_token := m, expires_at := Some e\<rparr>)"
proof -
  have inv': "lease_inv p'" if "same_but_clock p p'" for p'
    using that inv same_but_clock_inv by blast
  have key: "0 \<le> n \<and> n \<le> MAX_U64 \<and> map_of (active p) i = Some al \<and> fencing_token al = n \<and>
      n < fencing_candidate (reaped t p') \<and>
      al' = al\<lparr>fencing_token := fencing_candidate (reaped t p'), expires_at := Some e\<rparr>"
    if al': "mk_active_lease (PyStr (resource al)) (PyStr (lease_owner al)) (PyInt (units al))
         (PyInt (fencing_candidate (reaped t p'))) (attributes al) (py_time (acquired_at al)) (py_time e) = Inr al'"
      and p': "same_but_clock p p'" and al_r: "map_of (active (reaped t p')) i = Some al"
      and n: "validate_non_negative_integer (PyInt n) = Inr (fencing_token al)"
    for p' t e al al'
  proof -
    define r where r: "r = reaped t p'"
    note al = al_r [folded r]
    have ri: "lease_inv r" unfolding r by (intro lease_inv_reaped inv' p')
    have d: "dict_ok (active r)" by (rule lease_invD(2) [OF ri])
    have v: "al \<in> set (dict_values (active r))" using al d by (auto simp: dict_values_mem)
    have "freeze_attributes 0 (attributes al) = Inr (attributes al)"
      using lease_okD(2) [OF lease_invD(3) [OF ri v]]
      by (cases al) (auto simp: active_lease_valid_def mk_active_lease_def bind_sum_Inr_iff split: if_splits)
    then have "al' = al\<lparr>fencing_token := fencing_candidate r, expires_at := Some e\<rparr>"
      using al' by (cases al) (auto simp: r mk_active_lease_def bind_sum_Inr_iff split: if_splits)
    moreover have "fencing_token al < fencing_candidate r"
      using v by (intro candidate_bounds(3) [OF ri]) (simp add: tokens_def)
    moreover have "map_of (active p) i = Some al"
      using al same_but_clock_fields [OF p'] get_reaped [of p' t i] lease_invD(2) [OF inv' [OF p']]
      by (auto simp: r split: option.splits if_splits)
    ultimately show ?thesis using n by (auto simp: r split: if_splits)
  qed
  have "wp (renew rd (PyStr i) (PyInt n) ex ren) (\<lambda>m q. \<exists>al e. 0 \<le> n \<and> n \<le> MAX_U64 \<and>
      validate_non_empty_string (PyStr i) = Inr i \<and>
      map_of (active p) i = Some al \<and> fencing_token al = n \<and> validate_time ex = Inr e \<and> n < m \<and> m \<le> MAX_U64 \<and>
      map_of (active q) i = Some (al\<lparr>fencing_token := m, expires_at := Some e\<rparr>)) (\<lambda>_ _. True) p"
    unfolding renew_def
    by (intro wp_intros) (use lease_invD(2) [OF inv'] in \<open>auto simp del: validate_non_empty_string.simps
        validate_non_negative_integer.simps dest: validate_string_same dest!: key\<close>)
  then show ?thesis by (rule wp_result) (rule renewed)
qed

lemma grant_lease_result:
  assumes "grant_lease capacity res ow un attrs ex acq p = (Inr h, q)"
  shows "\<exists>al. validate_non_empty_string (PyStr (handle_lease_id h)) = Inr (handle_lease_id h) \<and>
    0 \<le> handle_fencing_token h \<and> handle_fencing_token h \<le> MAX_U64 \<and>
    fencing_token al = handle_fencing_token h \<and> map_of (active p) (handle_lease_id h) = None \<and>
    active q = dict_set (handle_lease_id h) al (active p)"
proof -
  have key: "validate_non_empty_string (PyStr (handle_lease_id h)) = Inr (handle_lease_id h) \<and>
      0 \<le> handle_fencing_token h \<and> handle_fencing_token h \<le> MAX_U64 \<and>
      handle_lease_id h = i \<and> handle_fencing_token h = tok"
    if "mk_lease (PyStr i) (PyStr res) (PyStr ow) (PyInt un) (PyInt tok) = Inr h" for i tok h
    using that by (auto simp: mk_lease_def bind_sum_Inr_iff split: if_splits)
  have "wp (grant_lease capacity res ow un attrs ex acq) (\<lambda>h q.
      \<exists>al. validate_non_empty_string (PyStr (handle_lease_id h)) = Inr (handle_lease_id h) \<and>
        0 \<le> handle_fencing_token h \<and> handle_fencing_token h \<le> MAX_U64 \<and>
        fencing_token al = handle_fencing_token h \<and> map_of (active p) (handle_lease_id h) = None \<and>
        active q = dict_set (handle_lease_id h) al (active p)) (\<lambda>_ _. True) p"
    unfolding grant_lease_def
    by (intro wp_intros)
      (auto simp del: validate_non_empty_string.simps dest!: key allocate_loop_fresh mk_active_lease_result(3))
  then show ?thesis by (rule wp_result) (rule assms)
qed

lemma acquire_result:
  assumes inv: "lease_inv p" and acq: "validate_time acq = Inr t"
    and granted: "acquire rd res ow un attrs ex acq p = (Inr h, q)"
  shows "\<exists>al. validate_non_empty_string (PyStr (handle_lease_id h)) = Inr (handle_lease_id h) \<and>
    0 \<le> handle_fencing_token h \<and> handle_fencing_token h \<le> MAX_U64 \<and>
    fencing_token al = handle_fencing_token h \<and> map_of (active (reaped t p)) (handle_lease_id h) = None \<and>
    active q = dict_set (handle_lease_id h) al (active (reaped t p))"
proof -
  have "wp (acquire rd res ow un attrs ex acq)
      (\<lambda>h q. \<exists>capacity r ow un attrs ex. grant_lease capacity r ow un attrs ex t (reaped t p) = (Inr h, q))
      (\<lambda>_ _. True) p"
    unfolding acquire_def
    by (intro wp_bind_resolve_at [OF acq] wp_intros)
      (use validate_time_nonneg [OF acq] lease_invD(2) [OF inv] in \<open>auto intro!: wpI exI\<close>)
  then have "\<exists>capacity r ow un attrs ex. grant_lease capacity r ow un attrs ex t (reaped t p) = (Inr h, q)"
    by (rule wp_result) (rule granted)
  then show ?thesis using grant_lease_result by blast
qed

section \<open>A sample pool\<close>

lemmas lease_eval =
  acquire_def capacity_of_def resolve_authority_time_def reap_expired_def grant_lease_def
  allocate_lease_id_def allocate_fencing_token_def fencing_candidate_def max_active_token_def
  allocate_loop.simps free_lease_number.simps lease_id_of_def fmt_06d_digit
  mk_active_lease_def mk_lease_def freeze_attributes_def renew_def active_lease_of_def release_def
  lease_expired_def used_units_def dict_values_def py_monad_defs
  py_strip_def py_space_def Let_def

definition sample_pool :: lease_pool where
  "sample_pool = \<lparr>capacities = [(''gpu'', 2)], active = [], next_id = 1, next_fencing_token = 1, pool_clock = None\<rparr>"

lemma sample_pool_restored: "mk_lease_pool [(PyStr ''gpu'', PyInt 2)] [] (PyInt 1) (PyInt 1) None = Inr sample_pool"
  by (simp add: mk_lease_pool_def sample_pool_def py_strip_def py_space_def Let_def)

definition sample_acquire :: lease_call where
  "sample_acquire = Acquire (PyNone, PyNone) (PyStr ''gpu'') (PyStr ''ann'') (PyInt 1) PyNone (PyInt 9) (PyInt 5)"

definition sample_lease :: active_lease where
  "sample_lease = \<lparr>resource = ''gpu'', lease_owner = ''ann'', units = 1, fencing_token = 1,
     attributes = PyDict [], acquired_at = 5, expires_at = Some 9\<rparr>"

lemma sample_acquired:
  "lease_exec sample_acquire sample_pool =
     sample_pool\<lparr>active := [(''lease-000001'', sample_lease)], next_id := 2, next_fencing_token := 2\<rparr>"
  by (simp add: sample_acquire_def sample_pool_def sample_lease_def lease_eval)

section \<open>Properties\<close>

text \<open>
  C2: capacity safety. Starting from any pool the constructor accepts, after any
  sequence of calls with any arguments, clock readings and errors, the units of the
  active leases of a resource never exceed its capacity.
\<close>

theorem lease_capacity_never_exceeded:
  assumes "mk_lease_pool caps acts nid ntok clk = Inr p"
    and "\<forall>(i, al)\<in>set acts. active_lease_valid al"
    and "map_of (capacities p) r = Some c"
  shows "used_units r (active (fold lease_exec calls p)) \<le> c"
proof -
  have inv: "lease_inv p" by (rule mk_lease_pool_inv [OF assms(1,2)])
  have "lease_inv (fold lease_exec calls p)" by (rule pool.inv_calls [OF inv])
  then show ?thesis
    using assms(3) by (auto dest!: lease_invD(4) [where r = r and c = c] simp: capacities_calls [OF inv])
qed

text \<open>
  Fencing. Whatever calls are made, a lease that carries a token issued after a
  given moment carries a larger one than every lease active at that moment, and a
  token that has been retired (by release, renewal or expiry) is never active again.
\<close>

theorem lease_fencing_tokens_increase:
  assumes "mk_lease_pool caps acts nid ntok clk = Inr p"
    and "\<forall>(i, al)\<in>set acts. active_lease_valid al"
    and "q = fold lease_exec calls p" and "q' = fold lease_exec more_calls q"
    and "old \<in> live_tokens q"
  shows "(\<forall>new\<in>live_tokens q' - live_tokens q. old < new) \<and>
         (old \<notin> live_tokens q' \<longrightarrow> old \<notin> live_tokens (fold lease_exec yet_more_calls q'))"
proof (intro conjI ballI impI)
  have inv: "lease_inv q"
    unfolding assms(3) by (rule pool.inv_calls) (rule mk_lease_pool_inv [OF assms(1,2)])
  then have inv': "lease_inv q'" unfolding assms(4) by (rule pool.inv_calls)
  show "old < new" if "new \<in> live_tokens q' - live_tokens q" for new
    using pool_fence.later_token_greater [OF inv assms(5), of new more_calls] that assms(4) by simp
  show "old \<notin> live_tokens (fold lease_exec yet_more_calls q')" if "old \<notin> live_tokens q'"
  proof (rule pool_fence.retired_token_never_returns [OF inv' _ that])
    have "old < fence_counter q" by (rule pool_fence.live_below [OF inv assms(5)])
    also have "\<dots> \<le> fence_counter q'" unfolding assms(4) by (rule pool_fence.counter_mono_calls [OF inv])
    finally show "old < fence_counter q'" .
  qed
qed

theorem lease_capacity_never_exceeded_witness:
  "used_units ''gpu'' (active (fold lease_exec
     [Acquire (PyNone, PyNone) (PyStr ''gpu'') (PyStr ''ann'') (PyInt 2) PyNone PyNone (PyInt 5),
      Acquire (PyNone, PyNone) (PyStr ''gpu'') (PyStr ''bob'') (PyInt 1) PyNone PyNone (PyInt 6)]
     sample_pool)) \<le> 2"
  by (rule lease_capacity_never_exceeded [OF sample_pool_restored]) (simp_all add: sample_pool_def)



text \<open>
  What \<^verbatim>\<open>acquire\<close> decides. On a valid request at an explicit time, expired leases
  are reaped first; the request is then refused exactly when the units still free are
  too few, and otherwise granted under an identifier no active lease has, with the next
  fencing token, leaving every other lease as it was.
\<close>

theorem acquire_decision:
  assumes inv: "lease_inv p"
    and args: "validate_non_empty_string res = Inr r" "map_of (capacities p) r = Some capacity"
      "validate_non_empty_string ow = Inr ow'" "0 < u" "u \<le> MAX_U64" "validate_time acq = Inr t"
      "validate_optional_time ex = Inr e" "case e of None \<Rightarrow> True | Some x \<Rightarrow> t < x"
      "freeze_attributes 0 (if attrs = PyNone then PyDict [] else attrs) = Inr a"
    and room: "granted_number (reaped t p) < MAX_U64" "fencing_candidate (reaped t p) < MAX_U64"
  shows "acquire rd res ow (PyInt u) attrs ex acq p =
    (let q = reaped t p; i = lease_id_of (granted_number q) in
     if capacity - used_units r (active q) < u then (Inl LeaseUnavailableError, q)
     else (Inr \<lparr>handle_lease_id = i, handle_resource = r, handle_owner = ow', handle_units = u,
                handle_fencing_token = fencing_candidate q\<rparr>,
           q\<lparr>active := active q @ [(i, granted_lease q r ow' u a e t)],
              next_id := granted_number q + 1, next_fencing_token := fencing_candidate q + 1\<rparr>))"
proof -
  let ?q = "reaped t p"
  have q: "lease_inv ?q" using inv by simp
  have fresh: "map_of (active ?q) (lease_id_of (granted_number ?q)) = None"
    using allocate_loop_fresh [OF allocate_loop_free] room(1) by (simp add: granted_number_def)
  have strs: "validate_non_empty_string (PyStr r) = Inr r" "validate_non_empty_string (PyStr ow') = Inr ow'"
    using args(1,3) validate_string_inner by blast+
  have acq: "acquire rd res ow (PyInt u) attrs ex acq p = grant_lease capacity r ow' u a e t ?q"
    by (rule acquire_at) (use args lease_invD(2) [OF inv] in simp_all)
  show ?thesis
  proof (cases "capacity - used_units r (active ?q) < u")
    case True
    then show ?thesis by (simp add: acq grant_lease_def py_monad_defs)
  next
    case False
    have "dict_set (lease_id_of (granted_number ?q)) al (active ?q) =
        active ?q @ [(lease_id_of (granted_number ?q), al)]" for al
      using fresh by (rule dict_set_new)
    moreover have "grant_lease capacity r ow' u a e t ?q =
      (Inr \<lparr>handle_lease_id = lease_id_of (granted_number ?q), handle_resource = r, handle_owner = ow',
          handle_units = u, handle_fencing_token = fencing_candidate ?q\<rparr>,
       ?q\<lparr>active := dict_set (lease_id_of (granted_number ?q)) (granted_lease ?q r ow' u a e t) (active ?q),
        next_id := granted_number ?q + 1, next_fencing_token := fencing_candidate ?q + 1\<rparr>)"
      by (rule grant_lease_ok [OF q room])
        (use False strs args freeze_attributes_idempotent validate_time_nonneg in auto)
    ultimately show ?thesis using False by (simp add: acq Let_def)
  qed
qed

theorem acquire_decision_witness:
  "acquire (PyNone, PyNone) (PyStr ''gpu'') (PyStr ''bob'') (PyInt 3) PyNone PyNone (PyInt 5) sample_pool =
     (Inl LeaseUnavailableError, reaped 5 sample_pool)"
  by (subst acquire_decision [where r = "''gpu''" and capacity = 2 and ow' = "''bob''" and t = 5
        and e = None and a = "PyDict []"])
    (use mk_lease_pool_inv [OF sample_pool_restored] in
      \<open>simp_all add: granted_number_def sample_pool_def reaped_def lease_eval\<close>)

text \<open>
  Renewal fences the old handle off. A renewal that succeeds hands out a larger
  token and extends exactly the lease it names, keeping its owner, units and attributes;
  the token it replaced can then neither release nor validate the lease, and the new one can.
\<close>

theorem renew_fences_old_token:
  assumes inv: "lease_inv p" and renewed: "renew rd (PyStr i) (PyInt n) ex ren p = (Inr m, q)"
  shows "n < m \<and>
    (\<exists>al e. map_of (active p) i = Some al \<and> fencing_token al = n \<and> validate_time ex = Inr e \<and>
       map_of (active q) i = Some (al\<lparr>fencing_token := m, expires_at := Some e\<rparr>)) \<and>
    release (PyStr i) (PyInt n) q = (Inl StaleFencingTokenError, q) \<and>
    validate_fencing_token (PyStr i) (PyInt n) q = (Inl StaleFencingTokenError, q) \<and>
    release (PyStr i) (PyInt m) q = (Inr True, q\<lparr>active := dict_pop i (active q)\<rparr>)"
proof -
  obtain al e where n: "0 \<le> n" "n \<le> MAX_U64" and i: "validate_non_empty_string (PyStr i) = Inr i"
    and al: "map_of (active p) i = Some al" "fencing_token al = n" and e: "validate_time ex = Inr e"
    and m: "n < m" "m \<le> MAX_U64"
    and q: "map_of (active q) i = Some (al\<lparr>fencing_token := m, expires_at := Some e\<rparr>)"
    using renew_result [OF inv renewed] by blast
  have "release (PyStr i) (PyInt n) q = (Inl StaleFencingTokenError, q)"
    using m n i q by (simp add: release_def py_monad_defs)
  moreover have "validate_fencing_token (PyStr i) (PyInt n) q = (Inl StaleFencingTokenError, q)"
    using m n i q by (simp add: validate_fencing_token_def active_lease_of_def py_monad_defs)
  moreover have "release (PyStr i) (PyInt m) q = (Inr True, q\<lparr>active := dict_pop i (active q)\<rparr>)"
    using m n i q by (simp add: release_def py_monad_defs)
  ultimately show ?thesis using m al e q by blast
qed

text \<open>
  Acquiring and releasing is a round trip. When a lease is granted at an explicit time and its
  handle released at once, the active leases are those the pool had after reaping, and
  a second release of the same handle reports that nothing was active and changes nothing.
\<close>

theorem acquire_release_roundtrip:
  assumes inv: "lease_inv p" and acq: "validate_time acq = Inr t"
    and granted: "acquire rd res ow un attrs ex acq p = (Inr h, q)"
    and released: "lease_release h q = (r, q')"
  shows "r = Inr True \<and> active q' = active (reaped t p) \<and> lease_release h q' = (Inr False, q')"
proof -
  obtain al where id: "validate_non_empty_string (PyStr (handle_lease_id h)) = Inr (handle_lease_id h)"
    and tok: "0 \<le> handle_fencing_token h" "handle_fencing_token h \<le> MAX_U64"
      "fencing_token al = handle_fencing_token h"
    and fresh: "map_of (active (reaped t p)) (handle_lease_id h) = None"
    and q: "active q = dict_set (handle_lease_id h) al (active (reaped t p))"
    using acquire_result [OF inv acq granted] by blast
  have pop: "dict_pop (handle_lease_id h) (active q) = active (reaped t p)"
    using fresh unfolding q by (rule dict_pop_set_new)
  have rq: "r = Inr True \<and> q' = q\<lparr>active := active (reaped t p)\<rparr>"
    using released id tok q pop by (simp add: lease_release_def release_def py_monad_defs)
  moreover have "lease_release h q' = (Inr False, q')"
    using conjunct2 [OF rq] fresh id by (simp add: lease_release_def release_def py_monad_defs)
  ultimately show ?thesis by simp
qed

text \<open>
  Reaping at an explicit time removes exactly the leases whose expiry has passed,
  keeps every other record, token counter and capacity, and returns how many it removed.
\<close>

theorem reap_expired_exact:
  assumes inv: "lease_inv p" and now: "validate_time v = Inr t"
    and reap: "reap_expired rd v p = (r, q)"
  shows "q = p\<lparr>active := active q\<rparr> \<and>
    (\<forall>i. map_of (active q) i =
       (case map_of (active p) i of None \<Rightarrow> None
        | Some al \<Rightarrow> (case expires_at al of None \<Rightarrow> Some al | Some e \<Rightarrow> if e \<le> t then None else Some al))) \<and>
    r = Inr (length (active p) - length (active q))"
proof -
  have d: "dict_ok (active p)" by (rule lease_invD(2) [OF inv])
  have "reap_expired rd v p = reap_expired rd (py_time t) p"
    using now validate_time_nonneg [OF now] by (auto simp: reap_expired_def resolve_authority_time_def)
  then have rq: "r = Inr (length (filter (\<lambda>(i, al). lease_expired t al) (active p)))" "q = reaped t p"
    using reap reap_expired_at [OF validate_time_nonneg [OF now] d] by auto
  have "length (filter (\<lambda>(i, al). lease_expired t al) (active p)) = length (active p) - length (active q)"
    using sum_length_filter_compl [of "\<lambda>(i, al). lease_expired t al" "active p"]
    by (simp add: rq(2) reaped_def case_prod_unfold)
  then show ?thesis
    using rq get_reaped [OF d, of t]
    by (auto simp: reaped_def lease_expired_def split: option.splits)
qed

section \<open>Witnesses\<close>

lemma sample_inv: "lease_inv sample_pool" "lease_inv (lease_exec sample_acquire sample_pool)"
  using mk_lease_pool_inv [OF sample_pool_restored] lease_exec_inv by auto

lemma sample_renewed:
  "renew (PyNone, PyNone) (PyStr ''lease-000001'') (PyInt 1) (PyInt 20) (PyInt 6)
     (lease_exec sample_acquire sample_pool) =
   (Inr 2, sample_pool\<lparr>active := [(''lease-000001'', sample_lease\<lparr>fencing_token := 2, expires_at := Some 20\<rparr>)],
      next_id := 2, next_fencing_token := 3\<rparr>)"
  unfolding sample_acquired by (simp add: sample_pool_def sample_lease_def lease_eval)

theorem renew_fences_old_token_witness:
  "release (PyStr ''lease-000001'') (PyInt 1)
     (snd (renew (PyNone, PyNone) (PyStr ''lease-000001'') (PyInt 1) (PyInt 20) (PyInt 6)
        (lease_exec sample_acquire sample_pool))) =
   (Inl StaleFencingTokenError,
    snd (renew (PyNone, PyNone) (PyStr ''lease-000001'') (PyInt 1) (PyInt 20) (PyInt 6)
        (lease_exec sample_acquire sample_pool)))"
  using renew_fences_old_token [OF sample_inv(2) sample_renewed] unfolding sample_renewed by simp

lemma sample_live:
  "1 \<in> live_tokens (lease_exec sample_acquire sample_pool)"
  "1 \<notin> live_tokens (lease_exec (Renew (PyNone, PyNone) (PyStr ''lease-000001'') (PyInt 1) (PyInt 20) (PyInt 6))
     (lease_exec sample_acquire sample_pool))"
  by (simp_all add: sample_renewed, simp_all add: sample_acquired live_tokens_def tokens_def dict_values_def sample_lease_def)

theorem lease_fencing_tokens_increase_witness:
  "1 \<notin> live_tokens (fold lease_exec [sample_acquire, sample_acquire]
      (lease_exec (Renew (PyNone, PyNone) (PyStr ''lease-000001'') (PyInt 1) (PyInt 20) (PyInt 6))
        (lease_exec sample_acquire sample_pool)))"
  using lease_fencing_tokens_increase [OF sample_pool_restored _ refl refl, where calls = "[sample_acquire]" and old = 1
      and more_calls = "[Renew (PyNone, PyNone) (PyStr ''lease-000001'') (PyInt 1) (PyInt 20) (PyInt 6)]"
      and yet_more_calls = "[sample_acquire, sample_acquire]"] sample_live
  by (simp del: lease_exec.simps)

lemma sample_granted:
  "acquire (PyNone, PyNone) (PyStr ''gpu'') (PyStr ''ann'') (PyInt 1) PyNone (PyInt 9) (PyInt 5) sample_pool =
   (Inr \<lparr>handle_lease_id = ''lease-000001'', handle_resource = ''gpu'', handle_owner = ''ann'',
         handle_units = 1, handle_fencing_token = 1\<rparr>,
    sample_pool\<lparr>active := [(''lease-000001'', sample_lease)], next_id := 2, next_fencing_token := 2\<rparr>)"
  by (simp add: sample_pool_def sample_lease_def lease_eval)

theorem acquire_release_roundtrip_witness:
  "fst (lease_release \<lparr>handle_lease_id = ''lease-000001'', handle_resource = ''gpu'', handle_owner = ''ann'',
         handle_units = 1, handle_fencing_token = 1\<rparr>
      (sample_pool\<lparr>active := [(''lease-000001'', sample_lease)], next_id := 2, next_fencing_token := 2\<rparr>))
   = Inr True"
  using acquire_release_roundtrip [OF sample_inv(1) _ sample_granted, where t = 5] by (simp add: prod_eq_iff)

theorem reap_expired_exact_witness:
  "active (snd (reap_expired (PyNone, PyNone) (PyInt 9) (lease_exec sample_acquire sample_pool))) = []"
  using reap_expired_exact [OF sample_inv(2), of "PyInt 9" 9 "(PyNone, PyNone)"]
  by (cases "reap_expired (PyNone, PyNone) (PyInt 9) (lease_exec sample_acquire sample_pool)")
    (auto simp: sample_acquired sample_lease_def elim!: allE [of _ "''lease-000001''"]
      simp: reap_expired_def resolve_authority_time_def lease_expired_def py_monad_defs)

end
