(* ===== verification/Admission.thy ===== *)
theory Admission
  imports GB_Prelude "HOL-Library.Product_Lexorder"
begin

text \<open>
  The admission ticket queue of \<^verbatim>\<open>admission.py\<close>: bounded concurrency, a rate limit per
  window, a bounded first-in first-out queue of pending tickets, fencing tokens, expiry
  and retention of terminal tickets. The public methods take untyped values and validate
  them; an exception keeps the mutations made before it.
\<close>

datatype ticket_state = Queued | Admitted | Running | Completed | Failed | Cancelled | Expired

text \<open>
  The exceptions of the module with their fields, and the exceptions of the language that
  its statements can raise: a missing dictionary key, an element missing from a deque, a
  failed assertion, an unhashable operand of \<^verbatim>\<open>in\<close>.
\<close>

datatype admission_error =
    AdmissionError
  | AdmissionQueueFullError string int
  | AdmissionIdempotencyConflictError string string "string option"
  | AdmissionTicketNotFoundError string
  | AdmissionStaleFencingTokenError string "int option" int
  | AdmissionTicketStateError string ticket_state string
  | AdmissionKeyError string
  | AdmissionDequeValueError
  | AdmissionAssertionError
  | AdmissionTypeError

abbreviation MAX_ADMISSION_INTEGER :: int where
  "MAX_ADMISSION_INTEGER \<equiv> 18446744073709551615"

definition terminal :: "ticket_state \<Rightarrow> bool" where
  "terminal s \<longleftrightarrow> s \<in> {Completed, Failed, Cancelled, Expired}"

section \<open>Validators\<close>

fun admission_string :: "pyval \<Rightarrow> admission_error + string" where
  "admission_string (PyStr s) =
     (if py_strip s = [] then Inl AdmissionError
      else if s \<noteq> py_strip s then Inl AdmissionError
      else if has_control s then Inl AdmissionError
      else if has_surrogate s then Inl AdmissionError
      else Inr s)"
| "admission_string _ = Inl AdmissionError"

fun admission_non_negative :: "pyval \<Rightarrow> admission_error + int" where
  "admission_non_negative (PyInt i) =
     (if \<not> (0 \<le> i \<and> i \<le> MAX_ADMISSION_INTEGER) then Inl AdmissionError else Inr i)"
| "admission_non_negative _ = Inl AdmissionError"

definition admission_positive :: "pyval \<Rightarrow> admission_error + int" where
  "admission_positive v =
     bind_sum (admission_non_negative v) (\<lambda>i. if i = 0 then Inl AdmissionError else Inr i)"

definition admission_optional_string :: "pyval \<Rightarrow> admission_error + string option" where
  "admission_optional_string v =
     (if v = PyNone then Inr None else bind_sum (admission_string v) (\<lambda>s. Inr (Some s)))"

definition increment_admission_counter :: "int \<Rightarrow> admission_error + int" where
  "increment_admission_counter n = (if MAX_ADMISSION_INTEGER \<le> n then Inl AdmissionError else Inr (n + 1))"

section \<open>Tickets\<close>

record ticket =
  ticket_id :: string
  run_id :: string
  request_id :: string
  owner_id :: string
  ticket_limiter_id :: string
  ticket_state :: ticket_state
  ticket_units :: int
  sequence :: int
  state_version :: int
  issued_at_ms :: int
  expires_at_ms :: int
  queue_position :: "int option"
  retry_after_ms :: "int option"
  ticket_token :: "int option"
  started_at_ms :: "int option"
  completed_at_ms :: "int option"
  tenant_id :: "string option"

definition opt_check :: "(pyval \<Rightarrow> admission_error + int) \<Rightarrow> int option \<Rightarrow> admission_error + unit" where
  "opt_check check v = (case v of None \<Rightarrow> Inr () | Some i \<Rightarrow> bind_sum (check (PyInt i)) (\<lambda>_. Inr ()))"

definition fault_if :: "bool \<Rightarrow> admission_error + unit" where
  "fault_if b = (if b then Inl AdmissionError else Inr ())"

text \<open>\<^verbatim>\<open>AdmissionTicket.__post_init__\<close>, which also runs on every \<^verbatim>\<open>replace\<close>.\<close>

definition mk_ticket :: "ticket \<Rightarrow> admission_error + ticket" where
  "mk_ticket t =
     bind_sum (admission_string (PyStr (ticket_id t))) (\<lambda>_.
     bind_sum (admission_string (PyStr (run_id t))) (\<lambda>_.
     bind_sum (admission_string (PyStr (request_id t))) (\<lambda>_.
     bind_sum (admission_string (PyStr (owner_id t))) (\<lambda>_.
     bind_sum (admission_string (PyStr (ticket_limiter_id t))) (\<lambda>_.
     bind_sum (case tenant_id t of None \<Rightarrow> Inr [] | Some s \<Rightarrow> admission_string (PyStr s)) (\<lambda>_.
     bind_sum (admission_positive (PyInt (ticket_units t))) (\<lambda>_.
     bind_sum (admission_positive (PyInt (sequence t))) (\<lambda>_.
     bind_sum (admission_positive (PyInt (state_version t))) (\<lambda>_.
     bind_sum (admission_non_negative (PyInt (issued_at_ms t))) (\<lambda>_.
     bind_sum (admission_non_negative (PyInt (expires_at_ms t))) (\<lambda>_.
     bind_sum (fault_if (expires_at_ms t \<le> issued_at_ms t)) (\<lambda>_.
     bind_sum (opt_check admission_positive (queue_position t)) (\<lambda>_.
     bind_sum (opt_check admission_non_negative (retry_after_ms t)) (\<lambda>_.
     bind_sum (opt_check admission_positive (ticket_token t)) (\<lambda>_.
     bind_sum (opt_check admission_non_negative (started_at_ms t)) (\<lambda>_.
     bind_sum (opt_check admission_non_negative (completed_at_ms t)) (\<lambda>_.
     bind_sum (if ticket_state t = Queued
               then fault_if (queue_position t = None \<or> ticket_token t \<noteq> None)
               else fault_if (queue_position t \<noteq> None)) (\<lambda>_.
     bind_sum (fault_if (ticket_state t \<noteq> Queued \<and> retry_after_ms t \<noteq> None)) (\<lambda>_.
     bind_sum (fault_if (ticket_state t \<in> {Admitted, Running} \<and> ticket_token t = None)) (\<lambda>_.
     bind_sum (fault_if (ticket_state t = Running \<and> started_at_ms t = None)) (\<lambda>_.
     bind_sum (fault_if (terminal (ticket_state t) \<and> completed_at_ms t = None)) (\<lambda>_.
     bind_sum (fault_if (ticket_state t \<in> {Queued, Admitted} \<and> started_at_ms t \<noteq> None)) (\<lambda>_.
     bind_sum (fault_if (\<not> terminal (ticket_state t) \<and> completed_at_ms t \<noteq> None)) (\<lambda>_.
     bind_sum (fault_if (case started_at_ms t of None \<Rightarrow> False | Some s \<Rightarrow> s < issued_at_ms t)) (\<lambda>_.
     bind_sum (fault_if (case completed_at_ms t of None \<Rightarrow> False
                         | Some c \<Rightarrow> c < (case started_at_ms t of None \<Rightarrow> issued_at_ms t | Some s \<Rightarrow> s))) (\<lambda>_.
     bind_sum (fault_if (case started_at_ms t of None \<Rightarrow> False | Some s \<Rightarrow> expires_at_ms t \<le> s)) (\<lambda>_.
     bind_sum (fault_if (case completed_at_ms t of None \<Rightarrow> False
                         | Some c \<Rightarrow> ticket_state t = Expired \<and> c < expires_at_ms t)) (\<lambda>_.
     bind_sum (fault_if (case completed_at_ms t of None \<Rightarrow> False
                         | Some c \<Rightarrow> ticket_state t \<noteq> Expired \<and> expires_at_ms t \<le> c)) (\<lambda>_.
     Inr t)))))))))))))))))))))))))))))"

text \<open>\<^verbatim>\<open>AdmissionTicket.contract\<close>: the projection a client may see.\<close>

fun state_name :: "ticket_state \<Rightarrow> string" where
  "state_name Queued = ''queued''"
| "state_name Admitted = ''admitted''"
| "state_name Running = ''running''"
| "state_name Completed = ''completed''"
| "state_name Failed = ''failed''"
| "state_name Cancelled = ''cancelled''"
| "state_name Expired = ''expired''"

definition py_optional_int :: "int option \<Rightarrow> pyval" where
  "py_optional_int v = (case v of None \<Rightarrow> PyNone | Some i \<Rightarrow> PyInt i)"

definition ticket_contract :: "ticket \<Rightarrow> (string, pyval) dict" where
  "ticket_contract t =
     [(''ticketId'', PyStr (ticket_id t)), (''runId'', PyStr (run_id t)), (''limiterId'', PyStr (ticket_limiter_id t)),
      (''state'', PyStr (state_name (ticket_state t))), (''units'', PyInt (ticket_units t)),
      (''sequence'', PyInt (sequence t)), (''stateVersion'', PyInt (state_version t)),
      (''issuedAtUnixMs'', PyInt (issued_at_ms t)), (''expiresAtUnixMs'', PyInt (expires_at_ms t)),
      (''queuePosition'', py_optional_int (queue_position t)), (''retryAfterMs'', py_optional_int (retry_after_ms t)),
      (''startedAtUnixMs'', py_optional_int (started_at_ms t)), (''completedAtUnixMs'', py_optional_int (completed_at_ms t))]"

record admission_submission =
  submission_ticket :: ticket
  duplicate :: bool

section \<open>The queue\<close>

type_synonym request_key = "string option \<times> string \<times> string"

record admission_queue =
  limiter_id :: string
  max_concurrent :: int
  rate_limit :: int
  window_ms :: int
  max_pending :: int
  ticket_ttl_ms :: int
  max_terminal_tickets :: int
  tickets :: "(string, ticket) dict"
  request_tickets :: "(request_key, string) dict"
  pending_ids :: "string list"
  active_ids :: "string set"
  window_start_ms :: "int option"
  window_used :: int
  next_ticket :: int
  next_sequence :: int
  next_admission_token :: int

definition mk_admission_queue ::
  "pyval \<Rightarrow> pyval \<Rightarrow> pyval \<Rightarrow> pyval \<Rightarrow> pyval \<Rightarrow> pyval \<Rightarrow> pyval \<Rightarrow> admission_error + admission_queue" where
  "mk_admission_queue limiter conc rate win pend ttl term =
     bind_sum (admission_string limiter) (\<lambda>limiter'.
     bind_sum (admission_positive conc) (\<lambda>conc'.
     bind_sum (admission_positive rate) (\<lambda>rate'.
     bind_sum (admission_positive win) (\<lambda>win'.
     bind_sum (admission_positive pend) (\<lambda>pend'.
     bind_sum (admission_positive ttl) (\<lambda>ttl'.
     bind_sum (admission_positive term) (\<lambda>term'.
     Inr \<lparr>limiter_id = limiter', max_concurrent = conc', rate_limit = rate', window_ms = win',
          max_pending = pend', ticket_ttl_ms = ttl', max_terminal_tickets = term',
          tickets = [], request_tickets = [], pending_ids = [], active_ids = {},
          window_start_ms = None, window_used = 0, next_ticket = 1, next_sequence = 1,
          next_admission_token = 1\<rparr>)))))))"

type_synonym 'a admission = "(admission_queue, admission_error, 'a) py"

section \<open>Operations under the lock\<close>

definition lookup_ticket :: "string \<Rightarrow> ticket admission" where
  "lookup_ticket tid =
     bind_py (gets_py tickets) (\<lambda>ts.
     case map_of ts tid of None \<Rightarrow> raise_py (AdmissionKeyError tid) | Some t \<Rightarrow> return_py t)"

definition store_ticket :: "string \<Rightarrow> ticket \<Rightarrow> unit admission" where
  "store_ticket tid t = modify_py (\<lambda>q. q\<lparr>tickets := dict_set tid t (tickets q)\<rparr>)"

definition get_ticket :: "pyval \<Rightarrow> ticket admission" where
  "get_ticket tid =
     bind_py (lift_py (admission_string tid)) (\<lambda>tid'.
     bind_py (gets_py tickets) (\<lambda>ts.
     case map_of ts tid' of
       None \<Rightarrow> raise_py (AdmissionTicketNotFoundError tid') | Some t \<Rightarrow> return_py t))"

definition validate_fencing :: "ticket \<Rightarrow> int \<Rightarrow> unit admission" where
  "validate_fencing t tok =
     raise_if (ticket_token t \<noteq> Some tok) (AdmissionStaleFencingTokenError (ticket_id t) (ticket_token t) tok)"

definition validate_mutation_time :: "ticket \<Rightarrow> int \<Rightarrow> string \<Rightarrow> unit admission" where
  "validate_mutation_time t now operation =
     raise_if (now < issued_at_ms t)
       (AdmissionTicketStateError (ticket_id t) (ticket_state t) (operation @ '' before issuance''))"

definition refresh_window :: "int \<Rightarrow> admission_queue \<Rightarrow> admission_queue" where
  "refresh_window now q =
     (if (case window_start_ms q of None \<Rightarrow> True | Some ws \<Rightarrow> ws + window_ms q \<le> now)
      then q\<lparr>window_start_ms := Some now, window_used := 0\<rparr> else q)"

text \<open>The wait until the next window; the source asserts that a window has started.\<close>

definition retry_delay :: "int \<Rightarrow> int admission" where
  "retry_delay now =
     bind_py (gets_py (\<lambda>q. q)) (\<lambda>q.
     case window_start_ms q of
       None \<Rightarrow> raise_py AdmissionAssertionError
     | Some ws \<Rightarrow> return_py (max 0 (ws + window_ms q - now)))"

text \<open>One iteration of \<^verbatim>\<open>_reindex_locked\<close>; the local variable is the projected use.\<close>

definition reindex_step :: "int \<Rightarrow> int \<times> string \<Rightarrow> int \<Rightarrow> int admission" where
  "reindex_step now = (\<lambda>(position, tid) projected_used.
     bind_py (lookup_ticket tid) (\<lambda>t.
     bind_py (gets_py rate_limit) (\<lambda>rate.
     bind_py (if rate < projected_used + ticket_units t
              then bind_py (retry_delay now) (\<lambda>d. return_py (Some d))
              else return_py None) (\<lambda>retry.
     bind_py (if queue_position t \<noteq> Some position \<or> retry_after_ms t \<noteq> retry
              then bind_py (lift_py (increment_admission_counter (state_version t))) (\<lambda>version.
                   bind_py (lift_py (mk_ticket (t\<lparr>state_version := version,
                        queue_position := Some position, retry_after_ms := retry\<rparr>))) (\<lambda>t'.
                   store_ticket tid t'))
              else return_py ()) (\<lambda>_.
     return_py (projected_used + ticket_units t))))))"

definition reindex :: "int \<Rightarrow> unit admission" where
  "reindex now =
     bind_py (modify_py (refresh_window now)) (\<lambda>_.
     bind_py (gets_py (\<lambda>q. q)) (\<lambda>q.
     bind_py (for_acc (zip (map int [1..<Suc (length (pending_ids q))]) (pending_ids q))
                (window_used q) (reindex_step now)) (\<lambda>_.
     return_py ())))"

definition evict_terminal :: "string \<Rightarrow> admission_queue \<Rightarrow> admission_queue" where
  "evict_terminal tid q =
     (case map_of (tickets q) tid of
        None \<Rightarrow> q
      | Some t \<Rightarrow>
          if \<not> terminal (ticket_state t) then q
          else
            let key = (tenant_id t, owner_id t, request_id t);
                q' = q\<lparr>tickets := dict_pop tid (tickets q)\<rparr> in
            if map_of (request_tickets q') key = Some tid
            then q'\<lparr>request_tickets := dict_pop key (request_tickets q')\<rparr> else q')"

definition terminal_retention_expired :: "admission_queue \<Rightarrow> ticket \<Rightarrow> int \<Rightarrow> bool" where
  "terminal_retention_expired q t now \<longleftrightarrow>
     terminal (ticket_state t) \<and>
     (case completed_at_ms t of None \<Rightarrow> False | Some c \<Rightarrow> c \<le> now - ticket_ttl_ms q)"

definition retention_key :: "ticket \<Rightarrow> int \<times> int" where
  "retention_key t = (case completed_at_ms t of None \<Rightarrow> 0 | Some c \<Rightarrow> c, sequence t)"

definition prune_terminal :: "int \<Rightarrow> admission_queue \<Rightarrow> admission_queue" where
  "prune_terminal now q =
     (let terminal_tickets = sort_key retention_key
            (filter (\<lambda>t. terminal (ticket_state t)) (dict_values (tickets q)));
          q' = fold (\<lambda>t r. if terminal_retention_expired r t now then evict_terminal (ticket_id t) r else r)
                 terminal_tickets q;
          retained = filter (\<lambda>t. map_of (tickets q') (ticket_id t) \<noteq> None) terminal_tickets;
          overflow = int (length retained) - max_terminal_tickets q'
      in fold (\<lambda>t. evict_terminal (ticket_id t)) (take (nat (max overflow 0)) retained) q')"

text \<open>\<^verbatim>\<open>deque.remove\<close> raises \<^verbatim>\<open>ValueError\<close> when the element is missing.\<close>

definition pending_remove :: "string \<Rightarrow> unit admission" where
  "pending_remove tid =
     bind_py (gets_py pending_ids) (\<lambda>ids.
     if tid \<in> set ids then modify_py (\<lambda>q. q\<lparr>pending_ids := remove1 tid (pending_ids q)\<rparr>)
     else raise_py AdmissionDequeValueError)"

definition leave_queue :: "string \<Rightarrow> ticket \<Rightarrow> unit admission" where
  "leave_queue tid t =
     (if ticket_state t = Queued then pending_remove tid
      else modify_py (\<lambda>q. q\<lparr>active_ids := active_ids q - {tid}\<rparr>))"

definition expire_step :: "int \<Rightarrow> string \<times> ticket \<Rightarrow> ticket list \<Rightarrow> ticket list admission" where
  "expire_step now = (\<lambda>(tid, t) expired.
     if ticket_state t \<notin> {Queued, Admitted, Running} \<or> now < expires_at_ms t then return_py expired
     else
       bind_py (lift_py (increment_admission_counter (state_version t))) (\<lambda>version.
       bind_py (leave_queue tid t) (\<lambda>_.
       bind_py (lift_py (mk_ticket (t\<lparr>ticket_state := Expired, state_version := version,
            queue_position := None, retry_after_ms := None, completed_at_ms := Some now\<rparr>))) (\<lambda>t'.
       bind_py (store_ticket tid t') (\<lambda>_.
       return_py (expired @ [t']))))))"

definition expire_locked :: "int \<Rightarrow> ticket list admission" where
  "expire_locked now =
     bind_py (gets_py tickets) (\<lambda>items.
     bind_py (for_acc items [] (expire_step now)) (\<lambda>expired.
     bind_py (reindex now) (\<lambda>_.
     bind_py (modify_py (prune_terminal now)) (\<lambda>_.
     return_py (sort_key sequence expired)))))"

text \<open>The loop of \<^verbatim>\<open>_promote_locked\<close>: each iteration takes one identifier off the queue.\<close>

definition admitted_ticket :: "ticket \<Rightarrow> int \<Rightarrow> int \<Rightarrow> ticket" where
  "admitted_ticket t version tok =
     t\<lparr>ticket_state := Admitted, state_version := version, queue_position := None,
       retry_after_ms := None, ticket_token := Some tok\<rparr>"

function promote_loop :: "int \<Rightarrow> ticket list \<Rightarrow> ticket list admission" where
  "promote_loop now promoted q =
     (case pending_ids q of
        [] \<Rightarrow> (Inr promoted, q)
      | tid # rest \<Rightarrow>
          if max_concurrent q \<le> int (card (active_ids q)) then (Inr promoted, q)
          else case map_of (tickets q) tid of
            None \<Rightarrow> (Inl (AdmissionKeyError tid), q)
          | Some t \<Rightarrow>
              if now < issued_at_ms t then (Inr promoted, q)
              else if rate_limit q < window_used q + ticket_units t then (Inr promoted, q)
              else case increment_admission_counter (state_version t) of
                Inl e \<Rightarrow> (Inl e, q)
              | Inr version \<Rightarrow>
                  (case increment_admission_counter (next_admission_token q) of
                     Inl e \<Rightarrow> (Inl e, q)
                   | Inr next_token \<Rightarrow>
                       let tok = next_admission_token q;
                           q' = q\<lparr>pending_ids := rest, next_admission_token := next_token\<rparr> in
                       (case mk_ticket (admitted_ticket t version tok) of
                          Inl e \<Rightarrow> (Inl e, q')
                        | Inr t' \<Rightarrow>
                            promote_loop now (promoted @ [t'])
                              (q'\<lparr>tickets := dict_set tid t' (tickets q'),
                                  active_ids := insert tid (active_ids q'),
                                  window_used := window_used q' + ticket_units t\<rparr>))))"
  by pat_completeness auto
termination
  by (relation "measure (\<lambda>(now, promoted, q). length (pending_ids q))") auto

declare promote_loop.simps [simp del]

definition promote_locked :: "int \<Rightarrow> ticket list admission" where
  "promote_locked now =
     bind_py (modify_py (refresh_window now)) (\<lambda>_.
     bind_py (promote_loop now []) (\<lambda>promoted.
     bind_py (reindex now) (\<lambda>_.
     return_py promoted)))"

section \<open>Public methods\<close>

definition ticket_id_of :: "string \<Rightarrow> int \<Rightarrow> string" where
  "ticket_id_of limiter n = limiter @ ''-ticket-'' @ fmt_06d n"

text \<open>The part of \<^verbatim>\<open>submit\<close> that issues a new ticket.\<close>

definition can_admit :: "int \<Rightarrow> admission_queue \<Rightarrow> bool" where
  "can_admit un q \<longleftrightarrow> pending_ids q = [] \<and> int (card (active_ids q)) < max_concurrent q \<and>
     window_used q + un \<le> rate_limit q"

definition new_ticket ::
  "admission_queue \<Rightarrow> bool \<Rightarrow> string \<Rightarrow> string \<Rightarrow> string \<Rightarrow> string option \<Rightarrow> int \<Rightarrow> int \<Rightarrow> int option \<Rightarrow> ticket" where
  "new_ticket q can run req own ten now un retry =
     \<lparr>ticket_id = ticket_id_of (limiter_id q) (next_ticket q), run_id = run, request_id = req, owner_id = own,
      ticket_limiter_id = limiter_id q, ticket_state = (if can then Admitted else Queued),
      ticket_units = un, sequence = next_sequence q, state_version = 1, issued_at_ms = now,
      expires_at_ms = now + ticket_ttl_ms q,
      queue_position = (if can then None else Some (int (length (pending_ids q)) + 1)),
      retry_after_ms = retry, ticket_token = (if can then Some (next_admission_token q) else None),
      started_at_ms = None, completed_at_ms = None, tenant_id = ten\<rparr>"

text \<open>Taking a slot and a fencing token, or the wait of a ticket that does not fit the window.\<close>

definition take_slot :: "bool \<Rightarrow> string \<Rightarrow> int \<Rightarrow> int \<Rightarrow> int option admission" where
  "take_slot can tid un now =
     bind_py (gets_py (\<lambda>q. q)) (\<lambda>q.
     if can then
       bind_py (lift_py (increment_admission_counter (next_admission_token q))) (\<lambda>next_token.
       bind_py (modify_py (\<lambda>q. q\<lparr>next_admission_token := next_token,
            active_ids := insert tid (active_ids q), window_used := window_used q + un\<rparr>)) (\<lambda>_.
       return_py None))
     else if rate_limit q < window_used q + un then bind_py (retry_delay now) (\<lambda>d. return_py (Some d))
     else return_py None)"

definition record_ticket :: "bool \<Rightarrow> string \<Rightarrow> request_key \<Rightarrow> ticket \<Rightarrow> int \<Rightarrow> admission_submission admission" where
  "record_ticket can tid key t now =
     bind_py (store_ticket tid t) (\<lambda>_.
     bind_py (modify_py (\<lambda>q. q\<lparr>request_tickets := dict_set key tid (request_tickets q)\<rparr>)) (\<lambda>_.
     if can then return_py \<lparr>submission_ticket = t, duplicate = False\<rparr>
     else
       bind_py (modify_py (\<lambda>q. q\<lparr>pending_ids := pending_ids q @ [tid]\<rparr>)) (\<lambda>_.
       bind_py (reindex now) (\<lambda>_.
       bind_py (lookup_ticket tid) (\<lambda>t'.
       return_py \<lparr>submission_ticket = t', duplicate = False\<rparr>)))))"

definition issue_ticket ::
  "string \<Rightarrow> string \<Rightarrow> string \<Rightarrow> string option \<Rightarrow> int \<Rightarrow> int \<Rightarrow> admission_submission admission" where
  "issue_ticket run req own ten now un =
     bind_py (modify_py (prune_terminal now)) (\<lambda>_.
     bind_py (modify_py (refresh_window now)) (\<lambda>_.
     bind_py (gets_py (\<lambda>q. q)) (\<lambda>q.
     let can = can_admit un q; tid = ticket_id_of (limiter_id q) (next_ticket q) in
     bind_py (raise_if (\<not> can \<and> max_pending q \<le> int (length (pending_ids q)))
                (AdmissionQueueFullError (limiter_id q) (max_pending q))) (\<lambda>_.
     bind_py (lift_py (increment_admission_counter (next_ticket q))) (\<lambda>next_ticket'.
     bind_py (lift_py (increment_admission_counter (next_sequence q))) (\<lambda>next_sequence'.
     bind_py (take_slot can tid un now) (\<lambda>retry.
     bind_py (modify_py (\<lambda>q. q\<lparr>next_ticket := next_ticket', next_sequence := next_sequence'\<rparr>)) (\<lambda>_.
     bind_py (lift_py (mk_ticket (new_ticket q can run req own ten now un retry))) (\<lambda>t.
     record_ticket can tid (ten, own, req) t now)))))))))"

text \<open>The first check of a repeated request, before anything expires.\<close>

definition check_resubmission :: "request_key \<Rightarrow> string \<Rightarrow> int \<Rightarrow> int \<Rightarrow> unit admission" where
  "check_resubmission key run un now =
     bind_py (gets_py request_tickets) (\<lambda>requests.
     case map_of requests key of
       None \<Rightarrow> return_py ()
     | Some tid \<Rightarrow>
         bind_py (lookup_ticket tid) (\<lambda>existing.
         bind_py (raise_if (run_id existing \<noteq> run \<or> ticket_units existing \<noteq> un)
                    (AdmissionIdempotencyConflictError (fst (snd key)) (snd (snd key)) (fst key))) (\<lambda>_.
         validate_mutation_time existing now ''resubmit'')))"

text \<open>The second check: the ticket to return as a duplicate, if there is one.\<close>

definition find_duplicate :: "request_key \<Rightarrow> int \<Rightarrow> ticket option admission" where
  "find_duplicate key now =
     bind_py (gets_py request_tickets) (\<lambda>requests.
     case map_of requests key of
       None \<Rightarrow> return_py None
     | Some tid \<Rightarrow>
         bind_py (lookup_ticket tid) (\<lambda>existing.
         bind_py (gets_py (\<lambda>q. terminal_retention_expired q existing now)) (\<lambda>stale.
         if ticket_state existing \<in> {Expired, Failed} \<or> stale
         then bind_py (modify_py (evict_terminal tid)) (\<lambda>_. return_py None)
         else return_py (Some existing))))"

definition submit :: "pyval \<Rightarrow> pyval \<Rightarrow> pyval \<Rightarrow> pyval \<Rightarrow> pyval \<Rightarrow> pyval \<Rightarrow> admission_submission admission" where
  "submit run req own ten now un =
     bind_py (lift_py (admission_string run)) (\<lambda>run'.
     bind_py (lift_py (admission_string req)) (\<lambda>req'.
     bind_py (lift_py (admission_string own)) (\<lambda>own'.
     bind_py (lift_py (admission_optional_string ten)) (\<lambda>ten'.
     bind_py (lift_py (admission_non_negative now)) (\<lambda>now'.
     bind_py (lift_py (admission_positive un)) (\<lambda>un'.
     bind_py (gets_py (\<lambda>q. q)) (\<lambda>q.
     bind_py (raise_if (rate_limit q < un') AdmissionError) (\<lambda>_.
     bind_py (raise_if (MAX_ADMISSION_INTEGER - ticket_ttl_ms q < now') AdmissionError) (\<lambda>_.
     bind_py (check_resubmission (ten', own', req') run' un' now') (\<lambda>_.
     bind_py (expire_locked now') (\<lambda>_.
     bind_py (promote_locked now') (\<lambda>_.
     bind_py (find_duplicate (ten', own', req') now') (\<lambda>dup.
     case dup of
       Some existing \<Rightarrow> return_py \<lparr>submission_ticket = existing, duplicate = True\<rparr>
     | None \<Rightarrow> issue_ticket run' req' own' ten' now' un')))))))))))))"

definition promote :: "pyval \<Rightarrow> ticket list admission" where
  "promote now =
     bind_py (lift_py (admission_non_negative now)) (\<lambda>now'.
     bind_py (expire_locked now') (\<lambda>_.
     bind_py (promote_locked now') (\<lambda>promoted.
     bind_py (modify_py (prune_terminal now')) (\<lambda>_.
     return_py promoted))))"

definition mark_running :: "pyval \<Rightarrow> pyval \<Rightarrow> pyval \<Rightarrow> ticket admission" where
  "mark_running tid tok now =
     bind_py (lift_py (admission_string tid)) (\<lambda>tid'.
     bind_py (lift_py (admission_positive tok)) (\<lambda>tok'.
     bind_py (lift_py (admission_non_negative now)) (\<lambda>now'.
     bind_py (get_ticket (PyStr tid')) (\<lambda>t0.
     bind_py (validate_mutation_time t0 now' ''start'') (\<lambda>_.
     bind_py (expire_locked now') (\<lambda>_.
     bind_py (get_ticket (PyStr tid')) (\<lambda>t.
     bind_py (validate_fencing t tok') (\<lambda>_.
     if ticket_state t = Running then return_py t
     else
       bind_py (raise_if (ticket_state t \<noteq> Admitted)
                  (AdmissionTicketStateError tid' (ticket_state t) ''start'')) (\<lambda>_.
       bind_py (lift_py (increment_admission_counter (state_version t))) (\<lambda>version.
       bind_py (lift_py (mk_ticket (t\<lparr>ticket_state := Running, state_version := version,
            started_at_ms := Some now'\<rparr>))) (\<lambda>running.
       bind_py (store_ticket tid' running) (\<lambda>_.
       bind_py (modify_py (prune_terminal now')) (\<lambda>_.
       return_py running)))))))))))))"

text \<open>The state arguments of \<^verbatim>\<open>complete\<close> and \<^verbatim>\<open>cancel\<close>; \<^verbatim>\<open>in\<close> on a set needs a hashable value.\<close>

fun state_argument :: "(string \<times> ticket_state) list \<Rightarrow> pyval \<Rightarrow> admission_error + ticket_state" where
  "state_argument allowed (PyStr s) =
     (case map_of allowed s of None \<Rightarrow> Inl AdmissionError | Some st \<Rightarrow> Inr st)"
| "state_argument allowed (PyList xs) = Inl AdmissionTypeError"
| "state_argument allowed (PyDict xs) = Inl AdmissionTypeError"
| "state_argument allowed _ = Inl AdmissionError"

definition complete :: "pyval \<Rightarrow> pyval \<Rightarrow> pyval \<Rightarrow> pyval \<Rightarrow> (ticket \<times> ticket list) admission" where
  "complete tid tok st now =
     bind_py (lift_py (admission_string tid)) (\<lambda>tid'.
     bind_py (lift_py (admission_positive tok)) (\<lambda>tok'.
     bind_py (lift_py (admission_non_negative now)) (\<lambda>now'.
     bind_py (lift_py (state_argument [(''completed'', Completed), (''failed'', Failed)] st)) (\<lambda>st'.
     bind_py (get_ticket (PyStr tid')) (\<lambda>t0.
     bind_py (validate_mutation_time t0 now' ''complete'') (\<lambda>_.
     bind_py (expire_locked now') (\<lambda>_.
     bind_py (get_ticket (PyStr tid')) (\<lambda>t.
     bind_py (validate_fencing t tok') (\<lambda>_.
     bind_py (raise_if (ticket_state t \<notin> {Admitted, Running})
                (AdmissionTicketStateError tid' (ticket_state t) ''complete'')) (\<lambda>_.
     bind_py (lift_py (increment_admission_counter (state_version t))) (\<lambda>version.
     bind_py (lift_py (mk_ticket (t\<lparr>ticket_state := st', state_version := version,
          completed_at_ms := Some now'\<rparr>))) (\<lambda>final.
     bind_py (store_ticket tid' final) (\<lambda>_.
     bind_py (modify_py (\<lambda>q. q\<lparr>active_ids := active_ids q - {tid'}\<rparr>)) (\<lambda>_.
     bind_py (promote_locked now') (\<lambda>promoted.
     bind_py (modify_py (prune_terminal now')) (\<lambda>_.
     return_py (final, promoted)))))))))))))))))"

definition cancel_ticket ::
  "string \<Rightarrow> int \<Rightarrow> ticket_state \<Rightarrow> int option \<Rightarrow> ticket \<Rightarrow> (ticket \<times> ticket list) admission" where
  "cancel_ticket tid now st tok t =
     bind_py (if ticket_state t = Running then
                (case tok of
                   None \<Rightarrow> raise_py (AdmissionTicketStateError tid (ticket_state t)
                             ''cancel without a post-worker fencing token'')
                 | Some n \<Rightarrow> validate_fencing t n)
              else return_py ()) (\<lambda>_.
     bind_py (lift_py (increment_admission_counter (state_version t))) (\<lambda>version.
     bind_py (leave_queue tid t) (\<lambda>_.
     bind_py (lift_py (mk_ticket (t\<lparr>ticket_state := st, state_version := version,
          queue_position := None, retry_after_ms := None, completed_at_ms := Some now\<rparr>))) (\<lambda>cancelled.
     bind_py (store_ticket tid cancelled) (\<lambda>_.
     bind_py (reindex now) (\<lambda>_.
     bind_py (promote_locked now) (\<lambda>promoted.
     bind_py (modify_py (prune_terminal now)) (\<lambda>_.
     return_py (cancelled, promoted)))))))))"

definition cancel :: "pyval \<Rightarrow> pyval \<Rightarrow> pyval \<Rightarrow> pyval \<Rightarrow> (ticket \<times> ticket list) admission" where
  "cancel tid now st tok =
     bind_py (lift_py (admission_string tid)) (\<lambda>tid'.
     bind_py (lift_py (admission_non_negative now)) (\<lambda>now'.
     bind_py (lift_py (state_argument [(''cancelled'', Cancelled), (''expired'', Expired)] st)) (\<lambda>st'.
     bind_py (lift_py (if tok = PyNone then Inr None
                       else bind_sum (admission_positive tok) (\<lambda>n. Inr (Some n)))) (\<lambda>tok'.
     bind_py (get_ticket (PyStr tid')) (\<lambda>t0.
     bind_py (validate_mutation_time t0 now' ''cancel'') (\<lambda>_.
     bind_py (expire_locked now') (\<lambda>_.
     bind_py (get_ticket (PyStr tid')) (\<lambda>t.
     if terminal (ticket_state t)
     then bind_py (modify_py (prune_terminal now')) (\<lambda>_. return_py (t, []))
     else cancel_ticket tid' now' st' tok' t))))))))"

definition expire :: "pyval \<Rightarrow> ticket list admission" where
  "expire now =
     bind_py (lift_py (admission_non_negative now)) (\<lambda>now'.
     bind_py (expire_locked now') (\<lambda>expired.
     bind_py (modify_py (prune_terminal now')) (\<lambda>_.
     return_py expired)))"

definition pending_ticket_ids :: "string list admission" where
  "pending_ticket_ids = gets_py pending_ids"

end
