(* ===== verification/Admission_Inv.thy ===== *)
theory Admission_Inv
  imports Admission
begin

text \<open>
  The invariant of the admission queue and the way it evolves: which tickets, counters and
  sets a call may change. Every operation is shown to keep the invariant, to move tickets
  along their life cycle only and never to raise an internal error of the language, for
  calls whose times do not go back.
\<close>

section \<open>Valid tickets\<close>

definition good_string :: "string \<Rightarrow> bool" where
  "good_string s \<longleftrightarrow> admission_string (PyStr s) = Inr s"

definition in_range :: "int \<Rightarrow> bool" where
  "in_range i \<longleftrightarrow> 0 \<le> i \<and> i \<le> MAX_ADMISSION_INTEGER"

definition pos_range :: "int \<Rightarrow> bool" where
  "pos_range i \<longleftrightarrow> 0 < i \<and> i \<le> MAX_ADMISSION_INTEGER"

definition ticket_ok :: "ticket \<Rightarrow> bool" where
  "ticket_ok t \<longleftrightarrow>
     good_string (ticket_id t) \<and> good_string (run_id t) \<and> good_string (request_id t) \<and>
     good_string (owner_id t) \<and> good_string (ticket_limiter_id t) \<and>
     (case tenant_id t of None \<Rightarrow> True | Some s \<Rightarrow> good_string s) \<and>
     pos_range (ticket_units t) \<and> pos_range (sequence t) \<and> pos_range (state_version t) \<and>
     in_range (issued_at_ms t) \<and> in_range (expires_at_ms t) \<and> issued_at_ms t < expires_at_ms t \<and>
     (case queue_position t of None \<Rightarrow> True | Some i \<Rightarrow> pos_range i) \<and>
     (case retry_after_ms t of None \<Rightarrow> True | Some i \<Rightarrow> in_range i) \<and>
     (case ticket_token t of None \<Rightarrow> True | Some i \<Rightarrow> pos_range i) \<and>
     (case started_at_ms t of None \<Rightarrow> True
      | Some s \<Rightarrow> in_range s \<and> issued_at_ms t \<le> s \<and> s < expires_at_ms t) \<and>
     (case completed_at_ms t of None \<Rightarrow> True
      | Some c \<Rightarrow> in_range c \<and> (case started_at_ms t of None \<Rightarrow> issued_at_ms t | Some s \<Rightarrow> s) \<le> c \<and>
          (ticket_state t = Expired \<longleftrightarrow> expires_at_ms t \<le> c)) \<and>
     (ticket_state t = Queued \<longleftrightarrow> queue_position t \<noteq> None) \<and>
     (ticket_state t = Queued \<longrightarrow> ticket_token t = None) \<and>
     (ticket_state t \<noteq> Queued \<longrightarrow> retry_after_ms t = None) \<and>
     (ticket_state t \<in> {Admitted, Running} \<longrightarrow> ticket_token t \<noteq> None) \<and>
     (ticket_state t = Running \<longrightarrow> started_at_ms t \<noteq> None) \<and>
     (ticket_state t \<in> {Queued, Admitted} \<longrightarrow> started_at_ms t = None) \<and>
     (terminal (ticket_state t) \<longleftrightarrow> completed_at_ms t \<noteq> None)"

lemma admission_string_cases: "admission_string (PyStr s) = (if good_string s then Inr s else Inl AdmissionError)"
  by (auto simp: good_string_def)

lemma non_negative_int: "admission_non_negative (PyInt i) = (if in_range i then Inr i else Inl AdmissionError)"
  by (simp add: in_range_def)

lemma positive_int: "admission_positive (PyInt i) = (if pos_range i then Inr i else Inl AdmissionError)"
  by (auto simp: admission_positive_def pos_range_def)

lemma opt_check_simps:
  "opt_check admission_positive v = fault_if (\<not> (case v of None \<Rightarrow> True | Some i \<Rightarrow> pos_range i))"
  "opt_check admission_non_negative v = fault_if (\<not> (case v of None \<Rightarrow> True | Some i \<Rightarrow> in_range i))"
  by (auto simp: opt_check_def fault_if_def positive_int in_range_def split: option.splits)

lemma bind_fault_if: "bind_sum (fault_if b) f = (if b then Inl AdmissionError else f ())"
  by (simp add: fault_if_def)

lemma bind_guard: "bind_sum (if b then Inr x else Inl e) f = (if b then f x else Inl e)"
  by simp

lemma tenant_guard:
  "bind_sum (case v of None \<Rightarrow> Inr [] | Some s \<Rightarrow> if good_string s then Inr s else Inl AdmissionError) (\<lambda>_. r) =
   (if (case v of None \<Rightarrow> True | Some s \<Rightarrow> good_string s) then r else Inl AdmissionError)"
  by (auto split: option.splits)

lemma guard_Inr:
  "(if b then r else Inl e) = Inr t \<longleftrightarrow> b \<and> r = Inr t"
  "(if b then Inl e else r) = Inr t \<longleftrightarrow> \<not> b \<and> r = Inr t"
  by auto

lemmas ticket_guards = tenant_guard bind_fault_if opt_check_simps admission_string_cases positive_int
  non_negative_int bind_guard bind_sum_simps

lemma mk_ticket_Inr: "mk_ticket t = Inr t \<longleftrightarrow> ticket_ok t"
proof -
  have "mk_ticket t = Inr t \<longleftrightarrow>
     good_string (ticket_id t) \<and> good_string (run_id t) \<and> good_string (request_id t) \<and>
     good_string (owner_id t) \<and> good_string (ticket_limiter_id t) \<and>
     (case tenant_id t of None \<Rightarrow> True | Some s \<Rightarrow> good_string s) \<and>
     pos_range (ticket_units t) \<and> pos_range (sequence t) \<and> pos_range (state_version t) \<and>
     in_range (issued_at_ms t) \<and> in_range (expires_at_ms t) \<and> \<not> expires_at_ms t \<le> issued_at_ms t \<and>
     (case queue_position t of None \<Rightarrow> True | Some i \<Rightarrow> pos_range i) \<and>
     (case retry_after_ms t of None \<Rightarrow> True | Some i \<Rightarrow> in_range i) \<and>
     (case ticket_token t of None \<Rightarrow> True | Some i \<Rightarrow> pos_range i) \<and>
     (case started_at_ms t of None \<Rightarrow> True | Some i \<Rightarrow> in_range i) \<and>
     (case completed_at_ms t of None \<Rightarrow> True | Some i \<Rightarrow> in_range i) \<and>
     (if ticket_state t = Queued then \<not> (queue_position t = None \<or> ticket_token t \<noteq> None)
      else \<not> queue_position t \<noteq> None) \<and>
     \<not> (ticket_state t \<noteq> Queued \<and> retry_after_ms t \<noteq> None) \<and>
     \<not> (ticket_state t \<in> {Admitted, Running} \<and> ticket_token t = None) \<and>
     \<not> (ticket_state t = Running \<and> started_at_ms t = None) \<and>
     \<not> (terminal (ticket_state t) \<and> completed_at_ms t = None) \<and>
     \<not> (ticket_state t \<in> {Queued, Admitted} \<and> started_at_ms t \<noteq> None) \<and>
     \<not> (\<not> terminal (ticket_state t) \<and> completed_at_ms t \<noteq> None) \<and>
     \<not> (case started_at_ms t of None \<Rightarrow> False | Some s \<Rightarrow> s < issued_at_ms t) \<and>
     \<not> (case completed_at_ms t of None \<Rightarrow> False
        | Some c \<Rightarrow> c < (case started_at_ms t of None \<Rightarrow> issued_at_ms t | Some s \<Rightarrow> s)) \<and>
     \<not> (case started_at_ms t of None \<Rightarrow> False | Some s \<Rightarrow> expires_at_ms t \<le> s) \<and>
     \<not> (case completed_at_ms t of None \<Rightarrow> False | Some c \<Rightarrow> ticket_state t = Expired \<and> c < expires_at_ms t) \<and>
     \<not> (case completed_at_ms t of None \<Rightarrow> False | Some c \<Rightarrow> ticket_state t \<noteq> Expired \<and> expires_at_ms t \<le> c)"
    by (simp only: mk_ticket_def ticket_guards guard_Inr if_distrib [of "\<lambda>r. bind_sum r f" for f] not_not simp_thms)
      (cases "ticket_state t = Queued", simp_all only: simp_thms if_True if_False guard_Inr)
  then show ?thesis
    unfolding ticket_ok_def
    by (cases "ticket_state t"; cases "started_at_ms t"; cases "completed_at_ms t")
      (simp_all add: terminal_def not_le not_less conj_ac)
qed

lemma bind_fails:
  "m = Inl e \<or> (\<exists>a. m = Inr a) \<Longrightarrow> (\<And>a. f a = Inl e \<or> f a = Inr t) \<Longrightarrow> bind_sum m f = Inl e \<or> bind_sum m f = Inr t"
  by (cases m) auto

lemma mk_ticket_iff: "mk_ticket t = (if ticket_ok t then Inr t else Inl AdmissionError)"
proof -
  have "mk_ticket t = Inl AdmissionError \<or> mk_ticket t = Inr t"
    unfolding mk_ticket_def
    by (intro bind_fails)
      (simp_all add: fault_if_def opt_check_simps admission_string_cases positive_int non_negative_int
        del: admission_string.simps admission_non_negative.simps split: option.split)
  then show ?thesis using mk_ticket_Inr by auto
qed

section \<open>Life cycle\<close>

inductive lifecycle :: "ticket_state \<Rightarrow> ticket_state \<Rightarrow> bool" where
  admit: "lifecycle Queued Admitted"
| start: "lifecycle Admitted Running"
| finish: "s \<in> {Admitted, Running} \<Longrightarrow> s' \<in> {Completed, Failed} \<Longrightarrow> lifecycle s s'"
| abandon: "s \<in> {Queued, Admitted, Running} \<Longrightarrow> s' \<in> {Cancelled, Expired} \<Longrightarrow> lifecycle s s'"

inductive_cases lifecycle_fromE: "lifecycle s s'"

lemma terminal_stuck: "lifecycle s s' \<Longrightarrow> \<not> terminal s"
  by (auto elim!: lifecycle_fromE simp: terminal_def)

lemma lifecycle_into_queued: "lifecycle\<^sup>*\<^sup>* s Queued \<Longrightarrow> s = Queued"
  by (erule rtranclp.cases) (auto elim: lifecycle_fromE)

definition slot :: "ticket \<Rightarrow> bool" where
  "slot t \<longleftrightarrow> ticket_state t \<in> {Admitted, Running}"

definition ticket_key :: "ticket \<Rightarrow> request_key" where
  "ticket_key t = (tenant_id t, owner_id t, request_id t)"

definition identity :: "ticket \<Rightarrow> string \<times> string \<times> string \<times> request_key \<times> int \<times> int \<times> int \<times> int" where
  "identity t = (ticket_id t, run_id t, ticket_limiter_id t, ticket_key t, ticket_units t, sequence t,
     issued_at_ms t, expires_at_ms t)"

definition ticket_evolves :: "ticket \<Rightarrow> ticket \<Rightarrow> bool" where
  "ticket_evolves t t' \<longleftrightarrow>
     identity t' = identity t \<and> lifecycle\<^sup>*\<^sup>* (ticket_state t) (ticket_state t') \<and>
     (ticket_token t \<noteq> None \<longrightarrow> ticket_token t' = ticket_token t) \<and>
     (started_at_ms t \<noteq> None \<longrightarrow> started_at_ms t' = started_at_ms t) \<and>
     state_version t \<le> state_version t' \<and> (terminal (ticket_state t) \<longrightarrow> t' = t)"

lemma ticket_evolves_refl [simp]: "ticket_evolves t t"
  by (simp add: ticket_evolves_def)

lemma ticket_evolves_trans: "ticket_evolves t u \<Longrightarrow> ticket_evolves u v \<Longrightarrow> ticket_evolves t v"
  by (auto simp: ticket_evolves_def)

lemma identityD:
  assumes "identity t' = identity t"
  shows "ticket_id t' = ticket_id t" "ticket_key t' = ticket_key t" "ticket_units t' = ticket_units t"
    "sequence t' = sequence t" "issued_at_ms t' = issued_at_ms t" "expires_at_ms t' = expires_at_ms t"
    "run_id t' = run_id t"
  using assms by (simp_all add: identity_def)

lemma evolves_identity: "ticket_evolves t t' \<Longrightarrow> identity t' = identity t"
  by (simp add: ticket_evolves_def)

section \<open>Invariant\<close>

abbreviation tk :: "admission_queue \<Rightarrow> string \<Rightarrow> ticket option" where
  "tk q \<equiv> map_of (tickets q)"

definition config_ok :: "admission_queue \<Rightarrow> bool" where
  "config_ok q \<longleftrightarrow> good_string (limiter_id q) \<and> pos_range (max_concurrent q) \<and> pos_range (rate_limit q) \<and>
     pos_range (window_ms q) \<and> pos_range (max_pending q) \<and> pos_range (ticket_ttl_ms q) \<and>
     pos_range (max_terminal_tickets q)"

definition issued_number :: "admission_queue \<Rightarrow> string \<Rightarrow> int \<Rightarrow> bool" where
  "issued_number q tid n \<longleftrightarrow> 0 < n \<and> n < next_ticket q \<and> tid = ticket_id_of (limiter_id q) n"

definition entry_ok :: "int \<Rightarrow> admission_queue \<Rightarrow> string \<Rightarrow> ticket \<Rightarrow> bool" where
  "entry_ok T q tid t \<longleftrightarrow>
     ticket_id t = tid \<and> ticket_ok t \<and> (\<exists>n. issued_number q tid n) \<and>
     map_of (request_tickets q) (ticket_key t) = Some tid \<and> sequence t < next_sequence q \<and>
     (\<forall>n. ticket_token t = Some n \<longrightarrow> n < next_admission_token q) \<and>
     issued_at_ms t \<le> T \<and> (\<forall>s. started_at_ms t = Some s \<longrightarrow> s \<le> T) \<and> ticket_units t \<le> rate_limit q"

definition book_ok :: "int \<Rightarrow> admission_queue \<Rightarrow> bool" where
  "book_ok T q \<longleftrightarrow>
     dict_ok (tickets q) \<and> dict_ok (request_tickets q) \<and>
     (\<forall>tid t. tk q tid = Some t \<longrightarrow> entry_ok T q tid t) \<and>
     (\<forall>key tid. map_of (request_tickets q) key = Some tid \<longrightarrow>
        (\<exists>t. tk q tid = Some t \<and> ticket_key t = key)) \<and>
     (\<forall>i j t u n. tk q i = Some t \<longrightarrow> tk q j = Some u \<longrightarrow> ticket_token t = Some n \<longrightarrow>
        ticket_token u = Some n \<longrightarrow> i = j)"

definition seq_before :: "admission_queue \<Rightarrow> string \<Rightarrow> string \<Rightarrow> bool" where
  "seq_before q i j \<longleftrightarrow> (\<forall>t u. tk q i = Some t \<longrightarrow> tk q j = Some u \<longrightarrow> sequence t < sequence u)"

definition sets_ok :: "admission_queue \<Rightarrow> bool" where
  "sets_ok q \<longleftrightarrow>
     distinct (pending_ids q) \<and>
     (\<forall>tid. tid \<in> set (pending_ids q) \<longleftrightarrow> (\<exists>t. tk q tid = Some t \<and> ticket_state t = Queued)) \<and>
     (\<forall>tid. tid \<in> active_ids q \<longleftrightarrow> (\<exists>t. tk q tid = Some t \<and> slot t)) \<and>
     sorted_wrt (seq_before q) (pending_ids q)"

definition limits_ok :: "int \<Rightarrow> admission_queue \<Rightarrow> bool" where
  "limits_ok T q \<longleftrightarrow>
     finite (active_ids q) \<and> int (card (active_ids q)) \<le> max_concurrent q \<and>
     0 \<le> window_used q \<and> window_used q \<le> rate_limit q \<and>
     int (length (pending_ids q)) \<le> max_pending q \<and>
     (\<forall>ws. window_start_ms q = Some ws \<longrightarrow> 0 \<le> ws \<and> ws \<le> T) \<and>
     pos_range (next_ticket q) \<and> pos_range (next_sequence q) \<and> pos_range (next_admission_token q)"

definition adm_inv :: "int \<Rightarrow> admission_queue \<Rightarrow> bool" where
  "adm_inv T q \<longleftrightarrow> config_ok q \<and> book_ok T q \<and> sets_ok q \<and> limits_ok T q"

lemma adm_invD:
  assumes "adm_inv T q"
  shows "config_ok q" "book_ok T q" "sets_ok q" "limits_ok T q"
  using assms by (simp_all add: adm_inv_def)

lemma book_okD:
  assumes "book_ok T q"
  shows "dict_ok (tickets q)" "dict_ok (request_tickets q)"
    "\<And>tid t. tk q tid = Some t \<Longrightarrow> entry_ok T q tid t"
    "\<And>key tid. map_of (request_tickets q) key = Some tid \<Longrightarrow> \<exists>t. tk q tid = Some t \<and> ticket_key t = key"
    "\<And>i j t u n. tk q i = Some t \<Longrightarrow> tk q j = Some u \<Longrightarrow> ticket_token t = Some n \<Longrightarrow>
        ticket_token u = Some n \<Longrightarrow> i = j"
  using assms unfolding book_ok_def by blast+

lemma entry_okD:
  assumes "entry_ok T q tid t"
  shows "ticket_id t = tid" "ticket_ok t" "\<exists>n. issued_number q tid n"
    "map_of (request_tickets q) (ticket_key t) = Some tid" "sequence t < next_sequence q"
    "\<And>n. ticket_token t = Some n \<Longrightarrow> n < next_admission_token q"
    "issued_at_ms t \<le> T" "\<And>s. started_at_ms t = Some s \<Longrightarrow> s \<le> T" "ticket_units t \<le> rate_limit q"
  using assms unfolding entry_ok_def by blast+

lemma ticket_entry: "adm_inv T q \<Longrightarrow> tk q tid = Some t \<Longrightarrow> entry_ok T q tid t"
  using book_okD(3) adm_invD(2) by blast

lemma adm_inv_later: "adm_inv T q \<Longrightarrow> T \<le> T' \<Longrightarrow> adm_inv T' q"
  unfolding adm_inv_def book_ok_def limits_ok_def entry_ok_def by (meson order_trans)

subsection \<open>Replacing one ticket\<close>

text \<open>The queue after a ticket is replaced and the sets follow its new state.\<close>

definition put_ticket :: "ticket \<Rightarrow> int \<Rightarrow> int \<Rightarrow> admission_queue \<Rightarrow> admission_queue" where
  "put_ticket t next_token used q =
     q\<lparr>tickets := dict_set (ticket_id t) t (tickets q),
       pending_ids := (if ticket_state t = Queued then pending_ids q else remove1 (ticket_id t) (pending_ids q)),
       active_ids := (if slot t then insert (ticket_id t) (active_ids q) else active_ids q - {ticket_id t}),
       next_admission_token := next_token, window_used := used\<rparr>"

text \<open>What the replacement has to satisfy; a fresh token is the next one.\<close>

definition replaces :: "int \<Rightarrow> admission_queue \<Rightarrow> ticket \<Rightarrow> ticket \<Rightarrow> int \<Rightarrow> bool" where
  "replaces T q t t' next_token \<longleftrightarrow>
     ticket_evolves t t' \<and> ticket_ok t' \<and> (\<forall>s. started_at_ms t' = Some s \<longrightarrow> s \<le> T) \<and>
     pos_range next_token \<and>
     (ticket_token t' = ticket_token t \<and> next_token = next_admission_token q \<or>
      ticket_token t' = Some (next_admission_token q) \<and> next_token = next_admission_token q + 1)"

lemma put_book:
  assumes "book_ok T q" and t: "tk q (ticket_id t') = Some t" and r: "replaces T q t t' next_token"
  shows "book_ok T (put_ticket t' next_token used q)"
proof -
  note b = book_okD [OF assms(1)]
  have id: "identity t' = identity t" using r by (simp add: replaces_def ticket_evolves_def)
  note same = identityD [OF id]
  have old: "entry_ok T q (ticket_id t') t" by (rule b(3) [OF t])
  have nt: "next_admission_token q \<le> next_token" using r by (auto simp: replaces_def)
  have new: "entry_ok T (put_ticket t' next_token used q) (ticket_id t') t'"
    using old r same nt entry_okD(6) [OF old]
    by (auto simp: entry_ok_def put_ticket_def replaces_def issued_number_def intro: order.strict_trans2)
  have entries: "entry_ok T (put_ticket t' next_token used q) i u"
    if "map_of (tickets q) i = Some u" for i u
    using b(3) [OF that] nt by (auto simp: entry_ok_def put_ticket_def issued_number_def intro: order.strict_trans2)
  have fresh: "n < next_admission_token q" if "tk q i = Some u" "ticket_token u = Some n" for i u n
    using entry_okD(6) [OF b(3) [OF that(1)] that(2)] .
  have uniq: "i = j" if "tk (put_ticket t' next_token used q) i = Some u" "tk (put_ticket t' next_token used q) j = Some v"
      "ticket_token u = Some n" "ticket_token v = Some n" for i j u v n
    using that b(5) [of i _ j _ n] fresh [of i u n] fresh [of j v n] t r
    by (fastforce simp: put_ticket_def replaces_def split: if_splits)
  have keys: "\<exists>t. tk (put_ticket t' next_token used q) tid = Some t \<and> ticket_key t = key"
    if req: "map_of (request_tickets (put_ticket t' next_token used q)) key = Some tid" for key tid
  proof -
    have "map_of (request_tickets q) key = Some tid" using req by (simp add: put_ticket_def)
    then obtain u where "tk q tid = Some u" "ticket_key u = key" using b(4) by blast
    then show ?thesis using t same(2) by (auto simp: put_ticket_def)
  qed
  have all: "entry_ok T (put_ticket t' next_token used q) i u" if "tk (put_ticket t' next_token used q) i = Some u" for i u
    using that new entries by (simp add: put_ticket_def split: if_splits)
  have "dict_ok (tickets (put_ticket t' next_token used q))" "dict_ok (request_tickets (put_ticket t' next_token used q))"
    using b(1,2) by (simp_all add: put_ticket_def)
  then show ?thesis unfolding book_ok_def using all keys uniq by blast
qed

lemma put_sets:
  assumes s: "sets_ok q" and t: "tk q (ticket_id t') = Some t" and e: "ticket_evolves t t'"
  shows "sets_ok (put_ticket t' next_token used q)"
proof -
  let ?q = "put_ticket t' next_token used q" and ?i = "ticket_id t'"
  have seq_eq: "sequence t' = sequence t" by (rule identityD(4) [OF evolves_identity [OF e]])
  have was_queued: "ticket_state t = Queued" if "ticket_state t' = Queued"
    using e that lifecycle_into_queued [of "ticket_state t"] by (simp add: ticket_evolves_def)
  have rel: "seq_before ?q = seq_before q"
    using t seq_eq by (intro ext) (auto simp: seq_before_def put_ticket_def)
  have pend: "pending_ids ?q = (if ticket_state t' = Queued then pending_ids q else filter (\<lambda>x. x \<noteq> ?i) (pending_ids q))"
    using s by (simp add: put_ticket_def sets_ok_def distinct_remove1_removeAll removeAll_filter_not_eq eq_commute [of "ticket_id t'"])
  have sorted: "sorted_wrt (seq_before ?q) (pending_ids ?q)" and dist: "distinct (pending_ids ?q)"
    using s unfolding pend rel by (simp_all add: sets_ok_def sorted_wrt_filter)
  have "tid \<in> set (pending_ids ?q) \<longleftrightarrow> (\<exists>t. tk ?q tid = Some t \<and> ticket_state t = Queued)" for tid
    using s t was_queued unfolding pend by (auto simp: sets_ok_def put_ticket_def)
  moreover have "tid \<in> active_ids ?q \<longleftrightarrow> (\<exists>t. tk ?q tid = Some t \<and> slot t)" for tid
    using s by (auto simp: sets_ok_def put_ticket_def)
  ultimately show ?thesis unfolding sets_ok_def using sorted dist by blast
qed

lemma put_limits:
  assumes l: "limits_ok T q" and r: "replaces T q t t' next_token"
    and room: "ticket_id t' \<notin> active_ids q \<Longrightarrow> slot t' \<Longrightarrow> int (card (active_ids q)) < max_concurrent q"
    and used: "0 \<le> used" "used \<le> rate_limit q"
  shows "limits_ok T (put_ticket t' next_token used q)"
proof -
  have fin: "finite (active_ids q)" and le: "int (card (active_ids q)) \<le> max_concurrent q"
    using l by (simp_all add: limits_ok_def)
  have "card (active_ids q - {ticket_id t'}) \<le> card (active_ids q)"
    using fin by (intro card_mono) auto
  with le have "int (card (active_ids q - {ticket_id t'})) \<le> max_concurrent q" by linarith
  moreover have "int (card (insert (ticket_id t') (active_ids q))) \<le> max_concurrent q" if "slot t'"
    using room that fin le by (cases "ticket_id t' \<in> active_ids q") (simp_all add: insert_absorb)
  moreover have "length (remove1 (ticket_id t') (pending_ids q)) \<le> length (pending_ids q)"
    by (simp add: length_remove1)
  ultimately show ?thesis
    using l r used by (auto simp: limits_ok_def put_ticket_def replaces_def)
qed

lemma put_inv:
  assumes inv: "adm_inv T q" and t: "tk q (ticket_id t') = Some t" and r: "replaces T q t t' next_token"
    and room: "\<not> slot t \<Longrightarrow> slot t' \<Longrightarrow> int (card (active_ids q)) < max_concurrent q"
    and used: "0 \<le> used" "used \<le> rate_limit q"
  shows "adm_inv T (put_ticket t' next_token used q)"
proof -
  note i = adm_invD [OF inv]
  have "ticket_id t' \<in> active_ids q" if "slot t" using i(3) t that by (auto simp: sets_ok_def)
  then have "int (card (active_ids q)) < max_concurrent q" if "ticket_id t' \<notin> active_ids q" "slot t'"
    using room that by blast
  moreover have "config_ok (put_ticket t' next_token used q)" using i(1) by (simp add: config_ok_def put_ticket_def)
  moreover have "ticket_evolves t t'" using r by (simp add: replaces_def)
  ultimately show ?thesis
    unfolding adm_inv_def using put_book [OF i(2) t r] put_sets [OF i(3) t] put_limits [OF i(4) r] used by blast
qed

section \<open>How a queue evolves\<close>

definition config :: "admission_queue \<Rightarrow> string \<times> int \<times> int \<times> int \<times> int \<times> int \<times> int" where
  "config q = (limiter_id q, max_concurrent q, rate_limit q, window_ms q, max_pending q, ticket_ttl_ms q,
     max_terminal_tickets q)"

definition evolves :: "admission_queue \<Rightarrow> admission_queue \<Rightarrow> bool" where
  "evolves q q' \<longleftrightarrow>
     config q' = config q \<and> next_ticket q \<le> next_ticket q' \<and> next_admission_token q \<le> next_admission_token q' \<and>
     (\<forall>tid t t'. tk q tid = Some t \<longrightarrow> tk q' tid = Some t' \<longrightarrow> ticket_evolves t t') \<and>
     (\<forall>tid t'. tk q' tid = Some t' \<longrightarrow> tk q tid = None \<longrightarrow>
        (\<exists>n. next_ticket q \<le> n \<and> tid = ticket_id_of (limiter_id q) n)) \<and>
     (\<forall>tid t' n. tk q' tid = Some t' \<longrightarrow> ticket_token t' = Some n \<longrightarrow>
        (\<exists>t. tk q tid = Some t \<and> ticket_token t = Some n) \<or> next_admission_token q \<le> n)"

lemma evolvesD:
  assumes "evolves q q'"
  shows "config q' = config q" "next_ticket q \<le> next_ticket q'" "next_admission_token q \<le> next_admission_token q'"
    "\<And>tid t t'. tk q tid = Some t \<Longrightarrow> tk q' tid = Some t' \<Longrightarrow> ticket_evolves t t'"
    "\<And>tid t'. tk q' tid = Some t' \<Longrightarrow> tk q tid = None \<Longrightarrow>
        \<exists>n. next_ticket q \<le> n \<and> tid = ticket_id_of (limiter_id q) n"
    "\<And>tid t' n. tk q' tid = Some t' \<Longrightarrow> ticket_token t' = Some n \<Longrightarrow>
        (\<exists>t. tk q tid = Some t \<and> ticket_token t = Some n) \<or> next_admission_token q \<le> n"
  using assms unfolding evolves_def by blast+

lemma configD:
  assumes "config q' = config q"
  shows "limiter_id q' = limiter_id q" "max_concurrent q' = max_concurrent q" "rate_limit q' = rate_limit q"
    "window_ms q' = window_ms q" "max_pending q' = max_pending q" "ticket_ttl_ms q' = ticket_ttl_ms q"
    "max_terminal_tickets q' = max_terminal_tickets q"
  using assms by (simp_all add: config_def)

lemma evolves_refl [simp]: "evolves q q"
  by (auto simp: evolves_def)

lemma ticket_id_inject: "0 \<le> m \<Longrightarrow> 0 \<le> n \<Longrightarrow> ticket_id_of l m = ticket_id_of l n \<longleftrightarrow> m = n"
  by (simp add: ticket_id_of_def fmt_06d_inject)

text \<open>An identifier is never issued twice, so the relation composes.\<close>

lemma evolves_trans:
  assumes inv: "adm_inv T q" and a: "evolves q r" and b: "evolves r s"
  shows "evolves q s"
proof -
  note a' = evolvesD [OF a] and b' = evolvesD [OF b]
  have lim_id: "limiter_id r = limiter_id q" by (rule configD [OF a'(1)])
  have kept: "\<exists>u. tk r tid = Some u" if t: "tk q tid = Some t" and v: "tk s tid = Some v" for tid t v
  proof (rule ccontr)
    assume "\<nexists>u. tk r tid = Some u"
    then have "tk r tid = None" by simp
    then obtain m where m: "next_ticket r \<le> m" "tid = ticket_id_of (limiter_id q) m"
      using b'(5) [OF v] lim_id by auto
    obtain n where n: "0 < n" "n < next_ticket q" "tid = ticket_id_of (limiter_id q) n"
      using entry_okD(3) [OF ticket_entry [OF inv t]] by (auto simp: issued_number_def)
    have "0 \<le> m" "0 \<le> n" using m(1) n(1,2) a'(2) by linarith+
    moreover have "ticket_id_of (limiter_id q) m = ticket_id_of (limiter_id q) n" using m(2) n(3) by simp
    ultimately have "m = n" by (simp add: ticket_id_inject)
    then show False using m n a'(2) by simp
  qed
  show ?thesis
    unfolding evolves_def
  proof (intro conjI allI impI)
    fix tid t v assume t: "tk q tid = Some t" and v: "tk s tid = Some v"
    then obtain u where "tk r tid = Some u" using kept by blast
    then show "ticket_evolves t v" using t v a'(4) b'(4) ticket_evolves_trans by blast
  next
    fix tid v assume v: "tk s tid = Some v" and t: "tk q tid = None"
    show "\<exists>n. next_ticket q \<le> n \<and> tid = ticket_id_of (limiter_id q) n"
    proof (cases "tk r tid")
      case None
      then show ?thesis using b'(5) [OF v] a'(2) lim_id by (metis order_trans)
    next
      case (Some u)
      then show ?thesis using a'(5) t by blast
    qed
  next
    fix tid v n assume v: "tk s tid = Some v" "ticket_token v = Some n"
    from b'(6) [OF v] show "(\<exists>t. tk q tid = Some t \<and> ticket_token t = Some n) \<or> next_admission_token q \<le> n"
      using a'(6) a'(3) by (meson order_trans)
  qed (use a'(1-3) b'(1-3) in simp_all)
qed

lemma put_evolves:
  assumes t: "tk q (ticket_id t') = Some t" and r: "replaces T q t t' next_token"
  shows "evolves q (put_ticket t' next_token used q)"
proof -
  have e: "ticket_evolves t t'" and nt: "next_admission_token q \<le> next_token"
    using r by (auto simp: replaces_def)
  show ?thesis
    unfolding evolves_def using t r e nt
    by (auto simp: put_ticket_def config_def replaces_def split: if_splits)
qed

text \<open>A state later than \<open>q0\<close> in which the invariant holds at time \<open>now\<close>.\<close>

definition later :: "admission_queue \<Rightarrow> int \<Rightarrow> admission_queue \<Rightarrow> bool" where
  "later q0 now q \<longleftrightarrow> adm_inv now q0 \<and> adm_inv now q \<and> evolves q0 q"

lemma later_step: "later q0 now q \<Longrightarrow> adm_inv now q' \<Longrightarrow> evolves q q' \<Longrightarrow> later q0 now q'"
  unfolding later_def using evolves_trans by blast

lemma later_inv: "later q0 now q \<Longrightarrow> adm_inv now q"
  by (simp add: later_def)

lemma later_refl: "adm_inv now q \<Longrightarrow> later q now q"
  by (simp add: later_def)

lemma later_put:
  assumes l: "later q0 now q" and t: "tk q (ticket_id t') = Some t" and r: "replaces now q t t' next_token"
    and room: "\<not> slot t \<Longrightarrow> slot t' \<Longrightarrow> int (card (active_ids q)) < max_concurrent q"
    and used: "0 \<le> used" "used \<le> rate_limit q"
  shows "later q0 now (put_ticket t' next_token used q)"
  by (rule later_step [OF l put_inv [OF later_inv [OF l] t r room used] put_evolves [OF t r]])

section \<open>Operations under the lock\<close>

text \<open>Errors of the language that the bookkeeping must rule out.\<close>

definition internal_error :: "admission_error \<Rightarrow> bool" where
  "internal_error e \<longleftrightarrow> e \<in> {AdmissionDequeValueError, AdmissionAssertionError} \<or> (\<exists>k. e = AdmissionKeyError k)"

abbreviation keeps :: "admission_queue \<Rightarrow> int \<Rightarrow> 'a admission \<Rightarrow> admission_queue \<Rightarrow> bool" where
  "keeps q0 now m q \<equiv> wp m (\<lambda>_. later q0 now) (\<lambda>e q'. later q0 now q' \<and> \<not> internal_error e) q"

lemma internal_simps [simp]:
  "\<not> internal_error AdmissionError" "\<not> internal_error (AdmissionQueueFullError l m)"
  "\<not> internal_error (AdmissionIdempotencyConflictError a b c)" "\<not> internal_error (AdmissionTicketNotFoundError i)"
  "\<not> internal_error (AdmissionStaleFencingTokenError i x y)" "\<not> internal_error (AdmissionTicketStateError i st msg)"
  "\<not> internal_error AdmissionTypeError"
  by (simp_all add: internal_error_def)

lemma increment_iff:
  "increment_admission_counter n = Inr m \<longleftrightarrow> n < MAX_ADMISSION_INTEGER \<and> m = n + 1"
  "increment_admission_counter n = Inl e \<longleftrightarrow> MAX_ADMISSION_INTEGER \<le> n \<and> e = AdmissionError"
  by (auto simp: increment_admission_counter_def)

lemma mk_ticket_error: "mk_ticket t = Inl e \<Longrightarrow> e = AdmissionError \<and> \<not> ticket_ok t"
  by (simp add: mk_ticket_iff split: if_splits)

lemma mk_ticket_result: "mk_ticket t = Inr u \<Longrightarrow> u = t \<and> ticket_ok t"
  by (simp add: mk_ticket_iff split: if_splits)

lemma pending_iff: "adm_inv T q \<Longrightarrow> tid \<in> set (pending_ids q) \<longleftrightarrow> (\<exists>t. tk q tid = Some t \<and> ticket_state t = Queued)"
  using adm_invD(3) by (simp add: sets_ok_def)

lemma active_iff: "adm_inv T q \<Longrightarrow> tid \<in> active_ids q \<longleftrightarrow> (\<exists>t. tk q tid = Some t \<and> slot t)"
  using adm_invD(3) by (simp add: sets_ok_def)

lemma refresh_fields [simp]:
  "tickets (refresh_window now q) = tickets q" "request_tickets (refresh_window now q) = request_tickets q"
  "pending_ids (refresh_window now q) = pending_ids q" "active_ids (refresh_window now q) = active_ids q"
  "next_ticket (refresh_window now q) = next_ticket q" "next_sequence (refresh_window now q) = next_sequence q"
  "next_admission_token (refresh_window now q) = next_admission_token q"
  "config (refresh_window now q) = config q" "window_start_ms (refresh_window now q) \<noteq> None"
  by (simp_all add: refresh_window_def config_def split: option.splits)

lemmas refresh_config [simp] = configD [OF refresh_fields(8)]

lemma refresh_inv: "adm_inv now q \<Longrightarrow> 0 \<le> now \<Longrightarrow> adm_inv now (refresh_window now q)"
  by (auto simp: adm_inv_def config_ok_def book_ok_def entry_ok_def sets_ok_def seq_before_def [abs_def] limits_ok_def
      issued_number_def pos_range_def) (auto simp: refresh_window_def split: if_splits)

lemma refresh_evolves: "evolves q (refresh_window now q)"
  by (auto simp: evolves_def)

lemma later_refresh: "later q0 now q \<Longrightarrow> 0 \<le> now \<Longrightarrow> later q0 now (refresh_window now q)"
  by (rule later_step [OF _ refresh_inv refresh_evolves]) (simp_all add: later_inv)

lemma evict_inv:
  assumes inv: "adm_inv T q"
  shows "adm_inv T (evict_terminal tid q) \<and> evolves q (evict_terminal tid q)"
proof (cases "\<exists>t. tk q tid = Some t \<and> terminal (ticket_state t)")
  case True
  then obtain t where t: "tk q tid = Some t" "terminal (ticket_state t)" by blast
  note i = adm_invD [OF inv] and e = ticket_entry [OF inv]
  note b = book_okD [OF i(2)]
  have key: "map_of (request_tickets q) (ticket_key t) = Some tid" by (rule entry_okD(4) [OF e [OF t(1)]])
  define r where "r = q\<lparr>tickets := dict_pop tid (tickets q), request_tickets := dict_pop (ticket_key t) (request_tickets q)\<rparr>"
  have r: "evict_terminal tid q = r"
    using t key by (simp add: evict_terminal_def r_def ticket_key_def Let_def)
  have get: "tk r i = (if i = tid then None else tk q i)" for i by (simp add: r_def)
  have other: "ticket_key u \<noteq> ticket_key t" if "tk q i = Some u" "i \<noteq> tid" for i u
    using entry_okD(4) [OF e [OF that(1)]] key that(2) by auto
  have entries: "entry_ok T r i u" if "tk q i = Some u" "i \<noteq> tid" for i u
    using e [OF that(1)] other [OF that] by (simp add: entry_ok_def r_def issued_number_def)
  have "book_ok T r"
    unfolding book_ok_def
  proof (intro conjI allI impI)
    fix k i assume "map_of (request_tickets r) k = Some i"
    then have k: "map_of (request_tickets q) k = Some i" "k \<noteq> ticket_key t"
      by (auto simp: r_def split: if_splits)
    obtain u where u: "tk q i = Some u" "ticket_key u = k" using b(4) [OF k(1)] by blast
    then show "\<exists>t. tk r i = Some t \<and> ticket_key t = k" using k(2) t(1) by (auto simp: get)
  next
    fix i j u v n
    assume "tk r i = Some u" "tk r j = Some v" "ticket_token u = Some n" "ticket_token v = Some n"
    then show "i = j" using b(5) [of i u j v n] by (simp add: get split: if_splits)
  next
    fix i u assume "tk r i = Some u"
    then show "entry_ok T r i u" using entries by (simp add: get split: if_splits)
  qed (use b(1,2) in \<open>simp_all add: r_def\<close>)
  moreover have "sets_ok r"
  proof -
    have "tid \<notin> set (pending_ids q)" "tid \<notin> active_ids q"
      using t pending_iff [OF inv, of tid] active_iff [OF inv, of tid] by (auto simp: terminal_def slot_def)
    moreover have "sorted_wrt (seq_before r) (pending_ids q)"
      using i(3) by (auto simp: sets_ok_def seq_before_def get elim!: sorted_wrt_mono_rel [rotated])
    ultimately show ?thesis
      using i(3) by (auto simp: sets_ok_def get, auto simp: r_def)
  qed
  moreover have "config_ok r" "limits_ok T r" using i(1,4) by (simp_all add: config_ok_def limits_ok_def r_def)
  moreover have "evolves q r"
    by (auto simp: evolves_def get, auto simp: r_def config_def)
  ultimately show ?thesis by (simp add: adm_inv_def r)
next
  case False
  then have "evict_terminal tid q = q"
    by (auto simp: evict_terminal_def split: option.splits)
  then show ?thesis using inv by simp
qed

lemma later_evict: "later q0 now q \<Longrightarrow> later q0 now (evict_terminal tid q)"
  using evict_inv later_inv later_step by blast

lemma fold_invariant_all: "(\<And>x s. P s \<Longrightarrow> P (f x s)) \<Longrightarrow> P s \<Longrightarrow> P (fold f xs s)"
  by (induction xs arbitrary: s) auto

lemma later_prune: "later q0 now q \<Longrightarrow> later q0 now (prune_terminal t q)"
  unfolding prune_terminal_def Let_def by (intro fold_invariant_all [where P = "later q0 now"]) (simp_all add: later_evict)

lemma wp_lookup [wp_rules]:
  "wp (lookup_ticket tid) Q E q = (case tk q tid of None \<Rightarrow> E (AdmissionKeyError tid) q | Some t \<Rightarrow> Q t q)"
  by (simp add: lookup_ticket_def wp_rules split: option.splits)

lemma wp_store [wp_rules]: "wp (store_ticket tid t) Q E q = Q () (q\<lparr>tickets := dict_set tid t (tickets q)\<rparr>)"
  by (simp add: store_ticket_def wp_rules)

lemma wp_retry_delay [wp_rules]:
  "wp (retry_delay now) Q E q = (case window_start_ms q of None \<Rightarrow> E AdmissionAssertionError q
     | Some ws \<Rightarrow> Q (max 0 (ws + window_ms q - now)) q)"
  by (simp add: retry_delay_def wp_rules split: option.splits)

lemma retry_in_range:
  assumes "adm_inv now q" and "window_start_ms q = Some ws"
  shows "in_range (max 0 (ws + window_ms q - now))"
  using assms by (auto simp: adm_inv_def limits_ok_def config_ok_def in_range_def pos_range_def)

text \<open>Replacing a queued ticket by a queued one leaves the sets alone.\<close>

lemma put_queued:
  assumes "adm_inv T q" and "tk q (ticket_id t') = Some t" and "ticket_state t = Queued" and "ticket_state t' = Queued"
  shows "put_ticket t' (next_admission_token q) (window_used q) q =
    q\<lparr>tickets := dict_set (ticket_id t') t' (tickets q)\<rparr>"
proof -
  have "ticket_id t' \<notin> active_ids q" using assms by (auto simp: active_iff slot_def)
  then show ?thesis using assms(4) by (simp add: put_ticket_def slot_def)
qed

lemma queued_fields:
  "ticket_ok t \<Longrightarrow> ticket_state t = Queued \<Longrightarrow>
   completed_at_ms t = None \<and> started_at_ms t = None \<and> ticket_token t = None"
  by (simp add: ticket_ok_def terminal_def)

lemma open_fields: "ticket_ok t \<Longrightarrow> \<not> terminal (ticket_state t) \<Longrightarrow> completed_at_ms t = None"
  by (simp add: ticket_ok_def)

lemma reindexed_replaces:
  assumes inv: "adm_inv now q" and t: "tk q tid = Some t" "ticket_state t = Queued"
    and pos: "pos_range position" and retry: "case retry of None \<Rightarrow> True | Some d \<Rightarrow> in_range d"
    and v: "state_version t < MAX_ADMISSION_INTEGER"
  shows "replaces now q t (t\<lparr>state_version := state_version t + 1, queue_position := Some position,
      retry_after_ms := retry\<rparr>) (next_admission_token q)"
proof -
  note e = entry_okD [OF ticket_entry [OF inv t(1)]]
  have "ticket_ok (t\<lparr>state_version := state_version t + 1, queue_position := Some position, retry_after_ms := retry\<rparr>)"
    using e(2) t(2) pos retry v queued_fields [OF e(2) t(2)] by (simp add: ticket_ok_def pos_range_def terminal_def)
  moreover have "pos_range (next_admission_token q)" using adm_invD(4) [OF inv] by (simp add: limits_ok_def)
  ultimately show ?thesis
    using e(2,8) t(2) by (auto simp: replaces_def ticket_evolves_def identity_def ticket_key_def terminal_def)
qed

text \<open>What reindexing leaves alone.\<close>

definition core :: "ticket \<Rightarrow> ticket" where
  "core t = t\<lparr>state_version := 0, queue_position := None, retry_after_ms := None\<rparr>"

definition reindex_frame :: "admission_queue \<Rightarrow> admission_queue \<Rightarrow> bool" where
  "reindex_frame q q' \<longleftrightarrow> (\<exists>ts. q' = q\<lparr>tickets := ts\<rparr> \<and>
     (\<forall>tid. map_option core (map_of ts tid) = map_option core (tk q tid)))"

lemma reindex_frame_refl [simp]: "reindex_frame q q"
  unfolding reindex_frame_def by (rule exI [of _ "tickets q"]) simp

lemma reindex_frame_put:
  assumes "reindex_frame q r" and "tk r tid = Some t" and "core t' = core t"
  shows "reindex_frame q (r\<lparr>tickets := dict_set tid t' (tickets r)\<rparr>)"
proof -
  obtain ts where ts: "r = q\<lparr>tickets := ts\<rparr>" "\<And>i. map_option core (map_of ts i) = map_option core (tk q i)"
    using assms(1) unfolding reindex_frame_def by blast
  have "map_option core (map_of (dict_set tid t' ts) i) = map_option core (tk q i)" for i
    using ts(2) [of i] assms(2,3) ts(1) by auto
  then show ?thesis unfolding reindex_frame_def ts(1) by auto
qed

lemma reindex_step_keeps:
  assumes l: "later q0 now r" and f: "reindex_frame q r" and ws: "window_start_ms r = Some ws"
    and tid: "tid \<in> set (pending_ids r)" and pos: "pos_range position"
  shows "wp (reindex_step now (position, tid) used)
     (\<lambda>_ r'. later q0 now r' \<and> reindex_frame q r' \<and> window_start_ms r' = Some ws \<and> pending_ids r' = pending_ids r)
     (\<lambda>e r'. later q0 now r' \<and> reindex_frame q r' \<and> \<not> internal_error e) r"
proof -
  note inv = later_inv [OF l]
  obtain t where t: "tk r tid = Some t" "ticket_state t = Queued" using tid pending_iff [OF inv] by auto
  have id: "ticket_id t = tid" by (rule entry_okD(1) [OF ticket_entry [OF inv t(1)]])
  let ?r = "max 0 (ws + window_ms r - now)"
  have store: "later q0 now (r\<lparr>tickets := dict_set tid (t\<lparr>state_version := state_version t + 1,
        queue_position := Some position, retry_after_ms := retry\<rparr>) (tickets r)\<rparr>)"
    if "retry = None \<or> retry = Some ?r" "state_version t < MAX_ADMISSION_INTEGER" for retry
  proof -
    let ?t = "t\<lparr>state_version := state_version t + 1, queue_position := Some position, retry_after_ms := retry\<rparr>"
    have rep: "replaces now r t ?t (next_admission_token r)"
      by (rule reindexed_replaces [OF inv t pos _ that(2)]) (use that(1) retry_in_range [OF inv ws] in auto)
    have "later q0 now (put_ticket ?t (next_admission_token r) (window_used r) r)"
      by (rule later_put [OF l _ rep])
        (use t id adm_invD(4) [OF inv] in \<open>auto simp: slot_def limits_ok_def\<close>)
    then show ?thesis using put_queued [OF inv, of ?t t] t id by simp
  qed
  have ok: "ticket_ok (t\<lparr>state_version := state_version t + 1, queue_position := Some position, retry_after_ms := retry\<rparr>)"
    if "retry = None \<or> retry = Some ?r" "state_version t < MAX_ADMISSION_INTEGER" for retry
    using reindexed_replaces [OF inv t pos _ that(2), of retry] that(1) retry_in_range [OF inv ws]
    by (auto simp: replaces_def)
  have fin: "wp (bind_py (if queue_position t \<noteq> Some position \<or> retry_after_ms t \<noteq> retry
        then bind_py (lift_py (increment_admission_counter (state_version t))) (\<lambda>version.
             bind_py (lift_py (mk_ticket (t\<lparr>state_version := version, queue_position := Some position,
                retry_after_ms := retry\<rparr>))) (\<lambda>t'. store_ticket tid t'))
        else return_py ()) (\<lambda>_. return_py (used + ticket_units t)))
     (\<lambda>_ r'. later q0 now r' \<and> reindex_frame q r' \<and> window_start_ms r' = Some ws \<and> pending_ids r' = pending_ids r)
     (\<lambda>e r'. later q0 now r' \<and> reindex_frame q r' \<and> \<not> internal_error e) r"
    if "retry = None \<or> retry = Some ?r" for retry
  proof (cases "state_version t < MAX_ADMISSION_INTEGER")
    case True
    then show ?thesis
      using l f ws ok [OF that True] store [OF that True] reindex_frame_put [OF f t(1)]
      by (simp add: wp_rules mk_ticket_iff increment_admission_counter_def core_def)
  next
    case False
    then show ?thesis using l f ws by (simp add: wp_rules increment_admission_counter_def)
  qed
  show ?thesis
    unfolding reindex_step_def split
    using t ws fin [of None] fin [of "Some ?r"] by (simp add: wp_bind wp_lookup wp_gets wp_retry_delay wp_return)
qed

lemma reindex_frameD:
  assumes "reindex_frame q q'"
  shows "pending_ids q' = pending_ids q" "active_ids q' = active_ids q" "config q' = config q"
    "window_used q' = window_used q" "next_admission_token q' = next_admission_token q"
    "request_tickets q' = request_tickets q" "window_start_ms q' = window_start_ms q"
    "tk q' tid = Some t' \<Longrightarrow> \<exists>t. tk q tid = Some t \<and> core t' = core t"
    "tk q tid = Some t \<Longrightarrow> \<exists>t'. tk q' tid = Some t' \<and> core t' = core t"
proof -
  obtain ts where ts: "q' = q\<lparr>tickets := ts\<rparr>" "\<And>i. map_option core (map_of ts i) = map_option core (tk q i)"
    using assms unfolding reindex_frame_def by blast
  show "\<exists>t. tk q tid = Some t \<and> core t' = core t" if "tk q' tid = Some t'"
    using ts(2) [of tid] that ts(1) by (auto simp: map_option_case split: option.splits)
  show "\<exists>t'. tk q' tid = Some t' \<and> core t' = core t" if "tk q tid = Some t"
    using ts(2) [of tid] that ts(1) by (auto simp: map_option_case split: option.splits)
qed (use assms in \<open>auto simp: reindex_frame_def config_def\<close>)

lemma coreD:
  assumes "core t' = core t"
  shows "ticket_state t' = ticket_state t" "expires_at_ms t' = expires_at_ms t" "identity t' = identity t"
    "ticket_units t' = ticket_units t" "issued_at_ms t' = issued_at_ms t" "ticket_token t' = ticket_token t"
  using assms by (cases t; cases t'; simp add: core_def identity_def ticket_key_def)+

lemma reindex_keeps:
  assumes l: "later q0 now q" and now: "in_range now"
  shows "wp (reindex now) (\<lambda>_ q'. later q0 now q' \<and> reindex_frame (refresh_window now q) q')
     (\<lambda>e q'. later q0 now q' \<and> \<not> internal_error e) q"
proof -
  let ?r = "refresh_window now q"
  have lr: "later q0 now ?r" using later_refresh [OF l] now by (simp add: in_range_def)
  obtain ws where ws: "window_start_ms ?r = Some ws" using refresh_fields(9) by blast
  have len: "int (length (pending_ids q)) \<le> MAX_ADMISSION_INTEGER"
    using later_inv [OF l] by (auto simp: adm_inv_def limits_ok_def config_ok_def pos_range_def)
  let ?I = "\<lambda>ys (_::int) s. later q0 now s \<and> reindex_frame ?r s \<and> window_start_ms s = Some ws \<and>
      pending_ids s = pending_ids q \<and> (\<forall>(p, i)\<in>set ys. pos_range p \<and> i \<in> set (pending_ids q))"
  have loop: "wp (for_acc ys used (reindex_step now)) (?I [])
      (\<lambda>e q'. later q0 now q' \<and> \<not> internal_error e) ?r" if "?I ys used ?r" for ys used
  proof (rule wp_for_acc [where I = ?I, OF _ that])
    fix x ys and c :: int and s assume I: "?I (x # ys) c s"
    obtain p i where x: "x = (p, i)" by force
    show "wp (reindex_step now x c) (?I ys) (\<lambda>e q'. later q0 now q' \<and> \<not> internal_error e) s"
      unfolding x by (rule wp_mono [OF reindex_step_keeps]) (use I x in auto)
  qed
  have pos: "pos_range p \<and> i \<in> set (pending_ids q)"
    if "(p, i) \<in> set (zip (map int [1..<Suc (length (pending_ids q))]) (pending_ids q))" for p i
    using set_zip_leftD [OF that] set_zip_rightD [OF that] len by (auto simp: pos_range_def simp del: upt_Suc)
  have "?I (zip (map int [1..<Suc (length (pending_ids q))]) (pending_ids q)) (window_used ?r) ?r"
    using lr ws pos by (auto simp del: upt_Suc)
  note finished = loop [OF this]
  show ?thesis
    unfolding reindex_def
    by (intro wp_bind_modify wp_bind_gets, simp only: refresh_fields, rule wp_bindI [OF finished])
      (simp add: wp_return)
qed

subsection \<open>Closing tickets\<close>

definition no_overdue :: "int \<Rightarrow> admission_queue \<Rightarrow> bool" where
  "no_overdue now q \<longleftrightarrow> (\<forall>tid t. tk q tid = Some t \<longrightarrow> \<not> terminal (ticket_state t) \<longrightarrow> now < expires_at_ms t)"

lemma evict_subset: "tk (evict_terminal i q) tid = Some t \<Longrightarrow> tk q tid = Some t"
  by (auto simp: evict_terminal_def Let_def split: option.splits if_splits)

lemma prune_subset: "tk (prune_terminal now q) tid = Some t \<Longrightarrow> tk q tid = Some t"
proof -
  have "\<forall>tid t. tk (prune_terminal now q) tid = Some t \<longrightarrow> tk q tid = Some t"
    unfolding prune_terminal_def Let_def
    by (intro fold_invariant_all [where P = "\<lambda>r. \<forall>tid t. tk r tid = Some t \<longrightarrow> tk q tid = Some t"])
      (auto dest: evict_subset)
  then show "tk (prune_terminal now q) tid = Some t \<Longrightarrow> tk q tid = Some t" by blast
qed

lemma no_overdue_prune: "no_overdue now q \<Longrightarrow> no_overdue now (prune_terminal n q)"
  unfolding no_overdue_def using prune_subset by blast

lemma no_overdue_frame: "no_overdue now q \<Longrightarrow> reindex_frame (refresh_window n q) q' \<Longrightarrow> no_overdue now q'"
  unfolding no_overdue_def
proof (intro allI impI)
  fix tid t'
  assume due: "\<forall>tid t. tk q tid = Some t \<longrightarrow> \<not> terminal (ticket_state t) \<longrightarrow> now < expires_at_ms t"
    and frame: "reindex_frame (refresh_window n q) q'" and t': "tk q' tid = Some t'" "\<not> terminal (ticket_state t')"
  obtain t where "tk (refresh_window n q) tid = Some t" "core t' = core t"
    using reindex_frameD(8) [OF frame t'(1)] by blast
  then show "now < expires_at_ms t'" using due t'(2) coreD(1,2) [of t' t] by simp
qed

lemma closed_replaces:
  assumes inv: "adm_inv now q" and t: "tk q tid = Some t" and now: "in_range now"
    and open_t: "\<not> terminal (ticket_state t)" and st: "terminal st" "lifecycle (ticket_state t) st"
    and due: "st = Expired \<longleftrightarrow> expires_at_ms t \<le> now"
    and v: "state_version t < MAX_ADMISSION_INTEGER"
  shows "replaces now q t (t\<lparr>ticket_state := st, state_version := state_version t + 1,
      queue_position := None, retry_after_ms := None, completed_at_ms := Some now\<rparr>) (next_admission_token q)"
proof -
  note e = entry_okD [OF ticket_entry [OF inv t]]
  have st': "st \<noteq> Queued" "st \<noteq> Admitted" "st \<noteq> Running" using st(1) by (auto simp: terminal_def)
  have "ticket_ok (t\<lparr>ticket_state := st, state_version := state_version t + 1,
      queue_position := None, retry_after_ms := None, completed_at_ms := Some now\<rparr>)"
    using e(2,7,8) now v st st' due by (auto simp: ticket_ok_def pos_range_def split: option.splits)
  moreover have "pos_range (next_admission_token q)" using adm_invD(4) [OF inv] by (simp add: limits_ok_def)
  ultimately show ?thesis
    using e(8) st(2) open_t by (auto simp: replaces_def ticket_evolves_def identity_def ticket_key_def)
qed

lemma wp_leave:
  assumes inv: "adm_inv T q" and t: "tk q tid = Some t" "\<not> terminal (ticket_state t)"
  shows "wp (leave_queue tid t) Q E q =
    Q () (q\<lparr>pending_ids := remove1 tid (pending_ids q), active_ids := active_ids q - {tid}\<rparr>)"
proof -
  have mem: "tid \<in> set (pending_ids q) \<longleftrightarrow> ticket_state t = Queued" "tid \<in> active_ids q \<longleftrightarrow> ticket_state t \<noteq> Queued"
    using t pending_iff [OF inv] active_iff [OF inv] by (cases "ticket_state t"; auto simp: slot_def terminal_def)+
  show ?thesis
  proof (cases "ticket_state t = Queued")
    case True
    then have "q\<lparr>pending_ids := p, active_ids := active_ids q - {tid}\<rparr> = q\<lparr>pending_ids := p\<rparr>" for p
      using mem by simp
    with True mem show ?thesis by (simp add: leave_queue_def pending_remove_def wp_rules)
  next
    case False
    then have "remove1 tid (pending_ids q) = pending_ids q" using mem by (simp add: remove1_idem)
    with False show ?thesis by (simp add: leave_queue_def wp_rules)
  qed
qed

lemma later_close:
  assumes l: "later q0 now q" and t: "tk q tid = Some t" and now: "in_range now"
    and open_t: "\<not> terminal (ticket_state t)" and st: "terminal st" "lifecycle (ticket_state t) st"
    and due: "st = Expired \<longleftrightarrow> expires_at_ms t \<le> now" and v: "state_version t < MAX_ADMISSION_INTEGER"
  shows "later q0 now (q\<lparr>pending_ids := remove1 tid (pending_ids q), active_ids := active_ids q - {tid},
     tickets := dict_set tid (t\<lparr>ticket_state := st, state_version := state_version t + 1,
       queue_position := None, retry_after_ms := None, completed_at_ms := Some now\<rparr>) (tickets q)\<rparr>)"
proof -
  let ?t = "t\<lparr>ticket_state := st, state_version := state_version t + 1,
       queue_position := None, retry_after_ms := None, completed_at_ms := Some now\<rparr>"
  note inv = later_inv [OF l]
  have id: "ticket_id t = tid" by (rule entry_okD(1) [OF ticket_entry [OF inv t]])
  have st': "st \<noteq> Queued" "\<not> slot ?t" using st(1) by (auto simp: terminal_def slot_def)
  have "later q0 now (put_ticket ?t (next_admission_token q) (window_used q) q)"
    by (rule later_put [OF l _ closed_replaces [OF inv t now open_t st due v]])
      (use t id st' adm_invD(4) [OF inv] in \<open>auto simp: limits_ok_def\<close>)
  moreover have "put_ticket ?t (next_admission_token q) (window_used q) q =
      q\<lparr>pending_ids := remove1 tid (pending_ids q), active_ids := active_ids q - {tid},
        tickets := dict_set tid ?t (tickets q)\<rparr>"
    using st' id by (simp add: put_ticket_def)
  ultimately show ?thesis by simp
qed

lemma closed_ok:
  assumes "later q0 now q" and "tk q tid = Some t" and "in_range now"
    and "\<not> terminal (ticket_state t)" and "terminal st" "lifecycle (ticket_state t) st"
    and "st = Expired \<longleftrightarrow> expires_at_ms t \<le> now" and "state_version t < MAX_ADMISSION_INTEGER"
  shows "ticket_ok (t\<lparr>ticket_state := st, state_version := state_version t + 1,
       queue_position := None, retry_after_ms := None, completed_at_ms := Some now\<rparr>)"
  using closed_replaces [OF later_inv [OF assms(1)] assms(2-)] by (simp add: replaces_def)

end
