(* ===== verification/Admission_Ops.thy ===== *)
theory Admission_Ops
  imports Admission_Inv
begin

text \<open>
  Every public method of the admission queue keeps the invariant, and the queue as an
  instance of the machine contracts of the prelude.
\<close>

section \<open>Expiry\<close>

lemma wp_bind_leave:
  assumes "later q0 now q" and "tk q tid = Some t" "\<not> terminal (ticket_state t)"
    and "wp (f ()) Q E (q\<lparr>pending_ids := remove1 tid (pending_ids q), active_ids := active_ids q - {tid}\<rparr>)"
  shows "wp (bind_py (leave_queue tid t) f) Q E q"
  using assms wp_leave [OF later_inv [OF assms(1)] assms(2,3)] by (simp add: wp_bind)

lemma wp_bind_reindex:
  assumes "later q0 now q" and "in_range now"
    and "\<And>q'. later q0 now q' \<Longrightarrow> reindex_frame (refresh_window now q) q' \<Longrightarrow> wp (f ()) Q E q'"
    and "\<And>e q'. later q0 now q' \<Longrightarrow> \<not> internal_error e \<Longrightarrow> E e q'"
  shows "wp (bind_py (reindex now) f) Q E q"
  unfolding wp_bind by (rule wp_mono [OF reindex_keeps [OF assms(1,2)]]) (use assms(3,4) in auto)

lemma expire_step_keeps:
  assumes l: "later q0 now s" and t: "tk s tid = Some t" and now: "in_range now"
  shows "wp (expire_step now (tid, t) acc)
    (\<lambda>_ s'. later q0 now s' \<and> (\<forall>i. i \<noteq> tid \<longrightarrow> tk s' i = tk s i) \<and>
       (\<forall>t'. tk s' tid = Some t' \<longrightarrow> terminal (ticket_state t') \<or> now < expires_at_ms t'))
    (\<lambda>e s'. later q0 now s' \<and> \<not> internal_error e) s"
proof (cases "ticket_state t \<notin> {Queued, Admitted, Running} \<or> now < expires_at_ms t")
  case True
  then show ?thesis using l t by (cases "ticket_state t") (auto simp: expire_step_def wp_rules terminal_def)
next
  case False
  then have st: "\<not> terminal (ticket_state t)" "lifecycle (ticket_state t) Expired" "expires_at_ms t \<le> now"
    by (auto simp: terminal_def intro: lifecycle.abandon)
  show ?thesis
  proof (cases "state_version t < MAX_ADMISSION_INTEGER")
    case True
    have close: "terminal Expired" "Expired = Expired \<longleftrightarrow> expires_at_ms t \<le> now"
      using st by (simp_all add: terminal_def)
    note ok = closed_ok [OF l t now st(1) close(1) st(2) close(2) True]
    note cl = later_close [OF l t now st(1) close(1) st(2) close(2) True]
    show ?thesis
      unfolding expire_step_def split
      using False True ok cl
      by (auto simp: wp_rules increment_admission_counter_def mk_ticket_iff wp_leave [OF later_inv [OF l] t st(1)] close(1))
  next
    case False': False
    then show ?thesis
      using False l by (auto simp: expire_step_def wp_rules increment_admission_counter_def)
  qed
qed

lemma expire_loop_keeps:
  assumes l: "later q0 now q" and now: "in_range now"
  shows "wp (for_acc (tickets q) [] (expire_step now)) (\<lambda>_ s. later q0 now s \<and> no_overdue now s)
     (\<lambda>e q'. later q0 now q' \<and> \<not> internal_error e) q"
proof -
  have d: "dict_ok (tickets q)" using later_inv [OF l] by (auto simp: adm_inv_def book_ok_def)
  let ?I = "\<lambda>ys (_::ticket list) s. later q0 now s \<and> distinct (map fst ys) \<and> (\<forall>(i, t)\<in>set ys. tk s i = Some t) \<and>
     (\<forall>i t. tk s i = Some t \<longrightarrow> i \<notin> fst ` set ys \<longrightarrow> terminal (ticket_state t) \<or> now < expires_at_ms t)"
  have init: "?I (tickets q) [] q"
    using l d map_of_SomeD [of "tickets q"] by (force simp: dict_ok_def)
  have loop: "wp (for_acc (tickets q) [] (expire_step now)) (?I []) (\<lambda>e q'. later q0 now q' \<and> \<not> internal_error e) q"
  proof (rule wp_for_acc [where I = ?I])
    fix x ys and acc :: "ticket list" and s assume I: "?I (x # ys) acc s"
    obtain tid t where x: "x = (tid, t)" by force
    show "wp (expire_step now x acc) (?I ys) (\<lambda>e q'. later q0 now q' \<and> \<not> internal_error e) s"
      unfolding x
    proof (rule wp_mono [OF expire_step_keeps [OF _ _ now]])
      fix acc' s' assume s': "later q0 now s' \<and> (\<forall>i. i \<noteq> tid \<longrightarrow> tk s' i = tk s i) \<and>
       (\<forall>t'. tk s' tid = Some t' \<longrightarrow> terminal (ticket_state t') \<or> now < expires_at_ms t')"
      have "tid \<notin> fst ` set ys" using I x by auto
      then have "\<forall>(i, t)\<in>set ys. tk s' i = Some t" using I x s' by (force simp: image_iff)
      moreover have "terminal (ticket_state u) \<or> now < expires_at_ms u"
        if "tk s' i = Some u" "i \<notin> fst ` set ys" for i u
        using that s' I x by (cases "i = tid") auto
      ultimately show "?I ys acc' s'" using s' I by auto
    qed (use I x in auto)
  qed (use init in simp)
  show ?thesis by (rule wp_mono [OF loop]) (auto simp: no_overdue_def)
qed

lemma expire_keeps:
  assumes l: "later q0 now q" and now: "in_range now"
  shows "wp (expire_locked now) (\<lambda>_ q'. later q0 now q' \<and> no_overdue now q')
     (\<lambda>e q'. later q0 now q' \<and> \<not> internal_error e) q"
  unfolding expire_locked_def
  by (rule wp_bind_gets, rule wp_bindI [OF expire_loop_keeps [OF l now]], rule wp_bind_reindex [OF _ now])
    (auto simp: wp_rules later_prune no_overdue_prune no_overdue_frame)

lemma wp_bind_expire:
  assumes "later q0 now q" and "in_range now"
    and "\<And>x q'. later q0 now q' \<Longrightarrow> no_overdue now q' \<Longrightarrow> wp (f x) Q E q'"
    and "\<And>e q'. later q0 now q' \<Longrightarrow> \<not> internal_error e \<Longrightarrow> E e q'"
  shows "wp (bind_py (expire_locked now) f) Q E q"
  unfolding wp_bind by (rule wp_mono [OF expire_keeps [OF assms(1,2)]]) (use assms(3,4) in auto)

section \<open>Promotion\<close>

lemma promoted_replaces:
  assumes inv: "adm_inv now q" and t: "tk q tid = Some t" "ticket_state t = Queued"
    and v: "state_version t < MAX_ADMISSION_INTEGER" and n: "next_admission_token q < MAX_ADMISSION_INTEGER"
  shows "replaces now q t (admitted_ticket t (state_version t + 1) (next_admission_token q)) (next_admission_token q + 1)"
proof -
  note e = entry_okD [OF ticket_entry [OF inv t(1)]]
  note f = queued_fields [OF e(2) t(2)]
  have p: "pos_range (next_admission_token q)" using adm_invD(4) [OF inv] by (simp add: limits_ok_def)
  have "ticket_ok (admitted_ticket t (state_version t + 1) (next_admission_token q))"
    using e(2) t(2) f v p by (simp add: ticket_ok_def pos_range_def terminal_def admitted_ticket_def)
  then show ?thesis
    using f t(2) p n
    by (auto simp: replaces_def ticket_evolves_def identity_def ticket_key_def terminal_def admitted_ticket_def
        pos_range_def intro: lifecycle.admit)
qed

text \<open>One iteration of the loop that admits the head of the queue.\<close>

definition admit_head :: "string \<Rightarrow> string list \<Rightarrow> ticket \<Rightarrow> admission_queue \<Rightarrow> admission_queue" where
  "admit_head tid rest t q =
     (let t' = admitted_ticket t (state_version t + 1) (next_admission_token q) in
      q\<lparr>pending_ids := rest, next_admission_token := next_admission_token q + 1,
        tickets := dict_set tid t' (tickets q), active_ids := insert tid (active_ids q),
        window_used := window_used q + ticket_units t\<rparr>)"

definition admissible :: "int \<Rightarrow> ticket \<Rightarrow> admission_queue \<Rightarrow> bool" where
  "admissible now t q \<longleftrightarrow> int (card (active_ids q)) < max_concurrent q \<and> issued_at_ms t \<le> now \<and>
     window_used q + ticket_units t \<le> rate_limit q"

lemma later_admit_head:
  assumes l: "later q0 now q" and p: "pending_ids q = tid # rest" and t: "tk q tid = Some t"
    and a: "admissible now t q"
    and v: "state_version t < MAX_ADMISSION_INTEGER" and n: "next_admission_token q < MAX_ADMISSION_INTEGER"
  shows "later q0 now (admit_head tid rest t q)"
proof -
  note inv = later_inv [OF l]
  let ?t = "admitted_ticket t (state_version t + 1) (next_admission_token q)"
  have st: "ticket_state t = Queued" using pending_iff [OF inv, of tid] p t by auto
  note e = entry_okD [OF ticket_entry [OF inv t]]
  have id: "ticket_id ?t = tid" "slot ?t" "ticket_state ?t \<noteq> Queued"
    using e(1) by (simp_all add: admitted_ticket_def slot_def)
  have u: "0 < ticket_units t" using e(2) by (simp add: ticket_ok_def pos_range_def)
  have w: "0 \<le> window_used q" using adm_invD(4) [OF inv] by (simp add: limits_ok_def)
  have "later q0 now (put_ticket ?t (next_admission_token q + 1) (window_used q + ticket_units t) q)"
    by (rule later_put [OF l _ promoted_replaces [OF inv t st v n]])
      (use id t a u w in \<open>auto simp: admissible_def\<close>)
  moreover have "put_ticket ?t (next_admission_token q + 1) (window_used q + ticket_units t) q = admit_head tid rest t q"
    using id p by (simp add: put_ticket_def admit_head_def Let_def)
  ultimately show ?thesis by simp
qed

text \<open>The loop, one equation per way an iteration can go, for queues in which the invariant holds.\<close>

lemma promote_loop_cases:
  assumes inv: "adm_inv now q"
  shows "promote_loop now acc q =
    (case pending_ids q of
       [] \<Rightarrow> (Inr acc, q)
     | tid # rest \<Rightarrow>
         let t = the (tk q tid) in
         if \<not> admissible now t q then (Inr acc, q)
         else if MAX_ADMISSION_INTEGER \<le> state_version t \<or> MAX_ADMISSION_INTEGER \<le> next_admission_token q
         then (Inl AdmissionError, q)
         else promote_loop now (acc @ [admitted_ticket t (state_version t + 1) (next_admission_token q)])
                (admit_head tid rest t q))"
proof (cases "pending_ids q")
  case (Cons tid rest)
  then obtain t where t: "tk q tid = Some t" "ticket_state t = Queued" using pending_iff [OF inv, of tid] by auto
  have ok: "ticket_ok (admitted_ticket t (state_version t + 1) (next_admission_token q))"
    if "state_version t < MAX_ADMISSION_INTEGER" "next_admission_token q < MAX_ADMISSION_INTEGER"
    using promoted_replaces [OF inv t that] by (simp add: replaces_def)
  show ?thesis
    using Cons t ok
    by (simp add: promote_loop.simps [of now acc q] increment_admission_counter_def mk_ticket_iff admissible_def
        admit_head_def Let_def not_less not_le)
qed (simp add: promote_loop.simps [of now acc q])

lemma promote_loop_keeps:
  "later q0 now q \<Longrightarrow> keeps q0 now (promote_loop now acc) q"
proof (induction "length (pending_ids q)" arbitrary: q acc rule: less_induct)
  case less
  note inv = later_inv [OF less.prems]
  show ?case
  proof (cases "pending_ids q")
    case Nil
    then show ?thesis using less.prems by (simp add: wp_def promote_loop_cases [OF inv])
  next
    case (Cons tid rest)
    then obtain t where t: "tk q tid = Some t" using pending_iff [OF inv, of tid] by auto
    let ?q = "admit_head tid rest t q"
    have len: "length (pending_ids ?q) < length (pending_ids q)" using Cons by (simp add: admit_head_def Let_def)
    consider "\<not> admissible now t q"
      | "admissible now t q" "MAX_ADMISSION_INTEGER \<le> state_version t \<or> MAX_ADMISSION_INTEGER \<le> next_admission_token q"
      | "admissible now t q" "state_version t < MAX_ADMISSION_INTEGER" "next_admission_token q < MAX_ADMISSION_INTEGER"
      by linarith
    then show ?thesis
    proof cases
      case 3
      then have step: "promote_loop now acc q =
          promote_loop now (acc @ [admitted_ticket t (state_version t + 1) (next_admission_token q)]) ?q"
        using Cons t by (simp add: promote_loop_cases [OF inv, of acc])
      show ?thesis
        using less.hyps [OF len later_admit_head [OF less.prems Cons t 3]] unfolding wp_def step .
    qed (use less.prems Cons t in \<open>auto simp: wp_def promote_loop_cases [OF inv, of acc]\<close>)
  qed
qed

lemma promote_keeps:
  assumes l: "later q0 now q" and now: "in_range now"
  shows "keeps q0 now (promote_locked now) q"
  unfolding promote_locked_def
proof (rule wp_bind_modify, rule wp_bindI [OF promote_loop_keeps])
  show "later q0 now (refresh_window now q)" using later_refresh [OF l] now by (simp add: in_range_def)
  fix acc q' assume "later q0 now q'"
  then show "keeps q0 now (bind_py (reindex now) (\<lambda>_. return_py acc)) q'"
    by (rule wp_bind_reindex [OF _ now]) (auto simp: wp_return)
qed

lemma wp_bind_promote:
  assumes "later q0 now q" and "in_range now"
    and "\<And>x q'. later q0 now q' \<Longrightarrow> wp (f x) Q E q'"
    and "\<And>e q'. later q0 now q' \<Longrightarrow> \<not> internal_error e \<Longrightarrow> E e q'"
  shows "wp (bind_py (promote_locked now) f) Q E q"
  unfolding wp_bind by (rule wp_mono [OF promote_keeps [OF assms(1,2)]]) (use assms(3,4) in auto)

section \<open>New tickets\<close>

text \<open>The queue after a fresh ticket is entered.\<close>

definition enter_ticket :: "ticket \<Rightarrow> int \<Rightarrow> int \<Rightarrow> admission_queue \<Rightarrow> admission_queue" where
  "enter_ticket t next_token used q =
     q\<lparr>tickets := dict_set (ticket_id t) t (tickets q),
       request_tickets := dict_set (ticket_key t) (ticket_id t) (request_tickets q),
       pending_ids := (if ticket_state t = Queued then pending_ids q @ [ticket_id t] else pending_ids q),
       active_ids := (if ticket_state t = Queued then active_ids q else insert (ticket_id t) (active_ids q)),
       window_used := used, next_ticket := next_ticket q + 1, next_sequence := next_sequence q + 1,
       next_admission_token := next_token\<rparr>"

definition enters :: "int \<Rightarrow> admission_queue \<Rightarrow> ticket \<Rightarrow> int \<Rightarrow> bool" where
  "enters T q t next_token \<longleftrightarrow>
     ticket_ok t \<and> ticket_id t = ticket_id_of (limiter_id q) (next_ticket q) \<and> sequence t = next_sequence q \<and>
     issued_at_ms t \<le> T \<and> ticket_units t \<le> rate_limit q \<and>
     map_of (request_tickets q) (ticket_key t) = None \<and>
     next_ticket q < MAX_ADMISSION_INTEGER \<and> next_sequence q < MAX_ADMISSION_INTEGER \<and> pos_range next_token \<and>
     (ticket_state t = Queued \<and> next_token = next_admission_token q \<or>
      ticket_state t = Admitted \<and> ticket_token t = Some (next_admission_token q) \<and>
      next_token = next_admission_token q + 1)"

lemma fresh_id:
  assumes "adm_inv T q"
  shows "tk q (ticket_id_of (limiter_id q) (next_ticket q)) = None"
proof (rule ccontr)
  assume "tk q (ticket_id_of (limiter_id q) (next_ticket q)) \<noteq> None"
  then obtain t where "tk q (ticket_id_of (limiter_id q) (next_ticket q)) = Some t" by auto
  then obtain n where n: "0 < n" "n < next_ticket q"
    "ticket_id_of (limiter_id q) (next_ticket q) = ticket_id_of (limiter_id q) n"
    using entry_okD(3) [OF ticket_entry [OF assms]] by (auto simp: issued_number_def)
  then show False using ticket_id_inject [of "next_ticket q" n "limiter_id q"] by simp
qed

lemma enter_started:
  "enters T q t next_token \<Longrightarrow> started_at_ms t = None"
  by (auto simp: enters_def ticket_ok_def)

lemma enter_book:
  assumes inv: "adm_inv T q" and e: "enters T q t next_token"
  shows "book_ok T (enter_ticket t next_token used q)"
proof -
  let ?q = "enter_ticket t next_token used q" and ?i = "ticket_id t"
  note b = book_okD [OF adm_invD(2) [OF inv]]
  have fresh: "tk q ?i = None" using fresh_id [OF inv] e by (simp add: enters_def)
  have pos: "0 < next_ticket q" using adm_invD(4) [OF inv] by (simp add: limits_ok_def pos_range_def)
  have get: "tk ?q j = (if j = ?i then Some t else tk q j)" for j by (simp add: enter_ticket_def)
  have new: "entry_ok T ?q ?i t"
    unfolding entry_ok_def
  proof (intro conjI)
    have "issued_number ?q ?i (next_ticket q)" using e pos by (simp add: issued_number_def enter_ticket_def enters_def)
    then show "\<exists>n. issued_number ?q ?i n" ..
    show "\<forall>n. ticket_token t = Some n \<longrightarrow> n < next_admission_token ?q"
      using e by (auto simp: enters_def enter_ticket_def ticket_ok_def)
  qed (use e enter_started [OF e] in \<open>simp_all add: enters_def enter_ticket_def\<close>)
  have old: "entry_ok T ?q j u" if "tk q j = Some u" for j u
    unfolding entry_ok_def
  proof (intro conjI)
    note o = entry_okD [OF b(3) [OF that]]
    have nt: "next_admission_token q \<le> next_token" using e by (auto simp: enters_def)
    show "\<exists>n. issued_number ?q j n"
      using o(3) by (auto simp: issued_number_def enter_ticket_def intro: less_trans)
    have "ticket_key u \<noteq> ticket_key t" using o(4) e by (auto simp: enters_def)
    then show "map_of (request_tickets ?q) (ticket_key u) = Some j" using o(4) by (simp add: enter_ticket_def)
    show "\<forall>n. ticket_token u = Some n \<longrightarrow> n < next_admission_token ?q"
      using o(6) nt by (force simp: enter_ticket_def)
  qed (use entry_okD [OF b(3) [OF that]] in \<open>simp_all add: enter_ticket_def\<close>)
  show ?thesis
    unfolding book_ok_def
  proof (intro conjI allI impI)
    fix key i assume k: "map_of (request_tickets ?q) key = Some i"
    show "\<exists>u. tk ?q i = Some u \<and> ticket_key u = key"
    proof (cases "key = ticket_key t")
      case True
      then show ?thesis using k get by (simp add: enter_ticket_def)
    next
      case False
      then obtain u where "tk q i = Some u" "ticket_key u = key" using k b(4) [of key i] by (auto simp: enter_ticket_def)
      then show ?thesis using fresh get by auto
    qed
  next
    fix i j u v n
    assume uv: "tk ?q i = Some u" "tk ?q j = Some v" "ticket_token u = Some n" "ticket_token v = Some n"
    have "m < next_admission_token q" if "tk q k = Some w" "ticket_token w = Some m" for k w m
      using entry_okD(6) [OF b(3) [OF that(1)] that(2)] .
    moreover have "ticket_token t = None \<or> ticket_token t = Some (next_admission_token q)"
      using e by (auto simp: enters_def ticket_ok_def)
    ultimately show "i = j" using uv b(5) [of i u j v n] by (fastforce simp: get split: if_splits)
  qed (use b(1,2) new old get in \<open>auto simp: enter_ticket_def split: if_splits\<close>)
qed

lemma enter_sets:
  assumes inv: "adm_inv T q" and e: "enters T q t next_token"
  shows "sets_ok (enter_ticket t next_token used q)"
proof -
  let ?q = "enter_ticket t next_token used q" and ?i = "ticket_id t"
  note s = adm_invD(3) [OF inv]
  have fresh: "tk q ?i = None" using fresh_id [OF inv] e by (simp add: enters_def)
  have get: "tk ?q j = (if j = ?i then Some t else tk q j)" for j by (simp add: enter_ticket_def)
  have st: "ticket_state t = Queued \<or> ticket_state t = Admitted" using e by (auto simp: enters_def)
  have ni: "?i \<notin> set (pending_ids q)" "?i \<notin> active_ids q"
    using fresh pending_iff [OF inv] active_iff [OF inv] by auto
  have before: "seq_before ?q j k" if "seq_before q j k" "j \<noteq> ?i" "k \<noteq> ?i" for j k
    using that by (simp add: seq_before_def get)
  have last: "seq_before ?q j ?i" if "j \<in> set (pending_ids q)" for j
  proof -
    have "sequence u < sequence t" if "tk q j = Some u" for u
      using entry_okD(5) [OF ticket_entry [OF inv that]] e by (simp add: enters_def)
    then show ?thesis using that ni by (auto simp: seq_before_def get)
  qed
  have "sorted_wrt (seq_before ?q) (pending_ids q)"
    using s ni by (auto simp: sets_ok_def intro!: before elim!: sorted_wrt_mono_rel [rotated])
  then have "sorted_wrt (seq_before ?q) (pending_ids ?q)"
    using last by (auto simp: enter_ticket_def sorted_wrt_append)
  moreover have "distinct (pending_ids ?q)" using s ni by (simp add: sets_ok_def enter_ticket_def)
  moreover have "i \<in> set (pending_ids ?q) \<longleftrightarrow> (\<exists>t. tk ?q i = Some t \<and> ticket_state t = Queued)" for i
    using s ni st by (auto simp: sets_ok_def get) (auto simp: enter_ticket_def)
  moreover have "i \<in> active_ids ?q \<longleftrightarrow> (\<exists>t. tk ?q i = Some t \<and> slot t)" for i
    using s ni st by (auto simp: sets_ok_def get slot_def) (auto simp: enter_ticket_def)
  ultimately show ?thesis unfolding sets_ok_def by blast
qed

lemma enter_inv:
  assumes inv: "adm_inv T q" and e: "enters T q t next_token"
    and room: "ticket_state t = Queued \<Longrightarrow> int (length (pending_ids q)) < max_pending q"
      "ticket_state t \<noteq> Queued \<Longrightarrow> int (card (active_ids q)) < max_concurrent q"
    and used: "0 \<le> used" "used \<le> rate_limit q"
  shows "adm_inv T (enter_ticket t next_token used q)" and "evolves q (enter_ticket t next_token used q)"
proof -
  note l = adm_invD(4) [OF inv]
  have "card (insert (ticket_id t) (active_ids q)) \<le> Suc (card (active_ids q))"
    by (rule card_insert_le_m1) simp_all
  with room(2) have "ticket_state t \<noteq> Queued \<Longrightarrow> int (card (insert (ticket_id t) (active_ids q))) \<le> max_concurrent q"
    by fastforce
  then have "limits_ok T (enter_ticket t next_token used q)"
    using l room(1) used e by (auto simp: limits_ok_def enter_ticket_def enters_def pos_range_def)
  moreover have "config_ok (enter_ticket t next_token used q)"
    using adm_invD(1) [OF inv] by (simp add: config_ok_def enter_ticket_def)
  ultimately show "adm_inv T (enter_ticket t next_token used q)"
    unfolding adm_inv_def using enter_book [OF inv e] enter_sets [OF inv e] by blast
  have fresh: "tk q (ticket_id t) = None" using fresh_id [OF inv] e by (simp add: enters_def)
  have tok: "ticket_token t = Some n \<Longrightarrow> next_admission_token q \<le> n" for n
    using e by (auto simp: enters_def ticket_ok_def)
  show "evolves q (enter_ticket t next_token used q)"
    unfolding evolves_def using fresh tok e
    by (auto simp: enter_ticket_def enters_def config_def split: if_splits)
qed

lemma later_enter:
  assumes "later q0 now q" and "enters now q t next_token"
    and "ticket_state t = Queued \<Longrightarrow> int (length (pending_ids q)) < max_pending q"
      "ticket_state t \<noteq> Queued \<Longrightarrow> int (card (active_ids q)) < max_concurrent q"
    and "0 \<le> used" "used \<le> rate_limit q"
  shows "later q0 now (enter_ticket t next_token used q)"
  using enter_inv [OF later_inv [OF assms(1)] assms(2-)] later_step [OF assms(1)] by blast

lemma ticket_id_good:
  assumes l: "good_string l" and n: "0 \<le> n"
  shows "good_string (ticket_id_of l n)"
proof -
  have l': "l \<noteq> []" "py_strip l = l" "\<not> has_control l"
    using l by (auto simp: good_string_def py_strip_def split: if_splits)
  have d: "is_ascii_decimal (fmt_06d n)" by (rule fmt_06d_decimal [OF n])
  then have dig: "fmt_06d n \<noteq> []" "\<And>c. c \<in> set (fmt_06d n) \<Longrightarrow> is_digit c"
    by (auto simp: is_ascii_decimal_def list_all_iff)
  then have ctl: "\<not> has_control (fmt_06d n)" by (force simp: has_control_def is_digit_def)
  have "py_strip (ticket_id_of l n) = ticket_id_of l n"
    by (rule strip_id)
      (use l' dig strip_hd [OF l'(2)] in \<open>auto simp: ticket_id_of_def hd_append digit_not_space\<close>)
  moreover have "\<not> has_control (ticket_id_of l n)"
    using l'(3) ctl by (auto simp: ticket_id_of_def has_control_def)
  ultimately show ?thesis using l' by (simp add: good_string_def ticket_id_of_def)
qed

text \<open>The validated arguments of a submission.\<close>

definition good_request :: "admission_queue \<Rightarrow> string \<Rightarrow> string \<Rightarrow> string \<Rightarrow> string option \<Rightarrow> int \<Rightarrow> int \<Rightarrow> bool" where
  "good_request q run req own ten now un \<longleftrightarrow>
     good_string run \<and> good_string req \<and> good_string own \<and> (case ten of None \<Rightarrow> True | Some s \<Rightarrow> good_string s) \<and>
     in_range now \<and> pos_range un \<and> un \<le> rate_limit q \<and> now \<le> MAX_ADMISSION_INTEGER - ticket_ttl_ms q"

lemma new_ticket_enters:
  assumes inv: "adm_inv now q" and g: "good_request q run req own ten now un"
    and req: "map_of (request_tickets q) (ten, own, req) = None"
    and n: "next_ticket q < MAX_ADMISSION_INTEGER" "next_sequence q < MAX_ADMISSION_INTEGER"
    and tok: "can \<Longrightarrow> next_admission_token q < MAX_ADMISSION_INTEGER"
    and retry: "can \<Longrightarrow> retry = None" "case retry of None \<Rightarrow> True | Some d \<Rightarrow> in_range d"
    and room: "\<not> can \<Longrightarrow> int (length (pending_ids q)) < max_pending q"
  shows "enters now q (new_ticket q can run req own ten now un retry)
    (if can then next_admission_token q + 1 else next_admission_token q)"
proof -
  let ?t = "new_ticket q can run req own ten now un retry"
  note l = adm_invD(4) [OF inv] and c = adm_invD(1) [OF inv]
  have "good_string (ticket_id_of (limiter_id q) (next_ticket q))"
    by (rule ticket_id_good) (use l c in \<open>auto simp: limits_ok_def config_ok_def pos_range_def\<close>)
  then have "ticket_ok ?t"
    using l c g retry room
    by (cases can) (auto simp: ticket_ok_def new_ticket_def good_request_def limits_ok_def config_ok_def
        pos_range_def in_range_def terminal_def split: option.splits)
  then show ?thesis
    using l g req n tok
    by (cases can) (auto simp: enters_def new_ticket_def ticket_key_def good_request_def limits_ok_def pos_range_def)
qed

lemma prune_requests: "map_of (request_tickets q) k = None \<Longrightarrow> map_of (request_tickets (prune_terminal now q)) k = None"
  unfolding prune_terminal_def Let_def
  by (intro fold_invariant_all [where P = "\<lambda>r. map_of (request_tickets r) k = None"])
    (auto simp: evict_terminal_def Let_def split: option.splits)

lemma evict_config [simp]: "config (evict_terminal i q) = config q"
  by (auto simp: evict_terminal_def config_def Let_def split: option.splits)

lemma prune_config [simp]: "config (prune_terminal now q) = config q"
  unfolding prune_terminal_def Let_def
  by (intro fold_invariant_all [where P = "\<lambda>r. config r = config q"]) auto

lemma good_request_config: "config q' = config q \<Longrightarrow> good_request q' = good_request q"
  by (intro ext) (simp add: good_request_def config_def)

lemma issue_admitted:
  assumes l: "later q0 now q" and g: "good_request q run req own ten now un"
    and req: "map_of (request_tickets q) (ten, own, req) = None" and can: "can_admit un q"
    and n: "next_ticket q < MAX_ADMISSION_INTEGER" "next_sequence q < MAX_ADMISSION_INTEGER"
      "next_admission_token q < MAX_ADMISSION_INTEGER"
  shows "ticket_ok (new_ticket q True run req own ten now un None) \<and>
    later q0 now (enter_ticket (new_ticket q True run req own ten now un None)
      (next_admission_token q + 1) (window_used q + un) q)"
proof -
  note inv = later_inv [OF l]
  have e: "enters now q (new_ticket q True run req own ten now un None) (next_admission_token q + 1)"
    using new_ticket_enters [OF inv g req n(1,2), of True None] n(3) by simp
  have "0 \<le> window_used q" "0 < un" using adm_invD(4) [OF inv] g by (simp_all add: limits_ok_def good_request_def pos_range_def)
  then show ?thesis
    using later_enter [OF l e, of "window_used q + un"] e can
    by (auto simp: can_admit_def enters_def)
qed

lemma issue_queued:
  assumes l: "later q0 now q" and g: "good_request q run req own ten now un"
    and req: "map_of (request_tickets q) (ten, own, req) = None"
    and room: "int (length (pending_ids q)) < max_pending q"
    and n: "next_ticket q < MAX_ADMISSION_INTEGER" "next_sequence q < MAX_ADMISSION_INTEGER"
    and retry: "case retry of None \<Rightarrow> True | Some d \<Rightarrow> in_range d"
  shows "ticket_ok (new_ticket q False run req own ten now un retry) \<and>
    later q0 now (enter_ticket (new_ticket q False run req own ten now un retry)
      (next_admission_token q) (window_used q) q)"
proof -
  note inv = later_inv [OF l]
  have e: "enters now q (new_ticket q False run req own ten now un retry) (next_admission_token q)"
    using new_ticket_enters [OF inv g req n(1,2), of False retry] room retry by simp
  have "0 \<le> window_used q" "window_used q \<le> rate_limit q" using adm_invD(4) [OF inv] by (simp_all add: limits_ok_def)
  then show ?thesis
    using later_enter [OF l e, of "window_used q"] e room
    by (auto simp: enters_def)
qed

lemma enter_admitted_eq:
  "q\<lparr>next_admission_token := next_admission_token q + 1,
     active_ids := insert (ticket_id_of (limiter_id q) (next_ticket q)) (active_ids q),
     window_used := window_used q + un, next_ticket := next_ticket q + 1, next_sequence := next_sequence q + 1,
     tickets := dict_set (ticket_id_of (limiter_id q) (next_ticket q)) (new_ticket q True run req own ten now un None) (tickets q),
     request_tickets := dict_set (ten, own, req) (ticket_id_of (limiter_id q) (next_ticket q)) (request_tickets q)\<rparr> =
   enter_ticket (new_ticket q True run req own ten now un None) (next_admission_token q + 1) (window_used q + un) q"
  by (simp add: enter_ticket_def new_ticket_def ticket_key_def)

lemma enter_queued_eq:
  "q\<lparr>next_ticket := next_ticket q + 1, next_sequence := next_sequence q + 1,
     tickets := dict_set (ticket_id_of (limiter_id q) (next_ticket q)) (new_ticket q False run req own ten now un retry) (tickets q),
     request_tickets := dict_set (ten, own, req) (ticket_id_of (limiter_id q) (next_ticket q)) (request_tickets q),
     pending_ids := pending_ids q @ [ticket_id_of (limiter_id q) (next_ticket q)]\<rparr> =
   enter_ticket (new_ticket q False run req own ten now un retry) (next_admission_token q) (window_used q) q"
  by (simp add: enter_ticket_def new_ticket_def ticket_key_def)

lemma wp_take_slot:
  "wp (take_slot True tid un now) Q E q =
     (if MAX_ADMISSION_INTEGER \<le> next_admission_token q then E AdmissionError q
      else Q None (q\<lparr>next_admission_token := next_admission_token q + 1,
        active_ids := insert tid (active_ids q), window_used := window_used q + un\<rparr>))"
  "window_start_ms q = Some ws \<Longrightarrow> wp (take_slot False tid un now) Q E q =
     Q (if rate_limit q < window_used q + un then Some (max 0 (ws + window_ms q - now)) else None) q"
  by (simp_all add: take_slot_def wp_rules increment_admission_counter_def)

lemma record_queued_keeps:
  assumes l: "later q0 now (r\<lparr>tickets := dict_set tid t (tickets r),
      request_tickets := dict_set key tid (request_tickets r), pending_ids := pending_ids r @ [tid]\<rparr>)" (is "later q0 now ?r")
    and now: "in_range now"
  shows "keeps q0 now (record_ticket False tid key t now) r"
proof -
  have "keeps q0 now (bind_py (reindex now) (\<lambda>_. bind_py (lookup_ticket tid) (\<lambda>t'.
       return_py \<lparr>submission_ticket = t', duplicate = False\<rparr>))) ?r"
  proof (rule wp_bind_reindex [OF l now])
    fix q' assume "later q0 now q'" and f: "reindex_frame (refresh_window now ?r) q'"
    moreover obtain t' where "tk q' tid = Some t'" using reindex_frameD(9) [OF f, of tid t] by auto
    ultimately show "keeps q0 now (bind_py (lookup_ticket tid) (\<lambda>t'. return_py \<lparr>submission_ticket = t', duplicate = False\<rparr>)) q'"
      by (simp add: wp_rules)
  qed auto
  then show ?thesis by (simp add: record_ticket_def wp_bind wp_store wp_modify)
qed

lemma issue_ticket_keeps:
  assumes l: "later q0 now q" and g: "good_request q run req own ten now un"
    and req: "map_of (request_tickets q) (ten, own, req) = None"
  shows "keeps q0 now (issue_ticket run req own ten now un) q"
proof -
  define r where "r = refresh_window now (prune_terminal now q)"
  have now: "in_range now" using g by (simp add: good_request_def)
  have lr: "later q0 now r"
    unfolding r_def using later_refresh [OF later_prune [OF l]] now by (simp add: in_range_def)
  have gr: "good_request r run req own ten now un" using g good_request_config [of r q] by (simp add: r_def)
  have rr: "map_of (request_tickets r) (ten, own, req) = None" using prune_requests [OF req] by (simp add: r_def)
  obtain ws where ws: "window_start_ms r = Some ws" unfolding r_def using refresh_fields(9) by blast
  note inc = increment_admission_counter_def
  show ?thesis
    unfolding issue_ticket_def Let_def
  proof (intro wp_bind_modify wp_bind_gets, fold r_def, intro wp_bind_raise_if wp_bind_lift, goal_cases)
    case (4 n s)
    then have n: "next_ticket r < MAX_ADMISSION_INTEGER" "next_sequence r < MAX_ADMISSION_INTEGER"
        "n = next_ticket r + 1" "s = next_sequence r + 1" by (simp_all add: increment_iff)
    show ?case
    proof (cases "can_admit un r")
      case True
      then show ?thesis
        using n lr issue_admitted [OF lr gr rr True n(1,2)]
        by (auto simp: wp_bind wp_take_slot wp_rules mk_ticket_iff record_ticket_def enter_admitted_eq)
    next
      case False
      then have room: "int (length (pending_ids r)) < max_pending r" using 4 by simp
      have q: "ticket_ok (new_ticket r False run req own ten now un retry) \<and>
          later q0 now (enter_ticket (new_ticket r False run req own ten now un retry) (next_admission_token r) (window_used r) r)"
        if "retry = None \<or> retry = Some (max 0 (ws + window_ms r - now))" for retry
        using that retry_in_range [OF later_inv [OF lr] ws] by (intro issue_queued [OF lr gr rr room n(1,2)]) auto
      show ?thesis
        using False n q
        by (auto simp: wp_bind wp_take_slot(2) [OF ws] wp_modify wp_lift mk_ticket_iff enter_queued_eq
            intro!: record_queued_keeps [OF _ now])
    qed
  qed (use lr in \<open>auto simp: increment_iff\<close>)
qed

section \<open>Public methods\<close>

lemma wp_bind_check_resubmission:
  assumes "adm_inv T q" and "wp (f ()) Q E q" and "\<And>e. \<not> internal_error e \<Longrightarrow> E e q"
  shows "wp (bind_py (check_resubmission key run un now) f) Q E q"
proof (cases "map_of (request_tickets q) key")
  case (Some tid)
  then obtain t where "tk q tid = Some t" using book_okD(4) adm_invD(2) [OF assms(1)] by blast
  then show ?thesis using Some assms(2,3) by (simp add: check_resubmission_def validate_mutation_time_def wp_rules)
qed (use assms(2) in \<open>simp add: check_resubmission_def wp_rules\<close>)

lemma evicted_request:
  assumes "adm_inv T q" and "map_of (request_tickets q) key = Some tid" and "tk q tid = Some t"
    and "terminal (ticket_state t)"
  shows "map_of (request_tickets (evict_terminal tid q)) key = None"
proof -
  obtain u where "tk q tid = Some u" "ticket_key u = key"
    using assms(2) book_okD(4) [OF adm_invD(2) [OF assms(1)]] by blast
  then have "ticket_key t = key" using assms(3) by simp
  then show ?thesis using assms by (auto simp: evict_terminal_def Let_def ticket_key_def)
qed

lemma wp_bind_find_duplicate:
  assumes l: "later q0 now q"
    and none: "\<And>q'. later q0 now q' \<Longrightarrow> config q' = config q \<Longrightarrow> map_of (request_tickets q') key = None \<Longrightarrow> wp (f None) Q E q'"
    and some: "\<And>t. wp (f (Some t)) Q E q"
  shows "wp (bind_py (find_duplicate key n) f) Q E q"
proof (cases "map_of (request_tickets q) key")
  case (Some tid)
  note inv = later_inv [OF l]
  obtain t where t: "tk q tid = Some t" using Some book_okD(4) adm_invD(2) [OF inv] by blast
  have "wp (f None) Q E (evict_terminal tid q)"
    if "ticket_state t \<in> {Expired, Failed} \<or> terminal_retention_expired q t n"
  proof -
    have "terminal (ticket_state t)" using that by (auto simp: terminal_def terminal_retention_expired_def)
    then show ?thesis using none [OF later_evict [OF l]] evicted_request [OF inv Some t] by simp
  qed
  then show ?thesis using Some t some by (auto simp: find_duplicate_def wp_rules)
qed (use none [OF l] in \<open>simp add: find_duplicate_def wp_rules\<close>)

lemma later_config: "later q0 now q \<Longrightarrow> config q = config q0"
  by (simp add: later_def evolves_def)

lemma non_negative_result: "admission_non_negative (PyInt i) = Inr j \<Longrightarrow> j = i \<and> in_range i"
  by (simp add: in_range_def split: if_splits)

lemma positive_result: "admission_positive v = Inr n \<Longrightarrow> pos_range n"
  by (cases v) (auto simp: admission_positive_def pos_range_def split: if_splits)

lemma string_result: "admission_string v = Inr s \<Longrightarrow> good_string s"
  by (cases v) (auto simp: good_string_def split: if_splits)

lemma optional_string_result:
  "admission_optional_string v = Inr s \<Longrightarrow> case s of None \<Rightarrow> True | Some x \<Rightarrow> good_string x"
  by (auto simp: admission_optional_string_def bind_sum_Inr_iff string_result split: if_splits)

lemma validator_errors:
  "admission_string v = Inl e \<Longrightarrow> \<not> internal_error e" "admission_non_negative v = Inl e \<Longrightarrow> \<not> internal_error e"
  "admission_positive v = Inl e \<Longrightarrow> \<not> internal_error e" "admission_optional_string v = Inl e \<Longrightarrow> \<not> internal_error e"
  "state_argument l v = Inl e \<Longrightarrow> \<not> internal_error e"
  by (cases v; auto simp: admission_positive_def admission_optional_string_def split: if_splits option.splits)+

lemma submit_keeps:
  assumes inv: "adm_inv now q"
  shows "keeps q now (submit run req own ten (PyInt now) un) q"
  unfolding submit_def
proof (intro wp_bind_lift wp_bind_gets wp_bind_raise_if wp_bind_check_resubmission [OF inv], goal_cases)
  case (9 run' req' own' ten' now' un')
  have now: "now' = now" "in_range now" using 9(5) non_negative_result by blast+
  have g: "good_request q' run' req' own' ten' now un'" if "later q now q'" for q'
    using 9 now later_config [OF that] string_result optional_string_result positive_result
    by (auto simp: good_request_def config_def)
  show ?case
    unfolding now(1)
    by (rule wp_bind_expire [OF later_refl [OF inv] now(2)], rule wp_bind_promote [OF _ now(2)], assumption,
        rule wp_bind_find_duplicate, assumption)
      (auto simp: wp_return intro!: issue_ticket_keeps g)
qed (use later_refl [OF inv] in \<open>auto simp del: admission_non_negative.simps dest: validator_errors\<close>)

lemma promote_call_keeps:
  assumes inv: "adm_inv now q"
  shows "keeps q now (promote (PyInt now)) q"
  unfolding promote_def
proof (intro wp_bind_lift)
  fix now' assume "admission_non_negative (PyInt now) = Inr now'"
  then have now: "now' = now" "in_range now" using non_negative_result by blast+
  show "keeps q now (bind_py (expire_locked now') (\<lambda>_. bind_py (promote_locked now') (\<lambda>promoted.
     bind_py (modify_py (prune_terminal now')) (\<lambda>_. return_py promoted)))) q"
    unfolding now(1)
    by (rule wp_bind_expire [OF later_refl [OF inv] now(2)], rule wp_bind_promote [OF _ now(2)])
      (auto simp: wp_rules later_prune)
qed (use later_refl [OF inv] in \<open>auto simp del: admission_non_negative.simps dest: validator_errors\<close>)

lemma expire_call_keeps:
  assumes inv: "adm_inv now q"
  shows "wp (expire (PyInt now)) (\<lambda>_ q'. later q now q' \<and> no_overdue now q')
    (\<lambda>e q'. later q now q' \<and> \<not> internal_error e) q"
  unfolding expire_def
proof (intro wp_bind_lift)
  fix now' assume "admission_non_negative (PyInt now) = Inr now'"
  then have now: "now' = now" "in_range now" using non_negative_result by blast+
  show "wp (bind_py (expire_locked now') (\<lambda>expired.
     bind_py (modify_py (prune_terminal now')) (\<lambda>_. return_py expired)))
     (\<lambda>_ q'. later q now q' \<and> no_overdue now q') (\<lambda>e q'. later q now q' \<and> \<not> internal_error e) q"
    unfolding now(1)
    by (rule wp_bind_expire [OF later_refl [OF inv] now(2)]) (auto simp: wp_rules later_prune no_overdue_prune)
qed (use later_refl [OF inv] in \<open>auto simp del: admission_non_negative.simps dest: validator_errors\<close>)

lemma wp_bind_get_ticket:
  assumes "\<And>e. \<not> internal_error e \<Longrightarrow> E e q" and "\<And>t. tk q tid = Some t \<Longrightarrow> wp (f t) Q E q"
  shows "wp (bind_py (get_ticket (PyStr tid)) f) Q E q"
  unfolding get_ticket_def wp_bind
  using assms by (auto simp: wp_rules admission_string_cases simp del: admission_string.simps split: option.splits)

text \<open>The common start of the methods that act on one ticket.\<close>

lemma wp_open_ticket:
  assumes inv: "adm_inv now q" and now: "in_range now"
    and f: "\<And>t q'. later q now q' \<Longrightarrow> no_overdue now q' \<Longrightarrow> tk q' tid = Some t \<Longrightarrow> wp (f t) Q E q'"
    and E: "\<And>e q'. later q now q' \<Longrightarrow> \<not> internal_error e \<Longrightarrow> E e q'"
  shows "wp (bind_py (get_ticket (PyStr tid)) (\<lambda>t0. bind_py (validate_mutation_time t0 now msg) (\<lambda>_.
     bind_py (expire_locked now) (\<lambda>_. bind_py (get_ticket (PyStr tid)) f)))) Q E q"
  unfolding validate_mutation_time_def
  by (intro wp_bind_get_ticket wp_bind_raise_if wp_bind_expire [OF later_refl [OF inv] now])
    (use f E later_refl [OF inv] in auto)

lemma started_replaces:
  assumes inv: "adm_inv now q" and t: "tk q tid = Some t" "ticket_state t = Admitted" and now: "in_range now"
    and due: "now < expires_at_ms t" and v: "state_version t < MAX_ADMISSION_INTEGER"
  shows "replaces now q t (t\<lparr>ticket_state := Running, state_version := state_version t + 1, started_at_ms := Some now\<rparr>)
    (next_admission_token q)"
proof -
  note e = entry_okD [OF ticket_entry [OF inv t(1)]]
  have c: "completed_at_ms t = None" "started_at_ms t = None" "ticket_token t \<noteq> None"
    using e(2) t(2) by (simp_all add: ticket_ok_def terminal_def)
  have "ticket_ok (t\<lparr>ticket_state := Running, state_version := state_version t + 1, started_at_ms := Some now\<rparr>)"
    using e(2,7) t(2) c now due v by (simp add: ticket_ok_def pos_range_def terminal_def)
  moreover have "pos_range (next_admission_token q)" using adm_invD(4) [OF inv] by (simp add: limits_ok_def)
  ultimately show ?thesis
    using t(2) c by (auto simp: replaces_def ticket_evolves_def identity_def ticket_key_def terminal_def intro: lifecycle.start)
qed

lemma slot_membership:
  assumes "adm_inv T q" and "tk q tid = Some t" and "slot t"
  shows "tid \<in> active_ids q" "remove1 tid (pending_ids q) = pending_ids q" "insert tid (active_ids q) = active_ids q"
  using assms pending_iff [OF assms(1), of tid] active_iff [OF assms(1), of tid]
  by (auto simp: slot_def intro!: remove1_idem)

lemma later_start:
  assumes l: "later q0 now q" and t: "tk q tid = Some t" "ticket_state t = Admitted" and now: "in_range now"
    and due: "now < expires_at_ms t" and v: "state_version t < MAX_ADMISSION_INTEGER"
  shows "later q0 now (q\<lparr>tickets := dict_set tid (t\<lparr>ticket_state := Running, state_version := state_version t + 1,
      started_at_ms := Some now\<rparr>) (tickets q)\<rparr>)"
proof -
  note inv = later_inv [OF l] and r = started_replaces [OF later_inv [OF l] t now due v]
  let ?t = "t\<lparr>ticket_state := Running, state_version := state_version t + 1, started_at_ms := Some now\<rparr>"
  have id: "ticket_id t = tid" by (rule entry_okD(1) [OF ticket_entry [OF inv t(1)]])
  have s: "slot t" "slot ?t" using t(2) by (simp_all add: slot_def)
  have "later q0 now (put_ticket ?t (next_admission_token q) (window_used q) q)"
    by (rule later_put [OF l _ r]) (use id t s adm_invD(4) [OF inv] in \<open>auto simp: limits_ok_def\<close>)
  moreover have "put_ticket ?t (next_admission_token q) (window_used q) q = q\<lparr>tickets := dict_set tid ?t (tickets q)\<rparr>"
    using slot_membership [OF inv t(1) s(1)] id s by (simp add: put_ticket_def)
  ultimately show ?thesis by simp
qed

lemma mark_running_keeps:
  assumes inv: "adm_inv now q"
  shows "keeps q now (mark_running tid tok (PyInt now)) q"
  unfolding mark_running_def
proof (intro wp_bind_lift, goal_cases)
  case (4 tid' tok' now')
  then have now: "now' = now" "in_range now" using non_negative_result by blast+
  show ?case
    unfolding now(1)
  proof (rule wp_open_ticket [OF inv now(2)])
    fix t q' assume l: "later q now q'" and o: "no_overdue now q'" and t: "tk q' tid' = Some t"
    have due: "now < expires_at_ms t" if "ticket_state t = Admitted"
      using o t that by (auto simp: no_overdue_def terminal_def)
    have s: "ticket_ok (t\<lparr>ticket_state := Running, state_version := state_version t + 1, started_at_ms := Some now\<rparr>)"
      if "ticket_state t = Admitted" "state_version t < MAX_ADMISSION_INTEGER"
      using started_replaces [OF later_inv [OF l] t that(1) now(2) due [OF that(1)] that(2)] by (simp add: replaces_def)
    note st = later_start [OF l t _ now(2) due]
    show "keeps q now (bind_py (validate_fencing t tok') (\<lambda>_. if ticket_state t = Running then return_py t
     else bind_py (raise_if (ticket_state t \<noteq> Admitted) (AdmissionTicketStateError tid' (ticket_state t) ''start'')) (\<lambda>_.
       bind_py (lift_py (increment_admission_counter (state_version t))) (\<lambda>version.
       bind_py (lift_py (mk_ticket (t\<lparr>ticket_state := Running, state_version := version, started_at_ms := Some now\<rparr>))) (\<lambda>running.
       bind_py (store_ticket tid' running) (\<lambda>_.
       bind_py (modify_py (prune_terminal now)) (\<lambda>_. return_py running))))))) q'"
      unfolding validate_fencing_def
      by (intro wp_intros) (use l s st in \<open>auto simp: increment_iff wp_store mk_ticket_iff wp_rules later_prune split: if_splits\<close>)
  qed auto
qed (use later_refl [OF inv] in \<open>auto simp del: admission_non_negative.simps dest: validator_errors\<close>)

lemma state_argument_result:
  "state_argument [(''completed'', Completed), (''failed'', Failed)] v = Inr st \<Longrightarrow> st \<in> {Completed, Failed}"
  "state_argument [(''cancelled'', Cancelled), (''expired'', Expired)] v = Inr st \<Longrightarrow> st \<in> {Cancelled, Expired}"
  by (cases v; auto split: if_splits)+

text \<open>Finishing a ticket that holds a slot.\<close>

lemma later_finish:
  assumes l: "later q0 now q" and t: "tk q tid = Some t" "slot t" and now: "in_range now"
    and st: "st \<in> {Completed, Failed}" and due: "now < expires_at_ms t" and v: "state_version t < MAX_ADMISSION_INTEGER"
  shows "ticket_ok (t\<lparr>ticket_state := st, state_version := state_version t + 1, completed_at_ms := Some now\<rparr>) \<and>
    later q0 now (q\<lparr>tickets := dict_set tid (t\<lparr>ticket_state := st, state_version := state_version t + 1,
      completed_at_ms := Some now\<rparr>) (tickets q), active_ids := active_ids q - {tid}\<rparr>)"
proof -
  note inv = later_inv [OF l]
  have ok: "ticket_ok t" by (rule entry_okD(2) [OF ticket_entry [OF inv t(1)]])
  have f: "queue_position t = None" "retry_after_ms t = None" using ok t(2) by (auto simp: ticket_ok_def slot_def)
  have same: "t\<lparr>ticket_state := st, state_version := state_version t + 1, queue_position := None,
      retry_after_ms := None, completed_at_ms := Some now\<rparr> =
      t\<lparr>ticket_state := st, state_version := state_version t + 1, completed_at_ms := Some now\<rparr>"
    using f by simp
  have c: "\<not> terminal (ticket_state t)" "terminal st" "lifecycle (ticket_state t) st"
      "st = Expired \<longleftrightarrow> expires_at_ms t \<le> now"
    using t(2) st due by (auto simp: slot_def terminal_def intro: lifecycle.finish)
  have "q\<lparr>pending_ids := remove1 tid (pending_ids q), active_ids := a, tickets := ts\<rparr> = q\<lparr>tickets := ts, active_ids := a\<rparr>" for a ts
    using slot_membership(2) [OF inv t] by simp
  then show ?thesis
    using closed_ok [OF l t(1) now c v] later_close [OF l t(1) now c v] unfolding same by simp
qed

lemma complete_keeps:
  assumes inv: "adm_inv now q"
  shows "keeps q now (complete tid tok st (PyInt now)) q"
  unfolding complete_def
proof (intro wp_bind_lift, goal_cases)
  case (5 tid' tok' now' st')
  then have now: "now' = now" "in_range now" using non_negative_result by blast+
  have st': "st' \<in> {Completed, Failed}" using 5 state_argument_result(1) by blast
  show ?case
    unfolding now(1)
  proof (rule wp_open_ticket [OF inv now(2)])
    fix t q' assume l: "later q now q'" and o: "no_overdue now q'" and t: "tk q' tid' = Some t"
    have f: "ticket_ok (t\<lparr>ticket_state := st', state_version := state_version t + 1, completed_at_ms := Some now\<rparr>) \<and>
        later q now (q'\<lparr>tickets := dict_set tid' (t\<lparr>ticket_state := st', state_version := state_version t + 1,
          completed_at_ms := Some now\<rparr>) (tickets q'), active_ids := active_ids q' - {tid'}\<rparr>)"
      if "ticket_state t \<in> {Admitted, Running}" "state_version t < MAX_ADMISSION_INTEGER"
      by (rule later_finish [OF l t _ now(2) st' _ that(2)])
        (use that(1) o t in \<open>auto simp: no_overdue_def terminal_def slot_def\<close>)
    show "keeps q now (bind_py (validate_fencing t tok') (\<lambda>_.
     bind_py (raise_if (ticket_state t \<notin> {Admitted, Running}) (AdmissionTicketStateError tid' (ticket_state t) ''complete'')) (\<lambda>_.
     bind_py (lift_py (increment_admission_counter (state_version t))) (\<lambda>version.
     bind_py (lift_py (mk_ticket (t\<lparr>ticket_state := st', state_version := version, completed_at_ms := Some now\<rparr>))) (\<lambda>final.
     bind_py (store_ticket tid' final) (\<lambda>_.
     bind_py (modify_py (\<lambda>q. q\<lparr>active_ids := active_ids q - {tid'}\<rparr>)) (\<lambda>_.
     bind_py (promote_locked now) (\<lambda>promoted.
     bind_py (modify_py (prune_terminal now)) (\<lambda>_. return_py (final, promoted)))))))))) q'"
      unfolding validate_fencing_def store_ticket_def
      by (intro wp_intros wp_bind_promote [OF _ now(2), where ?q0.0 = q])
        (use l f in \<open>auto simp: increment_iff mk_ticket_iff later_prune split: if_splits\<close>)
  qed auto
qed (use later_refl [OF inv] in \<open>auto simp del: admission_non_negative.simps dest: validator_errors\<close>)

text \<open>Cancelling with the default state \<^verbatim>\<open>cancelled\<close>.\<close>

lemma cancel_ticket_keeps:
  assumes l: "later q0 now q" and t: "tk q tid = Some t" "\<not> terminal (ticket_state t)" and now: "in_range now"
    and due: "now < expires_at_ms t"
  shows "keeps q0 now (cancel_ticket tid now Cancelled tok t) q"
proof -
  have c: "terminal Cancelled" "lifecycle (ticket_state t) Cancelled" "Cancelled = Expired \<longleftrightarrow> expires_at_ms t \<le> now"
    using t(2) due by (cases "ticket_state t"; auto simp: terminal_def intro: lifecycle.abandon)+
  have close: "keeps q0 now (bind_py (lift_py (increment_admission_counter (state_version t))) (\<lambda>version.
     bind_py (leave_queue tid t) (\<lambda>_.
     bind_py (lift_py (mk_ticket (t\<lparr>ticket_state := Cancelled, state_version := version,
          queue_position := None, retry_after_ms := None, completed_at_ms := Some now\<rparr>))) (\<lambda>cancelled.
     bind_py (store_ticket tid cancelled) (\<lambda>_.
     bind_py (reindex now) (\<lambda>_.
     bind_py (promote_locked now) (\<lambda>promoted.
     bind_py (modify_py (prune_terminal now)) (\<lambda>_. return_py (cancelled, promoted))))))))) q"
  proof (intro wp_bind_lift wp_bind_leave [OF l t], goal_cases)
    case (2 v e)
    then show ?case using closed_ok [OF l t(1) now t(2) c] by (auto simp: increment_iff mk_ticket_iff)
  next
    case (3 v t')
    then have t': "t' = t\<lparr>ticket_state := Cancelled, state_version := state_version t + 1,
          queue_position := None, retry_after_ms := None, completed_at_ms := Some now\<rparr>"
        "state_version t < MAX_ADMISSION_INTEGER"
      by (auto simp: increment_iff mk_ticket_iff split: if_splits)
    have "later q0 now (q\<lparr>pending_ids := remove1 tid (pending_ids q), active_ids := active_ids q - {tid},
        tickets := dict_set tid t' (tickets q)\<rparr>)"
      unfolding t'(1) by (rule later_close [OF l t(1) now t(2) c t'(2)])
    then show ?case
      unfolding store_ticket_def
      by (intro wp_bind_modify wp_bind_reindex [OF _ now, where ?q0.0 = q0]
          wp_bind_promote [OF _ now, where ?q0.0 = q0] wp_returnI) (auto simp: later_prune)
  qed (use l in \<open>auto simp: increment_iff\<close>)
  have guard: "keeps q0 now (bind_py (if ticket_state t = Running then
                (case tok of None \<Rightarrow> raise_py (AdmissionTicketStateError tid (ticket_state t)
                             ''cancel without a post-worker fencing token'')
                 | Some n \<Rightarrow> validate_fencing t n) else return_py ()) f) q"
    if "keeps q0 now (f ()) q" for f :: "unit \<Rightarrow> (ticket \<times> ticket list) admission"
    using that l by (auto simp: wp_rules validate_fencing_def split: option.splits)
  show ?thesis unfolding cancel_ticket_def by (rule guard) (rule close)
qed

lemma cancel_keeps:
  assumes inv: "adm_inv now q" and st: "st \<noteq> PyStr ''expired''"
  shows "keeps q now (cancel tid (PyInt now) st tok) q"
  unfolding cancel_def
proof (intro wp_bind_lift, goal_cases)
  case (5 tid' now' st' tok')
  then have now: "now' = now" "in_range now" using non_negative_result by blast+
  have st': "st' = Cancelled" using 5(3) st by (cases st) (auto split: if_splits)
  show ?case
    unfolding now(1) st'
  proof (rule wp_open_ticket [OF inv now(2)])
    fix t q' assume l: "later q now q'" and o: "no_overdue now q'" and t: "tk q' tid' = Some t"
    have "now < expires_at_ms t" if "\<not> terminal (ticket_state t)" using o t that by (auto simp: no_overdue_def)
    then show "keeps q now (if terminal (ticket_state t)
       then bind_py (modify_py (prune_terminal now)) (\<lambda>_. return_py (t, []))
       else cancel_ticket tid' now Cancelled tok' t) q'"
      using l cancel_ticket_keeps [OF l t _ now(2)] by (auto simp: wp_rules later_prune)
  qed auto
qed (use later_refl [OF inv] in \<open>auto simp del: admission_non_negative.simps state_argument.simps dest: validator_errors
    simp: bind_sum_Inl_iff split: if_splits\<close>)

text \<open>
  An open ticket is never closed as expired before its time: the constructor refuses the
  result after the ticket has left its queue. A cancellation as expired that returns has
  found its ticket closed, and keeps the invariant.
\<close>

lemma cancel_ticket_expired:
  assumes inv: "adm_inv T q" and t: "tk q tid = Some t" "\<not> terminal (ticket_state t)" and due: "now < expires_at_ms t"
  shows "wp (cancel_ticket tid now Expired tok t) (\<lambda>_ _. False)
    (\<lambda>e q'. state_version t < MAX_ADMISSION_INTEGER \<and> (ticket_state t = Running \<longrightarrow> tok = ticket_token t) \<longrightarrow>
       e = AdmissionError \<and> q' = q\<lparr>pending_ids := remove1 tid (pending_ids q), active_ids := active_ids q - {tid}\<rparr>) q"
proof -
  let ?t = "t\<lparr>ticket_state := Expired, state_version := state_version t + 1, queue_position := None,
      retry_after_ms := None, completed_at_ms := Some now\<rparr>"
  have "\<not> ticket_ok ?t" using due by (simp add: ticket_ok_def)
  moreover have "ticket_token t \<noteq> None" if "ticket_state t = Running"
    using entry_okD(2) [OF ticket_entry [OF inv t(1)]] that by (auto simp: ticket_ok_def)
  ultimately show ?thesis
    by (auto simp: cancel_ticket_def wp_rules validate_fencing_def increment_admission_counter_def
        wp_leave [OF inv t] mk_ticket_iff split: option.splits)
qed

lemma cancel_returns:
  assumes inv: "adm_inv now q"
  shows "wp (cancel tid (PyInt now) (PyStr ''expired'') tok) (\<lambda>_. later q now) (\<lambda>_ _. True) q"
  unfolding cancel_def
proof (intro wp_bind_lift, goal_cases)
  case (5 tid' now' st' tok')
  then have now: "now' = now" "in_range now" using non_negative_result by blast+
  have st': "st' = Expired" using 5(3) by simp
  show ?case
    unfolding now(1) st'
  proof (rule wp_open_ticket [OF inv now(2)])
    fix t q' assume l: "later q now q'" and o: "no_overdue now q'" and t: "tk q' tid' = Some t"
    have "wp (cancel_ticket tid' now Expired tok' t) (\<lambda>_. later q now) (\<lambda>_ _. True) q'" if "\<not> terminal (ticket_state t)"
      by (rule wp_mono [OF cancel_ticket_expired [OF later_inv [OF l] t that]])
        (use o t that in \<open>auto simp: no_overdue_def\<close>)
    then show "wp (if terminal (ticket_state t)
       then bind_py (modify_py (prune_terminal now)) (\<lambda>_. return_py (t, []))
       else cancel_ticket tid' now Expired tok' t) (\<lambda>_. later q now) (\<lambda>_ _. True) q'"
      using l by (auto simp: wp_rules later_prune)
  qed auto
qed auto

section \<open>The queue as a machine\<close>

text \<open>
  A call of a public method with its arguments, and the time its caller passes. An
  execution is one call at its own time on the queue it finds.
\<close>

datatype admission_call =
    Submit pyval pyval pyval pyval pyval
  | Promote
  | MarkRunning pyval pyval
  | Complete pyval pyval pyval
  | Cancel pyval pyval pyval
  | Expire

definition effect_of :: "('e + 'a) \<times> 's \<Rightarrow> 'e option \<times> 's" where
  "effect_of r = (case fst r of Inl e \<Rightarrow> Some e | Inr _ \<Rightarrow> None, snd r)"

fun admission_effect :: "admission_call \<Rightarrow> int \<Rightarrow> admission_queue \<Rightarrow> admission_error option \<times> admission_queue" where
  "admission_effect (Submit run req own ten un) now q = effect_of (submit run req own ten (PyInt now) un q)"
| "admission_effect Promote now q = effect_of (promote (PyInt now) q)"
| "admission_effect (MarkRunning tid tok) now q = effect_of (mark_running tid tok (PyInt now) q)"
| "admission_effect (Complete tid tok st) now q = effect_of (complete tid tok st (PyInt now) q)"
| "admission_effect (Cancel tid st tok) now q = effect_of (cancel tid (PyInt now) st tok q)"
| "admission_effect Expire now q = effect_of (expire (PyInt now) q)"

fun admission_exec :: "int \<times> admission_call \<Rightarrow> admission_queue \<Rightarrow> admission_queue" where
  "admission_exec (now, c) q = snd (admission_effect c now q)"

text \<open>
  The calls the properties speak of. The times the callers pass do not go back (they read
  one clock), and no cancellation with the state \<^verbatim>\<open>expired\<close> ends in an error: such a call
  takes its ticket out of its queue before it fails.
\<close>

fun cancels_as_expired :: "admission_call \<Rightarrow> bool" where
  "cancels_as_expired (Cancel tid st tok) \<longleftrightarrow> st = PyStr ''expired''"
| "cancels_as_expired _ \<longleftrightarrow> False"

definition orderly_call :: "int \<times> admission_call \<Rightarrow> admission_queue \<Rightarrow> int \<Rightarrow> bool" where
  "orderly_call nc q T \<longleftrightarrow> T \<le> fst nc \<and>
     (cancels_as_expired (snd nc) \<longrightarrow> fst (admission_effect (snd nc) (fst nc) q) = None)"

fun orderly :: "(int \<times> admission_call) list \<Rightarrow> admission_queue \<Rightarrow> int \<Rightarrow> bool" where
  "orderly [] q T \<longleftrightarrow> True"
| "orderly (nc # calls) q T \<longleftrightarrow> orderly_call nc q T \<and> orderly calls (admission_exec nc q) (fst nc)"

definition last_time :: "(int \<times> admission_call) list \<Rightarrow> int \<Rightarrow> int" where
  "last_time calls T = (if calls = [] then T else fst (last calls))"

text \<open>
  The machine of the proofs: the queue with the latest time seen. It takes the orderly calls
  and passes over the others, so that on orderly calls it is the queue itself.
\<close>

definition admission_step :: "int \<times> admission_call \<Rightarrow> admission_queue \<times> int \<Rightarrow> admission_queue \<times> int" where
  "admission_step nc s = (if orderly_call nc (fst s) (snd s) then (admission_exec nc (fst s), fst nc) else s)"

lemma orderly_steps:
  "orderly calls q T \<Longrightarrow> fold admission_step calls (q, T) = (fold admission_exec calls q, last_time calls T)"
  by (induction calls arbitrary: q T) (auto simp: admission_step_def last_time_def)

definition fresh_queue :: "admission_queue \<Rightarrow> bool" where
  "fresh_queue q \<longleftrightarrow>
     (\<exists>limiter conc rate win pend ttl term. mk_admission_queue limiter conc rate win pend ttl term = Inr q)"

lemma keeps_effect:
  "keeps q now m q \<Longrightarrow> later q now (snd (m q)) \<and> (\<forall>e. fst (m q) = Inl e \<longrightarrow> \<not> internal_error e)"
  by (cases "m q"; cases "fst (m q)") (auto simp: wp_def)

lemma admission_effect_keeps:
  assumes "adm_inv now q" and "\<not> cancels_as_expired c"
  shows "later q now (snd (admission_effect c now q)) \<and>
    (\<forall>e. fst (admission_effect c now q) = Some e \<longrightarrow> \<not> internal_error e)"
proof -
  have "keeps q now (expire (PyInt now)) q" by (rule wp_mono [OF expire_call_keeps [OF assms(1)]]) auto
  note all = keeps_effect [OF submit_keeps [OF assms(1)]] keeps_effect [OF promote_call_keeps [OF assms(1)]]
    keeps_effect [OF mark_running_keeps [OF assms(1)]] keeps_effect [OF complete_keeps [OF assms(1)]]
    keeps_effect [OF cancel_keeps [OF assms(1)]] keeps_effect [OF this]
  show ?thesis using assms(2) by (cases c) (auto simp: all effect_of_def split: sum.splits)
qed

lemma orderly_call_keeps:
  assumes "adm_inv T q" and o: "orderly_call (now, c) q T"
  shows "later q now (admission_exec (now, c) q)"
proof -
  have inv: "adm_inv now q" using assms by (auto simp: orderly_call_def intro: adm_inv_later)
  show ?thesis
  proof (cases "cancels_as_expired c")
    case True
    then obtain tid tok where c: "c = Cancel tid (PyStr ''expired'') tok" by (cases c) auto
    have "fst (effect_of (cancel tid (PyInt now) (PyStr ''expired'') tok q)) = None" using o by (simp add: orderly_call_def c)
    then show ?thesis
      using cancel_returns [OF inv, of tid tok] by (auto simp: c effect_of_def wp_def split: sum.splits prod.splits)
  qed (use admission_effect_keeps [OF inv] in auto)
qed

lemma fresh_inv:
  assumes "mk_admission_queue limiter conc rate win pend ttl term = Inr q"
  shows "adm_inv 0 q"
  using assms
  by (auto simp: mk_admission_queue_def bind_sum_Inr_iff adm_inv_def config_ok_def book_ok_def sets_ok_def limits_ok_def
      string_result positive_result pos_range_def dest!: string_result positive_result)

definition fresh_state :: "admission_queue \<times> int \<Rightarrow> bool" where
  "fresh_state s \<longleftrightarrow> fresh_queue (fst s) \<and> snd s = 0"

interpretation admission: py_machine fresh_state admission_step "\<lambda>(q, T). adm_inv T q"
proof unfold_locales
  fix s :: "admission_queue \<times> int" assume "fresh_state s"
  then show "case s of (q, T) \<Rightarrow> adm_inv T q" using fresh_inv by (cases s) (auto simp: fresh_state_def fresh_queue_def)
next
  fix s :: "admission_queue \<times> int" and c :: "int \<times> admission_call"
  assume inv: "case s of (q, T) \<Rightarrow> adm_inv T q"
  obtain q T now op where s: "s = (q, T)" "c = (now, op)" by force
  show "case admission_step c s of (q, T) \<Rightarrow> adm_inv T q"
    using inv s orderly_call_keeps [of T q now op] by (auto simp: admission_step_def later_def)
qed

definition held_tokens :: "admission_queue \<Rightarrow> int set" where
  "held_tokens q = {n. \<exists>tid t. tk q tid = Some t \<and> slot t \<and> ticket_token t = Some n}"

lemma exec_evolves: "adm_inv T q \<Longrightarrow> evolves q (fst (admission_step c (q, T)))"
  using orderly_call_keeps [of T q "fst c" "snd c"] evolves_refl by (auto simp: admission_step_def later_def)

interpretation admission_fence: fenced_machine fresh_state admission_step "\<lambda>(q, T). adm_inv T q"
  "\<lambda>s. next_admission_token (fst s)" "\<lambda>s. held_tokens (fst s)"
proof unfold_locales
  fix s :: "admission_queue \<times> int" and n assume "case s of (q, T) \<Rightarrow> adm_inv T q" and "n \<in> held_tokens (fst s)"
  then show "n < next_admission_token (fst s)"
    by (auto simp: held_tokens_def intro: entry_okD(6) [OF ticket_entry])
next
  fix s :: "admission_queue \<times> int" and c assume "case s of (q, T) \<Rightarrow> adm_inv T q"
  then show "next_admission_token (fst s) \<le> next_admission_token (fst (admission_step c s))"
    using exec_evolves evolvesD(3) by (cases s) auto
next
  fix s :: "admission_queue \<times> int" and n c assume inv: "case s of (q, T) \<Rightarrow> adm_inv T q"
    and n: "n \<in> held_tokens (fst (admission_step c s))"
  obtain q T where s: "s = (q, T)" by force
  note e = evolvesD [OF exec_evolves [of T q c]]
  obtain tid t' where t': "tk (fst (admission_step c s)) tid = Some t'" "slot t'" "ticket_token t' = Some n"
    using n by (auto simp: held_tokens_def)
  have "n \<in> held_tokens (fst s)" if t: "tk q tid = Some t" "ticket_token t = Some n" for t
  proof -
    have "ticket_evolves t t'" using e(4) t t' inv s by auto
    then have "\<not> terminal (ticket_state t)" using t'(2) by (auto simp: ticket_evolves_def slot_def terminal_def)
    moreover have "ticket_state t \<noteq> Queued"
      using ticket_entry [of T q tid t] inv s t by (auto dest!: entry_okD(2) simp: ticket_ok_def)
    ultimately have "slot t" by (cases "ticket_state t") (auto simp: slot_def terminal_def)
    then show ?thesis using t s by (auto simp: held_tokens_def)
  qed
  then show "n \<in> held_tokens (fst s) \<or> next_admission_token (fst s) \<le> n"
    using e(6) [OF _ t'(1) [unfolded s] t'(3)] inv s by auto
qed

lemma evolves_calls:
  "adm_inv T q \<Longrightarrow> evolves q (fst (fold admission_step cs (q, T)))"
proof (induction cs arbitrary: q T)
  case (Cons c cs)
  obtain q' T' where c: "admission_step c (q, T) = (q', T')" by force
  have "adm_inv T' q'" using admission.inv_call [of "(q, T)" c] Cons.prems c by simp
  then have "evolves q' (fst (fold admission_step cs (q', T')))" by (rule Cons.IH)
  moreover have "evolves q q'" using exec_evolves [OF Cons.prems, of c] c by simp
  ultimately show ?case using evolves_trans [OF Cons.prems] c by simp
qed simp

end
