(* ===== verification/Admission_Props.thy ===== *)
theory Admission_Props
  imports Admission_Ops
begin

text \<open>
  The properties of the admission queue, stated for every state reached from a new queue
  by orderly calls: calls at times that do not go back, without a cancellation as expired
  that fails. Sample states to apply them to are at the end.
\<close>

definition admission_reached :: "admission_queue \<Rightarrow> int \<Rightarrow> bool" where
  "admission_reached q T \<longleftrightarrow> (\<exists>q0 calls. fresh_queue q0 \<and> orderly calls q0 0 \<and>
     q = fold admission_exec calls q0 \<and> T = last_time calls 0)"

lemma reached_inv: "admission_reached q T \<Longrightarrow> adm_inv T q"
proof -
  assume "admission_reached q T"
  then obtain q0 calls where f: "fresh_queue q0" and o: "orderly calls q0 0"
    and q: "q = fold admission_exec calls q0" "T = last_time calls 0"
    by (auto simp: admission_reached_def)
  have "case fold admission_step calls (q0, 0) of (q, T) \<Rightarrow> adm_inv T q"
    by (rule admission.inv_reachable) (simp add: fresh_state_def f)
  then show ?thesis by (simp add: orderly_steps [OF o] q)
qed

section \<open>What expiry and promotion keep\<close>

definition still_open :: "string \<Rightarrow> int \<Rightarrow> admission_queue \<Rightarrow> bool" where
  "still_open tid n q \<longleftrightarrow> next_ticket q = n \<and> (\<exists>t. tk q tid = Some t \<and> \<not> terminal (ticket_state t))"

lemma still_open_frame: "still_open tid n q \<Longrightarrow> reindex_frame (refresh_window now q) q' \<Longrightarrow> still_open tid n q'"
proof -
  assume o: "still_open tid n q" and f: "reindex_frame (refresh_window now q) q'"
  obtain t where t: "tk q tid = Some t" "\<not> terminal (ticket_state t)" using o by (auto simp: still_open_def)
  obtain t' where "tk q' tid = Some t'" "core t' = core t" using reindex_frameD(9) [OF f, of tid t] t(1) by auto
  moreover have "next_ticket q' = next_ticket q" using f by (auto simp: reindex_frame_def)
  ultimately show "still_open tid n q'" using o t coreD(1) [of t' t] by (simp add: still_open_def)
qed

lemma evict_keeps_open: "tk q tid = Some t \<Longrightarrow> \<not> terminal (ticket_state t) \<Longrightarrow>
    tk (evict_terminal i q) tid = Some t"
  by (auto simp: evict_terminal_def Let_def split: option.splits)

lemma evict_next_ticket [simp]: "next_ticket (evict_terminal i q) = next_ticket q"
  by (auto simp: evict_terminal_def Let_def split: option.splits)

lemma still_open_prune: "still_open tid n q \<Longrightarrow> still_open tid n (prune_terminal now q)"
  unfolding prune_terminal_def Let_def
  by (intro fold_invariant_all [where P = "still_open tid n"]) (auto simp: still_open_def dest: evict_keeps_open)

lemma expire_step_other:
  "wp (expire_step now (i, u) acc) (\<lambda>_ s'. next_ticket s' = next_ticket s \<and> (tid \<noteq> i \<or> now < expires_at_ms u \<longrightarrow> tk s' tid = tk s tid))
     (\<lambda>_ _. True) s"
  by (auto simp: expire_step_def leave_queue_def pending_remove_def store_ticket_def wp_rules split: sum.splits)

lemma expire_retains:
  assumes l: "later q0 now q" and now: "in_range now" and t: "tk q tid = Some t" "\<not> terminal (ticket_state t)"
    "now < expires_at_ms t"
  shows "wp (expire_locked now) (\<lambda>_ q'. later q0 now q' \<and> still_open tid (next_ticket q) q') (\<lambda>_ _. True) q"
proof -
  have d: "dict_ok (tickets q)" using later_inv [OF l] by (auto simp: adm_inv_def book_ok_def)
  let ?I = "\<lambda>ys (_::ticket list) s. (\<forall>(i, u)\<in>set ys. tk q i = Some u) \<and> next_ticket s = next_ticket q \<and> tk s tid = Some t"
  have loop: "wp (for_acc (tickets q) [] (expire_step now)) (?I []) (\<lambda>_ _. True) q"
  proof (rule wp_for_acc [where I = ?I])
    fix x ys and acc :: "ticket list" and s assume I: "?I (x # ys) acc s"
    obtain i u where x: "x = (i, u)" by force
    show "wp (expire_step now x acc) (?I ys) (\<lambda>_ _. True) s"
      unfolding x by (rule wp_mono [OF expire_step_other [of _ _ _ _ _ tid]]) (use I x t in auto)
  qed (use t d in \<open>auto simp: dict_ok_def\<close>)
  have "wp (for_acc (tickets q) [] (expire_step now)) (\<lambda>_ s. later q0 now s \<and> still_open tid (next_ticket q) s) (\<lambda>_ _. True) q"
    by (rule wp_mono [OF wp_conj [OF loop expire_loop_keeps [OF l now]]]) (use t in \<open>auto simp: still_open_def\<close>)
  then show ?thesis
    unfolding expire_locked_def
    by (intro wp_bind_gets, elim wp_bindI, intro wp_bind_reindex [OF _ now, where ?q0.0 = q0])
      (auto simp: wp_rules later_prune intro: still_open_prune [OF still_open_frame])
qed

lemma promote_loop_spec:
  "later q0 now q \<Longrightarrow> promote_loop now acc q = (Inr ps, q') \<Longrightarrow>
   \<exists>new. ps = acc @ new \<and> pending_ids q = map ticket_id new @ pending_ids q' \<and>
     window_used q' = window_used q + (\<Sum>t\<leftarrow>new. ticket_units t) \<and>
     active_ids q' = active_ids q \<union> ticket_id ` set new \<and> (\<forall>t\<in>set new. ticket_state t = Admitted) \<and>
     next_ticket q' = next_ticket q \<and> later q0 now q' \<and> window_start_ms q' = window_start_ms q \<and>
     (\<forall>tid. still_open tid (next_ticket q) q \<longrightarrow> still_open tid (next_ticket q) q') \<and>
     (pending_ids q' = [] \<or> \<not> admissible now (the (tk q' (hd (pending_ids q')))) q')"
proof (induction "length (pending_ids q)" arbitrary: q acc rule: less_induct)
  case less
  note inv = later_inv [OF less.prems(1)]
  show ?case
  proof (cases "pending_ids q")
    case Nil
    then show ?thesis using less.prems by (simp add: promote_loop_cases [OF inv])
  next
    case (Cons tid rest)
    then obtain t where t: "tk q tid = Some t" using pending_iff [OF inv, of tid] by auto
    have id: "ticket_id t = tid" by (rule entry_okD(1) [OF ticket_entry [OF inv t]])
    let ?q = "admit_head tid rest t q" and ?t = "admitted_ticket t (state_version t + 1) (next_admission_token q)"
    consider "\<not> admissible now t q" | "admissible now t q" "state_version t < MAX_ADMISSION_INTEGER"
        "next_admission_token q < MAX_ADMISSION_INTEGER"
      using less.prems(2) Cons t by (auto simp: promote_loop_cases [OF inv, of acc] split: if_splits)
    then show ?thesis
    proof cases
      case 1
      then show ?thesis using less.prems Cons t by (simp add: promote_loop_cases [OF inv, of acc])
    next
      case 2
      have "length (pending_ids ?q) < length (pending_ids q)" using Cons by (simp add: admit_head_def Let_def)
      moreover have "later q0 now ?q" by (rule later_admit_head [OF less.prems(1) Cons t 2])
      moreover have "promote_loop now (acc @ [?t]) ?q = (Inr ps, q')"
        using less.prems(2) Cons t 2 by (simp add: promote_loop_cases [OF inv, of acc])
      ultimately obtain new where new: "ps = (acc @ [?t]) @ new" "pending_ids ?q = map ticket_id new @ pending_ids q'"
        "window_used q' = window_used ?q + (\<Sum>t\<leftarrow>new. ticket_units t)" "active_ids q' = active_ids ?q \<union> ticket_id ` set new"
        "\<forall>t\<in>set new. ticket_state t = Admitted" "next_ticket q' = next_ticket ?q" "later q0 now q'" "window_start_ms q' = window_start_ms ?q"
        "\<forall>tid. still_open tid (next_ticket ?q) ?q \<longrightarrow> still_open tid (next_ticket ?q) q'"
        "pending_ids q' = [] \<or> \<not> admissible now (the (tk q' (hd (pending_ids q')))) q'"
        using less.hyps [of ?q "acc @ [?t]"] by blast
      have "still_open i (next_ticket ?q) ?q" if "still_open i (next_ticket q) q" for i
        using that by (auto simp: still_open_def admit_head_def Let_def admitted_ticket_def terminal_def)
      moreover have "next_ticket ?q = next_ticket q" by (simp add: admit_head_def Let_def)
      ultimately have "still_open i (next_ticket q) q'" if "still_open i (next_ticket q) q" for i
        using new(9) that by metis
      then show ?thesis
        by (intro exI [of _ "?t # new"])
          (use new Cons id in \<open>auto simp: admit_head_def Let_def admitted_ticket_def\<close>)
    qed
  qed
qed

lemma refresh_twice:
  "window_start_ms r = window_start_ms (refresh_window now q) \<Longrightarrow> window_ms r = window_ms q \<Longrightarrow> 0 < window_ms q \<Longrightarrow>
   refresh_window now r = r"
  by (auto simp: refresh_window_def split: option.splits if_splits)

lemma promote_locked_spec:
  assumes l: "later q0 now q" and now: "in_range now" and run: "promote_locked now q = (Inr ps, q')"
  shows "pending_ids q = map ticket_id ps @ pending_ids q'"
    and "window_used q' = window_used (refresh_window now q) + (\<Sum>t\<leftarrow>ps. ticket_units t)"
    and "active_ids q' = active_ids q \<union> ticket_id ` set ps"
    and "\<forall>t\<in>set ps. ticket_state t = Admitted"
    and "pending_ids q' = [] \<or> \<not> admissible now (the (tk q' (hd (pending_ids q')))) q'"
    and "still_open tid (next_ticket q) q \<Longrightarrow> still_open tid (next_ticket q) q'"
    and "later q0 now q'"
proof -
  have lr: "later q0 now (refresh_window now q)" using later_refresh [OF l] now by (simp add: in_range_def)
  obtain r where r: "promote_loop now [] (refresh_window now q) = (Inr ps, r)" and q': "reindex now r = (Inr (), q')"
    using run by (auto simp: promote_locked_def py_monad_defs split: prod.splits sum.splits)
  from promote_loop_spec [OF lr r] have
    sp: "pending_ids q = map ticket_id ps @ pending_ids r"
      "window_used r = window_used (refresh_window now q) + (\<Sum>t\<leftarrow>ps. ticket_units t)"
      "active_ids r = active_ids q \<union> ticket_id ` set ps" "\<forall>t\<in>set ps. ticket_state t = Admitted"
      "next_ticket r = next_ticket q" "later q0 now r" "window_start_ms r = window_start_ms (refresh_window now q)"
      "pending_ids r = [] \<or> \<not> admissible now (the (tk r (hd (pending_ids r)))) r"
    and op: "still_open tid (next_ticket q) q \<Longrightarrow> still_open tid (next_ticket q) r"
    by (auto simp: still_open_def)
  have fr: "reindex_frame (refresh_window now r) q'" and lq: "later q0 now q'"
    using wp_result [OF reindex_keeps [OF sp(6) now] q'] by auto
  have same: "refresh_window now r = r"
    by (rule refresh_twice [OF sp(7)])
      (use later_config [OF sp(6)] later_config [OF l] later_inv [OF l]
        in \<open>auto simp: config_def adm_inv_def config_ok_def pos_range_def\<close>)
  note frd = reindex_frameD [OF fr [unfolded same]]
  show "pending_ids q = map ticket_id ps @ pending_ids q'"
    "window_used q' = window_used (refresh_window now q) + (\<Sum>t\<leftarrow>ps. ticket_units t)"
    "active_ids q' = active_ids q \<union> ticket_id ` set ps" "\<forall>t\<in>set ps. ticket_state t = Admitted"
    using sp(1-4) frd(1,2,4) by simp_all
  show "later q0 now q'" by (rule lq)
  show "still_open tid (next_ticket q) q \<Longrightarrow> still_open tid (next_ticket q) q'"
    using op still_open_frame [OF _ fr] by blast
  show "pending_ids q' = [] \<or> \<not> admissible now (the (tk q' (hd (pending_ids q')))) q'"
  proof (cases "pending_ids r")
    case (Cons i rest)
    then obtain t where t: "tk r i = Some t" using pending_iff [OF later_inv [OF sp(6)], of i] by auto
    obtain t' where "tk q' i = Some t'" "core t' = core t" using frd(9) [OF t] by blast
    then show ?thesis
      using sp(8) Cons t frd(1,2,4) configD [OF frd(3)] coreD(4,5) [of t' t] by (auto simp: admissible_def)
  qed (simp add: frd(1))
qed

section \<open>Properties\<close>



text \<open>
  Fencing of admissions. A token held by an admitted or running ticket after further
  orderly calls but not before them is larger than every token held before, and a token no
  longer held is never held again.
\<close>

theorem admission_tokens_increase:
  assumes "admission_reached q T" and "orderly calls q T" and "q' = fold admission_exec calls q" and "old \<in> held_tokens q"
    and more: "orderly more_calls q' (last_time calls T)"
  shows "(\<forall>new\<in>held_tokens q' - held_tokens q. old < new) \<and>
    (old \<notin> held_tokens q' \<longrightarrow> old \<notin> held_tokens (fold admission_exec more_calls q'))"
proof (intro conjI ballI impI)
  let ?s = "(q, T)" and ?s' = "(q', last_time calls T)"
  have inv: "case ?s of (q, T) \<Rightarrow> adm_inv T q" using reached_inv [OF assms(1)] by simp
  have s': "fold admission_step calls ?s = ?s'" by (simp add: orderly_steps [OF assms(2)] assms(3))
  have inv': "case ?s' of (q, T) \<Rightarrow> adm_inv T q" unfolding s' [symmetric] by (rule admission.inv_calls [OF inv])
  have old: "old \<in> held_tokens (fst ?s)" using assms(4) by simp
  show "old < new" if "new \<in> held_tokens q' - held_tokens q" for new
    using admission_fence.later_token_greater [OF inv old, of new calls] that s' by simp
  have "old < next_admission_token q" using admission_fence.live_below [OF inv old] by simp
  also have "\<dots> \<le> next_admission_token q'"
    using admission_fence.counter_mono_calls [OF inv, of calls] by (simp add: s')
  finally have "old < next_admission_token (fst ?s')" by simp
  then show "old \<notin> held_tokens (fold admission_exec more_calls q')" if "old \<notin> held_tokens q'"
    using admission_fence.retired_token_never_returns [OF inv', of old more_calls] that
    by (simp add: orderly_steps [OF more])
qed

text \<open>
  Promotion is first in first out, within the limits and leaves no room unused. The
  tickets promoted are a prefix of the pending queue and fill the window by their units; when it stops
  with tickets still pending, the first of them does not fit.
\<close>

theorem promotion_fifo:
  assumes "admission_reached q T" and "T \<le> now" and "in_range now" and "promote_locked now q = (Inr ps, q')"
  shows "pending_ids q = map ticket_id ps @ pending_ids q' \<and>
    window_used q' = window_used (refresh_window now q) + (\<Sum>t\<leftarrow>ps. ticket_units t) \<and> window_used q' \<le> rate_limit q \<and>
    active_ids q' = active_ids q \<union> ticket_id ` set ps \<and> int (card (active_ids q')) \<le> max_concurrent q \<and>
    (pending_ids q' = [] \<or> \<not> admissible now (the (tk q' (hd (pending_ids q')))) q')"
proof -
  have l: "later q now q" using adm_inv_later [OF reached_inv [OF assms(1)] assms(2)] by (rule later_refl)
  note sp = promote_locked_spec [OF l assms(3,4)]
  have "limits_ok now q'" by (rule adm_invD(4) [OF later_inv [OF sp(7)]])
  moreover have "rate_limit q' = rate_limit q" "max_concurrent q' = max_concurrent q"
    using later_config [OF sp(7)] by (simp_all add: config_def)
  ultimately show ?thesis using sp(1-3,5) by (auto simp: limits_ok_def)
qed

text \<open>
  The bookkeeping is sound. No call on a reachable queue ends in a missing dictionary
  key, a missing queue entry or a failed assertion, whatever its arguments, unless it cancels
  with the state \<^verbatim>\<open>expired\<close>.
\<close>

theorem admission_no_internal_error:
  assumes "admission_reached q T" and "T \<le> now" and "fst (admission_effect c now q) = Some e"
    and "\<not> cancels_as_expired c"
  shows "\<not> internal_error e"
  using admission_effect_keeps [OF adm_inv_later [OF reached_inv [OF assms(1)] assms(2)] assms(4)] assms(3) by blast

text \<open>
  Submission is idempotent. Submitting a request again while its ticket is open and has not
  expired issues no new ticket: the call returns that ticket, marked as a duplicate.
\<close>

theorem submit_idempotent:
  assumes r: "admission_reached q T" "T \<le> now"
    and args: "admission_string run = Inr (run_id t)" "admission_string req = Inr (request_id t)"
      "admission_string own = Inr (owner_id t)" "admission_optional_string ten = Inr (tenant_id t)"
      "admission_positive un = Inr (ticket_units t)"
    and t: "tk q tid = Some t" "\<not> terminal (ticket_state t)" "now < expires_at_ms t"
    and run: "submit run req own ten (PyInt now) un q = (Inr sub, q')"
  shows "duplicate sub \<and> ticket_id (submission_ticket sub) = tid \<and> next_ticket q' = next_ticket q"
proof -
  have inv: "adm_inv now q" by (rule adm_inv_later [OF reached_inv [OF r(1)] r(2)])
  note l = later_refl [OF inv]
  let ?Q = "\<lambda>sub q'. duplicate sub \<and> ticket_id (submission_ticket sub) = tid \<and> next_ticket q' = next_ticket q"
  have found: "wp (bind_py (find_duplicate (tenant_id t, owner_id t, request_id t) now) (\<lambda>dup.
      case dup of Some existing \<Rightarrow> return_py \<lparr>submission_ticket = existing, duplicate = True\<rparr>
      | None \<Rightarrow> issue_ticket a b c d now e)) ?Q (\<lambda>_ _. True) r"
    if lr: "later q now r" and o: "still_open tid (next_ticket q) r" for r a b c d e
  proof -
    obtain u where u: "tk r tid = Some u" "\<not> terminal (ticket_state u)" using o by (auto simp: still_open_def)
    note en = entry_okD [OF ticket_entry [OF later_inv [OF lr] u(1)]]
    have "ticket_key u = ticket_key t"
      using lr t(1) u(1) identityD(2) [OF evolves_identity] by (metis later_def evolvesD(4))
    then have "map_of (request_tickets r) (tenant_id t, owner_id t, request_id t) = Some tid"
      using en(4) by (simp add: ticket_key_def)
    then show ?thesis
      using u en(1) o by (auto simp: find_duplicate_def wp_rules terminal_retention_expired_def terminal_def still_open_def)
  qed
  have promoted: "wp (promote_locked now) (\<lambda>_ r. later q now r \<and> still_open tid (next_ticket q) r) (\<lambda>_ _. True) r"
    if "later q now r" "still_open tid (next_ticket q) r" "in_range now" for r
    by (rule wpI) (use promote_locked_spec(6,7) [OF that(1,3)] that(2) in \<open>auto simp: still_open_def\<close>)
  have "wp (submit run req own ten (PyInt now) un) ?Q (\<lambda>_ _. True) q"
    unfolding submit_def
  proof (intro wp_bind_lift wp_bind_gets wp_bind_raise_if wp_bind_check_resubmission [OF inv], goal_cases)
    case (9 run' req' own' ten' now' un')
    have now: "now' = now" "in_range now" using 9(5) non_negative_result by blast+
    have eqs: "req' = request_id t" "own' = owner_id t" "ten' = tenant_id t" using 9 args by auto
    show ?case
      unfolding now(1) eqs
      by (rule wp_bindI [OF expire_retains [OF l now(2) t]], elim conjE, rule wp_bindI [OF promoted])
        (use now(2) found in auto)
  qed auto
  then show ?thesis by (rule wp_result) (rule run)
qed

text \<open>
  Expiry. When \<^verbatim>\<open>expire\<close> returns, no ticket that is open has reached its expiry time,
  and every ticket that was open and had not reached it is still open.
\<close>

theorem expire_exact:
  assumes r: "admission_reached q T" "T \<le> now" and run: "expire (PyInt now) q = (Inr expired, q')"
  shows "(\<forall>tid t. tk q' tid = Some t \<longrightarrow> \<not> terminal (ticket_state t) \<longrightarrow> now < expires_at_ms t) \<and>
    (\<forall>tid t. tk q tid = Some t \<longrightarrow> \<not> terminal (ticket_state t) \<longrightarrow> now < expires_at_ms t \<longrightarrow>
       (\<exists>t'. tk q' tid = Some t' \<and> \<not> terminal (ticket_state t')))"
proof (intro conjI allI impI)
  have inv: "adm_inv now q" by (rule adm_inv_later [OF reached_inv [OF r(1)] r(2)])
  have "no_overdue now q'" using wp_result [OF expire_call_keeps [OF inv] run] by simp
  then show "now < expires_at_ms t" if "tk q' tid = Some t" "\<not> terminal (ticket_state t)" for tid t
    using that by (simp add: no_overdue_def)
  have now: "in_range now" using run by (auto simp: expire_def py_monad_defs in_range_def split: if_splits)
  show "\<exists>t'. tk q' tid = Some t' \<and> \<not> terminal (ticket_state t')"
    if "tk q tid = Some t" "\<not> terminal (ticket_state t)" "now < expires_at_ms t" for tid t
  proof -
    have nn: "lift_py (admission_non_negative (PyInt now)) = (return_py now :: int admission)"
      using now by (intro ext) (simp add: lift_py_def return_py_def in_range_def)
    have "wp (bind_py (expire_locked now) (\<lambda>expired. bind_py (modify_py (prune_terminal now)) (\<lambda>_. return_py expired)))
        (\<lambda>_. still_open tid (next_ticket q)) (\<lambda>_ _. True) q"
      by (rule wp_bindI [OF expire_retains [OF later_refl [OF inv] now that]]) (auto simp: wp_rules still_open_prune)
    then have "wp (expire (PyInt now)) (\<lambda>_. still_open tid (next_ticket q)) (\<lambda>_ _. True) q"
      unfolding expire_def nn by (simp add: wp_bind wp_return)
    from wp_result [OF this run] show ?thesis by (auto simp: still_open_def)
  qed
qed

section \<open>Cancelling with the state \<^verbatim>\<open>expired\<close>\<close>


section \<open>Sample states\<close>

definition sample_queue :: admission_queue where
  "sample_queue = \<lparr>limiter_id = ''gpu'', max_concurrent = 1, rate_limit = 2, window_ms = 10, max_pending = 3,
     ticket_ttl_ms = 50, max_terminal_tickets = 5, tickets = [], request_tickets = [], pending_ids = [], active_ids = {},
     window_start_ms = None, window_used = 0, next_ticket = 1, next_sequence = 1, next_admission_token = 1\<rparr>"

lemma sample_queue_made:
  "mk_admission_queue (PyStr ''gpu'') (PyInt 1) (PyInt 2) (PyInt 10) (PyInt 3) (PyInt 50) (PyInt 5) = Inr sample_queue"
  by (simp add: mk_admission_queue_def sample_queue_def admission_positive_def has_control_def py_strip_def py_space_def Let_def)

definition sample_ticket :: ticket where
  "sample_ticket = \<lparr>ticket_id = ''gpu-ticket-000001'', run_id = ''r1'', request_id = ''a'', owner_id = ''o'',
     ticket_limiter_id = ''gpu'', ticket_state = Admitted, ticket_units = 1, sequence = 1, state_version = 1,
     issued_at_ms = 1, expires_at_ms = 51, queue_position = None, retry_after_ms = None, ticket_token = Some 1,
     started_at_ms = None, completed_at_ms = None, tenant_id = None\<rparr>"

definition sample_ticket2 :: ticket where
  "sample_ticket2 = \<lparr>ticket_id = ''gpu-ticket-000002'', run_id = ''r2'', request_id = ''b'', owner_id = ''o'',
     ticket_limiter_id = ''gpu'', ticket_state = Queued, ticket_units = 2, sequence = 2, state_version = 1,
     issued_at_ms = 2, expires_at_ms = 52, queue_position = Some 1, retry_after_ms = Some 9, ticket_token = None,
     started_at_ms = None, completed_at_ms = None, tenant_id = None\<rparr>"

definition sample_queue1 :: admission_queue where
  "sample_queue1 = sample_queue\<lparr>tickets := [(''gpu-ticket-000001'', sample_ticket)],
     request_tickets := [((None, ''o'', ''a''), ''gpu-ticket-000001'')], active_ids := {''gpu-ticket-000001''},
     window_start_ms := Some 1, window_used := 1, next_ticket := 2, next_sequence := 2, next_admission_token := 2\<rparr>"

lemma sample_strings:
  "admission_string (PyStr ''gpu'') = Inr ''gpu''" "admission_string (PyStr ''r1'') = Inr ''r1''"
  "admission_string (PyStr ''a'') = Inr ''a''" "admission_string (PyStr ''o'') = Inr ''o''"
  "admission_string (PyStr ''r2'') = Inr ''r2''" "admission_string (PyStr ''b'') = Inr ''b''"
  "admission_string (PyStr ''gpu-ticket-000001'') = Inr ''gpu-ticket-000001''"
  "admission_string (PyStr ''gpu-ticket-000002'') = Inr ''gpu-ticket-000002''"
  by (simp_all add: has_control_def py_strip_def py_space_def Let_def)

lemma promote_loop_stop:
  "pending_ids q = [] \<Longrightarrow> promote_loop now acc q = (Inr acc, q)"
  "max_concurrent q \<le> int (card (active_ids q)) \<Longrightarrow> promote_loop now acc q = (Inr acc, q)"
  "pending_ids q = tid # rest \<Longrightarrow> tk q tid = Some t \<Longrightarrow> rate_limit q < window_used q + ticket_units t \<Longrightarrow>
    promote_loop now acc q = (Inr acc, q)"
  by (simp_all add: promote_loop.simps [of now acc q] split: list.split)

lemma promote_loop_go:
  assumes "pending_ids q = tid # rest" "int (card (active_ids q)) < max_concurrent q" "tk q tid = Some t"
    "issued_at_ms t \<le> now" "window_used q + ticket_units t \<le> rate_limit q" "state_version t < MAX_ADMISSION_INTEGER"
    "next_admission_token q < MAX_ADMISSION_INTEGER"
    "mk_ticket (admitted_ticket t (state_version t + 1) (next_admission_token q)) = Inr t'"
  shows "promote_loop now acc q = promote_loop now (acc @ [t'])
    (q\<lparr>pending_ids := rest, next_admission_token := next_admission_token q + 1, tickets := dict_set tid t' (tickets q),
       active_ids := insert tid (active_ids q), window_used := window_used q + ticket_units t\<rparr>)"
  using assms by (simp add: promote_loop.simps [of now acc q] increment_admission_counter_def Let_def)

lemmas admission_methods =
  submit_def expire_locked_def reindex_def reindex_step_def [THEN fun_cong, THEN fun_cong] expire_step_def [THEN fun_cong, THEN fun_cong]
  promote_locked_def find_duplicate_def check_resubmission_def issue_ticket_def take_slot_def record_ticket_def
  store_ticket_def lookup_ticket_def retry_delay_def leave_queue_def pending_remove_def
  validate_mutation_time_def get_ticket_def validate_fencing_def mark_running_def complete_def cancel_def cancel_ticket_def
  expire_def promote_def

lemmas admission_run = admission_methods [THEN fun_cong] py_run promote_loop_stop

lemmas admission_eval =
  new_ticket_def can_admit_def refresh_window_def prune_terminal_def evict_terminal_def terminal_retention_expired_def
  admission_optional_string_def admission_positive_def increment_admission_counter_def ticket_id_of_def fmt_06d_digit
  mk_ticket_def opt_check_def fault_if_def terminal_def dict_values_def Let_def sample_strings retention_key_def
  effect_of_def admitted_ticket_def

lemmas sample_defs = sample_queue_def sample_queue1_def sample_ticket_def

lemma sample_submitted:
  "submit (PyStr ''r1'') (PyStr ''a'') (PyStr ''o'') PyNone (PyInt 1) (PyInt 1) sample_queue =
   (Inr \<lparr>submission_ticket = sample_ticket, duplicate = False\<rparr>, sample_queue1)"
  by (simp add: admission_run admission_eval sample_queue_def sample_queue1_def sample_ticket_def del: admission_string.simps cong: bind_run_cong)

definition sample_queue2 :: admission_queue where
  "sample_queue2 = sample_queue1\<lparr>tickets := [(''gpu-ticket-000001'', sample_ticket), (''gpu-ticket-000002'', sample_ticket2)],
     request_tickets := [((None, ''o'', ''a''), ''gpu-ticket-000001''), ((None, ''o'', ''b''), ''gpu-ticket-000002'')],
     pending_ids := [''gpu-ticket-000002''], next_ticket := 3, next_sequence := 3\<rparr>"

lemma sample_submitted2:
  "submit (PyStr ''r2'') (PyStr ''b'') (PyStr ''o'') PyNone (PyInt 2) (PyInt 2) sample_queue1 =
   (Inr \<lparr>submission_ticket = sample_ticket2, duplicate = False\<rparr>, sample_queue2)"
  by (simp add: admission_run admission_eval sample_queue_def sample_queue1_def sample_queue2_def sample_ticket_def sample_ticket2_def
      del: admission_string.simps cong: bind_run_cong)


lemma sample_reached: "admission_reached sample_queue1 1" "admission_reached sample_queue2 2"
proof -
  have f: "fresh_queue sample_queue" using sample_queue_made unfolding fresh_queue_def by blast
  let ?c1 = "[(1, Submit (PyStr ''r1'') (PyStr ''a'') (PyStr ''o'') PyNone (PyInt 1))]"
  let ?c2 = "?c1 @ [(2, Submit (PyStr ''r2'') (PyStr ''b'') (PyStr ''o'') PyNone (PyInt 2))]"
  have "orderly ?c1 sample_queue 0" "fold admission_exec ?c1 sample_queue = sample_queue1" "last_time ?c1 0 = 1"
    by (simp_all add: sample_submitted effect_of_def orderly_call_def last_time_def)
  with f show "admission_reached sample_queue1 1" unfolding admission_reached_def by metis
  have "orderly ?c2 sample_queue 0" "fold admission_exec ?c2 sample_queue = sample_queue2" "last_time ?c2 0 = 2"
    by (simp_all add: sample_submitted sample_submitted2 effect_of_def orderly_call_def last_time_def)
  with f show "admission_reached sample_queue2 2" unfolding admission_reached_def by metis
qed

definition sample_ticket3 :: ticket where
  "sample_ticket3 = sample_ticket2\<lparr>state_version := 2, retry_after_ms := Some 8\<rparr>"

lemma sample_completed:
  "complete (PyStr ''gpu-ticket-000001'') (PyInt 1) (PyStr ''completed'') (PyInt 3) sample_queue2 =
   (Inr (sample_ticket\<lparr>ticket_state := Completed, state_version := 2, completed_at_ms := Some 3\<rparr>, []),
    sample_queue2\<lparr>tickets := [(''gpu-ticket-000001'', sample_ticket\<lparr>ticket_state := Completed, state_version := 2,
        completed_at_ms := Some 3\<rparr>), (''gpu-ticket-000002'', sample_ticket3)], active_ids := {}\<rparr>)"
  by (simp add: admission_run admission_eval sample_defs sample_queue2_def sample_ticket2_def sample_ticket3_def
      del: admission_string.simps cong: bind_run_cong)

section \<open>Witnesses\<close>


lemma sample_completed_exec:
  "fold admission_exec [(3, Complete (PyStr ''gpu-ticket-000001'') (PyInt 1) (PyStr ''completed''))] sample_queue2 =
   snd (complete (PyStr ''gpu-ticket-000001'') (PyInt 1) (PyStr ''completed'') (PyInt 3) sample_queue2)"
  "orderly [(3, Complete (PyStr ''gpu-ticket-000001'') (PyInt 1) (PyStr ''completed''))] sample_queue2 2"
  by (simp_all add: effect_of_def orderly_call_def)


lemma sample_held:
  "1 \<in> held_tokens sample_queue2"
  "1 \<notin> held_tokens (snd (complete (PyStr ''gpu-ticket-000001'') (PyInt 1) (PyStr ''completed'') (PyInt 3) sample_queue2))"
  unfolding sample_completed
  by (auto simp: held_tokens_def sample_queue2_def slot_def sample_ticket_def sample_ticket3_def sample_ticket2_def
      split: if_splits intro!: exI [of _ "''gpu-ticket-000001''"])

theorem admission_tokens_increase_witness:
  "1 \<notin> held_tokens (fold admission_exec [(20, Promote)]
     (snd (complete (PyStr ''gpu-ticket-000001'') (PyInt 1) (PyStr ''completed'') (PyInt 3) sample_queue2)))"
  using admission_tokens_increase [OF sample_reached(2) sample_completed_exec(2) refl sample_held(1),
      where more_calls = "[(20, Promote)]"] sample_held(2)
  unfolding sample_completed_exec by (simp add: orderly_call_def last_time_def)

lemma sample_promoted:
  "promote_locked 3 sample_queue2 =
   (Inr [], sample_queue2\<lparr>tickets := [(''gpu-ticket-000001'', sample_ticket), (''gpu-ticket-000002'', sample_ticket3)]\<rparr>)"
  by (simp add: admission_run admission_eval sample_defs sample_queue2_def sample_ticket2_def sample_ticket3_def
      del: admission_string.simps cong: bind_run_cong)

theorem promotion_fifo_witness:
  "pending_ids (snd (promote_locked 3 sample_queue2)) = [''gpu-ticket-000002'']"
  using promotion_fifo [OF sample_reached(2) _ _ sample_promoted]
  unfolding sample_promoted by (simp add: in_range_def sample_queue2_def)

theorem admission_no_internal_error_witness:
  "\<not> internal_error (AdmissionStaleFencingTokenError ''gpu-ticket-000001'' (Some 1) 7)"
  by (rule admission_no_internal_error [OF sample_reached(2), where now = 3
        and c = "MarkRunning (PyStr ''gpu-ticket-000001'') (PyInt 7)"], simp)
    (simp_all add: admission_run admission_eval sample_defs sample_queue2_def sample_ticket2_def
      del: admission_string.simps cong: bind_run_cong)

lemma sample_resubmitted:
  "submit (PyStr ''r1'') (PyStr ''a'') (PyStr ''o'') PyNone (PyInt 2) (PyInt 1) sample_queue1 =
   (Inr \<lparr>submission_ticket = sample_ticket, duplicate = True\<rparr>, sample_queue1)"
  by (simp add: admission_run admission_eval sample_defs sample_queue2_def sample_ticket2_def sample_ticket3_def
      del: admission_string.simps cong: bind_run_cong)

theorem submit_idempotent_witness:
  "next_ticket (snd (submit (PyStr ''r1'') (PyStr ''a'') (PyStr ''o'') PyNone (PyInt 2) (PyInt 1) sample_queue1)) = 2"
  using submit_idempotent [OF sample_reached(1) _ _ _ _ _ _ _ _ _ sample_resubmitted, where tid = "''gpu-ticket-000001''"
      and t = sample_ticket]
  unfolding sample_resubmitted
  by (simp add: sample_strings admission_optional_string_def admission_positive_def sample_queue1_def sample_ticket_def
      terminal_def del: admission_string.simps)

lemma sample_expired:
  "expire (PyInt 30) sample_queue1 = (Inr [], sample_queue1\<lparr>window_start_ms := Some 30, window_used := 0\<rparr>)"
  by (simp add: admission_run admission_eval sample_defs sample_queue2_def sample_ticket2_def sample_ticket3_def
      del: admission_string.simps cong: bind_run_cong)

theorem expire_exact_witness:
  "(\<exists>t'. tk (snd (expire (PyInt 30) sample_queue1)) ''gpu-ticket-000001'' = Some t' \<and> \<not> terminal (ticket_state t'))"
  using expire_exact [OF sample_reached(1) _ sample_expired] unfolding sample_expired
  by (auto simp: sample_queue1_def sample_ticket_def terminal_def)



text \<open>
  The consequence. On a queue with one admitted and one pending ticket, cancelling the
  pending one as expired fails, and the next expiry pass over it raises \<^verbatim>\<open>ValueError\<close>
  from the queue of pending identifiers, so every later call that expires tickets fails too.
\<close>

theorem cancel_as_expired_breaks_expiry:
  "fst (expire (PyInt 60) (snd (cancel (PyStr ''gpu-ticket-000002'') (PyInt 3) (PyStr ''expired'') PyNone sample_queue2))) =
     Inl AdmissionDequeValueError"
  by (simp add: admission_run admission_eval sample_defs sample_queue2_def sample_ticket2_def sample_ticket3_def
      del: admission_string.simps cong: bind_run_cong)

end
