(* ===== verification/Budget.thy ===== *)
theory Budget
  imports GB_Prelude "HOL-Library.Char_ord" "HOL-Library.List_Lexorder" "HOL-Library.Product_Lexorder"
begin

text \<open>
  The in-memory budget ledger of \<^verbatim>\<open>budget.py\<close>: hierarchical accounts, reservations that hold
  amounts in every account up to the root, settlement with overdraft, permits and
  completion reserves. Decimal sums and differences are rounded to the 28 digits of the
  default context, comparisons are exact. The exponent range of the context is not
  modelled. A \<^verbatim>\<open>replace\<close> of one field of a record that was validated when it was built is a
  record update; its new field is within range by the counter check before it. Parsing of
  ISO timestamps after the syntactic checks is the argument \<open>parse_iso\<close>, which
  stands for \<^verbatim>\<open>datetime.fromisoformat\<close> and the conversion to UTC; times whose conversion
  overflows are outside the model.
\<close>

datatype budget_status = Active | Exhausted | Paused | Closed

datatype reservation_purpose = ProviderCall | Task | Trial | Tool | Finalization | Cleanup

datatype reservation_status = Reserved | Committed | Released | ReservationExpired

datatype completion_purpose = CompletionFinalization | Checkpoint | CompletionCleanup | Compensation

datatype completion_status = Available | Spent | CompletionReleased | CompletionExpired

datatype budget_error =
    BudgetValueError
  | BudgetTypeError
  | BudgetKeyError
  | BudgetNotFoundError
  | BudgetConflictError
  | BudgetExceededError
  | BudgetReservationNotFoundError
  | BudgetReservationStateError
  | BudgetAccountStateError string budget_status
  | BudgetPermitNotFoundError
  | BudgetPermitScopeError string string
  | BudgetPermitFencingError string string int "int option"
  | BudgetPermitExpiredError string string pyval
  | BudgetCompletionReserveNotFoundError
  | BudgetCompletionReserveConflictError
  | BudgetCompletionReserveUnauthorizedError string string
  | BudgetCompletionReserveStateError

abbreviation MAX_BUDGET_COUNTER :: int where
  "MAX_BUDGET_COUNTER \<equiv> 18446744073709551615"

section \<open>Validators\<close>

fun budget_string :: "pyval \<Rightarrow> budget_error + string" where
  "budget_string (PyStr s) =
     (if has_surrogate s then Inl BudgetValueError
      else if py_strip s = [] then Inl BudgetValueError
      else if s \<noteq> py_strip s then Inl BudgetValueError
      else if has_control s then Inl BudgetValueError
      else Inr s)"
| "budget_string _ = Inl BudgetValueError"

definition budget_optional_string :: "pyval \<Rightarrow> budget_error + string option" where
  "budget_optional_string v =
     (if v = PyNone then Inr None else bind_sum (budget_string v) (\<lambda>s. Inr (Some s)))"

fun budget_non_negative :: "pyval \<Rightarrow> budget_error + int" where
  "budget_non_negative (PyInt i) =
     (if i < 0 then Inl BudgetValueError
      else if MAX_BUDGET_COUNTER < i then Inl BudgetValueError
      else Inr i)"
| "budget_non_negative _ = Inl BudgetValueError"

definition increment_budget_counter :: "int \<Rightarrow> budget_error + int" where
  "increment_budget_counter n = (if MAX_BUDGET_COUNTER \<le> n then Inl BudgetConflictError else Inr (n + 1))"

definition numeric_record_suffix :: "string \<Rightarrow> string \<Rightarrow> int" where
  "numeric_record_suffix record_id prefix =
     (let suffix = remove_prefix record_id prefix in
      if starts_with record_id prefix \<and> is_ascii_decimal suffix then int_of_decimal suffix else 0)"

text \<open>A collection of strings; a value that cannot be iterated is \<^const>\<open>PyOther\<close> or a number.\<close>

fun budget_string_tuple :: "pyval \<Rightarrow> budget_error + string list" where
  "budget_string_tuple (PyList xs) = map_sum_list budget_string xs"
| "budget_string_tuple (PyTuple xs) = map_sum_list budget_string xs"
| "budget_string_tuple (PyDict items) = map_sum_list (\<lambda>(k, v). budget_string k) items"
| "budget_string_tuple _ = Inl BudgetValueError"

text \<open>
  \<^verbatim>\<open>_parse_budget_permit_datetime\<close>: \<^verbatim>\<open>str.isdigit\<close> accepts the superscripts one, two and
  three besides the decimal digits; \<^verbatim>\<open>int\<close> rejects them, with the same exception class.
\<close>

definition py_isdigit :: "char \<Rightarrow> bool" where
  "py_isdigit c \<longleftrightarrow> is_digit c \<or> code_point c \<in> {178, 179, 185}"

definition offset_suffix_ok :: "string \<Rightarrow> bool" where
  "offset_suffix_ok s \<longleftrightarrow>
     length s = 6 \<and> (s ! 0 = CHR ''+'' \<or> s ! 0 = CHR ''-'') \<and> list_all py_isdigit (take 2 (drop 1 s)) \<and>
     s ! 3 = CHR '':'' \<and> list_all py_isdigit (drop 4 s)"

definition parse_budget_permit_datetime :: "(string \<Rightarrow> rat option) \<Rightarrow> pyval \<Rightarrow> budget_error + rat" where
  "parse_budget_permit_datetime parse_iso v =
     (case v of
        PyStr s \<Rightarrow>
          if py_strip s = [] then Inl BudgetValueError
          else if s \<noteq> py_strip s \<or> length s \<le> 19 \<or> s ! 10 \<noteq> CHR ''T'' then Inl BudgetValueError
          else
            let fraction = (if s ! 19 = CHR ''.'' then takeWhile py_isdigit (drop 20 s) else []);
                start = (if s ! 19 = CHR ''.'' then 20 + length fraction else 19);
                suffix = drop start s
            in if s ! 19 = CHR ''.'' \<and> fraction = [] then Inl BudgetValueError
               else if suffix = ''Z'' then
                 (case parse_iso (take start s @ ''+00:00'') of None \<Rightarrow> Inl BudgetValueError | Some t \<Rightarrow> Inr t)
               else if offset_suffix_ok suffix then
                 (if \<not> list_all is_digit (take 2 (drop 1 suffix)) \<or> \<not> list_all is_digit (drop 4 suffix) \<or>
                     23 < int_of_decimal (take 2 (drop 1 suffix)) \<or> 59 < int_of_decimal (drop 4 suffix)
                  then Inl BudgetValueError
                  else (case parse_iso s of None \<Rightarrow> Inl BudgetValueError | Some t \<Rightarrow> Inr t))
               else Inl BudgetValueError
      | _ \<Rightarrow> Inl BudgetValueError)"

section \<open>Amounts\<close>

text \<open>
  A decimal argument: a \<^verbatim>\<open>Decimal\<close>, or another value with the result of
  \<^verbatim>\<open>Decimal(str(value))\<close>, which may fail.
\<close>

datatype pydecimal = DecFinite rat | DecSpecial

datatype decimal_arg = AsDecimal pydecimal | Converted "pydecimal option"

record usage_amount =
  usage_kind :: string
  usage_value :: rat
  usage_unit :: string
  usage_dimensions :: "(string \<times> string) list"

fun dimension_pair :: "pyval \<Rightarrow> pyval \<Rightarrow> bool" where
  "dimension_pair (PyStr k) (PyStr v) \<longleftrightarrow> py_strip k \<noteq> [] \<and> k = py_strip k \<and> py_strip v \<noteq> [] \<and> v = py_strip v"
| "dimension_pair _ _ = False"

fun collect_dimensions :: "(string \<times> string) list \<Rightarrow> (pyval \<times> pyval) list \<Rightarrow> budget_error + (string \<times> string) list" where
  "collect_dimensions acc [] = Inr acc"
| "collect_dimensions acc ((k, v) # rest) =
     (if \<not> dimension_pair k v then Inl BudgetValueError
      else case (k, v) of
        (PyStr key, PyStr value) \<Rightarrow>
          if map_of acc key \<noteq> None then Inl BudgetValueError else collect_dimensions (dict_set key value acc) rest
      | _ \<Rightarrow> Inl BudgetValueError)"

definition mk_usage_amount :: "pyval \<Rightarrow> decimal_arg \<Rightarrow> pyval \<Rightarrow> pyval \<Rightarrow> budget_error + usage_amount" where
  "mk_usage_amount kind amount unit dims =
     bind_sum (budget_string kind) (\<lambda>kind'.
     bind_sum (budget_string unit) (\<lambda>unit'.
     bind_sum (case dims of PyDict items \<Rightarrow> collect_dimensions [] items | _ \<Rightarrow> Inl BudgetValueError) (\<lambda>dims'.
     bind_sum (map_sum_list (\<lambda>(k, v). bind_sum (budget_string (PyStr k)) (\<lambda>_. budget_string (PyStr v))) dims') (\<lambda>_.
     bind_sum (case amount of
                 AsDecimal d \<Rightarrow> Inr d
               | Converted None \<Rightarrow> Inl BudgetValueError
               | Converted (Some d) \<Rightarrow> Inr d) (\<lambda>d.
     case d of
       DecSpecial \<Rightarrow> Inl BudgetValueError
     | DecFinite x \<Rightarrow>
         if x < 0 then Inl BudgetValueError
         else Inr \<lparr>usage_kind = kind', usage_value = x, usage_unit = unit', usage_dimensions = dims'\<rparr>)))))"

text \<open>A collection argument: \<^const>\<open>None\<close> when it is not one, entries \<^const>\<open>None\<close> that are no amounts.\<close>

type_synonym amounts_arg = "usage_amount option list option"

definition validate_usage_amounts :: "amounts_arg \<Rightarrow> budget_error + usage_amount list" where
  "validate_usage_amounts v =
     (case v of
        None \<Rightarrow> Inl BudgetValueError
      | Some xs \<Rightarrow> if None \<in> set xs then Inl BudgetValueError else Inr (map the xs))"

type_synonym amount_key = "string \<times> string \<times> (string \<times> string) list"
type_synonym amount_map = "(amount_key, rat) dict"

definition amount_key :: "usage_amount \<Rightarrow> amount_key" where
  "amount_key a = (usage_kind a, usage_unit a, sort (usage_dimensions a))"

definition amount_of :: "amount_map \<Rightarrow> amount_key \<Rightarrow> rat" where
  "amount_of d k = (case map_of d k of None \<Rightarrow> 0 | Some x \<Rightarrow> x)"

definition add_amount :: "amount_key \<Rightarrow> rat \<Rightarrow> amount_map \<Rightarrow> amount_map" where
  "add_amount k x d = dict_set k (dec_add (amount_of d k) x) d"

definition sum_amounts :: "usage_amount list \<Rightarrow> amount_map" where
  "sum_amounts amounts =
     filter (\<lambda>(k, x). x \<noteq> 0) (fold (\<lambda>a d. add_amount (amount_key a) (usage_value a) d) amounts [])"

definition amounts_to_dict :: "amounts_arg \<Rightarrow> budget_error + amount_map" where
  "amounts_to_dict v = bind_sum (validate_usage_amounts v) (\<lambda>amounts. Inr (sum_amounts amounts))"

definition dict_to_amounts :: "amount_map \<Rightarrow> budget_error + usage_amount list" where
  "dict_to_amounts values =
     map_sum_list (\<lambda>k. case k of (kind, unit, dims) \<Rightarrow>
         mk_usage_amount (PyStr kind) (AsDecimal (DecFinite (amount_of values k))) (PyStr unit)
           (PyDict (map (\<lambda>(a, b). (PyStr a, PyStr b)) dims)))
       (filter (\<lambda>k. amount_of values k \<noteq> 0) (sort (map fst values)))"

section \<open>Records\<close>

record resource_ref =
  resource_id :: string
  resource_kind :: "string option"
  resource_tenant_id :: "string option"
  resource_attributes :: pyval

type_synonym resource_arg = "resource_ref option"

definition validate_resource_ref :: "resource_arg \<Rightarrow> budget_error + resource_ref" where
  "validate_resource_ref r = (case r of None \<Rightarrow> Inl BudgetValueError | Some x \<Rightarrow> Inr x)"

record budget_account =
  account_id :: string
  scope :: resource_ref
  allocated :: "usage_amount list"
  parent_budget_id :: "string option"
  account_status :: budget_status
  policy_ref :: string
  revision :: int

record budget_reservation =
  reservation_id :: string
  reservation_budget :: string
  reservation_owner :: resource_ref
  reservation_amounts :: "usage_amount list"
  purpose :: reservation_purpose
  reservation_expires_at :: string
  reservation_token :: int
  reservation_status :: reservation_status

record budget_balance =
  balance_budget :: string
  balance_allocated :: "usage_amount list"
  balance_reserved :: "usage_amount list"
  balance_committed :: "usage_amount list"
  balance_available :: "usage_amount list"
  balance_overdraft :: "usage_amount list"
  balance_revision :: int

record budget_settlement =
  settlement_reservation :: string
  settlement_budget :: string
  settlement_committed :: "usage_amount list"
  settlement_released :: "usage_amount list"
  settlement_overdraft :: "usage_amount list"
  settlement_status :: reservation_status
  settlement_revision :: int

record budget_permit =
  permit_id :: string
  reservation_refs :: "string list"
  permit_owner :: resource_ref
  atomic_unit :: resource_ref
  admission_epoch :: int
  authorized_amounts :: "usage_amount list"
  continuation_profile :: string
  policy_snapshot_digest :: string
  permit_expires_at :: string
  low_watermark :: "usage_amount list"
  fencing_tokens :: "(string, int) dict"

record completion_reserve_rec =
  reserve_id :: string
  reserve_budget :: string
  reserve_purpose :: completion_purpose
  reserve_amounts :: "usage_amount list"
  spendable_by :: "string set"
  reserve_expires_at :: "string option"
  reserve_status :: completion_status
  spent_reservation_id :: "string option"
  reserve_token :: int

definition permit_allows :: "budget_permit \<Rightarrow> usage_amount list \<Rightarrow> bool" where
  "permit_allows p amounts \<longleftrightarrow>
     (let authorized = sum_amounts (authorized_amounts p) in
      list_all (\<lambda>(k, x). x \<le> amount_of authorized k) (sum_amounts amounts))"

definition is_active_at :: "(string \<Rightarrow> rat option) \<Rightarrow> budget_permit \<Rightarrow> pyval \<Rightarrow> bool" where
  "is_active_at parse_iso p now =
     (case parse_budget_permit_datetime parse_iso (PyStr (permit_expires_at p)) of
        Inl _ \<Rightarrow> False
      | Inr e \<Rightarrow> (case parse_budget_permit_datetime parse_iso now of Inl _ \<Rightarrow> False | Inr t \<Rightarrow> t < e))"

text \<open>
  \<^verbatim>\<open>BudgetPermit.__post_init__\<close> on the arguments of \<^verbatim>\<open>issue_permit\<close>: the references are
  validated strings, the fencing tokens are the dictionary that method builds.
\<close>

definition check_fencing_tokens :: "(string, int) dict \<Rightarrow> budget_error + unit" where
  "check_fencing_tokens tokens =
     (if list_ex (\<lambda>(r, n). py_strip r = []) tokens then Inl BudgetValueError
      else if tokens = [] then Inl BudgetValueError
      else bind_sum (map_sum_list (\<lambda>(r, n).
             bind_sum (budget_string (PyStr r)) (\<lambda>_.
             if n \<le> 0 then Inl BudgetValueError
             else if MAX_BUDGET_COUNTER < n then Inl BudgetValueError else Inr ())) tokens) (\<lambda>_. Inr ()))"

definition mk_budget_permit ::
  "(string \<Rightarrow> rat option) \<Rightarrow> string \<Rightarrow> string list \<Rightarrow> resource_arg \<Rightarrow> resource_arg \<Rightarrow> pyval \<Rightarrow> usage_amount list
     \<Rightarrow> pyval \<Rightarrow> pyval \<Rightarrow> pyval \<Rightarrow> amounts_arg \<Rightarrow> (string, int) dict \<Rightarrow> budget_error + budget_permit" where
  "mk_budget_permit parse_iso pid refs own unit epoch authorized profile digest ex low tokens =
     bind_sum (budget_string (PyStr pid)) (\<lambda>_.
     bind_sum (map_sum_list (\<lambda>r. budget_string (PyStr r)) refs) (\<lambda>_.
     bind_sum (if refs = [] then Inl BudgetValueError else Inr ()) (\<lambda>_.
     bind_sum (if \<not> distinct refs then Inl BudgetValueError else Inr ()) (\<lambda>_.
     bind_sum (validate_resource_ref own) (\<lambda>own'.
     bind_sum (validate_resource_ref unit) (\<lambda>unit'.
     bind_sum (budget_non_negative epoch) (\<lambda>epoch'.
     bind_sum (budget_string profile) (\<lambda>profile'.
     bind_sum (budget_string digest) (\<lambda>digest'.
     bind_sum (parse_budget_permit_datetime parse_iso ex) (\<lambda>_.
     bind_sum (validate_usage_amounts low) (\<lambda>low'.
     case ex of
       PyStr ex' \<Rightarrow>
         (let p = \<lparr>permit_id = pid, reservation_refs = refs, permit_owner = own', atomic_unit = unit',
                   admission_epoch = epoch', authorized_amounts = authorized, continuation_profile = profile',
                   policy_snapshot_digest = digest', permit_expires_at = ex', low_watermark = low',
                   fencing_tokens = tokens\<rparr> in
          if \<not> permit_allows p low' then Inl BudgetValueError
          else bind_sum (check_fencing_tokens tokens) (\<lambda>_. Inr p))
     | _ \<Rightarrow> Inl BudgetValueError)))))))))))"

fun completion_purpose_arg :: "pyval \<Rightarrow> budget_error + completion_purpose" where
  "completion_purpose_arg (PyStr s) =
     (if s = ''finalization'' then Inr CompletionFinalization
      else if s = ''checkpoint'' then Inr Checkpoint
      else if s = ''cleanup'' then Inr CompletionCleanup
      else if s = ''compensation'' then Inr Compensation
      else Inl BudgetValueError)"
| "completion_purpose_arg _ = Inl BudgetValueError"

definition mk_completion_reserve ::
  "string \<Rightarrow> string \<Rightarrow> pyval \<Rightarrow> usage_amount list \<Rightarrow> pyval \<Rightarrow> pyval \<Rightarrow> int \<Rightarrow> budget_error + completion_reserve_rec" where
  "mk_completion_reserve rid bid purp amounts spendable ex tok =
     bind_sum (budget_string (PyStr rid)) (\<lambda>_.
     bind_sum (budget_string (PyStr bid)) (\<lambda>_.
     bind_sum (completion_purpose_arg purp) (\<lambda>purp'.
     bind_sum (budget_string_tuple spendable) (\<lambda>spendable'.
     bind_sum (if spendable' = [] then Inl BudgetValueError else Inr ()) (\<lambda>_.
     bind_sum (budget_optional_string ex) (\<lambda>ex'.
     bind_sum (budget_non_negative (PyInt tok)) (\<lambda>_.
     Inr \<lparr>reserve_id = rid, reserve_budget = bid, reserve_purpose = purp', reserve_amounts = amounts,
          spendable_by = set spendable', reserve_expires_at = ex', reserve_status = Available,
          spent_reservation_id = None, reserve_token = tok\<rparr>)))))))"

definition reservation_purpose_for_completion_reserve :: "completion_purpose \<Rightarrow> reservation_purpose" where
  "reservation_purpose_for_completion_reserve p =
     (if p \<in> {CompletionFinalization, Checkpoint} then Finalization else Cleanup)"

fun reservation_purpose_arg :: "pyval \<Rightarrow> budget_error + reservation_purpose" where
  "reservation_purpose_arg (PyStr s) =
     (if s = ''provider_call'' then Inr ProviderCall
      else if s = ''task'' then Inr Task
      else if s = ''trial'' then Inr Trial
      else if s = ''tool'' then Inr Tool
      else if s = ''finalization'' then Inr Finalization
      else if s = ''cleanup'' then Inr Cleanup
      else Inl BudgetValueError)"
| "reservation_purpose_arg _ = Inl BudgetValueError"

section \<open>The in-memory ledger\<close>

record budget_ledger =
  accounts :: "(string, budget_account) dict"
  allocated_of :: "(string, amount_map) dict"
  reserved_of :: "(string, amount_map) dict"
  committed_of :: "(string, amount_map) dict"
  overdraft_of :: "(string, amount_map) dict"
  reservations :: "(string, budget_reservation) dict"
  reservation_holds :: "(string, string list) dict"
  permits :: "(string, budget_permit) dict"
  permit_spent :: "(string, amount_map) dict"
  completion_reserves :: "(string, completion_reserve_rec) dict"
  completion_reserve_holds :: "(string, string list) dict"
  reservation_counter :: int
  fencing_counter :: int

definition empty_ledger :: budget_ledger where
  "empty_ledger =
     \<lparr>accounts = [], allocated_of = [], reserved_of = [], committed_of = [], overdraft_of = [],
      reservations = [], reservation_holds = [], permits = [], permit_spent = [],
      completion_reserves = [], completion_reserve_holds = [], reservation_counter = 0, fencing_counter = 0\<rparr>"

type_synonym 'a ledger_method = "(budget_ledger, budget_error, 'a) py"

text \<open>\<^verbatim>\<open>d.get(key)\<close> for a key of any type; a found key is the string it equals.\<close>

fun py_hashable :: "pyval \<Rightarrow> bool" where
  "py_hashable (PyList _) = False"
| "py_hashable (PyDict _) = False"
| "py_hashable (PyTuple xs) = list_all py_hashable xs"
| "py_hashable _ = True"

definition py_get :: "(string, 'v) dict \<Rightarrow> pyval \<Rightarrow> budget_error + (string \<times> 'v) option" where
  "py_get d key =
     (if \<not> py_hashable key then Inl BudgetTypeError
      else case key of
        PyStr s \<Rightarrow> Inr (map_option (Pair s) (map_of d s))
      | _ \<Rightarrow> Inr None)"

text \<open>\<^verbatim>\<open>d[key]\<close>, which raises \<^verbatim>\<open>KeyError\<close>.\<close>

definition item :: "(string, 'v) dict \<Rightarrow> string \<Rightarrow> budget_error + 'v" where
  "item d key = (case map_of d key of None \<Rightarrow> Inl BudgetKeyError | Some x \<Rightarrow> Inr x)"

definition get_item :: "(budget_ledger \<Rightarrow> (string, 'v) dict) \<Rightarrow> string \<Rightarrow> 'v ledger_method" where
  "get_item f key = bind_py (gets_py f) (\<lambda>d. lift_py (item d key))"

text \<open>
  \<^verbatim>\<open>_budget_chain\<close>: every round adds an unseen account, so the loop ends.
\<close>

function budget_chain_from ::
  "(string, budget_account) dict \<Rightarrow> string list \<Rightarrow> string option \<Rightarrow> budget_error + string list" where
  "budget_chain_from accts chain None = Inr chain"
| "budget_chain_from accts chain (Some current) =
     (if current \<in> set chain then Inl BudgetConflictError
      else case map_of accts current of
        None \<Rightarrow> Inl BudgetNotFoundError
      | Some account \<Rightarrow> budget_chain_from accts (chain @ [current]) (parent_budget_id account))"
  by pat_completeness auto

termination budget_chain_from
proof (relation "measure (\<lambda>(accts, chain, _). card (dom (map_of accts) - set chain))", goal_cases)
  case (2 accts chain current account)
  have "dom (map_of accts) - set (chain @ [current]) \<subset> dom (map_of accts) - set chain"
    using 2 by auto
  then show ?case by (auto intro!: psubset_card_mono finite_Diff finite_dom_map_of)
qed simp

definition budget_chain :: "string \<Rightarrow> string list ledger_method" where
  "budget_chain budget =
     bind_py (gets_py accounts) (\<lambda>accts. lift_py (budget_chain_from accts [] (Some budget)))"

definition ensure_accounts_active :: "string list \<Rightarrow> unit ledger_method" where
  "ensure_accounts_active ids =
     for_py ids (\<lambda>b.
       bind_py (gets_py (\<lambda>l. map_of (accounts l) b)) (\<lambda>a.
       case a of
         None \<Rightarrow> raise_py BudgetNotFoundError
       | Some account \<Rightarrow>
           raise_if (account_status account \<noteq> Active) (BudgetAccountStateError b (account_status account))))"

definition allocate ::
  "pyval \<Rightarrow> resource_arg \<Rightarrow> amounts_arg \<Rightarrow> pyval \<Rightarrow> pyval \<Rightarrow> budget_account ledger_method" where
  "allocate budget_v scope_v amounts policy_v parent_v =
     bind_py (lift_py (budget_string budget_v)) (\<lambda>b.
     bind_py (lift_py (validate_resource_ref scope_v)) (\<lambda>sc.
     bind_py (lift_py (validate_usage_amounts amounts)) (\<lambda>amounts'.
     bind_py (lift_py (budget_optional_string parent_v)) (\<lambda>parent.
     bind_py (lift_py (case policy_v of
                 PyStr p \<Rightarrow> if p \<noteq> [] then budget_string policy_v else Inr p
               | _ \<Rightarrow> Inl BudgetValueError)) (\<lambda>policy.
     bind_py (gets_py accounts) (\<lambda>accts.
     bind_py (raise_if (map_of accts b \<noteq> None) BudgetConflictError) (\<lambda>_.
     bind_py (raise_if (case parent of None \<Rightarrow> False | Some p \<Rightarrow> map_of accts p = None) BudgetNotFoundError) (\<lambda>_.
     let alloc = sum_amounts amounts' in
     bind_py (lift_py (dict_to_amounts alloc)) (\<lambda>listed.
     let account = \<lparr>account_id = b, scope = sc, allocated = listed, parent_budget_id = parent,
                    account_status = Active, policy_ref = policy, revision = 1\<rparr> in
     bind_py (modify_py (\<lambda>l. l\<lparr>accounts := dict_set b account (accounts l)\<rparr>)) (\<lambda>_.
     bind_py (modify_py (\<lambda>l. l\<lparr>allocated_of := dict_set b alloc (allocated_of l)\<rparr>)) (\<lambda>_.
     bind_py (modify_py (\<lambda>l. l\<lparr>reserved_of := dict_set b [] (reserved_of l)\<rparr>)) (\<lambda>_.
     bind_py (modify_py (\<lambda>l. l\<lparr>committed_of := dict_set b [] (committed_of l)\<rparr>)) (\<lambda>_.
     bind_py (modify_py (\<lambda>l. l\<lparr>overdraft_of := dict_set b [] (overdraft_of l)\<rparr>)) (\<lambda>_.
     return_py account))))))))))))))"

text \<open>
  \<^verbatim>\<open>balance\<close>. The order in which the set of keys is traversed has no effect: the dictionary
  built from it is listed in sorted order.
\<close>

definition available_amounts :: "amount_map \<Rightarrow> amount_map \<Rightarrow> amount_map \<Rightarrow> amount_map" where
  "available_amounts alloc reserved committed =
     filter (\<lambda>(k, x). 0 < x)
       (map (\<lambda>k. (k, dec_sub (dec_sub (amount_of alloc k) (amount_of reserved k)) (amount_of committed k)))
         (remdups (map fst alloc @ map fst reserved @ map fst committed)))"

definition balance :: "pyval \<Rightarrow> budget_balance ledger_method" where
  "balance budget_v =
     bind_py (gets_py accounts) (\<lambda>accts.
     bind_py (lift_py (py_get accts budget_v)) (\<lambda>found.
     case found of
       None \<Rightarrow> raise_py BudgetNotFoundError
     | Some (b, account) \<Rightarrow>
         bind_py (get_item allocated_of b) (\<lambda>alloc.
         bind_py (get_item reserved_of b) (\<lambda>reserved.
         bind_py (get_item committed_of b) (\<lambda>committed.
         bind_py (lift_py (dict_to_amounts alloc)) (\<lambda>alloc'.
         bind_py (lift_py (dict_to_amounts reserved)) (\<lambda>reserved'.
         bind_py (lift_py (dict_to_amounts committed)) (\<lambda>committed'.
         bind_py (lift_py (dict_to_amounts (available_amounts alloc reserved committed))) (\<lambda>available'.
         bind_py (get_item overdraft_of b) (\<lambda>overdraft.
         bind_py (lift_py (dict_to_amounts overdraft)) (\<lambda>overdraft'.
         return_py
           \<lparr>balance_budget = b, balance_allocated = alloc', balance_reserved = reserved',
            balance_committed = committed', balance_available = available', balance_overdraft = overdraft',
            balance_revision = revision account\<rparr>)))))))))))"

text \<open>The loops that \<^verbatim>\<open>reserve\<close> and \<^verbatim>\<open>create_completion_reserve\<close> share.\<close>

definition check_available :: "amount_map \<Rightarrow> string list \<Rightarrow> unit ledger_method" where
  "check_available requested held =
     for_py held (\<lambda>h.
       bind_py (balance (PyStr h)) (\<lambda>bal.
       let available = sum_amounts (balance_available bal) in
       for_py requested (\<lambda>(k, x). raise_if (amount_of available k < x) BudgetExceededError)))"

definition next_revisions :: "string list \<Rightarrow> (string, int) dict ledger_method" where
  "next_revisions held =
     for_acc held [] (\<lambda>h revs.
       bind_py (get_item accounts h) (\<lambda>account.
       bind_py (lift_py (increment_budget_counter (revision account))) (\<lambda>n.
       return_py (dict_set h n revs))))"

definition set_revision :: "(string, int) dict \<Rightarrow> string \<Rightarrow> unit ledger_method" where
  "set_revision revs h =
     bind_py (get_item accounts h) (\<lambda>account.
     bind_py (lift_py (item revs h)) (\<lambda>n.
     modify_py (\<lambda>l. l\<lparr>accounts := dict_set h (account\<lparr>revision := n\<rparr>) (accounts l)\<rparr>)))"

definition hold_amounts :: "amount_map \<Rightarrow> (string, int) dict \<Rightarrow> string list \<Rightarrow> unit ledger_method" where
  "hold_amounts requested revs held =
     for_py held (\<lambda>h.
       bind_py (for_py requested (\<lambda>(k, x).
         bind_py (get_item reserved_of h) (\<lambda>d.
         modify_py (\<lambda>l. l\<lparr>reserved_of := dict_set h (add_amount k x d) (reserved_of l)\<rparr>)))) (\<lambda>_.
       set_revision revs h))"

definition reserve ::
  "pyval \<Rightarrow> resource_arg \<Rightarrow> amounts_arg \<Rightarrow> pyval \<Rightarrow> pyval \<Rightarrow> pyval \<Rightarrow> budget_reservation ledger_method" where
  "reserve budget_v owner_v amounts purpose_v expires_v id_v =
     bind_py (lift_py (budget_string budget_v)) (\<lambda>b.
     bind_py (lift_py (validate_resource_ref owner_v)) (\<lambda>own.
     bind_py (lift_py (validate_usage_amounts amounts)) (\<lambda>amounts'.
     bind_py (lift_py (reservation_purpose_arg purpose_v)) (\<lambda>purp.
     bind_py (lift_py (budget_string expires_v)) (\<lambda>ex.
     bind_py (lift_py (budget_optional_string id_v)) (\<lambda>rid.
     bind_py (gets_py (\<lambda>l. map_of (accounts l) b)) (\<lambda>a.
     bind_py (raise_if (a = None) BudgetNotFoundError) (\<lambda>_.
     let requested = sum_amounts amounts' in
     bind_py (budget_chain b) (\<lambda>held.
     bind_py (ensure_accounts_active held) (\<lambda>_.
     bind_py (check_available requested held) (\<lambda>_.
     bind_py (gets_py reservation_counter) (\<lambda>rc.
     bind_py (lift_py (increment_budget_counter rc)) (\<lambda>rc'.
     bind_py (gets_py fencing_counter) (\<lambda>fc.
     bind_py (lift_py (increment_budget_counter fc)) (\<lambda>fc'.
     let actual = (case rid of None \<Rightarrow> ''reservation-'' @ fmt_06d rc' | Some i \<Rightarrow> i) in
     bind_py (gets_py (\<lambda>l. map_of (reservations l) actual)) (\<lambda>old.
     bind_py (raise_if (old \<noteq> None) BudgetConflictError) (\<lambda>_.
     let suffix = numeric_record_suffix actual ''reservation-'' in
     bind_py (raise_if (MAX_BUDGET_COUNTER < suffix) BudgetConflictError) (\<lambda>_.
     bind_py (lift_py (dict_to_amounts requested)) (\<lambda>listed.
     let reservation = \<lparr>reservation_id = actual, reservation_budget = b, reservation_owner = own,
                        reservation_amounts = listed, purpose = purp, reservation_expires_at = ex,
                        reservation_token = fc', reservation_status = Reserved\<rparr> in
     bind_py (next_revisions held) (\<lambda>revs.
     bind_py (modify_py (\<lambda>l. l\<lparr>reservation_counter := max rc' suffix\<rparr>)) (\<lambda>_.
     bind_py (modify_py (\<lambda>l. l\<lparr>fencing_counter := fc'\<rparr>)) (\<lambda>_.
     bind_py (hold_amounts requested revs held) (\<lambda>_.
     bind_py (modify_py (\<lambda>l. l\<lparr>reservations := dict_set actual reservation (reservations l)\<rparr>)) (\<lambda>_.
     bind_py (modify_py (\<lambda>l. l\<lparr>reservation_holds := dict_set actual held (reservation_holds l)\<rparr>)) (\<lambda>_.
     return_py reservation)))))))))))))))))))))))))"

section \<open>Settlement\<close>

text \<open>
  The lookup and the status test that open every settlement, and the accounts in which the
  reservation holds amounts.
\<close>

definition open_reservation :: "pyval \<Rightarrow> (string \<times> budget_reservation) ledger_method" where
  "open_reservation id_v =
     bind_py (gets_py reservations) (\<lambda>rs.
     bind_py (lift_py (py_get rs id_v)) (\<lambda>found.
     case found of
       None \<Rightarrow> raise_py BudgetReservationNotFoundError
     | Some (rid, r) \<Rightarrow>
         bind_py (raise_if (reservation_status r \<noteq> Reserved) BudgetReservationStateError) (\<lambda>_.
         return_py (rid, r))))"

definition held_budgets :: "string \<Rightarrow> budget_reservation \<Rightarrow> string list ledger_method" where
  "held_budgets rid r =
     gets_py (\<lambda>l. case map_of (reservation_holds l) rid of None \<Rightarrow> [reservation_budget r] | Some held \<Rightarrow> held)"

text \<open>\<^verbatim>\<open>reserved[key] -= amount\<close>, dropping the entry when it reaches zero.\<close>

definition sub_amount :: "amount_key \<Rightarrow> rat \<Rightarrow> amount_map \<Rightarrow> amount_map" where
  "sub_amount k x d =
     (let y = dec_sub (amount_of d k) x in if y = 0 then dict_pop k (dict_set k y d) else dict_set k y d)"

definition drop_reserved :: "string \<Rightarrow> amount_key \<Rightarrow> rat \<Rightarrow> unit ledger_method" where
  "drop_reserved h k x =
     bind_py (get_item reserved_of h) (\<lambda>d.
     modify_py (\<lambda>l. l\<lparr>reserved_of := dict_set h (sub_amount k x d) (reserved_of l)\<rparr>))"

text \<open>
  The limit argument of \<^verbatim>\<open>commit\<close>: absent, a false value that is not a collection
  (\<^verbatim>\<open>0\<close>, \<^verbatim>\<open>""\<close>), or any other value.
\<close>

datatype overdraft_arg = NoLimit | FalseLimit | Limit amounts_arg

definition overdraft_amounts :: "overdraft_arg \<Rightarrow> amounts_arg" where
  "overdraft_amounts m = (case m of NoLimit \<Rightarrow> Some [] | FalseLimit \<Rightarrow> None | Limit xs \<Rightarrow> xs)"

definition check_overdraft_limit :: "overdraft_arg \<Rightarrow> amount_map \<Rightarrow> amount_map \<Rightarrow> budget_error + unit" where
  "check_overdraft_limit m reserved actual =
     (if m = NoLimit then Inr ()
      else bind_sum (amounts_to_dict (overdraft_amounts m)) (\<lambda>limit.
        if list_ex (\<lambda>(k, x). amount_of limit k < dec_sub x (amount_of reserved k)) actual
        then Inl BudgetExceededError else Inr ()))"

definition settle_unused ::
  "string \<Rightarrow> string \<Rightarrow> amount_map \<Rightarrow> amount_map \<Rightarrow> amount_map \<Rightarrow> amount_map ledger_method" where
  "settle_unused b h reserved actual released =
     for_acc reserved released (\<lambda>(k, x) rel.
       bind_py (drop_reserved h k x) (\<lambda>_.
       let unused = dec_sub x (amount_of actual k) in
       return_py (if 0 < unused \<and> h = b then dict_set k unused rel else rel)))"

definition settle_actual ::
  "string \<Rightarrow> string \<Rightarrow> amount_map \<Rightarrow> amount_map \<Rightarrow> amount_map \<Rightarrow> amount_map ledger_method" where
  "settle_actual b h reserved actual overdraft =
     for_acc actual overdraft (\<lambda>(k, x) over.
       bind_py (get_item committed_of h) (\<lambda>d.
       bind_py (modify_py (\<lambda>l. l\<lparr>committed_of := dict_set h (add_amount k x d) (committed_of l)\<rparr>)) (\<lambda>_.
       let extra = dec_sub x (amount_of reserved k) in
       if 0 < extra then
         bind_py (get_item overdraft_of h) (\<lambda>d'.
         bind_py (modify_py (\<lambda>l. l\<lparr>overdraft_of := dict_set h (add_amount k extra d') (overdraft_of l)\<rparr>)) (\<lambda>_.
         return_py (if h = b then dict_set k extra over else over)))
       else return_py over)))"

definition commit :: "pyval \<Rightarrow> amounts_arg \<Rightarrow> overdraft_arg \<Rightarrow> budget_settlement ledger_method" where
  "commit id_v actual_v limit_v =
     bind_py (open_reservation id_v) (\<lambda>(rid, r).
     let b = reservation_budget r in
     bind_py (held_budgets rid r) (\<lambda>held.
     bind_py (ensure_accounts_active held) (\<lambda>_.
     let reserved = sum_amounts (reservation_amounts r) in
     bind_py (lift_py (amounts_to_dict actual_v)) (\<lambda>actual.
     bind_py (lift_py (check_overdraft_limit limit_v reserved actual)) (\<lambda>_.
     bind_py (next_revisions held) (\<lambda>revs.
     bind_py (for_acc held ([], []) (\<lambda>h (released, overdraft).
       bind_py (settle_unused b h reserved actual released) (\<lambda>released'.
       bind_py (settle_actual b h reserved actual overdraft) (\<lambda>overdraft'.
       bind_py (set_revision revs h) (\<lambda>_.
       return_py (released', overdraft')))))) (\<lambda>(released, overdraft).
     bind_py (modify_py (\<lambda>l. l\<lparr>reservations :=
                dict_set rid (r\<lparr>reservation_status := Committed\<rparr>) (reservations l)\<rparr>)) (\<lambda>_.
     bind_py (lift_py (dict_to_amounts actual)) (\<lambda>actual'.
     bind_py (lift_py (dict_to_amounts released)) (\<lambda>released'.
     bind_py (lift_py (dict_to_amounts overdraft)) (\<lambda>overdraft'.
     bind_py (get_item accounts b) (\<lambda>account.
     return_py
       \<lparr>settlement_reservation = rid, settlement_budget = b, settlement_committed = actual',
        settlement_released = released', settlement_overdraft = overdraft', settlement_status = Committed,
        settlement_revision = revision account\<rparr>))))))))))))"

text \<open>\<^verbatim>\<open>release\<close> and \<^verbatim>\<open>expire\<close> differ in the status they leave.\<close>

definition free_amounts :: "amount_map \<Rightarrow> (string, int) dict \<Rightarrow> string list \<Rightarrow> unit ledger_method" where
  "free_amounts reserved revs held =
     for_py held (\<lambda>h.
       bind_py (for_py reserved (\<lambda>(k, x). drop_reserved h k x)) (\<lambda>_. set_revision revs h))"

definition settle_reservation :: "reservation_status \<Rightarrow> pyval \<Rightarrow> budget_settlement ledger_method" where
  "settle_reservation st id_v =
     bind_py (open_reservation id_v) (\<lambda>(rid, r).
     let b = reservation_budget r in
     bind_py (held_budgets rid r) (\<lambda>held.
     let reserved = sum_amounts (reservation_amounts r) in
     bind_py (next_revisions held) (\<lambda>revs.
     bind_py (free_amounts reserved revs held) (\<lambda>_.
     bind_py (modify_py (\<lambda>l. l\<lparr>reservations :=
                dict_set rid (r\<lparr>reservation_status := st\<rparr>) (reservations l)\<rparr>)) (\<lambda>_.
     bind_py (lift_py (dict_to_amounts reserved)) (\<lambda>released.
     bind_py (get_item accounts b) (\<lambda>account.
     return_py
       \<lparr>settlement_reservation = rid, settlement_budget = b, settlement_committed = [],
        settlement_released = released, settlement_overdraft = [], settlement_status = st,
        settlement_revision = revision account\<rparr>)))))))"

definition release_reservation :: "pyval \<Rightarrow> budget_settlement ledger_method" where
  "release_reservation = settle_reservation Released"

definition expire_reservation :: "pyval \<Rightarrow> budget_settlement ledger_method" where
  "expire_reservation = settle_reservation ReservationExpired"

section \<open>Permits\<close>

definition collect_reservation ::
  "string \<Rightarrow> amount_map \<times> (string, int) dict \<Rightarrow> (amount_map \<times> (string, int) dict) ledger_method" where
  "collect_reservation rid acc =
     (case acc of (authorized, tokens) \<Rightarrow>
     bind_py (gets_py (\<lambda>l. map_of (reservations l) rid)) (\<lambda>found.
     case found of
       None \<Rightarrow> raise_py BudgetReservationNotFoundError
     | Some r \<Rightarrow>
         bind_py (raise_if (reservation_status r \<noteq> Reserved) BudgetReservationStateError) (\<lambda>_.
         bind_py (held_budgets rid r) (\<lambda>held.
         return_py
           (fold (\<lambda>(k, x). add_amount k x) (sum_amounts (reservation_amounts r)) authorized,
            fold (\<lambda>h t. dict_set h (max (case map_of t h of None \<Rightarrow> 0 | Some n \<Rightarrow> n) (reservation_token r)) t)
              held tokens)))))"

definition issue_permit ::
  "(string \<Rightarrow> rat option) \<Rightarrow> pyval \<Rightarrow> pyval \<Rightarrow> resource_arg \<Rightarrow> resource_arg \<Rightarrow> pyval \<Rightarrow> pyval \<Rightarrow> pyval \<Rightarrow> pyval
     \<Rightarrow> amounts_arg option \<Rightarrow> budget_permit ledger_method" where
  "issue_permit parse_iso permit_v refs_v owner_v unit_v epoch_v profile_v digest_v expires_v low_v =
     bind_py (lift_py (budget_string permit_v)) (\<lambda>pid.
     bind_py (lift_py (budget_string_tuple refs_v)) (\<lambda>refs.
     bind_py (raise_if (refs = []) BudgetValueError) (\<lambda>_.
     bind_py (raise_if (\<not> distinct refs) BudgetValueError) (\<lambda>_.
     bind_py (gets_py (\<lambda>l. map_of (permits l) pid)) (\<lambda>old.
     bind_py (raise_if (old \<noteq> None) BudgetConflictError) (\<lambda>_.
     bind_py (for_acc refs ([], []) collect_reservation) (\<lambda>(authorized, tokens).
     bind_py (lift_py (dict_to_amounts authorized)) (\<lambda>listed.
     bind_py (lift_py (mk_budget_permit parse_iso pid refs owner_v unit_v epoch_v listed profile_v digest_v
                expires_v (case low_v of None \<Rightarrow> Some [] | Some low \<Rightarrow> low) tokens)) (\<lambda>permit.
     bind_py (modify_py (\<lambda>l. l\<lparr>permits := dict_set pid permit (permits l)\<rparr>)) (\<lambda>_.
     bind_py (modify_py (\<lambda>l. l\<lparr>permit_spent := dict_set pid [] (permit_spent l)\<rparr>)) (\<lambda>_.
     return_py permit)))))))))))"

definition permit_for_reservation :: "pyval \<Rightarrow> pyval \<Rightarrow> (budget_permit \<times> string) ledger_method" where
  "permit_for_reservation permit_v id_v =
     bind_py (gets_py permits) (\<lambda>ps.
     bind_py (lift_py (py_get ps permit_v)) (\<lambda>found.
     case found of
       None \<Rightarrow> raise_py BudgetPermitNotFoundError
     | Some (pid, permit) \<Rightarrow>
         bind_py (gets_py reservations) (\<lambda>rs.
         bind_py (lift_py (py_get rs id_v)) (\<lambda>found'.
         case found' of
           None \<Rightarrow> raise_py BudgetReservationNotFoundError
         | Some (rid, r) \<Rightarrow>
             bind_py (raise_if (rid \<notin> set (reservation_refs permit)) (BudgetPermitScopeError pid rid)) (\<lambda>_.
             bind_py (held_budgets rid r) (\<lambda>held.
             bind_py (for_py held (\<lambda>h.
               let tok = map_of (fencing_tokens permit) h in
               raise_if (case tok of None \<Rightarrow> True | Some n \<Rightarrow> n < reservation_token r)
                 (BudgetPermitFencingError pid h (reservation_token r) tok))) (\<lambda>_.
             return_py (permit, rid))))))))"

definition ensure_permit_not_expired ::
  "(string \<Rightarrow> rat option) \<Rightarrow> budget_permit \<Rightarrow> pyval \<Rightarrow> unit ledger_method" where
  "ensure_permit_not_expired parse_iso permit now =
     raise_if (\<not> is_active_at parse_iso permit now)
       (BudgetPermitExpiredError (permit_id permit) (permit_expires_at permit) now)"

definition ensure_permit_allows_additional ::
  "budget_permit \<Rightarrow> amount_map \<Rightarrow> string \<Rightarrow> amount_map \<Rightarrow> unit ledger_method" where
  "ensure_permit_allows_additional permit requested rid limit =
     bind_py (get_item reservations rid) (\<lambda>r.
     let authorized = sum_amounts (reservation_amounts r) in
     bind_py (raise_if (list_ex (\<lambda>(k, x). dec_add (amount_of authorized k) (amount_of limit k) < x) requested)
                BudgetExceededError) (\<lambda>_.
     let permitted = sum_amounts (authorized_amounts permit) in
     bind_py (gets_py (\<lambda>l. case map_of (permit_spent l) (permit_id permit) of None \<Rightarrow> [] | Some d \<Rightarrow> d)) (\<lambda>spent.
     raise_if (list_ex (\<lambda>(k, x). amount_of permitted k < dec_add (amount_of spent k) x) requested)
       BudgetExceededError)))"

definition spend_amount :: "amount_key \<Rightarrow> rat \<Rightarrow> amount_map \<Rightarrow> amount_map" where
  "spend_amount k x d = (let d' = add_amount k x d in if amount_of d' k = 0 then dict_pop k d' else d')"

definition commit_under_permit ::
  "budget_permit \<Rightarrow> string \<Rightarrow> amounts_arg \<Rightarrow> overdraft_arg \<Rightarrow> budget_settlement ledger_method" where
  "commit_under_permit permit rid actual_v limit_v =
     bind_py (lift_py (amounts_to_dict actual_v)) (\<lambda>actual.
     bind_py (lift_py (amounts_to_dict (if limit_v = FalseLimit then Some [] else overdraft_amounts limit_v))) (\<lambda>limit.
     bind_py (ensure_permit_allows_additional permit actual rid limit) (\<lambda>_.
     bind_py (commit (PyStr rid) actual_v limit_v) (\<lambda>settlement.
     bind_py (modify_py (\<lambda>l. l\<lparr>permit_spent :=
                (case map_of (permit_spent l) (permit_id permit) of
                   None \<Rightarrow> dict_set (permit_id permit) [] (permit_spent l)
                 | Some _ \<Rightarrow> permit_spent l)\<rparr>)) (\<lambda>_.
     bind_py (for_py actual (\<lambda>(k, x).
       bind_py (get_item permit_spent (permit_id permit)) (\<lambda>d.
       modify_py (\<lambda>l. l\<lparr>permit_spent := dict_set (permit_id permit) (spend_amount k x d) (permit_spent l)\<rparr>)))) (\<lambda>_.
     return_py settlement))))))"

definition commit_with_permit ::
  "(string \<Rightarrow> rat option) \<Rightarrow> pyval \<Rightarrow> pyval \<Rightarrow> amounts_arg \<Rightarrow> pyval \<Rightarrow> overdraft_arg \<Rightarrow> budget_settlement ledger_method" where
  "commit_with_permit parse_iso permit_v id_v actual_v now limit_v =
     bind_py (permit_for_reservation permit_v id_v) (\<lambda>(permit, rid).
     bind_py (ensure_permit_not_expired parse_iso permit now) (\<lambda>_.
     commit_under_permit permit rid actual_v limit_v))"

definition commit_with_permit_at ::
  "(string \<Rightarrow> rat option) \<Rightarrow> pyval \<Rightarrow> pyval \<Rightarrow> amounts_arg \<Rightarrow> pyval \<Rightarrow> overdraft_arg \<Rightarrow> budget_settlement ledger_method" where
  "commit_with_permit_at parse_iso permit_v id_v actual_v now limit_v =
     commit_with_permit parse_iso permit_v id_v actual_v now limit_v"

definition release_with_permit ::
  "(string \<Rightarrow> rat option) \<Rightarrow> pyval \<Rightarrow> pyval \<Rightarrow> pyval \<Rightarrow> budget_settlement ledger_method" where
  "release_with_permit parse_iso permit_v id_v now =
     bind_py (permit_for_reservation permit_v id_v) (\<lambda>(permit, rid).
     bind_py (ensure_permit_not_expired parse_iso permit now) (\<lambda>_.
     release_reservation (PyStr rid)))"

definition release_with_permit_at ::
  "(string \<Rightarrow> rat option) \<Rightarrow> pyval \<Rightarrow> pyval \<Rightarrow> pyval \<Rightarrow> budget_settlement ledger_method" where
  "release_with_permit_at parse_iso permit_v id_v now = release_with_permit parse_iso permit_v id_v now"

section \<open>Completion reserves\<close>

definition create_completion_reserve ::
  "pyval \<Rightarrow> pyval \<Rightarrow> pyval \<Rightarrow> amounts_arg \<Rightarrow> pyval \<Rightarrow> pyval \<Rightarrow> completion_reserve_rec ledger_method" where
  "create_completion_reserve reserve_v budget_v purpose_v amounts spendable_v expires_v =
     bind_py (lift_py (budget_string reserve_v)) (\<lambda>cid.
     bind_py (lift_py (budget_string budget_v)) (\<lambda>b.
     bind_py (gets_py (\<lambda>l. map_of (completion_reserves l) cid)) (\<lambda>old.
     bind_py (raise_if (old \<noteq> None) BudgetCompletionReserveConflictError) (\<lambda>_.
     bind_py (gets_py (\<lambda>l. map_of (accounts l) b)) (\<lambda>a.
     bind_py (raise_if (a = None) BudgetNotFoundError) (\<lambda>_.
     bind_py (lift_py (amounts_to_dict amounts)) (\<lambda>requested.
     bind_py (budget_chain b) (\<lambda>held.
     bind_py (ensure_accounts_active held) (\<lambda>_.
     bind_py (check_available requested held) (\<lambda>_.
     bind_py (gets_py fencing_counter) (\<lambda>fc.
     bind_py (lift_py (increment_budget_counter fc)) (\<lambda>fc'.
     bind_py (lift_py (dict_to_amounts requested)) (\<lambda>listed.
     bind_py (lift_py (mk_completion_reserve cid b purpose_v listed spendable_v expires_v fc')) (\<lambda>reserve.
     bind_py (next_revisions held) (\<lambda>revs.
     bind_py (modify_py (\<lambda>l. l\<lparr>fencing_counter := fc'\<rparr>)) (\<lambda>_.
     bind_py (hold_amounts requested revs held) (\<lambda>_.
     bind_py (modify_py (\<lambda>l. l\<lparr>completion_reserves := dict_set cid reserve (completion_reserves l)\<rparr>)) (\<lambda>_.
     bind_py (modify_py (\<lambda>l. l\<lparr>completion_reserve_holds := dict_set cid held (completion_reserve_holds l)\<rparr>)) (\<lambda>_.
     return_py reserve)))))))))))))))))))"

definition completion_reserve_of :: "pyval \<Rightarrow> (string \<times> completion_reserve_rec) ledger_method" where
  "completion_reserve_of reserve_v =
     bind_py (gets_py completion_reserves) (\<lambda>rs.
     bind_py (lift_py (py_get rs reserve_v)) (\<lambda>found.
     case found of
       None \<Rightarrow> raise_py BudgetCompletionReserveNotFoundError
     | Some p \<Rightarrow> return_py p))"

definition completion_reserve :: "pyval \<Rightarrow> completion_reserve_rec ledger_method" where
  "completion_reserve reserve_v = bind_py (completion_reserve_of reserve_v) (\<lambda>(cid, c). return_py c)"

definition reserve_held_budgets :: "string \<Rightarrow> completion_reserve_rec \<Rightarrow> string list ledger_method" where
  "reserve_held_budgets cid c =
     gets_py (\<lambda>l. case map_of (completion_reserve_holds l) cid of None \<Rightarrow> [reserve_budget c] | Some held \<Rightarrow> held)"

definition spend_completion_reserve :: "pyval \<Rightarrow> pyval \<Rightarrow> pyval \<Rightarrow> budget_reservation ledger_method" where
  "spend_completion_reserve reserve_v spender_v expires_v =
     bind_py (lift_py (budget_string reserve_v)) (\<lambda>cid.
     bind_py (lift_py (budget_string spender_v)) (\<lambda>spender.
     bind_py (lift_py (budget_string expires_v)) (\<lambda>ex.
     bind_py (completion_reserve_of (PyStr cid)) (\<lambda>(_, c).
     bind_py (raise_if (reserve_status c \<noteq> Available) BudgetCompletionReserveStateError) (\<lambda>_.
     bind_py (reserve_held_budgets cid c) (\<lambda>held.
     bind_py (ensure_accounts_active held) (\<lambda>_.
     bind_py (raise_if (spender \<notin> spendable_by c) (BudgetCompletionReserveUnauthorizedError cid spender)) (\<lambda>_.
     bind_py (gets_py reservation_counter) (\<lambda>rc.
     bind_py (lift_py (increment_budget_counter rc)) (\<lambda>rc'.
     let rid = ''reservation-'' @ fmt_06d rc' in
     bind_py (gets_py (\<lambda>l. map_of (reservations l) rid)) (\<lambda>old.
     bind_py (raise_if (old \<noteq> None) BudgetConflictError) (\<lambda>_.
     let reservation = \<lparr>reservation_id = rid, reservation_budget = reserve_budget c,
                        reservation_owner = \<lparr>resource_id = spender, resource_kind = None,
                          resource_tenant_id = None, resource_attributes = PyDict []\<rparr>,
                        reservation_amounts = reserve_amounts c,
                        purpose = reservation_purpose_for_completion_reserve (reserve_purpose c),
                        reservation_expires_at = ex, reservation_token = reserve_token c,
                        reservation_status = Reserved\<rparr> in
     bind_py (modify_py (\<lambda>l. l\<lparr>reservation_counter := rc'\<rparr>)) (\<lambda>_.
     bind_py (modify_py (\<lambda>l. l\<lparr>reservations := dict_set rid reservation (reservations l)\<rparr>)) (\<lambda>_.
     bind_py (modify_py (\<lambda>l. l\<lparr>reservation_holds := dict_set rid held (reservation_holds l)\<rparr>)) (\<lambda>_.
     bind_py (modify_py (\<lambda>l. l\<lparr>completion_reserves :=
                dict_set cid (c\<lparr>reserve_status := Spent, spent_reservation_id := Some rid\<rparr>) (completion_reserves l)\<rparr>)) (\<lambda>_.
     return_py reservation))))))))))))))))"

definition settle_completion_reserve :: "pyval \<Rightarrow> completion_status \<Rightarrow> completion_reserve_rec ledger_method" where
  "settle_completion_reserve reserve_v st =
     bind_py (completion_reserve_of reserve_v) (\<lambda>(cid, c).
     bind_py (raise_if (reserve_status c \<noteq> Available) BudgetCompletionReserveStateError) (\<lambda>_.
     let amounts = sum_amounts (reserve_amounts c) in
     bind_py (reserve_held_budgets cid c) (\<lambda>held.
     bind_py (next_revisions held) (\<lambda>revs.
     bind_py (free_amounts amounts revs held) (\<lambda>_.
     let updated = c\<lparr>reserve_status := st\<rparr> in
     bind_py (modify_py (\<lambda>l. l\<lparr>completion_reserves := dict_set cid updated (completion_reserves l)\<rparr>)) (\<lambda>_.
     return_py updated))))))"

definition release_completion_reserve :: "pyval \<Rightarrow> completion_reserve_rec ledger_method" where
  "release_completion_reserve reserve_v = settle_completion_reserve reserve_v CompletionReleased"

definition expire_completion_reserve :: "pyval \<Rightarrow> completion_reserve_rec ledger_method" where
  "expire_completion_reserve reserve_v = settle_completion_reserve reserve_v CompletionExpired"

end
