(* ===== verification/Budget_Amounts.thy ===== *)
theory Budget_Amounts
  imports Budget
begin

text \<open>
  Facts about usage amounts: which amounts the constructor accepts, what the dictionary of
  a collection of amounts holds, and that listing a dictionary and reading the list back
  gives the dictionary again.
\<close>

section \<open>Valid amounts and dictionaries\<close>

text \<open>Keys are triples that stay together.\<close>

declare split_paired_All [simp del] split_paired_Ex [simp del]

definition string_ok :: "string \<Rightarrow> bool" where
  "string_ok s \<longleftrightarrow> s \<noteq> [] \<and> py_strip s = s \<and> \<not> has_control s"

definition dims_ok :: "(string \<times> string) list \<Rightarrow> bool" where
  "dims_ok ds \<longleftrightarrow> distinct (map fst ds) \<and> (\<forall>(k, v) \<in> set ds. string_ok k \<and> string_ok v)"

definition key_ok :: "amount_key \<Rightarrow> bool" where
  "key_ok k \<longleftrightarrow> (case k of (kind, unit, ds) \<Rightarrow> string_ok kind \<and> string_ok unit \<and> dims_ok ds \<and> sorted ds)"

definition usage_ok :: "usage_amount \<Rightarrow> bool" where
  "usage_ok a \<longleftrightarrow> string_ok (usage_kind a) \<and> string_ok (usage_unit a) \<and> dims_ok (usage_dimensions a) \<and> 0 \<le> usage_value a"

definition keys_ok :: "amount_map \<Rightarrow> bool" where
  "keys_ok d \<longleftrightarrow> dict_ok d \<and> (\<forall>k x. map_of d k = Some x \<longrightarrow> key_ok k)"

definition map_ok :: "amount_map \<Rightarrow> bool" where
  "map_ok d \<longleftrightarrow> keys_ok d \<and> (\<forall>k. 0 \<le> amount_of d k)"

lemma strip_Nil [simp]: "py_strip [] = []"
  by (simp add: py_strip_def)

lemma budget_string_iff: "budget_string v = Inr s \<longleftrightarrow> v = PyStr s \<and> string_ok s"
  by (cases v) (auto simp: string_ok_def)

declare budget_string.simps [simp del] dimension_pair.simps [simp del]

lemma budget_string_ok [simp]: "string_ok s \<Longrightarrow> budget_string (PyStr s) = Inr s"
  by (simp add: budget_string_iff)

lemma dimension_pair_ok: "string_ok k \<Longrightarrow> string_ok v \<Longrightarrow> dimension_pair (PyStr k) (PyStr v)"
  by (simp add: string_ok_def dimension_pair.simps)

lemma collect_dimensions_ok:
  assumes "\<forall>(k, v) \<in> set ds. string_ok k \<and> string_ok v" "distinct (map fst (acc @ ds))"
  shows "collect_dimensions acc (map (\<lambda>(a, b). (PyStr a, PyStr b)) ds) = Inr (acc @ ds)"
  using assms
proof (induction ds arbitrary: acc)
  case (Cons p ds)
  obtain k v where p: "p = (k, v)" by force
  have new: "map_of acc k = None" using Cons.prems(2) by (auto simp: p map_of_eq_None_iff)
  have "collect_dimensions (acc @ [(k, v)]) (map (\<lambda>(a, b). (PyStr a, PyStr b)) ds) = Inr ((acc @ [(k, v)]) @ ds)"
    using Cons.prems by (intro Cons.IH) (auto simp: p)
  moreover have "dimension_pair (PyStr k) (PyStr v)" using Cons.prems(1) by (auto simp: p dimension_pair_ok)
  ultimately show ?case using new by (simp add: p dict_set_new)
qed simp

lemma map_sum_list_ok: "(\<And>x. x \<in> set xs \<Longrightarrow> f x = Inr (g x)) \<Longrightarrow> map_sum_list f xs = Inr (map g xs)"
  by (induction xs) auto

lemma map_sum_list_Inr: "map_sum_list f xs = Inr ys \<Longrightarrow> x \<in> set xs \<Longrightarrow> \<exists>y \<in> set ys. f x = Inr y"
  by (induction xs arbitrary: ys) (auto simp: bind_sum_Inr_iff)

lemma map_sum_list_Inl: "map_sum_list f xs = Inl e \<Longrightarrow> \<exists>x \<in> set xs. f x = Inl e"
  by (induction xs) (auto simp: bind_sum_Inl_iff)

lemma mk_usage_amount_ok:
  assumes "string_ok kind" "string_ok unit" "dims_ok ds" "0 \<le> x"
  shows "mk_usage_amount (PyStr kind) (AsDecimal (DecFinite x)) (PyStr unit) (PyDict (map (\<lambda>(a, b). (PyStr a, PyStr b)) ds)) =
    Inr \<lparr>usage_kind = kind, usage_value = x, usage_unit = unit, usage_dimensions = ds\<rparr>"
proof -
  have "collect_dimensions [] (map (\<lambda>(a, b). (PyStr a, PyStr b)) ds) = Inr ([] @ ds)"
    using assms(3) by (intro collect_dimensions_ok) (auto simp: dims_ok_def)
  moreover have "map_sum_list (\<lambda>(k, v). bind_sum (budget_string (PyStr k)) (\<lambda>_. budget_string (PyStr v))) ds = Inr (map snd ds)"
    using assms(3) by (intro map_sum_list_ok) (auto simp: dims_ok_def)
  ultimately show ?thesis using assms by (simp add: mk_usage_amount_def)
qed

text \<open>The constructor accepts exactly the valid records.\<close>

lemma collect_dimensions_Inr:
  "collect_dimensions acc items = Inr ds \<Longrightarrow> distinct (map fst acc) \<Longrightarrow> distinct (map fst ds)"
proof (induction acc items rule: collect_dimensions.induct)
  case (2 acc k v rest)
  then show ?case
    by (auto simp: distinct_update split: if_splits pyval.splits)
qed simp

lemma mk_usage_amount_Inr:
  assumes "mk_usage_amount kind amount unit dims = Inr a"
  shows "usage_ok a"
proof -
  obtain ds ys d where ds: "collect_dimensions [] (case dims of PyDict items \<Rightarrow> items | _ \<Rightarrow> []) = Inr ds"
    and ys: "map_sum_list (\<lambda>(k, v). bind_sum (budget_string (PyStr k)) (\<lambda>_. budget_string (PyStr v))) ds = Inr ys"
    and a: "\<exists>kind' unit'. string_ok kind' \<and> string_ok unit' \<and>
      (case d of DecSpecial \<Rightarrow> Inl BudgetValueError
       | DecFinite x \<Rightarrow> if x < 0 then Inl BudgetValueError
           else Inr \<lparr>usage_kind = kind', usage_value = x, usage_unit = unit', usage_dimensions = ds\<rparr>) = Inr a"
    using assms that by (cases dims) (simp_all add: mk_usage_amount_def bind_sum_Inr_iff budget_string_iff, blast)
  have "distinct (map fst ds)" using ds by (auto dest: collect_dimensions_Inr)
  moreover have "\<forall>(k, v) \<in> set ds. string_ok k \<and> string_ok v"
    by (auto dest!: map_sum_list_Inr [OF ys] simp: bind_sum_Inr_iff budget_string_iff)
  ultimately show ?thesis using a by (cases d) (auto simp: usage_ok_def dims_ok_def split: if_splits)
qed

lemma key_ok_amount_key: "usage_ok a \<Longrightarrow> key_ok (amount_key a)"
  by (auto simp: usage_ok_def key_ok_def amount_key_def dims_ok_def distinct_map sorted_sort)

section \<open>Dictionaries of amounts\<close>

lemma amount_of_Nil [simp]: "amount_of [] k = 0"
  by (simp add: amount_of_def)

lemma amount_of_add [simp]: "amount_of (add_amount k x d) j = (if j = k then dec_add (amount_of d k) x else amount_of d j)"
  by (simp add: amount_of_def add_amount_def)

lemma amount_of_sub [simp]: "amount_of (sub_amount k x d) j = (if j = k then dec_sub (amount_of d k) x else amount_of d j)"
  by (simp add: amount_of_def sub_amount_def Let_def)

lemma amount_of_spend [simp]: "amount_of (spend_amount k x d) = amount_of (add_amount k x d)"
  by (rule ext) (simp add: spend_amount_def Let_def amount_of_def)

lemma amount_of_set [simp]: "amount_of (dict_set k x d) j = (if j = k then x else amount_of d j)"
  by (simp add: amount_of_def)

lemma amount_of_filter: "dict_ok d \<Longrightarrow> amount_of (filter (\<lambda>(k, x). P x) d) k = (if P (amount_of d k) \<or> amount_of d k = 0 then amount_of d k else 0)"
  by (auto simp: amount_of_def get_filter_values split: option.splits)

lemma keys_ok_Nil [simp]: "keys_ok []"
  by (simp add: keys_ok_def)

lemma keys_ok_set [simp]: "keys_ok d \<Longrightarrow> key_ok k \<Longrightarrow> keys_ok (dict_set k x d)"
  by (simp add: keys_ok_def)

lemma keys_ok_pop [simp]: "keys_ok d \<Longrightarrow> keys_ok (dict_pop k d)"
  by (simp add: keys_ok_def)

lemma keys_ok_add [simp]: "keys_ok d \<Longrightarrow> key_ok k \<Longrightarrow> keys_ok (add_amount k x d)"
  by (simp add: add_amount_def)

lemma keys_ok_sub [simp]: "keys_ok d \<Longrightarrow> key_ok k \<Longrightarrow> keys_ok (sub_amount k x d)"
  by (simp add: sub_amount_def Let_def)

lemma keys_ok_spend [simp]: "keys_ok d \<Longrightarrow> key_ok k \<Longrightarrow> keys_ok (spend_amount k x d)"
  by (simp add: spend_amount_def Let_def)

lemma keys_ok_filter: "keys_ok d \<Longrightarrow> keys_ok (filter (\<lambda>(k, x). P x) d)"
  by (auto simp: keys_ok_def get_filter_values split: option.splits if_splits)

lemma map_ok_Nil [simp]: "map_ok []"
  by (simp add: map_ok_def)

lemma map_ok_nonneg: "map_ok d \<Longrightarrow> 0 \<le> amount_of d k"
  by (simp add: map_ok_def)

lemma map_ok_mem: "map_ok d \<Longrightarrow> (k, x) \<in> set d \<Longrightarrow> key_ok k \<and> 0 \<le> x \<and> amount_of d k = x"
proof -
  assume d: "map_ok d" and "(k, x) \<in> set d"
  then have "map_of d k = Some x" by (simp add: map_ok_def keys_ok_def dict_mem_iff)
  then have "amount_of d k = x" by (simp add: amount_of_def)
  then show ?thesis using d \<open>map_of d k = Some x\<close> map_ok_nonneg [OF d, of k] by (auto simp: map_ok_def keys_ok_def)
qed

lemma dec_add_nonneg: "0 \<le> x \<Longrightarrow> 0 \<le> y \<Longrightarrow> 0 \<le> dec_add x y"
  by (simp add: dec_add_def dec_fix_nonneg)

lemma dec_add_0 [simp]: "dec_add 0 x = dec_fix x"
  by (simp add: dec_add_def)

lemma map_ok_add [simp]: "map_ok d \<Longrightarrow> key_ok k \<Longrightarrow> 0 \<le> x \<Longrightarrow> map_ok (add_amount k x d)"
  by (simp add: map_ok_def dec_add_nonneg)

lemma map_ok_spend [simp]: "map_ok d \<Longrightarrow> key_ok k \<Longrightarrow> 0 \<le> x \<Longrightarrow> map_ok (spend_amount k x d)"
  by (simp add: map_ok_def dec_add_nonneg)

lemma map_ok_set [simp]: "map_ok d \<Longrightarrow> key_ok k \<Longrightarrow> 0 \<le> x \<Longrightarrow> map_ok (dict_set k x d)"
  by (simp add: map_ok_def)

text \<open>The loops over a dictionary of requested amounts.\<close>

definition add_all :: "amount_map \<Rightarrow> amount_map \<Rightarrow> amount_map" where
  "add_all xs d = fold (\<lambda>(k, x). add_amount k x) xs d"

definition sub_all :: "amount_map \<Rightarrow> amount_map \<Rightarrow> amount_map" where
  "sub_all xs d = fold (\<lambda>(k, x). sub_amount k x) xs d"

definition extra_of :: "amount_map \<Rightarrow> amount_map \<Rightarrow> amount_map \<Rightarrow> amount_map" where
  "extra_of reserved actual d =
     fold (\<lambda>(k, x) d. let extra = dec_sub x (amount_of reserved k) in if 0 < extra then add_amount k extra d else d) actual d"

lemma fold_other_key:
  assumes "\<And>j x d. j \<noteq> k \<Longrightarrow> amount_of (f j x d) k = amount_of d k" "k \<notin> fst ` set xs"
  shows "amount_of (fold (\<lambda>(j, x). f j x) xs d) k = amount_of d k"
  using assms by (induction xs arbitrary: d) (auto simp: image_iff)

lemma fold_at_key:
  assumes other: "\<And>j x d. j \<noteq> k \<Longrightarrow> amount_of (f j x d) k = amount_of d k"
    and at: "\<And>x d. amount_of (f k x d) k = g x (amount_of d k)"
    and xs: "dict_ok xs"
  shows "amount_of (fold (\<lambda>(j, x). f j x) xs d) k =
    (case map_of xs k of None \<Rightarrow> amount_of d k | Some x \<Rightarrow> g x (amount_of d k))"
  using xs
proof (induction xs arbitrary: d)
  case (Cons p xs)
  obtain j y where p: "p = (j, y)" by (rule prod.exhaust)
  have xs: "dict_ok xs" "j \<notin> fst ` set xs" using Cons.prems by (auto simp: p dict_ok_def)
  have none: "map_of xs j = None" using xs(2) by (simp add: map_of_eq_None_iff)
  show ?case
  proof (cases "j = k")
    case True
    then show ?thesis using fold_other_key [OF other, where xs = xs] xs(2) none by (simp add: p at)
  next
    case False
    then show ?thesis using Cons.IH [OF xs(1)] other by (auto simp: p split: option.splits)
  qed
qed simp

lemma amount_of_add_all:
  "dict_ok xs \<Longrightarrow> amount_of (add_all xs d) k = (case map_of xs k of None \<Rightarrow> amount_of d k | Some x \<Rightarrow> dec_add (amount_of d k) x)"
  unfolding add_all_def by (rule fold_at_key) auto

lemma amount_of_sub_all:
  "dict_ok xs \<Longrightarrow> amount_of (sub_all xs d) k = (case map_of xs k of None \<Rightarrow> amount_of d k | Some x \<Rightarrow> dec_sub (amount_of d k) x)"
  unfolding sub_all_def by (rule fold_at_key) auto

lemma amount_of_extra_of:
  "dict_ok actual \<Longrightarrow> amount_of (extra_of reserved actual d) k =
     (case map_of actual k of None \<Rightarrow> amount_of d k
      | Some x \<Rightarrow> (let extra = dec_sub x (amount_of reserved k) in
          if 0 < extra then dec_add (amount_of d k) extra else amount_of d k))"
  unfolding extra_of_def by (rule fold_at_key) (auto simp: Let_def)

lemma fold_keeps: "(\<And>x d. x \<in> set xs \<Longrightarrow> P d \<Longrightarrow> P (f x d)) \<Longrightarrow> P d \<Longrightarrow> P (fold f xs d)"
  by (induction xs arbitrary: d) auto

lemma keys_ok_add_all: "map_ok xs \<Longrightarrow> keys_ok d \<Longrightarrow> keys_ok (add_all xs d)"
  unfolding add_all_def by (rule fold_keeps) (auto dest: map_ok_mem)

lemma keys_ok_sub_all: "map_ok xs \<Longrightarrow> keys_ok d \<Longrightarrow> keys_ok (sub_all xs d)"
  unfolding sub_all_def by (rule fold_keeps) (auto dest: map_ok_mem)

lemma map_ok_add_all: "map_ok xs \<Longrightarrow> map_ok d \<Longrightarrow> map_ok (add_all xs d)"
  unfolding add_all_def by (rule fold_keeps) (auto dest: map_ok_mem)

lemma map_ok_extra_of: "map_ok actual \<Longrightarrow> map_ok d \<Longrightarrow> map_ok (extra_of reserved actual d)"
  unfolding extra_of_def by (rule fold_keeps) (auto simp: Let_def dest: map_ok_mem)

section \<open>Reading a collection of amounts\<close>

lemma sum_amounts_raw: "\<forall>a \<in> set xs. usage_ok a \<Longrightarrow> map_ok d \<Longrightarrow> map_ok (fold (\<lambda>a d. add_amount (amount_key a) (usage_value a) d) xs d)"
  by (rule fold_keeps) (auto simp: key_ok_amount_key usage_ok_def [THEN iffD1])

lemma dict_ok_raw: "dict_ok d \<Longrightarrow> dict_ok (fold (\<lambda>a d. add_amount (amount_key a) (usage_value a) d) xs d)"
  by (rule fold_keeps) (simp_all add: add_amount_def)

lemma map_ok_sum_amounts: "\<forall>a \<in> set xs. usage_ok a \<Longrightarrow> map_ok (sum_amounts xs)"
proof -
  assume "\<forall>a \<in> set xs. usage_ok a"
  then have "map_ok (fold (\<lambda>a d. add_amount (amount_key a) (usage_value a) d) xs [])" (is "map_ok ?d")
    by (rule sum_amounts_raw) simp
  then show ?thesis by (simp add: sum_amounts_def map_ok_def keys_ok_filter amount_of_filter dict_ok_raw)
qed

lemma dict_ok_map: "map_ok d \<Longrightarrow> dict_ok d"
  by (simp add: map_ok_def keys_ok_def)

lemma sum_amounts_pos: "\<forall>a \<in> set xs. usage_ok a \<Longrightarrow> (k, x) \<in> set (sum_amounts xs) \<Longrightarrow> 0 < x"
  using map_ok_mem [OF map_ok_sum_amounts, of xs k x] by (auto simp: sum_amounts_def)

lemma amount_of_sum_amounts:
  "amount_of (sum_amounts xs) k = fold (\<lambda>a s. dec_add s (usage_value a)) (filter (\<lambda>a. amount_key a = k) xs) 0"
proof -
  have "amount_of (fold (\<lambda>a d. add_amount (amount_key a) (usage_value a) d) xs d) k =
      fold (\<lambda>a s. dec_add s (usage_value a)) (filter (\<lambda>a. amount_key a = k) xs) (amount_of d k)" for d
    by (induction xs arbitrary: d) auto
  then show ?thesis by (simp add: sum_amounts_def amount_of_filter dict_ok_raw)
qed

section \<open>Listing a dictionary\<close>

definition listed_amount :: "amount_map \<Rightarrow> amount_key \<Rightarrow> usage_amount" where
  "listed_amount d k = (case k of (kind, unit, ds) \<Rightarrow>
     \<lparr>usage_kind = kind, usage_value = amount_of d k, usage_unit = unit, usage_dimensions = ds\<rparr>)"

definition listed :: "amount_map \<Rightarrow> usage_amount list" where
  "listed d = map (listed_amount d) (filter (\<lambda>k. amount_of d k \<noteq> 0) (sort (map fst d)))"

lemma dict_to_amounts_eq: "map_ok d \<Longrightarrow> dict_to_amounts d = Inr (listed d)"
  unfolding dict_to_amounts_def listed_def
proof (rule map_sum_list_ok)
  fix k assume d: "map_ok d" and "k \<in> set (filter (\<lambda>k. amount_of d k \<noteq> 0) (sort (map fst d)))"
  then obtain x where "(k, x) \<in> set d" by auto
  then have "key_ok k" "0 \<le> amount_of d k" using map_ok_mem [OF d] by auto
  then show "(case k of (kind, unit, dims) \<Rightarrow>
      mk_usage_amount (PyStr kind) (AsDecimal (DecFinite (amount_of d k))) (PyStr unit)
        (PyDict (map (\<lambda>(a, b). (PyStr a, PyStr b)) dims))) = Inr (listed_amount d k)"
    by (auto simp: key_ok_def mk_usage_amount_ok listed_amount_def split: prod.splits)
qed

lemma amount_key_listed: "key_ok k \<Longrightarrow> amount_key (listed_amount d k) = k"
  by (auto simp: amount_key_def listed_amount_def key_ok_def sorted_sort_id split: prod.splits)

lemma usage_value_listed [simp]: "usage_value (listed_amount d k) = amount_of d k"
  by (simp add: listed_amount_def split: prod.splits)

lemma listed_ok: "map_ok d \<Longrightarrow> \<forall>a \<in> set (listed d). usage_ok a"
  by (auto simp: listed_def listed_amount_def usage_ok_def key_ok_def dest!: map_ok_mem split: prod.splits)

lemma filter_this_distinct: "distinct xs \<Longrightarrow> filter (\<lambda>j. j = k) xs = (if k \<in> set xs then [k] else [])"
  by (induction xs) auto

text \<open>Listing and reading back rounds each amount to the context, and nothing else.\<close>

lemma amount_of_listed:
  assumes d: "map_ok d"
  shows "amount_of (sum_amounts (listed d)) k = dec_fix (amount_of d k)"
proof -
  have keys: "key_ok j" if "j \<in> set (map fst d)" for j using that map_ok_mem [OF d] by auto
  have "filter (\<lambda>a. amount_key a = k) (listed d) =
      map (listed_amount d) (filter (\<lambda>j. j = k) (filter (\<lambda>j. amount_of d j \<noteq> 0) (sort (map fst d))))"
    unfolding listed_def filter_map
    by (rule arg_cong [where f = "map (listed_amount d)"]) (rule filter_cong, use keys in \<open>auto simp: amount_key_listed\<close>)
  moreover have "filter (\<lambda>j. j = k) (filter (\<lambda>j. amount_of d j \<noteq> 0) (sort (map fst d))) =
      (if amount_of d k \<noteq> 0 then [k] else [])" (is "filter _ ?js = _")
  proof -
    have "distinct ?js" using d by (simp add: map_ok_def keys_ok_def dict_ok_def)
    moreover have "k \<in> set ?js \<longleftrightarrow> amount_of d k \<noteq> 0"
      by (auto simp: amount_of_def split: option.splits dest!: map_of_SomeD) (metis fst_conv image_eqI)
    ultimately show ?thesis using filter_this_distinct [of ?js k] by simp
  qed
  ultimately show ?thesis by (simp add: amount_of_sum_amounts)
qed

end
