(* ===== verification/Budget_Inv.thy ===== *)
theory Budget_Inv
  imports Budget_Amounts
begin

text \<open>
  The invariant of the ledger and the effect of its loops. The accounts form a forest, so
  the chain of an account ends at a root; every reservation and completion reserve holds
  its amounts in exactly the chain of its budget; permits never spend more than they
  authorise. \<open>post\<close> is the change a call makes in the books of a chain.
\<close>

section \<open>The account hierarchy\<close>

definition ranked :: "(string, budget_account) dict \<Rightarrow> (string \<Rightarrow> nat) \<Rightarrow> bool" where
  "ranked accts f \<longleftrightarrow> (\<forall>b a p. map_of accts b = Some a \<longrightarrow> parent_budget_id a = Some p \<longrightarrow>
     map_of accts p \<noteq> None \<and> f p < f b)"

definition same_parents :: "(string, budget_account) dict \<Rightarrow> (string, budget_account) dict \<Rightarrow> bool" where
  "same_parents accts accts' \<longleftrightarrow> (\<forall>b a. map_of accts b = Some a \<longrightarrow>
     (\<exists>a'. map_of accts' b = Some a' \<and> parent_budget_id a' = parent_budget_id a))"

lemma chain_total:
  assumes "ranked accts f" "map_of accts b = Some a" "\<forall>c \<in> set chain. f b < f c"
  shows "\<exists>ch. budget_chain_from accts chain (Some b) = Inr (chain @ b # ch)"
  using assms
proof (induction "f b" arbitrary: b a chain rule: less_induct)
  case less
  have new: "b \<notin> set chain" using less.prems(3) by auto
  show ?case
  proof (cases "parent_budget_id a")
    case None
    then show ?thesis using new less.prems(2) by simp
  next
    case (Some p)
    then obtain a' where a': "map_of accts p = Some a'" "f p < f b"
      using less.prems(1,2) by (force simp: ranked_def)
    have "\<forall>c \<in> set (chain @ [b]). f p < f c" using less.prems(3) a'(2) by fastforce
    then obtain ch where "budget_chain_from accts (chain @ [b]) (Some p) = Inr ((chain @ [b]) @ p # ch)"
      using less.hyps [OF a'(2) less.prems(1) a'(1)] by blast
    then show ?thesis using new less.prems(2) Some by simp
  qed
qed

lemma chain_mono:
  "budget_chain_from accts chain x = Inr c \<Longrightarrow> same_parents accts accts' \<Longrightarrow> budget_chain_from accts' chain x = Inr c"
proof (induction accts chain x rule: budget_chain_from.induct)
  case (2 accts chain b)
  then obtain a where a: "b \<notin> set chain" "map_of accts b = Some a"
    "budget_chain_from accts (chain @ [b]) (parent_budget_id a) = Inr c"
    by (auto split: if_splits option.splits)
  obtain a' where "map_of accts' b = Some a'" "parent_budget_id a' = parent_budget_id a"
    using "2.prems"(2) a(2) unfolding same_parents_def by blast
  then show ?case using "2.IH" [OF a(1,2,3) "2.prems"(2)] a(1) by simp
qed simp

lemma chain_set:
  "budget_chain_from accts chain x = Inr c \<Longrightarrow> distinct chain \<Longrightarrow>
     distinct c \<and> set chain \<subseteq> set c \<and> (\<forall>b \<in> set c - set chain. map_of accts b \<noteq> None) \<and> (\<forall>b. x = Some b \<longrightarrow> b \<in> set c)"
proof (induction accts chain x rule: budget_chain_from.induct)
  case (2 accts chain b)
  then obtain a where a: "b \<notin> set chain" "map_of accts b = Some a"
    "budget_chain_from accts (chain @ [b]) (parent_budget_id a) = Inr c"
    by (auto split: if_splits option.splits)
  have "distinct c \<and> set (chain @ [b]) \<subseteq> set c \<and> (\<forall>b \<in> set c - set (chain @ [b]). map_of accts b \<noteq> None)"
    using "2.IH" [OF a(1,2,3)] "2.prems"(2) a(1) by simp
  then show ?case using a(2) by auto
qed simp

definition chain_of :: "(string, budget_account) dict \<Rightarrow> string \<Rightarrow> string list \<Rightarrow> bool" where
  "chain_of accts b held \<longleftrightarrow> budget_chain_from accts [] (Some b) = Inr held"

lemma chain_ofD:
  assumes "chain_of accts b held"
  shows "distinct held" "b \<in> set held" "h \<in> set held \<Longrightarrow> \<exists>a. map_of accts h = Some a"
  using chain_set [OF assms [unfolded chain_of_def]] by auto

lemma chain_of_mono: "chain_of accts b held \<Longrightarrow> same_parents accts accts' \<Longrightarrow> chain_of accts' b held"
  unfolding chain_of_def by (rule chain_mono)

section \<open>The invariant\<close>

definition accounts_ok :: "budget_ledger \<Rightarrow> bool" where
  "accounts_ok l \<longleftrightarrow> (\<forall>b a. map_of (accounts l) b = Some a \<longrightarrow> account_id a = b) \<and> (\<exists>f. ranked (accounts l) f)"

definition books_ok :: "budget_ledger \<Rightarrow> bool" where
  "books_ok l \<longleftrightarrow>
     dom (map_of (allocated_of l)) = dom (map_of (accounts l)) \<and>
     dom (map_of (reserved_of l)) = dom (map_of (accounts l)) \<and>
     dom (map_of (committed_of l)) = dom (map_of (accounts l)) \<and>
     dom (map_of (overdraft_of l)) = dom (map_of (accounts l)) \<and>
     (\<forall>b d. map_of (allocated_of l) b = Some d \<longrightarrow> map_ok d) \<and>
     (\<forall>b d. map_of (reserved_of l) b = Some d \<longrightarrow> keys_ok d) \<and>
     (\<forall>b d. map_of (committed_of l) b = Some d \<longrightarrow> map_ok d) \<and>
     (\<forall>b d. map_of (overdraft_of l) b = Some d \<longrightarrow> map_ok d)"

definition reservation_ok :: "budget_ledger \<Rightarrow> string \<Rightarrow> budget_reservation \<Rightarrow> bool" where
  "reservation_ok l rid r \<longleftrightarrow>
     reservation_id r = rid \<and> (\<forall>a \<in> set (reservation_amounts r). usage_ok a) \<and>
     0 < reservation_token r \<and> reservation_token r \<le> fencing_counter l \<and>
     (\<exists>held. map_of (reservation_holds l) rid = Some held \<and> chain_of (accounts l) (reservation_budget r) held)"

definition completion_ok :: "budget_ledger \<Rightarrow> string \<Rightarrow> completion_reserve_rec \<Rightarrow> bool" where
  "completion_ok l cid c \<longleftrightarrow>
     reserve_id c = cid \<and> (\<forall>a \<in> set (reserve_amounts c). usage_ok a) \<and>
     0 < reserve_token c \<and> reserve_token c \<le> fencing_counter l \<and>
     (reserve_status c = Spent \<longleftrightarrow> spent_reservation_id c \<noteq> None) \<and>
     (\<exists>held. map_of (completion_reserve_holds l) cid = Some held \<and> chain_of (accounts l) (reserve_budget c) held)"

definition permit_ok :: "budget_ledger \<Rightarrow> string \<Rightarrow> budget_permit \<Rightarrow> bool" where
  "permit_ok l pid p \<longleftrightarrow>
     permit_id p = pid \<and> (\<forall>rid \<in> set (reservation_refs p). map_of (reservations l) rid \<noteq> None) \<and>
     (\<exists>d. map_of (permit_spent l) pid = Some d \<and> map_ok d \<and>
       (\<forall>k. amount_of d k \<le> amount_of (sum_amounts (authorized_amounts p)) k))"

definition records_ok :: "budget_ledger \<Rightarrow> bool" where
  "records_ok l \<longleftrightarrow>
     dict_ok (reservations l) \<and> dict_ok (completion_reserves l) \<and> 0 \<le> fencing_counter l \<and> 0 \<le> reservation_counter l \<and>
     (\<forall>rid r. map_of (reservations l) rid = Some r \<longrightarrow> reservation_ok l rid r) \<and>
     (\<forall>cid c. map_of (completion_reserves l) cid = Some c \<longrightarrow> completion_ok l cid c) \<and>
     (\<forall>pid p. map_of (permits l) pid = Some p \<longrightarrow> permit_ok l pid p)"

definition ledger_ok :: "budget_ledger \<Rightarrow> bool" where
  "ledger_ok l \<longleftrightarrow> accounts_ok l \<and> books_ok l \<and> records_ok l"

lemma ledger_ok_empty: "ledger_ok empty_ledger"
  by (simp add: ledger_ok_def accounts_ok_def books_ok_def records_ok_def empty_ledger_def ranked_def)

lemma ledger_okD:
  assumes "ledger_ok l"
  shows "accounts_ok l" "books_ok l" "records_ok l"
    "map_of (reservations l) rid = Some r \<Longrightarrow> reservation_ok l rid r"
    "map_of (completion_reserves l) cid = Some c \<Longrightarrow> completion_ok l cid c"
    "map_of (permits l) pid = Some p \<Longrightarrow> permit_ok l pid p"
  using assms by (auto simp: ledger_ok_def records_ok_def)

lemma books_okD:
  assumes "books_ok l" "map_of (accounts l) b = Some a"
  shows "\<exists>d. map_of (allocated_of l) b = Some d \<and> map_ok d" "\<exists>d. map_of (reserved_of l) b = Some d \<and> keys_ok d"
    "\<exists>d. map_of (committed_of l) b = Some d \<and> map_ok d" "\<exists>d. map_of (overdraft_of l) b = Some d \<and> map_ok d"
proof -
  have "b \<in> dom (map_of (accounts l))" using assms(2) by (rule domI)
  then have "b \<in> dom (map_of (allocated_of l))" "b \<in> dom (map_of (reserved_of l))"
    "b \<in> dom (map_of (committed_of l))" "b \<in> dom (map_of (overdraft_of l))"
    using assms(1) unfolding books_ok_def by simp_all
  then show "\<exists>d. map_of (allocated_of l) b = Some d \<and> map_ok d" "\<exists>d. map_of (reserved_of l) b = Some d \<and> keys_ok d"
    "\<exists>d. map_of (committed_of l) b = Some d \<and> map_ok d" "\<exists>d. map_of (overdraft_of l) b = Some d \<and> map_ok d"
    using assms(1) unfolding books_ok_def by blast+
qed

lemma chain_exists:
  assumes "accounts_ok l" "map_of (accounts l) b = Some a"
  shows "\<exists>held. budget_chain_from (accounts l) [] (Some b) = Inr held \<and> chain_of (accounts l) b held"
proof -
  obtain f where "ranked (accounts l) f" using assms(1) unfolding accounts_ok_def by blast
  from chain_total [OF this assms(2)] obtain ch where
    "budget_chain_from (accounts l) [] (Some b) = Inr ([] @ b # ch)" by (metis empty_iff list.set(1))
  then show ?thesis unfolding chain_of_def by blast
qed

section \<open>Posting in the books of a chain\<close>

definition bump :: "budget_account \<Rightarrow> budget_account" where
  "bump a = a\<lparr>revision := revision a + 1\<rparr>"

definition post ::
  "string list \<Rightarrow> (amount_map \<Rightarrow> amount_map) \<Rightarrow> (amount_map \<Rightarrow> amount_map) \<Rightarrow> (amount_map \<Rightarrow> amount_map)
     \<Rightarrow> budget_ledger \<Rightarrow> budget_ledger" where
  "post held f g h l =
     l\<lparr>accounts := map_held held bump (accounts l), reserved_of := map_held held f (reserved_of l),
       committed_of := map_held held g (committed_of l), overdraft_of := map_held held h (overdraft_of l)\<rparr>"

lemma post_fields [simp]:
  "accounts (post held f g h l) = map_held held bump (accounts l)" "allocated_of (post held f g h l) = allocated_of l"
  "reserved_of (post held f g h l) = map_held held f (reserved_of l)"
  "committed_of (post held f g h l) = map_held held g (committed_of l)"
  "overdraft_of (post held f g h l) = map_held held h (overdraft_of l)"
  "reservations (post held f g h l) = reservations l" "reservation_holds (post held f g h l) = reservation_holds l"
  "permits (post held f g h l) = permits l" "permit_spent (post held f g h l) = permit_spent l"
  "completion_reserves (post held f g h l) = completion_reserves l"
  "completion_reserve_holds (post held f g h l) = completion_reserve_holds l"
  "reservation_counter (post held f g h l) = reservation_counter l" "fencing_counter (post held f g h l) = fencing_counter l"
  by (simp_all add: post_def)

lemma same_parents_bump: "distinct held \<Longrightarrow> same_parents accts (map_held held bump accts)"
  by (auto simp: same_parents_def bump_def)

lemma ranked_bump: "distinct held \<Longrightarrow> ranked accts f \<Longrightarrow> ranked (map_held held bump accts) f"
  by (fastforce simp: ranked_def bump_def split: if_splits)

lemma accounts_ok_post: "distinct held \<Longrightarrow> accounts_ok l \<Longrightarrow> accounts_ok (post held f g h l)"
  using ranked_bump [of held "accounts l"] by (fastforce simp: accounts_ok_def bump_def split: if_splits)

lemma books_ok_post:
  assumes "distinct held" "books_ok l"
    "\<And>d. keys_ok d \<Longrightarrow> keys_ok (f d)" "\<And>d. map_ok d \<Longrightarrow> map_ok (g d)" "\<And>d. map_ok d \<Longrightarrow> map_ok (h d)"
  shows "books_ok (post held f g h l)"
  using assms unfolding books_ok_def by (auto split: if_splits)

text \<open>A ledger with the same books and hierarchy keeps the records of the old one.\<close>

lemma reservation_ok_mono:
  assumes "reservation_ok l rid r" "same_parents (accounts l) (accounts l')" "fencing_counter l \<le> fencing_counter l'"
    "map_of (reservation_holds l') rid = map_of (reservation_holds l) rid"
  shows "reservation_ok l' rid r"
  using assms by (auto simp: reservation_ok_def intro: chain_of_mono)

lemma completion_ok_mono:
  assumes "completion_ok l cid c" "same_parents (accounts l) (accounts l')" "fencing_counter l \<le> fencing_counter l'"
    "map_of (completion_reserve_holds l') cid = map_of (completion_reserve_holds l) cid"
  shows "completion_ok l' cid c"
  using assms by (auto simp: completion_ok_def intro: chain_of_mono)

section \<open>The loops\<close>

lemma bind_Inr: "m s = (Inr a, t) \<Longrightarrow> bind_py m f s = f a t"
  by (simp add: bind_py_def)

lemma for_acc_step: "f x b s = (Inr c, t) \<Longrightarrow> for_acc (x # xs) b f s = for_acc xs c f t"
  by (simp add: bind_py_def)

definition revs_ok :: "(string, int) dict \<Rightarrow> string list \<Rightarrow> budget_ledger \<Rightarrow> bool" where
  "revs_ok revs held l \<longleftrightarrow> (\<forall>h \<in> set held. \<exists>a. map_of (accounts l) h = Some a \<and> map_of revs h = Some (revision a + 1))"

lemma get_item_run [simp]: "map_of (f l) key = Some x \<Longrightarrow> get_item f key l = (Inr x, l)"
  by (simp add: get_item_def item_def py_run)

lemma set_revision_run:
  assumes "map_of (accounts l) h = Some a" "map_of revs h = Some (revision a + 1)"
  shows "set_revision revs h l = (Inr (), l\<lparr>accounts := dict_set h (bump a) (accounts l)\<rparr>)"
  using assms by (simp add: set_revision_def item_def py_run bump_def)

lemma revs_ok_tail:
  "revs_ok revs (h # held) l \<Longrightarrow> h \<notin> set held \<Longrightarrow> accounts l' = dict_set h a (accounts l) \<Longrightarrow> revs_ok revs held l'"
  by (auto simp: revs_ok_def)

text \<open>A loop that changes the entry of one account in one of the books.\<close>

lemma entry_loop_run:
  assumes step: "\<And>k x l d. map_of (get l) h = Some d \<Longrightarrow> m k x l = (Inr (), put (dict_set h (f k x d) (get l)) l)"
    and get: "\<And>v l. get (put v l) = v" "\<And>v w l. put v (put w l) = put v l" "\<And>l. put (get l) l = l"
    and d: "map_of (get l) h = Some d"
  shows "for_py xs (\<lambda>(k, x). m k x) l = (Inr (), put (dict_set h (fold (\<lambda>(k, x). f k x) xs d) (get l)) l)"
  using d
proof (induction xs arbitrary: l d)
  case Nil
  then show ?case by (simp add: return_py_def dict_set_same get)
next
  case (Cons p xs)
  obtain k x where p: "p = (k, x)" by (rule prod.exhaust)
  let ?l = "put (dict_set h (f k x d) (get l)) l"
  have "map_of (get ?l) h = Some (f k x d)" by (simp add: get)
  from Cons.IH [OF this] step [OF Cons.prems, of k x] show ?case
    by (simp add: p bind_py_def get dict_set_twice)
qed

lemma add_reserved_run:
  assumes "map_of (reserved_of l) h = Some d"
  shows "for_py xs (\<lambda>(k, x). bind_py (get_item reserved_of h) (\<lambda>d.
      modify_py (\<lambda>l. l\<lparr>reserved_of := dict_set h (add_amount k x d) (reserved_of l)\<rparr>))) l =
    (Inr (), l\<lparr>reserved_of := dict_set h (add_all xs d) (reserved_of l)\<rparr>)"
  unfolding add_all_def
  by (rule entry_loop_run [where get = reserved_of and put = "\<lambda>v. reserved_of_update (\<lambda>_. v)", OF _ _ _ _ assms]) (simp_all add: py_run)

lemma drop_reserved_run:
  assumes "map_of (reserved_of l) h = Some d"
  shows "for_py xs (\<lambda>(k, x). drop_reserved h k x) l =
    (Inr (), l\<lparr>reserved_of := dict_set h (sub_all xs d) (reserved_of l)\<rparr>)"
  unfolding sub_all_def drop_reserved_def
  by (rule entry_loop_run [where get = reserved_of and put = "\<lambda>v. reserved_of_update (\<lambda>_. v)", OF _ _ _ _ assms]) (simp_all add: py_run)

lemma book_loop_run:
  assumes step: "\<And>h d l. map_of (reserved_of l) h = Some d \<Longrightarrow>
      m h l = (Inr (), l\<lparr>reserved_of := dict_set h (f d) (reserved_of l)\<rparr>)"
    and "distinct held" "revs_ok revs held l" "\<forall>h \<in> set held. map_of (reserved_of l) h \<noteq> None"
  shows "for_py held (\<lambda>h. bind_py (m h) (\<lambda>_. set_revision revs h)) l = (Inr (), post held f (\<lambda>d. d) (\<lambda>d. d) l)"
  using assms(2-)
proof (induction held arbitrary: l)
  case Nil
  then show ?case by (simp add: py_run post_def)
next
  case (Cons h held)
  obtain d a where d: "map_of (reserved_of l) h = Some d" and a: "map_of (accounts l) h = Some a"
    "map_of revs h = Some (revision a + 1)"
    using Cons.prems by (auto simp: revs_ok_def)
  let ?l = "l\<lparr>reserved_of := dict_set h (f d) (reserved_of l), accounts := dict_set h (bump a) (accounts l)\<rparr>"
  have "for_py held (\<lambda>h. bind_py (m h) (\<lambda>_. set_revision revs h)) ?l = (Inr (), post held f (\<lambda>d. d) (\<lambda>d. d) ?l)"
    using Cons.prems by (intro Cons.IH) (auto intro: revs_ok_tail)
  moreover have "post held f (\<lambda>d. d) (\<lambda>d. d) ?l = post (h # held) f (\<lambda>d. d) (\<lambda>d. d) l"
    using d a by (simp add: post_def map_held_Cons)
  moreover have "bind_py (m h) (\<lambda>_. set_revision revs h) l = (Inr (), ?l)"
    using d a by (simp add: bind_py_def step set_revision_run)
  ultimately show ?case by (simp add: bind_Inr)
qed

lemma hold_amounts_run:
  assumes "distinct held" "revs_ok revs held l" "\<forall>h \<in> set held. map_of (reserved_of l) h \<noteq> None"
  shows "hold_amounts xs revs held l = (Inr (), post held (add_all xs) (\<lambda>d. d) (\<lambda>d. d) l)"
  unfolding hold_amounts_def by (rule book_loop_run [OF add_reserved_run assms])

lemma free_amounts_run:
  assumes "distinct held" "revs_ok revs held l" "\<forall>h \<in> set held. map_of (reserved_of l) h \<noteq> None"
  shows "free_amounts xs revs held l = (Inr (), post held (sub_all xs) (\<lambda>d. d) (\<lambda>d. d) l)"
  unfolding free_amounts_def by (rule book_loop_run [OF drop_reserved_run assms])

text \<open>The settlement loops of \<^verbatim>\<open>commit\<close>.\<close>

definition unused_of :: "amount_map \<Rightarrow> amount_map \<Rightarrow> amount_map \<Rightarrow> amount_map" where
  "unused_of reserved actual d =
     fold (\<lambda>(k, x) d. let u = dec_sub x (amount_of actual k) in if 0 < u then dict_set k u d else d) reserved d"

lemma settle_unused_run:
  assumes "map_of (reserved_of l) h = Some d"
  shows "settle_unused b h xs actual rel l =
    (Inr (if h = b then unused_of xs actual rel else rel), l\<lparr>reserved_of := dict_set h (sub_all xs d) (reserved_of l)\<rparr>)"
  using assms unfolding settle_unused_def
proof (induction xs arbitrary: l d rel)
  case Nil
  then show ?case by (simp add: return_py_def sub_all_def unused_of_def dict_set_same)
next
  case (Cons p xs)
  obtain k x where p: "p = (k, x)" by (rule prod.exhaust)
  let ?l = "l\<lparr>reserved_of := dict_set h (sub_amount k x d) (reserved_of l)\<rparr>"
  have drop: "drop_reserved h k x l = (Inr (), ?l)" using Cons.prems by (simp add: drop_reserved_def py_run)
  have "map_of (reserved_of ?l) h = Some (sub_amount k x d)" by simp
  note IH = Cons.IH [OF this]
  show ?case
    using drop IH by (auto simp: p bind_Inr return_py_def sub_all_def unused_of_def dict_set_twice Let_def)
qed

lemma settle_actual_run:
  assumes "map_of (committed_of l) h = Some c" "map_of (overdraft_of l) h = Some d"
  shows "settle_actual b h reserved xs over l =
    (Inr (if h = b then unused_of xs reserved over else over),
     l\<lparr>committed_of := dict_set h (add_all xs c) (committed_of l),
       overdraft_of := dict_set h (extra_of reserved xs d) (overdraft_of l)\<rparr>)"
  using assms unfolding settle_actual_def
proof (induction xs arbitrary: l c d over)
  case Nil
  then show ?case by (simp add: return_py_def add_all_def extra_of_def unused_of_def dict_set_same)
next
  case (Cons p xs)
  obtain k x where p: "p = (k, x)" by (rule prod.exhaust)
  let ?e = "dec_sub x (amount_of reserved k)"
  let ?l = "l\<lparr>committed_of := dict_set h (add_amount k x c) (committed_of l),
       overdraft_of := dict_set h (if 0 < ?e then add_amount k ?e d else d) (overdraft_of l)\<rparr>"
  have l: "map_of (committed_of ?l) h = Some (add_amount k x c)"
    "map_of (overdraft_of ?l) h = Some (if 0 < ?e then add_amount k ?e d else d)" by simp_all
  have "bind_py (get_item committed_of h) (\<lambda>d.
       bind_py (modify_py (\<lambda>l. l\<lparr>committed_of := dict_set h (add_amount k x d) (committed_of l)\<rparr>)) (\<lambda>_.
       let extra = dec_sub x (amount_of reserved k) in
       if 0 < extra then
         bind_py (get_item overdraft_of h) (\<lambda>d'.
         bind_py (modify_py (\<lambda>l. l\<lparr>overdraft_of := dict_set h (add_amount k extra d') (overdraft_of l)\<rparr>)) (\<lambda>_.
         return_py (if h = b then dict_set k extra over else over)))
       else return_py over)) l = (Inr (if 0 < ?e \<and> h = b then dict_set k ?e over else over), ?l)"
    using Cons.prems by (simp add: py_run Let_def dict_set_same)
  with Cons.IH [OF l] show ?case
    by (simp add: p bind_Inr) (auto simp: add_all_def extra_of_def unused_of_def dict_set_twice Let_def)
qed

definition settle_loop ::
  "string \<Rightarrow> (string, int) dict \<Rightarrow> amount_map \<Rightarrow> amount_map \<Rightarrow> string list \<Rightarrow> amount_map \<times> amount_map
     \<Rightarrow> (amount_map \<times> amount_map) ledger_method" where
  "settle_loop b revs reserved actual held acc =
     for_acc held acc (\<lambda>h (released, overdraft).
       bind_py (settle_unused b h reserved actual released) (\<lambda>released'.
       bind_py (settle_actual b h reserved actual overdraft) (\<lambda>overdraft'.
       bind_py (set_revision revs h) (\<lambda>_.
       return_py (released', overdraft')))))"

lemma settle_loop_run:
  assumes "distinct held" "revs_ok revs held l" "\<forall>h \<in> set held. map_of (reserved_of l) h \<noteq> None \<and>
      map_of (committed_of l) h \<noteq> None \<and> map_of (overdraft_of l) h \<noteq> None"
  shows "settle_loop b revs reserved actual held (rel, over) l =
    (Inr (if b \<in> set held then (unused_of reserved actual rel, unused_of actual reserved over) else (rel, over)),
     post held (sub_all reserved) (add_all actual) (extra_of reserved actual) l)"
  using assms unfolding settle_loop_def
proof (induction held arbitrary: l rel over)
  case Nil
  then show ?case by (simp add: return_py_def post_def)
next
  case (Cons h held)
  obtain r c d a where r: "map_of (reserved_of l) h = Some r" and c: "map_of (committed_of l) h = Some c"
    and d: "map_of (overdraft_of l) h = Some d"
    and a: "map_of (accounts l) h = Some a" "map_of revs h = Some (revision a + 1)"
    using Cons.prems by (auto simp: revs_ok_def)
  let ?l1 = "l\<lparr>reserved_of := dict_set h (sub_all reserved r) (reserved_of l)\<rparr>"
  let ?l2 = "?l1\<lparr>committed_of := dict_set h (add_all actual c) (committed_of ?l1),
       overdraft_of := dict_set h (extra_of reserved actual d) (overdraft_of ?l1)\<rparr>"
  let ?l = "?l2\<lparr>accounts := dict_set h (bump a) (accounts ?l2)\<rparr>"
  let ?acc = "(if h = b then unused_of reserved actual rel else rel, if h = b then unused_of actual reserved over else over)"
  have un: "settle_unused b h reserved actual rel l = (Inr (fst ?acc), ?l1)" using settle_unused_run [OF r] by simp
  have ac: "settle_actual b h reserved actual over ?l1 = (Inr (snd ?acc), ?l2)"
    using settle_actual_run [of ?l1 h c d] c d by simp
  have rev: "set_revision revs h ?l2 = (Inr (), ?l)" using set_revision_run [of ?l2 h a revs] a by simp
  have step: "(case (rel, over) of (released, overdraft) \<Rightarrow>
       bind_py (settle_unused b h reserved actual released) (\<lambda>released'.
       bind_py (settle_actual b h reserved actual overdraft) (\<lambda>overdraft'.
       bind_py (set_revision revs h) (\<lambda>_. return_py (released', overdraft'))))) l = (Inr ?acc, ?l)"
    by (simp only: prod.case bind_Inr un ac rev) (simp add: return_py_def)
  have tail: "post held (sub_all reserved) (add_all actual) (extra_of reserved actual) ?l =
      post (h # held) (sub_all reserved) (add_all actual) (extra_of reserved actual) l"
    using r c d a by (simp add: post_def map_held_Cons)
  have "distinct held" "revs_ok revs held ?l" "\<forall>h \<in> set held. map_of (reserved_of ?l) h \<noteq> None \<and>
      map_of (committed_of ?l) h \<noteq> None \<and> map_of (overdraft_of ?l) h \<noteq> None"
    using Cons.prems by (auto intro: revs_ok_tail)
  note IH = Cons.IH [OF this, of "fst ?acc" "snd ?acc", unfolded tail]
  show ?case by (rule trans, rule for_acc_step, rule step) (use IH Cons.prems(1) in auto)
qed

lemma next_revisions_wp:
  "wp (next_revisions held) (\<lambda>revs l'. l' = l \<and> revs_ok revs held l) (\<lambda>_ l'. l' = l) l"
proof -
  let ?I = "\<lambda>xs revs l'. l' = l \<and> (\<forall>h \<in> set held - set xs. \<exists>a. map_of (accounts l) h = Some a \<and> map_of revs h = Some (revision a + 1))"
  have "wp (next_revisions held) (?I []) (\<lambda>_ l'. l' = l) l"
    unfolding next_revisions_def
  proof (rule wp_for_acc [where I = ?I])
    fix h xs revs l' assume I: "?I (h # xs) revs l'"
    show "wp (bind_py (get_item accounts h) (\<lambda>account.
       bind_py (lift_py (increment_budget_counter (revision account))) (\<lambda>n.
       return_py (dict_set h n revs)))) (?I xs) (\<lambda>_ l'. l' = l) l'"
      unfolding get_item_def
      using I by (auto simp: wp_rules item_def increment_budget_counter_def split: option.splits sum.splits)
  qed simp
  then show ?thesis by (rule wp_mono) (auto simp: revs_ok_def)
qed

end
