(* ===== verification/Budget_Ops.thy ===== *)
theory Budget_Ops
  imports Budget_Inv
begin

text \<open>
  The effect of each operation of the ledger: an operation that raises leaves the ledger as
  it was, and one that returns makes exactly the change stated here. The invariant and the
  properties are read off these effects.
\<close>

section \<open>Methods that only read\<close>

definition quiet :: "('s, 'e, 'a) py \<Rightarrow> bool" where
  "quiet m \<longleftrightarrow> (\<forall>s. snd (m s) = s)"

lemma quietD: "quiet m \<Longrightarrow> m s = (r, t) \<Longrightarrow> t = s"
  unfolding quiet_def by (metis snd_conv)

lemma quiet_basic: "quiet (return_py a)" "quiet (raise_py e)" "quiet (lift_py r)" "quiet (gets_py f)" "quiet (raise_if b e)"
  by (simp_all add: quiet_def py_monad_defs)

lemma quiet_bind: "quiet m \<Longrightarrow> (\<And>a. quiet (f a)) \<Longrightarrow> quiet (bind_py m f)"
  using quietD [of m] by (fastforce simp: quiet_def bind_py_def split: prod.splits sum.splits)

lemma quiet_for: "(\<And>x. quiet (f x)) \<Longrightarrow> quiet (for_py xs f)"
  by (induction xs) (auto intro: quiet_bind quiet_basic)

lemma quiet_for_acc: "(\<And>x b. quiet (f x b)) \<Longrightarrow> quiet (for_acc xs b f)"
  by (induction xs arbitrary: b) (auto intro: quiet_bind quiet_basic)

lemma quiet_option: "quiet m \<Longrightarrow> (\<And>x. quiet (f x)) \<Longrightarrow> quiet (case v of None \<Rightarrow> m | Some x \<Rightarrow> f x)"
  by (cases v) simp_all

lemma quiet_prod: "(\<And>x y. quiet (f x y)) \<Longrightarrow> quiet (case p of (x, y) \<Rightarrow> f x y)"
  by (cases p) simp

lemma quiet_get_item: "quiet (get_item f k)"
  unfolding get_item_def by (intro quiet_bind quiet_basic)

lemmas quiet_rules = quiet_basic quiet_bind quiet_for quiet_for_acc quiet_option quiet_prod quiet_get_item

lemma quiet_balance: "quiet (balance v)"
  unfolding balance_def by (intro quiet_rules)

lemma quiet_chain: "quiet (budget_chain b)"
  unfolding budget_chain_def by (intro quiet_rules)

lemma quiet_active: "quiet (ensure_accounts_active held)"
  unfolding ensure_accounts_active_def by (intro quiet_rules)

lemma quiet_check_available: "quiet (check_available req held)"
  unfolding check_available_def Let_def by (intro quiet_rules quiet_balance)

lemma quiet_next_revisions: "quiet (next_revisions held)"
  unfolding next_revisions_def by (intro quiet_rules)

lemma quiet_held: "quiet (held_budgets rid r)"
  unfolding held_budgets_def by (intro quiet_rules)

lemma quiet_open: "quiet (open_reservation v)"
  unfolding open_reservation_def by (intro quiet_rules)

lemma quiet_reserve_of: "quiet (completion_reserve_of v)" "quiet (reserve_held_budgets cid c)"
  unfolding completion_reserve_of_def reserve_held_budgets_def by (intro quiet_rules)+

lemma quiet_permit: "quiet (permit_for_reservation p v)" "quiet (ensure_permit_not_expired parse_iso permit now)"
  "quiet (ensure_permit_allows_additional permit req rid limit)"
  unfolding permit_for_reservation_def ensure_permit_not_expired_def ensure_permit_allows_additional_def Let_def
  by (intro quiet_rules quiet_held)+

lemma quiet_collect: "quiet (collect_reservation rid acc)"
  unfolding collect_reservation_def by (intro quiet_rules quiet_held)

lemmas quiet_methods = quiet_balance quiet_chain quiet_active quiet_check_available quiet_next_revisions quiet_held
  quiet_open quiet_reserve_of quiet_permit quiet_for_acc [OF quiet_collect]

lemma wp_bind_quiet:
  assumes "quiet m" "\<And>a. m s = (Inr a, s) \<Longrightarrow> wp (f a) Q E s" "\<And>e. m s = (Inl e, s) \<Longrightarrow> E e s"
  shows "wp (bind_py m f) Q E s"
proof -
  obtain r where r: "m s = (r, s)" using assms(1) by (metis prod.collapse quiet_def)
  show ?thesis
  proof (cases r)
    case (Inl e)
    then show ?thesis using r assms(3) by (simp add: wp_def bind_py_def)
  next
    case (Inr a)
    then show ?thesis using r assms(2) by (simp add: wp_def bind_py_def)
  qed
qed

lemmas wp_reads = quiet_methods [THEN wp_bind_quiet]

lemma wp_bind_run: "m s = (Inr a, t) \<Longrightarrow> wp (f a) Q E t \<Longrightarrow> wp (bind_py m f) Q E s"
  by (simp add: wp_def bind_py_def)

lemma wp_bind_hold:
  assumes "distinct held" "revs_ok revs held l" "\<forall>h \<in> set held. map_of (reserved_of l) h \<noteq> None"
    "wp (f ()) Q E (post held (add_all xs) (\<lambda>d. d) (\<lambda>d. d) l)"
  shows "wp (bind_py (hold_amounts xs revs held) f) Q E l"
  by (rule wp_bind_run, rule hold_amounts_run) (rule assms)+

lemma wp_bind_free:
  assumes "distinct held" "revs_ok revs held l" "\<forall>h \<in> set held. map_of (reserved_of l) h \<noteq> None"
    "wp (f ()) Q E (post held (sub_all xs) (\<lambda>d. d) (\<lambda>d. d) l)"
  shows "wp (bind_py (free_amounts xs revs held) f) Q E l"
  by (rule wp_bind_run, rule free_amounts_run) (rule assms)+

section \<open>What the readers return\<close>

definition book :: "(string, amount_map) dict \<Rightarrow> string \<Rightarrow> amount_key \<Rightarrow> rat" where
  "book d b k = (case map_of d b of None \<Rightarrow> 0 | Some m \<Rightarrow> amount_of m k)"

definition remaining :: "budget_ledger \<Rightarrow> string \<Rightarrow> amount_key \<Rightarrow> rat" where
  "remaining l b k = dec_sub (dec_sub (book (allocated_of l) b k) (book (reserved_of l) b k)) (book (committed_of l) b k)"

lemma quiet_bind_Inr:
  "quiet m \<Longrightarrow> bind_py m f s = (Inr b, t) \<Longrightarrow> \<exists>a. m s = (Inr a, s) \<and> f a s = (Inr b, t)"
  using quietD [of m s] by (cases "m s") (fastforce simp: bind_py_def split: sum.splits)

lemma for_quiet_Inr:
  "(\<And>x. quiet (f x)) \<Longrightarrow> for_py xs f s = (Inr u, t) \<Longrightarrow> x \<in> set xs \<Longrightarrow> \<exists>v. f x s = (Inr v, s)"
proof (induction xs)
  case (Cons y xs)
  obtain v where "f y s = (Inr v, s)" "for_py xs f s = (Inr u, t)"
    using quiet_bind_Inr [OF Cons.prems(1) Cons.prems(2) [unfolded for_py.simps]] by blast
  then show ?case using Cons.IH [OF Cons.prems(1)] Cons.prems(3) by auto
qed simp

lemma ensure_active_Inr:
  assumes "ensure_accounts_active held l = (Inr u, l)" "h \<in> set held"
  shows "\<exists>a. map_of (accounts l) h = Some a \<and> account_status a = Active"
proof -
  have "\<exists>v. (bind_py (gets_py (\<lambda>l. map_of (accounts l) h)) (\<lambda>a. case a of None \<Rightarrow> raise_py BudgetNotFoundError
       | Some account \<Rightarrow>
           raise_if (account_status account \<noteq> Active) (BudgetAccountStateError h (account_status account)))) l = (Inr v, l)"
    by (rule for_quiet_Inr [OF _ assms(1) [unfolded ensure_accounts_active_def] assms(2)]) (intro quiet_rules)
  then show ?thesis by (auto simp: py_run split: option.splits if_splits)
qed

definition available_at :: "amount_map \<Rightarrow> amount_map \<Rightarrow> amount_map \<Rightarrow> amount_key \<Rightarrow> rat" where
  "available_at a r c k = dec_sub (dec_sub (amount_of a k) (amount_of r k)) (amount_of c k)"

lemma get_available:
  "map_of (available_amounts a r c) k =
     (if k \<in> fst ` (set a \<union> set r \<union> set c) \<and> 0 < available_at a r c k then Some (available_at a r c k) else None)"
proof -
  let ?ks = "remdups (map fst a @ map fst r @ map fst c)" and ?f = "available_at a r c"
  have "map_of (filter (\<lambda>(k, x). 0 < x) (map (\<lambda>k. (k, ?f k)) ks)) k = (if k \<in> set ks \<and> 0 < ?f k then Some (?f k) else None)" for ks
    by (induction ks) auto
  then show ?thesis by (auto simp: available_amounts_def available_at_def image_Un)
qed

lemma amount_of_available: "amount_of (available_amounts a r c) k = max 0 (available_at a r c k)"
proof (cases "k \<in> fst ` (set a \<union> set r \<union> set c)")
  case False
  then have "amount_of a k = 0" "amount_of r k = 0" "amount_of c k = 0"
    by (auto simp: amount_of_def map_of_eq_None_iff image_Un split: option.splits dest!: map_of_SomeD) (metis fst_conv image_eqI)+
  then show ?thesis using False by (simp add: amount_of_def [of "available_amounts a r c"] get_available available_at_def dec_sub_def)
qed (simp add: amount_of_def [of "available_amounts a r c"] get_available max_def)

lemma map_ok_available:
  assumes "keys_ok a" "keys_ok r" "keys_ok c"
  shows "map_ok (available_amounts a r c)"
proof -
  have "dict_ok (available_amounts a r c)"
    by (auto simp: available_amounts_def dict_ok_def distinct_map inj_on_def intro!: distinct_map_filter)
  moreover have "key_ok k" if "k \<in> fst ` (set a \<union> set r \<union> set c)" for k
    using that assms by (auto simp: keys_ok_def dict_mem_iff)
  ultimately show ?thesis
    by (auto simp: map_ok_def keys_ok_def get_available amount_of_available split: if_splits)
qed

lemma dec_fix_available [simp]: "dec_fix (max 0 (available_at a r c k)) = max 0 (available_at a r c k)"
  by (simp add: max_def available_at_def dec_sub_def)

text \<open>\<^verbatim>\<open>balance\<close> fails only when a reserved total is negative, which the constructor of the amount rejects.\<close>

lemma balance_run:
  assumes "map_of (accounts l) b = Some account" "map_of (allocated_of l) b = Some a" "map_of (reserved_of l) b = Some r"
    "map_of (committed_of l) b = Some c" "map_of (overdraft_of l) b = Some d" "map_ok a" "keys_ok r" "map_ok c" "map_ok d"
  shows "balance (PyStr b) l =
    (case dict_to_amounts r of
       Inl e \<Rightarrow> (Inl e, l)
     | Inr r' \<Rightarrow> (Inr \<lparr>balance_budget = b, balance_allocated = listed a, balance_reserved = r', balance_committed = listed c,
         balance_available = listed (available_amounts a r c), balance_overdraft = listed d, balance_revision = revision account\<rparr>, l))"
proof -
  have "dict_to_amounts (available_amounts a r c) = Inr (listed (available_amounts a r c))"
    using assms by (intro dict_to_amounts_eq map_ok_available) (auto simp: map_ok_def)
  then show ?thesis using assms
    by (cases "dict_to_amounts r")
      (simp_all add: balance_def py_run py_get_def dict_to_amounts_eq cong: bind_run_cong)
qed

lemma balance_account: "balance (PyStr b) l = (Inr bal, l) \<Longrightarrow> \<exists>account. map_of (accounts l) b = Some account"
  by (cases "map_of (accounts l) b") (simp_all add: balance_def py_run py_get_def cong: bind_run_cong)

lemma balance_Inr:
  assumes l: "ledger_ok l" and bal: "balance (PyStr b) l = (Inr bal, l)"
  shows "amount_of (sum_amounts (balance_available bal)) k = max 0 (remaining l b k)"
proof -
  obtain account where acc: "map_of (accounts l) b = Some account" using balance_account [OF bal] by blast
  then obtain a r c d where ok: "map_of (allocated_of l) b = Some a" "map_of (reserved_of l) b = Some r"
    "map_of (committed_of l) b = Some c" "map_of (overdraft_of l) b = Some d" "map_ok a" "keys_ok r" "map_ok c" "map_ok d"
    using books_okD [OF ledger_okD(2) [OF l] acc] by (elim exE conjE) (rule that)
  have avail: "map_ok (available_amounts a r c)" using ok by (intro map_ok_available) (auto simp: map_ok_def)
  have "balance_available bal = listed (available_amounts a r c)"
    using bal balance_run [OF acc ok] by (auto split: sum.splits)
  moreover have "remaining l b k = available_at a r c k" using ok by (simp add: remaining_def book_def available_at_def)
  ultimately show ?thesis by (simp add: amount_of_listed [OF avail] amount_of_available)
qed

lemma check_available_Inr:
  assumes l: "ledger_ok l" and check: "check_available req held l = (Inr u, l)" and h: "h \<in> set held" "(k, x) \<in> set req"
  shows "x \<le> max 0 (remaining l h k)"
proof -
  have q: "quiet (for_py req (\<lambda>(k, x). raise_if (amount_of (sum_amounts (balance_available bal)) k < x) BudgetExceededError))"
    for bal :: budget_balance by (intro quiet_rules)
  have "\<exists>v. bind_py (balance (PyStr h)) (\<lambda>bal. for_py req (\<lambda>(k, x).
      raise_if (amount_of (sum_amounts (balance_available bal)) k < x) BudgetExceededError)) l = (Inr v, l)"
    using check unfolding check_available_def Let_def
    by (rule for_quiet_Inr [OF _ _ h(1), rotated]) (intro quiet_bind quiet_balance q)
  then obtain v where v: "bind_py (balance (PyStr h)) (\<lambda>bal. for_py req (\<lambda>(k, x).
      raise_if (amount_of (sum_amounts (balance_available bal)) k < x) BudgetExceededError)) l = (Inr v, l)" by blast
  from quiet_bind_Inr [OF quiet_balance v] obtain bal where bal: "balance (PyStr h) l = (Inr bal, l)"
    and loop: "for_py req (\<lambda>(k, x). raise_if (amount_of (sum_amounts (balance_available bal)) k < x) BudgetExceededError) l = (Inr v, l)" by blast
  have "\<exists>v. (\<lambda>(k, x). raise_if (amount_of (sum_amounts (balance_available bal)) k < x) BudgetExceededError) (k, x) l = (Inr v, l)"
    by (rule for_quiet_Inr [OF _ loop h(2)]) (intro quiet_rules)
  then show ?thesis using balance_Inr [OF l bal] by (auto simp: raise_if_def split: if_splits)
qed

section \<open>Effects\<close>

definition arg_ok :: "amounts_arg \<Rightarrow> bool" where
  "arg_ok v \<longleftrightarrow> (\<forall>xs u. v = Some xs \<longrightarrow> Some u \<in> set xs \<longrightarrow> usage_ok u)"

lemma validate_usage_amounts_ok: "arg_ok v \<Longrightarrow> validate_usage_amounts v = Inr us \<Longrightarrow> \<forall>a \<in> set us. usage_ok a"
  by (auto simp: arg_ok_def validate_usage_amounts_def split: option.splits if_splits) (metis option.exhaust_sel)

lemma amounts_to_dict_ok: "arg_ok v \<Longrightarrow> amounts_to_dict v = Inr d \<Longrightarrow> map_ok d \<and> (\<forall>k x. (k, x) \<in> set d \<longrightarrow> 0 < x)"
  using validate_usage_amounts_ok [of v]
  by (auto simp: amounts_to_dict_def bind_sum_Inr_iff intro: map_ok_sum_amounts sum_amounts_pos)

lemma listed_sum:
  "arg_ok v \<Longrightarrow> validate_usage_amounts v = Inr us \<Longrightarrow> dict_to_amounts (sum_amounts us) = Inr (listed (sum_amounts us))"
  by (intro dict_to_amounts_eq map_ok_sum_amounts validate_usage_amounts_ok)

definition opened :: "budget_ledger \<Rightarrow> string \<Rightarrow> budget_account \<Rightarrow> amount_map \<Rightarrow> budget_ledger" where
  "opened l b a d =
     l\<lparr>accounts := dict_set b a (accounts l), allocated_of := dict_set b d (allocated_of l),
       reserved_of := dict_set b [] (reserved_of l), committed_of := dict_set b [] (committed_of l),
       overdraft_of := dict_set b [] (overdraft_of l)\<rparr>"

definition allocates :: "budget_ledger \<Rightarrow> usage_amount list \<Rightarrow> budget_account \<Rightarrow> budget_ledger \<Rightarrow> bool" where
  "allocates l us a l' \<longleftrightarrow>
     (\<exists>b. string_ok b \<and> account_id a = b \<and> map_of (accounts l) b = None \<and>
       (\<forall>p. parent_budget_id a = Some p \<longrightarrow> map_of (accounts l) p \<noteq> None) \<and>
       (\<forall>u \<in> set us. usage_ok u) \<and> allocated a = listed (sum_amounts us) \<and>
       account_status a = Active \<and> revision a = 1 \<and> l' = opened l b a (sum_amounts us))"

lemma allocate_effect:
  assumes "arg_ok amounts"
  shows "wp (allocate budget_v scope_v amounts policy_v parent_v)
    (\<lambda>a l'. \<exists>us. validate_usage_amounts amounts = Inr us \<and> allocates l us a l') (\<lambda>_ l'. l' = l) l"
  unfolding allocate_def Let_def
  using validate_usage_amounts_ok [OF assms] listed_sum [OF assms]
  by (intro wp_intros refl) (auto simp: allocates_def opened_def budget_string_iff split: option.splits)

definition holds :: "budget_ledger \<Rightarrow> string \<Rightarrow> string list \<Rightarrow> amount_map \<Rightarrow> bool" where
  "holds l b held req \<longleftrightarrow>
     chain_of (accounts l) b held \<and> map_ok req \<and> (\<forall>k x. (k, x) \<in> set req \<longrightarrow> 0 < x) \<and>
     (\<forall>h \<in> set held. \<exists>a. map_of (accounts l) h = Some a \<and> account_status a = Active) \<and>
     (\<forall>h \<in> set held. \<forall>k x. (k, x) \<in> set req \<longrightarrow> x \<le> max 0 (remaining l h k))"

definition reserves :: "budget_ledger \<Rightarrow> amount_map \<Rightarrow> budget_reservation \<Rightarrow> budget_ledger \<Rightarrow> bool" where
  "reserves l req r l' \<longleftrightarrow>
     (\<exists>held rc. holds l (reservation_budget r) held req \<and> map_of (reservations l) (reservation_id r) = None \<and>
       reservation_amounts r = listed req \<and> reservation_status r = Reserved \<and>
       reservation_token r = fencing_counter l + 1 \<and> reservation_counter l < rc \<and> rc \<le> MAX_BUDGET_COUNTER \<and>
       fencing_counter l < MAX_BUDGET_COUNTER \<and>
       l' = (post held (add_all req) (\<lambda>d. d) (\<lambda>d. d) l)
         \<lparr>reservation_counter := rc, fencing_counter := fencing_counter l + 1,
          reservations := dict_set (reservation_id r) r (reservations l),
          reservation_holds := dict_set (reservation_id r) held (reservation_holds l)\<rparr>)"

lemma chain_Inr: "budget_chain b l = (Inr held, l) \<Longrightarrow> chain_of (accounts l) b held"
  by (simp add: budget_chain_def py_run chain_of_def)

lemma revisions_Inr: "next_revisions held l = (Inr revs, l) \<Longrightarrow> revs_ok revs held l"
  using next_revisions_wp [of held l] by (simp add: wp_def)

lemma reserved_dom:
  "ledger_ok l \<Longrightarrow> chain_of (accounts l) b held \<Longrightarrow> \<forall>h \<in> set held. map_of (reserved_of l) h \<noteq> None \<and>
      map_of (committed_of l) h \<noteq> None \<and> map_of (overdraft_of l) h \<noteq> None"
  using books_okD [OF ledger_okD(2)] chain_ofD(3) by (metis option.distinct(1))

lemma holdsI:
  assumes "ledger_ok l" "budget_chain b l = (Inr held, l)" "ensure_accounts_active held l = (Inr u, l)"
    "check_available req held l = (Inr v, l)" "map_ok req" "\<And>k x. (k, x) \<in> set req \<Longrightarrow> 0 < x"
  shows "holds l b held req"
  using assms chain_Inr ensure_active_Inr [OF assms(3)] check_available_Inr [OF assms(1,4)] by (auto simp: holds_def)

lemma reserve_effect:
  assumes l: "ledger_ok l" and "arg_ok amounts"
  shows "wp (reserve budget_v owner_v amounts purpose_v expires_v id_v)
    (\<lambda>r l'. \<exists>req. amounts_to_dict amounts = Inr req \<and> reserves l req r l') (\<lambda>_ l'. l' = l) l"
  unfolding reserve_def Let_def
proof (intro wp_intros wp_reads refl)
  fix b own us purp ex rid held u v rc fc old w xs revs
  assume us: "validate_usage_amounts amounts = Inr us" and held: "budget_chain b l = (Inr held, l)"
    "ensure_accounts_active held l = (Inr u, l)" "check_available (sum_amounts us) held l = (Inr v, l)"
    and revs: "next_revisions held l = (Inr revs, l)"
    and rc: "increment_budget_counter (reservation_counter l) = Inr rc"
    and fc: "increment_budget_counter (fencing_counter l) = Inr fc"
    and xs: "dict_to_amounts (sum_amounts us) = Inr xs"
  let ?rid = "case rid of None \<Rightarrow> ''reservation-'' @ fmt_06d rc | Some i \<Rightarrow> i"
  let ?r = "\<lparr>reservation_id = ?rid, reservation_budget = b, reservation_owner = own, reservation_amounts = xs,
      purpose = purp, reservation_expires_at = ex, reservation_token = fc, reservation_status = Reserved\<rparr>"
  assume new: "\<not> map_of (reservations l) ?rid \<noteq> None" and suffix: "\<not> MAX_BUDGET_COUNTER < numeric_record_suffix ?rid ''reservation-''"
  have ok: "\<forall>u \<in> set us. usage_ok u" using validate_usage_amounts_ok [OF assms(2) us] .
  have req: "holds l b held (sum_amounts us)"
    using holdsI [OF l held map_ok_sum_amounts [OF ok] sum_amounts_pos [OF ok]] .
  let ?l = "l\<lparr>reservation_counter := max rc (numeric_record_suffix ?rid ''reservation-''), fencing_counter := fc\<rparr>"
  have d: "distinct held" "revs_ok revs held ?l" "\<forall>h \<in> set held. map_of (reserved_of ?l) h \<noteq> None"
    using chain_ofD(1) [OF chain_Inr [OF held(1)]] revisions_Inr [OF revs] reserved_dom [OF l chain_Inr [OF held(1)]]
    by (auto simp: revs_ok_def)
  have req': "amounts_to_dict amounts = Inr (sum_amounts us)" using us by (simp add: amounts_to_dict_def)
  have xs': "xs = listed (sum_amounts us)" using xs dict_to_amounts_eq [OF map_ok_sum_amounts [OF ok]] by simp
  show "wp (bind_py (hold_amounts (sum_amounts us) revs held) (\<lambda>_.
      bind_py (modify_py (\<lambda>l. l\<lparr>reservations := dict_set ?rid ?r (reservations l)\<rparr>)) (\<lambda>_.
      bind_py (modify_py (\<lambda>l. l\<lparr>reservation_holds := dict_set ?rid held (reservation_holds l)\<rparr>)) (\<lambda>_.
      return_py ?r))))
    (\<lambda>r l'. \<exists>req. amounts_to_dict amounts = Inr req \<and> reserves l req r l') (\<lambda>_ l'. l' = l) ?l"
    using req req' xs' new suffix rc fc
    by (intro wp_bind_hold [OF d])
      (auto simp: wp_rules reserves_def increment_budget_counter_def post_def split: if_splits
         intro!: exI [of _ held] exI [of _ "max rc (numeric_record_suffix ?rid ''reservation-'')"])
qed

definition open_in :: "budget_ledger \<Rightarrow> string \<Rightarrow> budget_reservation \<Rightarrow> string list \<Rightarrow> bool" where
  "open_in l rid r held \<longleftrightarrow> map_of (reservations l) rid = Some r \<and> reservation_status r = Reserved \<and>
     map_of (reservation_holds l) rid = Some held \<and> chain_of (accounts l) (reservation_budget r) held"

definition frees :: "budget_ledger \<Rightarrow> reservation_status \<Rightarrow> string \<Rightarrow> budget_reservation \<Rightarrow> string list \<Rightarrow> budget_ledger \<Rightarrow> bool" where
  "frees l st rid r held l' \<longleftrightarrow> open_in l rid r held \<and>
     l' = (post held (sub_all (sum_amounts (reservation_amounts r))) (\<lambda>d. d) (\<lambda>d. d) l)
       \<lparr>reservations := dict_set rid (r\<lparr>reservation_status := st\<rparr>) (reservations l)\<rparr>"

definition commits ::
  "budget_ledger \<Rightarrow> string \<Rightarrow> budget_reservation \<Rightarrow> string list \<Rightarrow> amount_map \<Rightarrow> budget_ledger \<Rightarrow> bool" where
  "commits l rid r held actual l' \<longleftrightarrow> open_in l rid r held \<and> map_ok actual \<and>
     (let req = sum_amounts (reservation_amounts r) in
      l' = (post held (sub_all req) (add_all actual) (extra_of req actual) l)
        \<lparr>reservations := dict_set rid (r\<lparr>reservation_status := Committed\<rparr>) (reservations l)\<rparr>)"

lemma open_reservation_Inr:
  "open_reservation v l = (Inr (rid, r), l) \<longleftrightarrow>
     v = PyStr rid \<and> map_of (reservations l) rid = Some r \<and> reservation_status r = Reserved"
  by (cases v) (auto simp: open_reservation_def py_run py_get_def split: option.splits)

lemma open_inI:
  assumes "ledger_ok l" "map_of (reservations l) rid = Some r" "reservation_status r = Reserved"
    "held_budgets rid r l = (Inr held, l)"
  shows "open_in l rid r held"
  using ledger_okD(4) [OF assms(1,2)] assms(2-)
  by (auto simp: open_in_def held_budgets_def gets_py_def reservation_ok_def)

lemma open_inD:
  assumes l: "ledger_ok l" and "open_in l rid r held"
  shows "distinct held" "map_ok (sum_amounts (reservation_amounts r))" "\<exists>a. map_of (accounts l) (reservation_budget r) = Some a"
    "reservation_budget r \<in> set held" "\<forall>h \<in> set held. map_of (reserved_of l) h \<noteq> None \<and>
      map_of (committed_of l) h \<noteq> None \<and> map_of (overdraft_of l) h \<noteq> None"
proof -
  have r: "map_of (reservations l) rid = Some r" "chain_of (accounts l) (reservation_budget r) held"
    using assms(2) by (simp_all add: open_in_def)
  show "distinct held" "reservation_budget r \<in> set held" "\<exists>a. map_of (accounts l) (reservation_budget r) = Some a"
    using chain_ofD [OF r(2)] by blast+
  show "map_ok (sum_amounts (reservation_amounts r))"
    using ledger_okD(4) [OF l r(1)] by (intro map_ok_sum_amounts) (simp add: reservation_ok_def)
  show "\<forall>h \<in> set held. map_of (reserved_of l) h \<noteq> None \<and> map_of (committed_of l) h \<noteq> None \<and> map_of (overdraft_of l) h \<noteq> None"
    by (rule reserved_dom [OF l r(2)])
qed

lemma wp_bind_get_item: "map_of (f l) key = Some x \<Longrightarrow> wp (g x) Q E l \<Longrightarrow> wp (bind_py (get_item f key) g) Q E l"
  by (simp add: wp_bind_run)

lemma wp_bind_lift_Inr: "r = Inr a \<Longrightarrow> wp (f a) Q E l \<Longrightarrow> wp (bind_py (lift_py r) f) Q E l"
  by (simp add: wp_rules)

lemma settle_effect:
  assumes l: "ledger_ok l"
  shows "wp (settle_reservation st v)
    (\<lambda>s l'. \<exists>rid r held. v = PyStr rid \<and> frees l st rid r held l' \<and> settlement_reservation s = rid \<and>
       settlement_released s = listed (sum_amounts (reservation_amounts r)) \<and> settlement_status s = st)
    (\<lambda>_ l'. l' = l) l"
  unfolding settle_reservation_def Let_def
proof (intro wp_intros wp_reads refl)
  fix p rid held revs and r :: budget_reservation
  let ?req = "sum_amounts (reservation_amounts r)" and ?b = "reservation_budget r"
  assume "open_reservation v l = (Inr p, l)" "p = (rid, r)"
    and held: "held_budgets rid r l = (Inr held, l)" and revs: "next_revisions held l = (Inr revs, l)"
  then have r: "v = PyStr rid" "open_in l rid r held" using open_inI [OF l] by (auto simp: open_reservation_Inr)
  note d = open_inD [OF l r(2)]
  obtain a where a: "map_of (accounts l) ?b = Some a" using d(3) by blast
  show "wp (bind_py (free_amounts ?req revs held) (\<lambda>_.
      bind_py (modify_py (\<lambda>l. l\<lparr>reservations := dict_set rid (r\<lparr>reservation_status := st\<rparr>) (reservations l)\<rparr>)) (\<lambda>_.
      bind_py (lift_py (dict_to_amounts ?req)) (\<lambda>released.
      bind_py (get_item accounts ?b) (\<lambda>account.
      return_py \<lparr>settlement_reservation = rid, settlement_budget = ?b, settlement_committed = [],
        settlement_released = released, settlement_overdraft = [], settlement_status = st,
        settlement_revision = revision account\<rparr>)))))
    (\<lambda>s l'. \<exists>rid r held. v = PyStr rid \<and> frees l st rid r held l' \<and> settlement_reservation s = rid \<and>
       settlement_released s = listed (sum_amounts (reservation_amounts r)) \<and> settlement_status s = st)
    (\<lambda>_ l'. l' = l) l"
    using d(5) r
    by (intro wp_bind_free [OF d(1) revisions_Inr [OF revs]] wp_bind_modify wp_bind_lift_Inr [OF dict_to_amounts_eq [OF d(2)]]
        wp_bind_get_item [where x = "bump a"] wp_returnI exI conjI)
      (use d(1,4) a in \<open>auto simp: frees_def post_def\<close>)
qed

lemma map_ok_unused: "map_ok xs \<Longrightarrow> map_ok d \<Longrightarrow> map_ok (unused_of xs ys d)"
  unfolding unused_of_def by (rule fold_keeps) (auto simp: Let_def dest: map_ok_mem)

lemma commit_effect:
  assumes l: "ledger_ok l" and arg: "arg_ok actual_v"
  shows "wp (commit v actual_v limit_v)
    (\<lambda>s l'. \<exists>rid r held actual. v = PyStr rid \<and> amounts_to_dict actual_v = Inr actual \<and> commits l rid r held actual l' \<and>
       check_overdraft_limit limit_v (sum_amounts (reservation_amounts r)) actual = Inr () \<and>
       settlement_committed s = listed actual \<and>
       settlement_released s = listed (unused_of (sum_amounts (reservation_amounts r)) actual []) \<and>
       settlement_overdraft s = listed (unused_of actual (sum_amounts (reservation_amounts r)) []))
    (\<lambda>_ l'. l' = l) l" (is "wp _ ?Q _ _")
  unfolding commit_def Let_def
proof (intro wp_intros wp_reads refl)
  fix p rid held u actual w revs and r :: budget_reservation
  let ?req = "sum_amounts (reservation_amounts r)" and ?b = "reservation_budget r"
  assume "open_reservation v l = (Inr p, l)" "p = (rid, r)"
    and held: "held_budgets rid r l = (Inr held, l)" and actual: "amounts_to_dict actual_v = Inr actual"
    and lim: "check_overdraft_limit limit_v ?req actual = Inr w"
    and revs: "next_revisions held l = (Inr revs, l)"
  then have r: "v = PyStr rid" "open_in l rid r held" using open_inI [OF l] by (auto simp: open_reservation_Inr)
  note d = open_inD [OF l r(2)]
  obtain a where a: "map_of (accounts l) ?b = Some a" using d(3) by blast
  have ok: "map_ok actual" using amounts_to_dict_ok [OF arg actual] by blast
  have loop: "settle_loop ?b revs ?req actual held ([], []) l =
      (Inr (unused_of ?req actual [], unused_of actual ?req []), post held (sub_all ?req) (add_all actual) (extra_of ?req actual) l)"
    using settle_loop_run [OF d(1) revisions_Inr [OF revs] d(5), of ?b] d(4) by simp
  show "wp (bind_py (for_acc held ([], []) (\<lambda>h (released, overdraft).
       bind_py (settle_unused ?b h ?req actual released) (\<lambda>released'.
       bind_py (settle_actual ?b h ?req actual overdraft) (\<lambda>overdraft'.
       bind_py (set_revision revs h) (\<lambda>_.
       return_py (released', overdraft')))))) (\<lambda>(released, overdraft).
     bind_py (modify_py (\<lambda>l. l\<lparr>reservations :=
                dict_set rid (r\<lparr>reservation_status := Committed\<rparr>) (reservations l)\<rparr>)) (\<lambda>_.
     bind_py (lift_py (dict_to_amounts actual)) (\<lambda>actual'.
     bind_py (lift_py (dict_to_amounts released)) (\<lambda>released'.
     bind_py (lift_py (dict_to_amounts overdraft)) (\<lambda>overdraft'.
     bind_py (get_item accounts ?b) (\<lambda>account.
     return_py
       \<lparr>settlement_reservation = rid, settlement_budget = ?b, settlement_committed = actual',
        settlement_released = released', settlement_overdraft = overdraft', settlement_status = Committed,
        settlement_revision = revision account\<rparr>))))))) ?Q (\<lambda>_ l'. l' = l) l"
    unfolding settle_loop_def [symmetric]
    using d(5) r actual lim ok
    by (intro wp_bind_run [where m = "settle_loop ?b revs ?req actual held ([], [])", OF loop]) (simp, intro wp_bind_modify wp_bind_lift_Inr dict_to_amounts_eq map_ok_unused
        wp_bind_get_item [where x = "bump a"] wp_returnI exI conjI,
      use d(1,2,4) a in \<open>auto simp: commits_def post_def Let_def dict_to_amounts_eq map_ok_unused\<close>)
qed

section \<open>Effects of the permit operations\<close>

definition tokens_cover :: "budget_ledger \<Rightarrow> (string, int) dict \<Rightarrow> string \<Rightarrow> bool" where
  "tokens_cover l tokens rid \<longleftrightarrow> (\<exists>r held. open_in l rid r held \<and>
     (\<forall>h \<in> set held. \<exists>n. map_of tokens h = Some n \<and> reservation_token r \<le> n))"

definition raise_tokens :: "int \<Rightarrow> string list \<Rightarrow> (string, int) dict \<Rightarrow> (string, int) dict" where
  "raise_tokens n held tokens =
     fold (\<lambda>h t. dict_set h (max (case map_of t h of None \<Rightarrow> 0 | Some m \<Rightarrow> m) n) t) held tokens"

lemma raise_tokens_le: "map_of t h = Some m \<Longrightarrow> \<exists>m'. map_of (raise_tokens n held t) h = Some m' \<and> m \<le> m'"
  unfolding raise_tokens_def
  by (rule fold_keeps [where P = "\<lambda>t. \<exists>m'. map_of t h = Some m' \<and> m \<le> m'"]) auto

lemma raise_tokens_mem: "h \<in> set held \<Longrightarrow> \<exists>m. map_of (raise_tokens n held t) h = Some m \<and> n \<le> m"
proof (induction held arbitrary: t)
  case (Cons g held)
  let ?t = "dict_set g (max (case map_of t g of None \<Rightarrow> 0 | Some m \<Rightarrow> m) n) t"
  have eq: "raise_tokens n (g # held) t = raise_tokens n held ?t" by (simp add: raise_tokens_def)
  show ?case
  proof (cases "h \<in> set held")
    case False
    then have "map_of ?t h = Some (max (case map_of t g of None \<Rightarrow> 0 | Some m \<Rightarrow> m) n)" using Cons.prems by simp
    from raise_tokens_le [OF this, of n held] show ?thesis unfolding eq by force
  qed (use Cons.IH eq in simp)
qed simp

lemma collect_wp:
  assumes l: "ledger_ok l"
  shows "wp (for_acc refs ([], []) collect_reservation)
    (\<lambda>(auth, tokens) l'. l' = l \<and> map_ok auth \<and> (\<forall>rid \<in> set refs. tokens_cover l tokens rid)) (\<lambda>_ l'. l' = l) l"
proof -
  let ?I = "\<lambda>xs (auth, tokens) l'. l' = l \<and> map_ok auth \<and> (\<forall>rid \<in> set refs - set xs. tokens_cover l tokens rid)"
  have "wp (for_acc refs ([], []) collect_reservation) (?I []) (\<lambda>_ l'. l' = l) l"
  proof (rule wp_for_acc [where I = ?I])
    fix rid xs acc l' assume "?I (rid # xs) acc l'"
    then obtain auth tokens where acc: "acc = (auth, tokens)" "l' = l" "map_ok auth"
      and cover: "\<forall>rid \<in> set refs - set (rid # xs). tokens_cover l tokens rid" by (auto split: prod.splits)
    have "?I xs (add_all (sum_amounts (reservation_amounts r)) auth, raise_tokens (reservation_token r) held tokens) l"
      if "open_in l rid r held" for r held
    proof -
      have "tokens_cover l (raise_tokens (reservation_token r) held tokens) rid"
        unfolding tokens_cover_def using that raise_tokens_mem by blast
      moreover have "tokens_cover l (raise_tokens (reservation_token r) held tokens) rid'" if "tokens_cover l tokens rid'" for rid'
        using that unfolding tokens_cover_def by (meson order_trans raise_tokens_le)
      ultimately show ?thesis using cover acc(3) open_inD(2) [OF l that] by (auto intro: map_ok_add_all)
    qed
    then show "wp (collect_reservation rid acc) (?I xs) (\<lambda>_ l'. l' = l) l'"
      unfolding acc collect_reservation_def prod.case add_all_def [symmetric] raise_tokens_def [symmetric]
      by (intro wp_intros wp_reads refl) (auto intro: open_inI [OF l])
  qed simp
  then show ?thesis by (rule wp_mono) (auto split: prod.splits)
qed

lemma mk_budget_permit_Inr:
  "mk_budget_permit parse_iso pid refs own unit epoch auth profile digest ex low tokens = Inr p \<Longrightarrow>
     permit_id p = pid \<and> reservation_refs p = refs \<and> authorized_amounts p = auth \<and> fencing_tokens p = tokens"
  by (cases ex) (auto simp: mk_budget_permit_def bind_sum_Inr_iff Let_def split: if_splits)

definition issues :: "budget_ledger \<Rightarrow> budget_permit \<Rightarrow> budget_ledger \<Rightarrow> bool" where
  "issues l p l' \<longleftrightarrow>
     map_of (permits l) (permit_id p) = None \<and> (\<forall>rid \<in> set (reservation_refs p). tokens_cover l (fencing_tokens p) rid) \<and>
     (\<forall>a \<in> set (authorized_amounts p). usage_ok a) \<and>
     l' = l\<lparr>permits := dict_set (permit_id p) p (permits l), permit_spent := dict_set (permit_id p) [] (permit_spent l)\<rparr>"

lemma issue_permit_effect:
  assumes l: "ledger_ok l"
  shows "wp (issue_permit parse_iso permit_v refs_v owner_v unit_v epoch_v profile_v digest_v expires_v low_v)
    (\<lambda>p l'. issues l p l') (\<lambda>_ l'. l' = l) l"
  unfolding issue_permit_def
proof (intro wp_intros wp_reads refl)
  fix pid refs acc auth tokens xs p
  assume "\<not> map_of (permits l) pid \<noteq> None" "acc = (auth, tokens)" "dict_to_amounts auth = Inr xs"
    and acc: "for_acc refs ([], []) collect_reservation l = (Inr acc, l)"
    and p: "mk_budget_permit parse_iso pid refs owner_v unit_v epoch_v xs profile_v digest_v expires_v
      (case low_v of None \<Rightarrow> Some [] | Some low \<Rightarrow> low) tokens = Inr p"
  moreover from calculation have "map_ok auth" "\<forall>rid \<in> set refs. tokens_cover l tokens rid"
    using wp_result [OF collect_wp [OF l] acc] by simp_all
  ultimately show "issues l p (l\<lparr>permits := dict_set pid p (permits l),
      permit_spent := dict_set pid [] (permit_spent (l\<lparr>permits := dict_set pid p (permits l)\<rparr>))\<rparr>)"
    using mk_budget_permit_Inr [OF p] listed_ok [of auth] by (simp add: issues_def dict_to_amounts_eq)
qed

definition spend_all :: "amount_map \<Rightarrow> amount_map \<Rightarrow> amount_map" where
  "spend_all xs d = fold (\<lambda>(k, x). spend_amount k x) xs d"

lemma amount_of_spend_all:
  "dict_ok xs \<Longrightarrow> amount_of (spend_all xs d) k = (case map_of xs k of None \<Rightarrow> amount_of d k | Some x \<Rightarrow> dec_add (amount_of d k) x)"
  unfolding spend_all_def by (rule fold_at_key) auto

lemma map_ok_spend_all: "map_ok xs \<Longrightarrow> map_ok d \<Longrightarrow> map_ok (spend_all xs d)"
  unfolding spend_all_def by (rule fold_keeps) (auto dest: map_ok_mem)

lemma spend_run:
  assumes "map_of (permit_spent l) pid = Some d"
  shows "for_py xs (\<lambda>(k, x). bind_py (get_item permit_spent pid) (\<lambda>d.
      modify_py (\<lambda>l. l\<lparr>permit_spent := dict_set pid (spend_amount k x d) (permit_spent l)\<rparr>))) l =
    (Inr (), l\<lparr>permit_spent := dict_set pid (spend_all xs d) (permit_spent l)\<rparr>)"
  unfolding spend_all_def
  by (rule entry_loop_run [where get = permit_spent and put = "\<lambda>v. permit_spent_update (\<lambda>_. v)", OF _ _ _ _ assms])
    (simp_all add: py_run)

definition spends :: "budget_ledger \<Rightarrow> budget_permit \<Rightarrow> string \<Rightarrow> budget_reservation \<Rightarrow> string list \<Rightarrow> amount_map \<Rightarrow> budget_ledger \<Rightarrow> bool" where
  "spends l p rid r held actual l' \<longleftrightarrow>
     (\<exists>l1 d. commits l rid r held actual l1 \<and> map_of (permit_spent l) (permit_id p) = Some d \<and>
       (\<forall>k x. (k, x) \<in> set actual \<longrightarrow> dec_add (amount_of d k) x \<le> amount_of (sum_amounts (authorized_amounts p)) k) \<and>
       l' = l1\<lparr>permit_spent := dict_set (permit_id p) (spend_all actual d) (permit_spent l)\<rparr>)"

lemma allows_Inr:
  assumes "ensure_permit_allows_additional p req rid limit l = (Inr u, l)" "map_of (permit_spent l) (permit_id p) = Some d"
    "(k, x) \<in> set req"
  shows "dec_add (amount_of d k) x \<le> amount_of (sum_amounts (authorized_amounts p)) k"
  using assms
  by (auto simp: ensure_permit_allows_additional_def get_item_def item_def py_run Let_def list_ex_iff
      split: option.splits if_splits)

lemma permit_spent_post: "commits l rid r held actual l1 \<Longrightarrow> permit_spent l1 = permit_spent l"
  by (simp add: commits_def Let_def)

lemma commit_under_permit_effect:
  assumes l: "ledger_ok l" and arg: "arg_ok actual_v" and p: "map_of (permits l) (permit_id p) = Some p"
  shows "wp (commit_under_permit p rid actual_v limit_v)
    (\<lambda>s l'. \<exists>r held actual. amounts_to_dict actual_v = Inr actual \<and> spends l p rid r held actual l') (\<lambda>_ l'. l' = l) l"
  unfolding commit_under_permit_def
proof (intro wp_bind_lift wp_reads wp_bindI [OF commit_effect [OF l arg]] refl)
  obtain d where d: "map_of (permit_spent l) (permit_id p) = Some d"
    using ledger_okD(6) [OF l p] by (auto simp: permit_ok_def)
  fix actual limit u s l1
  assume actual: "amounts_to_dict actual_v = Inr actual"
    and allow: "ensure_permit_allows_additional p actual rid limit l = (Inr u, l)"
    and com: "\<exists>rid' r held actual. PyStr rid = PyStr rid' \<and> amounts_to_dict actual_v = Inr actual \<and> commits l rid' r held actual l1 \<and>
       check_overdraft_limit limit_v (sum_amounts (reservation_amounts r)) actual = Inr () \<and>
       settlement_committed s = listed actual \<and>
       settlement_released s = listed (unused_of (sum_amounts (reservation_amounts r)) actual []) \<and>
       settlement_overdraft s = listed (unused_of actual (sum_amounts (reservation_amounts r)) [])"
  then obtain r held where com: "commits l rid r held actual l1" by auto
  have d1: "map_of (permit_spent l1) (permit_id p) = Some d" using d permit_spent_post [OF com] by simp
  then have "(case map_of (permit_spent l1) (permit_id p) of None \<Rightarrow> dict_set (permit_id p) [] (permit_spent l1)
      | Some _ \<Rightarrow> permit_spent l1) = permit_spent l1" by simp
  then show "wp (bind_py (modify_py (\<lambda>l. l\<lparr>permit_spent :=
                (case map_of (permit_spent l) (permit_id p) of
                   None \<Rightarrow> dict_set (permit_id p) [] (permit_spent l)
                 | Some _ \<Rightarrow> permit_spent l)\<rparr>)) (\<lambda>_.
     bind_py (for_py actual (\<lambda>(k, x).
       bind_py (get_item permit_spent (permit_id p)) (\<lambda>d.
       modify_py (\<lambda>l. l\<lparr>permit_spent := dict_set (permit_id p) (spend_amount k x d) (permit_spent l)\<rparr>)))) (\<lambda>_.
     return_py s)))
    (\<lambda>s l'. \<exists>r held actual. amounts_to_dict actual_v = Inr actual \<and> spends l p rid r held actual l') (\<lambda>_ l'. l' = l) l1"
    using com d actual allows_Inr [OF allow d] permit_spent_post [OF com]
    by (intro wp_bind_modify wp_bind_run [where a = "()" and t = "l1\<lparr>permit_spent := dict_set (permit_id p) (spend_all actual d) (permit_spent l1)\<rparr>"])
      (auto simp: spend_run wp_rules spends_def)
qed

definition permits_settlement :: "budget_ledger \<Rightarrow> string \<Rightarrow> budget_permit \<Rightarrow> string \<Rightarrow> bool" where
  "permits_settlement l pid p rid \<longleftrightarrow> map_of (permits l) pid = Some p \<and> rid \<in> set (reservation_refs p) \<and>
     (\<exists>r held. map_of (reservations l) rid = Some r \<and> map_of (reservation_holds l) rid = Some held \<and>
       (\<forall>h \<in> set held. \<exists>n. map_of (fencing_tokens p) h = Some n \<and> reservation_token r \<le> n))"

lemma permit_for_reservation_Inr:
  assumes l: "ledger_ok l" and "permit_for_reservation permit_v v l = (Inr (p, rid), l)"
  shows "\<exists>pid. permit_v = PyStr pid \<and> v = PyStr rid \<and> permit_id p = pid \<and> permits_settlement l pid p rid"
proof -
  obtain pid r where pid: "permit_v = PyStr pid" "map_of (permits l) pid = Some p"
    and r: "v = PyStr rid" "map_of (reservations l) rid = Some r" "rid \<in> set (reservation_refs p)"
    and loop: "bind_py (held_budgets rid r) (\<lambda>held. bind_py (for_py held (\<lambda>h.
       let tok = map_of (fencing_tokens p) h in
       raise_if (case tok of None \<Rightarrow> True | Some n \<Rightarrow> n < reservation_token r)
         (BudgetPermitFencingError pid h (reservation_token r) tok))) (\<lambda>_. return_py (p, rid))) l = (Inr (p, rid), l)"
    using assms(2)
    by (cases permit_v; cases v)
      (auto simp: permit_for_reservation_def bind_run gets_py_def lift_py_def raise_py_def raise_if_def return_py_def py_get_def
         run_next_def split: option.splits if_splits sum.splits prod.splits)
  obtain held where held: "map_of (reservation_holds l) rid = Some held"
    using ledger_okD(4) [OF l r(2)] by (auto simp: reservation_ok_def)
  let ?f = "\<lambda>h. let tok = map_of (fencing_tokens p) h in
       raise_if (case tok of None \<Rightarrow> True | Some n \<Rightarrow> n < reservation_token r)
         (BudgetPermitFencingError pid h (reservation_token r) tok)"
  have q: "quiet (?f h)" for h by (simp add: Let_def quiet_rules)
  have body: "bind_py (for_py held ?f) (\<lambda>_. return_py (p, rid)) l = (Inr (p, rid), l)"
    using loop held by (simp add: bind_py_def held_budgets_def gets_py_def)
  from quiet_bind_Inr [OF quiet_for [of ?f, OF q] body] obtain u where u: "for_py held ?f l = (Inr u, l)" by blast
  have "\<exists>w. ?f h l = (Inr w, l)" if "h \<in> set held" for h by (rule for_quiet_Inr [of ?f, OF q u that])
  then have "\<exists>n. map_of (fencing_tokens p) h = Some n \<and> reservation_token r \<le> n" if "h \<in> set held" for h
    using that by (fastforce simp: raise_if_def Let_def split: option.splits if_splits)
  then show ?thesis using pid r held ledger_okD(6) [OF l pid(2)] by (auto simp: permits_settlement_def permit_ok_def)
qed

lemma commit_with_permit_effect:
  assumes l: "ledger_ok l" and arg: "arg_ok actual_v"
  shows "wp (commit_with_permit parse_iso permit_v v actual_v now limit_v)
    (\<lambda>s l'. \<exists>pid p rid r held actual. permit_v = PyStr pid \<and> v = PyStr rid \<and> permits_settlement l pid p rid \<and>
       is_active_at parse_iso p now \<and> amounts_to_dict actual_v = Inr actual \<and> spends l p rid r held actual l')
    (\<lambda>_ l'. l' = l) l"
  unfolding commit_with_permit_def
proof (intro wp_reads wp_case_prod refl)
  fix x p rid u
  assume "permit_for_reservation permit_v v l = (Inr x, l)" "x = (p, rid)"
    and now: "ensure_permit_not_expired parse_iso p now l = (Inr u, l)"
  then obtain pid where pid: "permit_v = PyStr pid" "v = PyStr rid" "permit_id p = pid" "permits_settlement l pid p rid"
    using permit_for_reservation_Inr [OF l] by blast
  have act: "is_active_at parse_iso p now"
    using now by (auto simp: ensure_permit_not_expired_def raise_if_def split: if_splits)
  have p: "map_of (permits l) (permit_id p) = Some p" using pid by (simp add: permits_settlement_def)
  show "wp (commit_under_permit p rid actual_v limit_v)
    (\<lambda>s l'. \<exists>pid p rid r held actual. permit_v = PyStr pid \<and> v = PyStr rid \<and> permits_settlement l pid p rid \<and>
       is_active_at parse_iso p now \<and> amounts_to_dict actual_v = Inr actual \<and> spends l p rid r held actual l')
    (\<lambda>_ l'. l' = l) l"
    by (rule wp_mono [OF commit_under_permit_effect [OF l arg p]]) (use pid act in blast)+
qed

lemma release_with_permit_effect:
  assumes l: "ledger_ok l"
  shows "wp (release_with_permit parse_iso permit_v v now)
    (\<lambda>s l'. \<exists>pid p rid r held. permit_v = PyStr pid \<and> v = PyStr rid \<and> permits_settlement l pid p rid \<and>
       is_active_at parse_iso p now \<and> frees l Released rid r held l')
    (\<lambda>_ l'. l' = l) l"
  unfolding release_with_permit_def release_reservation_def
proof (intro wp_reads wp_case_prod refl)
  fix x p rid u
  assume "permit_for_reservation permit_v v l = (Inr x, l)" "x = (p, rid)"
    and now: "ensure_permit_not_expired parse_iso p now l = (Inr u, l)"
  then obtain pid where pid: "permit_v = PyStr pid" "v = PyStr rid" "permit_id p = pid" "permits_settlement l pid p rid"
    using permit_for_reservation_Inr [OF l] by blast
  have act: "is_active_at parse_iso p now"
    using now by (auto simp: ensure_permit_not_expired_def raise_if_def split: if_splits)
  show "wp (settle_reservation Released (PyStr rid))
    (\<lambda>s l'. \<exists>pid p rid r held. permit_v = PyStr pid \<and> v = PyStr rid \<and> permits_settlement l pid p rid \<and>
       is_active_at parse_iso p now \<and> frees l Released rid r held l') (\<lambda>_ l'. l' = l) l"
    by (rule wp_mono [OF settle_effect [OF l]]) (use pid act in auto)
qed

section \<open>Effects of the completion reserves\<close>

definition creates :: "budget_ledger \<Rightarrow> amount_map \<Rightarrow> completion_reserve_rec \<Rightarrow> budget_ledger \<Rightarrow> bool" where
  "creates l req c l' \<longleftrightarrow>
     (\<exists>held. holds l (reserve_budget c) held req \<and> map_of (completion_reserves l) (reserve_id c) = None \<and>
       reserve_amounts c = listed req \<and> reserve_status c = Available \<and> spent_reservation_id c = None \<and>
       reserve_token c = fencing_counter l + 1 \<and> spendable_by c \<noteq> {} \<and>
       l' = (post held (add_all req) (\<lambda>d. d) (\<lambda>d. d) l)
         \<lparr>fencing_counter := fencing_counter l + 1,
          completion_reserves := dict_set (reserve_id c) c (completion_reserves l),
          completion_reserve_holds := dict_set (reserve_id c) held (completion_reserve_holds l)\<rparr>)"

lemma mk_completion_reserve_Inr:
  "mk_completion_reserve cid b purp xs spendable ex tok = Inr c \<Longrightarrow>
     reserve_id c = cid \<and> reserve_budget c = b \<and> reserve_amounts c = xs \<and> reserve_status c = Available \<and>
     spent_reservation_id c = None \<and> reserve_token c = tok \<and> spendable_by c \<noteq> {}"
  by (auto simp: mk_completion_reserve_def bind_sum_Inr_iff split: if_splits)

lemma create_effect:
  assumes l: "ledger_ok l" and arg: "arg_ok amounts"
  shows "wp (create_completion_reserve reserve_v budget_v purpose_v amounts spendable_v expires_v)
    (\<lambda>c l'. \<exists>req. amounts_to_dict amounts = Inr req \<and> creates l req c l') (\<lambda>_ l'. l' = l) l"
  unfolding create_completion_reserve_def
proof (intro wp_intros wp_reads refl)
  fix cid b a req held u v fc xs c revs
  assume new: "\<not> map_of (completion_reserves l) cid \<noteq> None" and req: "amounts_to_dict amounts = Inr req"
    and held: "budget_chain b l = (Inr held, l)" "ensure_accounts_active held l = (Inr u, l)"
      "check_available req held l = (Inr v, l)"
    and fc: "increment_budget_counter (fencing_counter l) = Inr fc" and xs: "dict_to_amounts req = Inr xs"
    and c: "mk_completion_reserve cid b purpose_v xs spendable_v expires_v fc = Inr c"
    and revs: "next_revisions held l = (Inr revs, l)"
  have ok: "map_ok req" "\<And>k x. (k, x) \<in> set req \<Longrightarrow> 0 < x" using amounts_to_dict_ok [OF arg req] by auto
  have h: "holds l b held req" by (rule holdsI [OF l held ok])
  have d: "distinct held" "revs_ok revs held (l\<lparr>fencing_counter := fc\<rparr>)"
    "\<forall>h \<in> set held. map_of (reserved_of (l\<lparr>fencing_counter := fc\<rparr>)) h \<noteq> None"
    using chain_ofD(1) [OF chain_Inr [OF held(1)]] revisions_Inr [OF revs] reserved_dom [OF l chain_Inr [OF held(1)]]
    by (auto simp: revs_ok_def)
  show "wp (bind_py (hold_amounts req revs held) (\<lambda>_.
     bind_py (modify_py (\<lambda>l. l\<lparr>completion_reserves := dict_set cid c (completion_reserves l)\<rparr>)) (\<lambda>_.
     bind_py (modify_py (\<lambda>l. l\<lparr>completion_reserve_holds := dict_set cid held (completion_reserve_holds l)\<rparr>)) (\<lambda>_.
     return_py c)))) (\<lambda>c l'. \<exists>req. amounts_to_dict amounts = Inr req \<and> creates l req c l') (\<lambda>_ l'. l' = l) (l\<lparr>fencing_counter := fc\<rparr>)"
    using req h new fc xs dict_to_amounts_eq [OF ok(1)] mk_completion_reserve_Inr [OF c]
    by (intro wp_bind_hold [OF d])
      (auto simp: wp_rules creates_def increment_budget_counter_def post_def split: if_splits intro!: exI [of _ held])
qed

definition draws :: "budget_ledger \<Rightarrow> string \<Rightarrow> completion_reserve_rec \<Rightarrow> string \<Rightarrow> budget_reservation \<Rightarrow> budget_ledger \<Rightarrow> bool" where
  "draws l cid c spender r l' \<longleftrightarrow>
     (\<exists>held. map_of (completion_reserves l) cid = Some c \<and> reserve_status c = Available \<and> spender \<in> spendable_by c \<and>
       map_of (completion_reserve_holds l) cid = Some held \<and> reservation_counter l < MAX_BUDGET_COUNTER \<and>
       reservation_id r = ''reservation-'' @ fmt_06d (reservation_counter l + 1) \<and>
       map_of (reservations l) (reservation_id r) = None \<and> reservation_budget r = reserve_budget c \<and>
       reservation_amounts r = reserve_amounts c \<and> reservation_token r = reserve_token c \<and> reservation_status r = Reserved \<and>
       l' = l\<lparr>reservation_counter := reservation_counter l + 1,
         reservations := dict_set (reservation_id r) r (reservations l),
         reservation_holds := dict_set (reservation_id r) held (reservation_holds l),
         completion_reserves := dict_set cid (c\<lparr>reserve_status := Spent, spent_reservation_id := Some (reservation_id r)\<rparr>)
           (completion_reserves l)\<rparr>)"

lemma reserve_of_Inr: "completion_reserve_of v l = (Inr (cid, c), l) \<longleftrightarrow> v = PyStr cid \<and> map_of (completion_reserves l) cid = Some c"
  by (cases v) (auto simp: completion_reserve_of_def py_run py_get_def split: option.splits)

lemma reserve_held_Inr:
  assumes "ledger_ok l" "map_of (completion_reserves l) cid = Some c" "reserve_held_budgets cid c l = (Inr held, l)"
  shows "map_of (completion_reserve_holds l) cid = Some held \<and> chain_of (accounts l) (reserve_budget c) held"
  using ledger_okD(5) [OF assms(1,2)] assms(3) by (auto simp: completion_ok_def reserve_held_budgets_def gets_py_def)

lemma spend_reserve_effect:
  assumes l: "ledger_ok l"
  shows "wp (spend_completion_reserve reserve_v spender_v expires_v)
    (\<lambda>r l'. \<exists>cid c spender. reserve_v = PyStr cid \<and> spender_v = PyStr spender \<and> draws l cid c spender r l') (\<lambda>_ l'. l' = l) l"
  unfolding spend_completion_reserve_def Let_def
  by (intro wp_intros wp_reads refl)
    (auto simp: draws_def reserve_of_Inr budget_string_iff increment_budget_counter_def split: if_splits
      dest: reserve_held_Inr [OF l])

definition drops :: "budget_ledger \<Rightarrow> completion_status \<Rightarrow> string \<Rightarrow> completion_reserve_rec \<Rightarrow> string list \<Rightarrow> budget_ledger \<Rightarrow> bool" where
  "drops l st cid c held l' \<longleftrightarrow>
     map_of (completion_reserves l) cid = Some c \<and> reserve_status c = Available \<and>
     map_of (completion_reserve_holds l) cid = Some held \<and> chain_of (accounts l) (reserve_budget c) held \<and>
     l' = (post held (sub_all (sum_amounts (reserve_amounts c))) (\<lambda>d. d) (\<lambda>d. d) l)
       \<lparr>completion_reserves := dict_set cid (c\<lparr>reserve_status := st\<rparr>) (completion_reserves l)\<rparr>"

lemma settle_reserve_effect:
  assumes l: "ledger_ok l"
  shows "wp (settle_completion_reserve v st)
    (\<lambda>c' l'. \<exists>cid c held. v = PyStr cid \<and> c' = c\<lparr>reserve_status := st\<rparr> \<and> drops l st cid c held l') (\<lambda>_ l'. l' = l) l"
  unfolding settle_completion_reserve_def Let_def
proof (intro wp_intros wp_reads refl)
  fix x cid held revs and c :: completion_reserve_rec
  assume "completion_reserve_of v l = (Inr x, l)" "x = (cid, c)" and st: "\<not> reserve_status c \<noteq> Available"
    and held: "reserve_held_budgets cid c l = (Inr held, l)" and revs: "next_revisions held l = (Inr revs, l)"
  then have c: "v = PyStr cid" "map_of (completion_reserves l) cid = Some c" by (auto simp: reserve_of_Inr)
  have h: "map_of (completion_reserve_holds l) cid = Some held" "chain_of (accounts l) (reserve_budget c) held"
    using reserve_held_Inr [OF l c(2) held] by auto
  show "wp (bind_py (free_amounts (sum_amounts (reserve_amounts c)) revs held) (\<lambda>_.
     bind_py (modify_py (\<lambda>l. l\<lparr>completion_reserves := dict_set cid (c\<lparr>reserve_status := st\<rparr>) (completion_reserves l)\<rparr>)) (\<lambda>_.
     return_py (c\<lparr>reserve_status := st\<rparr>))))
    (\<lambda>c' l'. \<exists>cid c held. v = PyStr cid \<and> c' = c\<lparr>reserve_status := st\<rparr> \<and> drops l st cid c held l') (\<lambda>_ l'. l' = l) l"
    using c h st reserved_dom [OF l h(2)]
    by (intro wp_bind_free [OF chain_ofD(1) [OF h(2)] revisions_Inr [OF revs]])
      (auto simp: wp_rules drops_def post_def)
qed

end
