(* ===== verification/Budget_Run.thy ===== *)
theory Budget_Run
  imports Budget_Ops
begin

text \<open>
  The ledger as a machine: the calls of its public methods, the transition relation that
  specifies them, the refinement of the one by the other, and the invariant.
\<close>

section \<open>Calls\<close>

datatype budget_call =
    Allocate pyval resource_arg amounts_arg pyval pyval
  | Reserve pyval resource_arg amounts_arg pyval pyval pyval
  | Commit pyval amounts_arg overdraft_arg
  | Release pyval
  | Expire pyval
  | IssuePermit pyval pyval resource_arg resource_arg pyval pyval pyval pyval "amounts_arg option"
  | CommitWithPermit pyval pyval amounts_arg pyval overdraft_arg
  | ReleaseWithPermit pyval pyval pyval
  | CreateReserve pyval pyval pyval amounts_arg pyval pyval
  | SpendReserve pyval pyval pyval
  | ReleaseReserve pyval
  | ExpireReserve pyval
  | Balance pyval
  | GetReserve pyval

definition no_result :: "'a ledger_method \<Rightarrow> unit ledger_method" where
  "no_result m = bind_py m (\<lambda>_. return_py ())"

primrec ledger_call :: "(string \<Rightarrow> rat option) \<Rightarrow> budget_call \<Rightarrow> unit ledger_method" where
  "ledger_call parse_iso (Allocate b sc am policy parent) = no_result (allocate b sc am policy parent)"
| "ledger_call parse_iso (Reserve b own am purp ex i) = no_result (reserve b own am purp ex i)"
| "ledger_call parse_iso (Commit i am limit) = no_result (commit i am limit)"
| "ledger_call parse_iso (Release i) = no_result (release_reservation i)"
| "ledger_call parse_iso (Expire i) = no_result (expire_reservation i)"
| "ledger_call parse_iso (IssuePermit p refs own unit epoch profile digest ex low) =
     no_result (issue_permit parse_iso p refs own unit epoch profile digest ex low)"
| "ledger_call parse_iso (CommitWithPermit p i am now limit) = no_result (commit_with_permit parse_iso p i am now limit)"
| "ledger_call parse_iso (ReleaseWithPermit p i now) = no_result (release_with_permit parse_iso p i now)"
| "ledger_call parse_iso (CreateReserve c b purp am spendable ex) =
     no_result (create_completion_reserve c b purp am spendable ex)"
| "ledger_call parse_iso (SpendReserve c spender ex) = no_result (spend_completion_reserve c spender ex)"
| "ledger_call parse_iso (ReleaseReserve c) = no_result (release_completion_reserve c)"
| "ledger_call parse_iso (ExpireReserve c) = no_result (expire_completion_reserve c)"
| "ledger_call parse_iso (Balance b) = no_result (balance b)"
| "ledger_call parse_iso (GetReserve c) = no_result (completion_reserve c)"

text \<open>The amounts of a call: objects of the class that its constructor accepted.\<close>

primrec call_amounts :: "budget_call \<Rightarrow> amounts_arg" where
  "call_amounts (Allocate b sc am policy parent) = am"
| "call_amounts (Reserve b own am purp ex i) = am"
| "call_amounts (Commit i am limit) = am"
| "call_amounts (Release i) = None"
| "call_amounts (Expire i) = None"
| "call_amounts (IssuePermit p refs own unit epoch profile digest ex low) = None"
| "call_amounts (CommitWithPermit p i am now limit) = am"
| "call_amounts (ReleaseWithPermit p i now) = None"
| "call_amounts (CreateReserve c b purp am spendable ex) = am"
| "call_amounts (SpendReserve c spender ex) = None"
| "call_amounts (ReleaseReserve c) = None"
| "call_amounts (ExpireReserve c) = None"
| "call_amounts (Balance b) = None"
| "call_amounts (GetReserve c) = None"

definition call_ok :: "budget_call \<Rightarrow> bool" where
  "call_ok c \<longleftrightarrow> arg_ok (call_amounts c)"

definition ledger_exec :: "(string \<Rightarrow> rat option) \<Rightarrow> budget_call \<Rightarrow> budget_ledger \<Rightarrow> budget_ledger" where
  "ledger_exec parse_iso c l = snd (ledger_call parse_iso c l)"

inductive ledger_reached :: "(string \<Rightarrow> rat option) \<Rightarrow> budget_ledger \<Rightarrow> bool" for parse_iso where
  init: "ledger_reached parse_iso empty_ledger"
| step: "ledger_reached parse_iso l \<Longrightarrow> call_ok c \<Longrightarrow> ledger_reached parse_iso (ledger_exec parse_iso c l)"

section \<open>The specification\<close>

text \<open>The changes a ledger may undergo; \<open>amounts\<close> are the amounts the change brings in.\<close>

inductive ledger_step :: "amount_map \<Rightarrow> budget_ledger \<Rightarrow> budget_ledger \<Rightarrow> bool" where
  allocates: "allocates l us a l' \<Longrightarrow> ledger_step (sum_amounts us) l l'"
| reserves: "reserves l req r l' \<Longrightarrow> ledger_step req l l'"
| frees: "frees l st rid r held l' \<Longrightarrow> st = Released \<or> st = ReservationExpired \<Longrightarrow> ledger_step [] l l'"
| commits: "commits l rid r held actual l' \<Longrightarrow> ledger_step actual l l'"
| issues: "issues l p l' \<Longrightarrow> ledger_step [] l l'"
| spends: "spends l p rid r held actual l' \<Longrightarrow> map_of (permits l) (permit_id p) = Some p \<Longrightarrow> ledger_step actual l l'"
| creates: "creates l req c l' \<Longrightarrow> ledger_step req l l'"
| draws: "draws l cid c spender r l' \<Longrightarrow> ledger_step [] l l'"
| drops: "drops l st cid c held l' \<Longrightarrow> st = CompletionReleased \<or> st = CompletionExpired \<Longrightarrow> ledger_step [] l l'"

lemma wp_no_result: "wp (no_result m) Q E l = wp m (\<lambda>_. Q ()) E l"
  by (simp add: no_result_def wp_def bind_py_def return_py_def split: prod.splits sum.splits)

lemma wp_quiet_method: "quiet m \<Longrightarrow> wp m (\<lambda>_ l'. l' = l) (\<lambda>_ l'. l' = l) l"
  by (auto simp: wp_def dest: quietD split: prod.splits sum.splits)

lemma validate_to_dict: "validate_usage_amounts v = Inr us \<Longrightarrow> amounts_to_dict v = Inr (sum_amounts us)"
  by (simp add: amounts_to_dict_def)

lemma call_refines:
  assumes l: "ledger_ok l" and c: "call_ok c"
  shows "wp (ledger_call parse_iso c)
    (\<lambda>_ l'. l' = l \<or> (\<exists>req. ledger_step req l l' \<and> (req = [] \<or> amounts_to_dict (call_amounts c) = Inr req)))
    (\<lambda>_ l'. l' = l) l" (is "wp _ ?Q _ _")
proof (cases c)
  case (Allocate b sc am policy parent)
  then show ?thesis using c allocate_effect [of am b sc policy parent l]
    by (auto simp: wp_no_result call_ok_def validate_to_dict elim!: wp_mono intro: ledger_step.allocates)
next
  case (Reserve b own am purp ex i)
  then show ?thesis using c reserve_effect [OF l, of am b own purp ex i]
    by (auto simp: wp_no_result call_ok_def elim!: wp_mono intro: ledger_step.reserves)
next
  case (Commit i am limit)
  then show ?thesis using c commit_effect [OF l, of am i limit]
    by (auto simp: wp_no_result call_ok_def elim!: wp_mono intro: ledger_step.commits)
next
  case (Release i)
  then show ?thesis using settle_effect [OF l, of Released i]
    by (auto simp: wp_no_result release_reservation_def
        elim!: wp_mono intro: ledger_step.frees)
next
  case (Expire i)
  then show ?thesis using settle_effect [OF l, of ReservationExpired i]
    by (auto simp: wp_no_result expire_reservation_def
        elim!: wp_mono intro: ledger_step.frees)
next
  case (IssuePermit p refs own unit epoch profile digest ex low)
  then show ?thesis using issue_permit_effect [OF l, of parse_iso p refs own unit epoch profile digest ex low]
    by (auto simp: wp_no_result elim!: wp_mono intro: ledger_step.issues)
next
  case (CommitWithPermit p i am now limit)
  then show ?thesis using c commit_with_permit_effect [OF l, of am parse_iso p i now limit]
    by (auto simp: wp_no_result call_ok_def permits_settlement_def elim!: wp_mono)
      (metis ledger_okD(6) [OF l] ledger_step.spends permit_ok_def)
next
  case (ReleaseWithPermit p i now)
  then show ?thesis using release_with_permit_effect [OF l, of parse_iso p i now]
    by (auto simp: wp_no_result elim!: wp_mono intro: ledger_step.frees)
next
  case (CreateReserve i b purp am spendable ex)
  then show ?thesis using c create_effect [OF l, of am i b purp spendable ex]
    by (auto simp: wp_no_result call_ok_def elim!: wp_mono intro: ledger_step.creates)
next
  case (SpendReserve i spender ex)
  then show ?thesis using spend_reserve_effect [OF l, of i spender ex]
    by (auto simp: wp_no_result elim!: wp_mono intro: ledger_step.draws)
next
  case (ReleaseReserve i)
  then show ?thesis using settle_reserve_effect [OF l, of i CompletionReleased]
    by (auto simp: wp_no_result release_completion_reserve_def
        elim!: wp_mono intro: ledger_step.drops)
next
  case (ExpireReserve i)
  then show ?thesis using settle_reserve_effect [OF l, of i CompletionExpired]
    by (auto simp: wp_no_result expire_completion_reserve_def
        elim!: wp_mono intro: ledger_step.drops)
next
  case (Balance b)
  then show ?thesis using wp_quiet_method [OF quiet_balance [of b], of l] by (auto simp: wp_no_result elim!: wp_mono)
next
  case (GetReserve i)
  have "quiet (completion_reserve i)" unfolding completion_reserve_def by (intro quiet_rules quiet_reserve_of)
  from wp_quiet_method [OF this, of l] show ?thesis using GetReserve by (auto simp: wp_no_result elim!: wp_mono)
qed

section \<open>The invariant is kept\<close>

lemma status_ok [simp]:
  "reservation_ok l rid (r\<lparr>reservation_status := st\<rparr>) = reservation_ok l rid r"
  by (simp add: reservation_ok_def)

lemma permit_ok_mono:
  assumes "permit_ok l pid p" "map_of (permit_spent l') pid = map_of (permit_spent l) pid"
    "\<And>rid. map_of (reservations l) rid \<noteq> None \<Longrightarrow> map_of (reservations l') rid \<noteq> None"
  shows "permit_ok l' pid p"
  using assms by (auto simp: permit_ok_def)

lemma records_okI:
  assumes old: "records_ok l" and sp: "same_parents (accounts l) (accounts l')"
    and fc: "fencing_counter l \<le> fencing_counter l'" "0 \<le> reservation_counter l'"
    and d: "dict_ok (reservations l')" "dict_ok (completion_reserves l')"
    and res: "\<And>rid r. map_of (reservations l') rid = Some r \<Longrightarrow> reservation_ok l' rid r \<or>
      (reservation_ok l rid r \<and> map_of (reservation_holds l') rid = map_of (reservation_holds l) rid)"
    and comp: "\<And>cid c. map_of (completion_reserves l') cid = Some c \<Longrightarrow> completion_ok l' cid c \<or>
      (completion_ok l cid c \<and> map_of (completion_reserve_holds l') cid = map_of (completion_reserve_holds l) cid)"
    and per: "\<And>pid p. map_of (permits l') pid = Some p \<Longrightarrow> permit_ok l' pid p"
  shows "records_ok l'"
  using old fc d per res comp reservation_ok_mono [OF _ sp fc(1)] completion_ok_mono [OF _ sp fc(1)]
  unfolding records_ok_def by (smt (verit))

lemma same_parents_refl: "same_parents a a"
  by (simp add: same_parents_def)

lemma ledger_ok_post:
  assumes l: "ledger_ok l" and d: "distinct held"
    and ok: "\<And>d. keys_ok d \<Longrightarrow> keys_ok (f d)" "\<And>d. map_ok d \<Longrightarrow> map_ok (g d)" "\<And>d. map_ok d \<Longrightarrow> map_ok (h d)"
    and l': "accounts l' = accounts (post held f g h l)" "allocated_of l' = allocated_of l"
      "reserved_of l' = reserved_of (post held f g h l)" "committed_of l' = committed_of (post held f g h l)"
      "overdraft_of l' = overdraft_of (post held f g h l)"
    and fc: "fencing_counter l \<le> fencing_counter l'" "0 \<le> reservation_counter l'"
    and dict: "dict_ok (reservations l')" "dict_ok (completion_reserves l')"
    and res: "\<And>rid r. map_of (reservations l') rid = Some r \<Longrightarrow> reservation_ok l' rid r \<or>
      (reservation_ok l rid r \<and> map_of (reservation_holds l') rid = map_of (reservation_holds l) rid)"
    and comp: "\<And>cid c. map_of (completion_reserves l') cid = Some c \<Longrightarrow> completion_ok l' cid c \<or>
      (completion_ok l cid c \<and> map_of (completion_reserve_holds l') cid = map_of (completion_reserve_holds l) cid)"
    and per: "\<And>pid p. map_of (permits l') pid = Some p \<Longrightarrow> permit_ok l' pid p"
  shows "ledger_ok l'"
proof -
  have "accounts_ok l'"
    using accounts_ok_post [OF d ledger_okD(1) [OF l], of f g h] l'(1) by (simp add: accounts_ok_def)
  moreover have "books_ok l'"
    using books_ok_post [OF d ledger_okD(2) [OF l] ok] unfolding books_ok_def l' post_fields(2) .
  moreover have "records_ok l'"
    by (rule records_okI [OF ledger_okD(3) [OF l] _ fc dict res comp per])
      (use l'(1) same_parents_bump [OF d] in \<open>simp_all\<close>)
  ultimately show ?thesis by (simp add: ledger_ok_def)
qed

lemmas ok_dicts = ledger_okD(3) [unfolded records_ok_def]

lemma reserves_ok: "ledger_ok l \<Longrightarrow> reserves l req r l' \<Longrightarrow> ledger_ok l'"
proof -
  assume l: "ledger_ok l" and "reserves l req r l'"
  then obtain held rc where h: "holds l (reservation_budget r) held req" and new: "map_of (reservations l) (reservation_id r) = None"
    and r: "reservation_amounts r = listed req" "reservation_token r = fencing_counter l + 1" and rc: "reservation_counter l < rc"
    and l': "l' = (post held (add_all req) (\<lambda>d. d) (\<lambda>d. d) l)
         \<lparr>reservation_counter := rc, fencing_counter := fencing_counter l + 1,
          reservations := dict_set (reservation_id r) r (reservations l),
          reservation_holds := dict_set (reservation_id r) held (reservation_holds l)\<rparr>"
    unfolding reserves_def by (elim exE conjE) (rule that; assumption)
  have chain: "chain_of (accounts l) (reservation_budget r) held" and req: "map_ok req" using h by (simp_all add: holds_def)
  note d = chain_ofD(1) [OF chain]
  have nr: "reservation_ok l' (reservation_id r) r"
    using ok_dicts [OF l] r listed_ok [OF req] chain_of_mono [OF chain same_parents_bump [OF d]]
    by (auto simp: reservation_ok_def l')
  show ?thesis
  proof (rule ledger_ok_post [OF l d, where f = "add_all req" and g = "\<lambda>d. d" and h = "\<lambda>d. d"])
    fix pid p assume "map_of (permits l') pid = Some p"
    then show "permit_ok l' pid p" by (intro permit_ok_mono [OF ledger_okD(6) [OF l]]) (auto simp: l')
  qed (use req nr rc ok_dicts [OF l] in \<open>auto simp: l' keys_ok_add_all split: if_splits\<close>)
qed

lemma settled_ok:
  assumes l: "ledger_ok l" and op: "open_in l rid r held"
    and f: "\<And>d. keys_ok d \<Longrightarrow> keys_ok (f d)" "\<And>d. map_ok d \<Longrightarrow> map_ok (g d)" "\<And>d. map_ok d \<Longrightarrow> map_ok (h d)"
    and l': "l' = (post held f g h l)\<lparr>reservations := dict_set rid (r\<lparr>reservation_status := st\<rparr>) (reservations l)\<rparr>"
  shows "ledger_ok l'"
proof (rule ledger_ok_post [OF l open_inD(1) [OF l op] f])
  fix pid p assume "map_of (permits l') pid = Some p"
  then show "permit_ok l' pid p" by (intro permit_ok_mono [OF ledger_okD(6) [OF l]]) (auto simp: l')
next
  have "reservation_ok l rid r" using op by (intro ledger_okD(4) [OF l]) (simp add: open_in_def)
  then show "reservation_ok l' rid' r' \<or>
      (reservation_ok l rid' r' \<and> map_of (reservation_holds l') rid' = map_of (reservation_holds l) rid')"
    if "map_of (reservations l') rid' = Some r'" for rid' r'
    using that ok_dicts [OF l] by (auto simp: l' split: if_splits)
qed (use ok_dicts [OF l] in \<open>auto simp: l' split: if_splits\<close>)

lemma frees_ok: "ledger_ok l \<Longrightarrow> frees l st rid r held l' \<Longrightarrow> ledger_ok l'"
  unfolding frees_def by (elim conjE, rule settled_ok) (auto intro: keys_ok_sub_all open_inD(2))

lemma commits_ok: "ledger_ok l \<Longrightarrow> commits l rid r held actual l' \<Longrightarrow> ledger_ok l'"
  unfolding commits_def Let_def
  by (elim conjE, rule settled_ok) (auto intro: keys_ok_sub_all map_ok_add_all map_ok_extra_of open_inD(2))

lemma dom_dict_set: "dom (map_of (dict_set k v d)) = insert k (dom (map_of d))"
  by auto

lemma allocates_ok: "ledger_ok l \<Longrightarrow> allocates l us a l' \<Longrightarrow> ledger_ok l'"
proof -
  assume l: "ledger_ok l" and "allocates l us a l'"
  then obtain b where b: "account_id a = b" "map_of (accounts l) b = None"
    "\<forall>p. parent_budget_id a = Some p \<longrightarrow> map_of (accounts l) p \<noteq> None" "\<forall>u \<in> set us. usage_ok u"
    and l': "l' = opened l b a (sum_amounts us)" unfolding allocates_def by (elim exE conjE) (rule that; assumption)
  obtain f where f: "ranked (accounts l) f" using ledger_okD(1) [OF l] unfolding accounts_ok_def by blast
  let ?f = "f(b := Suc (case parent_budget_id a of None \<Rightarrow> 0 | Some p \<Rightarrow> f p))"
  have "ranked (dict_set b a (accounts l)) ?f"
    using f b(2,3) by (fastforce simp: ranked_def split: if_splits)
  then have "accounts_ok l'" using ledger_okD(1) [OF l] b(1) by (auto simp: accounts_ok_def l' opened_def)
  moreover have "books_ok l'"
    using ledger_okD(2) [OF l] map_ok_sum_amounts [OF b(4)] unfolding books_ok_def l' opened_def by (simp add: dom_dict_set)
  moreover have sp: "same_parents (accounts l) (accounts l')" using b(2) by (auto simp: same_parents_def l' opened_def)
  moreover have "records_ok l'"
  proof (rule records_okI [OF ledger_okD(3) [OF l] sp])
    fix pid p assume "map_of (permits l') pid = Some p"
    then show "permit_ok l' pid p" by (intro permit_ok_mono [OF ledger_okD(6) [OF l]]) (auto simp: l' opened_def)
  qed (use ok_dicts [OF l] in \<open>auto simp: l' opened_def\<close>)
  ultimately show ?thesis by (simp add: ledger_ok_def)
qed

lemma same_accounts_ok:
  assumes l: "ledger_ok l"
    and l': "accounts l' = accounts l" "allocated_of l' = allocated_of l" "reserved_of l' = reserved_of l"
      "committed_of l' = committed_of l" "overdraft_of l' = overdraft_of l"
    and rec: "records_ok l'"
  shows "ledger_ok l'"
  using assms by (simp add: ledger_ok_def accounts_ok_def books_ok_def)

lemma issues_ok: "ledger_ok l \<Longrightarrow> issues l p l' \<Longrightarrow> ledger_ok l'"
proof -
  assume l: "ledger_ok l" and iss: "issues l p l'"
  note i = iss [unfolded issues_def]
  have "records_ok l'"
  proof (rule records_okI [OF ledger_okD(3) [OF l]])
    fix pid q assume q: "map_of (permits l') pid = Some q"
    show "permit_ok l' pid q"
    proof (cases "pid = permit_id p")
      case True
      have "map_ok (sum_amounts (authorized_amounts p))" using i by (intro map_ok_sum_amounts) blast
      then show ?thesis using True q i
        by (auto simp: permit_ok_def map_ok_nonneg tokens_cover_def open_in_def)
    next
      case False
      then show ?thesis using q i by (intro permit_ok_mono [OF ledger_okD(6) [OF l]]) auto
    qed
  qed (use ok_dicts [OF l] i same_parents_refl in \<open>auto\<close>)
  then show ?thesis using i by (intro same_accounts_ok [OF l]) auto
qed

lemma spends_ok:
  assumes l: "ledger_ok l" and s: "spends l p rid r held actual l'" and p: "map_of (permits l) (permit_id p) = Some p"
  shows "ledger_ok l'"
proof -
  obtain l1 d where com: "commits l rid r held actual l1" and d: "map_of (permit_spent l) (permit_id p) = Some d"
    and limit: "\<forall>k x. (k, x) \<in> set actual \<longrightarrow> dec_add (amount_of d k) x \<le> amount_of (sum_amounts (authorized_amounts p)) k"
    and l': "l' = l1\<lparr>permit_spent := dict_set (permit_id p) (spend_all actual d) (permit_spent l)\<rparr>"
    using s unfolding spends_def by (elim exE conjE) (rule that; assumption)
  have l1: "ledger_ok l1" by (rule commits_ok [OF l com])
  have actual: "map_ok actual" and pr: "permits l1 = permits l" "permit_spent l1 = permit_spent l"
    using com by (simp_all add: commits_def Let_def)
  have sp: "map_ok d" "\<forall>k. amount_of d k \<le> amount_of (sum_amounts (authorized_amounts p)) k"
    using ledger_okD(6) [OF l p] d by (auto simp: permit_ok_def)
  have new: "map_ok (spend_all actual d)" "\<forall>k. amount_of (spend_all actual d) k \<le> amount_of (sum_amounts (authorized_amounts p)) k"
    using sp limit actual by (auto simp: map_ok_spend_all amount_of_spend_all dict_ok_map split: option.splits dest: map_of_SomeD)
  have "records_ok l'"
  proof (rule records_okI [OF ledger_okD(3) [OF l1]])
    fix pid q assume q: "map_of (permits l') pid = Some q"
    then have q': "map_of (permits l1) pid = Some q" by (simp add: l')
    show "permit_ok l' pid q"
    proof (cases "pid = permit_id p")
      case True
      then have "q = p" using q' p pr by simp
      then show ?thesis using True ledger_okD(6) [OF l1 q'] new by (auto simp: permit_ok_def l')
    next
      case False
      then show ?thesis using pr by (intro permit_ok_mono [OF ledger_okD(6) [OF l1 q']]) (auto simp: l')
    qed
  qed (use ok_dicts [OF l1] same_parents_refl in \<open>auto simp: l'\<close>)
  then show ?thesis by (intro same_accounts_ok [OF l1]) (auto simp: l')
qed

lemma creates_ok: "ledger_ok l \<Longrightarrow> creates l req c l' \<Longrightarrow> ledger_ok l'"
proof -
  assume l: "ledger_ok l" and "creates l req c l'"
  then obtain held where h: "holds l (reserve_budget c) held req"
    and c: "reserve_amounts c = listed req" "reserve_status c = Available" "spent_reservation_id c = None"
      "reserve_token c = fencing_counter l + 1"
    and l': "l' = (post held (add_all req) (\<lambda>d. d) (\<lambda>d. d) l)
         \<lparr>fencing_counter := fencing_counter l + 1,
          completion_reserves := dict_set (reserve_id c) c (completion_reserves l),
          completion_reserve_holds := dict_set (reserve_id c) held (completion_reserve_holds l)\<rparr>"
    unfolding creates_def by (elim exE conjE) (rule that; assumption)
  have chain: "chain_of (accounts l) (reserve_budget c) held" and req: "map_ok req" using h by (simp_all add: holds_def)
  note d = chain_ofD(1) [OF chain]
  have nc: "completion_ok l' (reserve_id c) c"
    using ok_dicts [OF l] c listed_ok [OF req] chain_of_mono [OF chain same_parents_bump [OF d]]
    by (auto simp: completion_ok_def l')
  show ?thesis
  proof (rule ledger_ok_post [OF l d, where f = "add_all req" and g = "\<lambda>d. d" and h = "\<lambda>d. d"])
    fix pid p assume "map_of (permits l') pid = Some p"
    then show "permit_ok l' pid p" by (intro permit_ok_mono [OF ledger_okD(6) [OF l]]) (auto simp: l')
  qed (use req nc ok_dicts [OF l] in \<open>auto simp: l' keys_ok_add_all split: if_splits\<close>)
qed

lemma draws_ok: "ledger_ok l \<Longrightarrow> draws l cid c spender r l' \<Longrightarrow> ledger_ok l'"
proof -
  assume l: "ledger_ok l" and "draws l cid c spender r l'"
  then obtain held where c: "map_of (completion_reserves l) cid = Some c" "reserve_status c = Available"
    "map_of (completion_reserve_holds l) cid = Some held"
    and r: "map_of (reservations l) (reservation_id r) = None" "reservation_budget r = reserve_budget c"
      "reservation_amounts r = reserve_amounts c" "reservation_token r = reserve_token c"
    and l': "l' = l\<lparr>reservation_counter := reservation_counter l + 1,
         reservations := dict_set (reservation_id r) r (reservations l),
         reservation_holds := dict_set (reservation_id r) held (reservation_holds l),
         completion_reserves := dict_set cid (c\<lparr>reserve_status := Spent, spent_reservation_id := Some (reservation_id r)\<rparr>)
           (completion_reserves l)\<rparr>"
    unfolding draws_def by (elim exE conjE) (rule that; assumption)
  have co: "completion_ok l cid c" by (rule ledger_okD(5) [OF l c(1)])
  have "records_ok l'"
  proof (rule records_okI [OF ledger_okD(3) [OF l]])
    fix pid q assume "map_of (permits l') pid = Some q"
    then show "permit_ok l' pid q" by (intro permit_ok_mono [OF ledger_okD(6) [OF l]]) (auto simp: l')
  next
    fix rid' r' assume "map_of (reservations l') rid' = Some r'"
    then show "reservation_ok l' rid' r' \<or>
      (reservation_ok l rid' r' \<and> map_of (reservation_holds l') rid' = map_of (reservation_holds l) rid')"
      using co c r ok_dicts [OF l] by (auto simp: l' reservation_ok_def completion_ok_def split: if_splits)
  next
    fix cid' c' assume "map_of (completion_reserves l') cid' = Some c'"
    then show "completion_ok l' cid' c' \<or>
      (completion_ok l cid' c' \<and> map_of (completion_reserve_holds l') cid' = map_of (completion_reserve_holds l) cid')"
      using co ok_dicts [OF l] by (auto simp: l' completion_ok_def split: if_splits)
  qed (use ok_dicts [OF l] same_parents_refl in \<open>auto simp: l'\<close>)
  then show ?thesis by (intro same_accounts_ok [OF l]) (auto simp: l')
qed

lemma drops_ok:
  assumes l: "ledger_ok l" and dr: "drops l st cid c held l'" and st: "st = CompletionReleased \<or> st = CompletionExpired"
  shows "ledger_ok l'"
proof -
  note d = dr [unfolded drops_def]
  have co: "completion_ok l cid c" using d by (intro ledger_okD(5) [OF l]) blast
  have chain: "chain_of (accounts l) (reserve_budget c) held" using d by blast
  have c: "map_ok (sum_amounts (reserve_amounts c))" using co by (intro map_ok_sum_amounts) (simp add: completion_ok_def)
  have nc: "completion_ok l cid (c\<lparr>reserve_status := st\<rparr>)" using co d st by (auto simp: completion_ok_def)
  have l': "l' = (post held (sub_all (sum_amounts (reserve_amounts c))) (\<lambda>d. d) (\<lambda>d. d) l)
       \<lparr>completion_reserves := dict_set cid (c\<lparr>reserve_status := st\<rparr>) (completion_reserves l)\<rparr>" using d by blast
  show ?thesis
  proof (rule ledger_ok_post [OF l chain_ofD(1) [OF chain], where f = "sub_all (sum_amounts (reserve_amounts c))" and g = "\<lambda>d. d" and h = "\<lambda>d. d"])
    fix pid p assume "map_of (permits l') pid = Some p"
    then show "permit_ok l' pid p" by (intro permit_ok_mono [OF ledger_okD(6) [OF l]]) (auto simp: l')
  qed (use c nc ok_dicts [OF l] in \<open>auto simp: l' keys_ok_sub_all split: if_splits\<close>)
qed

lemma ledger_ok_step: "ledger_step req l l' \<Longrightarrow> ledger_ok l \<Longrightarrow> ledger_ok l'"
  by (induction rule: ledger_step.induct)
    (blast intro: allocates_ok reserves_ok frees_ok commits_ok issues_ok spends_ok creates_ok draws_ok drops_ok)+

lemma exec_refines:
  assumes "ledger_ok l" "call_ok c"
  shows "ledger_exec parse_iso c l = l \<or>
    (\<exists>req. ledger_step req l (ledger_exec parse_iso c l) \<and> (req = [] \<or> amounts_to_dict (call_amounts c) = Inr req))"
  using call_refines [OF assms, of parse_iso]
  by (auto simp: wp_def ledger_exec_def split: prod.splits sum.splits)

lemma ledger_ok_exec: "ledger_ok l \<Longrightarrow> call_ok c \<Longrightarrow> ledger_ok (ledger_exec parse_iso c l)"
  using exec_refines ledger_ok_step by metis

section \<open>The machine\<close>

definition ledger_effect :: "(string \<Rightarrow> rat option) \<Rightarrow> budget_call \<Rightarrow> budget_ledger \<Rightarrow> budget_ledger" where
  "ledger_effect parse_iso c l = (if call_ok c then ledger_exec parse_iso c l else l)"

definition tokens_in :: "('v \<Rightarrow> int) \<Rightarrow> (string, 'v) dict \<Rightarrow> int set" where
  "tokens_in f d = {f v | k v. map_of d k = Some v}"

definition ledger_tokens :: "budget_ledger \<Rightarrow> int set" where
  "ledger_tokens l = tokens_in reservation_token (reservations l) \<union> tokens_in reserve_token (completion_reserves l)"

lemma tokens_set: "n \<in> tokens_in f (dict_set k v d) \<Longrightarrow> n = f v \<or> n \<in> tokens_in f d"
  by (auto simp: tokens_in_def split: if_splits)

lemma tokens_get: "map_of d k = Some v \<Longrightarrow> f v \<in> tokens_in f d"
  by (auto simp: tokens_in_def)

lemma step_frame:
  assumes "ledger_step req l l'" "ledger_ok l"
  shows "fencing_counter l \<le> fencing_counter l'"
    and "n \<in> ledger_tokens l' \<Longrightarrow> n \<in> ledger_tokens l \<or> fencing_counter l < n"
    and "map_of (reservations l) rid = Some r \<Longrightarrow> reservation_status r \<noteq> Reserved \<Longrightarrow> map_of (reservations l') rid = Some r"
    and "map_of (accounts l) b = Some a \<Longrightarrow> \<exists>a'. map_of (accounts l') b = Some a' \<and> revision a \<le> revision a' \<and>
      a'\<lparr>revision := revision a\<rparr> = a"
  using assms
proof (atomize (full), induction rule: ledger_step.induct)
  case (allocates l us a' l')
  then show ?case by (auto simp: allocates_def opened_def ledger_tokens_def)
next
  case (reserves l req r l')
  then show ?case
    by (auto simp: reserves_def ledger_tokens_def holds_def bump_def dest!: chain_ofD(1) tokens_set intro: tokens_get split: if_splits)
next
  case (frees l st rid r held l')
  then show ?case
    by (auto simp: frees_def open_in_def ledger_tokens_def bump_def dest!: chain_ofD(1) tokens_set intro: tokens_get split: if_splits)
next
  case (commits l rid r held actual l')
  then show ?case
    by (auto simp: commits_def Let_def open_in_def ledger_tokens_def bump_def dest!: chain_ofD(1) tokens_set intro: tokens_get split: if_splits)
next
  case (issues l p l')
  then show ?case by (auto simp: issues_def ledger_tokens_def)
next
  case (spends l p rid r held actual l')
  then show ?case using tokens_get [of "reservations l" rid r reservation_token]
    by (auto simp: spends_def commits_def Let_def open_in_def ledger_tokens_def bump_def dest!: chain_ofD(1) tokens_set intro: tokens_get split: if_splits)
next
  case (creates l req c l')
  then show ?case
    by (auto simp: creates_def ledger_tokens_def holds_def bump_def dest!: chain_ofD(1) tokens_set intro: tokens_get split: if_splits)
next
  case (draws l cid c spender r l')
  then show ?case using tokens_get [of "completion_reserves l" cid c reserve_token] by (auto simp: draws_def ledger_tokens_def dest!: tokens_set intro: tokens_get split: if_splits)
next
  case (drops l st cid c held l')
  then show ?case
    by (auto simp: drops_def ledger_tokens_def bump_def dest!: chain_ofD(1) tokens_set intro: tokens_get split: if_splits)
qed

lemma ledger_tokens_below: "ledger_ok l \<Longrightarrow> n \<in> ledger_tokens l \<Longrightarrow> n \<le> fencing_counter l"
  using ok_dicts [of l] by (auto simp: ledger_tokens_def tokens_in_def reservation_ok_def completion_ok_def)

interpretation ledger: py_machine "\<lambda>l. l = empty_ledger" "ledger_effect parse_iso" ledger_ok
  for parse_iso :: "string \<Rightarrow> rat option"
  by unfold_locales (auto simp: ledger_ok_empty ledger_effect_def ledger_ok_exec)

interpretation ledger_fence: fenced_machine "\<lambda>l. l = empty_ledger" "ledger_effect parse_iso" ledger_ok
  "\<lambda>l. fencing_counter l + 1" ledger_tokens
  for parse_iso :: "string \<Rightarrow> rat option"
proof unfold_locales
  fix l c n assume l: "ledger_ok l"
  show "n \<in> ledger_tokens l \<Longrightarrow> n < fencing_counter l + 1" using ledger_tokens_below [OF l] by force
  have step: "ledger_effect parse_iso c l = l \<or> (\<exists>req. ledger_step req l (ledger_effect parse_iso c l))"
    using exec_refines [OF l] by (auto simp: ledger_effect_def)
  then show "fencing_counter l + 1 \<le> fencing_counter (ledger_effect parse_iso c l) + 1"
    using step_frame(1) [OF _ l] by force
  show "n \<in> ledger_tokens (ledger_effect parse_iso c l) \<Longrightarrow> n \<in> ledger_tokens l \<or> fencing_counter l + 1 \<le> n"
    using step step_frame(2) [OF _ l] by force
qed

end
