(* ===== verification/Budget_Exact.thy ===== *)
theory Budget_Exact
  imports Budget_Run
begin

text \<open>
  Runs in which the decimal context is wide enough: every amount is a multiple of \<open>10\<^sup>-\<^sup>q\<close>
  and below a quarter of \<open>10\<^sup>2\<^sup>8\<close> such units, so that no sum or difference of three of them is
  rounded. In such runs the reserved total of an account is the sum of the open holds on
  it, and the reserved and committed totals stay within allocation plus overdraft.
\<close>

section \<open>Amounts that are added exactly\<close>

definition small :: "nat \<Rightarrow> rat \<Rightarrow> bool" where
  "small q x \<longleftrightarrow> dec_grid q x \<and> 4 * \<bar>x * 10 ^ q\<bar> < 10 ^ 28"

lemma small_0 [simp]: "small q 0"
  by (simp add: small_def)

lemma dec_exact_sum:
  assumes "small q x" "small q y" "small q z"
  shows "dec_exact q (x + y)" "dec_exact q (x - y)" "dec_exact q (x - y - z)"
proof -
  note a = assms [unfolded small_def]
  have "\<bar>(x + y) * 10 ^ q\<bar> \<le> \<bar>x * 10 ^ q\<bar> + \<bar>y * 10 ^ q\<bar>" "\<bar>(x - y) * 10 ^ q\<bar> \<le> \<bar>x * 10 ^ q\<bar> + \<bar>y * 10 ^ q\<bar>"
    "\<bar>(x - y - z) * 10 ^ q\<bar> \<le> \<bar>x * 10 ^ q\<bar> + \<bar>y * 10 ^ q\<bar> + \<bar>z * 10 ^ q\<bar>"
    by (simp_all add: distrib_right left_diff_distrib)
  then show "dec_exact q (x + y)" "dec_exact q (x - y)" "dec_exact q (x - y - z)"
    using a by (auto simp: dec_exact_def intro!: dec_grid_add dec_grid_diff)
qed

lemma small_add: "small q x \<Longrightarrow> small q y \<Longrightarrow> dec_add x y = x + y"
  unfolding dec_add_def by (rule dec_fix_exact) (rule dec_exact_sum [of q x y 0], simp_all)

lemma small_sub: "small q x \<Longrightarrow> small q y \<Longrightarrow> dec_sub x y = x - y"
  unfolding dec_sub_def by (rule dec_fix_exact) (rule dec_exact_sum [of q x y 0], simp_all)

lemma small_sub2: "small q x \<Longrightarrow> small q y \<Longrightarrow> small q z \<Longrightarrow> dec_sub (dec_sub x y) z = x - y - z"
  unfolding small_sub dec_sub_def [of "x - y"] by (rule dec_fix_exact) (rule dec_exact_sum)

lemma small_diff:
  assumes "small q x" "small q y" "0 \<le> y" "0 \<le> x - y"
  shows "small q (x - y)"
proof -
  have "0 \<le> (x - y) * 10 ^ q" "0 \<le> y * 10 ^ q" using assms(3,4) by simp_all
  then have "\<bar>(x - y) * 10 ^ q\<bar> \<le> \<bar>x * 10 ^ q\<bar>" by (simp add: left_diff_distrib)
  then show ?thesis using assms(1,2) unfolding small_def by (auto intro: dec_grid_diff)
qed

lemma small_fix: "small q x \<Longrightarrow> dec_fix x = x"
  using small_sub [of q x 0] by (simp add: dec_sub_def)

definition amounts_small :: "nat \<Rightarrow> amount_map \<Rightarrow> bool" where
  "amounts_small q d \<longleftrightarrow> (\<forall>k. small q (amount_of d k))"

definition ledger_small :: "nat \<Rightarrow> budget_ledger \<Rightarrow> bool" where
  "ledger_small q l \<longleftrightarrow>
     (\<forall>b k. small q (book (allocated_of l) b k) \<and> small q (book (reserved_of l) b k) \<and>
       small q (book (committed_of l) b k) \<and> small q (book (overdraft_of l) b k)) \<and>
     (\<forall>rid r. map_of (reservations l) rid = Some r \<longrightarrow> amounts_small q (sum_amounts (reservation_amounts r))) \<and>
     (\<forall>cid c. map_of (completion_reserves l) cid = Some c \<longrightarrow> amounts_small q (sum_amounts (reserve_amounts c)))"

definition call_within :: "nat \<Rightarrow> budget_call \<Rightarrow> bool" where
  "call_within q c \<longleftrightarrow> (\<forall>d. amounts_to_dict (call_amounts c) = Inr d \<longrightarrow> amounts_small q d)"

inductive exact_run :: "(string \<Rightarrow> rat option) \<Rightarrow> nat \<Rightarrow> budget_ledger \<Rightarrow> bool" for parse_iso q where
  init: "exact_run parse_iso q empty_ledger"
| step: "exact_run parse_iso q l \<Longrightarrow> ledger_small q l \<Longrightarrow> call_ok c \<Longrightarrow> call_within q c \<Longrightarrow> exact_run parse_iso q (ledger_exec parse_iso c l)"

section \<open>Open holds\<close>

definition held_in :: "(string, string list) dict \<Rightarrow> string \<Rightarrow> string \<Rightarrow> bool" where
  "held_in hs i b \<longleftrightarrow> (\<exists>held. map_of hs i = Some held \<and> b \<in> set held)"

definition reservation_weight :: "(string, string list) dict \<Rightarrow> string \<Rightarrow> amount_key \<Rightarrow> budget_reservation \<Rightarrow> rat" where
  "reservation_weight hs b k r =
     (if reservation_status r = Reserved \<and> held_in hs (reservation_id r) b
      then amount_of (sum_amounts (reservation_amounts r)) k else 0)"

definition reserve_weight :: "(string, string list) dict \<Rightarrow> string \<Rightarrow> amount_key \<Rightarrow> completion_reserve_rec \<Rightarrow> rat" where
  "reserve_weight hs b k c =
     (if reserve_status c = Available \<and> held_in hs (reserve_id c) b
      then amount_of (sum_amounts (reserve_amounts c)) k else 0)"

definition open_total :: "budget_ledger \<Rightarrow> string \<Rightarrow> amount_key \<Rightarrow> rat" where
  "open_total l b k =
     dict_sum (reservation_weight (reservation_holds l) b k) (reservations l) +
     dict_sum (reserve_weight (completion_reserve_holds l) b k) (completion_reserves l)"

definition exact_ok :: "budget_ledger \<Rightarrow> bool" where
  "exact_ok l \<longleftrightarrow> (\<forall>b a k. map_of (accounts l) b = Some a \<longrightarrow>
     book (reserved_of l) b k = open_total l b k \<and>
     book (reserved_of l) b k + book (committed_of l) b k \<le> book (allocated_of l) b k + book (overdraft_of l) b k)"

lemma new_hold_sum:
  assumes "dict_ok d" "map_of d i = None" "\<And>j v. map_of d j = Some v \<Longrightarrow> key v = j"
    and "\<And>v hs. w hs v = (if P v \<and> held_in hs (key v) b then x v else (0::rat))"
  shows "dict_sum (w (dict_set i held hs)) d = dict_sum (w hs) d"
proof (rule dict_sum_cong)
  fix j v assume "(j, v) \<in> set d"
  then have "map_of d j = Some v" using assms(1) by (simp add: dict_mem_iff)
  then have "key v = j" "j \<noteq> i" using assms(2,3) by auto
  then show "w (dict_set i held hs) v = w hs v" by (simp add: assms(4) held_in_def)
qed

text \<open>The books of a chain after an exact posting.\<close>

lemma book_held:
  assumes "distinct held" "map_of d b = Some m" "\<And>m. amount_of (f m) k = g (amount_of m k)"
  shows "book (map_held held f d) b k = (if b \<in> set held then g (book d b k) else book d b k)"
  using assms by (simp add: book_def)

lemma book_add:
  assumes "distinct held" "map_of d b = Some m" "dict_ok req" "small q (amount_of req k)" "small q (book d b k)"
  shows "book (map_held held (add_all req) d) b k = book d b k + (if b \<in> set held then amount_of req k else 0)"
proof (cases "map_of req k")
  case None
  then show ?thesis using assms by (simp add: book_def amount_of_add_all amount_of_def [of req])
next
  case (Some x)
  then show ?thesis using assms by (simp add: book_def amount_of_add_all amount_of_def [of req] small_add)
qed

lemma book_sub:
  assumes "distinct held" "map_of d b = Some m" "dict_ok req" "small q (amount_of req k)" "small q (book d b k)"
  shows "book (map_held held (sub_all req) d) b k = book d b k - (if b \<in> set held then amount_of req k else 0)"
proof (cases "map_of req k")
  case None
  then show ?thesis using assms by (simp add: book_def amount_of_sub_all amount_of_def [of req])
next
  case (Some x)
  then show ?thesis using assms by (simp add: book_def amount_of_sub_all amount_of_def [of req] small_sub)
qed

lemma book_extra:
  assumes "distinct held" "map_of d b = Some m" "dict_ok actual" "\<And>k. 0 \<le> amount_of actual k" "0 \<le> amount_of req k"
    "small q (amount_of req k)" "small q (amount_of actual k)" "small q (book d b k)"
  shows "book (map_held held (extra_of req actual) d) b k =
    book d b k + (if b \<in> set held then max 0 (amount_of actual k - amount_of req k) else 0)"
proof (cases "map_of actual k")
  case None
  then show ?thesis using assms by (simp add: book_def amount_of_extra_of amount_of_def [of actual])
next
  case (Some x)
  then have x: "amount_of actual k = x" by (simp add: amount_of_def)
  have e: "dec_sub x (amount_of req k) = x - amount_of req k" using assms(6,7) x by (simp add: small_sub)
  have "small q (x - amount_of req k)" if "0 < x - amount_of req k"
    using assms(5,6,7) x that by (intro small_diff) auto
  then show ?thesis using assms Some x e
    by (auto simp: book_def amount_of_extra_of Let_def small_add max_def)
qed

section \<open>Every step keeps the account\<close>

lemma weight_status [simp]:
  "st \<noteq> Reserved \<Longrightarrow> reservation_weight hs b k (r\<lparr>reservation_status := st\<rparr>) = 0"
  "st' \<noteq> Available \<Longrightarrow> reserve_weight hs b k (c\<lparr>reserve_status := st'\<rparr>) = 0"
  "reserve_weight hs b k (c\<lparr>reserve_status := Spent, spent_reservation_id := i\<rparr>) = 0"
  by (simp_all add: reservation_weight_def reserve_weight_def)

lemma reservation_sum_new:
  assumes l: "ledger_ok l" and new: "map_of (reservations l) (reservation_id r) = None"
  shows "dict_sum (reservation_weight (dict_set (reservation_id r) held (reservation_holds l)) b k)
      (dict_set (reservation_id r) r (reservations l)) =
    dict_sum (reservation_weight (reservation_holds l) b k) (reservations l) +
      (if reservation_status r = Reserved \<and> b \<in> set held then amount_of (sum_amounts (reservation_amounts r)) k else 0)"
proof -
  have "dict_sum (reservation_weight (dict_set (reservation_id r) held (reservation_holds l)) b k) (reservations l) =
      dict_sum (reservation_weight (reservation_holds l) b k) (reservations l)"
    by (rule new_hold_sum [where w = "\<lambda>hs. reservation_weight hs b k" and key = reservation_id and b = b])
      (use new ok_dicts [OF l] in \<open>auto simp: reservation_ok_def reservation_weight_def\<close>)
  then show ?thesis using new by (simp add: dict_sum_set_new reservation_weight_def held_in_def)
qed

lemma reserve_sum_new:
  assumes l: "ledger_ok l" and new: "map_of (completion_reserves l) (reserve_id c) = None"
  shows "dict_sum (reserve_weight (dict_set (reserve_id c) held (completion_reserve_holds l)) b k)
      (dict_set (reserve_id c) c (completion_reserves l)) =
    dict_sum (reserve_weight (completion_reserve_holds l) b k) (completion_reserves l) +
      (if reserve_status c = Available \<and> b \<in> set held then amount_of (sum_amounts (reserve_amounts c)) k else 0)"
proof -
  have "dict_sum (reserve_weight (dict_set (reserve_id c) held (completion_reserve_holds l)) b k) (completion_reserves l) =
      dict_sum (reserve_weight (completion_reserve_holds l) b k) (completion_reserves l)"
    by (rule new_hold_sum [where w = "\<lambda>hs. reserve_weight hs b k" and key = reserve_id and b = b])
      (use new ok_dicts [OF l] in \<open>auto simp: completion_ok_def reserve_weight_def\<close>)
  then show ?thesis using new by (simp add: dict_sum_set_new reserve_weight_def held_in_def)
qed

lemma exact_hold:
  assumes l: "ledger_ok l" and s: "ledger_small q l" and e: "exact_ok l" and req: "amounts_small q req"
    and h: "holds l b0 held req"
    and l': "accounts l' = map_held held bump (accounts l)" "allocated_of l' = allocated_of l"
      "reserved_of l' = map_held held (add_all req) (reserved_of l)" "committed_of l' = committed_of l"
      "overdraft_of l' = overdraft_of l"
    and tot: "\<And>b k. open_total l' b k = open_total l b k + (if b \<in> set held then amount_of req k else 0)"
  shows "exact_ok l'"
  unfolding exact_ok_def
proof (intro allI impI)
  fix b a' k assume a': "map_of (accounts l') b = Some a'"
  have chain: "chain_of (accounts l) b0 held" and ok: "map_ok req" using h by (simp_all add: holds_def)
  note d = chain_ofD(1) [OF chain]
  obtain a where a: "map_of (accounts l) b = Some a" using a' l'(1) d by (auto split: if_splits)
  obtain m where m: "map_of (reserved_of l) b = Some m" using books_okD(2) [OF ledger_okD(2) [OF l] a] by blast
  obtain od where od: "map_of (overdraft_of l) b = Some od" "map_ok od" using books_okD(4) [OF ledger_okD(2) [OF l] a] by blast
  have res: "book (reserved_of l') b k = book (reserved_of l) b k + (if b \<in> set held then amount_of req k else 0)"
    unfolding l'(3) using s req by (intro book_add [OF d m dict_ok_map [OF ok], of q]) (auto simp: amounts_small_def ledger_small_def)
  note ek = e [unfolded exact_ok_def, rule_format, OF a, of k]
  show "book (reserved_of l') b k = open_total l' b k \<and>
     book (reserved_of l') b k + book (committed_of l') b k \<le> book (allocated_of l') b k + book (overdraft_of l') b k"
  proof (cases "b \<in> set held \<and> map_of req k \<noteq> None")
    case True
    then obtain x where x: "map_of req k = Some x" by blast
    then have "0 < x" "x \<le> max 0 (remaining l b k)" using h True by (auto simp: holds_def dest: map_of_SomeD)
    then have "x \<le> remaining l b k" by (simp add: max_def split: if_splits)
    moreover have "remaining l b k = book (allocated_of l) b k - book (reserved_of l) b k - book (committed_of l) b k"
      unfolding remaining_def using s by (intro small_sub2 [of q]) (auto simp: ledger_small_def)
    moreover have "0 \<le> book (overdraft_of l) b k" using od by (simp add: book_def map_ok_nonneg)
    ultimately show ?thesis using True x ek res tot by (simp add: l' amount_of_def)
  next
    case False
    then have "(if b \<in> set held then amount_of req k else 0) = 0" by (auto simp: amount_of_def)
    then show ?thesis using ek res tot by (simp add: l')
  qed
qed

lemma exact_settle:
  assumes l: "ledger_ok l" and s: "ledger_small q l" and e: "exact_ok l"
    and req: "amounts_small q req" "map_ok req" and act: "amounts_small q actual" "map_ok actual"
    and d: "distinct held"
    and l': "accounts l' = map_held held bump (accounts l)" "allocated_of l' = allocated_of l"
      "reserved_of l' = map_held held (sub_all req) (reserved_of l)"
      "committed_of l' = map_held held (add_all actual) (committed_of l)"
      "overdraft_of l' = map_held held (extra_of req actual) (overdraft_of l)"
    and tot: "\<And>b k. open_total l' b k = open_total l b k - (if b \<in> set held then amount_of req k else 0)"
  shows "exact_ok l'"
  unfolding exact_ok_def
proof (intro allI impI)
  fix b a' k assume a': "map_of (accounts l') b = Some a'"
  obtain a where a: "map_of (accounts l) b = Some a" using a' l'(1) d by (auto split: if_splits)
  obtain m c od where m: "map_of (reserved_of l) b = Some m" "map_of (committed_of l) b = Some c" "map_of (overdraft_of l) b = Some od"
    using books_okD [OF ledger_okD(2) [OF l] a] by blast
  have sm: "small q (amount_of req k)" "small q (amount_of actual k)" "small q (book (reserved_of l) b k)"
    "small q (book (committed_of l) b k)" "small q (book (overdraft_of l) b k)"
    using s req(1) act(1) by (auto simp: amounts_small_def ledger_small_def)
  have res: "book (reserved_of l') b k = book (reserved_of l) b k - (if b \<in> set held then amount_of req k else 0)"
    unfolding l'(3) by (rule book_sub [OF d m(1) dict_ok_map [OF req(2)] sm(1,3)])
  have com: "book (committed_of l') b k = book (committed_of l) b k + (if b \<in> set held then amount_of actual k else 0)"
    unfolding l'(4) by (rule book_add [OF d m(2) dict_ok_map [OF act(2)] sm(2,4)])
  have over: "book (overdraft_of l') b k =
      book (overdraft_of l) b k + (if b \<in> set held then max 0 (amount_of actual k - amount_of req k) else 0)"
    unfolding l'(5) by (rule book_extra [OF d m(3) dict_ok_map [OF act(2)] map_ok_nonneg [OF act(2)] map_ok_nonneg [OF req(2)] sm(1,2,5)])
  show "book (reserved_of l') b k = open_total l' b k \<and>
     book (reserved_of l') b k + book (committed_of l') b k \<le> book (allocated_of l') b k + book (overdraft_of l') b k"
    using e [unfolded exact_ok_def, rule_format, OF a, of k] res com over tot l'(2) by (auto simp: max_def)
qed

lemma reservation_sum_settled:
  assumes "open_in l rid r held" "reservation_id r = rid" "st \<noteq> Reserved"
  shows "dict_sum (reservation_weight (reservation_holds l) b k) (dict_set rid (r\<lparr>reservation_status := st\<rparr>) (reservations l)) =
    dict_sum (reservation_weight (reservation_holds l) b k) (reservations l) -
      (if b \<in> set held then amount_of (sum_amounts (reservation_amounts r)) k else 0)"
proof -
  have "reservation_weight (reservation_holds l) b k r =
      (if b \<in> set held then amount_of (sum_amounts (reservation_amounts r)) k else 0)"
    using assms by (simp add: reservation_weight_def held_in_def open_in_def)
  moreover have "map_of (reservations l) rid = Some r" using assms by (simp add: open_in_def)
  ultimately show ?thesis using assms(3) by (simp add: dict_sum_set_old)
qed

lemma reserve_sum_settled:
  assumes "map_of (completion_reserves l) cid = Some c" "reserve_id c = cid" "reserve_status c = Available"
    "map_of (completion_reserve_holds l) cid = Some held" "reserve_weight (completion_reserve_holds l) b k c' = 0"
  shows "dict_sum (reserve_weight (completion_reserve_holds l) b k) (dict_set cid c' (completion_reserves l)) =
    dict_sum (reserve_weight (completion_reserve_holds l) b k) (completion_reserves l) -
      (if b \<in> set held then amount_of (sum_amounts (reserve_amounts c)) k else 0)"
proof -
  have "reserve_weight (completion_reserve_holds l) b k c =
      (if b \<in> set held then amount_of (sum_amounts (reserve_amounts c)) k else 0)"
    using assms by (simp add: reserve_weight_def held_in_def)
  then show ?thesis using assms(1,5) by (simp add: dict_sum_set_old)
qed

lemma add_all_Nil [simp]: "add_all [] = (\<lambda>d. d)" "extra_of req [] = (\<lambda>d. d)"
  by (simp_all add: fun_eq_iff add_all_def extra_of_def)

lemma dict_sum_0: "dict_sum (\<lambda>_. 0) d = (0::rat)"
  by (induction d) auto

lemma exact_ok_cong:
  assumes "exact_ok l" "accounts l' = accounts l" "allocated_of l' = allocated_of l" "reserved_of l' = reserved_of l"
    "committed_of l' = committed_of l" "overdraft_of l' = overdraft_of l" "open_total l' = open_total l"
  shows "exact_ok l'"
  using assms(1) unfolding exact_ok_def assms(2-) .

lemma book_set: "book (dict_set b m d) b' k = (if b' = b then amount_of m k else book d b' k)"
  by (simp add: book_def)

lemma exact_allocates:
  assumes l: "ledger_ok l" and e: "exact_ok l" and "allocates l us a l'"
  shows "exact_ok l'"
proof -
  obtain b where b: "map_of (accounts l) b = None" "\<forall>u \<in> set us. usage_ok u" and l': "l' = opened l b a (sum_amounts us)"
    using assms(3) unfolding allocates_def by blast
  have off: "\<not> held_in (reservation_holds l) rid b" if "map_of (reservations l) rid = Some r" for rid r
    using ledger_okD(4) [OF l that] b(1) chain_ofD(3) unfolding held_in_def reservation_ok_def by fastforce
  have coff: "\<not> held_in (completion_reserve_holds l) cid b" if "map_of (completion_reserves l) cid = Some c" for cid c
    using ledger_okD(5) [OF l that] b(1) chain_ofD(3) unfolding held_in_def completion_ok_def by fastforce
  have "dict_sum (reservation_weight (reservation_holds l) b k) (reservations l) = dict_sum (\<lambda>_. 0) (reservations l)" for k
    by (rule dict_sum_cong) (use off ok_dicts [OF l] in \<open>auto simp: reservation_weight_def dict_mem_iff reservation_ok_def\<close>)
  moreover have "dict_sum (reserve_weight (completion_reserve_holds l) b k) (completion_reserves l) = dict_sum (\<lambda>_. 0) (completion_reserves l)" for k
    by (rule dict_sum_cong) (use coff ok_dicts [OF l] in \<open>auto simp: reserve_weight_def dict_mem_iff completion_ok_def\<close>)
  ultimately have "open_total l' b k = 0" for k by (simp add: l' opened_def open_total_def dict_sum_0)
  moreover have tot: "open_total l' = open_total l" by (simp add: fun_eq_iff l' opened_def open_total_def)
  ultimately have zero: "open_total l' b k = 0" for k by blast
  show ?thesis
    unfolding exact_ok_def
  proof (intro allI impI)
    fix b' a' k assume a': "map_of (accounts l') b' = Some a'"
    show "book (reserved_of l') b' k = open_total l' b' k \<and>
      book (reserved_of l') b' k + book (committed_of l') b' k \<le> book (allocated_of l') b' k + book (overdraft_of l') b' k"
    proof (cases "b' = b")
      case True
      then show ?thesis using zero map_ok_nonneg [OF map_ok_sum_amounts [OF b(2)]] by (simp add: l' opened_def book_set)
    next
      case False
      then have "map_of (accounts l) b' = Some a'" using a' by (simp add: l' opened_def)
      note old = e [unfolded exact_ok_def, rule_format, OF this, of k]
      have same: "book (reserved_of l') b' k = book (reserved_of l) b' k" "book (committed_of l') b' k = book (committed_of l) b' k"
        "book (allocated_of l') b' k = book (allocated_of l) b' k" "book (overdraft_of l') b' k = book (overdraft_of l) b' k"
        using False by (simp_all add: l' opened_def book_set)
      show ?thesis unfolding tot same by (rule old)
    qed
  qed
qed

lemma listed_small: "map_ok req \<Longrightarrow> amounts_small q req \<Longrightarrow> amount_of (sum_amounts (listed req)) k = amount_of req k"
  using small_fix [of q] by (simp add: amount_of_listed amounts_small_def)

lemma exact_reserves:
  assumes l: "ledger_ok l" and s: "ledger_small q l" and e: "exact_ok l" and req: "amounts_small q req"
    and r: "reserves l req r l'"
  shows "exact_ok l'"
proof -
  obtain held rc where h: "holds l (reservation_budget r) held req" and new: "map_of (reservations l) (reservation_id r) = None"
    and am: "reservation_amounts r = listed req" "reservation_status r = Reserved"
    and l': "l' = (post held (add_all req) (\<lambda>d. d) (\<lambda>d. d) l)
         \<lparr>reservation_counter := rc, fencing_counter := fencing_counter l + 1,
          reservations := dict_set (reservation_id r) r (reservations l),
          reservation_holds := dict_set (reservation_id r) held (reservation_holds l)\<rparr>"
    using r unfolding reserves_def by (elim exE conjE) (rule that; assumption)
  have "map_ok req" using h by (simp add: holds_def)
  then have "open_total l' b k = open_total l b k + (if b \<in> set held then amount_of req k else 0)" for b k
    using listed_small [OF _ req] by (simp add: open_total_def l' reservation_sum_new [OF l new] am)
  then show ?thesis by (intro exact_hold [OF l s e req h]) (simp_all add: l')
qed

lemma exact_creates:
  assumes l: "ledger_ok l" and s: "ledger_small q l" and e: "exact_ok l" and req: "amounts_small q req"
    and c: "creates l req c l'"
  shows "exact_ok l'"
proof -
  obtain held where h: "holds l (reserve_budget c) held req" and new: "map_of (completion_reserves l) (reserve_id c) = None"
    and am: "reserve_amounts c = listed req" "reserve_status c = Available"
    and l': "l' = (post held (add_all req) (\<lambda>d. d) (\<lambda>d. d) l)
         \<lparr>fencing_counter := fencing_counter l + 1,
          completion_reserves := dict_set (reserve_id c) c (completion_reserves l),
          completion_reserve_holds := dict_set (reserve_id c) held (completion_reserve_holds l)\<rparr>"
    using c unfolding creates_def by (elim exE conjE) (rule that; assumption)
  have "map_ok req" using h by (simp add: holds_def)
  then have "open_total l' b k = open_total l b k + (if b \<in> set held then amount_of req k else 0)" for b k
    using listed_small [OF _ req] by (simp add: open_total_def l' reserve_sum_new [OF l new] am)
  then show ?thesis by (intro exact_hold [OF l s e req h]) (simp_all add: l')
qed

lemma exact_commits:
  assumes l: "ledger_ok l" and s: "ledger_small q l" and e: "exact_ok l" and act: "amounts_small q actual"
    and c: "commits l rid r held actual l'"
  shows "exact_ok l'"
proof -
  let ?req = "sum_amounts (reservation_amounts r)"
  have op: "open_in l rid r held" and ok: "map_ok actual"
    and l': "l' = (post held (sub_all ?req) (add_all actual) (extra_of ?req actual) l)
        \<lparr>reservations := dict_set rid (r\<lparr>reservation_status := Committed\<rparr>) (reservations l)\<rparr>"
    using c by (simp_all add: commits_def Let_def)
  have r: "map_of (reservations l) rid = Some r" using op by (simp add: open_in_def)
  have id: "reservation_id r = rid" using ledger_okD(4) [OF l r] by (simp add: reservation_ok_def)
  have sm: "amounts_small q ?req" using s r unfolding ledger_small_def by blast
  have "open_total l' b k = open_total l b k - (if b \<in> set held then amount_of ?req k else 0)" for b k
    using reservation_sum_settled [OF op id, of Committed b k] by (simp add: open_total_def l')
  then show ?thesis
    by (intro exact_settle [OF l s e sm open_inD(2) [OF l op] act ok open_inD(1) [OF l op]]) (simp_all add: l')
qed

lemma exact_frees:
  assumes l: "ledger_ok l" and s: "ledger_small q l" and e: "exact_ok l" and st: "st \<noteq> Reserved"
    and f: "frees l st rid r held l'"
  shows "exact_ok l'"
proof -
  let ?req = "sum_amounts (reservation_amounts r)"
  have op: "open_in l rid r held"
    and l': "l' = (post held (sub_all ?req) (\<lambda>d. d) (\<lambda>d. d) l)
        \<lparr>reservations := dict_set rid (r\<lparr>reservation_status := st\<rparr>) (reservations l)\<rparr>"
    using f by (simp_all add: frees_def)
  have r: "map_of (reservations l) rid = Some r" using op by (simp add: open_in_def)
  have id: "reservation_id r = rid" using ledger_okD(4) [OF l r] by (simp add: reservation_ok_def)
  have sm: "amounts_small q ?req" using s r unfolding ledger_small_def by blast
  have nil: "amounts_small q []" "map_ok []" by (simp_all add: amounts_small_def)
  have "open_total l' b k = open_total l b k - (if b \<in> set held then amount_of ?req k else 0)" for b k
    using reservation_sum_settled [OF op id st, of b k] by (simp add: open_total_def l')
  then show ?thesis
    by (intro exact_settle [OF l s e sm open_inD(2) [OF l op] nil open_inD(1) [OF l op]]) (simp_all add: l')
qed

lemma exact_drops:
  assumes l: "ledger_ok l" and s: "ledger_small q l" and e: "exact_ok l" and st: "st \<noteq> Available"
    and f: "drops l st cid c held l'"
  shows "exact_ok l'"
proof -
  let ?req = "sum_amounts (reserve_amounts c)"
  have c: "map_of (completion_reserves l) cid = Some c" "reserve_status c = Available"
    "map_of (completion_reserve_holds l) cid = Some held" "chain_of (accounts l) (reserve_budget c) held"
    and l': "l' = (post held (sub_all ?req) (\<lambda>d. d) (\<lambda>d. d) l)
       \<lparr>completion_reserves := dict_set cid (c\<lparr>reserve_status := st\<rparr>) (completion_reserves l)\<rparr>"
    using f by (simp_all add: drops_def)
  have ok: "completion_ok l cid c" by (rule ledger_okD(5) [OF l c(1)])
  have sm: "amounts_small q ?req" "map_ok ?req"
    using s c(1) ok map_ok_sum_amounts unfolding ledger_small_def completion_ok_def by blast+
  have nil: "amounts_small q []" "map_ok []" by (simp_all add: amounts_small_def)
  have "open_total l' b k = open_total l b k - (if b \<in> set held then amount_of ?req k else 0)" for b k
    using reserve_sum_settled [OF c(1) _ c(2,3), of b k "c\<lparr>reserve_status := st\<rparr>"] ok st
    by (simp add: open_total_def l' completion_ok_def)
  then show ?thesis
    by (intro exact_settle [OF l s e sm nil chain_ofD(1) [OF c(4)]]) (simp_all add: l')
qed

lemma exact_draws:
  assumes l: "ledger_ok l" and e: "exact_ok l" and d: "draws l cid c spender r l'"
  shows "exact_ok l'"
proof -
  obtain held where c: "map_of (completion_reserves l) cid = Some c" "reserve_status c = Available"
    "map_of (completion_reserve_holds l) cid = Some held"
    and r: "map_of (reservations l) (reservation_id r) = None" "reservation_amounts r = reserve_amounts c" "reservation_status r = Reserved"
    and l': "l' = l\<lparr>reservation_counter := reservation_counter l + 1,
         reservations := dict_set (reservation_id r) r (reservations l),
         reservation_holds := dict_set (reservation_id r) held (reservation_holds l),
         completion_reserves := dict_set cid (c\<lparr>reserve_status := Spent, spent_reservation_id := Some (reservation_id r)\<rparr>)
           (completion_reserves l)\<rparr>"
    using d unfolding draws_def by (elim exE conjE) (rule that; assumption)
  have "reserve_id c = cid" using ledger_okD(5) [OF l c(1)] by (simp add: completion_ok_def)
  then have "open_total l' = open_total l"
    using reserve_sum_settled [OF c(1) _ c(2,3)] reservation_sum_new [OF l r(1)] r(2,3)
    by (simp add: fun_eq_iff open_total_def l')
  then show ?thesis by (intro exact_ok_cong [OF e]) (simp_all add: l')
qed

lemma exact_step:
  "ledger_step req l l' \<Longrightarrow> ledger_ok l \<Longrightarrow> ledger_small q l \<Longrightarrow> amounts_small q req \<Longrightarrow> exact_ok l \<Longrightarrow> exact_ok l'"
proof (induction rule: ledger_step.induct)
  case (issues l p l')
  then have "l' = l\<lparr>permits := dict_set (permit_id p) p (permits l), permit_spent := dict_set (permit_id p) [] (permit_spent l)\<rparr>"
    by (simp add: issues_def)
  then show ?case by (intro exact_ok_cong [OF issues(5)]) (simp_all add: open_total_def fun_eq_iff)
next
  case (spends l p rid r held actual l')
  then obtain l1 v where l1: "commits l rid r held actual l1" "l' = l1\<lparr>permit_spent := v\<rparr>"
    unfolding spends_def by blast
  have "exact_ok l1" by (rule exact_commits [OF spends(3,4,6,5) l1(1)])
  then show ?case by (rule exact_ok_cong) (simp_all add: l1(2) open_total_def fun_eq_iff)
qed (blast intro: exact_allocates exact_reserves exact_frees exact_commits exact_creates exact_draws exact_drops)+

lemma exact_run_ok: "exact_run parse_iso q l \<Longrightarrow> ledger_ok l \<and> exact_ok l"
proof (induction rule: exact_run.induct)
  case init
  then show ?case using ledger_ok_empty by (simp add: exact_ok_def empty_ledger_def)
next
  case (step l c)
  have l: "ledger_ok l" "exact_ok l" using step.IH by auto
  have "exact_ok (ledger_exec parse_iso c l)" if "ledger_step req l (ledger_exec parse_iso c l)"
    "req = [] \<or> amounts_to_dict (call_amounts c) = Inr req" for req
    using exact_step [OF that(1) l(1) step.hyps(2) _ l(2)] that(2) step.hyps(4)
    by (auto simp: call_within_def amounts_small_def)
  then show ?case using exec_refines [OF l(1) step.hyps(3), of parse_iso] ledger_ok_exec [OF l(1) step.hyps(3)] l by auto
qed

end
