(* ===== verification/Budget_Samples.thy ===== *)
theory Budget_Samples
  imports Budget_Exact
begin

text \<open>
  Sample ledgers: a root account with a team account below it, a reservation, a permit and a
  completion reserve, with the calls of the model that produce them evaluated by
  simplification.
\<close>

definition sample_key :: amount_key where
  "sample_key = (''tokens'', ''token'', [])"

definition sample_usage :: "rat \<Rightarrow> usage_amount" where
  "sample_usage x = \<lparr>usage_kind = ''tokens'', usage_value = x, usage_unit = ''token'', usage_dimensions = []\<rparr>"

definition sample_arg :: "rat \<Rightarrow> amounts_arg" where
  "sample_arg x = Some [Some (sample_usage x)]"

definition sample_ref :: resource_ref where
  "sample_ref = \<lparr>resource_id = ''run'', resource_kind = None, resource_tenant_id = None, resource_attributes = PyDict []\<rparr>"

definition sample_time :: "string \<Rightarrow> rat option" where
  "sample_time s = (if take 4 s = ''2030'' then Some 2030 else Some 2020)"

lemma budget_strings:
  "string_ok ''tokens''" "string_ok ''token''" "string_ok ''root''" "string_ok ''team''" "string_ok ''policy''"
  "string_ok ''later''" "string_ok ''permit''" "string_ok ''reservation-000001''" "string_ok ''default''"
  "string_ok ''finish''" "string_ok ''closer''"
  by code_simp+

lemma sample_ok: "0 \<le> x \<Longrightarrow> usage_ok (sample_usage x)"
  by (simp add: usage_ok_def sample_usage_def budget_strings dims_ok_def)

lemma sample_arg_ok: "0 \<le> x \<Longrightarrow> arg_ok (sample_arg x)"
  by (simp add: arg_ok_def sample_arg_def sample_ok)

lemma sample_sum: "0 < x \<Longrightarrow> dec_fix x = x \<Longrightarrow> sum_amounts [sample_usage x] = [(sample_key, x)]"
  by (simp add: sum_amounts_def sample_usage_def add_amount_def amount_key_def sample_key_def)

lemma sample_listed: "0 < x \<Longrightarrow> dict_to_amounts [(sample_key, x)] = Inr [sample_usage x]"
proof -
  assume x: "0 < x"
  have "map_ok [(sample_key, x)]"
    using x by (auto simp: map_ok_def keys_ok_def dict_ok_def amount_of_def key_ok_def sample_key_def budget_strings dims_ok_def
        split: if_splits)
  then show ?thesis using x
    by (simp add: dict_to_amounts_eq listed_def listed_amount_def amount_of_def sample_key_def sample_usage_def)
qed

definition sample_account :: "string \<Rightarrow> string option \<Rightarrow> rat \<Rightarrow> int \<Rightarrow> budget_account" where
  "sample_account b parent x n = \<lparr>account_id = b, scope = sample_ref, allocated = [sample_usage x], parent_budget_id = parent,
     account_status = Active, policy_ref = ''policy'', revision = n\<rparr>"

definition sample_root :: budget_ledger where
  "sample_root = \<lparr>accounts = [(''root'', sample_account ''root'' None 100 1)], allocated_of = [(''root'', [(sample_key, 100)])],
     reserved_of = [(''root'', [])], committed_of = [(''root'', [])], overdraft_of = [(''root'', [])],
     reservations = [], reservation_holds = [], permits = [], permit_spent = [],
     completion_reserves = [], completion_reserve_holds = [], reservation_counter = 0, fencing_counter = 0\<rparr>"

definition sample_team :: budget_ledger where
  "sample_team = sample_root\<lparr>accounts := accounts sample_root @ [(''team'', sample_account ''team'' (Some ''root'') 40 1)],
     allocated_of := allocated_of sample_root @ [(''team'', [(sample_key, 40)])],
     reserved_of := reserved_of sample_root @ [(''team'', [])], committed_of := committed_of sample_root @ [(''team'', [])],
     overdraft_of := overdraft_of sample_root @ [(''team'', [])]\<rparr>"

definition sample_reservation :: budget_reservation where
  "sample_reservation = \<lparr>reservation_id = ''reservation-000001'', reservation_budget = ''team'', reservation_owner = sample_ref,
     reservation_amounts = [sample_usage 10], purpose = Task, reservation_expires_at = ''later'', reservation_token = 1,
     reservation_status = Reserved\<rparr>"

definition sample_reserved :: budget_ledger where
  "sample_reserved = sample_team\<lparr>accounts := [(''root'', sample_account ''root'' None 100 2), (''team'', sample_account ''team'' (Some ''root'') 40 2)],
     reserved_of := [(''root'', [(sample_key, 10)]), (''team'', [(sample_key, 10)])],
     reservations := [(''reservation-000001'', sample_reservation)],
     reservation_holds := [(''reservation-000001'', [''team'', ''root''])],
     reservation_counter := 1, fencing_counter := 1\<rparr>"

definition allocate_root :: budget_call where
  "allocate_root = Allocate (PyStr ''root'') (Some sample_ref) (sample_arg 100) (PyStr ''policy'') PyNone"

definition allocate_team :: budget_call where
  "allocate_team = Allocate (PyStr ''team'') (Some sample_ref) (sample_arg 40) (PyStr ''policy'') (PyStr ''root'')"

definition reserve_team :: budget_call where
  "reserve_team = Reserve (PyStr ''team'') (Some sample_ref) (sample_arg 10) (PyStr ''task'') (PyStr ''later'') PyNone"

lemma sample_validate: "validate_usage_amounts (sample_arg x) = Inr [sample_usage x]"
  by (simp add: validate_usage_amounts_def sample_arg_def)

lemma sample_to_dict: "0 < x \<Longrightarrow> dec_fix x = x \<Longrightarrow> amounts_to_dict (sample_arg x) = Inr [(sample_key, x)]"
  by (simp add: amounts_to_dict_def sample_validate sample_sum)

lemma bind_py_weak_cong: "bind_py m f s = bind_py m f s"
  by (rule refl)

lemmas for_py_run = for_py.simps [THEN fun_cong]

lemma dict_to_amounts_Nil: "dict_to_amounts [] = Inr []"
  by (simp add: dict_to_amounts_def)

lemmas ledger_methods =
  no_result_def [THEN fun_cong] allocate_def [THEN fun_cong] reserve_def [THEN fun_cong] budget_chain_def [THEN fun_cong]
  ensure_accounts_active_def [THEN fun_cong] check_available_def [THEN fun_cong] balance_def [THEN fun_cong]
  next_revisions_def [THEN fun_cong] hold_amounts_def [THEN fun_cong] set_revision_def [THEN fun_cong] get_item_def [THEN fun_cong]
  ledger_exec_def commit_def [THEN fun_cong] open_reservation_def [THEN fun_cong] held_budgets_def [THEN fun_cong]
  settle_unused_def [THEN fun_cong] settle_actual_def [THEN fun_cong] drop_reserved_def [THEN fun_cong]
  settle_reservation_def [THEN fun_cong] release_reservation_def [THEN fun_cong] expire_reservation_def [THEN fun_cong] free_amounts_def [THEN fun_cong]
  issue_permit_def [THEN fun_cong] collect_reservation_def [THEN fun_cong] permit_for_reservation_def [THEN fun_cong]
  ensure_permit_not_expired_def [THEN fun_cong] ensure_permit_allows_additional_def [THEN fun_cong] commit_under_permit_def [THEN fun_cong]
  commit_with_permit_def [THEN fun_cong] create_completion_reserve_def [THEN fun_cong] completion_reserve_of_def [THEN fun_cong]
  reserve_held_budgets_def [THEN fun_cong] spend_completion_reserve_def [THEN fun_cong]

lemmas sample_eval = py_run for_py_run ledger_methods Let_def validate_resource_ref_def budget_optional_string_def sample_validate
  sample_to_dict budget_strings sample_sum sample_listed dict_to_amounts_Nil increment_budget_counter_def item_def py_get_def
  available_amounts_def amount_of_def dec_sub_def dec_add_def add_amount_def sub_amount_def numeric_record_suffix_def
  fmt_06d_digit

lemma run_root: "ledger_exec p allocate_root empty_ledger = sample_root"
  by (simp add: sample_eval allocate_root_def empty_ledger_def sample_root_def sample_account_def
      cong: bind_run_cong bind_py_weak_cong)

lemma run_team: "ledger_exec p allocate_team sample_root = sample_team"
  by (simp add: sample_eval allocate_team_def sample_team_def sample_root_def sample_account_def
      cong: bind_run_cong bind_py_weak_cong)

lemma run_reserve: "reserve (PyStr ''team'') (Some sample_ref) (sample_arg 10) (PyStr ''task'') (PyStr ''later'') PyNone sample_team = (Inr sample_reservation, sample_reserved)"
  by (simp add: sample_eval sample_team_def sample_root_def sample_account_def sample_reserved_def sample_reservation_def
      starts_with_def remove_prefix_def is_ascii_decimal_def is_digit_def int_of_decimal_def
      cong: bind_run_cong bind_py_weak_cong)

lemmas sample_congs = bind_run_cong bind_py_weak_cong
lemmas sample_ledgers = sample_team_def sample_root_def sample_account_def sample_reserved_def sample_reservation_def empty_ledger_def
lemmas sample_suffix = starts_with_def remove_prefix_def is_ascii_decimal_def is_digit_def int_of_decimal_def

definition sample_released :: budget_ledger where
  "sample_released = sample_reserved\<lparr>accounts := [(''root'', sample_account ''root'' None 100 3), (''team'', sample_account ''team'' (Some ''root'') 40 3)],
     reserved_of := [(''root'', []), (''team'', [])],
     reservations := [(''reservation-000001'', sample_reservation\<lparr>reservation_status := Released\<rparr>)]\<rparr>"

lemma run_release: "\<exists>s. release_reservation (PyStr ''reservation-000001'') sample_reserved = (Inr s, sample_released)"
  by (simp add: sample_eval sample_ledgers sample_released_def cong: sample_congs)

definition sample_permit_rec :: budget_permit where
  "sample_permit_rec = \<lparr>permit_id = ''permit'', reservation_refs = [''reservation-000001''], permit_owner = sample_ref,
     atomic_unit = sample_ref, admission_epoch = 0, authorized_amounts = [sample_usage 10], continuation_profile = ''default'',
     policy_snapshot_digest = ''default'', permit_expires_at = ''2030-01-01T00:00:00Z'', low_watermark = [],
     fencing_tokens = [(''team'', 1), (''root'', 1)]\<rparr>"

definition sample_permitted :: budget_ledger where
  "sample_permitted = sample_reserved\<lparr>permits := [(''permit'', sample_permit_rec)], permit_spent := [(''permit'', [])]\<rparr>"

definition issue_sample :: budget_call where
  "issue_sample = IssuePermit (PyStr ''permit'') (PyList [PyStr ''reservation-000001'']) (Some sample_ref) (Some sample_ref) (PyInt 0)
     (PyStr ''default'') (PyStr ''default'') (PyStr ''2030-01-01T00:00:00Z'') None"

lemma sample_parse: "parse_budget_permit_datetime sample_time (PyStr ''2030-01-01T00:00:00Z'') = Inr 2030"
  "parse_budget_permit_datetime sample_time (PyStr ''2026-01-01T00:00:00Z'') = Inr 2020"
  by code_simp+

lemma run_issue: "ledger_exec sample_time issue_sample sample_reserved = sample_permitted"
  by (simp add: sample_eval sample_ledgers sample_permitted_def issue_sample_def sample_permit_rec_def mk_budget_permit_def
      sample_parse permit_allows_def check_fencing_tokens_def sum_amounts_def [of "[]"] validate_usage_amounts_def [of "Some []"]
      budget_strings [unfolded string_ok_def]
      cong: sample_congs)

definition commit_sample :: budget_call where
  "commit_sample = CommitWithPermit (PyStr ''permit'') (PyStr ''reservation-000001'') (sample_arg 8) (PyStr ''2026-01-01T00:00:00Z'') NoLimit"

lemma run_commit: "\<exists>s l'. commit_with_permit sample_time (PyStr ''permit'') (PyStr ''reservation-000001'') (sample_arg 8)
    (PyStr ''2026-01-01T00:00:00Z'') NoLimit sample_permitted = (Inr s, l') \<and> permits l' = permits sample_permitted"
  by (simp add: sample_eval sample_ledgers sample_permitted_def sample_permit_rec_def is_active_at_def sample_parse
      overdraft_amounts_def amounts_to_dict_def [of "Some []"] validate_usage_amounts_def [of "Some []"] sum_amounts_def [of "[]"]
      check_overdraft_limit_def spend_amount_def
      cong: sample_congs)

definition create_sample :: budget_call where
  "create_sample = CreateReserve (PyStr ''finish'') (PyStr ''team'') (PyStr ''finalization'') (sample_arg 5) (PyList [PyStr ''closer'']) PyNone"

lemma run_create: "\<exists>l'. ledger_exec p create_sample sample_team = l' \<and> 
   (\<exists>r l''. spend_completion_reserve (PyStr ''finish'') (PyStr ''closer'') (PyStr ''later'') l' = (Inr r, l''))"
  by (simp add: sample_eval sample_ledgers create_sample_def mk_completion_reserve_def
      cong: sample_congs)

lemma call_ok_sample: "0 \<le> x \<Longrightarrow> call_amounts c = sample_arg x \<Longrightarrow> call_ok c"
  by (simp add: call_ok_def sample_arg_ok)

lemma small_nat: "n \<le> 100 \<Longrightarrow> small 0 (of_nat n)"
  using of_nat_le_iff [of n 100, where 'a = rat] by (simp add: small_def dec_grid_def)

lemma small_samples: "small 0 100" "small 0 40" "small 0 10" "small 0 8" "small 0 5"
  using small_nat [of 100] small_nat [of 40] small_nat [of 10] small_nat [of 8] small_nat [of 5] by simp_all

lemma sample_within: "0 < x \<Longrightarrow> small 0 x \<Longrightarrow> call_amounts c = sample_arg x \<Longrightarrow> call_within 0 c"
  by (simp add: call_within_def sample_to_dict small_fix amounts_small_def amount_of_def)

lemma sample_small: "ledger_small 0 empty_ledger" "ledger_small 0 sample_root" "ledger_small 0 sample_team" "ledger_small 0 sample_reserved"
  by (simp_all add: ledger_small_def sample_ledgers book_def amount_of_def amounts_small_def small_samples sample_sum small_fix)

lemma sample_call: "exact_run p 0 l \<Longrightarrow> ledger_small 0 l \<Longrightarrow> call_amounts c = sample_arg x \<Longrightarrow> 0 < x \<Longrightarrow> small 0 x \<Longrightarrow>
   exact_run p 0 (ledger_exec p c l)"
  by (rule exact_run.step) (simp_all add: call_ok_sample [of x] sample_within)

lemma exact_root: "exact_run p 0 sample_root"
  using sample_call [OF exact_run.init sample_small(1), of allocate_root 100] run_root
  by (simp add: allocate_root_def small_samples)

lemma exact_team: "exact_run p 0 sample_team"
  using sample_call [OF exact_root sample_small(2), of allocate_team 40] run_team
  by (simp add: allocate_team_def small_samples)

lemma run_reserve_call: "ledger_exec p reserve_team sample_team = sample_reserved"
  by (simp add: reserve_team_def ledger_exec_def no_result_def bind_Inr run_reserve return_py_def)

lemma exact_reserved: "exact_run p 0 sample_reserved"
  using sample_call [OF exact_team sample_small(3), of reserve_team 10] run_reserve_call
  by (simp add: reserve_team_def small_samples)

text \<open>Amounts at the precision of the decimal context.\<close>

definition big :: rat where "big = 10 ^ 28"

lemma big_pos: "0 < big" "\<not> big \<le> 0" "\<not> big * 2 < 1" by (simp_all add: big_def)

lemma dec_big: "dec_fix big = big" "dec_fix (1 / 2) = 1 / 2" "dec_fix (big - 1 / 2) = big" "dec_fix (1 / 2 + big) = big"
proof -
  have "sig_exp 10 big = 28" "sig_exp 10 (big - 1 / 2) = 27" "sig_exp 10 (big + 1 / 2) = 28"
    by (rule sig_exp_eq; simp add: big_def power_int_def)+
  then show "dec_fix big = big" "dec_fix (big - 1 / 2) = big" "dec_fix (1 / 2 + big) = big"
    using floor_unique [of 9999999999999999999999999999 "19999999999999999999999999999 / 2 :: rat"]
      floor_unique [of 1000000000000000000000000000 "20000000000000000000000000001 / 20 :: rat"]
    by (simp_all add: dec_fix_def round_sig_def round_unit_def big_def round_half_even_def Let_def)
  have "dec_grid 1 (1 / 2)" unfolding dec_grid_def by simp
  then show "dec_fix (1 / 2) = 1 / 2" by (intro dec_fix_exact [of 1]) (simp add: dec_exact_def)
qed


definition big_root :: budget_ledger where
  "big_root = sample_root\<lparr>accounts := [(''root'', sample_account ''root'' None big 1)], allocated_of := [(''root'', [(sample_key, big)])]\<rparr>"

definition big_open :: "rat \<Rightarrow> string \<Rightarrow> int \<Rightarrow> budget_reservation" where
  "big_open x i n = \<lparr>reservation_id = i, reservation_budget = ''root'', reservation_owner = sample_ref,
     reservation_amounts = [sample_usage x], purpose = Task, reservation_expires_at = ''later'', reservation_token = n,
     reservation_status = Reserved\<rparr>"

definition big_half :: budget_ledger where
  "big_half = big_root\<lparr>accounts := [(''root'', sample_account ''root'' None big 2)],
     reserved_of := [(''root'', [(sample_key, 1 / 2)])],
     reservations := [(''reservation-000001'', big_open (1 / 2) ''reservation-000001'' 1)],
     reservation_holds := [(''reservation-000001'', [''root''])], reservation_counter := 1, fencing_counter := 1\<rparr>"

definition big_over :: budget_ledger where
  "big_over = big_half\<lparr>accounts := [(''root'', sample_account ''root'' None big 3)],
     reserved_of := [(''root'', [(sample_key, big)])],
     reservations := reservations big_half @ [(''reservation-000002'', big_open big ''reservation-000002'' 2)],
     reservation_holds := reservation_holds big_half @ [(''reservation-000002'', [''root''])], reservation_counter := 2, fencing_counter := 2\<rparr>"

lemmas big_ledgers = big_root_def big_half_def big_over_def big_open_def sample_root_def sample_account_def empty_ledger_def

lemma run_big: "ledger_exec p (Allocate (PyStr ''root'') (Some sample_ref) (sample_arg big) (PyStr ''policy'') PyNone) empty_ledger = big_root"
  by (simp add: sample_eval big_ledgers dec_big big_pos cong: sample_congs)

lemma run_half: "ledger_exec p (Reserve (PyStr ''root'') (Some sample_ref) (sample_arg (1 / 2)) (PyStr ''task'') (PyStr ''later'') PyNone) big_root = big_half"
  by (simp add: sample_eval big_ledgers sample_suffix dec_big big_pos cong: sample_congs)

lemma run_over: "ledger_exec p (Reserve (PyStr ''root'') (Some sample_ref) (sample_arg big) (PyStr ''task'') (PyStr ''later'') PyNone) big_half = big_over"
  by (simp add: sample_eval big_ledgers sample_suffix dec_big big_pos cong: sample_congs)

end
