(* ===== verification/Budget_Props.thy ===== *)
theory Budget_Props
  imports Budget_Samples
begin

text \<open>
  What the ledger promises: budgets are not overcommitted, settled reservations are final,
  permits bound what is spent under them, calls are atomic, and the hierarchy is walked to
  its root.
\<close>

section \<open>Reachable ledgers\<close>

lemma reached_ok: "ledger_reached parse_iso l \<Longrightarrow> ledger_ok l"
  by (induction rule: ledger_reached.induct) (auto intro: ledger_ok_empty ledger_ok_exec)

fun parent_path :: "(string, budget_account) dict \<Rightarrow> string option \<Rightarrow> string list \<Rightarrow> bool" where
  "parent_path accts x [] \<longleftrightarrow> x = None"
| "parent_path accts x (b # bs) \<longleftrightarrow>
     x = Some b \<and> (case map_of accts b of None \<Rightarrow> False | Some a \<Rightarrow> parent_path accts (parent_budget_id a) bs)"

lemma chain_path:
  "budget_chain_from accts chain x = Inr c \<Longrightarrow> \<exists>bs. c = chain @ bs \<and> parent_path accts x bs"
proof (induction accts chain x rule: budget_chain_from.induct)
  case (2 accts chain b)
  then obtain a where a: "b \<notin> set chain" "map_of accts b = Some a"
    "budget_chain_from accts (chain @ [b]) (parent_budget_id a) = Inr c"
    by (auto split: if_splits option.splits)
  then obtain bs where "c = (chain @ [b]) @ bs" "parent_path accts (parent_budget_id a) bs" using "2.IH" [OF a(1,2,3)] by blast
  then show ?case using a(2) by (intro exI [of _ "b # bs"]) simp
qed simp

section \<open>Running a reservation\<close>

lemma for_check:
  "(\<And>x. x \<in> set xs \<Longrightarrow> f x s = (if P x then Inl e else Inr (), s)) \<Longrightarrow>
     for_py xs f s = (if \<exists>x \<in> set xs. P x then Inl e else Inr (), s)"
  by (induction xs) (auto simp: bind_py_def return_py_def)

lemma check_available_run:
  assumes l: "ledger_ok l" and held: "chain_of (accounts l) b held"
    and pos: "\<And>h k. h \<in> set held \<Longrightarrow> 0 \<le> book (reserved_of l) h k"
  shows "check_available req held l =
    (if \<exists>h \<in> set held. \<exists>p \<in> set req. max 0 (remaining l h (fst p)) < snd p then Inl BudgetExceededError else Inr (), l)"
  unfolding check_available_def
proof (rule for_check)
  fix h assume h: "h \<in> set held"
  obtain acc where acc: "map_of (accounts l) h = Some acc" using chain_ofD(3) [OF held h] by blast
  obtain a r c d where ok: "map_of (allocated_of l) h = Some a" "map_of (reserved_of l) h = Some r"
    "map_of (committed_of l) h = Some c" "map_of (overdraft_of l) h = Some d" "map_ok a" "keys_ok r" "map_ok c" "map_ok d"
    using books_okD [OF ledger_okD(2) [OF l] acc] by (elim exE conjE) (rule that)
  have "map_ok r" using ok(2,6) pos [OF h] by (simp add: map_ok_def book_def)
  then obtain bal where bal: "balance (PyStr h) l = (Inr bal, l)"
    using balance_run [OF acc ok] dict_to_amounts_eq [of r] by simp
  have "for_py req (\<lambda>(k, x). raise_if (amount_of (sum_amounts (balance_available bal)) k < x) BudgetExceededError) l =
      (if \<exists>p \<in> set req. max 0 (remaining l h (fst p)) < snd p then Inl BudgetExceededError else Inr (), l)"
    by (rule for_check) (auto simp: raise_if_def balance_Inr [OF l bal])
  then show "bind_py (balance (PyStr h)) (\<lambda>bal. let available = sum_amounts (balance_available bal) in
      for_py req (\<lambda>(k, x). raise_if (amount_of available k < x) BudgetExceededError)) l =
      (if \<exists>p \<in> set req. max 0 (remaining l h (fst p)) < snd p then Inl BudgetExceededError else Inr (), l)"
    by (simp add: bind_Inr bal Let_def)
qed

lemma ensure_active_run:
  assumes "\<And>h. h \<in> set held \<Longrightarrow> \<exists>a. map_of (accounts l) h = Some a \<and> account_status a = Active"
  shows "ensure_accounts_active held l = (Inr (), l)"
proof -
  have "ensure_accounts_active held l = (if \<exists>h \<in> set held. False then Inl BudgetNotFoundError else Inr (), l)"
    unfolding ensure_accounts_active_def using assms by (intro for_check) (fastforce simp: py_run)
  then show ?thesis by simp
qed

lemma next_revisions_run:
  assumes "\<And>h. h \<in> set held \<Longrightarrow> \<exists>a. map_of (accounts l) h = Some a \<and> revision a < MAX_BUDGET_COUNTER"
  shows "\<exists>revs. next_revisions held l = (Inr revs, l)"
proof -
  have "\<exists>revs. for_acc held acc (\<lambda>h revs.
       bind_py (get_item accounts h) (\<lambda>account.
       bind_py (lift_py (increment_budget_counter (revision account))) (\<lambda>n.
       return_py (dict_set h n revs)))) l = (Inr revs, l)" for acc
    using assms
  proof (induction held arbitrary: acc)
    case (Cons h held)
    obtain a where a: "map_of (accounts l) h = Some a" "revision a < MAX_BUDGET_COUNTER" using Cons.prems by auto
    have "bind_py (get_item accounts h) (\<lambda>account.
       bind_py (lift_py (increment_budget_counter (revision account))) (\<lambda>n.
       return_py (dict_set h n acc))) l = (Inr (dict_set h (revision a + 1) acc), l)"
      using a by (simp add: py_run increment_budget_counter_def)
    then show ?case using Cons.IH Cons.prems by (simp add: bind_Inr)
  qed (simp add: return_py_def)
  then show ?thesis unfolding next_revisions_def by blast
qed

lemma generated_suffix: "0 \<le> n \<Longrightarrow> numeric_record_suffix (''reservation-'' @ fmt_06d n) ''reservation-'' = n"
  using fmt_06d_decimal [of n] by (simp only: numeric_record_suffix_def Let_def starts_with_append remove_prefix_append) simp

lemma reserve_returns:
  assumes l: "ledger_ok l" and arg: "arg_ok am" "validate_usage_amounts am = Inr us"
    and strs: "string_ok b" "string_ok ex" "reservation_purpose_arg purpose_v = Inr purp"
    and held: "chain_of (accounts l) b held" and act: "\<And>h. h \<in> set held \<Longrightarrow> \<exists>a. map_of (accounts l) h = Some a \<and> account_status a = Active"
    and rev: "\<And>h. h \<in> set held \<Longrightarrow> \<exists>a. map_of (accounts l) h = Some a \<and> revision a < MAX_BUDGET_COUNTER"
    and count: "reservation_counter l < MAX_BUDGET_COUNTER" "fencing_counter l < MAX_BUDGET_COUNTER"
    and new: "map_of (reservations l) (''reservation-'' @ fmt_06d (reservation_counter l + 1)) = None"
    and avail: "check_available (sum_amounts us) held l = (Inr (), l)"
  shows "\<exists>r l'. reserve (PyStr b) (Some own) am purpose_v (PyStr ex) PyNone l = (Inr r, l')"
proof -
  obtain a where a: "map_of (accounts l) b = Some a" using chain_ofD(2,3) [OF held] by blast
  have chain: "budget_chain b l = (Inr held, l)" using held by (simp add: budget_chain_def py_run chain_of_def)
  obtain revs where revs: "next_revisions held l = (Inr revs, l)" using next_revisions_run [OF rev] by blast
  note d = chain_ofD(1) [OF held] revisions_Inr [OF revs] reserved_dom [OF l held]
  let ?n = "reservation_counter l + 1"
  have n: "0 \<le> ?n" using ok_dicts [OF l] by simp
  let ?rid = "''reservation-'' @ fmt_06d ?n"
  let ?l = "l\<lparr>reservation_counter := ?n, fencing_counter := fencing_counter l + 1\<rparr>"
  have hold: "hold_amounts (sum_amounts us) revs held ?l = (Inr (), post held (add_all (sum_amounts us)) (\<lambda>d. d) (\<lambda>d. d) ?l)"
    using d by (intro hold_amounts_run) (auto simp: revs_ok_def)
  have sfx: "numeric_record_suffix ?rid ''reservation-'' = ?n" by (rule generated_suffix [OF n])
  have inc: "increment_budget_counter (reservation_counter l) = Inr ?n"
    "increment_budget_counter (fencing_counter l) = Inr (fencing_counter l + 1)" using count by (simp_all add: increment_budget_counter_def)
  show ?thesis
    unfolding reserve_def Let_def
    using strs arg(2) a new n count
    by (simp del: append_Cons append.simps add: bind_Inr lift_py_def gets_py_def modify_py_def raise_if_def return_py_def
        validate_resource_ref_def budget_optional_string_def chain ensure_active_run [OF act] avail inc revs sfx hold
        listed_sum [OF arg] max_def)
qed

lemma exact_run_reached: "exact_run parse_iso q l \<Longrightarrow> ledger_reached parse_iso l"
  by (induction rule: exact_run.induct) (auto intro: ledger_reached.intros)

lemma exact_nonneg:
  assumes "exact_run parse_iso q l" "map_of (accounts l) b = Some a"
  shows "0 \<le> book (reserved_of l) b k"
proof -
  have l: "ledger_ok l" "exact_ok l" using exact_run_ok [OF assms(1)] by auto
  have "0 \<le> open_total l b k"
    unfolding open_total_def
  proof (intro add_nonneg_nonneg dict_sum_nonneg)
    fix rid r assume "(rid, r) \<in> set (reservations l)"
    then have "reservation_ok l rid r" using ok_dicts [OF l(1)] by (simp add: dict_mem_iff)
    then show "0 \<le> reservation_weight (reservation_holds l) b k r"
      using map_ok_nonneg [OF map_ok_sum_amounts] by (auto simp: reservation_weight_def reservation_ok_def)
  next
    fix cid c assume "(cid, c) \<in> set (completion_reserves l)"
    then have "completion_ok l cid c" using ok_dicts [OF l(1)] by (simp add: dict_mem_iff)
    then show "0 \<le> reserve_weight (completion_reserve_holds l) b k c"
      using map_ok_nonneg [OF map_ok_sum_amounts] by (auto simp: reserve_weight_def completion_ok_def)
  qed
  then show ?thesis using l(2) assms(2) unfolding exact_ok_def by metis
qed

lemma reserve_budget_of:
  assumes "reserve (PyStr b) owner_v am purpose_v expires_v id_v l = (Inr r, l')"
  shows "reservation_budget r = b"
proof -
  have "wp (reserve (PyStr b) owner_v am purpose_v expires_v id_v) (\<lambda>r _. reservation_budget r = b) (\<lambda>_ _. True) l"
    unfolding reserve_def Let_def
    by (auto simp: wp_def bind_py_def return_py_def lift_py_def budget_string_iff split: prod.splits sum.splits)
  then show ?thesis using assms by (simp add: wp_def)
qed

section \<open>Properties\<close>

text \<open>
  C1: In every run whose amounts fit the decimal context, the reserved and committed totals
  of an account never exceed its allocation plus the overdraft recorded by settlements.
\<close>
theorem budget_never_overcommitted:
  assumes "exact_run parse_iso q l" and "map_of (accounts l) b = Some a"
  shows "book (reserved_of l) b k + book (committed_of l) b k \<le> book (allocated_of l) b k + book (overdraft_of l) b k"
  using exact_run_ok [OF assms(1)] assms(2) unfolding exact_ok_def by blast

text \<open>
  In such a run the reserved total of an account is exactly the sum of the open
  reservations and available completion reserves that hold amounts in it, its own and those
  of its descendants.
\<close>
theorem reserved_is_open_holds:
  assumes "exact_run parse_iso q l" and "map_of (accounts l) b = Some a"
  shows "book (reserved_of l) b k = open_total l b k"
  using exact_run_ok [OF assms(1)] assms(2) unfolding exact_ok_def by blast

text \<open>
  In an exact run, \<^verbatim>\<open>reserve\<close> on a valid request returns if and only if every account from
  the budget to the root is active and has the requested amount left of its allocation.
\<close>
theorem reserve_decision:
  assumes run: "exact_run parse_iso q l" "ledger_small q l" and arg: "arg_ok am" "validate_usage_amounts am = Inr us"
    and strs: "string_ok b" "string_ok ex" "reservation_purpose_arg purpose_v = Inr purp"
    and held: "chain_of (accounts l) b held"
    and rev: "\<And>h. h \<in> set held \<Longrightarrow> \<exists>a. map_of (accounts l) h = Some a \<and> revision a < MAX_BUDGET_COUNTER"
    and count: "reservation_counter l < MAX_BUDGET_COUNTER" "fencing_counter l < MAX_BUDGET_COUNTER"
    and new: "map_of (reservations l) (''reservation-'' @ fmt_06d (reservation_counter l + 1)) = None"
  shows "(\<exists>r. fst (reserve (PyStr b) (Some own) am purpose_v (PyStr ex) PyNone l) = Inr r) \<longleftrightarrow>
    (\<forall>h \<in> set held. (\<exists>a. map_of (accounts l) h = Some a \<and> account_status a = Active) \<and>
      (\<forall>(k, x) \<in> set (sum_amounts us).
        x \<le> book (allocated_of l) h k - book (reserved_of l) h k - book (committed_of l) h k))"
proof -
  have l: "ledger_ok l" using exact_run_ok [OF run(1)] by blast
  have ok: "\<forall>u \<in> set us. usage_ok u" using validate_usage_amounts_ok [OF arg] .
  have rem: "remaining l h k = book (allocated_of l) h k - book (reserved_of l) h k - book (committed_of l) h k" for h k
    unfolding remaining_def using run(2) by (intro small_sub2 [of q]) (auto simp: ledger_small_def)
  have pos: "0 < x" if "(k, x) \<in> set (sum_amounts us)" for k x using sum_amounts_pos [OF ok that] .
  have max: "x \<le> max 0 (remaining l h k) \<longleftrightarrow> x \<le> remaining l h k" if "(k, x) \<in> set (sum_amounts us)" for h k x
    using pos [OF that] by (auto simp: max_def)
  show ?thesis
  proof (rule iffI, goal_cases)
    case 1
    then obtain r l' where run: "reserve (PyStr b) (Some own) am purpose_v (PyStr ex) PyNone l = (Inr r, l')"
      by (metis prod.collapse)
    from wp_result [OF reserve_effect [OF l arg(1)] run] obtain held'
      where h: "holds l (reservation_budget r) held' (sum_amounts us)"
      using validate_to_dict [OF arg(2)] by (auto simp: reserves_def)
    have "reservation_budget r = b" using reserve_budget_of [OF run] .
    then have "held' = held" using h held by (simp add: holds_def chain_of_def)
    then show ?case using h max rem by (fastforce simp: holds_def)
  next
    case 2
    have nn: "0 \<le> book (reserved_of l) h k" if "h \<in> set held" for h k
      using exact_nonneg [OF run(1)] chain_ofD(3) [OF held that] by blast
    have "check_available (sum_amounts us) held l = (Inr (), l)"
      using 2 max rem by (simp add: check_available_run [OF l held nn]) (fastforce simp: not_less)
    then show ?case using reserve_returns [OF l arg strs held _ rev count new] 2 by (metis fst_conv)
  qed
qed

lemma effect_cases:
  assumes "ledger_ok l"
  shows "ledger_effect parse_iso c l = l \<or> (\<exists>req. ledger_step req l (ledger_effect parse_iso c l))"
  using exec_refines [OF assms] by (auto simp: ledger_effect_def)

lemma settled_stays:
  "ledger_ok l \<Longrightarrow> map_of (reservations l) rid = Some r \<Longrightarrow> reservation_status r \<noteq> Reserved \<Longrightarrow>
     map_of (reservations (fold (ledger_effect parse_iso) cs l)) rid = Some r"
proof (induction cs arbitrary: l)
  case (Cons c cs)
  have "map_of (reservations (ledger_effect parse_iso c l)) rid = Some r"
    using effect_cases [OF Cons.prems(1), of parse_iso c] step_frame(3) [OF _ Cons.prems] Cons.prems(2) by fastforce
  then show ?case using Cons.IH [OF ledger.inv_call [OF Cons.prems(1)]] Cons.prems(3) by simp
qed simp

lemma open_settled: "map_of (reservations l) rid = Some r \<Longrightarrow> reservation_status r \<noteq> Reserved \<Longrightarrow>
   open_reservation (PyStr rid) l = (Inl BudgetReservationStateError, l)"
  by (simp add: open_reservation_def py_run py_get_def)

lemma bind_Inl: "m s = (Inl e, t) \<Longrightarrow> bind_py m f s = (Inl e, t)"
  by (simp add: bind_py_def)

text \<open>
  A committed, released or expired reservation is final: after any calls the ledger still
  holds the same record, and settling it again raises \<^verbatim>\<open>BudgetReservationStateError\<close> and
  changes nothing.
\<close>
theorem settled_reservation_final:
  assumes "ledger_reached parse_iso l" and "map_of (reservations l) rid = Some r" and "reservation_status r \<noteq> Reserved"
    and l': "l' = fold (ledger_effect parse_iso) cs l"
  shows "map_of (reservations l') rid = Some r \<and>
    commit (PyStr rid) am limit l' = (Inl BudgetReservationStateError, l') \<and>
    release_reservation (PyStr rid) l' = (Inl BudgetReservationStateError, l') \<and>
    expire_reservation (PyStr rid) l' = (Inl BudgetReservationStateError, l')"
proof -
  have r: "map_of (reservations l') rid = Some r"
    unfolding l' by (rule settled_stays [OF reached_ok [OF assms(1)] assms(2,3)])
  note op = open_settled [OF r assms(3)]
  show ?thesis
    by (simp add: r commit_def release_reservation_def expire_reservation_def settle_reservation_def bind_Inl op)
qed


text \<open>
  Every call is atomic: one that raises leaves the ledger as it was.
\<close>
theorem ledger_calls_atomic:
  assumes "ledger_reached parse_iso l" and "call_ok c" and "ledger_call parse_iso c l = (Inl e, l')"
  shows "l' = l"
  using wp_error [OF call_refines [OF reached_ok [OF assms(1)] assms(2)] assms(3)] .

text \<open>
  C35: The account hierarchy of a reachable ledger has no cycle: the walk from an account
  returns the path of its ancestors, each the parent of the one before it, up to a root.
\<close>
theorem budget_chain_reaches_root:
  assumes "ledger_reached parse_iso l" and "map_of (accounts l) b = Some a"
  shows "\<exists>held. budget_chain b l = (Inr held, l) \<and> distinct held \<and> parent_path (accounts l) (Some b) held"
proof -
  obtain held where h: "budget_chain_from (accounts l) [] (Some b) = Inr held" "chain_of (accounts l) b held"
    using chain_exists [OF ledger_okD(1) [OF reached_ok [OF assms(1)]] assms(2)] by blast
  then show ?thesis using chain_ofD(1) [OF h(2)] chain_path [OF h(1)] by (auto simp: budget_chain_def py_run)
qed


text \<open>
  Fencing tokens grow: a token that appears in the ledger after some calls is greater
  than every token that was in it before.
\<close>
theorem budget_tokens_increase:
  assumes "ledger_reached parse_iso l" and "old \<in> ledger_tokens l"
    and "new \<in> ledger_tokens (fold (ledger_effect parse_iso) cs l)" and "new \<notin> ledger_tokens l"
  shows "old < new"
  by (rule ledger_fence.later_token_greater [OF reached_ok [OF assms(1)] assms(2,3,4)])

lemma dec_fix_sum: "dec_fix (amount_of (sum_amounts us) k) = amount_of (sum_amounts us) k"
proof -
  have "dec_fix (fold (\<lambda>a s. dec_add s (usage_value a)) as x) = fold (\<lambda>a s. dec_add s (usage_value a)) as x"
    if "dec_fix x = x" for as x using that by (induction as arbitrary: x) (auto simp: dec_add_def)
  from this [OF dec_fix_0] show ?thesis unfolding amount_of_sum_amounts .
qed

text \<open>
  Listing the dictionary read from a collection of amounts and reading the list back
  gives the same total for every kind, unit and dimensions.
\<close>
theorem amounts_roundtrip:
  assumes "arg_ok v" and "amounts_to_dict v = Inr d"
  shows "\<exists>us d'. dict_to_amounts d = Inr us \<and> amounts_to_dict (Some (map Some us)) = Inr d' \<and> amount_of d' = amount_of d"
proof -
  have d: "map_ok d" using amounts_to_dict_ok [OF assms] by blast
  obtain us where us: "d = sum_amounts us" using assms(2) by (auto simp: amounts_to_dict_def bind_sum_Inr_iff)
  have "dec_fix (amount_of d k) = amount_of d k" for k unfolding us by (rule dec_fix_sum)
  then have "amount_of (sum_amounts (listed d)) = amount_of d" by (simp add: fun_eq_iff amount_of_listed [OF d])
  moreover have "amounts_to_dict (Some (map Some (listed d))) = Inr (sum_amounts (listed d))"
    by (auto simp: amounts_to_dict_def validate_usage_amounts_def comp_def)
  ultimately show ?thesis using dict_to_amounts_eq [OF d] by blast
qed

text \<open>
  Reserving and releasing again restores every total of an exact ledger; only counters,
  revisions and the record of the released reservation remain.
\<close>
theorem reserve_release_roundtrip:
  assumes run: "exact_run parse_iso q l" "ledger_small q l" and arg: "arg_ok am" "amounts_to_dict am = Inr req" "amounts_small q req"
    and res: "reserve budget_v owner_v am purpose_v expires_v id_v l = (Inr r, l1)"
    and rel: "release_reservation (PyStr (reservation_id r)) l1 = (Inr s, l2)"
  shows "book (reserved_of l2) b k = book (reserved_of l) b k \<and>
    allocated_of l2 = allocated_of l \<and> committed_of l2 = committed_of l \<and> overdraft_of l2 = overdraft_of l"
proof -
  have l: "ledger_ok l" using exact_run_ok [OF run(1)] by blast
  have r: "reserves l req r l1" using wp_result [OF reserve_effect [OF l arg(1)] res] arg(2) by auto
  have l1: "ledger_ok l1" by (rule reserves_ok [OF l r])
  obtain held rc where h: "holds l (reservation_budget r) held req" and am: "reservation_amounts r = listed req"
    and l1_def: "l1 = (post held (add_all req) (\<lambda>d. d) (\<lambda>d. d) l)
         \<lparr>reservation_counter := rc, fencing_counter := fencing_counter l + 1,
          reservations := dict_set (reservation_id r) r (reservations l),
          reservation_holds := dict_set (reservation_id r) held (reservation_holds l)\<rparr>"
    using r unfolding reserves_def by (elim exE conjE) (rule that; assumption)
  obtain r' held' where f: "frees l1 Released (reservation_id r) r' held' l2"
    using wp_result [OF settle_effect [OF l1] rel [unfolded release_reservation_def]] by auto
  then have eq: "r' = r" "held' = held" by (auto simp: frees_def open_in_def l1_def)
  have l2_def: "l2 = (post held (sub_all (sum_amounts (listed req))) (\<lambda>d. d) (\<lambda>d. d) l1)
       \<lparr>reservations := dict_set (reservation_id r) (r\<lparr>reservation_status := Released\<rparr>) (reservations l1)\<rparr>"
    using f am by (simp add: frees_def eq)
  have rest: "allocated_of l2 = allocated_of l" "committed_of l2 = committed_of l" "overdraft_of l2 = overdraft_of l"
    by (simp_all add: l2_def l1_def)
  have d: "distinct held" using chain_ofD(1) h by (auto simp: holds_def)
  have ok: "map_ok req" "map_ok (sum_amounts (listed req))" using h map_ok_sum_amounts [OF listed_ok] by (auto simp: holds_def)
  have key: "map_of (sum_amounts (listed req)) k = None \<or> map_of (sum_amounts (listed req)) k = Some (amount_of req k)"
    using listed_small [OF ok(1) arg(3), of k] by (auto simp: amount_of_def split: option.splits)
  have "book (reserved_of l2) b k = book (reserved_of l) b k"
  proof (cases "map_of (reserved_of l) b")
    case (Some m)
    have sm: "small q (book (reserved_of l) b k)" "small q (amount_of req k)"
      using run(2) arg(3) by (auto simp: ledger_small_def amounts_small_def)
    have l1b: "book (reserved_of l1) b k = book (reserved_of l) b k + (if b \<in> set held then amount_of req k else 0)"
      using book_add [OF d Some dict_ok_map [OF ok(1)] sm(2,1)] by (simp add: l1_def)
    have zero: "amount_of req k = 0" if "map_of (sum_amounts (listed req)) k = None"
      using listed_small [OF ok(1) arg(3), of k] that by (simp add: amount_of_def [of "sum_amounts (listed req)"])
    have m1: "map_of (reserved_of l1) b = Some (if b \<in> set held then add_all req m else m)" using Some d by (simp add: l1_def)
    have "book (reserved_of l2) b k = (if b \<in> set held then
        (case map_of (sum_amounts (listed req)) k of None \<Rightarrow> book (reserved_of l1) b k
         | Some x \<Rightarrow> dec_sub (book (reserved_of l1) b k) x) else book (reserved_of l1) b k)"
      using m1 d by (cases "map_of (sum_amounts (listed req)) k")
        (simp_all add: l2_def book_def amount_of_sub_all [OF dict_ok_map [OF ok(2)]] split: if_splits)
    then show ?thesis using key zero l1b small_fix [OF sm(1)] by (auto simp: dec_sub_def split: option.splits)
  qed (simp add: l2_def l1_def book_def d)
  then show ?thesis using rest by simp
qed

text \<open>
  A settlement through a permit succeeds only for an open reservation the permit names,
  with fencing tokens at least as new as the reservation's in every account it holds, before
  the permit expires, and within what the permit still authorises.
\<close>
theorem permit_guards_settlement:
  assumes "ledger_reached parse_iso l" and "arg_ok am"
    and "commit_with_permit parse_iso permit_v v am now limit l = (Inr s, l')"
  shows "\<exists>pid p rid r held actual spent.
    permit_v = PyStr pid \<and> v = PyStr rid \<and> map_of (permits l) pid = Some p \<and> rid \<in> set (reservation_refs p) \<and>
    is_active_at parse_iso p now \<and> open_in l rid r held \<and>
    (\<forall>h \<in> set held. \<exists>n. map_of (fencing_tokens p) h = Some n \<and> reservation_token r \<le> n) \<and>
    amounts_to_dict am = Inr actual \<and> map_of (permit_spent l) pid = Some spent \<and>
    (\<forall>(k, x) \<in> set actual. dec_add (amount_of spent k) x \<le> amount_of (sum_amounts (authorized_amounts p)) k) \<and>
    map_of (reservations l') rid = Some (r\<lparr>reservation_status := Committed\<rparr>)"
proof -
  note l = reached_ok [OF assms(1)]
  obtain pid p rid r held actual where e: "permit_v = PyStr pid" "v = PyStr rid" "permits_settlement l pid p rid"
    "is_active_at parse_iso p now" "amounts_to_dict am = Inr actual" "spends l p rid r held actual l'"
    using wp_result [OF commit_with_permit_effect [OF l assms(2)] assms(3)] by (elim exE conjE) (rule that)
  have p: "map_of (permits l) pid = Some p" "rid \<in> set (reservation_refs p)" using e(3) by (auto simp: permits_settlement_def)
  have pid: "permit_id p = pid" using ledger_okD(6) [OF l p(1)] by (simp add: permit_ok_def)
  obtain l1 spent where sp: "commits l rid r held actual l1" "map_of (permit_spent l) pid = Some spent"
    "\<forall>k x. (k, x) \<in> set actual \<longrightarrow> dec_add (amount_of spent k) x \<le> amount_of (sum_amounts (authorized_amounts p)) k"
    "reservations l' = reservations l1"
    using e(6) pid by (auto simp: spends_def)
  have op: "open_in l rid r held" and res: "map_of (reservations l') rid = Some (r\<lparr>reservation_status := Committed\<rparr>)"
    using sp(1,4) by (simp_all add: commits_def Let_def)
  then have "\<forall>h \<in> set held. \<exists>n. map_of (fencing_tokens p) h = Some n \<and> reservation_token r \<le> n"
    using e(3) by (auto simp: permits_settlement_def open_in_def)
  then show ?thesis using e p sp op res by blast
qed

text \<open>
  Spending a completion reserve needs an available reserve and a listed spender; it moves
  the held amounts to a new reservation with the reserve's fencing token, leaves every book
  as it was, and cannot be repeated.
\<close>
theorem completion_reserve_spent_once:
  assumes "ledger_reached parse_iso l" and "spend_completion_reserve reserve_v spender_v expires_v l = (Inr r, l')"
  shows "\<exists>cid c spender. reserve_v = PyStr cid \<and> spender_v = PyStr spender \<and>
    map_of (completion_reserves l) cid = Some c \<and> reserve_status c = Available \<and> spender \<in> spendable_by c \<and>
    reservation_amounts r = reserve_amounts c \<and> reservation_token r = reserve_token c \<and> reservation_status r = Reserved \<and>
    reserved_of l' = reserved_of l \<and> committed_of l' = committed_of l \<and>
    spend_completion_reserve reserve_v spender_v expires_v l' = (Inl BudgetCompletionReserveStateError, l')"
proof -
  have "wp (spend_completion_reserve reserve_v spender_v expires_v)
      (\<lambda>_ _. \<exists>cid spender ex. reserve_v = PyStr cid \<and> string_ok cid \<and> spender_v = PyStr spender \<and> string_ok spender \<and>
        expires_v = PyStr ex \<and> string_ok ex) (\<lambda>_ _. True) l"
    unfolding spend_completion_reserve_def Let_def
    by (intro wp_intros wp_reads) (auto simp: budget_string_iff)
  from wp_result [OF this assms(2)] obtain cid spender ex where
    v: "reserve_v = PyStr cid" "string_ok cid" "spender_v = PyStr spender" "string_ok spender" "expires_v = PyStr ex" "string_ok ex"
    by blast
  obtain c where d: "draws l cid c spender r l'"
    using wp_result [OF spend_reserve_effect [OF reached_ok [OF assms(1)]] assms(2)] v by auto
  then have "map_of (completion_reserves l') cid =
      Some (c\<lparr>reserve_status := Spent, spent_reservation_id := Some (reservation_id r)\<rparr>)" by (auto simp: draws_def)
  then have "completion_reserve_of (PyStr cid) l' =
      (Inr (cid, c\<lparr>reserve_status := Spent, spent_reservation_id := Some (reservation_id r)\<rparr>), l')"
    by (simp add: reserve_of_Inr)
  then have "spend_completion_reserve reserve_v spender_v expires_v l' = (Inl BudgetCompletionReserveStateError, l')"
    using v by (simp add: spend_completion_reserve_def bind_Inr lift_py_def raise_if_def bind_Inl)
  then show ?thesis using d v by (auto simp: draws_def)
qed


section \<open>Witnesses\<close>

theorem budget_never_overcommitted_witness:
  "book (reserved_of sample_reserved) ''team'' sample_key = 10 \<and>
   book (reserved_of sample_reserved) ''team'' sample_key + book (committed_of sample_reserved) ''team'' sample_key
     \<le> book (allocated_of sample_reserved) ''team'' sample_key + book (overdraft_of sample_reserved) ''team'' sample_key"
  using budget_never_overcommitted [OF exact_reserved [of sample_time], of "''team''" _ sample_key]
  by (simp add: sample_ledgers book_def amount_of_def)

theorem reserved_is_open_holds_witness:
  "book (reserved_of sample_reserved) ''root'' sample_key = 10 \<and> open_total sample_reserved ''root'' sample_key = 10"
proof -
  have "map_of (accounts sample_reserved) ''root'' = Some (sample_account ''root'' None 100 2)"
    "book (reserved_of sample_reserved) ''root'' sample_key = 10"
    by (simp_all add: sample_reserved_def book_def amount_of_def)
  then show ?thesis using reserved_is_open_holds [OF exact_reserved [of sample_time], of "''root''" _ sample_key] by simp
qed

lemma sample_chain: "chain_of (accounts sample_team) ''team'' [''team'', ''root'']"
  by (simp add: chain_of_def sample_ledgers budget_chain_from.simps)

theorem reserve_decision_witness:
  "\<exists>r. fst (reserve (PyStr ''team'') (Some sample_ref) (sample_arg 10) (PyStr ''task'') (PyStr ''later'') PyNone sample_team) = Inr r"
proof -
  have e: "amount_of [(sample_key, 10)] sample_key = 10" by (simp add: amount_of_def)
  have "(\<exists>r. fst (reserve (PyStr ''team'') (Some sample_ref) (sample_arg 10) (PyStr ''task'') (PyStr ''later'') PyNone sample_team) = Inr r) \<longleftrightarrow>
    (\<forall>h \<in> set [''team'', ''root'']. (\<exists>a. map_of (accounts sample_team) h = Some a \<and> account_status a = Active) \<and>
      (\<forall>(k, x) \<in> set (sum_amounts [sample_usage 10]).
        x \<le> book (allocated_of sample_team) h k - book (reserved_of sample_team) h k - book (committed_of sample_team) h k))"
    by (rule reserve_decision [OF exact_team [of sample_time] sample_small(3) sample_arg_ok sample_validate budget_strings(4,6) _ sample_chain])
      (auto simp: sample_ledgers)
  then show ?thesis by (simp add: sample_ledgers sample_sum small_fix [OF small_samples(3)] book_def amount_of_def)
qed

lemma released_reached: "ledger_reached sample_time sample_released"
proof -
  have "ledger_exec sample_time (Release (PyStr ''reservation-000001'')) sample_reserved = sample_released"
    using run_release by (auto simp: ledger_exec_def no_result_def bind_Inr return_py_def)
  then show ?thesis using ledger_reached.step [OF exact_run_reached [OF exact_reserved [of sample_time]], of "Release (PyStr ''reservation-000001'')"]
    by (simp add: call_ok_def arg_ok_def)
qed

theorem settled_reservation_final_witness:
  "release_reservation (PyStr ''reservation-000001'') (fold (ledger_effect sample_time) [allocate_root, reserve_team] sample_released) =
     (Inl BudgetReservationStateError, fold (ledger_effect sample_time) [allocate_root, reserve_team] sample_released)"
  using settled_reservation_final [OF released_reached, of "''reservation-000001''" _ _ "[allocate_root, reserve_team]"]
  by (simp add: sample_released_def)

lemma permitted_reached: "ledger_reached sample_time sample_permitted"
  using ledger_reached.step [OF exact_run_reached [OF exact_reserved [of sample_time]], of issue_sample] run_issue
  by (simp add: issue_sample_def call_ok_def arg_ok_def)



lemma refuse_allocate: "ledger_call sample_time allocate_root sample_root = (Inl BudgetConflictError, sample_root)"
  by (simp add: sample_eval allocate_root_def sample_ledgers cong: sample_congs)

theorem ledger_calls_atomic_witness:
  "\<exists>e l'. ledger_call sample_time allocate_root sample_root = (Inl e, l') \<and> l' = sample_root"
  using ledger_calls_atomic [OF exact_run_reached [OF exact_root] call_ok_sample [of 100 allocate_root] refuse_allocate] refuse_allocate
  by (simp add: allocate_root_def)

theorem budget_chain_reaches_root_witness:
  "budget_chain ''team'' sample_team = (Inr [''team'', ''root''], sample_team) \<and>
   parent_path (accounts sample_team) (Some ''team'') [''team'', ''root'']"
proof -
  have "map_of (accounts sample_team) ''team'' = Some (sample_account ''team'' (Some ''root'') 40 1)"
    by (simp add: sample_team_def sample_root_def)
  moreover have "budget_chain ''team'' sample_team = (Inr [''team'', ''root''], sample_team)"
    using sample_chain by (simp add: budget_chain_def py_run chain_of_def)
  ultimately show ?thesis
    using budget_chain_reaches_root [OF exact_run_reached [OF exact_team [of sample_time]], of "''team''"] by simp
qed


lemma sample_tokens: "ledger_tokens sample_reserved = {1}"
  by (auto simp: ledger_tokens_def tokens_in_def sample_ledgers)

lemma reserve_again:
  "\<exists>r l'. reserve (PyStr ''team'') (Some sample_ref) (sample_arg 10) (PyStr ''task'') (PyStr ''later'') PyNone sample_reserved = (Inr r, l') \<and>
     2 \<in> ledger_tokens l'"
  by (simp add: sample_eval sample_ledgers sample_suffix ledger_tokens_def tokens_in_def cong: sample_congs)

lemma reserve_again_effect: "2 \<in> ledger_tokens (ledger_effect p reserve_team sample_reserved)"
proof -
  obtain r l' where "reserve (PyStr ''team'') (Some sample_ref) (sample_arg 10) (PyStr ''task'') (PyStr ''later'') PyNone sample_reserved = (Inr r, l')"
    "2 \<in> ledger_tokens l'" using reserve_again by blast
  then show ?thesis using call_ok_sample [of 10 reserve_team]
    by (simp add: ledger_effect_def ledger_exec_def reserve_team_def no_result_def bind_Inr return_py_def)
qed

theorem budget_tokens_increase_witness:
  "(2::int) \<in> ledger_tokens (fold (ledger_effect sample_time) [reserve_team] sample_reserved) - ledger_tokens sample_reserved \<and> (1::int) < 2"
  using budget_tokens_increase [OF exact_run_reached [OF exact_reserved [of sample_time]], of 1 2 "[reserve_team]"]
    reserve_again_effect [of sample_time] by (simp add: sample_tokens)

theorem amounts_roundtrip_witness:
  "\<exists>us d'. dict_to_amounts [(sample_key, 10)] = Inr us \<and> amounts_to_dict (Some (map Some us)) = Inr d' \<and>
     amount_of d' = amount_of [(sample_key, 10)]"
  using amounts_roundtrip [OF sample_arg_ok [of 10] sample_to_dict [of 10]] small_fix [OF small_samples(3)] by simp

theorem reserve_release_roundtrip_witness:
  "book (reserved_of sample_released) ''team'' sample_key = book (reserved_of sample_team) ''team'' sample_key"
proof -
  obtain s where s: "release_reservation (PyStr (reservation_id sample_reservation)) sample_reserved = (Inr s, sample_released)"
    using run_release by (auto simp: sample_reservation_def)
  have "amounts_small 0 [(sample_key, 10)]" by (simp add: amounts_small_def amount_of_def small_samples)
  then show ?thesis
    using reserve_release_roundtrip [OF exact_team [of sample_time] sample_small(3) sample_arg_ok [of 10] sample_to_dict [of 10] _ run_reserve s,
        of "''team''" sample_key] small_fix [OF small_samples(3)] by simp
qed

theorem permit_guards_settlement_witness:
  "\<exists>s l'. commit_with_permit sample_time (PyStr ''permit'') (PyStr ''reservation-000001'') (sample_arg 8)
    (PyStr ''2026-01-01T00:00:00Z'') NoLimit sample_permitted = (Inr s, l') \<and>
    is_active_at sample_time sample_permit_rec (PyStr ''2026-01-01T00:00:00Z'')"
proof -
  obtain s l' where run: "commit_with_permit sample_time (PyStr ''permit'') (PyStr ''reservation-000001'') (sample_arg 8)
    (PyStr ''2026-01-01T00:00:00Z'') NoLimit sample_permitted = (Inr s, l')" using run_commit by blast
  have "map_of (permits sample_permitted) ''permit'' = Some sample_permit_rec" by (simp add: sample_permitted_def)
  then show ?thesis
    using permit_guards_settlement [OF permitted_reached sample_arg_ok run] run by auto
qed

theorem completion_reserve_spent_once_witness:
  "\<exists>r l'. spend_completion_reserve (PyStr ''finish'') (PyStr ''closer'') (PyStr ''later'') (ledger_exec sample_time create_sample sample_team)
     = (Inr r, l') \<and>
   spend_completion_reserve (PyStr ''finish'') (PyStr ''closer'') (PyStr ''later'') l' = (Inl BudgetCompletionReserveStateError, l')"
proof -
  have "call_ok create_sample" by (rule call_ok_sample [of 5]) (simp_all add: create_sample_def)
  then have l: "ledger_reached sample_time (ledger_exec sample_time create_sample sample_team)"
    by (rule ledger_reached.step [OF exact_run_reached [OF exact_team]])
  obtain r l' where "spend_completion_reserve (PyStr ''finish'') (PyStr ''closer'') (PyStr ''later'')
    (ledger_exec sample_time create_sample sample_team) = (Inr r, l')" using run_create [of sample_time] by blast
  then show ?thesis using completion_reserve_spent_once [OF l] by blast
qed

end
