(* ===== verification/Exhaustion.thy ===== *)
theory Exhaustion
  imports Budget
begin

text \<open>
  Budget exhaustion, \<^verbatim>\<open>exhaustion.py\<close>: continuation envelopes, exhaustion policies with their
  presets, and the controller that admits the work that may still run once a budget is
  exhausted. The argument \<open>fromiso\<close> stands for \<^verbatim>\<open>datetime.fromisoformat\<close>; it tells a
  time without a zone from one with a zone, given as its UTC instant. Times whose conversion
  to UTC overflows are outside the model. Permits and amounts are those of the budget ledger.
\<close>

section \<open>Literals\<close>

datatype continuation_work =
    CurrentProviderCall | AlreadyAdmittedChildWork | DeclaredFinalization | CheckpointWork | CleanupWork | ReadOnlyTool

datatype forbidden_kind =
    NewTurn | PlanExpansion | OptionalTask | NewTrial | StateChangingEffect | UnreservedProviderCall

datatype work_kind = Continue continuation_work | Forbidden forbidden_kind

datatype exhaustion_preset =
    FinishCurrentTurn | FinishCurrentCall | FinishCurrentStep | CheckpointAndPause | HardStop | DegradeThenFinalize
  | RequestExtension

datatype in_flight_policy =
    FinishCurrentUnit | CheckpointThenPause | DegradeAndContinue | RequestTopupOrApproval | CancelImmediately

datatype exhaustion_unit =
    ProviderCallUnit | NodeUnit | AgentStepUnit | TurnUnit | MapItemUnit | TaskUnit | TrialUnit | RunUnit

datatype client_delivery = StopImmediately | ContinueToBoundary | BufferUntilCommit

datatype durable_result = NoDurableResult | Retract | MarkIncomplete | CommitPartial | CommitWithExhaustionNotice

datatype effect_policy = PreserveAtomicity | CancelIfSafe | FinishCommittingEffect | CompensateIfCommitted

datatype after_unit_policy = RejectAfter | PauseAfter | FallbackAfter | CloseAfter

datatype exhaustion_error = ExhaustionValueError | MissingExhaustionBoundaryError

definition VALID_CONTINUATION_WORK :: "(string \<times> continuation_work) list" where
  "VALID_CONTINUATION_WORK =
     [(''current_provider_call'', CurrentProviderCall), (''already_admitted_child_work'', AlreadyAdmittedChildWork),
      (''declared_finalization'', DeclaredFinalization), (''checkpoint'', CheckpointWork), (''cleanup'', CleanupWork),
      (''read_only_tool'', ReadOnlyTool)]"

definition VALID_FORBIDDEN_WORK :: "(string \<times> forbidden_kind) list" where
  "VALID_FORBIDDEN_WORK =
     [(''new_turn'', NewTurn), (''plan_expansion'', PlanExpansion), (''optional_task'', OptionalTask),
      (''new_trial'', NewTrial), (''state_changing_effect'', StateChangingEffect),
      (''unreserved_provider_call'', UnreservedProviderCall)]"

definition VALID_WORK_KINDS :: "(string \<times> work_kind) list" where
  "VALID_WORK_KINDS =
     map (\<lambda>(s, w). (s, Continue w)) VALID_CONTINUATION_WORK @ map (\<lambda>(s, w). (s, Forbidden w)) VALID_FORBIDDEN_WORK"

primrec preset_name :: "exhaustion_preset \<Rightarrow> string" where
  "preset_name FinishCurrentTurn = ''finish_current_turn''"
| "preset_name FinishCurrentCall = ''finish_current_call''"
| "preset_name FinishCurrentStep = ''finish_current_step''"
| "preset_name CheckpointAndPause = ''checkpoint_and_pause''"
| "preset_name HardStop = ''hard_stop''"
| "preset_name DegradeThenFinalize = ''degrade_then_finalize''"
| "preset_name RequestExtension = ''request_extension''"

definition VALID_EXHAUSTION_PRESETS :: "(string \<times> exhaustion_preset) list" where
  "VALID_EXHAUSTION_PRESETS =
     map (\<lambda>p. (preset_name p, p))
       [FinishCurrentTurn, FinishCurrentCall, FinishCurrentStep, CheckpointAndPause, HardStop, DegradeThenFinalize,
        RequestExtension]"

definition VALID_IN_FLIGHT_POLICIES :: "(string \<times> in_flight_policy) list" where
  "VALID_IN_FLIGHT_POLICIES =
     [(''finish_current_unit'', FinishCurrentUnit), (''checkpoint_then_pause'', CheckpointThenPause),
      (''degrade_and_continue'', DegradeAndContinue), (''request_topup_or_approval'', RequestTopupOrApproval),
      (''cancel_immediately'', CancelImmediately)]"

primrec exhaustion_unit_name :: "exhaustion_unit \<Rightarrow> string" where
  "exhaustion_unit_name ProviderCallUnit = ''provider_call''"
| "exhaustion_unit_name NodeUnit = ''node''"
| "exhaustion_unit_name AgentStepUnit = ''agent_step''"
| "exhaustion_unit_name TurnUnit = ''turn''"
| "exhaustion_unit_name MapItemUnit = ''map_item''"
| "exhaustion_unit_name TaskUnit = ''task''"
| "exhaustion_unit_name TrialUnit = ''trial''"
| "exhaustion_unit_name RunUnit = ''run''"

definition VALID_EXHAUSTION_UNITS :: "(string \<times> exhaustion_unit) list" where
  "VALID_EXHAUSTION_UNITS =
     map (\<lambda>u. (exhaustion_unit_name u, u))
       [ProviderCallUnit, NodeUnit, AgentStepUnit, TurnUnit, MapItemUnit, TaskUnit, TrialUnit, RunUnit]"

definition VALID_CLIENT_DELIVERY :: "(string \<times> client_delivery) list" where
  "VALID_CLIENT_DELIVERY =
     [(''stop_immediately'', StopImmediately), (''continue_to_boundary'', ContinueToBoundary),
      (''buffer_until_commit'', BufferUntilCommit)]"

definition VALID_DURABLE_RESULTS :: "(string \<times> durable_result) list" where
  "VALID_DURABLE_RESULTS =
     [(''none'', NoDurableResult), (''retract'', Retract), (''mark_incomplete'', MarkIncomplete),
      (''commit_partial'', CommitPartial), (''commit_with_exhaustion_notice'', CommitWithExhaustionNotice)]"

definition VALID_EFFECT_POLICIES :: "(string \<times> effect_policy) list" where
  "VALID_EFFECT_POLICIES =
     [(''preserve_atomicity'', PreserveAtomicity), (''cancel_if_safe'', CancelIfSafe),
      (''finish_committing_effect'', FinishCommittingEffect), (''compensate_if_committed'', CompensateIfCommitted)]"

definition VALID_AFTER_UNIT_POLICIES :: "(string \<times> after_unit_policy) list" where
  "VALID_AFTER_UNIT_POLICIES =
     [(''reject'', RejectAfter), (''pause'', PauseAfter), (''fallback'', FallbackAfter), (''close'', CloseAfter)]"

text \<open>Membership of a literal: \<^verbatim>\<open>isinstance(value, str) and value in VALID\<close>.\<close>

definition literal_arg :: "(string \<times> 'a) list \<Rightarrow> pyval \<Rightarrow> exhaustion_error + 'a" where
  "literal_arg names v =
     (case v of
        PyStr s \<Rightarrow> (case map_of names s of None \<Rightarrow> Inl ExhaustionValueError | Some x \<Rightarrow> Inr x)
      | _ \<Rightarrow> Inl ExhaustionValueError)"

text \<open>
  A collection of literals; \<^const>\<open>None\<close> is a value that is a string or cannot be iterated.
\<close>

type_synonym collection_arg = "pyval list option"

definition literal_set :: "(string \<times> 'a) list \<Rightarrow> collection_arg \<Rightarrow> exhaustion_error + 'a set" where
  "literal_set names v =
     (case v of
        None \<Rightarrow> Inl ExhaustionValueError
      | Some xs \<Rightarrow> bind_sum (map_sum_list (literal_arg names) xs) (\<lambda>ws. Inr (set ws)))"

section \<open>Validators\<close>

abbreviation MAX_EXHAUSTION_INTEGER :: int where
  "MAX_EXHAUSTION_INTEGER \<equiv> 18446744073709551615"

fun exhaustion_non_negative :: "pyval \<Rightarrow> exhaustion_error + int" where
  "exhaustion_non_negative (PyInt i) =
     (if i < 0 then Inl ExhaustionValueError
      else if MAX_EXHAUSTION_INTEGER < i then Inl ExhaustionValueError
      else Inr i)"
| "exhaustion_non_negative _ = Inl ExhaustionValueError"

fun exact_non_empty_string :: "pyval \<Rightarrow> exhaustion_error + string" where
  "exact_non_empty_string (PyStr s) =
     (if has_surrogate s then Inl ExhaustionValueError
      else if py_strip s = [] then Inl ExhaustionValueError
      else if s \<noteq> py_strip s then Inl ExhaustionValueError
      else Inr s)"
| "exact_non_empty_string _ = Inl ExhaustionValueError"

datatype iso_time = Naive | Aware rat

definition parse_iso_datetime :: "(string \<Rightarrow> iso_time option) \<Rightarrow> pyval \<Rightarrow> exhaustion_error + rat" where
  "parse_iso_datetime fromiso v =
     bind_sum (exact_non_empty_string v) (\<lambda>s.
     let normalized = (if last s = CHR ''Z'' then butlast s @ ''+00:00'' else s) in
     case fromiso normalized of
       None \<Rightarrow> Inl ExhaustionValueError
     | Some Naive \<Rightarrow> Inl ExhaustionValueError
     | Some (Aware t) \<Rightarrow> Inr t)"

text \<open>The parser of permits, on the same clock strings.\<close>

definition aware_time :: "(string \<Rightarrow> iso_time option) \<Rightarrow> string \<Rightarrow> rat option" where
  "aware_time fromiso s = (case fromiso s of Some (Aware t) \<Rightarrow> Some t | _ \<Rightarrow> None)"

text \<open>A validated optional field: the value that is stored and the check that it passes.\<close>

definition optional_steps :: "pyval \<Rightarrow> exhaustion_error + int option" where
  "optional_steps v = (if v = PyNone then Inr None else bind_sum (exhaustion_non_negative v) (\<lambda>n. Inr (Some n)))"

definition optional_time :: "(string \<Rightarrow> iso_time option) \<Rightarrow> pyval \<Rightarrow> exhaustion_error + string option" where
  "optional_time fromiso v =
     (if v = PyNone then Inr None
      else bind_sum (parse_iso_datetime fromiso v) (\<lambda>_. case v of PyStr s \<Rightarrow> Inr (Some s) | _ \<Rightarrow> Inl ExhaustionValueError))"

definition usage_tuple :: "amounts_arg \<Rightarrow> exhaustion_error + usage_amount list" where
  "usage_tuple v =
     (case v of
        None \<Rightarrow> Inl ExhaustionValueError
      | Some xs \<Rightarrow> if None \<in> set xs then Inl ExhaustionValueError else Inr (map the xs))"

fun optional_instance :: "'a instance_arg \<Rightarrow> exhaustion_error + 'a option" where
  "optional_instance ArgNone = Inr None"
| "optional_instance (ArgObject x) = Inr (Some x)"
| "optional_instance ArgOther = Inl ExhaustionValueError"

fun required_instance :: "'a instance_arg \<Rightarrow> exhaustion_error + 'a" where
  "required_instance (ArgObject x) = Inr x"
| "required_instance _ = Inl ExhaustionValueError"

section \<open>Envelopes and policies\<close>

record continuation_envelope =
  allowed_work :: "continuation_work set"
  forbidden_work :: "forbidden_kind set"
  max_additional_usage :: "usage_amount list"
  max_additional_steps :: "int option"
  envelope_deadline :: "string option"

text \<open>The fields of an envelope after its collections of work were normalised.\<close>

definition envelope_of ::
  "(string \<Rightarrow> iso_time option) \<Rightarrow> continuation_work set \<Rightarrow> forbidden_kind set \<Rightarrow> amounts_arg \<Rightarrow> pyval \<Rightarrow> pyval
     \<Rightarrow> exhaustion_error + continuation_envelope" where
  "envelope_of fromiso allowed forbidden usage steps deadline =
     bind_sum (usage_tuple usage) (\<lambda>usage'.
     bind_sum (optional_steps steps) (\<lambda>steps'.
     bind_sum (optional_time fromiso deadline) (\<lambda>deadline'.
     Inr \<lparr>allowed_work = allowed, forbidden_work = forbidden, max_additional_usage = usage',
          max_additional_steps = steps', envelope_deadline = deadline'\<rparr>)))"

definition mk_continuation_envelope ::
  "(string \<Rightarrow> iso_time option) \<Rightarrow> collection_arg \<Rightarrow> collection_arg \<Rightarrow> amounts_arg \<Rightarrow> pyval \<Rightarrow> pyval
     \<Rightarrow> exhaustion_error + continuation_envelope" where
  "mk_continuation_envelope fromiso allowed forbidden usage steps deadline =
     bind_sum (literal_set VALID_CONTINUATION_WORK allowed) (\<lambda>allowed'.
     bind_sum (literal_set VALID_FORBIDDEN_WORK forbidden) (\<lambda>forbidden'.
     envelope_of fromiso allowed' forbidden' usage steps deadline))"

definition is_bounded :: "continuation_envelope \<Rightarrow> bool" where
  "is_bounded e \<longleftrightarrow> max_additional_usage e \<noteq> [] \<or> max_additional_steps e \<noteq> None \<or> envelope_deadline e \<noteq> None"

record partial_output_policy =
  client_delivery :: client_delivery
  durable_result :: durable_result

definition mk_partial_output_policy :: "pyval \<Rightarrow> pyval \<Rightarrow> exhaustion_error + partial_output_policy" where
  "mk_partial_output_policy delivery result =
     bind_sum (literal_arg VALID_CLIENT_DELIVERY delivery) (\<lambda>d.
     bind_sum (literal_arg VALID_DURABLE_RESULTS result) (\<lambda>r.
     Inr \<lparr>client_delivery = d, durable_result = r\<rparr>))"

record exhaustion_policy =
  preset :: "exhaustion_preset option"
  in_flight :: in_flight_policy
  exhausted_unit :: exhaustion_unit
  deny_new_work :: bool
  continuation :: "continuation_envelope option"
  policy_overdraft :: "usage_amount list"
  policy_deadline :: "string option"
  partial_output :: partial_output_policy
  effects :: effect_policy
  after_unit :: after_unit_policy

fun boolean_arg :: "pyval \<Rightarrow> exhaustion_error + bool" where
  "boolean_arg (PyBool b) = Inr b"
| "boolean_arg _ = Inl ExhaustionValueError"

definition mk_exhaustion_policy ::
  "(string \<Rightarrow> iso_time option) \<Rightarrow> pyval \<Rightarrow> pyval \<Rightarrow> pyval \<Rightarrow> pyval \<Rightarrow> continuation_envelope instance_arg \<Rightarrow> amounts_arg
     \<Rightarrow> pyval \<Rightarrow> partial_output_policy instance_arg \<Rightarrow> pyval \<Rightarrow> pyval \<Rightarrow> exhaustion_error + exhaustion_policy" where
  "mk_exhaustion_policy fromiso preset_v in_flight_v unit_v deny_v continuation_v overdraft_v deadline_v output_v effects_v after_v =
     bind_sum (if preset_v = PyNone then Inr None
               else bind_sum (literal_arg VALID_EXHAUSTION_PRESETS preset_v) (\<lambda>p. Inr (Some p))) (\<lambda>p.
     bind_sum (literal_arg VALID_IN_FLIGHT_POLICIES in_flight_v) (\<lambda>f.
     bind_sum (literal_arg VALID_EXHAUSTION_UNITS unit_v) (\<lambda>u.
     bind_sum (boolean_arg deny_v) (\<lambda>deny.
     bind_sum (optional_instance continuation_v) (\<lambda>envelope.
     bind_sum (usage_tuple overdraft_v) (\<lambda>overdraft.
     bind_sum (optional_time fromiso deadline_v) (\<lambda>deadline.
     bind_sum (required_instance output_v) (\<lambda>out.
     bind_sum (literal_arg VALID_EFFECT_POLICIES effects_v) (\<lambda>eff.
     bind_sum (literal_arg VALID_AFTER_UNIT_POLICIES after_v) (\<lambda>after.
     Inr \<lparr>preset = p, in_flight = f, exhausted_unit = u, deny_new_work = deny, continuation = envelope,
          policy_overdraft = overdraft, policy_deadline = deadline, partial_output = out, effects = eff,
          after_unit = after\<rparr>))))))))))"

text \<open>
  \<^verbatim>\<open>_merge_envelope\<close>: the merged sets hold work that both envelopes accepted already, so the
  constructor has nothing to reject in them.
\<close>

definition merge_envelope ::
  "(string \<Rightarrow> iso_time option) \<Rightarrow> continuation_envelope \<Rightarrow> continuation_envelope option
     \<Rightarrow> exhaustion_error + continuation_envelope" where
  "merge_envelope fromiso base override =
     (case override of
        None \<Rightarrow> Inr base
      | Some ov \<Rightarrow>
          envelope_of fromiso (allowed_work base \<union> allowed_work ov) (forbidden_work base \<union> forbidden_work ov)
            (Some (map Some (if max_additional_usage ov \<noteq> [] then max_additional_usage ov else max_additional_usage base)))
            (case max_additional_steps ov of
               Some n \<Rightarrow> PyInt n
             | None \<Rightarrow> (case max_additional_steps base of Some n \<Rightarrow> PyInt n | None \<Rightarrow> PyNone))
            (case envelope_deadline ov of
               Some d \<Rightarrow> (if d \<noteq> [] then PyStr d
                          else case envelope_deadline base of Some d' \<Rightarrow> PyStr d' | None \<Rightarrow> PyNone)
             | None \<Rightarrow> (case envelope_deadline base of Some d' \<Rightarrow> PyStr d' | None \<Rightarrow> PyNone)))"

definition default_envelope :: "continuation_work set \<Rightarrow> forbidden_kind set \<Rightarrow> continuation_envelope" where
  "default_envelope allowed forbidden =
     \<lparr>allowed_work = allowed, forbidden_work = forbidden, max_additional_usage = [], max_additional_steps = None,
      envelope_deadline = None\<rparr>"

text \<open>The constructor call of a preset: default envelope merged, then the policy.\<close>

definition preset_policy ::
  "(string \<Rightarrow> iso_time option) \<Rightarrow> pyval \<Rightarrow> pyval \<Rightarrow> continuation_envelope option \<Rightarrow> continuation_envelope \<Rightarrow> string \<Rightarrow> string
     \<Rightarrow> string \<Rightarrow> string \<Rightarrow> exhaustion_error + exhaustion_policy" where
  "preset_policy fromiso preset_v unit_v override base flight delivery result after =
     bind_sum (merge_envelope fromiso base override) (\<lambda>envelope.
     bind_sum (mk_partial_output_policy (PyStr delivery) (PyStr result)) (\<lambda>out.
     mk_exhaustion_policy fromiso preset_v (PyStr flight) unit_v (PyBool True) (ArgObject envelope) (Some []) PyNone
       (ArgObject out) (PyStr ''preserve_atomicity'') (PyStr after)))"

definition from_preset ::
  "(string \<Rightarrow> iso_time option) \<Rightarrow> pyval \<Rightarrow> pyval \<Rightarrow> continuation_envelope option \<Rightarrow> exhaustion_error + exhaustion_policy" where
  "from_preset fromiso preset_v unit_v override =
     (if preset_v = PyStr ''finish_current_turn'' then
        preset_policy fromiso preset_v unit_v override
          (default_envelope {AlreadyAdmittedChildWork, DeclaredFinalization, CheckpointWork, CleanupWork}
             {NewTurn, PlanExpansion, OptionalTask, StateChangingEffect})
          ''finish_current_unit'' ''continue_to_boundary'' ''commit_with_exhaustion_notice'' ''reject''
      else if preset_v = PyStr ''hard_stop'' then
        preset_policy fromiso preset_v unit_v override
          (default_envelope {CleanupWork} {NewTurn, PlanExpansion, UnreservedProviderCall, StateChangingEffect})
          ''cancel_immediately'' ''stop_immediately'' ''mark_incomplete'' ''reject''
      else if preset_v = PyStr ''checkpoint_and_pause'' then
        preset_policy fromiso preset_v unit_v override
          (default_envelope {CheckpointWork, CleanupWork} {NewTurn, OptionalTask, NewTrial})
          ''checkpoint_then_pause'' ''stop_immediately'' ''commit_partial'' ''pause''
      else if preset_v = PyStr ''degrade_then_finalize'' then
        preset_policy fromiso preset_v unit_v override
          (default_envelope {DeclaredFinalization, CleanupWork} {StateChangingEffect, OptionalTask})
          ''degrade_and_continue'' ''continue_to_boundary'' ''commit_with_exhaustion_notice'' ''fallback''
      else if preset_v = PyStr ''request_extension'' then
        preset_policy fromiso preset_v unit_v override
          (default_envelope {CheckpointWork, CleanupWork} {NewTurn, PlanExpansion, OptionalTask, NewTrial})
          ''request_topup_or_approval'' ''stop_immediately'' ''commit_partial'' ''pause''
      else
        bind_sum (mk_partial_output_policy (PyStr ''stop_immediately'') (PyStr ''mark_incomplete'')) (\<lambda>out.
        mk_exhaustion_policy fromiso preset_v (PyStr ''finish_current_unit'') unit_v (PyBool True)
          (ArgObject (case override of
             Some e \<Rightarrow> e
           | None \<Rightarrow> default_envelope {CurrentProviderCall, CleanupWork} {}))
          (Some []) PyNone (ArgObject out) (PyStr ''preserve_atomicity'') (PyStr ''reject'')))"

definition validate_exhaustion_policy ::
  "exhaustion_policy instance_arg \<Rightarrow> pyval \<Rightarrow> exhaustion_error + string list" where
  "validate_exhaustion_policy policy_v production_v =
     bind_sum (required_instance policy_v) (\<lambda>policy.
     bind_sum (boolean_arg production_v) (\<lambda>production.
     let issues = (if preset policy = None then [''missing_preset''] else []) @
                  (if exhaustion_unit_name (exhausted_unit policy) = [] then [''missing_unit''] else [])
     in if preset policy = Some FinishCurrentTurn \<and> production then
          (case continuation policy of
             None \<Rightarrow> Inl MissingExhaustionBoundaryError
           | Some e \<Rightarrow> if is_bounded e then Inr issues else Inl MissingExhaustionBoundaryError)
        else Inr issues))"

section \<open>The controller\<close>

record admission_decision =
  decision_allowed :: bool
  decision_reason :: string

definition mk_admission_decision :: "pyval \<Rightarrow> pyval \<Rightarrow> exhaustion_error + admission_decision" where
  "mk_admission_decision allowed_v reason_v =
     bind_sum (boolean_arg allowed_v) (\<lambda>a.
     bind_sum (exact_non_empty_string reason_v) (\<lambda>r.
     Inr \<lparr>decision_allowed = a, decision_reason = r\<rparr>))"

record exhaustion_controller =
  policy :: exhaustion_policy
  atomic_unit_id :: string
  controller_epoch :: int
  continuation_permit :: "budget_permit option"
  validation_time :: "string option"
  used_additional_steps :: int
  used_additional_usage :: "usage_amount list"

definition mk_exhaustion_controller ::
  "(string \<Rightarrow> iso_time option) \<Rightarrow> exhaustion_policy instance_arg \<Rightarrow> pyval \<Rightarrow> pyval \<Rightarrow> budget_permit instance_arg \<Rightarrow> pyval
     \<Rightarrow> pyval \<Rightarrow> amounts_arg \<Rightarrow> exhaustion_error + exhaustion_controller" where
  "mk_exhaustion_controller fromiso policy_v unit_v epoch_v permit_v time_v steps_v usage_v =
     bind_sum (required_instance policy_v) (\<lambda>pol.
     bind_sum (exact_non_empty_string unit_v) (\<lambda>unit.
     bind_sum (exhaustion_non_negative epoch_v) (\<lambda>epoch.
     bind_sum (exhaustion_non_negative steps_v) (\<lambda>steps.
     bind_sum (optional_instance permit_v) (\<lambda>permit.
     bind_sum (optional_time fromiso time_v) (\<lambda>now.
     bind_sum (if (policy_deadline pol \<noteq> None \<or>
                   (case continuation pol of None \<Rightarrow> False | Some e \<Rightarrow> envelope_deadline e \<noteq> None)) \<and> now = None
               then Inl ExhaustionValueError else Inr ()) (\<lambda>_.
     bind_sum (usage_tuple usage_v) (\<lambda>usage.
     Inr \<lparr>policy = pol, atomic_unit_id = unit, controller_epoch = epoch, continuation_permit = permit,
          validation_time = now, used_additional_steps = steps, used_additional_usage = usage\<rparr>))))))))"

definition valid_permit :: "(string \<Rightarrow> iso_time option) \<Rightarrow> exhaustion_controller \<Rightarrow> budget_permit \<Rightarrow> bool" where
  "valid_permit fromiso c p \<longleftrightarrow>
     resource_id (atomic_unit p) = atomic_unit_id c \<and>
     Some (continuation_profile p) = map_option preset_name (preset (policy c)) \<and>
     admission_epoch p = controller_epoch c \<and>
     (case validation_time c of None \<Rightarrow> True | Some now \<Rightarrow> is_active_at (aware_time fromiso) p (PyStr now))"

type_synonym 'a controller_method = "(exhaustion_controller, exhaustion_error, 'a) py"

definition decide :: "bool \<Rightarrow> string \<Rightarrow> admission_decision controller_method" where
  "decide a reason = lift_py (mk_admission_decision (PyBool a) (PyStr reason))"

definition deadline_exceeded ::
  "(string \<Rightarrow> iso_time option) \<Rightarrow> exhaustion_controller \<Rightarrow> continuation_envelope \<Rightarrow> exhaustion_error + bool" where
  "deadline_exceeded fromiso c e =
     (case validation_time c of
        None \<Rightarrow> Inr False
      | Some now \<Rightarrow>
          bind_sum (parse_iso_datetime fromiso (PyStr now)) (\<lambda>t.
          bind_sum (map_sum_list (\<lambda>d. parse_iso_datetime fromiso (PyStr d))
                      (List.map_filter id [policy_deadline (policy c), envelope_deadline e])) (\<lambda>deadlines.
          Inr (list_ex (\<lambda>d. d \<le> t) deadlines))))"

fun work_forbidden :: "continuation_envelope \<Rightarrow> work_kind \<Rightarrow> bool" where
  "work_forbidden e (Forbidden w) \<longleftrightarrow> w \<in> forbidden_work e"
| "work_forbidden e (Continue w) \<longleftrightarrow> False"

fun work_allowed :: "continuation_envelope \<Rightarrow> work_kind \<Rightarrow> bool" where
  "work_allowed e (Continue w) \<longleftrightarrow> w \<in> allowed_work e"
| "work_allowed e (Forbidden w) \<longleftrightarrow> False"

text \<open>The dictionaries \<^verbatim>\<open>allowed_usage\<close> and \<^verbatim>\<open>projected_usage\<close>: zero totals stay in them.\<close>

definition usage_totals :: "usage_amount list \<Rightarrow> amount_map" where
  "usage_totals amounts = fold (\<lambda>a d. add_amount (amount_key a) (usage_value a) d) amounts []"

definition usage_exceeds :: "exhaustion_controller \<Rightarrow> continuation_envelope \<Rightarrow> usage_amount list \<Rightarrow> bool" where
  "usage_exceeds c e requested \<longleftrightarrow>
     (let allowed_usage = usage_totals (max_additional_usage e);
          projected_usage = usage_totals (used_additional_usage c @ requested)
      in list_ex (\<lambda>(k, x). amount_of allowed_usage k < x) projected_usage)"

text \<open>The refusals of work of a later epoch, in the order of the code.\<close>

definition additional_refusal ::
  "(string \<Rightarrow> iso_time option) \<Rightarrow> exhaustion_controller \<Rightarrow> continuation_envelope \<Rightarrow> work_kind \<Rightarrow> budget_permit option
     \<Rightarrow> usage_amount list \<Rightarrow> string option" where
  "additional_refusal fromiso c e kind permit requested =
     (let checkpoint_safety = (preset (policy c) = Some CheckpointAndPause \<and>
                               kind \<in> {Continue CheckpointWork, Continue CleanupWork});
          degraded_finalization = (preset (policy c) = Some DegradeThenFinalize \<and>
                                   kind \<in> {Continue DeclaredFinalization, Continue CleanupWork});
          effective = (case permit of Some p \<Rightarrow> Some p | None \<Rightarrow> continuation_permit c)
      in if effective = None \<and> \<not> checkpoint_safety \<and> \<not> degraded_finalization then Some ''missing_continuation_permit''
         else if (case effective of None \<Rightarrow> False | Some p \<Rightarrow> \<not> valid_permit fromiso c p) then Some ''invalid_permit''
         else if requested \<noteq> [] \<and> effective = None then Some ''missing_continuation_permit''
         else if requested \<noteq> [] \<and> (case effective of None \<Rightarrow> False | Some p \<Rightarrow> \<not> permit_allows p requested)
           then Some ''usage_exceeds_permit''
         else if requested \<noteq> [] \<and> max_additional_usage e \<noteq> [] \<and> usage_exceeds c e requested
           then Some ''max_additional_usage_exceeded''
         else None)"

definition record_additional :: "usage_amount list \<Rightarrow> exhaustion_controller \<Rightarrow> exhaustion_controller" where
  "record_additional requested c =
     c\<lparr>used_additional_steps := used_additional_steps c + 1,
       used_additional_usage := used_additional_usage c @ requested\<rparr>"

definition requested_usage_list :: "amounts_arg option \<Rightarrow> exhaustion_error + usage_amount list" where
  "requested_usage_list v = (case v of None \<Rightarrow> Inr [] | Some xs \<Rightarrow> usage_tuple xs)"

definition admit ::
  "(string \<Rightarrow> iso_time option) \<Rightarrow> pyval \<Rightarrow> pyval \<Rightarrow> budget_permit instance_arg \<Rightarrow> amounts_arg option
     \<Rightarrow> admission_decision controller_method" where
  "admit fromiso work_kind_v work_epoch_v permit_v requested_v =
     bind_py (lift_py (exhaustion_non_negative work_epoch_v)) (\<lambda>work_epoch.
     bind_py (lift_py (literal_arg VALID_WORK_KINDS work_kind_v)) (\<lambda>kind.
     bind_py (lift_py (optional_instance permit_v)) (\<lambda>permit.
     bind_py (lift_py (requested_usage_list requested_v)) (\<lambda>requested.
     bind_py (gets_py (\<lambda>c. c)) (\<lambda>c.
     let pol = policy c; later = (controller_epoch c < work_epoch) in
     case continuation pol of
       None \<Rightarrow> decide False ''missing_continuation''
     | Some envelope \<Rightarrow>
         bind_py (lift_py (deadline_exceeded fromiso c envelope)) (\<lambda>late.
         if late then decide False ''continuation_deadline_exceeded''
         else if work_forbidden envelope kind then decide False ''forbidden_work''
         else if deny_new_work pol \<and> \<not> work_allowed envelope kind then decide False ''new_work_denied''
         else if kind = Continue AlreadyAdmittedChildWork \<and> work_epoch \<le> controller_epoch c then decide True ''already_admitted''
         else if preset pol = Some HardStop \<and> kind \<noteq> Continue CleanupWork then decide False ''hard_stop''
         else if (case permit of None \<Rightarrow> False | Some p \<Rightarrow> \<not> valid_permit fromiso c p) then decide False ''invalid_permit''
         else if later \<and> kind \<notin> {Continue DeclaredFinalization, Continue CheckpointWork, Continue CleanupWork}
           then decide False ''new_work_denied''
         else case (if later then additional_refusal fromiso c envelope kind permit requested else None) of
           Some reason \<Rightarrow> decide False reason
         | None \<Rightarrow>
             if later \<and> (case max_additional_steps envelope of None \<Rightarrow> False | Some n \<Rightarrow> n \<le> used_additional_steps c)
               then decide False ''max_additional_steps_exceeded''
             else bind_py (if later then modify_py (record_additional requested) else return_py ()) (\<lambda>_.
               decide True ''allowed'')))))))"

end
