(* ===== verification/Exhaustion_Props.thy ===== *)
theory Exhaustion_Props
  imports Exhaustion Budget_Samples
begin

text \<open>
  What the exhaustion controller promises: the decision of \<^verbatim>\<open>admit\<close>, the bounds on continued
  work, and the guarantees of the presets.
\<close>

section \<open>Objects built by the constructors\<close>

definition envelope_made :: "(string \<Rightarrow> iso_time option) \<Rightarrow> continuation_envelope \<Rightarrow> bool" where
  "envelope_made fromiso e \<longleftrightarrow> (\<exists>A F u s d. envelope_of fromiso A F u s d = Inr e)"

definition policy_made :: "(string \<Rightarrow> iso_time option) \<Rightarrow> exhaustion_policy \<Rightarrow> bool" where
  "policy_made fromiso p \<longleftrightarrow>
     (\<exists>pv f u b c ov d out eff after. mk_exhaustion_policy fromiso pv f u b c ov d out eff after = Inr p \<and>
        (\<forall>e. c = ArgObject e \<longrightarrow> envelope_made fromiso e))"

definition controller_made :: "(string \<Rightarrow> iso_time option) \<Rightarrow> exhaustion_controller \<Rightarrow> bool" where
  "controller_made fromiso c \<longleftrightarrow>
     (\<exists>p u n permit t s us. policy_made fromiso p \<and> mk_exhaustion_controller fromiso (ArgObject p) u n permit t s us = Inr c)"

inductive controller_reached :: "(string \<Rightarrow> iso_time option) \<Rightarrow> exhaustion_controller \<Rightarrow> bool" for fromiso where
  made: "controller_made fromiso c \<Longrightarrow> controller_reached fromiso c"
| call: "controller_reached fromiso c \<Longrightarrow> controller_reached fromiso (snd (admit fromiso k n permit us c))"

lemma envelope_madeI: "envelope_of fromiso A F u s d = Inr e \<Longrightarrow> envelope_made fromiso e"
  unfolding envelope_made_def by blast

lemma mk_envelope_made: "mk_continuation_envelope fromiso a f u s d = Inr e \<Longrightarrow> envelope_made fromiso e"
  by (auto simp: mk_continuation_envelope_def bind_sum_Inr_iff intro: envelope_madeI)

lemma default_envelope_made: "envelope_made fromiso (default_envelope A F)"
  by (rule envelope_madeI [of _ A F "Some []" PyNone PyNone])
    (simp add: envelope_of_def usage_tuple_def optional_steps_def optional_time_def default_envelope_def)

lemma merge_envelope_made: "merge_envelope fromiso b ov = Inr e \<Longrightarrow> envelope_made fromiso b \<Longrightarrow> envelope_made fromiso e"
  unfolding merge_envelope_def by (cases ov) (simp, simp only: option.case, rule envelope_madeI)

section \<open>Times\<close>

definition time_at :: "(string \<Rightarrow> iso_time option) \<Rightarrow> string \<Rightarrow> rat \<Rightarrow> bool" where
  "time_at fromiso s t \<longleftrightarrow> parse_iso_datetime fromiso (PyStr s) = Inr t"

lemma time_at_unique: "time_at fromiso s t \<Longrightarrow> time_at fromiso s u \<Longrightarrow> t = u"
  by (simp add: time_at_def)

definition deadline_of :: "exhaustion_policy \<Rightarrow> string \<Rightarrow> bool" where
  "deadline_of p d \<longleftrightarrow>
     policy_deadline p = Some d \<or> (\<exists>e. continuation p = Some e \<and> envelope_deadline e = Some d)"

definition past_deadline :: "(string \<Rightarrow> iso_time option) \<Rightarrow> exhaustion_controller \<Rightarrow> bool" where
  "past_deadline fromiso c \<longleftrightarrow>
     (\<exists>now d t u. validation_time c = Some now \<and> deadline_of (policy c) d \<and> time_at fromiso now u \<and> time_at fromiso d t \<and> t \<le> u)"

definition times_ok :: "(string \<Rightarrow> iso_time option) \<Rightarrow> exhaustion_controller \<Rightarrow> bool" where
  "times_ok fromiso c \<longleftrightarrow>
     (\<forall>now. validation_time c = Some now \<longrightarrow> (\<exists>t. time_at fromiso now t)) \<and>
     (\<forall>d. deadline_of (policy c) d \<longrightarrow> (\<exists>t. time_at fromiso d t) \<and> validation_time c \<noteq> None)"

lemma optional_time_Inr: "optional_time fromiso v = Inr (Some s) \<Longrightarrow> \<exists>t. time_at fromiso s t"
  by (auto simp: optional_time_def time_at_def bind_sum_Inr_iff split: if_splits pyval.splits)

lemma envelope_made_deadline: "envelope_made fromiso e \<Longrightarrow> envelope_deadline e = Some d \<Longrightarrow> \<exists>t. time_at fromiso d t"
  by (auto simp: envelope_made_def envelope_of_def bind_sum_Inr_iff dest!: optional_time_Inr)

lemma policy_made_deadline: "policy_made fromiso p \<Longrightarrow> deadline_of p d \<Longrightarrow> \<exists>t. time_at fromiso d t"
proof -
  assume "policy_made fromiso p" and d: "deadline_of p d"
  then obtain pv f u b c ov dv out eff after where mk: "mk_exhaustion_policy fromiso pv f u b c ov dv out eff after = Inr p"
    and c: "\<forall>e. c = ArgObject e \<longrightarrow> envelope_made fromiso e" unfolding policy_made_def by blast
  have "optional_time fromiso dv = Inr (policy_deadline p)" "optional_instance c = Inr (continuation p)"
    using mk by (auto simp: mk_exhaustion_policy_def bind_sum_Inr_iff split: if_splits)
  moreover have "c = ArgObject e" if "optional_instance c = Inr (Some e)" for e
    using that by (cases c) auto
  ultimately show ?thesis
    using d c optional_time_Inr envelope_made_deadline unfolding deadline_of_def by metis
qed

lemma envelope_deadline_text: "envelope_made fromiso e \<Longrightarrow> envelope_deadline e \<noteq> Some []"
  using envelope_made_deadline [of fromiso e "[]"] by (auto simp: time_at_def parse_iso_datetime_def)

section \<open>The decision\<close>

lemma decide_reason:
  "exact_non_empty_string (PyStr r) = Inr r \<Longrightarrow> decide a r c = (Inr \<lparr>decision_allowed = a, decision_reason = r\<rparr>, c)"
  by (simp add: decide_def mk_admission_decision_def lift_py_def)

lemma exact_string:
  "s \<noteq> [] \<Longrightarrow> \<not> py_space (hd s) \<Longrightarrow> \<not> py_space (last s) \<Longrightarrow> exact_non_empty_string (PyStr s) = Inr s"
  by (simp add: strip_id)

lemma exact_reasons:
  "exact_non_empty_string (PyStr ''missing_continuation'') = Inr ''missing_continuation''"
  "exact_non_empty_string (PyStr ''continuation_deadline_exceeded'') = Inr ''continuation_deadline_exceeded''"
  "exact_non_empty_string (PyStr ''forbidden_work'') = Inr ''forbidden_work''"
  "exact_non_empty_string (PyStr ''new_work_denied'') = Inr ''new_work_denied''"
  "exact_non_empty_string (PyStr ''already_admitted'') = Inr ''already_admitted''"
  "exact_non_empty_string (PyStr ''hard_stop'') = Inr ''hard_stop''"
  "exact_non_empty_string (PyStr ''invalid_permit'') = Inr ''invalid_permit''"
  "exact_non_empty_string (PyStr ''missing_continuation_permit'') = Inr ''missing_continuation_permit''"
  "exact_non_empty_string (PyStr ''usage_exceeds_permit'') = Inr ''usage_exceeds_permit''"
  "exact_non_empty_string (PyStr ''max_additional_usage_exceeded'') = Inr ''max_additional_usage_exceeded''"
  "exact_non_empty_string (PyStr ''max_additional_steps_exceeded'') = Inr ''max_additional_steps_exceeded''"
  "exact_non_empty_string (PyStr ''allowed'') = Inr ''allowed''"
  by (rule exact_string; simp add: py_space_def)+

lemmas decide_run = exact_reasons [THEN decide_reason]

text \<open>What a request of a later epoch needs: a permit or an exempt preset, room in the permit and in the envelope.\<close>

definition exempt_work :: "exhaustion_policy \<Rightarrow> work_kind \<Rightarrow> bool" where
  "exempt_work p kind \<longleftrightarrow>
     preset p = Some CheckpointAndPause \<and> kind \<in> {Continue CheckpointWork, Continue CleanupWork} \<or>
     preset p = Some DegradeThenFinalize \<and> kind \<in> {Continue DeclaredFinalization, Continue CleanupWork}"

definition permit_in_use :: "exhaustion_controller \<Rightarrow> budget_permit option \<Rightarrow> budget_permit option" where
  "permit_in_use c permit = (if permit = None then continuation_permit c else permit)"

definition usage_fits :: "exhaustion_controller \<Rightarrow> continuation_envelope \<Rightarrow> usage_amount list \<Rightarrow> bool" where
  "usage_fits c e requested \<longleftrightarrow>
     (\<forall>(k, x) \<in> set (usage_totals (used_additional_usage c @ requested)). x \<le> amount_of (usage_totals (max_additional_usage e)) k)"

definition later_work_ok ::
  "(string \<Rightarrow> iso_time option) \<Rightarrow> exhaustion_controller \<Rightarrow> continuation_envelope \<Rightarrow> work_kind \<Rightarrow> budget_permit option
     \<Rightarrow> usage_amount list \<Rightarrow> bool" where
  "later_work_ok fromiso c e kind permit requested \<longleftrightarrow>
     kind \<in> {Continue DeclaredFinalization, Continue CheckpointWork, Continue CleanupWork} \<and>
     (case permit_in_use c permit of
        None \<Rightarrow> exempt_work (policy c) kind \<and> requested = []
      | Some p \<Rightarrow> valid_permit fromiso c p \<and> (requested \<noteq> [] \<longrightarrow> permit_allows p requested)) \<and>
     (requested \<noteq> [] \<and> max_additional_usage e \<noteq> [] \<longrightarrow> usage_fits c e requested) \<and>
     (\<forall>n. max_additional_steps e = Some n \<longrightarrow> used_additional_steps c < n)"

definition may_continue ::
  "(string \<Rightarrow> iso_time option) \<Rightarrow> exhaustion_controller \<Rightarrow> continuation_envelope \<Rightarrow> work_kind \<Rightarrow> int \<Rightarrow> budget_permit option
     \<Rightarrow> usage_amount list \<Rightarrow> bool" where
  "may_continue fromiso c e kind epoch permit requested \<longleftrightarrow>
     \<not> past_deadline fromiso c \<and> \<not> work_forbidden e kind \<and> (deny_new_work (policy c) \<longrightarrow> work_allowed e kind) \<and>
     (kind = Continue AlreadyAdmittedChildWork \<and> epoch \<le> controller_epoch c \<or>
      (preset (policy c) = Some HardStop \<longrightarrow> kind = Continue CleanupWork) \<and>
      (\<forall>p. permit = Some p \<longrightarrow> valid_permit fromiso c p) \<and>
      (controller_epoch c < epoch \<longrightarrow> later_work_ok fromiso c e kind permit requested))"

lemma deadline_run:
  assumes "times_ok fromiso c" "continuation (policy c) = Some e"
  shows "deadline_exceeded fromiso c e = Inr (past_deadline fromiso c)"
proof (cases "validation_time c")
  case None
  then show ?thesis by (simp add: deadline_exceeded_def past_deadline_def)
next
  case (Some now)
  obtain u where u: "time_at fromiso now u" using assms(1) Some by (auto simp: times_ok_def)
  have d: "\<exists>t. time_at fromiso d t" if "deadline_of (policy c) d" for d using assms(1) that by (auto simp: times_ok_def)
  let ?ds = "List.map_filter id [policy_deadline (policy c), envelope_deadline e]"
  have mem: "set ?ds = {d. deadline_of (policy c) d}"
    using assms(2) by (auto simp: deadline_of_def map_filter_def split: option.splits)
  define time where "time d = (THE t. time_at fromiso d t)" for d
  have time: "time_at fromiso d (time d)" if m: "d \<in> set ?ds" for d
  proof -
    obtain t where t: "time_at fromiso d t" using d m unfolding mem by blast
    then have "time d = t" unfolding time_def using time_at_unique by (intro the_equality)
    then show ?thesis using t by simp
  qed
  have "map_sum_list (\<lambda>d. parse_iso_datetime fromiso (PyStr d)) ?ds = Inr (map time ?ds)"
    using time by (intro map_sum_list_ok) (simp add: time_at_def)
  moreover have "past_deadline fromiso c \<longleftrightarrow> (\<exists>d \<in> set ?ds. time d \<le> u)"
    (is "?L \<longleftrightarrow> ?R")
  proof
    assume ?L
    then obtain d t where "d \<in> set ?ds" "time_at fromiso d t" "t \<le> u"
      using u Some time_at_unique unfolding past_deadline_def mem by force
    then show ?R using time time_at_unique by metis
  next
    assume ?R
    then show ?L using time u Some unfolding past_deadline_def mem by blast
  qed
  ultimately show ?thesis using u Some by (simp add: deadline_exceeded_def time_at_def list_ex_iff)
qed


lemma usage_exceeds_iff: "usage_exceeds c e requested \<longleftrightarrow> \<not> usage_fits c e requested"
  by (simp add: usage_exceeds_def usage_fits_def list_ex_iff case_prod_unfold not_le)

lemma refusal_reason: "additional_refusal fromiso c e kind permit requested = Some r \<Longrightarrow>
   decide a r c' = (Inr \<lparr>decision_allowed = a, decision_reason = r\<rparr>, c')"
  by (auto simp: additional_refusal_def Let_def decide_run split: if_splits)

lemma refusal_iff:
  "kind \<in> {Continue DeclaredFinalization, Continue CheckpointWork, Continue CleanupWork} \<Longrightarrow>
   additional_refusal fromiso c e kind permit requested = None \<and>
     \<not> (case max_additional_steps e of None \<Rightarrow> False | Some n \<Rightarrow> n \<le> used_additional_steps c) \<longleftrightarrow>
   later_work_ok fromiso c e kind permit requested"
  unfolding additional_refusal_def later_work_ok_def permit_in_use_def exempt_work_def Let_def usage_exceeds_iff
  by (cases permit; cases "continuation_permit c"; cases "max_additional_steps e") auto

definition admit_outcome ::
  "int \<Rightarrow> usage_amount list \<Rightarrow> exhaustion_controller \<Rightarrow> admission_decision \<Rightarrow> exhaustion_controller" where
  "admit_outcome epoch requested c d =
     (if decision_allowed d \<and> controller_epoch c < epoch then record_additional requested c else c)"

lemma admit_run:
  assumes ok: "times_ok fromiso c" and e: "continuation (policy c) = Some e"
    and args: "exhaustion_non_negative epoch_v = Inr epoch" "literal_arg VALID_WORK_KINDS kind_v = Inr kind"
      "optional_instance permit_v = Inr permit" "requested_usage_list requested_v = Inr requested"
  shows "\<exists>d. admit fromiso kind_v epoch_v permit_v requested_v c = (Inr d, admit_outcome epoch requested c d) \<and>
    (decision_allowed d \<longleftrightarrow> may_continue fromiso c e kind epoch permit requested)"
proof -
  let ?later = "controller_epoch c < epoch"
  let ?kinds = "{Continue DeclaredFinalization, Continue CheckpointWork, Continue CleanupWork}"
  let ?steps = "case max_additional_steps e of None \<Rightarrow> False | Some n \<Rightarrow> n \<le> used_additional_steps c"
  define ref where "ref = additional_refusal fromiso c e kind permit requested"
  have r: "decide a r c' = (Inr \<lparr>decision_allowed = a, decision_reason = r\<rparr>, c')" if "ref = Some r" for a r c'
    using refusal_reason that unfolding ref_def .
  have iff: "later_work_ok fromiso c e kind permit requested \<longleftrightarrow> kind \<in> ?kinds \<and> ref = None \<and> \<not> ?steps"
    using refusal_iff [of kind fromiso c e permit requested] unfolding ref_def
    by (cases "kind \<in> ?kinds") (simp_all add: later_work_ok_def)
  define b bad child where "b = (kind \<in> ?kinds)" and "bad = (case permit of None \<Rightarrow> False | Some p \<Rightarrow> \<not> valid_permit fromiso c p)"
    and "child = (kind = Continue AlreadyAdmittedChildWork \<and> epoch \<le> controller_epoch c)"
  have good: "(\<forall>p. permit = Some p \<longrightarrow> valid_permit fromiso c p) \<longleftrightarrow> \<not> bad" by (simp add: bad_def split: option.splits)
  have child: "child = False" if ?later using that by (simp add: child_def)
  define run where "run = admit fromiso kind_v epoch_v permit_v requested_v c"
  note run = run_def [unfolded admit_def Let_def bind_py_def lift_py_def gets_py_def args sum.case prod.case e option.case
      deadline_run [OF ok e], folded ref_def, folded b_def bad_def child_def]
  show ?thesis
    unfolding may_continue_def iff b_def [symmetric] run_def [symmetric] good child_def [symmetric] run
    by (cases ref)
      (simp_all add: modify_py_def return_py_def decide_run r admit_outcome_def child)
qed


section \<open>Runs of a controller\<close>

lemma admit_frame:
  "snd (admit fromiso k n permit us c) = c \<or> (\<exists>req. snd (admit fromiso k n permit us c) = record_additional req c)"
proof (rule wp_state)
  show "wp (admit fromiso k n permit us) (\<lambda>_ c'. c' = c \<or> (\<exists>req. c' = record_additional req c))
      (\<lambda>_ c'. c' = c \<or> (\<exists>req. c' = record_additional req c)) c"
    unfolding admit_def Let_def decide_def by (intro wp_intros) (auto simp: wp_rules split: sum.splits)
qed

lemma record_fields [simp]:
  "policy (record_additional req c) = policy c" "validation_time (record_additional req c) = validation_time c"
  "controller_epoch (record_additional req c) = controller_epoch c"
  "used_additional_steps (record_additional req c) = used_additional_steps c + 1"
  "used_additional_usage (record_additional req c) = used_additional_usage c @ req"
  by (simp_all add: record_additional_def)

type_synonym admit_request = "pyval \<times> pyval \<times> budget_permit instance_arg \<times> amounts_arg option"

definition admit_effect :: "(string \<Rightarrow> iso_time option) \<Rightarrow> admit_request \<Rightarrow> exhaustion_controller \<Rightarrow> exhaustion_controller" where
  "admit_effect fromiso q c = (case q of (k, n, permit, us) \<Rightarrow> snd (admit fromiso k n permit us c))"

lemma admit_effect_frame:
  "admit_effect fromiso q c = c \<or> (\<exists>req. admit_effect fromiso q c = record_additional req c)"
  unfolding admit_effect_def by (cases q) (simp add: admit_frame)

lemma effect_policy [simp]:
  "policy (admit_effect fromiso q c) = policy c" "controller_epoch (admit_effect fromiso q c) = controller_epoch c"
  "validation_time (admit_effect fromiso q c) = validation_time c"
  using admit_effect_frame [of fromiso q c] by auto

lemma times_ok_made:
  assumes "controller_made fromiso c"
  shows "times_ok fromiso c"
proof -
  obtain p u n permit t s us where p: "policy_made fromiso p"
    and mk: "mk_exhaustion_controller fromiso (ArgObject p) u n permit t s us = Inr c"
    using assms unfolding controller_made_def by blast
  have c: "policy c = p" "optional_time fromiso t = Inr (validation_time c)"
    "\<not> ((policy_deadline p \<noteq> None \<or> (case continuation p of None \<Rightarrow> False | Some e \<Rightarrow> envelope_deadline e \<noteq> None)) \<and>
        validation_time c = None)"
    using mk by (auto simp: mk_exhaustion_controller_def bind_sum_Inr_iff split: if_splits)
  have "validation_time c \<noteq> None" if "deadline_of p d" for d
    using c(3) that unfolding deadline_of_def by (auto split: option.splits)
  moreover have "\<exists>u. time_at fromiso now u" if "validation_time c = Some now" for now
    using c(2) that by (simp add: optional_time_Inr)
  ultimately show ?thesis using policy_made_deadline [OF p] c(1) unfolding times_ok_def by blast
qed

interpretation controller: py_machine "controller_made fromiso" "admit_effect fromiso" "times_ok fromiso" for fromiso
  by unfold_locales (erule times_ok_made, simp add: times_ok_def)


lemma reached_times: "controller_reached fromiso c \<Longrightarrow> times_ok fromiso c"
proof (induction rule: controller_reached.induct)
  case (made c)
  then show ?case by (rule times_ok_made)
next
  case (call c k n permit us)
  then show ?case using controller.inv_call [of fromiso c "(k, n, permit, us)"] by (simp add: admit_effect_def)
qed

lemma admit_cases:
  assumes "times_ok fromiso c" "continuation (policy c) = Some e"
  obtains (error) err where "admit fromiso k n permit us c = (Inl err, c)"
  | (decision) d epoch kind p req where "n = PyInt epoch" "literal_arg VALID_WORK_KINDS k = Inr kind"
      "optional_instance permit = Inr p" "requested_usage_list us = Inr req"
      "admit fromiso k n permit us c = (Inr d, admit_outcome epoch req c d)"
      "decision_allowed d \<longleftrightarrow> may_continue fromiso c e kind epoch p req"
proof (cases "exhaustion_non_negative n"; cases "literal_arg VALID_WORK_KINDS k"; cases "optional_instance permit";
    cases "requested_usage_list us")
  fix epoch kind p req
  assume args: "exhaustion_non_negative n = Inr epoch" "literal_arg VALID_WORK_KINDS k = Inr kind"
    "optional_instance permit = Inr p" "requested_usage_list us = Inr req"
  moreover have "n = PyInt epoch" using args(1) by (cases n) (auto split: if_splits)
  ultimately show thesis using admit_run [OF assms args] decision by blast
qed (auto simp: admit_def bind_py_def lift_py_def intro: error)


text \<open>The admissions of later work over a run.\<close>

definition admits_later :: "(string \<Rightarrow> iso_time option) \<Rightarrow> admit_request \<Rightarrow> exhaustion_controller \<Rightarrow> bool" where
  "admits_later fromiso q c \<longleftrightarrow>
     (case q of (k, n, permit, us) \<Rightarrow>
        (\<exists>d epoch. fst (admit fromiso k n permit us c) = Inr d \<and> decision_allowed d \<and> n = PyInt epoch \<and> controller_epoch c < epoch))"

primrec later_admissions :: "(string \<Rightarrow> iso_time option) \<Rightarrow> admit_request list \<Rightarrow> exhaustion_controller \<Rightarrow> int" where
  "later_admissions fromiso [] c = 0"
| "later_admissions fromiso (q # qs) c =
     (if admits_later fromiso q c then 1 else 0) + later_admissions fromiso qs (admit_effect fromiso q c)"

lemma effect_cases_controller:
  assumes "times_ok fromiso c" "continuation (policy c) = Some e"
  obtains (same) "\<not> admits_later fromiso q c" "admit_effect fromiso q c = c"
  | (later) kind p req where "admits_later fromiso q c" "admit_effect fromiso q c = record_additional req c"
      "later_work_ok fromiso c e kind p req"
proof -
  obtain k n permit us where q: "q = (k, n, permit, us)" by (cases q) auto
  show thesis
    using assms
  proof (cases rule: admit_cases [of fromiso c e k n permit us])
    case (error err)
    then show ?thesis using same by (simp add: q admits_later_def admit_effect_def)
  next
    case (decision d epoch kind p req)
    show ?thesis
    proof (cases "decision_allowed d \<and> controller_epoch c < epoch")
      case True
      then have "later_work_ok fromiso c e kind p req" using decision(6) by (auto simp: may_continue_def)
      then show ?thesis using True decision(1,5) later by (auto simp: q admits_later_def admit_effect_def admit_outcome_def)
    next
      case False
      then show ?thesis using decision(1,5) same by (auto simp: q admits_later_def admit_effect_def admit_outcome_def)
    qed
  qed
qed

section \<open>Properties\<close>

text \<open>
  C33: The decision of \<^verbatim>\<open>admit\<close> on a controller built and used through its methods: the request
  is allowed exactly when the deadlines are not reached, the work is allowed by the policy,
  and work of a later epoch is finalization, checkpoint or cleanup under a valid permit (or
  an exempt preset) with room in the permit and the envelope. Only allowed later work is
  recorded, once.
\<close>
theorem admit_decision:
  assumes "controller_reached fromiso c" and "continuation (policy c) = Some e"
    and "exhaustion_non_negative epoch_v = Inr epoch" and "literal_arg VALID_WORK_KINDS kind_v = Inr kind"
    and "optional_instance permit_v = Inr permit" and "requested_usage_list requested_v = Inr requested"
  shows "\<exists>d. admit fromiso kind_v epoch_v permit_v requested_v c = (Inr d, admit_outcome epoch requested c d) \<and>
    (decision_allowed d \<longleftrightarrow> may_continue fromiso c e kind epoch permit requested)"
  by (rule admit_run [OF reached_times [OF assms(1)] assms(2-)])

text \<open>
  C24: Over any sequence of requests the later work that is admitted stays within
  \<^verbatim>\<open>max_additional_steps\<close>, and the controller counts each admission once.
\<close>
theorem continuation_steps_bounded:
  assumes "controller_reached fromiso c" and "continuation (policy c) = Some e" and "max_additional_steps e = Some n"
    and "used_additional_steps c \<le> n"
  shows "used_additional_steps (fold (admit_effect fromiso) qs c) = used_additional_steps c + later_admissions fromiso qs c \<and>
    used_additional_steps c + later_admissions fromiso qs c \<le> n"
proof -
  let ?counted = "\<lambda>c. used_additional_steps (fold (admit_effect fromiso) qs c) = used_additional_steps c + later_admissions fromiso qs c \<and>
    used_additional_steps c + later_admissions fromiso qs c \<le> n"
  have "times_ok fromiso c \<Longrightarrow> continuation (policy c) = Some e \<Longrightarrow> used_additional_steps c \<le> n \<Longrightarrow> ?counted c" for c
  proof (induction qs arbitrary: c)
    case (Cons q qs)
    have t: "times_ok fromiso (admit_effect fromiso q c)" by (rule controller.inv_call [OF Cons.prems(1)])
    show ?case using Cons.prems(1,2)
    proof (cases rule: effect_cases_controller [of fromiso c e q])
      case same
      show ?thesis using Cons.IH [OF Cons.prems] by (simp add: same)
    next
      case (later kind p req)
      then have "used_additional_steps (admit_effect fromiso q c) \<le> n" using assms(3) by (auto simp: later_work_ok_def)
      then show ?thesis using Cons.IH [OF t] Cons.prems(2) later(1,2) by simp
    qed
  qed simp
  then show ?thesis using reached_times [OF assms(1)] assms(2,4) by blast
qed

text \<open>
  Over any sequence of requests the usage recorded for later work stays within
  \<^verbatim>\<open>max_additional_usage\<close> for each kind, unit and dimensions.
\<close>
theorem continuation_usage_bounded:
  assumes "controller_reached fromiso c" and "continuation (policy c) = Some e" and "max_additional_usage e \<noteq> []"
    and "\<forall>(k, x) \<in> set (usage_totals (used_additional_usage c)). x \<le> amount_of (usage_totals (max_additional_usage e)) k"
  shows "\<forall>(k, x) \<in> set (usage_totals (used_additional_usage (fold (admit_effect fromiso) qs c))).
    x \<le> amount_of (usage_totals (max_additional_usage e)) k"
proof -
  let ?fits = "\<lambda>c. \<forall>(k, x) \<in> set (usage_totals (used_additional_usage c)). x \<le> amount_of (usage_totals (max_additional_usage e)) k"
  have "times_ok fromiso c \<Longrightarrow> continuation (policy c) = Some e \<Longrightarrow> ?fits c \<Longrightarrow> ?fits (fold (admit_effect fromiso) qs c)" for c
  proof (induction qs arbitrary: c)
    case (Cons q qs)
    have t: "times_ok fromiso (admit_effect fromiso q c)" by (rule controller.inv_call [OF Cons.prems(1)])
    have "?fits (admit_effect fromiso q c)" using Cons.prems(1,2)
    proof (cases rule: effect_cases_controller [of fromiso c e q])
      case same
      then show ?thesis using Cons.prems(3) by simp
    next
      case (later kind p req)
      then show ?thesis using assms(3) Cons.prems(3) by (cases "req = []") (auto simp: later_work_ok_def usage_fits_def)
    qed
    then show ?case using Cons.IH [OF t] Cons.prems(2) by simp
  qed simp
  then show ?thesis using reached_times [OF assms(1)] assms(2,4) by blast
qed


text \<open>The continuation work a preset allows by itself.\<close>

primrec preset_work :: "exhaustion_preset \<Rightarrow> continuation_work set" where
  "preset_work FinishCurrentTurn = {AlreadyAdmittedChildWork, DeclaredFinalization, CheckpointWork, CleanupWork}"
| "preset_work FinishCurrentCall = {CurrentProviderCall, CleanupWork}"
| "preset_work FinishCurrentStep = {CurrentProviderCall, CleanupWork}"
| "preset_work CheckpointAndPause = {CheckpointWork, CleanupWork}"
| "preset_work HardStop = {CleanupWork}"
| "preset_work DegradeThenFinalize = {DeclaredFinalization, CleanupWork}"
| "preset_work RequestExtension = {CheckpointWork, CleanupWork}"

lemma merge_allowed: "merge_envelope fromiso b ov = Inr e \<Longrightarrow>
   allowed_work e = allowed_work b \<union> (case ov of None \<Rightarrow> {} | Some x \<Rightarrow> allowed_work x)"
  by (cases ov) (auto simp: merge_envelope_def envelope_of_def bind_sum_Inr_iff)

lemma preset_policy_Inr:
  assumes "preset_policy fromiso pv uv ov b flight delivery result after = Inr p"
  shows "\<exists>e. merge_envelope fromiso b ov = Inr e \<and> continuation p = Some e \<and> deny_new_work p \<and> policy_deadline p = None \<and>
    (if pv = PyNone then preset p = None else \<exists>x. literal_arg VALID_EXHAUSTION_PRESETS pv = Inr x \<and> preset p = Some x)"
  using assms by (auto simp: preset_policy_def mk_exhaustion_policy_def optional_time_def bind_sum_Inr_iff)

lemma preset_arg: "literal_arg VALID_EXHAUSTION_PRESETS (PyStr s) = Inr x \<longleftrightarrow> s = preset_name x"
  by (cases x) (auto simp: literal_arg_def VALID_EXHAUSTION_PRESETS_def split: option.splits if_splits)

lemma preset_branch:
  assumes "preset_policy fromiso (PyStr (preset_name y)) uv ov (default_envelope (preset_work y) F) flight delivery result after = Inr p"
    and "preset p = Some x"
  shows "\<exists>e. continuation p = Some e \<and> deny_new_work p \<and>
    allowed_work e \<subseteq> preset_work x \<union> (case ov of None \<Rightarrow> {} | Some ov' \<Rightarrow> allowed_work ov')"
proof -
  have "preset_name y = preset_name x \<Longrightarrow> y = x" by (cases y; cases x) simp_all
  then show ?thesis using preset_policy_Inr [OF assms(1)] assms(2) merge_allowed
    by (auto simp: preset_arg default_envelope_def)
qed

lemma from_preset_Inr:
  assumes "from_preset fromiso pv uv ov = Inr p" "preset p = Some x"
  shows "\<exists>e. continuation p = Some e \<and> deny_new_work p \<and>
    allowed_work e \<subseteq> preset_work x \<union> (case ov of None \<Rightarrow> {} | Some ov' \<Rightarrow> allowed_work ov')"
proof (cases "pv \<in> PyStr ` preset_name ` {FinishCurrentTurn, HardStop, CheckpointAndPause, DegradeThenFinalize, RequestExtension}")
  case True
  then show ?thesis
    using assms preset_branch [of fromiso FinishCurrentTurn uv ov _ _ _ _ _ p x] preset_branch [of fromiso HardStop uv ov _ _ _ _ _ p x]
      preset_branch [of fromiso CheckpointAndPause uv ov _ _ _ _ _ p x] preset_branch [of fromiso DegradeThenFinalize uv ov _ _ _ _ _ p x]
      preset_branch [of fromiso RequestExtension uv ov _ _ _ _ _ p x]
    by (auto simp: from_preset_def)
next
  case False
  then obtain out where p: "mk_exhaustion_policy fromiso pv (PyStr ''finish_current_unit'') uv (PyBool True)
      (ArgObject (case ov of Some e \<Rightarrow> e | None \<Rightarrow> default_envelope {CurrentProviderCall, CleanupWork} {}))
      (Some []) PyNone out (PyStr ''preserve_atomicity'') (PyStr ''reject'') = Inr p"
    using assms(1) by (auto simp: from_preset_def bind_sum_Inr_iff)
  have e: "continuation p = Some (case ov of Some e \<Rightarrow> e | None \<Rightarrow> default_envelope {CurrentProviderCall, CleanupWork} {})"
    "deny_new_work p" "literal_arg VALID_EXHAUSTION_PRESETS pv = Inr x"
    using p assms(2) by (auto simp: mk_exhaustion_policy_def bind_sum_Inr_iff split: if_splits)
  then obtain s where s: "pv = PyStr s" by (auto simp: literal_arg_def split: pyval.splits)
  then have "x = FinishCurrentCall \<or> x = FinishCurrentStep" using e(3) False by (cases x) (auto simp: preset_arg)
  then show ?thesis using e(1,2) by (auto simp: default_envelope_def split: option.splits)
qed

text \<open>
  Under a policy built from a preset every request the controller admits is continuation
  work that the preset or the given envelope allows, so no forbidden kind of work ever runs;
  under \<^verbatim>\<open>hard_stop\<close> it is cleanup or a child admitted before.
\<close>
theorem preset_admits_only_listed_work:
  assumes "from_preset fromiso pv uv ov = Inr (policy c)" and "preset (policy c) = Some x"
    and "controller_reached fromiso c" and "admit fromiso k (PyInt epoch) permit us c = (Inr d, c')" and "decision_allowed d"
  shows "\<exists>w. literal_arg VALID_WORK_KINDS k = Inr (Continue w) \<and>
    w \<in> preset_work x \<union> (case ov of None \<Rightarrow> {} | Some ov' \<Rightarrow> allowed_work ov') \<and>
    (x = HardStop \<longrightarrow> w = CleanupWork \<or> w = AlreadyAdmittedChildWork \<and> epoch \<le> controller_epoch c)"
proof -
  obtain e where e: "continuation (policy c) = Some e" "deny_new_work (policy c)"
    "allowed_work e \<subseteq> preset_work x \<union> (case ov of None \<Rightarrow> {} | Some ov' \<Rightarrow> allowed_work ov')"
    using from_preset_Inr [OF assms(1,2)] by blast
  show ?thesis
    using reached_times [OF assms(3)] e(1)
  proof (cases rule: admit_cases [of fromiso c e k "PyInt epoch" permit us])
    case (error err)
    then show ?thesis using assms(4) by simp
  next
    case (decision d' epoch' kind p req)
    then have m: "may_continue fromiso c e kind epoch p req" "epoch' = epoch" using assms(4,5) by auto
    then obtain w where w: "kind = Continue w" "w \<in> allowed_work e"
      using e(2) by (cases kind) (auto simp: may_continue_def)
    then show ?thesis using decision(2) m(1) e(3) assms(2) by (auto simp: may_continue_def)
  qed
qed

lemma preset_name_turn: "''finish_current_turn'' = preset_name x \<longleftrightarrow> x = FinishCurrentTurn"
  by (cases x) simp_all

text \<open>
  In production a policy of the preset \<^verbatim>\<open>finish_current_turn\<close> passes validation exactly when
  the given envelope bounds the continuation by usage, steps or a deadline.
\<close>
theorem finish_current_turn_needs_bound:
  assumes "from_preset fromiso (PyStr ''finish_current_turn'') uv ov = Inr p" and made: "\<And>e. ov = Some e \<Longrightarrow> envelope_made fromiso e"
  shows "validate_exhaustion_policy (ArgObject p) (PyBool True) =
    (case ov of None \<Rightarrow> Inl MissingExhaustionBoundaryError
     | Some e \<Rightarrow> if is_bounded e then Inr [] else Inl MissingExhaustionBoundaryError)"
proof -
  obtain e where p: "merge_envelope fromiso (default_envelope (preset_work FinishCurrentTurn)
      {NewTurn, PlanExpansion, OptionalTask, StateChangingEffect}) ov = Inr e" "continuation p = Some e" "preset p = Some FinishCurrentTurn"
    using preset_policy_Inr [OF assms(1) [unfolded from_preset_def if_True, simplified]] preset_arg [of "preset_name FinishCurrentTurn"]
    by (auto simp: preset_name_turn)
  have "is_bounded e \<longleftrightarrow> (case ov of None \<Rightarrow> False | Some ov' \<Rightarrow> is_bounded ov')"
    using p(1) envelope_deadline_text [OF made] by (cases ov) (auto simp: merge_envelope_def envelope_of_def default_envelope_def bind_sum_Inr_iff is_bounded_def
        usage_tuple_def optional_steps_def optional_time_def split: if_splits option.splits)
  moreover have "exhaustion_unit_name u \<noteq> []" for u by (cases u) simp_all
  ultimately show ?thesis using p by (auto simp: validate_exhaustion_policy_def split: option.splits)
qed


section \<open>Witnesses\<close>

definition sample_iso :: "string \<Rightarrow> iso_time option" where
  "sample_iso s = (if take 4 s = ''2030'' then Some (Aware 2030) else Some (Aware 2020))"

lemma aware_sample: "aware_time sample_iso = sample_time"
  by (simp add: fun_eq_iff aware_time_def sample_iso_def sample_time_def)

definition sample_envelope :: continuation_envelope where
  "sample_envelope = \<lparr>allowed_work = {}, forbidden_work = {}, max_additional_usage = [sample_usage 10],
     max_additional_steps = Some 1, envelope_deadline = Some ''2030-01-01T00:00:00Z''\<rparr>"

definition sample_policy :: exhaustion_policy where
  "sample_policy = \<lparr>preset = Some FinishCurrentTurn, in_flight = FinishCurrentUnit, exhausted_unit = TurnUnit,
     deny_new_work = True, continuation = Some (sample_envelope\<lparr>
        allowed_work := {AlreadyAdmittedChildWork, DeclaredFinalization, CheckpointWork, CleanupWork},
        forbidden_work := {NewTurn, PlanExpansion, OptionalTask, StateChangingEffect}\<rparr>),
     policy_overdraft = [], policy_deadline = None,
     partial_output = \<lparr>client_delivery = ContinueToBoundary, durable_result = CommitWithExhaustionNotice\<rparr>,
     effects = PreserveAtomicity, after_unit = RejectAfter\<rparr>"

definition sample_controller :: exhaustion_controller where
  "sample_controller = \<lparr>policy = sample_policy, atomic_unit_id = ''run'', controller_epoch = 0,
     continuation_permit = Some (sample_permit_rec\<lparr>continuation_profile := ''finish_current_turn''\<rparr>),
     validation_time = Some ''2026-01-01T00:00:00Z'', used_additional_steps = 0, used_additional_usage = []\<rparr>"

lemma sample_times:
  "parse_iso_datetime sample_iso (PyStr ''2030-01-01T00:00:00Z'') = Inr 2030"
  "parse_iso_datetime sample_iso (PyStr ''2026-01-01T00:00:00Z'') = Inr 2020"
  by (simp_all add: parse_iso_datetime_def strip_id py_space_def sample_iso_def)

lemma sample_envelope_made: "envelope_made sample_iso sample_envelope"
  by (rule envelope_madeI [of _ "{}" "{}" "sample_arg 10" "PyInt 1" "PyStr ''2030-01-01T00:00:00Z''"])
    (simp add: envelope_of_def usage_tuple_def sample_arg_def optional_steps_def optional_time_def sample_times sample_envelope_def)

lemma sample_policy_built:
  "from_preset sample_iso (PyStr ''finish_current_turn'') (PyStr ''turn'') (Some sample_envelope) = Inr sample_policy"
  by (simp add: from_preset_def preset_policy_def merge_envelope_def envelope_of_def usage_tuple_def optional_steps_def
      optional_time_def sample_times sample_envelope_def sample_policy_def default_envelope_def mk_exhaustion_policy_def
      mk_partial_output_policy_def literal_arg_def VALID_EXHAUSTION_PRESETS_def VALID_IN_FLIGHT_POLICIES_def
      VALID_EXHAUSTION_UNITS_def VALID_CLIENT_DELIVERY_def VALID_DURABLE_RESULTS_def VALID_EFFECT_POLICIES_def
      VALID_AFTER_UNIT_POLICIES_def)


lemma preset_policy_made:
  assumes "preset_policy fromiso pv uv ov (default_envelope A F) flight delivery result after = Inr p"
  shows "policy_made fromiso p"
proof -
  obtain e out where e: "merge_envelope fromiso (default_envelope A F) ov = Inr e"
    "mk_exhaustion_policy fromiso pv (PyStr flight) uv (PyBool True) (ArgObject e) (Some []) PyNone (ArgObject out)
       (PyStr ''preserve_atomicity'') (PyStr after) = Inr p"
    using assms by (auto simp: preset_policy_def bind_sum_Inr_iff)
  have "envelope_made fromiso e" by (rule merge_envelope_made [OF e(1) default_envelope_made])
  then show ?thesis unfolding policy_made_def using e(2) by blast
qed

lemma sample_controller_reached: "controller_reached sample_iso sample_controller"
proof (rule controller_reached.made)
  have "policy_made sample_iso sample_policy"
    using sample_policy_built unfolding from_preset_def by (simp add: preset_policy_made)
  moreover have "mk_exhaustion_controller sample_iso (ArgObject sample_policy) (PyStr ''run'') (PyInt 0)
      (ArgObject (sample_permit_rec\<lparr>continuation_profile := ''finish_current_turn''\<rparr>)) (PyStr ''2026-01-01T00:00:00Z'')
      (PyInt 0) (Some []) = Inr sample_controller"
    by (simp add: mk_exhaustion_controller_def optional_time_def sample_times usage_tuple_def strip_id py_space_def
        sample_controller_def)
  ultimately show "controller_made sample_iso sample_controller" unfolding controller_made_def by blast
qed

lemma sample_continuation:
  "continuation (policy sample_controller) = Some (sample_envelope\<lparr>
        allowed_work := {AlreadyAdmittedChildWork, DeclaredFinalization, CheckpointWork, CleanupWork},
        forbidden_work := {NewTurn, PlanExpansion, OptionalTask, StateChangingEffect}\<rparr>)"
  by (simp add: sample_controller_def sample_policy_def)

lemma sample_totals: "usage_totals [sample_usage x] = [(sample_key, dec_fix x)]"
  by (simp add: usage_totals_def sample_usage_def add_amount_def amount_of_def dec_add_def amount_key_def sample_key_def)

lemma sample_not_late: "\<not> past_deadline sample_iso sample_controller"
  using deadline_run [OF reached_times [OF sample_controller_reached] sample_continuation]
  by (simp add: deadline_exceeded_def sample_controller_def sample_policy_def sample_envelope_def map_filter_def sample_times)

lemma sample_valid: "valid_permit sample_iso sample_controller (sample_permit_rec\<lparr>continuation_profile := ''finish_current_turn''\<rparr>)"
  by (simp add: valid_permit_def aware_sample is_active_at_def sample_controller_def sample_policy_def sample_permit_rec_def
      sample_ref_def sample_parse)

lemma sample_may_continue:
  "may_continue sample_iso sample_controller (sample_envelope\<lparr>
        allowed_work := {AlreadyAdmittedChildWork, DeclaredFinalization, CheckpointWork, CleanupWork},
        forbidden_work := {NewTurn, PlanExpansion, OptionalTask, StateChangingEffect}\<rparr>)
     (Continue DeclaredFinalization) 1 None [sample_usage 8]"
proof -
  have "later_work_ok sample_iso sample_controller (sample_envelope\<lparr>
        allowed_work := {AlreadyAdmittedChildWork, DeclaredFinalization, CheckpointWork, CleanupWork},
        forbidden_work := {NewTurn, PlanExpansion, OptionalTask, StateChangingEffect}\<rparr>)
     (Continue DeclaredFinalization) None [sample_usage 8]"
    using sample_valid
    by (simp add: later_work_ok_def permit_in_use_def sample_controller_def permit_allows_def sample_permit_rec_def sample_sum
        amount_of_def usage_fits_def sample_totals sample_envelope_def)
  then show ?thesis using sample_not_late
    by (simp add: may_continue_def sample_controller_def sample_policy_def)
qed

lemma sample_request:
  "exhaustion_non_negative (PyInt 1) = Inr 1"
  "literal_arg VALID_WORK_KINDS (PyStr ''declared_finalization'') = Inr (Continue DeclaredFinalization)"
  "optional_instance (ArgNone :: budget_permit instance_arg) = Inr None"
  "requested_usage_list (Some (sample_arg 8)) = Inr [sample_usage 8]"
  by (simp_all add: literal_arg_def VALID_WORK_KINDS_def VALID_CONTINUATION_WORK_def VALID_FORBIDDEN_WORK_def
      requested_usage_list_def usage_tuple_def sample_arg_def)

lemma sample_admitted:
  "\<exists>d. admit sample_iso (PyStr ''declared_finalization'') (PyInt 1) ArgNone (Some (sample_arg 8)) sample_controller =
     (Inr d, record_additional [sample_usage 8] sample_controller) \<and> decision_allowed d"
  using admit_run [OF reached_times [OF sample_controller_reached] sample_continuation sample_request] sample_may_continue
  by (auto simp: admit_outcome_def sample_controller_def)

theorem admit_decision_witness:
  "\<exists>d. admit sample_iso (PyStr ''declared_finalization'') (PyInt 1) ArgNone (Some (sample_arg 8)) sample_controller =
     (Inr d, record_additional [sample_usage 8] sample_controller) \<and> decision_allowed d"
  using admit_decision [OF sample_controller_reached sample_continuation sample_request] sample_may_continue
  by (auto simp: admit_outcome_def sample_controller_def)

definition finalize_request :: admit_request where
  "finalize_request = (PyStr ''declared_finalization'', PyInt 1, ArgNone, Some (sample_arg 8))"

lemma finalize_effect:
  "admits_later sample_iso finalize_request sample_controller"
  "admit_effect sample_iso finalize_request sample_controller = record_additional [sample_usage 8] sample_controller"
  using sample_admitted by (auto simp: admits_later_def admit_effect_def finalize_request_def sample_controller_def)

theorem continuation_steps_bounded_witness:
  "later_admissions sample_iso [finalize_request] sample_controller = 1 \<and>
   later_admissions sample_iso [finalize_request, finalize_request, finalize_request] sample_controller \<le> 1"
proof
  show "later_admissions sample_iso [finalize_request] sample_controller = 1" by (simp add: finalize_effect)
  show "later_admissions sample_iso [finalize_request, finalize_request, finalize_request] sample_controller \<le> 1"
    using continuation_steps_bounded [OF sample_controller_reached sample_continuation, of 1
        "[finalize_request, finalize_request, finalize_request]"]
    by (simp only: sample_envelope_def) (simp add: sample_controller_def)
qed

theorem continuation_usage_bounded_witness:
  "usage_totals (used_additional_usage (admit_effect sample_iso finalize_request sample_controller)) = [(sample_key, 8)] \<and>
   list_all (\<lambda>(k, x). x \<le> amount_of (usage_totals [sample_usage 10]) k)
     (usage_totals (used_additional_usage (fold (admit_effect sample_iso) [finalize_request, finalize_request] sample_controller)))"
proof
  show "usage_totals (used_additional_usage (admit_effect sample_iso finalize_request sample_controller)) = [(sample_key, 8)]"
    by (simp add: finalize_effect) (simp add: sample_controller_def sample_totals)
  have "max_additional_usage sample_envelope = [sample_usage 10]" "used_additional_usage sample_controller = []"
    by (simp_all add: sample_envelope_def sample_controller_def)
  then show "list_all (\<lambda>(k, x). x \<le> amount_of (usage_totals [sample_usage 10]) k)
     (usage_totals (used_additional_usage (fold (admit_effect sample_iso) [finalize_request, finalize_request] sample_controller)))"
    using continuation_usage_bounded [OF sample_controller_reached sample_continuation, of "[finalize_request, finalize_request]"]
    by (simp add: usage_totals_def [of "[]"] list_all_iff)
qed

theorem preset_admits_only_listed_work_witness:
  "\<exists>w. literal_arg VALID_WORK_KINDS (PyStr ''declared_finalization'') = Inr (Continue w) \<and> w \<in> preset_work FinishCurrentTurn"
proof -
  obtain d where "admit sample_iso (PyStr ''declared_finalization'') (PyInt 1) ArgNone (Some (sample_arg 8)) sample_controller =
     (Inr d, record_additional [sample_usage 8] sample_controller)" "decision_allowed d" using sample_admitted by blast
  moreover have "policy sample_controller = sample_policy" "preset sample_policy = Some FinishCurrentTurn" "allowed_work sample_envelope = {}"
    by (simp_all add: sample_controller_def sample_policy_def sample_envelope_def)
  ultimately show ?thesis
    using preset_admits_only_listed_work [of sample_iso _ _ _ sample_controller, OF _ _ sample_controller_reached] sample_policy_built
    by fastforce
qed

theorem finish_current_turn_needs_bound_witness:
  "validate_exhaustion_policy (ArgObject sample_policy) (PyBool True) = Inr []"
  using finish_current_turn_needs_bound [OF sample_policy_built] sample_envelope_made
  by (simp add: is_bounded_def sample_envelope_def)

end
