(* ===== verification/Continuation.thy ===== *)
theory Continuation
  imports Budget_Props Exhaustion_Props
begin

text \<open>
  The ledger and the exhaustion controller together: what the ledger does with a permit it
  issued for one reservation once the controller has admitted work under it.
\<close>

lemma commit_returns:
  assumes l: "ledger_ok l" and op: "open_in l rid r held" and arg: "arg_ok am" "amounts_to_dict am = Inr actual"
    and act: "\<And>h. h \<in> set held \<Longrightarrow> \<exists>a. map_of (accounts l) h = Some a \<and> account_status a = Active"
    and rev: "\<And>h. h \<in> set held \<Longrightarrow> \<exists>a. map_of (accounts l) h = Some a \<and> revision a < MAX_BUDGET_COUNTER"
  shows "\<exists>s l'. commit (PyStr rid) am NoLimit l = (Inr s, l')"
proof -
  let ?req = "sum_amounts (reservation_amounts r)" and ?b = "reservation_budget r"
  obtain revs where revs: "next_revisions held l = (Inr revs, l)" using next_revisions_run [OF rev] by blast
  note d = open_inD [OF l op]
  obtain a where a: "map_of (accounts l) ?b = Some a" using d(3) by blast
  have r: "open_reservation (PyStr rid) l = (Inr (rid, r), l)" "held_budgets rid r l = (Inr held, l)"
    using op by (auto simp: open_in_def open_reservation_Inr held_budgets_def gets_py_def)
  have ok: "map_ok actual" using amounts_to_dict_ok [OF arg] by blast
  have loop: "settle_loop ?b revs ?req actual held ([], []) l =
      (Inr (unused_of ?req actual [], unused_of actual ?req []), post held (sub_all ?req) (add_all actual) (extra_of ?req actual) l)"
    using settle_loop_run [OF d(1) revisions_Inr [OF revs] d(5), of ?b] d(4) by simp
  show ?thesis
    unfolding commit_def Let_def
    using r ensure_active_run [OF act] arg(2) revs loop [unfolded settle_loop_def] ok d(1,2,4) a
    by (simp add: bind_Inr lift_py_def modify_py_def return_py_def check_overdraft_limit_def dict_to_amounts_eq map_ok_unused
        get_item_run)
qed

lemma for_pass: "(\<And>x. x \<in> set xs \<Longrightarrow> f x s = (Inr (), s)) \<Longrightarrow> for_py xs f s = (Inr (), s)"
  by (induction xs) (auto simp: bind_Inr return_py_def)

text \<open>A settlement under a permit returns when the permit, the reservation and the accounts allow it.\<close>

lemma permit_settles:
  assumes l: "ledger_ok l" and op: "open_in l rid r held" and p: "map_of (permits l) (permit_id p) = Some p"
    and unspent: "map_of (permit_spent l) (permit_id p) = Some []" and rid: "rid \<in> set (reservation_refs p)"
    and tokens: "\<And>h. h \<in> set held \<Longrightarrow> \<exists>n. map_of (fencing_tokens p) h = Some n \<and> reservation_token r \<le> n"
    and now: "is_active_at parse_iso p now" and arg: "arg_ok am" "validate_usage_amounts am = Inr us" and allow: "us = [] \<or> permit_allows p us"
    and cover: "\<And>k. amount_of (sum_amounts (authorized_amounts p)) k = amount_of (sum_amounts (reservation_amounts r)) k"
    and act: "\<And>h. h \<in> set held \<Longrightarrow> \<exists>a. map_of (accounts l) h = Some a \<and> account_status a = Active"
    and rev: "\<And>h. h \<in> set held \<Longrightarrow> \<exists>a. map_of (accounts l) h = Some a \<and> revision a < MAX_BUDGET_COUNTER"
  shows "\<exists>s l'. commit_with_permit parse_iso (PyStr (permit_id p)) (PyStr rid) am now NoLimit l = (Inr s, l')"
proof -
  let ?pid = "permit_id p" and ?actual = "sum_amounts us"
  have actual: "amounts_to_dict am = Inr ?actual" by (rule validate_to_dict [OF arg(2)])
  have res: "map_of (reservations l) rid = Some r" "map_of (reservation_holds l) rid = Some held" using op by (auto simp: open_in_def)
  have "for_py held (\<lambda>h. let tok = map_of (fencing_tokens p) h in
      raise_if (case tok of None \<Rightarrow> True | Some n \<Rightarrow> n < reservation_token r) (BudgetPermitFencingError ?pid h (reservation_token r) tok)) l = (Inr (), l)"
    by (rule for_pass) (use tokens in \<open>fastforce simp: Let_def raise_if_def split: option.splits\<close>)
  then have guard: "permit_for_reservation (PyStr ?pid) (PyStr rid) l = (Inr (p, rid), l)"
    using p res rid by (simp add: permit_for_reservation_def bind_Inr gets_py_def lift_py_def py_get_def raise_if_def held_budgets_def return_py_def)
  have "x \<le> amount_of (sum_amounts (authorized_amounts p)) k \<and> dec_fix x = x" if "(k, x) \<in> set ?actual" for k x
  proof -
    have "map_ok ?actual" using amounts_to_dict_ok [OF arg(1) actual] by blast
    then have "amount_of ?actual k = x" using that by (auto simp: amount_of_def dict_mem_iff [OF dict_ok_map])
    then have "dec_fix x = x" using dec_fix_sum [of us k] by simp
    moreover have "us \<noteq> []" using that by (auto simp: sum_amounts_def)
    ultimately show ?thesis using allow that by (auto simp: permit_allows_def Let_def list_all_iff)
  qed
  then have "\<not> list_ex (\<lambda>(k, x). dec_add (amount_of (sum_amounts (reservation_amounts r)) k) (amount_of [] k) < x) ?actual"
    "\<not> list_ex (\<lambda>(k, x). amount_of (sum_amounts (authorized_amounts p)) k < dec_add (amount_of [] k) x) ?actual"
    by (fastforce simp: list_ex_iff dec_add_def dec_fix_sum cover dest: leD)+
  then have fits: "ensure_permit_allows_additional p ?actual rid [] l = (Inr (), l)"
    using res unspent by (simp add: ensure_permit_allows_additional_def bind_Inr Let_def raise_if_def gets_py_def)
  obtain s l1 where com: "commit (PyStr rid) am NoLimit l = (Inr s, l1)" using commit_returns [OF l op arg(1) actual act rev] by blast
  have spent: "map_of (permit_spent l1) ?pid = Some []"
    using wp_result [OF commit_effect [OF l arg(1)] com] permit_spent_post unspent by fastforce
  have limit: "amounts_to_dict (if NoLimit = FalseLimit then Some [] else overdraft_amounts NoLimit) = Inr []"
    by (simp add: overdraft_amounts_def amounts_to_dict_def validate_usage_amounts_def sum_amounts_def)
  have "commit_under_permit p rid am NoLimit l = (Inr s, l1\<lparr>permit_spent := dict_set ?pid (spend_all ?actual []) (permit_spent l1)\<rparr>)"
    unfolding commit_under_permit_def
    using actual fits com spent spend_run [OF spent, of ?actual] limit
    by (simp add: bind_Inr lift_py_def modify_py_def return_py_def)
  then show ?thesis using guard now by (simp add: commit_with_permit_def bind_Inr ensure_permit_not_expired_def raise_if_def)
qed

lemma issued_single:
  assumes l: "ledger_ok l0"
    and issue: "issue_permit parse_iso permit_v (PyList [PyStr rid]) owner_v unit_v epoch_v profile_v digest_v expires_v low_v l0 = (Inr p, l)"
  shows "\<exists>r held. open_in l0 rid r held \<and> reservation_refs p = [rid] \<and>
    (\<forall>k. amount_of (sum_amounts (authorized_amounts p)) k = amount_of (sum_amounts (reservation_amounts r)) k)"
proof -
  have "wp (issue_permit parse_iso permit_v (PyList [PyStr rid]) owner_v unit_v epoch_v profile_v digest_v expires_v low_v)
    (\<lambda>p l'. \<exists>r held. open_in l0 rid r held \<and> reservation_refs p = [rid] \<and>
      authorized_amounts p = listed (add_all (sum_amounts (reservation_amounts r)) [])) (\<lambda>_ _. True) l0"
    unfolding issue_permit_def
  proof (intro wp_intros wp_reads refl)
    fix pid refs acc auth tokens xs p
    assume refs: "budget_string_tuple (PyList [PyStr rid]) = Inr refs" and acc: "acc = (auth, tokens)"
      and xs: "dict_to_amounts auth = Inr xs" and col: "for_acc refs ([], []) collect_reservation l0 = (Inr acc, l0)"
      and p: "mk_budget_permit parse_iso pid refs owner_v unit_v epoch_v xs profile_v digest_v expires_v
      (case low_v of None \<Rightarrow> Some [] | Some low \<Rightarrow> low) tokens = Inr p"
    have refs: "refs = [rid]" using refs by (auto simp: bind_sum_Inr_iff split: if_splits)
    have "collect_reservation rid ([], []) l0 = (Inr (auth, tokens), l0)"
      using col by (auto simp: refs acc bind_py_def return_py_def split: prod.splits sum.splits)
    then obtain r held where "map_of (reservations l0) rid = Some r" "reservation_status r = Reserved"
      "held_budgets rid r l0 = (Inr held, l0)" and auth: "auth = add_all (sum_amounts (reservation_amounts r)) []"
      by (auto simp: collect_reservation_def py_run add_all_def held_budgets_def run_next_def split: option.splits if_splits)
    then have r: "open_in l0 rid r held" by (intro open_inI [OF l])
    show "\<exists>r held. open_in l0 rid r held \<and> reservation_refs p = [rid] \<and>
      authorized_amounts p = listed (add_all (sum_amounts (reservation_amounts r)) [])"
      using r auth mk_budget_permit_Inr [OF p] xs refs open_inD(2) [OF l r] by (auto simp: dict_to_amounts_eq map_ok_add_all)
  qed auto
  from wp_result [OF this issue] obtain r held where r: "open_in l0 rid r held" "reservation_refs p = [rid]"
    "authorized_amounts p = listed (add_all (sum_amounts (reservation_amounts r)) [])" by blast
  have ok: "map_ok (sum_amounts (reservation_amounts r))" by (rule open_inD(2) [OF l r(1)])
  have "amount_of (add_all (sum_amounts (reservation_amounts r)) []) k = amount_of (sum_amounts (reservation_amounts r)) k" for k
    using dec_fix_sum [of "reservation_amounts r" k]
    by (auto simp: amount_of_add_all [OF dict_ok_map [OF ok]] dec_add_def amount_of_def [of "sum_amounts (reservation_amounts r)"] split: option.splits)
  then show ?thesis using r amount_of_listed [OF map_ok_add_all [OF ok map_ok_Nil]] dec_fix_sum by auto
qed

section \<open>A permit issued and used\<close>

lemma run_issue_turn:
  "\<exists>l. issue_permit (aware_time sample_iso) (PyStr ''permit'') (PyList [PyStr ''reservation-000001'']) (Some sample_ref) (Some sample_ref) (PyInt 0)
     (PyStr ''finish_current_turn'') (PyStr ''default'') (PyStr ''2030-01-01T00:00:00Z'') None sample_reserved =
     (Inr (sample_permit_rec\<lparr>continuation_profile := ''finish_current_turn''\<rparr>), l)"
proof -
  have "string_ok ''finish_current_turn''" by code_simp
  then show ?thesis unfolding aware_sample
    by (simp add: sample_eval sample_ledgers sample_permit_rec_def mk_budget_permit_def
      sample_parse permit_allows_def check_fencing_tokens_def sum_amounts_def [of "[]"] validate_usage_amounts_def [of "Some []"]
      budget_strings [unfolded string_ok_def] string_ok_def
      cong: sample_congs)
qed

lemma sample_admitted_permit:
  "\<exists>d c'. admit sample_iso (PyStr ''declared_finalization'') (PyInt 1)
     (ArgObject (sample_permit_rec\<lparr>continuation_profile := ''finish_current_turn''\<rparr>)) (Some (sample_arg 8)) sample_controller = (Inr d, c') \<and> decision_allowed d"
proof -
  let ?p = "sample_permit_rec\<lparr>continuation_profile := ''finish_current_turn''\<rparr>"
  let ?e = "sample_envelope\<lparr>allowed_work := {AlreadyAdmittedChildWork, DeclaredFinalization, CheckpointWork, CleanupWork},
     forbidden_work := {NewTurn, PlanExpansion, OptionalTask, StateChangingEffect}\<rparr>"
  have "optional_instance (ArgObject ?p) = Inr (Some ?p)" by simp
  from admit_run [OF reached_times [OF sample_controller_reached] sample_continuation sample_request(1,2) this sample_request(4)]
  obtain d c' where d: "admit sample_iso (PyStr ''declared_finalization'') (PyInt 1) (ArgObject ?p) (Some (sample_arg 8)) sample_controller = (Inr d, c')"
    "decision_allowed d \<longleftrightarrow> may_continue sample_iso sample_controller ?e (Continue DeclaredFinalization) 1 (Some ?p) [sample_usage 8]"
    by blast
  have "permit_in_use sample_controller (Some ?p) = permit_in_use sample_controller None"
    by (simp add: permit_in_use_def sample_controller_def)
  then have "may_continue sample_iso sample_controller ?e (Continue DeclaredFinalization) 1 (Some ?p) [sample_usage 8]"
    using sample_may_continue sample_valid unfolding may_continue_def later_work_ok_def by simp
  with d show ?thesis by blast
qed

end
