(* ===== verification/Outcome.thy ===== *)
theory Outcome
  imports GB_Prelude
begin

text \<open>
  Outcomes and readiness, \<^verbatim>\<open>outcome.py\<close>: the tagged result of a node port, the dependencies of
  a node's inputs, and the tracker that decides from the published outcomes whether a node
  is ready, waiting or blocked. A payload is any Python object, \<^const>\<open>None\<close> its \<^verbatim>\<open>None\<close>.
\<close>

section \<open>Literals and validators\<close>

datatype outcome_status =
    OutcomeValue | OutcomeAbsent | OutcomeSkipped | OutcomeDenied | OutcomeBudgetExhausted | OutcomePaused
  | OutcomeFailed | OutcomeCancelled

datatype input_mode = ValueMode | OutcomeMode

datatype readiness_kind = Ready | Waiting | Blocked

datatype outcome_error = OutcomeValueError | SignalsReplacedError

definition VALID_OUTCOME_STATUSES :: "(string \<times> outcome_status) list" where
  "VALID_OUTCOME_STATUSES =
     [(''value'', OutcomeValue), (''absent'', OutcomeAbsent), (''skipped'', OutcomeSkipped), (''denied'', OutcomeDenied),
      (''budget_exhausted'', OutcomeBudgetExhausted), (''paused'', OutcomePaused), (''failed'', OutcomeFailed),
      (''cancelled'', OutcomeCancelled)]"

definition VALID_INPUT_MODES :: "(string \<times> input_mode) list" where
  "VALID_INPUT_MODES = [(''value'', ValueMode), (''outcome'', OutcomeMode)]"

definition VALID_READINESS_KINDS :: "(string \<times> readiness_kind) list" where
  "VALID_READINESS_KINDS = [(''ready'', Ready), (''waiting'', Waiting), (''blocked'', Blocked)]"

definition VALID_RESOLVED_INPUT_KINDS :: "(string \<times> input_mode) list" where
  "VALID_RESOLVED_INPUT_KINDS = [(''value'', ValueMode), (''outcome'', OutcomeMode)]"

text \<open>Membership of a literal: \<^verbatim>\<open>isinstance(value, str) and value in VALID\<close>.\<close>

definition outcome_literal :: "(string \<times> 'b) list \<Rightarrow> pyval \<Rightarrow> outcome_error + 'b" where
  "outcome_literal names v =
     (case v of
        PyStr s \<Rightarrow> (case map_of names s of None \<Rightarrow> Inl OutcomeValueError | Some x \<Rightarrow> Inr x)
      | _ \<Rightarrow> Inl OutcomeValueError)"

fun outcome_string :: "pyval \<Rightarrow> outcome_error + string" where
  "outcome_string (PyStr s) =
     (if py_strip s = [] then Inl OutcomeValueError
      else if has_control s then Inl OutcomeValueError
      else Inr s)"
| "outcome_string _ = Inl OutcomeValueError"

definition outcome_optional_string :: "pyval \<Rightarrow> outcome_error + string option" where
  "outcome_optional_string v =
     (if v = PyNone then Inr None else bind_sum (outcome_string v) (\<lambda>s. Inr (Some s)))"

text \<open>The stripped form of a validated name.\<close>

definition outcome_name :: "pyval \<Rightarrow> outcome_error + string" where
  "outcome_name v = bind_sum (outcome_string v) (\<lambda>s. Inr (py_strip s))"

fun outcome_instance :: "'b instance_arg \<Rightarrow> outcome_error + 'b" where
  "outcome_instance (ArgObject x) = Inr x"
| "outcome_instance _ = Inl OutcomeValueError"

fun outcome_optional_instance :: "'b instance_arg \<Rightarrow> outcome_error + 'b option" where
  "outcome_optional_instance ArgNone = Inr None"
| "outcome_optional_instance (ArgObject x) = Inr (Some x)"
| "outcome_optional_instance ArgOther = Inl OutcomeValueError"

section \<open>Metadata\<close>

abbreviation MAX_METADATA_DEPTH :: nat where
  "MAX_METADATA_DEPTH \<equiv> 64"

abbreviation MAX_METADATA_NODES :: nat where
  "MAX_METADATA_NODES \<equiv> 10000"

definition metadata_key :: "pyval \<Rightarrow> outcome_error + string" where
  "metadata_key v = bind_sum (outcome_string v) (\<lambda>k. if k \<noteq> py_strip k then Inl OutcomeValueError else Inr k)"

text \<open>
  \<^verbatim>\<open>_freeze_metadata_value\<close> with the node counter passed along. The values of the model are
  finite trees, so the search for recursive containers finds none.
\<close>

fun freeze_metadata_value :: "nat \<Rightarrow> nat \<Rightarrow> pyval \<Rightarrow> outcome_error + pyval \<times> nat"
and freeze_metadata_items ::
  "nat \<Rightarrow> nat \<Rightarrow> (pyval \<times> pyval) list \<Rightarrow> (pyval \<times> pyval) list \<Rightarrow> outcome_error + (pyval \<times> pyval) list \<times> nat"
and freeze_metadata_list :: "nat \<Rightarrow> nat \<Rightarrow> pyval list \<Rightarrow> outcome_error + pyval list \<times> nat" where
  "freeze_metadata_value depth n v =
     (if MAX_METADATA_DEPTH < depth then Inl OutcomeValueError
      else if MAX_METADATA_NODES < n + 1 then Inl OutcomeValueError
      else case v of
        PyDict items \<Rightarrow>
          bind_sum (freeze_metadata_items (depth + 1) (n + 1) [] items) (\<lambda>(snapshot, m). Inr (PyDict snapshot, m))
      | PyList xs \<Rightarrow> bind_sum (freeze_metadata_list (depth + 1) (n + 1) xs) (\<lambda>(ys, m). Inr (PyTuple ys, m))
      | PyTuple xs \<Rightarrow> bind_sum (freeze_metadata_list (depth + 1) (n + 1) xs) (\<lambda>(ys, m). Inr (PyTuple ys, m))
      | PyNone \<Rightarrow> Inr (v, n + 1)
      | PyStr s \<Rightarrow> Inr (v, n + 1)
      | PyBool b \<Rightarrow> Inr (v, n + 1)
      | PyInt i \<Rightarrow> Inr (v, n + 1)
      | PyFloat f \<Rightarrow> (case f of FFin x \<Rightarrow> Inr (v, n + 1) | _ \<Rightarrow> Inl OutcomeValueError)
      | PyOther \<Rightarrow> Inl OutcomeValueError)"
| "freeze_metadata_items depth n snapshot [] = Inr (snapshot, n)"
| "freeze_metadata_items depth n snapshot ((k, v) # rest) =
     bind_sum (metadata_key k) (\<lambda>k'.
     bind_sum (freeze_metadata_value depth n v) (\<lambda>(v', m).
     freeze_metadata_items depth m (dict_set (PyStr k') v' snapshot) rest))"
| "freeze_metadata_list depth n [] = Inr ([], n)"
| "freeze_metadata_list depth n (v # rest) =
     bind_sum (freeze_metadata_value depth n v) (\<lambda>(v', m).
     bind_sum (freeze_metadata_list depth m rest) (\<lambda>(ys, m'). Inr (v' # ys, m')))"

declare freeze_metadata_value.simps [simp del]

definition freeze_metadata :: "pyval \<Rightarrow> outcome_error + pyval" where
  "freeze_metadata v =
     (case v of
        PyDict items \<Rightarrow> bind_sum (freeze_metadata_value 0 0 v) (\<lambda>(frozen, m). Inr frozen)
      | _ \<Rightarrow> Inl OutcomeValueError)"

section \<open>Records\<close>

record port_ref =
  node :: string
  port :: string

definition mk_port_ref :: "pyval \<Rightarrow> pyval \<Rightarrow> outcome_error + port_ref" where
  "mk_port_ref node_v port_v =
     bind_sum (outcome_name node_v) (\<lambda>n.
     bind_sum (outcome_name port_v) (\<lambda>p.
     Inr \<lparr>node = n, port = p\<rparr>))"

record 'a outcome =
  status :: outcome_status
  payload :: "'a option"
  outcome_code :: "string option"
  outcome_message :: "string option"
  retryable :: bool
  metadata :: pyval

definition needs_code :: "outcome_status \<Rightarrow> bool" where
  "needs_code s \<longleftrightarrow>
     s \<in> {OutcomeSkipped, OutcomeDenied, OutcomeBudgetExhausted, OutcomePaused, OutcomeFailed, OutcomeCancelled}"

definition mk_outcome ::
  "pyval \<Rightarrow> 'a option \<Rightarrow> pyval \<Rightarrow> pyval \<Rightarrow> pyval \<Rightarrow> pyval \<Rightarrow> outcome_error + 'a outcome" where
  "mk_outcome status_v pay code_v message_v retryable_v metadata_v =
     bind_sum (outcome_literal VALID_OUTCOME_STATUSES status_v) (\<lambda>st.
     bind_sum (outcome_optional_string code_v) (\<lambda>code.
     bind_sum (outcome_optional_string message_v) (\<lambda>msg.
     bind_sum (case retryable_v of PyBool b \<Rightarrow> Inr b | _ \<Rightarrow> Inl OutcomeValueError) (\<lambda>retry.
     if needs_code st \<and> code = None then Inl OutcomeValueError
     else if st \<noteq> OutcomeFailed \<and> retry then Inl OutcomeValueError
     else bind_sum (freeze_metadata metadata_v) (\<lambda>meta.
       Inr \<lparr>status = st, payload = pay, outcome_code = code, outcome_message = msg, retryable = retry, metadata = meta\<rparr>)))))"

definition outcome_of_value :: "'a option \<Rightarrow> outcome_error + 'a outcome" where
  "outcome_of_value v = mk_outcome (PyStr ''value'') v PyNone PyNone (PyBool False) (PyDict [])"

definition absent :: "outcome_error + 'a outcome" where
  "absent = mk_outcome (PyStr ''absent'') None PyNone PyNone (PyBool False) (PyDict [])"

definition skipped :: "pyval \<Rightarrow> pyval \<Rightarrow> outcome_error + 'a outcome" where
  "skipped code msg = mk_outcome (PyStr ''skipped'') None code msg (PyBool False) (PyDict [])"

definition denied :: "pyval \<Rightarrow> pyval \<Rightarrow> outcome_error + 'a outcome" where
  "denied decision_id msg = mk_outcome (PyStr ''denied'') None decision_id msg (PyBool False) (PyDict [])"

definition budget_exhausted :: "pyval \<Rightarrow> pyval \<Rightarrow> outcome_error + 'a outcome" where
  "budget_exhausted code msg = mk_outcome (PyStr ''budget_exhausted'') None code msg (PyBool False) (PyDict [])"

definition paused :: "pyval \<Rightarrow> pyval \<Rightarrow> outcome_error + 'a outcome" where
  "paused code msg = mk_outcome (PyStr ''paused'') None code msg (PyBool False) (PyDict [])"

definition failed :: "pyval \<Rightarrow> pyval \<Rightarrow> pyval \<Rightarrow> outcome_error + 'a outcome" where
  "failed code msg retry = mk_outcome (PyStr ''failed'') None code msg retry (PyDict [])"

definition cancelled :: "pyval \<Rightarrow> pyval \<Rightarrow> outcome_error + 'a outcome" where
  "cancelled code msg = mk_outcome (PyStr ''cancelled'') None code msg (PyBool False) (PyDict [])"

record input_dependency =
  dependency_input :: string
  dependency_source :: port_ref
  dependency_mode :: input_mode

definition mk_input_dependency :: "pyval \<Rightarrow> port_ref instance_arg \<Rightarrow> pyval \<Rightarrow> outcome_error + input_dependency" where
  "mk_input_dependency input_v source_v mode_v =
     bind_sum (outcome_name input_v) (\<lambda>i.
     bind_sum (outcome_instance source_v) (\<lambda>src.
     bind_sum (outcome_literal VALID_INPUT_MODES mode_v) (\<lambda>m.
     Inr \<lparr>dependency_input = i, dependency_source = src, dependency_mode = m\<rparr>)))"

definition value_dependency :: "pyval \<Rightarrow> port_ref instance_arg \<Rightarrow> outcome_error + input_dependency" where
  "value_dependency input_v source_v = mk_input_dependency input_v source_v (PyStr ''value'')"

definition outcome_dependency :: "pyval \<Rightarrow> port_ref instance_arg \<Rightarrow> outcome_error + input_dependency" where
  "outcome_dependency input_v source_v = mk_input_dependency input_v source_v (PyStr ''outcome'')"

text \<open>The payload of a resolved input: an outcome or another object.\<close>

datatype 'a resolved_payload = PlainObject "'a option" | OutcomeObject "'a outcome"

record 'a resolved_input =
  resolved_kind :: input_mode
  resolved_payload :: "'a resolved_payload"

definition mk_resolved_input :: "pyval \<Rightarrow> 'a resolved_payload \<Rightarrow> outcome_error + 'a resolved_input" where
  "mk_resolved_input kind_v pay =
     bind_sum (outcome_literal VALID_RESOLVED_INPUT_KINDS kind_v) (\<lambda>k.
     if k = OutcomeMode \<and> (case pay of OutcomeObject _ \<Rightarrow> False | PlainObject _ \<Rightarrow> True) then Inl OutcomeValueError
     else Inr \<lparr>resolved_kind = k, resolved_payload = pay\<rparr>)"

definition resolved_value :: "'a option \<Rightarrow> outcome_error + 'a resolved_input" where
  "resolved_value v = mk_resolved_input (PyStr ''value'') (PlainObject v)"

definition resolved_outcome :: "'a outcome \<Rightarrow> outcome_error + 'a resolved_input" where
  "resolved_outcome x = mk_resolved_input (PyStr ''outcome'') (OutcomeObject x)"

section \<open>Readiness\<close>

record 'a readiness =
  readiness_status :: readiness_kind
  inputs :: "(string, 'a resolved_input) dict"
  missing :: "port_ref list"
  blocked_input :: "string option"
  blocked_source :: "port_ref option"
  blocked_outcome :: "'a outcome option"

fun readiness_inputs ::
  "(string, 'a resolved_input) dict \<Rightarrow> (pyval \<times> 'a resolved_input instance_arg) list
     \<Rightarrow> outcome_error + (string, 'a resolved_input) dict" where
  "readiness_inputs acc [] = Inr acc"
| "readiness_inputs acc ((k, v) # rest) =
     bind_sum (outcome_name k) (\<lambda>key.
     if map_of acc key \<noteq> None then Inl OutcomeValueError
     else bind_sum (outcome_instance v) (\<lambda>x. readiness_inputs (dict_set key x acc) rest))"

text \<open>\<^verbatim>\<open>None\<close> as a collection is an argument that is not one.\<close>

definition mk_readiness ::
  "pyval \<Rightarrow> (pyval \<times> 'a resolved_input instance_arg) list option \<Rightarrow> port_ref instance_arg list option \<Rightarrow> pyval
     \<Rightarrow> port_ref instance_arg \<Rightarrow> 'a outcome instance_arg \<Rightarrow> outcome_error + 'a readiness" where
  "mk_readiness kind_v inputs_v missing_v input_v source_v outcome_v =
     bind_sum (outcome_literal VALID_READINESS_KINDS kind_v) (\<lambda>k.
     bind_sum (case inputs_v of None \<Rightarrow> Inl OutcomeValueError | Some items \<Rightarrow> readiness_inputs [] items) (\<lambda>ins.
     bind_sum (case missing_v of None \<Rightarrow> Inl OutcomeValueError | Some ps \<Rightarrow> map_sum_list outcome_instance ps) (\<lambda>mis.
     bind_sum (if input_v = PyNone then Inr None else bind_sum (outcome_name input_v) (\<lambda>s. Inr (Some s))) (\<lambda>inp.
     bind_sum (outcome_optional_instance source_v) (\<lambda>src.
     bind_sum (outcome_optional_instance outcome_v) (\<lambda>oc.
     let r = \<lparr>readiness_status = k, inputs = ins, missing = mis, blocked_input = inp, blocked_source = src,
              blocked_outcome = oc\<rparr> in
     case k of
       Ready \<Rightarrow>
         if mis \<noteq> [] \<or> inp \<noteq> None \<or> src \<noteq> None \<or> oc \<noteq> None then Inl OutcomeValueError else Inr r
     | Waiting \<Rightarrow>
         if mis = [] then Inl OutcomeValueError
         else if ins \<noteq> [] \<or> inp \<noteq> None \<or> src \<noteq> None \<or> oc \<noteq> None then Inl OutcomeValueError else Inr r
     | Blocked \<Rightarrow>
         if ins \<noteq> [] \<or> mis \<noteq> [] \<or> inp = None \<or> src = None then Inl OutcomeValueError
         else (case oc of
                 None \<Rightarrow> Inl OutcomeValueError
               | Some x \<Rightarrow> if status x = OutcomeValue then Inl OutcomeValueError else Inr r)))))))"

definition readiness_ready :: "(string, 'a resolved_input) dict \<Rightarrow> outcome_error + 'a readiness" where
  "readiness_ready ins =
     mk_readiness (PyStr ''ready'') (Some (map (\<lambda>(k, v). (PyStr k, ArgObject v)) ins)) (Some []) PyNone ArgNone ArgNone"

definition readiness_waiting :: "port_ref list \<Rightarrow> outcome_error + 'a readiness" where
  "readiness_waiting mis = mk_readiness (PyStr ''waiting'') (Some []) (Some (map ArgObject mis)) PyNone ArgNone ArgNone"

definition readiness_blocked :: "string \<Rightarrow> port_ref \<Rightarrow> 'a outcome \<Rightarrow> outcome_error + 'a readiness" where
  "readiness_blocked inp src oc =
     mk_readiness (PyStr ''blocked'') (Some []) (Some []) (PyStr inp) (ArgObject src) (ArgObject oc)"

section \<open>The tracker\<close>

record 'a readiness_tracker =
  signals :: "(port_ref, 'a outcome) dict"

type_synonym ('a, 'b) tracker_method = "('a readiness_tracker, outcome_error, 'b) py"

definition mk_readiness_tracker ::
  "(port_ref instance_arg \<times> 'a outcome instance_arg) list option \<Rightarrow> outcome_error + 'a readiness_tracker" where
  "mk_readiness_tracker signals_v =
     (case signals_v of
        None \<Rightarrow> Inl OutcomeValueError
      | Some items \<Rightarrow>
          bind_sum (map_sum_list (\<lambda>(p, _). outcome_instance p) items) (\<lambda>ports.
          bind_sum (map_sum_list (\<lambda>(_, x). outcome_instance x) items) (\<lambda>outcomes.
          Inr \<lparr>signals = zip ports outcomes\<rparr>)))"

text \<open>\<^verbatim>\<open>__setattr__\<close>: the signals of a tracker cannot be assigned.\<close>

definition set_signals :: "(port_ref, 'a outcome) dict \<Rightarrow> ('a, unit) tracker_method" where
  "set_signals v = raise_py SignalsReplacedError"

definition publish :: "port_ref instance_arg \<Rightarrow> 'a outcome instance_arg \<Rightarrow> ('a, 'a outcome option) tracker_method" where
  "publish port_v outcome_v =
     bind_py (lift_py (outcome_instance port_v)) (\<lambda>p.
     bind_py (lift_py (outcome_instance outcome_v)) (\<lambda>x.
     bind_py (gets_py (\<lambda>t. map_of (signals t) p)) (\<lambda>previous.
     bind_py (modify_py (\<lambda>t. t\<lparr>signals := dict_set p x (signals t)\<rparr>)) (\<lambda>_.
     return_py previous))))"

definition signal_of :: "port_ref instance_arg \<Rightarrow> ('a, 'a outcome option) tracker_method" where
  "signal_of port_v =
     bind_py (lift_py (outcome_instance port_v)) (\<lambda>p. gets_py (\<lambda>t. map_of (signals t) p))"

fun resolve_dependencies ::
  "(port_ref, 'a outcome) dict \<Rightarrow> port_ref list \<Rightarrow> (string, 'a resolved_input) dict \<Rightarrow> input_dependency list
     \<Rightarrow> outcome_error + 'a readiness" where
  "resolve_dependencies sigs mis resolved [] = (if mis \<noteq> [] then readiness_waiting mis else readiness_ready resolved)"
| "resolve_dependencies sigs mis resolved (d # ds) =
     (case map_of sigs (dependency_source d) of
        None \<Rightarrow> resolve_dependencies sigs (mis @ [dependency_source d]) resolved ds
      | Some x \<Rightarrow>
          if dependency_mode d = ValueMode then
            if status x = OutcomeValue then
              bind_sum (resolved_value (payload x)) (\<lambda>v.
              resolve_dependencies sigs mis (dict_set (dependency_input d) v resolved) ds)
            else readiness_blocked (dependency_input d) (dependency_source d) x
          else
            bind_sum (resolved_outcome x) (\<lambda>v.
            resolve_dependencies sigs mis (dict_set (dependency_input d) v resolved) ds))"

definition readiness_of :: "input_dependency instance_arg list option \<Rightarrow> ('a, 'a readiness) tracker_method" where
  "readiness_of dependencies_v =
     bind_py (lift_py (case dependencies_v of
                         None \<Rightarrow> Inl OutcomeValueError
                       | Some xs \<Rightarrow> map_sum_list outcome_instance xs)) (\<lambda>ds.
     bind_py (raise_if (card (set (map dependency_input ds)) \<noteq> length (map dependency_input ds)) OutcomeValueError) (\<lambda>_.
     bind_py (gets_py signals) (\<lambda>sigs.
     lift_py (resolve_dependencies sigs [] [] ds))))"

end
