(* ===== verification/Outcome_Props.thy ===== *)
theory Outcome_Props
  imports Outcome
begin

text \<open>
  What outcomes and readiness promise: well-formed outcomes with bounded metadata, the
  decision of the tracker, progress once the missing outcomes arrive, and published
  outcomes read back.
\<close>

section \<open>Names\<close>

lemma set_strip: "set (py_strip s) \<subseteq> set s"
  unfolding py_strip_def by (auto dest!: set_dropWhileD)

lemma strip_ends:
  assumes "py_strip s \<noteq> []"
  shows "\<not> py_space (hd (py_strip s)) \<and> \<not> py_space (last (py_strip s))"
proof -
  let ?t = "dropWhile py_space s"
  have ne: "dropWhile py_space (rev ?t) \<noteq> []" using assms by (simp add: py_strip_def)
  have "\<not> py_space (last (py_strip s))" using hd_dropWhile [OF ne] by (simp add: py_strip_def last_rev)
  moreover have "?t = py_strip s @ rev (takeWhile py_space (rev ?t))"
    unfolding py_strip_def by (metis rev_append rev_rev_ident takeWhile_dropWhile_id)
  then have "hd ?t = hd (py_strip s)" using assms by (metis hd_append)
  moreover have "?t \<noteq> []" using ne by (metis dropWhile.simps(1) rev.simps(1))
  ultimately show ?thesis using hd_dropWhile [of py_space s] by simp
qed

lemma strip_strip: "py_strip (py_strip s) = py_strip s"
  using strip_id strip_ends by (cases "py_strip s = []") (auto simp: py_strip_def [of "[]"])

lemma outcome_name_again: "outcome_name v = Inr k \<Longrightarrow> outcome_name (PyStr k) = Inr k"
proof -
  assume "outcome_name v = Inr k"
  then obtain s where "py_strip s \<noteq> []" "\<not> has_control s" "k = py_strip s"
    by (cases v) (auto simp: outcome_name_def split: if_splits)
  then show ?thesis using set_strip [of s] by (auto simp: outcome_name_def strip_strip has_control_def)
qed

section \<open>Metadata\<close>

lemma size_item: "p \<in> set items \<Longrightarrow> size (snd p) < Suc (size_list (size_prod size size) items)"
proof (induction items)
  case (Cons q items)
  then show ?case by (cases q) auto
qed simp

lemma size_element: "x \<in> set xs \<Longrightarrow> size x < Suc (size_list size xs)"
  by (induction xs) auto

text \<open>Frozen metadata: JSON values with clean keys, at most \<open>d\<close> further levels deep.\<close>

function frozen_metadata :: "nat \<Rightarrow> pyval \<Rightarrow> bool" where
  "frozen_metadata d (PyDict items) \<longleftrightarrow>
     distinct (map fst items) \<and>
     (\<forall>p \<in> set items. (\<exists>s. metadata_key (fst p) = Inr s) \<and> 0 < d \<and> frozen_metadata (d - 1) (snd p))"
| "frozen_metadata d (PyTuple xs) \<longleftrightarrow> (\<forall>x \<in> set xs. 0 < d \<and> frozen_metadata (d - 1) x)"
| "frozen_metadata d (PyFloat f) \<longleftrightarrow> (\<exists>x. f = FFin x)"
| "frozen_metadata d (PyList xs) \<longleftrightarrow> False"
| "frozen_metadata d PyOther \<longleftrightarrow> False"
| "frozen_metadata d PyNone \<longleftrightarrow> True"
| "frozen_metadata d (PyBool b) \<longleftrightarrow> True"
| "frozen_metadata d (PyInt i) \<longleftrightarrow> True"
| "frozen_metadata d (PyStr s) \<longleftrightarrow> True"
  by pat_completeness auto
termination
  by (relation "measure (\<lambda>(d, v). size v)") (auto simp: size_element dest: size_item)

text \<open>The number of values in a tree, containers included.\<close>

function metadata_nodes :: "pyval \<Rightarrow> nat" where
  "metadata_nodes (PyDict items) = 1 + (\<Sum>p\<leftarrow>items. metadata_nodes (snd p))"
| "metadata_nodes (PyTuple xs) = 1 + (\<Sum>x\<leftarrow>xs. metadata_nodes x)"
| "metadata_nodes (PyList xs) = 1 + (\<Sum>x\<leftarrow>xs. metadata_nodes x)"
| "metadata_nodes (PyFloat f) = 1"
| "metadata_nodes PyOther = 1"
| "metadata_nodes PyNone = 1"
| "metadata_nodes (PyBool b) = 1"
| "metadata_nodes (PyInt i) = 1"
| "metadata_nodes (PyStr s) = 1"
  by pat_completeness auto
termination
  by (relation "measure size") (auto simp: size_element dest: size_item)

lemma nodes_set:
  "(\<Sum>p\<leftarrow>dict_set k v d. metadata_nodes (snd p)) \<le> (\<Sum>p\<leftarrow>d. metadata_nodes (snd p)) + metadata_nodes v"
  by (induction d) auto

lemma metadata_key_again: "metadata_key v = Inr k \<Longrightarrow> v = PyStr k \<and> metadata_key (PyStr k) = Inr k"
  by (cases v) (auto simp: metadata_key_def split: if_splits)

lemma freeze_spec:
  "freeze_metadata_value depth n v = Inr (v', m) \<Longrightarrow>
     depth \<le> MAX_METADATA_DEPTH \<and> frozen_metadata (MAX_METADATA_DEPTH - depth) v' \<and> n + metadata_nodes v' \<le> m \<and> m \<le> MAX_METADATA_NODES"
  "freeze_metadata_items depth n acc items = Inr (items', m) \<Longrightarrow> n \<le> MAX_METADATA_NODES \<Longrightarrow>
     distinct (map fst acc) \<Longrightarrow>
     (\<forall>p \<in> set acc. (\<exists>s. metadata_key (fst p) = Inr s) \<and> depth \<le> MAX_METADATA_DEPTH \<and> frozen_metadata (MAX_METADATA_DEPTH - depth) (snd p)) \<Longrightarrow>
     distinct (map fst items') \<and>
     (\<forall>p \<in> set items'. (\<exists>s. metadata_key (fst p) = Inr s) \<and> depth \<le> MAX_METADATA_DEPTH \<and> frozen_metadata (MAX_METADATA_DEPTH - depth) (snd p)) \<and>
     n + (\<Sum>p\<leftarrow>items'. metadata_nodes (snd p)) \<le> m + (\<Sum>p\<leftarrow>acc. metadata_nodes (snd p)) \<and> m \<le> MAX_METADATA_NODES"
  "freeze_metadata_list depth n xs = Inr (ys, m) \<Longrightarrow> n \<le> MAX_METADATA_NODES \<Longrightarrow>
     (\<forall>y \<in> set ys. depth \<le> MAX_METADATA_DEPTH \<and> frozen_metadata (MAX_METADATA_DEPTH - depth) y) \<and>
     n + (\<Sum>y\<leftarrow>ys. metadata_nodes y) \<le> m \<and> m \<le> MAX_METADATA_NODES"
proof (induction depth n v and depth n acc items and depth n xs arbitrary: v' m and items' m and ys m
    rule: freeze_metadata_value_freeze_metadata_items_freeze_metadata_list.induct)
  case (1 depth n v)
  note run = "1.prems" [unfolded freeze_metadata_value.simps [of depth n v]]
  have lim: "depth \<le> MAX_METADATA_DEPTH" "n + 1 \<le> MAX_METADATA_NODES"
    using run by (auto split: if_splits)
  have less: "MAX_METADATA_DEPTH - depth - 1 = MAX_METADATA_DEPTH - (depth + 1)" by simp
  show ?case
  proof (cases v)
    case (PyDict items)
    then obtain items' where i: "freeze_metadata_items (depth + 1) (n + 1) [] items = Inr (items', m)" "v' = PyDict items'"
      using run lim by (auto simp: bind_sum_Inr_iff)
    have "distinct (map fst items') \<and>
     (\<forall>p \<in> set items'. (\<exists>s. metadata_key (fst p) = Inr s) \<and> depth + 1 \<le> MAX_METADATA_DEPTH \<and>
        frozen_metadata (MAX_METADATA_DEPTH - (depth + 1)) (snd p)) \<and>
     n + 1 + (\<Sum>p\<leftarrow>items'. metadata_nodes (snd p)) \<le> m \<and>
     m \<le> MAX_METADATA_NODES"
      using "1.IH"(3) [OF _ _ PyDict i(1)] lim by (simp add: not_less)
    then show ?thesis using lim by (auto simp: i(2) less)
  next
    case (PyList xs)
    then obtain ys where i: "freeze_metadata_list (depth + 1) (n + 1) xs = Inr (ys, m)" "v' = PyTuple ys"
      using run lim by (auto simp: bind_sum_Inr_iff)
    then show ?thesis using "1.IH"(1) [OF _ _ PyList i(1)] lim by (auto simp: less not_less)
  next
    case (PyTuple xs)
    then obtain ys where i: "freeze_metadata_list (depth + 1) (n + 1) xs = Inr (ys, m)" "v' = PyTuple ys"
      using run lim by (auto simp: bind_sum_Inr_iff)
    then show ?thesis using "1.IH"(2) [OF _ _ PyTuple i(1)] lim by (auto simp: less not_less)
  qed (use run lim in \<open>auto split: pyfloat.splits\<close>)
next
  case (3 depth n acc k v rest)
  obtain k' v' m' where kv: "metadata_key k = Inr k'" "freeze_metadata_value depth n v = Inr (v', m')"
    "freeze_metadata_items depth m' (dict_set (PyStr k') v' acc) rest = Inr (items', m)"
    using "3.prems"(1) by (auto simp: bind_sum_Inr_iff)
  note v = "3.IH"(1) [OF kv(2)]
  have acc: "distinct (map fst (dict_set (PyStr k') v' acc))" using "3.prems"(3) by (rule distinct_update)
  have "\<forall>p \<in> set (dict_set (PyStr k') v' acc). (\<exists>s. metadata_key (fst p) = Inr s) \<and> depth \<le> MAX_METADATA_DEPTH \<and>
      frozen_metadata (MAX_METADATA_DEPTH - depth) (snd p)"
    using "3.prems"(4) v metadata_key_again [OF kv(1)] dict_set_subset [of "PyStr k'" v' acc] by auto
  then show ?case using "3.IH"(2) [OF kv(3) _ acc] v nodes_set [of "PyStr k'" v' acc] by auto
next
  case (5 depth n v rest)
  then show ?case by (fastforce simp: bind_sum_Inr_iff)
qed auto


section \<open>Readiness\<close>

definition dependency_ok :: "input_dependency \<Rightarrow> bool" where
  "dependency_ok d \<longleftrightarrow> (\<exists>input_v source_v mode_v. mk_input_dependency input_v source_v mode_v = Inr d)"

lemma dependency_name: "dependency_ok d \<Longrightarrow> outcome_name (PyStr (dependency_input d)) = Inr (dependency_input d)"
  by (auto simp: dependency_ok_def mk_input_dependency_def bind_sum_Inr_iff dest: outcome_name_again)

text \<open>The published outcomes of a dependency, and what it resolves to.\<close>

definition blocks :: "(port_ref, 'a outcome) dict \<Rightarrow> input_dependency \<Rightarrow> bool" where
  "blocks sigs d \<longleftrightarrow>
     (\<exists>x. map_of sigs (dependency_source d) = Some x \<and> dependency_mode d = ValueMode \<and> status x \<noteq> OutcomeValue)"

definition missing_sources :: "(port_ref, 'a outcome) dict \<Rightarrow> input_dependency list \<Rightarrow> port_ref list" where
  "missing_sources sigs ds = filter (\<lambda>p. map_of sigs p = None) (map dependency_source ds)"

definition resolution :: "(port_ref, 'a outcome) dict \<Rightarrow> input_dependency \<Rightarrow> 'a resolved_input" where
  "resolution sigs d =
     (let x = the (map_of sigs (dependency_source d)) in
      if dependency_mode d = ValueMode then \<lparr>resolved_kind = ValueMode, resolved_payload = PlainObject (payload x)\<rparr>
      else \<lparr>resolved_kind = OutcomeMode, resolved_payload = OutcomeObject x\<rparr>)"

definition ready_with :: "(string, 'a resolved_input) dict \<Rightarrow> 'a readiness" where
  "ready_with ins = \<lparr>readiness_status = Ready, inputs = ins, missing = [], blocked_input = None, blocked_source = None,
     blocked_outcome = None\<rparr>"

definition waiting_for :: "port_ref list \<Rightarrow> 'a readiness" where
  "waiting_for ps = \<lparr>readiness_status = Waiting, inputs = [], missing = ps, blocked_input = None, blocked_source = None,
     blocked_outcome = None\<rparr>"

definition blocked_by :: "string \<Rightarrow> port_ref \<Rightarrow> 'a outcome \<Rightarrow> 'a readiness" where
  "blocked_by i src x = \<lparr>readiness_status = Blocked, inputs = [], missing = [], blocked_input = Some i,
     blocked_source = Some src, blocked_outcome = Some x\<rparr>"

lemma resolved_run:
  "resolved_value v = Inr \<lparr>resolved_kind = ValueMode, resolved_payload = PlainObject v\<rparr>"
  "resolved_outcome x = Inr \<lparr>resolved_kind = OutcomeMode, resolved_payload = OutcomeObject x\<rparr>"
  by (simp_all add: resolved_value_def resolved_outcome_def mk_resolved_input_def outcome_literal_def VALID_RESOLVED_INPUT_KINDS_def)

lemma readiness_inputs_run:
  "(\<And>k v. (k, v) \<in> set ins \<Longrightarrow> outcome_name (PyStr k) = Inr k) \<Longrightarrow> distinct (map fst ins) \<Longrightarrow>
   (\<And>k. k \<in> fst ` set ins \<Longrightarrow> map_of acc k = None) \<Longrightarrow>
     readiness_inputs acc (map (\<lambda>(k, v). (PyStr k, ArgObject v)) ins) = Inr (acc @ ins)"
proof (induction ins arbitrary: acc)
  case (Cons q ins)
  obtain k v where q: "q = (k, v)" by force
  have k: "outcome_name (PyStr k) = Inr k" "map_of acc k = None" using Cons.prems by (auto simp: q)
  have "readiness_inputs (dict_set k v acc) (map (\<lambda>(k, v). (PyStr k, ArgObject v)) ins) = Inr ((acc @ [(k, v)]) @ ins)"
    unfolding dict_set_new [OF k(2)]
    using Cons.prems by (intro Cons.IH) (auto simp: q map_of_eq_None_iff)
  then show ?case using k by (simp add: q)
qed simp

lemma readiness_built:
  "(\<And>k v. (k, v) \<in> set ins \<Longrightarrow> outcome_name (PyStr k) = Inr k) \<Longrightarrow> distinct (map fst ins) \<Longrightarrow> readiness_ready ins = Inr (ready_with ins)"
  "ps \<noteq> [] \<Longrightarrow> readiness_waiting ps = Inr (waiting_for ps)"
  "outcome_name (PyStr i) = Inr i \<Longrightarrow> status x \<noteq> OutcomeValue \<Longrightarrow> readiness_blocked i src x = Inr (blocked_by i src x)"
proof -
  have map: "map_sum_list outcome_instance (map ArgObject ps) = Inr ps" for ps :: "port_ref list" by (induction ps) simp_all
  have kinds: "outcome_literal VALID_READINESS_KINDS (PyStr ''ready'') = Inr Ready"
    "outcome_literal VALID_READINESS_KINDS (PyStr ''waiting'') = Inr Waiting"
    "outcome_literal VALID_READINESS_KINDS (PyStr ''blocked'') = Inr Blocked"
    by (simp_all add: outcome_literal_def VALID_READINESS_KINDS_def)
  show "(\<And>k v. (k, v) \<in> set ins \<Longrightarrow> outcome_name (PyStr k) = Inr k) \<Longrightarrow> distinct (map fst ins) \<Longrightarrow> readiness_ready ins = Inr (ready_with ins)"
    using readiness_inputs_run [of ins "[]"] by (simp add: readiness_ready_def mk_readiness_def kinds ready_with_def)
  show "ps \<noteq> [] \<Longrightarrow> readiness_waiting ps = Inr (waiting_for ps)"
    by (simp add: readiness_waiting_def mk_readiness_def kinds map waiting_for_def)
  show "outcome_name (PyStr i) = Inr i \<Longrightarrow> status x \<noteq> OutcomeValue \<Longrightarrow> readiness_blocked i src x = Inr (blocked_by i src x)"
    by (simp add: readiness_blocked_def mk_readiness_def kinds blocked_by_def)
qed

text \<open>The reference: the first blocking dependency, else the missing sources, else the resolved inputs.\<close>

definition readiness_spec :: "(port_ref, 'a outcome) dict \<Rightarrow> input_dependency list \<Rightarrow> 'a readiness" where
  "readiness_spec sigs ds =
     (case find (blocks sigs) ds of
        Some d \<Rightarrow> blocked_by (dependency_input d) (dependency_source d) (the (map_of sigs (dependency_source d)))
      | None \<Rightarrow>
          if missing_sources sigs ds \<noteq> [] then waiting_for (missing_sources sigs ds)
          else ready_with (map (\<lambda>d. (dependency_input d, resolution sigs d)) ds))"

lemma resolve_run:
  "list_all dependency_ok ds \<Longrightarrow> distinct (map fst acc @ map dependency_input ds) \<Longrightarrow>
   (\<And>k v. (k, v) \<in> set acc \<Longrightarrow> outcome_name (PyStr k) = Inr k) \<Longrightarrow>
   resolve_dependencies sigs mis acc ds =
     Inr (case find (blocks sigs) ds of
        Some d \<Rightarrow> blocked_by (dependency_input d) (dependency_source d) (the (map_of sigs (dependency_source d)))
      | None \<Rightarrow>
          if mis @ missing_sources sigs ds \<noteq> [] then waiting_for (mis @ missing_sources sigs ds)
          else ready_with (acc @ map (\<lambda>d. (dependency_input d, resolution sigs d)) ds))"
proof (induction ds arbitrary: mis acc)
  case Nil
  then show ?case by (auto simp: missing_sources_def readiness_built)
next
  case (Cons d ds)
  have name: "outcome_name (PyStr (dependency_input d)) = Inr (dependency_input d)" using Cons.prems(1) by (simp add: dependency_name)
  have new: "dict_set (dependency_input d) v acc = acc @ [(dependency_input d, v)]" for v
    using Cons.prems(2) by (intro dict_set_new) (auto simp: map_of_eq_None_iff)
  show ?case
  proof (cases "map_of sigs (dependency_source d)")
    case None
    have "\<not> blocks sigs d" using None by (simp add: blocks_def)
    then show ?thesis using Cons.IH [of acc "mis @ [dependency_source d]"] Cons.prems None
      by (simp add: missing_sources_def split: option.split)
  next
    case (Some x)
    show ?thesis
    proof (cases "blocks sigs d")
      case True
      then show ?thesis using Some name by (simp add: blocks_def readiness_built)
    next
      case False
      let ?acc = "acc @ [(dependency_input d, resolution sigs d)]"
      have "outcome_name (PyStr k) = Inr k" if "(k, v) \<in> set ?acc" for k v using that Cons.prems(3) name by auto
      note ih = Cons.IH [of ?acc mis, OF _ _ this]
      have "resolve_dependencies sigs mis acc (d # ds) = resolve_dependencies sigs mis ?acc ds"
        using False Some by (auto simp: blocks_def resolved_run new resolution_def)
      moreover have "missing_sources sigs (d # ds) = missing_sources sigs ds" using Some by (simp add: missing_sources_def)
      ultimately show ?thesis using False ih Cons.prems(1,2) by (simp split: option.split)
    qed
  qed
qed


lemma readiness_run:
  assumes "list_all dependency_ok ds" "distinct (map dependency_input ds)"
  shows "readiness_of (Some (map ArgObject ds)) t = (Inr (readiness_spec (signals t) ds), t)"
proof -
  have "map_sum_list outcome_instance (map ArgObject ds) = Inr ds" by (induction ds) simp_all
  moreover have "resolve_dependencies (signals t) [] [] ds = Inr (readiness_spec (signals t) ds)"
    using resolve_run [OF assms(1), of "[]" "signals t" "[]"] assms(2) by (simp add: readiness_spec_def split: option.split)
  ultimately show ?thesis
    using assms(2) by (simp add: readiness_of_def py_run distinct_card [of "map dependency_input ds", simplified])
qed

definition publish_all :: "(port_ref \<times> 'a outcome) list \<Rightarrow> 'a readiness_tracker \<Rightarrow> 'a readiness_tracker" where
  "publish_all pubs t = fold (\<lambda>(p, x) t. snd (publish (ArgObject p) (ArgObject x) t)) pubs t"

lemma publish_run:
  "publish (ArgObject p) (ArgObject x) t = (Inr (map_of (signals t) p), t\<lparr>signals := dict_set p x (signals t)\<rparr>)"
  by (simp add: publish_def py_run)

lemma published: "map_of (signals (publish_all pubs t)) p = None \<Longrightarrow> p \<notin> fst ` set pubs \<and> map_of (signals t) p = None"
proof (induction pubs arbitrary: t)
  case (Cons q pubs)
  obtain p' x where q: "q = (p', x)" by force
  have "map_of (signals (publish_all pubs (t\<lparr>signals := dict_set p' x (signals t)\<rparr>))) p = None"
    using Cons.prems by (simp add: publish_all_def publish_run q)
  from Cons.IH [OF this] show ?case by (auto simp: q split: if_splits)
qed (simp add: publish_all_def)

section \<open>Properties\<close>

text \<open>
  C36: Every outcome the constructor accepts is well formed: a status that needs a code has
  one, only a failure is retryable, and the metadata is a frozen JSON mapping with clean
  keys, at most 64 levels deep and of at most 10000 values.
\<close>
theorem outcome_well_formed:
  assumes "mk_outcome status_v pay code_v message_v retryable_v metadata_v = Inr x"
  shows "(needs_code (status x) \<longrightarrow> outcome_code x \<noteq> None) \<and> (retryable x \<longrightarrow> status x = OutcomeFailed) \<and> payload x = pay \<and>
    (\<exists>items. metadata x = PyDict items) \<and> frozen_metadata MAX_METADATA_DEPTH (metadata x) \<and>
    metadata_nodes (metadata x) \<le> MAX_METADATA_NODES"
proof -
  have x: "freeze_metadata metadata_v = Inr (metadata x)" "needs_code (status x) \<longrightarrow> outcome_code x \<noteq> None"
    "retryable x \<longrightarrow> status x = OutcomeFailed" "payload x = pay"
    using assms by (auto simp: mk_outcome_def bind_sum_Inr_iff split: if_splits)
  then obtain items m where m: "metadata_v = PyDict items" "freeze_metadata_value 0 0 metadata_v = Inr (metadata x, m)"
    by (auto simp: freeze_metadata_def bind_sum_Inr_iff split: pyval.splits)
  then obtain items' where "PyDict items' = metadata x"
    by (auto simp: freeze_metadata_value.simps [of 0 0 "PyDict items"] bind_sum_Inr_iff split: if_splits)
  then have "\<exists>items. metadata x = PyDict items" by metis
  then show ?thesis using x freeze_spec(1) [OF m(2)] by simp
qed

text \<open>
  C34: The decision of the tracker: a dependency in value mode whose source published another
  outcome than a value blocks the node, and the first one in order is reported; otherwise
  the sources without an outcome are reported in order; otherwise the node is ready with
  every input resolved. The tracker is not changed and no valid request raises.
\<close>
theorem readiness_decision:
  assumes "list_all dependency_ok ds" and "distinct (map dependency_input ds)"
  shows "readiness_of (Some (map ArgObject ds)) t = (Inr (readiness_spec (signals t) ds), t)"
  by (rule readiness_run [OF assms])

text \<open>
  A waiting node makes progress: once every missing source has published some outcome,
  whatever else is published, the node is ready or blocked.
\<close>
theorem readiness_progress:
  assumes "list_all dependency_ok ds" and "distinct (map dependency_input ds)"
    and "readiness_of (Some (map ArgObject ds)) t = (Inr r, t)" and "set (missing r) \<subseteq> fst ` set pubs"
    and "readiness_status r = Waiting"
  shows "\<exists>r'. readiness_of (Some (map ArgObject ds)) (publish_all pubs t) = (Inr r', publish_all pubs t) \<and>
    (readiness_status r' = Ready \<or> readiness_status r' = Blocked)"
proof -
  have "r = readiness_spec (signals t) ds" using readiness_run [OF assms(1,2), of t] assms(3) by simp
  then have "missing r = missing_sources (signals t) ds"
    using assms(5) by (auto simp: readiness_spec_def blocked_by_def ready_with_def waiting_for_def split: option.splits if_splits)
  then have "missing_sources (signals (publish_all pubs t)) ds = []"
    using assms(4) published by (fastforce simp: missing_sources_def filter_empty_conv)
  then have "readiness_status (readiness_spec (signals (publish_all pubs t)) ds) \<noteq> Waiting"
    by (simp add: readiness_spec_def blocked_by_def ready_with_def split: option.splits)
  then show ?thesis using readiness_run [OF assms(1,2)] readiness_kind.exhaust by metis
qed

text \<open>
  Publishing returns the previous outcome of the port; afterwards the port reads back the
  published outcome and every other port reads as before.
\<close>
theorem publish_signal_roundtrip:
  "\<exists>t'. publish (ArgObject p) (ArgObject x) t = (Inr (map_of (signals t) p), t') \<and>
    (\<forall>q. signal_of (ArgObject q) t' = (Inr (if q = p then Some x else map_of (signals t) q), t'))"
  by (simp add: publish_run signal_of_def py_run)

section \<open>Witnesses\<close>

definition sample_port :: "string \<Rightarrow> port_ref" where
  "sample_port n = \<lparr>node = n, port = ''out''\<rparr>"

definition sample_value :: "nat \<Rightarrow> nat outcome" where
  "sample_value n = \<lparr>status = OutcomeValue, payload = Some n, outcome_code = None, outcome_message = None, retryable = False,
     metadata = PyDict []\<rparr>"

definition sample_dependency :: "string \<Rightarrow> string \<Rightarrow> input_dependency" where
  "sample_dependency i n = \<lparr>dependency_input = i, dependency_source = sample_port n, dependency_mode = ValueMode\<rparr>"

lemma sample_value_made: "outcome_of_value (Some n) = Inr (sample_value n)"
  by (simp add: outcome_of_value_def mk_outcome_def outcome_literal_def VALID_OUTCOME_STATUSES_def outcome_optional_string_def
      needs_code_def freeze_metadata_def freeze_metadata_value.simps sample_value_def)

lemma sample_dependency_ok: "dependency_ok (sample_dependency ''left'' ''a'')" "dependency_ok (sample_dependency ''right'' ''b'')"
proof -
  have name: "outcome_name (PyStr ''left'') = Inr ''left''" "outcome_name (PyStr ''right'') = Inr ''right''"
    by (simp_all add: outcome_name_def strip_id py_space_def has_control_def)
  have "mk_input_dependency (PyStr i) (ArgObject (sample_port n)) (PyStr ''value'') = Inr (sample_dependency i n)"
    if "outcome_name (PyStr i) = Inr i" for i n
    using that by (simp add: mk_input_dependency_def outcome_literal_def VALID_INPUT_MODES_def sample_dependency_def)
  then show "dependency_ok (sample_dependency ''left'' ''a'')" "dependency_ok (sample_dependency ''right'' ''b'')"
    unfolding dependency_ok_def using name by blast+
qed

theorem outcome_well_formed_witness:
  "frozen_metadata MAX_METADATA_DEPTH (metadata (sample_value 3)) \<and> payload (sample_value 3) = Some 3"
  using outcome_well_formed [OF sample_value_made [of 3, unfolded outcome_of_value_def]] by simp

definition sample_dependencies :: "input_dependency list" where
  "sample_dependencies = [sample_dependency ''left'' ''a'', sample_dependency ''right'' ''b'']"

definition sample_tracker :: "nat readiness_tracker" where
  "sample_tracker = \<lparr>signals = [(sample_port ''b'', sample_value 2)]\<rparr>"

lemma sample_dependencies_ok:
  "list_all dependency_ok sample_dependencies" "distinct (map dependency_input sample_dependencies)"
  using sample_dependency_ok by (simp_all add: sample_dependencies_def) (simp_all add: sample_dependency_def)

lemma sample_spec: "readiness_spec (signals sample_tracker) sample_dependencies = waiting_for [sample_port ''a'']"
  by (simp add: readiness_spec_def sample_dependencies_def sample_dependency_def sample_tracker_def blocks_def
      missing_sources_def sample_port_def sample_value_def)

theorem readiness_decision_witness:
  "readiness_of (Some (map ArgObject sample_dependencies)) sample_tracker = (Inr (waiting_for [sample_port ''a'']), sample_tracker)"
  using readiness_decision [OF sample_dependencies_ok, of sample_tracker] by (simp add: sample_spec)

theorem readiness_progress_witness:
  "\<exists>r'. readiness_of (Some (map ArgObject sample_dependencies)) (publish_all [(sample_port ''a'', sample_value 1)] sample_tracker) =
     (Inr r', publish_all [(sample_port ''a'', sample_value 1)] sample_tracker) \<and>
     (readiness_status r' = Ready \<or> readiness_status r' = Blocked)"
  by (rule readiness_progress [OF sample_dependencies_ok, of sample_tracker "waiting_for [sample_port ''a'']"])
    (simp_all add: readiness_run [OF sample_dependencies_ok] sample_spec waiting_for_def)

end
