(* ===== verification/Task_Plan.thy ===== *)
theory Task_Plan
  imports GB_Prelude "HOL-Library.Char_ord" "HOL-Library.List_Lexorder" "HOL-Library.Product_Lexorder"
begin

text \<open>
  Task plans, \<^verbatim>\<open>orchestration.py\<close>: steps with dependencies, patches, limits and context access, the
  validation of a plan with its depth-first search for dependency cycles, the layers in which
  the steps of a plan may run, and the application of a patch. Strings are ordered by code
  points. A plan so deep that the recursion limit of the interpreter ends the search is outside
  the model.
\<close>

section \<open>Errors and literals\<close>

datatype task_plan_error =
    TaskPlanError
  | TaskPlanValueError
  | TaskPlanIdentityError string string
  | TaskPlanLimitError string int int
  | TaskPlanPatchMismatchError string string int int
  | TaskStepNotFoundError string
  | TaskPlanDuplicateStepError string
  | TaskPlanDependencyError string string
  | TaskPlanCycleError "string list"
  | TaskPlanContextAccessError string string string
  | TaskPlanKeyError string

datatype context_access_mode = ReadAccess | WriteAccess | ReadWriteAccess

primrec access_mode_name :: "context_access_mode \<Rightarrow> string" where
  "access_mode_name ReadAccess = ''read''"
| "access_mode_name WriteAccess = ''write''"
| "access_mode_name ReadWriteAccess = ''read_write''"

definition VALID_CONTEXT_ACCESS_MODES :: "(string \<times> context_access_mode) list" where
  "VALID_CONTEXT_ACCESS_MODES = map (\<lambda>m. (access_mode_name m, m)) [ReadAccess, WriteAccess, ReadWriteAccess]"

abbreviation MAX_ORCHESTRATION_INTEGER :: int where
  "MAX_ORCHESTRATION_INTEGER \<equiv> 18446744073709551615"

section \<open>Validators\<close>

fun validate_task_identity :: "string \<Rightarrow> string \<Rightarrow> pyval \<Rightarrow> task_plan_error + string" where
  "validate_task_identity entity field (PyStr s) =
     (if py_strip s = [] then Inl (TaskPlanIdentityError entity field) else Inr s)"
| "validate_task_identity entity field _ = Inl (TaskPlanIdentityError entity field)"

type_synonym metadata = "(string, pyval) dict"

fun copy_metadata_items :: "(pyval \<times> pyval) list \<Rightarrow> metadata \<Rightarrow> task_plan_error + metadata" where
  "copy_metadata_items [] copied = Inr copied"
| "copy_metadata_items ((PyStr k, v) # items) copied =
     (if py_strip k = [] then Inl TaskPlanValueError else copy_metadata_items items (dict_set k v copied))"
| "copy_metadata_items ((_, v) # items) copied = Inl TaskPlanValueError"

fun copy_metadata :: "pyval \<Rightarrow> task_plan_error + metadata" where
  "copy_metadata (PyDict items) = copy_metadata_items items []"
| "copy_metadata _ = Inl TaskPlanValueError"

fun validate_task_revision :: "pyval \<Rightarrow> task_plan_error + int" where
  "validate_task_revision (PyInt n) =
     (if n < 1 then Inl TaskPlanValueError
      else if MAX_ORCHESTRATION_INTEGER < n then Inl TaskPlanValueError
      else Inr n)"
| "validate_task_revision _ = Inl TaskPlanValueError"

text \<open>
  A collection argument: \<^const>\<open>None\<close> is a string, bytes, a mapping or a value that cannot be
  iterated. In a collection of records, \<^const>\<open>None\<close> is an element of another class.
\<close>

definition collection :: "'a list option \<Rightarrow> task_plan_error + 'a list" where
  "collection v = (case v of None \<Rightarrow> Inl TaskPlanValueError | Some xs \<Rightarrow> Inr xs)"

definition records :: "'a option list option \<Rightarrow> task_plan_error + 'a list" where
  "records v = bind_sum (collection v) (\<lambda>xs. if None \<in> set xs then Inl TaskPlanValueError else Inr (map the xs))"

definition identity_list :: "string \<Rightarrow> string \<Rightarrow> pyval list option \<Rightarrow> task_plan_error + string list" where
  "identity_list entity field v =
     bind_sum (collection v) (\<lambda>xs.
     bind_sum (map_sum_list (validate_task_identity entity field) xs) (\<lambda>ids.
     if distinct ids then Inr ids else Inl TaskPlanValueError))"

section \<open>Steps, patches, limits and access\<close>

record task_step =
  step_id :: string
  description :: string
  depends_on :: "string list"
  step_metadata :: metadata

definition mk_task_step :: "pyval \<Rightarrow> pyval \<Rightarrow> pyval list option \<Rightarrow> pyval \<Rightarrow> task_plan_error + task_step" where
  "mk_task_step id_v description_v depends_v metadata_v =
     bind_sum (validate_task_identity ''step'' ''step_id'' id_v) (\<lambda>i.
     bind_sum (validate_task_identity ''step'' ''description'' description_v) (\<lambda>d.
     bind_sum (identity_list ''step'' ''depends_on'' depends_v) (\<lambda>deps.
     bind_sum (copy_metadata metadata_v) (\<lambda>m.
     Inr \<lparr>step_id = i, description = d, depends_on = deps, step_metadata = m\<rparr>))))"

record task_plan_patch =
  patch_id :: string
  base_plan_id :: string
  base_revision :: int
  upsert_steps :: "task_step list"
  remove_step_ids :: "string list"
  patch_created_at :: pyval
  patch_metadata :: metadata

text \<open>The first identifier that also occurs before its position.\<close>

fun first_duplicate :: "'a list \<Rightarrow> 'a list \<Rightarrow> 'a option" where
  "first_duplicate seen [] = None"
| "first_duplicate seen (x # xs) = (if x \<in> set seen then Some x else first_duplicate (seen @ [x]) xs)"

definition mk_task_plan_patch ::
  "pyval \<Rightarrow> pyval \<Rightarrow> pyval \<Rightarrow> task_step option list option \<Rightarrow> pyval list option \<Rightarrow> pyval \<Rightarrow> pyval
     \<Rightarrow> task_plan_error + task_plan_patch" where
  "mk_task_plan_patch id_v plan_v revision_v upsert_v remove_v created_v metadata_v =
     bind_sum (validate_task_identity ''patch'' ''patch_id'' id_v) (\<lambda>i.
     bind_sum (validate_task_identity ''patch'' ''base_plan_id'' plan_v) (\<lambda>plan.
     bind_sum (validate_task_revision revision_v) (\<lambda>rev.
     bind_sum (records upsert_v) (\<lambda>upserts.
     bind_sum (case first_duplicate [] (map step_id upserts) of
                 Some dup \<Rightarrow> Inl (TaskPlanDuplicateStepError dup) | None \<Rightarrow> Inr ()) (\<lambda>_.
     bind_sum (identity_list ''patch'' ''remove_step_ids'' remove_v) (\<lambda>removes.
     bind_sum (if set (map step_id upserts) \<inter> set removes \<noteq> {} then Inl TaskPlanValueError else Inr ()) (\<lambda>_.
     bind_sum (copy_metadata metadata_v) (\<lambda>m.
     Inr \<lparr>patch_id = i, base_plan_id = plan, base_revision = rev, upsert_steps = upserts,
          remove_step_ids = sort removes, patch_created_at = created_v, patch_metadata = m\<rparr>))))))))"

record task_plan_limits =
  max_steps :: int
  max_dependencies_per_step :: int
  max_description_chars :: int
  max_depth :: int
  max_parallel_tasks :: int

fun plan_limit :: "pyval \<Rightarrow> task_plan_error + int" where
  "plan_limit (PyInt n) = (if n \<le> 0 then Inl TaskPlanValueError else Inr n)"
| "plan_limit _ = Inl TaskPlanValueError"

definition mk_task_plan_limits :: "pyval \<Rightarrow> pyval \<Rightarrow> pyval \<Rightarrow> pyval \<Rightarrow> pyval \<Rightarrow> task_plan_error + task_plan_limits" where
  "mk_task_plan_limits steps_v dependencies_v chars_v depth_v parallel_v =
     bind_sum (plan_limit steps_v) (\<lambda>s.
     bind_sum (plan_limit dependencies_v) (\<lambda>d.
     bind_sum (plan_limit chars_v) (\<lambda>c.
     bind_sum (plan_limit depth_v) (\<lambda>h.
     bind_sum (plan_limit parallel_v) (\<lambda>w.
     Inr \<lparr>max_steps = s, max_dependencies_per_step = d, max_description_chars = c, max_depth = h,
          max_parallel_tasks = w\<rparr>)))))"

record task_context_access =
  access_step_id :: string
  access_resource_id :: string
  access_mode :: context_access_mode
  access_reason :: "string option"

definition mk_task_context_access :: "pyval \<Rightarrow> pyval \<Rightarrow> pyval \<Rightarrow> pyval \<Rightarrow> task_plan_error + task_context_access" where
  "mk_task_context_access step_v resource_v mode_v reason_v =
     bind_sum (validate_task_identity ''context_access'' ''step_id'' step_v) (\<lambda>s.
     bind_sum (validate_task_identity ''context_access'' ''resource_id'' resource_v) (\<lambda>r.
     bind_sum (case mode_v of
                 PyStr m \<Rightarrow> (case map_of VALID_CONTEXT_ACCESS_MODES m of
                               None \<Rightarrow> Inl (TaskPlanContextAccessError s r ''invalid_mode'') | Some mode \<Rightarrow> Inr mode)
               | _ \<Rightarrow> Inl (TaskPlanContextAccessError s r ''invalid_mode'')) (\<lambda>mode.
     bind_sum (if reason_v = PyNone then Inr None
               else bind_sum (validate_task_identity ''context_access'' ''reason'' reason_v) (\<lambda>x. Inr (Some x))) (\<lambda>reason.
     Inr \<lparr>access_step_id = s, access_resource_id = r, access_mode = mode, access_reason = reason\<rparr>))))"

section \<open>The search for cycles\<close>

type_synonym steps_by_id = "(string, task_step) dict"

record visit_state =
  visiting :: "string set"
  visited :: "string set"
  visit_stack :: "string list"

definition enter_step :: "string \<Rightarrow> visit_state \<Rightarrow> visit_state" where
  "enter_step x st = st\<lparr>visiting := insert x (visiting st), visit_stack := visit_stack st @ [x]\<rparr>"

definition leave_step :: "string \<Rightarrow> visit_state \<Rightarrow> visit_state" where
  "leave_step x st =
     st\<lparr>visit_stack := butlast (visit_stack st), visiting := visiting st - {x}, visited := insert x (visited st)\<rparr>"

text \<open>\<^verbatim>\<open>stack[stack.index(step_id):] + [step_id]\<close>\<close>

definition cycle_from :: "string list \<Rightarrow> string \<Rightarrow> string list" where
  "cycle_from stack x = dropWhile (\<lambda>y. y \<noteq> x) stack @ [x]"

definition seen :: "visit_state \<Rightarrow> string set" where
  "seen st = visiting st \<union> visited st"

declare bind_sum_cong [fundef_cong]

text \<open>
  \<^verbatim>\<open>visit\<close> for each identifier of a list in turn; the state is the three collections it shares.
\<close>

function visit_steps :: "steps_by_id \<Rightarrow> string list \<Rightarrow> visit_state \<Rightarrow> task_plan_error + visit_state" where
  "visit_steps g [] st = Inr st"
| "visit_steps g (x # xs) st =
     bind_sum
       (if x \<in> visited st then Inr st
        else if x \<in> visiting st then Inl (TaskPlanCycleError (cycle_from (visit_stack st) x))
        else case map_of g x of
            None \<Rightarrow> Inl (TaskPlanKeyError x)
          | Some step \<Rightarrow>
              bind_sum (visit_steps g (depends_on step) (enter_step x st)) (\<lambda>st'. Inr (leave_step x st')))
       (visit_steps g xs)"
  by pat_completeness auto

lemma visit_seen:
  "visit_steps_dom (g, xs, st) \<Longrightarrow> visit_steps g xs st = Inr st' \<Longrightarrow> seen st \<subseteq> seen st'"
proof (induction g xs st arbitrary: st' rule: visit_steps.pinduct)
  case (1 g st)
  then show ?case by (simp add: visit_steps.psimps)
next
  case (2 g x xs st)
  show ?case
  proof (cases "x \<in> visited st")
    case True
    then show ?thesis using 2(1,4) 2(3) [of st st'] by (simp add: visit_steps.psimps)
  next
    case False
    then obtain step st1 where step: "x \<notin> visiting st" "map_of g x = Some step"
      and st1: "visit_steps g (depends_on step) (enter_step x st) = Inr st1" "visit_steps g xs (leave_step x st1) = Inr st'"
      using 2(1,4) by (auto simp: visit_steps.psimps bind_sum_Inr_iff split: if_splits option.splits)
    have "seen st \<subseteq> seen (leave_step x st1)"
      using 2(2) [OF False step st1(1)] by (auto simp: seen_def enter_step_def leave_step_def)
    also have "\<dots> \<subseteq> seen st'" using 2(3) [of "leave_step x st1" st'] False step st1 by simp
    finally show ?thesis .
  qed
qed

lemma unseen_less:
  "finite A \<Longrightarrow> x \<in> A \<Longrightarrow> x \<notin> S \<Longrightarrow> insert x S \<subseteq> T \<Longrightarrow> card (A - T) < card (A - S)"
  by (rule psubset_card_mono) auto

termination visit_steps
proof (relation "measures [\<lambda>(g, _, st). card (dom (map_of g) - seen st), \<lambda>(_, xs, _). length xs]", goal_cases)
  case (2 g x xs st step)
  have "card (dom (map_of g) - seen (enter_step x st)) < card (dom (map_of g) - seen st)"
    by (rule unseen_less [of _ x]) (use 2 finite_dom_map_of in \<open>auto simp: seen_def enter_step_def\<close>)
  then show ?case by simp
next
  case (3 g x xs st st')
  have "seen st \<subseteq> seen st'"
    using 3 visit_seen by (fastforce simp: bind_sum_Inr_iff seen_def enter_step_def leave_step_def split: if_splits option.splits)
  then have "card (dom (map_of g) - seen st') \<le> card (dom (map_of g) - seen st)"
    by (intro card_mono finite_Diff finite_dom_map_of) auto
  then show ?case by auto
qed simp


section \<open>Execution layers\<close>

function layers_loop ::
  "(string, string list) dict \<Rightarrow> string set \<Rightarrow> string list list \<Rightarrow> task_plan_error + string list list" where
  "layers_loop remaining completed layers =
     (if remaining = [] then Inr layers
      else let ready = sort (map fst (filter (\<lambda>(_, dependencies). set dependencies \<subseteq> completed) remaining)) in
        if ready = [] then (let cyc = sort (map fst remaining) in Inl (TaskPlanCycleError (cyc @ [hd cyc])))
        else layers_loop (filter (\<lambda>(i, _). i \<notin> set ready) remaining) (completed \<union> set ready) (layers @ [ready]))"
  by pat_completeness auto

lemma filter_key_less:
  assumes "xs \<noteq> []" and "set xs \<subseteq> fst ` set d"
  shows "length (filter (\<lambda>(i, _). i \<notin> set xs) d) < length d"
proof -
  obtain x v where "x \<in> set xs" "(x, v) \<in> set d" using assms by (cases xs) force+
  then show ?thesis by (intro length_filter_less [of "(x, v)"]) auto
qed

termination layers_loop
proof (relation "measure (\<lambda>(remaining, _, _). length remaining)", goal_cases)
  case (2 remaining completed layers ready)
  have "set ready \<subseteq> fst ` set remaining" unfolding 2 by (auto simp: image_iff)
  then show ?case using filter_key_less [of ready remaining] 2 by simp
qed simp

declare layers_loop.simps [simp del]

definition execution_layers_of :: "task_step list \<Rightarrow> task_plan_error + string list list" where
  "execution_layers_of steps = layers_loop (fold (\<lambda>s. dict_set (step_id s) (depends_on s)) steps []) {} []"

section \<open>Plans\<close>

record task_plan =
  plan_id :: string
  objective :: string
  plan_steps :: "task_step list"
  plan_revision :: int
  plan_metadata :: metadata
  plan_limits :: task_plan_limits
  context_resources :: "string list"
  context_access :: "task_context_access list"

fun index_steps :: "task_plan_limits \<Rightarrow> task_step list \<Rightarrow> steps_by_id \<Rightarrow> task_plan_error + steps_by_id" where
  "index_steps lims [] by_id = Inr by_id"
| "index_steps lims (s # steps) by_id =
     (if map_of by_id (step_id s) \<noteq> None then Inl (TaskPlanDuplicateStepError (step_id s))
      else if max_dependencies_per_step lims < int (length (depends_on s))
        then Inl (TaskPlanLimitError ''max_dependencies_per_step'' (max_dependencies_per_step lims) (int (length (depends_on s))))
      else if max_description_chars lims < int (length (description s))
        then Inl (TaskPlanLimitError ''max_description_chars'' (max_description_chars lims) (int (length (description s))))
      else index_steps lims steps (dict_set (step_id s) s by_id))"

fun check_dependencies :: "steps_by_id \<Rightarrow> string \<Rightarrow> string list \<Rightarrow> task_plan_error + unit" where
  "check_dependencies by_id i [] = Inr ()"
| "check_dependencies by_id i (d # deps) =
     (if map_of by_id d = None then Inl (TaskPlanDependencyError i d) else check_dependencies by_id i deps)"

definition check_all_dependencies :: "steps_by_id \<Rightarrow> task_step list \<Rightarrow> task_plan_error + unit" where
  "check_all_dependencies by_id steps =
     bind_sum (map_sum_list (\<lambda>s. check_dependencies by_id (step_id s) (depends_on s)) steps) (\<lambda>_. Inr ())"

definition check_acyclic :: "steps_by_id \<Rightarrow> task_plan_error + unit" where
  "check_acyclic by_id =
     bind_sum (visit_steps by_id (map fst by_id) \<lparr>visiting = {}, visited = {}, visit_stack = []\<rparr>) (\<lambda>_. Inr ())"

definition check_layers :: "task_plan_limits \<Rightarrow> task_step list \<Rightarrow> task_plan_error + unit" where
  "check_layers lims steps =
     bind_sum (execution_layers_of steps) (\<lambda>layers.
     if max_depth lims < int (length layers)
       then Inl (TaskPlanLimitError ''max_depth'' (max_depth lims) (int (length layers)))
     else let widest = int (fold max (map length layers) 0) in
       if max_parallel_tasks lims < widest
         then Inl (TaskPlanLimitError ''max_parallel_tasks'' (max_parallel_tasks lims) widest)
       else Inr ())"

fun check_context_access :: "steps_by_id \<Rightarrow> string list \<Rightarrow> task_context_access list \<Rightarrow> task_plan_error + unit" where
  "check_context_access by_id resources [] = Inr ()"
| "check_context_access by_id resources (a # accesses) =
     (if map_of by_id (access_step_id a) = None
        then Inl (TaskPlanContextAccessError (access_step_id a) (access_resource_id a) ''unknown_step'')
      else if access_resource_id a \<notin> set resources
        then Inl (TaskPlanContextAccessError (access_step_id a) (access_resource_id a) ''unknown_resource'')
      else check_context_access by_id resources accesses)"

text \<open>The checks on the sorted steps: limits, unknown dependencies, cycles, layers and access.\<close>

definition check_steps ::
  "task_plan_limits \<Rightarrow> task_step list \<Rightarrow> string list \<Rightarrow> task_context_access list \<Rightarrow> task_plan_error + unit" where
  "check_steps lims steps resources accesses =
     bind_sum (if max_steps lims < int (length steps)
               then Inl (TaskPlanLimitError ''max_steps'' (max_steps lims) (int (length steps))) else Inr ()) (\<lambda>_.
     bind_sum (index_steps lims steps []) (\<lambda>by_id.
     bind_sum (check_all_dependencies by_id steps) (\<lambda>_.
     bind_sum (check_acyclic by_id) (\<lambda>_.
     bind_sum (check_layers lims steps) (\<lambda>_.
     check_context_access by_id resources accesses)))))"

definition mk_task_plan ::
  "pyval \<Rightarrow> pyval \<Rightarrow> task_step option list option \<Rightarrow> pyval \<Rightarrow> pyval \<Rightarrow> task_plan_limits instance_arg \<Rightarrow> pyval list option
     \<Rightarrow> task_context_access option list option \<Rightarrow> task_plan_error + task_plan" where
  "mk_task_plan id_v objective_v steps_v revision_v metadata_v limits_v resources_v access_v =
     bind_sum (validate_task_identity ''plan'' ''plan_id'' id_v) (\<lambda>i.
     bind_sum (validate_task_identity ''plan'' ''objective'' objective_v) (\<lambda>obj.
     bind_sum (validate_task_revision revision_v) (\<lambda>rev.
     bind_sum (case limits_v of ArgObject l \<Rightarrow> Inr l | _ \<Rightarrow> Inl TaskPlanValueError) (\<lambda>lims.
     bind_sum (records steps_v) (\<lambda>steps.
     bind_sum (copy_metadata metadata_v) (\<lambda>m.
     bind_sum (identity_list ''plan'' ''context_resources'' resources_v) (\<lambda>resources.
     bind_sum (records access_v) (\<lambda>accesses.
     bind_sum (if distinct accesses then Inr () else Inl TaskPlanValueError) (\<lambda>_.
     let p = \<lparr>plan_id = i, objective = obj, plan_steps = sort_key step_id steps, plan_revision = rev, plan_metadata = m,
              plan_limits = lims, context_resources = sort resources,
              context_access = sort_key (\<lambda>a. (access_step_id a, access_resource_id a, access_mode_name (access_mode a))) accesses\<rparr>
     in bind_sum (check_steps lims (plan_steps p) (context_resources p) (context_access p)) (\<lambda>_. Inr p))))))))))"

definition plan_step :: "string \<Rightarrow> task_plan \<Rightarrow> task_plan_error + task_step" where
  "plan_step i p =
     (case find (\<lambda>s. step_id s = i) (plan_steps p) of None \<Rightarrow> Inl (TaskStepNotFoundError i) | Some s \<Rightarrow> Inr s)"

definition execution_layers :: "task_plan \<Rightarrow> task_plan_error + string list list" where
  "execution_layers p = execution_layers_of (plan_steps p)"

definition metadata_value :: "metadata \<Rightarrow> pyval" where
  "metadata_value m = PyDict (map (\<lambda>(k, v). (PyStr k, v)) m)"

text \<open>The steps of a patched plan: the kept ones, then the upserts in place or at the end.\<close>

definition patched_steps :: "task_plan_patch \<Rightarrow> task_plan \<Rightarrow> task_step list" where
  "patched_steps patch p =
     dict_values (fold (\<lambda>s. dict_set (step_id s) s) (upsert_steps patch)
       (fold (\<lambda>s. dict_set (step_id s) s)
          (filter (\<lambda>s. step_id s \<notin> set (remove_step_ids patch)) (plan_steps p)) []))"

definition apply_patch :: "task_plan_patch instance_arg \<Rightarrow> task_plan \<Rightarrow> task_plan_error + task_plan" where
  "apply_patch patch_v p =
     (case patch_v of
        ArgObject patch \<Rightarrow>
          (if base_plan_id patch \<noteq> plan_id p \<or> base_revision patch \<noteq> plan_revision p
             then Inl (TaskPlanPatchMismatchError (plan_id p) (base_plan_id patch) (plan_revision p) (base_revision patch))
           else if plan_revision p = MAX_ORCHESTRATION_INTEGER then Inl TaskPlanError
           else mk_task_plan (PyStr (plan_id p)) (PyStr (objective p)) (Some (map Some (patched_steps patch p)))
                  (PyInt (plan_revision p + 1))
                  (metadata_value (fold (\<lambda>(k, v). dict_set k v) (patch_metadata patch) (plan_metadata p)))
                  (ArgObject (plan_limits p)) (Some (map PyStr (context_resources p)))
                  (Some (map Some (context_access p))))
      | _ \<Rightarrow> Inl TaskPlanError)"

end
