(* ===== verification/Orchestration.thy ===== *)
theory Orchestration
  imports Task_Plan Budget
begin

text \<open>
  The rest of \<^verbatim>\<open>orchestration.py\<close>: the contract of task execution with its checkpoints and the
  cancellations under budget pressure, the selection of a model from a pool, the pool of leases
  on scarce resources, and the delegation of a permit to a child. A pool is immutable; an
  operation returns the pool it builds. \<open>parse_iso\<close> stands for \<^verbatim>\<open>datetime.fromisoformat\<close> and the
  conversion to UTC, as in the ledger. The choice of a worker is code of another module and is
  not modelled.
\<close>

section \<open>Execution contracts\<close>

datatype task_priority =
    PriorityOptional | PriorityNormal | PriorityRequired | PriorityVerification | PriorityFinalization

definition VALID_TASK_PRIORITIES :: "(string \<times> task_priority) list" where
  "VALID_TASK_PRIORITIES =
     [(''optional'', PriorityOptional), (''normal'', PriorityNormal), (''required'', PriorityRequired),
      (''verification'', PriorityVerification), (''finalization'', PriorityFinalization)]"

datatype task_execution_error =
    TaskExecutionContractError
  | ExecutionTypeError
  | ExecutionPlanError task_plan_error

record task_execution_checkpoint =
  checkpoint_plan_id :: string
  checkpoint_plan_revision :: int
  checkpoint_step_id :: string
  checkpoint_permit_id :: string
  checkpoint_result_digest :: string
  checkpoint_completed_at :: string

fun checkpoint_string :: "pyval \<Rightarrow> task_execution_error + string" where
  "checkpoint_string (PyStr s) = (if py_strip s = [] then Inl TaskExecutionContractError else Inr s)"
| "checkpoint_string _ = Inl TaskExecutionContractError"

fun checkpoint_revision :: "pyval \<Rightarrow> task_execution_error + int" where
  "checkpoint_revision (PyInt n) = (if n \<le> 0 then Inl TaskExecutionContractError else Inr n)"
| "checkpoint_revision _ = Inl TaskExecutionContractError"

definition mk_task_execution_checkpoint ::
  "pyval \<Rightarrow> pyval \<Rightarrow> pyval \<Rightarrow> pyval \<Rightarrow> pyval \<Rightarrow> pyval \<Rightarrow> task_execution_error + task_execution_checkpoint" where
  "mk_task_execution_checkpoint plan_v revision_v step_v permit_v digest_v completed_v =
     bind_sum (checkpoint_string plan_v) (\<lambda>plan.
     bind_sum (checkpoint_string step_v) (\<lambda>step.
     bind_sum (checkpoint_string permit_v) (\<lambda>permit.
     bind_sum (checkpoint_string digest_v) (\<lambda>digest.
     bind_sum (checkpoint_string completed_v) (\<lambda>completed.
     bind_sum (checkpoint_revision revision_v) (\<lambda>r.
     Inr \<lparr>checkpoint_plan_id = plan, checkpoint_plan_revision = r, checkpoint_step_id = step, checkpoint_permit_id = permit,
          checkpoint_result_digest = digest, checkpoint_completed_at = completed\<rparr>))))))"

record task_execution_contract =
  cancel_priorities :: "task_priority list"
  preserve_priorities :: "task_priority list"

text \<open>
  The priorities of a contract: a value that cannot be iterated or an element that cannot be
  hashed raises \<^verbatim>\<open>TypeError\<close>, an element that is no priority the error of the contract.
\<close>

fun unhashable :: "pyval \<Rightarrow> bool" where
  "unhashable (PyList _) = True"
| "unhashable (PyDict _) = True"
| "unhashable (PyTuple xs) = list_ex unhashable xs"
| "unhashable _ = False"

definition hashed_priorities :: "pyval list option \<Rightarrow> task_execution_error + pyval list" where
  "hashed_priorities v =
     (case v of None \<Rightarrow> Inl ExecutionTypeError
      | Some xs \<Rightarrow> if list_ex unhashable xs then Inl ExecutionTypeError
                   else if \<not> distinct xs then Inl TaskExecutionContractError else Inr xs)"

fun task_priority_arg :: "pyval \<Rightarrow> task_execution_error + task_priority" where
  "task_priority_arg (PyStr s) =
     (case map_of VALID_TASK_PRIORITIES s of None \<Rightarrow> Inl TaskExecutionContractError | Some p \<Rightarrow> Inr p)"
| "task_priority_arg _ = Inl TaskExecutionContractError"

definition mk_task_execution_contract ::
  "pyval \<Rightarrow> pyval \<Rightarrow> pyval list option \<Rightarrow> pyval list option \<Rightarrow> task_execution_error + task_execution_contract" where
  "mk_task_execution_contract checkpoint_v reservation_v cancel_v preserve_v =
     bind_sum (if checkpoint_v \<noteq> PyStr ''each_task'' then Inl TaskExecutionContractError else Inr ()) (\<lambda>_.
     bind_sum (if reservation_v \<noteq> PyStr ''per_task'' then Inl TaskExecutionContractError else Inr ()) (\<lambda>_.
     bind_sum (case (cancel_v, preserve_v) of (Some _, Some _) \<Rightarrow> Inr () | _ \<Rightarrow> Inl ExecutionTypeError) (\<lambda>_.
     bind_sum (hashed_priorities cancel_v) (\<lambda>cancel.
     bind_sum (hashed_priorities preserve_v) (\<lambda>preserve.
     bind_sum (map_sum_list task_priority_arg cancel) (\<lambda>cancel'.
     bind_sum (map_sum_list task_priority_arg preserve) (\<lambda>preserve'.
     if set cancel' \<inter> set preserve' \<noteq> {} then Inl TaskExecutionContractError
     else Inr \<lparr>cancel_priorities = cancel', preserve_priorities = preserve'\<rparr>)))))))"

definition execution_step :: "string \<Rightarrow> task_plan \<Rightarrow> task_execution_error + task_step" where
  "execution_step i p = (case plan_step i p of Inl e \<Rightarrow> Inl (ExecutionPlanError e) | Inr s \<Rightarrow> Inr s)"

definition checkpoint_completion ::
  "(string \<Rightarrow> rat option) \<Rightarrow> task_plan \<Rightarrow> string \<Rightarrow> budget_permit \<Rightarrow> pyval \<Rightarrow> pyval
     \<Rightarrow> task_execution_error + task_execution_checkpoint" where
  "checkpoint_completion parse_iso plan step permit digest_v completed_v =
     bind_sum (execution_step step plan) (\<lambda>_.
     bind_sum (if resource_id (permit_owner permit) \<noteq> ''task:'' @ step then Inl TaskExecutionContractError else Inr ()) (\<lambda>_.
     bind_sum (if authorized_amounts permit = [] then Inl TaskExecutionContractError else Inr ()) (\<lambda>_.
     bind_sum (if \<not> is_active_at parse_iso permit completed_v then Inl TaskExecutionContractError else Inr ()) (\<lambda>_.
     mk_task_execution_checkpoint (PyStr (plan_id plan)) (PyInt (plan_revision plan)) (PyStr step) (PyStr (permit_id permit))
       digest_v completed_v))))"

text \<open>\<^verbatim>\<open>tuple.index\<close> of an element that is present.\<close>

fun list_index :: "'a list \<Rightarrow> 'a \<Rightarrow> nat" where
  "list_index [] x = 0"
| "list_index (y # ys) x = (if x = y then 0 else Suc (list_index ys x))"

definition step_priority :: "task_step \<Rightarrow> task_execution_error + task_priority" where
  "step_priority s =
     task_priority_arg (case map_of (step_metadata s) ''priority'' of None \<Rightarrow> PyStr ''normal'' | Some v \<Rightarrow> v)"

fun pressure_candidates ::
  "task_execution_contract \<Rightarrow> task_plan \<Rightarrow> string list \<Rightarrow> task_execution_error + (nat \<times> string) list" where
  "pressure_candidates c p [] = Inr []"
| "pressure_candidates c p (i # ids) =
     bind_sum (execution_step i p) (\<lambda>s.
     bind_sum (step_priority s) (\<lambda>priority.
     if priority \<in> set (preserve_priorities c) then pressure_candidates c p ids
     else if priority \<notin> set (cancel_priorities c) then Inl TaskExecutionContractError
     else bind_sum (pressure_candidates c p ids) (\<lambda>rest. Inr ((list_index (cancel_priorities c) priority, i) # rest))))"

definition budget_pressure_cancellations ::
  "task_execution_contract \<Rightarrow> task_plan \<Rightarrow> string list \<Rightarrow> task_execution_error + string list" where
  "budget_pressure_cancellations c p active =
     bind_sum (pressure_candidates c p active) (\<lambda>candidates. Inr (map snd (sort candidates)))"

section \<open>Models\<close>

record model_profile =
  model_profile_id :: string
  model_connection :: string
  model_capabilities :: "string list"
  quality_tier :: string
  cost_class :: string
  latency_class :: string
  allowed_sensitivity :: "string list"
  model_regions :: "string list"
  supports_cancellation :: bool
  supports_usage_report :: bool

text \<open>\<^verbatim>\<open>tuple(sorted(set(values)))\<close>\<close>

definition sorted_unique :: "string list \<Rightarrow> string list" where
  "sorted_unique xs = sort (remdups xs)"

definition model_profile_post_init :: "model_profile \<Rightarrow> model_profile" where
  "model_profile_post_init m =
     m\<lparr>model_capabilities := sorted_unique (model_capabilities m),
       allowed_sensitivity := sorted_unique (allowed_sensitivity m),
       model_regions := sorted_unique (model_regions m)\<rparr>"

definition with_capabilities :: "string list \<Rightarrow> model_profile \<Rightarrow> model_profile" where
  "with_capabilities xs m = model_profile_post_init (m\<lparr>model_capabilities := xs\<rparr>)"

definition with_allowed_sensitivity :: "string list \<Rightarrow> model_profile \<Rightarrow> model_profile" where
  "with_allowed_sensitivity xs m = model_profile_post_init (m\<lparr>allowed_sensitivity := xs\<rparr>)"

definition with_regions :: "string list \<Rightarrow> model_profile \<Rightarrow> model_profile" where
  "with_regions xs m = model_profile_post_init (m\<lparr>model_regions := xs\<rparr>)"

record worker_profile =
  worker_profile_id :: string
  worker_required_capabilities :: "string list"
  allowed_tools :: "string list"
  model_pool_ref :: "string option"
  sensitivity_ceiling :: "string option"
  default_budget_ref :: "string option"

definition worker_profile_post_init :: "worker_profile \<Rightarrow> worker_profile" where
  "worker_profile_post_init w =
     w\<lparr>worker_required_capabilities := sorted_unique (worker_required_capabilities w),
       allowed_tools := sorted_unique (allowed_tools w)\<rparr>"

record model_selection_request =
  request_worker :: worker_profile
  required_tools :: "string list"
  required_capabilities :: "string list"
  sensitivity :: "string option"
  region :: "string option"

definition selection_request_post_init :: "model_selection_request \<Rightarrow> model_selection_request" where
  "selection_request_post_init r =
     r\<lparr>required_tools := sorted_unique (required_tools r),
       required_capabilities := sorted_unique (required_capabilities r)\<rparr>"

datatype model_selection_error =
    ModelSelectionError
  | ModelPoolMismatchError string string
  | ModelToolNotAllowedError string
  | ModelSensitivityAboveCeilingError string string
  | NoEligibleModelError string "string list"

record model_pool =
  model_pool_id :: string
  selection_policy_ref :: string
  pool_models :: "model_profile list"

definition SENSITIVITY_RANKS :: "(string \<times> nat) list" where
  "SENSITIVITY_RANKS = [(''public'', 0), (''internal'', 1), (''confidential'', 2), (''restricted'', 3)]"

definition check_sensitivity :: "model_selection_request \<Rightarrow> model_selection_error + unit" where
  "check_sensitivity r =
     (case (sensitivity r, sensitivity_ceiling (request_worker r)) of
        (Some s, Some top_level) \<Rightarrow>
          (case map_of SENSITIVITY_RANKS top_level of
             None \<Rightarrow> Inl ModelSelectionError
           | Some rank \<Rightarrow>
               if rank < (case map_of SENSITIVITY_RANKS s of None \<Rightarrow> 4 | Some n \<Rightarrow> n)
               then Inl (ModelSensitivityAboveCeilingError s top_level) else Inr ())
      | _ \<Rightarrow> Inr ())"

definition model_rejection :: "model_selection_request \<Rightarrow> model_profile \<Rightarrow> string option" where
  "model_rejection r m =
     (if \<not> (set (worker_required_capabilities (request_worker r)) \<union> set (required_capabilities r)
             \<subseteq> set (model_capabilities m))
        then Some (model_profile_id m @ '':missing_capability'')
      else if (case sensitivity r of None \<Rightarrow> False | Some s \<Rightarrow> allowed_sensitivity m \<noteq> [] \<and> s \<notin> set (allowed_sensitivity m))
        then Some (model_profile_id m @ '':sensitivity_not_allowed'')
      else if (case region r of None \<Rightarrow> False | Some g \<Rightarrow> model_regions m \<noteq> [] \<and> g \<notin> set (model_regions m))
        then Some (model_profile_id m @ '':region_not_allowed'')
      else None)"

fun first_model ::
  "string \<Rightarrow> model_selection_request \<Rightarrow> model_profile list \<Rightarrow> string list \<Rightarrow> model_selection_error + model_profile" where
  "first_model pool r [] reasons = Inl (NoEligibleModelError pool reasons)"
| "first_model pool r (m # models) reasons =
     (case model_rejection r m of Some why \<Rightarrow> first_model pool r models (reasons @ [why]) | None \<Rightarrow> Inr m)"

definition select_model :: "model_selection_request \<Rightarrow> model_pool \<Rightarrow> model_selection_error + model_profile" where
  "select_model r pool =
     bind_sum (case model_pool_ref (request_worker r) of
                 Some i \<Rightarrow> if i \<noteq> model_pool_id pool then Inl (ModelPoolMismatchError i (model_pool_id pool)) else Inr ()
               | None \<Rightarrow> Inr ()) (\<lambda>_.
     bind_sum (case find (\<lambda>t. t \<notin> set (allowed_tools (request_worker r))) (required_tools r) of
                 Some t \<Rightarrow> Inl (ModelToolNotAllowedError t) | None \<Rightarrow> Inr ()) (\<lambda>_.
     bind_sum (check_sensitivity r) (\<lambda>_.
     first_model (model_pool_id pool) r (pool_models pool) [])))"


section \<open>Leases on scarce resources\<close>

datatype lease_pool_error =
    LeasePoolError
  | LeasePoolValueError
  | LeaseIdentityError string string
  | LeasePoolCapacityError string
  | LeasePoolExhaustedError int int
  | LeaseResourceKindMismatchError string string
  | LeaseBudgetPermitError
  | LeaseAlreadyExistsError string
  | LeaseNotFoundError string
  | LeaseEpochMismatchError string int int

fun lease_identity :: "string \<Rightarrow> string \<Rightarrow> pyval \<Rightarrow> lease_pool_error + string" where
  "lease_identity entity field (PyStr s) = (if py_strip s = [] then Inl (LeaseIdentityError entity field) else Inr s)"
| "lease_identity entity field _ = Inl (LeaseIdentityError entity field)"

definition lease_metadata :: "pyval \<Rightarrow> lease_pool_error + metadata" where
  "lease_metadata v = (case copy_metadata v of Inl _ \<Rightarrow> Inl LeasePoolValueError | Inr m \<Rightarrow> Inr m)"

fun validate_positive_lease_integer :: "string \<Rightarrow> pyval \<Rightarrow> lease_pool_error + int" where
  "validate_positive_lease_integer field (PyInt n) =
     (if n \<le> 0 then Inl (LeasePoolCapacityError field)
      else if MAX_ORCHESTRATION_INTEGER < n then Inl (LeasePoolCapacityError field)
      else Inr n)"
| "validate_positive_lease_integer field _ = Inl (LeasePoolCapacityError field)"

text \<open>\<^verbatim>\<open>_parse_lease_datetime\<close> makes the same checks as the parser of permits.\<close>

definition parse_lease_datetime :: "(string \<Rightarrow> rat option) \<Rightarrow> pyval \<Rightarrow> lease_pool_error + rat" where
  "parse_lease_datetime parse_iso v =
     (case parse_budget_permit_datetime parse_iso v of Inl _ \<Rightarrow> Inl LeasePoolValueError | Inr t \<Rightarrow> Inr t)"

record lease_request =
  request_id :: string
  request_holder :: resource_ref
  request_kind :: string
  request_units :: int
  request_metadata :: metadata

definition lease_holder :: "resource_arg \<Rightarrow> lease_pool_error + resource_ref" where
  "lease_holder v = (case v of None \<Rightarrow> Inl LeasePoolError | Some r \<Rightarrow> Inr r)"

definition mk_lease_request :: "pyval \<Rightarrow> resource_arg \<Rightarrow> pyval \<Rightarrow> pyval \<Rightarrow> pyval \<Rightarrow> lease_pool_error + lease_request" where
  "mk_lease_request id_v holder_v kind_v units_v metadata_v =
     bind_sum (lease_identity ''lease request'' ''request_id'' id_v) (\<lambda>i.
     bind_sum (lease_identity ''lease request'' ''resource_kind'' kind_v) (\<lambda>k.
     bind_sum (lease_holder holder_v) (\<lambda>h.
     bind_sum (validate_positive_lease_integer ''units'' units_v) (\<lambda>n.
     bind_sum (lease_metadata metadata_v) (\<lambda>m.
     Inr \<lparr>request_id = i, request_holder = h, request_kind = k, request_units = n, request_metadata = m\<rparr>)))))"

record lease_grant =
  grant_lease_id :: string
  grant_request_id :: string
  grant_pool_id :: string
  grant_holder :: resource_ref
  grant_kind :: string
  grant_units :: int
  fencing_epoch :: int
  grant_acquired_at :: string
  grant_expires_at :: string
  grant_metadata :: metadata

definition mk_lease_grant ::
  "(string \<Rightarrow> rat option) \<Rightarrow> pyval \<Rightarrow> pyval \<Rightarrow> pyval \<Rightarrow> resource_arg \<Rightarrow> pyval \<Rightarrow> pyval \<Rightarrow> pyval \<Rightarrow> pyval \<Rightarrow> pyval \<Rightarrow> pyval
     \<Rightarrow> lease_pool_error + lease_grant" where
  "mk_lease_grant parse_iso lease_v request_v pool_v holder_v kind_v units_v epoch_v acquired_v expires_v metadata_v =
     bind_sum (lease_identity ''lease grant'' ''lease_id'' lease_v) (\<lambda>l.
     bind_sum (lease_identity ''lease grant'' ''request_id'' request_v) (\<lambda>r.
     bind_sum (lease_identity ''lease grant'' ''pool_id'' pool_v) (\<lambda>p.
     bind_sum (lease_identity ''lease grant'' ''resource_kind'' kind_v) (\<lambda>k.
     bind_sum (lease_holder holder_v) (\<lambda>h.
     bind_sum (validate_positive_lease_integer ''units'' units_v) (\<lambda>n.
     bind_sum (validate_positive_lease_integer ''fencing_epoch'' epoch_v) (\<lambda>ep.
     bind_sum (parse_lease_datetime parse_iso acquired_v) (\<lambda>a.
     bind_sum (parse_lease_datetime parse_iso expires_v) (\<lambda>x.
     bind_sum (if x \<le> a then Inl LeasePoolValueError else Inr ()) (\<lambda>_.
     bind_sum (lease_metadata metadata_v) (\<lambda>m.
     case (acquired_v, expires_v) of
       (PyStr a', PyStr x') \<Rightarrow>
         Inr \<lparr>grant_lease_id = l, grant_request_id = r, grant_pool_id = p, grant_holder = h, grant_kind = k, grant_units = n,
              fencing_epoch = ep, grant_acquired_at = a', grant_expires_at = x', grant_metadata = m\<rparr>
     | _ \<Rightarrow> Inl LeasePoolValueError)))))))))))"

definition grant_active_at :: "(string \<Rightarrow> rat option) \<Rightarrow> lease_grant \<Rightarrow> pyval \<Rightarrow> bool" where
  "grant_active_at parse_iso g now =
     (case (parse_lease_datetime parse_iso (PyStr (grant_acquired_at g)),
            parse_lease_datetime parse_iso (PyStr (grant_expires_at g)),
            parse_lease_datetime parse_iso now) of
        (Inr a, Inr x, Inr t) \<Rightarrow> a \<le> t \<and> t < x
      | _ \<Rightarrow> False)"

record scarce_pool =
  scarce_pool_id :: string
  scarce_kind :: string
  capacity_units :: int
  active_leases :: "lease_grant list"
  next_fencing_epoch :: int
  scarce_policy_ref :: pyval
  scarce_metadata :: metadata

text \<open>The loop over the restored leases: mismatches, duplicates, the units in use and the highest epoch.\<close>

fun check_active_leases ::
  "string \<Rightarrow> string \<Rightarrow> lease_grant list \<Rightarrow> string set \<Rightarrow> int \<Rightarrow> int \<Rightarrow> lease_pool_error + int \<times> int" where
  "check_active_leases pool kind [] seen_ids used highest = Inr (used, highest)"
| "check_active_leases pool kind (g # gs) seen_ids used highest =
     (if grant_pool_id g \<noteq> pool then Inl (LeaseResourceKindMismatchError pool (grant_pool_id g))
      else if grant_kind g \<noteq> kind then Inl (LeaseResourceKindMismatchError kind (grant_kind g))
      else if grant_lease_id g \<in> seen_ids then Inl (LeaseAlreadyExistsError (grant_lease_id g))
      else check_active_leases pool kind gs (insert (grant_lease_id g) seen_ids) (used + grant_units g)
             (max highest (fencing_epoch g)))"

definition lease_records :: "lease_grant option list option \<Rightarrow> lease_pool_error + lease_grant list" where
  "lease_records v =
     (case v of
        None \<Rightarrow> Inl LeasePoolError
      | Some xs \<Rightarrow> if None \<in> set xs then Inl LeasePoolError else Inr (map the xs))"

definition mk_scarce_pool ::
  "pyval \<Rightarrow> pyval \<Rightarrow> pyval \<Rightarrow> lease_grant option list option \<Rightarrow> pyval \<Rightarrow> pyval \<Rightarrow> pyval \<Rightarrow> lease_pool_error + scarce_pool" where
  "mk_scarce_pool id_v kind_v capacity_v leases_v epoch_v policy_v metadata_v =
     bind_sum (lease_identity ''lease pool'' ''pool_id'' id_v) (\<lambda>i.
     bind_sum (lease_identity ''lease pool'' ''resource_kind'' kind_v) (\<lambda>k.
     bind_sum (validate_positive_lease_integer ''capacity_units'' capacity_v) (\<lambda>capacity.
     bind_sum (validate_positive_lease_integer ''next_fencing_epoch'' epoch_v) (\<lambda>epoch.
     bind_sum (lease_records leases_v) (\<lambda>unsorted.
     let leases = sort_key (\<lambda>g. (grant_expires_at g, grant_lease_id g)) unsorted in
     bind_sum (check_active_leases i k leases {} 0 0) (\<lambda>(used, highest).
     bind_sum (if capacity < used then Inl (LeasePoolExhaustedError used capacity) else Inr ()) (\<lambda>_.
     bind_sum (validate_positive_lease_integer ''next_fencing_epoch'' (PyInt (highest + 1))) (\<lambda>next_after.
     bind_sum (lease_metadata metadata_v) (\<lambda>m.
     Inr \<lparr>scarce_pool_id = i, scarce_kind = k, capacity_units = capacity, active_leases = leases,
          next_fencing_epoch = max epoch next_after, scarce_policy_ref = policy_v, scarce_metadata = m\<rparr>)))))))))"

definition used_lease_units :: "scarce_pool \<Rightarrow> int" where
  "used_lease_units p = (\<Sum>g\<leftarrow>active_leases p. grant_units g)"

definition available_lease_units :: "scarce_pool \<Rightarrow> int" where
  "available_lease_units p = capacity_units p - used_lease_units p"

text \<open>\<^verbatim>\<open>replace(self, active_leases=..., next_fencing_epoch=...)\<close> runs the constructor again.\<close>

definition replace_leases :: "lease_grant list \<Rightarrow> int \<Rightarrow> scarce_pool \<Rightarrow> lease_pool_error + scarce_pool" where
  "replace_leases gs epoch p =
     mk_scarce_pool (PyStr (scarce_pool_id p)) (PyStr (scarce_kind p)) (PyInt (capacity_units p)) (Some (map Some gs)) (PyInt epoch)
       (scarce_policy_ref p) (metadata_value (scarce_metadata p))"

definition reap_expired_leases :: "(string \<Rightarrow> rat option) \<Rightarrow> pyval \<Rightarrow> scarce_pool \<Rightarrow> lease_pool_error + scarce_pool" where
  "reap_expired_leases parse_iso now p =
     bind_sum (parse_lease_datetime parse_iso now) (\<lambda>_.
     let gs = filter (\<lambda>g. grant_active_at parse_iso g now) (active_leases p) in
     if gs = active_leases p then Inr p else replace_leases gs (next_fencing_epoch p) p)"

definition acquire_lease ::
  "(string \<Rightarrow> rat option) \<Rightarrow> lease_request instance_arg \<Rightarrow> pyval \<Rightarrow> pyval \<Rightarrow> pyval \<Rightarrow> scarce_pool
     \<Rightarrow> lease_pool_error + scarce_pool \<times> lease_grant" where
  "acquire_lease parse_iso request_v lease_v acquired_v expires_v p =
     bind_sum (case request_v of ArgObject r \<Rightarrow> Inr r | _ \<Rightarrow> Inl LeasePoolError) (\<lambda>r.
     bind_sum (lease_identity ''lease'' ''lease_id'' lease_v) (\<lambda>i.
     bind_sum (parse_lease_datetime parse_iso acquired_v) (\<lambda>_.
     bind_sum (parse_lease_datetime parse_iso expires_v) (\<lambda>_.
     bind_sum (if request_kind r \<noteq> scarce_kind p then Inl (LeaseResourceKindMismatchError (scarce_kind p) (request_kind r))
               else Inr ()) (\<lambda>_.
     bind_sum (reap_expired_leases parse_iso acquired_v p) (\<lambda>current.
     bind_sum (if list_ex (\<lambda>g. grant_lease_id g = i) (active_leases current) then Inl (LeaseAlreadyExistsError i) else Inr ()) (\<lambda>_.
     bind_sum (if available_lease_units current < request_units r
               then Inl (LeasePoolExhaustedError (request_units r) (available_lease_units current)) else Inr ()) (\<lambda>_.
     bind_sum (validate_positive_lease_integer ''next_fencing_epoch'' (PyInt (next_fencing_epoch current + 1))) (\<lambda>epoch.
     bind_sum (mk_lease_grant parse_iso lease_v (PyStr (request_id r)) (PyStr (scarce_pool_id p)) (Some (request_holder r))
                 (PyStr (request_kind r)) (PyInt (request_units r)) (PyInt (next_fencing_epoch current)) acquired_v expires_v
                 (metadata_value (request_metadata r))) (\<lambda>grant.
     bind_sum (replace_leases (active_leases current @ [grant]) epoch current) (\<lambda>p'.
     Inr (p', grant))))))))))))"

definition resource_ref_eq :: "resource_ref \<Rightarrow> resource_ref \<Rightarrow> bool" where
  "resource_ref_eq a b \<longleftrightarrow> resource_id a = resource_id b \<and> resource_kind a = resource_kind b \<and>
     resource_tenant_id a = resource_tenant_id b \<and> py_eq (resource_attributes a) (resource_attributes b)"

text \<open>
  \<^verbatim>\<open>replace(request, metadata=...)\<close> keeps the validated fields; the two entries it adds have
  non-empty keys.
\<close>

definition acquire_with_budget_permit ::
  "(string \<Rightarrow> rat option) \<Rightarrow> lease_request \<Rightarrow> budget_permit instance_arg \<Rightarrow> usage_amount option list \<Rightarrow> pyval \<Rightarrow> pyval \<Rightarrow> pyval
     \<Rightarrow> scarce_pool \<Rightarrow> lease_pool_error + scarce_pool \<times> lease_grant" where
  "acquire_with_budget_permit parse_iso r permit_v amounts lease_v acquired_v expires_v p =
     bind_sum (case permit_v of ArgObject x \<Rightarrow> Inr x | _ \<Rightarrow> Inl LeaseBudgetPermitError) (\<lambda>permit.
     bind_sum (if \<not> resource_ref_eq (request_holder r) (permit_owner permit) then Inl LeaseBudgetPermitError else Inr ()) (\<lambda>_.
     bind_sum (if \<not> is_active_at parse_iso permit acquired_v then Inl LeaseBudgetPermitError else Inr ()) (\<lambda>_.
     bind_sum (if amounts = [] \<or> None \<in> set amounts then Inl LeaseBudgetPermitError else Inr ()) (\<lambda>_.
     bind_sum (if \<not> permit_allows permit (map the amounts) then Inl LeaseBudgetPermitError else Inr ()) (\<lambda>_.
     bind_sum (if expires_v \<noteq> PyStr (permit_expires_at permit) \<and> \<not> is_active_at parse_iso permit expires_v
               then Inl LeaseBudgetPermitError else Inr ()) (\<lambda>_.
     let m = dict_set ''budget_reservation_refs'' (PyList (map PyStr (reservation_refs permit)))
               (dict_set ''budget_permit_id'' (PyStr (permit_id permit)) (request_metadata r))
     in acquire_lease parse_iso (ArgObject (r\<lparr>request_metadata := m\<rparr>)) lease_v acquired_v expires_v p))))))"

text \<open>The first lease of the given identifier, and the list without it.\<close>

fun remove_lease :: "string \<Rightarrow> int \<Rightarrow> lease_grant list \<Rightarrow> lease_pool_error + lease_grant list" where
  "remove_lease i epoch [] = Inl (LeaseNotFoundError i)"
| "remove_lease i epoch (g # gs) =
     (if grant_lease_id g = i then
        (if fencing_epoch g \<noteq> epoch then Inl (LeaseEpochMismatchError i (fencing_epoch g) epoch) else Inr gs)
      else bind_sum (remove_lease i epoch gs) (\<lambda>rest. Inr (g # rest)))"

definition release_lease :: "pyval \<Rightarrow> pyval \<Rightarrow> scarce_pool \<Rightarrow> lease_pool_error + scarce_pool" where
  "release_lease lease_v epoch_v p =
     bind_sum (lease_identity ''lease'' ''lease_id'' lease_v) (\<lambda>i.
     bind_sum (validate_positive_lease_integer ''fencing_epoch'' epoch_v) (\<lambda>epoch.
     bind_sum (remove_lease i epoch (active_leases p)) (\<lambda>gs.
     replace_leases gs (next_fencing_epoch p) p)))"

section \<open>Delegation to a child\<close>

datatype delegation_error = ChildBudgetDelegationError | DelegationBudgetError budget_error

record child_budget_delegation =
  delegation_id :: string
  parent_permit :: budget_permit
  child_owner :: resource_arg
  delegated_amounts :: amounts_arg
  delegation_expires_at :: pyval
  delegation_profile :: pyval

definition budget_result :: "budget_error + 'a \<Rightarrow> delegation_error + 'a" where
  "budget_result r = (case r of Inl e \<Rightarrow> Inl (DelegationBudgetError e) | Inr x \<Rightarrow> Inr x)"

definition create_child_permit ::
  "(string \<Rightarrow> rat option) \<Rightarrow> string \<Rightarrow> child_budget_delegation \<Rightarrow> delegation_error + budget_permit" where
  "create_child_permit parse_iso permit d =
     (let parent = parent_permit d in
      bind_sum (budget_result (validate_usage_amounts (delegated_amounts d))) (\<lambda>amounts.
      bind_sum (if \<not> permit_allows parent amounts then Inl ChildBudgetDelegationError else Inr ()) (\<lambda>_.
      bind_sum (budget_result
        (mk_budget_permit parse_iso permit (reservation_refs parent) (child_owner d) (Some (atomic_unit parent))
           (PyInt (admission_epoch parent)) amounts
           (if py_falsy (delegation_profile d) then PyStr (continuation_profile parent) else delegation_profile d)
           (PyStr (policy_snapshot_digest parent)) (delegation_expires_at d) (Some []) (fencing_tokens parent))) (\<lambda>child.
      if permit_expires_at child \<noteq> permit_expires_at parent \<and>
         \<not> is_active_at parse_iso parent (PyStr (permit_expires_at child))
      then Inl ChildBudgetDelegationError else Inr child))))"

end
