(* ===== verification/Task_Plan_Props.thy ===== *)
theory Task_Plan_Props
  imports Task_Plan
begin

text \<open>
  What a task plan promises: dependency cycles are found exactly, accepted plans are well
  formed and within their limits, the layers run every step once and after its dependencies,
  and a patch changes the steps it names.
\<close>

section \<open>Dependencies and cycles\<close>

definition plan_depends :: "task_step list \<Rightarrow> string \<Rightarrow> string \<Rightarrow> bool" where
  "plan_depends steps i d \<longleftrightarrow> (\<exists>s \<in> set steps. step_id s = i \<and> d \<in> set (depends_on s))"

definition depends :: "steps_by_id \<Rightarrow> string \<Rightarrow> string \<Rightarrow> bool" where
  "depends g i d \<longleftrightarrow> (\<exists>s. map_of g i = Some s \<and> d \<in> set (depends_on s))"

definition closed_walk :: "(string \<Rightarrow> string \<Rightarrow> bool) \<Rightarrow> string list \<Rightarrow> bool" where
  "closed_walk r c \<longleftrightarrow> 2 \<le> length c \<and> hd c = last c \<and> successively r c"

definition graph_closed :: "steps_by_id \<Rightarrow> bool" where
  "graph_closed g \<longleftrightarrow> (\<forall>i d. depends g i d \<longrightarrow> map_of g d \<noteq> None)"

text \<open>The steps all of whose chains of dependencies end.\<close>

inductive grounded :: "steps_by_id \<Rightarrow> string \<Rightarrow> bool" for g where
  ground: "map_of g i = Some s \<Longrightarrow> (\<And>d. d \<in> set (depends_on s) \<Longrightarrow> grounded g d) \<Longrightarrow> grounded g i"

lemma grounded_no_cycle: "grounded g i \<Longrightarrow> \<not> (depends g)\<^sup>+\<^sup>+ i i"
proof (induction rule: grounded.induct)
  case (ground i s)
  show ?case
  proof
    assume "(depends g)\<^sup>+\<^sup>+ i i"
    then obtain d where "depends g i d" "(depends g)\<^sup>*\<^sup>* d i" by (meson tranclpD)
    then have "d \<in> set (depends_on s)" "(depends g)\<^sup>+\<^sup>+ d d"
      using ground(1) by (auto simp: depends_def [of g i] intro: rtranclp_into_tranclp1)
    then show False using ground by blast
  qed
qed

lemma successively_tranclp: "successively r c \<Longrightarrow> 2 \<le> length c \<Longrightarrow> r\<^sup>+\<^sup>+ (hd c) (last c)"
proof (induction c)
  case (Cons x c)
  then show ?case
  proof (cases c)
    case (Cons y ys)
    then have r: "r x y" using Cons.prems by simp
    show ?thesis
    proof (cases ys)
      case Nil
      then show ?thesis using r Cons by auto
    next
      case (Cons z zs)
      then have "r\<^sup>+\<^sup>+ y (last c)" using Cons.IH Cons.prems \<open>c = y # ys\<close> by auto
      then show ?thesis using r \<open>c = y # ys\<close> by (auto intro: tranclp_into_tranclp2)
    qed
  qed simp
qed simp

lemma closed_walk_tranclp: "closed_walk r c \<Longrightarrow> r\<^sup>+\<^sup>+ (hd c) (hd c)"
  using successively_tranclp unfolding closed_walk_def by metis

section \<open>The depth-first search\<close>

lemma visit_Inr:
  "visit_steps g xs st = Inr st' \<Longrightarrow> (\<And>x. x \<in> visited st \<Longrightarrow> grounded g x) \<Longrightarrow>
   (\<forall>x \<in> visited st'. grounded g x) \<and> visited st \<union> set xs \<subseteq> visited st' \<and> visiting st' = visiting st \<and>
   visit_stack st' = visit_stack st"
proof (induction g xs st arbitrary: st' rule: visit_steps.induct)
  case (2 g x xs st)
  show ?case
  proof (cases "x \<in> visited st")
    case True
    then show ?thesis using 2(2) [of st st'] 2(3,4) by auto
  next
    case False
    then obtain step st1 where step: "x \<notin> visiting st" "map_of g x = Some step"
      and st1: "visit_steps g (depends_on step) (enter_step x st) = Inr st1" "visit_steps g xs (leave_step x st1) = Inr st'"
      using 2(3) by (auto simp: bind_sum_Inr_iff split: if_splits option.splits)
    have i: "(\<forall>y \<in> visited st1. grounded g y) \<and> visited st \<union> set (depends_on step) \<subseteq> visited st1 \<and>
        visiting st1 = insert x (visiting st) \<and> visit_stack st1 = visit_stack st @ [x]"
      using 2(1) [OF False step st1(1)] 2(4) by (simp add: enter_step_def)
    then have "grounded g x" using step(2) by (auto intro: grounded.ground)
    then have "\<And>y. y \<in> visited (leave_step x st1) \<Longrightarrow> grounded g y" using i by (auto simp: leave_step_def)
    from 2(2) [of "leave_step x st1", OF _ st1(2) this] show ?thesis
      using False step st1(1) i by (auto simp: leave_step_def)
  qed
qed auto

lemma successively_suffix: "successively r (xs @ ys) \<Longrightarrow> successively r ys"
  by (simp add: successively_append_iff)

lemma cycle_from_closed_walk:
  assumes "x \<in> set stack" "successively r stack" "r (last stack) x"
  shows "closed_walk r (cycle_from stack x)"
proof -
  let ?t = "dropWhile (\<lambda>y. y \<noteq> x) stack"
  have t: "?t \<noteq> []" "hd ?t = x" using assms(1) hd_dropWhile [of "\<lambda>y. y \<noteq> x" stack] by auto
  have "successively r ?t" using assms(2) successively_suffix by (metis takeWhile_dropWhile_id)
  moreover have "last ?t = last stack" using t(1) by (metis last_appendR takeWhile_dropWhile_id)
  ultimately show ?thesis
    using t assms(3) unfolding closed_walk_def cycle_from_def successively_append_iff by (cases ?t) (auto split: if_splits)
qed

definition stack_ok :: "steps_by_id \<Rightarrow> visit_state \<Rightarrow> bool" where
  "stack_ok g st \<longleftrightarrow> visiting st = set (visit_stack st) \<and> successively (depends g) (visit_stack st)"

lemma visit_Inl:
  assumes "graph_closed g"
  shows "visit_steps g xs st = Inl e \<Longrightarrow> stack_ok g st \<Longrightarrow>
    (\<And>x. x \<in> set xs \<Longrightarrow> map_of g x \<noteq> None \<and> (visit_stack st \<noteq> [] \<longrightarrow> depends g (last (visit_stack st)) x)) \<Longrightarrow>
    (\<And>x. x \<in> visited st \<Longrightarrow> grounded g x) \<Longrightarrow> \<exists>c. e = TaskPlanCycleError c \<and> closed_walk (depends g) c"
  using assms
proof (induction g xs st arbitrary: e rule: visit_steps.induct)
  case (2 g x xs st)
  have x: "map_of g x \<noteq> None" "visit_stack st \<noteq> [] \<longrightarrow> depends g (last (visit_stack st)) x" using 2(5) by simp_all
  show ?case
  proof (cases "x \<in> visited st")
    case True
    then show ?thesis using 2(2) [of st e] 2(3-7) by auto
  next
    case new: False
    show ?thesis
    proof (cases "x \<in> visiting st")
      case True
      then have "x \<in> set (visit_stack st)" "successively (depends g) (visit_stack st)" using 2(4) by (auto simp: stack_ok_def)
      moreover from this have "depends g (last (visit_stack st)) x" using x(2) by auto
      ultimately show ?thesis using 2(3) new True by (auto intro: cycle_from_closed_walk)
    next
      case False
      obtain step where step: "map_of g x = Some step" using x(1) by blast
      have st: "stack_ok g (enter_step x st)" using 2(4) x(2)
        by (auto simp: stack_ok_def enter_step_def successively_append_iff)
      have deps: "map_of g d \<noteq> None \<and> depends g (last (visit_stack (enter_step x st))) d" if "d \<in> set (depends_on step)" for d
        using that step 2(7) by (auto simp: enter_step_def depends_def graph_closed_def)
      show ?thesis
      proof (cases "visit_steps g (depends_on step) (enter_step x st)")
        case (Inl e')
        then show ?thesis using 2(1) [OF new False step Inl st] deps 2(3,6,7) new False step by (auto simp: enter_step_def)
      next
        case (Inr st1)
        note i = visit_Inr [OF Inr]
        have "grounded g x" by (rule grounded.ground [OF step]) (use i 2(6) in \<open>auto simp: enter_step_def\<close>)
        moreover have "(\<forall>y \<in> visited st1. grounded g y) \<and> visiting st1 = insert x (visiting st) \<and> visit_stack st1 = visit_stack st @ [x]"
          using i 2(6) by (simp add: enter_step_def)
        ultimately have st2: "stack_ok g (leave_step x st1)" "\<And>y. y \<in> visited (leave_step x st1) \<Longrightarrow> grounded g y"
            "visit_stack (leave_step x st1) = visit_stack st"
          using 2(4) False by (auto simp: leave_step_def stack_ok_def)
        show ?thesis by (rule 2(2) [OF _ _ st2(1) _ st2(2) 2(7)]) (use 2(3,5) new False step Inr st2(3) in \<open>simp_all\<close>)
      qed
    qed
  qed
qed simp

lemma check_acyclic_iff:
  assumes "graph_closed g"
  shows "case check_acyclic g of Inr _ \<Rightarrow> \<forall>i. map_of g i \<noteq> None \<longrightarrow> grounded g i
    | Inl e \<Rightarrow> \<exists>c. e = TaskPlanCycleError c \<and> closed_walk (depends g) c"
proof (cases "visit_steps g (map fst g) \<lparr>visiting = {}, visited = {}, visit_stack = []\<rparr>")
  case (Inl e)
  then show ?thesis using visit_Inl [OF assms Inl] by (auto simp: check_acyclic_def stack_ok_def map_of_eq_None_iff)
next
  case (Inr st)
  then show ?thesis using visit_Inr [OF Inr] by (auto simp: check_acyclic_def map_of_eq_None_iff)
qed


section \<open>Layers\<close>

definition layered :: "(string \<Rightarrow> string list) \<Rightarrow> string list list \<Rightarrow> bool" where
  "layered D L \<longleftrightarrow> (\<forall>i < length L. L ! i \<noteq> [] \<and> sorted (L ! i) \<and>
     (\<forall>x \<in> set (L ! i). set (D x) \<subseteq> set (concat (take i L)) \<and>
        (0 < i \<longrightarrow> \<not> set (D x) \<subseteq> set (concat (take (i - 1) L)))))"

definition layers_inv ::
  "(string \<Rightarrow> string list) \<Rightarrow> (string, string list) dict \<Rightarrow> string set \<Rightarrow> string list list \<Rightarrow> bool" where
  "layers_inv D remaining completed L \<longleftrightarrow> dict_ok remaining \<and> (\<forall>(i, ds) \<in> set remaining. ds = D i) \<and>
     completed = set (concat L) \<and> distinct (concat L) \<and> completed \<inter> fst ` set remaining = {} \<and> layered D L \<and>
     (\<forall>i \<in> fst ` set remaining. set (D i) \<subseteq> completed \<union> fst ` set remaining \<and>
        (L \<noteq> [] \<longrightarrow> \<not> set (D i) \<subseteq> set (concat (butlast L))))"

lemma layers_invD:
  assumes "layers_inv D remaining completed L"
  shows "dict_ok remaining" "(i, ds) \<in> set remaining \<Longrightarrow> ds = D i" "completed = set (concat L)" "distinct (concat L)"
    "completed \<inter> fst ` set remaining = {}" "layered D L"
    "i \<in> fst ` set remaining \<Longrightarrow> set (D i) \<subseteq> completed \<union> fst ` set remaining"
    "i \<in> fst ` set remaining \<Longrightarrow> L \<noteq> [] \<Longrightarrow> \<not> set (D i) \<subseteq> set (concat (butlast L))"
  using assms unfolding layers_inv_def by blast+

lemma layered_snoc:
  assumes "layered D L" "ready \<noteq> []" "sorted ready" "\<And>x. x \<in> set ready \<Longrightarrow> set (D x) \<subseteq> set (concat L)"
    "\<And>x. x \<in> set ready \<Longrightarrow> L \<noteq> [] \<Longrightarrow> \<not> set (D x) \<subseteq> set (concat (butlast L))"
  shows "layered D (L @ [ready])"
  unfolding layered_def
proof (intro allI impI)
  fix i assume "i < length (L @ [ready])"
  then consider "i < length L" | "i = length L" by fastforce
  then show "(L @ [ready]) ! i \<noteq> [] \<and> sorted ((L @ [ready]) ! i) \<and>
     (\<forall>x \<in> set ((L @ [ready]) ! i). set (D x) \<subseteq> set (concat (take i (L @ [ready]))) \<and>
        (0 < i \<longrightarrow> \<not> set (D x) \<subseteq> set (concat (take (i - 1) (L @ [ready])))))"
  proof cases
    case 1
    then show ?thesis using assms(1) unfolding layered_def by (simp add: nth_append)
  next
    case 2
    then show ?thesis using assms(2-5) by (simp add: butlast_conv_take)
  qed
qed

lemma ready_exists:
  assumes "layers_inv D remaining completed L" "i \<in> fst ` set remaining" "grounded g i"
    and D: "\<And>i s. map_of g i = Some s \<Longrightarrow> D i = depends_on s"
  shows "\<exists>j \<in> fst ` set remaining. set (D j) \<subseteq> completed"
  using assms(3,2)
proof (induction rule: grounded.induct)
  case (ground i s)
  show ?case
  proof (cases "set (D i) \<subseteq> completed")
    case False
    moreover have "set (D i) \<subseteq> completed \<union> fst ` set remaining" by (rule layers_invD(7) [OF assms(1) ground(4)])
    ultimately obtain d where "d \<in> set (D i)" "d \<in> fst ` set remaining" by blast
    then have "d \<in> set (depends_on s)" "d \<in> fst ` set remaining" using D [OF ground(1)] by simp_all
    then show ?thesis using ground(3) by blast
  qed (use ground(4) in blast)
qed

lemma layers_run:
  assumes "layers_inv D remaining completed L" "\<And>i. i \<in> fst ` set remaining \<Longrightarrow> grounded g i"
    and D: "\<And>i s. map_of g i = Some s \<Longrightarrow> D i = depends_on s"
  shows "\<exists>L'. layers_loop remaining completed L = Inr L' \<and> set (concat L') = completed \<union> fst ` set remaining \<and>
    distinct (concat L') \<and> layered D L'"
  using assms(1,2)
proof (induction remaining completed L rule: layers_loop.induct)
  case (1 remaining completed L)
  note inv = layers_invD [OF 1(2)]
  define ready where "ready = sort (map fst (filter (\<lambda>(_, ds). set ds \<subseteq> completed) remaining))"
  define rest where "rest = filter (\<lambda>(i, _). i \<notin> set ready) remaining"
  show ?case
  proof (cases "remaining = []")
    case True
    then show ?thesis using inv(3,4,6) by (simp add: layers_loop.simps)
  next
    case False
    have mem: "x \<in> set ready \<longleftrightarrow> x \<in> fst ` set remaining \<and> set (D x) \<subseteq> completed" for x
      using inv(2) by (force simp: ready_def)
    obtain i where "i \<in> fst ` set remaining" using False by (cases remaining) auto
    then have ne: "ready \<noteq> []" using ready_exists [OF 1(2) _ 1(3) D] mem by fastforce
    have dist: "distinct ready" using inv(1) by (simp add: ready_def dict_ok_def distinct_map_filter)
    have rest: "fst ` set rest = fst ` set remaining - set ready" unfolding rest_def by force
    have lay: "layered D (L @ [ready])"
      by (rule layered_snoc [OF inv(6) ne]) (use inv(3,8) mem in \<open>auto simp: ready_def\<close>)
    have keep: "layers_inv D rest (completed \<union> set ready) (L @ [ready])"
      unfolding layers_inv_def rest
    proof (intro conjI ballI impI)
      show "dict_ok rest" using inv(1) by (simp add: rest_def)
      show "case x of (i, ds) \<Rightarrow> ds = D i" if "x \<in> set rest" for x using that inv(2) by (auto simp: rest_def)
      show "completed \<union> set ready = set (concat (L @ [ready]))" using inv(3) by simp
      show "distinct (concat (L @ [ready]))" using inv(3-5) dist mem by auto
      show "(completed \<union> set ready) \<inter> (fst ` set remaining - set ready) = {}" using inv(5) by blast
      show "layered D (L @ [ready])" by (rule lay)
    next
      fix i assume i: "i \<in> fst ` set remaining - set ready"
      then show "set (D i) \<subseteq> completed \<union> set ready \<union> (fst ` set remaining - set ready)" using inv(7) by blast
      show "\<not> set (D i) \<subseteq> set (concat (butlast (L @ [ready])))" using i mem inv(3) by simp
    qed
    obtain L' where L': "layers_loop rest (completed \<union> set ready) (L @ [ready]) = Inr L'"
        "set (concat L') = completed \<union> set ready \<union> fst ` set rest" "distinct (concat L')" "layered D L'"
      using 1(1) [OF False ready_def ne, folded rest_def, OF keep] 1(3) rest by blast
    have "set ready \<subseteq> fst ` set remaining" using mem by blast
    then have "set (concat L') = completed \<union> fst ` set remaining" unfolding L'(2) rest by blast
    moreover have "layers_loop remaining completed L = Inr L'"
      using False ne L'(1) by (subst layers_loop.simps) (simp add: ready_def [symmetric] rest_def Let_def)
    ultimately show ?thesis using L'(3,4) by blast
  qed
qed

section \<open>The checks of a plan\<close>

lemma dict_of_distinct: "distinct (map f xs) \<Longrightarrow> (\<And>x. x \<in> set xs \<Longrightarrow> map_of d (f x) = None) \<Longrightarrow>
   fold (\<lambda>x. dict_set (f x) (h x)) xs d = d @ map (\<lambda>x. (f x, h x)) xs"
proof (induction xs arbitrary: d)
  case (Cons x xs)
  then have "fold (\<lambda>x. dict_set (f x) (h x)) xs (d @ [(f x, h x)]) = (d @ [(f x, h x)]) @ map (\<lambda>x. (f x, h x)) xs"
    by (intro Cons.IH) (auto simp: image_iff split: if_splits)
  then show ?case using Cons.prems(2) [of x] by (simp add: dict_set_new)
qed simp

definition step_limits_ok :: "task_plan_limits \<Rightarrow> task_step \<Rightarrow> bool" where
  "step_limits_ok lims s \<longleftrightarrow> int (length (depends_on s)) \<le> max_dependencies_per_step lims \<and>
     int (length (description s)) \<le> max_description_chars lims"

abbreviation steps_dict :: "task_step list \<Rightarrow> steps_by_id" where
  "steps_dict steps \<equiv> map (\<lambda>s. (step_id s, s)) steps"

lemma index_steps_iff:
  "index_steps lims steps by_id = Inr r \<longleftrightarrow> distinct (map step_id steps) \<and> (\<forall>s \<in> set steps. map_of by_id (step_id s) = None \<and>
     step_limits_ok lims s) \<and> r = by_id @ steps_dict steps"
proof (induction steps arbitrary: by_id)
  case (Cons s steps)
  show ?case
  proof (cases "map_of by_id (step_id s) = None \<and> step_limits_ok lims s")
    case True
    then show ?thesis using Cons.IH [of "dict_set (step_id s) s by_id"]
      by (auto simp: step_limits_ok_def dict_set_new not_less image_iff split: if_splits)
  qed (auto simp: step_limits_ok_def not_le)
qed auto

lemma check_dependencies_iff: "check_dependencies by_id i ds = Inr () \<longleftrightarrow> (\<forall>d \<in> set ds. map_of by_id d \<noteq> None)"
  by (induction ds) auto

lemma map_sum_list_Inr_iff: "(\<exists>ys. map_sum_list f xs = Inr ys) \<longleftrightarrow> (\<forall>x \<in> set xs. \<exists>y. f x = Inr y)"
  by (induction xs) (auto simp: bind_sum_Inr_iff)

lemma check_all_dependencies_iff:
  "check_all_dependencies by_id steps = Inr () \<longleftrightarrow> (\<forall>s \<in> set steps. \<forall>d \<in> set (depends_on s). map_of by_id d \<noteq> None)"
  using map_sum_list_Inr_iff [of "\<lambda>s. check_dependencies by_id (step_id s) (depends_on s)" steps]
  by (simp add: check_all_dependencies_def bind_sum_Inr_iff check_dependencies_iff)

lemma check_context_access_iff:
  "check_context_access by_id resources accesses = Inr () \<longleftrightarrow>
   (\<forall>a \<in> set accesses. map_of by_id (access_step_id a) \<noteq> None \<and> access_resource_id a \<in> set resources)"
  by (induction accesses) auto

lemma steps_dict_get:
  "distinct (map step_id steps) \<Longrightarrow> map_of (steps_dict steps) i = Some s \<longleftrightarrow> s \<in> set steps \<and> step_id s = i"
  by (induction steps) (auto simp: image_iff)

lemma steps_dict_None: "map_of (steps_dict steps) i = None \<longleftrightarrow> i \<notin> step_id ` set steps"
  by (induction steps) auto

lemma depends_steps_dict: "distinct (map step_id steps) \<Longrightarrow> depends (steps_dict steps) = plan_depends steps"
  by (auto simp: fun_eq_iff depends_def plan_depends_def steps_dict_get)


lemma graph_closed_steps:
  "distinct (map step_id steps) \<Longrightarrow> (\<forall>s \<in> set steps. \<forall>d \<in> set (depends_on s). map_of (steps_dict steps) d \<noteq> None) \<Longrightarrow>
   graph_closed (steps_dict steps)"
  unfolding graph_closed_def by (auto simp: depends_def steps_dict_get)

lemma cycle_check:
  assumes "index_steps lims steps [] = Inr by_id" "check_all_dependencies by_id steps = Inr ()"
  shows "case check_acyclic by_id of
      Inr _ \<Rightarrow> (\<forall>i. \<not> (plan_depends steps)\<^sup>+\<^sup>+ i i) \<and> (\<forall>i \<in> step_id ` set steps. grounded by_id i)
    | Inl e \<Rightarrow> \<exists>c. e = TaskPlanCycleError c \<and> closed_walk (plan_depends steps) c"
proof -
  have ids: "distinct (map step_id steps)" "by_id = steps_dict steps" using assms(1) by (simp_all add: index_steps_iff)
  have closed: "graph_closed by_id" using graph_closed_steps [OF ids(1)] assms(2) unfolding check_all_dependencies_iff ids(2) by blast
  have dep: "depends by_id = plan_depends steps" unfolding ids(2) by (rule depends_steps_dict [OF ids(1)])
  have no: "\<not> (plan_depends steps)\<^sup>+\<^sup>+ i i" if "\<forall>i. map_of by_id i \<noteq> None \<longrightarrow> grounded by_id i" for i
  proof
    assume c: "(plan_depends steps)\<^sup>+\<^sup>+ i i"
    then obtain d where "plan_depends steps i d" by (meson tranclpD)
    then have "map_of by_id i \<noteq> None" by (simp add: dep [symmetric] depends_def) blast
    then have "grounded by_id i" using that by blast
    then show False using grounded_no_cycle [of by_id i, unfolded dep] c by blast
  qed
  have ground: "\<forall>i \<in> step_id ` set steps. grounded by_id i" if g: "\<forall>i. map_of by_id i \<noteq> None \<longrightarrow> grounded by_id i"
  proof
    fix i assume "i \<in> step_id ` set steps"
    then have "map_of by_id i \<noteq> None" unfolding ids(2) steps_dict_None by blast
    then show "grounded by_id i" using g by blast
  qed
  from check_acyclic_iff [OF closed] show ?thesis unfolding dep using no ground by (auto split: sum.splits)
qed

definition steps_rooted :: "task_step list \<Rightarrow> bool" where
  "steps_rooted steps \<longleftrightarrow> distinct (map step_id steps) \<and> (\<forall>s \<in> set steps. set (depends_on s) \<subseteq> step_id ` set steps) \<and>
     (\<forall>i. \<not> (plan_depends steps)\<^sup>+\<^sup>+ i i)"

definition layers_of_steps :: "task_step list \<Rightarrow> string list list \<Rightarrow> bool" where
  "layers_of_steps steps L \<longleftrightarrow> distinct (concat L) \<and> set (concat L) = step_id ` set steps \<and>
     (\<forall>i < length L. L ! i \<noteq> [] \<and> sorted (L ! i) \<and>
        (\<forall>x \<in> set (L ! i). (\<forall>d. plan_depends steps x d \<longrightarrow> (\<exists>j < i. d \<in> set (L ! j))) \<and>
           (0 < i \<longrightarrow> (\<exists>d \<in> set (L ! (i - 1)). plan_depends steps x d))))"

lemma rooted_checks:
  assumes "steps_rooted steps"
  shows "check_all_dependencies (steps_dict steps) steps = Inr ()" "check_acyclic (steps_dict steps) = Inr ()"
    "\<forall>i \<in> step_id ` set steps. grounded (steps_dict steps) i"
proof -
  have ids: "distinct (map step_id steps)" and none: "\<And>i. \<not> (plan_depends steps)\<^sup>+\<^sup>+ i i" using assms by (auto simp: steps_rooted_def)
  define m where "m = Max (insert 0 ((\<lambda>s. int (length (depends_on s)) + int (length (description s))) ` set steps))"
  have m: "int (length (depends_on s)) + int (length (description s)) \<le> m" if "s \<in> set steps" for s
    unfolding m_def using that by (intro Max_ge) auto
  then have "index_steps \<lparr>max_steps = m, max_dependencies_per_step = m, max_description_chars = m, max_depth = m, max_parallel_tasks = m\<rparr>
      steps [] = Inr (steps_dict steps)" using ids by (force simp: index_steps_iff step_limits_ok_def)
  moreover show dep: "check_all_dependencies (steps_dict steps) steps = Inr ()"
    using assms by (auto simp: check_all_dependencies_iff steps_dict_None steps_rooted_def)
  ultimately have c: "case check_acyclic (steps_dict steps) of
      Inr _ \<Rightarrow> (\<forall>i. \<not> (plan_depends steps)\<^sup>+\<^sup>+ i i) \<and> (\<forall>i \<in> step_id ` set steps. grounded (steps_dict steps) i)
    | Inl e \<Rightarrow> \<exists>c. e = TaskPlanCycleError c \<and> closed_walk (plan_depends steps) c" by (rule cycle_check)
  have nc: "\<not> closed_walk (plan_depends steps) c" for c using closed_walk_tranclp none by blast
  show "check_acyclic (steps_dict steps) = Inr ()" "\<forall>i \<in> step_id ` set steps. grounded (steps_dict steps) i"
    using c nc by (auto split: sum.splits)
qed

lemma take_concat_mem: "d \<in> set (concat (take i L)) \<longleftrightarrow> (\<exists>j < i. j < length L \<and> d \<in> set (L ! j))"
  by (auto simp: set_conv_nth [of "take i L"])

lemma layers_rooted:
  assumes "steps_rooted steps"
  shows "\<exists>L. execution_layers_of steps = Inr L \<and> layers_of_steps steps L"
proof -
  have ids: "distinct (map step_id steps)" using assms by (simp add: steps_rooted_def)
  define D where "D i = (case map_of (steps_dict steps) i of None \<Rightarrow> [] | Some s \<Rightarrow> depends_on s)" for i
  let ?rem = "map (\<lambda>s. (step_id s, depends_on s)) steps"
  have rem: "fold (\<lambda>s. dict_set (step_id s) (depends_on s)) steps [] = ?rem" using dict_of_distinct [OF ids, of "[]"] by simp
  have D: "D (step_id s) = depends_on s" if "s \<in> set steps" for s
    using that steps_dict_get [OF ids, of "step_id s" s] by (simp add: D_def)
  have keys: "fst ` set ?rem = step_id ` set steps" by force
  have inv: "layers_inv D ?rem {} []"
    unfolding layers_inv_def keys using ids assms D
    by (auto simp: dict_ok_def comp_def layered_def steps_rooted_def)
  obtain L where L: "layers_loop ?rem {} [] = Inr L" "set (concat L) = step_id ` set steps" "distinct (concat L)" "layered D L"
    using layers_run [OF inv, of "steps_dict steps"] rooted_checks(3) [OF assms] unfolding keys by (auto simp: D_def)
  have dep: "plan_depends steps x d \<longleftrightarrow> d \<in> set (D x)" for x d
    unfolding depends_steps_dict [OF ids, symmetric] depends_def D_def by (cases "map_of (steps_dict steps) x") auto
  have "\<exists>d \<in> set (L ! (i - 1)). d \<in> set (D x)"
    if sub: "0 < i" "i < length L" "set (D x) \<subseteq> set (concat (take i L))" "\<not> set (D x) \<subseteq> set (concat (take (i - 1) L))" for i x
  proof -
    obtain d where d: "d \<in> set (D x)" "d \<notin> set (concat (take (i - 1) L))" using sub(4) by blast
    have "d \<in> set (concat (take i L))" using d(1) sub(3) by blast
    then obtain j where "j < i" "j < length L" "d \<in> set (L ! j)" unfolding take_concat_mem by blast
    moreover from this have "\<not> j < i - 1" using d(2) unfolding take_concat_mem by blast
    ultimately have "j = i - 1" by linarith
    then show ?thesis using d(1) \<open>d \<in> set (L ! j)\<close> by blast
  qed
  note before = this
  have "layers_of_steps steps L"
    unfolding layers_of_steps_def dep
  proof (intro conjI allI impI ballI)
    fix i x assume i: "i < length L" and x: "x \<in> set (L ! i)"
    then have D: "set (D x) \<subseteq> set (concat (take i L))" "0 < i \<Longrightarrow> \<not> set (D x) \<subseteq> set (concat (take (i - 1) L))"
      using L(4) by (simp_all add: layered_def)
    show "\<exists>j < i. d \<in> set (L ! j)" if "d \<in> set (D x)" for d
      using subsetD [OF D(1) that] unfolding take_concat_mem by blast
    show "\<exists>d \<in> set (L ! (i - 1)). d \<in> set (D x)" if "0 < i" by (rule before [OF that i D(1) D(2) [OF that]])
  qed (use L(2-4) in \<open>simp_all add: layered_def\<close>)
  then show ?thesis using L(1) by (auto simp: execution_layers_of_def rem)
qed


definition plan_ok :: "task_plan \<Rightarrow> bool" where
  "plan_ok p \<longleftrightarrow> sorted (map step_id (plan_steps p)) \<and> steps_rooted (plan_steps p) \<and>
     int (length (plan_steps p)) \<le> max_steps (plan_limits p) \<and> (\<forall>s \<in> set (plan_steps p). step_limits_ok (plan_limits p) s) \<and>
     (\<exists>L. execution_layers p = Inr L \<and> int (length L) \<le> max_depth (plan_limits p) \<and>
        (\<forall>l \<in> set L. int (length l) \<le> max_parallel_tasks (plan_limits p))) \<and>
     (\<forall>a \<in> set (context_access p). access_step_id a \<in> step_id ` set (plan_steps p) \<and> access_resource_id a \<in> set (context_resources p))"

lemma fold_max_le: "0 \<le> m \<Longrightarrow> int (fold max ns n) \<le> m \<longleftrightarrow> int n \<le> m \<and> (\<forall>k \<in> set ns. int k \<le> m)"
  by (induction ns arbitrary: n) auto

lemma check_layers_iff:
  assumes "execution_layers_of steps = Inr L" "0 < max_parallel_tasks lims"
  shows "check_layers lims steps = Inr () \<longleftrightarrow> int (length L) \<le> max_depth lims \<and> (\<forall>l \<in> set L. int (length l) \<le> max_parallel_tasks lims)"
  using assms(2) fold_max_le [of "max_parallel_tasks lims" "map length L" 0]
  by (auto simp: check_layers_def assms(1) Let_def not_less)

lemma check_steps_iff:
  assumes "0 < max_parallel_tasks lims"
  shows "check_steps lims steps resources accesses = Inr () \<longleftrightarrow>
    int (length steps) \<le> max_steps lims \<and> (\<forall>s \<in> set steps. step_limits_ok lims s) \<and> steps_rooted steps \<and>
    (\<exists>L. execution_layers_of steps = Inr L \<and> int (length L) \<le> max_depth lims \<and> (\<forall>l \<in> set L. int (length l) \<le> max_parallel_tasks lims)) \<and>
    (\<forall>a \<in> set accesses. access_step_id a \<in> step_id ` set steps \<and> access_resource_id a \<in> set resources)" (is "?L = ?R")
proof
  assume ?L
  then have c: "int (length steps) \<le> max_steps lims" "index_steps lims steps [] = Inr (steps_dict steps)" "distinct (map step_id steps)"
      "\<forall>s \<in> set steps. step_limits_ok lims s" "check_all_dependencies (steps_dict steps) steps = Inr ()" "check_acyclic (steps_dict steps) = Inr ()"
      "check_layers lims steps = Inr ()" "check_context_access (steps_dict steps) resources accesses = Inr ()"
    by (auto simp: check_steps_def bind_sum_Inr_iff index_steps_iff not_less split: if_splits)
  have root: "steps_rooted steps"
    using cycle_check [OF c(2,5)] c(3,5,6) by (auto simp: steps_rooted_def check_all_dependencies_iff steps_dict_None)
  obtain L where "execution_layers_of steps = Inr L" using layers_rooted [OF root] by blast
  with c root show ?R using check_layers_iff [OF _ assms] by (auto simp: check_context_access_iff steps_dict_None)
next
  assume r: ?R
  then have "index_steps lims steps [] = Inr (steps_dict steps)" by (simp add: index_steps_iff steps_rooted_def)
  moreover have "check_layers lims steps = Inr ()" using r check_layers_iff [OF _ assms] by blast
  ultimately show ?L using r rooted_checks [of steps]
    by (simp add: check_steps_def check_context_access_iff steps_dict_None)
qed

definition limits_ok :: "task_plan_limits \<Rightarrow> bool" where
  "limits_ok lims \<longleftrightarrow> 0 < max_steps lims \<and> 0 < max_dependencies_per_step lims \<and> 0 < max_description_chars lims \<and>
     0 < max_depth lims \<and> 0 < max_parallel_tasks lims"

lemma mk_limits_ok: "mk_task_plan_limits a b c d e = Inr lims \<Longrightarrow> limits_ok lims"
proof -
  have "0 < n" if "plan_limit v = Inr n" for v n using that by (cases v) (auto split: if_splits)
  then show "mk_task_plan_limits a b c d e = Inr lims \<Longrightarrow> limits_ok lims"
    by (auto simp: mk_task_plan_limits_def bind_sum_Inr_iff limits_ok_def)
qed

text \<open>A plan that the constructor built, with limits that their constructor built.\<close>

definition plan_made :: "task_plan \<Rightarrow> bool" where
  "plan_made p \<longleftrightarrow> limits_ok (plan_limits p) \<and> (\<exists>i obj st r m l res acc. mk_task_plan i obj st r m l res acc = Inr p)"

lemma mk_task_plan_Inr:
  assumes "mk_task_plan i obj st r m l res acc = Inr p"
  shows "i = PyStr (plan_id p)" "r = PyInt (plan_revision p)" "l = ArgObject (plan_limits p)"
    "\<exists>xs. records st = Inr xs \<and> plan_steps p = sort_key step_id xs"
    "check_steps (plan_limits p) (plan_steps p) (context_resources p) (context_access p) = Inr ()"
proof -
  have "validate_task_identity e f v = Inr s \<Longrightarrow> v = PyStr s" for e f v s by (cases v) (auto split: if_splits)
  moreover have "validate_task_revision v = Inr n \<Longrightarrow> v = PyInt n" for v n by (cases v) (auto split: if_splits)
  ultimately show "i = PyStr (plan_id p)" "r = PyInt (plan_revision p)"
    using assms by (fastforce simp: mk_task_plan_def bind_sum_Inr_iff Let_def)+
  show "l = ArgObject (plan_limits p)"
    using assms by (cases l) (auto simp: mk_task_plan_def bind_sum_Inr_iff Let_def)
  show "\<exists>xs. records st = Inr xs \<and> plan_steps p = sort_key step_id xs"
    "check_steps (plan_limits p) (plan_steps p) (context_resources p) (context_access p) = Inr ()"
    using assms by (auto simp: mk_task_plan_def bind_sum_Inr_iff Let_def)
qed

lemma plan_made_ok: "plan_made p \<Longrightarrow> plan_ok p"
proof -
  assume "plan_made p"
  then obtain i obj st r m l res acc where mk: "mk_task_plan i obj st r m l res acc = Inr p" and lims: "limits_ok (plan_limits p)"
    unfolding plan_made_def by blast
  have "sorted (map step_id (plan_steps p))" using mk_task_plan_Inr(4) [OF mk] by auto
  then show ?thesis using mk_task_plan_Inr(5) [OF mk] lims
    by (simp add: plan_ok_def check_steps_iff limits_ok_def execution_layers_def)
qed


section \<open>Patches\<close>

lemma find_step: "find (\<lambda>s. step_id s = i) steps = map_of (steps_dict steps) i"
  by (induction steps) auto

lemma steps_dict_cong:
  "distinct (map step_id xs) \<Longrightarrow> distinct (map step_id ys) \<Longrightarrow> set xs = set ys \<Longrightarrow> map_of (steps_dict xs) = map_of (steps_dict ys)"
proof
  fix i assume a: "distinct (map step_id xs)" "distinct (map step_id ys)" "set xs = set ys"
  show "map_of (steps_dict xs) i = map_of (steps_dict ys) i"
  proof (cases "map_of (steps_dict ys) i")
    case None
    then show ?thesis using a(3) steps_dict_None [of xs i] steps_dict_None [of ys i] by simp
  next
    case (Some s)
    then show ?thesis using a steps_dict_get [OF a(1), of i s] steps_dict_get [OF a(2), of i s] by simp
  qed
qed

lemma get_upserts:
  "distinct (map step_id xs) \<Longrightarrow> map_of (fold (\<lambda>s. dict_set (step_id s) s) xs d) i =
     (case map_of (steps_dict xs) i of None \<Rightarrow> map_of d i | Some s \<Rightarrow> Some s)"
proof (induction xs arbitrary: d)
  case (Cons x xs)
  then show ?case using steps_dict_None [of xs "step_id x"] by (auto split: option.splits)
qed simp

definition keyed :: "steps_by_id \<Rightarrow> bool" where
  "keyed d \<longleftrightarrow> dict_ok d \<and> (\<forall>i s. (i, s) \<in> set d \<longrightarrow> step_id s = i)"

lemma keyed_upserts: "keyed d \<Longrightarrow> keyed (fold (\<lambda>s. dict_set (step_id s) s) xs d)"
proof (induction xs arbitrary: d)
  case (Cons x xs)
  have "keyed (dict_set (step_id x) x d)"
    using Cons.prems by (auto simp: keyed_def dict_mem_iff split: if_splits)
  then show ?case using Cons.IH by simp
qed simp

lemma keyed_values: "keyed d \<Longrightarrow> steps_dict (dict_values d) = d \<and> distinct (map step_id (dict_values d))"
proof -
  assume d: "keyed d"
  have eq: "steps_dict (dict_values d) = d"
    unfolding dict_values_def map_map by (rule map_idI) (use d in \<open>auto simp: keyed_def\<close>)
  have "map step_id (dict_values d) = map fst (steps_dict (dict_values d))" by simp
  then have "map step_id (dict_values d) = map fst d" unfolding eq .
  then show ?thesis using eq d by (simp add: keyed_def dict_ok_def)
qed

lemma kept_get: "map_of (steps_dict (filter (\<lambda>s. step_id s \<notin> A) steps)) i = (if i \<in> A then None else map_of (steps_dict steps) i)"
  by (induction steps) auto

lemma patched_get:
  assumes "plan_ok p" "distinct (map step_id (upsert_steps patch))"
  shows "map_of (steps_dict (patched_steps patch p)) i =
    (case map_of (steps_dict (upsert_steps patch)) i of
       Some s \<Rightarrow> Some s
     | None \<Rightarrow> if i \<in> set (remove_step_ids patch) then None else map_of (steps_dict (plan_steps p)) i)"
    "distinct (map step_id (patched_steps patch p))"
proof -
  have ids: "distinct (map step_id (plan_steps p))" using assms(1) by (simp add: plan_ok_def steps_rooted_def)
  let ?kept = "filter (\<lambda>s. step_id s \<notin> set (remove_step_ids patch)) (plan_steps p)"
  have kept: "distinct (map step_id ?kept)" using ids by (simp add: distinct_map_filter)
  let ?d = "fold (\<lambda>s. dict_set (step_id s) s) ?kept []"
  have "keyed (fold (\<lambda>s. dict_set (step_id s) s) (upsert_steps patch) ?d)"
    by (intro keyed_upserts) (simp add: keyed_def)
  note k = keyed_values [OF this]
  show "distinct (map step_id (patched_steps patch p))" using k by (simp add: patched_steps_def)
  show "map_of (steps_dict (patched_steps patch p)) i =
    (case map_of (steps_dict (upsert_steps patch)) i of
       Some s \<Rightarrow> Some s
     | None \<Rightarrow> if i \<in> set (remove_step_ids patch) then None else map_of (steps_dict (plan_steps p)) i)"
    unfolding patched_steps_def using k get_upserts [OF assms(2), of ?d i] get_upserts [OF kept, of "[]" i]
    by (auto simp: kept_get split: option.splits)
qed

lemma first_duplicate_None: "first_duplicate ys xs = None \<longleftrightarrow> distinct xs \<and> set ys \<inter> set xs = {}"
  by (induction xs arbitrary: ys) auto

lemma patch_upserts: "mk_task_plan_patch i plan rv up rem created m = Inr patch \<Longrightarrow> distinct (map step_id (upsert_steps patch))"
  by (auto simp: mk_task_plan_patch_def bind_sum_Inr_iff first_duplicate_None split: option.splits if_splits)

section \<open>Properties\<close>

text \<open>
  C8: The search for cycles is exact. On steps with distinct identifiers and known
  dependencies it returns exactly when no step depends on itself through others, and the cycle
  it reports otherwise is a closed walk along the dependencies.
\<close>

theorem cycle_check_exact:
  assumes "index_steps lims steps [] = Inr by_id" and "check_all_dependencies by_id steps = Inr ()"
  shows "(check_acyclic by_id = Inr () \<longleftrightarrow> (\<forall>i. \<not> (plan_depends steps)\<^sup>+\<^sup>+ i i)) \<and>
    (\<forall>e. check_acyclic by_id = Inl e \<longrightarrow> (\<exists>c. e = TaskPlanCycleError c \<and> closed_walk (plan_depends steps) c))"
  using cycle_check [OF assms] closed_walk_tranclp by (fastforce split: sum.splits)

text \<open>
  The checks of a plan accept exactly the steps within the limits, with distinct
  identifiers, known dependencies and no cycle, whose layers respect depth and width, and
  context accesses to known steps and resources.
\<close>

theorem plan_accepted_iff:
  assumes "0 < max_parallel_tasks lims"
  shows "check_steps lims steps resources accesses = Inr () \<longleftrightarrow>
    int (length steps) \<le> max_steps lims \<and> (\<forall>s \<in> set steps. step_limits_ok lims s) \<and> steps_rooted steps \<and>
    (\<exists>L. execution_layers_of steps = Inr L \<and> int (length L) \<le> max_depth lims \<and> (\<forall>l \<in> set L. int (length l) \<le> max_parallel_tasks lims)) \<and>
    (\<forall>a \<in> set accesses. access_step_id a \<in> step_id ` set steps \<and> access_resource_id a \<in> set resources)"
  by (rule check_steps_iff [OF assms])

text \<open>
  C9: The layers of an accepted plan exist and schedule it: every step is in exactly one
  layer, its dependencies are in earlier layers, one of them in the layer just before, each
  layer is sorted and not empty, and depth and width are within the limits.
\<close>

theorem execution_layers_schedule:
  assumes "plan_made p"
  shows "\<exists>L. execution_layers p = Inr L \<and> layers_of_steps (plan_steps p) L \<and> int (length L) \<le> max_depth (plan_limits p) \<and>
    (\<forall>l \<in> set L. int (length l) \<le> max_parallel_tasks (plan_limits p))"
proof -
  have p: "plan_ok p" by (rule plan_made_ok [OF assms])
  then have "steps_rooted (plan_steps p)" by (simp add: plan_ok_def)
  from layers_rooted [OF this] show ?thesis using p by (auto simp: plan_ok_def execution_layers_def)
qed

text \<open>
  A patch applies to the revision it names and no other. The patched plan is a valid plan
  of the next revision, in which the upserted steps replace or join the old ones, the removed
  steps are gone and every other step is as before; the same patch does not apply again.
\<close>

theorem apply_patch_effect:
  assumes "plan_made p" and "mk_task_plan_patch i plan rv up rem created m = Inr patch"
    and "apply_patch (ArgObject patch) p = Inr p'"
  shows "plan_made p' \<and> plan_id p' = plan_id p \<and> base_revision patch = plan_revision p \<and> plan_revision p' = plan_revision p + 1 \<and>
    (\<forall>j. plan_step j p' = (case map_of (steps_dict (upsert_steps patch)) j of
       Some s \<Rightarrow> Inr s
     | None \<Rightarrow> if j \<in> set (remove_step_ids patch) then Inl (TaskStepNotFoundError j) else plan_step j p)) \<and>
    (\<exists>e. apply_patch (ArgObject patch) p' = Inl e)"
proof -
  have base: "base_plan_id patch = plan_id p" "base_revision patch = plan_revision p"
    and mk: "mk_task_plan (PyStr (plan_id p)) (PyStr (objective p)) (Some (map Some (patched_steps patch p))) (PyInt (plan_revision p + 1))
      (metadata_value (fold (\<lambda>(k, v). dict_set k v) (patch_metadata patch) (plan_metadata p))) (ArgObject (plan_limits p))
      (Some (map PyStr (context_resources p))) (Some (map Some (context_access p))) = Inr p'"
    using assms(3) by (auto simp: apply_patch_def split: if_splits)
  note k = mk_task_plan_Inr [OF mk]
  have new: "plan_id p' = plan_id p" "plan_revision p' = plan_revision p + 1" "plan_limits p' = plan_limits p" using k(1-3) by simp_all
  have "limits_ok (plan_limits p')" using assms(1) new(3) by (simp add: plan_made_def)
  then have made: "plan_made p'" unfolding plan_made_def using mk by blast
  have steps: "plan_steps p' = sort_key step_id (patched_steps patch p)"
    using k(4) by (simp add: records_def collection_def comp_def image_iff)
  note get = patched_get [OF plan_made_ok [OF assms(1)] patch_upserts [OF assms(2)]]
  have "map_of (steps_dict (plan_steps p')) = map_of (steps_dict (patched_steps patch p))"
    using plan_made_ok [OF made] get(2) by (intro steps_dict_cong) (auto simp: plan_ok_def steps_rooted_def steps)
  then have "plan_step j p' = (case map_of (steps_dict (upsert_steps patch)) j of
       Some s \<Rightarrow> Inr s
     | None \<Rightarrow> if j \<in> set (remove_step_ids patch) then Inl (TaskStepNotFoundError j) else plan_step j p)" for j
    using get(1) [of j] by (auto simp: plan_step_def find_step split: option.splits)
  moreover have "\<exists>e. apply_patch (ArgObject patch) p' = Inl e" using base new by (simp add: apply_patch_def)
  ultimately show ?thesis using made base new by blast
qed


section \<open>Witnesses\<close>

definition sample_step :: "string \<Rightarrow> string list \<Rightarrow> task_step" where
  "sample_step i deps = \<lparr>step_id = i, description = ''work'', depends_on = deps, step_metadata = []\<rparr>"

definition sample_limits :: task_plan_limits where
  "sample_limits = \<lparr>max_steps = 4, max_dependencies_per_step = 2, max_description_chars = 8, max_depth = 3, max_parallel_tasks = 2\<rparr>"

definition sample_steps :: "task_step list" where
  "sample_steps = [sample_step ''a'' [], sample_step ''b'' [''a''], sample_step ''c'' [''b'', ''a'']]"

definition sample_access :: task_context_access where
  "sample_access = \<lparr>access_step_id = ''a'', access_resource_id = ''doc'', access_mode = ReadAccess, access_reason = None\<rparr>"

definition sample_plan :: task_plan where
  "sample_plan = \<lparr>plan_id = ''plan'', objective = ''ship'', plan_steps = sample_steps, plan_revision = 1, plan_metadata = [],
     plan_limits = sample_limits, context_resources = [''doc''], context_access = [sample_access]\<rparr>"

lemma sample_plan_built:
  "mk_task_plan (PyStr ''plan'') (PyStr ''ship'') (Some (map Some (rev sample_steps))) (PyInt 1) (PyDict []) (ArgObject sample_limits)
     (Some [PyStr ''doc'']) (Some [Some sample_access]) = Inr sample_plan"
  by code_simp

lemma sample_plan_made: "plan_made sample_plan"
proof -
  have "limits_ok (plan_limits sample_plan)" by code_simp
  then show ?thesis unfolding plan_made_def using sample_plan_built by blast
qed

definition sample_patch :: task_plan_patch where
  "sample_patch = \<lparr>patch_id = ''patch'', base_plan_id = ''plan'', base_revision = 1, upsert_steps = [sample_step ''b'' []],
     remove_step_ids = [''c''], patch_created_at = PyNone, patch_metadata = []\<rparr>"

lemma sample_patch_built:
  "mk_task_plan_patch (PyStr ''patch'') (PyStr ''plan'') (PyInt 1) (Some [Some (sample_step ''b'' [])]) (Some [PyStr ''c'']) PyNone (PyDict [])
     = Inr sample_patch"
  by code_simp

lemma sample_patched:
  "apply_patch (ArgObject sample_patch) sample_plan =
     Inr (sample_plan\<lparr>plan_steps := [sample_step ''a'' [], sample_step ''b'' []], plan_revision := 2\<rparr>)"
  by code_simp

theorem cycle_check_exact_witness:
  "(\<forall>i. \<not> (plan_depends sample_steps)\<^sup>+\<^sup>+ i i) \<and>
   closed_walk (plan_depends [sample_step ''a'' [''b''], sample_step ''b'' [''a'']]) [''a'', ''b'', ''a'']"
proof
  have "index_steps sample_limits sample_steps [] = Inr (steps_dict sample_steps)"
    "check_all_dependencies (steps_dict sample_steps) sample_steps = Inr ()" "check_acyclic (steps_dict sample_steps) = Inr ()"
    by code_simp+
  then show "\<forall>i. \<not> (plan_depends sample_steps)\<^sup>+\<^sup>+ i i" using cycle_check_exact by blast
  let ?steps = "[sample_step ''a'' [''b''], sample_step ''b'' [''a'']]"
  have "index_steps sample_limits ?steps [] = Inr (steps_dict ?steps)" "check_all_dependencies (steps_dict ?steps) ?steps = Inr ()"
    "check_acyclic (steps_dict ?steps) = Inl (TaskPlanCycleError [''a'', ''b'', ''a''])"
    by code_simp+
  then show "closed_walk (plan_depends ?steps) [''a'', ''b'', ''a'']" using cycle_check_exact by blast
qed

theorem plan_accepted_iff_witness: "steps_rooted sample_steps"
proof -
  have "0 < max_parallel_tasks sample_limits" "check_steps sample_limits sample_steps [''doc''] [sample_access] = Inr ()" by code_simp+
  then show ?thesis using plan_accepted_iff by blast
qed

theorem execution_layers_schedule_witness: "layers_of_steps sample_steps [[''a''], [''b''], [''c'']]"
proof -
  have "execution_layers sample_plan = Inr [[''a''], [''b''], [''c'']]" "plan_steps sample_plan = sample_steps" by code_simp+
  then show ?thesis using execution_layers_schedule [OF sample_plan_made] by simp
qed

theorem apply_patch_effect_witness:
  "plan_made (sample_plan\<lparr>plan_steps := [sample_step ''a'' [], sample_step ''b'' []], plan_revision := 2\<rparr>)"
  using apply_patch_effect [OF sample_plan_made sample_patch_built sample_patched] by blast

end
