(* ===== verification/Orchestration_Props.thy ===== *)
theory Orchestration_Props
  imports Orchestration Task_Plan_Props Budget_Samples
begin

text \<open>
  What the scarce-resource pool, the delegation of permits, the execution contract and the
  selection of models promise.
\<close>

section \<open>The lease pool as a machine\<close>

definition pool_ok :: "scarce_pool \<Rightarrow> bool" where
  "pool_ok p \<longleftrightarrow> used_lease_units p \<le> capacity_units p \<and> distinct (map grant_lease_id (active_leases p)) \<and>
     (\<forall>g \<in> set (active_leases p). grant_pool_id g = scarce_pool_id p \<and> grant_kind g = scarce_kind p \<and> fencing_epoch g < next_fencing_epoch p)"

lemma check_active_leases_Inr:
  "check_active_leases pool kind gs S used highest = Inr (u, h) \<Longrightarrow>
   u = used + (\<Sum>g\<leftarrow>gs. grant_units g) \<and> distinct (map grant_lease_id gs) \<and> highest \<le> h \<and>
   (\<forall>g \<in> set gs. grant_lease_id g \<notin> S \<and> grant_pool_id g = pool \<and> grant_kind g = kind \<and> fencing_epoch g \<le> h)"
proof (induction gs arbitrary: S used highest)
  case (Cons g gs)
  have r: "check_active_leases pool kind gs (insert (grant_lease_id g) S) (used + grant_units g) (max highest (fencing_epoch g)) = Inr (u, h)"
    and g: "grant_pool_id g = pool" "grant_kind g = kind" "grant_lease_id g \<notin> S"
    using Cons.prems by (auto split: if_splits)
  show ?case using Cons.IH [OF r] g by auto
qed simp

lemma positive_lease_integer: "validate_positive_lease_integer f v = Inr n \<longleftrightarrow> v = PyInt n \<and> 0 < n \<and> n \<le> MAX_ORCHESTRATION_INTEGER"
  by (cases v) auto

lemma mk_scarce_pool_Inr:
  assumes "mk_scarce_pool i k c gs e pol m = Inr p"
  shows "pool_ok p" "i = PyStr (scarce_pool_id p)" "k = PyStr (scarce_kind p)" "c = PyInt (capacity_units p)"
    "\<exists>xs. lease_records gs = Inr xs \<and> active_leases p = sort_key (\<lambda>g. (grant_expires_at g, grant_lease_id g)) xs"
    "\<exists>n. e = PyInt n \<and> n \<le> next_fencing_epoch p"
proof -
  have str: "lease_identity a b v = Inr s \<Longrightarrow> v = PyStr s" for a b v s by (cases v) (auto split: if_splits)
  obtain used highest epoch nxt where p: "check_active_leases (scarce_pool_id p) (scarce_kind p) (active_leases p) {} 0 0 = Inr (used, highest)"
      "used \<le> capacity_units p" "e = PyInt epoch" "nxt = highest + 1" "next_fencing_epoch p = max epoch nxt"
    and args: "i = PyStr (scarce_pool_id p)" "k = PyStr (scarce_kind p)" "c = PyInt (capacity_units p)"
      "\<exists>xs. lease_records gs = Inr xs \<and> active_leases p = sort_key (\<lambda>g. (grant_expires_at g, grant_lease_id g)) xs"
    using assms by (auto simp: mk_scarce_pool_def bind_sum_Inr_iff Let_def positive_lease_integer not_less dest!: str split: if_splits)
  show "pool_ok p" using check_active_leases_Inr [OF p(1)] p(2,4,5) by (force simp: pool_ok_def used_lease_units_def)
  show "i = PyStr (scarce_pool_id p)" "k = PyStr (scarce_kind p)" "c = PyInt (capacity_units p)"
    "\<exists>xs. lease_records gs = Inr xs \<and> active_leases p = sort_key (\<lambda>g. (grant_expires_at g, grant_lease_id g)) xs"
    "\<exists>n. e = PyInt n \<and> n \<le> next_fencing_epoch p" using args p(3,5) by auto
qed

lemma replace_leases_Inr:
  assumes "replace_leases gs epoch p = Inr p'"
  shows "pool_ok p'" "set (active_leases p') = set gs" "epoch \<le> next_fencing_epoch p'" "capacity_units p' = capacity_units p"
    "scarce_pool_id p' = scarce_pool_id p" "scarce_kind p' = scarce_kind p"
  using mk_scarce_pool_Inr [OF assms [unfolded replace_leases_def]]
  by (auto simp: lease_records_def comp_def image_iff split: if_splits)

datatype scarce_call =
    ReapLeases pyval
  | AcquireLease "lease_request instance_arg" pyval pyval pyval
  | AcquireWithPermit lease_request "budget_permit instance_arg" "usage_amount option list" pyval pyval pyval
  | ReleaseLease pyval pyval

definition scarce_exec :: "(string \<Rightarrow> rat option) \<Rightarrow> scarce_call \<Rightarrow> scarce_pool \<Rightarrow> scarce_pool" where
  "scarce_exec parse_iso c p =
     (case (case c of
         ReapLeases now \<Rightarrow> reap_expired_leases parse_iso now p
       | AcquireLease r l a x \<Rightarrow> bind_sum (acquire_lease parse_iso r l a x p) (\<lambda>(p', _). Inr p')
       | AcquireWithPermit r permit us l a x \<Rightarrow> bind_sum (acquire_with_budget_permit parse_iso r permit us l a x p) (\<lambda>(p', _). Inr p')
       | ReleaseLease l e \<Rightarrow> release_lease l e p) of
        Inl _ \<Rightarrow> p | Inr p' \<Rightarrow> p')"

definition pool_step :: "scarce_pool \<Rightarrow> scarce_pool \<Rightarrow> bool" where
  "pool_step p p' \<longleftrightarrow> pool_ok p' \<and> capacity_units p' = capacity_units p \<and> next_fencing_epoch p \<le> next_fencing_epoch p' \<and>
     (\<forall>g \<in> set (active_leases p'). g \<in> set (active_leases p) \<or> next_fencing_epoch p \<le> fencing_epoch g)"

lemma reap_step: "pool_ok p \<Longrightarrow> reap_expired_leases parse_iso now p = Inr p' \<Longrightarrow>
   pool_step p p' \<and> set (active_leases p') = {g \<in> set (active_leases p). grant_active_at parse_iso g now}"
  by (auto simp: reap_expired_leases_def bind_sum_Inr_iff Let_def pool_step_def replace_leases_Inr split: if_splits)
    (metis filter_id_conv)+

lemma mk_lease_grant_Inr:
  "mk_lease_grant parse_iso l r p h k n e a x m = Inr g \<Longrightarrow>
   l = PyStr (grant_lease_id g) \<and> e = PyInt (fencing_epoch g) \<and> a = PyStr (grant_acquired_at g) \<and> x = PyStr (grant_expires_at g) \<and>
   n = PyInt (grant_units g)"
proof -
  have str: "lease_identity a b v = Inr s \<Longrightarrow> v = PyStr s" for a b v s by (cases v) (auto split: if_splits)
  assume "mk_lease_grant parse_iso l r p h k n e a x m = Inr g"
  then show ?thesis
    by (cases a; cases x) (auto simp: mk_lease_grant_def bind_sum_Inr_iff positive_lease_integer dest!: str split: if_splits)
qed

lemma acquire_Inr:
  assumes "pool_ok p" "acquire_lease parse_iso r l a x p = Inr (p', g)"
  shows "pool_step p p'" "g \<in> set (active_leases p')" "next_fencing_epoch p \<le> fencing_epoch g"
    "a = PyStr (grant_acquired_at g)" "x = PyStr (grant_expires_at g)"
proof -
  obtain cur epoch rv pv hv kv uv mv where cur: "reap_expired_leases parse_iso a p = Inr cur" "epoch = next_fencing_epoch cur + 1"
    and rep: "replace_leases (active_leases cur @ [g]) epoch cur = Inr p'"
    and g: "mk_lease_grant parse_iso l rv pv hv kv uv (PyInt (next_fencing_epoch cur)) a x mv = Inr g"
    using assms(2) by (auto simp: acquire_lease_def bind_sum_Inr_iff positive_lease_integer split: if_splits)
  have e: "fencing_epoch g = next_fencing_epoch cur" "a = PyStr (grant_acquired_at g)" "x = PyStr (grant_expires_at g)"
    using mk_lease_grant_Inr [OF g] by auto
  have s: "pool_step p cur" "set (active_leases cur) \<subseteq> set (active_leases p)" using reap_step [OF assms(1) cur(1)] by auto
  note r = replace_leases_Inr [OF rep]
  show "pool_step p p'" using r s e(1) cur(2) by (auto simp: pool_step_def)
  show "g \<in> set (active_leases p')" "next_fencing_epoch p \<le> fencing_epoch g" "a = PyStr (grant_acquired_at g)" "x = PyStr (grant_expires_at g)"
    using r(2) s(1) e by (auto simp: pool_step_def)
qed

lemma acquire_with_permit_Inr:
  "acquire_with_budget_permit parse_iso r permit us l a x p = Inr q \<Longrightarrow>
   \<exists>pm m. permit = ArgObject pm \<and> acquire_lease parse_iso (ArgObject (r\<lparr>request_metadata := m\<rparr>)) l a x p = Inr q \<and>
     resource_ref_eq (request_holder r) (permit_owner pm) \<and> is_active_at parse_iso pm a \<and> us \<noteq> [] \<and> None \<notin> set us \<and>
     permit_allows pm (map the us) \<and> (x = PyStr (permit_expires_at pm) \<or> is_active_at parse_iso pm x)"
  by (cases permit) (auto simp: acquire_with_budget_permit_def bind_sum_Inr_iff Let_def split: if_splits)

lemma remove_lease_Inr: "remove_lease i epoch gs = Inr gs' \<Longrightarrow> set gs' \<subseteq> set gs"
  by (induction gs arbitrary: gs') (auto simp: bind_sum_Inr_iff split: if_splits)

lemma release_step: "pool_ok p \<Longrightarrow> release_lease l e p = Inr p' \<Longrightarrow> pool_step p p'"
  by (auto simp: release_lease_def bind_sum_Inr_iff pool_step_def replace_leases_Inr dest!: remove_lease_Inr)

lemma exec_step: "pool_ok p \<Longrightarrow> pool_step p (scarce_exec parse_iso c p)"
proof -
  assume p: "pool_ok p"
  have refl: "pool_step p p" using p by (simp add: pool_step_def)
  show ?thesis
    by (cases c) (auto simp: scarce_exec_def bind_sum_def p refl reap_step release_step acquire_Inr(1) split: sum.splits
        dest!: acquire_with_permit_Inr)
qed

definition pool_made :: "scarce_pool \<Rightarrow> bool" where
  "pool_made p \<longleftrightarrow> (\<exists>i k c gs e pol m. mk_scarce_pool i k c gs e pol m = Inr p)"

interpretation scarce: fenced_machine pool_made "scarce_exec parse_iso" pool_ok next_fencing_epoch "\<lambda>p. fencing_epoch ` set (active_leases p)"
  for parse_iso
proof
  show "pool_ok p" if "pool_made p" for p using that mk_scarce_pool_Inr(1) by (auto simp: pool_made_def)
  show "pool_ok (scarce_exec parse_iso c p)" if "pool_ok p" for c p using exec_step [OF that] by (simp add: pool_step_def)
  show "n < next_fencing_epoch p" if "pool_ok p" "n \<in> fencing_epoch ` set (active_leases p)" for p n using that by (auto simp: pool_ok_def)
  show "next_fencing_epoch p \<le> next_fencing_epoch (scarce_exec parse_iso c p)" if "pool_ok p" for c p
    using exec_step [OF that] by (simp add: pool_step_def)
  show "n \<in> fencing_epoch ` set (active_leases p) \<or> next_fencing_epoch p \<le> n"
    if "pool_ok p" "n \<in> fencing_epoch ` set (active_leases (scarce_exec parse_iso c p))" for p n c
    using exec_step [OF that(1)] that(2) by (auto simp: pool_step_def)
qed


section \<open>Permits\<close>

lemma active_at_iff:
  "is_active_at parse_iso p now \<longleftrightarrow> (\<exists>e t. parse_budget_permit_datetime parse_iso (PyStr (permit_expires_at p)) = Inr e \<and>
     parse_budget_permit_datetime parse_iso now = Inr t \<and> t < e)"
  by (auto simp: is_active_at_def split: sum.splits)

lemma grant_active_iff:
  "grant_active_at parse_iso g now \<longleftrightarrow> (\<exists>a x t. parse_budget_permit_datetime parse_iso (PyStr (grant_acquired_at g)) = Inr a \<and>
     parse_budget_permit_datetime parse_iso (PyStr (grant_expires_at g)) = Inr x \<and>
     parse_budget_permit_datetime parse_iso now = Inr t \<and> a \<le> t \<and> t < x)"
  by (auto simp: grant_active_at_def parse_lease_datetime_def split: sum.splits)

lemma outlived:
  assumes "x = PyStr (permit_expires_at pm) \<or> is_active_at parse_iso pm x"
    and "parse_budget_permit_datetime parse_iso (PyStr (permit_expires_at pm)) = Inr e"
    and "parse_budget_permit_datetime parse_iso x = Inr ex" "t < ex"
  shows "t < e"
  using assms by (auto simp: active_at_iff)

lemma allows_trans:
  assumes parent: "\<forall>a \<in> set (authorized_amounts p). usage_ok a" and child: "\<forall>a \<in> set (authorized_amounts c). usage_ok a"
    and cover: "permit_allows p (authorized_amounts c)" and us: "permit_allows c us"
  shows "permit_allows p us"
proof -
  have le: "amount_of (sum_amounts (authorized_amounts c)) k \<le> amount_of (sum_amounts (authorized_amounts p)) k" for k
  proof (cases "map_of (sum_amounts (authorized_amounts c)) k")
    case None
    then show ?thesis using map_ok_nonneg [OF map_ok_sum_amounts [OF parent]] by (simp add: amount_of_def)
  next
    case (Some x)
    then have "(k, x) \<in> set (sum_amounts (authorized_amounts c))" by (rule map_of_SomeD)
    then show ?thesis using cover Some by (auto simp: permit_allows_def Let_def list_all_iff amount_of_def)
  qed
  show ?thesis using us le unfolding permit_allows_def Let_def list_all_iff by (auto intro: order_trans)
qed

section \<open>Contracts and models\<close>

definition active_priority :: "task_plan \<Rightarrow> string \<Rightarrow> task_priority option" where
  "active_priority p i = (case plan_step i p of Inl _ \<Rightarrow> None
     | Inr s \<Rightarrow> (case step_priority s of Inl _ \<Rightarrow> None | Inr priority \<Rightarrow> Some priority))"

definition cancel_key :: "task_execution_contract \<Rightarrow> task_plan \<Rightarrow> string \<Rightarrow> nat \<times> string" where
  "cancel_key c p i = (list_index (cancel_priorities c) (the (active_priority p i)), i)"

lemma candidates_Inr:
  "pressure_candidates c p ids = Inr ks \<Longrightarrow>
   (\<forall>i \<in> set ids. \<exists>pr. active_priority p i = Some pr \<and> (pr \<in> set (preserve_priorities c) \<or> pr \<in> set (cancel_priorities c))) \<and>
   ks = map (cancel_key c p) (filter (\<lambda>i. the (active_priority p i) \<notin> set (preserve_priorities c)) ids)"
proof (induction ids arbitrary: ks)
  case (Cons i ids)
  then obtain s pr where s: "plan_step i p = Inr s" "step_priority s = Inr pr"
    by (auto simp: bind_sum_Inr_iff execution_step_def split: sum.splits)
  then have a: "active_priority p i = Some pr" by (simp add: active_priority_def)
  show ?case
  proof (cases "pr \<in> set (preserve_priorities c)")
    case True
    then show ?thesis using Cons.prems Cons.IH [of ks] s a by (simp add: execution_step_def)
  next
    case False
    then obtain rest where rest: "pressure_candidates c p ids = Inr rest" "pr \<in> set (cancel_priorities c)"
        "ks = (list_index (cancel_priorities c) pr, i) # rest"
      using Cons.prems s by (auto simp: bind_sum_Inr_iff execution_step_def split: if_splits)
    show ?thesis using Cons.IH [OF rest(1)] rest(2,3) a False by (simp add: cancel_key_def)
  qed
qed simp

definition model_eligible :: "model_selection_request \<Rightarrow> model_profile \<Rightarrow> bool" where
  "model_eligible r m \<longleftrightarrow>
     set (worker_required_capabilities (request_worker r)) \<union> set (required_capabilities r) \<subseteq> set (model_capabilities m) \<and>
     (\<forall>s. sensitivity r = Some s \<longrightarrow> allowed_sensitivity m = [] \<or> s \<in> set (allowed_sensitivity m)) \<and>
     (\<forall>g. region r = Some g \<longrightarrow> model_regions m = [] \<or> g \<in> set (model_regions m))"

definition sensitivity_rank :: "string \<Rightarrow> nat" where
  "sensitivity_rank s = (case map_of SENSITIVITY_RANKS s of None \<Rightarrow> 4 | Some n \<Rightarrow> n)"

definition request_permitted :: "model_selection_request \<Rightarrow> model_pool \<Rightarrow> bool" where
  "request_permitted r pool \<longleftrightarrow>
     (\<forall>i. model_pool_ref (request_worker r) = Some i \<longrightarrow> i = model_pool_id pool) \<and>
     set (required_tools r) \<subseteq> set (allowed_tools (request_worker r)) \<and>
     (\<forall>s t. sensitivity r = Some s \<longrightarrow> sensitivity_ceiling (request_worker r) = Some t \<longrightarrow>
        map_of SENSITIVITY_RANKS t \<noteq> None \<and> sensitivity_rank s \<le> sensitivity_rank t)"

lemma model_rejection_None: "model_rejection r m = None \<longleftrightarrow> model_eligible r m"
  unfolding model_rejection_def model_eligible_def by (auto split: option.splits)

lemma first_model_Inr:
  "first_model pool r models reasons = Inr m \<longleftrightarrow>
   (\<exists>pre post. models = pre @ m # post \<and> model_eligible r m \<and> (\<forall>m' \<in> set pre. \<not> model_eligible r m'))"
proof (induction models arbitrary: reasons)
  case (Cons m0 models)
  show ?case
  proof (cases "model_eligible r m0")
    case True
    then have "model_rejection r m0 = None" by (simp add: model_rejection_None)
    then show ?thesis using True by (auto simp: Cons_eq_append_conv)
  next
    case False
    then obtain why where "model_rejection r m0 = Some why" using model_rejection_None by fastforce
    moreover have "(\<exists>pre post. m0 # models = pre @ m # post \<and> model_eligible r m \<and> (\<forall>m' \<in> set pre. \<not> model_eligible r m')) \<longleftrightarrow>
        (\<exists>pre post. models = pre @ m # post \<and> model_eligible r m \<and> (\<forall>m' \<in> set pre. \<not> model_eligible r m'))" (is "?L \<longleftrightarrow> ?R")
    proof
      assume ?L
      then obtain pre post where "m0 # models = pre @ m # post" "model_eligible r m" "\<forall>m' \<in> set pre. \<not> model_eligible r m'" by blast
      with False show ?R by (cases pre) auto
    next
      assume ?R
      then obtain pre post where "models = pre @ m # post" "model_eligible r m" "\<forall>m' \<in> set pre. \<not> model_eligible r m'" by blast
      with False show ?L by (intro exI [of _ "m0 # pre"] exI [of _ post]) auto
    qed
    ultimately show ?thesis using Cons.IH [of "reasons @ [why]"] by simp
  qed
qed simp

lemma check_sensitivity_Inr: "check_sensitivity r = Inr () \<longleftrightarrow>
   (\<forall>s t. sensitivity r = Some s \<longrightarrow> sensitivity_ceiling (request_worker r) = Some t \<longrightarrow>
        map_of SENSITIVITY_RANKS t \<noteq> None \<and> sensitivity_rank s \<le> sensitivity_rank t)"
  unfolding check_sensitivity_def sensitivity_rank_def by (auto split: option.splits simp: not_less)

lemma select_model_permitted:
  "select_model r pool = Inr m \<longleftrightarrow> request_permitted r pool \<and> first_model (model_pool_id pool) r (pool_models pool) [] = Inr m"
proof -
  have tools: "find (\<lambda>t. t \<notin> set (allowed_tools (request_worker r))) (required_tools r) = None \<longleftrightarrow>
      set (required_tools r) \<subseteq> set (allowed_tools (request_worker r))" by (auto simp: find_None_iff)
  show ?thesis unfolding select_model_def bind_sum_Inr_iff request_permitted_def tools [symmetric] check_sensitivity_Inr [symmetric]
    by (cases "model_pool_ref (request_worker r)") (auto split: option.splits)
qed

section \<open>Properties\<close>

text \<open>
  C10: From any pool the constructor accepts, after any sequence of calls, the active leases
  never hold more than the capacity, their identifiers are distinct, and their fencing epochs are
  below the next epoch; an epoch that appears later is greater than every epoch active before.
\<close>

theorem scarce_pool_safe:
  assumes "pool_made p"
  shows "let q = fold (scarce_exec parse_iso) calls p in
    used_lease_units q \<le> capacity_units q \<and> distinct (map grant_lease_id (active_leases q)) \<and>
    (\<forall>g \<in> set (active_leases q). fencing_epoch g < next_fencing_epoch q) \<and>
    (\<forall>g \<in> set (active_leases p). \<forall>g' \<in> set (active_leases q).
       fencing_epoch g' \<notin> fencing_epoch ` set (active_leases p) \<longrightarrow> fencing_epoch g < fencing_epoch g')"
proof -
  have ok: "pool_ok p" by (rule scarce.inv_init [OF assms])
  have "pool_ok (fold (scarce_exec parse_iso) calls p)" by (rule scarce.inv_calls [OF ok])
  moreover have "fencing_epoch g < fencing_epoch g'"
    if "g \<in> set (active_leases p)" "g' \<in> set (active_leases (fold (scarce_exec parse_iso) calls p))"
      "fencing_epoch g' \<notin> fencing_epoch ` set (active_leases p)" for g g'
    using scarce.later_token_greater [OF ok, of "fencing_epoch g" "fencing_epoch g'" parse_iso calls] that by blast
  ultimately show ?thesis by (simp add: Let_def pool_ok_def)
qed

text \<open>
  A lease taken under a budget permit lies within it: the permit covers the reserved
  amounts, belongs to the holder, and is active whenever the lease is.
\<close>

theorem lease_within_permit:
  assumes "pool_ok p" and "acquire_with_budget_permit parse_iso r (ArgObject permit) us l a x p = Inr (p', g)"
    and "grant_active_at parse_iso g now"
  shows "permit_allows permit (map the us) \<and> resource_ref_eq (request_holder r) (permit_owner permit) \<and> is_active_at parse_iso permit now"
proof -
  obtain m where acq: "acquire_lease parse_iso (ArgObject (r\<lparr>request_metadata := m\<rparr>)) l a x p = Inr (p', g)"
    and c: "permit_allows permit (map the us)" "resource_ref_eq (request_holder r) (permit_owner permit)" "is_active_at parse_iso permit a"
      "x = PyStr (permit_expires_at permit) \<or> is_active_at parse_iso permit x"
    using acquire_with_permit_Inr [OF assms(2)] by auto
  have x: "x = PyStr (grant_expires_at g)" by (rule acquire_Inr(5) [OF assms(1) acq])
  obtain ex t where t: "parse_budget_permit_datetime parse_iso x = Inr ex" "parse_budget_permit_datetime parse_iso now = Inr t" "t < ex"
    using assms(3) unfolding grant_active_iff x by blast
  obtain e where e: "parse_budget_permit_datetime parse_iso (PyStr (permit_expires_at permit)) = Inr e" using c(3) by (auto simp: active_at_iff)
  have "t < e" by (rule outlived [OF c(4) e t(1,3)])
  then show ?thesis using c(1,2) e t(2) by (auto simp: active_at_iff)
qed

text \<open>
  A permit delegated to a child stands for the same reservations with the same fencing
  tokens and never reaches beyond its parent: what it allows the parent allows, and while it is
  active the parent is.
\<close>

theorem child_permit_within_parent:
  assumes "create_child_permit parse_iso pid d = Inr c" and "arg_ok (delegated_amounts d)"
    and "\<forall>a \<in> set (authorized_amounts (parent_permit d)). usage_ok a"
  shows "reservation_refs c = reservation_refs (parent_permit d) \<and> fencing_tokens c = fencing_tokens (parent_permit d) \<and>
    admission_epoch c = admission_epoch (parent_permit d) \<and>
    (\<forall>us. permit_allows c us \<longrightarrow> permit_allows (parent_permit d) us) \<and>
    (\<forall>now. is_active_at parse_iso c now \<longrightarrow> is_active_at parse_iso (parent_permit d) now)"
proof -
  let ?p = "parent_permit d"
  obtain amounts prof where am: "validate_usage_amounts (delegated_amounts d) = Inr amounts" "permit_allows ?p amounts"
    and mk: "mk_budget_permit parse_iso pid (reservation_refs ?p) (child_owner d) (Some (atomic_unit ?p)) (PyInt (admission_epoch ?p)) amounts
      prof (PyStr (policy_snapshot_digest ?p)) (delegation_expires_at d) (Some []) (fencing_tokens ?p) = Inr c"
    and ex: "permit_expires_at c = permit_expires_at ?p \<or> is_active_at parse_iso ?p (PyStr (permit_expires_at c))"
    using assms(1) by (auto simp: create_child_permit_def Let_def bind_sum_Inr_iff budget_result_def split: sum.splits if_splits)
  note c = mk_budget_permit_Inr [OF mk]
  have "admission_epoch c = admission_epoch ?p"
    using mk by (cases "delegation_expires_at d") (auto simp: mk_budget_permit_def bind_sum_Inr_iff Let_def split: if_splits)
  moreover have "permit_allows ?p us" if "permit_allows c us" for us
    by (rule allows_trans [OF assms(3) _ _ that]) (use c am validate_usage_amounts_ok [OF assms(2) am(1)] in auto)
  moreover have "is_active_at parse_iso ?p now" if "is_active_at parse_iso c now" for now
    using that ex by (auto simp: active_at_iff)
  ultimately show ?thesis using c by blast
qed



text \<open>
  Under budget pressure exactly the active steps of a cancellable priority are cancelled, in
  the order of the contract's cancel priorities and then of their identifiers; a step of a
  preserved priority is never among them.
\<close>

theorem pressure_cancels_exactly:
  assumes "budget_pressure_cancellations c p active = Inr xs" and "set (cancel_priorities c) \<inter> set (preserve_priorities c) = {}"
  shows "set xs = {i \<in> set active. active_priority p i \<in> Some ` set (cancel_priorities c)} \<and>
    sorted (map (cancel_key c p) xs) \<and> (distinct active \<longrightarrow> distinct xs)"
proof -
  let ?ids = "filter (\<lambda>i. the (active_priority p i) \<notin> set (preserve_priorities c)) active"
  obtain ks where ks: "pressure_candidates c p active = Inr ks" "xs = map snd (sort ks)"
    using assms(1) by (auto simp: budget_pressure_cancellations_def bind_sum_Inr_iff)
  note k = candidates_Inr [OF ks(1)]
  have keys: "map (cancel_key c p) xs = sort ks"
    unfolding ks(2) map_map by (rule map_idI) (use k in \<open>auto simp: cancel_key_def\<close>)
  have "set xs = set ?ids" using k by (force simp: ks(2) cancel_key_def)
  also have "\<dots> = {i \<in> set active. active_priority p i \<in> Some ` set (cancel_priorities c)}"
    using k assms(2) by fastforce
  finally have set: "set xs = {i \<in> set active. active_priority p i \<in> Some ` set (cancel_priorities c)}" .
  have "distinct (map (cancel_key c p) xs)" if "distinct active"
    unfolding keys using k that by (auto simp: distinct_map cancel_key_def inj_on_def)
  then have "distinct active \<longrightarrow> distinct xs" unfolding distinct_map by blast
  then show ?thesis using set keys by simp
qed

text \<open>
  The selection of a model returns the first eligible model of the pool, exactly when the
  worker may use the pool and the required tools and the sensitivity is within its ceiling.
\<close>

theorem model_selection_exact:
  "select_model r pool = Inr m \<longleftrightarrow> request_permitted r pool \<and>
     (\<exists>pre post. pool_models pool = pre @ m # post \<and> model_eligible r m \<and> (\<forall>m' \<in> set pre. \<not> model_eligible r m'))"
  unfolding select_model_permitted first_model_Inr ..


section \<open>Witnesses\<close>

definition sample_lease_request :: lease_request where
  "sample_lease_request = \<lparr>request_id = ''request'', request_holder = sample_ref, request_kind = ''gpu'', request_units = 1, request_metadata = []\<rparr>"

definition sample_scarce :: scarce_pool where
  "sample_scarce = \<lparr>scarce_pool_id = ''pool'', scarce_kind = ''gpu'', capacity_units = 2, active_leases = [], next_fencing_epoch = 1,
     scarce_policy_ref = PyNone, scarce_metadata = []\<rparr>"

definition sample_grant :: "(string, pyval) dict \<Rightarrow> lease_grant" where
  "sample_grant m = \<lparr>grant_lease_id = ''lease'', grant_request_id = ''request'', grant_pool_id = ''pool'', grant_holder = sample_ref, grant_kind = ''gpu'',
     grant_units = 1, fencing_epoch = 1, grant_acquired_at = ''2026-01-01T00:00:00Z'', grant_expires_at = ''2030-01-01T00:00:00Z'', grant_metadata = m\<rparr>"

lemma sample_scarce_built: "mk_scarce_pool (PyStr ''pool'') (PyStr ''gpu'') (PyInt 2) (Some []) (PyInt 1) PyNone (PyDict []) = Inr sample_scarce"
  by code_simp

lemma sample_scarce_acquired:
 "acquire_with_budget_permit sample_time sample_lease_request (ArgObject sample_permit_rec) [Some (sample_usage 8)] (PyStr ''lease'') (PyStr ''2026-01-01T00:00:00Z'')
    (PyStr ''2030-01-01T00:00:00Z'') sample_scarce = Inr (sample_scarce\<lparr>active_leases := [sample_grant [(''budget_permit_id'', PyStr ''permit''), (''budget_reservation_refs'', PyList [PyStr ''reservation-000001''])]], next_fencing_epoch := 2\<rparr>, sample_grant [(''budget_permit_id'', PyStr ''permit''), (''budget_reservation_refs'', PyList [PyStr ''reservation-000001''])])"
 by code_simp

lemma sample_scarce_made: "pool_made sample_scarce"
  unfolding pool_made_def using sample_scarce_built by blast

lemma sample_scarce_ok: "pool_ok sample_scarce"
  by (rule scarce.inv_init [OF sample_scarce_made])

definition sample_permit_metadata :: metadata where
  "sample_permit_metadata = [(''budget_permit_id'', PyStr ''permit''), (''budget_reservation_refs'', PyList [PyStr ''reservation-000001''])]"

theorem scarce_pool_safe_witness:
  "used_lease_units (fold (scarce_exec sample_time)
     [AcquireLease (ArgObject sample_lease_request) (PyStr ''lease'') (PyStr ''2026-01-01T00:00:00Z'') (PyStr ''2030-01-01T00:00:00Z''),
      AcquireLease (ArgObject sample_lease_request) (PyStr ''lease2'') (PyStr ''2026-01-01T00:00:00Z'') (PyStr ''2030-01-01T00:00:00Z''),
      AcquireLease (ArgObject sample_lease_request) (PyStr ''lease3'') (PyStr ''2026-01-01T00:00:00Z'') (PyStr ''2030-01-01T00:00:00Z'')]
     sample_scarce) \<le> 2"
proof -
  let ?calls = "[AcquireLease (ArgObject sample_lease_request) (PyStr ''lease'') (PyStr ''2026-01-01T00:00:00Z'') (PyStr ''2030-01-01T00:00:00Z''),
      AcquireLease (ArgObject sample_lease_request) (PyStr ''lease2'') (PyStr ''2026-01-01T00:00:00Z'') (PyStr ''2030-01-01T00:00:00Z''),
      AcquireLease (ArgObject sample_lease_request) (PyStr ''lease3'') (PyStr ''2026-01-01T00:00:00Z'') (PyStr ''2030-01-01T00:00:00Z'')]"
  have "capacity_units (fold (scarce_exec sample_time) ?calls sample_scarce) = 2" by code_simp
  then show ?thesis using scarce_pool_safe [OF sample_scarce_made, of sample_time ?calls] by (simp add: Let_def)
qed

theorem lease_within_permit_witness:
  "is_active_at sample_time sample_permit_rec (PyStr ''2026-06-01T00:00:00Z'')"
proof -
  have "grant_active_at sample_time (sample_grant sample_permit_metadata) (PyStr ''2026-06-01T00:00:00Z'')" by code_simp
  then show ?thesis using lease_within_permit [OF sample_scarce_ok sample_scarce_acquired] unfolding sample_permit_metadata_def by blast
qed

definition sample_delegation :: child_budget_delegation where
  "sample_delegation = \<lparr>delegation_id = ''delegation'', parent_permit = sample_permit_rec, child_owner = Some sample_ref,
     delegated_amounts = sample_arg 5, delegation_expires_at = PyStr ''2026-01-01T00:00:00Z'', delegation_profile = PyNone\<rparr>"

lemma sample_delegated:
  "create_child_permit sample_time ''child'' sample_delegation =
     Inr (sample_permit_rec\<lparr>permit_id := ''child'', authorized_amounts := [sample_usage 5], permit_expires_at := ''2026-01-01T00:00:00Z''\<rparr>)"
proof -
  have "string_ok ''child''" by code_simp
  then show ?thesis
    by (simp add: create_child_permit_def budget_result_def sample_delegation_def sample_validate mk_budget_permit_def sample_permit_rec_def
        permit_allows_def sample_sum amount_of_def sample_parse validate_resource_ref_def check_fencing_tokens_def is_active_at_def
        sum_amounts_def [of "[]"] validate_usage_amounts_def [of "Some []"] budget_strings budget_strings [unfolded string_ok_def] string_ok_def)
qed

theorem child_permit_within_parent_witness:
  "permit_allows (sample_permit_rec\<lparr>permit_id := ''child'', authorized_amounts := [sample_usage 5],
      permit_expires_at := ''2026-01-01T00:00:00Z''\<rparr>) [sample_usage 4] \<and> permit_allows sample_permit_rec [sample_usage 4]"
proof -
  let ?c = "sample_permit_rec\<lparr>permit_id := ''child'', authorized_amounts := [sample_usage 5], permit_expires_at := ''2026-01-01T00:00:00Z''\<rparr>"
  have c: "permit_allows ?c [sample_usage 4]" by code_simp
  have "arg_ok (delegated_amounts sample_delegation)" "\<forall>a \<in> set (authorized_amounts (parent_permit sample_delegation)). usage_ok a"
    by (simp_all add: sample_delegation_def sample_arg_ok sample_permit_rec_def sample_ok)
  from child_permit_within_parent [OF sample_delegated this] c show ?thesis by (simp add: sample_delegation_def)
qed



definition sample_contract :: task_execution_contract where
  "sample_contract = \<lparr>cancel_priorities = [PriorityOptional, PriorityNormal], preserve_priorities = [PriorityRequired]\<rparr>"

definition prioritized_plan :: task_plan where
  "prioritized_plan = sample_plan\<lparr>plan_steps :=
     [sample_step ''a'' [], (sample_step ''b'' [])\<lparr>step_metadata := [(''priority'', PyStr ''optional'')]\<rparr>,
      (sample_step ''c'' [])\<lparr>step_metadata := [(''priority'', PyStr ''required'')]\<rparr>]\<rparr>"

theorem pressure_cancels_exactly_witness:
  "budget_pressure_cancellations sample_contract prioritized_plan [''a'', ''b'', ''c''] = Inr [''b'', ''a''] \<and>
   active_priority prioritized_plan ''c'' \<notin> Some ` set (cancel_priorities sample_contract)"
proof -
  have r: "budget_pressure_cancellations sample_contract prioritized_plan [''a'', ''b'', ''c''] = Inr [''b'', ''a'']" by code_simp
  have "set (cancel_priorities sample_contract) \<inter> set (preserve_priorities sample_contract) = {}" by code_simp
  from pressure_cancels_exactly [OF r this]
  have eq: "set [''b'', ''a''] = {i \<in> set [''a'', ''b'', ''c'']. active_priority prioritized_plan i \<in> Some ` set (cancel_priorities sample_contract)}"
    by (rule conjunct1)
  have "''c'' \<notin> set [''b'', ''a'']" "''c'' \<in> set [''a'', ''b'', ''c'']" by simp_all
  then have "active_priority prioritized_plan ''c'' \<notin> Some ` set (cancel_priorities sample_contract)" unfolding eq by blast
  then show ?thesis using r by blast
qed

definition sample_model :: "string \<Rightarrow> string list \<Rightarrow> model_profile" where
  "sample_model i caps = \<lparr>model_profile_id = i, model_connection = ''c'', model_capabilities = caps, quality_tier = ''standard'',
     cost_class = ''standard'', latency_class = ''standard'', allowed_sensitivity = [], model_regions = [],
     supports_cancellation = False, supports_usage_report = False\<rparr>"

definition sample_selection :: model_selection_request where
  "sample_selection = \<lparr>request_worker = \<lparr>worker_profile_id = ''w'', worker_required_capabilities = [''chat''], allowed_tools = [''search''],
      model_pool_ref = None, sensitivity_ceiling = Some ''internal'', default_budget_ref = None\<rparr>,
     required_tools = [''search''], required_capabilities = [], sensitivity = Some ''public'', region = None\<rparr>"

theorem model_selection_exact_witness:
  "model_eligible sample_selection (sample_model ''m2'' [''chat'']) \<and> \<not> model_eligible sample_selection (sample_model ''m1'' [])"
proof -
  let ?pool = "\<lparr>model_pool_id = ''pool'', selection_policy_ref = ''policy'', pool_models = [sample_model ''m1'' [], sample_model ''m2'' [''chat'']]\<rparr>"
  have "select_model sample_selection ?pool = Inr (sample_model ''m2'' [''chat''])" by code_simp
  then obtain pre post where "[sample_model ''m1'' [], sample_model ''m2'' [''chat'']] = pre @ sample_model ''m2'' [''chat''] # post"
      "model_eligible sample_selection (sample_model ''m2'' [''chat''])" "\<forall>m' \<in> set pre. \<not> model_eligible sample_selection m'"
    using model_selection_exact [of sample_selection ?pool] by auto
  then show ?thesis by (cases pre) (auto simp: sample_model_def)
qed

end
