(* ===== verification/Durable_Stream.thy ===== *)
theory Durable_Stream
  imports GB_Prelude "HOL-Library.Char_ord" "HOL-Library.List_Lexorder" "HOL-Library.Product_Lexorder"
    "HOL-Library.Multiset"
begin

text \<open>
  Durable streams, the first half of \<^verbatim>\<open>durable.py\<close>: source cursors, events and batches, the
  in-memory source with its committed cursors, and the accumulator of tumbling event-time
  windows. The objects of the frozen classes are values, so a snapshot of an event is the event
  (\<open>source_event_copy\<close>). The parameter \<open>dumps\<close> stands for \<^verbatim>\<open>canonical_dumps\<close>, whose result is
  decided by a native extension: \<^const>\<open>None\<close> when it raises.
\<close>

section \<open>Cursors\<close>

abbreviation DURABLE_MAX_U32 :: int where "DURABLE_MAX_U32 \<equiv> 4294967295"
abbreviation DURABLE_MAX_U64 :: int where "DURABLE_MAX_U64 \<equiv> 18446744073709551615"

datatype source_cursor = SourceCursor (stream: string) (partition: int) (offset: int)

text \<open>The generated order of the dataclass: fields compared from left to right.\<close>

definition cursor_tuple :: "source_cursor \<Rightarrow> string \<times> int \<times> int" where
  "cursor_tuple c = (stream c, partition c, offset c)"

lemma cursor_tuple_inject [simp]: "cursor_tuple c = cursor_tuple d \<longleftrightarrow> c = d"
  by (cases c; cases d) (simp add: cursor_tuple_def)

instantiation source_cursor :: linorder
begin

definition less_eq_source_cursor :: "source_cursor \<Rightarrow> source_cursor \<Rightarrow> bool" where
  "c \<le> d \<longleftrightarrow> cursor_tuple c \<le> cursor_tuple d"

definition less_source_cursor :: "source_cursor \<Rightarrow> source_cursor \<Rightarrow> bool" where
  "c < d \<longleftrightarrow> cursor_tuple c < cursor_tuple d"

instance
proof
  fix c d e :: source_cursor
  show "c < d \<longleftrightarrow> c \<le> d \<and> \<not> d \<le> c"
    unfolding less_eq_source_cursor_def less_source_cursor_def by (rule less_le_not_le)
  show "c \<le> d \<Longrightarrow> d \<le> e \<Longrightarrow> c \<le> e"
    unfolding less_eq_source_cursor_def by (rule order_trans)
  show "c \<le> d \<Longrightarrow> d \<le> c \<Longrightarrow> c = d"
    unfolding less_eq_source_cursor_def by (subst cursor_tuple_inject [symmetric]) (rule antisym)
  show "c \<le> d \<or> d \<le> c"
    unfolding less_eq_source_cursor_def by (rule linear)
qed (simp add: less_eq_source_cursor_def)

end

datatype durable_error =
    DurableError
  | InvalidDemandError
  | SourcePausedError
  | UnknownSourceCursorError source_cursor
  | DemandExceededError int int
  | StaleCommitError source_cursor source_cursor
  | ConflictingSourceOffsetError source_cursor
  | InvalidWindowSizeError
  | MissingEventTimeError source_cursor
  | LateEventError int int int
  | WindowBoundaryOverflowError int int int
  | CanonicalError

fun require_integer :: "int \<Rightarrow> pyval \<Rightarrow> durable_error + int" where
  "require_integer maximum (PyInt n) = (if maximum < n then Inl DurableError else Inr n)"
| "require_integer maximum _ = Inl DurableError"

definition require_natural :: "int \<Rightarrow> pyval \<Rightarrow> durable_error + int" where
  "require_natural maximum v =
     bind_sum (require_integer maximum v) (\<lambda>n. if n < 0 then Inl DurableError else Inr n)"

fun mk_source_cursor :: "pyval \<Rightarrow> pyval \<Rightarrow> pyval \<Rightarrow> durable_error + source_cursor" where
  "mk_source_cursor (PyStr s) partition_v offset_v =
     (if py_strip s = [] then Inl DurableError
      else if s \<noteq> py_strip s then Inl DurableError
      else bind_sum (require_natural DURABLE_MAX_U32 partition_v) (\<lambda>p.
           bind_sum (require_natural DURABLE_MAX_U64 offset_v) (\<lambda>n. Inr (SourceCursor s p n))))"
| "mk_source_cursor _ partition_v offset_v = Inl DurableError"

definition partition_of :: "source_cursor \<Rightarrow> string \<times> int" where
  "partition_of c = (stream c, partition c)"

section \<open>Watermarks, events and batches\<close>

datatype watermark_kind = EventTime | ProcessingTime

record watermark =
  watermark_kind :: watermark_kind
  unix_ms :: int

definition WATERMARK_KINDS :: "(string \<times> watermark_kind) list" where
  "WATERMARK_KINDS = [(''event_time'', EventTime), (''processing_time'', ProcessingTime)]"

fun mk_watermark :: "pyval \<Rightarrow> pyval \<Rightarrow> durable_error + watermark" where
  "mk_watermark (PyStr s) unix_v =
     (case map_of WATERMARK_KINDS s of None \<Rightarrow> Inl DurableError
      | Some k \<Rightarrow> bind_sum (require_natural DURABLE_MAX_U64 unix_v) (\<lambda>n. Inr \<lparr>watermark_kind = k, unix_ms = n\<rparr>))"
| "mk_watermark _ unix_v = Inl DurableError"

definition watermark_event_time :: "int \<Rightarrow> durable_error + watermark" where
  "watermark_event_time n = mk_watermark (PyStr ''event_time'') (PyInt n)"

definition watermark_processing_time :: "int \<Rightarrow> durable_error + watermark" where
  "watermark_processing_time n = mk_watermark (PyStr ''processing_time'') (PyInt n)"

record source_event =
  event_cursor :: source_cursor
  event_payload :: pyval
  event_time_unix_ms :: "int option"

definition mk_source_event :: "source_cursor instance_arg \<Rightarrow> pyval \<Rightarrow> pyval \<Rightarrow> durable_error + source_event" where
  "mk_source_event cursor_v payload time_v =
     (case cursor_v of
        ArgObject c \<Rightarrow>
          (if time_v = PyNone then Inr \<lparr>event_cursor = c, event_payload = payload, event_time_unix_ms = None\<rparr>
           else bind_sum (require_natural DURABLE_MAX_U64 time_v) (\<lambda>t.
             Inr \<lparr>event_cursor = c, event_payload = payload, event_time_unix_ms = Some t\<rparr>))
      | _ \<Rightarrow> Inl DurableError)"

datatype delivery_guarantee = BestEffort | AtMostOnce | AtLeastOnce

definition VALID_DELIVERY_GUARANTEES :: "(string \<times> delivery_guarantee) list" where
  "VALID_DELIVERY_GUARANTEES =
     [(''best_effort'', BestEffort), (''at_most_once'', AtMostOnce), (''at_least_once'', AtLeastOnce)]"

fun require_delivery_guarantee :: "pyval \<Rightarrow> durable_error + delivery_guarantee" where
  "require_delivery_guarantee (PyStr s) =
     (case map_of VALID_DELIVERY_GUARANTEES s of None \<Rightarrow> Inl DurableError | Some g \<Rightarrow> Inr g)"
| "require_delivery_guarantee _ = Inl DurableError"

record source_batch =
  batch_guarantee :: delivery_guarantee
  batch_events :: "source_event list"
  batch_watermark :: "watermark option"

text \<open>
  A sequence argument: \<^const>\<open>None\<close> when the value cannot be iterated, and an element that is no
  object of the class among the elements.
\<close>

fun all_objects :: "'a instance_arg list \<Rightarrow> durable_error + 'a list" where
  "all_objects [] = Inr []"
| "all_objects (ArgObject x # xs) = bind_sum (all_objects xs) (\<lambda>ys. Inr (x # ys))"
| "all_objects (_ # xs) = Inl DurableError"

definition object_sequence :: "'a instance_arg list option \<Rightarrow> durable_error + 'a list" where
  "object_sequence v = (case v of None \<Rightarrow> Inl DurableError | Some xs \<Rightarrow> all_objects xs)"

definition mk_source_batch ::
  "pyval \<Rightarrow> source_event instance_arg list option \<Rightarrow> watermark instance_arg \<Rightarrow> durable_error + source_batch" where
  "mk_source_batch guarantee_v events_v watermark_v =
     bind_sum (require_delivery_guarantee guarantee_v) (\<lambda>g.
     bind_sum (object_sequence events_v) (\<lambda>events.
     case watermark_v of
       ArgNone \<Rightarrow> Inr \<lparr>batch_guarantee = g, batch_events = events, batch_watermark = None\<rparr>
     | ArgObject w \<Rightarrow> Inr \<lparr>batch_guarantee = g, batch_events = events, batch_watermark = Some w\<rparr>
     | ArgOther \<Rightarrow> Inl DurableError))"

text \<open>\<^verbatim>\<open>SourceBatch.new\<close> with a guarantee, events and a watermark of the declared types.\<close>

definition new_source_batch ::
  "delivery_guarantee \<Rightarrow> source_event list \<Rightarrow> watermark option \<Rightarrow> pyval \<Rightarrow> durable_error + source_batch" where
  "new_source_batch g events w demand_v =
     bind_sum (require_integer DURABLE_MAX_U64 demand_v) (\<lambda>demand.
     if demand \<le> 0 then Inl InvalidDemandError
     else if demand < int (length events) then Inl (DemandExceededError demand (int (length events)))
     else Inr \<lparr>batch_guarantee = g, batch_events = events, batch_watermark = w\<rparr>)"

definition high_cursor :: "source_batch \<Rightarrow> source_cursor option" where
  "high_cursor b =
     (case batch_events b of [] \<Rightarrow> None
      | e # es \<Rightarrow> Some (foldl (\<lambda>c e. max c (event_cursor e)) (event_cursor e) es))"

section \<open>The in-memory source\<close>

record durable_source =
  source_guarantee :: delivery_guarantee
  source_events :: "source_event list"
  committed_cursor :: "source_cursor option"
  source_paused :: bool
  known_streams :: "string set"
  known_partitions :: "(string \<times> int) set"
  known_cursors :: "source_cursor set"
  committed_cursors :: "(string \<times> int, source_cursor) dict"
  source_watermark :: "int option"

text \<open>Two events at one offset must agree in time and in canonical payload; the later one is kept.\<close>

definition same_event :: "(pyval \<Rightarrow> string option) \<Rightarrow> source_event \<Rightarrow> source_event \<Rightarrow> durable_error + bool" where
  "same_event dumps x y =
     (if event_time_unix_ms x \<noteq> event_time_unix_ms y then Inr False
      else case (dumps (event_payload x), dumps (event_payload y)) of
        (Some s, Some t) \<Rightarrow> Inr (s = t)
      | _ \<Rightarrow> Inl CanonicalError)"

fun index_events ::
  "(pyval \<Rightarrow> string option) \<Rightarrow> source_event list \<Rightarrow> (source_cursor, source_event) dict
     \<Rightarrow> durable_error + (source_cursor, source_event) dict" where
  "index_events dumps [] d = Inr d"
| "index_events dumps (e # es) d =
     (case map_of d (event_cursor e) of
        None \<Rightarrow> index_events dumps es (dict_set (event_cursor e) e d)
      | Some x \<Rightarrow> bind_sum (same_event dumps x e) (\<lambda>same.
          if same then index_events dumps es (dict_set (event_cursor e) e d)
          else Inl (ConflictingSourceOffsetError (event_cursor e))))"

definition validate_cursor_partition :: "durable_source \<Rightarrow> source_cursor instance_arg \<Rightarrow> durable_error + source_cursor" where
  "validate_cursor_partition s cursor_v =
     (case cursor_v of
        ArgObject c \<Rightarrow>
          if stream c \<notin> known_streams s then Inl (UnknownSourceCursorError c)
          else if partition_of c \<notin> known_partitions s then Inl (UnknownSourceCursorError c)
          else Inr c
      | _ \<Rightarrow> Inl DurableError)"

definition validate_cursor :: "durable_source \<Rightarrow> source_cursor instance_arg \<Rightarrow> durable_error + source_cursor" where
  "validate_cursor s cursor_v =
     bind_sum (validate_cursor_partition s cursor_v) (\<lambda>c.
     if c \<notin> known_cursors s then Inl (UnknownSourceCursorError c) else Inr c)"

definition mk_durable_source ::
  "(pyval \<Rightarrow> string option) \<Rightarrow> pyval \<Rightarrow> source_event instance_arg list option \<Rightarrow> source_cursor instance_arg \<Rightarrow> pyval
     \<Rightarrow> durable_error + durable_source" where
  "mk_durable_source dumps guarantee_v events_v cursor_v paused_v =
     bind_sum (require_delivery_guarantee guarantee_v) (\<lambda>g.
     bind_sum (case paused_v of PyBool b \<Rightarrow> Inr b | _ \<Rightarrow> Inl DurableError) (\<lambda>p.
     bind_sum (object_sequence events_v) (\<lambda>events.
     bind_sum (index_events dumps events []) (\<lambda>d.
     let sorted_events = sort_key event_cursor (dict_values d);
         s = \<lparr>source_guarantee = g, source_events = sorted_events, committed_cursor = None, source_paused = p,
              known_streams = set (map (stream \<circ> event_cursor) sorted_events),
              known_partitions = set (map (partition_of \<circ> event_cursor) sorted_events),
              known_cursors = set (map event_cursor sorted_events),
              committed_cursors = [], source_watermark = None\<rparr> in
     if cursor_v = ArgNone then Inr s
     else bind_sum (validate_cursor s cursor_v) (\<lambda>c.
       Inr (s\<lparr>committed_cursor := Some c, committed_cursors := [(partition_of c, c)]\<rparr>))))))"

type_synonym 'a source_op = "(durable_source, durable_error, 'a) py"

definition after_cursors :: "(string \<times> int, source_cursor) dict \<Rightarrow> source_event \<Rightarrow> bool" where
  "after_cursors cursors e =
     (case map_of cursors (partition_of (event_cursor e)) of
        None \<Rightarrow> True | Some c \<Rightarrow> offset c < offset (event_cursor e))"

definition event_times :: "source_event list \<Rightarrow> int list" where
  "event_times es = List.map_filter event_time_unix_ms es"

definition next_watermark :: "int option \<Rightarrow> int list \<Rightarrow> int option" where
  "next_watermark w ts =
     (case ts of [] \<Rightarrow> w
      | t # ts' \<Rightarrow> (let m = foldl max t ts' in Some (case w of None \<Rightarrow> m | Some n \<Rightarrow> max n m)))"

definition optional_cursor :: "durable_source \<Rightarrow> source_cursor instance_arg \<Rightarrow> durable_error + source_cursor option" where
  "optional_cursor s cursor_v =
     (if cursor_v = ArgNone then Inr None
      else bind_sum (validate_cursor s cursor_v) (\<lambda>c. Inr (Some c)))"

definition poll :: "source_cursor instance_arg \<Rightarrow> pyval \<Rightarrow> source_batch source_op" where
  "poll cursor_v demand_v =
     bind_py (gets_py source_paused) (\<lambda>p.
     bind_py (raise_if p SourcePausedError) (\<lambda>_.
     bind_py (lift_py (require_integer DURABLE_MAX_U64 demand_v)) (\<lambda>demand.
     bind_py (raise_if (demand \<le> 0) InvalidDemandError) (\<lambda>_.
     bind_py (gets_py (\<lambda>s. optional_cursor s cursor_v)) (\<lambda>validated.
     bind_py (lift_py validated) (\<lambda>cursor.
     bind_py (gets_py (\<lambda>s. case cursor of None \<Rightarrow> committed_cursors s
                           | Some c \<Rightarrow> dict_set (partition_of c) c (committed_cursors s))) (\<lambda>replay.
     bind_py (gets_py (\<lambda>s. take (nat demand) (filter (after_cursors replay) (source_events s)))) (\<lambda>events.
     bind_py (modify_py (\<lambda>s. s\<lparr>source_watermark := next_watermark (source_watermark s) (event_times events)\<rparr>)) (\<lambda>_.
     bind_py (gets_py source_watermark) (\<lambda>w.
     bind_py (lift_py (case w of None \<Rightarrow> Inr None | Some n \<Rightarrow> bind_sum (watermark_event_time n) (\<lambda>x. Inr (Some x)))) (\<lambda>mark.
     bind_py (gets_py source_guarantee) (\<lambda>g.
     lift_py (new_source_batch g events mark (PyInt demand))))))))))))))"

definition source_commit :: "source_cursor instance_arg \<Rightarrow> unit source_op" where
  "source_commit cursor_v =
     bind_py (gets_py (\<lambda>s. validate_cursor_partition s cursor_v)) (\<lambda>known.
     bind_py (lift_py known) (\<lambda>c.
     bind_py (gets_py (\<lambda>s. map_of (committed_cursors s) (partition_of c))) (\<lambda>current.
     bind_py (case current of None \<Rightarrow> return_py ()
              | Some d \<Rightarrow> raise_if (offset c < offset d) (StaleCommitError d c)) (\<lambda>_.
     bind_py (gets_py (\<lambda>s. validate_cursor s cursor_v)) (\<lambda>validated.
     bind_py (lift_py validated) (\<lambda>_.
     modify_py (\<lambda>s. s\<lparr>committed_cursors := dict_set (partition_of c) c (committed_cursors s),
                      committed_cursor := Some c\<rparr>)))))))"

definition pause :: "unit source_op" where
  "pause = modify_py (\<lambda>s. s\<lparr>source_paused := True\<rparr>)"

definition resume :: "unit source_op" where
  "resume = modify_py (\<lambda>s. s\<lparr>source_paused := False\<rparr>)"

section \<open>Windows\<close>

datatype accumulation_mode = Discarding | Accumulating

record window_policy =
  size_ms :: int
  allowed_lateness_ms :: int
  accumulation_mode :: accumulation_mode

definition ACCUMULATION_MODES :: "(string \<times> accumulation_mode) list" where
  "ACCUMULATION_MODES = [(''discarding'', Discarding), (''accumulating'', Accumulating)]"

definition mk_window_policy :: "pyval \<Rightarrow> pyval \<Rightarrow> pyval \<Rightarrow> durable_error + window_policy" where
  "mk_window_policy size_v lateness_v mode_v =
     bind_sum (require_integer DURABLE_MAX_U64 size_v) (\<lambda>n.
     if n \<le> 0 then Inl InvalidWindowSizeError
     else bind_sum (require_natural DURABLE_MAX_U64 lateness_v) (\<lambda>l.
       case mode_v of
         PyStr m \<Rightarrow>
           (case map_of ACCUMULATION_MODES m of None \<Rightarrow> Inl DurableError
            | Some mode \<Rightarrow> Inr \<lparr>size_ms = n, allowed_lateness_ms = l, accumulation_mode = mode\<rparr>)
       | _ \<Rightarrow> Inl DurableError))"

record window_pane =
  start_unix_ms :: int
  end_unix_ms :: int
  pane_events :: "source_event list"
  pane_revision :: int
  is_final :: bool

record window_accumulator =
  accumulator_policy :: window_policy
  window_watermark :: "watermark option"
  windows :: "(int, source_event list) dict"
  on_time_emitted :: "int set"

type_synonym 'a window_op = "(window_accumulator, durable_error, 'a) py"

definition mk_window_accumulator :: "window_policy \<Rightarrow> window_accumulator" where
  "mk_window_accumulator p = \<lparr>accumulator_policy = p, window_watermark = None, windows = [], on_time_emitted = {}\<rparr>"

definition window_bounds :: "window_policy \<Rightarrow> int \<Rightarrow> durable_error + int \<times> int \<times> int" where
  "window_bounds p t =
     (let start = t - t mod size_ms p; ending = start + size_ms p; deadline = ending + allowed_lateness_ms p in
      if DURABLE_MAX_U64 < ending then Inl (WindowBoundaryOverflowError t (size_ms p) (allowed_lateness_ms p))
      else if DURABLE_MAX_U64 < deadline then Inl (WindowBoundaryOverflowError t (size_ms p) (allowed_lateness_ms p))
      else Inr (start, ending, deadline))"

definition ingest :: "source_event instance_arg \<Rightarrow> unit window_op" where
  "ingest event_v =
     (case event_v of
        ArgObject e \<Rightarrow>
          (case event_time_unix_ms e of
             None \<Rightarrow> raise_py (MissingEventTimeError (event_cursor e))
           | Some t \<Rightarrow>
               bind_py (gets_py (\<lambda>a. window_bounds (accumulator_policy a) t)) (\<lambda>bounds.
               bind_py (lift_py bounds) (\<lambda>(start, ending, deadline).
               bind_py (gets_py window_watermark) (\<lambda>w.
               bind_py (gets_py (\<lambda>a. allowed_lateness_ms (accumulator_policy a))) (\<lambda>lateness.
               bind_py (case w of None \<Rightarrow> return_py ()
                        | Some m \<Rightarrow> raise_if (deadline \<le> unix_ms m) (LateEventError t (unix_ms m) lateness)) (\<lambda>_.
               modify_py (\<lambda>a. a\<lparr>windows := dict_set start
                 ((case map_of (windows a) start of None \<Rightarrow> [] | Some es \<Rightarrow> es) @ [e]) (windows a)\<rparr>)))))))
      | _ \<Rightarrow> raise_py DurableError)"

text \<open>The windows whose end the watermark has passed, by their start.\<close>

fun triggerable :: "window_policy \<Rightarrow> int \<Rightarrow> int list \<Rightarrow> durable_error + (int \<times> int \<times> int) list" where
  "triggerable p now [] = Inr []"
| "triggerable p now (x # xs) =
     bind_sum (window_bounds p x) (\<lambda>(_, ending, deadline).
     bind_sum (triggerable p now xs) (\<lambda>rest.
     Inr (if ending \<le> now then (x, ending, deadline) # rest else rest)))"

definition emit_pane :: "int \<Rightarrow> int \<times> int \<times> int \<Rightarrow> window_pane list \<Rightarrow> window_pane list window_op" where
  "emit_pane now bounds emitted =
     (case bounds of (start, ending, deadline) \<Rightarrow>
        bind_py (gets_py (\<lambda>a. case map_of (windows a) start of None \<Rightarrow> [] | Some es \<Rightarrow> es)) (\<lambda>held.
        bind_py (gets_py on_time_emitted) (\<lambda>on_time.
        bind_py (gets_py (\<lambda>a. accumulation_mode (accumulator_policy a))) (\<lambda>mode.
        if deadline \<le> now then
          bind_py (modify_py (\<lambda>a. a\<lparr>windows := dict_pop start (windows a), on_time_emitted := on_time - {start}\<rparr>)) (\<lambda>_.
          return_py (emitted @ [\<lparr>start_unix_ms = start, end_unix_ms = ending, pane_events = sort_key event_cursor held,
                                 pane_revision = (if start \<in> on_time then 1 else 0), is_final = True\<rparr>]))
        else if mode = Accumulating \<and> start \<notin> on_time then
          bind_py (modify_py (\<lambda>a. a\<lparr>on_time_emitted := insert start on_time\<rparr>)) (\<lambda>_.
          return_py (emitted @ [\<lparr>start_unix_ms = start, end_unix_ms = ending, pane_events = sort_key event_cursor held,
                                 pane_revision = 0, is_final = False\<rparr>]))
        else return_py emitted))))"

definition advance_watermark :: "watermark \<Rightarrow> window_pane list window_op" where
  "advance_watermark m =
     bind_py (gets_py window_watermark) (\<lambda>w.
     if watermark_kind m \<noteq> EventTime then return_py []
     else if (case w of None \<Rightarrow> False | Some old \<Rightarrow> unix_ms m \<le> unix_ms old) then return_py []
     else
       bind_py (gets_py (\<lambda>a. triggerable (accumulator_policy a) (unix_ms m) (sort (map fst (windows a))))) (\<lambda>found.
       bind_py (lift_py found) (\<lambda>bounds.
       bind_py (modify_py (\<lambda>a. a\<lparr>window_watermark := Some m\<rparr>)) (\<lambda>_.
       for_acc bounds [] (emit_pane (unix_ms m))))))"

end
