(* ===== verification/Windows_Props.thy ===== *)
theory Windows_Props
  imports Durable_Stream
begin

text \<open>
  What the window accumulator promises. A run records the events accepted and the panes emitted
  so far; its invariant has a part for the accepted events, one for the final panes and one for
  the early panes of the accumulating mode. Every accepted event ends in exactly one final pane,
  and it does so as soon as the watermark passes the deadline of its window.
\<close>

section \<open>Windows\<close>

definition policy_ok :: "window_policy \<Rightarrow> bool" where
  "policy_ok p \<longleftrightarrow> 0 < size_ms p \<and> 0 \<le> allowed_lateness_ms p"

definition window_start :: "window_policy \<Rightarrow> int \<Rightarrow> int" where
  "window_start p t = t - t mod size_ms p"

definition window_deadline :: "window_policy \<Rightarrow> int \<Rightarrow> int" where
  "window_deadline p t = window_start p t + size_ms p + allowed_lateness_ms p"

definition event_window :: "window_policy \<Rightarrow> source_event \<Rightarrow> int" where
  "event_window p e = window_start p (the (event_time_unix_ms e))"

lemma window_start_idem [simp]: "window_start p (window_start p t) = window_start p t"
  by (simp add: window_start_def minus_mod_eq_mult_div)

lemma window_deadline_start [simp]: "window_deadline p (window_start p t) = window_deadline p t"
  by (simp add: window_deadline_def)

lemma window_bounds_Inr:
  "policy_ok p \<Longrightarrow> window_bounds p t = Inr (x, y, z) \<longleftrightarrow>
     x = window_start p t \<and> y = window_start p t + size_ms p \<and> z = window_deadline p t \<and> window_deadline p t \<le> DURABLE_MAX_U64"
  by (auto simp: window_bounds_def Let_def window_start_def window_deadline_def policy_ok_def)

lemma window_bounds_eq:
  "policy_ok p \<Longrightarrow> window_bounds p t =
    (if DURABLE_MAX_U64 < window_deadline p t then Inl (WindowBoundaryOverflowError t (size_ms p) (allowed_lateness_ms p))
     else Inr (window_start p t, window_start p t + size_ms p, window_deadline p t))"
  by (auto simp: window_bounds_def Let_def window_start_def window_deadline_def policy_ok_def)

lemma window_contains: "policy_ok p \<Longrightarrow> window_start p t \<le> t \<and> t < window_start p t + size_ms p"
  unfolding window_start_def policy_ok_def
  using pos_mod_bound [of "size_ms p" t] pos_mod_sign [of "size_ms p" t] by linarith

definition held_events :: "window_accumulator \<Rightarrow> int \<Rightarrow> source_event list" where
  "held_events a x = (case map_of (windows a) x of None \<Rightarrow> [] | Some es \<Rightarrow> es)"

text \<open>The branches of \<^verbatim>\<open>ingest\<close>.\<close>

lemma ingest_object:
  assumes "policy_ok (accumulator_policy a)"
  shows "ingest (ArgObject e) a =
    (case event_time_unix_ms e of
       None \<Rightarrow> (Inl (MissingEventTimeError (event_cursor e)), a)
     | Some t \<Rightarrow>
         if DURABLE_MAX_U64 < window_deadline (accumulator_policy a) t then
           (Inl (WindowBoundaryOverflowError t (size_ms (accumulator_policy a)) (allowed_lateness_ms (accumulator_policy a))), a)
         else case window_watermark a of
           Some m \<Rightarrow> if window_deadline (accumulator_policy a) t \<le> unix_ms m
             then (Inl (LateEventError t (unix_ms m) (allowed_lateness_ms (accumulator_policy a))), a)
             else (Inr (), a\<lparr>windows := dict_set (event_window (accumulator_policy a) e) (held_events a (event_window (accumulator_policy a) e) @ [e]) (windows a)\<rparr>)
         | None \<Rightarrow> (Inr (), a\<lparr>windows := dict_set (event_window (accumulator_policy a) e) (held_events a (event_window (accumulator_policy a) e) @ [e]) (windows a)\<rparr>))"
  using assms
  by (auto simp: ingest_def py_run window_bounds_eq held_events_def event_window_def split: option.splits)

text \<open>A run of the accumulator, with the events it accepted and the panes it emitted.\<close>

datatype window_call = IngestCall source_event | AdvanceCall watermark

type_synonym window_run = "window_accumulator \<times> source_event list \<times> window_pane list"

fun window_step :: "window_call \<Rightarrow> window_run \<Rightarrow> window_run" where
  "window_step (IngestCall e) (a, accepted, panes) =
     (case ingest (ArgObject e) a of
        (Inl _, b) \<Rightarrow> (b, accepted, panes) | (Inr _, b) \<Rightarrow> (b, accepted @ [e], panes))"
| "window_step (AdvanceCall m) (a, accepted, panes) =
     (case advance_watermark m a of
        (Inl _, b) \<Rightarrow> (b, accepted, panes) | (Inr ps, b) \<Rightarrow> (b, accepted, panes @ ps))"

definition finals :: "window_pane list \<Rightarrow> int list" where
  "finals panes = map start_unix_ms (filter is_final panes)"

definition early :: "window_pane list \<Rightarrow> int list" where
  "early panes = map start_unix_ms (filter (\<lambda>P. \<not> is_final P) panes)"

definition watermark_passed :: "watermark option \<Rightarrow> int \<Rightarrow> bool" where
  "watermark_passed w z \<longleftrightarrow> (case w of None \<Rightarrow> False | Some m \<Rightarrow> z \<le> unix_ms m)"

definition window_pane_of :: "window_policy \<Rightarrow> source_event list \<Rightarrow> window_pane \<Rightarrow> bool" where
  "window_pane_of p accepted P \<longleftrightarrow>
     end_unix_ms P = start_unix_ms P + size_ms p \<and>
     pane_events P = sort_key event_cursor (filter (\<lambda>e. event_window p e = start_unix_ms P) accepted)"

text \<open>
  \<open>now\<close> is the watermark up to which the windows in \<open>todo\<close> are still to be looked at; between calls
  \<open>todo\<close> is empty.
\<close>

definition accepted_inv :: "int set \<Rightarrow> window_accumulator \<Rightarrow> source_event list \<Rightarrow> window_pane list \<Rightarrow> bool" where
  "accepted_inv todo a accepted panes \<longleftrightarrow>
     policy_ok (accumulator_policy a) \<and> dict_ok (windows a) \<and>
     (\<forall>e\<in>set accepted. event_time_unix_ms e \<noteq> None \<and> window_deadline (accumulator_policy a) (event_window (accumulator_policy a) e) \<le> DURABLE_MAX_U64 \<and>
        (map_of (windows a) (event_window (accumulator_policy a) e) \<noteq> None \<or> event_window (accumulator_policy a) e \<in> set (finals panes))) \<and>
     (\<forall>x es. map_of (windows a) x = Some es \<longrightarrow>
        es \<noteq> [] \<and> es = filter (\<lambda>e. event_window (accumulator_policy a) e = x) accepted \<and>
        (x \<in> todo \<or> \<not> watermark_passed (window_watermark a) (window_deadline (accumulator_policy a) x)))"

definition final_inv :: "window_accumulator \<Rightarrow> source_event list \<Rightarrow> window_pane list \<Rightarrow> bool" where
  "final_inv a accepted panes \<longleftrightarrow>
     distinct (finals panes) \<and>
     (\<forall>x\<in>set (finals panes). map_of (windows a) x = None \<and> watermark_passed (window_watermark a) (window_deadline (accumulator_policy a) x)) \<and>
     (\<forall>P\<in>set panes. is_final P \<longrightarrow> window_pane_of (accumulator_policy a) accepted P \<and>
        pane_revision P = (if start_unix_ms P \<in> set (early panes) then 1 else 0))"

definition early_inv :: "window_accumulator \<Rightarrow> source_event list \<Rightarrow> window_pane list \<Rightarrow> bool" where
  "early_inv a accepted panes \<longleftrightarrow>
     distinct (early panes) \<and>
     on_time_emitted a = {x\<in>set (early panes). map_of (windows a) x \<noteq> None} \<and>
     set (early panes) \<subseteq> event_window (accumulator_policy a) ` set accepted \<and>
     (\<forall>P\<in>set panes. \<not> is_final P \<longrightarrow> accumulation_mode (accumulator_policy a) = Accumulating \<and> pane_revision P = 0 \<and>
        end_unix_ms P = start_unix_ms P + size_ms (accumulator_policy a) \<and>
        set (pane_events P) \<subseteq> {e\<in>set accepted. event_window (accumulator_policy a) e = start_unix_ms P})"

definition run_inv :: "int set \<Rightarrow> window_accumulator \<Rightarrow> source_event list \<Rightarrow> window_pane list \<Rightarrow> bool" where
  "run_inv todo a accepted panes \<longleftrightarrow>
     accepted_inv todo a accepted panes \<and> final_inv a accepted panes \<and> early_inv a accepted panes"

lemmas run_inv_defs = run_inv_def accepted_inv_def final_inv_def early_inv_def

lemma finals_append [simp]: "finals (ps @ qs) = finals ps @ finals qs"
  by (simp add: finals_def)

lemma early_append [simp]: "early (ps @ qs) = early ps @ early qs"
  by (simp add: early_def)

lemma pane_lists [simp]:
  "finals [] = []" "early [] = []" "is_final P \<Longrightarrow> finals [P] = [start_unix_ms P]" "is_final P \<Longrightarrow> early [P] = []"
  "\<not> is_final P \<Longrightarrow> finals [P] = []" "\<not> is_final P \<Longrightarrow> early [P] = [start_unix_ms P]"
  by (simp_all add: finals_def early_def)

lemma final_mem: "P \<in> set panes \<Longrightarrow> is_final P \<Longrightarrow> start_unix_ms P \<in> set (finals panes)"
  by (simp add: finals_def)

lemma held_events_run:
  assumes "run_inv todo a accepted panes" and "x \<notin> set (finals panes)"
  shows "held_events a x = filter (\<lambda>e. event_window (accumulator_policy a) e = x) accepted"
proof (cases "map_of (windows a) x")
  case None
  then have "\<forall>e\<in>set accepted. event_window (accumulator_policy a) e \<noteq> x"
    using assms unfolding run_inv_defs by blast
  then show ?thesis using None by (simp add: held_events_def filter_False)
next
  case (Some es)
  have "es = filter (\<lambda>e. event_window (accumulator_policy a) e = x) accepted"
    using assms(1) Some unfolding run_inv_defs by blast
  then show ?thesis using Some by (simp add: held_events_def)
qed

lemma open_window_event:
  assumes "run_inv todo a accepted panes" and "map_of (windows a) x = Some es"
  obtains e where "e \<in> set accepted" "event_window (accumulator_policy a) e = x"
proof -
  have "es \<noteq> []" "es = filter (\<lambda>e. event_window (accumulator_policy a) e = x) accepted"
    using assms unfolding run_inv_def accepted_inv_def by blast+
  then show ?thesis using that by (metis (mono_tags, lifting) filter_False)
qed

lemma run_inv_accept:
  assumes inv: "run_inv {} a accepted panes" and t: "event_time_unix_ms e = Some t"
    and dl: "window_deadline (accumulator_policy a) t \<le> DURABLE_MAX_U64" and open_: "\<not> watermark_passed (window_watermark a) (window_deadline (accumulator_policy a) t)"
  shows "run_inv {} (a\<lparr>windows := dict_set (event_window (accumulator_policy a) e) (held_events a (event_window (accumulator_policy a) e) @ [e]) (windows a)\<rparr>)
    (accepted @ [e]) panes"
proof -
  let ?x = "event_window (accumulator_policy a) e"
  let ?b = "a\<lparr>windows := dict_set ?x (held_events a ?x @ [e]) (windows a)\<rparr>"
  have x: "window_deadline (accumulator_policy a) ?x = window_deadline (accumulator_policy a) t" by (simp add: event_window_def t)
  have nf: "?x \<notin> set (finals panes)" using inv open_ unfolding run_inv_defs x [symmetric] by blast
  have early: "?x \<in> set (early panes) \<Longrightarrow> map_of (windows a) ?x \<noteq> None"
    using inv nf unfolding run_inv_defs by force
  have held: "held_events a ?x @ [e] = filter (\<lambda>e'. event_window (accumulator_policy a) e' = ?x) (accepted @ [e])"
    by (simp add: held_events_run [OF inv nf])
  have old: "filter (\<lambda>e'. event_window (accumulator_policy a) e' = y) (accepted @ [e]) = filter (\<lambda>e'. event_window (accumulator_policy a) e' = y) accepted"
    if "y \<noteq> ?x" for y using that by simp
  have pane: "window_pane_of (accumulator_policy a) (accepted @ [e]) P" if "P \<in> set panes" "is_final P" for P
    using inv that nf final_mem [OF that] unfolding run_inv_defs window_pane_of_def by auto
  show ?thesis
    unfolding run_inv_def
  proof (intro conjI)
    show "accepted_inv {} ?b (accepted @ [e]) panes" using inv held old x dl open_ t by (auto simp: run_inv_def accepted_inv_def)
    show "final_inv ?b (accepted @ [e]) panes" using inv nf pane by (auto simp: run_inv_def final_inv_def)
    show "early_inv ?b (accepted @ [e]) panes" using inv early by (auto simp: run_inv_def early_inv_def)
  qed
qed


definition window_entry :: "window_policy \<Rightarrow> int \<Rightarrow> int \<times> int \<times> int" where
  "window_entry p x = (x, x + size_ms p, window_deadline p x)"

lemma triggerable_all:
  assumes "policy_ok p" and "\<forall>x\<in>set xs. window_start p x = x \<and> window_deadline p x \<le> DURABLE_MAX_U64"
  shows "triggerable p now xs = Inr (map (window_entry p) (filter (\<lambda>x. x + size_ms p \<le> now) xs))"
  using assms(2)
proof (induction xs)
  case (Cons x xs)
  then show ?case using assms(1) by (simp add: window_bounds_eq window_entry_def)
qed simp

lemma emit_pane_entry:
  "emit_pane now (window_entry (accumulator_policy a) x) ps a =
    (if window_deadline (accumulator_policy a) x \<le> now then
       (Inr (ps @ [\<lparr>start_unix_ms = x, end_unix_ms = x + size_ms (accumulator_policy a), pane_events = sort_key event_cursor (held_events a x),
                    pane_revision = (if x \<in> on_time_emitted a then 1 else 0), is_final = True\<rparr>]),
        a\<lparr>windows := dict_pop x (windows a), on_time_emitted := on_time_emitted a - {x}\<rparr>)
     else if accumulation_mode (accumulator_policy a) = Accumulating \<and> x \<notin> on_time_emitted a then
       (Inr (ps @ [\<lparr>start_unix_ms = x, end_unix_ms = x + size_ms (accumulator_policy a), pane_events = sort_key event_cursor (held_events a x),
                    pane_revision = 0, is_final = False\<rparr>]),
        a\<lparr>on_time_emitted := insert x (on_time_emitted a)\<rparr>)
     else (Inr ps, a))"
  by (simp add: emit_pane_def window_entry_def py_run held_events_def)

lemma run_inv_final:
  assumes inv: "run_inv (insert x todo) a accepted panes" and x: "map_of (windows a) x \<noteq> None"
    and passed: "watermark_passed (window_watermark a) (window_deadline (accumulator_policy a) x)" and "x \<notin> todo"
  shows "run_inv todo (a\<lparr>windows := dict_pop x (windows a), on_time_emitted := on_time_emitted a - {x}\<rparr>) accepted
    (panes @ [\<lparr>start_unix_ms = x, end_unix_ms = x + size_ms (accumulator_policy a), pane_events = sort_key event_cursor (held_events a x),
               pane_revision = (if x \<in> on_time_emitted a then 1 else 0), is_final = True\<rparr>])"
proof -
  let ?b = "a\<lparr>windows := dict_pop x (windows a), on_time_emitted := on_time_emitted a - {x}\<rparr>"
  let ?P = "\<lparr>start_unix_ms = x, end_unix_ms = x + size_ms (accumulator_policy a),
    pane_events = sort_key event_cursor (filter (\<lambda>e. event_window (accumulator_policy a) e = x) accepted),
    pane_revision = (if x \<in> on_time_emitted a then 1 else 0), is_final = True\<rparr>"
  have nf: "x \<notin> set (finals panes)" using inv x by (auto simp: run_inv_def final_inv_def)
  have time: "x \<in> on_time_emitted a \<longleftrightarrow> x \<in> set (early panes)" using inv x by (auto simp: run_inv_def early_inv_def)
  show ?thesis
    unfolding run_inv_def held_events_run [OF inv nf]
  proof (intro conjI)
    show "accepted_inv todo ?b accepted (panes @ [?P])" using inv by (auto simp: run_inv_def accepted_inv_def)
    show "final_inv ?b accepted (panes @ [?P])" using inv passed nf time by (auto simp: run_inv_def final_inv_def window_pane_of_def)
    show "early_inv ?b accepted (panes @ [?P])" using inv by (auto simp: run_inv_def early_inv_def)
  qed
qed

lemma run_inv_early:
  assumes inv: "run_inv (insert x todo) a accepted panes" and x: "map_of (windows a) x \<noteq> None"
    and passed: "\<not> watermark_passed (window_watermark a) (window_deadline (accumulator_policy a) x)"
    and mode: "accumulation_mode (accumulator_policy a) = Accumulating" "x \<notin> on_time_emitted a"
  shows "run_inv todo (a\<lparr>on_time_emitted := insert x (on_time_emitted a)\<rparr>) accepted
    (panes @ [\<lparr>start_unix_ms = x, end_unix_ms = x + size_ms (accumulator_policy a), pane_events = sort_key event_cursor (held_events a x),
               pane_revision = 0, is_final = False\<rparr>])"
proof -
  let ?b = "a\<lparr>on_time_emitted := insert x (on_time_emitted a)\<rparr>"
  let ?P = "\<lparr>start_unix_ms = x, end_unix_ms = x + size_ms (accumulator_policy a),
    pane_events = sort_key event_cursor (filter (\<lambda>e. event_window (accumulator_policy a) e = x) accepted),
    pane_revision = 0, is_final = False\<rparr>"
  have nf: "x \<notin> set (finals panes)" using inv x by (auto simp: run_inv_def final_inv_def)
  have time: "x \<notin> set (early panes)" using inv x mode by (auto simp: run_inv_def early_inv_def)
  have acc: "x \<in> event_window (accumulator_policy a) ` set accepted"
  proof -
    obtain es where "map_of (windows a) x = Some es" using x by blast
    then show ?thesis by (rule open_window_event [OF inv]) blast
  qed
  have fin: "start_unix_ms P \<noteq> x" if "P \<in> set panes" "is_final P" for P using nf final_mem [OF that] by blast
  show ?thesis
    unfolding run_inv_def held_events_run [OF inv nf]
  proof (intro conjI)
    show "accepted_inv todo ?b accepted (panes @ [?P])" using inv passed by (auto simp: run_inv_def accepted_inv_def)
    show "final_inv ?b accepted (panes @ [?P])" using inv fin by (auto simp: run_inv_def final_inv_def)
    show "early_inv ?b accepted (panes @ [?P])" using inv time x mode acc by (auto simp: run_inv_def early_inv_def)
  qed
qed

lemma run_inv_skip:
  assumes "run_inv (insert x todo) a accepted panes"
    and "\<not> watermark_passed (window_watermark a) (window_deadline (accumulator_policy a) x)"
  shows "run_inv todo a accepted panes"
  using assms unfolding run_inv_defs by blast

definition emit_inv :: "window_policy \<Rightarrow> watermark \<Rightarrow> source_event list \<Rightarrow> window_pane list
    \<Rightarrow> int list \<Rightarrow> window_pane list \<Rightarrow> window_accumulator \<Rightarrow> bool" where
  "emit_inv p m accepted panes xs ps b \<longleftrightarrow>
     accumulator_policy b = p \<and> window_watermark b = Some m \<and> distinct xs \<and> (\<forall>x\<in>set xs. map_of (windows b) x \<noteq> None) \<and>
     run_inv (set xs) b accepted (panes @ ps)"

lemma emit_pane_inv:
  assumes "emit_inv p m accepted panes (x # xs) ps b"
  shows "wp (emit_pane (unix_ms m) (window_entry p x) ps) (emit_inv p m accepted panes xs) (\<lambda>_ _. False) b"
proof -
  have b: "accumulator_policy b = p" "window_watermark b = Some m" "x \<notin> set xs" "distinct xs" "\<forall>y\<in>set (x # xs). map_of (windows b) y \<noteq> None"
    and inv: "run_inv (insert x (set xs)) b accepted (panes @ ps)"
    using assms by (auto simp: emit_inv_def)
  consider (final) "window_deadline p x \<le> unix_ms m"
    | (early) "\<not> window_deadline p x \<le> unix_ms m" "accumulation_mode p = Accumulating" "x \<notin> on_time_emitted b"
    | (skip) "\<not> window_deadline p x \<le> unix_ms m" "\<not> (accumulation_mode p = Accumulating \<and> x \<notin> on_time_emitted b)"
    by blast
  then show ?thesis
  proof cases
    case final
    then show ?thesis
      using run_inv_final [OF inv] b emit_pane_entry [of "unix_ms m" b x ps]
      by (auto simp: wp_def emit_inv_def watermark_passed_def)
  next
    case early
    then show ?thesis
      using run_inv_early [OF inv] b emit_pane_entry [of "unix_ms m" b x ps]
      by (auto simp: wp_def emit_inv_def watermark_passed_def)
  next
    case skip
    then show ?thesis
      using run_inv_skip [OF inv] b emit_pane_entry [of "unix_ms m" b x ps]
      by (auto simp: wp_def emit_inv_def watermark_passed_def)
  qed
qed


lemma run_inv_watermark:
  assumes inv: "run_inv {} a accepted panes"
    and later: "case window_watermark a of None \<Rightarrow> True | Some old \<Rightarrow> unix_ms old < unix_ms m"
  shows "emit_inv (accumulator_policy a) m accepted panes (filter (\<lambda>x. x + size_ms (accumulator_policy a) \<le> unix_ms m) (sort (map fst (windows a)))) []
    (a\<lparr>window_watermark := Some m\<rparr>)"
proof -
  have ok: "policy_ok (accumulator_policy a)" "dict_ok (windows a)" using inv by (auto simp: run_inv_def accepted_inv_def)
  have keys: "x \<in> set (sort (map fst (windows a))) \<longleftrightarrow> map_of (windows a) x \<noteq> None" for x
    by (simp add: map_of_eq_None_iff)
  have start: "window_start (accumulator_policy a) x = x" if x: "map_of (windows a) x = Some es" for x es
  proof -
    obtain e where "e \<in> set accepted" "event_window (accumulator_policy a) e = x" by (rule open_window_event [OF inv x])
    then show ?thesis by (auto simp: event_window_def)
  qed
  have fut: "\<not> window_deadline (accumulator_policy a) x \<le> unix_ms m"
    if "map_of (windows a) x = Some es" "\<not> x + size_ms (accumulator_policy a) \<le> unix_ms m" for x es
    using that start [OF that(1)] ok(1) by (simp add: window_deadline_def policy_ok_def)
  have mono: "watermark_passed (window_watermark a) z \<Longrightarrow> z \<le> unix_ms m" for z
    using later by (auto simp: watermark_passed_def split: option.splits)
  show ?thesis
    unfolding emit_inv_def run_inv_def
  proof (intro conjI)
    show "distinct (filter (\<lambda>x. x + size_ms (accumulator_policy a) \<le> unix_ms m) (sort (map fst (windows a))))"
      using ok(2) by (simp add: dict_ok_def)
    show "\<forall>x\<in>set (filter (\<lambda>x. x + size_ms (accumulator_policy a) \<le> unix_ms m) (sort (map fst (windows a)))). map_of (windows (a\<lparr>window_watermark := Some m\<rparr>)) x \<noteq> None"
      using keys by simp
    show "accepted_inv (set (filter (\<lambda>x. x + size_ms (accumulator_policy a) \<le> unix_ms m) (sort (map fst (windows a))))) (a\<lparr>window_watermark := Some m\<rparr>) accepted (panes @ [])"
      using inv keys fut by (auto simp: run_inv_def accepted_inv_def watermark_passed_def)
    show "final_inv (a\<lparr>window_watermark := Some m\<rparr>) accepted (panes @ [])"
      using inv mono by (auto simp: run_inv_def final_inv_def watermark_passed_def)
    show "early_inv (a\<lparr>window_watermark := Some m\<rparr>) accepted (panes @ [])"
      using inv by (auto simp: run_inv_def early_inv_def)
  qed simp_all
qed

lemma for_acc_emit:
  assumes "emit_inv p m accepted panes xs [] b"
  shows "wp (for_acc (map (window_entry p) xs) [] (emit_pane (unix_ms m))) (emit_inv p m accepted panes []) (\<lambda>_ _. False) b"
proof -
  have "wp (for_acc (map (window_entry p) ys) ps (emit_pane (unix_ms m))) (emit_inv p m accepted panes []) (\<lambda>_ _. False) c"
    if "emit_inv p m accepted panes ys ps c" for ys ps c
    using that
  proof (induction ys arbitrary: ps c)
    case (Cons y ys)
    show ?case unfolding list.map for_acc.simps by (rule wp_bindI [OF emit_pane_inv [OF Cons.prems]]) (rule Cons.IH)
  qed (simp add: wp_return)
  then show ?thesis using assms by blast
qed

text \<open>An accumulator with only accepted events never fails to advance.\<close>

lemma advance_returns:
  assumes inv: "run_inv {} a accepted panes"
  obtains ps b where "advance_watermark m a = (Inr ps, b)" "run_inv {} b accepted (panes @ ps)" "accumulator_policy b = accumulator_policy a"
    "watermark_kind m = EventTime \<Longrightarrow> watermark_passed (window_watermark b) (unix_ms m)"
proof (cases "watermark_kind m \<noteq> EventTime \<or> (case window_watermark a of None \<Rightarrow> False | Some old \<Rightarrow> unix_ms m \<le> unix_ms old)")
  case True
  then have "advance_watermark m a = (Inr [], a)" by (auto simp: advance_watermark_def py_run)
  then show ?thesis using that [of "[]" a] True inv by (auto simp: watermark_passed_def split: option.splits)
next
  case False
  then have later: "case window_watermark a of None \<Rightarrow> True | Some old \<Rightarrow> unix_ms old < unix_ms m"
    by (auto split: option.splits)
  let ?xs = "filter (\<lambda>x. x + size_ms (accumulator_policy a) \<le> unix_ms m) (sort (map fst (windows a)))"
  have ok: "policy_ok (accumulator_policy a)" using inv by (simp add: run_inv_def accepted_inv_def)
  have "window_start (accumulator_policy a) x = x \<and> window_deadline (accumulator_policy a) x \<le> DURABLE_MAX_U64" if x: "x \<in> set (map fst (windows a))" for x
  proof -
    obtain es where "map_of (windows a) x = Some es"
      using x by (cases "map_of (windows a) x") (auto simp: map_of_eq_None_iff)
    then obtain e where "e \<in> set accepted" "event_window (accumulator_policy a) e = x" by (rule open_window_event [OF inv])
    moreover have "\<forall>e\<in>set accepted. window_deadline (accumulator_policy a) (event_window (accumulator_policy a) e) \<le> DURABLE_MAX_U64"
      using inv unfolding run_inv_def accepted_inv_def by blast
    ultimately show ?thesis by (auto simp: event_window_def)
  qed
  then have trig: "triggerable (accumulator_policy a) (unix_ms m) (sort (map fst (windows a))) = Inr (map (window_entry (accumulator_policy a)) ?xs)"
    by (intro triggerable_all [OF ok]) simp
  have adv: "advance_watermark m a = for_acc (map (window_entry (accumulator_policy a)) ?xs) [] (emit_pane (unix_ms m)) (a\<lparr>window_watermark := Some m\<rparr>)"
    using False trig by (simp add: advance_watermark_def py_run)
  from for_acc_emit [OF run_inv_watermark [OF inv later]]
  obtain ps b where "for_acc (map (window_entry (accumulator_policy a)) ?xs) [] (emit_pane (unix_ms m)) (a\<lparr>window_watermark := Some m\<rparr>) = (Inr ps, b)"
      "emit_inv (accumulator_policy a) m accepted panes [] ps b"
    by (auto simp: wp_def split: prod.splits sum.splits)
  then show ?thesis using that [of ps b] by (simp add: adv emit_inv_def watermark_passed_def)
qed


subsection \<open>Runs of the accumulator\<close>

definition run_ok :: "window_policy \<Rightarrow> window_run \<Rightarrow> bool" where
  "run_ok p r \<longleftrightarrow> (case r of (a, accepted, panes) \<Rightarrow> run_inv {} a accepted panes \<and> accumulator_policy a = p)"

definition run_start :: "window_policy \<Rightarrow> window_run \<Rightarrow> bool" where
  "run_start p r \<longleftrightarrow> policy_ok p \<and> r = (mk_window_accumulator p, [], [])"

lemma run_start_ok: "run_start p r \<Longrightarrow> run_ok p r"
  by (simp add: run_start_def run_ok_def run_inv_defs mk_window_accumulator_def)

lemma window_step_ok:
  assumes "run_ok p r"
  shows "run_ok p (window_step call r)"
proof -
  obtain a accepted panes where r: "r = (a, accepted, panes)" by (metis prod_cases3)
  have inv: "run_inv {} a accepted panes" and pol: "accumulator_policy a = p" using assms by (simp_all add: r run_ok_def)
  have ok: "policy_ok (accumulator_policy a)" using inv by (simp add: run_inv_def accepted_inv_def)
  show ?thesis
  proof (cases call)
    case (IngestCall e)
    show ?thesis
    proof (cases "event_time_unix_ms e")
      case None
      then show ?thesis using assms by (simp add: r IngestCall ingest_object [OF ok])
    next
      case (Some t)
      consider "DURABLE_MAX_U64 < window_deadline (accumulator_policy a) t" | "watermark_passed (window_watermark a) (window_deadline (accumulator_policy a) t)"
        | "window_deadline (accumulator_policy a) t \<le> DURABLE_MAX_U64" "\<not> watermark_passed (window_watermark a) (window_deadline (accumulator_policy a) t)"
        by linarith
      then show ?thesis
        using assms run_inv_accept [OF inv Some] pol
        by cases (auto simp: r IngestCall ingest_object [OF ok] Some run_ok_def watermark_passed_def split: option.splits)
    qed
  next
    case (AdvanceCall m)
    then show ?thesis using advance_returns [OF inv, of m] pol by (fastforce simp: r run_ok_def)
  qed
qed

interpretation windows: py_machine "run_start p" window_step "run_ok p" for p
  by unfold_locales (auto intro: run_start_ok window_step_ok)


lemma window_policy_ok: "mk_window_policy n l mode = Inr p \<Longrightarrow> policy_ok p"
  by (cases n; cases l) (auto simp: mk_window_policy_def policy_ok_def require_natural_def split: if_splits pyval.splits option.splits)

lemma run_reachable:
  assumes "mk_window_policy n l mode = Inr p" and "fold window_step calls (mk_window_accumulator p, [], []) = (a, accepted, panes)"
  shows "run_inv {} a accepted panes" "accumulator_policy a = p" "policy_ok p"
proof -
  have "run_ok p (fold window_step calls (mk_window_accumulator p, [], []))"
    by (rule windows.inv_reachable) (simp add: run_start_def window_policy_ok [OF assms(1)])
  then show "run_inv {} a accepted panes" "accumulator_policy a = p" by (simp_all add: assms(2) run_ok_def)
qed (rule window_policy_ok [OF assms(1)])

lemma accepted_event_final_iff:
  assumes inv: "run_inv {} a accepted panes" and e: "e \<in> set accepted"
  shows "event_window (accumulator_policy a) e \<in> set (finals panes) \<longleftrightarrow>
    watermark_passed (window_watermark a) (window_deadline (accumulator_policy a) (event_window (accumulator_policy a) e))"
proof
  assume "event_window (accumulator_policy a) e \<in> set (finals panes)"
  then show "watermark_passed (window_watermark a) (window_deadline (accumulator_policy a) (event_window (accumulator_policy a) e))"
    using inv unfolding run_inv_def final_inv_def by blast
next
  assume passed: "watermark_passed (window_watermark a) (window_deadline (accumulator_policy a) (event_window (accumulator_policy a) e))"
  then have "map_of (windows a) (event_window (accumulator_policy a) e) = None"
    using inv unfolding run_inv_def accepted_inv_def by (metis empty_iff not_None_eq)
  then show "event_window (accumulator_policy a) e \<in> set (finals panes)"
    using inv e unfolding run_inv_def accepted_inv_def by blast
qed

section \<open>Samples\<close>

definition window_event :: "int \<Rightarrow> int \<Rightarrow> source_event" where
  "window_event n t = \<lparr>event_cursor = SourceCursor ''s'' 0 n, event_payload = PyNone, event_time_unix_ms = Some t\<rparr>"

definition window_mark :: "int \<Rightarrow> watermark" where
  "window_mark n = \<lparr>watermark_kind = EventTime, unix_ms = n\<rparr>"

definition sample_window_policy :: window_policy where
  "sample_window_policy = \<lparr>size_ms = 10, allowed_lateness_ms = 5, accumulation_mode = Accumulating\<rparr>"

definition sample_calls :: "window_call list" where
  "sample_calls =
     [IngestCall (window_event 2 3), IngestCall (window_event 3 12), AdvanceCall (window_mark 11),
      IngestCall (window_event 1 4), AdvanceCall (window_mark 15), IngestCall (window_event 4 5)]"

definition sample_window_panes :: "window_pane list" where
  "sample_window_panes =
     [\<lparr>start_unix_ms = 0, end_unix_ms = 10, pane_events = [window_event 2 3], pane_revision = 0, is_final = False\<rparr>,
      \<lparr>start_unix_ms = 0, end_unix_ms = 10, pane_events = [window_event 1 4, window_event 2 3], pane_revision = 1, is_final = True\<rparr>]"

definition sample_accumulator :: window_accumulator where
  "sample_accumulator =
     \<lparr>accumulator_policy = sample_window_policy, window_watermark = Some (window_mark 15), windows = [(10, [window_event 3 12])], on_time_emitted = {}\<rparr>"

lemma sample_window_policy_made: "mk_window_policy (PyInt 10) (PyInt 5) (PyStr ''accumulating'') = Inr sample_window_policy"
  by code_simp

lemma sample_window_run:
  "fold window_step sample_calls (mk_window_accumulator sample_window_policy, [], []) =
     (sample_accumulator, [window_event 2 3, window_event 3 12, window_event 1 4], sample_window_panes)"
  by code_simp

section \<open>Properties of windows\<close>

text \<open>
  C5: In every run of a window accumulator, no window has two final panes, a final pane holds
  exactly the accepted events of its window in cursor order, and an accepted event is in a final
  pane exactly when the watermark has passed the deadline of its window.
\<close>

theorem windows_emit_each_event_once:
  assumes made: "mk_window_policy n l mode = Inr p"
    and run: "fold window_step calls (mk_window_accumulator p, [], []) = (a, accepted, panes)"
  shows "(distinct (map start_unix_ms (filter is_final panes))) \<and>
    (\<forall>P\<in>set panes. is_final P \<longrightarrow> end_unix_ms P = start_unix_ms P + size_ms p \<and>
      pane_events P = sort_key event_cursor (filter (\<lambda>e. event_window p e = start_unix_ms P) accepted)) \<and>
    (\<forall>e\<in>set accepted. (\<exists>P\<in>set panes. is_final P \<and> e \<in> set (pane_events P)) \<longleftrightarrow>
      watermark_passed (window_watermark a) (window_deadline p (event_window p e)))"
proof (intro conjI)
  note inv = run_reachable [OF made run]
  show "distinct (map start_unix_ms (filter is_final panes))"
    using inv(1) by (simp add: run_inv_def final_inv_def finals_def)
  show panes: "\<forall>P\<in>set panes. is_final P \<longrightarrow> end_unix_ms P = start_unix_ms P + size_ms p \<and>
      pane_events P = sort_key event_cursor (filter (\<lambda>e. event_window p e = start_unix_ms P) accepted)"
    using inv(1,2) unfolding run_inv_def final_inv_def window_pane_of_def by blast
  show "\<forall>e\<in>set accepted. (\<exists>P\<in>set panes. is_final P \<and> e \<in> set (pane_events P)) \<longleftrightarrow>
      watermark_passed (window_watermark a) (window_deadline p (event_window p e))"
  proof
    fix e assume e: "e \<in> set accepted"
    have "(\<exists>P\<in>set panes. is_final P \<and> e \<in> set (pane_events P)) \<longleftrightarrow> event_window p e \<in> set (finals panes)"
      using panes e by (auto simp: finals_def)
    then show "(\<exists>P\<in>set panes. is_final P \<and> e \<in> set (pane_events P)) \<longleftrightarrow>
        watermark_passed (window_watermark a) (window_deadline p (event_window p e))"
      using accepted_event_final_iff [OF inv(1) e] by (simp add: inv(2))
  qed
qed

theorem windows_emit_each_event_once_witness:
  "(\<exists>P\<in>set sample_window_panes. is_final P \<and> window_event 1 4 \<in> set (pane_events P)) \<and>
   \<not> (\<exists>P\<in>set sample_window_panes. is_final P \<and> window_event 3 12 \<in> set (pane_events P)) \<and>
   distinct (map start_unix_ms (filter is_final sample_window_panes))"
proof -
  have a: "watermark_passed (window_watermark sample_accumulator) (window_deadline sample_window_policy (event_window sample_window_policy (window_event 1 4)))"
    and b: "\<not> watermark_passed (window_watermark sample_accumulator) (window_deadline sample_window_policy (event_window sample_window_policy (window_event 3 12)))"
    by code_simp+
  note run = windows_emit_each_event_once [OF sample_window_policy_made sample_window_run]
  note final = run [THEN conjunct2, THEN conjunct2, THEN bspec]
  show ?thesis
    using run [THEN conjunct1] final [of "window_event 1 4"] final [of "window_event 3 12"] a b by simp
qed

text \<open>
  Advancing the watermark never fails in a run, and an event is refused exactly when it has no
  time, its deadline is beyond 64 bits or the watermark has passed the deadline; a refusal leaves
  the accumulator as it was.
\<close>

theorem window_verdicts:
  assumes made: "mk_window_policy n l mode = Inr p"
    and run: "fold window_step calls (mk_window_accumulator p, [], []) = (a, accepted, panes)"
  shows "(\<exists>ps b. advance_watermark m a = (Inr ps, b)) \<and>
    (ingest (ArgObject e) a =
      (case event_time_unix_ms e of
         None \<Rightarrow> (Inl (MissingEventTimeError (event_cursor e)), a)
       | Some t \<Rightarrow>
           if DURABLE_MAX_U64 < window_deadline p t then (Inl (WindowBoundaryOverflowError t (size_ms p) (allowed_lateness_ms p)), a)
           else if watermark_passed (window_watermark a) (window_deadline p t)
             then (Inl (LateEventError t (unix_ms (the (window_watermark a))) (allowed_lateness_ms p)), a)
           else (Inr (), a\<lparr>windows := dict_set (event_window p e) (held_events a (event_window p e) @ [e]) (windows a)\<rparr>)))"
proof
  note inv = run_reachable [OF made run]
  show "\<exists>ps b. advance_watermark m a = (Inr ps, b)" using advance_returns [OF inv(1), of m] by blast
  have "policy_ok (accumulator_policy a)" using inv by simp
  from ingest_object [OF this, of e]
  show "ingest (ArgObject e) a =
      (case event_time_unix_ms e of
         None \<Rightarrow> (Inl (MissingEventTimeError (event_cursor e)), a)
       | Some t \<Rightarrow>
           if DURABLE_MAX_U64 < window_deadline p t then (Inl (WindowBoundaryOverflowError t (size_ms p) (allowed_lateness_ms p)), a)
           else if watermark_passed (window_watermark a) (window_deadline p t)
             then (Inl (LateEventError t (unix_ms (the (window_watermark a))) (allowed_lateness_ms p)), a)
           else (Inr (), a\<lparr>windows := dict_set (event_window p e) (held_events a (event_window p e) @ [e]) (windows a)\<rparr>))"
    unfolding inv(2) watermark_passed_def by (simp split: option.splits)
qed

theorem window_verdicts_witness:
  "ingest (ArgObject (window_event 4 5)) sample_accumulator = (Inl (LateEventError 5 15 5), sample_accumulator)"
proof -
  have a: "watermark_passed (window_watermark sample_accumulator) (window_deadline sample_window_policy 5)"
    "\<not> DURABLE_MAX_U64 < window_deadline sample_window_policy 5" "allowed_lateness_ms sample_window_policy = 5"
    "unix_ms (the (window_watermark sample_accumulator)) = 15" "event_time_unix_ms (window_event 4 5) = Some 5"
    by code_simp+
  show ?thesis using window_verdicts [OF sample_window_policy_made sample_window_run, of _ "window_event 4 5"] by (simp add: a)
qed

text \<open>
  Before its final pane a window has at most one early pane, only in the accumulating mode and
  with revision 0; the final pane has revision 1 exactly when there was an early one.
\<close>

theorem window_revisions:
  assumes made: "mk_window_policy n l mode = Inr p"
    and run: "fold window_step calls (mk_window_accumulator p, [], []) = (a, accepted, panes)"
  shows "(distinct (map start_unix_ms (filter (\<lambda>P. \<not> is_final P) panes))) \<and>
    (\<forall>P\<in>set panes. if is_final P
      then pane_revision P = (if \<exists>Q\<in>set panes. \<not> is_final Q \<and> start_unix_ms Q = start_unix_ms P then 1 else 0)
      else pane_revision P = 0 \<and> accumulation_mode p = Accumulating \<and>
        set (pane_events P) \<subseteq> {e\<in>set accepted. event_window p e = start_unix_ms P})"
proof
  note inv = run_reachable [OF made run]
  show "distinct (map start_unix_ms (filter (\<lambda>P. \<not> is_final P) panes))"
    using inv(1) by (simp add: run_inv_def early_inv_def early_def)
  have early: "x \<in> set (early panes) \<longleftrightarrow> (\<exists>Q\<in>set panes. \<not> is_final Q \<and> start_unix_ms Q = x)" for x
    by (auto simp: early_def)
  show "\<forall>P\<in>set panes. if is_final P
      then pane_revision P = (if \<exists>Q\<in>set panes. \<not> is_final Q \<and> start_unix_ms Q = start_unix_ms P then 1 else 0)
      else pane_revision P = 0 \<and> accumulation_mode p = Accumulating \<and>
        set (pane_events P) \<subseteq> {e\<in>set accepted. event_window p e = start_unix_ms P}"
    using inv(1,2) unfolding early [symmetric] run_inv_def final_inv_def early_inv_def by simp
qed

theorem window_revisions_witness: "pane_revision (sample_window_panes ! 1) = 1"
proof -
  have "is_final (sample_window_panes ! 1)" "sample_window_panes ! 1 \<in> set sample_window_panes"
    "\<exists>Q\<in>set sample_window_panes. \<not> is_final Q \<and> start_unix_ms Q = start_unix_ms (sample_window_panes ! 1)"
    by (simp_all add: sample_window_panes_def)
  then show ?thesis using window_revisions [OF sample_window_policy_made sample_window_run] by auto
qed

end
