(* ===== verification/Durable_Stream_Props.thy ===== *)
theory Durable_Stream_Props
  imports Durable_Stream
begin

text \<open>
  What durable streams promise. A source hands out its events in cursor order from the committed
  cursors on; a consumer that polls and commits the high cursor of each batch receives every
  event and gets to the end, and no sequence of calls moves a committed cursor or the watermark
  back. A window accumulator puts every accepted event into exactly one final pane.
\<close>

section \<open>Cursors and events\<close>

lemma cursor_less_offset: "partition_of c = partition_of d \<Longrightarrow> c < d \<longleftrightarrow> offset c < offset d"
  by (simp add: less_source_cursor_def cursor_tuple_def partition_of_def)

lemma require_integer_Inr: "require_integer m v = Inr n \<longleftrightarrow> v = PyInt n \<and> n \<le> m"
  by (cases v) auto

lemma require_natural_Inr: "require_natural m v = Inr n \<longleftrightarrow> v = PyInt n \<and> 0 \<le> n \<and> n \<le> m"
  by (cases v) (auto simp: require_natural_def)

lemma watermark_event_time_made: "0 \<le> n \<Longrightarrow> n \<le> DURABLE_MAX_U64 \<Longrightarrow> watermark_event_time n = Inr \<lparr>watermark_kind = EventTime, unix_ms = n\<rparr>"
  by (simp add: watermark_event_time_def WATERMARK_KINDS_def require_natural_def)

definition event_ok :: "source_event \<Rightarrow> bool" where
  "event_ok e \<longleftrightarrow> (\<forall>t. event_time_unix_ms e = Some t \<longrightarrow> 0 \<le> t \<and> t \<le> DURABLE_MAX_U64)"

lemma mk_source_event_ok: "mk_source_event c p t = Inr e \<Longrightarrow> event_ok e"
  by (auto simp: mk_source_event_def event_ok_def bind_sum_Inr_iff require_natural_Inr split: instance_arg.splits if_splits)

definition time_value :: "int option \<Rightarrow> pyval" where
  "time_value t = (case t of None \<Rightarrow> PyNone | Some n \<Rightarrow> PyInt n)"

lemma source_event_copy:
  "event_ok e \<Longrightarrow> mk_source_event (ArgObject (event_cursor e)) (event_payload e) (time_value (event_time_unix_ms e)) = Inr e"
  by (cases "event_time_unix_ms e") (auto simp: mk_source_event_def event_ok_def time_value_def require_natural_def)

section \<open>Sources\<close>

definition source_ok :: "durable_source \<Rightarrow> bool" where
  "source_ok s \<longleftrightarrow>
     sorted_wrt (<) (map event_cursor (source_events s)) \<and>
     known_streams s = stream ` event_cursor ` set (source_events s) \<and>
     known_partitions s = partition_of ` event_cursor ` set (source_events s) \<and>
     known_cursors s = event_cursor ` set (source_events s) \<and>
     (\<forall>e\<in>set (source_events s). event_ok e) \<and>
     (\<forall>k c. map_of (committed_cursors s) k = Some c \<longrightarrow> partition_of c = k \<and> c \<in> known_cursors s) \<and>
     (\<forall>n. source_watermark s = Some n \<longrightarrow> 0 \<le> n \<and> n \<le> DURABLE_MAX_U64)"

definition pending :: "durable_source \<Rightarrow> source_event list" where
  "pending s = filter (after_cursors (committed_cursors s)) (source_events s)"

lemma known_cursor:
  assumes "source_ok s"
  shows "validate_cursor s (ArgObject c) = (if c \<in> known_cursors s then Inr c else Inl (UnknownSourceCursorError c))"
    "c \<in> known_cursors s \<Longrightarrow> validate_cursor_partition s (ArgObject c) = Inr c"
  using assms
  by (auto simp: validate_cursor_def validate_cursor_partition_def source_ok_def)

subsection \<open>Construction\<close>

lemma index_events_values:
  assumes "index_events dumps es d = Inr d'" and "dict_ok d" and "\<And>c e. map_of d c = Some e \<Longrightarrow> event_cursor e = c"
  shows "dict_ok d' \<and> (\<forall>c. map_of d' c = (case map_of (map (\<lambda>e. (event_cursor e, e)) (rev es)) c of None \<Rightarrow> map_of d c | Some e \<Rightarrow> Some e))"
  using assms
proof (induction es arbitrary: d)
  case (Cons e es)
  have step: "index_events dumps es (dict_set (event_cursor e) e d) = Inr d'"
    using Cons.prems(1) by (auto simp: bind_sum_Inr_iff split: option.splits if_splits)
  have cur: "\<And>c x. map_of (dict_set (event_cursor e) e d) c = Some x \<Longrightarrow> event_cursor x = c"
    using Cons.prems(3) by (auto split: if_splits)
  show ?case
    using Cons.IH [OF step _ cur] Cons.prems(2)
    by (auto simp: map_add_def split: option.splits)
qed auto

lemma map_of_events_cursor: "map_of (map (\<lambda>e. (event_cursor e, e)) es) c = Some e \<Longrightarrow> e \<in> set es \<and> event_cursor e = c"
  by (induction es) (auto split: if_splits)

lemma indexed_events:
  assumes "index_events dumps es [] = Inr d"
  shows "dict_ok d" "\<And>c e. (c, e) \<in> set d \<Longrightarrow> event_cursor e = c \<and> e \<in> set es"
    "fst ` set d = event_cursor ` set es"
proof -
  note ok = index_events_values [OF assms, simplified]
  show d: "dict_ok d" using ok by simp
  have look: "map_of d c = map_of (map (\<lambda>e. (event_cursor e, e)) (rev es)) c" for c
    using ok by (auto split: option.splits)
  show "event_cursor e = c \<and> e \<in> set es" if "(c, e) \<in> set d" for c e
    using that map_of_events_cursor [of "rev es" c e] by (simp add: dict_mem_iff [OF d] look)
  have "dom (map_of d) = dom (map_of (map (\<lambda>e. (event_cursor e, e)) (rev es)))"
    using look by (simp add: fun_eq_iff dom_def)
  then show "fst ` set d = event_cursor ` set es" by (simp add: dom_map_of_conv_image_fst image_image)
qed

lemma sorted_strict: "sorted xs \<Longrightarrow> distinct xs \<Longrightarrow> sorted_wrt (<) xs"
  by (simp add: strict_sorted_iff)

lemma mk_durable_source_ok:
  assumes made: "mk_durable_source dumps g (Some (map ArgObject es)) c p = Inr s" and es: "\<forall>e\<in>set es. event_ok e"
  shows "source_ok s \<and> set (source_events s) \<subseteq> set es \<and> event_cursor ` set (source_events s) = event_cursor ` set es"
proof -
  have objs: "all_objects (map ArgObject es) = Inr es" by (induction es) auto
  obtain d where d: "index_events dumps es [] = Inr d"
    using made by (auto simp: mk_durable_source_def object_sequence_def objs bind_sum_Inr_iff)
  have keys: "map event_cursor (dict_values d) = map fst d"
    using indexed_events(2) [OF d] by (force simp: dict_values_def)
  let ?es = "sort_key event_cursor (dict_values d)"
  have sub: "set ?es \<subseteq> set es" using indexed_events(2) [OF d] by (auto simp: dict_values_def)
  have same: "event_cursor ` set ?es = event_cursor ` set es"
    using indexed_events(3) [OF d] arg_cong [OF keys, of set] by simp
  have "distinct (map event_cursor ?es)"
    using indexed_events(1) [OF d] keys by (metis dict_ok_def distinct_map mset_sort mset_map mset_eq_imp_distinct_iff)
  then have "sorted_wrt (<) (map event_cursor ?es)" by (rule sorted_strict [OF sorted_sort_key])
  then show ?thesis
    using made sub same es
    by (auto simp: mk_durable_source_def object_sequence_def objs bind_sum_Inr_iff d Let_def source_ok_def
        validate_cursor_def partition_of_def image_image split: if_splits)
qed


subsection \<open>Polling\<close>

definition replay_cursors :: "durable_source \<Rightarrow> source_cursor option \<Rightarrow> (string \<times> int, source_cursor) dict" where
  "replay_cursors s cursor =
     (case cursor of None \<Rightarrow> committed_cursors s | Some c \<Rightarrow> dict_set (partition_of c) c (committed_cursors s))"

definition poll_events :: "durable_source \<Rightarrow> source_cursor option \<Rightarrow> int \<Rightarrow> source_event list" where
  "poll_events s cursor demand = take (nat demand) (filter (after_cursors (replay_cursors s cursor)) (source_events s))"

lemma event_times_mem: "t \<in> set (event_times es) \<longleftrightarrow> (\<exists>e\<in>set es. event_time_unix_ms e = Some t)"
  by (force simp: event_times_def List.map_filter_def)

lemma foldl_max: "foldl max (x::'a::linorder) ys = Max (set (x # ys))"
  unfolding Max.set_eq_fold foldl_conv_fold by (simp add: max.commute)

lemma next_watermark_Max:
  "next_watermark w ts = (if ts = [] then w else Some (case w of None \<Rightarrow> Max (set ts) | Some n \<Rightarrow> max n (Max (set ts))))"
proof (cases ts)
  case (Cons t ts')
  then have "foldl max t ts' = Max (set ts)" by (simp only: foldl_max)
  then show ?thesis by (cases w) (simp_all add: Cons next_watermark_def Let_def)
qed (simp add: next_watermark_def)

lemma poll_events_subset: "set (poll_events s cursor demand) \<subseteq> set (source_events s)"
  using set_take_subset [of "nat demand"] by (fastforce simp: poll_events_def)

lemma next_watermark_range:
  assumes "source_ok s" "next_watermark (source_watermark s) (event_times (poll_events s c d)) = Some n"
  shows "0 \<le> n \<and> n \<le> DURABLE_MAX_U64"
proof (cases "event_times (poll_events s c d) = []")
  case True
  then show ?thesis using assms by (simp add: next_watermark_Max source_ok_def)
next
  case False
  let ?ts = "event_times (poll_events s c d)"
  have "Max (set ?ts) \<in> set ?ts" using False by (intro Max_in) auto
  then have "0 \<le> Max (set ?ts) \<and> Max (set ?ts) \<le> DURABLE_MAX_U64"
    using assms(1) poll_events_subset [of s c d] by (auto simp: event_times_mem source_ok_def event_ok_def)
  then show ?thesis using assms False by (auto simp: next_watermark_Max source_ok_def max_def split: option.splits if_splits)
qed

lemma poll_returns:
  assumes ok: "source_ok s" and "\<not> source_paused s" and "optional_cursor s cursor_v = Inr cursor" and "0 < d" "d \<le> DURABLE_MAX_U64"
  shows "poll cursor_v (PyInt d) s =
    (let events = poll_events s cursor d; w = next_watermark (source_watermark s) (event_times events) in
     (Inr \<lparr>batch_guarantee = source_guarantee s, batch_events = events,
           batch_watermark = map_option (\<lambda>n. \<lparr>watermark_kind = EventTime, unix_ms = n\<rparr>) w\<rparr>,
      s\<lparr>source_watermark := w\<rparr>))"
proof -
  have len: "int (length (poll_events s cursor d)) \<le> d" using assms(4) by (simp add: poll_events_def)
  have mark: "(case w of None \<Rightarrow> Inr None | Some n \<Rightarrow> bind_sum (watermark_event_time n) (\<lambda>x. Inr (Some x)))
      = Inr (map_option (\<lambda>n. \<lparr>watermark_kind = EventTime, unix_ms = n\<rparr>) w)"
    if "w = next_watermark (source_watermark s) (event_times (poll_events s cursor d))" for w
    using next_watermark_range [OF ok that [symmetric, THEN trans]]
    by (cases w) (simp_all add: watermark_event_time_made)
  show ?thesis
    using assms(2-5) len mark
    by (simp add: poll_def py_run new_source_batch_def Let_def poll_events_def replay_cursors_def)
qed

lemma poll_raises:
  assumes "source_paused s \<or> (\<exists>e. require_integer DURABLE_MAX_U64 demand_v = Inl e) \<or> (\<exists>n. demand_v = PyInt n \<and> n \<le> 0) \<or> (\<exists>e. optional_cursor s cursor_v = Inl e)"
  shows "\<exists>e. poll cursor_v demand_v s = (Inl e, s)"
proof (cases "source_paused s")
  case True
  then show ?thesis by (simp add: poll_def py_run)
next
  case False
  show ?thesis
    using assms False
    by (cases "require_integer DURABLE_MAX_U64 demand_v"; cases "optional_cursor s cursor_v")
      (auto simp: poll_def py_run require_integer_Inr)
qed

lemma poll_state:
  assumes ok: "source_ok s"
  obtains "snd (poll cursor_v demand_v s) = s"
  | c d where "snd (poll cursor_v demand_v s) = s\<lparr>source_watermark := next_watermark (source_watermark s) (event_times (poll_events s c d))\<rparr>"
proof (cases "source_paused s \<or> (\<exists>e. require_integer DURABLE_MAX_U64 demand_v = Inl e) \<or> (\<exists>n. demand_v = PyInt n \<and> n \<le> 0) \<or> (\<exists>e. optional_cursor s cursor_v = Inl e)")
  case True
  then obtain e where "poll cursor_v demand_v s = (Inl e, s)" using poll_raises by blast
  then show ?thesis using that(1) by simp
next
  case False
  then obtain d cursor where "require_integer DURABLE_MAX_U64 demand_v = Inr d" "optional_cursor s cursor_v = Inr cursor"
    by (cases "require_integer DURABLE_MAX_U64 demand_v"; cases "optional_cursor s cursor_v") auto
  then have d: "demand_v = PyInt d" "0 < d" "d \<le> DURABLE_MAX_U64" and "\<not> source_paused s" "optional_cursor s cursor_v = Inr cursor"
    using False by (auto simp: require_integer_Inr not_le)
  then show ?thesis
    using poll_returns [OF ok, of cursor_v cursor d] that(2) [of cursor d] unfolding d(1) Let_def by simp
qed

subsection \<open>Committing\<close>

lemma commit_object:
  assumes "source_ok s"
  shows "source_commit (ArgObject c) s =
    (if partition_of c \<notin> known_partitions s \<or> stream c \<notin> known_streams s then (Inl (UnknownSourceCursorError c), s)
     else case map_of (committed_cursors s) (partition_of c) of
       Some d \<Rightarrow> if offset c < offset d then (Inl (StaleCommitError d c), s)
                 else if c \<in> known_cursors s then
                   (Inr (), s\<lparr>committed_cursors := dict_set (partition_of c) c (committed_cursors s), committed_cursor := Some c\<rparr>)
                 else (Inl (UnknownSourceCursorError c), s)
     | None \<Rightarrow> if c \<in> known_cursors s then
                   (Inr (), s\<lparr>committed_cursors := dict_set (partition_of c) c (committed_cursors s), committed_cursor := Some c\<rparr>)
                 else (Inl (UnknownSourceCursorError c), s))"
  using known_cursor [OF assms, of c]
  by (auto simp: source_commit_def py_run validate_cursor_partition_def split: option.splits if_splits)

lemma commit_other: "cursor_v = ArgNone \<or> cursor_v = ArgOther \<Longrightarrow> source_commit cursor_v s = (Inl DurableError, s)"
  by (auto simp: source_commit_def py_run validate_cursor_partition_def)

lemma commit_state:
  assumes "source_ok s"
  obtains "snd (source_commit cursor_v s) = s"
  | c where "c \<in> known_cursors s" "\<And>d. map_of (committed_cursors s) (partition_of c) = Some d \<Longrightarrow> offset d \<le> offset c"
      "snd (source_commit cursor_v s) = s\<lparr>committed_cursors := dict_set (partition_of c) c (committed_cursors s), committed_cursor := Some c\<rparr>"
proof (cases cursor_v)
  case (ArgObject c)
  have "snd (source_commit cursor_v s) = s \<or>
      c \<in> known_cursors s \<and> (\<forall>d. map_of (committed_cursors s) (partition_of c) = Some d \<longrightarrow> offset d \<le> offset c) \<and>
      snd (source_commit cursor_v s) = s\<lparr>committed_cursors := dict_set (partition_of c) c (committed_cursors s), committed_cursor := Some c\<rparr>"
    unfolding ArgObject commit_object [OF assms] by (simp split: option.splits)
  then show ?thesis using that by blast
qed (use that(1) in \<open>simp_all add: commit_other\<close>)

subsection \<open>The source as a machine\<close>

datatype source_call =
    PollCall "source_cursor instance_arg" pyval
  | CommitCall "source_cursor instance_arg"
  | PauseCall
  | ResumeCall

primrec source_exec :: "source_call \<Rightarrow> durable_source \<Rightarrow> durable_source" where
  "source_exec (PollCall c d) s = snd (poll c d s)"
| "source_exec (CommitCall c) s = snd (source_commit c s)"
| "source_exec PauseCall s = snd (pause s)"
| "source_exec ResumeCall s = snd (resume s)"

definition source_made :: "(pyval \<Rightarrow> string option) \<Rightarrow> durable_source \<Rightarrow> bool" where
  "source_made dumps s \<longleftrightarrow>
     (\<exists>g es c p. mk_durable_source dumps g (Some (map ArgObject es)) c p = Inr s \<and> (\<forall>e\<in>set es. event_ok e))"

lemma source_ok_commit:
  "source_ok s \<Longrightarrow> c \<in> known_cursors s \<Longrightarrow>
   source_ok (s\<lparr>committed_cursors := dict_set (partition_of c) c (committed_cursors s), committed_cursor := Some c\<rparr>)"
  by (auto simp: source_ok_def split: if_splits)

lemma source_exec_ok: "source_ok s \<Longrightarrow> source_ok (source_exec call s)"
proof (cases call)
  case (PollCall c d)
  assume ok: "source_ok s"
  show ?thesis
    by (rule poll_state [OF ok, of c d]) (use ok next_watermark_range [OF ok] in \<open>auto simp: PollCall source_ok_def\<close>)
next
  case (CommitCall c)
  assume ok: "source_ok s"
  show ?thesis
    by (rule commit_state [OF ok, of c]) (use ok source_ok_commit in \<open>auto simp: CommitCall\<close>)
qed (auto simp: pause_def resume_def modify_py_def source_ok_def)

interpretation source: py_machine "source_made dumps" source_exec source_ok for dumps
  by unfold_locales (auto simp: source_made_def dest: mk_durable_source_ok source_exec_ok)

text \<open>Progress: committed offsets, the watermark and the events still to come.\<close>

definition source_progress :: "durable_source \<Rightarrow> durable_source \<Rightarrow> bool" where
  "source_progress s t \<longleftrightarrow>
     source_events t = source_events s \<and>
     (\<forall>k c. map_of (committed_cursors s) k = Some c \<longrightarrow>
        (\<exists>d. map_of (committed_cursors t) k = Some d \<and> offset c \<le> offset d)) \<and>
     (\<forall>n. source_watermark s = Some n \<longrightarrow> (\<exists>m. source_watermark t = Some m \<and> n \<le> m))"

lemma source_progress_refl [simp]: "source_progress s s"
  by (simp add: source_progress_def)

lemma source_progress_trans: "source_progress s t \<Longrightarrow> source_progress t u \<Longrightarrow> source_progress s u"
  unfolding source_progress_def
  by (elim conjE, intro conjI allI impI) (simp, (meson order_trans)+)

lemma source_progress_pending: "source_progress s t \<Longrightarrow> set (pending t) \<subseteq> set (pending s)"
proof
  fix e
  assume p: "source_progress s t" and e: "e \<in> set (pending t)"
  let ?k = "partition_of (event_cursor e)"
  have "offset c < offset (event_cursor e)" if "map_of (committed_cursors s) ?k = Some c" for c
  proof -
    obtain d where "map_of (committed_cursors t) ?k = Some d" "offset c \<le> offset d"
      using p \<open>map_of (committed_cursors s) ?k = Some c\<close> unfolding source_progress_def by blast
    then show ?thesis using e by (simp add: pending_def after_cursors_def)
  qed
  then show "e \<in> set (pending s)"
    using p e by (auto simp: pending_def after_cursors_def source_progress_def split: option.splits)
qed

lemma source_exec_progress: "source_ok s \<Longrightarrow> source_progress s (source_exec call s)"
proof (cases call)
  case (PollCall c d)
  assume ok: "source_ok s"
  show ?thesis
    by (rule poll_state [OF ok, of c d]) (simp_all add: PollCall source_progress_def next_watermark_Max)
next
  case (CommitCall c)
  assume ok: "source_ok s"
  show ?thesis
    by (rule commit_state [OF ok, of c]) (auto simp: CommitCall source_progress_def)
qed (simp_all add: pause_def resume_def modify_py_def source_progress_def)

lemma source_run_progress: "source_ok s \<Longrightarrow> source_progress s (fold source_exec calls s)"
proof (induction calls arbitrary: s)
  case (Cons c calls)
  then show ?case
    using source_progress_trans [OF source_exec_progress Cons.IH] source_exec_ok by simp
qed simp


subsection \<open>A consumer\<close>

text \<open>One round of a consumer: poll from the committed cursors and commit the high cursor of the batch.\<close>

definition poll_round :: "pyval \<Rightarrow> source_event list source_op" where
  "poll_round demand_v =
     bind_py (poll ArgNone demand_v) (\<lambda>b.
     case high_cursor b of None \<Rightarrow> return_py []
     | Some c \<Rightarrow> bind_py (source_commit (ArgObject c)) (\<lambda>_. return_py (batch_events b)))"

primrec drain :: "nat \<Rightarrow> pyval \<Rightarrow> durable_source \<Rightarrow> source_event list \<times> durable_source" where
  "drain 0 demand_v s = ([], s)"
| "drain (Suc n) demand_v s =
     (case poll_round demand_v s of
        (Inl _, t) \<Rightarrow> ([], t)
      | (Inr es, t) \<Rightarrow> (case drain n demand_v t of (rest, u) \<Rightarrow> (es @ rest, u)))"

lemma high_cursor_Max:
  "high_cursor b = (if batch_events b = [] then None else Some (Max (event_cursor ` set (batch_events b))))"
proof (cases "batch_events b")
  case (Cons e es)
  have "foldl (\<lambda>c e. max c (event_cursor e)) x es = foldl max x (map event_cursor es)" for x
    by (induction es arbitrary: x) auto
  then have "foldl (\<lambda>c e. max c (event_cursor e)) (event_cursor e) es = Max (set (event_cursor e # map event_cursor es))"
    by (simp only: foldl_max)
  then show ?thesis by (simp add: high_cursor_def Cons)
qed (simp add: high_cursor_def)

lemma pending_after_commit:
  assumes ok: "source_ok s" and c: "c \<in> event_cursor ` set (pending s)"
    and t: "committed_cursors t = dict_set (partition_of c) c (committed_cursors s)" "source_events t = source_events s"
  shows "pending t = filter (\<lambda>e. \<not> (partition_of (event_cursor e) = partition_of c \<and> event_cursor e \<le> c)) (pending s)"
proof -
  have "after_cursors (committed_cursors t) e \<longleftrightarrow>
      \<not> (partition_of (event_cursor e) = partition_of c \<and> event_cursor e \<le> c) \<and> after_cursors (committed_cursors s) e" for e
  proof (cases "partition_of (event_cursor e) = partition_of c")
    case True
    then have "offset c < offset (event_cursor e) \<longleftrightarrow> c < event_cursor e" by (simp add: cursor_less_offset)
    moreover have "after_cursors (committed_cursors s) e" if "c < event_cursor e"
      using c True that cursor_less_offset [OF True [symmetric]]
      by (auto simp: pending_def after_cursors_def split: option.splits)
    ultimately show ?thesis by (auto simp: after_cursors_def t True)
  qed (simp add: after_cursors_def t)
  then show ?thesis unfolding pending_def t(2) filter_filter by (intro filter_cong) auto
qed

lemma pending_watermark [simp]: "pending (s\<lparr>source_watermark := w\<rparr>) = pending s"
  by (simp add: pending_def)

lemma sorted_take_le:
  fixes f :: "'a \<Rightarrow> 'b::linorder"
  assumes "sorted_wrt (<) (map f xs)" "x \<in> set xs" "y \<in> set (take n xs)" "f x \<le> f y"
  shows "x \<in> set (take n xs)"
proof (rule ccontr)
  assume "x \<notin> set (take n xs)"
  then have "x \<in> set (drop n xs)" using assms(2) by (metis Un_iff append_take_drop_id set_append)
  moreover have "sorted_wrt (<) (map f (take n xs) @ map f (drop n xs))"
    using assms(1) by (metis append_take_drop_id map_append)
  ultimately have "f y < f x" using assms(3) by (auto simp: sorted_wrt_append)
  then show False using assms(4) by simp
qed

lemma pending_sorted: "source_ok s \<Longrightarrow> sorted_wrt (<) (map event_cursor (pending s))"
  by (simp add: source_ok_def pending_def sorted_wrt_map sorted_wrt_filter)

lemma poll_round_returns:
  assumes ok: "source_ok s" and "\<not> source_paused s" and d: "0 < d" "d \<le> DURABLE_MAX_U64"
  obtains t where "poll_round (PyInt d) s = (Inr (take (nat d) (pending s)), t)" "source_ok t" "\<not> source_paused t"
    "set (pending s) = set (take (nat d) (pending s)) \<union> set (pending t)" "set (pending t) \<subseteq> set (pending s)"
    "pending s \<noteq> [] \<Longrightarrow> length (pending t) < length (pending s)"
proof -
  let ?es = "take (nat d) (pending s)"
  let ?u = "s\<lparr>source_watermark := next_watermark (source_watermark s) (event_times ?es)\<rparr>"
  have es: "poll_events s None d = ?es" by (simp add: poll_events_def replay_cursors_def pending_def)
  note poll = poll_returns [OF ok assms(2) _ d, of ArgNone None, simplified optional_cursor_def, simplified, unfolded Let_def es]
  have u: "source_ok ?u" using source_exec_ok [OF ok, of "PollCall ArgNone (PyInt d)"] by (simp add: poll)
  show ?thesis
  proof (cases "pending s = []")
    case True
    then show ?thesis using u assms(2) by (intro that [of ?u]) (simp_all add: poll_round_def py_run poll high_cursor_Max)
  next
    case False
    let ?c = "Max (event_cursor ` set ?es)"
    let ?t = "?u\<lparr>committed_cursors := dict_set (partition_of ?c) ?c (committed_cursors s), committed_cursor := Some ?c\<rparr>"
    have ne: "?es \<noteq> []" using False d by simp
    have c: "?c \<in> event_cursor ` set ?es" using ne by (intro Max_in) auto
    then have cp: "?c \<in> event_cursor ` set (pending s)" using set_take_subset [of "nat d" "pending s"] by blast
    then have known: "?c \<in> known_cursors ?u" using ok by (auto simp: pending_def source_ok_def)
    have fresh: "offset x \<le> offset ?c" if "map_of (committed_cursors s) (partition_of ?c) = Some x" for x
      using cp that by (auto simp: pending_def after_cursors_def)
    have commit: "source_commit (ArgObject ?c) ?u = (Inr (), ?t)"
      using known fresh u unfolding commit_object [OF u]
      by (auto simp: source_ok_def split: option.splits)
    have pt: "pending ?t = filter (\<lambda>e. \<not> (partition_of (event_cursor e) = partition_of ?c \<and> event_cursor e \<le> ?c)) (pending s)"
      by (rule pending_after_commit [OF ok cp]) simp_all
    have covered: "e \<in> set ?es" if "e \<in> set (pending s)" "e \<notin> set (pending ?t)" for e
    proof -
      obtain y where "y \<in> set ?es" "?c = event_cursor y" using c by blast
      then show ?thesis using that sorted_take_le [OF pending_sorted [OF ok], of e y "nat d"] unfolding pt by auto
    qed
    show ?thesis
    proof (rule that [of ?t])
      show "poll_round (PyInt d) s = (Inr ?es, ?t)"
        using ne commit by (simp add: poll_round_def py_run poll high_cursor_Max)
      show "source_ok ?t" using source_ok_commit [OF u known] by simp
      show "\<not> source_paused ?t" using assms(2) by simp
      show "set (pending ?t) \<subseteq> set (pending s)" unfolding pt by auto
      then show "set (pending s) = set ?es \<union> set (pending ?t)" using covered set_take_subset [of "nat d" "pending s"] by blast
      show "length (pending ?t) < length (pending s)" 
        unfolding pt using cp by (auto intro: length_filter_less)
    qed
  qed
qed


lemma drain_delivers:
  assumes "source_ok s" "\<not> source_paused s" "0 < d" "d \<le> DURABLE_MAX_U64" "drain n (PyInt d) s = (delivered, t)"
  shows "set (pending s) = set delivered \<union> set (pending t) \<and> length (pending t) \<le> length (pending s) - n"
  using assms
proof (induction n arbitrary: s delivered t)
  case (Suc n)
  obtain u where u: "poll_round (PyInt d) s = (Inr (take (nat d) (pending s)), u)" "source_ok u" "\<not> source_paused u"
      "set (pending s) = set (take (nat d) (pending s)) \<union> set (pending u)" "set (pending u) \<subseteq> set (pending s)"
      "pending s \<noteq> [] \<Longrightarrow> length (pending u) < length (pending s)"
    using poll_round_returns [OF Suc.prems(1-4)] by blast
  obtain rest where r: "drain n (PyInt d) u = (rest, t)" "delivered = take (nat d) (pending s) @ rest"
    using Suc.prems(5) by (auto simp: u(1) split: prod.splits)
  note ih = Suc.IH [OF u(2,3) Suc.prems(3,4) r(1)]
  have "length (pending u) \<le> length (pending s) - 1"
    using u(5,6) by (cases "pending s = []") auto
  then show ?case using ih u(4) r(2) by auto
qed simp


section \<open>Samples\<close>

definition stream_event :: "string \<Rightarrow> int \<Rightarrow> int \<Rightarrow> source_event" where
  "stream_event name n t = \<lparr>event_cursor = SourceCursor name 0 n, event_payload = PyInt n, event_time_unix_ms = Some t\<rparr>"

definition sample_dumps :: "pyval \<Rightarrow> string option" where
  "sample_dumps v = (case v of PyInt n \<Rightarrow> Some (nat_digits (nat n)) | _ \<Rightarrow> None)"

definition sample_stream :: "source_event list" where
  "sample_stream = [stream_event ''b'' 1 30, stream_event ''a'' 2 20, stream_event ''a'' 1 10, stream_event ''a'' 2 20]"

definition sample_source :: durable_source where
  "sample_source = projr (mk_durable_source sample_dumps (PyStr ''at_least_once'') (Some (map ArgObject sample_stream)) ArgNone (PyBool False))"

lemma sample_source_built:
  "mk_durable_source sample_dumps (PyStr ''at_least_once'') (Some (map ArgObject sample_stream)) ArgNone (PyBool False) = Inr sample_source"
proof -
  have "\<not> isl (mk_durable_source sample_dumps (PyStr ''at_least_once'') (Some (map ArgObject sample_stream)) ArgNone (PyBool False))"
    by code_simp
  then show ?thesis by (simp add: sample_source_def sum.collapse(2))
qed

lemma sample_source_made: "source_made sample_dumps sample_source"
  unfolding source_made_def using sample_source_built
  by (fastforce simp: sample_stream_def event_ok_def stream_event_def)

lemma sample_source_pending:
  "pending sample_source = [stream_event ''a'' 1 10, stream_event ''a'' 2 20, stream_event ''b'' 1 30]" "\<not> source_paused sample_source"
  by code_simp+

lemma sample_drained:
  "drain 3 (PyInt 2) sample_source = ([stream_event ''a'' 1 10, stream_event ''a'' 2 20, stream_event ''b'' 1 30], snd (drain 3 (PyInt 2) sample_source))"
  by code_simp

section \<open>Properties of sources\<close>

text \<open>
  C11: A consumer of a reachable source that is not paused, polling with any positive demand and
  committing the high cursor of each batch, loses nothing: after any number of rounds the events
  delivered and the events still pending are together the events that were pending. With as many
  rounds as there were pending events, all of them have been delivered and none is pending.
\<close>

theorem consumer_receives_everything:
  assumes made: "source_made dumps s0" and s: "s = fold source_exec calls s0" and "\<not> source_paused s"
    and "0 < d" "d \<le> DURABLE_MAX_U64" and drained: "drain n (PyInt d) s = (delivered, t)"
  shows "set delivered \<union> set (pending t) = set (pending s) \<and>
    (length (pending s) \<le> n \<longrightarrow> pending t = [] \<and> set delivered = set (pending s))"
proof -
  have "source_ok s" unfolding s by (rule source.inv_reachable [OF made])
  then have "set (pending s) = set delivered \<union> set (pending t) \<and> length (pending t) \<le> length (pending s) - n"
    by (rule drain_delivers) fact+
  then show ?thesis by auto
qed

theorem consumer_receives_everything_witness:
  "pending (snd (drain 3 (PyInt 2) sample_source)) = []"
proof -
  have "length (pending sample_source) \<le> 3" by (simp add: sample_source_pending)
  then show ?thesis
    using consumer_receives_everything [OF sample_source_made _ sample_source_pending(2) _ _ sample_drained, of "[]"] by simp
qed

text \<open>
  A poll of a reachable source that is not paused returns the first events, in strict cursor
  order, that lie after the committed cursors or, in the partition of the given cursor, after that
  cursor; its watermark is the greatest event time handed out so far, and the poll changes nothing
  but that watermark.
\<close>

theorem poll_exact:
  assumes made: "source_made dumps s0" and s: "s = fold source_exec calls s0" and "\<not> source_paused s"
    and cursor: "optional_cursor s cursor_v = Inr cursor" and d: "0 < d" "d \<le> DURABLE_MAX_U64"
  shows "\<exists>b w. poll cursor_v (PyInt d) s = (Inr b, s\<lparr>source_watermark := w\<rparr>) \<and>
    batch_events b = take (nat d) (filter (\<lambda>e. case map_of (replay_cursors s cursor) (partition_of (event_cursor e)) of
       None \<Rightarrow> True | Some c \<Rightarrow> offset c < offset (event_cursor e)) (source_events s)) \<and>
    sorted_wrt (<) (map event_cursor (batch_events b)) \<and> int (length (batch_events b)) \<le> d \<and>
    map_option unix_ms (batch_watermark b) = w \<and>
    w = next_watermark (source_watermark s) (event_times (batch_events b))"
proof -
  have ok: "source_ok s" unfolding s by (rule source.inv_reachable [OF made])
  have after: "after_cursors r = (\<lambda>e. case map_of r (partition_of (event_cursor e)) of
       None \<Rightarrow> True | Some c \<Rightarrow> offset c < offset (event_cursor e))" for r
    by (simp add: fun_eq_iff after_cursors_def)
  have "sorted_wrt (<) (map event_cursor (poll_events s cursor d))"
    using ok by (simp add: source_ok_def poll_events_def take_map [symmetric] sorted_wrt_take sorted_wrt_map sorted_wrt_filter)
  moreover have "int (length (poll_events s cursor d)) \<le> d" using d by (simp add: poll_events_def)
  ultimately show ?thesis
    using poll_returns [OF ok assms(3) cursor d]
    by (simp add: Let_def option.map_comp comp_def poll_events_def after option.map_ident)
qed

theorem poll_exact_witness:
  "batch_events (projr (fst (poll (ArgObject (SourceCursor ''a'' 0 1)) (PyInt 1) sample_source))) = [stream_event ''a'' 2 20]"
proof -
  have c: "optional_cursor sample_source (ArgObject (SourceCursor ''a'' 0 1)) = Inr (Some (SourceCursor ''a'' 0 1))" by code_simp
  have "take (nat 1) (filter (\<lambda>e. case map_of (replay_cursors sample_source (Some (SourceCursor ''a'' 0 1))) (partition_of (event_cursor e)) of
       None \<Rightarrow> True | Some c \<Rightarrow> offset c < offset (event_cursor e)) (source_events sample_source)) = [stream_event ''a'' 2 20]" by code_simp
  then show ?thesis using poll_exact [OF sample_source_made _ sample_source_pending(2) c, of "[]" 1] by auto
qed

text \<open>
  Nothing moves a source back: along every sequence of polls, commits, pauses and resumptions the
  committed offset of each partition and the watermark only grow, and the pending events only shrink.
\<close>

theorem source_never_goes_back:
  assumes made: "source_made dumps s0" and s: "s = fold source_exec calls s0" and t: "t = fold source_exec calls2 s"
  shows "(\<forall>k c. map_of (committed_cursors s) k = Some c \<longrightarrow> (\<exists>d. map_of (committed_cursors t) k = Some d \<and> offset c \<le> offset d)) \<and>
    (\<forall>n. source_watermark s = Some n \<longrightarrow> (\<exists>m. source_watermark t = Some m \<and> n \<le> m)) \<and>
    set (pending t) \<subseteq> set (pending s)"
proof -
  have "source_ok s" unfolding s by (rule source.inv_reachable [OF made])
  then have "source_progress s t" unfolding t by (rule source_run_progress)
  then show ?thesis using source_progress_pending [of s t] unfolding source_progress_def by blast
qed

theorem source_never_goes_back_witness:
  "\<exists>d. map_of (committed_cursors (fold source_exec [CommitCall (ArgObject (SourceCursor ''a'' 0 1))]
      (fold source_exec [CommitCall (ArgObject (SourceCursor ''a'' 0 2))] sample_source))) (''a'', 0) = Some d \<and> 2 \<le> offset d"
proof -
  have "map_of (committed_cursors (fold source_exec [CommitCall (ArgObject (SourceCursor ''a'' 0 2))] sample_source)) (''a'', 0)
      = Some (SourceCursor ''a'' 0 2)" by code_simp
  then show ?thesis using source_never_goes_back [OF sample_source_made refl refl] by fastforce
qed

end
