(* ===== verification/Durable_Sink.thy ===== *)
theory Durable_Sink
  imports Durable_Stream
begin

text \<open>
  The durable sink and the store of terminal tool results of \<^verbatim>\<open>durable.py\<close>: commit requests with
  idempotency keys, restoration from recorded commits, replay of an equal request, and the two
  tables of the terminal store, one for the results of tools and one for the responses stopped by
  policy. The argument \<open>tool_result\<close> of a record is the part of a \<^verbatim>\<open>ToolResult\<close> that is read.
\<close>

section \<open>Commit requests and results\<close>

datatype sink_error =
    SinkDurableError
  | SinkCommitError
  | MissingRunIdError
  | MissingNodeIdError
  | MissingNodeAttemptIdError
  | MissingIdempotencyKeyError
  | IdempotencyConflictError string

fun sink_string :: "sink_error \<Rightarrow> pyval \<Rightarrow> sink_error + string" where
  "sink_string e (PyStr s) = (if py_strip s = [] then Inl e else if s \<noteq> py_strip s then Inl e else Inr s)"
| "sink_string e _ = Inl e"

definition sink_digest :: "pyval \<Rightarrow> sink_error + string option" where
  "sink_digest v = (if v = PyNone then Inr None else bind_sum (sink_string SinkCommitError v) (\<lambda>s. Inr (Some s)))"

definition digest_value :: "string option \<Rightarrow> pyval" where
  "digest_value d = (case d of None \<Rightarrow> PyNone | Some s \<Rightarrow> PyStr s)"

record sink_commit_request =
  request_run_id :: string
  request_node_id :: string
  request_node_attempt_id :: string
  request_idempotency_key :: string
  request_payload :: pyval
  request_precondition :: "string option"

definition mk_sink_commit_request ::
  "pyval \<Rightarrow> pyval \<Rightarrow> pyval \<Rightarrow> pyval \<Rightarrow> pyval \<Rightarrow> pyval \<Rightarrow> sink_error + sink_commit_request" where
  "mk_sink_commit_request run_v node_v attempt_v key_v payload digest_v =
     bind_sum (sink_string MissingRunIdError run_v) (\<lambda>run.
     bind_sum (sink_string MissingNodeIdError node_v) (\<lambda>node.
     bind_sum (sink_string MissingNodeAttemptIdError attempt_v) (\<lambda>attempt.
     bind_sum (sink_string MissingIdempotencyKeyError key_v) (\<lambda>key.
     bind_sum (sink_digest digest_v) (\<lambda>digest.
     Inr \<lparr>request_run_id = run, request_node_id = node, request_node_attempt_id = attempt, request_idempotency_key = key,
          request_payload = payload, request_precondition = digest\<rparr>)))))"

definition with_precondition_digest :: "sink_commit_request \<Rightarrow> pyval \<Rightarrow> sink_error + sink_commit_request" where
  "with_precondition_digest r digest_v =
     mk_sink_commit_request (PyStr (request_run_id r)) (PyStr (request_node_id r)) (PyStr (request_node_attempt_id r))
       (PyStr (request_idempotency_key r)) (request_payload r) digest_v"

record sink_commit_result =
  result_sink_id :: string
  result_key :: string
  result_precondition :: "string option"
  result_sequence :: int
  result_metadata :: pyval
  result_replayed :: bool

definition sink_sequence :: "int \<Rightarrow> pyval \<Rightarrow> sink_error + int" where
  "sink_sequence maximum v =
     (case require_integer maximum v of
        Inl _ \<Rightarrow> Inl SinkDurableError
      | Inr n \<Rightarrow> if n \<le> 0 then Inl SinkCommitError else Inr n)"

definition mk_sink_commit_result ::
  "pyval \<Rightarrow> pyval \<Rightarrow> pyval \<Rightarrow> pyval \<Rightarrow> pyval \<Rightarrow> pyval \<Rightarrow> sink_error + sink_commit_result" where
  "mk_sink_commit_result sink_v key_v digest_v sequence_v metadata replayed_v =
     bind_sum (sink_string SinkCommitError sink_v) (\<lambda>sink.
     bind_sum (sink_string SinkCommitError key_v) (\<lambda>key.
     bind_sum (sink_digest digest_v) (\<lambda>digest.
     bind_sum (sink_sequence DURABLE_MAX_U64 sequence_v) (\<lambda>n.
     case replayed_v of
       PyBool b \<Rightarrow> Inr \<lparr>result_sink_id = sink, result_key = key, result_precondition = digest, result_sequence = n,
                        result_metadata = metadata, result_replayed = b\<rparr>
     | _ \<Rightarrow> Inl SinkCommitError))))"

section \<open>The sink\<close>

record durable_sink =
  sink_name :: string
  sink_next_sequence :: int
  sink_commits :: "(string, sink_commit_request \<times> sink_commit_result) dict"

text \<open>Equality of two requests, field by field; the payloads are compared by \<^const>\<open>py_eq\<close>.\<close>

definition same_request :: "sink_commit_request \<Rightarrow> sink_commit_request \<Rightarrow> bool" where
  "same_request q r \<longleftrightarrow>
     request_run_id q = request_run_id r \<and> request_node_id q = request_node_id r \<and>
     request_node_attempt_id q = request_node_attempt_id r \<and> request_idempotency_key q = request_idempotency_key r \<and>
     py_eq (request_payload q) (request_payload r) \<and> request_precondition q = request_precondition r"

text \<open>
  The items of a restored mapping, \<^const>\<open>None\<close> for a value that is no pair of a request and a
  result. The keys of a mapping are distinct.
\<close>

fun restore_commits ::
  "string \<Rightarrow> (pyval \<times> (sink_commit_request \<times> sink_commit_result) option) list \<Rightarrow> int list \<Rightarrow> int
     \<Rightarrow> (string, sink_commit_request \<times> sink_commit_result) dict
     \<Rightarrow> sink_error + int \<times> (string, sink_commit_request \<times> sink_commit_result) dict" where
  "restore_commits sink [] seen_sequences highest restored = Inr (highest, restored)"
| "restore_commits sink ((k, None) # items) seen_sequences highest restored = Inl SinkCommitError"
| "restore_commits sink ((k, Some (request, result)) # items) seen_sequences highest restored =
     (if k \<noteq> PyStr (request_idempotency_key request) \<or> k \<noteq> PyStr (result_key result) then Inl SinkCommitError
      else if result_sink_id result \<noteq> sink then Inl SinkCommitError
      else if result_precondition result \<noteq> request_precondition request then Inl SinkCommitError
      else if result_replayed result then Inl SinkCommitError
      else if result_sequence result \<in> set seen_sequences then Inl SinkCommitError
      else if \<not> py_eq (result_metadata result) (request_payload request) then Inl SinkCommitError
      else restore_commits sink items (result_sequence result # seen_sequences) (max highest (result_sequence result))
        (dict_set (request_idempotency_key request) (request, result) restored))"

definition mk_durable_sink ::
  "pyval \<Rightarrow> pyval \<Rightarrow> (pyval \<times> (sink_commit_request \<times> sink_commit_result) option) list option \<Rightarrow> sink_error + durable_sink" where
  "mk_durable_sink sink_v next_v commits_v =
     bind_sum (sink_string SinkCommitError sink_v) (\<lambda>sink.
     bind_sum (sink_sequence (DURABLE_MAX_U64 + 1) next_v) (\<lambda>n.
     case commits_v of
       None \<Rightarrow> Inl SinkCommitError
     | Some items \<Rightarrow>
         bind_sum (restore_commits sink items [] 0 []) (\<lambda>(highest, restored).
         Inr \<lparr>sink_name = sink, sink_next_sequence = max n (highest + 1), sink_commits = restored\<rparr>)))"

type_synonym 'a sink_op = "(durable_sink, sink_error, 'a) py"

definition highest_sequence :: "durable_sink \<Rightarrow> int" where
  "highest_sequence s = foldl max 0 (map (\<lambda>(request, result). result_sequence result) (dict_values (sink_commits s)))"

definition allocate_sink_sequence :: "int sink_op" where
  "allocate_sink_sequence =
     bind_py (gets_py sink_next_sequence) (\<lambda>next_sequence.
     bind_py (lift_py (sink_sequence (DURABLE_MAX_U64 + 1) (PyInt next_sequence))) (\<lambda>n.
     bind_py (gets_py highest_sequence) (\<lambda>highest.
     bind_py (raise_if (DURABLE_MAX_U64 < max n (highest + 1)) SinkCommitError) (\<lambda>_.
     return_py (max n (highest + 1))))))"

definition replayed_result :: "sink_commit_result \<Rightarrow> sink_error + sink_commit_result" where
  "replayed_result r =
     mk_sink_commit_result (PyStr (result_sink_id r)) (PyStr (result_key r)) (digest_value (result_precondition r))
       (PyInt (result_sequence r)) (result_metadata r) (PyBool True)"

definition sink_commit :: "sink_commit_request instance_arg \<Rightarrow> sink_commit_result sink_op" where
  "sink_commit request_v =
     (case request_v of
        ArgObject request \<Rightarrow>
          bind_py (gets_py (\<lambda>s. map_of (sink_commits s) (request_idempotency_key request))) (\<lambda>existing.
          case existing of
            Some (existing_request, existing_result) \<Rightarrow>
              bind_py (raise_if (\<not> same_request existing_request request) (IdempotencyConflictError (request_idempotency_key request))) (\<lambda>_.
              lift_py (replayed_result existing_result))
          | None \<Rightarrow>
              bind_py (gets_py sink_name) (\<lambda>sink.
              bind_py allocate_sink_sequence (\<lambda>n.
              bind_py (lift_py (mk_sink_commit_result (PyStr sink) (PyStr (request_idempotency_key request))
                  (digest_value (request_precondition request)) (PyInt n) (request_payload request) (PyBool False))) (\<lambda>result.
              bind_py (modify_py (\<lambda>s. s\<lparr>sink_commits := dict_set (request_idempotency_key request) (request, result) (sink_commits s)\<rparr>)) (\<lambda>_.
              bind_py (modify_py (\<lambda>s. s\<lparr>sink_next_sequence := result_sequence result + 1\<rparr>)) (\<lambda>_.
              return_py result))))))
      | _ \<Rightarrow> raise_py SinkCommitError)"

definition committed_count :: "durable_sink \<Rightarrow> int" where
  "committed_count s = int (length (sink_commits s))"

section \<open>Terminal records\<close>

datatype terminal_error =
    ToolTerminalStoreError
  | ToolTerminalStateConflictError string string int
  | ResponsePolicyStopConflictError string
  | DurableResultAlreadyCommittedError string
  | ResponsePolicyStoppedError string

datatype terminal_state = Completed | Failed | Denied | Cancelled | PolicyStopped | Incomplete | Expired

definition VALID_DURABLE_TOOL_TERMINAL_STATES :: "(string \<times> terminal_state) list" where
  "VALID_DURABLE_TOOL_TERMINAL_STATES =
     [(''completed'', Completed), (''failed'', Failed), (''denied'', Denied), (''cancelled'', Cancelled),
      (''policy_stopped'', PolicyStopped), (''incomplete'', Incomplete), (''expired'', Expired)]"

fun terminal_string :: "pyval \<Rightarrow> terminal_error + string" where
  "terminal_string (PyStr s) =
     (if py_strip s = [] then Inl ToolTerminalStoreError else if s \<noteq> py_strip s then Inl ToolTerminalStoreError else Inr s)"
| "terminal_string _ = Inl ToolTerminalStoreError"

definition terminal_string_option :: "pyval \<Rightarrow> terminal_error + string option" where
  "terminal_string_option v = (if v = PyNone then Inr None else bind_sum (terminal_string v) (\<lambda>s. Inr (Some s)))"

fun terminal_integer :: "int \<Rightarrow> pyval \<Rightarrow> terminal_error + int" where
  "terminal_integer maximum (PyInt n) = (if maximum < n then Inl ToolTerminalStoreError else Inr n)"
| "terminal_integer maximum _ = Inl ToolTerminalStoreError"

definition terminal_positive :: "int \<Rightarrow> pyval \<Rightarrow> terminal_error + int" where
  "terminal_positive maximum v =
     bind_sum (terminal_integer maximum v) (\<lambda>n. if n \<le> 0 then Inl ToolTerminalStoreError else Inr n)"

fun terminal_bool :: "pyval \<Rightarrow> terminal_error + bool" where
  "terminal_bool (PyBool b) = Inr b"
| "terminal_bool _ = Inl ToolTerminalStoreError"

fun terminal_choice :: "(string \<times> 'a) list \<Rightarrow> pyval \<Rightarrow> terminal_error + 'a" where
  "terminal_choice valid (PyStr s) = (case map_of valid s of None \<Rightarrow> Inl ToolTerminalStoreError | Some x \<Rightarrow> Inr x)"
| "terminal_choice valid _ = Inl ToolTerminalStoreError"

record terminal_record =
  terminal_run_id :: string
  terminal_response_id :: string
  terminal_tool_call_id :: string
  terminal_revision :: int
  terminal_state :: terminal_state
  arguments_digest :: string
  completed_at_unix_ms :: int
  output_digest :: "string option"
  terminal_key :: "string option"
  effect_committed :: bool
  durable_result_committed :: bool

definition mk_terminal_record ::
  "pyval \<Rightarrow> pyval \<Rightarrow> pyval \<Rightarrow> pyval \<Rightarrow> pyval \<Rightarrow> pyval \<Rightarrow> pyval \<Rightarrow> pyval \<Rightarrow> pyval \<Rightarrow> pyval \<Rightarrow> pyval
     \<Rightarrow> terminal_error + terminal_record" where
  "mk_terminal_record run_v response_v call_v revision_v state_v arguments_v completed_v output_v key_v effect_v durable_v =
     bind_sum (terminal_string run_v) (\<lambda>run.
     bind_sum (terminal_string response_v) (\<lambda>response.
     bind_sum (terminal_string call_v) (\<lambda>call.
     bind_sum (terminal_positive DURABLE_MAX_U32 revision_v) (\<lambda>revision.
     bind_sum (terminal_choice VALID_DURABLE_TOOL_TERMINAL_STATES state_v) (\<lambda>state.
     bind_sum (terminal_string arguments_v) (\<lambda>arguments.
     bind_sum (terminal_positive DURABLE_MAX_U64 completed_v) (\<lambda>completed.
     bind_sum (terminal_string_option output_v) (\<lambda>output.
     bind_sum (terminal_string_option key_v) (\<lambda>key.
     bind_sum (terminal_bool effect_v) (\<lambda>effect.
     bind_sum (terminal_bool durable_v) (\<lambda>durable.
     if state = Denied \<and> effect then Inl ToolTerminalStoreError
     else if state = Expired \<and> effect then Inl ToolTerminalStoreError
     else Inr \<lparr>terminal_run_id = run, terminal_response_id = response, terminal_tool_call_id = call,
               terminal_revision = revision, terminal_state = state, arguments_digest = arguments,
               completed_at_unix_ms = completed, output_digest = output, terminal_key = key,
               effect_committed = effect, durable_result_committed = durable\<rparr>)))))))))))"

record tool_result =
  tool_call_id :: string
  tool_status :: string
  tool_output_digest :: pyval
  effect_outcome :: string

definition effect_was_committed :: "tool_result \<Rightarrow> bool" where
  "effect_was_committed r \<longleftrightarrow> effect_outcome r = ''committed''"

definition from_tool_result ::
  "tool_result \<Rightarrow> pyval \<Rightarrow> pyval \<Rightarrow> pyval \<Rightarrow> pyval \<Rightarrow> pyval \<Rightarrow> pyval \<Rightarrow> pyval \<Rightarrow> terminal_error + terminal_record" where
  "from_tool_result r run_v response_v revision_v arguments_v completed_v key_v durable_v =
     (if map_of VALID_DURABLE_TOOL_TERMINAL_STATES (tool_status r) = None then Inl ToolTerminalStoreError
      else mk_terminal_record run_v response_v (PyStr (tool_call_id r)) revision_v (PyStr (tool_status r)) arguments_v
        completed_v (tool_output_digest r) key_v (PyBool (effect_was_committed r)) durable_v)"

record 'r terminal_commit =
  commit_sequence :: int
  commit_record :: 'r
  commit_replayed :: bool

text \<open>The constructors of the two commit classes, whose records have different classes.\<close>

definition mk_terminal_commit :: "pyval \<Rightarrow> 'r instance_arg \<Rightarrow> pyval \<Rightarrow> terminal_error + 'r terminal_commit" where
  "mk_terminal_commit sequence_v record_v replayed_v =
     bind_sum (terminal_positive DURABLE_MAX_U64 sequence_v) (\<lambda>n.
     case record_v of
       ArgObject r \<Rightarrow> bind_sum (terminal_bool replayed_v) (\<lambda>b.
         Inr \<lparr>commit_sequence = n, commit_record = r, commit_replayed = b\<rparr>)
     | _ \<Rightarrow> Inl ToolTerminalStoreError)"

subsection \<open>Responses stopped by policy\<close>

datatype cutoff_reason = PolicyDenied | BudgetExhausted | CutoffCancelled | ClientDisconnected

definition VALID_TERMINAL_REASONS :: "(string \<times> cutoff_reason) list" where
  "VALID_TERMINAL_REASONS =
     [(''policy_denied'', PolicyDenied), (''budget_exhausted'', BudgetExhausted), (''cancelled'', CutoffCancelled),
      (''client_disconnected'', ClientDisconnected)]"

datatype draft_disposition = KeepDraft | MarkIncomplete | Retract

definition VALID_DRAFT_DISPOSITIONS :: "(string \<times> draft_disposition) list" where
  "VALID_DRAFT_DISPOSITIONS = [(''keep'', KeepDraft), (''mark_incomplete'', MarkIncomplete), (''retract'', Retract)]"

datatype output_durable_result = NoResult | IncompleteResult | PartialResult

definition VALID_OUTPUT_DURABLE_RESULTS :: "(string \<times> output_durable_result) list" where
  "VALID_OUTPUT_DURABLE_RESULTS = [(''none'', NoResult), (''incomplete'', IncompleteResult), (''partial'', PartialResult)]"

record policy_stop_record =
  stop_response_id :: string
  policy_decision_id :: string
  last_policy_accepted_sequence :: int
  occurred_at_unix_ms :: int
  stop_stream_id :: string
  last_generated_sequence :: int
  last_client_delivered_sequence :: int
  terminal_reason :: cutoff_reason
  draft_disposition :: draft_disposition
  stop_durable_result :: output_durable_result
  stop_turn_id :: "string option"

definition mk_policy_stop_record ::
  "pyval \<Rightarrow> pyval \<Rightarrow> pyval \<Rightarrow> pyval \<Rightarrow> pyval \<Rightarrow> pyval \<Rightarrow> pyval \<Rightarrow> pyval \<Rightarrow> pyval \<Rightarrow> pyval \<Rightarrow> pyval
     \<Rightarrow> terminal_error + policy_stop_record" where
  "mk_policy_stop_record response_v decision_v accepted_v occurred_v stream_v generated_v delivered_v reason_v draft_v durable_v turn_v =
     bind_sum (terminal_string response_v) (\<lambda>response.
     bind_sum (terminal_string decision_v) (\<lambda>decision.
     bind_sum (terminal_string (if stream_v = PyNone then PyStr response else stream_v)) (\<lambda>stream_id.
     bind_sum (terminal_string_option turn_v) (\<lambda>turn.
     bind_sum (terminal_integer DURABLE_MAX_U64 generated_v) (\<lambda>generated.
     bind_sum (terminal_integer DURABLE_MAX_U64 accepted_v) (\<lambda>accepted.
     bind_sum (terminal_integer DURABLE_MAX_U64 delivered_v) (\<lambda>delivered.
     bind_sum (terminal_integer DURABLE_MAX_U64 occurred_v) (\<lambda>occurred.
     bind_sum (if generated < 0 \<or> accepted < 0 \<or> delivered < 0 \<or> generated < accepted \<or> generated < delivered
               then Inl ToolTerminalStoreError else Inr ()) (\<lambda>_.
     bind_sum (terminal_choice VALID_TERMINAL_REASONS reason_v) (\<lambda>reason.
     bind_sum (terminal_choice VALID_DRAFT_DISPOSITIONS draft_v) (\<lambda>draft.
     bind_sum (terminal_choice VALID_OUTPUT_DURABLE_RESULTS durable_v) (\<lambda>durable.
     if occurred \<le> 0 then Inl ToolTerminalStoreError
     else Inr \<lparr>stop_response_id = response, policy_decision_id = decision, last_policy_accepted_sequence = accepted,
               occurred_at_unix_ms = occurred, stop_stream_id = stream_id, last_generated_sequence = generated,
               last_client_delivered_sequence = delivered, terminal_reason = reason, draft_disposition = draft,
               stop_durable_result = durable, stop_turn_id = turn\<rparr>))))))))))))"

section \<open>The terminal store\<close>

type_synonym terminal_id = "string \<times> string \<times> int"

record terminal_store =
  store_next_sequence :: int
  terminal_records :: "(terminal_id, terminal_record terminal_commit) dict"
  policy_stopped_responses :: "(string, policy_stop_record terminal_commit) dict"

definition record_id :: "terminal_record \<Rightarrow> terminal_id" where
  "record_id r = (terminal_response_id r, terminal_tool_call_id r, terminal_revision r)"

definition record_id_value :: "terminal_record \<Rightarrow> pyval" where
  "record_id_value r = PyTuple [PyStr (terminal_response_id r), PyStr (terminal_tool_call_id r), PyInt (terminal_revision r)]"

text \<open>
  One loop over the items of a restored table: the key matches the record, the commit is no replay
  projection and its sequence is new and positive. \<open>key_value\<close> and \<open>key\<close> give the key of a record.
\<close>

fun restore_terminal ::
  "('r \<Rightarrow> pyval) \<Rightarrow> ('r \<Rightarrow> 'k) \<Rightarrow> (pyval \<times> 'r terminal_commit option) list \<Rightarrow> int list \<Rightarrow> int \<Rightarrow> ('k, 'r terminal_commit) dict
     \<Rightarrow> terminal_error + int list \<times> int \<times> ('k, 'r terminal_commit) dict" where
  "restore_terminal key_value key [] seen_sequences highest restored = Inr (seen_sequences, highest, restored)"
| "restore_terminal key_value key ((k, None) # items) seen_sequences highest restored = Inl ToolTerminalStoreError"
| "restore_terminal key_value key ((k, Some c) # items) seen_sequences highest restored =
     (if \<not> py_eq k (key_value (commit_record c)) then Inl ToolTerminalStoreError
      else if commit_replayed c then Inl ToolTerminalStoreError
      else bind_sum (terminal_integer DURABLE_MAX_U64 (PyInt (commit_sequence c))) (\<lambda>n.
        if n \<le> 0 \<or> n \<in> set seen_sequences then Inl ToolTerminalStoreError
        else restore_terminal key_value key items (n # seen_sequences) (max highest n) (dict_set (key (commit_record c)) c restored)))"

definition mk_terminal_store ::
  "pyval \<Rightarrow> (pyval \<times> terminal_record terminal_commit option) list option
     \<Rightarrow> (pyval \<times> policy_stop_record terminal_commit option) list option \<Rightarrow> terminal_error + terminal_store" where
  "mk_terminal_store next_v records_v stopped_v =
     (case (records_v, stopped_v) of
        (Some records, Some stopped) \<Rightarrow>
          bind_sum (restore_terminal record_id_value record_id records [] 0 []) (\<lambda>(seen_sequences, highest, restored_records).
          bind_sum (restore_terminal (\<lambda>r. PyStr (stop_response_id r)) stop_response_id stopped seen_sequences highest [])
            (\<lambda>(seen_sequences', highest', restored_stopped).
          if list_ex (\<lambda>c. durable_result_committed (commit_record c) \<and>
               map_of restored_stopped (terminal_response_id (commit_record c)) \<noteq> None) (dict_values restored_records)
          then Inl ToolTerminalStoreError
          else bind_sum (terminal_positive (DURABLE_MAX_U64 + 1) next_v) (\<lambda>n.
            Inr \<lparr>store_next_sequence = max n (highest' + 1), terminal_records = restored_records,
                 policy_stopped_responses = restored_stopped\<rparr>)))
      | _ \<Rightarrow> Inl ToolTerminalStoreError)"

type_synonym 'a terminal_op = "(terminal_store, terminal_error, 'a) py"

definition store_sequences :: "terminal_store \<Rightarrow> int list" where
  "store_sequences s =
     map commit_sequence (dict_values (terminal_records s)) @ map commit_sequence (dict_values (policy_stopped_responses s))"

definition allocate_terminal_sequence :: "int terminal_op" where
  "allocate_terminal_sequence =
     bind_py (modify_py (\<lambda>s. s\<lparr>store_next_sequence := max (store_next_sequence s) (foldl max 0 (store_sequences s) + 1)\<rparr>)) (\<lambda>_.
     bind_py (gets_py store_next_sequence) (\<lambda>n.
     bind_py (raise_if (DURABLE_MAX_U64 < n) ToolTerminalStoreError) (\<lambda>_.
     bind_py (modify_py (\<lambda>s. s\<lparr>store_next_sequence := n + 1\<rparr>)) (\<lambda>_.
     return_py n))))"

definition record_tool_terminal :: "terminal_record instance_arg \<Rightarrow> terminal_record terminal_commit terminal_op" where
  "record_tool_terminal record_v =
     (case record_v of
        ArgObject r \<Rightarrow>
          bind_py (gets_py (\<lambda>s. map_of (terminal_records s) (record_id r))) (\<lambda>existing.
          case existing of
            Some c \<Rightarrow>
              bind_py (raise_if (commit_record c \<noteq> r)
                (ToolTerminalStateConflictError (terminal_response_id r) (terminal_tool_call_id r) (terminal_revision r))) (\<lambda>_.
              lift_py (mk_terminal_commit (PyInt (commit_sequence c)) (ArgObject (commit_record c)) (PyBool True)))
          | None \<Rightarrow>
              bind_py (gets_py (\<lambda>s. durable_result_committed r \<and> map_of (policy_stopped_responses s) (terminal_response_id r) \<noteq> None)) (\<lambda>stopped.
              bind_py (raise_if stopped (ResponsePolicyStoppedError (terminal_response_id r))) (\<lambda>_.
              bind_py allocate_terminal_sequence (\<lambda>n.
              bind_py (lift_py (mk_terminal_commit (PyInt n) (ArgObject r) (PyBool False))) (\<lambda>c.
              bind_py (modify_py (\<lambda>s. s\<lparr>terminal_records := dict_set (record_id r) c (terminal_records s)\<rparr>)) (\<lambda>_.
              return_py c))))))
      | _ \<Rightarrow> raise_py ToolTerminalStoreError)"

definition tool_terminal_count :: "terminal_store \<Rightarrow> int" where
  "tool_terminal_count s = int (length (terminal_records s))"

definition record_response_policy_stopped ::
  "pyval \<Rightarrow> pyval \<Rightarrow> pyval \<Rightarrow> pyval \<Rightarrow> pyval \<Rightarrow> pyval \<Rightarrow> pyval \<Rightarrow> pyval \<Rightarrow> pyval \<Rightarrow> pyval \<Rightarrow> pyval
     \<Rightarrow> policy_stop_record terminal_commit terminal_op" where
  "record_response_policy_stopped response_v decision_v stream_v turn_v generated_v accepted_v delivered_v reason_v draft_v durable_v occurred_v =
     bind_py (lift_py (mk_policy_stop_record response_v decision_v accepted_v occurred_v stream_v
       (if generated_v = PyNone then accepted_v else generated_v)
       (if delivered_v = PyNone then accepted_v else delivered_v) reason_v draft_v durable_v turn_v)) (\<lambda>r.
     bind_py (gets_py (\<lambda>s. map_of (policy_stopped_responses s) (stop_response_id r))) (\<lambda>existing.
     case existing of
       Some c \<Rightarrow>
         bind_py (raise_if (commit_record c \<noteq> r) (ResponsePolicyStopConflictError (stop_response_id r))) (\<lambda>_.
         lift_py (mk_terminal_commit (PyInt (commit_sequence c)) (ArgObject (commit_record c)) (PyBool True)))
     | None \<Rightarrow>
         bind_py (gets_py (\<lambda>s. list_ex (\<lambda>c. terminal_response_id (commit_record c) = stop_response_id r \<and>
             durable_result_committed (commit_record c)) (dict_values (terminal_records s)))) (\<lambda>committed.
         bind_py (raise_if committed (DurableResultAlreadyCommittedError (stop_response_id r))) (\<lambda>_.
         bind_py allocate_terminal_sequence (\<lambda>n.
         bind_py (lift_py (mk_terminal_commit (PyInt n) (ArgObject r) (PyBool False))) (\<lambda>c.
         bind_py (modify_py (\<lambda>s. s\<lparr>policy_stopped_responses := dict_set (stop_response_id r) c (policy_stopped_responses s)\<rparr>)) (\<lambda>_.
         return_py c)))))))"

end
