(* ===== verification/Durable_Sink_Props.thy ===== *)
theory Durable_Sink_Props
  imports Durable_Sink
begin

text \<open>
  What the durable sink and the terminal store promise. Both hand out sequence numbers that are
  never reused, which is the contract of a fenced machine; both keep what they recorded for good
  and answer an equal request with the recorded result. The terminal store never holds a durable
  result and a policy stop of the same response.
\<close>

section \<open>Tables with sequence numbers\<close>

text \<open>A table whose entries carry distinct sequence numbers, none above a bound.\<close>

definition sequenced :: "('v \<Rightarrow> int) \<Rightarrow> int \<Rightarrow> ('k, 'v) dict \<Rightarrow> bool" where
  "sequenced seq highest d \<longleftrightarrow>
     dict_ok d \<and> (\<forall>k v. map_of d k = Some v \<longrightarrow> seq v \<le> highest) \<and>
     (\<forall>j k v w. map_of d j = Some v \<longrightarrow> map_of d k = Some w \<longrightarrow> seq v = seq w \<longrightarrow> j = k)"

lemma sequenced_Nil [simp]: "sequenced seq h []"
  by (simp add: sequenced_def)

lemma sequenced_mono: "sequenced seq h d \<Longrightarrow> h \<le> h' \<Longrightarrow> sequenced seq h' d"
  by (fastforce simp: sequenced_def)

lemma sequenced_set:
  assumes "sequenced seq h d" "seq v \<le> h" "\<And>j w. map_of d j = Some w \<Longrightarrow> seq w \<noteq> seq v"
  shows "sequenced seq h (dict_set k v d)"
  using assms by (fastforce simp: sequenced_def split: if_splits)

lemma sequenced_values: "sequenced seq h d \<Longrightarrow> v \<in> set (dict_values d) \<Longrightarrow> seq v \<le> h"
  by (auto simp: sequenced_def dict_values_mem)

definition table_sequences :: "('v \<Rightarrow> int) \<Rightarrow> ('k, 'v) dict \<Rightarrow> int set" where
  "table_sequences seq d = seq ` ran (map_of d)"

lemma table_sequences_Nil [simp]: "table_sequences seq [] = {}"
  by (simp add: table_sequences_def)

lemma table_sequencesI: "map_of d k = Some v \<Longrightarrow> seq v \<in> table_sequences seq d"
  by (auto simp: table_sequences_def ran_def)

lemma table_sequences_set_new:
  "map_of d k = None \<Longrightarrow> table_sequences seq (dict_set k v d) = insert (seq v) (table_sequences seq d)"
  by (simp add: table_sequences_def update_conv' ran_map_upd)

lemma table_sequences_set: "table_sequences seq (dict_set k v d) \<subseteq> insert (seq v) (table_sequences seq d)"
  by (auto simp: table_sequences_def ran_def split: if_splits)

lemma table_sequences_le: "sequenced seq h d \<Longrightarrow> n \<in> table_sequences seq d \<Longrightarrow> n \<le> h"
  by (auto simp: sequenced_def table_sequences_def ran_def)

section \<open>The sink\<close>

lemma foldl_max_le: "foldl max (x::'a::linorder) ys \<le> b \<longleftrightarrow> x \<le> b \<and> (\<forall>y\<in>set ys. y \<le> b)"
  by (induction ys arbitrary: x) auto

lemma foldl_max_ge: "y \<in> set ys \<Longrightarrow> (y::'a::linorder) \<le> foldl max x ys"
  using foldl_max_le [of x ys "foldl max x ys"] by simp

definition trimmed :: "string \<Rightarrow> bool" where
  "trimmed s \<longleftrightarrow> py_strip s = s \<and> s \<noteq> []"

lemma sink_string_Inr: "sink_string e v = Inr s \<longleftrightarrow> v = PyStr s \<and> trimmed s"
  by (cases v) (auto simp: trimmed_def)

lemma sink_digest_value: "sink_digest v = Inr d \<Longrightarrow> sink_digest (digest_value d) = Inr d"
  by (auto simp: sink_digest_def digest_value_def bind_sum_Inr_iff sink_string_Inr trimmed_def split: if_splits)

definition request_ok :: "sink_commit_request \<Rightarrow> bool" where
  "request_ok q \<longleftrightarrow> trimmed (request_idempotency_key q) \<and> sink_digest (digest_value (request_precondition q)) = Inr (request_precondition q)"

lemma mk_sink_commit_request_ok: "mk_sink_commit_request run node attempt key p d = Inr q \<Longrightarrow> request_ok q"
  by (auto simp: mk_sink_commit_request_def bind_sum_Inr_iff sink_string_Inr request_ok_def intro: sink_digest_value)

definition result_ok :: "sink_commit_result \<Rightarrow> bool" where
  "result_ok r \<longleftrightarrow> trimmed (result_sink_id r) \<and> trimmed (result_key r) \<and>
     sink_digest (digest_value (result_precondition r)) = Inr (result_precondition r) \<and>
     0 < result_sequence r \<and> result_sequence r \<le> DURABLE_MAX_U64"

lemma sink_sequence_Inr: "sink_sequence m v = Inr n \<longleftrightarrow> v = PyInt n \<and> 0 < n \<and> n \<le> m"
  by (cases v) (auto simp: sink_sequence_def)

lemma mk_sink_commit_result_ok: "mk_sink_commit_result sink key d n m b = Inr r \<Longrightarrow> result_ok r"
  by (cases b) (auto simp: mk_sink_commit_result_def bind_sum_Inr_iff sink_string_Inr sink_sequence_Inr result_ok_def
      intro: sink_digest_value)

lemma result_rebuilt:
  "result_ok r \<Longrightarrow> mk_sink_commit_result (PyStr (result_sink_id r)) (PyStr (result_key r)) (digest_value (result_precondition r))
     (PyInt (result_sequence r)) (result_metadata r) (PyBool b) = Inr (r\<lparr>result_replayed := b\<rparr>)"
  by (auto simp: mk_sink_commit_result_def result_ok_def trimmed_def sink_sequence_def)

definition sink_entry_ok :: "string \<Rightarrow> string \<Rightarrow> sink_commit_request \<times> sink_commit_result \<Rightarrow> bool" where
  "sink_entry_ok sink k p \<longleftrightarrow>
     request_ok (fst p) \<and> result_ok (snd p) \<and> request_idempotency_key (fst p) = k \<and> result_key (snd p) = k \<and>
     result_precondition (snd p) = request_precondition (fst p) \<and> \<not> result_replayed (snd p) \<and>
     result_sink_id (snd p) = sink"

abbreviation pair_sequence :: "sink_commit_request \<times> sink_commit_result \<Rightarrow> int" where
  "pair_sequence p \<equiv> result_sequence (snd p)"

definition entries_ok :: "string \<Rightarrow> (string, sink_commit_request \<times> sink_commit_result) dict \<Rightarrow> bool" where
  "entries_ok sink d \<longleftrightarrow> (\<forall>k p. map_of d k = Some p \<longrightarrow> sink_entry_ok sink k p)"

lemma entries_ok_set: "entries_ok sink d \<Longrightarrow> sink_entry_ok sink k p \<Longrightarrow> entries_ok sink (dict_set k p d)"
  by (auto simp: entries_ok_def)

definition sink_ok :: "durable_sink \<Rightarrow> bool" where
  "sink_ok s \<longleftrightarrow>
     trimmed (sink_name s) \<and> 0 < sink_next_sequence s \<and> sink_next_sequence s \<le> DURABLE_MAX_U64 + 1 \<and>
     sequenced pair_sequence (sink_next_sequence s - 1) (sink_commits s) \<and> entries_ok (sink_name s) (sink_commits s)"

lemma highest_sequence_less:
  assumes "sink_ok s"
  shows "highest_sequence s < sink_next_sequence s"
proof -
  have seq: "sequenced pair_sequence (sink_next_sequence s - 1) (sink_commits s)" using assms by (simp add: sink_ok_def)
  have "pair_sequence p \<le> sink_next_sequence s - 1" if "p \<in> set (dict_values (sink_commits s))" for p
    using sequenced_values [OF seq that] .
  then have "highest_sequence s \<le> sink_next_sequence s - 1"
    unfolding highest_sequence_def foldl_max_le using assms by (simp add: sink_ok_def split_def del: split_paired_All)
  then show ?thesis by simp
qed

text \<open>The branches of a commit.\<close>

definition new_sink_result :: "durable_sink \<Rightarrow> sink_commit_request \<Rightarrow> sink_commit_result" where
  "new_sink_result s q =
     \<lparr>result_sink_id = sink_name s, result_key = request_idempotency_key q, result_precondition = request_precondition q,
      result_sequence = sink_next_sequence s, result_metadata = request_payload q, result_replayed = False\<rparr>"

lemma sink_commit_cases:
  assumes ok: "sink_ok s" and q: "request_ok q"
  shows "sink_commit (ArgObject q) s =
    (case map_of (sink_commits s) (request_idempotency_key q) of
       Some (p, r) \<Rightarrow> if same_request p q then (Inr (r\<lparr>result_replayed := True\<rparr>), s)
                      else (Inl (IdempotencyConflictError (request_idempotency_key q)), s)
     | None \<Rightarrow> if DURABLE_MAX_U64 < sink_next_sequence s then (Inl SinkCommitError, s)
               else (Inr (new_sink_result s q),
                     s\<lparr>sink_commits := dict_set (request_idempotency_key q) (q, new_sink_result s q) (sink_commits s),
                       sink_next_sequence := sink_next_sequence s + 1\<rparr>))"
proof (cases "map_of (sink_commits s) (request_idempotency_key q)")
  case None
  have n: "sink_sequence (DURABLE_MAX_U64 + 1) (PyInt (sink_next_sequence s)) = Inr (sink_next_sequence s)"
    using ok by (simp add: sink_ok_def sink_sequence_def)
  have m: "max (sink_next_sequence s) (highest_sequence s + 1) = sink_next_sequence s"
    using highest_sequence_less [OF ok] by simp
  have built: "mk_sink_commit_result (PyStr (sink_name s)) (PyStr (request_idempotency_key q)) (digest_value (request_precondition q))
      (PyInt (sink_next_sequence s)) (request_payload q) (PyBool False) = Inr (new_sink_result s q)"
    if "sink_next_sequence s \<le> DURABLE_MAX_U64"
  proof -
    have "result_ok (new_sink_result s q)" using ok q that by (simp add: result_ok_def new_sink_result_def sink_ok_def request_ok_def)
    from result_rebuilt [OF this, of False] show ?thesis by (simp add: new_sink_result_def)
  qed
  show ?thesis
    using None n m built
    by (cases "DURABLE_MAX_U64 < sink_next_sequence s")
      (simp_all add: sink_commit_def allocate_sink_sequence_def py_run new_sink_result_def)
next
  case (Some p)
  then have "result_ok (snd p)" using ok unfolding sink_ok_def entries_ok_def sink_entry_ok_def by blast
  then show ?thesis
    using Some by (auto simp: sink_commit_def py_run replayed_result_def result_rebuilt split_def)
qed

subsection \<open>The sink as a machine\<close>

datatype sink_call = SinkCommit pyval pyval pyval pyval pyval pyval

primrec sink_exec :: "sink_call \<Rightarrow> durable_sink \<Rightarrow> durable_sink" where
  "sink_exec (SinkCommit run node attempt key payload digest) s =
     (case mk_sink_commit_request run node attempt key payload digest of
        Inl _ \<Rightarrow> s | Inr q \<Rightarrow> snd (sink_commit (ArgObject q) s))"

text \<open>A sink built from objects of the request and result classes.\<close>

definition sink_made :: "durable_sink \<Rightarrow> bool" where
  "sink_made s \<longleftrightarrow>
     (\<exists>sink n items. mk_durable_sink sink n (Some items) = Inr s \<and>
        (\<forall>k q r. (k, Some (q, r)) \<in> set items \<longrightarrow> request_ok q \<and> result_ok r))"

definition sink_live :: "durable_sink \<Rightarrow> int set" where
  "sink_live s = table_sequences pair_sequence (sink_commits s)"

lemma restore_commits_ok:
  assumes "restore_commits sink items seen_sequences h d = Inr (h', d')" and "sequenced pair_sequence h d" "entries_ok sink d"
    and "\<And>k p. map_of d k = Some p \<Longrightarrow> pair_sequence p \<in> set seen_sequences" and "0 \<le> h" "h \<le> DURABLE_MAX_U64"
    and "\<And>k q r. (k, Some (q, r)) \<in> set items \<Longrightarrow> request_ok q \<and> result_ok r"
  shows "sequenced pair_sequence h' d' \<and> entries_ok sink d' \<and> 0 \<le> h' \<and> h' \<le> DURABLE_MAX_U64"
  using assms
proof (induction sink items seen_sequences h d rule: restore_commits.induct)
  case (3 sink k q r items seen_sequences h d)
  have ok: "request_ok q" "result_ok r" using 3(8) [of k q r] by simp_all
  have step: "k = PyStr (request_idempotency_key q)" "request_idempotency_key q = result_key r" "result_sink_id r = sink"
      "result_precondition r = request_precondition q" "\<not> result_replayed r" "result_sequence r \<notin> set seen_sequences"
      "py_eq (result_metadata r) (request_payload q)"
      "restore_commits sink items (result_sequence r # seen_sequences) (max h (result_sequence r)) (dict_set (request_idempotency_key q) (q, r) d) = Inr (h', d')"
    using 3(2) by (auto split: if_splits)
  have fresh: "pair_sequence p \<noteq> pair_sequence (q, r)" if "map_of d j = Some p" for j p
    using 3(5) [OF that] step(6) by auto
  have "sequenced pair_sequence (max h (result_sequence r)) (dict_set (request_idempotency_key q) (q, r) d)"
    by (rule sequenced_set [OF sequenced_mono [OF 3(3)] _ fresh]) simp_all
  moreover have "entries_ok sink (dict_set (request_idempotency_key q) (q, r) d)"
    by (rule entries_ok_set [OF 3(4)]) (simp add: sink_entry_ok_def ok step)
  moreover have "pair_sequence p \<in> set (result_sequence r # seen_sequences)" if "map_of (dict_set (request_idempotency_key q) (q, r) d) j = Some p" for j p
    using 3(5) [of j p] that by (auto split: if_splits)
  moreover have "\<And>k' q' r'. (k', Some (q', r')) \<in> set items \<Longrightarrow> request_ok q' \<and> result_ok r'"
    using 3(8) by (meson list.set_intros(2))
  moreover have "0 \<le> max h (result_sequence r)" "max h (result_sequence r) \<le> DURABLE_MAX_U64"
    using ok(2) 3(6,7) by (auto simp: result_ok_def)
  ultimately show ?case using 3(1) step by (auto simp: step)
qed simp_all

lemma sink_made_ok: "sink_made s \<Longrightarrow> sink_ok s"
proof -
  assume "sink_made s"
  then obtain sink n items where made: "mk_durable_sink sink n (Some items) = Inr s"
    and items: "\<And>k q r. (k, Some (q, r)) \<in> set items \<Longrightarrow> request_ok q \<and> result_ok r"
    by (auto simp: sink_made_def)
  obtain name n0 h d where parts: "sink = PyStr name" "trimmed name" "n = PyInt n0" "0 < n0" "n0 \<le> DURABLE_MAX_U64 + 1"
      "restore_commits name items [] 0 [] = Inr (h, d)"
      "s = \<lparr>sink_name = name, sink_next_sequence = max n0 (h + 1), sink_commits = d\<rparr>"
    using made by (auto simp: mk_durable_sink_def bind_sum_Inr_iff sink_string_Inr sink_sequence_Inr)
  have "sequenced pair_sequence h d \<and> entries_ok name d \<and> 0 \<le> h \<and> h \<le> DURABLE_MAX_U64"
    by (rule restore_commits_ok [OF parts(6)]) (use items in \<open>auto simp: entries_ok_def\<close>)
  then show "sink_ok s" using parts sequenced_mono [of pair_sequence h d "max n0 (h + 1) - 1"] by (simp add: sink_ok_def)
qed

lemma sink_exec_cases:
  assumes ok: "sink_ok s"
  obtains "sink_exec call s = s"
  | q where "request_ok q" "map_of (sink_commits s) (request_idempotency_key q) = None" "sink_next_sequence s \<le> DURABLE_MAX_U64"
    "sink_exec call s = s\<lparr>sink_commits := dict_set (request_idempotency_key q) (q, new_sink_result s q) (sink_commits s),
                          sink_next_sequence := sink_next_sequence s + 1\<rparr>"
proof (cases call)
  case (SinkCommit run node attempt key payload digest)
  show ?thesis
  proof (cases "mk_sink_commit_request run node attempt key payload digest")
    case (Inr q)
    have q: "request_ok q" using mk_sink_commit_request_ok [OF Inr] .
    show ?thesis
    proof (cases "map_of (sink_commits s) (request_idempotency_key q) = None \<and> sink_next_sequence s \<le> DURABLE_MAX_U64")
      case True
      then show ?thesis using that(2) [of q] q by (simp add: SinkCommit Inr sink_commit_cases [OF ok q])
    next
      case False
      then have "sink_exec call s = s"
        by (auto simp: SinkCommit Inr sink_commit_cases [OF ok q] split: option.splits)
      then show ?thesis by (rule that(1))
    qed
  qed (use that(1) SinkCommit in simp)
qed

lemma sink_live_less: "sink_ok s \<Longrightarrow> n \<in> sink_live s \<Longrightarrow> n < sink_next_sequence s"
  unfolding sink_ok_def sink_live_def using table_sequences_le by fastforce

lemma sink_exec_ok:
  assumes ok: "sink_ok s"
  shows "sink_ok (sink_exec call s)"
proof (rule sink_exec_cases [OF ok, of call])
  fix q
  assume q: "request_ok q" "map_of (sink_commits s) (request_idempotency_key q) = None" "sink_next_sequence s \<le> DURABLE_MAX_U64"
    and call: "sink_exec call s = s\<lparr>sink_commits := dict_set (request_idempotency_key q) (q, new_sink_result s q) (sink_commits s),
                          sink_next_sequence := sink_next_sequence s + 1\<rparr>"
  have "sink_entry_ok (sink_name s) (request_idempotency_key q) (q, new_sink_result s q)"
    using ok q by (simp add: sink_entry_ok_def result_ok_def new_sink_result_def sink_ok_def request_ok_def)
  then have "entries_ok (sink_name s) (dict_set (request_idempotency_key q) (q, new_sink_result s q) (sink_commits s))"
    using ok by (intro entries_ok_set) (simp_all add: sink_ok_def)
  moreover have "sequenced pair_sequence (sink_next_sequence s) (dict_set (request_idempotency_key q) (q, new_sink_result s q) (sink_commits s))"
  proof (rule sequenced_set)
    show "sequenced pair_sequence (sink_next_sequence s) (sink_commits s)"
      using ok sequenced_mono [of pair_sequence "sink_next_sequence s - 1" "sink_commits s" "sink_next_sequence s"] by (simp add: sink_ok_def)
    show "pair_sequence p \<noteq> pair_sequence (q, new_sink_result s q)" if "map_of (sink_commits s) j = Some p" for j p
      using sink_live_less [OF ok, of "pair_sequence p"] table_sequencesI [OF that, of pair_sequence]
      by (simp add: sink_live_def new_sink_result_def)
  qed (simp add: new_sink_result_def)
  ultimately show ?thesis using ok q by (simp add: call sink_ok_def)
qed (use ok in simp)

lemma sink_exec_live: "sink_ok s \<Longrightarrow> n \<in> sink_live (sink_exec call s) \<Longrightarrow> n \<in> sink_live s \<or> sink_next_sequence s \<le> n"
  by (rule sink_exec_cases [of s call]) (auto simp: sink_live_def new_sink_result_def table_sequences_set_new)

lemma sink_exec_counter: "sink_ok s \<Longrightarrow> sink_next_sequence s \<le> sink_next_sequence (sink_exec call s)"
  by (rule sink_exec_cases [of s call]) simp_all

interpretation sink: fenced_machine sink_made sink_exec sink_ok sink_next_sequence sink_live
  by unfold_locales
    (simp_all add: sink_made_ok sink_exec_ok sink_live_less sink_exec_counter sink_exec_live)

lemma sink_keeps_entry:
  "sink_ok s \<Longrightarrow> map_of (sink_commits s) k = Some p \<Longrightarrow> map_of (sink_commits (sink_exec call s)) k = Some p"
  by (rule sink_exec_cases [of s call]) auto

interpretation sink_history: tracked_machine sink_made sink_exec sink_ok "\<lambda>s. map_of (sink_commits s)" "(=)"
  by unfold_locales (simp_all add: sink_keeps_entry)

lemma sink_keeps_entries:
  "sink_ok s \<Longrightarrow> map_of (sink_commits s) k = Some p \<Longrightarrow> map_of (sink_commits (fold sink_exec calls s)) k = Some p"
  using sink_history.history_calls by blast

section \<open>The terminal store\<close>

lemma terminal_integer_Inr: "terminal_integer m v = Inr n \<longleftrightarrow> v = PyInt n \<and> n \<le> m"
  by (cases v) auto

lemma terminal_positive_Inr: "terminal_positive m v = Inr n \<longleftrightarrow> v = PyInt n \<and> 0 < n \<and> n \<le> m"
  by (cases v) (auto simp: terminal_positive_def)

lemma mk_terminal_commit_eq:
  "mk_terminal_commit (PyInt n) (ArgObject r) (PyBool b) =
    (if 0 < n \<and> n \<le> DURABLE_MAX_U64 then Inr \<lparr>commit_sequence = n, commit_record = r, commit_replayed = b\<rparr> else Inl ToolTerminalStoreError)"
  by (auto simp: mk_terminal_commit_def terminal_positive_def)

text \<open>
  A table of the store: sequences in range and distinct, each entry under the key of its record
  and none a replay projection.
\<close>

definition commits_ok :: "('r \<Rightarrow> 'k) \<Rightarrow> ('k, 'r terminal_commit) dict \<Rightarrow> bool" where
  "commits_ok key d \<longleftrightarrow>
     (\<forall>k c. map_of d k = Some c \<longrightarrow> key (commit_record c) = k \<and> \<not> commit_replayed c \<and> 0 < commit_sequence c \<and> commit_sequence c \<le> DURABLE_MAX_U64)"

lemma commits_ok_set:
  "commits_ok key d \<Longrightarrow> \<not> commit_replayed c \<Longrightarrow> 0 < commit_sequence c \<Longrightarrow> commit_sequence c \<le> DURABLE_MAX_U64 \<Longrightarrow>
   commits_ok key (dict_set (key (commit_record c)) c d)"
  by (simp add: commits_ok_def)

lemma commits_ok_Nil [simp]: "commits_ok key []"
  by (simp add: commits_ok_def)

lemma commit_replay:
  "commits_ok key d \<Longrightarrow> map_of d k = Some c \<Longrightarrow>
   mk_terminal_commit (PyInt (commit_sequence c)) (ArgObject (commit_record c)) (PyBool True) = Inr (c\<lparr>commit_replayed := True\<rparr>)"
  by (simp add: mk_terminal_commit_eq commits_ok_def)

definition durable_response :: "terminal_store \<Rightarrow> string \<Rightarrow> bool" where
  "durable_response s i \<longleftrightarrow>
     (\<exists>k c. map_of (terminal_records s) k = Some c \<and> terminal_response_id (commit_record c) = i \<and> durable_result_committed (commit_record c))"

definition stopped_response :: "terminal_store \<Rightarrow> string \<Rightarrow> bool" where
  "stopped_response s i \<longleftrightarrow> map_of (policy_stopped_responses s) i \<noteq> None"

definition store_ok :: "terminal_store \<Rightarrow> bool" where
  "store_ok s \<longleftrightarrow>
     0 < store_next_sequence s \<and> store_next_sequence s \<le> DURABLE_MAX_U64 + 1 \<and>
     sequenced commit_sequence (store_next_sequence s - 1) (terminal_records s) \<and>
     sequenced commit_sequence (store_next_sequence s - 1) (policy_stopped_responses s) \<and>
     table_sequences commit_sequence (terminal_records s) \<inter> table_sequences commit_sequence (policy_stopped_responses s) = {} \<and>
     commits_ok record_id (terminal_records s) \<and> commits_ok stop_response_id (policy_stopped_responses s) \<and>
     (\<forall>i. \<not> (durable_response s i \<and> stopped_response s i))"

lemma restore_terminal_ok:
  assumes "restore_terminal kv key items seen_sequences h d = Inr (seen', h', d')"
    and "sequenced commit_sequence h d" "commits_ok key d" "table_sequences commit_sequence d \<subseteq> set seen_sequences" "0 \<le> h" "h \<le> DURABLE_MAX_U64"
  shows "sequenced commit_sequence h' d' \<and> commits_ok key d' \<and> table_sequences commit_sequence d' \<subseteq> set seen' \<and>
    set seen_sequences \<subseteq> set seen' \<and> h \<le> h' \<and> h' \<le> DURABLE_MAX_U64 \<and> (table_sequences commit_sequence d' - table_sequences commit_sequence d) \<inter> set seen_sequences = {}"
  using assms
proof (induction kv key items seen_sequences h d rule: restore_terminal.induct)
  case (3 kv key k c items seen_sequences h d)
  let ?n = "commit_sequence c" and ?d = "dict_set (key (commit_record c)) c d"
  have c: "\<not> commit_replayed c" "py_eq k (kv (commit_record c))" "?n \<le> DURABLE_MAX_U64" "0 < ?n" "?n \<notin> set seen_sequences"
    and rest: "restore_terminal kv key items (?n # seen_sequences) (max h ?n) ?d = Inr (seen', h', d')"
    using 3(2) by (auto split: if_splits)
  have seq: "sequenced commit_sequence (max h ?n) ?d"
  proof (rule sequenced_set [OF sequenced_mono [OF 3(3)]])
    show "commit_sequence w \<noteq> ?n" if "map_of d j = Some w" for j w
      using 3(5) c(5) table_sequencesI [OF that, of commit_sequence] by auto
  qed simp_all
  have com: "commits_ok key ?d" using commits_ok_set [OF 3(4)] c by blast
  have sub: "table_sequences commit_sequence ?d \<subseteq> insert ?n (table_sequences commit_sequence d)" by (rule table_sequences_set)
  have "sequenced commit_sequence h' d' \<and> commits_ok key d' \<and> table_sequences commit_sequence d' \<subseteq> set seen' \<and>
      set (?n # seen_sequences) \<subseteq> set seen' \<and> max h ?n \<le> h' \<and> h' \<le> DURABLE_MAX_U64 \<and>
      (table_sequences commit_sequence d' - table_sequences commit_sequence ?d) \<inter> set (?n # seen_sequences) = {}"
    by (rule 3(1) [of ?n]) (use c rest seq com sub 3(5-7) in auto)
  then show ?case using sub c(5) by auto
qed auto


subsection \<open>The store as a machine\<close>

datatype terminal_call =
    RecordCall terminal_record
  | StopCall pyval pyval pyval pyval pyval pyval pyval pyval pyval pyval pyval

primrec terminal_exec :: "terminal_call \<Rightarrow> terminal_store \<Rightarrow> terminal_store" where
  "terminal_exec (RecordCall r) s = snd (record_tool_terminal (ArgObject r) s)"
| "terminal_exec (StopCall a b c d e f g h i j k) s = snd (record_response_policy_stopped a b c d e f g h i j k s)"

definition store_made :: "terminal_store \<Rightarrow> bool" where
  "store_made s \<longleftrightarrow> (\<exists>n records stopped. mk_terminal_store n (Some records) (Some stopped) = Inr s)"

lemma store_made_ok: "store_made s \<Longrightarrow> store_ok s"
proof -
  assume "store_made s"
  then obtain n records stopped where made: "mk_terminal_store n (Some records) (Some stopped) = Inr s" by (auto simp: store_made_def)
  obtain seen_sequences h d seen' h' d' n0 where parts:
    "restore_terminal record_id_value record_id records [] 0 [] = Inr (seen_sequences, h, d)"
    "restore_terminal (\<lambda>r. PyStr (stop_response_id r)) stop_response_id stopped seen_sequences h [] = Inr (seen', h', d')"
    "\<not> list_ex (\<lambda>c. durable_result_committed (commit_record c) \<and>
               map_of d' (terminal_response_id (commit_record c)) \<noteq> None) (dict_values d)"
    "0 < n0" "n0 \<le> DURABLE_MAX_U64 + 1"
    "s = \<lparr>store_next_sequence = max n0 (h' + 1), terminal_records = d, policy_stopped_responses = d'\<rparr>"
    using made by (auto simp: mk_terminal_store_def bind_sum_Inr_iff terminal_positive_Inr split: if_splits)
  note a = restore_terminal_ok [OF parts(1), simplified]
  note b = restore_terminal_ok [OF parts(2), simplified]
  have bounds: "0 \<le> h" "h \<le> DURABLE_MAX_U64" using a by auto
  note b = b [OF bounds]
  have seqs: "sequenced commit_sequence (max n0 (h' + 1) - 1) d" "sequenced commit_sequence (max n0 (h' + 1) - 1) d'"
    using a b sequenced_mono [of commit_sequence h d] sequenced_mono [of commit_sequence h' d'] by auto
  have "dict_ok d" using a by (simp add: sequenced_def)
  then have excl: "\<not> (durable_response s i \<and> stopped_response s i)" for i
    using parts(3) by (auto simp: durable_response_def stopped_response_def parts(6) list_ex_iff dict_values_mem)
  have "table_sequences commit_sequence d \<inter> table_sequences commit_sequence d' = {}" using a b by auto
  then show "store_ok s" using a b seqs excl parts(4,5) by (simp add: store_ok_def parts(6))
qed

lemma allocate_terminal:
  assumes "store_ok s"
  shows "allocate_terminal_sequence s =
    (if DURABLE_MAX_U64 < store_next_sequence s then (Inl ToolTerminalStoreError, s)
     else (Inr (store_next_sequence s), s\<lparr>store_next_sequence := store_next_sequence s + 1\<rparr>))"
proof -
  have "\<forall>n\<in>set (store_sequences s). n \<le> store_next_sequence s - 1"
    using assms by (auto simp: store_ok_def store_sequences_def dest: sequenced_values)
  then have "foldl max 0 (store_sequences s) \<le> store_next_sequence s - 1"
    using assms unfolding foldl_max_le by (simp add: store_ok_def)
  then have "max (store_next_sequence s) (foldl max 0 (store_sequences s) + 1) = store_next_sequence s" by simp
  then show ?thesis by (simp add: allocate_terminal_sequence_def py_run)
qed

definition new_commit :: "terminal_store \<Rightarrow> 'r \<Rightarrow> 'r terminal_commit" where
  "new_commit s r = \<lparr>commit_sequence = store_next_sequence s, commit_record = r, commit_replayed = False\<rparr>"

lemma new_commit_made:
  "store_ok s \<Longrightarrow> store_next_sequence s \<le> DURABLE_MAX_U64 \<Longrightarrow> mk_terminal_commit (PyInt (store_next_sequence s)) (ArgObject r) (PyBool False) = Inr (new_commit s r)"
  by (simp add: mk_terminal_commit_eq store_ok_def new_commit_def)

lemma record_tool_terminal_cases:
  assumes ok: "store_ok s"
  shows "record_tool_terminal (ArgObject r) s =
    (case map_of (terminal_records s) (record_id r) of
       Some c \<Rightarrow> if commit_record c = r then (Inr (c\<lparr>commit_replayed := True\<rparr>), s)
                 else (Inl (ToolTerminalStateConflictError (terminal_response_id r) (terminal_tool_call_id r) (terminal_revision r)), s)
     | None \<Rightarrow> if durable_result_committed r \<and> stopped_response s (terminal_response_id r)
                 then (Inl (ResponsePolicyStoppedError (terminal_response_id r)), s)
               else if DURABLE_MAX_U64 < store_next_sequence s then (Inl ToolTerminalStoreError, s)
               else (Inr (new_commit s r), s\<lparr>store_next_sequence := store_next_sequence s + 1,
                      terminal_records := dict_set (record_id r) (new_commit s r) (terminal_records s)\<rparr>))"
proof (cases "map_of (terminal_records s) (record_id r)")
  case None
  then show ?thesis
    using new_commit_made [OF ok, of r]
    by (auto simp: record_tool_terminal_def py_run allocate_terminal [OF ok] stopped_response_def)
next
  case (Some c)
  have "commits_ok record_id (terminal_records s)" using ok by (simp add: store_ok_def)
  from commit_replay [OF this Some] show ?thesis using Some by (simp add: record_tool_terminal_def py_run)
qed


lemma policy_stopped_cases:
  assumes ok: "store_ok s"
    and r: "mk_policy_stop_record response_v decision_v accepted_v occurred_v stream_v
       (if generated_v = PyNone then accepted_v else generated_v)
       (if delivered_v = PyNone then accepted_v else delivered_v) reason_v draft_v durable_v turn_v = Inr r"
  shows "record_response_policy_stopped response_v decision_v stream_v turn_v generated_v accepted_v delivered_v reason_v draft_v durable_v occurred_v s =
    (case map_of (policy_stopped_responses s) (stop_response_id r) of
       Some c \<Rightarrow> if commit_record c = r then (Inr (c\<lparr>commit_replayed := True\<rparr>), s)
                 else (Inl (ResponsePolicyStopConflictError (stop_response_id r)), s)
     | None \<Rightarrow> if durable_response s (stop_response_id r) then (Inl (DurableResultAlreadyCommittedError (stop_response_id r)), s)
               else if DURABLE_MAX_U64 < store_next_sequence s then (Inl ToolTerminalStoreError, s)
               else (Inr (new_commit s r), s\<lparr>store_next_sequence := store_next_sequence s + 1,
                      policy_stopped_responses := dict_set (stop_response_id r) (new_commit s r) (policy_stopped_responses s)\<rparr>))"
proof (cases "map_of (policy_stopped_responses s) (stop_response_id r)")
  case None
  have "dict_ok (terminal_records s)" using ok by (simp add: store_ok_def sequenced_def)
  then have dur: "list_ex (\<lambda>c. terminal_response_id (commit_record c) = stop_response_id r \<and> durable_result_committed (commit_record c))
      (dict_values (terminal_records s)) \<longleftrightarrow> durable_response s (stop_response_id r)"
    unfolding list_ex_iff durable_response_def using dict_values_mem [of "terminal_records s"] by blast
  show ?thesis
    using None new_commit_made [OF ok, of r]
    by (auto simp: record_response_policy_stopped_def r py_run allocate_terminal [OF ok] dur)
next
  case (Some c)
  have "commits_ok stop_response_id (policy_stopped_responses s)" using ok by (simp add: store_ok_def)
  from commit_replay [OF this Some] show ?thesis using Some by (simp add: record_response_policy_stopped_def r py_run)
qed

lemma terminal_exec_cases:
  assumes ok: "store_ok s"
  obtains "terminal_exec call s = s"
  | r where "map_of (terminal_records s) (record_id r) = None" "store_next_sequence s \<le> DURABLE_MAX_U64"
    "\<not> (durable_result_committed r \<and> stopped_response s (terminal_response_id r))"
    "terminal_exec call s = s\<lparr>store_next_sequence := store_next_sequence s + 1,
       terminal_records := dict_set (record_id r) (new_commit s r) (terminal_records s)\<rparr>"
  | r where "map_of (policy_stopped_responses s) (stop_response_id r) = None" "store_next_sequence s \<le> DURABLE_MAX_U64"
    "\<not> durable_response s (stop_response_id r)"
    "terminal_exec call s = s\<lparr>store_next_sequence := store_next_sequence s + 1,
       policy_stopped_responses := dict_set (stop_response_id r) (new_commit s r) (policy_stopped_responses s)\<rparr>"
proof (cases call)
  case (RecordCall r)
  show ?thesis
  proof (cases "map_of (terminal_records s) (record_id r) = None \<and> store_next_sequence s \<le> DURABLE_MAX_U64 \<and>
      \<not> (durable_result_committed r \<and> stopped_response s (terminal_response_id r))")
    case True
    then have "terminal_exec call s = s\<lparr>store_next_sequence := store_next_sequence s + 1,
        terminal_records := dict_set (record_id r) (new_commit s r) (terminal_records s)\<rparr>"
      by (auto simp: RecordCall record_tool_terminal_cases [OF ok])
    with True show ?thesis by (intro that(2)) auto
  next
    case False
    then have "terminal_exec call s = s" by (auto simp: RecordCall record_tool_terminal_cases [OF ok] split: option.splits)
    then show ?thesis by (rule that(1))
  qed
next
  case (StopCall response_v decision_v stream_v turn_v generated_v accepted_v delivered_v reason_v draft_v durable_v occurred_v)
  show ?thesis
  proof (cases "mk_policy_stop_record response_v decision_v accepted_v occurred_v stream_v
       (if generated_v = PyNone then accepted_v else generated_v)
       (if delivered_v = PyNone then accepted_v else delivered_v) reason_v draft_v durable_v turn_v")
    case (Inl e)
    then show ?thesis using that(1) by (simp add: StopCall record_response_policy_stopped_def py_run)
  next
    case (Inr r)
    show ?thesis
    proof (cases "map_of (policy_stopped_responses s) (stop_response_id r) = None \<and> store_next_sequence s \<le> DURABLE_MAX_U64 \<and>
        \<not> durable_response s (stop_response_id r)")
      case True
      then have "terminal_exec call s = s\<lparr>store_next_sequence := store_next_sequence s + 1,
          policy_stopped_responses := dict_set (stop_response_id r) (new_commit s r) (policy_stopped_responses s)\<rparr>"
        by (auto simp: StopCall policy_stopped_cases [OF ok Inr])
      with True show ?thesis by (intro that(3)) auto
    next
      case False
      then have "terminal_exec call s = s" by (auto simp: StopCall policy_stopped_cases [OF ok Inr] split: option.splits)
      then show ?thesis by (rule that(1))
    qed
  qed
qed

definition store_live :: "terminal_store \<Rightarrow> int set" where
  "store_live s = table_sequences commit_sequence (terminal_records s) \<union> table_sequences commit_sequence (policy_stopped_responses s)"

lemma store_live_less: "store_ok s \<Longrightarrow> n \<in> store_live s \<Longrightarrow> n < store_next_sequence s"
  using table_sequences_le [of commit_sequence "store_next_sequence s - 1" "terminal_records s" n]
    table_sequences_le [of commit_sequence "store_next_sequence s - 1" "policy_stopped_responses s" n]
  by (auto simp: store_ok_def store_live_def)

lemma terminal_exec_live: "store_ok s \<Longrightarrow> n \<in> store_live (terminal_exec call s) \<Longrightarrow> n \<in> store_live s \<or> store_next_sequence s \<le> n"
  by (rule terminal_exec_cases [of s call]) (auto simp: store_live_def new_commit_def table_sequences_set_new)

lemma terminal_exec_counter: "store_ok s \<Longrightarrow> store_next_sequence s \<le> store_next_sequence (terminal_exec call s)"
  by (rule terminal_exec_cases [of s call]) simp_all

lemma sequenced_new:
  assumes "sequenced commit_sequence (store_next_sequence s - 1) d"
  shows "sequenced commit_sequence (store_next_sequence s) (dict_set k (new_commit s r) d)"
proof (rule sequenced_set [OF sequenced_mono [OF assms]])
  show "commit_sequence w \<noteq> commit_sequence (new_commit s r)" if "map_of d j = Some w" for j w
    using assms that by (fastforce simp: sequenced_def new_commit_def)
qed (simp_all add: new_commit_def)

lemma commits_ok_new:
  "store_ok s \<Longrightarrow> store_next_sequence s \<le> DURABLE_MAX_U64 \<Longrightarrow> commits_ok key d \<Longrightarrow> commits_ok key (dict_set (key r) (new_commit s r) d)"
  using commits_ok_set [of key d "new_commit s r"] by (simp add: new_commit_def store_ok_def)

lemma terminal_exec_ok:
  assumes ok: "store_ok s"
  shows "store_ok (terminal_exec call s)"
proof (rule terminal_exec_cases [OF ok, of call])
  fix r
  assume r: "map_of (terminal_records s) (record_id r) = None" "store_next_sequence s \<le> DURABLE_MAX_U64"
    "\<not> (durable_result_committed r \<and> stopped_response s (terminal_response_id r))"
    and call: "terminal_exec call s = s\<lparr>store_next_sequence := store_next_sequence s + 1,
       terminal_records := dict_set (record_id r) (new_commit s r) (terminal_records s)\<rparr>"
  let ?t = "s\<lparr>store_next_sequence := store_next_sequence s + 1,
       terminal_records := dict_set (record_id r) (new_commit s r) (terminal_records s)\<rparr>"
  have "durable_response ?t i \<Longrightarrow> durable_response s i \<or> durable_result_committed r \<and> terminal_response_id r = i" for i
    by (auto simp: durable_response_def new_commit_def split: if_splits)
  then have excl: "\<not> (durable_response ?t i \<and> stopped_response ?t i)" for i
    using ok r(3) by (fastforce simp: store_ok_def stopped_response_def)
  have "store_next_sequence s \<notin> table_sequences commit_sequence (policy_stopped_responses s)"
    using store_live_less [OF ok] by (auto simp: store_live_def)
  then have "table_sequences commit_sequence (terminal_records ?t) \<inter> table_sequences commit_sequence (policy_stopped_responses s) = {}"
    using ok r(1) by (simp add: table_sequences_set_new new_commit_def store_ok_def)
  then show ?thesis
    using ok r(2) excl sequenced_new [of s "terminal_records s"] sequenced_mono [of commit_sequence "store_next_sequence s - 1" "policy_stopped_responses s" "store_next_sequence s"]
      commits_ok_new [OF ok r(2), of record_id "terminal_records s" r]
    by (simp add: call store_ok_def)
next
  fix r
  assume r: "map_of (policy_stopped_responses s) (stop_response_id r) = None" "store_next_sequence s \<le> DURABLE_MAX_U64"
    "\<not> durable_response s (stop_response_id r)"
    and call: "terminal_exec call s = s\<lparr>store_next_sequence := store_next_sequence s + 1,
       policy_stopped_responses := dict_set (stop_response_id r) (new_commit s r) (policy_stopped_responses s)\<rparr>"
  let ?t = "s\<lparr>store_next_sequence := store_next_sequence s + 1,
       policy_stopped_responses := dict_set (stop_response_id r) (new_commit s r) (policy_stopped_responses s)\<rparr>"
  have "durable_response ?t i = durable_response s i" "stopped_response ?t i \<Longrightarrow> stopped_response s i \<or> i = stop_response_id r" for i
    by (auto simp: durable_response_def stopped_response_def split: if_splits)
  then have excl: "\<not> (durable_response ?t i \<and> stopped_response ?t i)" for i
    using ok r(3) by (fastforce simp: store_ok_def)
  have "store_next_sequence s \<notin> table_sequences commit_sequence (terminal_records s)"
    using store_live_less [OF ok] by (auto simp: store_live_def)
  then have "table_sequences commit_sequence (terminal_records s) \<inter> table_sequences commit_sequence (policy_stopped_responses ?t) = {}"
    using ok r(1) by (simp add: table_sequences_set_new new_commit_def store_ok_def)
  then show ?thesis
    using ok r(2) excl sequenced_new [of s "policy_stopped_responses s"] sequenced_mono [of commit_sequence "store_next_sequence s - 1" "terminal_records s" "store_next_sequence s"]
      commits_ok_new [OF ok r(2), of stop_response_id "policy_stopped_responses s" r]
    by (simp add: call store_ok_def)
qed (use ok in simp)

interpretation terminal: fenced_machine store_made terminal_exec store_ok store_next_sequence store_live
  by unfold_locales
    (simp_all add: store_made_ok terminal_exec_ok store_live_less terminal_exec_counter terminal_exec_live)

lemma terminal_keeps:
  "store_ok s \<Longrightarrow> map_of (terminal_records s) k = Some c \<Longrightarrow> map_of (terminal_records (terminal_exec call s)) k = Some c"
  "store_ok s \<Longrightarrow> map_of (policy_stopped_responses s) i = Some d \<Longrightarrow> map_of (policy_stopped_responses (terminal_exec call s)) i = Some d"
  by (rule terminal_exec_cases [of s call]; auto)+

interpretation terminal_history: tracked_machine store_made terminal_exec store_ok "\<lambda>s. map_of (terminal_records s)" "(=)"
  by unfold_locales (simp_all add: terminal_keeps)

interpretation stop_history: tracked_machine store_made terminal_exec store_ok "\<lambda>s. map_of (policy_stopped_responses s)" "(=)"
  by unfold_locales (simp_all add: terminal_keeps)

lemma terminal_keeps_all:
  "store_ok s \<Longrightarrow> map_of (terminal_records s) k = Some c \<Longrightarrow> map_of (terminal_records (fold terminal_exec calls s)) k = Some c"
  "store_ok s \<Longrightarrow> map_of (policy_stopped_responses s) i = Some d \<Longrightarrow> map_of (policy_stopped_responses (fold terminal_exec calls s)) i = Some d"
  using terminal_history.history_calls stop_history.history_calls by blast+

section \<open>Samples\<close>

definition sample_sink :: durable_sink where
  "sample_sink = \<lparr>sink_name = ''sink'', sink_next_sequence = 1, sink_commits = []\<rparr>"

definition sink_request :: "string \<Rightarrow> int \<Rightarrow> sink_commit_request" where
  "sink_request k n =
     \<lparr>request_run_id = ''run'', request_node_id = ''node'', request_node_attempt_id = ''attempt'', request_idempotency_key = k,
      request_payload = PyDict [(PyStr ''n'', PyInt n)], request_precondition = None\<rparr>"

lemma sample_sink_made: "sink_made sample_sink"
proof -
  have "mk_durable_sink (PyStr ''sink'') (PyInt 1) (Some []) = Inr sample_sink" by code_simp
  then show ?thesis unfolding sink_made_def by fastforce
qed

lemma sink_request_made:
  "mk_sink_commit_request (PyStr ''run'') (PyStr ''node'') (PyStr ''attempt'') (PyStr ''k1'') (PyDict [(PyStr ''n'', PyInt 7)]) PyNone
     = Inr (sink_request ''k1'' 7)"
  by code_simp

definition sample_terminal :: "bool \<Rightarrow> terminal_record" where
  "sample_terminal durable =
     \<lparr>terminal_run_id = ''run'', terminal_response_id = ''response'', terminal_tool_call_id = ''call'', terminal_revision = 1,
      terminal_state = Completed, arguments_digest = ''digest'', completed_at_unix_ms = 5, output_digest = None,
      terminal_key = None, effect_committed = True, durable_result_committed = durable\<rparr>"

definition sample_store :: terminal_store where
  "sample_store = \<lparr>store_next_sequence = 1, terminal_records = [], policy_stopped_responses = []\<rparr>"

lemma sample_store_made: "store_made sample_store"
proof -
  have "mk_terminal_store (PyInt 1) (Some []) (Some []) = Inr sample_store" by code_simp
  then show ?thesis unfolding store_made_def by blast
qed

definition sample_stop :: terminal_call where
  "sample_stop = StopCall (PyStr ''response'') (PyStr ''decision'') PyNone PyNone PyNone (PyInt 3) PyNone
     (PyStr ''policy_denied'') (PyStr ''retract'') (PyStr ''none'') (PyInt 9)"

section \<open>Properties of the sink and the terminal store\<close>

text \<open>
  C13: A commit that returned is done once and for all: whatever else is committed afterwards, the
  same request, with a payload equal to itself, returns the same result marked as replayed and
  changes nothing, and a different request under its key is refused as a conflict and changes nothing.
\<close>

theorem sink_commit_once:
  assumes made: "sink_made s0" and s: "s = fold sink_exec calls s0"
    and q: "mk_sink_commit_request run_v node_v attempt_v key_v payload digest_v = Inr q"
    and refl: "py_eq (request_payload q) (request_payload q)"
    and com: "sink_commit (ArgObject q) s = (Inr r, t)" and u: "u = fold sink_exec calls2 t"
  shows "sink_commit (ArgObject q) u = (Inr (r\<lparr>result_replayed := True\<rparr>), u) \<and>
    (\<exists>p. same_request p q \<and> (\<forall>q'. request_ok q' \<and> request_idempotency_key q' = request_idempotency_key q \<and> \<not> same_request p q' \<longrightarrow>
       sink_commit (ArgObject q') u = (Inl (IdempotencyConflictError (request_idempotency_key q)), u)))"
proof -
  have s_ok: "sink_ok s" unfolding s by (rule sink.inv_reachable [OF made])
  have q_ok: "request_ok q" by (rule mk_sink_commit_request_ok [OF q])
  obtain p r0 where entry: "map_of (sink_commits t) (request_idempotency_key q) = Some (p, r0)" "same_request p q" "r\<lparr>result_replayed := True\<rparr> = r0\<lparr>result_replayed := True\<rparr>"
  proof (cases "map_of (sink_commits s) (request_idempotency_key q)")
    case None
    then show ?thesis using com refl that [of q "new_sink_result s q"]
      by (auto simp: sink_commit_cases [OF s_ok q_ok] same_request_def split: if_splits)
  next
    case (Some e)
    then show ?thesis using com that [of "fst e" "snd e"]
      by (auto simp: sink_commit_cases [OF s_ok q_ok] split_def split: if_splits)
  qed
  have t: "t = sink_exec (SinkCommit run_v node_v attempt_v key_v payload digest_v) s" using com by (simp add: q)
  have t_ok: "sink_ok t" unfolding t by (rule sink_exec_ok [OF s_ok])
  have u_ok: "sink_ok u" unfolding u by (rule sink.inv_calls [OF t_ok])
  have kept: "map_of (sink_commits u) (request_idempotency_key q) = Some (p, r0)" unfolding u by (rule sink_keeps_entries [OF t_ok entry(1)])
  have "sink_commit (ArgObject q) u = (Inr (r\<lparr>result_replayed := True\<rparr>), u)"
    by (simp add: sink_commit_cases [OF u_ok q_ok] kept entry(2,3))
  moreover have "\<forall>q'. request_ok q' \<and> request_idempotency_key q' = request_idempotency_key q \<and> \<not> same_request p q' \<longrightarrow>
      sink_commit (ArgObject q') u = (Inl (IdempotencyConflictError (request_idempotency_key q)), u)"
    by (simp add: sink_commit_cases [OF u_ok] kept)
  ultimately show ?thesis using entry(2) by blast
qed

theorem sink_commit_once_witness:
  "sink_commit (ArgObject (sink_request ''k1'' 7))
     (fold sink_exec [SinkCommit (PyStr ''run'') (PyStr ''node'') (PyStr ''attempt'') (PyStr ''k2'') PyNone PyNone]
       (snd (sink_commit (ArgObject (sink_request ''k1'' 7)) sample_sink))) =
   (Inr (new_sink_result sample_sink (sink_request ''k1'' 7)\<lparr>result_replayed := True\<rparr>),
    fold sink_exec [SinkCommit (PyStr ''run'') (PyStr ''node'') (PyStr ''attempt'') (PyStr ''k2'') PyNone PyNone]
       (snd (sink_commit (ArgObject (sink_request ''k1'' 7)) sample_sink)))"
proof -
  have a: "sink_commit (ArgObject (sink_request ''k1'' 7)) sample_sink =
      (Inr (new_sink_result sample_sink (sink_request ''k1'' 7)), snd (sink_commit (ArgObject (sink_request ''k1'' 7)) sample_sink))"
    and b: "py_eq (request_payload (sink_request ''k1'' 7)) (request_payload (sink_request ''k1'' 7))"
    by code_simp+
  show ?thesis
    by (rule conjunct1 [OF sink_commit_once [where calls = "[]", OF sample_sink_made _ sink_request_made b a refl]]) simp
qed

text \<open>
  Sequence numbers of a sink identify commits: in every reachable sink two keys never share a
  sequence, and a commit made later has a greater sequence than every commit before it.
\<close>

theorem sink_sequences_unique:
  assumes made: "sink_made s0" and s: "s = fold sink_exec calls s0" and t: "t = fold sink_exec calls2 s"
  shows "(\<forall>j k p q. map_of (sink_commits s) j = Some p \<and> map_of (sink_commits s) k = Some q \<and>
      result_sequence (snd p) = result_sequence (snd q) \<longrightarrow> j = k) \<and>
    (\<forall>j k p q. map_of (sink_commits s) j = Some p \<and> map_of (sink_commits t) k = Some q \<and> map_of (sink_commits s) k = None \<longrightarrow>
      result_sequence (snd p) < result_sequence (snd q))"
proof -
  have s_ok: "sink_ok s" unfolding s by (rule sink.inv_reachable [OF made])
  have t_ok: "sink_ok t" unfolding t by (rule sink.inv_calls [OF s_ok])
  have seq: "sequenced pair_sequence (sink_next_sequence s - 1) (sink_commits s)"
    "sequenced pair_sequence (sink_next_sequence t - 1) (sink_commits t)" using s_ok t_ok by (simp_all add: sink_ok_def)
  have later: "result_sequence (snd p) < result_sequence (snd q)"
    if "map_of (sink_commits s) j = Some p" "map_of (sink_commits t) k = Some q" "map_of (sink_commits s) k = None" for j k p q
  proof -
    have "pair_sequence q \<notin> sink_live s"
    proof
      assume "pair_sequence q \<in> sink_live s"
      then obtain i p' where "map_of (sink_commits s) i = Some p'" "pair_sequence p' = pair_sequence q"
        by (auto simp: sink_live_def table_sequences_def ran_def)
      moreover from this have "map_of (sink_commits t) i = Some p'" unfolding t by (intro sink_keeps_entries [OF s_ok])
      ultimately have "i = k" using seq(2) that(2) unfolding sequenced_def by blast
      then show False using that(3) \<open>map_of (sink_commits s) i = Some p'\<close> by simp
    qed
    then show ?thesis
      using sink.later_token_greater [OF s_ok, of "pair_sequence p" "pair_sequence q" calls2] 
        table_sequencesI [OF that(1), of pair_sequence] table_sequencesI [OF that(2), of pair_sequence]
      by (simp add: sink_live_def t)
  qed
  moreover have "j = k" if "map_of (sink_commits s) j = Some p" "map_of (sink_commits s) k = Some q" "pair_sequence p = pair_sequence q" for j k p q
    using seq(1) that unfolding sequenced_def by blast
  ultimately show ?thesis by blast
qed

theorem sink_sequences_unique_witness:
  "\<exists>p q. map_of (sink_commits (fold sink_exec [SinkCommit (PyStr ''run'') (PyStr ''node'') (PyStr ''attempt'') (PyStr ''k1'') PyNone PyNone] sample_sink)) ''k1'' = Some p \<and>
    map_of (sink_commits (fold sink_exec [SinkCommit (PyStr ''run'') (PyStr ''node'') (PyStr ''attempt'') (PyStr ''k2'') PyNone PyNone]
      (fold sink_exec [SinkCommit (PyStr ''run'') (PyStr ''node'') (PyStr ''attempt'') (PyStr ''k1'') PyNone PyNone] sample_sink))) ''k2'' = Some q \<and>
    result_sequence (snd p) < result_sequence (snd q)"
proof -
  let ?a = "[SinkCommit (PyStr ''run'') (PyStr ''node'') (PyStr ''attempt'') (PyStr ''k1'') PyNone PyNone]"
  let ?b = "[SinkCommit (PyStr ''run'') (PyStr ''node'') (PyStr ''attempt'') (PyStr ''k2'') PyNone PyNone]"
  have "map_of (sink_commits (fold sink_exec ?a sample_sink)) ''k2'' = None"
    "map_of (sink_commits (fold sink_exec ?a sample_sink)) ''k1'' \<noteq> None"
    "map_of (sink_commits (fold sink_exec ?b (fold sink_exec ?a sample_sink))) ''k2'' \<noteq> None"
    by code_simp+
  then show ?thesis using sink_sequences_unique [OF sample_sink_made refl refl, of ?a ?b] by blast
qed

text \<open>
  C12: In every reachable terminal store no response has both a tool result that was committed
  durably and a policy stop, and no sequence number is used twice, in one table or in both.
\<close>

theorem terminal_store_consistent:
  assumes "store_made s0" and s: "s = fold terminal_exec calls s0"
  shows "\<not> (stopped_response s i \<and> durable_response s i) \<and>
    (\<forall>j k c d. map_of (terminal_records s) j = Some c \<and> map_of (terminal_records s) k = Some d \<and> commit_sequence c = commit_sequence d \<longrightarrow> j = k) \<and>
    (\<forall>j k c d. map_of (policy_stopped_responses s) j = Some c \<and> map_of (policy_stopped_responses s) k = Some d \<and> commit_sequence c = commit_sequence d \<longrightarrow> j = k) \<and>
    (\<forall>j k c d. map_of (terminal_records s) j = Some c \<and> map_of (policy_stopped_responses s) k = Some d \<longrightarrow> commit_sequence c \<noteq> commit_sequence d)"
proof -
  have ok: "store_ok s" unfolding s by (rule terminal.inv_reachable) fact
  have "commit_sequence c \<noteq> commit_sequence d" if "map_of (terminal_records s) j = Some c" "map_of (policy_stopped_responses s) k = Some d" for j k c d
    using ok table_sequencesI [OF that(1), of commit_sequence] table_sequencesI [OF that(2), of commit_sequence]
    by (auto simp: store_ok_def)
  then show ?thesis using ok unfolding store_ok_def sequenced_def by blast
qed

theorem terminal_store_consistent_witness:
  "\<not> durable_response (fold terminal_exec [sample_stop, RecordCall (sample_terminal True)] sample_store) ''response''"
proof -
  have "stopped_response (fold terminal_exec [sample_stop, RecordCall (sample_terminal True)] sample_store) ''response''"
    by code_simp
  then show ?thesis using terminal_store_consistent [OF sample_store_made refl] by blast
qed

text \<open>
  A recorded tool result is final: after any further calls, recording it again returns the same
  commit marked as replayed, any other record of the same call and revision is refused as a
  conflict, and neither changes the store.
\<close>

theorem terminal_record_final:
  assumes made: "store_made s0" and s: "s = fold terminal_exec calls s0"
    and com: "record_tool_terminal (ArgObject r) s = (Inr c, t)" and u: "u = fold terminal_exec calls2 t"
  shows "record_tool_terminal (ArgObject r) u = (Inr (c\<lparr>commit_replayed := True\<rparr>), u) \<and>
    (\<forall>r'. record_id r' = record_id r \<and> r' \<noteq> r \<longrightarrow> record_tool_terminal (ArgObject r') u =
       (Inl (ToolTerminalStateConflictError (terminal_response_id r) (terminal_tool_call_id r) (terminal_revision r)), u))"
proof -
  have s_ok: "store_ok s" unfolding s by (rule terminal.inv_reachable [OF made])
  obtain c0 where entry: "map_of (terminal_records t) (record_id r) = Some c0" "commit_record c0 = r"
      "c\<lparr>commit_replayed := True\<rparr> = c0\<lparr>commit_replayed := True\<rparr>"
  proof (cases "map_of (terminal_records s) (record_id r)")
    case None
    then show ?thesis using com that [of "new_commit s r"]
      by (auto simp: record_tool_terminal_cases [OF s_ok] new_commit_def split: if_splits)
  next
    case (Some c0)
    then show ?thesis using com that [of c0] by (auto simp: record_tool_terminal_cases [OF s_ok] split: if_splits)
  qed
  have t: "t = terminal_exec (RecordCall r) s" using com by simp
  have t_ok: "store_ok t" unfolding t by (rule terminal_exec_ok [OF s_ok])
  have u_ok: "store_ok u" unfolding u by (rule terminal.inv_calls [OF t_ok])
  have "map_of (terminal_records u) (record_id r) = Some c0" unfolding u by (rule terminal_keeps_all(1) [OF t_ok entry(1)])
  then show ?thesis using entry(2,3) by (auto simp: record_tool_terminal_cases [OF u_ok] record_id_def)
qed

theorem terminal_record_final_witness:
  "record_tool_terminal (ArgObject (sample_terminal True)) (fold terminal_exec [sample_stop] (snd (record_tool_terminal (ArgObject (sample_terminal True)) sample_store))) =
   (Inr (new_commit sample_store (sample_terminal True)\<lparr>commit_replayed := True\<rparr>),
    fold terminal_exec [sample_stop] (snd (record_tool_terminal (ArgObject (sample_terminal True)) sample_store)))"
proof -
  have a: "record_tool_terminal (ArgObject (sample_terminal True)) sample_store =
      (Inr (new_commit sample_store (sample_terminal True)), snd (record_tool_terminal (ArgObject (sample_terminal True)) sample_store))"
    by code_simp
  show ?thesis
    by (rule conjunct1 [OF terminal_record_final [where calls = "[]", OF sample_store_made _ a refl]]) simp
qed

end
