(* ===== verification/Durable_Flow.thy ===== *)
theory Durable_Flow
  imports Durable_Stream_Props Durable_Sink_Props
begin

text \<open>
  A source that delivers at least once composed with a sink that commits each idempotency key once:
  events that are delivered again are recognised by their key, so the sink ends with exactly one
  commit for each event.
\<close>

definition event_request :: "(source_cursor \<Rightarrow> string) \<Rightarrow> source_event \<Rightarrow> sink_commit_request" where
  "event_request key e =
     \<lparr>request_run_id = ''run'', request_node_id = ''node'', request_node_attempt_id = ''attempt'',
      request_idempotency_key = key (event_cursor e), request_payload = event_payload e, request_precondition = None\<rparr>"

text \<open>A consumer that commits the delivered events one after the other.\<close>

definition commit_event :: "(source_cursor \<Rightarrow> string) \<Rightarrow> source_event \<Rightarrow> durable_sink \<Rightarrow> durable_sink" where
  "commit_event key e k = snd (sink_commit (ArgObject (event_request key e)) k)"

definition cursor_keys_ok :: "source_cursor set \<Rightarrow> (source_cursor \<Rightarrow> string) \<Rightarrow> bool" where
  "cursor_keys_ok C key \<longleftrightarrow> inj_on key C \<and> (\<forall>c\<in>C. trimmed (key c))"

lemma event_request_ok: "trimmed (key (event_cursor e)) \<Longrightarrow> request_ok (event_request key e)"
  by (simp add: request_ok_def event_request_def sink_digest_def digest_value_def)

lemma commit_event_exec:
  assumes "trimmed (key (event_cursor e))"
  shows "commit_event key e k = sink_exec (SinkCommit (PyStr ''run'') (PyStr ''node'') (PyStr ''attempt'')
    (PyStr (key (event_cursor e))) (event_payload e) PyNone) k"
proof -
  have "mk_sink_commit_request (PyStr ''run'') (PyStr ''node'') (PyStr ''attempt'') (PyStr (key (event_cursor e))) (event_payload e) PyNone
      = Inr (event_request key e)"
  proof -
    have "py_strip ''run'' = ''run''" "py_strip ''node'' = ''node''" "py_strip ''attempt'' = ''attempt''" by code_simp+
    then show ?thesis using assms by (simp add: mk_sink_commit_request_def event_request_def trimmed_def sink_digest_def)
  qed
  then show ?thesis by (simp add: commit_event_def)
qed

text \<open>
  What the sink should hold: the events in the order of their first delivery, each committed
  under the next sequence number.
\<close>

definition first_deliveries :: "source_event list \<Rightarrow> source_event list" where
  "first_deliveries es = rev (remdups (rev es))"

lemma first_deliveries_snoc [simp]:
  "first_deliveries [] = []"
  "first_deliveries (es @ [e]) = (if e \<in> set es then first_deliveries es else first_deliveries es @ [e])"
  by (simp_all add: first_deliveries_def)

lemma first_deliveries_set [simp]: "set (first_deliveries es) = set es" "distinct (first_deliveries es)"
  by (simp_all add: first_deliveries_def)

lemma first_deliveries_length: "distinct xs \<Longrightarrow> set es = set xs \<Longrightarrow> length (first_deliveries es) = length xs"
  using distinct_card [of xs] distinct_card [of "first_deliveries es"] by simp

definition event_commit ::
  "(source_cursor \<Rightarrow> string) \<Rightarrow> durable_sink \<Rightarrow> nat \<times> source_event \<Rightarrow> string \<times> sink_commit_request \<times> sink_commit_result" where
  "event_commit key k = (\<lambda>(i, e). (key (event_cursor e), event_request key e,
     \<lparr>result_sink_id = sink_name k, result_key = key (event_cursor e), result_precondition = None,
      result_sequence = sink_next_sequence k + int i, result_metadata = event_payload e, result_replayed = False\<rparr>))"

definition sink_after :: "(source_cursor \<Rightarrow> string) \<Rightarrow> durable_sink \<Rightarrow> source_event list \<Rightarrow> durable_sink" where
  "sink_after key k es = k\<lparr>sink_commits := map (event_commit key k) (enumerate 0 (first_deliveries es)),
     sink_next_sequence := sink_next_sequence k + int (length (first_deliveries es))\<rparr>"

lemma sink_after_keys: "fst ` set (sink_commits (sink_after key k es)) = (key \<circ> event_cursor) ` set es"
proof -
  have "map fst (sink_commits (sink_after key k es)) = map (key \<circ> event_cursor) (map snd (enumerate 0 (first_deliveries es)))"
    by (simp add: sink_after_def event_commit_def split_beta del: map_snd_enumerate)
  then have "set (map fst (sink_commits (sink_after key k es))) = (key \<circ> event_cursor) ` set es" by simp
  then show ?thesis by simp
qed

lemma commit_events_exact:
  assumes k: "sink_ok k" "sink_commits k = []" and key: "\<And>e. e \<in> set es \<Longrightarrow> trimmed (key (event_cursor e))"
    and inj: "inj_on (key \<circ> event_cursor) (set es)"
    and room: "sink_next_sequence k + int (length (first_deliveries es)) \<le> DURABLE_MAX_U64 + 1"
  shows "fold (commit_event key) es k = sink_after key k es \<and> sink_ok (fold (commit_event key) es k)"
  using key inj room
proof (induction es rule: rev_induct)
  case Nil
  then show ?case using k by (simp add: sink_after_def)
next
  case (snoc e es)
  let ?k = "sink_after key k es"
  have IH: "fold (commit_event key) es k = ?k" "sink_ok ?k"
    using snoc.IH snoc.prems by (auto simp: inj_on_def split: if_splits)
  have tr: "trimmed (key (event_cursor e))" using snoc.prems(1) by simp
  have ok: "sink_ok (commit_event key e ?k)" unfolding commit_event_exec [of key, OF tr] by (rule sink_exec_ok [OF IH(2)])
  note cases = sink_commit_cases [OF IH(2) event_request_ok [of key, OF tr]]
  have rk: "request_idempotency_key (event_request key e) = key (event_cursor e)" by (simp add: event_request_def)
  have seen: "map_of (sink_commits ?k) (key (event_cursor e)) = None \<longleftrightarrow> e \<notin> set es"
  proof -
    have "key (event_cursor e) \<in> (key \<circ> event_cursor) ` set es \<longleftrightarrow> e \<in> set es"
      using snoc.prems(2) by (auto simp: inj_on_def)
    then show ?thesis unfolding map_of_eq_None_iff sink_after_keys by simp
  qed
  have "commit_event key e ?k = sink_after key k (es @ [e])"
  proof (cases "e \<in> set es")
    case True
    then have "sink_after key k (es @ [e]) = ?k" by (simp add: sink_after_def)
    then show ?thesis using seen True by (auto simp: commit_event_def cases rk split: option.splits)
  next
    case False
    have "sink_next_sequence ?k \<le> DURABLE_MAX_U64" using snoc.prems(3) False by (simp add: sink_after_def)
    then show ?thesis
      using seen False
      by (simp add: commit_event_def cases rk dict_set_new) (simp add: sink_after_def event_commit_def new_sink_result_def event_request_def enumerate_append_eq)
  qed
  then show ?case using IH(1) ok by simp
qed

text \<open>
  C4: Delivery is effectively once. A consumer drains a reachable source that is not paused, with any
  positive demand and at least as many rounds as there are pending events, and commits each event it
  is given to a sink with no commits yet, under keys that identify cursors; the sink has a sequence
  number left for each pending event. The source may deliver an event several times. The sink ends
  with exactly the pending events: one commit for each, with its payload, in the order of their first
  deliveries and under consecutive sequence numbers, and its next number has advanced by the number
  of pending events. A delivery of an event already delivered leaves the sink as it is.
\<close>

theorem delivery_effectively_once:
  assumes made: "source_made dumps s0" and s: "s = fold source_exec calls s0" and "\<not> source_paused s" "0 < d" "d \<le> DURABLE_MAX_U64"
    and drained: "drain n (PyInt d) s = (delivered, t)" and rounds: "length (pending s) \<le> n"
    and sink: "sink_made k" "sink_commits k = []" "sink_next_sequence k + int (length (pending s)) \<le> DURABLE_MAX_U64 + 1"
    and key: "cursor_keys_ok (event_cursor ` set (pending s)) key"
    and final: "final = fold (commit_event key) delivered k"
  shows "sink_commits final = map (event_commit key k) (enumerate 0 (first_deliveries delivered)) \<and>
    set (first_deliveries delivered) = set (pending s) \<and> distinct (first_deliveries delivered) \<and>
    sink_next_sequence final = sink_next_sequence k + int (length (pending s)) \<and>
    committed_count final = int (length (pending s)) \<and>
    (\<forall>i. map_of (sink_commits final) i \<noteq> None \<longleftrightarrow> (\<exists>e\<in>set (pending s). i = key (event_cursor e))) \<and>
    (\<forall>xs e ys. delivered = xs @ e # ys \<longrightarrow> e \<in> set xs \<longrightarrow>
       commit_event key e (fold (commit_event key) xs k) = fold (commit_event key) xs k)"
proof -
  have ok: "source_ok s" unfolding s by (rule source.inv_reachable [OF made])
  have "set (pending s) = set delivered \<union> set (pending t) \<and> length (pending t) \<le> length (pending s) - n"
    by (rule drain_delivers [OF ok]) fact+
  then have all: "set delivered = set (pending s)" using rounds by auto
  have dist: "distinct (pending s)" and "inj_on event_cursor (set (pending s))"
    using pending_sorted [OF ok] by (simp_all add: strict_sorted_iff distinct_map)
  then have inj: "inj_on (key \<circ> event_cursor) (set delivered)"
    unfolding all using key by (intro comp_inj_on) (simp_all add: cursor_keys_ok_def)
  have len: "length (first_deliveries delivered) = length (pending s)" by (rule first_deliveries_length [OF dist all])
  have tr: "trimmed (key (event_cursor e))" if "e \<in> set delivered" for e
    using key that by (simp add: all cursor_keys_ok_def)
  have run: "fold (commit_event key) xs k = sink_after key k xs"
    if "delivered = xs @ ys" for xs ys
  proof -
    have "length (first_deliveries xs) \<le> length (first_deliveries delivered)"
      using distinct_card [OF first_deliveries_set(2), of xs] distinct_card [OF first_deliveries_set(2), of delivered]
        card_mono [of "set delivered" "set xs"] that by simp
    moreover have "inj_on (key \<circ> event_cursor) (set xs)" by (rule inj_on_subset [OF inj]) (simp add: that)
    ultimately show ?thesis
      using commit_events_exact [OF sink.inv_init [OF sink(1)] sink(2), of xs key] tr sink(3) len that by simp
  qed
  have again: "commit_event key e (fold (commit_event key) xs k) = fold (commit_event key) xs k"
    if d: "delivered = xs @ e # ys" and "e \<in> set xs" for xs e ys
    using run [of "xs @ [e]" ys] run [of xs "e # ys"] that by (simp add: sink_after_def)
  have fin: "final = sink_after key k delivered" using run [of delivered "[]"] final by simp
  have "map_of (sink_commits final) i \<noteq> None \<longleftrightarrow> (\<exists>e\<in>set (pending s). i = key (event_cursor e))" for i
    unfolding map_of_eq_None_iff fin sink_after_keys all by auto
  then show ?thesis
    using again len all by (simp add: fin sink_after_def committed_count_def)
qed

definition flow_key :: "source_cursor \<Rightarrow> string" where
  "flow_key c = stream c @ ''-'' @ nat_digits (nat (offset c))"

text \<open>With a demand of three the last event moves only its own partition on, and the other two are delivered again.\<close>

lemma sample_redelivered:
  "drain 3 (PyInt 3) sample_source =
     ([stream_event ''a'' 1 10, stream_event ''a'' 2 20, stream_event ''b'' 1 30, stream_event ''a'' 1 10, stream_event ''a'' 2 20],
      snd (drain 3 (PyInt 3) sample_source))"
  by code_simp

theorem delivery_effectively_once_witness:
  "committed_count (fold (commit_event flow_key)
     [stream_event ''a'' 1 10, stream_event ''a'' 2 20, stream_event ''b'' 1 30, stream_event ''a'' 1 10, stream_event ''a'' 2 20]
     sample_sink) = 3"
proof -
  let ?C = "event_cursor ` set (pending sample_source)"
  have "map flow_key (map event_cursor (pending sample_source)) = [''a-1'', ''a-2'', ''b-1'']" by code_simp
  moreover have "trimmed ''a-1''" "trimmed ''a-2''" "trimmed ''b-1''" by code_simp+
  ultimately have "cursor_keys_ok ?C flow_key"
    by (simp add: cursor_keys_ok_def sample_source_pending inj_on_def stream_event_def)
  then show ?thesis
    using delivery_effectively_once [where calls = "[]", OF sample_source_made _ sample_source_pending(2) _ _ sample_redelivered _
        sample_sink_made _ _ _ refl, of flow_key]
    by (simp add: sample_source_pending sample_sink_def)
qed

end
