(* ===== verification/Checkpoints.thy ===== *)
theory Checkpoints
  imports Durable_Stream
begin

text \<open>
  Checkpoint barriers and their store, the last part of \<^verbatim>\<open>durable.py\<close>. The identifiers of a barrier
  are checked by \<^verbatim>\<open>validate\<close> and not by the constructor, so they are arbitrary values in the
  record. Mappings of operator state and sink metadata are stored as their canonical JSON
  snapshot: the parameter \<open>snapshot\<close> stands for \<^verbatim>\<open>canonical_loads(canonical_dumps(value))\<close>, \<^const>\<open>None\<close>
  when it raises. A frozen copy of a JSON value is the value.
\<close>

datatype checkpoint_error =
    CheckpointDurableError
  | CheckpointBarrierError string
  | CheckpointStoreError
  | StaleCheckpointError string int int
  | CheckpointAttributeError

definition checkpoint_integer :: "int \<Rightarrow> pyval \<Rightarrow> checkpoint_error + int" where
  "checkpoint_integer maximum v = (case require_integer maximum v of Inl _ \<Rightarrow> Inl CheckpointDurableError | Inr n \<Rightarrow> Inr n)"

definition checkpoint_natural :: "int \<Rightarrow> pyval \<Rightarrow> checkpoint_error + int" where
  "checkpoint_natural maximum v = (case require_natural maximum v of Inl _ \<Rightarrow> Inl CheckpointDurableError | Inr n \<Rightarrow> Inr n)"

text \<open>A string that is not blank and has no surrounding white space.\<close>

fun exact_string :: "pyval \<Rightarrow> string option" where
  "exact_string (PyStr s) = (if py_strip s = [] \<or> s \<noteq> py_strip s then None else Some s)"
| "exact_string _ = None"

definition checkpoint_key :: "pyval \<Rightarrow> checkpoint_error + string" where
  "checkpoint_key v = (case exact_string v of None \<Rightarrow> Inl CheckpointDurableError | Some s \<Rightarrow> Inr s)"

section \<open>Schema references and commit plans\<close>

record schema_ref =
  schema_id :: string
  schema_version :: int

fun mk_schema_ref :: "pyval \<Rightarrow> pyval \<Rightarrow> checkpoint_error + schema_ref" where
  "mk_schema_ref (PyStr s) version_v =
     bind_sum (checkpoint_integer DURABLE_MAX_U32 version_v) (\<lambda>n. Inr \<lparr>schema_id = s, schema_version = n\<rparr>)"
| "mk_schema_ref _ version_v = Inl CheckpointDurableError"

text \<open>
  The entries of a plan, \<^const>\<open>None\<close> for an element that is no pair; \<^const>\<open>None\<close> for the whole when it is
  a string or cannot be iterated.
\<close>

fun plan_entries ::
  "(pyval \<times> source_cursor instance_arg) option list \<Rightarrow> string list \<Rightarrow> checkpoint_error + (string \<times> source_cursor) list" where
  "plan_entries [] source_ids = Inr []"
| "plan_entries (None # items) source_ids = Inl CheckpointDurableError"
| "plan_entries (Some (id_v, cursor_v) # items) source_ids =
     bind_sum (checkpoint_key id_v) (\<lambda>i.
     if i \<in> set source_ids then Inl CheckpointDurableError
     else case cursor_v of
       ArgObject c \<Rightarrow> bind_sum (plan_entries items (i # source_ids)) (\<lambda>rest. Inr ((i, c) # rest))
     | _ \<Rightarrow> Inl CheckpointDurableError)"

definition mk_source_cursor_commit_plan ::
  "(pyval \<times> source_cursor instance_arg) option list option \<Rightarrow> checkpoint_error + (string \<times> source_cursor) list" where
  "mk_source_cursor_commit_plan v =
     (case v of None \<Rightarrow> Inl CheckpointDurableError
      | Some items \<Rightarrow> bind_sum (plan_entries items []) (\<lambda>entries. Inr (sort_key fst entries)))"

section \<open>Barriers\<close>

text \<open>The loop that copies a mapping item by item, each item checked by \<open>item\<close>.\<close>

fun copy_items :: "('x \<Rightarrow> checkpoint_error + string \<times> 'v) \<Rightarrow> 'x list \<Rightarrow> (string, 'v) dict \<Rightarrow> checkpoint_error + (string, 'v) dict" where
  "copy_items item [] copied = Inr copied"
| "copy_items item (x # xs) copied = bind_sum (item x) (\<lambda>(k, v). copy_items item xs (dict_set k v copied))"

definition sorted_copy :: "('x \<Rightarrow> checkpoint_error + string \<times> 'v) \<Rightarrow> 'x list \<Rightarrow> checkpoint_error + (string, 'v) dict" where
  "sorted_copy item xs = bind_sum (copy_items item xs []) (\<lambda>d. Inr (sort_key fst d))"

definition value_item :: "pyval \<times> pyval \<Rightarrow> checkpoint_error + string \<times> pyval" where
  "value_item x = bind_sum (checkpoint_key (fst x)) (\<lambda>k. Inr (k, snd x))"

definition version_item :: "pyval \<times> pyval \<Rightarrow> checkpoint_error + string \<times> int" where
  "version_item x = bind_sum (checkpoint_key (fst x)) (\<lambda>k. bind_sum (checkpoint_natural DURABLE_MAX_U32 (snd x)) (\<lambda>n. Inr (k, n)))"

definition cursor_item :: "pyval \<times> source_cursor instance_arg \<Rightarrow> checkpoint_error + string \<times> source_cursor" where
  "cursor_item x =
     bind_sum (checkpoint_key (fst x)) (\<lambda>k.
     case snd x of ArgObject c \<Rightarrow> Inr (k, c) | _ \<Rightarrow> Inl CheckpointDurableError)"

definition copy_checkpoint_mapping :: "(pyval \<Rightarrow> pyval option) \<Rightarrow> pyval \<Rightarrow> checkpoint_error + (string, pyval) dict" where
  "copy_checkpoint_mapping snapshot v =
     (case v of
        PyDict _ \<Rightarrow>
          (case snapshot v of Some (PyDict items) \<Rightarrow> sorted_copy value_item items | _ \<Rightarrow> Inl CheckpointDurableError)
      | _ \<Rightarrow> Inl CheckpointDurableError)"

definition checkpoint_nodes :: "pyval list option \<Rightarrow> checkpoint_error + string list" where
  "checkpoint_nodes v =
     (case v of None \<Rightarrow> Inl CheckpointDurableError
      | Some xs \<Rightarrow> bind_sum (map_sum_list checkpoint_key xs) (\<lambda>nodes.
          if distinct nodes then Inr nodes else Inl CheckpointDurableError))"

record checkpoint_barrier =
  checkpoint_id :: pyval
  barrier_run_id :: pyval
  release_id :: pyval
  deployment_revision_id :: pyval
  plan_hash :: pyval
  checkpoint_schema :: "schema_ref instance_arg"
  state_revision :: int
  completed_nodes :: "string list"
  pending_nodes :: "string list"
  source_cursors :: "(string, source_cursor) dict"
  operator_state :: "(string, pyval) dict"
  sink_commit_metadata :: "(string, pyval) dict"
  schema_versions :: "(string, int) dict"
  created_at_unix_ms :: int

definition mapping_items :: "'x list option \<Rightarrow> checkpoint_error + 'x list" where
  "mapping_items v = (case v of None \<Rightarrow> Inl CheckpointDurableError | Some xs \<Rightarrow> Inr xs)"

definition mk_checkpoint_barrier ::
  "(pyval \<Rightarrow> pyval option) \<Rightarrow> pyval \<Rightarrow> pyval \<Rightarrow> pyval \<Rightarrow> pyval \<Rightarrow> pyval \<Rightarrow> schema_ref instance_arg \<Rightarrow> pyval
     \<Rightarrow> pyval list option \<Rightarrow> pyval list option \<Rightarrow> (pyval \<times> source_cursor instance_arg) list option \<Rightarrow> pyval \<Rightarrow> pyval
     \<Rightarrow> (pyval \<times> pyval) list option \<Rightarrow> pyval \<Rightarrow> checkpoint_error + checkpoint_barrier" where
  "mk_checkpoint_barrier snapshot id_v run_v release_v deployment_v plan_v schema_v revision_v completed_v pending_v
       cursors_v operator_v metadata_v versions_v created_v =
     bind_sum (checkpoint_natural DURABLE_MAX_U64 revision_v) (\<lambda>revision.
     bind_sum (checkpoint_natural DURABLE_MAX_U64 created_v) (\<lambda>created.
     bind_sum (mapping_items versions_v) (\<lambda>version_items.
     bind_sum (sorted_copy version_item version_items) (\<lambda>versions.
     bind_sum (checkpoint_nodes completed_v) (\<lambda>completed.
     bind_sum (checkpoint_nodes pending_v) (\<lambda>pending.
     bind_sum (if set completed \<inter> set pending \<noteq> {} then Inl CheckpointDurableError else Inr ()) (\<lambda>_.
     bind_sum (mapping_items cursors_v) (\<lambda>cursor_items.
     bind_sum (sorted_copy cursor_item cursor_items) (\<lambda>cursors.
     bind_sum (copy_checkpoint_mapping snapshot operator_v) (\<lambda>operator.
     bind_sum (copy_checkpoint_mapping snapshot metadata_v) (\<lambda>metadata.
     Inr \<lparr>checkpoint_id = id_v, barrier_run_id = run_v, release_id = release_v, deployment_revision_id = deployment_v,
          plan_hash = plan_v, checkpoint_schema = schema_v, state_revision = revision, completed_nodes = completed,
          pending_nodes = pending, source_cursors = cursors, operator_state = operator, sink_commit_metadata = metadata,
          schema_versions = versions, created_at_unix_ms = created\<rparr>)))))))))))"

definition dict_value :: "(string, pyval) dict \<Rightarrow> pyval" where
  "dict_value d = PyDict (map (\<lambda>(k, v). (PyStr k, v)) d)"

text \<open>
  A barrier built again from the fields of another one, as \<^verbatim>\<open>replace\<close> and \<^verbatim>\<open>_copy_checkpoint_barrier\<close>
  do, with the given schema and source cursors.
\<close>

definition rebuild_barrier ::
  "(pyval \<Rightarrow> pyval option) \<Rightarrow> schema_ref instance_arg \<Rightarrow> (string, source_cursor) dict \<Rightarrow> checkpoint_barrier
     \<Rightarrow> checkpoint_error + checkpoint_barrier" where
  "rebuild_barrier snapshot schema cursors b =
     mk_checkpoint_barrier snapshot (checkpoint_id b) (barrier_run_id b) (release_id b) (deployment_revision_id b) (plan_hash b)
       schema (PyInt (state_revision b)) (Some (map PyStr (completed_nodes b))) (Some (map PyStr (pending_nodes b)))
       (Some (map (\<lambda>(k, c). (PyStr k, ArgObject c)) cursors)) (dict_value (operator_state b)) (dict_value (sink_commit_metadata b))
       (Some (map (\<lambda>(k, n). (PyStr k, PyInt n)) (schema_versions b))) (PyInt (created_at_unix_ms b))"

definition with_source_cursor ::
  "(pyval \<Rightarrow> pyval option) \<Rightarrow> checkpoint_barrier \<Rightarrow> pyval \<Rightarrow> source_cursor instance_arg \<Rightarrow> checkpoint_error + checkpoint_barrier" where
  "with_source_cursor snapshot b source_v cursor_v =
     bind_sum (checkpoint_key source_v) (\<lambda>i.
     case cursor_v of
       ArgObject c \<Rightarrow> rebuild_barrier snapshot (checkpoint_schema b) (dict_set i c (source_cursors b)) b
     | _ \<Rightarrow> Inl CheckpointDurableError)"

definition require_exact :: "string \<Rightarrow> pyval \<Rightarrow> checkpoint_error + string" where
  "require_exact reason v = (case exact_string v of None \<Rightarrow> Inl (CheckpointBarrierError reason) | Some s \<Rightarrow> Inr s)"

definition validate_barrier :: "checkpoint_barrier \<Rightarrow> checkpoint_error + checkpoint_barrier" where
  "validate_barrier b =
     bind_sum (require_exact ''missing_checkpoint_id'' (checkpoint_id b)) (\<lambda>_.
     bind_sum (require_exact ''missing_run_id'' (barrier_run_id b)) (\<lambda>_.
     bind_sum (require_exact ''missing_release_id'' (release_id b)) (\<lambda>_.
     bind_sum (require_exact ''missing_deployment_revision_id'' (deployment_revision_id b)) (\<lambda>_.
     bind_sum (require_exact ''missing_plan_hash'' (plan_hash b)) (\<lambda>_.
     case checkpoint_schema b of
       ArgObject schema \<Rightarrow>
         if exact_string (PyStr (schema_id schema)) = None \<or> schema_version schema \<le> 0
         then Inl (CheckpointBarrierError ''invalid_checkpoint_schema'')
         else if schema_versions b = [] then Inl (CheckpointBarrierError ''missing_schema_versions'')
         else Inr b
     | _ \<Rightarrow> Inl (CheckpointBarrierError ''invalid_checkpoint_schema''))))))"

definition source_commit_plan :: "checkpoint_barrier \<Rightarrow> checkpoint_error + (string \<times> source_cursor) list" where
  "source_commit_plan b =
     mk_source_cursor_commit_plan (Some (map (\<lambda>(k, c). Some (PyStr k, ArgObject c)) (source_cursors b)))"

definition copy_checkpoint_barrier :: "(pyval \<Rightarrow> pyval option) \<Rightarrow> checkpoint_barrier \<Rightarrow> checkpoint_error + checkpoint_barrier" where
  "copy_checkpoint_barrier snapshot b =
     (case checkpoint_schema b of
        ArgObject schema \<Rightarrow>
          bind_sum (mk_schema_ref (PyStr (schema_id schema)) (PyInt (schema_version schema))) (\<lambda>copied.
          rebuild_barrier snapshot (ArgObject copied) (source_cursors b) b)
      | _ \<Rightarrow> Inl CheckpointAttributeError)"

section \<open>The checkpoint store\<close>

type_synonym checkpoint_store = "(string, checkpoint_barrier list) dict"

fun restore_run ::
  "(pyval \<Rightarrow> pyval option) \<Rightarrow> string \<Rightarrow> checkpoint_barrier instance_arg list \<Rightarrow> int option \<Rightarrow> checkpoint_error + checkpoint_barrier list" where
  "restore_run snapshot run [] previous = Inr []"
| "restore_run snapshot run (ArgObject b # bs) previous =
     bind_sum (validate_barrier b) (\<lambda>_.
     if barrier_run_id b \<noteq> PyStr run then Inl CheckpointStoreError
     else if (case previous of None \<Rightarrow> False | Some n \<Rightarrow> state_revision b \<le> n) then Inl CheckpointStoreError
     else bind_sum (copy_checkpoint_barrier snapshot b) (\<lambda>copied.
          bind_sum (restore_run snapshot run bs (Some (state_revision b))) (\<lambda>rest. Inr (copied # rest))))"
| "restore_run snapshot run (_ # bs) previous = Inl CheckpointStoreError"

fun restore_runs ::
  "(pyval \<Rightarrow> pyval option) \<Rightarrow> (pyval \<times> checkpoint_barrier instance_arg list option) list \<Rightarrow> checkpoint_store
     \<Rightarrow> checkpoint_error + checkpoint_store" where
  "restore_runs snapshot [] restored = Inr restored"
| "restore_runs snapshot ((run_v, bs) # items) restored =
     (case exact_string run_v of None \<Rightarrow> Inl CheckpointStoreError
      | Some run \<Rightarrow>
          (case bs of None \<Rightarrow> Inl CheckpointStoreError
           | Some barriers \<Rightarrow>
               bind_sum (restore_run snapshot run barriers None) (\<lambda>copied.
               restore_runs snapshot items (dict_set run copied restored))))"

definition mk_checkpoint_store ::
  "(pyval \<Rightarrow> pyval option) \<Rightarrow> (pyval \<times> checkpoint_barrier instance_arg list option) list option \<Rightarrow> checkpoint_error + checkpoint_store" where
  "mk_checkpoint_store snapshot v =
     (case v of None \<Rightarrow> Inl CheckpointStoreError | Some items \<Rightarrow> restore_runs snapshot items [])"

type_synonym 'a checkpoint_op = "(checkpoint_store, checkpoint_error, 'a) py"

definition run_checkpoints :: "checkpoint_store \<Rightarrow> string \<Rightarrow> checkpoint_barrier list" where
  "run_checkpoints s run = (case map_of s run of None \<Rightarrow> [] | Some bs \<Rightarrow> bs)"

definition current_revision :: "checkpoint_barrier list \<Rightarrow> int option" where
  "current_revision bs = (case map state_revision bs of [] \<Rightarrow> None | n # ns \<Rightarrow> Some (foldl max n ns))"

definition put :: "(pyval \<Rightarrow> pyval option) \<Rightarrow> checkpoint_barrier instance_arg \<Rightarrow> unit checkpoint_op" where
  "put snapshot barrier_v =
     (case barrier_v of
        ArgObject b \<Rightarrow>
          bind_py (lift_py (validate_barrier b)) (\<lambda>_.
          bind_py (lift_py (require_exact ''missing_run_id'' (barrier_run_id b))) (\<lambda>run.
          bind_py (modify_py (\<lambda>s. if map_of s run = None then dict_set run [] s else s)) (\<lambda>_.
          bind_py (gets_py (\<lambda>s. run_checkpoints s run)) (\<lambda>checkpoints.
          bind_py (case current_revision checkpoints of None \<Rightarrow> return_py ()
                   | Some n \<Rightarrow> raise_if (state_revision b \<le> n) (StaleCheckpointError run n (state_revision b))) (\<lambda>_.
          bind_py (lift_py (copy_checkpoint_barrier snapshot b)) (\<lambda>copied.
          modify_py (\<lambda>s. dict_set run (checkpoints @ [copied]) s)))))))
      | _ \<Rightarrow> raise_py CheckpointStoreError)"

definition compatible :: "string \<Rightarrow> string \<Rightarrow> string \<Rightarrow> checkpoint_barrier \<Rightarrow> bool" where
  "compatible release deployment plan b \<longleftrightarrow>
     release_id b = PyStr release \<and> deployment_revision_id b = PyStr deployment \<and> plan_hash b = PyStr plan"

definition latest_compatible ::
  "(pyval \<Rightarrow> pyval option) \<Rightarrow> string \<Rightarrow> string \<Rightarrow> string \<Rightarrow> string \<Rightarrow> checkpoint_barrier option checkpoint_op" where
  "latest_compatible snapshot run release deployment plan =
     bind_py (gets_py (\<lambda>s. filter (compatible release deployment plan) (run_checkpoints s run))) (\<lambda>found.
     case found of
       [] \<Rightarrow> return_py None
     | b # bs \<Rightarrow>
         bind_py (lift_py (copy_checkpoint_barrier snapshot
           (foldl (\<lambda>m c. if state_revision m < state_revision c then c else m) b bs))) (\<lambda>copied.
         return_py (Some copied)))"

end
