(* ===== verification/Checkpoints_Props.thy ===== *)
theory Checkpoints_Props
  imports Checkpoints
begin

text \<open>
  What the checkpoint store promises: a barrier read back is the barrier stored, the revisions of
  a run only grow, and the latest compatible checkpoint is the greatest one.
\<close>

section \<open>Copies of mappings\<close>

lemma checkpoint_natural_Inr: "checkpoint_natural m v = Inr n \<longleftrightarrow> v = PyInt n \<and> 0 \<le> n \<and> n \<le> m"
  by (cases v) (auto simp: checkpoint_natural_def require_natural_def)

lemma exact_string_Some: "exact_string v = Some s \<longleftrightarrow> v = PyStr s \<and> py_strip s = s \<and> s \<noteq> []"
  by (cases v) auto

lemma checkpoint_key_Inr: "checkpoint_key v = Inr s \<longleftrightarrow> v = PyStr s \<and> py_strip s = s \<and> s \<noteq> []"
  by (cases v) (auto simp: checkpoint_key_def)

lemma copy_items_all:
  "copy_items item xs copied = Inr d \<Longrightarrow> \<forall>x\<in>set xs. \<exists>p. item x = Inr p"
  by (induction item xs copied rule: copy_items.induct) (auto simp: bind_sum_Inr_iff)

lemma copy_items_values:
  assumes "copy_items item xs copied = Inr d" and "dict_ok copied"
  shows "dict_ok d \<and> set d \<subseteq> set copied \<union> {p. \<exists>x\<in>set xs. item x = Inr p}"
  using assms
proof (induction item xs copied rule: copy_items.induct)
  case (2 item x xs copied)
  obtain k v where kv: "item x = Inr (k, v)" "copy_items item xs (dict_set k v copied) = Inr d"
    using 2(2) by (auto simp: bind_sum_Inr_iff)
  have "dict_ok d \<and> set d \<subseteq> set (dict_set k v copied) \<union> {p. \<exists>x\<in>set xs. item x = Inr p}"
    by (rule 2(1) [OF kv(2)]) (simp add: 2(3))
  then show ?case using dict_set_subset [of k v copied] kv(1) by fastforce
qed simp

lemma copy_items_same:
  assumes "\<And>p. p \<in> set d \<Longrightarrow> item (f p) = Inr p" and "dict_ok (copied @ d)"
  shows "copy_items item (map f d) copied = Inr (copied @ d)"
  using assms
proof (induction d arbitrary: copied)
  case (Cons p d)
  obtain k v where p: "p = (k, v)" by force
  have "k \<notin> fst ` set copied" using Cons.prems(2) by (auto simp: dict_ok_def p)
  then have "dict_set k v copied = copied @ [p]" by (simp add: dict_set_new map_of_eq_None_iff p)
  then show ?case using Cons by (simp add: p)
qed simp

definition canonical_dict :: "(string, 'v) dict \<Rightarrow> bool" where
  "canonical_dict d \<longleftrightarrow> sorted_wrt (<) (map fst d)"

lemma canonical_dict_ok: "canonical_dict d \<Longrightarrow> dict_ok d"
  by (simp add: canonical_dict_def dict_ok_def strict_sorted_iff)

lemma sort_canonical: "canonical_dict d \<Longrightarrow> sort_key fst d = d"
  by (simp add: canonical_dict_def strict_sorted_iff sorted_sort_id sort_key_id_if_sorted)

lemma sorted_copy_canonical:
  assumes "sorted_copy item xs = Inr d"
  shows "canonical_dict d" "\<And>p. p \<in> set d \<Longrightarrow> \<exists>x\<in>set xs. item x = Inr p"
proof -
  obtain d0 where d0: "copy_items item xs [] = Inr d0" "d = sort_key fst d0"
    using assms by (auto simp: sorted_copy_def bind_sum_Inr_iff)
  have v: "dict_ok d0" "set d0 \<subseteq> {p. \<exists>x\<in>set xs. item x = Inr p}" using copy_items_values [OF d0(1)] by auto
  have "distinct (map fst d)" using v(1) by (simp add: d0 dict_ok_def distinct_map inj_on_def)
  then show "canonical_dict d" by (simp add: d0 canonical_dict_def strict_sorted_iff)
  show "\<exists>x\<in>set xs. item x = Inr p" if "p \<in> set d" for p using v(2) that by (auto simp: d0)
qed

lemma sorted_copy_same:
  "canonical_dict d \<Longrightarrow> (\<And>p. p \<in> set d \<Longrightarrow> item (f p) = Inr p) \<Longrightarrow> sorted_copy item (map f d) = Inr d"
  using copy_items_same [of d item f "[]"] by (simp add: sorted_copy_def canonical_dict_ok sort_canonical)

text \<open>
  What canonical JSON guarantees of a snapshot: the keys of an object are strings in strict order,
  and a snapshot is its own snapshot.
\<close>

definition canonical_snapshot :: "(pyval \<Rightarrow> pyval option) \<Rightarrow> bool" where
  "canonical_snapshot snapshot \<longleftrightarrow>
     (\<forall>v items. snapshot v = Some (PyDict items) \<longrightarrow>
        snapshot (PyDict items) = Some (PyDict items) \<and>
        (\<exists>d. canonical_dict d \<and> items = map (\<lambda>(k, x). (PyStr k, x)) d))"

lemma copy_mapping_same:
  assumes "canonical_snapshot snapshot" "copy_checkpoint_mapping snapshot v = Inr d"
  shows "copy_checkpoint_mapping snapshot (dict_value d) = Inr d"
proof -
  obtain items where items: "snapshot v = Some (PyDict items)" "sorted_copy value_item items = Inr d"
    using assms(2) by (auto simp: copy_checkpoint_mapping_def split: pyval.splits option.splits)
  obtain d0 where d0: "canonical_dict d0" "items = map (\<lambda>(k, x). (PyStr k, x)) d0" "snapshot (PyDict items) = Some (PyDict items)"
    using assms(1) items(1) by (auto simp: canonical_snapshot_def)
  have "value_item ((\<lambda>(k, x). (PyStr k, x)) p) = Inr p" if p: "p \<in> set d0" for p
  proof -
    obtain e where "copy_items value_item items [] = Inr e" using items(2) by (auto simp: sorted_copy_def bind_sum_Inr_iff)
    from copy_items_all [OF this] obtain q where "value_item ((\<lambda>(k, x). (PyStr k, x)) p) = Inr q" using p unfolding d0(2) by (metis image_eqI list.set_map)
    then show ?thesis by (cases p) (auto simp: value_item_def bind_sum_Inr_iff checkpoint_key_Inr)
  qed
  then have "sorted_copy value_item items = Inr d0" unfolding d0(2) by (intro sorted_copy_same [OF d0(1)])
  then show ?thesis using items(2) d0 by (simp add: copy_checkpoint_mapping_def dict_value_def)
qed


section \<open>Barriers\<close>

lemma checkpoint_nodes_same: "checkpoint_nodes v = Inr nodes \<Longrightarrow> checkpoint_nodes (Some (map PyStr nodes)) = Inr nodes"
proof -
  assume nodes: "checkpoint_nodes v = Inr nodes"
  then obtain xs where "map_sum_list checkpoint_key xs = Inr nodes" "distinct nodes"
    by (auto simp: checkpoint_nodes_def bind_sum_Inr_iff split: option.splits if_splits)
  moreover have "map_sum_list checkpoint_key xs = Inr ns \<Longrightarrow> map_sum_list checkpoint_key (map PyStr ns) = Inr ns" for ns
    by (induction xs arbitrary: ns) (auto simp: bind_sum_Inr_iff checkpoint_key_Inr)
  ultimately show ?thesis by (simp add: checkpoint_nodes_def)
qed

definition barrier_made :: "(pyval \<Rightarrow> pyval option) \<Rightarrow> checkpoint_barrier \<Rightarrow> bool" where
  "barrier_made snapshot b \<longleftrightarrow>
     (\<exists>i run release deployment plan schema revision completed pending cursors operator metadata versions created.
        mk_checkpoint_barrier snapshot i run release deployment plan schema revision completed pending cursors operator
          metadata versions created = Inr b)"

lemma cursor_item_same: "cursor_item x = Inr p \<Longrightarrow> cursor_item ((\<lambda>(k, c). (PyStr k, ArgObject c)) p) = Inr p"
  by (cases p; cases "snd x") (auto simp: cursor_item_def bind_sum_Inr_iff checkpoint_key_Inr)

lemma version_item_same: "version_item x = Inr p \<Longrightarrow> version_item ((\<lambda>(k, n). (PyStr k, PyInt n)) p) = Inr p"
  by (cases p) (auto simp: version_item_def bind_sum_Inr_iff checkpoint_key_Inr checkpoint_natural_Inr)

lemma rebuild_made: "rebuild_barrier snapshot schema cursors b0 = Inr b \<Longrightarrow> barrier_made snapshot b"
  unfolding barrier_made_def rebuild_barrier_def by (intro exI)

lemma rebuild_same:
  assumes canon: "canonical_snapshot snapshot" and "barrier_made snapshot b"
  shows "rebuild_barrier snapshot (checkpoint_schema b) (source_cursors b) b = Inr b"
proof -
  obtain i run release deployment plan schema revision completed pending cursors operator metadata versions created where
    made: "mk_checkpoint_barrier snapshot i run release deployment plan schema revision completed pending cursors operator
          metadata versions created = Inr b"
    using assms(2) by (auto simp: barrier_made_def)
  obtain cs vs where parts:
    "0 \<le> state_revision b" "state_revision b \<le> DURABLE_MAX_U64" "0 \<le> created_at_unix_ms b" "created_at_unix_ms b \<le> DURABLE_MAX_U64"
    "checkpoint_nodes completed = Inr (completed_nodes b)" "checkpoint_nodes pending = Inr (pending_nodes b)"
    "set (completed_nodes b) \<inter> set (pending_nodes b) = {}"
    "sorted_copy cursor_item cs = Inr (source_cursors b)" "sorted_copy version_item vs = Inr (schema_versions b)"
    "copy_checkpoint_mapping snapshot operator = Inr (operator_state b)"
    "copy_checkpoint_mapping snapshot metadata = Inr (sink_commit_metadata b)"
    using made by (auto simp: mk_checkpoint_barrier_def bind_sum_Inr_iff checkpoint_natural_Inr split: if_splits)
  have cursors: "sorted_copy cursor_item (map (\<lambda>(k, c). (PyStr k, ArgObject c)) (source_cursors b)) = Inr (source_cursors b)"
    using sorted_copy_canonical [OF parts(8)] cursor_item_same by (intro sorted_copy_same) blast+
  have versions: "sorted_copy version_item (map (\<lambda>(k, n). (PyStr k, PyInt n)) (schema_versions b)) = Inr (schema_versions b)"
    using sorted_copy_canonical [OF parts(9)] version_item_same by (intro sorted_copy_same) blast+
  show ?thesis
    using parts(1-4,7) checkpoint_nodes_same [OF parts(5)] checkpoint_nodes_same [OF parts(6)] cursors versions
      copy_mapping_same [OF canon parts(10)] copy_mapping_same [OF canon parts(11)]
    by (simp add: rebuild_barrier_def mk_checkpoint_barrier_def mapping_items_def checkpoint_natural_def require_natural_def)
qed

lemma copy_barrier_same:
  assumes "canonical_snapshot snapshot" "barrier_made snapshot b" "checkpoint_schema b = ArgObject schema" "schema_version schema \<le> DURABLE_MAX_U32"
  shows "copy_checkpoint_barrier snapshot b = Inr b"
  using rebuild_same [OF assms(1,2)] assms(3,4)
  by (cases schema) (simp add: copy_checkpoint_barrier_def checkpoint_integer_def)

text \<open>A barrier that passes validation, of a schema built by its constructor.\<close>

definition barrier_ok :: "(pyval \<Rightarrow> pyval option) \<Rightarrow> string \<Rightarrow> checkpoint_barrier \<Rightarrow> bool" where
  "barrier_ok snapshot run b \<longleftrightarrow>
     barrier_made snapshot b \<and> validate_barrier b = Inr b \<and> barrier_run_id b = PyStr run \<and>
     (\<exists>schema. checkpoint_schema b = ArgObject schema \<and> schema_version schema \<le> DURABLE_MAX_U32)"

lemma validate_schema: "validate_barrier b = Inr b' \<Longrightarrow> b' = b \<and> (\<exists>schema. checkpoint_schema b = ArgObject schema) \<and> (\<exists>run. barrier_run_id b = PyStr run \<and> py_strip run = run \<and> run \<noteq> [])"
  by (auto simp: validate_barrier_def bind_sum_Inr_iff require_exact_def exact_string_Some split: instance_arg.splits if_splits option.splits)


section \<open>The store\<close>

definition checkpoints_ok :: "(pyval \<Rightarrow> pyval option) \<Rightarrow> checkpoint_store \<Rightarrow> bool" where
  "checkpoints_ok snapshot s \<longleftrightarrow>
     (\<forall>run bs. map_of s run = Some bs \<longrightarrow>
        (\<forall>b\<in>set bs. barrier_ok snapshot run b) \<and> sorted_wrt (<) (map state_revision bs))"

definition barrier_object :: "(pyval \<Rightarrow> pyval option) \<Rightarrow> checkpoint_barrier \<Rightarrow> bool" where
  "barrier_object snapshot b \<longleftrightarrow>
     barrier_made snapshot b \<and> (\<forall>schema. checkpoint_schema b = ArgObject schema \<longrightarrow> schema_version schema \<le> DURABLE_MAX_U32)"

lemma barrier_okI:
  assumes "barrier_object snapshot b" "validate_barrier b = Inr b'" "barrier_run_id b = PyStr run"
  shows "barrier_ok snapshot run b"
  using assms validate_schema [OF assms(2)] by (auto simp: barrier_ok_def barrier_object_def)

lemma barrier_ok_copy: "canonical_snapshot snapshot \<Longrightarrow> barrier_ok snapshot run b \<Longrightarrow> copy_checkpoint_barrier snapshot b = Inr b"
  by (auto simp: barrier_ok_def intro: copy_barrier_same)

lemma run_checkpoints_ok:
  "checkpoints_ok snapshot s \<Longrightarrow> sorted_wrt (<) (map state_revision (run_checkpoints s run)) \<and> (\<forall>b\<in>set (run_checkpoints s run). barrier_ok snapshot run b)"
  by (auto simp: checkpoints_ok_def run_checkpoints_def split: option.splits)

lemma current_revision_last:
  assumes "sorted_wrt (<) (map state_revision bs)"
  shows "current_revision bs = (if bs = [] then None else Some (state_revision (last bs)))"
proof (cases bs)
  case (Cons b bs')
  have "foldl max n ns = last (n # ns)" if "sorted_wrt (<) (n # ns)" for n :: int and ns
    using that by (induction ns arbitrary: n) auto
  from this [of "state_revision b" "map state_revision bs'"] show ?thesis
    using assms by (simp add: current_revision_def Cons last_map)
qed (simp add: current_revision_def)

lemma sorted_le_last:
  fixes f :: "'a \<Rightarrow> int"
  shows "sorted_wrt (<) (map f xs) \<Longrightarrow> x \<in> set xs \<Longrightarrow> f x \<le> f (last xs)"
  by (cases xs rule: rev_cases) (auto simp: sorted_wrt_append)

lemma current_revision_Nil [simp]: "current_revision [] = None"
  by (simp add: current_revision_def)

lemma dict_set_set: "dict_set k v (dict_set k w d) = dict_set k v d"
  by (induction d) auto

text \<open>The branches of \<^verbatim>\<open>put\<close>.\<close>

lemma put_invalid: "validate_barrier b = Inl e \<Longrightarrow> put snapshot (ArgObject b) s = (Inl e, s)"
  by (simp add: put_def py_run)

lemma put_valid:
  assumes canon: "canonical_snapshot snapshot" and s: "checkpoints_ok snapshot s" and b: "barrier_ok snapshot run b"
  shows "put snapshot (ArgObject b) s =
    (let bs = run_checkpoints s run in
     if bs \<noteq> [] \<and> state_revision b \<le> state_revision (last bs)
     then (Inl (StaleCheckpointError run (state_revision (last bs)) (state_revision b)), s)
     else (Inr (), dict_set run (bs @ [b]) s))"
proof -
  let ?bs = "run_checkpoints s run"
  let ?t = "if map_of s run = None then dict_set run [] s else s"
  have v: "validate_barrier b = Inr b" "barrier_run_id b = PyStr run" using b by (auto simp: barrier_ok_def)
  have req: "require_exact ''missing_run_id'' (barrier_run_id b) = Inr run"
    using validate_schema [OF v(1)] v(2) by (auto simp: require_exact_def exact_string_Some)
  have same: "run_checkpoints ?t run = ?bs" "?bs \<noteq> [] \<Longrightarrow> ?t = s" "dict_set run x ?t = dict_set run x s" for x
    by (auto simp: run_checkpoints_def dict_set_set split: option.splits)
  have cur: "current_revision ?bs = (if ?bs = [] then None else Some (state_revision (last ?bs)))"
    by (rule current_revision_last) (use run_checkpoints_ok [OF s] in blast)
  show ?thesis
    using same(1,2) barrier_ok_copy [OF canon b]
    by (cases "?bs = []") (auto simp: put_def py_run v(1) req cur Let_def same(3) dict_set_set)
qed

lemma put_ok:
  assumes canon: "canonical_snapshot snapshot" and s: "checkpoints_ok snapshot s" and b: "barrier_object snapshot b"
  shows "checkpoints_ok snapshot (snd (put snapshot (ArgObject b) s))"
proof (cases "validate_barrier b")
  case (Inl e)
  then show ?thesis using s by (simp add: put_invalid)
next
  case (Inr b')
  obtain run where run: "barrier_run_id b = PyStr run" using validate_schema [OF Inr] by blast
  note ok = barrier_okI [OF b Inr run]
  note le = sorted_le_last [OF run_checkpoints_ok [OF s, of run, THEN conjunct1]]
  show ?thesis
  proof (cases "run_checkpoints s run \<noteq> [] \<and> state_revision b \<le> state_revision (last (run_checkpoints s run))")
    case True
    then show ?thesis using s by (simp add: put_valid [OF canon s ok] Let_def)
  next
    case False
    then have "\<forall>x\<in>set (run_checkpoints s run). state_revision x < state_revision b" using le by fastforce
    then have "sorted_wrt (<) (map state_revision (run_checkpoints s run @ [b]))"
      using run_checkpoints_ok [OF s, of run] by (simp add: sorted_wrt_append)
    moreover have "\<forall>x\<in>set (run_checkpoints s run @ [b]). barrier_ok snapshot run x"
      using run_checkpoints_ok [OF s, of run] ok by simp
    moreover have "put snapshot (ArgObject b) s = (Inr (), dict_set run (run_checkpoints s run @ [b]) s)"
      using False by (auto simp: put_valid [OF canon s ok] Let_def)
    ultimately show ?thesis using s by (simp add: checkpoints_ok_def)
  qed
qed


lemma restore_run_ok:
  assumes "restore_run snapshot run args previous = Inr cs" and "canonical_snapshot snapshot"
    and "\<And>b. ArgObject b \<in> set args \<Longrightarrow> barrier_object snapshot b"
  shows "(\<forall>b\<in>set cs. barrier_ok snapshot run b \<and> (\<forall>n. previous = Some n \<longrightarrow> n < state_revision b)) \<and> sorted_wrt (<) (map state_revision cs)"
  using assms
proof (induction snapshot run args previous arbitrary: cs rule: restore_run.induct)
  case (2 snapshot run b bs previous)
  obtain b' copied rest where parts: "validate_barrier b = Inr b'" "barrier_run_id b = PyStr run"
      "\<not> (case previous of None \<Rightarrow> False | Some n \<Rightarrow> state_revision b \<le> n)" "copy_checkpoint_barrier snapshot b = Inr copied"
      "restore_run snapshot run bs (Some (state_revision b)) = Inr rest" "cs = copied # rest"
    using 2(2) by (auto simp: bind_sum_Inr_iff split: if_splits)
  have obj: "barrier_object snapshot b" "\<And>x. ArgObject x \<in> set bs \<Longrightarrow> barrier_object snapshot x" using 2(4) by auto
  have ok: "barrier_ok snapshot run b" by (rule barrier_okI [OF obj(1) parts(1,2)])
  then have "copied = b" using barrier_ok_copy [OF 2(3)] parts(4) by simp
  moreover have "(\<forall>x\<in>set rest. barrier_ok snapshot run x \<and> state_revision b < state_revision x) \<and> sorted_wrt (<) (map state_revision rest)"
    using 2(1) [OF _ parts(3,5) 2(3) obj(2)] parts(2) by simp
  ultimately show ?case using ok parts(3) by (fastforce simp: parts(6) split: option.splits)
qed simp_all

lemma restore_runs_ok:
  assumes "restore_runs snapshot items restored = Inr s" and "canonical_snapshot snapshot"
    and "\<And>run args b. (run, Some args) \<in> set items \<Longrightarrow> ArgObject b \<in> set args \<Longrightarrow> barrier_object snapshot b"
    and "checkpoints_ok snapshot restored"
  shows "checkpoints_ok snapshot s"
  using assms
proof (induction snapshot items restored rule: restore_runs.induct)
  case (2 snapshot run_v bs items restored)
  obtain run args cs where parts: "exact_string run_v = Some run" "bs = Some args" "restore_run snapshot run args None = Inr cs"
      "restore_runs snapshot items (dict_set run cs restored) = Inr s"
    using 2(2) by (auto simp: bind_sum_Inr_iff split: option.splits)
  have "(\<forall>b\<in>set cs. barrier_ok snapshot run b) \<and> sorted_wrt (<) (map state_revision cs)"
    using restore_run_ok [OF parts(3) 2(3)] 2(4) [of run_v args] parts(2) by simp
  then have "checkpoints_ok snapshot (dict_set run cs restored)" using 2(5) by (simp add: checkpoints_ok_def)
  moreover have "\<And>r a b. (r, Some a) \<in> set items \<Longrightarrow> ArgObject b \<in> set a \<Longrightarrow> barrier_object snapshot b"
    using 2(4) by (meson list.set_intros(2))
  ultimately show ?case using 2(1) [OF parts(1,2) parts(4) 2(3)] by blast
qed simp

text \<open>The store as a machine: its calls put objects of the barrier class.\<close>

definition checkpoint_exec :: "(pyval \<Rightarrow> pyval option) \<Rightarrow> checkpoint_barrier \<Rightarrow> checkpoint_store \<Rightarrow> checkpoint_store" where
  "checkpoint_exec snapshot b s = (if barrier_object snapshot b then snd (put snapshot (ArgObject b) s) else s)"

definition checkpoints_made :: "(pyval \<Rightarrow> pyval option) \<Rightarrow> checkpoint_store \<Rightarrow> bool" where
  "checkpoints_made snapshot s \<longleftrightarrow>
     canonical_snapshot snapshot \<and>
     (\<exists>items. mk_checkpoint_store snapshot (Some items) = Inr s \<and>
        (\<forall>run args b. (run, Some args) \<in> set items \<longrightarrow> ArgObject b \<in> set args \<longrightarrow> barrier_object snapshot b))"

definition checkpoints_inv :: "(pyval \<Rightarrow> pyval option) \<Rightarrow> checkpoint_store \<Rightarrow> bool" where
  "checkpoints_inv snapshot s \<longleftrightarrow> canonical_snapshot snapshot \<and> checkpoints_ok snapshot s"

lemma checkpoints_made_inv: "checkpoints_made snapshot s \<Longrightarrow> checkpoints_inv snapshot s"
proof -
  assume "checkpoints_made snapshot s"
  then obtain items where items: "restore_runs snapshot items [] = Inr s" "canonical_snapshot snapshot"
      "\<And>run args b. (run, Some args) \<in> set items \<Longrightarrow> ArgObject b \<in> set args \<Longrightarrow> barrier_object snapshot b"
    unfolding checkpoints_made_def mk_checkpoint_store_def by (simp only: option.case) blast
  have "checkpoints_ok snapshot []" by (simp add: checkpoints_ok_def)
  then show ?thesis using restore_runs_ok [OF items] items(2) by (simp add: checkpoints_inv_def)
qed

interpretation checkpoints: py_machine "checkpoints_made snapshot" "checkpoint_exec snapshot" "checkpoints_inv snapshot" for snapshot
proof unfold_locales
  show "checkpoints_inv snapshot s" if "checkpoints_made snapshot s" for s by (rule checkpoints_made_inv [OF that])
  show "checkpoints_inv snapshot (checkpoint_exec snapshot b s)" if "checkpoints_inv snapshot s" for b s
    using that by (simp add: checkpoint_exec_def checkpoints_inv_def put_ok)
qed

subsection \<open>Reading\<close>

lemma foldl_latest:
  assumes "sorted_wrt (<) (map state_revision (b # bs))"
  shows "foldl (\<lambda>m c. if state_revision m < state_revision c then c else m) b bs = last (b # bs)"
  using assms by (induction bs arbitrary: b) auto

lemma latest_compatible_last:
  assumes inv: "checkpoints_inv snapshot s"
  shows "latest_compatible snapshot run release deployment plan s =
    (let found = filter (compatible release deployment plan) (run_checkpoints s run) in
     (Inr (if found = [] then None else Some (last found)), s))"
proof (cases "filter (compatible release deployment plan) (run_checkpoints s run)")
  case Nil
  then show ?thesis by (simp add: latest_compatible_def py_run)
next
  case (Cons b bs)
  have run: "sorted_wrt (<) (map state_revision (run_checkpoints s run))" "\<forall>b\<in>set (run_checkpoints s run). barrier_ok snapshot run b"
    using inv run_checkpoints_ok by (auto simp: checkpoints_inv_def)
  have "sorted_wrt (<) (map state_revision (b # bs))"
    unfolding Cons [symmetric] using run(1) by (simp add: sorted_wrt_map sorted_wrt_filter)
  note latest = foldl_latest [OF this]
  have "last (b # bs) \<in> set (run_checkpoints s run)"
    using last_in_set [of "b # bs"] unfolding Cons [symmetric] by (metis Cons filter_is_subset list.distinct(1) subsetD)
  then have "copy_checkpoint_barrier snapshot (last (b # bs)) = Inr (last (b # bs))"
    using run(2) inv barrier_ok_copy by (auto simp: checkpoints_inv_def)
  then show ?thesis using latest by (simp add: latest_compatible_def py_run Cons Let_def)
qed


section \<open>Samples\<close>

definition sample_snapshot :: "pyval \<Rightarrow> pyval option" where
  "sample_snapshot v =
     (case v of PyDict [] \<Rightarrow> Some v
      | PyDict [(PyStr k, PyInt n)] \<Rightarrow> Some v
      | _ \<Rightarrow> None)"

lemma sample_snapshot_canonical: "canonical_snapshot sample_snapshot"
  unfolding canonical_snapshot_def
proof (intro allI impI)
  fix v items
  assume "sample_snapshot v = Some (PyDict items)"
  then consider "v = PyDict []" "items = []" | k n where "v = PyDict [(PyStr k, PyInt n)]" "items = [(PyStr k, PyInt n)]"
    by (auto simp: sample_snapshot_def split: pyval.splits list.splits prod.splits)
  then show "sample_snapshot (PyDict items) = Some (PyDict items) \<and>
      (\<exists>d. canonical_dict d \<and> items = map (\<lambda>(k, x). (PyStr k, x)) d)"
  proof cases
    case 1
    then show ?thesis by (intro conjI exI [of _ "[]"]) (simp_all add: sample_snapshot_def canonical_dict_def)
  next
    case (2 k n)
    then show ?thesis by (intro conjI exI [of _ "[(k, PyInt n)]"]) (simp_all add: sample_snapshot_def canonical_dict_def)
  qed
qed

definition sample_barrier :: "int \<Rightarrow> checkpoint_barrier" where
  "sample_barrier n =
     \<lparr>checkpoint_id = PyStr ''c'', barrier_run_id = PyStr ''run'', release_id = PyStr ''r'', deployment_revision_id = PyStr ''d'',
      plan_hash = PyStr ''p'', checkpoint_schema = ArgObject \<lparr>schema_id = ''s'', schema_version = 1\<rparr>, state_revision = n,
      completed_nodes = [''a''], pending_nodes = [''b''], source_cursors = [(''src'', SourceCursor ''x'' 0 3)],
      operator_state = [(''op'', PyInt 4)], sink_commit_metadata = [], schema_versions = [(''s'', 1)], created_at_unix_ms = 8\<rparr>"

lemma sample_barriers:
  "rebuild_barrier sample_snapshot (ArgObject \<lparr>schema_id = ''s'', schema_version = 1\<rparr>) [(''src'', SourceCursor ''x'' 0 3)] (sample_barrier 1) = Inr (sample_barrier 1)"
  "rebuild_barrier sample_snapshot (ArgObject \<lparr>schema_id = ''s'', schema_version = 1\<rparr>) [(''src'', SourceCursor ''x'' 0 3)] (sample_barrier 2) = Inr (sample_barrier 2)"
  by code_simp+

lemma sample_barrier_object: "barrier_object sample_snapshot (sample_barrier 1)" "barrier_object sample_snapshot (sample_barrier 2)"
  using sample_barriers [THEN rebuild_made] by (simp_all add: barrier_object_def sample_barrier_def)

section \<open>Properties of checkpoints\<close>



text \<open>
  In every reachable store the revisions of a run are strictly increasing; a barrier that passes
  validation is stored exactly when its revision exceeds all of them, a stale one changes nothing;
  and the latest compatible checkpoint is a stored compatible one of the greatest revision, none only
  when there is none.
\<close>

theorem checkpoint_revisions:
  assumes made: "checkpoints_made snapshot s0" and s: "s = fold (checkpoint_exec snapshot) calls s0"
    and b: "barrier_object snapshot b" "validate_barrier b = Inr b" "barrier_run_id b = PyStr run"
  shows "sorted_wrt (<) (map state_revision (run_checkpoints s run)) \<and>
    (if \<forall>c\<in>set (run_checkpoints s run). state_revision c < state_revision b
     then put snapshot (ArgObject b) s = (Inr (), dict_set run (run_checkpoints s run @ [b]) s)
     else \<exists>n. put snapshot (ArgObject b) s = (Inl (StaleCheckpointError run n (state_revision b)), s)) \<and>
    (let found = {c\<in>set (run_checkpoints s run). compatible release deployment plan c} in
     if found = {} then latest_compatible snapshot run release deployment plan s = (Inr None, s)
     else \<exists>c\<in>found. latest_compatible snapshot run release deployment plan s = (Inr (Some c), s) \<and>
            (\<forall>d\<in>found. state_revision d \<le> state_revision c))"
proof (intro conjI)
  have inv: "checkpoints_inv snapshot s" unfolding s by (rule checkpoints.inv_reachable [OF made])
  then have canon: "canonical_snapshot snapshot" and ok: "checkpoints_ok snapshot s" by (simp_all add: checkpoints_inv_def)
  show sorted: "sorted_wrt (<) (map state_revision (run_checkpoints s run))" using run_checkpoints_ok [OF ok] by blast
  show "if \<forall>c\<in>set (run_checkpoints s run). state_revision c < state_revision b
     then put snapshot (ArgObject b) s = (Inr (), dict_set run (run_checkpoints s run @ [b]) s)
     else \<exists>n. put snapshot (ArgObject b) s = (Inl (StaleCheckpointError run n (state_revision b)), s)"
  proof (cases "\<forall>c\<in>set (run_checkpoints s run). state_revision c < state_revision b")
    case True
    then have "\<not> (run_checkpoints s run \<noteq> [] \<and> state_revision b \<le> state_revision (last (run_checkpoints s run)))"
      using last_in_set by fastforce
    then show ?thesis using True by (auto simp: put_valid [OF canon ok barrier_okI [OF b]] Let_def)
  next
    case False
    then obtain c where c: "c \<in> set (run_checkpoints s run)" "state_revision b \<le> state_revision c" by fastforce
    then have "run_checkpoints s run \<noteq> []" "state_revision b \<le> state_revision (last (run_checkpoints s run))"
      using sorted_le_last [OF sorted c(1)] by auto
    then show ?thesis using False by (simp add: put_valid [OF canon ok barrier_okI [OF b]] Let_def)
  qed
  let ?found = "filter (compatible release deployment plan) (run_checkpoints s run)"
  have "sorted_wrt (<) (map state_revision ?found)" using sorted by (simp add: sorted_wrt_map sorted_wrt_filter)
  note last = sorted_le_last [OF this]
  show "let found = {c\<in>set (run_checkpoints s run). compatible release deployment plan c} in
     if found = {} then latest_compatible snapshot run release deployment plan s = (Inr None, s)
     else \<exists>c\<in>found. latest_compatible snapshot run release deployment plan s = (Inr (Some c), s) \<and>
            (\<forall>d\<in>found. state_revision d \<le> state_revision c)"
  proof (cases "?found = []")
    case True
    then show ?thesis by (auto simp: latest_compatible_last [OF inv] filter_empty_conv)
  next
    case False
    have m: "last ?found \<in> {c\<in>set (run_checkpoints s run). compatible release deployment plan c}" using last_in_set [OF False] by simp
    have le: "\<forall>d\<in>{c\<in>set (run_checkpoints s run). compatible release deployment plan c}. state_revision d \<le> state_revision (last ?found)"
      using last by simp
    have eq: "latest_compatible snapshot run release deployment plan s = (Inr (Some (last ?found)), s)"
      using False by (simp add: latest_compatible_last [OF inv] Let_def)
    have ne: "{c\<in>set (run_checkpoints s run). compatible release deployment plan c} \<noteq> {}" using m by blast
    show ?thesis unfolding Let_def if_not_P [OF ne] using m le eq by blast
  qed
qed

theorem checkpoint_revisions_witness:
  "\<exists>n. put sample_snapshot (ArgObject (sample_barrier 1)) [(''run'', [sample_barrier 2])] =
     (Inl (StaleCheckpointError ''run'' n 1), [(''run'', [sample_barrier 2])])"
proof -
  have "mk_checkpoint_store sample_snapshot (Some [(PyStr ''run'', Some [ArgObject (sample_barrier 2)])]) = Inr [(''run'', [sample_barrier 2])]"
    by code_simp
  then have made: "checkpoints_made sample_snapshot [(''run'', [sample_barrier 2])]"
    unfolding checkpoints_made_def using sample_snapshot_canonical sample_barrier_object(2)
    by (intro conjI exI [of _ "[(PyStr ''run'', Some [ArgObject (sample_barrier 2)])]"]) auto
  have valid: "validate_barrier (sample_barrier 1) = Inr (sample_barrier 1)" by code_simp
  have run: "barrier_run_id (sample_barrier 1) = PyStr ''run''" by (simp add: sample_barrier_def)
  show ?thesis
    using checkpoint_revisions [where calls = "[]", OF made refl sample_barrier_object(1) valid run]
    by (simp add: run_checkpoints_def sample_barrier_def)
qed

end
