(* ===== verification/Canonical.thy ===== *)
theory Canonical
  imports GB_Prelude "HOL-Library.Char_ord" "HOL-Library.List_Lexorder" "HOL-Library.Word"
begin

unbundle bit_operations_syntax

text \<open>
  Canonical JSON of \<^verbatim>\<open>canonical.py\<close>: the integer codec, the snapshot that copies and validates a
  value, the encoder that prints decimals and large integers through placeholder strings, the
  digest, and the public functions that compare the native extension with the Python
  reference. The two traversals keep the explicit stack of the code and write their copies into a
  heap of containers addressed by position. A container carries its identity, so that a value that
  contains itself is any unfolding of it past the first repeated container. Floats are their bit
  patterns; their shortest decimal notation \<^verbatim>\<open>float.__repr__\<close> is the argument \<open>float_repr\<close>.
  Mappings present a finite list of items; a mapping whose \<^verbatim>\<open>items\<close> raises is outside the model.
\<close>

section \<open>Values\<close>

text \<open>\<^verbatim>\<open>Decimal.as_tuple\<close>: the sign, the digits and the exponent of a finite number.\<close>

datatype py_decimal = DecTuple bool "nat list" int | DecNonFinite

datatype json_leaf =
    LNone
  | LBool bool
  | LInt int
  | LFloat "64 word"
  | LDecimal py_decimal
  | LStr string
  | LOther

datatype json_arg =
    ArgLeaf json_leaf
  | ArgList nat "json_arg list"
  | ArgTuple nat "json_arg list"
  | ArgMapping nat "(json_arg \<times> json_arg) list"

datatype json_copy =
    CopyLeaf json_leaf
  | CopyList "json_copy list"
  | CopyDict "(string \<times> json_copy) list"

datatype canonical_error =
    CanonicalValueError
  | CanonicalTypeError
  | CanonicalArithmeticError
  | CanonicalUnrepresentable
  | NativeCanonicalUnavailableError
  | NativeCanonicalContractError

abbreviation MAX_CANONICAL_JSON_DEPTH :: nat where
  "MAX_CANONICAL_JSON_DEPTH \<equiv> 64"

abbreviation MAX_CANONICAL_INTEGER_DIGITS :: nat where
  "MAX_CANONICAL_INTEGER_DIGITS \<equiv> 10000"

abbreviation INTEGER_CHUNK_BASE :: int where
  "INTEGER_CHUNK_BASE \<equiv> 1000000000"

abbreviation INTEGER_CHUNK_DIGITS :: nat where
  "INTEGER_CHUNK_DIGITS \<equiv> 9"

definition max_canonical_integer_magnitude :: int where
  "max_canonical_integer_magnitude = 10 ^ MAX_CANONICAL_INTEGER_DIGITS"

definition integer_out_of_range :: "int \<Rightarrow> bool" where
  "integer_out_of_range i \<longleftrightarrow> max_canonical_integer_magnitude \<le> i \<or> i \<le> - max_canonical_integer_magnitude"

lemma integer_out_of_range_code [code]:
  "integer_out_of_range i = (if \<bar>i\<bar> < 10 ^ 500 then False else 10 ^ MAX_CANONICAL_INTEGER_DIGITS \<le> \<bar>i\<bar>)"
proof -
  have "(10::int) ^ 500 \<le> max_canonical_integer_magnitude"
    unfolding max_canonical_integer_magnitude_def by (rule power_increasing) simp_all
  then show ?thesis unfolding max_canonical_integer_magnitude_def [symmetric]
    by (auto simp: integer_out_of_range_def)
qed

text \<open>\<^verbatim>\<open>bit_length() > _MANUAL_INTEGER_BIT_LENGTH\<close>\<close>

definition large_integer :: "int \<Rightarrow> bool" where
  "large_integer i \<longleftrightarrow> 2 ^ 1024 \<le> \<bar>i\<bar>"

definition float_finite :: "64 word \<Rightarrow> bool" where
  "float_finite w \<longleftrightarrow> drop_bit 52 w AND 2047 \<noteq> 2047"

section \<open>Integers in chunks of nine digits\<close>

text \<open>
  \<^verbatim>\<open>int\<close> of a chunk of a number token. The tokens come from the JSON scanner, whose integers are
  an optional sign and ASCII digits; any other chunk is refused.
\<close>

definition int_chunk :: "string \<Rightarrow> canonical_error + int" where
  "int_chunk s = (if is_ascii_decimal s then Inr (int_of_decimal s) else Inl CanonicalValueError)"

function parse_chunks :: "int \<Rightarrow> string \<Rightarrow> canonical_error + int" where
  "parse_chunks value [] = Inr value"
| "parse_chunks value (c # cs) =
     bind_sum (int_chunk (take INTEGER_CHUNK_DIGITS (c # cs))) (\<lambda>chunk.
     parse_chunks (value * INTEGER_CHUNK_BASE + chunk) (drop INTEGER_CHUNK_DIGITS (c # cs)))"
  by pat_completeness auto

termination
  by (relation "measure (\<lambda>(value, s). length s)") auto

definition parse_integer :: "string \<Rightarrow> canonical_error + int" where
  "parse_integer token =
     (let negative = starts_with token ''-'';
          digits = (if negative then drop 1 token else token)
      in if MAX_CANONICAL_INTEGER_DIGITS < length digits then Inl CanonicalValueError
         else
           let remainder = length digits mod INTEGER_CHUNK_DIGITS;
               first_chunk_length = (if remainder = 0 then INTEGER_CHUNK_DIGITS else remainder)
           in bind_sum (int_chunk (take first_chunk_length digits)) (\<lambda>first.
              bind_sum (parse_chunks first (drop first_chunk_length digits)) (\<lambda>value.
              Inr (if negative then - value else value))))"

text \<open>The chunks from the least significant one, and \<^verbatim>\<open>f"{chunk:09d}"\<close> of a chunk.\<close>

function integer_chunks :: "int \<Rightarrow> int list" where
  "integer_chunks magnitude =
     (if magnitude \<le> 0 then []
      else magnitude mod INTEGER_CHUNK_BASE # integer_chunks (magnitude div INTEGER_CHUNK_BASE))"
  by pat_completeness auto

termination
  by (relation "measure nat") auto

declare integer_chunks.simps [simp del]

definition fmt_09d :: "int \<Rightarrow> string" where
  "fmt_09d i = (let d = nat_digits (nat i) in replicate (INTEGER_CHUNK_DIGITS - length d) CHR ''0'' @ d)"

definition format_integer :: "int \<Rightarrow> canonical_error + string" where
  "format_integer value =
     (if integer_out_of_range value then Inl CanonicalValueError
      else if value = 0 then Inr ''0''
      else
        let negative = value < 0;
            chunks = integer_chunks (if negative then - value else value);
            encoded = nat_digits (nat (last chunks)) @ concat (map fmt_09d (rev (butlast chunks)))
        in Inr (if negative then CHR ''-'' # encoded else encoded))"

section \<open>The snapshot\<close>

text \<open>Containers that the traversals fill, and the slots in them.\<close>

datatype json_slot = SlotNone | SlotLeaf json_leaf | SlotRef nat

datatype cell = DictCell "(string \<times> json_slot) list" | ListCell "json_slot list"

datatype slot_key = Key string | Index nat

fun write_cell :: "slot_key \<Rightarrow> json_slot \<Rightarrow> cell \<Rightarrow> cell" where
  "write_cell (Key k) s (DictCell d) = DictCell (dict_set k s d)"
| "write_cell (Index i) s (ListCell xs) = ListCell (xs[i := s])"
| "write_cell _ s c = c"

definition write_slot :: "nat \<Rightarrow> slot_key \<Rightarrow> json_slot \<Rightarrow> cell list \<Rightarrow> cell list" where
  "write_slot parent key s h = h[parent := write_cell key s (h ! parent)]"

text \<open>
  The value in a slot. A container refers to containers created after it, so reading ends; a slot
  that was never filled holds \<^verbatim>\<open>None\<close>.
\<close>

function read_slot :: "cell list \<Rightarrow> nat \<Rightarrow> json_slot \<Rightarrow> json_copy" where
  "read_slot h low SlotNone = CopyLeaf LNone"
| "read_slot h low (SlotLeaf l) = CopyLeaf l"
| "read_slot h low (SlotRef a) =
     (if low \<le> a \<and> a < length h then
        (case h ! a of
           DictCell d \<Rightarrow> CopyDict (map (\<lambda>(k, s). (k, read_slot h (Suc a) s)) d)
         | ListCell xs \<Rightarrow> CopyList (map (read_slot h (Suc a)) xs))
      else CopyLeaf LOther)"
  by pat_completeness auto

termination
  by (relation "measure (\<lambda>(h, low, s). length h - low)") auto

record snapshot_state =
  snap_heap :: "cell list"
  active_containers :: "nat set"
  occupied_strings :: "string list"
  has_decimal :: bool
  has_large_integer :: bool

datatype snapshot_frame = Visit json_arg nat slot_key nat | Leave nat

fun snapshot_keys :: "(json_arg \<times> json_arg) list \<Rightarrow> string list \<Rightarrow> string list \<Rightarrow> canonical_error + string list" where
  "snapshot_keys [] seen occupied = Inr occupied"
| "snapshot_keys ((ArgLeaf (LStr key), child) # items) seen occupied =
     (if has_surrogate key then Inl CanonicalValueError
      else if key \<in> set seen then Inl CanonicalValueError
      else snapshot_keys items (key # seen) (List.insert key occupied))"
| "snapshot_keys (_ # items) seen occupied = Inl CanonicalTypeError"

fun key_text :: "json_arg \<Rightarrow> string" where
  "key_text (ArgLeaf (LStr key)) = key"
| "key_text _ = []"

definition snapshot_leaf :: "json_leaf \<Rightarrow> snapshot_state \<Rightarrow> canonical_error + snapshot_state" where
  "snapshot_leaf l st =
     (case l of
        LStr s \<Rightarrow>
          if has_surrogate s then Inl CanonicalValueError
          else Inr (st\<lparr>occupied_strings := List.insert s (occupied_strings st)\<rparr>)
      | LDecimal d \<Rightarrow> Inr (st\<lparr>has_decimal := True\<rparr>)
      | LInt i \<Rightarrow>
          if integer_out_of_range i then Inl CanonicalValueError
          else Inr (if large_integer i then st\<lparr>has_large_integer := True\<rparr> else st)
      | _ \<Rightarrow> Inr st)"

text \<open>A fresh container in its parent's slot, marked as being visited.\<close>

definition open_container :: "nat \<Rightarrow> cell \<Rightarrow> nat \<Rightarrow> slot_key \<Rightarrow> snapshot_state \<Rightarrow> snapshot_state" where
  "open_container ident c parent key st =
     st\<lparr>snap_heap := write_slot parent key (SlotRef (length (snap_heap st))) (snap_heap st @ [c]),
        active_containers := insert ident (active_containers st)\<rparr>"

primrec frame_weight :: "snapshot_frame \<Rightarrow> nat" where
  "frame_weight (Visit v parent key depth) = 2 * size v + 1"
| "frame_weight (Leave ident) = 1"

lemma enumerate_weight:
  "sum_list (map (frame_weight \<circ> (\<lambda>(i, child). Visit child copied (Index i) depth)) (enumerate n xs)) \<le> 2 * size_list size xs"
proof (induction xs arbitrary: n)
  case (Cons x xs)
  then show ?case using le_SucI [OF Cons.IH [of "Suc n"]] by simp
qed simp

lemma mapping_weight:
  "sum_list (map (frame_weight \<circ> (\<lambda>(k, child). Visit child copied (Key (key_text k)) depth)) items)
     \<le> 2 * size_list (size_prod size size) items"
  by (induction items) (auto simp: size_prod_def)

function (sequential) snapshot_loop :: "bool \<Rightarrow> snapshot_frame list \<Rightarrow> snapshot_state \<Rightarrow> canonical_error + snapshot_state" where
  "snapshot_loop reject_tuples [] st = Inr st"
| "snapshot_loop reject_tuples (Leave ident # pending) st =
     snapshot_loop reject_tuples pending (st\<lparr>active_containers := active_containers st - {ident}\<rparr>)"
| "snapshot_loop reject_tuples (Visit v parent key depth # pending) st =
     (if MAX_CANONICAL_JSON_DEPTH < depth then Inl CanonicalValueError
      else case v of
        ArgMapping ident items \<Rightarrow>
          if ident \<in> active_containers st then Inl CanonicalValueError
          else bind_sum (snapshot_keys items [] (occupied_strings st)) (\<lambda>occupied.
            let copied = length (snap_heap st) in
            snapshot_loop reject_tuples
              (map (\<lambda>(k, child). Visit child copied (Key (key_text k)) (depth + 1)) items @ Leave ident # pending)
              (open_container ident (DictCell []) parent key (st\<lparr>occupied_strings := occupied\<rparr>)))
      | ArgList ident items \<Rightarrow>
          if ident \<in> active_containers st then Inl CanonicalValueError
          else
            let copied = length (snap_heap st) in
            snapshot_loop reject_tuples
              (map (\<lambda>(i, child). Visit child copied (Index i) (depth + 1)) (enumerate 0 items) @ Leave ident # pending)
              (open_container ident (ListCell (replicate (length items) SlotNone)) parent key st)
      | ArgTuple ident items \<Rightarrow>
          if reject_tuples then Inl CanonicalTypeError
          else if ident \<in> active_containers st then Inl CanonicalValueError
          else
            let copied = length (snap_heap st) in
            snapshot_loop reject_tuples
              (map (\<lambda>(i, child). Visit child copied (Index i) (depth + 1)) (enumerate 0 items) @ Leave ident # pending)
              (open_container ident (ListCell (replicate (length items) SlotNone)) parent key st)
      | ArgLeaf l \<Rightarrow>
          bind_sum (snapshot_leaf l st) (\<lambda>st'.
          snapshot_loop reject_tuples pending (st'\<lparr>snap_heap := write_slot parent key (SlotLeaf l) (snap_heap st')\<rparr>)))"
  by pat_completeness auto

termination
  by (relation "measure (\<lambda>(reject, pending, st). sum_list (map frame_weight pending))")
    (simp_all add: less_Suc_eq_le le_SucI [OF mapping_weight] le_SucI [OF enumerate_weight])

declare snapshot_loop.simps [simp del]

definition initial_snapshot_state :: snapshot_state where
  "initial_snapshot_state =
     \<lparr>snap_heap = [ListCell [SlotNone]], active_containers = {}, occupied_strings = [],
      has_decimal = False, has_large_integer = False\<rparr>"

text \<open>The value in the only slot of the root list.\<close>

definition read_root :: "cell list \<Rightarrow> json_copy" where
  "read_root h = (case h ! 0 of ListCell (s # _) \<Rightarrow> read_slot h 1 s | _ \<Rightarrow> CopyLeaf LNone)"

definition take_snapshot :: "bool \<Rightarrow> json_arg \<Rightarrow> canonical_error + json_copy \<times> string list \<times> bool \<times> bool" where
  "take_snapshot reject_tuples v =
     bind_sum (snapshot_loop reject_tuples [Visit v 0 (Index 0) 0] initial_snapshot_state) (\<lambda>st.
     Inr (read_root (snap_heap st), occupied_strings st, has_decimal st, has_large_integer st))"

text \<open>
  A copy as an argument: containers built here are distinct objects, told apart along a path by
  their depth.
\<close>

fun copy_arg :: "nat \<Rightarrow> json_copy \<Rightarrow> json_arg" where
  "copy_arg depth (CopyLeaf l) = ArgLeaf l"
| "copy_arg depth (CopyList xs) = ArgList depth (map (copy_arg (depth + 1)) xs)"
| "copy_arg depth (CopyDict items) = ArgMapping depth (map (\<lambda>(k, c). (ArgLeaf (LStr k), copy_arg (depth + 1) c)) items)"

section \<open>JSON text\<close>

text \<open>
  \<^verbatim>\<open>json.dumps\<close> with \<^verbatim>\<open>ensure_ascii=False\<close>, \<^verbatim>\<open>sort_keys=True\<close>, separators without blanks and
  \<^verbatim>\<open>allow_nan=False\<close>.
\<close>

definition hex_digit :: "nat \<Rightarrow> char" where
  "hex_digit n = (if n < 10 then char_of (48 + n) else char_of (87 + n))"

definition json_escape :: "char \<Rightarrow> string" where
  "json_escape c =
     (if c = CHR 0x22 then [CHR 0x5C, CHR 0x22]
      else if c = CHR 0x5C then [CHR 0x5C, CHR 0x5C]
      else if c = CHR 0x0A then [CHR 0x5C, CHR ''n'']
      else if c = CHR 0x0D then [CHR 0x5C, CHR ''r'']
      else if c = CHR 0x09 then [CHR 0x5C, CHR ''t'']
      else if c = CHR 0x0C then [CHR 0x5C, CHR ''f'']
      else if c = CHR 0x08 then [CHR 0x5C, CHR ''b'']
      else if code_point c < 32 then
        [CHR 0x5C, CHR ''u'', CHR ''0'', CHR ''0'', hex_digit (code_point c div 16), hex_digit (code_point c mod 16)]
      else [c])"

definition json_string :: "string \<Rightarrow> string" where
  "json_string s = CHR 0x22 # concat (map json_escape s) @ [CHR 0x22]"

definition int_text :: "int \<Rightarrow> string" where
  "int_text i = (if i < 0 then CHR ''-'' # nat_digits (nat (- i)) else nat_digits (nat i))"

fun leaf_text :: "(64 word \<Rightarrow> string) \<Rightarrow> json_leaf \<Rightarrow> canonical_error + string" where
  "leaf_text float_repr LNone = Inr ''null''"
| "leaf_text float_repr (LBool b) = Inr (if b then ''true'' else ''false'')"
| "leaf_text float_repr (LInt i) = Inr (int_text i)"
| "leaf_text float_repr (LFloat w) = (if float_finite w then Inr (float_repr w) else Inl CanonicalValueError)"
| "leaf_text float_repr (LStr s) = Inr (json_string s)"
| "leaf_text float_repr (LDecimal d) = Inl CanonicalTypeError"
| "leaf_text float_repr LOther = Inl CanonicalTypeError"

fun join_text :: "string \<Rightarrow> string list \<Rightarrow> string" where
  "join_text sep [] = []"
| "join_text sep [x] = x"
| "join_text sep (x # xs) = x @ sep @ join_text sep xs"

lemma map_sum_list_cong [fundef_cong]:
  "xs = ys \<Longrightarrow> (\<And>x. x \<in> set ys \<Longrightarrow> f x = g x) \<Longrightarrow> map_sum_list f xs = map_sum_list g ys"
  by (induction xs arbitrary: ys) auto

lemma copy_size_item: "(k, v) \<in> set items \<Longrightarrow> size v < size_list (size_prod (\<lambda>_. 0) size) items"
  for items :: "(string \<times> json_copy) list"
  by (induction items) (auto simp: size_prod_def)

text \<open>The text of a value, for a given text of the leaves.\<close>

function value_text :: "(json_leaf \<Rightarrow> canonical_error + string) \<Rightarrow> json_copy \<Rightarrow> canonical_error + string" where
  "value_text leaf (CopyLeaf l) = leaf l"
| "value_text leaf (CopyList xs) =
     bind_sum (map_sum_list (value_text leaf) xs) (\<lambda>texts. Inr (''['' @ join_text '','' texts @ '']''))"
| "value_text leaf (CopyDict items) =
     bind_sum (map_sum_list (\<lambda>(k, v). bind_sum (value_text leaf v) (\<lambda>t. Inr (json_string k @ '':'' @ t))) (sort_key fst items))
       (\<lambda>texts. Inr (''{'' @ join_text '','' texts @ ''}''))"
  by pat_completeness auto

termination
proof (relation "measure (\<lambda>(leaf, v). size v)", goal_cases)
  case (2 leaf xs x)
  then show ?case by (induction xs) (auto simp: less_Suc_eq)
next
  case (3 leaf items p k v)
  then show ?case using copy_size_item [of k v items] by (simp add: less_Suc_eq)
qed simp

definition json_dumps :: "(64 word \<Rightarrow> string) \<Rightarrow> json_copy \<Rightarrow> canonical_error + string" where
  "json_dumps float_repr v = value_text (leaf_text float_repr) v"

section \<open>Decimals and large integers\<close>

definition strip_zeros_right :: "string \<Rightarrow> string" where
  "strip_zeros_right s = rev (dropWhile (\<lambda>c. c = CHR ''0'') (rev s))"

definition exponent_text :: "int \<Rightarrow> string" where
  "exponent_text exponent =
     (let magnitude = nat_digits (nat \<bar>exponent\<bar>) in
      (if exponent < 0 then ''e-'' else ''e+'') @ replicate (2 - length magnitude) CHR ''0'' @ magnitude)"

text \<open>The notation of a coefficient without outer zeros whose first digit has the given exponent.\<close>

definition decimal_notation :: "bool \<Rightarrow> string \<Rightarrow> int \<Rightarrow> string" where
  "decimal_notation negative coefficient exponent =
     (let sign = (if negative then ''-'' else []) in
      if -4 \<le> exponent \<and> exponent < 16 then
        let decimal_point = exponent + 1 in
        if decimal_point \<le> 0 then
          sign @ ''0.'' @ replicate (nat (- decimal_point)) CHR ''0'' @ coefficient
        else if int (length coefficient) \<le> decimal_point then
          sign @ coefficient @ replicate (nat decimal_point - length coefficient) CHR ''0'' @ ''.0''
        else
          sign @ take (nat decimal_point) coefficient @ ''.'' @ drop (nat decimal_point) coefficient
      else
        sign @ take 1 coefficient @
        (if 1 < length coefficient then ''.'' @ drop 1 coefficient else []) @ exponent_text exponent)"

fun decimal_text :: "py_decimal \<Rightarrow> canonical_error + string" where
  "decimal_text DecNonFinite = Inl CanonicalValueError"
| "decimal_text (DecTuple negative ds scale) =
     (let digits = concat (map nat_digits ds);
          significant = dropWhile (\<lambda>c. c = CHR ''0'') digits
      in if significant = [] then Inr (if negative then ''-0.0'' else ''0.0'')
         else Inr (decimal_notation negative (strip_zeros_right significant) (scale + int (length significant) - 1)))"

definition token_text :: "string \<Rightarrow> nat \<Rightarrow> string" where
  "token_text kind i = CHR 0x00 # ''graphblocks-'' @ kind @ ''-'' @ nat_digits i @ [CHR 0x00]"

lemma nat_digits_inject: "nat_digits i = nat_digits j \<longleftrightarrow> i = j"
  by (metis int_of_decimal_nat_digits of_nat_eq_iff)

lemma token_text_inject: "token_text kind i = token_text kind j \<longleftrightarrow> i = j"
  by (simp add: token_text_def nat_digits_inject)

lemma finite_taken_tokens: "finite {j. token_text kind j \<in> set occupied}"
  by (rule finite_imageD [of "token_text kind", OF finite_subset [of _ "set occupied"]])
    (auto intro: inj_onI simp: token_text_inject)

text \<open>The loop that skips the occupied tokens; only finitely many are occupied.\<close>

function free_token :: "string \<Rightarrow> string list \<Rightarrow> nat \<Rightarrow> nat" where
  "free_token kind occupied i = (if token_text kind i \<in> set occupied then free_token kind occupied (i + 1) else i)"
  by pat_completeness auto

termination
proof (relation "measure (\<lambda>(kind, occupied, i). card {j. i \<le> j \<and> token_text kind j \<in> set occupied})", goal_cases)
  case (2 kind occupied i)
  have "{j. i + 1 \<le> j \<and> token_text kind j \<in> set occupied} \<subset> {j. i \<le> j \<and> token_text kind j \<in> set occupied}"
    using 2 by (auto simp: Suc_le_eq)
  moreover have "finite {j. i \<le> j \<and> token_text kind j \<in> set occupied}"
    by (rule finite_subset [OF _ finite_taken_tokens [of kind occupied]]) auto
  ultimately show ?case by (simp add: psubset_card_mono)
qed simp

declare free_token.simps [simp del]

record encode_state =
  copy_heap :: "cell list"
  token_occupied :: "string list"
  token_index :: nat
  numeric_tokens :: "(string, string) dict"

definition place_token :: "string \<Rightarrow> string \<Rightarrow> nat \<Rightarrow> slot_key \<Rightarrow> encode_state \<Rightarrow> encode_state" where
  "place_token kind canonical_number parent key st =
     (let i = free_token kind (token_occupied st) (token_index st);
          token = token_text kind i
      in \<lparr>copy_heap = write_slot parent key (SlotLeaf (LStr token)) (copy_heap st),
          token_occupied = List.insert token (token_occupied st),
          token_index = i + 1,
          numeric_tokens = dict_set (json_string token) canonical_number (numeric_tokens st)\<rparr>)"

type_synonym copy_frame = "json_copy \<times> nat \<times> slot_key"

definition copy_frame_weight :: "copy_frame \<Rightarrow> nat" where
  "copy_frame_weight frame = Suc (size (fst frame))"

lemma copy_list_weight:
  "sum_list (map (copy_frame_weight \<circ> (\<lambda>(i, child). (child, copied, Index i))) (enumerate n xs)) = size_list size xs"
  by (induction xs arbitrary: n) (simp_all add: copy_frame_weight_def)

lemma copy_dict_weight:
  "sum_list (map (copy_frame_weight \<circ> (\<lambda>(k, child). (child, copied, Key k))) items) \<le> size_list (size_prod (\<lambda>_. 0) size) items"
  by (induction items) (auto simp: size_prod_def copy_frame_weight_def)

function (sequential) encode_loop :: "copy_frame list \<Rightarrow> encode_state \<Rightarrow> canonical_error + encode_state" where
  "encode_loop [] st = Inr st"
| "encode_loop ((CopyLeaf l, parent, key) # pending) st =
     (case l of
        LDecimal d \<Rightarrow>
          bind_sum (decimal_text d) (\<lambda>number. encode_loop pending (place_token ''decimal'' number parent key st))
      | LInt i \<Rightarrow>
          if large_integer i then
            bind_sum (format_integer i) (\<lambda>number. encode_loop pending (place_token ''integer'' number parent key st))
          else encode_loop pending (st\<lparr>copy_heap := write_slot parent key (SlotLeaf l) (copy_heap st)\<rparr>)
      | _ \<Rightarrow> encode_loop pending (st\<lparr>copy_heap := write_slot parent key (SlotLeaf l) (copy_heap st)\<rparr>))"
| "encode_loop ((CopyDict items, parent, key) # pending) st =
     (let copied = length (copy_heap st) in
      encode_loop (map (\<lambda>(k, child). (child, copied, Key k)) items @ pending)
        (st\<lparr>copy_heap := write_slot parent key (SlotRef copied) (copy_heap st @ [DictCell []])\<rparr>))"
| "encode_loop ((CopyList items, parent, key) # pending) st =
     (let copied = length (copy_heap st) in
      encode_loop (map (\<lambda>(i, child). (child, copied, Index i)) (enumerate 0 items) @ pending)
        (st\<lparr>copy_heap := write_slot parent key (SlotRef copied)
             (copy_heap st @ [ListCell (replicate (length items) SlotNone)])\<rparr>))"
  by pat_completeness auto

termination
  by (relation "measure (\<lambda>(pending, st). sum_list (map copy_frame_weight pending))")
    (simp_all add: copy_list_weight, simp_all add: copy_frame_weight_def [of "(_, _)"] less_Suc_eq_le le_SucI [OF copy_dict_weight])

declare encode_loop.simps [simp del]

section \<open>Replacing the placeholders\<close>

definition slice :: "string \<Rightarrow> nat \<Rightarrow> nat \<Rightarrow> string" where
  "slice s i j = drop i (take j s)"

function literal_end :: "string \<Rightarrow> nat \<Rightarrow> nat" where
  "literal_end encoded cursor =
     (if cursor < length encoded then
        if encoded ! cursor = CHR 0x5C then literal_end encoded (cursor + 2)
        else if encoded ! cursor = CHR 0x22 then cursor + 1
        else literal_end encoded (cursor + 1)
      else cursor)"
  by pat_completeness auto

termination
  by (relation "measure (\<lambda>(encoded, cursor). length encoded - cursor)") auto

declare literal_end.simps [simp del]

lemma literal_end_ge: "cursor \<le> literal_end encoded cursor"
proof (induction encoded cursor rule: literal_end.induct)
  case (1 encoded cursor)
  then show ?case by (subst literal_end.simps) auto
qed

function replace_loop :: "(string, string) dict \<Rightarrow> string \<Rightarrow> nat \<Rightarrow> nat \<Rightarrow> string list \<Rightarrow> string" where
  "replace_loop tokens encoded cursor copy_start parts =
     (if cursor < length encoded then
        if encoded ! cursor \<noteq> CHR 0x22 then replace_loop tokens encoded (cursor + 1) copy_start parts
        else
          let stop = literal_end encoded (cursor + 1) in
          (case map_of tokens (slice encoded cursor stop) of
             None \<Rightarrow> replace_loop tokens encoded stop copy_start parts
           | Some replacement \<Rightarrow>
               replace_loop tokens encoded stop stop (parts @ [slice encoded copy_start cursor, replacement]))
      else concat (parts @ [drop copy_start encoded]))"
  by pat_completeness auto

termination
proof (relation "measure (\<lambda>(tokens, encoded, cursor, copy_start, parts). length encoded - cursor)", goal_cases)
  case (3 tokens encoded cursor copy_start parts stop)
  then show ?case using literal_end_ge [of "cursor + 1" encoded] by auto
next
  case (4 tokens encoded cursor copy_start parts stop replacement)
  then show ?case using literal_end_ge [of "cursor + 1" encoded] by auto
qed auto

declare replace_loop.simps [simp del]

section \<open>Encoding and digests\<close>

definition canonical_dumps_with :: "(64 word \<Rightarrow> string) \<Rightarrow> bool \<Rightarrow> json_arg \<Rightarrow> canonical_error + string" where
  "canonical_dumps_with float_repr reject_tuples v =
     bind_sum (take_snapshot reject_tuples v) (\<lambda>(snapshot, occupied, decimals, large_integers).
       if \<not> decimals \<and> \<not> large_integers then json_dumps float_repr snapshot
       else
         bind_sum (encode_loop [(snapshot, 0, Index 0)]
             \<lparr>copy_heap = [ListCell [SlotNone]], token_occupied = occupied, token_index = 0, numeric_tokens = []\<rparr>) (\<lambda>st.
         bind_sum (json_dumps float_repr (read_root (copy_heap st))) (\<lambda>encoded.
         Inr (replace_loop (numeric_tokens st) encoded 0 0 []))))"

definition canonical_dumps_reference :: "(64 word \<Rightarrow> string) \<Rightarrow> json_arg \<Rightarrow> canonical_error + string" where
  "canonical_dumps_reference float_repr v = canonical_dumps_with float_repr False v"

definition utf8 :: "string \<Rightarrow> nat list" where
  "utf8 s = concat (map (\<lambda>c. let n = code_point c in if n < 128 then [n] else [192 + n div 64, 128 + n mod 64]) s)"

text \<open>\<^verbatim>\<open>hashlib.sha256(...).hexdigest()\<close> is the argument \<open>sha256_hex\<close>.\<close>

definition canonical_hash_reference :: "(64 word \<Rightarrow> string) \<Rightarrow> (nat list \<Rightarrow> string) \<Rightarrow> json_arg \<Rightarrow> canonical_error + string" where
  "canonical_hash_reference float_repr sha256_hex v =
     bind_sum (canonical_dumps_reference float_repr v) (\<lambda>text. Inr (''sha256:'' @ sha256_hex (utf8 text)))"

section \<open>The native boundary\<close>

text \<open>
  The extension module \<^verbatim>\<open>graphblocks_runtime\<close>, \<^const>\<open>None\<close> when it cannot be imported. Its availability check may
  be absent, raise, or return a value that is or is not \<^verbatim>\<open>True\<close>; a function is absent, raises, or
  returns a string or something else.
\<close>

datatype native_probe = ProbeAbsent | ProbeRaises | ProbeReturns bool

datatype native_result = NativeRaises | NativeText string | NativeOther

record native_runtime =
  native_extension_available :: native_probe
  native_function :: "string \<Rightarrow> (string \<Rightarrow> native_result) option"

definition native_canonical_callable :: "native_runtime option \<Rightarrow> string \<Rightarrow> canonical_error + (string \<Rightarrow> native_result)" where
  "native_canonical_callable runtime name =
     (case runtime of
        None \<Rightarrow> Inl NativeCanonicalUnavailableError
      | Some loaded \<Rightarrow>
          if native_extension_available loaded \<in> {ProbeRaises, ProbeReturns False} then Inl NativeCanonicalUnavailableError
          else (case native_function loaded name of
                  None \<Rightarrow> Inl NativeCanonicalUnavailableError
                | Some f \<Rightarrow> Inr f))"

definition canonical_dumps :: "native_runtime option \<Rightarrow> (64 word \<Rightarrow> string) \<Rightarrow> json_arg \<Rightarrow> canonical_error + string" where
  "canonical_dumps runtime float_repr v =
     bind_sum (canonical_dumps_reference float_repr v) (\<lambda>reference.
     bind_sum (native_canonical_callable runtime ''canonicalize_json'') (\<lambda>native_canonicalize.
     case native_canonicalize reference of
       NativeRaises \<Rightarrow> Inl NativeCanonicalContractError
     | NativeOther \<Rightarrow> Inl NativeCanonicalContractError
     | NativeText result \<Rightarrow> if result \<noteq> reference then Inl NativeCanonicalContractError else Inr result))"

definition canonical_digest :: "string \<Rightarrow> bool" where
  "canonical_digest result \<longleftrightarrow>
     starts_with result ''sha256:'' \<and> length result = length ''sha256:'' + 64 \<and>
     list_all (\<lambda>c. c \<in> set ''0123456789abcdef'') (drop 7 result)"

definition canonical_hash :: "native_runtime option \<Rightarrow> (64 word \<Rightarrow> string) \<Rightarrow> (nat list \<Rightarrow> string) \<Rightarrow> json_arg \<Rightarrow> canonical_error + string" where
  "canonical_hash runtime float_repr sha256_hex v =
     bind_sum (canonical_dumps_reference float_repr v) (\<lambda>reference.
     bind_sum (native_canonical_callable runtime ''canonical_hash_json'') (\<lambda>native_hash.
     case native_hash reference of
       NativeRaises \<Rightarrow> Inl NativeCanonicalContractError
     | NativeOther \<Rightarrow> Inl NativeCanonicalContractError
     | NativeText result \<Rightarrow>
         if \<not> canonical_digest result then Inl NativeCanonicalContractError
         else if result \<noteq> ''sha256:'' @ sha256_hex (utf8 reference) then Inl NativeCanonicalContractError
         else Inr result))"

end
