(* ===== verification/Canonical_Copy.thy ===== *)
theory Canonical_Copy
  imports Canonical
begin

text \<open>
  The integer codec in chunks agrees with the plain decimal notation. Copies of values in the heap
  of containers: filling a slot with a copy and reading it back, and the copy that the snapshot
  makes as a recursive function.
\<close>

section \<open>The integer codec\<close>

primrec pad_digits :: "nat \<Rightarrow> nat \<Rightarrow> string" where
  "pad_digits 0 n = []"
| "pad_digits (Suc k) n = pad_digits k (n div 10) @ [char_of (48 + n mod 10)]"

lemma nat_digits_small: "n < 10 \<Longrightarrow> nat_digits n = [char_of (48 + n)]"
  by (simp add: nat_digits.simps)

lemma nat_digits_step: "10 \<le> n \<Longrightarrow> nat_digits n = nat_digits (n div 10) @ [char_of (48 + n mod 10)]"
  by (simp add: nat_digits.simps [of n])

lemma length_nat_digits: "n < 10 ^ k \<Longrightarrow> 0 < k \<Longrightarrow> length (nat_digits n) \<le> k"
proof (induction k arbitrary: n)
  case (Suc k)
  show ?case
  proof (cases "n < 10")
    case False
    then have "0 < k" using Suc.prems(1) by (cases k) auto
    moreover have "n div 10 < 10 ^ k" using Suc.prems(1) by (simp add: less_mult_imp_div_less mult.commute)
    ultimately show ?thesis using Suc.IH False by (simp add: nat_digits_step)
  qed (simp add: nat_digits_small)
qed simp

lemma char_of_48: "char_of (48::nat) = CHR ''0''"
  by code_simp

lemma pad_digits_0: "pad_digits k 0 = replicate k CHR ''0''"
  by (induction k) (simp_all add: replicate_append_same char_of_48)

lemma nat_digits_pad: "n < 10 ^ k \<Longrightarrow> 0 < k \<Longrightarrow> replicate (k - length (nat_digits n)) CHR ''0'' @ nat_digits n = pad_digits k n"
proof (induction k arbitrary: n)
  case (Suc k)
  show ?case
  proof (cases "n < 10")
    case True
    then show ?thesis by (simp add: nat_digits_small pad_digits_0)
  next
    case False
    then have k: "0 < k" using Suc.prems(1) by (cases k) auto
    have "n div 10 < 10 ^ k" using Suc.prems(1) by (simp add: less_mult_imp_div_less mult.commute)
    then show ?thesis using Suc.IH [of "n div 10"] k False by (simp add: nat_digits_step)
  qed
qed simp

lemma nat_digits_join: "0 < n div 10 ^ k \<Longrightarrow> nat_digits n = nat_digits (n div 10 ^ k) @ pad_digits k (n mod 10 ^ k)"
proof (induction k arbitrary: n)
  case (Suc k)
  have "10 \<le> n"
  proof (rule ccontr)
    assume "\<not> 10 \<le> n"
    then have "n < 10 ^ Suc k" by (simp add: order_less_le_trans [of n 10])
    then show False using Suc.prems by simp
  qed
  then show ?case using Suc.IH [of "n div 10"] Suc.prems
    by (simp add: nat_digits_step div_mult2_eq mod_mult2_eq)
qed simp

lemma fmt_09d_pad: "0 \<le> i \<Longrightarrow> i < INTEGER_CHUNK_BASE \<Longrightarrow> fmt_09d i = pad_digits 9 (nat i)"
  using nat_digits_pad [of "nat i" 9] by (simp add: fmt_09d_def Let_def nat_less_iff)

lemma integer_chunks_nonempty: "0 < m \<Longrightarrow> integer_chunks m \<noteq> []"
  by (simp add: integer_chunks.simps)

lemma integer_chunks_text:
  "0 < m \<Longrightarrow> nat_digits (nat (last (integer_chunks m))) @ concat (map fmt_09d (rev (butlast (integer_chunks m)))) = nat_digits (nat m)"
proof (induction m rule: integer_chunks.induct)
  case (1 m)
  show ?case
  proof (cases "0 < m div INTEGER_CHUNK_BASE")
    case True
    have "nat_digits (nat m) = nat_digits (nat m div 10 ^ 9) @ pad_digits 9 (nat m mod 10 ^ 9)"
      using True by (intro nat_digits_join) (simp add: nat_div_distrib [symmetric])
    moreover have "nat m div 10 ^ 9 = nat (m div INTEGER_CHUNK_BASE)" "nat m mod 10 ^ 9 = nat (m mod INTEGER_CHUNK_BASE)"
      using 1(2) by (simp_all add: nat_div_distrib nat_mod_distrib)
    ultimately show ?thesis using 1 True integer_chunks_nonempty [OF True]
      by (simp add: integer_chunks.simps [of m] fmt_09d_pad)
  next
    case False
    then have "m div INTEGER_CHUNK_BASE = 0" using 1(2) by (simp add: pos_imp_zdiv_nonneg_iff order_antisym)
    then show ?thesis using 1(2) by (simp add: integer_chunks.simps [of m] integer_chunks.simps [of 0] zdiv_eq_0_iff)
  qed
qed

lemma format_integer_text: "format_integer i = (if integer_out_of_range i then Inl CanonicalValueError else Inr (int_text i))"
  using integer_chunks_text [of i] integer_chunks_text [of "- i"]
  by (auto simp: format_integer_def int_text_def Let_def nat_digits_small) code_simp

lemma int_of_decimal_split: "int_of_decimal (s @ t) = int_of_decimal s * 10 ^ length t + int_of_decimal t"
proof (induction t rule: rev_induct)
  case (snoc c t)
  then show ?case unfolding append_assoc [symmetric] int_of_decimal_append by (simp add: algebra_simps)
qed (simp add: int_of_decimal_def)

lemma parse_chunks_value:
  "list_all is_digit s \<Longrightarrow> 9 dvd length s \<Longrightarrow> parse_chunks v s = Inr (v * 10 ^ length s + int_of_decimal s)"
proof (induction v s rule: parse_chunks.induct)
  case (2 v c cs)
  let ?s = "c # cs"
  have len: "9 \<le> length ?s" using 2(3) by (intro dvd_imp_le) simp_all
  have "int_chunk (take 9 ?s) = Inr (int_of_decimal (take 9 ?s))"
    using 2(2) by (auto simp: int_chunk_def is_ascii_decimal_def list_all_iff dest: in_set_takeD)
  moreover have "list_all is_digit (drop 9 ?s)" using 2(2) by (auto simp: list_all_iff dest: in_set_dropD)
  moreover have "9 dvd length (drop 9 ?s)" unfolding length_drop using 2(3) by (rule dvd_diff_nat) simp
  moreover have "10 ^ length ?s = (10::int) ^ 9 * 10 ^ length (drop 9 ?s)"
    unfolding power_add [symmetric] length_drop using len by (intro arg_cong [where f = "power 10"]) linarith
  moreover have "int_of_decimal ?s = int_of_decimal (take 9 ?s) * 10 ^ length (drop 9 ?s) + int_of_decimal (drop 9 ?s)"
    using int_of_decimal_split [of "take 9 ?s" "drop 9 ?s"] by (simp del: take_Suc_Cons drop_Suc_Cons)
  ultimately show ?case using 2(1) [of "int_of_decimal (take 9 ?s)"]
    by (simp add: algebra_simps del: take_Suc_Cons drop_Suc_Cons length_drop int_of_decimal_append)
qed (simp add: int_of_decimal_def)

lemma parse_digits:
  assumes "is_ascii_decimal digits"
  defines "n \<equiv> (if length digits mod 9 = 0 then 9 else length digits mod 9)"
  shows "bind_sum (int_chunk (take n digits)) (\<lambda>first. parse_chunks first (drop n digits)) = Inr (int_of_decimal digits)"
proof -
  have digits: "digits \<noteq> []" "list_all is_digit digits" using assms(1) by (simp_all add: is_ascii_decimal_def)
  then have "n \<le> length digits" "0 < n" unfolding n_def
    by (auto intro: dvd_imp_le mod_less_eq_dividend simp: mod_eq_0_iff_dvd [symmetric])
  moreover have "9 dvd length digits - n"
    unfolding n_def by (auto simp: mod_eq_0_iff_dvd intro: dvd_minus_mod dvd_diff_nat)
  moreover have "list_all is_digit (take n digits)" "list_all is_digit (drop n digits)"
    using digits(2) by (auto simp: list_all_iff dest: in_set_takeD in_set_dropD)
  ultimately show ?thesis
    using digits(1) int_of_decimal_split [of "take n digits" "drop n digits"]
    by (simp add: int_chunk_def is_ascii_decimal_def parse_chunks_value)
qed

lemma parse_integer_digits:
  assumes "is_ascii_decimal digits"
  shows "parse_integer digits = (if MAX_CANONICAL_INTEGER_DIGITS < length digits then Inl CanonicalValueError else Inr (int_of_decimal digits))"
    "parse_integer (CHR ''-'' # digits) = (if MAX_CANONICAL_INTEGER_DIGITS < length digits then Inl CanonicalValueError else Inr (- int_of_decimal digits))"
proof -
  have "\<not> starts_with digits ''-''"
    using assms by (cases digits) (auto simp: starts_with_def is_ascii_decimal_def is_digit_def)
  then show "parse_integer digits = (if MAX_CANONICAL_INTEGER_DIGITS < length digits then Inl CanonicalValueError else Inr (int_of_decimal digits))"
    using parse_digits [OF assms] by (auto simp: parse_integer_def Let_def bind_sum_Inr_iff)
  show "parse_integer (CHR ''-'' # digits) = (if MAX_CANONICAL_INTEGER_DIGITS < length digits then Inl CanonicalValueError else Inr (- int_of_decimal digits))"
    using parse_digits [OF assms] by (auto simp: parse_integer_def Let_def bind_sum_Inr_iff starts_with_def)
qed

lemma parse_int_text: "\<not> integer_out_of_range i \<Longrightarrow> parse_integer (int_text i) = Inr i"
proof -
  assume "\<not> integer_out_of_range i"
  then have "nat \<bar>i\<bar> < 10 ^ MAX_CANONICAL_INTEGER_DIGITS"
    unfolding integer_out_of_range_def max_canonical_integer_magnitude_def
    by (simp only: nat_less_iff [OF abs_ge_zero] of_nat_power of_nat_numeral) linarith
  from length_nat_digits [OF this] show ?thesis
    using parse_integer_digits [OF nat_digits_decimal, of "nat \<bar>i\<bar>"] by (auto simp: int_text_def)
qed

section \<open>Copies in the heap\<close>

lemma size_enumerated: "(i, c) \<in> set (enumerate n xs) \<Longrightarrow> size c < Suc (size_list size xs)"
  for xs :: "json_copy list"
  by (induction xs arbitrary: n) (auto simp: less_Suc_eq)

text \<open>
  Filling a slot with a copy, container by container, as both traversals do; and the cells that the
  copy occupies afterwards, in the order in which they are created.
\<close>

function place :: "json_copy \<Rightarrow> nat \<Rightarrow> slot_key \<Rightarrow> cell list \<Rightarrow> cell list" where
  "place (CopyLeaf l) parent key h = write_slot parent key (SlotLeaf l) h"
| "place (CopyDict items) parent key h =
     fold (\<lambda>(k, c). place c (length h) (Key k)) items (write_slot parent key (SlotRef (length h)) (h @ [DictCell []]))"
| "place (CopyList xs) parent key h =
     fold (\<lambda>(i, c). place c (length h) (Index i)) (enumerate 0 xs)
       (write_slot parent key (SlotRef (length h)) (h @ [ListCell (replicate (length xs) SlotNone)]))"
  by pat_completeness auto

termination
  by (relation "measure (\<lambda>(c, parent, key, h). size c)") (auto dest: copy_size_item size_enumerated)

primrec slot_of :: "json_copy \<Rightarrow> nat \<Rightarrow> json_slot" where
  "slot_of (CopyLeaf l) n = SlotLeaf l"
| "slot_of (CopyList xs) n = SlotRef n"
| "slot_of (CopyDict items) n = SlotRef n"

lemma size_values: "size_list (size \<circ> snd) items \<le> size_list (size_prod (\<lambda>_. 0) size) items"
  for items :: "(string \<times> json_copy) list"
  by (induction items) (auto simp: size_prod_def)

function (sequential) cells :: "json_copy \<Rightarrow> nat \<Rightarrow> cell list"
  and layout :: "json_copy list \<Rightarrow> nat \<Rightarrow> json_slot list \<times> cell list" where
  "cells (CopyLeaf l) n = []"
| "cells (CopyList xs) n = (case layout xs (Suc n) of (slots, below) \<Rightarrow> ListCell slots # below)"
| "cells (CopyDict items) n =
     (case layout (map snd items) (Suc n) of (slots, below) \<Rightarrow> DictCell (zip (map fst items) slots) # below)"
| "layout [] n = ([], [])"
| "layout (c # cs) n =
     (case layout cs (n + length (cells c n)) of (slots, below) \<Rightarrow> (slot_of c n # slots, cells c n @ below))"
  by pat_completeness auto

termination
  by (relation "measure (\<lambda>x. case x of Inl (c, n) \<Rightarrow> size c | Inr (cs, n) \<Rightarrow> size_list size cs)")
    (auto simp: less_Suc_eq_le size_values)

fun copy_ok :: "json_copy \<Rightarrow> bool" where
  "copy_ok (CopyLeaf l) \<longleftrightarrow> True"
| "copy_ok (CopyList xs) \<longleftrightarrow> (\<forall>x\<in>set xs. copy_ok x)"
| "copy_ok (CopyDict items) \<longleftrightarrow> distinct (map fst items) \<and> (\<forall>(k, c)\<in>set items. copy_ok c)"

lemma length_write_slot [simp]: "length (write_slot a k s h) = length h"
  by (simp add: write_slot_def)

lemma write_slot_append [simp]: "a < length h \<Longrightarrow> write_slot a k s (h @ h') = write_slot a k s h @ h'"
  by (simp add: write_slot_def list_update_append nth_append)

lemma write_slots_append:
  "a < length h \<Longrightarrow> fold (\<lambda>(k, s). write_slot a k s) kss (h @ h') = fold (\<lambda>(k, s). write_slot a k s) kss h @ h'"
  by (induction kss arbitrary: h) auto

lemma length_layout [simp]: "length (fst (layout cs n)) = length cs"
  by (induction cs arbitrary: n) (auto split: prod.splits, metis fst_conv)

text \<open>The slots of one container, written one after the other.\<close>

lemma write_slots_cell:
  "a = length h \<Longrightarrow> fold (\<lambda>(k, s). write_slot a k s) kss (h @ [c]) = h @ [fold (\<lambda>(k, s). write_cell k s) kss c]"
  by (induction kss arbitrary: c) (auto simp: write_slot_def)

lemma write_dict:
  "distinct (map fst (d @ items)) \<Longrightarrow>
   fold (\<lambda>(k, s). write_cell k s) (map (\<lambda>(k, s). (Key k, s)) items) (DictCell d) = DictCell (d @ items)"
proof (induction items arbitrary: d)
  case (Cons p items)
  obtain k s where p: "p = (k, s)" by force
  have "map_of d k = None" using Cons.prems by (auto simp: p map_of_eq_None_iff)
  then show ?case using Cons.IH [of "d @ [(k, s)]"] Cons.prems by (simp add: p dict_set_new)
qed simp

lemma write_list:
  "length xs = n \<Longrightarrow>
   fold (\<lambda>(k, s). write_cell k s) (map (\<lambda>(i, s). (Index i, s)) (enumerate n ys)) (ListCell (xs @ replicate (length ys) SlotNone)) =
   ListCell (xs @ ys)"
proof (induction ys arbitrary: xs n)
  case (Cons y ys)
  then show ?case using Cons.IH [of "xs @ [y]" "Suc n"] by (simp add: list_update_append)
qed simp

lemma place_children:
  assumes "\<And>k c h. (k, c) \<in> set (zip keys cs) \<Longrightarrow> a < length h \<Longrightarrow> place c a k h = write_slot a k (slot_of c (length h)) h @ cells c (length h)"
    and "length keys = length cs" "a < length h"
  shows "fold (\<lambda>(k, c). place c a k) (zip keys cs) h =
    fold (\<lambda>(k, s). write_slot a k s) (zip keys (fst (layout cs (length h)))) h @ snd (layout cs (length h))"
  using assms
proof (induction cs arbitrary: keys h)
  case (Cons c cs)
  obtain k ks where keys: "keys = k # ks" "length ks = length cs" using Cons.prems(2) by (cases keys) auto
  let ?h = "write_slot a k (slot_of c (length h)) h @ cells c (length h)"
  have "fold (\<lambda>(k, c). place c a k) (zip ks cs) ?h =
      fold (\<lambda>(k, s). write_slot a k s) (zip ks (fst (layout cs (length ?h)))) ?h @ snd (layout cs (length ?h))"
    using Cons.prems keys by (intro Cons.IH) auto
  then show ?case using Cons.prems keys by (simp add: write_slots_append split: prod.splits)
qed simp

lemma zip_maps: "zip (map f xs) (map g xs) = map (\<lambda>x. (f x, g x)) xs"
  by (induction xs) auto

lemma place_cells:
  "copy_ok c \<Longrightarrow> parent < length h \<Longrightarrow>
   place c parent key h = write_slot parent key (slot_of c (length h)) h @ cells c (length h)"
proof (induction c parent key h rule: place.induct)
  case (2 items parent key h)
  let ?n = "length h" and ?h = "write_slot parent key (SlotRef (length h)) h"
  have "fold (\<lambda>(k, c). place c ?n k) (zip (map (\<lambda>p. Key (fst p)) items) (map snd items)) (?h @ [DictCell []]) =
      fold (\<lambda>(k, s). write_slot ?n k s) (zip (map (\<lambda>p. Key (fst p)) items) (fst (layout (map snd items) (Suc ?n)))) (?h @ [DictCell []])
      @ snd (layout (map snd items) (Suc ?n))"
    using 2 by (subst place_children) (auto simp: zip_maps)
  moreover have "fold (\<lambda>(k, c). place c ?n k) (zip (map (\<lambda>p. Key (fst p)) items) (map snd items)) = fold (\<lambda>(k, c). place c ?n (Key k)) items"
    by (induction items) (auto simp: fun_eq_iff)
  moreover have "zip (map (\<lambda>p. Key (fst p)) items) ss = map (\<lambda>(k, s). (Key k, s)) (zip (map fst items) ss)" for ss :: "json_slot list"
    by (simp add: zip_map1 [of Key "map fst items", symmetric] comp_def)
  ultimately show ?case using 2(2,3) write_dict [of "[]" "zip (map fst items) (fst (layout (map snd items) (Suc ?n)))"]
    by (simp add: write_slots_cell split: prod.splits)
next
  case (3 xs parent key h)
  let ?n = "length h" and ?h = "write_slot parent key (SlotRef (length h)) h" and ?c = "ListCell (replicate (length xs) SlotNone)"
  have IH: "place c ?n (Index i) h' = write_slot ?n (Index i) (slot_of c (length h')) h' @ cells c (length h')"
    if "(i, c) \<in> set (enumerate 0 xs)" "?n < length h'" for i c h'
  proof -
    have "c \<in> set xs" using that(1) by (auto simp: enumerate_eq_zip dest: set_zip_rightD)
    then show ?thesis using 3(1) [OF that(1) refl] 3(2) that(2) by simp
  qed
  have "fold (\<lambda>(k, c). place c ?n k) (zip (map Index [0..<length xs]) xs) (?h @ [?c]) =
      fold (\<lambda>(k, s). write_slot ?n k s) (zip (map Index [0..<length xs]) (fst (layout xs (Suc ?n)))) (?h @ [?c])
      @ snd (layout xs (Suc ?n))"
    using IH by (subst place_children) (auto simp: zip_map1 enumerate_eq_zip)
  moreover have "fold (\<lambda>(k, c). place c ?n k) (zip (map Index [0..<length xs]) xs) = fold (\<lambda>(i, c). place c ?n (Index i)) (enumerate 0 xs)"
    by (simp add: enumerate_eq_zip zip_map1 fold_map comp_def case_prod_unfold)
  moreover have "zip (map Index [0..<length xs]) ss = map (\<lambda>(i, s). (Index i, s)) (enumerate 0 ss)" if "length ss = length xs" for ss :: "json_slot list"
    using that by (simp add: enumerate_eq_zip zip_map1 split_def)
  ultimately show ?case using 3(2,3) write_list [of "[]" 0 "fst (layout xs (Suc ?n))"]
    by (simp add: write_slots_cell split: prod.splits)
qed simp

text \<open>A copy is read back from the cells it occupies, wherever they stand in the heap.\<close>

lemma read_cells:
  "copy_ok c \<Longrightarrow> low \<le> n \<Longrightarrow> length pre = n \<Longrightarrow> read_slot (pre @ cells c n @ post) low (slot_of c n) = c"
  "\<forall>c\<in>set cs. copy_ok c \<Longrightarrow> low \<le> n \<Longrightarrow> length pre = n \<Longrightarrow>
     map (read_slot (pre @ snd (layout cs n) @ post) low) (fst (layout cs n)) = cs"
proof (induction c n and cs n arbitrary: low pre post and low pre post rule: cells_layout.induct)
  case (2 xs n)
  obtain slots below where lay: "layout xs (Suc n) = (slots, below)" by force
  have "map (read_slot ((pre @ [ListCell slots]) @ below @ post) (Suc n)) slots = xs"
    using 2(1) [of "Suc n" "pre @ [ListCell slots]" post] 2(2-4) lay by simp
  then show ?case using 2 lay by (simp add: nth_append)
next
  case (3 items n)
  obtain slots below where lay: "layout (map snd items) (Suc n) = (slots, below)" by force
  let ?c = "DictCell (zip (map fst items) slots)"
  have read: "map (read_slot ((pre @ [?c]) @ below @ post) (Suc n)) slots = map snd items"
    using 3(1) [of "Suc n" "pre @ [?c]" post] 3(2-4) lay by (simp add: case_prod_unfold)
  have "map (\<lambda>(k, s). (k, f s)) (zip (map fst items) slots) = zip (map fst items) (map f slots)" for f :: "json_slot \<Rightarrow> json_copy"
    by (simp add: zip_map2 case_prod_unfold)
  then show ?case using 3(2-4) lay read by (simp add: nth_append zip_map_fst_snd)
next
  case (5 c cs n)
  obtain slots below where lay: "layout cs (n + length (cells c n)) = (slots, below)" by force
  have "read_slot (pre @ cells c n @ below @ post) low (slot_of c n) = c"
    using "5.IH"(1) [of low pre "below @ post"] "5.prems" by simp
  moreover have "map (read_slot ((pre @ cells c n) @ below @ post) low) slots = cs"
    using "5.IH"(2) [of low "pre @ cells c n" post] "5.prems" lay by simp
  ultimately show ?case using lay by simp
qed simp_all

lemma read_root_place: "copy_ok c \<Longrightarrow> read_root (place c 0 (Index 0) [ListCell [SlotNone]]) = c"
  using read_cells(1) [of c 1 1 "[ListCell [slot_of c 1]]" "[]"]
  by (simp add: place_cells read_root_def write_slot_def)

section \<open>The recursive copy\<close>

text \<open>
  What the snapshot computes, by recursion on the value: the copy and the notes about its strings
  and numbers. The containers around the value are those that must not occur again in it.
\<close>

type_synonym value_notes = "string list \<times> bool \<times> bool"

primrec thread_list :: "('x \<Rightarrow> 's \<Rightarrow> 'e + 'y \<times> 's) \<Rightarrow> 'x list \<Rightarrow> 's \<Rightarrow> 'e + 'y list \<times> 's" where
  "thread_list f [] s = Inr ([], s)"
| "thread_list f (x # xs) s = bind_sum (f x s) (\<lambda>(y, s'). bind_sum (thread_list f xs s') (\<lambda>(ys, s''). Inr (y # ys, s'')))"

lemma thread_list_cong [fundef_cong]:
  "xs = ys \<Longrightarrow> s = t \<Longrightarrow> (\<And>x s. x \<in> set ys \<Longrightarrow> f x s = g x s) \<Longrightarrow> thread_list f xs s = thread_list g ys t"
  by (induction xs arbitrary: ys s t) (auto intro!: arg_cong [where f = "bind_sum _"] simp: fun_eq_iff)

definition note_leaf :: "json_leaf \<Rightarrow> value_notes \<Rightarrow> canonical_error + value_notes" where
  "note_leaf l notes =
     (case notes of (occupied, decimals, large) \<Rightarrow>
        (case l of
           LStr s \<Rightarrow> Inr (List.insert s occupied, decimals, large)
         | LDecimal d \<Rightarrow> Inr (occupied, True, large)
         | LInt i \<Rightarrow> if integer_out_of_range i then Inl CanonicalValueError else Inr (occupied, decimals, large \<or> large_integer i)
         | _ \<Rightarrow> Inr notes))"

lemma size_mapping_item: "(k, v) \<in> set items \<Longrightarrow> size v < Suc (size_list (size_prod size size) items)"
  for items :: "(json_arg \<times> json_arg) list"
  by (induction items) (auto simp: size_prod_def)

lemma size_list_item: "v \<in> set xs \<Longrightarrow> size v < Suc (size_list size xs)" for xs :: "json_arg list"
  by (induction xs) auto

function copy_value :: "bool \<Rightarrow> nat \<Rightarrow> nat set \<Rightarrow> json_arg \<Rightarrow> value_notes \<Rightarrow> canonical_error + json_copy \<times> value_notes" where
  "copy_value reject depth enclosing (ArgLeaf l) notes =
     (if MAX_CANONICAL_JSON_DEPTH < depth then Inl CanonicalValueError
      else bind_sum (note_leaf l notes) (\<lambda>n. Inr (CopyLeaf l, n)))"
| "copy_value reject depth enclosing (ArgList ident xs) notes =
     (if MAX_CANONICAL_JSON_DEPTH < depth \<or> ident \<in> enclosing then Inl CanonicalValueError
      else bind_sum (thread_list (copy_value reject (depth + 1) (insert ident enclosing)) xs notes) (\<lambda>(cs, n). Inr (CopyList cs, n)))"
| "copy_value reject depth enclosing (ArgTuple ident xs) notes =
     (if MAX_CANONICAL_JSON_DEPTH < depth then Inl CanonicalValueError
      else if reject then Inl CanonicalTypeError
      else if ident \<in> enclosing then Inl CanonicalValueError
      else bind_sum (thread_list (copy_value reject (depth + 1) (insert ident enclosing)) xs notes) (\<lambda>(cs, n). Inr (CopyList cs, n)))"
| "copy_value reject depth enclosing (ArgMapping ident items) notes =
     (if MAX_CANONICAL_JSON_DEPTH < depth \<or> ident \<in> enclosing then Inl CanonicalValueError
      else bind_sum (snapshot_keys items [] (fst notes)) (\<lambda>occupied.
        bind_sum (thread_list (\<lambda>(k, child). copy_value reject (depth + 1) (insert ident enclosing) child) items (occupied, snd notes))
          (\<lambda>(cs, n). Inr (CopyDict (zip (map (key_text \<circ> fst) items) cs), n))))"
  by pat_completeness auto

termination
  by (relation "measure (\<lambda>(reject, depth, enclosing, v, notes). size v)") (auto dest: size_mapping_item size_list_item)

end
