(* ===== verification/Canonical_Snapshot.thy ===== *)
theory Canonical_Snapshot
  imports Canonical_Copy
begin

text \<open>
  The stack machine of the snapshot computes the recursive copy, and its notes list exactly the
  strings of the copy and tell whether it has decimals or large integers.
\<close>

section \<open>The snapshot machine\<close>

definition notes_of :: "snapshot_state \<Rightarrow> value_notes" where
  "notes_of st = (occupied_strings st, has_decimal st, has_large_integer st)"

definition with_notes :: "value_notes \<Rightarrow> snapshot_state \<Rightarrow> snapshot_state" where
  "with_notes n st = (case n of (occupied, decimals, large) \<Rightarrow>
     st\<lparr>occupied_strings := occupied, has_decimal := decimals, has_large_integer := large\<rparr>)"

lemma notes_simps [simp]:
  "notes_of (with_notes n st) = n"
  "snap_heap (with_notes n st) = snap_heap st"
  "active_containers (with_notes n st) = active_containers st"
  "notes_of (st\<lparr>snap_heap := h\<rparr>) = notes_of st"
  "notes_of (st\<lparr>active_containers := A\<rparr>) = notes_of st"
  "with_notes n (with_notes m st) = with_notes n st"
  "(with_notes n st)\<lparr>snap_heap := h\<rparr> = with_notes n (st\<lparr>snap_heap := h\<rparr>)"
  "(with_notes n st)\<lparr>active_containers := A\<rparr> = with_notes n (st\<lparr>active_containers := A\<rparr>)"
  "with_notes (notes_of st) st = st"
  by (cases st; cases n; cases m; simp add: notes_of_def with_notes_def)+

lemma snapshot_leaf_notes: "snapshot_leaf l st = bind_sum (note_leaf l (notes_of st)) (\<lambda>n. Inr (with_notes n st))"
  by (cases st) (simp add: snapshot_leaf_def note_leaf_def notes_of_def with_notes_def split: json_leaf.splits)

lemma open_container_notes [simp]:
  "notes_of (open_container ident c parent key st) = notes_of st"
  "active_containers (open_container ident c parent key st) = insert ident (active_containers st)"
  "snap_heap (open_container ident c parent key st) = write_slot parent key (SlotRef (length (snap_heap st))) (snap_heap st @ [c])"
  by (simp_all add: open_container_def notes_of_def)

lemma bind_sum_assoc: "bind_sum (bind_sum m f) g = bind_sum m (\<lambda>x. bind_sum (f x) g)"
  by (cases m) simp_all

lemma thread_list_map: "thread_list f (map g xs) s = thread_list (\<lambda>x. f (g x)) xs s"
  by (induction xs arbitrary: s) (auto intro!: bind_sum_cong)

lemma thread_list_enumerate: "thread_list (\<lambda>(i, x). f x) (enumerate n xs) s = thread_list f xs s"
  by (induction xs arbitrary: n s) (auto intro!: bind_sum_cong)

lemma length_thread_list: "thread_list f xs s = Inr (ys, t) \<Longrightarrow> length ys = length xs"
  by (induction xs arbitrary: s ys t) (auto simp: bind_sum_Inr_iff)

text \<open>Visiting a value copies it into its slot, in any state whose visited containers are the given ones.\<close>

definition visit_copies :: "bool \<Rightarrow> nat \<Rightarrow> nat set \<Rightarrow> json_arg \<Rightarrow> bool" where
  "visit_copies reject depth A v \<longleftrightarrow>
     (\<forall>parent key pending st. active_containers st = A \<longrightarrow>
        snapshot_loop reject (Visit v parent key depth # pending) st =
        bind_sum (copy_value reject depth A v (notes_of st))
          (\<lambda>(c, n). snapshot_loop reject pending (with_notes n (st\<lparr>snap_heap := place c parent key (snap_heap st)\<rparr>))))"

lemma snapshot_children:
  assumes "\<forall>(key, v) \<in> set kids. visit_copies reject d A v" and "active_containers st = A"
  shows "snapshot_loop reject (map (\<lambda>(key, v). Visit v a key d) kids @ pending) st =
      bind_sum (thread_list (\<lambda>(key, v). copy_value reject d A v) kids (notes_of st))
        (\<lambda>(cs, n). snapshot_loop reject pending
          (with_notes n (st\<lparr>snap_heap := fold (\<lambda>(key, c). place c a key) (zip (map fst kids) cs) (snap_heap st)\<rparr>)))"
  using assms
proof (induction kids arbitrary: st)
  case (Cons kid kids)
  obtain key v where kid: "kid = (key, v)" by force
  show ?case using Cons.prems Cons.IH
    by (simp add: kid visit_copies_def bind_sum_assoc case_prod_unfold)
qed simp

lemma snapshot_container:
  assumes "\<forall>(key, v) \<in> set kids. visit_copies reject d (insert ident (active_containers st)) v" and "ident \<notin> active_containers st"
  shows "snapshot_loop reject (map (\<lambda>(key, v). Visit v (length (snap_heap st)) key d) kids @ Leave ident # pending)
        (open_container ident cell parent key st) =
      bind_sum (thread_list (\<lambda>(key, v). copy_value reject d (insert ident (active_containers st)) v) kids (notes_of st))
        (\<lambda>(cs, n). snapshot_loop reject pending
          (with_notes n (st\<lparr>snap_heap := fold (\<lambda>(key, c). place c (length (snap_heap st)) key) (zip (map fst kids) cs)
             (write_slot parent key (SlotRef (length (snap_heap st))) (snap_heap st @ [cell]))\<rparr>)))"
proof -
  have "(open_container ident cell parent key st)\<lparr>snap_heap := h, active_containers := active_containers st\<rparr> = st\<lparr>snap_heap := h\<rparr>" for h
    by (cases st) (simp add: open_container_def)
  moreover have "insert ident (active_containers st) - {ident} = active_containers st" using assms(2) by blast
  ultimately show ?thesis
    by (subst snapshot_children [OF assms(1)]) (auto simp: snapshot_loop.simps case_prod_unfold intro!: bind_sum_cong)
qed

lemma place_items:
  "length cs = length items \<Longrightarrow> fold (\<lambda>(key, c). place c a key) (zip (map (\<lambda>(k, x). Key (key_text k)) items) cs) =
     fold (\<lambda>(k, c). place c a (Key k)) (zip (map (key_text \<circ> fst) items) cs)"
  by (induction cs items rule: list_induct2) (auto simp: fun_eq_iff)

lemma place_elements:
  "length cs = length xs \<Longrightarrow> fold (\<lambda>(key, c). place c a key) (zip (map (\<lambda>(i, x). Index i) (enumerate n xs)) cs) =
     fold (\<lambda>(i, c). place c a (Index i)) (enumerate n cs)"
  by (induction cs xs arbitrary: n rule: list_induct2) (auto simp: fun_eq_iff)

lemma snapshot_array:
  assumes "\<forall>v \<in> set xs. visit_copies reject d (insert ident (active_containers st)) v" and "ident \<notin> active_containers st"
  shows "snapshot_loop reject (map (\<lambda>(i, v). Visit v (length (snap_heap st)) (Index i) d) (enumerate 0 xs) @ Leave ident # pending)
        (open_container ident (ListCell (replicate (length xs) SlotNone)) parent key st) =
      bind_sum (thread_list (copy_value reject d (insert ident (active_containers st))) xs (notes_of st))
        (\<lambda>(cs, n). snapshot_loop reject pending (with_notes n (st\<lparr>snap_heap := place (CopyList cs) parent key (snap_heap st)\<rparr>)))"
proof -
  let ?kids = "map (\<lambda>(i, x). (Index i, x)) (enumerate 0 xs)"
  have "\<forall>(key, v) \<in> set ?kids. visit_copies reject d (insert ident (active_containers st)) v"
    using assms(1) by (auto simp: in_set_enumerate_eq)
  from snapshot_container [OF this assms(2), of pending "ListCell (replicate (length xs) SlotNone)" parent key] show ?thesis
    using thread_list_enumerate [of "copy_value reject d (insert ident (active_containers st))" 0 xs "notes_of st"]
    by (auto simp: thread_list_map comp_def case_prod_unfold place_elements [unfolded case_prod_unfold]
      dest: length_thread_list intro!: bind_sum_cong)
qed

lemma snapshot_object:
  assumes "\<forall>(k, v) \<in> set items. visit_copies reject d (insert ident (active_containers st)) v" and "ident \<notin> active_containers st"
  shows "snapshot_loop reject (map (\<lambda>(k, v). Visit v (length (snap_heap st)) (Key (key_text k)) d) items @ Leave ident # pending)
        (open_container ident (DictCell []) parent key st) =
      bind_sum (thread_list (\<lambda>(k, v). copy_value reject d (insert ident (active_containers st)) v) items (notes_of st))
        (\<lambda>(cs, n). snapshot_loop reject pending
          (with_notes n (st\<lparr>snap_heap := place (CopyDict (zip (map (key_text \<circ> fst) items) cs)) parent key (snap_heap st)\<rparr>)))"
proof -
  let ?kids = "map (\<lambda>(k, x). (Key (key_text k), x)) items"
  have "\<forall>(key, v) \<in> set ?kids. visit_copies reject d (insert ident (active_containers st)) v"
    using assms(1) by auto
  from snapshot_container [OF this assms(2), of pending "DictCell []" parent key] show ?thesis
    by (auto simp: thread_list_map comp_def case_prod_unfold place_items [unfolded case_prod_unfold comp_def]
      dest: length_thread_list intro!: bind_sum_cong)
qed

lemma visit_copiesI:
  "(\<And>parent key pending st. active_containers st = A \<Longrightarrow>
     snapshot_loop reject (Visit v parent key depth # pending) st =
     bind_sum (copy_value reject depth A v (notes_of st))
       (\<lambda>(c, n). snapshot_loop reject pending (with_notes n (st\<lparr>snap_heap := place c parent key (snap_heap st)\<rparr>)))) \<Longrightarrow>
   visit_copies reject depth A v"
  by (simp add: visit_copies_def)

lemma occupied_notes: "st\<lparr>occupied_strings := occupied\<rparr> = with_notes (occupied, snd (notes_of st)) st"
  by (cases st) (simp add: with_notes_def notes_of_def)

lemma snapshot_visit: "visit_copies reject depth A v"
proof (induction v arbitrary: depth A)
  case (ArgLeaf l)
  show ?case by (rule visit_copiesI) (auto simp: snapshot_loop.simps snapshot_leaf_notes bind_sum_assoc)
next
  case (ArgList ident xs)
  show ?case
  proof (rule visit_copiesI)
    fix parent key pending and st :: snapshot_state assume "active_containers st = A"
    then show "snapshot_loop reject (Visit (ArgList ident xs) parent key depth # pending) st =
        bind_sum (copy_value reject depth A (ArgList ident xs) (notes_of st))
          (\<lambda>(c, n). snapshot_loop reject pending (with_notes n (st\<lparr>snap_heap := place c parent key (snap_heap st)\<rparr>)))"
      using snapshot_array [of xs reject "depth + 1" ident st pending parent key] ArgList
      by (simp add: snapshot_loop.simps bind_sum_assoc case_prod_unfold)
  qed
next
  case (ArgTuple ident xs)
  show ?case
  proof (rule visit_copiesI)
    fix parent key pending and st :: snapshot_state assume "active_containers st = A"
    then show "snapshot_loop reject (Visit (ArgTuple ident xs) parent key depth # pending) st =
        bind_sum (copy_value reject depth A (ArgTuple ident xs) (notes_of st))
          (\<lambda>(c, n). snapshot_loop reject pending (with_notes n (st\<lparr>snap_heap := place c parent key (snap_heap st)\<rparr>)))"
      using snapshot_array [of xs reject "depth + 1" ident st pending parent key] ArgTuple
      by (cases reject) (simp_all add: snapshot_loop.simps bind_sum_assoc case_prod_unfold)
  qed
next
  case (ArgMapping ident items)
  show ?case
  proof (rule visit_copiesI)
    fix parent key pending and st :: snapshot_state assume A: "active_containers st = A"
    have kids: "\<forall>(k, v)\<in>set items. visit_copies reject d B v" for d B using ArgMapping by fastforce
    have keys: "fst (notes_of st) = occupied_strings st" by (simp add: notes_of_def)
    have "snapshot_loop reject (map (\<lambda>(k, v). Visit v (length (snap_heap st)) (Key (key_text k)) (depth + 1)) items @ Leave ident # pending)
        (open_container ident (DictCell []) parent key (st\<lparr>occupied_strings := occupied\<rparr>)) =
      bind_sum (thread_list (\<lambda>(k, v). copy_value reject (depth + 1) (insert ident A) v) items (occupied, snd (notes_of st)))
        (\<lambda>(cs, n). snapshot_loop reject pending
          (with_notes n (st\<lparr>snap_heap := place (CopyDict (zip (map (key_text \<circ> fst) items) cs)) parent key (snap_heap st)\<rparr>)))"
      if "ident \<notin> A" for occupied
      using snapshot_object [of items reject "depth + 1" ident "st\<lparr>occupied_strings := occupied\<rparr>" pending parent key] kids A that
      by (simp add: occupied_notes)
    then show "snapshot_loop reject (Visit (ArgMapping ident items) parent key depth # pending) st =
        bind_sum (copy_value reject depth A (ArgMapping ident items) (notes_of st))
          (\<lambda>(c, n). snapshot_loop reject pending (with_notes n (st\<lparr>snap_heap := place c parent key (snap_heap st)\<rparr>)))"
      using A by (simp add: snapshot_loop.simps bind_sum_assoc case_prod_unfold keys)
  qed
qed

text \<open>What the notes say about the copy.\<close>

fun copy_leaves :: "json_copy \<Rightarrow> json_leaf set" where
  "copy_leaves (CopyLeaf l) = {l}"
| "copy_leaves (CopyList xs) = (\<Union>x\<in>set xs. copy_leaves x)"
| "copy_leaves (CopyDict items) = (\<Union>(k, c)\<in>set items. copy_leaves c)"

fun copy_keys :: "json_copy \<Rightarrow> string set" where
  "copy_keys (CopyLeaf l) = {}"
| "copy_keys (CopyList xs) = (\<Union>x\<in>set xs. copy_keys x)"
| "copy_keys (CopyDict items) = fst ` set items \<union> (\<Union>(k, c)\<in>set items. copy_keys c)"

definition copy_strings :: "json_copy \<Rightarrow> string set" where
  "copy_strings c = {s. LStr s \<in> copy_leaves c} \<union> copy_keys c"

primrec leaf_ok :: "json_leaf \<Rightarrow> bool" where
  "leaf_ok LNone = True"
| "leaf_ok (LBool b) = True"
| "leaf_ok (LInt i) = (\<not> integer_out_of_range i)"
| "leaf_ok (LFloat w) = True"
| "leaf_ok (LDecimal d) = True"
| "leaf_ok (LStr s) = True"
| "leaf_ok LOther = True"

definition describes :: "json_copy list \<Rightarrow> value_notes \<Rightarrow> value_notes \<Rightarrow> bool" where
  "describes cs n n' \<longleftrightarrow>
     set (fst n') = set (fst n) \<union> (\<Union>c\<in>set cs. copy_strings c) \<and>
     (fst (snd n') \<longleftrightarrow> fst (snd n) \<or> (\<exists>c\<in>set cs. \<exists>d. LDecimal d \<in> copy_leaves c)) \<and>
     (snd (snd n') \<longleftrightarrow> snd (snd n) \<or> (\<exists>c\<in>set cs. \<exists>i. LInt i \<in> copy_leaves c \<and> large_integer i)) \<and>
     (\<forall>c\<in>set cs. copy_ok c \<and> (\<forall>l\<in>copy_leaves c. leaf_ok l))"

lemma describes_thread:
  assumes "\<And>x n c n'. x \<in> set xs \<Longrightarrow> f x n = Inr (c, n') \<Longrightarrow> describes [c] n n'"
    and "thread_list f xs n = Inr (cs, n')"
  shows "describes cs n n'"
  using assms
proof (induction xs arbitrary: n cs)
  case (Cons x xs)
  obtain c m cs' where step: "f x n = Inr (c, m)" "thread_list f xs m = Inr (cs', n')" "cs = c # cs'"
    using Cons.prems(2) by (auto simp: bind_sum_Inr_iff)
  have "describes [c] n m" using Cons.prems(1) [OF _ step(1)] by simp
  moreover have "describes cs' m n'" using Cons.IH [OF _ step(2)] Cons.prems(1) by (meson list.set_intros(2))
  ultimately show ?case unfolding step(3) describes_def by auto
qed (simp add: describes_def)

lemma snapshot_keys_ok:
  "snapshot_keys items seen occupied = Inr occupied' \<Longrightarrow>
   distinct (map (key_text \<circ> fst) items) \<and> set (map (key_text \<circ> fst) items) \<inter> set seen = {} \<and>
   set occupied' = set occupied \<union> set (map (key_text \<circ> fst) items)"
  by (induction items seen occupied rule: snapshot_keys.induct) (auto split: if_splits)

lemma copy_value_describes: "copy_value reject depth A v n = Inr (c, n') \<Longrightarrow> describes [c] n n'"
proof (induction reject depth A v n arbitrary: c n' rule: copy_value.induct)
  case (1 reject depth A l n)
  then show ?case
    by (cases n; cases l) (auto simp: describes_def copy_strings_def note_leaf_def bind_sum_Inr_iff split: if_splits)
next
  case (2 reject depth A ident xs n)
  then obtain cs where cs: "thread_list (copy_value reject (depth + 1) (insert ident A)) xs n = Inr (cs, n')" "c = CopyList cs"
    by (auto simp: bind_sum_Inr_iff split: if_splits)
  have "describes cs n n'" using 2 by (intro describes_thread [OF _ cs(1)]) (auto split: if_splits)
  then show ?case by (auto simp: describes_def copy_strings_def cs(2))
next
  case (3 reject depth A ident xs n)
  then obtain cs where cs: "thread_list (copy_value reject (depth + 1) (insert ident A)) xs n = Inr (cs, n')" "c = CopyList cs"
    by (auto simp: bind_sum_Inr_iff split: if_splits)
  have "describes cs n n'" using 3 by (intro describes_thread [OF _ cs(1)]) (auto split: if_splits)
  then show ?case by (auto simp: describes_def copy_strings_def cs(2))
next
  case (4 reject depth A ident items n)
  then obtain occupied cs where keys: "snapshot_keys items [] (fst n) = Inr occupied"
    and cs: "thread_list (\<lambda>(k, child). copy_value reject (depth + 1) (insert ident A) child) items (occupied, snd n) = Inr (cs, n')"
      "c = CopyDict (zip (map (key_text \<circ> fst) items) cs)"
    by (auto simp: bind_sum_Inr_iff split: if_splits)
  have "describes cs (occupied, snd n) n'"
    using 4 keys by (intro describes_thread [OF _ cs(1)]) (auto split: if_splits)
  moreover have len: "length cs = length items" using cs(1) by (rule length_thread_list)
  moreover have "fst ` set (zip (map (key_text \<circ> fst) items) cs) = set (map (key_text \<circ> fst) items)"
      "snd ` set (zip (map (key_text \<circ> fst) items) cs) = set cs"
    using len by (simp_all flip: set_map)
  moreover have "copy_leaves c = (\<Union>x\<in>snd ` set (zip (map (key_text \<circ> fst) items) cs). copy_leaves x)"
      "copy_keys c = fst ` set (zip (map (key_text \<circ> fst) items) cs) \<union> (\<Union>x\<in>snd ` set (zip (map (key_text \<circ> fst) items) cs). copy_keys x)"
      "copy_ok c \<longleftrightarrow> distinct (map (key_text \<circ> fst) items) \<and> (\<forall>x\<in>snd ` set (zip (map (key_text \<circ> fst) items) cs). copy_ok x)"
    using len by (auto simp: cs(2))
  ultimately show ?case using snapshot_keys_ok [OF keys] by (auto simp: describes_def copy_strings_def)
qed

lemma take_snapshot_copy: "take_snapshot reject v = copy_value reject 0 {} v ([], False, False)"
proof -
  have "snapshot_loop reject [Visit v 0 (Index 0) 0] initial_snapshot_state =
      bind_sum (copy_value reject 0 {} v ([], False, False))
        (\<lambda>(c, n). Inr (with_notes n (initial_snapshot_state\<lparr>snap_heap := place c 0 (Index 0) [ListCell [SlotNone]]\<rparr>)))"
    using snapshot_visit [of reject 0 "{}" v]
    by (simp add: visit_copies_def initial_snapshot_state_def notes_of_def snapshot_loop.simps)
  moreover have "read_root (place c 0 (Index 0) [ListCell [SlotNone]]) = c" if "copy_value reject 0 {} v ([], False, False) = Inr (c, n)" for c n
    using copy_value_describes [OF that] by (intro read_root_place) (simp add: describes_def)
  moreover have "Inr x = bind_sum (Inr x) Inr" for x :: "json_copy \<times> value_notes" by simp
  ultimately show ?thesis
    by (cases "copy_value reject 0 {} v ([], False, False)") (auto simp: take_snapshot_def with_notes_def initial_snapshot_state_def)
qed

end
