(* ===== verification/Canonical_Encode.thy ===== *)
theory Canonical_Encode
  imports Canonical_Snapshot
begin

text \<open>
  The encoder: its stack machine replaces every decimal and every large integer by a fresh
  placeholder string, and the scan of the encoded text puts the numbers back exactly there.
\<close>

section \<open>The encoding machine\<close>

type_synonym token_state = "string list \<times> nat \<times> (string, string) dict"

definition new_token :: "string \<Rightarrow> string \<Rightarrow> token_state \<Rightarrow> json_copy \<times> token_state" where
  "new_token kind number t = (case t of (occupied, index, tokens) \<Rightarrow>
     let i = free_token kind occupied index; token = token_text kind i in
     (CopyLeaf (LStr token), List.insert token occupied, i + 1, dict_set (json_string token) number tokens))"

definition tokenise_leaf :: "json_leaf \<Rightarrow> token_state \<Rightarrow> canonical_error + json_copy \<times> token_state" where
  "tokenise_leaf l t =
     (case l of
        LDecimal d \<Rightarrow> bind_sum (decimal_text d) (\<lambda>number. Inr (new_token ''decimal'' number t))
      | LInt i \<Rightarrow>
          if large_integer i then bind_sum (format_integer i) (\<lambda>number. Inr (new_token ''integer'' number t))
          else Inr (CopyLeaf l, t)
      | _ \<Rightarrow> Inr (CopyLeaf l, t))"

lemma copy_size_element: "c \<in> set xs \<Longrightarrow> size c < Suc (size_list size xs)" for xs :: "json_copy list"
  by (induction xs) (auto simp: less_Suc_eq)

function tokenise :: "json_copy \<Rightarrow> token_state \<Rightarrow> canonical_error + json_copy \<times> token_state" where
  "tokenise (CopyLeaf l) t = tokenise_leaf l t"
| "tokenise (CopyList xs) t = bind_sum (thread_list tokenise xs t) (\<lambda>(cs, t'). Inr (CopyList cs, t'))"
| "tokenise (CopyDict items) t =
     bind_sum (thread_list (\<lambda>(k, c). tokenise c) items t) (\<lambda>(cs, t'). Inr (CopyDict (zip (map fst items) cs), t'))"
  by pat_completeness auto

termination
  by (relation "measure (\<lambda>(c, t). size c)") (auto dest: copy_size_item copy_size_element)

definition tokens_of :: "encode_state \<Rightarrow> token_state" where
  "tokens_of st = (token_occupied st, token_index st, numeric_tokens st)"

definition with_tokens :: "token_state \<Rightarrow> encode_state \<Rightarrow> encode_state" where
  "with_tokens t st = (case t of (occupied, index, tokens) \<Rightarrow>
     st\<lparr>token_occupied := occupied, token_index := index, numeric_tokens := tokens\<rparr>)"

lemma tokens_simps [simp]:
  "tokens_of (with_tokens t st) = t"
  "copy_heap (with_tokens t st) = copy_heap st"
  "tokens_of (st\<lparr>copy_heap := h\<rparr>) = tokens_of st"
  "with_tokens t (with_tokens u st) = with_tokens t st"
  "(with_tokens t st)\<lparr>copy_heap := h\<rparr> = with_tokens t (st\<lparr>copy_heap := h\<rparr>)"
  "with_tokens (tokens_of st) st = st"
  "with_tokens (tokens_of st) (st\<lparr>copy_heap := h\<rparr>) = st\<lparr>copy_heap := h\<rparr>"
  by (cases st; cases t; cases u; simp add: tokens_of_def with_tokens_def)+

lemma place_new_token:
  "place_token kind number parent key st =
     (case new_token kind number (tokens_of st) of (c, t) \<Rightarrow> with_tokens t (st\<lparr>copy_heap := place c parent key (copy_heap st)\<rparr>))"
  by (cases st) (simp add: place_token_def new_token_def tokens_of_def with_tokens_def Let_def)

definition frame_copies :: "json_copy \<Rightarrow> bool" where
  "frame_copies c \<longleftrightarrow>
     (\<forall>parent key pending st.
        encode_loop ((c, parent, key) # pending) st =
        bind_sum (tokenise c (tokens_of st))
          (\<lambda>(c', t). encode_loop pending (with_tokens t (st\<lparr>copy_heap := place c' parent key (copy_heap st)\<rparr>))))"

lemma encode_children:
  assumes "\<forall>(key, c) \<in> set kids. frame_copies c"
  shows "encode_loop (map (\<lambda>(key, c). (c, a, key)) kids @ pending) st =
      bind_sum (thread_list (\<lambda>(key, c). tokenise c) kids (tokens_of st))
        (\<lambda>(cs, t). encode_loop pending
          (with_tokens t (st\<lparr>copy_heap := fold (\<lambda>(key, c). place c a key) (zip (map fst kids) cs) (copy_heap st)\<rparr>)))"
  using assms
proof (induction kids arbitrary: st)
  case (Cons kid kids)
  obtain key c where kid: "kid = (key, c)" by force
  show ?case using Cons.prems Cons.IH
    by (simp add: kid frame_copies_def bind_sum_assoc case_prod_unfold)
qed simp

lemma place_dict_items:
  "length cs = length items \<Longrightarrow> fold (\<lambda>(key, c). place c a key) (zip (map (\<lambda>(k, x). Key k) items) cs) =
     fold (\<lambda>(k, c). place c a (Key k)) (zip (map fst items) cs)"
  by (induction cs items rule: list_induct2) (auto simp: fun_eq_iff)

lemma place_list_elements:
  "length cs = length xs \<Longrightarrow> fold (\<lambda>(key, c). place c a key) (zip (map (\<lambda>(i, x). Index i) (enumerate n xs)) cs) =
     fold (\<lambda>(i, c). place c a (Index i)) (enumerate n cs)"
  by (induction cs xs arbitrary: n rule: list_induct2) (auto simp: fun_eq_iff)

lemma encode_visit: "frame_copies c"
proof (induction c)
  case (CopyLeaf l)
  show ?case unfolding frame_copies_def
    by (cases l) (auto simp: encode_loop.simps tokenise_leaf_def place_new_token bind_sum_assoc case_prod_unfold)
next
  case (CopyList xs)
  have kids: "\<forall>(key, c) \<in> set (map (\<lambda>(i, c). (Index i, c)) (enumerate 0 xs)). frame_copies c"
    using CopyList by (auto simp: in_set_enumerate_eq)
  show ?case unfolding frame_copies_def
    using encode_children [OF kids] thread_list_enumerate [of tokenise 0 xs]
    by (auto simp: encode_loop.simps Let_def thread_list_map comp_def case_prod_unfold bind_sum_assoc
      place_list_elements [unfolded case_prod_unfold] dest: length_thread_list intro!: bind_sum_cong)
next
  case (CopyDict items)
  have kids: "\<forall>(key, c) \<in> set (map (\<lambda>(k, c). (Key k, c)) items). frame_copies c"
    using CopyDict by fastforce
  show ?case unfolding frame_copies_def
    using encode_children [OF kids]
    by (auto simp: encode_loop.simps Let_def thread_list_map comp_def case_prod_unfold bind_sum_assoc
      place_dict_items [unfolded case_prod_unfold] dest: length_thread_list intro!: bind_sum_cong)
qed

section \<open>The scan\<close>

text \<open>The scan of the text that is left, without positions.\<close>

fun literal_length :: "string \<Rightarrow> nat" where
  "literal_length [] = 0"
| "literal_length (c # cs) =
     (if c = CHR 0x5C then 2 + literal_length (drop 1 cs)
      else if c = CHR 0x22 then 1
      else 1 + literal_length cs)"

function scan :: "(string, string) dict \<Rightarrow> string \<Rightarrow> string" where
  "scan tokens [] = []"
| "scan tokens (c # cs) =
     (if c \<noteq> CHR 0x22 then c # scan tokens cs
      else
        let literal = CHR 0x22 # take (literal_length cs) cs in
        (case map_of tokens literal of None \<Rightarrow> literal | Some replacement \<Rightarrow> replacement) @
        scan tokens (drop (literal_length cs) cs))"
  by pat_completeness auto

termination
  by (relation "measure (\<lambda>(tokens, s). length s)") auto

lemma literal_end_length: "literal_end s i = i + literal_length (drop i s)"
proof (induction s i rule: literal_end.induct)
  case (1 s i)
  show ?case
  proof (cases "i < length s")
    case True
    then have "drop i s = s ! i # drop (Suc i) s" by (simp add: Cons_nth_drop_Suc)
    then show ?thesis using 1 True by (subst literal_end.simps) auto
  qed (simp add: literal_end.simps)
qed

lemma slice_join: "i \<le> j \<Longrightarrow> j \<le> k \<Longrightarrow> slice s i k = slice s i j @ slice s j k"
  using take_add [of "j - i" "k - j" "drop i s"] by (simp add: slice_def drop_take)

lemma replace_loop_scan:
  "copy_start \<le> cursor \<Longrightarrow>
   replace_loop tokens s cursor copy_start parts = concat parts @ slice s copy_start cursor @ scan tokens (drop cursor s)"
proof (induction tokens s cursor copy_start parts rule: replace_loop.induct)
  case (1 tokens s cursor copy_start parts)
  show ?case
  proof (cases "cursor < length s")
    case True
    then have cut: "drop cursor s = s ! cursor # drop (Suc cursor) s" by (simp add: Cons_nth_drop_Suc)
    have char: "slice s cursor (Suc cursor) = [s ! cursor]" using True by (simp add: slice_def take_Suc_conv_app_nth)
    let ?n = "literal_length (drop (Suc cursor) s)"
    have literal: "slice s cursor (Suc cursor + ?n) = s ! cursor # take ?n (drop (Suc cursor) s)"
      using cut by (simp add: slice_def drop_take)
    show ?thesis
    proof (cases "s ! cursor = CHR 0x22")
      case False
      then show ?thesis using 1(1) "1.prems" True cut slice_join [of copy_start cursor "Suc cursor" s] char
        by (subst replace_loop.simps) simp
    next
      case quote: True
      show ?thesis
      proof (cases "map_of tokens (slice s cursor (literal_end s (cursor + 1)))")
        case None
        then show ?thesis using 1(2) "1.prems" True quote cut literal slice_join [of copy_start cursor "Suc cursor + ?n" s]
          by (subst replace_loop.simps) (simp add: literal_end_length Let_def add.commute)
      next
        case (Some r)
        then show ?thesis using 1(3) "1.prems" True quote cut literal
          by (subst replace_loop.simps) (simp add: literal_end_length Let_def add.commute slice_def)
      qed
    qed
  qed (use "1.prems" in \<open>simp add: replace_loop.simps slice_def\<close>)
qed

lemma replace_loop_text: "replace_loop tokens s 0 0 [] = scan tokens s"
  by (simp add: replace_loop_scan slice_def)

text \<open>A piece of text that the scan turns into another, whatever follows.\<close>

definition scans :: "(string, string) dict \<Rightarrow> string \<Rightarrow> string \<Rightarrow> bool" where
  "scans tokens s t \<longleftrightarrow> (\<forall>rest. scan tokens (s @ rest) = t @ scan tokens rest)"

lemma scans_append: "scans tokens s t \<Longrightarrow> scans tokens s' t' \<Longrightarrow> scans tokens (s @ s') (t @ t')"
  by (simp add: scans_def)

lemma scans_Nil [simp]: "scans tokens [] []"
  by (simp add: scans_def)

lemma scans_plain: "CHR 0x22 \<notin> set s \<Longrightarrow> scans tokens s s"
  unfolding scans_def by (induction s) auto

lemma scans_Cons: "c \<noteq> CHR 0x22 \<Longrightarrow> scans tokens s t \<Longrightarrow> scans tokens (c # s) (c # t)"
  by (simp add: scans_def)

lemma scans_join:
  assumes "list_all2 (scans tokens) ss ts" "CHR 0x22 \<notin> set sep"
  shows "scans tokens (join_text sep ss) (join_text sep ts)"
  using assms
proof (induction sep ss arbitrary: ts rule: join_text.induct)
  case (2 sep x)
  then show ?case by (auto simp: list_all2_Cons1)
next
  case (3 sep x y xs)
  then obtain t u us where ts: "ts = t # u # us" "scans tokens x t" "list_all2 (scans tokens) (y # xs) (u # us)"
    by (auto simp: list_all2_Cons1)
  have "scans tokens (x @ sep @ join_text sep (y # xs)) (t @ sep @ join_text sep (u # us))"
    using 3(1) [OF ts(3)] 3(3) by (intro scans_append ts(2)) (auto intro: scans_plain)
  then show ?case by (simp add: ts(1))
qed simp

lemma hex_digit_plain: "n < 16 \<Longrightarrow> hex_digit n \<noteq> CHR 0x5C \<and> hex_digit n \<noteq> CHR 0x22"
  by (auto simp: hex_digit_def dest!: arg_cong [where f = code_point])

lemma literal_length_escape: "literal_length (json_escape c @ s) = length (json_escape c) + literal_length s"
proof -
  have "code_point c div 16 < 16" by (simp add: code_point_def less_mult_imp_div_less)
  then show ?thesis using hex_digit_plain [of "code_point c div 16"] hex_digit_plain [of "code_point c mod 16"]
    by (auto simp: json_escape_def)
qed

lemma literal_length_body:
  "literal_length (concat (map json_escape s) @ CHR 0x22 # rest) = length (concat (map json_escape s)) + 1"
  by (induction s) (auto simp: literal_length_escape)

lemma scans_string:
  "scans tokens (json_string s) (case map_of tokens (json_string s) of None \<Rightarrow> json_string s | Some r \<Rightarrow> r)"
proof -
  have "scan tokens (json_string s @ rest) = (case map_of tokens (json_string s) of None \<Rightarrow> json_string s | Some r \<Rightarrow> r) @ scan tokens rest" for rest
    using literal_length_body [of s rest] by (simp add: json_string_def Let_def split: option.splits)
  then show ?thesis by (simp add: scans_def)
qed

section \<open>The direct printer\<close>

text \<open>The text with the decimals printed in place. Integers need no special treatment.\<close>

fun direct_leaf :: "(64 word \<Rightarrow> string) \<Rightarrow> json_leaf \<Rightarrow> canonical_error + string" where
  "direct_leaf float_repr (LDecimal d) = decimal_text d"
| "direct_leaf float_repr l = leaf_text float_repr l"

definition direct_text :: "(64 word \<Rightarrow> string) \<Rightarrow> json_copy \<Rightarrow> canonical_error + string" where
  "direct_text float_repr = value_text (direct_leaf float_repr)"

text \<open>A copy with placeholders stands for the original under the table of numbers.\<close>

definition leaf_for :: "(string, string) dict \<Rightarrow> json_leaf \<Rightarrow> json_leaf \<Rightarrow> bool" where
  "leaf_for tokens l' l \<longleftrightarrow>
     (\<exists>s number. l' = LStr s \<and> map_of tokens (json_string s) = Some number \<and> (\<forall>float_repr. direct_leaf float_repr l = Inr number)) \<or>
     l' = l \<and> (\<forall>d. l \<noteq> LDecimal d) \<and> (\<forall>s. l = LStr s \<longrightarrow> map_of tokens (json_string s) = None)"

inductive stands_for :: "(string, string) dict \<Rightarrow> json_copy \<Rightarrow> json_copy \<Rightarrow> bool" for tokens where
  "leaf_for tokens l' l \<Longrightarrow> stands_for tokens (CopyLeaf l') (CopyLeaf l)"
| "list_all2 (stands_for tokens) xs' xs \<Longrightarrow> stands_for tokens (CopyList xs') (CopyList xs)"
| "list_all2 (\<lambda>p' p. fst p' = fst p \<and> map_of tokens (json_string (fst p)) = None \<and> stands_for tokens (snd p') (snd p)) items' items \<Longrightarrow>
   stands_for tokens (CopyDict items') (CopyDict items)"

text \<open>The two results of printing: the same error, or texts of which one is scanned to the other.\<close>

fun scans_result :: "(string, string) dict \<Rightarrow> canonical_error + string \<Rightarrow> canonical_error + string \<Rightarrow> bool" where
  "scans_result tokens (Inr s) (Inr t) = scans tokens s t"
| "scans_result tokens (Inl e) (Inl e') = (e = e')"
| "scans_result tokens _ _ = False"

lemma scans_results:
  "list_all2 (\<lambda>x' x. scans_result tokens (f x') (g x)) xs' xs \<Longrightarrow>
   (\<exists>e. map_sum_list f xs' = Inl e \<and> map_sum_list g xs = Inl e) \<or>
   (\<exists>ss ts. map_sum_list f xs' = Inr ss \<and> map_sum_list g xs = Inr ts \<and> list_all2 (scans tokens) ss ts)"
proof (induction xs' xs rule: list_all2_induct)
  case (Cons x' xs' x xs)
  then show ?case by (cases "f x'"; cases "g x") auto
qed simp

lemma insort_related:
  "R x y \<Longrightarrow> list_all2 R xs ys \<Longrightarrow> (\<And>x y. R x y \<Longrightarrow> f x = g y) \<Longrightarrow> list_all2 R (insort_key f x xs) (insort_key g y ys)"
  for f :: "'a \<Rightarrow> 'c::linorder"
  by (induction xs arbitrary: ys) (auto simp: list_all2_Cons1)

lemma sort_related: "list_all2 R xs ys \<Longrightarrow> (\<And>x y. R x y \<Longrightarrow> f x = g y) \<Longrightarrow> list_all2 R (sort_key f xs) (sort_key g ys)"
  for f :: "'a \<Rightarrow> 'c::linorder"
  by (induction xs ys rule: list_all2_induct) (auto simp: insort_related)

text \<open>Floats are printed without quotation marks.\<close>

definition repr_plain :: "(64 word \<Rightarrow> string) \<Rightarrow> bool" where
  "repr_plain float_repr \<longleftrightarrow> (\<forall>w. float_finite w \<longrightarrow> CHR 0x22 \<notin> set (float_repr w))"

lemma digits_plain: "c \<in> set (nat_digits n) \<Longrightarrow> c \<noteq> CHR 0x22"
  using nat_digits_decimal [of n] by (auto simp: is_ascii_decimal_def list_all_iff is_digit_def)

lemma int_text_plain: "CHR 0x22 \<notin> set (int_text i)"
  by (auto simp: int_text_def dest: digits_plain)

lemma scans_leaf:
  assumes "repr_plain float_repr" "leaf_for tokens l' l"
  shows "scans_result tokens (leaf_text float_repr l') (direct_leaf float_repr l)"
  using assms(2) unfolding leaf_for_def
proof (elim disjE exE conjE)
  fix s number
  assume "l' = LStr s" "map_of tokens (json_string s) = Some number" "\<forall>float_repr. direct_leaf float_repr l = Inr number"
  then show ?thesis using scans_string [of tokens s] by simp
next
  assume l: "l' = l" "\<forall>d. l \<noteq> LDecimal d" "\<forall>s. l = LStr s \<longrightarrow> map_of tokens (json_string s) = None"
  show ?thesis
  proof (cases l)
    case (LStr s)
    then show ?thesis using l scans_string [of tokens s] by simp
  qed (use l assms(1) int_text_plain in \<open>auto simp: repr_plain_def intro!: scans_plain\<close>)
qed

lemma scans_value:
  assumes "repr_plain float_repr" "stands_for tokens c' c"
  shows "scans_result tokens (json_dumps float_repr c') (direct_text float_repr c)"
  using assms(2)
proof induction
  case (1 l' l)
  then show ?case using scans_leaf [OF assms(1)] by (simp add: json_dumps_def direct_text_def)
next
  case (2 xs' xs)
  then have "list_all2 (\<lambda>x' x. scans_result tokens (json_dumps float_repr x') (direct_text float_repr x)) xs' xs"
    by (auto elim: list_all2_mono)
  from scans_results [OF this] show ?case
    by (auto simp: json_dumps_def direct_text_def intro!: scans_Cons scans_append scans_plain scans_join)
next
  case (3 items' items)
  let ?R = "\<lambda>p' p. fst p' = fst p \<and> map_of tokens (json_string (fst p)) = None \<and>
      scans_result tokens (json_dumps float_repr (snd p')) (direct_text float_repr (snd p))"
  have "list_all2 ?R items' items" using 3 by (auto elim: list_all2_mono)
  then have "list_all2 ?R (sort_key fst items') (sort_key fst items)" by (rule sort_related) simp
  then have "list_all2 (\<lambda>p' p. scans_result tokens
      ((\<lambda>(k, v). bind_sum (value_text (leaf_text float_repr) v) (\<lambda>t. Inr (json_string k @ '':'' @ t))) p')
      ((\<lambda>(k, v). bind_sum (value_text (direct_leaf float_repr) v) (\<lambda>t. Inr (json_string k @ '':'' @ t))) p))
    (sort_key fst items') (sort_key fst items)"
  proof (rule list_all2_mono)
    fix p' p assume "?R p' p"
    moreover have "scans tokens (json_string (fst p)) (json_string (fst p))" if "map_of tokens (json_string (fst p)) = None"
      using scans_string [of tokens "fst p"] that by simp
    ultimately show "scans_result tokens
      ((\<lambda>(k, v). bind_sum (value_text (leaf_text float_repr) v) (\<lambda>t. Inr (json_string k @ '':'' @ t))) p')
      ((\<lambda>(k, v). bind_sum (value_text (direct_leaf float_repr) v) (\<lambda>t. Inr (json_string k @ '':'' @ t))) p)"
      unfolding json_dumps_def direct_text_def case_prod_unfold
      by (cases "value_text (leaf_text float_repr) (snd p')"; cases "value_text (direct_leaf float_repr) (snd p)")
        (auto intro!: scans_append scans_Cons)
  qed
  from scans_results [OF this] show ?case
    by (auto simp: json_dumps_def direct_text_def intro!: scans_Cons scans_append scans_plain scans_join)
qed

section \<open>Fresh placeholders\<close>

lemma hex_digit_inject: "m < 16 \<Longrightarrow> n < 16 \<Longrightarrow> hex_digit m = hex_digit n \<longleftrightarrow> m = n"
  by (auto simp: hex_digit_def dest!: arg_cong [where f = code_point])

lemma code_point_inject: "code_point c = code_point d \<longleftrightarrow> c = d"
  by (simp add: code_point_def)

definition short_escapes :: "(char, char) dict" where
  "short_escapes =
     [(CHR 0x22, CHR 0x22), (CHR 0x5C, CHR 0x5C), (CHR ''n'', CHR 0x0A), (CHR ''r'', CHR 0x0D), (CHR ''t'', CHR 0x09),
      (CHR ''f'', CHR 0x0C), (CHR ''b'', CHR 0x08)]"

lemma json_escape_forms:
  obtains (plain) "json_escape c = [c]" "c \<noteq> CHR 0x5C"
  | (short) x where "json_escape c = [CHR 0x5C, x]" "map_of short_escapes x = Some c"
  | (unicode) "json_escape c =
      [CHR 0x5C, CHR ''u'', CHR ''0'', CHR ''0'', hex_digit (code_point c div 16), hex_digit (code_point c mod 16)]"
proof -
  have "json_escape c = [c] \<and> c \<noteq> CHR 0x5C \<or> (\<exists>x. json_escape c = [CHR 0x5C, x] \<and> map_of short_escapes x = Some c) \<or>
      json_escape c = [CHR 0x5C, CHR ''u'', CHR ''0'', CHR ''0'', hex_digit (code_point c div 16), hex_digit (code_point c mod 16)]"
    by (simp add: json_escape_def short_escapes_def)
  then show thesis using that by blast
qed

lemma unicode_not_short: "map_of short_escapes CHR ''u'' = None"
  by (simp add: short_escapes_def)

lemma json_escape_prefix: "json_escape c @ s = json_escape d @ t \<Longrightarrow> c = d \<and> s = t"
proof -
  assume eq: "json_escape c @ s = json_escape d @ t"
  have low: "code_point c div 16 < 16" "code_point d div 16 < 16" by (simp_all add: code_point_def less_mult_imp_div_less)
  have same: "c = d" if "code_point c div 16 = code_point d div 16" "code_point c mod 16 = code_point d mod 16"
    using that by (metis code_point_inject div_mult_mod_eq)
  show ?thesis
    by (cases c rule: json_escape_forms; cases d rule: json_escape_forms)
      (use eq low same unicode_not_short in \<open>auto simp: hex_digit_inject\<close>)
qed

lemma json_escape_Nil: "json_escape c \<noteq> []"
  by (simp add: json_escape_def)

lemma json_escape_quote: "json_escape c @ s \<noteq> CHR 0x22 # t"
  by (simp add: json_escape_def)

lemma json_string_prefix: "json_string s @ u = json_string t @ v \<Longrightarrow> s = t \<and> u = v"
proof -
  assume "json_string s @ u = json_string t @ v"
  then have "concat (map json_escape s) @ CHR 0x22 # u = concat (map json_escape t) @ CHR 0x22 # v"
    by (simp add: json_string_def)
  then show ?thesis
  proof (induction s arbitrary: t)
    case Nil
    then show ?case by (cases t) (auto simp: json_escape_quote [symmetric] dest: sym)
  next
    case (Cons c s)
    then obtain d t' where t: "t = d # t'" by (cases t) (auto simp: json_escape_quote)
    then show ?case using Cons.IH [of t'] Cons.prems by (auto dest!: json_escape_prefix)
  qed
qed

lemma json_string_inject [simp]: "json_string s = json_string t \<longleftrightarrow> s = t"
  using json_string_prefix [of s "[]" t "[]"] by auto

lemma free_token_fresh: "token_text kind (free_token kind occupied i) \<notin> set occupied"
proof (induction kind occupied i rule: free_token.induct)
  case (1 kind occupied i)
  then show ?case by (subst free_token.simps) auto
qed

definition tokens_inv :: "string set \<Rightarrow> token_state \<Rightarrow> bool" where
  "tokens_inv U t \<longleftrightarrow>
     U \<subseteq> set (fst t) \<and> (\<forall>literal number. map_of (snd (snd t)) literal = Some number \<longrightarrow> (\<exists>s\<in>set (fst t) - U. literal = json_string s))"

definition later_table :: "string set \<Rightarrow> token_state \<Rightarrow> (string, string) dict \<Rightarrow> bool" where
  "later_table U t T \<longleftrightarrow>
     (\<forall>literal number. map_of (snd (snd t)) literal = Some number \<longrightarrow> map_of T literal = Some number) \<and>
     (\<forall>s\<in>U. map_of T (json_string s) = None)"

definition settles :: "string set \<Rightarrow> token_state \<Rightarrow> json_copy \<Rightarrow> json_copy \<Rightarrow> token_state \<Rightarrow> bool" where
  "settles U t c' c t' \<longleftrightarrow> tokens_inv U t' \<and> (\<forall>T. later_table U t' T \<longrightarrow> later_table U t T \<and> stands_for T c' c)"

lemma later_table_self: "tokens_inv U t \<Longrightarrow> later_table U t (snd (snd t))"
proof -
  assume t: "tokens_inv U t"
  have "map_of (snd (snd t)) (json_string s) = None" if "s \<in> U" for s
  proof (cases "map_of (snd (snd t)) (json_string s)")
    case (Some n)
    then obtain s' where "s' \<in> set (fst t) - U" "json_string s = json_string s'" using t by (auto simp: tokens_inv_def)
    then show ?thesis using that by simp
  qed simp
  then show ?thesis by (simp add: later_table_def)
qed

lemma new_token_settles:
  assumes "tokens_inv U t" "new_token kind number t = (c', t')" "\<And>float_repr. direct_leaf float_repr l = Inr number"
  shows "settles U t c' (CopyLeaf l) t'"
proof -
  obtain occupied i T where t: "t = (occupied, i, T)" by (cases t) auto
  define s where "s = token_text kind (free_token kind occupied i)"
  have fresh: "s \<notin> set occupied" unfolding s_def by (rule free_token_fresh)
  have c': "c' = CopyLeaf (LStr s)" and t': "fst t' = List.insert s occupied" "snd (snd t') = dict_set (json_string s) number T"
    using assms(2) by (auto simp: t new_token_def s_def Let_def)
  have "map_of T (json_string s) = None"
  proof (cases "map_of T (json_string s)")
    case (Some n)
    then obtain s' where "s' \<in> set occupied" "json_string s = json_string s'" using assms(1) by (auto simp: tokens_inv_def t)
    then show ?thesis using fresh by simp
  qed simp
  moreover have "tokens_inv U t'" unfolding tokens_inv_def t'
    using assms(1) fresh by (auto simp: tokens_inv_def t split: if_splits)
  ultimately show ?thesis unfolding settles_def c' later_table_def t' t
    using assms(3) by (auto intro!: stands_for.intros(1) simp: leaf_for_def split: if_splits)
qed

lemma same_leaf_settles:
  assumes "tokens_inv U t" "\<And>d. l \<noteq> LDecimal d" "\<And>s. l = LStr s \<Longrightarrow> s \<in> U"
  shows "settles U t (CopyLeaf l) (CopyLeaf l) t"
  using assms by (auto simp: settles_def later_table_def leaf_for_def intro!: stands_for.intros(1))

lemma tokenise_leaf_settles:
  assumes "tokenise_leaf l t = Inr (c', t')" "tokens_inv U t" "\<And>s. l = LStr s \<Longrightarrow> s \<in> U" "leaf_ok l"
  shows "settles U t c' (CopyLeaf l) t'"
proof (cases l)
  case (LDecimal d)
  then show ?thesis using assms by (auto simp: tokenise_leaf_def bind_sum_Inr_iff intro: new_token_settles)
next
  case (LInt i)
  then show ?thesis using assms
    by (auto simp: tokenise_leaf_def bind_sum_Inr_iff format_integer_text intro: new_token_settles same_leaf_settles split: if_splits)
qed (use assms in \<open>auto simp: tokenise_leaf_def intro: same_leaf_settles\<close>)

lemma thread_settles:
  assumes "\<And>x t c t'. x \<in> set xs \<Longrightarrow> f x t = Inr (c, t') \<Longrightarrow> tokens_inv U t \<Longrightarrow> settles U t c (g x) t'"
    and "thread_list f xs t = Inr (cs, t')" "tokens_inv U t"
  shows "tokens_inv U t' \<and> (\<forall>T. later_table U t' T \<longrightarrow> later_table U t T \<and> list_all2 (\<lambda>c x. stands_for T c (g x)) cs xs)"
  using assms
proof (induction xs arbitrary: t cs)
  case (Cons x xs)
  obtain c u cs' where step: "f x t = Inr (c, u)" "thread_list f xs u = Inr (cs', t')" "cs = c # cs'"
    using Cons.prems(2) by (auto simp: bind_sum_Inr_iff)
  have one: "settles U t c (g x) u" using Cons.prems(1) [OF _ step(1) Cons.prems(3)] by simp
  then have "tokens_inv U u" by (simp add: settles_def)
  from Cons.IH [OF Cons.prems(1) step(2) this]
  have "tokens_inv U t' \<and> (\<forall>T. later_table U t' T \<longrightarrow> later_table U u T \<and> list_all2 (\<lambda>c x. stands_for T c (g x)) cs' xs)"
    by simp
  then show ?case using one by (simp add: settles_def step(3))
qed simp

lemma tokenise_settles:
  "tokenise c t = Inr (c', t') \<Longrightarrow> tokens_inv U t \<Longrightarrow> copy_strings c \<subseteq> U \<Longrightarrow> \<forall>l\<in>copy_leaves c. leaf_ok l \<Longrightarrow> settles U t c' c t'"
proof (induction c t arbitrary: c' t' rule: tokenise.induct)
  case (1 l t)
  then show ?case by (auto simp: copy_strings_def intro: tokenise_leaf_settles)
next
  case (2 xs t)
  then obtain cs where cs: "thread_list tokenise xs t = Inr (cs, t')" "c' = CopyList cs" by (auto simp: bind_sum_Inr_iff)
  have "tokens_inv U t' \<and> (\<forall>T. later_table U t' T \<longrightarrow> later_table U t T \<and> list_all2 (\<lambda>c x. stands_for T c x) cs xs)"
  proof (rule thread_settles [OF _ cs(1) 2(3)])
    fix x u c u' assume x: "x \<in> set xs" "tokenise x u = Inr (c, u')" "tokens_inv U u"
    show "settles U u c x u'"
      by (rule 2(1) [OF x]) (use 2(4,5) x(1) in \<open>auto simp: copy_strings_def\<close>)
  qed
  then show ?case by (auto simp: settles_def cs(2) intro: stands_for.intros(2))
next
  case (3 items t)
  then obtain cs where cs: "thread_list (\<lambda>(k, c). tokenise c) items t = Inr (cs, t')" "c' = CopyDict (zip (map fst items) cs)"
    by (auto simp: bind_sum_Inr_iff)
  have keys: "fst p \<in> U" if "p \<in> set items" for p using 3(4) that by (force simp: copy_strings_def)
  have "tokens_inv U t' \<and> (\<forall>T. later_table U t' T \<longrightarrow> later_table U t T \<and> list_all2 (\<lambda>c p. stands_for T c (snd p)) cs items)"
  proof (rule thread_settles [OF _ cs(1) 3(3)])
    fix p u c u' assume p: "p \<in> set items" "(case p of (k, c) \<Rightarrow> tokenise c) u = Inr (c, u')" "tokens_inv U u"
    obtain k x where kx: "p = (k, x)" by force
    show "settles U u c (snd p) u'" unfolding kx snd_conv
      by (rule 3(1) [OF p(1) kx [symmetric]]) (use 3(4,5) p kx in \<open>force simp: copy_strings_def\<close>)+
  qed
  moreover have "list_all2 (\<lambda>p' p. fst p' = fst p \<and> map_of T (json_string (fst p)) = None \<and> stands_for T (snd p') (snd p))
      (zip (map fst items) cs) items"
    if "list_all2 (\<lambda>c p. stands_for T c (snd p)) cs items" "later_table U t' T" for T
    using that keys by (auto simp: list_all2_conv_all_nth later_table_def)
  ultimately show ?case by (auto simp: settles_def cs(2) intro: stands_for.intros(3))
qed

text \<open>The tokeniser fails exactly on a decimal that is not finite, which the direct printer refuses as well.\<close>

lemma thread_list_Inl: "thread_list f xs s = Inl e \<Longrightarrow> \<exists>x\<in>set xs. \<exists>s'. f x s' = Inl e"
  by (induction xs arbitrary: s) (auto simp: bind_sum_Inl_iff)

lemma tokenise_fails: "tokenise c t = Inl e \<Longrightarrow> \<forall>l\<in>copy_leaves c. leaf_ok l \<Longrightarrow> LDecimal DecNonFinite \<in> copy_leaves c"
proof (induction c t rule: tokenise.induct)
  case (1 l t)
  have "d = DecNonFinite" if "decimal_text d = Inl e" for d
    using that by (cases d) (auto simp: Let_def split: if_splits)
  then show ?case using 1 by (cases l) (auto simp: tokenise_leaf_def bind_sum_Inl_iff format_integer_text split: if_splits)
next
  case (2 xs t)
  then obtain x u where "x \<in> set xs" "tokenise x u = Inl e" by (auto simp: bind_sum_Inl_iff dest: thread_list_Inl)
  moreover from this have "LDecimal DecNonFinite \<in> copy_leaves x" using 2(1) [of x u] 2(3) by simp
  ultimately show ?case by auto
next
  case (3 items t)
  then obtain p u where p: "p \<in> set items" "(case p of (k, c) \<Rightarrow> tokenise c) u = Inl e" by (auto simp: bind_sum_Inl_iff dest: thread_list_Inl)
  obtain k x where "p = (k, x)" by force
  then have "LDecimal DecNonFinite \<in> copy_leaves x" using 3(1) [OF p(1), of k x u] 3(3) p by fastforce
  then show ?case using p(1) \<open>p = (k, x)\<close> by auto
qed

lemma map_sum_list_fails: "x \<in> set xs \<Longrightarrow> f x = Inl e \<Longrightarrow> \<exists>e'. map_sum_list f xs = Inl e'"
proof (induction xs)
  case (Cons y ys)
  then show ?case by (cases "f y") auto
qed simp

lemma direct_text_fails: "LDecimal DecNonFinite \<in> copy_leaves c \<Longrightarrow> \<exists>e. direct_text float_repr c = Inl e"
  unfolding direct_text_def
proof (induction c rule: copy_leaves.induct)
  case (2 xs)
  then obtain x where "x \<in> set xs" "LDecimal DecNonFinite \<in> copy_leaves x" by auto
  moreover from this obtain e where "value_text (direct_leaf float_repr) x = Inl e" using 2(1) by blast
  ultimately show ?case using map_sum_list_fails [of x xs "value_text (direct_leaf float_repr)" e] by auto
next
  case (3 items)
  then obtain k x where kx: "(k, x) \<in> set items" "LDecimal DecNonFinite \<in> copy_leaves x" by auto
  then obtain e where e: "value_text (direct_leaf float_repr) x = Inl e" using 3(1) by blast
  let ?f = "\<lambda>(k, v). bind_sum (value_text (direct_leaf float_repr) v) (\<lambda>t. Inr (json_string k @ '':'' @ t))"
  have "\<exists>e'. map_sum_list ?f (sort_key fst items) = Inl e'"
    by (rule map_sum_list_fails [of "(k, x)" _ _ e]) (simp_all add: kx(1) e)
  then show ?case by auto
qed simp

section \<open>The encoder is the direct printer\<close>

lemma value_text_cong: "(\<And>l. l \<in> copy_leaves c \<Longrightarrow> f l = g l) \<Longrightarrow> value_text f c = value_text g c"
proof (induction c rule: copy_leaves.induct)
  case (2 xs)
  then have "map_sum_list (value_text f) xs = map_sum_list (value_text g) xs" by (intro map_sum_list_cong) auto
  then show ?case by simp
next
  case (3 items)
  have "value_text f v = value_text g v" if "(k, v) \<in> set items" for k v using 3 that by fastforce
  then have "map_sum_list (\<lambda>(k, v). bind_sum (value_text f v) (\<lambda>t. Inr (json_string k @ '':'' @ t))) (sort_key fst items) =
      map_sum_list (\<lambda>(k, v). bind_sum (value_text g v) (\<lambda>t. Inr (json_string k @ '':'' @ t))) (sort_key fst items)"
    by (intro map_sum_list_cong) auto
  then show ?case by simp
qed simp

lemma stands_for_ok: "stands_for T c' c \<Longrightarrow> copy_ok c \<Longrightarrow> copy_ok c'"
proof (induction rule: stands_for.induct)
  case (2 xs' xs)
  then show ?case by (auto simp: list_all2_conv_all_nth in_set_conv_nth) (metis nth_mem)
next
  case (3 items' items)
  then have "map fst items' = map fst items" by (auto simp: list_all2_conv_all_nth intro: nth_equalityI)
  moreover have "copy_ok (snd p)" if "p \<in> set items'" for p
    using 3 that by (auto simp: list_all2_conv_all_nth in_set_conv_nth case_prod_unfold) (metis nth_mem)
  ultimately show ?case using 3(2) by auto
qed simp

text \<open>The reference: the recursive copy, printed directly.\<close>

definition reference_text :: "(64 word \<Rightarrow> string) \<Rightarrow> bool \<Rightarrow> json_arg \<Rightarrow> canonical_error + string" where
  "reference_text float_repr reject v =
     bind_sum (copy_value reject 0 {} v ([], False, False)) (\<lambda>(c, n). direct_text float_repr c)"

lemma encode_root:
  assumes "describes [c] ([], False, False) (occupied, decimals, large)"
  shows "encode_loop [(c, 0, Index 0)] \<lparr>copy_heap = [ListCell [SlotNone]], token_occupied = occupied, token_index = 0, numeric_tokens = []\<rparr> =
    bind_sum (tokenise c (occupied, 0, []))
      (\<lambda>(c', o', i', T'). Inr \<lparr>copy_heap = place c' 0 (Index 0) [ListCell [SlotNone]], token_occupied = o', token_index = i', numeric_tokens = T'\<rparr>)"
  using encode_visit [of c]
  by (simp add: frame_copies_def tokens_of_def with_tokens_def encode_loop.simps case_prod_unfold)

lemma encoded_text:
  assumes "repr_plain float_repr" "describes [c] ([], False, False) (occupied, decimals, large)"
    "tokenise c (occupied, 0, []) = Inr (c', o', i', T)"
  shows "scans_result T (json_dumps float_repr (read_root (place c' 0 (Index 0) [ListCell [SlotNone]]))) (direct_text float_repr c)"
proof -
  have c: "copy_ok c" "\<forall>l\<in>copy_leaves c. leaf_ok l" "copy_strings c \<subseteq> set occupied"
    using assms(2) by (auto simp: describes_def)
  have "tokens_inv (set occupied) (occupied, 0, [])" by (simp add: tokens_inv_def)
  from tokenise_settles [OF assms(3) this c(3,2)] have "settles (set occupied) (occupied, 0, []) c' c (o', i', T)" .
  then have "stands_for T c' c" using later_table_self [of "set occupied" "(o', i', T)"] by (auto simp: settles_def)
  then show ?thesis using scans_value [OF assms(1)] read_root_place [OF stands_for_ok] c(1) by simp
qed

lemma canonical_dumps_direct:
  assumes "repr_plain float_repr"
  shows "canonical_dumps_with float_repr reject v = Inr t \<longleftrightarrow> reference_text float_repr reject v = Inr t"
proof (cases "copy_value reject 0 {} v ([], False, False)")
  case (Inl e)
  then show ?thesis by (simp add: canonical_dumps_with_def take_snapshot_copy reference_text_def)
next
  case (Inr r)
  obtain c occupied decimals large where r: "r = (c, occupied, decimals, large)" by (cases r) auto
  have d: "describes [c] ([], False, False) (occupied, decimals, large)"
    using copy_value_describes Inr r by blast
  have ref: "reference_text float_repr reject v = direct_text float_repr c" using Inr r by (simp add: reference_text_def)
  show ?thesis
  proof (cases "decimals \<or> large")
    case False
    then have "json_dumps float_repr c = direct_text float_repr c" unfolding json_dumps_def direct_text_def
      using d by (intro value_text_cong) (metis describes_def direct_leaf.simps fst_conv json_leaf.exhaust list.set_intros(1) snd_conv)
    then show ?thesis using False Inr r ref by (simp add: canonical_dumps_with_def take_snapshot_copy)
  next
    case True
    show ?thesis
    proof (cases "tokenise c (occupied, 0, [])")
      case (Inl e)
      then have "LDecimal DecNonFinite \<in> copy_leaves c" using d by (auto simp: describes_def intro: tokenise_fails)
      then obtain e' where "direct_text float_repr c = Inl e'" using direct_text_fails by blast
      then show ?thesis using True Inl Inr r ref
        by (auto simp: canonical_dumps_with_def take_snapshot_copy encode_root [OF d])
    next
      case tok: (Inr q)
      obtain c' o' i' T where q: "q = (c', o', i', T)" by (cases q) auto
      let ?text = "json_dumps float_repr (read_root (place c' 0 (Index 0) [ListCell [SlotNone]]))"
      have "canonical_dumps_with float_repr reject v = bind_sum ?text (\<lambda>s. Inr (scan T s))"
        using True Inr r tok q by (auto simp: canonical_dumps_with_def take_snapshot_copy encode_root [OF d] replace_loop_text)
      moreover have "scans_result T ?text (direct_text float_repr c)" using encoded_text [OF assms d] tok q by simp
      moreover have "scan T s = u" if "scans T s u" for s u using that [unfolded scans_def, rule_format, of "[]"] by simp
      ultimately show ?thesis unfolding ref by (cases ?text; cases "direct_text float_repr c") auto
    qed
  qed
qed

end
