(* ===== verification/Canonical_Form.thy ===== *)
theory Canonical_Form
  imports Canonical_Encode
begin

text \<open>
  The canonical form of a value, the values that the snapshot accepts, and that the text
  determines the form: two values have the same text exactly when they have the same form.
\<close>

section \<open>Forms and their text\<close>

datatype json_form =
    FormNull
  | FormBool bool
  | FormInt int
  | FormReal string
  | FormStr string
  | FormList "json_form list"
  | FormObject "(string \<times> json_form) list"

fun form_leaf :: "(64 word \<Rightarrow> string) \<Rightarrow> json_leaf \<Rightarrow> canonical_error + json_form" where
  "form_leaf float_repr LNone = Inr FormNull"
| "form_leaf float_repr (LBool b) = Inr (FormBool b)"
| "form_leaf float_repr (LInt i) = Inr (FormInt i)"
| "form_leaf float_repr (LFloat w) = (if float_finite w then Inr (FormReal (float_repr w)) else Inl CanonicalValueError)"
| "form_leaf float_repr (LDecimal d) = bind_sum (decimal_text d) (\<lambda>t. Inr (FormReal t))"
| "form_leaf float_repr (LStr s) = Inr (FormStr s)"
| "form_leaf float_repr LOther = Inl CanonicalTypeError"

function copy_form :: "(64 word \<Rightarrow> string) \<Rightarrow> json_copy \<Rightarrow> canonical_error + json_form" where
  "copy_form float_repr (CopyLeaf l) = form_leaf float_repr l"
| "copy_form float_repr (CopyList xs) = bind_sum (map_sum_list (copy_form float_repr) xs) (\<lambda>fs. Inr (FormList fs))"
| "copy_form float_repr (CopyDict items) =
     bind_sum (map_sum_list (\<lambda>(k, c). bind_sum (copy_form float_repr c) (\<lambda>f. Inr (k, f))) (sort_key fst items))
       (\<lambda>fs. Inr (FormObject fs))"
  by pat_completeness auto

termination
  by (relation "measure (\<lambda>(float_repr, c). size c)") (auto dest: copy_size_item copy_size_element)

primrec bool_text :: "bool \<Rightarrow> string" where
  "bool_text True = ''true''"
| "bool_text False = ''false''"

lemma size_form_item: "(k, f) \<in> set items \<Longrightarrow> size f < Suc (size_list (size_prod (\<lambda>_. 0) size) items)"
  for items :: "(string \<times> json_form) list"
  by (induction items) (auto simp: size_prod_def)

lemma size_form_element: "f \<in> set fs \<Longrightarrow> size f < Suc (size_list size fs)" for fs :: "json_form list"
  by (induction fs) (auto simp: less_Suc_eq)

function form_text :: "json_form \<Rightarrow> string" where
  "form_text FormNull = ''null''"
| "form_text (FormBool b) = bool_text b"
| "form_text (FormInt i) = int_text i"
| "form_text (FormReal t) = t"
| "form_text (FormStr s) = json_string s"
| "form_text (FormList fs) = ''['' @ join_text '','' (map form_text fs) @ '']''"
| "form_text (FormObject items) = ''{'' @ join_text '','' (map (\<lambda>(k, f). json_string k @ '':'' @ form_text f) items) @ ''}''"
  by pat_completeness auto

termination
  by (relation "measure size") (auto dest: size_form_item size_form_element)

lemma map_sum_list_bind:
  "(\<And>x. x \<in> set xs \<Longrightarrow> f x = bind_sum (g x) (\<lambda>y. Inr (h y))) \<Longrightarrow> map_sum_list f xs = bind_sum (map_sum_list g xs) (\<lambda>ys. Inr (map h ys))"
  by (induction xs) (auto simp: bind_sum_assoc)

lemma direct_text_form: "direct_text float_repr c = bind_sum (copy_form float_repr c) (\<lambda>f. Inr (form_text f))"
  unfolding direct_text_def
proof (induction float_repr c rule: copy_form.induct)
  case (1 float_repr l)
  then show ?case by (cases l) (auto simp: bind_sum_assoc split: sum.splits, metis bind_sum_simps obj_sumE)
next
  case (2 float_repr xs)
  then show ?case using map_sum_list_bind [of xs "value_text (direct_leaf float_repr)" "copy_form float_repr" form_text]
    by (simp add: bind_sum_assoc)
next
  case (3 float_repr items)
  have "map_sum_list (\<lambda>(k, v). bind_sum (value_text (direct_leaf float_repr) v) (\<lambda>t. Inr (json_string k @ '':'' @ t))) (sort_key fst items) =
      bind_sum (map_sum_list (\<lambda>(k, c). bind_sum (copy_form float_repr c) (\<lambda>f. Inr (k, f))) (sort_key fst items))
        (\<lambda>fs. Inr (map (\<lambda>(k, f). json_string k @ '':'' @ form_text f) fs))"
    by (rule map_sum_list_bind) (use 3 in \<open>fastforce simp: bind_sum_assoc\<close>)
  then show ?case by (simp add: bind_sum_assoc)
qed

section \<open>Reading a text\<close>

text \<open>
  The characters of a number; a real number, as Python prints it, has a point or an exponent,
  which no integer has. After a value comes the end, a comma or a closing bracket.
\<close>

definition number_char :: "char \<Rightarrow> bool" where
  "number_char c \<longleftrightarrow> is_digit c \<or> c \<in> {CHR ''+'', CHR ''-'', CHR ''.'', CHR ''e''}"

definition real_token :: "string \<Rightarrow> bool" where
  "real_token t \<longleftrightarrow> list_all number_char t \<and> (CHR ''.'' \<in> set t \<or> CHR ''e'' \<in> set t)"

definition stops :: "string \<Rightarrow> bool" where
  "stops r \<longleftrightarrow> r = [] \<or> hd r \<in> {CHR '','', CHR '']'', CHR ''}''}"

fun form_ok :: "json_form \<Rightarrow> bool" where
  "form_ok (FormReal t) \<longleftrightarrow> real_token t"
| "form_ok (FormList fs) \<longleftrightarrow> (\<forall>f\<in>set fs. form_ok f)"
| "form_ok (FormObject items) \<longleftrightarrow> (\<forall>(k, f)\<in>set items. form_ok f)"
| "form_ok _ \<longleftrightarrow> True"

definition readable :: "(string \<Rightarrow> bool) \<Rightarrow> ('a \<Rightarrow> string) \<Rightarrow> ('a \<Rightarrow> bool) \<Rightarrow> 'a \<Rightarrow> bool" where
  "readable stop enc ok x \<longleftrightarrow>
     (\<forall>y r s. ok y \<longrightarrow> stop r \<longrightarrow> stop s \<longrightarrow> enc x @ r = enc y @ s \<longrightarrow> x = y \<and> r = s)"

lemma join_text_Cons: "join_text sep (x # xs) = (if xs = [] then x else x @ sep @ join_text sep xs)"
  by (cases xs) simp_all

text \<open>A bracketed, comma separated sequence of readable items is readable.\<close>

lemma read_items:
  assumes "\<forall>x\<in>set xs. ok x \<and> readable stops enc ok x" "\<forall>y\<in>set ys. ok y"
    and start: "\<And>y. ok y \<Longrightarrow> enc y \<noteq> [] \<and> hd (enc y) \<notin> {CHR '','', CHR '']'', CHR ''}''}"
    and close: "close = CHR '']'' \<or> close = CHR ''}''"
    and eq: "join_text '','' (map enc xs) @ close # r = join_text '','' (map enc ys) @ close # s"
  shows "xs = ys \<and> r = s"
proof -
  have no_close: "close # u \<noteq> enc y @ t" if "ok y" for u y t using start [OF that] close by (cases "enc y") auto
  show ?thesis using assms(1,2) eq
  proof (induction xs arbitrary: ys)
    case Nil
    then show ?case using no_close by (cases ys) (auto simp: join_text_Cons split: if_splits)
  next
    case (Cons x xs)
    then obtain y zs where ys: "ys = y # zs"
      using no_close [of x] by (cases ys) (auto simp: join_text_Cons dest: sym split: if_splits)
    define r' where "r' = (if xs = [] then close # r else CHR '','' # join_text '','' (map enc xs) @ close # r)"
    define s' where "s' = (if zs = [] then close # s else CHR '','' # join_text '','' (map enc zs) @ close # s)"
    have eq': "enc x @ r' = enc y @ s'" using Cons.prems(3) by (simp add: ys r'_def s'_def join_text_Cons split: if_splits)
    have "stops r'" "stops s'" using close by (auto simp: r'_def s'_def stops_def)
    then have "x = y" "r' = s'" using Cons.prems(1,2) eq' by (auto simp: readable_def ys)
    moreover have "xs = [] \<longleftrightarrow> zs = []" using \<open>r' = s'\<close> close by (auto simp: r'_def s'_def split: if_splits)
    ultimately show ?case using Cons.IH [of zs] Cons.prems(1,2) by (auto simp: ys r'_def s'_def split: if_splits)
  qed
qed

lemma number_not_stop: "number_char c \<Longrightarrow> c \<notin> {CHR '','', CHR '']'', CHR ''}'', CHR 0x22, CHR ''n'', CHR ''t'', CHR ''f'', CHR ''['', CHR ''{''}"
  by (auto simp: number_char_def is_digit_def)

lemma token_end: "list_all number_char t \<Longrightarrow> stops r \<Longrightarrow> takeWhile number_char (t @ r) = t"
  using number_not_stop by (cases r) (auto simp: stops_def list_all_iff takeWhile_eq_all_conv)

lemma read_token:
  assumes "list_all number_char t" "list_all number_char u" "stops r" "stops s" "t @ r = u @ s"
  shows "t = u \<and> r = s"
  using token_end [OF assms(1,3)] token_end [OF assms(2,4)] assms(5) by (metis same_append_eq)

lemma int_text_chars: "c \<in> set (int_text i) \<Longrightarrow> is_digit c \<or> c = CHR ''-''"
  using nat_digits_decimal by (auto simp: int_text_def is_ascii_decimal_def list_all_iff split: if_splits)

lemma int_text_number: "list_all number_char (int_text i)" "\<not> real_token (int_text i)" "int_text i \<noteq> []"
proof -
  show "list_all number_char (int_text i)" using int_text_chars by (auto simp: list_all_iff number_char_def)
  show "\<not> real_token (int_text i)" using int_text_chars [of _ i] by (force simp: real_token_def is_digit_def)
  show "int_text i \<noteq> []" using nat_digits_decimal by (auto simp: int_text_def is_ascii_decimal_def)
qed

lemma int_text_inject: "int_text i = int_text j \<longleftrightarrow> i = j"
proof -
  have "\<not> is_digit CHR ''-''" by (simp add: is_digit_def)
  then have "nat_digits m \<noteq> CHR ''-'' # t" for m t using nat_digits_decimal [of m] by (auto simp: is_ascii_decimal_def)
  then show ?thesis by (auto simp: int_text_def nat_digits_inject split: if_splits) (metis)+
qed

text \<open>The first character tells the kind of a value.\<close>

fun start_kind :: "json_form \<Rightarrow> char \<Rightarrow> bool" where
  "start_kind FormNull c \<longleftrightarrow> c = CHR ''n''"
| "start_kind (FormBool b) c \<longleftrightarrow> c = (if b then CHR ''t'' else CHR ''f'')"
| "start_kind (FormInt i) c \<longleftrightarrow> number_char c"
| "start_kind (FormReal t) c \<longleftrightarrow> number_char c"
| "start_kind (FormStr s) c \<longleftrightarrow> c = CHR 0x22"
| "start_kind (FormList fs) c \<longleftrightarrow> c = CHR ''[''"
| "start_kind (FormObject items) c \<longleftrightarrow> c = CHR ''{''"

lemma form_start: "form_ok f \<Longrightarrow> form_text f \<noteq> [] \<and> start_kind f (hd (form_text f))"
proof (cases f)
  case (FormInt i)
  then show ?thesis using int_text_number(1,3) [of i] by (cases "int_text i") auto
next
  case (FormReal t)
  moreover assume "form_ok f"
  ultimately show ?thesis by (cases t) (auto simp: real_token_def)
next
  case (FormBool b)
  then show ?thesis by (cases b) auto
qed (auto simp: json_string_def)

lemma form_start_outside: "form_ok f \<Longrightarrow> hd (form_text f) \<notin> {CHR '','', CHR '']'', CHR ''}''}"
  using form_start [of f] number_not_stop by (cases f) auto

lemma same_kind:
  assumes "form_ok f" "form_ok g" "form_text f @ r = form_text g @ s"
  shows "\<exists>c. start_kind f c \<and> start_kind g c"
  using form_start [OF assms(1)] form_start [OF assms(2)] assms(3) by (metis hd_append2)

lemma number_forms:
  assumes "form_ok f" "form_ok g" "start_kind f c" "start_kind g c" "number_char c"
    "form_text f @ r = form_text g @ s" "stops r" "stops s"
  shows "f = g \<and> r = s"
proof -
  have number: "(\<exists>i. h = FormInt i) \<or> (\<exists>t. h = FormReal t \<and> real_token t)" if "form_ok h" "start_kind h c" for h
    using that assms(5) number_not_stop [of c] by (cases h) (auto split: if_splits)
  then have "list_all number_char (form_text h)" if "form_ok h" "start_kind h c" for h
    using that int_text_number(1) by (metis form_text.simps(3,4) real_token_def)
  then have "list_all number_char (form_text f)" "list_all number_char (form_text g)"
    using assms(1-4) by blast+
  from read_token [OF this assms(7,8,6)] have "form_text f = form_text g" "r = s" by simp_all
  then show ?thesis using number [OF assms(1,3)] number [OF assms(2,4)] int_text_number(2)
    by (auto simp: int_text_inject)
qed

lemma object_item_readable:
  assumes "readable stops form_text form_ok f"
  shows "readable stops (\<lambda>(k, f). json_string k @ '':'' @ form_text f) (\<lambda>(k, f). form_ok f) (k, f)"
  using assms by (auto simp: readable_def dest!: json_string_prefix)

lemma readableI:
  "(\<And>y r s. ok y \<Longrightarrow> stop r \<Longrightarrow> stop s \<Longrightarrow> enc x @ r = enc y @ s \<Longrightarrow> x = y \<and> r = s) \<Longrightarrow> readable stop enc ok x"
  by (simp add: readable_def)

lemma form_readable: "form_ok f \<Longrightarrow> readable stops form_text form_ok f"
proof (induction f rule: form_text.induct)
  case (6 fs)
  show ?case
  proof (rule readableI)
    fix y r s assume y: "form_ok y" "form_text (FormList fs) @ r = form_text y @ s"
    then obtain gs where gs: "y = FormList gs"
      using same_kind [OF 6(2) y] number_not_stop by (cases y) (auto split: if_splits)
    have "fs = gs \<and> r = s"
      by (rule read_items [where enc = form_text and ok = form_ok and close = "CHR '']''"])
        (use 6 y gs form_start form_start_outside in \<open>auto\<close>)
    then show "FormList fs = y \<and> r = s" by (simp add: gs)
  qed
next
  case (7 items)
  let ?enc = "\<lambda>(k, f). json_string k @ '':'' @ form_text f"
  show ?case
  proof (rule readableI)
    fix y r s assume y: "form_ok y" "form_text (FormObject items) @ r = form_text y @ s"
    then obtain gs where gs: "y = FormObject gs"
      using same_kind [OF 7(2) y] number_not_stop by (cases y) (auto split: if_splits)
    have "items = gs \<and> r = s"
    proof (rule read_items [where enc = ?enc and ok = "\<lambda>(k, f). form_ok f" and close = "CHR ''}''"])
      show "\<forall>p\<in>set items. (case p of (k, f) \<Rightarrow> form_ok f) \<and> readable stops ?enc (\<lambda>(k, f). form_ok f) p"
        using 7 object_item_readable by fastforce
      show "\<forall>p\<in>set gs. case p of (k, f) \<Rightarrow> form_ok f" using y(1) gs by simp
    qed (use y(2) gs in \<open>auto simp: json_string_def\<close>)
    then show "FormObject items = y \<and> r = s" by (simp add: gs)
  qed
next
  case (5 t)
  show ?case
  proof (rule readableI)
    fix y r s assume y: "form_ok y" "form_text (FormStr t) @ r = form_text y @ s"
    then obtain u where "y = FormStr u"
      using same_kind [OF 5(1) y] number_not_stop by (cases y) (auto split: if_splits)
    then show "FormStr t = y \<and> r = s" using y(2) by (auto dest: json_string_prefix)
  qed
next
  case 1
  show ?case
  proof (rule readableI)
    fix y r s assume y: "form_ok y" "form_text FormNull @ r = form_text y @ s"
    then have "y = FormNull"
      using same_kind [OF 1 y] number_not_stop by (cases y) (auto split: if_splits)
    then show "FormNull = y \<and> r = s" using y(2) by simp
  qed
next
  case (2 b)
  show ?case
  proof (rule readableI)
    fix y r s assume y: "form_ok y" "form_text (FormBool b) @ r = form_text y @ s"
    then have "y = FormBool b"
      using same_kind [OF 2 y] number_not_stop by (cases y) (auto split: if_splits)
    then show "FormBool b = y \<and> r = s" using y(2) by simp
  qed
next
  case (3 i)
  show ?case
    by (rule readableI) (use 3 same_kind [OF 3] number_forms [OF 3] in \<open>fastforce\<close>)
next
  case (4 t)
  show ?case
    by (rule readableI) (use 4 same_kind [OF 4] number_forms [OF 4] in \<open>fastforce\<close>)
qed

lemma form_text_inject: "form_ok f \<Longrightarrow> form_ok g \<Longrightarrow> form_text f = form_text g \<longleftrightarrow> f = g"
  using form_readable [of f, unfolded readable_def, rule_format, of g "[]" "[]"] by (auto simp: stops_def)

section \<open>The form of a value\<close>

text \<open>
  The assumption about floats: the notation of a finite float is a real number token. The decimals
  of \<^const>\<open>decimal_text\<close> are.
\<close>

definition repr_real :: "(64 word \<Rightarrow> string) \<Rightarrow> bool" where
  "repr_real float_repr \<longleftrightarrow> (\<forall>w. float_finite w \<longrightarrow> real_token (float_repr w))"

lemma repr_real_plain: "repr_real float_repr \<Longrightarrow> repr_plain float_repr"
  using number_not_stop by (fastforce simp: repr_real_def repr_plain_def real_token_def list_all_iff)

lemma list_all_parts: "list_all P s \<Longrightarrow> list_all P (take n s)" "list_all P s \<Longrightarrow> list_all P (drop n s)"
  by (auto simp: list_all_iff dest: in_set_takeD in_set_dropD)

lemma list_all_replicate: "P c \<Longrightarrow> list_all P (replicate n c)"
  by (induction n) simp_all

lemma number_chars [simp]:
  "number_char CHR ''0''" "number_char CHR ''.''" "number_char CHR ''-''" "number_char CHR ''e''" "number_char CHR ''+''"
  by (simp_all add: number_char_def is_digit_def)

lemma digits_number: "list_all number_char (nat_digits n)"
  using nat_digits_decimal [of n] by (auto simp: is_ascii_decimal_def list_all_iff number_char_def)

lemma decimal_notation_real: "list_all number_char s \<Longrightarrow> real_token (decimal_notation negative s e)"
  unfolding real_token_def
  by (intro conjI) (simp_all add: decimal_notation_def exponent_text_def Let_def digits_number list_all_parts list_all_replicate)

lemma choice_Inr: "(if b then Inr (if n then x else y) else Inr z) = Inr t \<Longrightarrow> t = x \<or> t = y \<or> t = z"
  by (auto split: if_splits)

lemma decimal_text_real: "decimal_text d = Inr t \<Longrightarrow> real_token t"
proof (cases d)
  case (DecTuple negative ds scale)
  let ?significant = "dropWhile (\<lambda>c. c = CHR ''0'') (concat (map nat_digits ds))"
  have "list_all number_char (strip_zeros_right ?significant)"
    using digits_number by (auto simp: list_all_iff strip_zeros_right_def dest!: set_dropWhileD)
  then have "real_token (decimal_notation negative (strip_zeros_right ?significant) e)" for e by (rule decimal_notation_real)
  moreover have "real_token ''0.0''" "real_token ''-0.0''" by (simp_all add: real_token_def)
  moreover assume "decimal_text d = Inr t"
  then have "t = ''0.0'' \<or> t = ''-0.0'' \<or> (\<exists>e. t = decimal_notation negative (strip_zeros_right ?significant) e)"
    unfolding DecTuple decimal_text.simps Let_def by (blast dest: choice_Inr)
  ultimately show ?thesis by blast
qed simp

lemma map_sum_list_mem: "map_sum_list f xs = Inr ys \<Longrightarrow> y \<in> set ys \<Longrightarrow> \<exists>x\<in>set xs. f x = Inr y"
  by (induction xs arbitrary: ys) (auto simp: bind_sum_Inr_iff)

lemma copy_form_ok: "repr_real float_repr \<Longrightarrow> copy_form float_repr c = Inr f \<Longrightarrow> form_ok f"
proof (induction float_repr c arbitrary: f rule: copy_form.induct)
  case (1 float_repr l)
  then show ?case by (cases l) (auto simp: repr_real_def bind_sum_Inr_iff decimal_text_real split: if_splits)
next
  case (2 float_repr xs)
  then obtain fs where fs: "map_sum_list (copy_form float_repr) xs = Inr fs" "f = FormList fs" by (auto simp: bind_sum_Inr_iff)
  have "form_ok g" if "g \<in> set fs" for g using map_sum_list_mem [OF fs(1) that] 2(1,2) by auto
  then show ?case by (simp add: fs(2))
next
  case (3 float_repr items)
  obtain fs where fs: "map_sum_list (\<lambda>(k, c). bind_sum (copy_form float_repr c) (\<lambda>f. Inr (k, f))) (sort_key fst items) = Inr fs" "f = FormObject fs"
    using 3(3) by (auto simp: bind_sum_Inr_iff)
  have "form_ok g" if "(k, g) \<in> set fs" for k g
    using map_sum_list_mem [OF fs(1) that] 3(1,2) by (auto simp: bind_sum_Inr_iff)
  then show ?case by (auto simp: fs(2))
qed

definition canonical_form :: "(64 word \<Rightarrow> string) \<Rightarrow> json_arg \<Rightarrow> canonical_error + json_form" where
  "canonical_form float_repr v = bind_sum (copy_value False 0 {} v ([], False, False)) (\<lambda>(c, n). copy_form float_repr c)"

lemma canonical_dumps_form:
  assumes "repr_real float_repr"
  shows "canonical_dumps_reference float_repr v = Inr t \<longleftrightarrow> (\<exists>f. canonical_form float_repr v = Inr f \<and> t = form_text f)"
  using canonical_dumps_direct [OF repr_real_plain [OF assms], of False v t]
  by (auto simp: canonical_dumps_reference_def reference_text_def canonical_form_def direct_text_form bind_sum_Inr_iff)

lemma canonical_form_ok: "repr_real float_repr \<Longrightarrow> canonical_form float_repr v = Inr f \<Longrightarrow> form_ok f"
  by (auto simp: canonical_form_def bind_sum_Inr_iff intro: copy_form_ok)

end
