(* ===== verification/Canonical_Spec.thy ===== *)
theory Canonical_Spec
  imports Canonical_Form "HOL-Library.Multiset"
begin

text \<open>
  A specification of canonical JSON as a relation between a value and its form, and the proof that
  the encoder implements it.
\<close>

section \<open>The specification\<close>

text \<open>
  A value has a form when it is nested at most 64 levels deep, no container occurs inside itself,
  keys are distinct strings, integers have at most 10000 digits, and floats and decimals are
  finite. The members of an object are ordered by key.
\<close>

inductive has_form :: "(64 word \<Rightarrow> string) \<Rightarrow> bool \<Rightarrow> nat \<Rightarrow> nat set \<Rightarrow> json_arg \<Rightarrow> json_form \<Rightarrow> bool"
  for float_repr reject where
  leaf: "depth \<le> MAX_CANONICAL_JSON_DEPTH \<Longrightarrow> leaf_ok l \<Longrightarrow> form_leaf float_repr l = Inr f \<Longrightarrow>
    has_form float_repr reject depth A (ArgLeaf l) f"
| list: "depth \<le> MAX_CANONICAL_JSON_DEPTH \<Longrightarrow> ident \<notin> A \<Longrightarrow>
    list_all2 (has_form float_repr reject (depth + 1) (insert ident A)) xs fs \<Longrightarrow>
    has_form float_repr reject depth A (ArgList ident xs) (FormList fs)"
| tuple: "depth \<le> MAX_CANONICAL_JSON_DEPTH \<Longrightarrow> ident \<notin> A \<Longrightarrow> \<not> reject \<Longrightarrow>
    list_all2 (has_form float_repr reject (depth + 1) (insert ident A)) xs fs \<Longrightarrow>
    has_form float_repr reject depth A (ArgTuple ident xs) (FormList fs)"
| mapping: "depth \<le> MAX_CANONICAL_JSON_DEPTH \<Longrightarrow> ident \<notin> A \<Longrightarrow> map fst items = map (\<lambda>k. ArgLeaf (LStr k)) ks \<Longrightarrow> distinct ks \<Longrightarrow>
    list_all2 (\<lambda>p f. has_form float_repr reject (depth + 1) (insert ident A) (snd p) f) items fs \<Longrightarrow>
    has_form float_repr reject depth A (ArgMapping ident items) (FormObject (sort_key fst (zip ks fs)))"

inductive_cases has_form_leafE: "has_form float_repr reject depth A (ArgLeaf l) f"
inductive_cases has_form_listE: "has_form float_repr reject depth A (ArgList ident xs) f"
inductive_cases has_form_tupleE: "has_form float_repr reject depth A (ArgTuple ident xs) f"
inductive_cases has_form_mappingE: "has_form float_repr reject depth A (ArgMapping ident items) f"

section \<open>Sequences of results\<close>

declare split_paired_All [simp del] split_paired_Ex [simp del]

lemma map_sum_list_all2: "map_sum_list f xs = Inr ys \<longleftrightarrow> list_all2 (\<lambda>x y. f x = Inr y) xs ys"
  by (induction xs arbitrary: ys) (auto simp: bind_sum_Inr_iff list_all2_Cons1)

lemma thread_list_results: "thread_list f xs n = Inr (cs, n') \<Longrightarrow> list_all2 (\<lambda>x c. \<exists>m m'. f x m = Inr (c, m')) xs cs"
  by (induction xs arbitrary: n cs) (auto simp: bind_sum_Inr_iff, blast)

lemma thread_list_succeeds:
  "list_all2 (\<lambda>x c. \<forall>m. \<exists>m'. f x m = Inr (c, m')) xs cs \<Longrightarrow> \<exists>n'. thread_list f xs n = Inr (cs, n')"
proof (induction xs cs arbitrary: n rule: list_all2_induct)
  case (Cons x xs c cs)
  then obtain m where "f x n = Inr (c, m)" by blast
  then show ?case using Cons(3) [of m] by auto
qed simp

lemma list_all2_split:
  "list_all2 (\<lambda>x z. P x z \<and> (\<exists>y. Q y z \<and> R x y)) xs zs \<Longrightarrow> \<exists>ys. list_all2 R xs ys \<and> list_all2 Q ys zs"
proof (induction xs zs rule: list_all2_induct)
  case (Cons x xs z zs)
  then obtain y ys where "Q y z" "R x y" "list_all2 R xs ys" "list_all2 Q ys zs" by blast
  then show ?case by (intro exI [of _ "y # ys"]) simp
qed simp

lemma list_all2_mem: "list_all2 R xs ys \<Longrightarrow> x \<in> set xs \<Longrightarrow> \<exists>y\<in>set ys. R x y"
  by (induction xs ys rule: list_all2_induct) auto

lemma all_results: "\<forall>c\<in>set cs. \<exists>f. h c = Inr f \<Longrightarrow> \<exists>fs. list_all2 (\<lambda>c f. h c = Inr f) cs fs"
proof (induction cs)
  case (Cons c cs)
  then obtain f fs where "h c = Inr f" "list_all2 (\<lambda>c f. h c = Inr f) cs fs" by auto
  then show ?case by (intro exI [of _ "f # fs"]) simp
qed (simp add: exI [of _ "[]"])

text \<open>Sorting the members by key before or after printing them is the same.\<close>

lemma sorted_members:
  "map_sum_list (\<lambda>(k, c). bind_sum (h c) (\<lambda>f. Inr (k, f))) (sort_key fst (zip ks cs)) = Inr ms \<longleftrightarrow>
   (\<exists>fs. list_all2 (\<lambda>c f. h c = Inr f) cs fs \<and> ms = sort_key fst (zip ks fs))"
  if len: "length ks = length cs" for ks :: "string list"
proof
  let ?h = "\<lambda>(k, c). bind_sum (h c) (\<lambda>f. Inr (k, f))" and ?R = "\<lambda>p q. fst p = fst q \<and> h (snd p) = Inr (snd q)"
  have R: "?h p = Inr q \<longleftrightarrow> ?R p q" for p q by (cases p; cases q) (auto simp: bind_sum_Inr_iff)
  assume ms: "map_sum_list ?h (sort_key fst (zip ks cs)) = Inr ms"
  have "\<exists>f. h c = Inr f" if c: "c \<in> set cs" for c
  proof -
    obtain i where "i < length cs" "cs ! i = c" using c by (auto simp: in_set_conv_nth)
    then have "(ks ! i, c) \<in> set (sort_key fst (zip ks cs))" using len by (auto simp: set_zip)
    then show ?thesis using list_all2_mem [OF ms [unfolded map_sum_list_all2 R]] by fastforce
  qed
  then have "\<exists>fs. list_all2 (\<lambda>c f. h c = Inr f) cs fs" by (intro all_results ballI)
  then obtain fs where fs: "list_all2 (\<lambda>c f. h c = Inr f) cs fs" by (elim exE)
  then have "list_all2 ?R (zip ks cs) (zip ks fs)" using len by (auto simp: list_all2_conv_all_nth)
  then have "list_all2 ?R (sort_key fst (zip ks cs)) (sort_key fst (zip ks fs))" by (rule sort_related) simp
  then have "map_sum_list ?h (sort_key fst (zip ks cs)) = Inr (sort_key fst (zip ks fs))" by (simp add: map_sum_list_all2 R)
  then show "\<exists>fs. list_all2 (\<lambda>c f. h c = Inr f) cs fs \<and> ms = sort_key fst (zip ks fs)" using ms fs by auto
next
  let ?h = "\<lambda>(k, c). bind_sum (h c) (\<lambda>f. Inr (k, f))" and ?R = "\<lambda>p q. fst p = fst q \<and> h (snd p) = Inr (snd q)"
  have R: "?h p = Inr q \<longleftrightarrow> ?R p q" for p q by (cases p; cases q) (auto simp: bind_sum_Inr_iff)
  assume "\<exists>fs. list_all2 (\<lambda>c f. h c = Inr f) cs fs \<and> ms = sort_key fst (zip ks fs)"
  then obtain fs where fs: "list_all2 (\<lambda>c f. h c = Inr f) cs fs" "ms = sort_key fst (zip ks fs)" by blast
  then have "list_all2 ?R (zip ks cs) (zip ks fs)" using len by (auto simp: list_all2_conv_all_nth)
  then have "list_all2 ?R (sort_key fst (zip ks cs)) (sort_key fst (zip ks fs))" by (rule sort_related) simp
  then show "map_sum_list ?h (sort_key fst (zip ks cs)) = Inr ms" by (simp add: map_sum_list_all2 R fs(2))
qed

lemma snapshot_keys_strings:
  "snapshot_keys items seen occupied = Inr occupied' \<Longrightarrow> map fst items = map (\<lambda>k. ArgLeaf (LStr k)) (map (key_text \<circ> fst) items)"
  by (induction items seen occupied rule: snapshot_keys.induct) (auto split: if_splits)

lemma snapshot_keys_accepts:
  "map fst items = map (\<lambda>k. ArgLeaf (LStr k)) ks \<Longrightarrow> distinct ks \<Longrightarrow> set ks \<inter> set seen = {} \<Longrightarrow>
   \<exists>occupied'. snapshot_keys items seen occupied = Inr occupied'"
proof (induction ks arbitrary: items seen occupied)
  case (Cons k ks)
  then obtain v rest where "items = (ArgLeaf (LStr k), v) # rest" "map fst rest = map (\<lambda>k. ArgLeaf (LStr k)) ks"
    by (cases items) auto
  then show ?case using Cons.IH [of rest "k # seen"] Cons.prems by auto
qed simp

section \<open>The encoder implements the specification\<close>

lemma note_leaf_ok: "note_leaf l n = Inr n' \<Longrightarrow> leaf_ok l"
  by (cases n; cases l) (auto simp: note_leaf_def split: if_splits)

lemma note_leaf_total: "leaf_ok l \<Longrightarrow> \<exists>n'. note_leaf l n = Inr n'"
  by (cases n; cases l) (auto simp: note_leaf_def)

lemma elements_form:
  assumes "list_all2 (\<lambda>x c. \<exists>m m'. copy x m = Inr (c, m')) xs cs" "list_all2 (\<lambda>c f. copy_form float_repr c = Inr f) cs fs"
    and "\<And>x m c m' f. x \<in> set xs \<Longrightarrow> copy x m = Inr (c, m') \<Longrightarrow> copy_form float_repr c = Inr f \<Longrightarrow> P x f"
  shows "list_all2 P xs fs"
  using assms by (auto simp: list_all2_conv_all_nth)

lemma copy_has_form:
  "copy_value reject depth A v n = Inr (c, n') \<Longrightarrow> copy_form float_repr c = Inr f \<Longrightarrow> has_form float_repr reject depth A v f"
proof (induction reject depth A v n arbitrary: c n' f rule: copy_value.induct)
  case (1 reject depth A l n)
  then show ?case by (auto simp: bind_sum_Inr_iff intro!: has_form.leaf dest: note_leaf_ok split: if_splits)
next
  case (2 reject depth A ident xs n)
  then obtain cs where cs: "thread_list (copy_value reject (depth + 1) (insert ident A)) xs n = Inr (cs, n')" "c = CopyList cs"
    and ok: "depth \<le> MAX_CANONICAL_JSON_DEPTH" "ident \<notin> A"
    by (auto simp: bind_sum_Inr_iff split: if_splits)
  obtain fs where fs: "list_all2 (\<lambda>c f. copy_form float_repr c = Inr f) cs fs" "f = FormList fs"
    using 2(3) cs(2) by (auto simp: bind_sum_Inr_iff map_sum_list_all2)
  have "list_all2 (has_form float_repr reject (depth + 1) (insert ident A)) xs fs"
    by (rule elements_form [OF thread_list_results [OF cs(1)] fs(1)]) (use 2(1) ok in auto)
  then show ?case using ok by (simp add: fs(2) has_form.list)
next
  case (3 reject depth A ident xs n)
  then obtain cs where cs: "thread_list (copy_value reject (depth + 1) (insert ident A)) xs n = Inr (cs, n')" "c = CopyList cs"
    and ok: "depth \<le> MAX_CANONICAL_JSON_DEPTH" "ident \<notin> A" "\<not> reject"
    by (auto simp: bind_sum_Inr_iff split: if_splits)
  obtain fs where fs: "list_all2 (\<lambda>c f. copy_form float_repr c = Inr f) cs fs" "f = FormList fs"
    using 3(3) cs(2) by (auto simp: bind_sum_Inr_iff map_sum_list_all2)
  have "list_all2 (has_form float_repr reject (depth + 1) (insert ident A)) xs fs"
    by (rule elements_form [OF thread_list_results [OF cs(1)] fs(1)]) (use 3(1) ok in auto)
  then show ?case using ok by (simp add: fs(2) has_form.tuple)
next
  case (4 reject depth A ident items n)
  let ?ks = "map (key_text \<circ> fst) items"
  obtain occupied cs where keys: "snapshot_keys items [] (fst n) = Inr occupied"
    and cs: "thread_list (\<lambda>(k, child). copy_value reject (depth + 1) (insert ident A) child) items (occupied, snd n) = Inr (cs, n')"
      "c = CopyDict (zip ?ks cs)" and ok: "depth \<le> MAX_CANONICAL_JSON_DEPTH" "ident \<notin> A"
    using 4(2) by (auto simp: bind_sum_Inr_iff split: if_splits)
  have len: "length ?ks = length cs" using length_thread_list [OF cs(1)] by simp
  obtain fs where fs: "list_all2 (\<lambda>c f. copy_form float_repr c = Inr f) cs fs" "f = FormObject (sort_key fst (zip ?ks fs))"
    using 4(3) cs(2) sorted_members [OF len, of "copy_form float_repr"] by (auto simp: bind_sum_Inr_iff)
  have "list_all2 (\<lambda>p f. has_form float_repr reject (depth + 1) (insert ident A) (snd p) f) items fs"
  proof (rule elements_form [OF thread_list_results [OF cs(1)] fs(1)])
    fix p m c m' f
    assume p: "p \<in> set items" "(case p of (k, child) \<Rightarrow> copy_value reject (depth + 1) (insert ident A) child) m = Inr (c, m')"
      "copy_form float_repr c = Inr f"
    then show "has_form float_repr reject (depth + 1) (insert ident A) (snd p) f"
      using 4(1) [OF _ p(1), of "fst p" "snd p" m c m' f] ok by (auto simp: case_prod_unfold)
  qed
  then show ?case using ok snapshot_keys_ok [OF keys] snapshot_keys_strings [OF keys]
    by (auto simp: fs(2) intro!: has_form.mapping)
qed

lemma has_form_copy:
  "has_form float_repr reject depth A v f \<Longrightarrow>
   \<exists>c. copy_form float_repr c = Inr f \<and> (\<forall>n. \<exists>n'. copy_value reject depth A v n = Inr (c, n'))"
proof (induction rule: has_form.induct)
  case (leaf depth l f A)
  then show ?case using note_leaf_total by (intro exI [of _ "CopyLeaf l"]) (fastforce simp: bind_sum_Inr_iff)
next
  case (list depth ident A xs fs)
  obtain cs where cs: "list_all2 (\<lambda>x c. \<forall>n. \<exists>n'. copy_value reject (depth + 1) (insert ident A) x n = Inr (c, n')) xs cs"
    "list_all2 (\<lambda>c f. copy_form float_repr c = Inr f) cs fs"
    using list_all2_split [OF list(3)] by blast
  have "copy_form float_repr (CopyList cs) = Inr (FormList fs)" using cs(2) by (simp add: map_sum_list_all2 bind_sum_Inr_iff)
  moreover have "\<exists>n'. copy_value reject depth A (ArgList ident xs) n = Inr (CopyList cs, n')" for n
    using list(1,2) thread_list_succeeds [OF cs(1), of n] by auto
  ultimately show ?case by blast
next
  case (tuple depth ident A xs fs)
  obtain cs where cs: "list_all2 (\<lambda>x c. \<forall>n. \<exists>n'. copy_value reject (depth + 1) (insert ident A) x n = Inr (c, n')) xs cs"
    "list_all2 (\<lambda>c f. copy_form float_repr c = Inr f) cs fs"
    using list_all2_split [OF tuple(4)] by blast
  have "copy_form float_repr (CopyList cs) = Inr (FormList fs)" using cs(2) by (simp add: map_sum_list_all2 bind_sum_Inr_iff)
  moreover have "\<exists>n'. copy_value reject depth A (ArgTuple ident xs) n = Inr (CopyList cs, n')" for n
    using tuple(1,2,3) thread_list_succeeds [OF cs(1), of n] by auto
  ultimately show ?case by blast
next
  case (mapping depth ident A items ks fs)
  let ?copy = "\<lambda>p. copy_value reject (depth + 1) (insert ident A) (snd p)"
  obtain cs where cs: "list_all2 (\<lambda>p c. \<forall>n. \<exists>n'. ?copy p n = Inr (c, n')) items cs"
    "list_all2 (\<lambda>c f. copy_form float_repr c = Inr f) cs fs"
    using list_all2_split [OF mapping(5)] by blast
  have ks: "map (key_text \<circ> fst) items = ks" using arg_cong [OF mapping(3), of "map key_text"] by (simp add: comp_def)
  have len: "length ks = length cs" using list_all2_lengthD [OF cs(1)] arg_cong [OF mapping(3), of length] by simp
  have form: "copy_form float_repr (CopyDict (zip ks cs)) = Inr (FormObject (sort_key fst (zip ks fs)))"
    using sorted_members [OF len, of "copy_form float_repr" "sort_key fst (zip ks fs)"] cs(2) by (auto simp: bind_sum_Inr_iff)
  have "\<exists>n'. copy_value reject depth A (ArgMapping ident items) n = Inr (CopyDict (zip ks cs), n')" for n
  proof -
    obtain occupied where "snapshot_keys items [] (fst n) = Inr occupied"
      using snapshot_keys_accepts [OF mapping(3,4), of "[]"] by auto
    moreover obtain n' where "thread_list (\<lambda>(k, child). copy_value reject (depth + 1) (insert ident A) child) items (occupied, snd n) = Inr (cs, n')"
      using thread_list_succeeds [OF cs(1), of "(occupied, snd n)"] by (auto simp: case_prod_unfold)
    ultimately show ?thesis using mapping(1,2) ks by simp
  qed
  then show ?case using form by blast
qed

lemma canonical_form_spec: "canonical_form float_repr v = Inr f \<longleftrightarrow> has_form float_repr False 0 {} v f"
proof
  assume "canonical_form float_repr v = Inr f"
  then show "has_form float_repr False 0 {} v f" by (auto simp: canonical_form_def bind_sum_Inr_iff intro: copy_has_form)
next
  assume "has_form float_repr False 0 {} v f"
  from has_form_copy [OF this] show "canonical_form float_repr v = Inr f"
    unfolding canonical_form_def by (metis (mono_tags, lifting) bind_sum_simps(2) case_prod_conv)
qed

end
