(* ===== verification/Canonical_Decimal.thy ===== *)
theory Canonical_Decimal
  imports Canonical_Spec
begin

text \<open>
  The notation of decimals: the number that a text denotes, that the canonical text denotes the
  decimal it was made from, and that decimals of the same value and sign have the same text.
\<close>

section \<open>The number a text denotes\<close>

definition exponent_value :: "string \<Rightarrow> int" where
  "exponent_value s =
     (case s of e # sign # digits \<Rightarrow> (if sign = CHR ''-'' then - int_of_decimal digits else int_of_decimal digits) | _ \<Rightarrow> 0)"

definition text_value :: "string \<Rightarrow> rat" where
  "text_value t =
     (let negative = starts_with t ''-'';
          body = (if negative then drop 1 t else t);
          mantissa = takeWhile (\<lambda>c. c \<noteq> CHR ''e'') body;
          whole = takeWhile (\<lambda>c. c \<noteq> CHR ''.'') mantissa;
          fraction = drop (length whole + 1) mantissa;
          value = of_int (int_of_decimal (whole @ fraction)) *
            power_int 10 (exponent_value (drop (length mantissa) body) - int (length fraction))
      in if negative then - value else value)"

lemma digit_plain: "is_digit c \<Longrightarrow> c \<noteq> CHR ''e'' \<and> c \<noteq> CHR ''.'' \<and> c \<noteq> CHR ''-''"
  by (auto simp: is_digit_def)

definition unsigned_value :: "string \<Rightarrow> rat" where
  "unsigned_value body =
     (let mantissa = takeWhile (\<lambda>c. c \<noteq> CHR ''e'') body;
          whole = takeWhile (\<lambda>c. c \<noteq> CHR ''.'') mantissa;
          fraction = drop (length whole + 1) mantissa
      in of_int (int_of_decimal (whole @ fraction)) *
         power_int 10 (exponent_value (drop (length mantissa) body) - int (length fraction)))"

lemma text_value_sign:
  "text_value (CHR ''-'' # body) = - unsigned_value body"
  "\<not> starts_with body ''-'' \<Longrightarrow> text_value body = unsigned_value body"
  by (simp_all add: text_value_def unsigned_value_def starts_with_def Let_def)

lemma takeWhile_digits:
  "list_all is_digit s \<Longrightarrow> \<not> P c \<Longrightarrow> (\<And>d. is_digit d \<Longrightarrow> P d) \<Longrightarrow> takeWhile P (s @ c # r) = s"
  "list_all is_digit s \<Longrightarrow> (\<And>d. is_digit d \<Longrightarrow> P d) \<Longrightarrow> takeWhile P s = s"
  by (induction s) auto

lemma unsigned_value_parts:
  assumes "takeWhile (\<lambda>c. c \<noteq> CHR ''e'') body = mantissa" "takeWhile (\<lambda>c. c \<noteq> CHR ''.'') mantissa = whole"
  shows "unsigned_value body =
    of_int (int_of_decimal (whole @ drop (length whole + 1) mantissa)) *
    power_int 10 (exponent_value (drop (length mantissa) body) - int (length (drop (length whole + 1) mantissa)))"
  unfolding unsigned_value_def Let_def assms ..

lemma unsigned_value_fixed:
  assumes "list_all is_digit whole" "list_all is_digit fraction"
  shows "unsigned_value (whole @ ''.'' @ fraction) =
    of_int (int_of_decimal (whole @ fraction)) * power_int 10 (- int (length fraction))"
proof -
  have mantissa: "takeWhile (\<lambda>c. c \<noteq> CHR ''e'') (whole @ ''.'' @ fraction) = whole @ ''.'' @ fraction"
    using assms by (auto simp: takeWhile_eq_all_conv list_all_iff dest: digit_plain)
  have "takeWhile (\<lambda>c. c \<noteq> CHR ''.'') (whole @ ''.'' @ fraction) = whole"
    using takeWhile_digits(1) [OF assms(1), of "\<lambda>c. c \<noteq> CHR ''.''" "CHR ''.''" fraction] digit_plain by auto
  from unsigned_value_parts [OF mantissa this] show ?thesis by (simp add: exponent_value_def)
qed

lemma int_of_padded: "int_of_decimal (replicate n CHR ''0'' @ nat_digits m) = int m"
  by simp

lemma exponent_text_value: "exponent_value (exponent_text e) = e"
  by (auto simp: exponent_value_def exponent_text_def Let_def)

lemma exponent_text_start: "exponent_text e = CHR ''e'' # drop 1 (exponent_text e)"
  by (simp add: exponent_text_def Let_def)

lemma unsigned_value_scientific:
  assumes "is_digit d" "list_all is_digit fraction"
  shows "unsigned_value (d # (if fraction = [] then [] else ''.'' @ fraction) @ exponent_text e) =
    of_int (int_of_decimal (d # fraction)) * power_int 10 (e - int (length fraction))"
proof -
  let ?m = "d # (if fraction = [] then [] else ''.'' @ fraction)"
  have "c \<noteq> CHR ''e''" if "c \<in> set ?m" for c
    using that assms by (cases "fraction = []") (auto simp: list_all_iff dest: digit_plain)
  then have mantissa: "takeWhile (\<lambda>c. c \<noteq> CHR ''e'') (?m @ exponent_text e) = ?m"
    by (subst takeWhile_append2) (auto simp: exponent_text_def Let_def simp del: set_simps)
  have "takeWhile (\<lambda>c. c \<noteq> CHR ''.'') ?m = [d]" using assms(1) digit_plain by (cases "fraction = []") auto
  from unsigned_value_parts [OF mantissa this] show ?thesis
    by (cases "fraction = []") (simp_all add: exponent_text_value)
qed

section \<open>The canonical text denotes the decimal\<close>

definition coefficient_value :: "string \<Rightarrow> int \<Rightarrow> rat" where
  "coefficient_value c e = of_int (int_of_decimal c) * power_int 10 (e + 1 - int (length c))"

lemma zeros_digit: "list_all is_digit (replicate n CHR ''0'')"
  by (rule list_all_replicate) (simp add: is_digit_def)

lemma int_of_trailing: "int_of_decimal (s @ replicate n CHR ''0'') = int_of_decimal s * 10 ^ n"
proof -
  have "int_of_decimal (replicate n CHR ''0'') = 0" using int_of_decimal_zeros [of n "[]"] by (simp add: int_of_decimal_def)
  then show ?thesis by (simp add: int_of_decimal_split)
qed

definition unsigned_notation :: "string \<Rightarrow> int \<Rightarrow> string" where
  "unsigned_notation c e = decimal_notation False c e"

lemma decimal_notation_sign:
  "decimal_notation True c e = CHR ''-'' # unsigned_notation c e" "decimal_notation False c e = unsigned_notation c e"
  by (simp_all add: unsigned_notation_def decimal_notation_def Let_def)

lemma unsigned_notation_value:
  assumes c: "is_ascii_decimal c"
  shows "unsigned_value (unsigned_notation c e) = coefficient_value c e"
proof -
  have digits: "list_all is_digit c" "c \<noteq> []" using c by (simp_all add: is_ascii_decimal_def)
  consider (small) "-4 \<le> e" "e + 1 \<le> 0" | (large) "e < 16" "0 < e + 1" "int (length c) \<le> e + 1"
    | (middle) "e < 16" "0 < e + 1" "e + 1 < int (length c)" | (scientific) "\<not> (-4 \<le> e \<and> e < 16)" by linarith
  then show ?thesis
  proof cases
    case small
    then have "unsigned_notation c e = ''0'' @ ''.'' @ (replicate (nat (- (e + 1))) CHR ''0'' @ c)"
      by (simp add: unsigned_notation_def decimal_notation_def Let_def)
    moreover have "int_of_decimal (''0'' @ replicate n CHR ''0'' @ c) = int_of_decimal c" for n
      using int_of_decimal_zeros [of "Suc n" c] by simp
    ultimately show ?thesis using small digits zeros_digit zeros_digit [of 1]
      by (simp add: unsigned_value_fixed [of "''0''", simplified] coefficient_value_def list_all_append algebra_simps)
  next
    case large
    let ?n = "nat (e + 1) - length c"
    have "unsigned_notation c e = (c @ replicate ?n CHR ''0'') @ ''.'' @ ''0''"
      using large by (simp add: unsigned_notation_def decimal_notation_def Let_def)
    moreover have "int_of_decimal ((c @ replicate ?n CHR ''0'') @ ''0'') = int_of_decimal c * 10 ^ Suc ?n"
      using int_of_trailing [of c "Suc ?n"] by (simp add: replicate_append_same)
    moreover have "power_int 10 (e + 1 - int (length c)) = (10 :: rat) ^ ?n"
      using large by (simp add: power_int_def nat_diff_distrib)
    moreover have "list_all is_digit ''0''" using zeros_digit [of 1] by simp
    ultimately show ?thesis using digits zeros_digit
      by (simp only: unsigned_value_fixed list_all_append) (simp add: coefficient_value_def power_int_minus)
  next
    case middle
    then have "unsigned_notation c e = take (nat (e + 1)) c @ ''.'' @ drop (nat (e + 1)) c"
      by (simp add: unsigned_notation_def decimal_notation_def Let_def)
    moreover have "int (length (drop (nat (e + 1)) c)) = int (length c) - (e + 1)" using middle by simp
    ultimately show ?thesis using list_all_parts [OF digits(1)]
      by (simp only: unsigned_value_fixed append_take_drop_id) (simp add: coefficient_value_def algebra_simps)
  next
    case scientific
    obtain d s where ds: "c = d # s" using digits(2) by (cases c) auto
    then have "unsigned_notation c e = d # (if s = [] then [] else ''.'' @ s) @ exponent_text e"
      using scientific by (auto simp: unsigned_notation_def decimal_notation_def Let_def)
    then show ?thesis using digits(1) unsigned_value_scientific [of d s e] by (simp add: ds coefficient_value_def)
  qed
qed

lemma unsigned_notation_start: "is_ascii_decimal c \<Longrightarrow> \<not> starts_with (unsigned_notation c e) ''-''"
proof -
  assume "is_ascii_decimal c"
  then obtain d s where "c = d # s" "is_digit d" by (cases c) (auto simp: is_ascii_decimal_def)
  then show ?thesis using digit_plain [of d]
    by (auto simp: unsigned_notation_def decimal_notation_def Let_def starts_with_def take_Cons' split: if_splits)
qed

text \<open>The value of a decimal, as \<^verbatim>\<open>as_tuple\<close> describes it.\<close>

definition digits_value :: "nat list \<Rightarrow> int" where
  "digits_value ds = foldl (\<lambda>a d. 10 * a + int d) 0 ds"

definition magnitude :: "nat list \<Rightarrow> int \<Rightarrow> rat" where
  "magnitude ds scale = of_int (digits_value ds) * power_int 10 scale"

definition significant :: "nat list \<Rightarrow> string" where
  "significant ds = dropWhile (\<lambda>c. c = CHR ''0'') (concat (map nat_digits ds))"

lemma decimal_text_zero:
  "significant ds = [] \<Longrightarrow> decimal_text (DecTuple negative ds scale) = Inr (if negative then ''-0.0'' else ''0.0'')"
  unfolding decimal_text.simps Let_def significant_def [symmetric] by simp

lemma decimal_text_nonzero:
  "significant ds \<noteq> [] \<Longrightarrow> decimal_text (DecTuple negative ds scale) =
     Inr (decimal_notation negative (strip_zeros_right (significant ds)) (scale + int (length (significant ds)) - 1))"
  unfolding decimal_text.simps Let_def significant_def [symmetric] by simp

declare decimal_text.simps(2) [simp del]

lemma significant_digits: "list_all is_digit (significant ds)"
  using nat_digits_decimal by (auto simp: significant_def is_ascii_decimal_def list_all_iff dest!: set_dropWhileD)

lemma significant_first: "significant ds \<noteq> [] \<Longrightarrow> hd (significant ds) \<noteq> CHR ''0''"
  unfolding significant_def by (drule hd_dropWhile) simp

lemma concat_digits: "\<forall>d\<in>set ds. d < 10 \<Longrightarrow> concat (map nat_digits ds) = map (\<lambda>d. char_of (48 + d)) ds"
  by (induction ds) (auto simp: nat_digits_small)

lemma digits_value_text: "\<forall>d\<in>set ds. d < 10 \<Longrightarrow> int_of_decimal (concat (map nat_digits ds)) = digits_value ds"
proof -
  assume ds: "\<forall>d\<in>set ds. d < 10"
  have "foldl (\<lambda>acc c. 10 * acc + (int (code_point c) - 48)) a (map (\<lambda>d. char_of (48 + d)) ds) = foldl (\<lambda>a d. 10 * a + int d) a ds" for a
    using ds by (induction ds arbitrary: a) auto
  then show ?thesis by (simp add: concat_digits [OF ds] int_of_decimal_def digits_value_def)
qed

lemma zeros_prefix: "\<exists>n. s = replicate n CHR ''0'' @ dropWhile (\<lambda>c. c = CHR ''0'') s"
proof (induction s)
  case (Cons c s)
  then obtain n where "s = replicate n CHR ''0'' @ dropWhile (\<lambda>c. c = CHR ''0'') s" by blast
  then show ?case by (cases "c = CHR ''0''") (auto intro: exI [of _ "Suc n"] exI [of _ 0])
qed simp

lemma zeros_suffix: "s = strip_zeros_right s @ replicate (length s - length (strip_zeros_right s)) CHR ''0''"
proof -
  obtain n where "rev s = replicate n CHR ''0'' @ dropWhile (\<lambda>c. c = CHR ''0'') (rev s)" using zeros_prefix by blast
  then have "rev (rev s) = strip_zeros_right s @ replicate n CHR ''0''" unfolding strip_zeros_right_def by (metis rev_append rev_replicate)
  then show ?thesis by simp (metis add_diff_cancel_left' length_append length_replicate)
qed

lemma significant_value: "\<forall>d\<in>set ds. d < 10 \<Longrightarrow> int_of_decimal (significant ds) = digits_value ds"
  using zeros_prefix [of "concat (map nat_digits ds)"] unfolding significant_def by (metis digits_value_text int_of_decimal_zeros)

lemma digit_value: "is_digit c \<Longrightarrow> int_of_decimal [c] = int (code_point c) - 48" "is_digit c \<Longrightarrow> 0 \<le> int (code_point c) - 48"
  by (simp_all add: int_of_decimal_def is_digit_def)

lemma int_of_decimal_nonneg: "list_all is_digit s \<Longrightarrow> 0 \<le> int_of_decimal s"
  by (induction s rule: rev_induct) (auto simp: int_of_decimal_def [of "[]"] dest: digit_value(2))

lemma int_of_decimal_pos: "list_all is_digit s \<Longrightarrow> s \<noteq> [] \<Longrightarrow> hd s \<noteq> CHR ''0'' \<Longrightarrow> 0 < int_of_decimal s"
proof (induction s rule: rev_induct)
  case (snoc c s)
  have "code_point c \<noteq> 48" if "c \<noteq> CHR ''0''" using that code_point_inject [of c "CHR ''0''"] by simp
  then show ?case using snoc digit_value(2) [of c] by (cases "s = []") (auto simp: int_of_decimal_def)
qed simp

lemma nat_digits_snoc: "0 < n \<Longrightarrow> k < 10 \<Longrightarrow> nat_digits (10 * n + k) = nat_digits n @ [char_of (48 + k)]"
  by (subst nat_digits_step) auto

lemma nat_digits_unique: "list_all is_digit s \<Longrightarrow> s \<noteq> [] \<Longrightarrow> hd s \<noteq> CHR ''0'' \<Longrightarrow> nat_digits (nat (int_of_decimal s)) = s"
proof (induction s rule: rev_induct)
  case (snoc c s)
  have c: "48 \<le> code_point c" "code_point c \<le> 57" "char_of (code_point c) = c" using snoc.prems(1) by (auto simp: is_digit_def code_point_def)
  show ?case
  proof (cases "s = []")
    case True
    then show ?thesis using c by (simp add: int_of_decimal_def nat_digits_small nat_diff_distrib)
  next
    case False
    then have s: "0 < int_of_decimal s" "nat_digits (nat (int_of_decimal s)) = s"
      using snoc by (auto intro: int_of_decimal_pos)
    let ?n = "nat (int_of_decimal s)"
    have "nat (int_of_decimal (s @ [c])) = 10 * ?n + (code_point c - 48)" using s(1) c by simp
    moreover have "nat_digits (10 * ?n + (code_point c - 48)) = nat_digits ?n @ [c]"
      using s(1) c nat_digits_snoc [of ?n "code_point c - 48"] by simp
    ultimately show ?thesis using s(2) by simp
  qed
qed simp

section \<open>The normal form of a decimal\<close>

definition coefficient_ok :: "string \<Rightarrow> bool" where
  "coefficient_ok c \<longleftrightarrow> is_ascii_decimal c \<and> hd c \<noteq> CHR ''0'' \<and> last c \<noteq> CHR ''0''"

lemma hd_dropWhile_not: "dropWhile P s \<noteq> [] \<Longrightarrow> \<not> P (hd (dropWhile P s))"
  by (rule hd_dropWhile) simp

lemma strip_zeros_right_nonempty: "s \<noteq> [] \<Longrightarrow> hd s \<noteq> CHR ''0'' \<Longrightarrow> strip_zeros_right s \<noteq> []"
  by (cases s) (auto simp: strip_zeros_right_def)

lemma coefficient_of_digits:
  fixes scale :: int
  assumes ds: "\<forall>d\<in>set ds. d < 10" and nz: "significant ds \<noteq> []"
  defines "c \<equiv> strip_zeros_right (significant ds)" and "e \<equiv> scale + int (length (significant ds)) - 1"
  shows "coefficient_ok c \<and> coefficient_value c e = magnitude ds scale"
proof -
  let ?s = "significant ds"
  have first: "hd ?s \<noteq> CHR ''0''" using significant_first [OF nz] .
  have digits: "list_all is_digit ?s" by (rule significant_digits)
  have c: "c \<noteq> []" unfolding c_def using strip_zeros_right_nonempty [OF nz first] .
  have s: "?s = c @ replicate (length ?s - length c) CHR ''0''" unfolding c_def by (rule zeros_suffix)
  then have "hd c \<noteq> CHR ''0''" using first c by (metis hd_append2)
  moreover have "last c \<noteq> CHR ''0''" using c hd_dropWhile_not [of "\<lambda>c. c = CHR ''0''" "rev ?s"]
    by (simp add: c_def strip_zeros_right_def last_rev)
  moreover have "list_all is_digit c" using digits s by (metis list_all_append)
  ultimately have "coefficient_ok c" using c by (simp add: coefficient_ok_def is_ascii_decimal_def)
  moreover have "coefficient_value c e = magnitude ds scale"
  proof -
    let ?n = "length ?s - length c"
    have len: "length ?s = length c + ?n" using arg_cong [OF s, of length] by simp
    have "digits_value ds = int_of_decimal c * 10 ^ ?n" using significant_value [OF ds] int_of_trailing [of c ?n] s by simp
    moreover have "e + 1 - int (length c) = int ?n + scale" using len unfolding e_def by linarith
    then have "power_int 10 (e + 1 - int (length c)) = (10::rat) ^ ?n * power_int 10 scale" by (simp add: power_int_add)
    ultimately show ?thesis by (simp add: coefficient_value_def magnitude_def)
  qed
  ultimately show ?thesis ..
qed

lemma last_digit: "coefficient_ok c \<Longrightarrow> \<not> 10 dvd int_of_decimal c"
proof -
  assume c: "coefficient_ok c"
  then obtain s d where sd: "c = s @ [d]" by (cases c rule: rev_cases) (auto simp: coefficient_ok_def is_ascii_decimal_def)
  have d: "is_digit d" "d \<noteq> CHR ''0''" using c sd by (auto simp: coefficient_ok_def is_ascii_decimal_def)
  then have "1 \<le> int (code_point d) - 48" "int (code_point d) - 48 \<le> 9"
    using code_point_inject [of d "CHR ''0''"] by (auto simp: is_digit_def)
  then show ?thesis by (simp add: sd) presburger
qed

lemma scaled_unique:
  fixes m n :: int
  assumes "of_int m * power_int 10 a = (of_int n * power_int 10 b :: rat)" "\<not> 10 dvd m" "\<not> 10 dvd n"
  shows "m = n \<and> a = b"
proof -
  have step: "m = n \<and> a = b" if "of_int m * power_int 10 a = (of_int n * power_int 10 b :: rat)" "\<not> 10 dvd m" "a \<le> b" for m n a b
  proof -
    let ?k = "nat (b - a)"
    have "power_int 10 b = power_int 10 a * (10::rat) ^ ?k" using that(3) by (simp add: power_int_add [symmetric] flip: power_int_of_nat)
    then have "of_int m = (of_int (n * 10 ^ ?k) :: rat)" using that(1) by simp
    then have "m = n * 10 ^ ?k" by (simp only: of_int_eq_iff)
    moreover have "?k = 0" using that(2) \<open>m = n * 10 ^ ?k\<close> by (cases ?k) auto
    ultimately show ?thesis using that(3) by simp
  qed
  show ?thesis using step [of m a n b] step [of n b m a] assms by (cases "a \<le> b") auto
qed

lemma coefficient_unique:
  assumes "coefficient_ok c" "coefficient_ok d" "coefficient_value c e = coefficient_value d f"
  shows "c = d \<and> e = f"
proof -
  have "int_of_decimal c = int_of_decimal d" and a: "e + 1 - int (length c) = f + 1 - int (length d)"
    using scaled_unique [OF assms(3) [unfolded coefficient_value_def] last_digit [OF assms(1)] last_digit [OF assms(2)]] by simp_all
  moreover have "nat_digits (nat (int_of_decimal c)) = c" "nat_digits (nat (int_of_decimal d)) = d"
    using assms(1,2) by (auto simp: coefficient_ok_def is_ascii_decimal_def intro: nat_digits_unique)
  ultimately have "c = d" by metis
  then show ?thesis using a by simp
qed

lemma significant_zero: "\<forall>d\<in>set ds. d < 10 \<Longrightarrow> significant ds = [] \<longleftrightarrow> digits_value ds = 0"
proof
  assume ds: "\<forall>d\<in>set ds. d < 10"
  show "digits_value ds = 0" if "significant ds = []" using significant_value [OF ds] that by (simp add: int_of_decimal_def)
  show "significant ds = []" if "digits_value ds = 0"
  proof (rule ccontr)
    assume "significant ds \<noteq> []"
    from int_of_decimal_pos [OF significant_digits this significant_first [OF this]] show False
      using significant_value [OF ds] that by simp
  qed
qed

lemma notation_value:
  "coefficient_ok c \<Longrightarrow> text_value (decimal_notation negative c e) = (if negative then - coefficient_value c e else coefficient_value c e)"
  using unsigned_notation_value [of c e] unsigned_notation_start [of c e]
  by (cases negative) (auto simp: decimal_notation_sign text_value_sign coefficient_ok_def)

lemma notation_negative: "coefficient_ok c \<Longrightarrow> starts_with (decimal_notation negative c e) ''-'' \<longleftrightarrow> negative"
  using unsigned_notation_start [of c e] by (cases negative) (auto simp: decimal_notation_sign coefficient_ok_def starts_with_def)

lemma zero_text_value: "text_value ''0.0'' = 0" "text_value ''-0.0'' = 0"
  by (simp_all add: text_value_def starts_with_def Let_def int_of_decimal_def exponent_value_def)

text \<open>What the text of a decimal denotes, and its sign.\<close>

lemma decimal_text_value:
  assumes "\<forall>d\<in>set ds. d < 10"
  shows "\<exists>t. decimal_text (DecTuple negative ds scale) = Inr t \<and>
    text_value t = (if negative then - magnitude ds scale else magnitude ds scale) \<and> (starts_with t ''-'' \<longleftrightarrow> negative)"
proof (cases "significant ds = []")
  case True
  then have "magnitude ds scale = 0" using significant_zero [OF assms] by (simp add: magnitude_def)
  then show ?thesis using decimal_text_zero [OF True] zero_text_value by (auto simp: starts_with_def)
next
  case False
  note c = coefficient_of_digits [OF assms False, of scale]
  then show ?thesis using decimal_text_nonzero [OF False] notation_value notation_negative by auto
qed

lemma decimal_text_same:
  assumes ds: "\<forall>d\<in>set ds. d < 10" "\<forall>d\<in>set ds'. d < 10" and eq: "magnitude ds scale = magnitude ds' scale'"
  shows "decimal_text (DecTuple negative ds scale) = decimal_text (DecTuple negative ds' scale')"
proof (cases "significant ds = []")
  case True
  then have "magnitude ds' scale' = 0" using significant_zero [OF ds(1)] eq by (simp add: magnitude_def)
  then have "significant ds' = []" using significant_zero [OF ds(2)] by (simp add: magnitude_def)
  then show ?thesis using decimal_text_zero True by simp
next
  case False
  then have "magnitude ds scale \<noteq> 0" using significant_zero [OF ds(1)] by (simp add: magnitude_def)
  then have nz: "significant ds' \<noteq> []" using significant_zero [OF ds(2)] eq by (auto simp: magnitude_def)
  from coefficient_of_digits [OF ds(1) False, of scale] coefficient_of_digits [OF ds(2) nz, of scale']
  have "strip_zeros_right (significant ds) = strip_zeros_right (significant ds') \<and>
      scale + int (length (significant ds)) - 1 = scale' + int (length (significant ds')) - 1"
    using eq by (intro coefficient_unique) simp_all
  then show ?thesis by (simp only: decimal_text_nonzero [OF False] decimal_text_nonzero [OF nz])
qed

end
