(* ===== verification/Canonical_Props.thy ===== *)
theory Canonical_Props
  imports Canonical_Decimal
begin

text \<open>
  The properties of canonical JSON: the encoder implements the specification and prints what the
  direct printer prints, the text identifies the value and does not depend on the order of the
  members, integers and decimals are printed exactly, and the native extension never changes a
  result.
\<close>

section \<open>Reordered values\<close>

text \<open>The same value with the members of its mappings in another order, at any depth.\<close>

inductive reordered :: "json_arg \<Rightarrow> json_arg \<Rightarrow> bool" where
  leaf: "reordered (ArgLeaf l) (ArgLeaf l)"
| list: "list_all2 reordered xs ys \<Longrightarrow> reordered (ArgList ident xs) (ArgList ident ys)"
| tuple: "list_all2 reordered xs ys \<Longrightarrow> reordered (ArgTuple ident xs) (ArgTuple ident ys)"
| mapping: "list_all2 (\<lambda>p q. fst p = fst q \<and> reordered (snd p) (snd q)) items items' \<Longrightarrow> mset items'' = mset items' \<Longrightarrow>
    reordered (ArgMapping ident items) (ArgMapping ident items'')"

lemma sort_same_members: "mset xs = mset ys \<Longrightarrow> distinct (map fst ys) \<Longrightarrow> sort_key fst xs = sort_key fst ys"
  for xs :: "('k::linorder \<times> 'v) list"
  by (rule sort_key_inj_key_eq) (auto simp: distinct_map dest: mset_eq_setD)

lemma has_form_permuted:
  assumes "map fst items = map (\<lambda>k. ArgLeaf (LStr k)) ks" "distinct ks" "list_all2 (\<lambda>p f. P (snd p) f) items fs"
    and perm: "mset items' = mset items"
  shows "\<exists>ks' fs'. map fst items' = map (\<lambda>k. ArgLeaf (LStr k)) ks' \<and> distinct ks' \<and> list_all2 (\<lambda>p f. P (snd p) f) items' fs' \<and>
    sort_key fst (zip ks' fs') = sort_key fst (zip ks fs)"
proof -
  let ?key = "\<lambda>p. key_text (fst p)" and ?form = "\<lambda>p. the (map_of (zip ks fs) (key_text (fst p)))"
  have ks: "ks = map ?key items" using arg_cong [OF assms(1), of "map key_text"] by (simp add: comp_def)
  have len: "length items = length fs" "length ks = length fs"
    using assms(3) by (auto simp: ks list_all2_lengthD)
  have form: "?form (items ! i) = fs ! i" "fst (items ! i) = ArgLeaf (LStr (ks ! i))" if "i < length items" for i
  proof -
    show "fst (items ! i) = ArgLeaf (LStr (ks ! i))" using arg_cong [OF assms(1), of "\<lambda>xs. xs ! i"] that len by simp
    then show "?form (items ! i) = fs ! i" using map_of_zip_nth [OF len(2) assms(2), of i] that len by simp
  qed
  have fs: "fs = map ?form items" using len form(1) by (simp add: list_eq_iff_nth_eq)
  have set: "set items' = set items" using perm by (rule mset_eq_setD)
  have "fst p = ArgLeaf (LStr (?key p))" if "p \<in> set items'" for p
  proof -
    obtain i where "i < length items" "p = items ! i" using \<open>p \<in> set items'\<close> unfolding set by (auto simp: in_set_conv_nth)
    then show ?thesis using form(2) [of i] by simp
  qed
  then have keys: "map fst items' = map (\<lambda>k. ArgLeaf (LStr k)) (map ?key items')" by simp
  have "mset (map ?key items') = mset ks" unfolding ks mset_map perm ..
  then have distinct_keys: "distinct (map ?key items')" using assms(2) by (metis mset_eq_imp_distinct_iff)
  have "P (snd p) (?form p)" if "p \<in> set items'" for p
    using that set form(1) assms(3) by (auto simp: in_set_conv_nth list_all2_conv_all_nth)
  then have forms: "list_all2 (\<lambda>p f. P (snd p) f) items' (map ?form items')" by (simp add: list_all2_conv_all_nth)
  have "zip ks fs = map (\<lambda>p. (?key p, ?form p)) items"
    using zip_maps [of ?key items ?form] by (simp only: ks [symmetric] fs [symmetric])
  from arg_cong [OF this, of mset] have "mset (zip (map ?key items') (map ?form items')) = mset (zip ks fs)"
    by (simp add: zip_maps perm)
  from sort_same_members [OF this] have "sort_key fst (zip (map ?key items') (map ?form items')) = sort_key fst (zip ks fs)"
    using assms(2) len(2) by simp
  then show ?thesis using keys distinct_keys forms by blast
qed

lemma reordered_form:
  "reordered v w \<Longrightarrow> has_form float_repr reject depth A v f \<Longrightarrow> has_form float_repr reject depth A w f"
proof (induction arbitrary: depth A f rule: reordered.induct)
  case (list xs ys ident)
  from list(2) obtain fs where fs: "f = FormList fs" "depth \<le> MAX_CANONICAL_JSON_DEPTH" "ident \<notin> A"
      "list_all2 (has_form float_repr reject (depth + 1) (insert ident A)) xs fs" by (rule has_form_listE) auto
  have "list_all2 (has_form float_repr reject (depth + 1) (insert ident A)) ys fs"
    using list(1) fs(4) by (auto simp: list_all2_conv_all_nth)
  then show ?case using fs has_form.list by auto
next
  case (tuple xs ys ident)
  from tuple(2) obtain fs where fs: "f = FormList fs" "depth \<le> MAX_CANONICAL_JSON_DEPTH" "ident \<notin> A" "\<not> reject"
      "list_all2 (has_form float_repr reject (depth + 1) (insert ident A)) xs fs" by (rule has_form_tupleE) auto
  have "list_all2 (has_form float_repr reject (depth + 1) (insert ident A)) ys fs"
    using tuple(1) fs(5) by (auto simp: list_all2_conv_all_nth)
  then show ?case using fs has_form.tuple by auto
next
  case (mapping items items' items'' ident)
  from mapping(3) obtain ks fs where f: "f = FormObject (sort_key fst (zip ks fs))"
      and ok: "depth \<le> MAX_CANONICAL_JSON_DEPTH" "ident \<notin> A" "map fst items = map (\<lambda>k. ArgLeaf (LStr k)) ks" "distinct ks"
      and fs: "list_all2 (\<lambda>p f. has_form float_repr reject (depth + 1) (insert ident A) (snd p) f) items fs"
    by (rule has_form_mappingE) auto
  have "list_all2 (\<lambda>p f. has_form float_repr reject (depth + 1) (insert ident A) (snd p) f) items' fs"
    using mapping(1) fs by (auto simp: list_all2_conv_all_nth)
  moreover have "map fst items' = map (\<lambda>k. ArgLeaf (LStr k)) ks"
    using mapping(1) ok(3) by (auto simp: list_all2_conv_all_nth list_eq_iff_nth_eq)
  ultimately obtain ks' fs' where "map fst items'' = map (\<lambda>k. ArgLeaf (LStr k)) ks'" "distinct ks'"
      "list_all2 (\<lambda>p f. has_form float_repr reject (depth + 1) (insert ident A) (snd p) f) items'' fs'"
      "sort_key fst (zip ks' fs') = sort_key fst (zip ks fs)"
    using has_form_permuted [OF _ ok(4) _ mapping(2)] by blast
  then show ?case using has_form.mapping [OF ok(1,2)] f by metis
qed simp

section \<open>The encoder\<close>

text \<open>A notation of floats for the examples.\<close>

definition sample_repr :: "64 word \<Rightarrow> string" where
  "sample_repr w = int_text (sint w) @ ''.0''"

lemma sample_repr_real: "repr_real sample_repr"
  using int_text_number(1) by (auto simp: repr_real_def real_token_def sample_repr_def)

definition sample_json :: json_arg where
  "sample_json = ArgMapping 1 [(ArgLeaf (LStr ''b''), ArgList 2 [ArgLeaf (LInt 7)]),
     (ArgLeaf (LStr ''a''), ArgLeaf (LDecimal (DecTuple False [2, 5] (-1))))]"

definition sample_form :: json_form where
  "sample_form = FormObject [(''a'', FormReal ''2.5''), (''b'', FormList [FormInt 7])]"

lemma small_in_range: "\<bar>i\<bar> < 1000 \<Longrightarrow> \<not> integer_out_of_range i"
proof -
  have "(10::int) ^ 3 \<le> max_canonical_integer_magnitude"
    unfolding max_canonical_integer_magnitude_def by (rule power_increasing) simp_all
  then show "\<bar>i\<bar> < 1000 \<Longrightarrow> \<not> integer_out_of_range i" by (auto simp: integer_out_of_range_def)
qed

lemma sample_decimal: "decimal_text (DecTuple False [2, 5] (-1)) = Inr ''2.5''"
  by code_simp

lemma sample_members:
  "list_all2 (\<lambda>p f. has_form sample_repr False 1 {1} (snd p) f)
     [(ArgLeaf (LStr ''b''), ArgList 2 [ArgLeaf (LInt 7)]), (ArgLeaf (LStr ''a''), ArgLeaf (LDecimal (DecTuple False [2, 5] (-1))))]
     [FormList [FormInt 7], FormReal ''2.5'']"
proof -
  have "has_form sample_repr False 2 {1, 2} (ArgLeaf (LInt 7)) (FormInt 7)"
    by (rule has_form.leaf) (simp_all add: small_in_range)
  then have "has_form sample_repr False 1 {1} (ArgList 2 [ArgLeaf (LInt 7)]) (FormList [FormInt 7])"
    by (intro has_form.list) (simp_all add: insert_commute numeral_2_eq_2)
  moreover have "has_form sample_repr False 1 {1} (ArgLeaf (LDecimal (DecTuple False [2, 5] (-1)))) (FormReal ''2.5'')"
    by (rule has_form.leaf) (simp_all add: sample_decimal)
  ultimately show ?thesis by simp
qed

lemma sample_has_form: "has_form sample_repr False 0 {} sample_json sample_form"
proof -
  have "sort_key fst (zip [''b'', ''a''] [FormList [FormInt 7], FormReal ''2.5'']) =
      [(''a'', FormReal ''2.5''), (''b'', FormList [FormInt 7])]"
    by code_simp
  then show ?thesis unfolding sample_json_def sample_form_def
    using has_form.mapping [of 0 1 "{}" _ "[''b'', ''a'']" sample_repr False "[FormList [FormInt 7], FormReal ''2.5'']"] sample_members by simp
qed

text \<open>
  C6: the reference encoder implements the specification: it returns a text exactly when the
  value has a form, and the text is the text of the form.
\<close>

theorem canonical_dumps_implements_spec:
  assumes "repr_real float_repr"
  shows "canonical_dumps_reference float_repr v = Inr t \<longleftrightarrow> (\<exists>f. has_form float_repr False 0 {} v f \<and> t = form_text f)"
  by (simp add: canonical_dumps_form [OF assms] canonical_form_spec)

theorem canonical_dumps_implements_spec_witness:
  "repr_real sample_repr \<and> canonical_dumps_reference sample_repr sample_json = Inr (form_text sample_form)"
  using canonical_dumps_implements_spec [OF sample_repr_real, of sample_json "form_text sample_form"] sample_has_form sample_repr_real
  by blast

text \<open>
  C7: encoding through placeholder strings, and finding them again in the encoded text, gives the
  text that printing the decimals and integers in place gives.
\<close>

theorem encoder_prints_directly:
  assumes "repr_plain float_repr"
  shows "canonical_dumps_with float_repr reject v = Inr t \<longleftrightarrow> reference_text float_repr reject v = Inr t"
  by (rule canonical_dumps_direct [OF assms])

theorem encoder_prints_directly_witness:
  "repr_plain sample_repr \<and>
   canonical_dumps_with sample_repr False (ArgLeaf (LDecimal (DecTuple False [2, 5] (-1)))) = Inr ''2.5''"
proof -
  have "reference_text sample_repr False (ArgLeaf (LDecimal (DecTuple False [2, 5] (-1)))) = Inr ''2.5''"
    by (simp add: reference_text_def direct_text_def note_leaf_def sample_decimal)
  then show ?thesis using encoder_prints_directly [OF repr_real_plain [OF sample_repr_real]] repr_real_plain [OF sample_repr_real] by blast
qed

text \<open>
  C18: the text identifies the value: two values that can be encoded have the same text exactly
  when they have the same form, so that equal digests of a collision-free hash mean equal values.
\<close>

theorem canonical_text_identifies:
  assumes "repr_real float_repr" "canonical_dumps_reference float_repr v = Inr t" "canonical_dumps_reference float_repr w = Inr u"
  shows "t = u \<longleftrightarrow> (\<exists>f. has_form float_repr False 0 {} v f \<and> has_form float_repr False 0 {} w f)"
proof -
  obtain f g where f: "canonical_form float_repr v = Inr f" "t = form_text f" and g: "canonical_form float_repr w = Inr g" "u = form_text g"
    using assms(2,3) canonical_dumps_form [OF assms(1)] by auto
  have "t = u \<longleftrightarrow> f = g" using form_text_inject canonical_form_ok [OF assms(1)] f g by simp
  then show ?thesis using f(1) g(1) by (auto simp: canonical_form_spec [symmetric])
qed

theorem canonical_text_identifies_witness:
  "canonical_dumps_reference sample_repr (ArgLeaf (LBool True)) = Inr ''true'' \<and>
   canonical_dumps_reference sample_repr (ArgLeaf LNone) = Inr ''null'' \<and>
   \<not> (\<exists>f. has_form sample_repr False 0 {} (ArgLeaf (LBool True)) f \<and> has_form sample_repr False 0 {} (ArgLeaf LNone) f)"
proof -
  have "canonical_dumps_reference sample_repr (ArgLeaf (LBool True)) = Inr ''true''"
    "canonical_dumps_reference sample_repr (ArgLeaf LNone) = Inr ''null''" by code_simp+
  then show ?thesis using canonical_text_identifies [OF sample_repr_real] by fastforce
qed

text \<open>
  The order in which mappings list their members, at any depth, does not change the text.
\<close>

theorem canonical_order_independent:
  assumes "repr_real float_repr" "reordered v w" "canonical_dumps_reference float_repr v = Inr t"
  shows "canonical_dumps_reference float_repr w = Inr t"
proof -
  obtain f where "has_form float_repr False 0 {} v f" "t = form_text f"
    using assms(3) canonical_dumps_form [OF assms(1)] by (auto simp: canonical_form_spec)
  then have "canonical_form float_repr w = Inr f" "t = form_text f"
    using reordered_form [OF assms(2)] by (simp_all add: canonical_form_spec)
  then show ?thesis using canonical_dumps_form [OF assms(1), of w t] by blast
qed

theorem canonical_order_independent_witness:
  "canonical_dumps_reference sample_repr
     (ArgMapping 1 [(ArgLeaf (LStr ''b''), ArgLeaf LNone), (ArgLeaf (LStr ''a''), ArgLeaf LNone)]) =
   canonical_dumps_reference sample_repr
     (ArgMapping 1 [(ArgLeaf (LStr ''a''), ArgLeaf LNone), (ArgLeaf (LStr ''b''), ArgLeaf LNone)])"
proof -
  let ?a = "(ArgLeaf (LStr ''a''), ArgLeaf LNone)" and ?b = "(ArgLeaf (LStr ''b''), ArgLeaf LNone)"
  have "reordered (ArgMapping 1 [?a, ?b]) (ArgMapping 1 [?b, ?a])"
    by (rule reordered.mapping [of "[?a, ?b]" "[?a, ?b]"]) (auto intro: reordered.leaf)
  moreover have "has_form sample_repr False 0 {} (ArgMapping 1 [?a, ?b]) (FormObject (sort_key fst (zip [''a'', ''b''] [FormNull, FormNull])))"
    by (rule has_form.mapping) (auto intro!: has_form.leaf)
  then obtain t where "canonical_dumps_reference sample_repr (ArgMapping 1 [?a, ?b]) = Inr t"
    using canonical_dumps_form [OF sample_repr_real] by (auto simp: canonical_form_spec)
  ultimately show ?thesis using canonical_order_independent [OF sample_repr_real] by metis
qed

section \<open>Numbers\<close>

text \<open>
  The integer codec works in chunks of nine digits and agrees with the plain decimal
  notation; an integer within the limit survives the round trip, and one beyond it is refused.
\<close>

theorem integer_codec_roundtrip:
  "if integer_out_of_range i then format_integer i = Inl CanonicalValueError
   else format_integer i = Inr (int_text i) \<and> parse_integer (int_text i) = Inr i"
  by (simp add: format_integer_text parse_int_text)

text \<open>
  C23: the text of a decimal denotes its value, and two decimals have the same text exactly when
  they have the same sign and the same value, however they were written.
\<close>

theorem decimal_text_canonical:
  assumes "\<forall>d\<in>set ds. d < 10" "\<forall>d\<in>set ds'. d < 10"
  shows "(\<exists>t. decimal_text (DecTuple negative ds scale) = Inr t \<and>
      text_value t = (if negative then - magnitude ds scale else magnitude ds scale)) \<and>
    (decimal_text (DecTuple negative ds scale) = decimal_text (DecTuple negative' ds' scale') \<longleftrightarrow>
      negative = negative' \<and> magnitude ds scale = magnitude ds' scale')"
proof -
  obtain t where t: "decimal_text (DecTuple negative ds scale) = Inr t"
    "text_value t = (if negative then - magnitude ds scale else magnitude ds scale)" "starts_with t ''-'' \<longleftrightarrow> negative"
    using decimal_text_value [OF assms(1)] by blast
  obtain u where u: "decimal_text (DecTuple negative' ds' scale') = Inr u"
    "text_value u = (if negative' then - magnitude ds' scale' else magnitude ds' scale')" "starts_with u ''-'' \<longleftrightarrow> negative'"
    using decimal_text_value [OF assms(2)] by blast
  show ?thesis using t u decimal_text_same [OF assms] by (auto split: if_splits)
qed

theorem decimal_text_canonical_witness:
  "magnitude [1, 5, 0] (-2) = magnitude [1, 5] (-1) \<and> decimal_text (DecTuple False [1, 5, 0] (-2)) = decimal_text (DecTuple False [1, 5] (-1))"
proof -
  have "magnitude [1, 5, 0] (-2) = magnitude [1, 5] (-1)" by (simp add: magnitude_def digits_value_def power_int_def power2_eq_square)
  then show ?thesis using decimal_text_canonical [of "[1, 5, 0]" "[1, 5]" False "-2" False "-1"] by simp
qed

section \<open>The native boundary\<close>

text \<open>
  The public functions return what the Python reference computes or raise: a text or a digest
  that the native extension returns is never passed on when it differs from the reference, and a
  value that the reference refuses is refused with the same error.
\<close>

theorem native_agrees_with_reference:
  "(case canonical_dumps_reference float_repr v of
      Inl e \<Rightarrow> canonical_dumps runtime float_repr v = Inl e \<and> canonical_hash runtime float_repr sha256_hex v = Inl e
    | Inr text \<Rightarrow>
        canonical_dumps runtime float_repr v \<in>
          {Inr text, Inl NativeCanonicalUnavailableError, Inl NativeCanonicalContractError} \<and>
        canonical_hash runtime float_repr sha256_hex v \<in>
          {canonical_hash_reference float_repr sha256_hex v, Inl NativeCanonicalUnavailableError, Inl NativeCanonicalContractError})"
proof -
  have "native_canonical_callable runtime name = Inl e \<Longrightarrow> e = NativeCanonicalUnavailableError" for name e
    by (auto simp: native_canonical_callable_def split: option.splits if_splits)
  then show ?thesis
    by (auto simp: canonical_dumps_def canonical_hash_def canonical_hash_reference_def bind_sum_def
      split: sum.splits native_result.splits)
qed

end
