(* ===== verification/Usage.thy ===== *)
theory Usage
  imports Budget_Amounts Canonical
begin

text \<open>
  The in-memory usage ledger of \<^verbatim>\<open>usage.py\<close>: usage records with their validation, the append-only
  table with its protection against repeated provider responses, reconciliation, and totals.
  Amounts are the \<^verbatim>\<open>UsageAmount\<close> of the budget ledger; metadata are values of canonical JSON, which
  must have a canonical text. The datetime check is that of budget permits, line by line.
\<close>

section \<open>Metadata\<close>

datatype usage_error =
    UsageValueError
  | UsageKeyError
  | UsageRecordNotFoundError
  | UsageRecordConflictError

fun as_usage_error :: "'e + 'a \<Rightarrow> usage_error + 'a" where
  "as_usage_error (Inl e) = Inl UsageValueError"
| "as_usage_error (Inr a) = Inr a"

definition validate_usage_identity :: "pyval \<Rightarrow> usage_error + string" where
  "validate_usage_identity v = as_usage_error (budget_string v)"

text \<open>
  The copy of metadata into dictionaries and lists. A mapping presents its items; errors of either
  class are turned into one by the caller.
\<close>

function (sequential) mutable_usage_metadata :: "nat \<Rightarrow> nat set \<Rightarrow> json_arg \<Rightarrow> usage_error + json_copy"
and mutable_usage_items :: "nat \<Rightarrow> nat set \<Rightarrow> (json_arg \<times> json_arg) list \<Rightarrow> (string, json_copy) dict \<Rightarrow> usage_error + (string, json_copy) dict"
and mutable_usage_list :: "nat \<Rightarrow> nat set \<Rightarrow> json_arg list \<Rightarrow> usage_error + json_copy list" where
  "mutable_usage_metadata depth active v =
     (if MAX_CANONICAL_JSON_DEPTH < depth then Inl UsageValueError
      else case v of
        ArgMapping ident items \<Rightarrow>
          if ident \<in> active then Inl UsageValueError
          else bind_sum (mutable_usage_items (depth + 1) (insert ident active) items []) (\<lambda>snapshot. Inr (CopyDict snapshot))
      | ArgList ident xs \<Rightarrow>
          if ident \<in> active then Inl UsageValueError
          else bind_sum (mutable_usage_list (depth + 1) (insert ident active) xs) (\<lambda>ys. Inr (CopyList ys))
      | ArgTuple ident xs \<Rightarrow>
          if ident \<in> active then Inl UsageValueError
          else bind_sum (mutable_usage_list (depth + 1) (insert ident active) xs) (\<lambda>ys. Inr (CopyList ys))
      | ArgLeaf l \<Rightarrow> Inr (CopyLeaf l))"
| "mutable_usage_items depth active [] snapshot = Inr snapshot"
| "mutable_usage_items depth active ((ArgLeaf (LStr key), child) # items) snapshot =
     (if map_of snapshot key \<noteq> None then Inl UsageValueError
      else bind_sum (mutable_usage_metadata depth active child) (\<lambda>copy.
        mutable_usage_items depth active items (dict_set key copy snapshot)))"
| "mutable_usage_items depth active (_ # items) snapshot = Inl UsageValueError"
| "mutable_usage_list depth active [] = Inr []"
| "mutable_usage_list depth active (x # xs) =
     bind_sum (mutable_usage_metadata depth active x) (\<lambda>y.
     bind_sum (mutable_usage_list depth active xs) (\<lambda>ys. Inr (y # ys)))"
  by pat_completeness auto

termination
  by (relation "measure (\<lambda>x. case x of
      Inl (depth, active, v) \<Rightarrow> size v
    | Inr (Inl (depth, active, items, snapshot)) \<Rightarrow> size_list (size_prod size size) items
    | Inr (Inr (depth, active, xs)) \<Rightarrow> size_list size xs)") (auto simp: size_prod_def)

declare mutable_usage_metadata.simps [simp del]

text \<open>
  \<^verbatim>\<open>==\<close> on frozen metadata: numbers compare by value whatever their type, mappings regardless of
  order. Values that have a canonical text hold no other numbers than finite ones.
\<close>

definition float_value :: "64 word \<Rightarrow> rat" where
  "float_value w =
     (let exponent = unat (drop_bit 52 w AND 2047); mantissa = of_nat (unat (w AND (2 ^ 52 - 1)));
          size = (if exponent = 0 then mantissa / 2 ^ 1074 else (mantissa + 2 ^ 52) * 2 ^ exponent / 2 ^ 1075)
      in if bit w 63 then - size else size)"

definition decimal_value :: "bool \<Rightarrow> nat list \<Rightarrow> int \<Rightarrow> rat" where
  "decimal_value negative ds scale =
     (let size = of_nat (foldl (\<lambda>n d. 10 * n + d) 0 ds) * 10 powi scale in if negative then - size else size)"

fun leaf_number :: "json_leaf \<Rightarrow> rat option" where
  "leaf_number (LBool b) = Some (if b then 1 else 0)"
| "leaf_number (LInt i) = Some (of_int i)"
| "leaf_number (LFloat w) = (if float_finite w then Some (float_value w) else None)"
| "leaf_number (LDecimal (DecTuple negative ds scale)) = Some (decimal_value negative ds scale)"
| "leaf_number _ = None"

function (sequential) metadata_eq :: "json_copy \<Rightarrow> json_copy \<Rightarrow> bool"
and metadata_eq_list :: "json_copy list \<Rightarrow> json_copy list \<Rightarrow> bool"
and metadata_eq_items :: "(string \<times> json_copy) list \<Rightarrow> (string \<times> json_copy) list \<Rightarrow> bool" where
  "metadata_eq (CopyLeaf a) (CopyLeaf b) = (if leaf_number a = None then a = b else leaf_number a = leaf_number b)"
| "metadata_eq (CopyList xs) (CopyList ys) = metadata_eq_list xs ys"
| "metadata_eq (CopyDict d) (CopyDict e) = (length d = length e \<and> metadata_eq_items d e)"
| "metadata_eq _ _ = False"
| "metadata_eq_list [] [] = True"
| "metadata_eq_list (x # xs) (y # ys) = (metadata_eq x y \<and> metadata_eq_list xs ys)"
| "metadata_eq_list _ _ = False"
| "metadata_eq_items [] e = True"
| "metadata_eq_items ((k, v) # d) e = ((case map_of e k of None \<Rightarrow> False | Some w \<Rightarrow> metadata_eq v w) \<and> metadata_eq_items d e)"
  by pat_completeness auto

termination
  by (relation "measure (\<lambda>x. case x of
      Inl (c, e) \<Rightarrow> size c
    | Inr (Inl (xs, ys)) \<Rightarrow> size_list size xs
    | Inr (Inr (d, e)) \<Rightarrow> size_list (size_prod (\<lambda>_. 0) size) d)") (auto simp: size_prod_def)

section \<open>Records\<close>

datatype usage_source = ProviderReported | RuntimeMeasured | TokenizerEstimated | PricingEstimated | Reconciled

datatype usage_confidence = Exact | ProviderExact | Estimated | UnknownConfidence

definition VALID_USAGE_SOURCES :: "(string, usage_source) dict" where
  "VALID_USAGE_SOURCES =
     [(''provider_reported'', ProviderReported), (''runtime_measured'', RuntimeMeasured),
      (''tokenizer_estimated'', TokenizerEstimated), (''pricing_estimated'', PricingEstimated), (''reconciled'', Reconciled)]"

definition VALID_USAGE_CONFIDENCES :: "(string, usage_confidence) dict" where
  "VALID_USAGE_CONFIDENCES =
     [(''exact'', Exact), (''provider_exact'', ProviderExact), (''estimated'', Estimated), (''unknown'', UnknownConfidence)]"

definition usage_choice :: "(string, 'a) dict \<Rightarrow> pyval \<Rightarrow> usage_error + 'a" where
  "usage_choice choices v =
     (case v of PyStr s \<Rightarrow> (case map_of choices s of None \<Rightarrow> Inl UsageValueError | Some x \<Rightarrow> Inr x) | _ \<Rightarrow> Inl UsageValueError)"

text \<open>The arguments of the constructor, and the record it builds.\<close>

record usage_fields =
  field_record_id :: pyval
  field_source :: pyval
  field_confidence :: pyval
  field_amounts :: amounts_arg
  field_occurred_at :: pyval
  field_run_id :: pyval
  field_attempt_id :: pyval
  field_provider_response_id :: pyval
  field_pricing_ref :: pyval
  field_quota_window_id :: pyval
  field_execution_scope :: pyval
  field_reconciliation_of :: pyval
  field_metadata :: json_arg

record usage_record =
  usage_record_id :: string
  usage_source :: usage_source
  usage_confidence :: usage_confidence
  usage_amounts :: "usage_amount list"
  occurred_at :: string
  usage_run_id :: "string option"
  usage_attempt_id :: "string option"
  provider_response_id :: "string option"
  pricing_ref :: "string option"
  quota_window_id :: "string option"
  execution_scope :: "string option"
  reconciliation_of :: "string option"
  usage_metadata :: "(string, json_copy) dict"

definition usage_datetime :: "(string \<Rightarrow> rat option) \<Rightarrow> pyval \<Rightarrow> usage_error + rat" where
  "usage_datetime parse_iso v = as_usage_error (parse_budget_permit_datetime parse_iso v)"

definition optional_identity :: "pyval \<Rightarrow> usage_error + string option" where
  "optional_identity v = (if v = PyNone then Inr None else bind_sum (validate_usage_identity v) (\<lambda>s. Inr (Some s)))"

definition check_reconciled :: "usage_source \<Rightarrow> usage_confidence \<Rightarrow> string option \<Rightarrow> usage_error + unit" where
  "check_reconciled source confidence original =
     (if source = Reconciled then
        if original = None then Inl UsageValueError
        else if confidence \<noteq> Exact then Inl UsageValueError
        else Inr ()
      else if original \<noteq> None then Inl UsageValueError
      else Inr ())"

definition rebuild_amount :: "usage_amount \<Rightarrow> usage_error + usage_amount" where
  "rebuild_amount a =
     as_usage_error (mk_usage_amount (PyStr (usage_kind a)) (AsDecimal (DecFinite (usage_value a))) (PyStr (usage_unit a))
       (PyDict (map (\<lambda>(k, v). (PyStr k, PyStr v)) (usage_dimensions a))))"

definition record_amounts :: "amounts_arg \<Rightarrow> usage_error + usage_amount list" where
  "record_amounts v =
     (case v of
        None \<Rightarrow> Inl UsageValueError
      | Some raw_amounts \<Rightarrow>
          if raw_amounts = [] then Inl UsageValueError
          else if None \<in> set raw_amounts then Inl UsageValueError
          else map_sum_list rebuild_amount (map the raw_amounts))"

definition record_metadata :: "(64 word \<Rightarrow> string) \<Rightarrow> json_arg \<Rightarrow> usage_error + (string, json_copy) dict" where
  "record_metadata float_repr v =
     (case v of
        ArgMapping _ _ \<Rightarrow>
          bind_sum (as_usage_error (mutable_usage_metadata 0 {} v)) (\<lambda>metadata.
          bind_sum (as_usage_error (canonical_dumps_reference float_repr (copy_arg 0 metadata))) (\<lambda>_.
          case metadata of
            CopyDict items \<Rightarrow>
              if list_ex (\<lambda>(k, c). py_strip k = []) items then Inl UsageValueError
              else bind_sum (map_sum_list (\<lambda>(k, c). validate_usage_identity (PyStr k)) items) (\<lambda>_. Inr items)
          | _ \<Rightarrow> Inl UsageValueError))
      | _ \<Rightarrow> Inl UsageValueError)"

definition mk_usage_record ::
  "(string \<Rightarrow> rat option) \<Rightarrow> (64 word \<Rightarrow> string) \<Rightarrow> usage_fields \<Rightarrow> usage_error + usage_record" where
  "mk_usage_record parse_iso float_repr f =
     bind_sum (validate_usage_identity (field_record_id f)) (\<lambda>record_id.
     bind_sum (usage_choice VALID_USAGE_SOURCES (field_source f)) (\<lambda>source.
     bind_sum (usage_choice VALID_USAGE_CONFIDENCES (field_confidence f)) (\<lambda>confidence.
     bind_sum (usage_datetime parse_iso (field_occurred_at f)) (\<lambda>_.
     bind_sum (optional_identity (field_run_id f)) (\<lambda>run.
     bind_sum (optional_identity (field_attempt_id f)) (\<lambda>attempt.
     bind_sum (optional_identity (field_provider_response_id f)) (\<lambda>response.
     bind_sum (optional_identity (field_pricing_ref f)) (\<lambda>pricing.
     bind_sum (optional_identity (field_quota_window_id f)) (\<lambda>quota.
     bind_sum (optional_identity (field_execution_scope f)) (\<lambda>exec_scope.
     bind_sum (optional_identity (field_reconciliation_of f)) (\<lambda>original.
     bind_sum (check_reconciled source confidence original) (\<lambda>_.
     bind_sum (record_amounts (field_amounts f)) (\<lambda>amounts.
     bind_sum (record_metadata float_repr (field_metadata f)) (\<lambda>metadata.
     case field_occurred_at f of
       PyStr time \<Rightarrow>
         Inr \<lparr>usage_record_id = record_id, usage_source = source, usage_confidence = confidence, usage_amounts = amounts,
              occurred_at = time, usage_run_id = run, usage_attempt_id = attempt, provider_response_id = response,
              pricing_ref = pricing, quota_window_id = quota, execution_scope = exec_scope, reconciliation_of = original,
              usage_metadata = metadata\<rparr>
     | _ \<Rightarrow> Inl UsageValueError))))))))))))))"

text \<open>\<^verbatim>\<open>==\<close> on amounts and on the fields that records are compared by.\<close>

definition same_dimensions :: "(string \<times> string) list \<Rightarrow> (string \<times> string) list \<Rightarrow> bool" where
  "same_dimensions d e \<longleftrightarrow> length d = length e \<and> list_all (\<lambda>(k, v). map_of e k = Some v) d"

definition same_amount :: "usage_amount \<Rightarrow> usage_amount \<Rightarrow> bool" where
  "same_amount a b \<longleftrightarrow>
     usage_kind a = usage_kind b \<and> usage_value a = usage_value b \<and> usage_unit a = usage_unit b \<and>
     same_dimensions (usage_dimensions a) (usage_dimensions b)"

definition same_identity :: "usage_record \<Rightarrow> usage_record \<Rightarrow> bool" where
  "same_identity r s \<longleftrightarrow>
     usage_run_id r = usage_run_id s \<and> usage_attempt_id r = usage_attempt_id s \<and>
     provider_response_id r = provider_response_id s \<and> pricing_ref r = pricing_ref s \<and>
     quota_window_id r = quota_window_id s \<and> execution_scope r = execution_scope s \<and>
     metadata_eq (CopyDict (usage_metadata r)) (CopyDict (usage_metadata s))"

definition usage_provider_duplicate_conflict :: "usage_record \<Rightarrow> usage_record \<Rightarrow> bool" where
  "usage_provider_duplicate_conflict existing incoming \<longleftrightarrow>
     usage_source existing \<noteq> usage_source incoming \<or> usage_confidence existing \<noteq> usage_confidence incoming \<or>
     \<not> list_all2 same_amount (usage_amounts existing) (usage_amounts incoming) \<or> occurred_at existing \<noteq> occurred_at incoming \<or>
     \<not> same_identity existing incoming \<or> reconciliation_of existing \<noteq> reconciliation_of incoming"

definition same_record :: "usage_record \<Rightarrow> usage_record \<Rightarrow> bool" where
  "same_record existing incoming \<longleftrightarrow>
     usage_record_id existing = usage_record_id incoming \<and> \<not> usage_provider_duplicate_conflict existing incoming"

definition validate_reconciliation_order :: "(string \<Rightarrow> rat option) \<Rightarrow> usage_record \<Rightarrow> pyval \<Rightarrow> usage_error + unit" where
  "validate_reconciliation_order parse_iso source time =
     bind_sum (usage_datetime parse_iso time) (\<lambda>t.
     bind_sum (usage_datetime parse_iso (PyStr (occurred_at source))) (\<lambda>s.
     if t < s then Inl UsageValueError else Inr ()))"

definition validate_reconciliation_record :: "(string \<Rightarrow> rat option) \<Rightarrow> usage_record \<Rightarrow> usage_record \<Rightarrow> usage_error + unit" where
  "validate_reconciliation_record parse_iso record source =
     (if reconciliation_of source \<noteq> None then Inl UsageRecordConflictError
      else if usage_source record \<noteq> Reconciled \<or> usage_confidence record \<noteq> Exact then Inl UsageRecordConflictError
      else if \<not> same_identity record source then Inl UsageRecordConflictError
      else validate_reconciliation_order parse_iso source (PyStr (occurred_at record)))"

section \<open>The ledger\<close>

record usage_ledger =
  usage_records :: "(string, usage_record) dict"
  usage_order :: "string list"
  provider_dedupe :: "(string \<times> string option, string) dict"

definition empty_usage_ledger :: usage_ledger where
  "empty_usage_ledger = \<lparr>usage_records = [], usage_order = [], provider_dedupe = []\<rparr>"

type_synonym 'a usage_method = "(usage_ledger, usage_error, 'a) py"

definition usage_item :: "usage_ledger \<Rightarrow> string \<Rightarrow> usage_error + usage_record" where
  "usage_item l k = (case map_of (usage_records l) k of None \<Rightarrow> Inl UsageKeyError | Some r \<Rightarrow> Inr r)"

fun first_reconciliation :: "usage_ledger \<Rightarrow> string \<Rightarrow> string list \<Rightarrow> usage_error + usage_record option" where
  "first_reconciliation l source [] = Inr None"
| "first_reconciliation l source (k # ks) =
     bind_sum (usage_item l k) (\<lambda>r.
     if reconciliation_of r = Some source then Inr (Some r) else first_reconciliation l source ks)"

definition reconciliation_for :: "string \<Rightarrow> usage_record option usage_method" where
  "reconciliation_for source l = lift_py (first_reconciliation l source (usage_order l)) l"

definition check_reconciliation :: "(string \<Rightarrow> rat option) \<Rightarrow> usage_record \<Rightarrow> unit usage_method" where
  "check_reconciliation parse_iso r =
     (case reconciliation_of r of
        None \<Rightarrow> return_py ()
      | Some k \<Rightarrow>
          bind_py (gets_py usage_records) (\<lambda>records.
          case map_of records k of
            None \<Rightarrow> raise_py UsageRecordNotFoundError
          | Some original \<Rightarrow>
              bind_py (lift_py (validate_reconciliation_record parse_iso r original)) (\<lambda>_.
              bind_py (reconciliation_for k) (\<lambda>existing.
              raise_if (existing \<noteq> None) UsageRecordConflictError))))"

definition dedupe_key :: "usage_record \<Rightarrow> (string \<times> string option) option" where
  "dedupe_key r =
     (case provider_response_id r of
        None \<Rightarrow> None
      | Some response \<Rightarrow> if reconciliation_of r = None then Some (response, usage_attempt_id r) else None)"

definition provider_duplicate :: "usage_record \<Rightarrow> usage_record option usage_method" where
  "provider_duplicate r =
     (case dedupe_key r of
        None \<Rightarrow> return_py None
      | Some key \<Rightarrow>
          bind_py (gets_py (\<lambda>l. map_of (provider_dedupe l) key)) (\<lambda>existing_id.
          case existing_id of
            None \<Rightarrow> return_py None
          | Some k \<Rightarrow>
              bind_py (gets_py (\<lambda>l. usage_item l k)) (\<lambda>found.
              bind_py (lift_py found) (\<lambda>existing.
              bind_py (raise_if (usage_provider_duplicate_conflict existing r) UsageRecordConflictError) (\<lambda>_.
              return_py (Some existing))))))"

definition store_usage :: "usage_record \<Rightarrow> usage_ledger \<Rightarrow> usage_ledger" where
  "store_usage r l =
     l\<lparr>usage_records := dict_set (usage_record_id r) r (usage_records l),
       usage_order := usage_order l @ [usage_record_id r],
       provider_dedupe := (case dedupe_key r of None \<Rightarrow> provider_dedupe l | Some key \<Rightarrow> dict_set key (usage_record_id r) (provider_dedupe l))\<rparr>"

definition append_usage :: "(string \<Rightarrow> rat option) \<Rightarrow> usage_record instance_arg \<Rightarrow> usage_record usage_method" where
  "append_usage parse_iso arg =
     (case arg of
        ArgObject r \<Rightarrow>
          bind_py (gets_py (\<lambda>l. map_of (usage_records l) (usage_record_id r))) (\<lambda>found.
          case found of
            Some existing \<Rightarrow> if same_record existing r then return_py existing else raise_py UsageRecordConflictError
          | None \<Rightarrow>
              bind_py (check_reconciliation parse_iso r) (\<lambda>_.
              bind_py (provider_duplicate r) (\<lambda>duplicate.
              case duplicate of
                Some existing \<Rightarrow> return_py existing
              | None \<Rightarrow> bind_py (modify_py (store_usage r)) (\<lambda>_. return_py r))))
      | _ \<Rightarrow> raise_py UsageValueError)"

definition get_usage :: "pyval \<Rightarrow> usage_record usage_method" where
  "get_usage v =
     bind_py (lift_py (validate_usage_identity v)) (\<lambda>k.
     bind_py (gets_py (\<lambda>l. map_of (usage_records l) k)) (\<lambda>found.
     case found of None \<Rightarrow> raise_py UsageRecordNotFoundError | Some r \<Rightarrow> return_py r))"

definition records_for_run :: "pyval \<Rightarrow> usage_record list usage_method" where
  "records_for_run v =
     bind_py (lift_py (validate_usage_identity v)) (\<lambda>run.
     bind_py (gets_py (\<lambda>l. map_sum_list (usage_item l) (usage_order l))) (\<lambda>found.
     bind_py (lift_py found) (\<lambda>records.
     return_py (filter (\<lambda>r. usage_run_id r = Some run) records))))"

definition usage_sums :: "usage_amount list \<Rightarrow> amount_map" where
  "usage_sums amounts = fold (\<lambda>a d. add_amount (amount_key a) (usage_value a) d) amounts []"

definition superseded :: "usage_record list \<Rightarrow> usage_record \<Rightarrow> bool" where
  "superseded records r \<longleftrightarrow> list_ex (\<lambda>s. reconciliation_of s = Some (usage_record_id r)) records"

definition totals_for_run :: "pyval \<Rightarrow> usage_amount list usage_method" where
  "totals_for_run v =
     bind_py (records_for_run v) (\<lambda>records.
     lift_py (as_usage_error (dict_to_amounts (usage_sums
       (concat (map usage_amounts (filter (\<lambda>r. \<not> superseded records r) records)))))))"

definition option_value :: "string option \<Rightarrow> pyval" where
  "option_value v = (case v of None \<Rightarrow> PyNone | Some s \<Rightarrow> PyStr s)"

fun suffixed :: "pyval \<Rightarrow> string \<Rightarrow> pyval" where
  "suffixed (PyStr s) suffix = PyStr (s @ suffix)"
| "suffixed v suffix = v"

definition reconciliation_fields :: "pyval \<Rightarrow> usage_record \<Rightarrow> amounts_arg \<Rightarrow> pyval \<Rightarrow> pyval \<Rightarrow> usage_fields" where
  "reconciliation_fields source original amounts time record_id =
     \<lparr>field_record_id = (if py_falsy record_id then suffixed source '':reconciled'' else record_id),
      field_source = PyStr ''reconciled'', field_confidence = PyStr ''exact'', field_amounts = amounts,
      field_occurred_at = time, field_run_id = option_value (usage_run_id original),
      field_attempt_id = option_value (usage_attempt_id original),
      field_provider_response_id = option_value (provider_response_id original),
      field_pricing_ref = option_value (pricing_ref original),
      field_quota_window_id = option_value (quota_window_id original),
      field_execution_scope = option_value (execution_scope original),
      field_reconciliation_of = PyStr (usage_record_id original),
      field_metadata = copy_arg 0 (CopyDict (usage_metadata original))\<rparr>"

definition reconcile ::
  "(string \<Rightarrow> rat option) \<Rightarrow> (64 word \<Rightarrow> string) \<Rightarrow> pyval \<Rightarrow> amounts_arg \<Rightarrow> pyval \<Rightarrow> pyval \<Rightarrow> usage_record usage_method" where
  "reconcile parse_iso float_repr source amounts time record_id =
     bind_py (get_usage source) (\<lambda>original.
     bind_py (lift_py (validate_reconciliation_order parse_iso original time)) (\<lambda>_.
     bind_py (lift_py (mk_usage_record parse_iso float_repr
       (reconciliation_fields source original amounts time record_id))) (\<lambda>r.
     append_usage parse_iso (ArgObject r))))"

end
