(* ===== verification/Usage_Props.thy ===== *)
theory Usage_Props
  imports Usage Canonical_Copy Budget_Samples
begin

text \<open>
  What the usage ledger promises. Records that were accepted stay as they are; a provider response
  and a reconciliation are recorded at most once, and totals count every use of a run once, by its
  reconciliation where there is one.
\<close>

declare split_paired_All [simp del] split_paired_Ex [simp del]

section \<open>Metadata\<close>

text \<open>A copy of metadata can be copied again, and the second copy is the first.\<close>

definition recopied :: "nat \<Rightarrow> json_copy \<Rightarrow> bool" where
  "recopied depth c \<longleftrightarrow> copy_ok c \<and> (\<forall>A. (\<forall>a\<in>A. a < depth) \<longrightarrow> mutable_usage_metadata depth A (copy_arg depth c) = Inr c)"

lemma recopy_list:
  "\<forall>c\<in>set cs. recopied depth c \<Longrightarrow> \<forall>a\<in>A. a < depth \<Longrightarrow>
   mutable_usage_list depth A (map (copy_arg depth) cs) = Inr cs"
  by (induction cs) (simp_all add: recopied_def)

lemma recopy_items:
  "\<forall>(k, c)\<in>set d. recopied depth c \<Longrightarrow> distinct (map fst (snap @ d)) \<Longrightarrow> \<forall>a\<in>A. a < depth \<Longrightarrow>
   mutable_usage_items depth A (map (\<lambda>(k, c). (ArgLeaf (LStr k), copy_arg depth c)) d) snap = Inr (snap @ d)"
proof (induction d arbitrary: snap)
  case (Cons p d)
  obtain k c where p: "p = (k, c)" by force
  have "map_of snap k = None" using Cons.prems(2) by (auto simp: p map_of_eq_None_iff)
  moreover have "mutable_usage_metadata depth A (copy_arg depth c) = Inr c" using Cons.prems by (auto simp: p recopied_def)
  moreover have "mutable_usage_items depth A (map (\<lambda>(k, c). (ArgLeaf (LStr k), copy_arg depth c)) d) (snap @ [p]) = Inr ((snap @ [p]) @ d)"
    using Cons.prems by (intro Cons.IH) auto
  ultimately show ?case by (simp add: p dict_set_new)
qed simp

lemma mutable_metadata_recopied:
  "mutable_usage_metadata depth active v = Inr c \<Longrightarrow> recopied depth c"
  "mutable_usage_items depth active items snap = Inr d \<Longrightarrow> distinct (map fst snap) \<Longrightarrow>
   distinct (map fst d) \<and> (\<exists>new. d = snap @ new \<and> (\<forall>(k, c)\<in>set new. recopied depth c))"
  "mutable_usage_list depth active xs = Inr cs \<Longrightarrow> \<forall>c\<in>set cs. recopied depth c"
proof (induction depth active v and depth active items snap and depth active xs arbitrary: c and d and cs
    rule: mutable_usage_metadata_mutable_usage_items_mutable_usage_list.induct)
  case (1 depth active v)
  have depth: "\<not> MAX_CANONICAL_JSON_DEPTH < depth" using 1(4) by (auto simp: mutable_usage_metadata.simps)
  have fresh: "\<forall>a\<in>insert depth A. a < depth + 1" "depth \<notin> A" if "\<forall>a\<in>A. a < depth" for A using that by auto
  have list: "recopied depth (CopyList cs)" if cs: "\<forall>c\<in>set cs. recopied (depth + 1) c" for cs
    unfolding recopied_def
  proof (intro conjI allI impI)
    show "copy_ok (CopyList cs)" using cs by (simp add: recopied_def)
    fix A :: "nat set" assume A: "\<forall>a\<in>A. a < depth"
    show "mutable_usage_metadata depth A (copy_arg depth (CopyList cs)) = Inr (CopyList cs)"
      using recopy_list [OF cs fresh(1) [OF A]] fresh(2) [OF A] depth by (simp add: mutable_usage_metadata.simps)
  qed
  show ?case
  proof (cases v)
    case (ArgMapping ident items)
    then obtain d where d: "mutable_usage_items (depth + 1) (insert ident active) items [] = Inr d" "c = CopyDict d" "ident \<notin> active"
      using 1(4) depth by (auto simp: mutable_usage_metadata.simps bind_sum_Inr_iff split: if_splits)
    from 1(3) [OF depth ArgMapping d(3,1)] have ok: "distinct (map fst d)" "\<forall>(k, c)\<in>set d. recopied (depth + 1) c" by auto
    have "copy_ok (CopyDict d)" using ok by (auto simp: recopied_def)
    moreover have "mutable_usage_metadata depth A (copy_arg depth (CopyDict d)) = Inr (CopyDict d)" if A: "\<forall>a\<in>A. a < depth" for A
      using recopy_items [OF ok(2) _ fresh(1) [OF A], of "[]"] ok(1) fresh(2) [OF A] depth
      by (simp add: mutable_usage_metadata.simps)
    ultimately show ?thesis by (simp add: recopied_def d(2))
  next
    case (ArgList ident xs)
    then obtain cs where "mutable_usage_list (depth + 1) (insert ident active) xs = Inr cs" "c = CopyList cs" "ident \<notin> active"
      using 1(4) depth by (auto simp: mutable_usage_metadata.simps bind_sum_Inr_iff split: if_splits)
    then show ?thesis using 1(1) [OF depth ArgList] list by simp
  next
    case (ArgTuple ident xs)
    then obtain cs where "mutable_usage_list (depth + 1) (insert ident active) xs = Inr cs" "c = CopyList cs" "ident \<notin> active"
      using 1(4) depth by (auto simp: mutable_usage_metadata.simps bind_sum_Inr_iff split: if_splits)
    then show ?thesis using 1(2) [OF depth ArgTuple] list by simp
  next
    case (ArgLeaf l)
    then show ?thesis using 1(4) depth by (auto simp: mutable_usage_metadata.simps recopied_def)
  qed
next
  case (3 depth active key child items snap)
  have none: "map_of snap key = None" by (rule ccontr) (use 3(3) in simp)
  then obtain c where c: "mutable_usage_metadata depth active child = Inr c" "mutable_usage_items depth active items (snap @ [(key, c)]) = Inr d"
    using 3(3) dict_set_new [OF none] by (auto simp: bind_sum_Inr_iff simp del: map_of_eq_None_iff)
  have "distinct (map fst (snap @ [(key, c)]))" using 3(4) none by (auto simp: map_of_eq_None_iff)
  then obtain new where "distinct (map fst d)" "d = (snap @ [(key, c)]) @ new" "\<forall>(k, c)\<in>set new. recopied depth c"
    using 3(2) [of c d] c none dict_set_new [OF none] by metis
  moreover have "recopied depth c" using 3(1) c(1) none by metis
  ultimately show ?case by auto
qed (auto simp: bind_sum_Inr_iff)

lemma record_metadata_Inr:
  assumes "record_metadata float_repr v = Inr items"
  shows "copy_ok (CopyDict items)" "record_metadata float_repr (copy_arg 0 (CopyDict items)) = Inr items"
proof -
  have "mutable_usage_metadata 0 {} v = Inr (CopyDict items)"
    using assms by (cases "mutable_usage_metadata 0 {} v")
      (auto simp: record_metadata_def bind_sum_Inr_iff split: json_arg.splits json_copy.splits if_splits)
  from mutable_metadata_recopied(1) [OF this]
  have "copy_ok (CopyDict items)" "mutable_usage_metadata 0 {} (copy_arg 0 (CopyDict items)) = Inr (CopyDict items)"
    by (auto simp: recopied_def)
  then show "copy_ok (CopyDict items)" "record_metadata float_repr (copy_arg 0 (CopyDict items)) = Inr items"
    using assms \<open>mutable_usage_metadata 0 {} v = _\<close> by (auto simp: record_metadata_def split: json_arg.splits)
qed

lemma metadata_eq_list_refl: "\<forall>x\<in>set xs. metadata_eq x x \<Longrightarrow> metadata_eq_list xs xs"
  by (induction xs) simp_all

lemma metadata_eq_items_refl:
  "distinct (map fst e) \<Longrightarrow> set d \<subseteq> set e \<Longrightarrow> \<forall>(k, c)\<in>set d. metadata_eq c c \<Longrightarrow> metadata_eq_items d e"
  by (induction d) auto

lemma metadata_eq_refl: "copy_ok c \<Longrightarrow> metadata_eq c c"
proof (induction c)
  case (CopyList xs)
  then show ?case by (auto intro: metadata_eq_list_refl)
next
  case (CopyDict items)
  have "\<forall>(k, c)\<in>set items. metadata_eq c c" using CopyDict by fastforce
  then show ?case using CopyDict(2) by (auto intro: metadata_eq_items_refl)
qed simp

section \<open>Records\<close>

lemma as_usage_error_Inr [simp]: "as_usage_error m = Inr a \<longleftrightarrow> m = Inr a"
  by (cases m) simp_all

lemma usage_identity_iff: "validate_usage_identity v = Inr s \<longleftrightarrow> v = PyStr s \<and> string_ok s"
  by (simp add: validate_usage_identity_def budget_string_iff)

lemma optional_identity_iff: "optional_identity v = Inr o' \<longleftrightarrow> v = option_value o' \<and> pred_option string_ok o'"
  by (cases o') (auto simp: optional_identity_def option_value_def bind_sum_Inr_iff usage_identity_iff)

lemma rebuild_amount_ok: "usage_ok a \<Longrightarrow> rebuild_amount a = Inr a"
  by (simp add: rebuild_amount_def usage_ok_def mk_usage_amount_ok)

lemma rebuild_amount_Inr: "rebuild_amount a = Inr b \<Longrightarrow> usage_ok b"
  unfolding rebuild_amount_def as_usage_error_Inr by (rule mk_usage_amount_Inr)

lemma record_amounts_Inr:
  assumes "record_amounts v = Inr amounts"
  shows "amounts \<noteq> [] \<and> (\<forall>a\<in>set amounts. usage_ok a)"
proof -
  obtain raw where raw: "raw \<noteq> []" "map_sum_list rebuild_amount raw = Inr amounts"
    using assms by (auto simp: record_amounts_def split: option.splits if_splits)
  have "list_all2 (\<lambda>x y. rebuild_amount x = Inr y) raw amounts"
    using raw(2) by (induction raw arbitrary: amounts) (auto simp: bind_sum_Inr_iff)
  then show ?thesis using raw(1) rebuild_amount_Inr by (force simp: list_all2_conv_all_nth in_set_conv_nth)
qed

definition usage_record_ok :: "(string \<Rightarrow> rat option) \<Rightarrow> (64 word \<Rightarrow> string) \<Rightarrow> usage_record \<Rightarrow> bool" where
  "usage_record_ok parse_iso float_repr r \<longleftrightarrow>
     string_ok (usage_record_id r) \<and> (\<exists>t. usage_datetime parse_iso (PyStr (occurred_at r)) = Inr t) \<and>
     (\<forall>f\<in>{usage_run_id, usage_attempt_id, provider_response_id, pricing_ref, quota_window_id, execution_scope, reconciliation_of}.
        pred_option string_ok (f r)) \<and>
     check_reconciled (usage_source r) (usage_confidence r) (reconciliation_of r) = Inr () \<and>
     usage_amounts r \<noteq> [] \<and> (\<forall>a\<in>set (usage_amounts r). usage_ok a) \<and> copy_ok (CopyDict (usage_metadata r)) \<and>
     record_metadata float_repr (copy_arg 0 (CopyDict (usage_metadata r))) = Inr (usage_metadata r)"

lemma mk_usage_record_ok:
  assumes "mk_usage_record parse_iso float_repr f = Inr r"
  shows "usage_record_ok parse_iso float_repr r"
proof -
  have "record_amounts (field_amounts f) = Inr (usage_amounts r)" "record_metadata float_repr (field_metadata f) = Inr (usage_metadata r)"
    using assms by (cases "field_occurred_at f"; auto simp: mk_usage_record_def bind_sum_Inr_iff)+
  note stored = record_amounts_Inr [OF this(1)] record_metadata_Inr [OF this(2)]
  have "string_ok (usage_record_id r)" "\<exists>t. usage_datetime parse_iso (PyStr (occurred_at r)) = Inr t"
    "pred_option string_ok (usage_run_id r)" "pred_option string_ok (usage_attempt_id r)" "pred_option string_ok (provider_response_id r)"
    "pred_option string_ok (pricing_ref r)" "pred_option string_ok (quota_window_id r)" "pred_option string_ok (execution_scope r)"
    "pred_option string_ok (reconciliation_of r)" "check_reconciled (usage_source r) (usage_confidence r) (reconciliation_of r) = Inr ()"
    using assms by (cases "field_occurred_at f"; auto simp: mk_usage_record_def bind_sum_Inr_iff usage_identity_iff optional_identity_iff)+
  then show ?thesis using stored by (simp add: usage_record_ok_def del: copy_ok.simps copy_arg.simps)
qed

section \<open>The branches of an append\<close>

definition usage_ledger_ok :: "(string \<Rightarrow> rat option) \<Rightarrow> (64 word \<Rightarrow> string) \<Rightarrow> usage_ledger \<Rightarrow> bool" where
  "usage_ledger_ok parse_iso float_repr l \<longleftrightarrow>
     dict_ok (usage_records l) \<and> usage_order l = map fst (usage_records l) \<and>
     (\<forall>k r. map_of (usage_records l) k = Some r \<longrightarrow>
        usage_record_id r = k \<and> usage_record_ok parse_iso float_repr r \<and>
        (\<forall>j. reconciliation_of r = Some j \<longrightarrow>
           (\<exists>s. map_of (usage_records l) j = Some s \<and> validate_reconciliation_record parse_iso r s = Inr ()))) \<and>
     (\<forall>j k r s. map_of (usage_records l) j = Some r \<longrightarrow> map_of (usage_records l) k = Some s \<longrightarrow>
        reconciliation_of r \<noteq> None \<longrightarrow> reconciliation_of r = reconciliation_of s \<longrightarrow> j = k) \<and>
     (\<forall>key k. map_of (provider_dedupe l) key = Some k \<longleftrightarrow>
        (\<exists>r. map_of (usage_records l) k = Some r \<and> dedupe_key r = Some key))"

lemma stored_values:
  assumes "dict_ok d"
  shows "map (\<lambda>k. the (map_of d k)) (map fst d) = dict_values d"
  using assms by (auto simp: dict_values_def dict_ok_def)

lemma usage_items:
  assumes "usage_ledger_ok parse_iso float_repr l"
  shows "map_sum_list (usage_item l) (usage_order l) = Inr (dict_values (usage_records l))"
proof -
  have ok: "dict_ok (usage_records l)" "usage_order l = map fst (usage_records l)" using assms by (simp_all add: usage_ledger_ok_def)
  have "usage_item l k = Inr (the (map_of (usage_records l) k))" if "k \<in> set (usage_order l)" for k
    using that ok(1) unfolding ok(2) by (auto simp: usage_item_def dict_ok_def)
  then show ?thesis using map_sum_list_ok [of "usage_order l" "usage_item l"] stored_values [OF ok(1)] by (simp add: ok(2))
qed

lemma first_reconciliation_find:
  "map_sum_list (usage_item l) ks = Inr rs \<Longrightarrow> first_reconciliation l j ks = Inr (find (\<lambda>r. reconciliation_of r = Some j) rs)"
  by (induction ks arbitrary: rs) (auto simp: bind_sum_Inr_iff)

definition reconciled_in :: "usage_ledger \<Rightarrow> string \<Rightarrow> bool" where
  "reconciled_in l j \<longleftrightarrow> (\<exists>r\<in>set (dict_values (usage_records l)). reconciliation_of r = Some j)"

definition reconciliation_verdict :: "(string \<Rightarrow> rat option) \<Rightarrow> usage_ledger \<Rightarrow> usage_record \<Rightarrow> usage_error + unit" where
  "reconciliation_verdict parse_iso l r =
     (case reconciliation_of r of
        None \<Rightarrow> Inr ()
      | Some j \<Rightarrow>
          (case map_of (usage_records l) j of
             None \<Rightarrow> Inl UsageRecordNotFoundError
           | Some s \<Rightarrow> bind_sum (validate_reconciliation_record parse_iso r s) (\<lambda>_.
               if reconciled_in l j then Inl UsageRecordConflictError else Inr ())))"

definition duplicate_of :: "usage_ledger \<Rightarrow> usage_record \<Rightarrow> usage_record option" where
  "duplicate_of l r =
     (case dedupe_key r of
        None \<Rightarrow> None
      | Some key \<Rightarrow> (case map_of (provider_dedupe l) key of None \<Rightarrow> None | Some k \<Rightarrow> map_of (usage_records l) k))"

lemma append_usage_eq:
  assumes ok: "usage_ledger_ok parse_iso float_repr l"
  shows "append_usage parse_iso (ArgObject r) l =
    (case map_of (usage_records l) (usage_record_id r) of
       Some existing \<Rightarrow> (if same_record existing r then Inr existing else Inl UsageRecordConflictError, l)
     | None \<Rightarrow>
         (case reconciliation_verdict parse_iso l r of
            Inl e \<Rightarrow> (Inl e, l)
          | Inr _ \<Rightarrow>
              (case duplicate_of l r of
                 Some existing \<Rightarrow> (if usage_provider_duplicate_conflict existing r then Inl UsageRecordConflictError else Inr existing, l)
               | None \<Rightarrow> (Inr r, store_usage r l))))"
proof -
  have found: "find (\<lambda>r. reconciliation_of r = Some j) (dict_values (usage_records l)) = None \<longleftrightarrow> \<not> reconciled_in l j" for j
    by (auto simp: find_None_iff reconciled_in_def)
  have "check_reconciliation parse_iso r l = (reconciliation_verdict parse_iso l r, l)"
    using first_reconciliation_find [OF usage_items [OF ok]]
    by (simp add: check_reconciliation_def reconciliation_verdict_def reconciliation_for_def py_run found bind_sum_def run_next_def
        del: not_None_eq split: option.splits sum.splits)
  moreover have "provider_duplicate r l =
      (case duplicate_of l r of
         Some existing \<Rightarrow> (if usage_provider_duplicate_conflict existing r then Inl UsageRecordConflictError else Inr (Some existing), l)
       | None \<Rightarrow> (Inr None, l))"
  proof (cases "\<exists>key k. dedupe_key r = Some key \<and> map_of (provider_dedupe l) key = Some k")
    case True
    then obtain key k where key: "dedupe_key r = Some key" "map_of (provider_dedupe l) key = Some k" by blast
    then obtain s where "map_of (usage_records l) k = Some s" using ok unfolding usage_ledger_ok_def by blast
    then show ?thesis using key by (simp add: provider_duplicate_def duplicate_of_def py_run usage_item_def)
  next
    case False
    then show ?thesis by (auto simp: provider_duplicate_def duplicate_of_def py_run split: option.splits)
  qed
  ultimately show ?thesis
    by (auto simp: append_usage_def bind_py_def gets_py_def return_py_def raise_py_def modify_py_def split: option.splits sum.splits)
qed

section \<open>The ledger as a machine\<close>

datatype usage_call =
    AppendUsage usage_fields
  | ReconcileUsage pyval amounts_arg pyval pyval

primrec usage_effect ::
  "(string \<Rightarrow> rat option) \<Rightarrow> (64 word \<Rightarrow> string) \<Rightarrow> usage_call \<Rightarrow> usage_record usage_method" where
  "usage_effect parse_iso float_repr (AppendUsage f) =
     bind_py (lift_py (mk_usage_record parse_iso float_repr f)) (\<lambda>r. append_usage parse_iso (ArgObject r))"
| "usage_effect parse_iso float_repr (ReconcileUsage source amounts time record_id) =
     reconcile parse_iso float_repr source amounts time record_id"

definition usage_exec :: "(string \<Rightarrow> rat option) \<Rightarrow> (64 word \<Rightarrow> string) \<Rightarrow> usage_call \<Rightarrow> usage_ledger \<Rightarrow> usage_ledger" where
  "usage_exec parse_iso float_repr call l = snd (usage_effect parse_iso float_repr call l)"

text \<open>Every call either keeps the ledger or stores one record that passed all checks.\<close>

definition storable :: "(string \<Rightarrow> rat option) \<Rightarrow> (64 word \<Rightarrow> string) \<Rightarrow> usage_ledger \<Rightarrow> usage_record \<Rightarrow> bool" where
  "storable parse_iso float_repr l r \<longleftrightarrow>
     usage_record_ok parse_iso float_repr r \<and> map_of (usage_records l) (usage_record_id r) = None \<and>
     reconciliation_verdict parse_iso l r = Inr () \<and> duplicate_of l r = None"

lemma as_usage_error_Inl [simp]: "as_usage_error m = Inl e \<longleftrightarrow> (\<exists>x. m = Inl x) \<and> e = UsageValueError"
  by (cases m) auto

lemma field_errors:
  "validate_usage_identity v = Inl e \<Longrightarrow> e = UsageValueError"
  "optional_identity v = Inl e \<Longrightarrow> e = UsageValueError"
  "usage_choice choices v = Inl e \<Longrightarrow> e = UsageValueError"
  "usage_datetime parse_iso v = Inl e \<Longrightarrow> e = UsageValueError"
  "check_reconciled source confidence original = Inl e \<Longrightarrow> e = UsageValueError"
  "record_amounts amounts = Inl e \<Longrightarrow> e = UsageValueError"
  by (auto simp: validate_usage_identity_def optional_identity_def usage_choice_def usage_datetime_def check_reconciled_def
      record_amounts_def rebuild_amount_def bind_sum_Inl_iff split: pyval.splits option.splits if_splits dest!: map_sum_list_Inl)

lemma record_metadata_error: "record_metadata float_repr v = Inl e \<Longrightarrow> e = UsageValueError"
proof (cases v)
  case (ArgMapping ident items)
  have keys: "map_sum_list (\<lambda>(k, c). validate_usage_identity (PyStr k)) items = Inl e \<Longrightarrow> e = UsageValueError" for items :: "(string, json_copy) dict"
    by (auto dest!: map_sum_list_Inl dest: field_errors)
  assume "record_metadata float_repr v = Inl e"
  then show ?thesis
    by (cases "mutable_usage_metadata 0 {} v"; cases "canonical_dumps_reference float_repr (copy_arg 0 (projr (mutable_usage_metadata 0 {} v)))";
        cases "projr (mutable_usage_metadata 0 {} v)")
      (auto simp: record_metadata_def ArgMapping bind_sum_Inl_iff dest: keys simp del: copy_arg.simps split: if_splits)
qed (simp_all add: record_metadata_def)

lemma mk_usage_record_error: "mk_usage_record parse_iso float_repr f = Inl e \<Longrightarrow> e = UsageValueError"
  unfolding mk_usage_record_def bind_sum_Inl_iff
  by (elim disjE exE conjE; (drule field_errors record_metadata_error)?; (simp split: pyval.splits)?)

lemma validate_order_error: "validate_reconciliation_order parse_iso s v = Inl e \<Longrightarrow> e = UsageValueError"
  by (auto simp: validate_reconciliation_order_def bind_sum_Inl_iff dest: field_errors split: if_splits)

lemma verdict_error: "reconciliation_verdict parse_iso l r = Inl e \<Longrightarrow> e \<noteq> UsageKeyError"
  by (auto simp: reconciliation_verdict_def validate_reconciliation_record_def bind_sum_Inl_iff
      split: option.splits if_splits dest!: validate_order_error)

lemma append_usage_cases:
  assumes ok: "usage_ledger_ok parse_iso float_repr l" and r: "usage_record_ok parse_iso float_repr r"
  obtains e where "append_usage parse_iso (ArgObject r) l = (Inl e, l)" "e \<noteq> UsageKeyError"
  | s where "append_usage parse_iso (ArgObject r) l = (Inr s, l)" "map_of (usage_records l) (usage_record_id s) = Some s"
  | "append_usage parse_iso (ArgObject r) l = (Inr r, store_usage r l)" "storable parse_iso float_repr l r"
proof -
  note eq = append_usage_eq [OF ok, of r]
  have stored: "map_of (usage_records l) (usage_record_id s) = Some s" if "map_of (usage_records l) k = Some s" for k s
    using ok that by (simp add: usage_ledger_ok_def)
  show thesis
  proof (cases "map_of (usage_records l) (usage_record_id r)")
    case (Some existing)
    then show thesis using eq that(1,2) stored [OF Some] by (cases "same_record existing r") auto
  next
    case new: None
    show thesis
    proof (cases "reconciliation_verdict parse_iso l r")
      case (Inl e)
      then show thesis using eq new that(1) verdict_error by auto
    next
      case verdict: (Inr u)
      show thesis
      proof (cases "duplicate_of l r")
        case None
        then show thesis using eq new verdict that(3) r by (simp add: storable_def)
      next
        case (Some existing)
        then have "map_of (usage_records l) (usage_record_id existing) = Some existing"
          using stored by (auto simp: duplicate_of_def split: option.splits)
        then show thesis using eq new verdict Some that(1,2) by (cases "usage_provider_duplicate_conflict existing r") auto
      qed
    qed
  qed
qed

lemma usage_effect_builds:
  "(\<exists>e. usage_effect parse_iso float_repr call l = (Inl e, l) \<and> e \<noteq> UsageKeyError) \<or>
   (\<exists>f. usage_effect parse_iso float_repr call l =
      bind_py (lift_py (mk_usage_record parse_iso float_repr f)) (\<lambda>r. append_usage parse_iso (ArgObject r)) l)"
proof (cases call)
  case (ReconcileUsage source amounts time record_id)
  show ?thesis
  proof (cases "get_usage source l")
    case (Pair res l')
    have res: "l' = l" "res \<noteq> Inl UsageKeyError"
      using Pair field_errors(1) [of source]
      by (auto simp: get_usage_def bind_py_def lift_py_def gets_py_def return_py_def raise_py_def split: sum.splits option.splits)
    show ?thesis
    proof (cases res)
      case (Inl e)
      then show ?thesis using Pair res by (auto simp: ReconcileUsage reconcile_def bind_py_def)
    next
      case (Inr original)
      show ?thesis
      proof (cases "validate_reconciliation_order parse_iso original time")
        case order: (Inl e)
        then show ?thesis using Pair res Inr validate_order_error [OF order] by (auto simp: ReconcileUsage reconcile_def bind_py_def lift_py_def)
      next
        case (Inr u)
        then show ?thesis using Pair res \<open>res = _\<close> by (auto simp: ReconcileUsage reconcile_def bind_py_def lift_py_def)
      qed
    qed
  qed
qed auto

lemma usage_effect_cases:
  assumes ok: "usage_ledger_ok parse_iso float_repr l"
  obtains e where "usage_effect parse_iso float_repr call l = (Inl e, l)" "e \<noteq> UsageKeyError"
  | r where "usage_effect parse_iso float_repr call l = (Inr r, l)" "map_of (usage_records l) (usage_record_id r) = Some r"
  | r where "usage_effect parse_iso float_repr call l = (Inr r, store_usage r l)" "storable parse_iso float_repr l r"
proof (cases "\<exists>e. usage_effect parse_iso float_repr call l = (Inl e, l) \<and> e \<noteq> UsageKeyError")
  case False
  then obtain f where f: "usage_effect parse_iso float_repr call l =
      bind_py (lift_py (mk_usage_record parse_iso float_repr f)) (\<lambda>r. append_usage parse_iso (ArgObject r)) l"
    using usage_effect_builds [of parse_iso float_repr call l] by blast
  show thesis
  proof (cases "mk_usage_record parse_iso float_repr f")
    case (Inl e)
    then show thesis using f that(1) mk_usage_record_error [OF Inl] by (simp add: py_run)
  next
    case (Inr r)
    show thesis
      by (rule append_usage_cases [OF ok mk_usage_record_ok [OF Inr]]) (use f that Inr in \<open>simp_all add: py_run\<close>)
  qed
qed (use that(1) in blast)

lemma records_store:
  assumes "map_of (usage_records l) (usage_record_id r) = None"
  shows "usage_records (store_usage r l) = usage_records l @ [(usage_record_id r, r)]"
    "map_of (usage_records (store_usage r l)) k = (if k = usage_record_id r then Some r else map_of (usage_records l) k)"
  using assms by (simp_all add: store_usage_def dict_set_new [symmetric])

lemma order_store [simp]: "usage_order (store_usage r l) = usage_order l @ [usage_record_id r]"
  by (simp add: store_usage_def)

lemma reconciled_in_iff:
  "dict_ok (usage_records l) \<Longrightarrow> reconciled_in l j \<longleftrightarrow> (\<exists>k r. map_of (usage_records l) k = Some r \<and> reconciliation_of r = Some j)"
  unfolding reconciled_in_def using dict_values_mem [of "usage_records l"] by blast

lemma usage_ledger_ok_store:
  assumes ok: "usage_ledger_ok parse_iso float_repr l" and adm: "storable parse_iso float_repr l r"
  shows "usage_ledger_ok parse_iso float_repr (store_usage r l)"
proof -
  let ?l = "store_usage r l"
  have new: "map_of (usage_records l) (usage_record_id r) = None" and r: "usage_record_ok parse_iso float_repr r"
    using adm by (simp_all add: storable_def)
  note lookup = records_store(2) [OF new]
  have dict: "dict_ok (usage_records l)" "usage_order l = map fst (usage_records l)" using ok by (simp_all add: usage_ledger_ok_def)
  have source: "\<exists>s. map_of (usage_records l) j = Some s \<and> validate_reconciliation_record parse_iso r s = Inr () \<and> \<not> reconciled_in l j"
    if "reconciliation_of r = Some j" for j
    using adm that by (auto simp: storable_def reconciliation_verdict_def bind_sum_Inr_iff split: option.splits if_splits)
  have free: "map_of (provider_dedupe l) key = None" if "dedupe_key r = Some key" for key
  proof (cases "map_of (provider_dedupe l) key")
    case (Some k)
    then have "map_of (usage_records l) k \<noteq> None" using ok by (auto simp: usage_ledger_ok_def)
    then show ?thesis using adm that Some by (simp add: storable_def duplicate_of_def)
  qed
  have "dict_ok (usage_records ?l)" "usage_order ?l = map fst (usage_records ?l)"
    using dict new by (simp_all add: records_store(1) [OF new] dict_ok_def map_of_eq_None_iff)
  moreover have "\<forall>k s. map_of (usage_records ?l) k = Some s \<longrightarrow> usage_record_id s = k \<and> usage_record_ok parse_iso float_repr s \<and>
      (\<forall>j. reconciliation_of s = Some j \<longrightarrow> (\<exists>t. map_of (usage_records ?l) j = Some t \<and> validate_reconciliation_record parse_iso s t = Inr ()))"
  proof (intro allI impI)
    fix k s assume s: "map_of (usage_records ?l) k = Some s"
    show "usage_record_id s = k \<and> usage_record_ok parse_iso float_repr s \<and>
      (\<forall>j. reconciliation_of s = Some j \<longrightarrow> (\<exists>t. map_of (usage_records ?l) j = Some t \<and> validate_reconciliation_record parse_iso s t = Inr ()))"
    proof (cases "k = usage_record_id r")
      case True
      then have "s = r" using s by (simp add: lookup)
      moreover have "j \<noteq> usage_record_id r" if "map_of (usage_records l) j = Some t" for j t using new that by auto
      ultimately show ?thesis using True r source lookup by metis
    next
      case False
      then have "map_of (usage_records l) k = Some s" using s by (simp add: lookup)
      then have "usage_record_id s = k \<and> usage_record_ok parse_iso float_repr s \<and>
          (\<forall>j. reconciliation_of s = Some j \<longrightarrow> (\<exists>t. map_of (usage_records l) j = Some t \<and> validate_reconciliation_record parse_iso s t = Inr ()))"
        using ok unfolding usage_ledger_ok_def by blast
      moreover have "j \<noteq> usage_record_id r" if "map_of (usage_records l) j = Some t" for j t using new that by auto
      ultimately show ?thesis using lookup by metis
    qed
  qed
  moreover have "\<forall>j k s t. map_of (usage_records ?l) j = Some s \<longrightarrow> map_of (usage_records ?l) k = Some t \<longrightarrow>
      reconciliation_of s \<noteq> None \<longrightarrow> reconciliation_of s = reconciliation_of t \<longrightarrow> j = k"
  proof (intro allI impI)
    fix j k s t
    assume st: "map_of (usage_records ?l) j = Some s" "map_of (usage_records ?l) k = Some t" "reconciliation_of s \<noteq> None"
      "reconciliation_of s = reconciliation_of t"
    have "map_of (usage_records l) j = Some s \<Longrightarrow> map_of (usage_records l) k = Some t \<Longrightarrow> j = k"
      using ok st(3,4) unfolding usage_ledger_ok_def by blast
    moreover have "reconciliation_of r = reconciliation_of u \<Longrightarrow> reconciliation_of u = None" if "map_of (usage_records l) i = Some u" for i u
      using source that reconciled_in_iff [OF dict(1)] by (metis not_None_eq)
    ultimately show "j = k" using st by (metis lookup option.inject)
  qed
  moreover have "\<forall>key k. map_of (provider_dedupe ?l) key = Some k \<longleftrightarrow> (\<exists>s. map_of (usage_records ?l) k = Some s \<and> dedupe_key s = Some key)"
  proof (intro allI)
    fix key k
    have old: "map_of (provider_dedupe l) key = Some k \<longleftrightarrow> (\<exists>s. map_of (usage_records l) k = Some s \<and> dedupe_key s = Some key)"
      using ok by (simp add: usage_ledger_ok_def)
    show "map_of (provider_dedupe ?l) key = Some k \<longleftrightarrow> (\<exists>s. map_of (usage_records ?l) k = Some s \<and> dedupe_key s = Some key)"
    proof (cases "dedupe_key r = Some key")
      case True
      then show ?thesis using old free [OF True] new by (auto simp: lookup store_usage_def)
    next
      case False
      then have "map_of (provider_dedupe ?l) key = map_of (provider_dedupe l) key" by (auto simp: store_usage_def split: option.splits)
      then show ?thesis using old new False by (auto simp: lookup)
    qed
  qed
  ultimately show ?thesis unfolding usage_ledger_ok_def by blast
qed

lemma usage_ledger_ok_exec: "usage_ledger_ok parse_iso float_repr l \<Longrightarrow> usage_ledger_ok parse_iso float_repr (usage_exec parse_iso float_repr call l)"
  by (rule usage_effect_cases [of parse_iso float_repr l call]) (auto simp: usage_exec_def intro: usage_ledger_ok_store)

lemma usage_ledger_ok_empty: "usage_ledger_ok parse_iso float_repr empty_usage_ledger"
  by (simp add: usage_ledger_ok_def empty_usage_ledger_def dict_ok_def)

interpretation usage_machine: py_machine "\<lambda>l. l = empty_usage_ledger" "usage_exec parse_iso float_repr" "usage_ledger_ok parse_iso float_repr"
  for parse_iso float_repr
  by unfold_locales (simp_all add: usage_ledger_ok_empty usage_ledger_ok_exec)

section \<open>Totals\<close>

text \<open>The records of a run that count: all but those that another record reconciles.\<close>

definition effective_usage :: "usage_ledger \<Rightarrow> string \<Rightarrow> usage_record list" where
  "effective_usage l run =
     filter (\<lambda>r. usage_run_id r = Some run \<and> \<not> reconciled_in l (usage_record_id r)) (dict_values (usage_records l))"


lemma stored_record:
  assumes "usage_ledger_ok parse_iso float_repr l" "r \<in> set (dict_values (usage_records l))"
  shows "map_of (usage_records l) (usage_record_id r) = Some r" "usage_record_ok parse_iso float_repr r"
  using assms by (auto simp: usage_ledger_ok_def dict_values_mem)

lemma reconciliation_source:
  assumes ok: "usage_ledger_ok parse_iso float_repr l" and r: "map_of (usage_records l) k = Some r" "reconciliation_of r = Some j"
  obtains s where "map_of (usage_records l) j = Some s" "reconciliation_of s = None" "same_identity r s"
proof -
  obtain s where "map_of (usage_records l) j = Some s" "validate_reconciliation_record parse_iso r s = Inr ()"
    using ok r unfolding usage_ledger_ok_def by blast
  then show thesis using that by (auto simp: validate_reconciliation_record_def split: if_splits)
qed





text \<open>The ledgers that calls lead to.\<close>

definition usage_reachable :: "(string \<Rightarrow> rat option) \<Rightarrow> (64 word \<Rightarrow> string) \<Rightarrow> usage_ledger \<Rightarrow> bool" where
  "usage_reachable parse_iso float_repr l \<longleftrightarrow> (\<exists>calls. l = fold (usage_exec parse_iso float_repr) calls empty_usage_ledger)"

lemma usage_reachable_ok: "usage_reachable parse_iso float_repr l \<Longrightarrow> usage_ledger_ok parse_iso float_repr l"
  unfolding usage_reachable_def using usage_machine.inv_reachable by blast

section \<open>Storing a record\<close>

lemma reconciled_in_store:
  assumes "map_of (usage_records l) (usage_record_id r) = None"
  shows "reconciled_in (store_usage r l) j \<longleftrightarrow> reconciled_in l j \<or> reconciliation_of r = Some j"
  by (auto simp: reconciled_in_def records_store(1) [OF assms] dict_values_def)

lemma reconciled_in_stored: "usage_ledger_ok parse_iso float_repr l \<Longrightarrow> reconciled_in l j \<Longrightarrow> map_of (usage_records l) j \<noteq> None"
  by (auto simp: reconciled_in_def dest: stored_record(1) elim: reconciliation_source)

lemma effective_store:
  assumes ok: "usage_ledger_ok parse_iso float_repr l" and adm: "storable parse_iso float_repr l r"
  shows "effective_usage (store_usage r l) run =
    filter (\<lambda>s. reconciliation_of r \<noteq> Some (usage_record_id s)) (effective_usage l run) @ (if usage_run_id r = Some run then [r] else [])"
proof -
  have new: "map_of (usage_records l) (usage_record_id r) = None" using adm by (simp add: storable_def)
  have "\<not> reconciled_in l (usage_record_id r)" using reconciled_in_stored [OF ok] new by blast
  moreover have "reconciliation_of r \<noteq> Some (usage_record_id r)"
    using adm by (auto simp: storable_def reconciliation_verdict_def)
  ultimately show ?thesis
    by (simp add: effective_usage_def records_store(1) [OF new] reconciled_in_store [OF new] dict_values_def conj_commute conj_left_commute)
qed

lemma same_record_refl: "usage_record_ok parse_iso float_repr r \<Longrightarrow> same_record r r"
proof -
  assume r: "usage_record_ok parse_iso float_repr r"
  then have "same_amount a a" if "a \<in> set (usage_amounts r)" for a
    using that by (fastforce simp: usage_record_ok_def usage_ok_def dims_ok_def same_amount_def same_dimensions_def list_all_iff)
  moreover have "metadata_eq (CopyDict (usage_metadata r)) (CopyDict (usage_metadata r))"
    using r by (intro metadata_eq_refl) (simp add: usage_record_ok_def)
  ultimately show ?thesis
    by (simp add: same_record_def usage_provider_duplicate_conflict_def same_identity_def list_all2_same del: metadata_eq.simps)
qed

lemma usage_reachable_exec: "usage_reachable parse_iso float_repr l \<Longrightarrow> usage_reachable parse_iso float_repr (fold (usage_exec parse_iso float_repr) calls l)"
  unfolding usage_reachable_def by (metis fold_append comp_apply)

lemma usage_kept:
  assumes "usage_ledger_ok parse_iso float_repr l"
  shows "\<exists>new. usage_records (fold (usage_exec parse_iso float_repr) calls l) = usage_records l @ new"
  using assms
proof (induction calls arbitrary: l)
  case (Cons call calls)
  have "\<exists>new. usage_records (usage_exec parse_iso float_repr call l) = usage_records l @ new"
    by (rule usage_effect_cases [OF Cons.prems, of call]) (auto simp: usage_exec_def storable_def records_store(1))
  then show ?case using Cons.IH [OF usage_ledger_ok_exec [OF Cons.prems], of call] by fastforce
qed simp

lemma usage_keeps_record:
  assumes "usage_ledger_ok parse_iso float_repr l" "map_of (usage_records l) k = Some r"
  shows "map_of (usage_records (usage_exec parse_iso float_repr call l)) k = Some r"
  by (rule usage_effect_cases [OF assms(1), of call]) (use assms(2) in \<open>auto simp: usage_exec_def storable_def records_store(2)\<close>)

interpretation usage_history: tracked_machine "\<lambda>l. l = empty_usage_ledger" "usage_exec parse_iso float_repr"
  "usage_ledger_ok parse_iso float_repr" "\<lambda>l. map_of (usage_records l)" "(=)"
  for parse_iso float_repr
  by unfold_locales (simp_all add: usage_keeps_record)

section \<open>Reconciling a record\<close>

lemma strip_first: "py_strip s = s \<Longrightarrow> s \<noteq> [] \<Longrightarrow> \<not> py_space (hd s)"
proof
  assume s: "py_strip s = s" "s \<noteq> []" and "py_space (hd s)"
  then have "length (dropWhile py_space s) < length s"
    by (cases s) (simp_all add: length_dropWhile_le less_Suc_eq_le)
  moreover have "length (py_strip s) \<le> length (dropWhile py_space s)"
    unfolding py_strip_def length_rev using length_dropWhile_le [of py_space "rev (dropWhile py_space s)"] by simp
  ultimately show False using s(1) by simp
qed

lemma string_ok_suffix: "string_ok s \<Longrightarrow> string_ok (s @ '':reconciled'')"
  using strip_first [of s]
  by (cases s) (auto simp: string_ok_def py_strip_def py_space_def code_point_def has_control_def Let_def)

text \<open>The record that a reconciliation builds.\<close>

definition reconciled_record :: "usage_record \<Rightarrow> usage_amount list \<Rightarrow> string \<Rightarrow> usage_record" where
  "reconciled_record s amounts time =
     s\<lparr>usage_record_id := usage_record_id s @ '':reconciled'', usage_source := Reconciled, usage_confidence := Exact,
       usage_amounts := amounts, occurred_at := time, reconciliation_of := Some (usage_record_id s)\<rparr>"

lemma record_amounts_ok: "as \<noteq> [] \<Longrightarrow> \<forall>a\<in>set as. usage_ok a \<Longrightarrow> record_amounts (Some (map Some as)) = Inr as"
  using map_sum_list_ok [of as rebuild_amount id] by (auto simp: record_amounts_def rebuild_amount_ok comp_def)

lemma mk_reconciled_record:
  assumes s: "usage_record_ok parse_iso float_repr s" and "as \<noteq> []" "\<forall>a\<in>set as. usage_ok a" "usage_datetime parse_iso (PyStr time) = Inr t"
  shows "mk_usage_record parse_iso float_repr (reconciliation_fields (PyStr (usage_record_id s)) s (Some (map Some as)) (PyStr time) PyNone) =
    Inr (reconciled_record s as time)"
proof -
  have options: "optional_identity (option_value v) = Inr v" if "pred_option string_ok v" for v
    using that by (simp add: optional_identity_iff)
  have "optional_identity (PyStr (usage_record_id s)) = Inr (Some (usage_record_id s))"
    using s by (simp add: usage_record_ok_def optional_identity_iff option_value_def)
  moreover have "validate_usage_identity (PyStr (usage_record_id s @ '':reconciled'')) = Inr (usage_record_id s @ '':reconciled'')"
    using s string_ok_suffix by (simp add: usage_identity_iff usage_record_ok_def)
  ultimately show ?thesis
    using s assms(4) record_amounts_ok [OF assms(2,3)]
    by (simp add: mk_usage_record_def reconciliation_fields_def usage_record_ok_def options usage_choice_def
        VALID_USAGE_SOURCES_def VALID_USAGE_CONFIDENCES_def check_reconciled_def reconciled_record_def del: copy_arg.simps)
qed

lemma reconcile_run:
  assumes ok: "usage_ledger_ok parse_iso float_repr l" and s: "map_of (usage_records l) k = Some s"
    and as: "as \<noteq> []" "\<forall>a\<in>set as. usage_ok a" and time: "validate_reconciliation_order parse_iso s (PyStr time) = Inr ()"
  shows "reconcile parse_iso float_repr (PyStr k) (Some (map Some as)) (PyStr time) PyNone l =
    append_usage parse_iso (ArgObject (reconciled_record s as time)) l"
proof -
  have k: "usage_record_id s = k" and rec: "usage_record_ok parse_iso float_repr s" using ok s unfolding usage_ledger_ok_def by blast+
  obtain t where "usage_datetime parse_iso (PyStr time) = Inr t"
    using time by (auto simp: validate_reconciliation_order_def bind_sum_Inr_iff)
  from mk_reconciled_record [OF rec as this] show ?thesis
    using s k rec time by (simp add: reconcile_def get_usage_def py_run validate_usage_identity_def usage_record_ok_def)
qed

lemma reconciled_storable:
  assumes ok: "usage_ledger_ok parse_iso float_repr l" and s: "map_of (usage_records l) k = Some s" "reconciliation_of s = None"
    and new: "\<not> reconciled_in l k" "map_of (usage_records l) (k @ '':reconciled'') = None"
    and as: "as \<noteq> []" "\<forall>a\<in>set as. usage_ok a" and time: "validate_reconciliation_order parse_iso s (PyStr time) = Inr ()"
  shows "storable parse_iso float_repr l (reconciled_record s as time)"
proof -
  let ?r = "reconciled_record s as time"
  have k: "usage_record_id s = k" and rec: "usage_record_ok parse_iso float_repr s" using ok s unfolding usage_ledger_ok_def by blast+
  obtain t where t: "usage_datetime parse_iso (PyStr time) = Inr t"
    using time by (auto simp: validate_reconciliation_order_def bind_sum_Inr_iff)
  have "metadata_eq (CopyDict (usage_metadata s)) (CopyDict (usage_metadata s))"
    using rec by (intro metadata_eq_refl) (simp add: usage_record_ok_def)
  then have "validate_reconciliation_record parse_iso ?r s = Inr ()"
    using time s(2) by (simp add: validate_reconciliation_record_def reconciled_record_def same_identity_def del: metadata_eq.simps)
  then have "reconciliation_verdict parse_iso l ?r = Inr ()"
    using s(1) new(1) k by (simp add: reconciliation_verdict_def reconciled_record_def)
  moreover have "duplicate_of l ?r = None"
    by (simp add: duplicate_of_def dedupe_key_def reconciled_record_def split: option.splits)
  ultimately show ?thesis
    using new(2) k mk_usage_record_ok [OF mk_reconciled_record [OF rec as t]] by (simp add: storable_def reconciled_record_def)
qed

section \<open>A sample ledger\<close>

definition sample_fields :: usage_fields where
  "sample_fields =
     \<lparr>field_record_id = PyStr ''u1'', field_source = PyStr ''provider_reported'', field_confidence = PyStr ''provider_exact'',
      field_amounts = sample_arg 5, field_occurred_at = PyStr ''2026-01-01T00:00:00Z'', field_run_id = PyStr ''run'',
      field_attempt_id = PyNone, field_provider_response_id = PyStr ''response'', field_pricing_ref = PyNone,
      field_quota_window_id = PyNone, field_execution_scope = PyNone, field_reconciliation_of = PyNone,
      field_metadata = ArgMapping 0 []\<rparr>"

definition sample_usage_record :: usage_record where
  "sample_usage_record =
     \<lparr>usage_record_id = ''u1'', usage_source = ProviderReported, usage_confidence = ProviderExact, usage_amounts = [sample_usage 5],
      occurred_at = ''2026-01-01T00:00:00Z'', usage_run_id = Some ''run'', usage_attempt_id = None,
      provider_response_id = Some ''response'', pricing_ref = None, quota_window_id = None, execution_scope = None,
      reconciliation_of = None, usage_metadata = []\<rparr>"

abbreviation sample_float :: "64 word \<Rightarrow> string" where
  "sample_float \<equiv> \<lambda>_. ''0.0''"

definition sample_usage_ledger :: usage_ledger where
  "sample_usage_ledger = fold (usage_exec sample_time sample_float) [AppendUsage sample_fields] empty_usage_ledger"

lemma sample_usage_built: "mk_usage_record sample_time sample_float sample_fields = Inr sample_usage_record"
proof -
  have strings: "string_ok ''u1''" "string_ok ''run''" "string_ok ''response''" by code_simp+
  have "validate_usage_identity (PyStr s) = Inr s" "optional_identity (PyStr s) = Inr (Some s)" if "string_ok s" for s
    using that by (simp_all add: usage_identity_iff optional_identity_iff option_value_def)
  note known = this [OF strings(1)] this [OF strings(2)] this [OF strings(3)]
  have "usage_datetime sample_time (PyStr ''2026-01-01T00:00:00Z'') = Inr 2020" "record_metadata sample_float (ArgMapping 0 []) = Inr []"
    by code_simp+
  moreover have "usage_choice VALID_USAGE_SOURCES (PyStr ''provider_reported'') = Inr ProviderReported"
    "usage_choice VALID_USAGE_CONFIDENCES (PyStr ''provider_exact'') = Inr ProviderExact"
    by (simp_all add: usage_choice_def VALID_USAGE_SOURCES_def VALID_USAGE_CONFIDENCES_def)
  moreover have "record_amounts (sample_arg 5) = Inr [sample_usage 5]"
    using record_amounts_ok [of "[sample_usage 5]"] sample_ok [of 5] by (simp add: sample_arg_def)
  moreover have "optional_identity PyNone = Inr None" by (simp add: optional_identity_def)
  ultimately show ?thesis
    using known by (simp add: mk_usage_record_def sample_fields_def sample_usage_record_def check_reconciled_def)
qed

lemma sample_usage_reachable: "usage_reachable sample_time sample_float sample_usage_ledger"
  unfolding usage_reachable_def sample_usage_ledger_def by blast

lemma sample_usage_stored: "sample_usage_ledger = store_usage sample_usage_record empty_usage_ledger"
  by (simp add: sample_usage_ledger_def usage_exec_def py_run sample_usage_built append_usage_eq [OF usage_ledger_ok_empty])
    (simp add: empty_usage_ledger_def reconciliation_verdict_def duplicate_of_def dedupe_key_def sample_usage_record_def)

lemma sample_usage_lookup: "map_of (usage_records sample_usage_ledger) k = (if k = ''u1'' then Some sample_usage_record else None)"
  by (simp add: sample_usage_stored store_usage_def empty_usage_ledger_def sample_usage_record_def)

lemma sample_effective: "effective_usage sample_usage_ledger ''run'' = [sample_usage_record]"
  by (simp add: effective_usage_def sample_usage_stored store_usage_def empty_usage_ledger_def sample_usage_record_def
      dict_values_def reconciled_in_def)

section \<open>Properties\<close>





text \<open>
  C31: the ledger only grows: a stored record is never changed or removed by later calls, the order
  is only extended, appending the record again returns it and changes nothing, and a different
  record under its identifier is refused.
\<close>

theorem usage_append_only:
  assumes "usage_reachable parse_iso float_repr l" "map_of (usage_records l) k = Some r"
    and "l' = fold (usage_exec parse_iso float_repr) calls l"
  shows "map_of (usage_records l') k = Some r \<and> (\<exists>new. usage_order l' = usage_order l @ new) \<and>
    append_usage parse_iso (ArgObject r) l' = (Inr r, l') \<and>
    (\<forall>r'. usage_record_id r' = k \<and> \<not> same_record r r' \<longrightarrow>
       append_usage parse_iso (ArgObject r') l' = (Inl UsageRecordConflictError, l'))"
proof -
  have ok: "usage_ledger_ok parse_iso float_repr l" "usage_ledger_ok parse_iso float_repr l'"
    using usage_reachable_ok [OF assms(1)] usage_reachable_ok [OF usage_reachable_exec [OF assms(1)]] by (simp_all add: assms(3))
  obtain new where new: "usage_records l' = usage_records l @ new" using usage_kept [OF ok(1), of calls] by (auto simp: assms(3))
  have order: "usage_order l' = usage_order l @ map fst new"
    using ok new by (simp add: usage_ledger_ok_def)
  have stored: "map_of (usage_records l') k = Some r" using usage_history.history_calls [OF ok(1) assms(2)] by (auto simp: assms(3))
  then have r: "usage_record_id r = k" "usage_record_ok parse_iso float_repr r"
    using ok(2) unfolding usage_ledger_ok_def by blast+
  show ?thesis
    using append_usage_eq [OF ok(2)] stored r order same_record_refl [OF r(2)] by auto
qed

theorem usage_append_only_witness:
  "append_usage sample_time (ArgObject sample_usage_record) sample_usage_ledger = (Inr sample_usage_record, sample_usage_ledger)"
  using usage_append_only [OF sample_usage_reachable, of "''u1''" sample_usage_record _ "[]"] by (simp add: sample_usage_lookup)

text \<open>
  A record that is stored, is no reconciliation and has none can be reconciled at a time not
  before it: the new record takes its place in the totals of its run and changes no other run, and
  repeating the call returns the same record and changes nothing.
\<close>

theorem reconcile_replaces_usage:
  assumes "usage_reachable parse_iso float_repr l" "map_of (usage_records l) k = Some s" "reconciliation_of s = None"
    and "\<not> reconciled_in l k" "map_of (usage_records l) (k @ '':reconciled'') = None"
    and "as \<noteq> []" "\<forall>a\<in>set as. usage_ok a" "validate_reconciliation_order parse_iso s (PyStr time) = Inr ()"
  shows "\<exists>r. reconcile parse_iso float_repr (PyStr k) (Some (map Some as)) (PyStr time) PyNone l = (Inr r, store_usage r l) \<and>
    reconcile parse_iso float_repr (PyStr k) (Some (map Some as)) (PyStr time) PyNone (store_usage r l) = (Inr r, store_usage r l) \<and>
    usage_amounts r = as \<and> reconciliation_of r = Some k \<and>
    (\<forall>run. effective_usage (store_usage r l) run =
       filter (\<lambda>x. usage_record_id x \<noteq> k) (effective_usage l run) @ (if usage_run_id s = Some run then [r] else []))"
proof (intro exI conjI allI)
  let ?r = "reconciled_record s as time"
  note ok = usage_reachable_ok [OF assms(1)]
  note adm = reconciled_storable [OF ok assms(2-8)]
  have k: "usage_record_id s = k" using ok assms(2) unfolding usage_ledger_ok_def by blast
  have new: "map_of (usage_records l) (usage_record_id ?r) = None" using adm by (simp add: storable_def)
  note ok' = usage_ledger_ok_store [OF ok adm]
  have s': "map_of (usage_records (store_usage ?r l)) k = Some s"
    using assms(2,5) new by (auto simp: records_store(2) [OF new])
  have same: "same_record ?r ?r" using adm same_record_refl [of parse_iso float_repr ?r] by (simp add: storable_def)
  show "reconcile parse_iso float_repr (PyStr k) (Some (map Some as)) (PyStr time) PyNone l = (Inr ?r, store_usage ?r l)"
    using adm by (simp add: reconcile_run [OF ok assms(2,6-8)] append_usage_eq [OF ok] storable_def)
  show "reconcile parse_iso float_repr (PyStr k) (Some (map Some as)) (PyStr time) PyNone (store_usage ?r l) = (Inr ?r, store_usage ?r l)"
    using same by (simp add: reconcile_run [OF ok' s' assms(6-8)] append_usage_eq [OF ok'] records_store(2) [OF new])
  show "usage_amounts ?r = as" "reconciliation_of ?r = Some k" by (simp_all add: reconciled_record_def k)
  show "effective_usage (store_usage ?r l) run =
      filter (\<lambda>x. usage_record_id x \<noteq> k) (effective_usage l run) @ (if usage_run_id s = Some run then [?r] else [])" for run
    unfolding effective_store [OF ok adm] by (auto simp: reconciled_record_def k intro!: filter_cong)
qed

theorem reconcile_replaces_usage_witness:
  "\<exists>r. reconcile sample_time sample_float (PyStr ''u1'') (Some [Some (sample_usage 4)]) (PyStr ''2030-01-01T00:00:00Z'') PyNone sample_usage_ledger =
       (Inr r, store_usage r sample_usage_ledger) \<and> effective_usage (store_usage r sample_usage_ledger) ''run'' = [r]"
proof -
  have stored: "map_of (usage_records sample_usage_ledger) ''u1'' = Some sample_usage_record"
    "map_of (usage_records sample_usage_ledger) (''u1'' @ '':reconciled'') = None" by (simp_all add: sample_usage_lookup)
  have "reconciliation_of sample_usage_record = None" "\<not> reconciled_in sample_usage_ledger ''u1''"
    "validate_reconciliation_order sample_time sample_usage_record (PyStr ''2030-01-01T00:00:00Z'') = Inr ()"
    unfolding sample_usage_stored by code_simp+
  from reconcile_replaces_usage [OF sample_usage_reachable stored(1) this(1,2) stored(2) _ _ this(3), of "[sample_usage 4]"]
  show ?thesis using sample_ok [of 4] by (auto simp: sample_effective) (auto simp: sample_usage_record_def)
qed

end
