(* ===== verification/Graph_Normal.thy ===== *)
theory Graph_Normal
  imports Canonical "HOL-Library.Product_Lexorder" "HOL-Library.Multiset"
begin

text \<open>
  The normal form of a graph document, \<^verbatim>\<open>_normalize_graph_unchecked\<close> of \<^verbatim>\<open>canonical.py\<close>: the inputs and
  outputs that nodes declare become edges, a connection becomes the default binding, nodes and
  edges are sorted. Documents are trees of dictionaries with string keys, as canonical JSON
  delivers them, so that no two members share a container.
\<close>

type_synonym json_dict = "(string, json_copy) dict"

type_synonym graph_edge = "string \<times> string"

section \<open>The operation\<close>

definition get_text :: "json_dict \<Rightarrow> string \<Rightarrow> string option" where
  "get_text d k = (case map_of d k of Some (CopyLeaf (LStr s)) \<Rightarrow> Some s | _ \<Rightarrow> None)"

fun edge_of :: "json_copy \<Rightarrow> graph_edge option" where
  "edge_of (CopyDict d) =
     (case (get_text d ''from'', get_text d ''to'') of (Some f, Some t) \<Rightarrow> Some (f, t) | _ \<Rightarrow> None)"
| "edge_of _ = None"

definition edge_value :: "graph_edge \<Rightarrow> json_copy" where
  "edge_value e = CopyDict [(''from'', CopyLeaf (LStr (fst e))), (''to'', CopyLeaf (LStr (snd e)))]"

definition explicit_edges :: "json_dict \<Rightarrow> graph_edge list" where
  "explicit_edges spec = (case map_of spec ''edges'' of Some (CopyList xs) \<Rightarrow> List.map_filter edge_of xs | _ \<Rightarrow> [])"

text \<open>The stack of ports still to visit, its top first, and the texts found with their paths.\<close>

fun port_children :: "string \<Rightarrow> json_copy \<Rightarrow> (string \<times> json_copy) list" where
  "port_children path (CopyLeaf l) = []"
| "port_children path (CopyList xs) = map (\<lambda>(i, v). (path @ ''.'' @ nat_digits i, v)) (enumerate 0 xs)"
| "port_children path (CopyDict items) = map (\<lambda>(k, v). (path @ ''.'' @ k, v)) items"

fun leaf_string :: "json_copy \<Rightarrow> string option" where
  "leaf_string (CopyLeaf (LStr s)) = Some s"
| "leaf_string _ = None"

definition stack_size :: "(string \<times> json_copy) list \<Rightarrow> nat" where
  "stack_size stack = sum_list (map (\<lambda>p. Suc (size (snd p))) stack)"

lemma children_size: "stack_size (port_children path v) \<le> size v"
proof (cases v)
  case (CopyList xs)
  have "stack_size (map (\<lambda>(i, v). (path @ ''.'' @ nat_digits i, v)) (enumerate n xs)) \<le> size_list size xs" for n
    by (induction xs arbitrary: n) (simp_all add: stack_size_def)
  from le_SucI [OF this [of 0]] show ?thesis using CopyList by simp
next
  case (CopyDict items)
  have "stack_size (map (\<lambda>(k, v). (path @ ''.'' @ k, v)) items) \<le> size_list (size_prod (\<lambda>_. 0) size) items"
    by (induction items) (auto simp: stack_size_def size_prod_def)
  from le_SucI [OF this] show ?thesis using CopyDict by simp
qed (simp add: stack_size_def)

function port_loop :: "(string \<times> json_copy) list \<Rightarrow> (string \<times> string) list" where
  "port_loop [] = []"
| "port_loop ((path, v) # stack) =
     (case leaf_string v of
        Some s \<Rightarrow> (path, s) # port_loop stack
      | None \<Rightarrow> port_loop (rev (port_children path v) @ stack))"
  by pat_completeness auto

termination
proof (relation "measure stack_size", goal_cases)
  case (2 path v stack)
  have "stack_size (rev (port_children path v) @ stack) = stack_size (port_children path v) + stack_size stack"
    by (simp add: stack_size_def rev_map [symmetric] sum_list_rev)
  then show ?case using children_size [of path v] by (simp add: stack_size_def)
qed (simp_all add: stack_size_def)

definition port_texts :: "json_copy option \<Rightarrow> (string \<times> string) list" where
  "port_texts v = (case v of Some (CopyDict items) \<Rightarrow> port_loop (rev items) | _ \<Rightarrow> [])"

text \<open>\<^verbatim>\<open>None\<close> is the value of a missing member and of a null.\<close>

definition normalize_node :: "json_dict \<Rightarrow> json_dict" where
  "normalize_node node =
     (let without_ports = dict_pop ''outputs'' (dict_pop ''inputs'' node);
          connection = map_of without_ports ''connection'';
          rest = dict_pop ''connection'' without_ports
      in case connection of
           None \<Rightarrow> rest
         | Some c \<Rightarrow>
             if c \<noteq> CopyLeaf LNone \<and> map_of rest ''bindings'' = None
             then dict_set ''bindings'' (CopyDict [(''default'', c)]) rest else rest)"

definition input_edges :: "string \<Rightarrow> json_dict \<Rightarrow> graph_edge list" where
  "input_edges name node = map (\<lambda>(path, s). (s, name @ ''.'' @ path)) (port_texts (map_of node ''inputs''))"

definition output_edges :: "string \<Rightarrow> json_dict \<Rightarrow> graph_edge list" where
  "output_edges name node = map (\<lambda>(path, s). (name @ ''.'' @ path, s)) (port_texts (map_of node ''outputs''))"

definition normalize_step ::
  "string \<Rightarrow> json_dict \<times> graph_edge list \<times> graph_edge list \<Rightarrow> json_dict \<times> graph_edge list \<times> graph_edge list" where
  "normalize_step name state =
     (case state of (nodes, ins, outs) \<Rightarrow>
        (case map_of nodes name of
           Some (CopyDict node) \<Rightarrow>
             (dict_set name (CopyDict (normalize_node node)) nodes, ins @ input_edges name node, outs @ output_edges name node)
         | _ \<Rightarrow> state))"

text \<open>Edges that are new are added once; explicit edges are kept as they are.\<close>

definition add_edge :: "graph_edge \<Rightarrow> graph_edge list \<Rightarrow> graph_edge list" where
  "add_edge e edges = (if e \<in> set edges then edges else edges @ [e])"

definition normalize_spec :: "json_dict \<Rightarrow> json_dict" where
  "normalize_spec spec =
     (let found = (case map_of spec ''nodes'' of Some (CopyDict nodes) \<Rightarrow> nodes | _ \<Rightarrow> []);
          spec1 = (case map_of spec ''nodes'' of Some (CopyDict nodes) \<Rightarrow> spec | _ \<Rightarrow> dict_set ''nodes'' (CopyDict []) spec);
          edges = explicit_edges spec1
      in case fold normalize_step (sort (map fst found)) (found, [], []) of
           (nodes, ins, outs) \<Rightarrow>
             (let all_edges = fold add_edge (ins @ outs) edges;
                  sorted_nodes = map (\<lambda>name. (name, the (map_of nodes name))) (sort (map fst nodes))
              in dict_set ''edges'' (CopyList (map edge_value (sort all_edges)))
                   (dict_set ''nodes'' (CopyDict sorted_nodes) spec1)))"

definition normalize_graph_unchecked :: "json_dict \<Rightarrow> json_dict" where
  "normalize_graph_unchecked document =
     (if get_text document ''kind'' \<noteq> Some ''Graph'' then document
      else
        let graph = (if map_of document ''spec'' = None then dict_set ''spec'' (CopyDict []) document else document)
        in case map_of graph ''spec'' of
             Some (CopyDict spec) \<Rightarrow> dict_set ''spec'' (CopyDict (normalize_spec spec)) graph
           | _ \<Rightarrow> graph)"

end
