(* ===== verification/Graph_Normal_Props.thy ===== *)
theory Graph_Normal_Props
  imports Graph_Normal Canonical_Copy
begin

text \<open>
  Normalisation of graphs: the edges of the result are the explicit edges and one edge for every
  text that a node binds at a port, and normalising again changes nothing.
\<close>

section \<open>Ports\<close>

text \<open>The texts of a port value, by the path of each.\<close>

inductive port_at :: "string \<Rightarrow> json_copy \<Rightarrow> string \<Rightarrow> string \<Rightarrow> bool" where
  leaf: "port_at path (CopyLeaf (LStr s)) path s"
| member: "(k, v) \<in> set items \<Longrightarrow> port_at (path @ ''.'' @ k) v p s \<Longrightarrow> port_at path (CopyDict items) p s"
| element: "i < length xs \<Longrightarrow> port_at (path @ ''.'' @ nat_digits i) (xs ! i) p s \<Longrightarrow> port_at path (CopyList xs) p s"

inductive_cases port_at_leafE [elim!]: "port_at path (CopyLeaf l) p s"
inductive_cases port_at_dictE: "port_at path (CopyDict items) p s"
inductive_cases port_at_listE: "port_at path (CopyList xs) p s"

lemma port_at_step:
  "port_at path v p s \<longleftrightarrow>
     (case leaf_string v of
        Some t \<Rightarrow> p = path \<and> s = t
      | None \<Rightarrow> (\<exists>(q, w)\<in>set (port_children path v). port_at q w p s))"
proof (cases v)
  case (CopyLeaf l)
  then show ?thesis by (cases l) (auto intro: port_at.leaf)
next
  case (CopyList xs)
  have "(\<exists>(q, w)\<in>set (port_children path v). port_at q w p s) \<longleftrightarrow> (\<exists>i<length xs. port_at (path @ ''.'' @ nat_digits i) (xs ! i) p s)"
    by (auto simp: CopyList enumerate_eq_zip set_zip) (metis add_0 nth_upt)
  then show ?thesis by (auto simp: CopyList elim!: port_at_listE intro: port_at.element)
next
  case (CopyDict items)
  then show ?thesis by (auto elim!: port_at_dictE intro: port_at.member) (metis (mono_tags, lifting) case_prod_conv)
qed

lemma port_loop_texts: "(p, s) \<in> set (port_loop stack) \<longleftrightarrow> (\<exists>(path, v)\<in>set stack. port_at path v p s)"
proof (induction stack rule: port_loop.induct)
  case (2 path v stack)
  then show ?case using port_at_step [of path v p s] by (auto split: option.splits)
qed simp

lemma port_texts_iff: "(p, s) \<in> set (port_texts v) \<longleftrightarrow> (\<exists>items. v = Some (CopyDict items) \<and> (\<exists>(path, w)\<in>set items. port_at path w p s))"
  by (auto simp: port_texts_def port_loop_texts split: option.splits json_copy.splits)

section \<open>Nodes\<close>

fun normal_node :: "json_copy \<Rightarrow> json_copy" where
  "normal_node (CopyDict node) = CopyDict (normalize_node node)"
| "normal_node v = v"

fun node_edges :: "string \<Rightarrow> json_copy \<Rightarrow> graph_edge list \<times> graph_edge list" where
  "node_edges name (CopyDict node) = (input_edges name node, output_edges name node)"
| "node_edges name v = ([], [])"

lemma normalize_node_ports:
  "map_of (normalize_node node) ''inputs'' = None" "map_of (normalize_node node) ''outputs'' = None"
  "map_of (normalize_node node) ''connection'' = None"
  by (auto simp: normalize_node_def Let_def delete_conv' split: option.splits)

lemma pop_absent: "map_of d k = None \<Longrightarrow> dict_pop k d = d"
  by (induction d) (auto split: if_splits)

lemma normalize_node_idem: "normalize_node (normalize_node node) = normalize_node node"
  using normalize_node_ports [of node] by (simp add: normalize_node_def [of "normalize_node node"] pop_absent)

lemma normal_node_idem [simp]: "normal_node (normal_node v) = normal_node v"
  by (cases v) (simp_all add: normalize_node_idem)

lemma normal_node_edges [simp]: "node_edges name (normal_node v) = ([], [])"
  by (cases v) (simp_all add: input_edges_def output_edges_def normalize_node_ports port_texts_def)

definition visited_nodes :: "string list \<Rightarrow> json_dict \<Rightarrow> json_dict" where
  "visited_nodes names nodes = map (\<lambda>(k, v). (k, if k \<in> set names then normal_node v else v)) nodes"

lemma map_absent: "n \<notin> fst ` set nodes \<Longrightarrow> map (\<lambda>(k, w). (k, if k = n then f w else w)) nodes = nodes"
  by (induction nodes) auto

lemma set_present:
  "distinct (map fst nodes) \<Longrightarrow> map_of nodes n = Some v \<Longrightarrow>
   dict_set n (f v) nodes = map (\<lambda>(k, w). (k, if k = n then f w else w)) nodes"
  by (induction nodes) (auto simp: map_absent)

lemma visit_nodes:
  assumes "distinct (map fst nodes)" "distinct names" "set names \<subseteq> set (map fst nodes)"
  shows "fold normalize_step names (nodes, ins, outs) =
    (visited_nodes names nodes, ins @ concat (map (\<lambda>n. fst (node_edges n (the (map_of nodes n)))) names),
     outs @ concat (map (\<lambda>n. snd (node_edges n (the (map_of nodes n)))) names))"
  using assms
proof (induction names arbitrary: nodes ins outs)
  case Nil
  then show ?case by (simp add: visited_nodes_def)
next
  case (Cons n names)
  obtain v where v: "map_of nodes n = Some v" using Cons.prems(3) by (auto simp: map_of_eq_Some_iff [OF Cons.prems(1)])
  let ?nodes = "dict_set n (normal_node v) nodes"
  have step: "normalize_step n (nodes, ins, outs) = (?nodes, ins @ fst (node_edges n v), outs @ snd (node_edges n v))"
    using v by (cases v) (simp_all add: normalize_step_def update_triv)
  have keys: "map fst ?nodes = map fst nodes" using v by (simp add: update_keys image_iff) (metis map_of_SomeD fst_conv)
  have same: "map (\<lambda>m. fst (node_edges m (the (map_of ?nodes m)))) names = map (\<lambda>m. fst (node_edges m (the (map_of nodes m)))) names"
    "map (\<lambda>m. snd (node_edges m (the (map_of ?nodes m)))) names = map (\<lambda>m. snd (node_edges m (the (map_of nodes m)))) names"
    using Cons.prems(2) by (auto simp: update_conv')
  have "distinct (map fst ?nodes)" "distinct names" "set names \<subseteq> set (map fst ?nodes)" using Cons.prems by (simp_all add: keys)
  note ih = Cons.IH [OF this, unfolded same]
  have "?nodes = map (\<lambda>(k, w). (k, if k = n then normal_node w else w)) nodes"
    using set_present [OF Cons.prems(1) v] .
  then have "visited_nodes names ?nodes = visited_nodes (n # names) nodes"
    by (auto simp: visited_nodes_def)
  then show ?case
    using ih v by (simp only: fold_simps step) simp
qed

section \<open>Edges\<close>

lemma add_edges:
  "set (fold add_edge new edges) = set edges \<union> set new \<and>
   count (mset (fold add_edge new edges)) e = (if e \<in> set edges then count (mset edges) e else if e \<in> set new then 1 else 0)"
proof (induction new arbitrary: edges)
  case (Cons a new)
  then show ?case using Cons.IH [of "add_edge a edges"] by (auto simp: add_edge_def count_eq_zero_iff)
qed (simp add: count_eq_zero_iff)

lemma edge_of_value [simp]: "edge_of (edge_value e) = Some e"
  by (simp add: edge_value_def get_text_def)

lemma edges_read_back: "List.map_filter edge_of (map edge_value es) = es"
  by (simp add: List.map_filter_def comp_def)

text \<open>The parts of a normalised specification.\<close>

definition spec_nodes :: "json_dict \<Rightarrow> json_dict" where
  "spec_nodes spec = (case map_of spec ''nodes'' of Some (CopyDict nodes) \<Rightarrow> nodes | _ \<Rightarrow> [])"

definition sorted_dict :: "json_dict \<Rightarrow> json_dict" where
  "sorted_dict d = map (\<lambda>k. (k, the (map_of d k))) (sort (map fst d))"

definition derived_edges :: "json_dict \<Rightarrow> graph_edge list" where
  "derived_edges nodes =
     concat (map (\<lambda>n. fst (node_edges n (the (map_of nodes n)))) (sort (map fst nodes))) @
     concat (map (\<lambda>n. snd (node_edges n (the (map_of nodes n)))) (sort (map fst nodes)))"

definition with_nodes :: "json_dict \<Rightarrow> json_dict" where
  "with_nodes spec = (case map_of spec ''nodes'' of Some (CopyDict nodes) \<Rightarrow> spec | _ \<Rightarrow> dict_set ''nodes'' (CopyDict []) spec)"

abbreviation normal_nodes :: "json_dict \<Rightarrow> json_dict" where
  "normal_nodes nodes \<equiv> map (\<lambda>(k, v). (k, normal_node v)) nodes"

lemma normalize_spec_eq:
  assumes d: "distinct (map fst (spec_nodes spec))"
  shows "normalize_spec spec =
    dict_set ''edges'' (CopyList (map edge_value (sort (fold add_edge (derived_edges (spec_nodes spec)) (explicit_edges spec)))))
      (dict_set ''nodes'' (CopyDict (sorted_dict (normal_nodes (spec_nodes spec)))) (with_nodes spec))"
proof -
  let ?nodes = "spec_nodes spec"
  have "visited_nodes (sort (map fst ?nodes)) ?nodes = normal_nodes ?nodes"
    by (force simp: visited_nodes_def)
  then have visited: "fold normalize_step (sort (map fst ?nodes)) (?nodes, [], []) =
      (normal_nodes ?nodes, concat (map (\<lambda>n. fst (node_edges n (the (map_of ?nodes n)))) (sort (map fst ?nodes))),
       concat (map (\<lambda>n. snd (node_edges n (the (map_of ?nodes n)))) (sort (map fst ?nodes))))"
    using d by (subst visit_nodes) auto
  have "explicit_edges (with_nodes spec) = explicit_edges spec"
    by (auto simp: explicit_edges_def with_nodes_def split: option.splits json_copy.splits)
  then show ?thesis
    unfolding normalize_spec_def spec_nodes_def [symmetric] with_nodes_def [symmetric] Let_def visited by (simp add: derived_edges_def sorted_dict_def)
qed

lemma normalize_spec_parts:
  assumes "distinct (map fst (spec_nodes spec))"
  shows "spec_nodes (normalize_spec spec) = sorted_dict (normal_nodes (spec_nodes spec))"
    "explicit_edges (normalize_spec spec) = sort (fold add_edge (derived_edges (spec_nodes spec)) (explicit_edges spec))"
    "map_of (normalize_spec spec) ''nodes'' = Some (CopyDict (spec_nodes (normalize_spec spec)))"
    "map_of (normalize_spec spec) ''edges'' = Some (CopyList (map edge_value (explicit_edges (normalize_spec spec))))"
  by (simp_all add: normalize_spec_eq [OF assms] spec_nodes_def explicit_edges_def edges_read_back)

text \<open>What normalising a normalised specification meets.\<close>

lemma sorted_dict_lookup: "distinct (map fst d) \<Longrightarrow> map_of (sorted_dict d) k = map_of d k"
proof -
  have "k \<in> fst ` set d \<longleftrightarrow> map_of d k \<noteq> None" by (simp add: map_of_eq_None_iff)
  then show ?thesis by (cases "map_of d k") (simp_all add: sorted_dict_def map_of_map_restrict restrict_map_def)
qed

lemma sorted_dict_keys: "map fst (sorted_dict d) = sort (map fst d)"
  by (simp add: sorted_dict_def comp_def)

lemma sorted_dict_idem: "distinct (map fst d) \<Longrightarrow> sorted_dict (sorted_dict d) = sorted_dict d"
  unfolding sorted_dict_def [of "sorted_dict d"] by (simp add: sorted_dict_keys sorted_dict_lookup sorted_sort_id) (simp add: sorted_dict_def)

lemma normal_nodes_keys: "map fst (normal_nodes d) = map fst d"
  by (simp add: comp_def split_def)

lemma normal_nodes_lookup: "map_of (normal_nodes d) k = map_option normal_node (map_of d k)"
  by (induction d) auto

lemma normalize_spec_idem:
  assumes d: "distinct (map fst (spec_nodes spec))"
  shows "normalize_spec (normalize_spec spec) = normalize_spec spec"
proof -
  let ?spec = "normalize_spec spec"
  note keys = normal_nodes_keys [of "spec_nodes spec"]
  have nodes: "spec_nodes ?spec = sorted_dict (normal_nodes (spec_nodes spec))" by (rule normalize_spec_parts(1) [OF d])
  have d': "distinct (map fst (spec_nodes ?spec))" using d by (simp only: nodes sorted_dict_keys keys distinct_sort)
  have lookup: "map_of (spec_nodes ?spec) k = map_option normal_node (map_of (spec_nodes spec) k)" for k
    using d sorted_dict_lookup [of "normal_nodes (spec_nodes spec)" k] unfolding nodes keys by (simp add: normal_nodes_lookup)
  have fixed: "normal_nodes (spec_nodes ?spec) = spec_nodes ?spec"
  proof (rule map_idI)
    fix x assume x: "x \<in> set (spec_nodes ?spec)"
    obtain k v where kv: "x = (k, v)" by (cases x)
    have "map_of (spec_nodes ?spec) k = Some v" using d' x kv by simp
    then show "(case x of (k, v) \<Rightarrow> (k, normal_node v)) = x" using lookup [of k] kv by auto
  qed
  have "the (map_of (spec_nodes ?spec) k) = normal_node (the (map_of (spec_nodes spec) k))" if "k \<in> set (map fst (spec_nodes ?spec))" for k
  proof -
    have "k \<in> set (map fst (spec_nodes spec))" using that by (simp only: nodes sorted_dict_keys keys set_sort)
    then show ?thesis using lookup [of k] by (cases "map_of (spec_nodes spec) k") (auto simp: map_of_eq_None_iff)
  qed
  then have "derived_edges (spec_nodes ?spec) = []" by (simp add: derived_edges_def concat_eq_Nil_conv)
  moreover have "sort (explicit_edges ?spec) = explicit_edges ?spec" by (simp add: normalize_spec_parts(2) [OF d] sorted_sort_id)
  moreover have "sorted_dict (spec_nodes ?spec) = spec_nodes ?spec" using d sorted_dict_idem [of "normal_nodes (spec_nodes spec)"] by (simp only: nodes keys)
  moreover have "with_nodes ?spec = ?spec" by (simp add: with_nodes_def normalize_spec_parts(3) [OF d])
  ultimately show ?thesis
    using normalize_spec_parts(3,4) [OF d] by (simp add: normalize_spec_eq [OF d'] fixed update_triv)
qed

section \<open>Documents\<close>

definition graph_spec :: "json_dict \<Rightarrow> json_dict \<Rightarrow> bool" where
  "graph_spec document spec \<longleftrightarrow>
     get_text document ''kind'' = Some ''Graph'' \<and>
     (case map_of document ''spec'' of None \<Rightarrow> spec = [] | Some v \<Rightarrow> v = CopyDict spec)"

lemma copy_ok_member: "copy_ok (CopyDict d) \<Longrightarrow> map_of d k = Some v \<Longrightarrow> copy_ok v"
  by (auto dest!: map_of_SomeD)

lemma copy_ok_nodes:
  assumes "copy_ok (CopyDict document)" "graph_spec document spec"
  shows "distinct (map fst (spec_nodes spec))"
proof -
  have "copy_ok (CopyDict spec)"
  proof (cases "map_of document ''spec''")
    case None
    then show ?thesis using assms(2) by (simp add: graph_spec_def)
  next
    case (Some v)
    then show ?thesis using assms(2) copy_ok_member [OF assms(1) Some] by (simp add: graph_spec_def del: copy_ok.simps)
  qed
  then show ?thesis
  proof (cases "\<exists>nodes. map_of spec ''nodes'' = Some (CopyDict nodes)")
    case True
    then obtain nodes where nodes: "map_of spec ''nodes'' = Some (CopyDict nodes)" by blast
    then show ?thesis using copy_ok_member [OF \<open>copy_ok (CopyDict spec)\<close> nodes] by (simp add: spec_nodes_def)
  next
    case False
    then have "spec_nodes spec = []" by (auto simp: spec_nodes_def split: option.splits json_copy.splits)
    then show ?thesis by simp
  qed
qed

lemma normalize_graph_spec:
  assumes "graph_spec document spec"
  shows "map_of (normalize_graph_unchecked document) ''spec'' = Some (CopyDict (normalize_spec spec))"
    "graph_spec (normalize_graph_unchecked document) (normalize_spec spec)"
proof -
  have other: "get_text (dict_set ''spec'' v d) ''kind'' = get_text d ''kind''" for v d by (simp add: get_text_def)
  show "map_of (normalize_graph_unchecked document) ''spec'' = Some (CopyDict (normalize_spec spec))"
    "graph_spec (normalize_graph_unchecked document) (normalize_spec spec)"
    using assms by (cases "map_of document ''spec''"; simp add: graph_spec_def normalize_graph_unchecked_def other)+
qed

text \<open>An edge that a node declares at one of its ports.\<close>

definition bound_edge :: "json_dict \<Rightarrow> graph_edge \<Rightarrow> bool" where
  "bound_edge nodes e \<longleftrightarrow>
     (\<exists>name node items port v p s. map_of nodes name = Some (CopyDict node) \<and> (port, v) \<in> set items \<and> port_at port v p s \<and>
        (map_of node ''inputs'' = Some (CopyDict items) \<and> e = (s, name @ ''.'' @ p) \<or>
         map_of node ''outputs'' = Some (CopyDict items) \<and> e = (name @ ''.'' @ p, s)))"

lemma input_edges_iff:
  "e \<in> set (input_edges name node) \<longleftrightarrow>
     (\<exists>items port w p s. map_of node ''inputs'' = Some (CopyDict items) \<and> (port, w) \<in> set items \<and> port_at port w p s \<and> e = (s, name @ ''.'' @ p))"
proof -
  have "e \<in> set (input_edges name node) \<longleftrightarrow> (\<exists>p s. (p, s) \<in> set (port_texts (map_of node ''inputs'')) \<and> e = (s, name @ ''.'' @ p))"
    by (force simp: input_edges_def)
  then show ?thesis unfolding port_texts_iff by blast
qed

lemma output_edges_iff:
  "e \<in> set (output_edges name node) \<longleftrightarrow>
     (\<exists>items port w p s. map_of node ''outputs'' = Some (CopyDict items) \<and> (port, w) \<in> set items \<and> port_at port w p s \<and> e = (name @ ''.'' @ p, s))"
proof -
  have "e \<in> set (output_edges name node) \<longleftrightarrow> (\<exists>p s. (p, s) \<in> set (port_texts (map_of node ''outputs'')) \<and> e = (name @ ''.'' @ p, s))"
    by (force simp: output_edges_def)
  then show ?thesis unfolding port_texts_iff by blast
qed

lemma derived_edges_iff:
  assumes "distinct (map fst nodes)"
  shows "e \<in> set (derived_edges nodes) \<longleftrightarrow> bound_edge nodes e"
proof -
  have "e \<in> set (derived_edges nodes) \<longleftrightarrow>
      (\<exists>name v. map_of nodes name = Some v \<and> (e \<in> set (fst (node_edges name v)) \<or> e \<in> set (snd (node_edges name v))))"
    using assms by (force simp: derived_edges_def)
  also have "\<dots> \<longleftrightarrow> (\<exists>name node. map_of nodes name = Some (CopyDict node) \<and> (e \<in> set (input_edges name node) \<or> e \<in> set (output_edges name node)))"
  proof -
    have "e \<in> set (fst (node_edges name v)) \<or> e \<in> set (snd (node_edges name v)) \<longleftrightarrow>
        (\<exists>node. v = CopyDict node \<and> (e \<in> set (input_edges name node) \<or> e \<in> set (output_edges name node)))" for name v
      by (cases v) simp_all
    then show ?thesis by (simp only:) blast
  qed
  also have "\<dots> \<longleftrightarrow> bound_edge nodes e"
    unfolding bound_edge_def input_edges_iff output_edges_iff by blast
  finally show ?thesis .
qed

text \<open>A graph whose node takes its input from another node.\<close>

definition sample_node_spec :: json_dict where
  "sample_node_spec =
     [(''nodes'', CopyDict [(''b'', CopyDict [(''inputs'', CopyDict [(''x'', CopyLeaf (LStr ''a.out''))])])])]"

definition sample_graph :: json_dict where
  "sample_graph = [(''kind'', CopyLeaf (LStr ''Graph'')), (''spec'', CopyDict sample_node_spec)]"

lemma sample_graph_ok: "copy_ok (CopyDict sample_graph)" "graph_spec sample_graph sample_node_spec"
  by (simp_all add: sample_graph_def sample_node_spec_def graph_spec_def get_text_def)

text \<open>
  C22: normalising a document again changes nothing.
\<close>

theorem normalize_graph_idempotent:
  assumes "copy_ok (CopyDict document)"
  shows "normalize_graph_unchecked (normalize_graph_unchecked document) = normalize_graph_unchecked document"
proof (cases "\<exists>spec. graph_spec document spec")
  case True
  then obtain spec where spec: "graph_spec document spec" by blast
  note parts = normalize_graph_spec [OF spec]
  have "normalize_spec (normalize_spec spec) = normalize_spec spec" by (rule normalize_spec_idem [OF copy_ok_nodes [OF assms spec]])
  then show ?thesis
    using parts by (simp add: normalize_graph_unchecked_def [of "normalize_graph_unchecked document"] graph_spec_def update_triv)
next
  case False
  then have "normalize_graph_unchecked document = document"
    by (auto simp: graph_spec_def normalize_graph_unchecked_def Let_def split: option.splits json_copy.splits)
  then show ?thesis by simp
qed

theorem normalize_graph_idempotent_witness:
  "copy_ok (CopyDict sample_graph) \<and>
   normalize_graph_unchecked (normalize_graph_unchecked sample_graph) = normalize_graph_unchecked sample_graph"
  using normalize_graph_idempotent [OF sample_graph_ok(1)] sample_graph_ok(1) by blast

text \<open>
  C20: the normal form of a graph has its nodes in order without ports, and its edges in order: the
  explicit edges as often as they were given, and every text that a node binds at an input or an
  output, at any depth, as an edge, once.
\<close>

theorem normalize_graph_edges:
  assumes "copy_ok (CopyDict document)" "graph_spec document spec"
  shows "\<exists>spec'. map_of (normalize_graph_unchecked document) ''spec'' = Some (CopyDict spec') \<and>
    map fst (spec_nodes spec') = sort (map fst (spec_nodes spec)) \<and>
    (\<forall>name node. map_of (spec_nodes spec') name = Some (CopyDict node) \<longrightarrow> map_of node ''inputs'' = None \<and> map_of node ''outputs'' = None) \<and>
    map_of spec' ''edges'' = Some (CopyList (map edge_value (explicit_edges spec'))) \<and> sorted (explicit_edges spec') \<and>
    (\<forall>e. e \<in> set (explicit_edges spec') \<longleftrightarrow> e \<in> set (explicit_edges spec) \<or> bound_edge (spec_nodes spec) e) \<and>
    (\<forall>e. count (mset (explicit_edges spec')) e =
       (if e \<in> set (explicit_edges spec) then count (mset (explicit_edges spec)) e else if bound_edge (spec_nodes spec) e then 1 else 0))"
proof (intro exI conjI allI impI)
  note d = copy_ok_nodes [OF assms]
  note parts = normalize_spec_parts [OF d]
  note keys = derived_edges_iff [OF d]
  let ?edges = "fold add_edge (derived_edges (spec_nodes spec)) (explicit_edges spec)"
  show "map_of (normalize_graph_unchecked document) ''spec'' = Some (CopyDict (normalize_spec spec))"
    by (rule normalize_graph_spec(1) [OF assms(2)])
  show "map fst (spec_nodes (normalize_spec spec)) = sort (map fst (spec_nodes spec))"
    by (simp only: parts(1) sorted_dict_keys normal_nodes_keys)
  show "map_of (normalize_spec spec) ''edges'' = Some (CopyList (map edge_value (explicit_edges (normalize_spec spec))))" by (rule parts(4))
  show "sorted (explicit_edges (normalize_spec spec))" by (simp add: parts(2))
  show "e \<in> set (explicit_edges (normalize_spec spec)) \<longleftrightarrow> e \<in> set (explicit_edges spec) \<or> bound_edge (spec_nodes spec) e" for e
    using add_edges [of "derived_edges (spec_nodes spec)" "explicit_edges spec" e] by (simp add: parts(2) keys)
  show "count (mset (explicit_edges (normalize_spec spec))) e =
      (if e \<in> set (explicit_edges spec) then count (mset (explicit_edges spec)) e else if bound_edge (spec_nodes spec) e then 1 else 0)" for e
    using add_edges [of "derived_edges (spec_nodes spec)" "explicit_edges spec" e] by (simp add: parts(2) keys)
  fix name node assume "map_of (spec_nodes (normalize_spec spec)) name = Some (CopyDict node)"
  then obtain v where "normal_node v = CopyDict node"
    using sorted_dict_lookup [of "normal_nodes (spec_nodes spec)" name] d unfolding parts(1) normal_nodes_keys normal_nodes_lookup by auto
  then obtain d where d: "node = normalize_node d" by (cases v) auto
  show "map_of node ''inputs'' = None" "map_of node ''outputs'' = None" unfolding d by (rule normalize_node_ports)+
qed

theorem normalize_graph_edges_witness:
  "\<exists>spec'. map_of (normalize_graph_unchecked sample_graph) ''spec'' = Some (CopyDict spec') \<and> (''a.out'', ''b.x'') \<in> set (explicit_edges spec')"
proof -
  have "bound_edge (spec_nodes sample_node_spec) (''a.out'', ''b.x'')"
    using port_at.leaf [of "''x''" "''a.out''"] unfolding bound_edge_def
    by (intro exI [of _ "''b''"] exI [of _ "[(''inputs'', CopyDict [(''x'', CopyLeaf (LStr ''a.out''))])]"]
        exI [of _ "[(''x'', CopyLeaf (LStr ''a.out''))]"] exI [of _ "''x''"] exI [of _ "CopyLeaf (LStr ''a.out'')"] exI [of _ "''a.out''"])
      (simp add: spec_nodes_def sample_node_spec_def)
  then show ?thesis using normalize_graph_edges [OF sample_graph_ok] by blast
qed

end
