(* ===== verification/Run_Store.thy ===== *)
theory Run_Store
  imports Budget Canonical
begin

text \<open>
  The in-memory run store of \<^verbatim>\<open>run_store.py\<close>: run records with their validation, creation with
  generated identifiers, state patches under an expected revision, and status changes. Values of
  inputs, states and patches are copied and checked by \<^verbatim>\<open>_validate_json_object\<close>. The patch loop
  keeps references to nested dictionaries of the new state; a reference is the path to it.
\<close>

section \<open>Values\<close>

datatype run_status =
    RunCreated | RunAdmitted | RunRunning | WaitingInput | WaitingApproval | WaitingReview | WaitingCallback
  | PausedBudget | PausedCallbackDelivery | PausedPolicy | PausedOperator | RunResuming
  | RunCompleted | RunSucceeded | RunFailed | RunCancelled | RunExpired | PolicyStopped

datatype run_store_error =
    RunValueError
  | RunTypeError
  | RunKeyError
  | RunOverflowError
  | StateConflictError string int int
  | RunTerminalStateError string run_status

abbreviation MAX_RUN_JSON_DEPTH :: nat where
  "MAX_RUN_JSON_DEPTH \<equiv> 64"

abbreviation MAX_SQLITE_INTEGER :: int where
  "MAX_SQLITE_INTEGER \<equiv> 9223372036854775807"

fun validate_run_string :: "pyval \<Rightarrow> run_store_error + string" where
  "validate_run_string (PyStr s) =
     (if py_strip s = [] then Inl RunValueError
      else if s \<noteq> py_strip s then Inl RunValueError
      else if has_surrogate s then Inl RunValueError
      else Inr s)"
| "validate_run_string _ = Inl RunValueError"

definition validate_optional_run_string :: "pyval \<Rightarrow> run_store_error + string option" where
  "validate_optional_run_string v = (if v = PyNone then Inr None else bind_sum (validate_run_string v) (\<lambda>s. Inr (Some s)))"

fun json_key :: "json_arg \<Rightarrow> run_store_error + string" where
  "json_key (ArgLeaf (LStr k)) = validate_run_string (PyStr k)"
| "json_key _ = Inl RunValueError"

fun json_scalar :: "json_leaf \<Rightarrow> run_store_error + json_copy" where
  "json_scalar (LStr s) = (if has_surrogate s then Inl RunValueError else Inr (CopyLeaf (LStr s)))"
| "json_scalar LNone = Inr (CopyLeaf LNone)"
| "json_scalar (LBool b) = Inr (CopyLeaf (LBool b))"
| "json_scalar (LInt i) = Inr (CopyLeaf (LInt i))"
| "json_scalar (LFloat w) = (if float_finite w then Inr (CopyLeaf (LFloat w)) else Inl RunValueError)"
| "json_scalar _ = Inl RunValueError"

function (sequential) validate_json_value :: "nat set \<Rightarrow> nat \<Rightarrow> json_arg \<Rightarrow> run_store_error + json_copy"
and validate_json_list :: "nat set \<Rightarrow> nat \<Rightarrow> json_arg list \<Rightarrow> run_store_error + json_copy list"
and validate_json_items :: "nat set \<Rightarrow> nat \<Rightarrow> (json_arg \<times> json_arg) list \<Rightarrow> (string, json_copy) dict \<Rightarrow> run_store_error + (string, json_copy) dict" where
  "validate_json_value active depth v =
     (if MAX_RUN_JSON_DEPTH < depth then Inl RunValueError
      else case v of
        ArgLeaf l \<Rightarrow> json_scalar l
      | ArgList ident xs \<Rightarrow>
          if ident \<in> active then Inl RunValueError
          else bind_sum (validate_json_list (insert ident active) (depth + 1) xs) (\<lambda>ys. Inr (CopyList ys))
      | ArgMapping ident items \<Rightarrow>
          if ident \<in> active then Inl RunValueError
          else bind_sum (validate_json_items (insert ident active) (depth + 1) items []) (\<lambda>d. Inr (CopyDict d))
      | ArgTuple ident xs \<Rightarrow> Inl RunValueError)"
| "validate_json_list active depth [] = Inr []"
| "validate_json_list active depth (x # xs) =
     bind_sum (validate_json_value active depth x) (\<lambda>y.
     bind_sum (validate_json_list active depth xs) (\<lambda>ys. Inr (y # ys)))"
| "validate_json_items active depth [] snapshot = Inr snapshot"
| "validate_json_items active depth ((k, v) # items) snapshot =
     bind_sum (json_key k) (\<lambda>key.
     bind_sum (validate_json_value active depth v) (\<lambda>c.
     validate_json_items active depth items (dict_set key c snapshot)))"
  by pat_completeness auto

termination
  by (relation "measure (\<lambda>x. case x of
      Inl (active, depth, v) \<Rightarrow> size v
    | Inr (Inl (active, depth, xs)) \<Rightarrow> size_list size xs
    | Inr (Inr (active, depth, items, snapshot)) \<Rightarrow> size_list (size_prod size size) items)") (auto simp: size_prod_def)

declare validate_json_value.simps [simp del]

type_synonym json_state = "(string, json_copy) dict"

definition validate_json_object :: "json_arg \<Rightarrow> run_store_error + json_state" where
  "validate_json_object v =
     (case v of
        ArgMapping _ _ \<Rightarrow>
          bind_sum (validate_json_value {} 0 v) (\<lambda>c. case c of CopyDict d \<Rightarrow> Inr d | _ \<Rightarrow> Inl RunValueError)
      | _ \<Rightarrow> Inl RunValueError)"

section \<open>Records\<close>

definition VALID_RUN_STATUSES :: "(string, run_status) dict" where
  "VALID_RUN_STATUSES =
     [(''created'', RunCreated), (''admitted'', RunAdmitted), (''running'', RunRunning), (''waiting_input'', WaitingInput),
      (''waiting_approval'', WaitingApproval), (''waiting_review'', WaitingReview), (''waiting_callback'', WaitingCallback),
      (''paused_budget'', PausedBudget), (''paused_callback_delivery'', PausedCallbackDelivery), (''paused_policy'', PausedPolicy),
      (''paused_operator'', PausedOperator), (''resuming'', RunResuming), (''completed'', RunCompleted),
      (''succeeded'', RunSucceeded), (''failed'', RunFailed), (''cancelled'', RunCancelled), (''expired'', RunExpired),
      (''policy_stopped'', PolicyStopped)]"

definition TERMINAL_RUN_STATUSES :: "run_status set" where
  "TERMINAL_RUN_STATUSES = {RunCompleted, RunSucceeded, RunFailed, RunCancelled, RunExpired, PolicyStopped}"

datatype run_invocation_mode = SyncMode | AcceptedMode | BackgroundMode

definition VALID_RUN_INVOCATION_MODES :: "(string, run_invocation_mode) dict" where
  "VALID_RUN_INVOCATION_MODES = [(''sync'', SyncMode), (''accepted'', AcceptedMode), (''background'', BackgroundMode)]"

definition validate_invocation_mode :: "pyval \<Rightarrow> run_store_error + run_invocation_mode" where
  "validate_invocation_mode v =
     (case v of
        PyStr s \<Rightarrow> (case map_of VALID_RUN_INVOCATION_MODES s of None \<Rightarrow> Inl RunValueError | Some m \<Rightarrow> Inr m)
      | _ \<Rightarrow> Inl RunValueError)"

record run_deployment_provenance =
  release_digest :: "string option"
  deployment_revision_id :: "string option"
  physical_plan_hash :: "string option"
  release_signature_digest :: "string option"

definition mk_run_deployment_provenance :: "pyval \<Rightarrow> pyval \<Rightarrow> pyval \<Rightarrow> pyval \<Rightarrow> run_store_error + run_deployment_provenance" where
  "mk_run_deployment_provenance release revision_id plan signature =
     bind_sum (validate_optional_run_string release) (\<lambda>r.
     bind_sum (validate_optional_run_string revision_id) (\<lambda>d.
     bind_sum (validate_optional_run_string plan) (\<lambda>p.
     bind_sum (validate_optional_run_string signature) (\<lambda>s.
     Inr \<lparr>release_digest = r, deployment_revision_id = d, physical_plan_hash = p, release_signature_digest = s\<rparr>))))"

definition production_digest :: "string \<Rightarrow> bool" where
  "production_digest value \<longleftrightarrow>
     (let digest = remove_prefix value ''sha256:'' in
      starts_with value ''sha256:'' \<and> length digest = 64 \<and> list_all (\<lambda>c. c \<in> set ''0123456789abcdef'') digest)"

definition validate_for_production :: "run_deployment_provenance \<Rightarrow> run_store_error + run_deployment_provenance" where
  "validate_for_production p =
     (if None \<in> set [release_digest p, deployment_revision_id p, physical_plan_hash p, release_signature_digest p] then Inl RunValueError
      else if \<not> list_all (\<lambda>d. production_digest (the d)) [release_digest p, physical_plan_hash p, release_signature_digest p]
      then Inl RunValueError
      else Inr p)"

record model_visible_tool =
  tool_name :: string
  resolved_tool_id :: string
  definition_digest :: string
  binding_digest :: string
  effective_policy_snapshot_id :: string
  allowed_for_principal :: bool
  tool_valid_until :: "string option"

text \<open>An iterable of tools: \<^const>\<open>None\<close> when it is none, entries \<^const>\<open>None\<close> that are no tool references.\<close>

type_synonym tools_arg = "model_visible_tool option list option"

definition visible_tools :: "tools_arg \<Rightarrow> run_store_error + model_visible_tool list" where
  "visible_tools v =
     (case v of
        None \<Rightarrow> Inl RunTypeError
      | Some xs \<Rightarrow>
          if None \<in> set xs then Inl RunValueError
          else if \<not> distinct (map (tool_name \<circ> the) xs) then Inl RunValueError
          else Inr (sort_key tool_name (map the xs)))"

record run_record =
  run_id :: string
  graph_hash :: string
  run_inputs :: json_state
  deployment_provenance :: run_deployment_provenance
  invocation_mode :: run_invocation_mode
  run_status :: run_status
  run_state :: json_state
  state_revision :: int
  model_visible_tools :: "model_visible_tool list"

text \<open>
  The constructor, on arguments whose types its callers have checked: identifiers are strings, the
  provenance is an instance, mode and status are valid, the revision is an integer.
\<close>

definition mk_run_record ::
  "string \<Rightarrow> string \<Rightarrow> json_arg \<Rightarrow> run_deployment_provenance \<Rightarrow> run_invocation_mode \<Rightarrow> run_status \<Rightarrow> json_arg \<Rightarrow> int
     \<Rightarrow> tools_arg \<Rightarrow> run_store_error + run_record" where
  "mk_run_record rid hash inputs provenance mode status state revision_no tools =
     bind_sum (validate_run_string (PyStr rid)) (\<lambda>rid'.
     bind_sum (validate_run_string (PyStr hash)) (\<lambda>hash'.
     bind_sum (validate_json_object inputs) (\<lambda>inputs'.
     bind_sum (validate_json_object state) (\<lambda>state'.
     if revision_no < 0 then Inl RunValueError
     else if MAX_SQLITE_INTEGER < revision_no then Inl RunValueError
     else bind_sum (visible_tools tools) (\<lambda>tools'.
       Inr \<lparr>run_id = rid', graph_hash = hash', run_inputs = inputs', deployment_provenance = provenance, invocation_mode = mode,
            run_status = status, run_state = state', state_revision = revision_no, model_visible_tools = tools'\<rparr>)))))"

definition state_arg :: "json_state \<Rightarrow> json_arg" where
  "state_arg d = copy_arg 0 (CopyDict d)"

definition rebuild_run :: "run_record \<Rightarrow> run_status \<Rightarrow> json_state \<Rightarrow> int \<Rightarrow> tools_arg \<Rightarrow> run_store_error + run_record" where
  "rebuild_run r status state revision_no tools =
     mk_run_record (run_id r) (graph_hash r) (state_arg (run_inputs r)) (deployment_provenance r) (invocation_mode r)
       status (state_arg state) revision_no tools"

definition copy_run_record :: "run_record \<Rightarrow> run_store_error + run_record" where
  "copy_run_record r =
     rebuild_run r (run_status r) (run_state r) (state_revision r) (Some (map Some (model_visible_tools r)))"

section \<open>Patches\<close>

fun dict_at :: "string list \<Rightarrow> json_state \<Rightarrow> json_state" where
  "dict_at [] d = d"
| "dict_at (k # path) d = (case map_of d k of Some (CopyDict e) \<Rightarrow> dict_at path e | _ \<Rightarrow> [])"

fun update_at :: "string list \<Rightarrow> (json_state \<Rightarrow> json_state) \<Rightarrow> json_state \<Rightarrow> json_state" where
  "update_at [] f d = f d"
| "update_at (k # path) f d =
     (case map_of d k of Some (CopyDict e) \<Rightarrow> dict_set k (CopyDict (update_at path f e)) d | _ \<Rightarrow> d)"

type_synonym patch_stack = "(string list \<times> json_state) list"

definition patch_item :: "string list \<Rightarrow> string \<times> json_copy \<Rightarrow> json_state \<times> patch_stack \<Rightarrow> json_state \<times> patch_stack" where
  "patch_item path entry st =
     (case (entry, st) of ((key, value), (state, stack)) \<Rightarrow>
        if value = CopyLeaf LNone then (update_at path (dict_pop key) state, stack)
        else (case (value, map_of (dict_at path state) key) of
                (CopyDict source, Some (CopyDict _)) \<Rightarrow> (state, (path @ [key], source) # stack)
              | _ \<Rightarrow> (update_at path (dict_set key value) state, stack)))"

definition patch_stack_size :: "patch_stack \<Rightarrow> nat" where
  "patch_stack_size stack = sum_list (map (\<lambda>p. Suc (size (CopyDict (snd p)))) stack)"

lemma patch_items_size:
  "patch_stack_size (snd (fold (patch_item path) source (state, stack))) \<le> patch_stack_size stack + size_list (size_prod (\<lambda>_. 0) size) source"
proof (induction source arbitrary: state stack)
  case (Cons entry source)
  obtain key v where entry: "entry = (key, v)" by force
  have step: "patch_stack_size (snd (patch_item path entry (state, stack))) \<le> patch_stack_size stack + Suc (size v)"
    by (cases v) (auto simp: patch_item_def patch_stack_size_def entry split: option.splits json_copy.splits)
  obtain state' stack' where "patch_item path entry (state, stack) = (state', stack')" by force
  then show ?case using Cons.IH [of state' stack'] step by (simp add: entry size_prod_def)
qed simp

function patch_loop :: "patch_stack \<Rightarrow> json_state \<Rightarrow> json_state" where
  "patch_loop [] state = state"
| "patch_loop ((path, source) # stack) state =
     (case fold (patch_item path) source (state, stack) of (state', stack') \<Rightarrow> patch_loop stack' state')"
  by pat_completeness auto

termination
proof (relation "measure (\<lambda>(stack, state). patch_stack_size stack)", goal_cases)
  case (2 path source stack state state' stack')
  then have "fold (patch_item path) source (state, stack) = (state', stack')" by simp
  then show ?case using patch_items_size [of path source state stack] by (simp add: patch_stack_size_def)
qed simp

declare patch_loop.simps [simp del]

section \<open>The store\<close>

record run_store =
  store_runs :: "(string, run_record) dict"
  next_run_id :: int

type_synonym 'a run_method = "(run_store, run_store_error, 'a) py"

definition generated_id :: "int \<Rightarrow> string" where
  "generated_id n = ''run-'' @ fmt_06d n"

fun restore_run_records :: "(pyval \<times> run_record option) list \<Rightarrow> int \<Rightarrow> (string, run_record) dict \<Rightarrow> run_store_error + int \<times> (string, run_record) dict" where
  "restore_run_records [] highest restored = Inr (highest, restored)"
| "restore_run_records ((key, entry) # items) highest restored =
     bind_sum (validate_run_string key) (\<lambda>rid.
     case entry of
       None \<Rightarrow> Inl RunValueError
     | Some r \<Rightarrow>
         if run_id r \<noteq> rid then Inl RunValueError
         else bind_sum (copy_run_record r) (\<lambda>c.
           case numeric_suffix rid ''run-'' of
             None \<Rightarrow> restore_run_records items highest (dict_set rid c restored)
           | Some n \<Rightarrow>
               if MAX_SQLITE_INTEGER < n then Inl RunValueError
               else restore_run_records items (max highest n) (dict_set rid c restored)))"

text \<open>The argument \<open>runs\<close> is \<^const>\<open>None\<close> when it is no mapping.\<close>

definition mk_run_store :: "(pyval \<times> run_record option) list option \<Rightarrow> pyval \<Rightarrow> run_store_error + run_store" where
  "mk_run_store runs next_id =
     (case runs of
        None \<Rightarrow> Inl RunValueError
      | Some items \<Rightarrow>
          bind_sum (restore_run_records items 0 []) (\<lambda>(highest, restored).
          case next_id of
            PyInt n \<Rightarrow>
              if n \<le> 0 then Inl RunValueError
              else if MAX_SQLITE_INTEGER + 1 < n then Inl RunValueError
              else Inr \<lparr>store_runs = restored, next_run_id = max n (highest + 1)\<rparr>
          | _ \<Rightarrow> Inl RunValueError))"

text \<open>The loop that skips identifiers in use, up to the largest integer of the storage.\<close>

function skip_used :: "(string, run_record) dict \<Rightarrow> int \<Rightarrow> bool \<times> int" where
  "skip_used runs n =
     (if map_of runs (generated_id n) = None then (True, n)
      else if MAX_SQLITE_INTEGER \<le> n then (False, n)
      else skip_used runs (n + 1))"
  by pat_completeness auto

termination
  by (relation "measure (\<lambda>(runs, n). nat (MAX_SQLITE_INTEGER - n))") auto

declare skip_used.simps [simp del]

definition choose_run_id :: "string option \<Rightarrow> string run_method" where
  "choose_run_id requested =
     (case requested of
        None \<Rightarrow>
          bind_py (gets_py (\<lambda>s. skip_used (store_runs s) (next_run_id s))) (\<lambda>(free, n).
          bind_py (modify_py (\<lambda>s. s\<lparr>next_run_id := n\<rparr>)) (\<lambda>_.
          bind_py (raise_if (\<not> free) RunOverflowError) (\<lambda>_.
          bind_py (raise_if (MAX_SQLITE_INTEGER < n) RunOverflowError) (\<lambda>_.
          return_py (generated_id n)))))
      | Some rid \<Rightarrow>
          bind_py (gets_py store_runs) (\<lambda>runs.
          bind_py (raise_if (map_of runs rid \<noteq> None) RunValueError) (\<lambda>_. return_py rid)))"

definition create_run ::
  "pyval \<Rightarrow> json_arg \<Rightarrow> pyval \<Rightarrow> run_deployment_provenance instance_arg \<Rightarrow> pyval \<Rightarrow> tools_arg \<Rightarrow> run_record run_method" where
  "create_run hash inputs requested provenance mode tools =
     bind_py (lift_py (validate_run_string hash)) (\<lambda>hash'.
     bind_py (lift_py (validate_json_object inputs)) (\<lambda>inputs'.
     bind_py (lift_py (validate_optional_run_string requested)) (\<lambda>requested'.
     bind_py (raise_if (provenance = ArgOther) RunValueError) (\<lambda>_.
     bind_py (lift_py (validate_invocation_mode mode)) (\<lambda>mode'.
     bind_py (gets_py next_run_id) (\<lambda>n.
     bind_py (raise_if (MAX_SQLITE_INTEGER < n) RunOverflowError) (\<lambda>_.
     bind_py (choose_run_id requested') (\<lambda>rid.
     bind_py (lift_py (mk_run_record rid hash' (state_arg inputs')
       (case provenance of ArgObject p \<Rightarrow> p
        | _ \<Rightarrow> \<lparr>release_digest = None, deployment_revision_id = None, physical_plan_hash = None, release_signature_digest = None\<rparr>)
       mode' RunCreated (state_arg []) 0 tools)) (\<lambda>r.
     bind_py (modify_py (\<lambda>s. s\<lparr>next_run_id := next_run_id s + 1, store_runs := dict_set rid r (store_runs s)\<rparr>)) (\<lambda>_.
     return_py r))))))))))"

definition current_run :: "string \<Rightarrow> run_record run_method" where
  "current_run rid =
     bind_py (gets_py (\<lambda>s. map_of (store_runs s) rid)) (\<lambda>found.
     case found of None \<Rightarrow> raise_py RunKeyError | Some r \<Rightarrow> return_py r)"

definition get_run :: "pyval \<Rightarrow> run_record run_method" where
  "get_run v = bind_py (lift_py (validate_run_string v)) current_run"

definition store_run :: "string \<Rightarrow> run_record \<Rightarrow> run_record run_method" where
  "store_run rid r = bind_py (modify_py (\<lambda>s. s\<lparr>store_runs := dict_set rid r (store_runs s)\<rparr>)) (\<lambda>_. return_py r)"

fun expected_revision :: "pyval \<Rightarrow> run_store_error + int" where
  "expected_revision (PyInt n) =
     (if n < 0 then Inl RunValueError else if MAX_SQLITE_INTEGER < n then Inl RunValueError else Inr n)"
| "expected_revision _ = Inl RunValueError"

definition patch_state :: "pyval \<Rightarrow> json_arg \<Rightarrow> pyval \<Rightarrow> run_record run_method" where
  "patch_state v patch expected =
     bind_py (lift_py (validate_run_string v)) (\<lambda>rid.
     bind_py (lift_py (validate_json_object patch)) (\<lambda>patch'.
     bind_py (lift_py (expected_revision expected)) (\<lambda>n.
     bind_py (current_run rid) (\<lambda>current.
     bind_py (raise_if (run_status current \<in> TERMINAL_RUN_STATUSES) (RunTerminalStateError rid (run_status current))) (\<lambda>_.
     bind_py (raise_if (state_revision current \<noteq> n) (StateConflictError rid n (state_revision current))) (\<lambda>_.
     bind_py (raise_if (MAX_SQLITE_INTEGER \<le> state_revision current) RunOverflowError) (\<lambda>_.
     bind_py (lift_py (rebuild_run current (run_status current) (patch_loop [([], patch')] (run_state current))
       (state_revision current + 1) (Some (map Some (model_visible_tools current))))) (\<lambda>updated.
     store_run rid updated))))))))"

definition record_model_visible_tools :: "pyval \<Rightarrow> tools_arg \<Rightarrow> run_record run_method" where
  "record_model_visible_tools v tools =
     bind_py (lift_py (validate_run_string v)) (\<lambda>rid.
     bind_py (current_run rid) (\<lambda>current.
     bind_py (raise_if (run_status current \<in> TERMINAL_RUN_STATUSES) (RunTerminalStateError rid (run_status current))) (\<lambda>_.
     bind_py (lift_py (rebuild_run current (run_status current) (run_state current) (state_revision current) tools)) (\<lambda>updated.
     store_run rid updated))))"

definition mutable_status :: "pyval \<Rightarrow> run_store_error + run_status" where
  "mutable_status v =
     (if \<not> py_hashable v then Inl RunTypeError
      else case v of
        PyStr s \<Rightarrow>
          (case map_of VALID_RUN_STATUSES s of
             None \<Rightarrow> Inl RunValueError
           | Some st \<Rightarrow> if st = RunCreated then Inl RunValueError else Inr st)
      | _ \<Rightarrow> Inl RunValueError)"

definition set_status :: "pyval \<Rightarrow> pyval \<Rightarrow> run_record run_method" where
  "set_status v status =
     bind_py (lift_py (validate_run_string v)) (\<lambda>rid.
     bind_py (lift_py (mutable_status status)) (\<lambda>st.
     bind_py (current_run rid) (\<lambda>current.
     bind_py (raise_if (run_status current \<in> TERMINAL_RUN_STATUSES) (RunTerminalStateError rid (run_status current))) (\<lambda>_.
     bind_py (lift_py (rebuild_run current st (run_state current) (state_revision current) (Some (map Some (model_visible_tools current))))) (\<lambda>updated.
     store_run rid updated)))))"

end
