(* ===== verification/Run_Patch.thy ===== *)
theory Run_Patch
  imports Run_Store
begin

text \<open>
  The values that runs store, and state patches: the loop over a stack of references to nested
  dictionaries computes the recursive merge of the patch into the state, and merging keeps states
  valid.
\<close>

section \<open>Valid values\<close>

definition plain_string :: "string \<Rightarrow> bool" where
  "plain_string s \<longleftrightarrow> s \<noteq> [] \<and> py_strip s = s"

lemma non_empty_string_iff: "validate_run_string v = Inr s \<longleftrightarrow> v = PyStr s \<and> plain_string s"
  by (cases v) (auto simp: plain_string_def)

lemma plain_string_valid: "plain_string s \<Longrightarrow> validate_run_string (PyStr s) = Inr s"
  by (simp only: non_empty_string_iff)

lemma optional_string_iff:
  "validate_optional_run_string v = Inr s \<longleftrightarrow> (case s of None \<Rightarrow> v = PyNone | Some t \<Rightarrow> v = PyStr t \<and> plain_string t)"
  by (cases s)
    (auto simp: validate_optional_run_string_def bind_sum_Inr_iff non_empty_string_iff simp del: validate_run_string.simps)

fun json_ok :: "nat \<Rightarrow> json_copy \<Rightarrow> bool" where
  "json_ok depth (CopyLeaf l) \<longleftrightarrow> depth \<le> MAX_RUN_JSON_DEPTH \<and> json_scalar l = Inr (CopyLeaf l)"
| "json_ok depth (CopyList xs) \<longleftrightarrow> depth \<le> MAX_RUN_JSON_DEPTH \<and> (\<forall>x\<in>set xs. json_ok (depth + 1) x)"
| "json_ok depth (CopyDict d) \<longleftrightarrow>
     depth \<le> MAX_RUN_JSON_DEPTH \<and> dict_ok d \<and> (\<forall>(k, c)\<in>set d. plain_string k \<and> json_ok (depth + 1) c)"

lemma json_scalar_leaf: "json_scalar l = Inr c \<Longrightarrow> c = CopyLeaf l"
  by (cases l) (auto split: if_splits)

lemma json_key_iff: "json_key k = Inr key \<longleftrightarrow> k = ArgLeaf (LStr key) \<and> plain_string key"
  by (cases k rule: json_key.cases) (auto simp: non_empty_string_iff simp del: validate_run_string.simps)

lemma validated_ok:
  "validate_json_value active depth v = Inr c \<Longrightarrow> json_ok depth c"
  "validate_json_list active depth xs = Inr cs \<Longrightarrow> \<forall>c\<in>set cs. json_ok depth c"
  "validate_json_items active depth items snapshot = Inr d \<Longrightarrow> dict_ok snapshot \<Longrightarrow>
     \<forall>(k, c)\<in>set snapshot. plain_string k \<and> json_ok depth c \<Longrightarrow>
     dict_ok d \<and> (\<forall>(k, c)\<in>set d. plain_string k \<and> json_ok depth c)"
proof (induction active depth v and active depth xs and active depth items snapshot arbitrary: c and cs and d
    rule: validate_json_value_validate_json_list_validate_json_items.induct)
  case (1 active depth v)
  then have depth: "\<not> MAX_RUN_JSON_DEPTH < depth" by (auto simp: validate_json_value.simps)
  show ?case
  proof (cases v)
    case (ArgLeaf l)
    then have "json_scalar l = Inr c" using 1(3) depth by (simp add: validate_json_value.simps)
    then show ?thesis using json_scalar_leaf [of l c] depth by simp
  next
    case (ArgList i xs)
    then show ?thesis using 1 depth by (auto simp: validate_json_value.simps bind_sum_Inr_iff split: if_splits)
  next
    case (ArgTuple i xs)
    then show ?thesis using 1 depth by (simp add: validate_json_value.simps)
  next
    case (ArgMapping i items)
    then show ?thesis using 1 depth by (auto simp: validate_json_value.simps bind_sum_Inr_iff split: if_splits)
  qed
next
  case (5 active depth k v items snapshot)
  then obtain key c where c: "json_key k = Inr key" "validate_json_value active depth v = Inr c"
      "validate_json_items active depth items (dict_set key c snapshot) = Inr d"
    by (auto simp: bind_sum_Inr_iff)
  have "json_ok depth c" using 5(1) c by blast
  moreover have "plain_string key" using c(1) by (simp add: json_key_iff)
  ultimately have "\<forall>(k, c)\<in>set (dict_set key c snapshot). plain_string k \<and> json_ok depth c"
    using 5(5) dict_set_subset [of key c snapshot] by auto
  then show ?case using 5(2) [OF c(3)] 5(4) by simp
qed (auto simp: bind_sum_Inr_iff)

text \<open>Copying a valid value gives the value.\<close>

lemma validate_items_same:
  assumes "\<And>k c. (k, c) \<in> set d \<Longrightarrow> plain_string k \<and> validate_json_value active depth (f c) = Inr c" and "dict_ok (snapshot @ d)"
  shows "validate_json_items active depth (map (\<lambda>(k, c). (ArgLeaf (LStr k), f c)) d) snapshot = Inr (snapshot @ d)"
  using assms
proof (induction d arbitrary: snapshot)
  case (Cons p d)
  obtain k c where p: "p = (k, c)" by force
  have "map_of snapshot k = None" using Cons.prems(2) by (auto simp: p dict_ok_def map_of_eq_None_iff)
  moreover have "plain_string k" "validate_json_value active depth (f c) = Inr c" using Cons.prems(1) by (auto simp: p)
  moreover have "validate_json_items active depth (map (\<lambda>(k, c). (ArgLeaf (LStr k), f c)) d) (snapshot @ [p]) = Inr ((snapshot @ [p]) @ d)"
    by (rule Cons.IH) (use Cons.prems in auto)
  ultimately show ?case by (simp add: p dict_set_new plain_string_valid del: validate_run_string.simps)
qed simp

lemma validate_list_same:
  "(\<And>x. x \<in> set xs \<Longrightarrow> validate_json_value active depth (f x) = Inr x) \<Longrightarrow>
   validate_json_list active depth (map f xs) = Inr xs"
  by (induction xs) simp_all

lemma validate_copy_same:
  "json_ok depth c \<Longrightarrow> active \<subseteq> {..<n} \<Longrightarrow> validate_json_value active depth (copy_arg n c) = Inr c"
proof (induction depth c arbitrary: active n rule: json_ok.induct)
  case (1 depth l)
  then show ?case by (simp add: validate_json_value.simps)
next
  case (2 depth xs)
  have "validate_json_list (insert n active) (depth + 1) (map (copy_arg (n + 1)) xs) = Inr xs"
    proof (rule validate_list_same)
    fix x assume "x \<in> set xs"
    moreover have "insert n active \<subseteq> {..<n + 1}" using 2(3) by auto
    ultimately show "validate_json_value (insert n active) (depth + 1) (copy_arg (n + 1) x) = Inr x"
      using 2(1,2) by (meson json_ok.simps(2))
  qed
  then show ?case using 2(2,3) by (auto simp: validate_json_value.simps)
next
  case (3 depth d)
  have "validate_json_value (insert n active) (depth + 1) (copy_arg (n + 1) c) = Inr c" if "(k, c) \<in> set d" for k c
    by (rule 3(1) [OF that refl]) (use 3(2,3) that in auto)
  then have "validate_json_items (insert n active) (depth + 1) (map (\<lambda>(k, c). (ArgLeaf (LStr k), copy_arg (n + 1) c)) d) [] = Inr ([] @ d)"
    using 3(2) by (intro validate_items_same) auto
  then show ?case using 3(2,3) by (auto simp: validate_json_value.simps)
qed

abbreviation state_ok :: "json_state \<Rightarrow> bool" where
  "state_ok d \<equiv> json_ok 0 (CopyDict d)"

lemma validate_object_ok: "validate_json_object v = Inr d \<Longrightarrow> state_ok d"
proof -
  assume "validate_json_object v = Inr d"
  then have "\<exists>c. validate_json_value {} 0 v = Inr c \<and> (case c of CopyDict e \<Rightarrow> Inr e | _ \<Rightarrow> Inl RunValueError) = Inr d"
    by (auto simp: validate_json_object_def bind_sum_Inr_iff split: json_arg.splits)
  then obtain c where "validate_json_value {} 0 v = Inr c" "c = CopyDict d" by (metis (no_types) json_copy.exhaust json_copy.simps(10,11,12) Inl_Inr_False Inr_inject)
  then show ?thesis using validated_ok(1) by blast
qed

lemma validate_state_same: "state_ok d \<Longrightarrow> validate_json_object (state_arg d) = Inr d"
  using validate_copy_same [of 0 "CopyDict d" "{}" 0] by (simp add: validate_json_object_def state_arg_def)

section \<open>Merging\<close>

function (sequential) merge_patch :: "json_state \<Rightarrow> json_state \<Rightarrow> json_state"
and merge_value :: "json_copy \<Rightarrow> json_copy option \<Rightarrow> json_copy option" where
  "merge_patch [] target = target"
| "merge_patch ((key, value) # source) target =
     merge_patch source
       (case merge_value value (map_of target key) of None \<Rightarrow> dict_pop key target | Some c \<Rightarrow> dict_set key c target)"
| "merge_value (CopyLeaf LNone) current = None"
| "merge_value (CopyDict source) (Some (CopyDict target)) = Some (CopyDict (merge_patch source target))"
| "merge_value value current = Some value"
  by pat_completeness auto

termination
  by (relation "measure (\<lambda>x. case x of
      Inl (source, target) \<Rightarrow> size_list (size_prod (\<lambda>_. 0) size) source
    | Inr (v, current) \<Rightarrow> size v)") (auto simp: size_prod_def)

lemma merge_value_plain:
  "v \<noteq> CopyLeaf LNone \<Longrightarrow> (\<nexists>s t. v = CopyDict s \<and> current = Some (CopyDict t)) \<Longrightarrow> merge_value v current = Some v"
  by (cases "(v, current)" rule: merge_value.cases) auto

text \<open>What a merged state holds at a key.\<close>

lemma merge_patch_get:
  "dict_ok source \<Longrightarrow> map_of (merge_patch source target) k =
     (case map_of source k of None \<Rightarrow> map_of target k | Some v \<Rightarrow> merge_value v (map_of target k))"
proof (induction source arbitrary: target)
  case (Cons p source)
  obtain j v where p: "p = (j, v)" by force
  have "map_of source j = None" using Cons.prems by (auto simp: p dict_ok_def map_of_eq_None_iff)
  then show ?case using Cons by (auto simp: p dict_ok_def split: option.splits)
qed simp

lemma dict_set_swap: "k \<noteq> j \<Longrightarrow> map_of d k \<noteq> None \<Longrightarrow> dict_set k x (dict_set j y d) = dict_set j y (dict_set k x d)"
  by (induction d) auto

lemma dict_set_pop_swap: "k \<noteq> j \<Longrightarrow> dict_set k x (dict_pop j d) = dict_pop j (dict_set k x d)"
  by (induction d) (auto simp: AList.delete_eq)

lemma merge_update_swap:
  "k \<notin> fst ` set source \<Longrightarrow> update_at [k] f (merge_patch source target) = merge_patch source (update_at [k] f target)"
proof (induction source arbitrary: target)
  case (Cons p source)
  obtain j v where p: "p = (j, v)" by force
  let ?put = "\<lambda>m d. case m of None \<Rightarrow> dict_pop j d | Some c \<Rightarrow> dict_set j c d"
  have "k \<noteq> j" using Cons.prems by (auto simp: p)
  then have "update_at [k] f (?put m target) = ?put m (update_at [k] f target)" for m
    by (auto simp: dict_set_swap dict_set_pop_swap split: option.splits json_copy.splits)
  moreover have "map_of (update_at [k] f target) j = map_of target j"
    using \<open>k \<noteq> j\<close> by (auto split: option.splits json_copy.splits)
  ultimately show ?case using Cons by (simp add: p del: update_at.simps)
qed simp

section \<open>The loop\<close>

lemma update_at_append: "update_at (p @ q) f d = update_at p (update_at q f) d"
  by (induction p arbitrary: d) (auto split: option.splits json_copy.splits)

lemma update_at_twice: "update_at p f (update_at p g d) = update_at p (\<lambda>e. f (g e)) d"
  by (induction p arbitrary: d) (auto simp: update_last split: option.splits json_copy.splits)

lemma update_at_cong: "f (dict_at p d) = g (dict_at p d) \<Longrightarrow> update_at p f d = update_at p g d"
  by (induction p arbitrary: d) (auto split: option.splits json_copy.splits)

definition merge_stack :: "patch_stack \<Rightarrow> json_state \<Rightarrow> json_state" where
  "merge_stack stack state = fold (\<lambda>(path, source). update_at path (merge_patch source)) stack state"

lemma merge_stack_simps [simp]:
  "merge_stack [] state = state"
  "merge_stack ((path, source) # stack) state = merge_stack stack (update_at path (merge_patch source) state)"
  by (simp_all add: merge_stack_def)

lemma patch_items_merge:
  assumes "dict_ok source"
  shows "merge_stack (snd (fold (patch_item path) source (state, stack))) (fst (fold (patch_item path) source (state, stack))) =
     merge_stack stack (update_at path (merge_patch source) state)"
  using assms
proof (induction source arbitrary: state stack)
  case Nil
  have "update_at path (\<lambda>d. d) state = state"
  proof (induction path arbitrary: state)
    case (Cons k path)
    then show ?case by (auto simp: update_triv split: option.splits json_copy.splits)
  qed simp
  moreover have "merge_patch [] = (\<lambda>d. d)" by (rule ext) simp
  ultimately show ?case by simp
next
  case (Cons p source)
  obtain k v where p: "p = (k, v)" by force
  have k: "k \<notin> fst ` set source" "dict_ok source" using Cons.prems by (auto simp: p dict_ok_def)
  let ?t = "dict_at path state"
  consider (none) "v = CopyLeaf LNone"
    | (nested) s t where "v = CopyDict s" "map_of ?t k = Some (CopyDict t)"
    | (plain) "v \<noteq> CopyLeaf LNone" "\<nexists>s t. v = CopyDict s \<and> map_of ?t k = Some (CopyDict t)"
    by blast
  then show ?case
  proof cases
    case none
    then have "patch_item path p (state, stack) = (update_at path (dict_pop k) state, stack)"
      by (simp add: patch_item_def p)
    then show ?thesis using Cons.IH [OF k(2)] none by (simp add: p update_at_twice)
  next
    case nested
    then have "patch_item path p (state, stack) = (state, (path @ [k], s) # stack)"
      by (simp add: patch_item_def p)
    moreover have "update_at path (\<lambda>d. update_at [k] (merge_patch s) (merge_patch source d)) state = update_at path (merge_patch (p # source)) state"
      by (rule update_at_cong) (use nested merge_update_swap [OF k(1)] in \<open>simp add: p\<close>)
    ultimately show ?thesis using Cons.IH [OF k(2)] by (simp add: update_at_append update_at_twice)
  next
    case plain
    then have "patch_item path p (state, stack) = (update_at path (dict_set k v) state, stack)"
      by (auto simp: patch_item_def p split: json_copy.splits option.splits)
    moreover have "update_at path (\<lambda>d. merge_patch source (dict_set k v d)) state = update_at path (merge_patch (p # source)) state"
      by (rule update_at_cong) (simp add: p merge_value_plain [OF plain])
    ultimately show ?thesis using Cons.IH [OF k(2)] by (simp add: update_at_twice)
  qed
qed

lemma patch_items_ok:
  "\<forall>(k, v)\<in>set source. \<exists>n. json_ok n v \<Longrightarrow> \<forall>(q, s)\<in>set stack. \<exists>n. json_ok n (CopyDict s) \<Longrightarrow>
   \<forall>(q, s)\<in>set (snd (fold (patch_item path) source (state, stack))). \<exists>n. json_ok n (CopyDict s)"
proof (induction source arbitrary: state stack)
  case (Cons p source)
  obtain state' stack' where item: "patch_item path p (state, stack) = (state', stack')" by force
  then have "\<forall>(q, s)\<in>set stack'. \<exists>n. json_ok n (CopyDict s)"
    using Cons.prems by (fastforce simp: patch_item_def split: prod.splits if_splits json_copy.splits option.splits)
  then show ?case using Cons item by simp
qed simp

lemma patch_loop_merge_stack:
  "\<forall>(q, s)\<in>set stack. \<exists>n. json_ok n (CopyDict s) \<Longrightarrow> patch_loop stack state = merge_stack stack state"
proof (induction stack state rule: patch_loop.induct)
  case (2 path source stack state)
  obtain state' stack' where items: "fold (patch_item path) source (state, stack) = (state', stack')" by force
  obtain n where source: "json_ok n (CopyDict source)" using 2(2) by auto
  have "\<forall>(q, s)\<in>set stack'. \<exists>n. json_ok n (CopyDict s)"
    using patch_items_ok [of source stack path state] 2(2) source items by fastforce
  then have "patch_loop stack' state' = merge_stack stack' state'" using 2(1) items by simp
  then show ?case using patch_items_merge [of source path state stack] source items by (simp add: patch_loop.simps)
qed (simp add: patch_loop.simps)

lemma patch_loop_merge: "state_ok patch \<Longrightarrow> patch_loop [([], patch)] state = merge_patch patch state"
  using patch_loop_merge_stack [of "[([], patch)]" state] by auto

section \<open>Merging keeps states valid\<close>

lemma merge_ok:
  "json_ok depth (CopyDict source) \<Longrightarrow> json_ok depth (CopyDict target) \<Longrightarrow> json_ok depth (CopyDict (merge_patch source target))"
  "json_ok depth v \<Longrightarrow> (\<forall>c. current = Some c \<longrightarrow> json_ok depth c) \<Longrightarrow> merge_value v current = Some c \<Longrightarrow> json_ok depth c"
proof (induction source target and v current arbitrary: depth and depth c rule: merge_patch_merge_value.induct)
  case (2 key v source target)
  have current: "\<forall>c. map_of target key = Some c \<longrightarrow> json_ok (depth + 1) c"
    using 2(4) by (auto dest!: map_of_SomeD)
  show ?case
  proof (cases "merge_value v (map_of target key)")
    case None
    have "json_ok depth (CopyDict (dict_pop key target))" using 2(4) dict_pop_subset [of key target] by auto
    then show ?thesis using 2(2) [of depth] 2(3) None by (simp add: dict_ok_def)
  next
    case (Some c)
    have "json_ok (depth + 1) c" using 2(1) [of "depth + 1" c] 2(3) current Some by simp
    then have "json_ok depth (CopyDict (dict_set key c target))"
      using 2(3,4) dict_set_subset [of key c target] by auto
    then show ?thesis using 2(2) [of depth] 2(3) Some by (simp add: dict_ok_def)
  qed
next
  case (4 source target)
  then have "json_ok depth (CopyDict (merge_patch source target))" by blast
  then show ?case using 4(4) by (metis merge_value.simps(2) option.inject)
qed (simp_all del: json_ok.simps)

end
