(* ===== verification/Run_Store_Inv.thy ===== *)
theory Run_Store_Inv
  imports Run_Patch
begin

text \<open>
  The invariant of the run store and what its calls do: every call raises and keeps the runs,
  reads a run, adds a run under a new identifier, or replaces a run that is not terminal by a
  later version of it.
\<close>

section \<open>Records\<close>

definition run_record_ok :: "run_record \<Rightarrow> bool" where
  "run_record_ok r \<longleftrightarrow> plain_string (run_id r) \<and> plain_string (graph_hash r) \<and> state_ok (run_inputs r) \<and> state_ok (run_state r) \<and>
     0 \<le> state_revision r \<and> state_revision r \<le> MAX_SQLITE_INTEGER \<and>
     distinct (map tool_name (model_visible_tools r)) \<and> sorted (map tool_name (model_visible_tools r))"

abbreviation run_terminal :: "run_record \<Rightarrow> bool" where
  "run_terminal r \<equiv> run_status r \<in> TERMINAL_RUN_STATUSES"

lemma visible_tools_ok: "visible_tools tools = Inr ts \<Longrightarrow> distinct (map tool_name ts) \<and> sorted (map tool_name ts)"
proof -
  assume "visible_tools tools = Inr ts"
  then have "\<exists>xs. ts = sort_key tool_name xs \<and> distinct (map tool_name xs)"
    by (auto simp: visible_tools_def simp flip: map_map split: option.splits if_splits)
  then show ?thesis by (auto simp: distinct_map)
qed

lemma visible_tools_same:
  "distinct (map tool_name ts) \<Longrightarrow> sorted (map tool_name ts) \<Longrightarrow> visible_tools (Some (map Some ts)) = Inr ts"
  by (auto simp: visible_tools_def sort_key_id_if_sorted comp_def)

lemma mk_run_record_iff:
  "mk_run_record rid hash inputs provenance mode status state n tools = Inr r \<longleftrightarrow>
     plain_string rid \<and> plain_string hash \<and> 0 \<le> n \<and> n \<le> MAX_SQLITE_INTEGER \<and>
     (\<exists>inputs' state' ts. validate_json_object inputs = Inr inputs' \<and> validate_json_object state = Inr state' \<and> visible_tools tools = Inr ts \<and>
        r = \<lparr>run_id = rid, graph_hash = hash, run_inputs = inputs', deployment_provenance = provenance, invocation_mode = mode,
             run_status = status, run_state = state', state_revision = n, model_visible_tools = ts\<rparr>)"
  by (auto simp: mk_run_record_def bind_sum_Inr_iff non_empty_string_iff simp del: validate_run_string.simps split: if_splits)

lemma mk_run_record_ok: "mk_run_record rid hash inputs provenance mode status state n tools = Inr r \<Longrightarrow> run_record_ok r"
  unfolding mk_run_record_iff using visible_tools_ok validate_object_ok by (auto simp: run_record_ok_def simp del: json_ok.simps)

definition run_replaced :: "run_record \<Rightarrow> run_status \<Rightarrow> json_state \<Rightarrow> int \<Rightarrow> model_visible_tool list \<Rightarrow> run_record" where
  "run_replaced r status state n ts = r\<lparr>run_status := status, run_state := state, state_revision := n, model_visible_tools := ts\<rparr>"

lemma rebuild_run_eq:
  assumes "run_record_ok r" "state_ok state" "0 \<le> n" "n \<le> MAX_SQLITE_INTEGER"
  shows "rebuild_run r status state n tools = bind_sum (visible_tools tools) (\<lambda>ts. Inr (run_replaced r status state n ts))"
  using assms validate_state_same [of state] validate_state_same [of "run_inputs r"] plain_string_valid
  by (cases r) (simp add: rebuild_run_def mk_run_record_def run_record_ok_def run_replaced_def del: json_ok.simps validate_run_string.simps)

lemma rebuild_own_tools:
  assumes "run_record_ok r" "state_ok state" "0 \<le> n" "n \<le> MAX_SQLITE_INTEGER"
  shows "rebuild_run r status state n (Some (map Some (model_visible_tools r))) = Inr (run_replaced r status state n (model_visible_tools r))"
  using rebuild_run_eq [OF assms] visible_tools_same assms(1) by (simp add: run_record_ok_def)

lemma run_replaced_ok:
  assumes "run_record_ok r" "state_ok state" "0 \<le> n" "n \<le> MAX_SQLITE_INTEGER" "distinct (map tool_name ts)" "sorted (map tool_name ts)"
  shows "run_record_ok (run_replaced r status state n ts)"
  using assms by (simp add: run_record_ok_def run_replaced_def del: json_ok.simps)

section \<open>Versions of a run\<close>

text \<open>
  A later version of a run has its identifier, graph, inputs, provenance and mode; it is the same
  run when the earlier version is terminal, its revision is not smaller, and with the same revision
  it has the same state.
\<close>

definition run_later :: "run_record \<Rightarrow> run_record \<Rightarrow> bool" where
  "run_later r r' \<longleftrightarrow>
     run_id r' = run_id r \<and> graph_hash r' = graph_hash r \<and> run_inputs r' = run_inputs r \<and>
     deployment_provenance r' = deployment_provenance r \<and> invocation_mode r' = invocation_mode r \<and>
     (run_terminal r \<longrightarrow> r' = r) \<and> (run_status r' = RunCreated \<longrightarrow> run_status r = RunCreated) \<and>
     state_revision r \<le> state_revision r' \<and> (state_revision r' = state_revision r \<longrightarrow> run_state r' = run_state r)"

lemma run_later_refl: "run_later r r"
  by (simp add: run_later_def)

lemma run_later_trans: "run_later r r' \<Longrightarrow> run_later r' r'' \<Longrightarrow> run_later r r''"
  unfolding run_later_def by (metis order_antisym order_trans)

lemma run_replaced_later:
  "\<not> run_terminal r \<Longrightarrow> status \<noteq> RunCreated \<or> status = run_status r \<Longrightarrow>
   n = state_revision r \<and> state = run_state r \<or> n = state_revision r + 1 \<Longrightarrow> run_later r (run_replaced r status state n ts)"
  by (auto simp: run_later_def run_replaced_def)

section \<open>The invariant\<close>

definition runs_ok :: "run_store \<Rightarrow> bool" where
  "runs_ok s \<longleftrightarrow> dict_ok (store_runs s) \<and> (\<forall>k r. map_of (store_runs s) k = Some r \<longrightarrow> run_id r = k \<and> run_record_ok r) \<and>
     1 \<le> next_run_id s \<and> next_run_id s \<le> MAX_SQLITE_INTEGER + 1"

lemma runs_okD:
  assumes "runs_ok s" "map_of (store_runs s) k = Some r"
  shows "run_id r = k" "run_record_ok r" "plain_string k"
  using assms by (auto simp: runs_ok_def run_record_ok_def)

lemma runs_ok_set:
  "runs_ok s \<Longrightarrow> run_record_ok r \<Longrightarrow> 1 \<le> n \<Longrightarrow> n \<le> MAX_SQLITE_INTEGER + 1 \<Longrightarrow>
   runs_ok (s\<lparr>next_run_id := n, store_runs := dict_set (run_id r) r (store_runs s)\<rparr>)"
  by (simp add: runs_ok_def)

lemma copy_run_record_iff: "copy_run_record r = Inr c \<Longrightarrow> run_id c = run_id r \<and> run_record_ok c"
  unfolding copy_run_record_def rebuild_run_def using mk_run_record_ok by (auto simp: mk_run_record_iff)

lemma restore_run_records_ok:
  assumes "restore_run_records items h d = Inr (h', d')" "h \<le> MAX_SQLITE_INTEGER" "dict_ok d"
    and "\<forall>k r. map_of d k = Some r \<longrightarrow> run_id r = k \<and> run_record_ok r"
  shows "h' \<le> MAX_SQLITE_INTEGER \<and> dict_ok d' \<and> (\<forall>k r. map_of d' k = Some r \<longrightarrow> run_id r = k \<and> run_record_ok r)"
  using assms
proof (induction items h d rule: restore_run_records.induct)
  case (2 key e items h d)
  obtain rid where rid: "validate_run_string key = Inr rid" using 2(3) by (cases "validate_run_string key") auto
  obtain r where e: "e = Some r" using 2(3) rid by (cases e) auto
  have id: "run_id r = rid" using 2(3) rid e by (auto split: if_splits)
  obtain c where copy: "copy_run_record r = Inr c" using 2(3) rid e id by (cases "copy_run_record r") auto
  note c = rid e id copy
  have d: "dict_ok (dict_set rid c d)" "\<forall>k r. map_of (dict_set rid c d) k = Some r \<longrightarrow> run_id r = k \<and> run_record_ok r"
    using 2(5,6) copy_run_record_iff [OF c(4)] c(3) by auto
  show ?case
  proof (cases "numeric_suffix rid ''run-''")
    case None
    then have "restore_run_records items h (dict_set rid c d) = Inr (h', d')" using 2(3) c by simp
    then show ?thesis using 2(1) [OF e _ None _ 2(4) d] id by simp
  next
    case (Some n)
    then have "n \<le> MAX_SQLITE_INTEGER" "restore_run_records items (max h n) (dict_set rid c d) = Inr (h', d')"
      using 2(3) c by (auto split: if_splits)
    then show ?thesis using 2(2) [OF e _ Some _ _ _ d] 2(4) id by simp
  qed
qed simp

definition store_restored :: "run_store \<Rightarrow> bool" where
  "store_restored s \<longleftrightarrow> (\<exists>runs next_id. mk_run_store runs next_id = Inr s)"

lemma store_restored_ok: "store_restored s \<Longrightarrow> runs_ok s"
proof -
  assume "store_restored s"
  then obtain runs next_id where s: "mk_run_store runs next_id = Inr s" by (auto simp: store_restored_def)
  then obtain items where items: "runs = Some items" by (cases runs) (auto simp: mk_run_store_def)
  then obtain h d where "restore_run_records items 0 [] = Inr (h, d)"
    using s by (cases "restore_run_records items 0 []") (auto simp: mk_run_store_def)
  moreover from this obtain n where "next_id = PyInt n" using s items by (cases next_id) (auto simp: mk_run_store_def)
  moreover from calculation have "1 \<le> n" "n \<le> MAX_SQLITE_INTEGER + 1" "s = \<lparr>store_runs = d, next_run_id = max n (h + 1)\<rparr>"
    using s items by (auto simp: mk_run_store_def split: if_splits)
  ultimately show ?thesis using restore_run_records_ok [of items 0 "[]" h d] by (auto simp: runs_ok_def)
qed

section \<open>Creation\<close>

text \<open>The loop stops at the first free number, or at the largest integer when all are in use.\<close>

lemma skip_used_spec:
  assumes "skip_used runs n = (free, m)" "n \<le> MAX_SQLITE_INTEGER"
  shows "n \<le> m \<and> m \<le> MAX_SQLITE_INTEGER \<and> (\<forall>i. n \<le> i \<and> i < m \<longrightarrow> map_of runs (generated_id i) \<noteq> None) \<and>
    (if free then map_of runs (generated_id m) = None else m = MAX_SQLITE_INTEGER \<and> map_of runs (generated_id m) \<noteq> None)"
  using assms
proof (induction runs n rule: skip_used.induct)
  case (1 runs n)
  show ?case
  proof (cases "map_of runs (generated_id n) = None \<or> MAX_SQLITE_INTEGER \<le> n")
    case True
    then show ?thesis using "1.prems" by (auto simp: skip_used.simps [of runs n] split: if_splits)
  next
    case False
    then have skip: "skip_used runs (n + 1) = (free, m)" using "1.prems"(1) by (subst (asm) skip_used.simps) (auto split: if_splits)
    have IH: "n + 1 \<le> m \<and> m \<le> MAX_SQLITE_INTEGER \<and> (\<forall>i. n + 1 \<le> i \<and> i < m \<longrightarrow> map_of runs (generated_id i) \<noteq> None) \<and>
      (if free then map_of runs (generated_id m) = None else m = MAX_SQLITE_INTEGER \<and> map_of runs (generated_id m) \<noteq> None)"
      by (rule "1.IH") (use False skip in auto)
    moreover have "map_of runs (generated_id i) \<noteq> None" if "n \<le> i" "i < m" for i
      using IH False that by (cases "i = n") auto
    ultimately show ?thesis by (cases free) auto
  qed
qed

definition default_provenance :: "run_deployment_provenance instance_arg \<Rightarrow> run_deployment_provenance" where
  "default_provenance p = (case p of ArgObject q \<Rightarrow> q
     | _ \<Rightarrow> \<lparr>release_digest = None, deployment_revision_id = None, physical_plan_hash = None, release_signature_digest = None\<rparr>)"

definition new_run ::
  "string \<Rightarrow> string \<Rightarrow> json_state \<Rightarrow> run_deployment_provenance \<Rightarrow> run_invocation_mode \<Rightarrow> model_visible_tool list \<Rightarrow> run_record" where
  "new_run rid hash inputs provenance mode ts =
     \<lparr>run_id = rid, graph_hash = hash, run_inputs = inputs, deployment_provenance = provenance, invocation_mode = mode,
      run_status = RunCreated, run_state = [], state_revision = 0, model_visible_tools = ts\<rparr>"

lemma generated_id_plain: "0 \<le> n \<Longrightarrow> plain_string (generated_id n)"
proof -
  assume "0 \<le> n"
  then have "fmt_06d n \<noteq> []" "list_all is_digit (fmt_06d n)" using fmt_06d_decimal by (auto simp: is_ascii_decimal_def)
  then have "\<not> py_space (last (generated_id n))" by (simp add: generated_id_def list_all_iff digit_not_space)
  moreover have "\<not> py_space (hd (generated_id n))" by (simp add: generated_id_def py_space_def)
  ultimately show ?thesis using strip_id [of "generated_id n"] by (auto simp: plain_string_def generated_id_def)
qed

lemma mk_new_run:
  assumes "plain_string rid" "plain_string hash" "state_ok inputs"
  shows "mk_run_record rid hash (state_arg inputs) provenance mode RunCreated (state_arg []) 0 tools =
    bind_sum (visible_tools tools) (\<lambda>ts. Inr (new_run rid hash inputs provenance mode ts))"
  using assms validate_state_same [of inputs] validate_state_same [of "[]"] plain_string_valid
  by (simp add: mk_run_record_def new_run_def del: validate_run_string.simps)

text \<open>A run created in a store: its number is the next one, or the first free one when no identifier is asked for.\<close>

definition run_created ::
  "pyval \<Rightarrow> json_arg \<Rightarrow> pyval \<Rightarrow> run_deployment_provenance instance_arg \<Rightarrow> pyval \<Rightarrow> tools_arg \<Rightarrow> run_store \<Rightarrow> run_record \<Rightarrow> run_store \<Rightarrow> bool" where
  "run_created hash inputs requested provenance mode tools s r t \<longleftrightarrow>
     (\<exists>rid hash' inputs' mode' ts n.
        r = new_run rid hash' inputs' (default_provenance provenance) mode' ts \<and>
        t = s\<lparr>next_run_id := n + 1, store_runs := dict_set rid r (store_runs s)\<rparr> \<and>
        map_of (store_runs s) rid = None \<and> run_record_ok r \<and> hash = PyStr hash' \<and> validate_json_object inputs = Inr inputs' \<and>
        validate_invocation_mode mode = Inr mode' \<and> visible_tools tools = Inr ts \<and>
        next_run_id s \<le> n \<and> n \<le> MAX_SQLITE_INTEGER \<and>
        (if requested = PyNone
         then rid = generated_id n \<and> (\<forall>i. next_run_id s \<le> i \<and> i < n \<longrightarrow> map_of (store_runs s) (generated_id i) \<noteq> None)
         else requested = PyStr rid \<and> n = next_run_id s))"

text \<open>A call that raises may have moved the counter over numbers in use; it leaves the runs.\<close>

lemma choose_run_id_wp:
  assumes "next_run_id s \<le> MAX_SQLITE_INTEGER"
  shows "wp (choose_run_id requested)
    (\<lambda>rid t. \<exists>n. t = s\<lparr>next_run_id := n\<rparr> \<and> map_of (store_runs s) rid = None \<and> next_run_id s \<le> n \<and> n \<le> MAX_SQLITE_INTEGER \<and>
       (case requested of
          None \<Rightarrow> rid = generated_id n \<and> (\<forall>i. next_run_id s \<le> i \<and> i < n \<longrightarrow> map_of (store_runs s) (generated_id i) \<noteq> None)
        | Some q \<Rightarrow> rid = q \<and> n = next_run_id s))
    (\<lambda>e t. \<exists>n. t = s\<lparr>next_run_id := n\<rparr> \<and> next_run_id s \<le> n \<and> n \<le> MAX_SQLITE_INTEGER + 1) s"
proof (cases requested)
  case None
  obtain free m where skip: "skip_used (store_runs s) (next_run_id s) = (free, m)" by force
  show ?thesis
    using skip_used_spec [OF skip assms] by (auto simp: choose_run_id_def None wp_rules skip)
next
  case (Some rid)
  then show ?thesis using assms by (auto simp: choose_run_id_def wp_rules intro: exI [of _ "next_run_id s"])
qed

lemma create_run_wp:
  assumes ok: "runs_ok s"
  shows "wp (create_run hash inputs requested provenance mode tools) (run_created hash inputs requested provenance mode tools s)
    (\<lambda>e t. \<exists>n. t = s\<lparr>next_run_id := n\<rparr> \<and> next_run_id s \<le> n \<and> n \<le> MAX_SQLITE_INTEGER + 1) s"
  unfolding create_run_def
proof (intro wp_intros, goal_cases)
  case (7 hash' inputs' requested' mode')
  have "next_run_id s \<le> MAX_SQLITE_INTEGER" using 7 by simp
  then show ?case
  proof (rule wp_bindI [OF choose_run_id_wp], elim exE conjE)
    fix rid t n
    assume t: "t = s\<lparr>next_run_id := n\<rparr>" and free: "map_of (store_runs s) rid = None" and n: "next_run_id s \<le> n" "n \<le> MAX_SQLITE_INTEGER"
      and chosen: "case requested' of
          None \<Rightarrow> rid = generated_id n \<and> (\<forall>i. next_run_id s \<le> i \<and> i < n \<longrightarrow> map_of (store_runs s) (generated_id i) \<noteq> None)
        | Some q \<Rightarrow> rid = q \<and> n = next_run_id s"
    have hash: "hash = PyStr hash'" "plain_string hash'" using 7(1) by (simp_all only: non_empty_string_iff)
    have requested: "case requested' of None \<Rightarrow> requested = PyNone | Some q \<Rightarrow> requested = PyStr q \<and> plain_string q"
      using 7(3) by (simp only: optional_string_iff)
    have "0 \<le> n" using ok n(1) by (simp add: runs_ok_def)
    then have rid: "plain_string rid" using chosen requested generated_id_plain by (auto split: option.splits)
    note mk = mk_new_run [OF rid hash(2) validate_object_ok [OF 7(2)], of "default_provenance provenance" mode' tools]
    show "wp (bind_py (lift_py (mk_run_record rid hash' (state_arg inputs')
           (case provenance of ArgObject p \<Rightarrow> p
            | _ \<Rightarrow> \<lparr>release_digest = None, deployment_revision_id = None, physical_plan_hash = None, release_signature_digest = None\<rparr>)
           mode' RunCreated (state_arg []) 0 tools)) (\<lambda>r.
         bind_py (modify_py (\<lambda>s. s\<lparr>next_run_id := next_run_id s + 1, store_runs := dict_set rid r (store_runs s)\<rparr>)) (\<lambda>_.
         return_py r))) (run_created hash inputs requested provenance mode tools s)
         (\<lambda>e t. \<exists>n. t = s\<lparr>next_run_id := n\<rparr> \<and> next_run_id s \<le> n \<and> n \<le> MAX_SQLITE_INTEGER + 1) t"
    proof (intro wp_intros)
      fix r assume "mk_run_record rid hash' (state_arg inputs')
           (case provenance of ArgObject p \<Rightarrow> p
            | _ \<Rightarrow> \<lparr>release_digest = None, deployment_revision_id = None, physical_plan_hash = None, release_signature_digest = None\<rparr>)
           mode' RunCreated (state_arg []) 0 tools = Inr r"
      then have r: "mk_run_record rid hash' (state_arg inputs') (default_provenance provenance) mode' RunCreated (state_arg []) 0 tools = Inr r"
        by (simp add: default_provenance_def)
      then obtain ts where "visible_tools tools = Inr ts" "r = new_run rid hash' inputs' (default_provenance provenance) mode' ts"
        by (auto simp: mk bind_sum_Inr_iff)
      then show "run_created hash inputs requested provenance mode tools s r
          (t\<lparr>next_run_id := next_run_id t + 1, store_runs := dict_set rid r (store_runs t)\<rparr>)"
        using 7 t free n chosen requested hash mk_run_record_ok [OF r]
        by (auto simp: run_created_def new_run_def split: option.splits)
    qed (use t n in auto)
  qed
qed (use ok in \<open>auto simp: runs_ok_def intro: exI [of _ "next_run_id s"]\<close>)

section \<open>Updates\<close>

definition run_updated :: "run_store \<Rightarrow> run_record \<Rightarrow> run_store \<Rightarrow> bool" where
  "run_updated s r' t \<longleftrightarrow>
     (\<exists>r. map_of (store_runs s) (run_id r') = Some r \<and> \<not> run_terminal r \<and> run_record_ok r' \<and> run_later r r' \<and>
        t = s\<lparr>store_runs := dict_set (run_id r') r' (store_runs s)\<rparr>)"

lemma run_updatedI:
  assumes built: "rebuild_run r status state n tools = Inr r'" and ok: "runs_ok s"
    and r: "map_of (store_runs s) rid = Some r" "\<not> run_terminal r" and status: "status \<noteq> RunCreated \<or> status = run_status r"
    and state: "n = state_revision r \<and> state = run_state r \<or> n = state_revision r + 1 \<and> state_ok state \<and> n \<le> MAX_SQLITE_INTEGER"
  shows "run_updated s r' (s\<lparr>store_runs := dict_set rid r' (store_runs s)\<rparr>)"
proof -
  have r_ok: "run_id r = rid" "run_record_ok r" using runs_okD [OF ok r(1)] by simp_all
  then have fields: "state_ok state" "0 \<le> n" "n \<le> MAX_SQLITE_INTEGER" using state by (auto simp: run_record_ok_def simp del: json_ok.simps)
  then obtain ts where ts: "visible_tools tools = Inr ts" "r' = run_replaced r status state n ts"
    using built rebuild_run_eq [OF r_ok(2)] by (auto simp: bind_sum_Inr_iff)
  have "run_id r' = rid" using r_ok ts by (simp add: run_replaced_def)
  moreover have "run_record_ok r'" using run_replaced_ok [OF r_ok(2) fields] visible_tools_ok ts by blast
  moreover have "run_later r r'" unfolding ts(2) by (rule run_replaced_later [OF r(2) status]) (use state in auto)
  ultimately show ?thesis using r unfolding run_updated_def by blast
qed

lemma expected_revision_iff: "expected_revision v = Inr n \<longleftrightarrow> v = PyInt n \<and> 0 \<le> n \<and> n \<le> MAX_SQLITE_INTEGER"
  by (cases v) auto

lemma stored_state_ok: "runs_ok s \<Longrightarrow> map_of (store_runs s) k = Some r \<Longrightarrow> state_ok (run_state r)"
  using runs_okD(2) [of s k r] by (simp add: run_record_ok_def)

lemma patched_ok:
  "validate_json_object patch = Inr p \<Longrightarrow> state_ok state \<Longrightarrow> state_ok (patch_loop [([], p)] state)"
  by (simp add: patch_loop_merge validate_object_ok merge_ok(1) del: json_ok.simps)

lemma wp_current_run:
  assumes "map_of (store_runs s) rid = None \<Longrightarrow> E RunKeyError s" "\<And>r. map_of (store_runs s) rid = Some r \<Longrightarrow> wp (f r) Q E s"
  shows "wp (bind_py (current_run rid) f) Q E s"
  using assms by (auto simp: current_run_def wp_rules split: option.splits)

lemma patch_state_wp: "runs_ok s \<Longrightarrow> wp (patch_state v patch expected) (run_updated s) (\<lambda>_ t. t = s) s"
  unfolding patch_state_def store_run_def
  by (intro wp_intros wp_current_run; (rule refl)?) (erule run_updatedI; auto intro: patched_ok stored_state_ok simp del: json_ok.simps)

lemma record_tools_wp: "runs_ok s \<Longrightarrow> wp (record_model_visible_tools v tools) (run_updated s) (\<lambda>_ t. t = s) s"
  unfolding record_model_visible_tools_def store_run_def
  by (intro wp_intros wp_current_run; (rule refl)?) (erule run_updatedI; simp)

lemma mutable_status_not_created: "mutable_status v = Inr st \<Longrightarrow> st \<noteq> RunCreated"
  by (auto simp: mutable_status_def split: if_splits pyval.splits option.splits)

lemma set_status_wp: "runs_ok s \<Longrightarrow> wp (set_status v status) (run_updated s) (\<lambda>_ t. t = s) s"
  unfolding set_status_def store_run_def
  by (intro wp_intros wp_current_run; (rule refl)?) (erule run_updatedI; simp add: mutable_status_not_created)

lemma get_run_eq:
  "get_run v s = (case validate_run_string v of
     Inl e \<Rightarrow> (Inl e, s)
   | Inr rid \<Rightarrow> (case map_of (store_runs s) rid of None \<Rightarrow> (Inl RunKeyError, s) | Some r \<Rightarrow> (Inr r, s)))"
  by (simp add: get_run_def current_run_def py_run split: sum.splits option.splits)

lemma patch_state_eq:
  assumes ok: "runs_ok s" and r: "map_of (store_runs s) rid = Some r"
    and p: "validate_json_object patch = Inr p" and n: "expected_revision expected = Inr n"
  shows "patch_state (PyStr rid) patch expected s =
    (if run_terminal r then (Inl (RunTerminalStateError rid (run_status r)), s)
     else if state_revision r \<noteq> n then (Inl (StateConflictError rid n (state_revision r)), s)
     else if state_revision r = MAX_SQLITE_INTEGER then (Inl RunOverflowError, s)
     else let r' = run_replaced r (run_status r) (merge_patch p (run_state r)) (n + 1) (model_visible_tools r)
          in (Inr r', s\<lparr>store_runs := dict_set rid r' (store_runs s)\<rparr>))"
proof -
  note r_ok = runs_okD [OF ok r]
  have "state_ok (merge_patch p (run_state r))"
    using patched_ok [OF p stored_state_ok [OF ok r]] by (simp only: patch_loop_merge validate_object_ok [OF p])
  moreover have "n \<le> MAX_SQLITE_INTEGER" "0 \<le> n" using n by (auto simp: expected_revision_iff)
  ultimately show ?thesis
    using rebuild_own_tools [OF r_ok(2), of "merge_patch p (run_state r)" "n + 1" "run_status r"] plain_string_valid [OF r_ok(3)] patch_loop_merge [OF validate_object_ok [OF p]]
    by (auto simp: patch_state_def current_run_def store_run_def p n r py_run Let_def
        simp del: json_ok.simps validate_run_string.simps)
qed

section \<open>The store as a machine\<close>

datatype run_call =
    CreateRun pyval json_arg pyval "run_deployment_provenance instance_arg" pyval tools_arg
  | GetRun pyval
  | PatchState pyval json_arg pyval
  | RecordTools pyval tools_arg
  | SetStatus pyval pyval

primrec run_effect :: "run_call \<Rightarrow> run_record run_method" where
  "run_effect (CreateRun hash inputs requested provenance mode tools) = create_run hash inputs requested provenance mode tools"
| "run_effect (GetRun v) = get_run v"
| "run_effect (PatchState v patch expected) = patch_state v patch expected"
| "run_effect (RecordTools v tools) = record_model_visible_tools v tools"
| "run_effect (SetStatus v status) = set_status v status"

definition run_exec :: "run_call \<Rightarrow> run_store \<Rightarrow> run_store" where
  "run_exec call s = snd (run_effect call s)"

text \<open>What a call leaves: the runs, one more run, or one run in a later version.\<close>

definition run_step :: "run_store \<Rightarrow> run_store \<Rightarrow> bool" where
  "run_step s t \<longleftrightarrow>
     (\<exists>n. t = s\<lparr>next_run_id := n\<rparr> \<and> next_run_id s \<le> n \<and> n \<le> MAX_SQLITE_INTEGER + 1) \<or>
     (\<exists>r n. t = s\<lparr>next_run_id := n, store_runs := dict_set (run_id r) r (store_runs s)\<rparr> \<and> run_record_ok r \<and>
        map_of (store_runs s) (run_id r) = None \<and> next_run_id s \<le> n \<and> n \<le> MAX_SQLITE_INTEGER + 1) \<or>
     (\<exists>r. run_updated s r t)"

lemma run_step_same: "runs_ok s \<Longrightarrow> run_step s s"
  unfolding run_step_def by (rule disjI1, rule exI [of _ "next_run_id s"]) (simp add: runs_ok_def)

lemma run_created_step: "run_created hash inputs requested provenance mode tools s r t \<Longrightarrow> run_step s t"
proof -
  assume "run_created hash inputs requested provenance mode tools s r t"
  then obtain n where "t = s\<lparr>next_run_id := n + 1, store_runs := dict_set (run_id r) r (store_runs s)\<rparr>" "run_record_ok r"
      "map_of (store_runs s) (run_id r) = None" "next_run_id s \<le> n + 1" "n + 1 \<le> MAX_SQLITE_INTEGER + 1"
    by (fastforce simp: run_created_def new_run_def)
  then show ?thesis unfolding run_step_def by blast
qed

lemma run_exec_step: assumes ok: "runs_ok s" shows "run_step s (run_exec call s)"
proof -
  have update: "wp m (\<lambda>_. run_step s) (\<lambda>_. run_step s) s" if "wp m (run_updated s) (\<lambda>_ t. t = s) s" for m
    by (rule wp_mono [OF that]) (use ok in \<open>auto simp: run_step_same, auto simp: run_step_def\<close>)
  have "wp (run_effect call) (\<lambda>_. run_step s) (\<lambda>_. run_step s) s"
  proof (cases call)
    case (CreateRun hash inputs requested provenance mode tools)
    show ?thesis unfolding CreateRun run_effect.simps
      by (rule wp_mono [OF create_run_wp [OF ok]]) (auto intro: run_created_step, auto simp: run_step_def)
  next
    case (GetRun v)
    then show ?thesis using run_step_same [OF ok] by (simp add: wp_def get_run_eq split: sum.splits option.splits)
  qed (simp_all add: update patch_state_wp record_tools_wp set_status_wp ok)
  then show ?thesis unfolding run_exec_def by (rule wp_state)
qed

lemma runs_ok_step: "runs_ok s \<Longrightarrow> run_step s t \<Longrightarrow> runs_ok t"
  by (auto simp: run_step_def run_updated_def runs_ok_def split: if_splits)

lemma run_step_history:
  "runs_ok s \<Longrightarrow> run_step s t \<Longrightarrow> map_of (store_runs s) k = Some r \<Longrightarrow> \<exists>r'. map_of (store_runs t) k = Some r' \<and> run_later r r'"
  by (auto simp: run_step_def run_updated_def run_later_refl)

interpretation run_machine: tracked_machine store_restored run_exec runs_ok "\<lambda>s. map_of (store_runs s)" run_later
  by unfold_locales
    (blast intro: store_restored_ok run_exec_step runs_ok_step run_later_refl run_later_trans run_step_history)+

end
