(* ===== verification/Run_Store_Props.thy ===== *)
theory Run_Store_Props
  imports Run_Store_Inv
begin

text \<open>
  Properties of the run store: a patch is a recursive merge, it is accepted exactly under the
  current revision of a run that is not terminal, no update is lost, terminal runs are final, and
  creation gives each run an identifier of its own.
\<close>

section \<open>Reachable stores\<close>

definition run_reachable :: "run_store \<Rightarrow> bool" where
  "run_reachable s \<longleftrightarrow> (\<exists>s0 calls. store_restored s0 \<and> s = fold run_exec calls s0)"

lemma run_reachable_ok: "run_reachable s \<Longrightarrow> runs_ok s"
  by (auto simp: run_reachable_def run_machine.inv_reachable)

lemma patch_accepted:
  assumes ok: "runs_ok s" and patched: "patch_state v patch expected s = (Inr r, t)"
  obtains r0 p n where "v = PyStr (run_id r)" "expected = PyInt n" "0 \<le> n" "n \<le> MAX_SQLITE_INTEGER" "validate_json_object patch = Inr p"
    "map_of (store_runs s) (run_id r) = Some r0" "state_revision r0 = n" "state_revision r = n + 1"
    "map_of (store_runs t) (run_id r) = Some r"
proof -
  have w: "wp (patch_state v patch expected)
      (\<lambda>r' t'. \<exists>rid p n r0. v = PyStr rid \<and> validate_json_object patch = Inr p \<and> expected_revision expected = Inr n \<and>
         map_of (store_runs s) rid = Some r0) (\<lambda>_ _. True) s"
    unfolding patch_state_def store_run_def
    by (intro wp_intros wp_current_run) (auto simp: non_empty_string_iff simp del: validate_run_string.simps)
  obtain rid p n r0 where v: "v = PyStr rid" and p: "validate_json_object patch = Inr p" and n: "expected_revision expected = Inr n"
      and r0: "map_of (store_runs s) rid = Some r0"
    using wp_result [OF w patched] by blast
  have "state_revision r0 = n" "r = run_replaced r0 (run_status r0) (merge_patch p (run_state r0)) (n + 1) (model_visible_tools r0)"
      "t = s\<lparr>store_runs := dict_set rid r (store_runs s)\<rparr>"
    using patched patch_state_eq [OF ok r0 p n] by (auto simp: v Let_def split: if_splits)
  moreover have "run_id r0 = rid" using runs_okD [OF ok r0] by simp
  ultimately show thesis using that [of n p r0] v p n r0 by (simp add: run_replaced_def expected_revision_iff)
qed


section \<open>Samples\<close>

definition sample_run_patch :: json_arg where
  "sample_run_patch = ArgMapping 0 [(ArgLeaf (LStr ''a''), ArgMapping 1 [(ArgLeaf (LStr ''b''), ArgLeaf (LInt 1)), (ArgLeaf (LStr ''c''), ArgLeaf LNone)]),
     (ArgLeaf (LStr ''d''), ArgLeaf LNone)]"

definition sample_patch_state :: json_state where
  "sample_patch_state = [(''a'', CopyDict [(''b'', CopyLeaf LNone), (''c'', CopyLeaf (LInt 2)), (''e'', CopyLeaf (LInt 3))]), (''d'', CopyLeaf (LInt 4))]"

definition sample_patch_copy :: json_state where
  "sample_patch_copy = [(''a'', CopyDict [(''b'', CopyLeaf (LInt 1)), (''c'', CopyLeaf LNone)]), (''d'', CopyLeaf LNone)]"

lemma plain_samples:
  "plain_string ''a''" "plain_string ''b''" "plain_string ''c''" "plain_string ''d''" "plain_string ''h''" "plain_string ''run-000001''"
  by (simp_all add: plain_string_def py_strip_def py_space_def)

lemmas sample_run_strings = plain_samples [THEN plain_string_valid]

lemma sample_patch_valid: "validate_json_object sample_run_patch = Inr sample_patch_copy"
  by (simp add: sample_run_patch_def sample_patch_copy_def validate_json_object_def validate_json_value.simps sample_run_strings
      del: validate_run_string.simps)

definition empty_run_store :: run_store where
  "empty_run_store = \<lparr>store_runs = [], next_run_id = 1\<rparr>"

definition sample_create :: run_call where
  "sample_create = CreateRun (PyStr ''h'') (ArgMapping 0 []) PyNone ArgNone (PyStr ''sync'') (Some [])"

definition sample_run :: run_record where
  "sample_run = new_run ''run-000001'' ''h'' [] (default_provenance ArgNone) SyncMode []"

definition sample_run_store :: run_store where
  "sample_run_store = \<lparr>store_runs = [(''run-000001'', sample_run)], next_run_id = 2\<rparr>"

lemma empty_run_store_restored: "store_restored empty_run_store"
proof -
  have "mk_run_store (Some []) (PyInt 1) = Inr empty_run_store" by code_simp
  then show ?thesis unfolding store_restored_def by blast
qed

lemma empty_object_valid: "validate_json_object (ArgMapping ident []) = Inr []"
  by (simp add: validate_json_object_def validate_json_value.simps)

lemma sync_mode_valid: "validate_invocation_mode (PyStr ''sync'') = Inr SyncMode"
  by (simp add: validate_invocation_mode_def VALID_RUN_INVOCATION_MODES_def)

lemma generated_id_1: "generated_id 1 = ''run-000001''"
  by (simp add: generated_id_def fmt_06d_digit)

lemma sample_created: "run_effect sample_create empty_run_store = (Inr sample_run, sample_run_store)"
  using mk_new_run [OF plain_samples(6) plain_samples(5), of "[]" "default_provenance ArgNone" SyncMode "Some []"]
  by (simp add: sample_create_def create_run_def choose_run_id_def py_run sample_run_strings empty_object_valid sync_mode_valid validate_optional_run_string_def
      empty_run_store_def skip_used.simps generated_id_1 visible_tools_def sample_run_def sample_run_store_def default_provenance_def
      del: validate_run_string.simps cong: bind_run_cong)

lemma empty_run_store_reachable: "run_reachable empty_run_store"
  using empty_run_store_restored unfolding run_reachable_def by (metis fold_simps(1))

lemma sample_run_store_reachable: "run_reachable sample_run_store"
  unfolding run_reachable_def
  by (rule exI [of _ empty_run_store], rule exI [of _ "[sample_create]"]) (simp add: empty_run_store_restored run_exec_def sample_created)

lemma sample_run_lookup: "map_of (store_runs sample_run_store) ''run-000001'' = Some sample_run"
  by code_simp

definition sample_run_patched :: run_record where
  "sample_run_patched = sample_run\<lparr>run_state := [(''a'', CopyDict [(''b'', CopyLeaf (LInt 1)), (''c'', CopyLeaf LNone)])], state_revision := 1\<rparr>"

definition sample_patched_store :: run_store where
  "sample_patched_store = \<lparr>store_runs = [(''run-000001'', sample_run_patched)], next_run_id = 2\<rparr>"

lemma sample_patch_steps:
  "\<not> run_status sample_run \<in> TERMINAL_RUN_STATUSES" "state_revision sample_run = 0"
  "run_replaced sample_run (run_status sample_run) (merge_patch sample_patch_copy (run_state sample_run)) 1 (model_visible_tools sample_run) = sample_run_patched"
  "sample_run\<lparr>run_state := merge_patch sample_patch_copy (run_state sample_run), state_revision := 1\<rparr> = sample_run_patched"
  "sample_run_store\<lparr>store_runs := dict_set ''run-000001'' sample_run_patched (store_runs sample_run_store)\<rparr> = sample_patched_store"
  by (simp_all add: sample_run_def new_run_def TERMINAL_RUN_STATUSES_def run_replaced_def sample_run_patched_def sample_run_store_def
      sample_patched_store_def sample_patch_copy_def)

lemma sample_patch_accepted:
  "patch_state (PyStr ''run-000001'') sample_run_patch (PyInt 0) sample_run_store = (Inr sample_run_patched, sample_patched_store)"
  using patch_state_eq [OF run_reachable_ok [OF sample_run_store_reachable] sample_run_lookup sample_patch_valid, of "PyInt 0" 0]
  by (simp add: sample_patch_steps)

section \<open>Properties\<close>

text \<open>
  C16: the loop over the stack of nested dictionaries computes the recursive merge: at every key of
  the patch a null removes the entry, a dictionary over a dictionary is merged into it and any other
  value replaces the entry; every other key keeps its value.
\<close>

theorem patch_merges_recursively:
  assumes "validate_json_object patch = Inr p"
  shows "patch_loop [([], p)] state = merge_patch p state \<and>
    (\<forall>k. map_of (patch_loop [([], p)] state) k = (case map_of p k of None \<Rightarrow> map_of state k | Some v \<Rightarrow> merge_value v (map_of state k)))"
  using patch_loop_merge [OF validate_object_ok [OF assms]] merge_patch_get validate_object_ok [OF assms] by simp

theorem patch_merges_recursively_witness:
  "patch_loop [([], sample_patch_copy)] sample_patch_state = [(''a'', CopyDict [(''b'', CopyLeaf (LInt 1)), (''e'', CopyLeaf (LInt 3))])]"
proof -
  have "merge_patch sample_patch_copy sample_patch_state = [(''a'', CopyDict [(''b'', CopyLeaf (LInt 1)), (''e'', CopyLeaf (LInt 3))])]"
    by code_simp
  then show ?thesis using patch_merges_recursively [OF sample_patch_valid] by simp
qed

text \<open>
  C17: a valid patch of a stored run is refused when the run is terminal, when its revision is not
  the expected one and when the revision cannot grow, without any change; otherwise the state
  becomes the merge, the revision grows by one and nothing else of the run or the store changes.
\<close>

theorem patch_state_decision:
  assumes "run_reachable s" "map_of (store_runs s) rid = Some r" "validate_json_object patch = Inr p" "0 \<le> n" "n \<le> MAX_SQLITE_INTEGER"
  shows "patch_state (PyStr rid) patch (PyInt n) s =
    (if run_status r \<in> TERMINAL_RUN_STATUSES then (Inl (RunTerminalStateError rid (run_status r)), s)
     else if state_revision r \<noteq> n then (Inl (StateConflictError rid n (state_revision r)), s)
     else if n = MAX_SQLITE_INTEGER then (Inl RunOverflowError, s)
     else let r' = r\<lparr>run_state := merge_patch p (run_state r), state_revision := n + 1\<rparr>
          in (Inr r', s\<lparr>store_runs := dict_set rid r' (store_runs s)\<rparr>))"
proof -
  have "expected_revision (PyInt n) = Inr n" using assms(4,5) by simp
  moreover have "run_replaced r (run_status r) state m (model_visible_tools r) = r\<lparr>run_state := state, state_revision := m\<rparr>" for state m
    by (cases r) (simp add: run_replaced_def)
  ultimately show ?thesis
    using patch_state_eq [OF run_reachable_ok [OF assms(1)] assms(2,3), of "PyInt n" n] by auto
qed

theorem patch_state_decision_witness:
  "patch_state (PyStr ''run-000001'') sample_run_patch (PyInt 0) sample_run_store = (Inr sample_run_patched, sample_patched_store)"
  using patch_state_decision [OF sample_run_store_reachable sample_run_lookup sample_patch_valid, of 0]
  by (simp add: Let_def sample_patch_steps)

text \<open>
  C28: whatever calls follow, a stored run stays stored with its graph, inputs, provenance and mode;
  a terminal run never changes again, the revision never goes back, and the revision identifies the
  state.
\<close>

theorem run_history:
  assumes "run_reachable s" "map_of (store_runs s) rid = Some r" "t = fold run_exec calls s"
  shows "\<exists>r'. map_of (store_runs t) rid = Some r' \<and> run_id r' = rid \<and> graph_hash r' = graph_hash r \<and> run_inputs r' = run_inputs r \<and>
    deployment_provenance r' = deployment_provenance r \<and> invocation_mode r' = invocation_mode r \<and>
    (run_status r \<in> TERMINAL_RUN_STATUSES \<longrightarrow> r' = r) \<and> state_revision r \<le> state_revision r' \<and>
    (state_revision r' = state_revision r \<longrightarrow> run_state r' = run_state r)"
  using run_machine.history_calls [OF run_reachable_ok [OF assms(1)] assms(2), of calls] runs_okD(1) [OF run_reachable_ok [OF assms(1)] assms(2)]
  unfolding assms(3) run_later_def by auto

theorem run_history_witness:
  "\<exists>r'. map_of (store_runs (fold run_exec [SetStatus (PyStr ''run-000001'') (PyStr ''succeeded''), sample_create] sample_run_store)) ''run-000001'' = Some r' \<and>
    run_inputs r' = []"
proof -
  have "run_inputs sample_run = []" by code_simp
  then show ?thesis using run_history [OF sample_run_store_reachable sample_run_lookup refl] by metis
qed

text \<open>
  C15: no update is lost: once a patch under some expected revision was accepted, every later valid
  patch of the run under the same revision is refused, as a conflict or because the run has become
  terminal, and changes nothing.
\<close>

theorem no_lost_update:
  assumes "run_reachable s" "patch_state v patch (PyInt n) s = (Inr r, t)" "u = fold run_exec calls t"
    and "validate_json_object patch' = Inr p"
  shows "(\<exists>st\<in>TERMINAL_RUN_STATUSES. patch_state v patch' (PyInt n) u = (Inl (RunTerminalStateError (run_id r) st), u)) \<or>
    (\<exists>m. n < m \<and> patch_state v patch' (PyInt n) u = (Inl (StateConflictError (run_id r) n m), u))"
proof -
  note ok = run_reachable_ok [OF assms(1)]
  have t: "t = run_exec (PatchState v patch (PyInt n)) s" using assms(2) by (simp add: run_exec_def)
  have ok_t: "runs_ok t" unfolding t by (rule run_machine.inv_call [OF ok])
  have ok_u: "runs_ok u" unfolding assms(3) by (rule run_machine.inv_calls [OF ok_t])
  obtain r0 p' m where v: "v = PyStr (run_id r)" "PyInt n = PyInt m" "0 \<le> m" "m \<le> MAX_SQLITE_INTEGER" "state_revision r = m + 1"
      "map_of (store_runs t) (run_id r) = Some r"
    using patch_accepted [OF ok assms(2)] by metis
  obtain r' where r': "map_of (store_runs u) (run_id r) = Some r'" "run_later r r'"
    using run_machine.history_calls [OF ok_t v(6), of calls] assms(3) by auto
  have "n < state_revision r'" using r'(2) v by (simp add: run_later_def)
  moreover have "expected_revision (PyInt n) = Inr n" using v by simp
  ultimately show ?thesis using patch_state_eq [OF ok_u r'(1) assms(4), of "PyInt n" n] v(1) by auto
qed

theorem no_lost_update_witness:
  "patch_state (PyStr ''run-000001'') sample_run_patch (PyInt 0)
     (fold run_exec [SetStatus (PyStr ''run-000001'') (PyStr ''running'')] sample_patched_store) \<noteq>
   (Inr sample_run_patched, sample_patched_store)"
  using no_lost_update [OF sample_run_store_reachable sample_patch_accepted refl sample_patch_valid,
      of "[SetStatus (PyStr ''run-000001'') (PyStr ''running'')]"]
  by auto

text \<open>
  C29: a created run has an identifier that was not in use, the one asked for or the first free
  number of the sequence; it is returned by a lookup as it was created, with the validated inputs,
  an empty state and revision zero, and no other run changes.
\<close>

theorem create_run_roundtrip:
  assumes "run_reachable s" "create_run hash inputs requested provenance mode tools s = (Inr r, t)"
  shows "map_of (store_runs s) (run_id r) = None \<and> get_run (PyStr (run_id r)) t = (Inr r, t) \<and>
    hash = PyStr (graph_hash r) \<and> validate_json_object inputs = Inr (run_inputs r) \<and> run_state r = [] \<and> state_revision r = 0 \<and>
    run_status r = RunCreated \<and> (\<forall>k. k \<noteq> run_id r \<longrightarrow> map_of (store_runs t) k = map_of (store_runs s) k) \<and>
    (if requested = PyNone
     then \<exists>n\<ge>next_run_id s. run_id r = generated_id n \<and> (\<forall>i. next_run_id s \<le> i \<and> i < n \<longrightarrow> map_of (store_runs s) (generated_id i) \<noteq> None)
     else requested = PyStr (run_id r))"
proof -
  have created: "run_created hash inputs requested provenance mode tools s r t"
    using wp_result [OF create_run_wp [OF run_reachable_ok [OF assms(1)]] assms(2)] .
  then have "validate_run_string (PyStr (run_id r)) = Inr (run_id r)" "map_of (store_runs t) (run_id r) = Some r"
    by (auto simp: run_created_def new_run_def run_record_ok_def plain_string_valid simp del: validate_run_string.simps)
  then show ?thesis using created
    by (auto simp: run_created_def new_run_def get_run_eq simp del: validate_run_string.simps)
qed

theorem create_run_roundtrip_witness:
  "get_run (PyStr ''run-000001'') sample_run_store = (Inr sample_run, sample_run_store)"
proof -
  have "run_id sample_run = ''run-000001''" by code_simp
  then show ?thesis
    using create_run_roundtrip [OF empty_run_store_reachable sample_created [unfolded sample_create_def run_effect.simps]] by simp
qed



end
